(* ===== verification/Prelude.thy ===== *)
theory Prelude
  imports Main "HOL-Library.Word" "HOL-Library.Monad_Syntax"
begin

unbundle bit_operations_syntax

text \<open>
  Shared vocabulary of the development: bytes and machine words, the result codes of
  \<^verbatim>\<open>src/errors.h\<close>, big-endian integers on the wire and on disk, hexadecimal digits, and
  the generic lemmas on lists that the component theories use. The collection
  \<open>evr_layout\<close> gathers the constants that fix the size of a field or of a header, so that
  a layout computation is \<open>simp add: evr_layout\<close>.
\<close>

section \<open>Types\<close>

type_synonym byte = "8 word"
type_synonym bytes = "byte list"
type_synonym size_t = "64 word"
type_synonym evr_time = "64 word"
type_synonym c_int = "32 word"

named_theorems evr_layout

text \<open>The result codes. Functions of the sources return one of them as an \<open>int\<close>.\<close>

datatype evr_code =
    Evr_ok
  | Evr_error
  | Evr_not_found
  | Evr_temporary_occupied
  | Evr_end
  | Evr_user_data_invalid
  | Evr_exists
  | Evr_unknown_request
  | Evr_glacier_index_db_corrupt

fun evr_code_num :: "evr_code \<Rightarrow> nat" where
  "evr_code_num Evr_ok = 0"
| "evr_code_num Evr_error = 1"
| "evr_code_num Evr_not_found = 2"
| "evr_code_num Evr_temporary_occupied = 3"
| "evr_code_num Evr_end = 4"
| "evr_code_num Evr_user_data_invalid = 5"
| "evr_code_num Evr_exists = 6"
| "evr_code_num Evr_unknown_request = 7"
| "evr_code_num Evr_glacier_index_db_corrupt = 100"

lemma evr_code_num_inj: "evr_code_num a = evr_code_num b \<Longrightarrow> a = b"
  by (cases a; cases b; simp)

section \<open>Lists\<close>

text \<open>
  \<open>overwrite xs i ys\<close> replaces the elements of \<open>xs\<close> from index \<open>i\<close> on by \<open>ys\<close>:
  a \<^verbatim>\<open>memcpy\<close> into an array, or a \<^verbatim>\<open>write\<close> at a file position. Writing beyond the
  end extends a list (a file grows); array models check the bound first.
\<close>

definition overwrite :: "'a list \<Rightarrow> nat \<Rightarrow> 'a list \<Rightarrow> 'a list" where
  "overwrite xs i ys = take i xs @ ys @ drop (i + length ys) xs"

lemma overwrite_Nil [simp]: "overwrite xs i [] = xs"
  by (simp add: overwrite_def)

lemma length_overwrite [simp]:
  "i \<le> length xs \<Longrightarrow> length (overwrite xs i ys) = max (length xs) (i + length ys)"
  by (auto simp: overwrite_def)

lemma take_overwrite [simp]: "i \<le> length xs \<Longrightarrow> n \<le> i \<Longrightarrow> take n (overwrite xs i ys) = take n xs"
  by (simp add: overwrite_def min_def)

lemma drop_overwrite_ge:
  "i \<le> length xs \<Longrightarrow> i + length ys \<le> n \<Longrightarrow> drop n (overwrite xs i ys) = drop n xs"
  by (simp add: overwrite_def)

lemma overwrite_at_end: "overwrite xs (length xs) ys = xs @ ys"
  by (simp add: overwrite_def)

lemma overwrite_append_exact:
  "length xs = i \<Longrightarrow> length ys = length zs \<Longrightarrow> overwrite (xs @ ys @ ts) i zs = xs @ zs @ ts"
  by (simp add: overwrite_def)

lemma take_drop_overwrite:
  "i \<le> length xs \<Longrightarrow> take (length ys) (drop i (overwrite xs i ys)) = ys"
  by (simp add: overwrite_def)

lemma overwrite_overwrite:
  "i \<le> length xs \<Longrightarrow> overwrite (overwrite xs i ys) (i + length ys) zs = overwrite xs i (ys @ zs)"
  by (simp add: overwrite_def ac_simps)

lemma nth_overwrite:
  assumes "i \<le> length xs" "j < max (length xs) (i + length ys)"
  shows "overwrite xs i ys ! j =
    (if i \<le> j \<and> j < i + length ys then ys ! (j - i) else xs ! j)"
  using assms by (auto simp: overwrite_def nth_append min_def)

lemma take_Suc_drop_nth: "i < length xs \<Longrightarrow> drop i xs = xs ! i # drop (Suc i) xs"
  by (rule Cons_nth_drop_Suc [symmetric])

lemma take_add_drop: "take (m + n) xs = take m xs @ take n (drop m xs)"
  by (rule take_add)

section \<open>Big-endian integers\<close>

text \<open>
  \<^verbatim>\<open>htobe16/32/64\<close> followed by a store, and a load followed by \<^verbatim>\<open>be16/32/64toh\<close>, put
  the most significant byte first on every host. \<open>be_bytes n v\<close> is the \<open>n\<close> byte encoding
  of \<open>v\<close> modulo \<open>256 ^ n\<close>.
\<close>

primrec be_bytes :: "nat \<Rightarrow> nat \<Rightarrow> bytes" where
  "be_bytes 0 v = []"
| "be_bytes (Suc n) v = word_of_nat (v div 256 ^ n) # be_bytes n v"

primrec be_val :: "bytes \<Rightarrow> nat" where
  "be_val [] = 0"
| "be_val (b # bs) = unat b * 256 ^ length bs + be_val bs"

lemma length_be_bytes [simp]: "length (be_bytes n v) = n"
  by (induction n) auto

lemma unat_lt_256 [simp]: "unat (b :: byte) < 256"
  using unsigned_less [of b, where ?'a = nat] by simp

lemma unat_byte_max [simp]: "unat (b :: byte) \<le> 255"
  using unat_lt_256 [of b] by linarith

lemma unat_byte_not_gt [simp]: "\<not> 255 < unat (b :: byte)"
  using unat_byte_max [of b] by linarith

lemma be_val_bound: "be_val bs < 256 ^ length bs"
proof (induction bs)
  case (Cons b bs)
  have "unat b * 256 ^ length bs + be_val bs < unat b * 256 ^ length bs + 256 ^ length bs"
    using Cons.IH by simp
  also have "\<dots> = (unat b + 1) * 256 ^ length bs" by simp
  also have "\<dots> \<le> 256 * 256 ^ length bs"
    using unat_lt_256 [of b] by (intro mult_right_mono) linarith+
  finally show ?case by simp
qed simp

lemma unat_byte_of_nat: "unat (word_of_nat n :: byte) = n mod 256"
  by (simp add: unat_of_nat)

lemma byte_of_nat_mult_256: "word_of_nat (x * 256 + y) = (word_of_nat y :: byte)"
  by (rule word_unat_eq_iff [THEN iffD2]) (simp only: unat_byte_of_nat mod_mult_self3)

lemma be_val_be_bytes: "be_val (be_bytes n v) = v mod 256 ^ n"
proof (induction n)
  case (Suc n)
  have "v mod 256 ^ Suc n = 256 ^ n * (v div 256 ^ n mod 256) + v mod 256 ^ n"
    by (metis mod_mult2_eq power_Suc2)
  then show ?case using Suc.IH
    by (simp add: unat_byte_of_nat mult.commute)
qed simp

lemma be_bytes_add_mult: "be_bytes n (a * 256 ^ n + v) = be_bytes n v"
proof -
  have "be_bytes k (a * 256 ^ n + v) = be_bytes k v" if "k \<le> n" for k
    using that
  proof (induction k)
    case (Suc k)
    then obtain m where m: "n = Suc k + m" by (metis le_Suc_ex)
    have "a * 256 ^ n + v = v + (a * 256 ^ m * 256) * 256 ^ k"
      by (simp add: m power_add)
    moreover have "(v + (a * 256 ^ m * 256) * 256 ^ k) div 256 ^ k = a * 256 ^ m * 256 + v div 256 ^ k"
      by (rule div_mult_self1) simp
    ultimately have "(a * 256 ^ n + v) div 256 ^ k = a * 256 ^ m * 256 + v div 256 ^ k"
      by (simp only:)
    then have "word_of_nat ((a * 256 ^ n + v) div 256 ^ k) = (word_of_nat (v div 256 ^ k) :: byte)"
      by (simp only: byte_of_nat_mult_256)
    with Suc show ?case by simp
  qed simp
  then show ?thesis by simp
qed

lemma be_bytes_be_val: "be_bytes (length bs) (be_val bs) = bs"
proof (induction bs)
  case (Cons b bs)
  have "(unat b * 256 ^ length bs + be_val bs) div 256 ^ length bs = unat b"
    using be_val_bound [of bs] by simp
  with Cons.IH show ?case by (simp add: be_bytes_add_mult)
qed simp

lemma be_bytes_inj: "u < 256 ^ n \<Longrightarrow> v < 256 ^ n \<Longrightarrow> be_bytes n u = be_bytes n v \<Longrightarrow> u = v"
  using be_val_be_bytes by (metis mod_less)

text \<open>The widths the program uses.\<close>

definition be16 :: "16 word \<Rightarrow> bytes" where "be16 w = be_bytes 2 (unat w)"
definition be32 :: "32 word \<Rightarrow> bytes" where "be32 w = be_bytes 4 (unat w)"
definition be64 :: "64 word \<Rightarrow> bytes" where "be64 w = be_bytes 8 (unat w)"

lemma length_be [simp]: "length (be16 a) = 2" "length (be32 b) = 4" "length (be64 c) = 8"
  by (simp_all add: be16_def be32_def be64_def)

lemma be_val_be16 [simp]: "be_val (be16 w) = unat w"
  using unsigned_less [of w, where ?'a = nat] by (simp add: be16_def be_val_be_bytes)

lemma be_val_be32 [simp]: "be_val (be32 w) = unat w"
  using unsigned_less [of w, where ?'a = nat] by (simp add: be32_def be_val_be_bytes)

lemma be_val_be64 [simp]: "be_val (be64 w) = unat w"
  using unsigned_less [of w, where ?'a = nat] by (simp add: be64_def be_val_be_bytes)

section \<open>Hexadecimal digits\<close>

definition hex_char :: "nat \<Rightarrow> char" where
  "hex_char n = ''0123456789abcdef'' ! (n mod 16)"

definition hex_digit :: "char \<Rightarrow> nat option" where
  "hex_digit c =
    (let n = of_char c in
     if 48 \<le> n \<and> n \<le> 57 then Some (n - 48)
     else if 97 \<le> n \<and> n \<le> 102 then Some (n - 87)
     else if 65 \<le> n \<and> n \<le> 70 then Some (n - 55)
     else None)"

lemma less_16_cases:
  "n < 16 \<Longrightarrow> n \<in> {0, 1, 2, 3, 4, 5, 6, 7, 8, 9, 10, 11, 12, 13, 14, 15 :: nat}"
  by (simp, arith)

lemma hex_digit_hex_char [simp]: "hex_digit (hex_char n) = Some (n mod 16)"
proof -
  have "n mod 16 < 16" by simp
  then show ?thesis
    unfolding hex_char_def by (drule_tac less_16_cases) (auto simp: hex_digit_def)
qed

lemma hex_digit_bound: "hex_digit c = Some d \<Longrightarrow> d < 16"
  by (auto simp: hex_digit_def Let_def split: if_splits)

text \<open>\<^verbatim>\<open>%02x\<close> and \<^verbatim>\<open>%04x\<close> for values that fit into two and four digits.\<close>

definition fmt_02x :: "byte \<Rightarrow> string" where
  "fmt_02x b = [hex_char (unat b div 16), hex_char (unat b)]"

definition fmt_04x :: "16 word \<Rightarrow> string" where
  "fmt_04x w = [hex_char (unat w div 4096), hex_char (unat w div 256),
     hex_char (unat w div 16), hex_char (unat w)]"

lemma length_fmt_02x [simp]: "length (fmt_02x b) = 2"
  by (simp add: fmt_02x_def)

lemma length_fmt_04x [simp]: "length (fmt_04x w) = 4"
  by (simp add: fmt_04x_def)

section \<open>Outcomes\<close>

text \<open>
  An operation returns, or ends the process in \<^verbatim>\<open>evr_panic\<close>, or accesses memory it must not.
\<close>

datatype 'a exec = Ret 'a | Panic | Undef

section \<open>Ring indices\<close>

text \<open>An index is reduced by masking with the length, a power of two, less one.\<close>

lemma nat_and_exp_minus_1: "(x :: nat) AND (2 ^ k - 1) = x mod 2 ^ k"
  by (metis mask_eq_exp_minus_1 take_bit_eq_mask take_bit_eq_mod)

lemma mod_less_double: "(x :: nat) < 2 * n \<Longrightarrow> x mod n = (if x < n then x else x - n)"
  by (auto simp: not_less le_mod_geq)

end
