(* ===== verification/C_Lib.thy ===== *)
theory C_Lib
  imports Prelude
begin

text \<open>
  What the program uses of the C library's text functions: prefix comparison with
  \<^verbatim>\<open>strncmp\<close>, the conversions \<^verbatim>\<open>%x\<close> of \<^verbatim>\<open>sscanf\<close> with a field width and \<^verbatim>\<open>%d\<close>. A C string is
  the list of its characters before the terminating zero.
\<close>

definition strncmp_eq :: "string \<Rightarrow> string \<Rightarrow> bool" where
  "strncmp_eq prefix s = (take (length prefix) s = prefix)"

definition is_space :: "char \<Rightarrow> bool" where
  "is_space c = (of_char c = (32::nat) \<or> 9 \<le> (of_char c :: nat) \<and> of_char c \<le> (13::nat))"

text \<open>
  White space is skipped and does not count for the field width. The input item is an
  optional sign, an optional \<^verbatim>\<open>0x\<close> and hexadecimal digits; without a digit the conversion
  fails. A negative item is negated in the type \<^verbatim>\<open>unsigned int\<close>.
\<close>

definition hex_value :: "string \<Rightarrow> nat" where
  "hex_value ds = foldl (\<lambda>a c. 16 * a + the (hex_digit c)) 0 ds"

definition strip_sign :: "string \<Rightarrow> bool \<times> string" where
  "strip_sign s = (case s of
      [] \<Rightarrow> (False, [])
    | c # r \<Rightarrow> if c = CHR ''-'' then (True, r) else if c = CHR ''+'' then (False, r) else (False, s))"

definition strip_0x :: "string \<Rightarrow> string" where
  "strip_0x s = (case s of
      a # b # r \<Rightarrow> if a = CHR ''0'' \<and> (b = CHR ''x'' \<or> b = CHR ''X'') then r else s
    | _ \<Rightarrow> s)"

definition sscanf_x :: "nat \<Rightarrow> string \<Rightarrow> nat option" where
  "sscanf_x width s =
    (let (neg, item) = strip_sign (take width (dropWhile is_space s));
         digits = takeWhile (\<lambda>c. hex_digit c \<noteq> None) (strip_0x item);
         v = hex_value digits mod 2 ^ 32
     in if digits = [] then None
        else Some (if neg then (2 ^ 32 - v) mod 2 ^ 32 else v))"

text \<open>A hexadecimal digit is neither white space nor a sign, and not an \<^verbatim>\<open>x\<close>.\<close>

lemma hex_digit_plain:
  assumes "hex_digit c \<noteq> None"
  shows "\<not> is_space c" "c \<noteq> CHR ''-''" "c \<noteq> CHR ''+''" "c \<noteq> CHR ''x''" "c \<noteq> CHR ''X''"
  using assms by (auto simp: hex_digit_def is_space_def Let_def split: if_splits)

lemma strip_0x_hex: "\<forall>c\<in>set s. hex_digit c \<noteq> None \<Longrightarrow> strip_0x s = s"
  by (auto simp: strip_0x_def hex_digit_plain(4,5) split: list.splits)

lemma sscanf_x_hex:
  assumes "s \<noteq> []" "length s \<le> width" "\<forall>c\<in>set s. hex_digit c \<noteq> None" "hex_value s < 2 ^ 32"
  shows "sscanf_x width s = Some (hex_value s)"
proof -
  have sp: "dropWhile is_space s = s"
    using assms(1,3) by (cases s) (auto simp: hex_digit_plain)
  have sg: "strip_sign s = (False, s)"
    using assms(1,3) by (cases s) (auto simp: strip_sign_def hex_digit_plain)
  have tw: "takeWhile (\<lambda>c. \<exists>y. hex_digit c = Some y) s = s"
    using assms(3) by (auto simp: takeWhile_eq_all_conv)
  show ?thesis using assms
    by (simp add: sscanf_x_def sp sg tw strip_0x_hex Let_def)
qed

lemma unat_byte_decomp: "16 * (unat (b :: byte) div 16 mod 16) + unat b mod 16 = unat b"
proof -
  have "unat b div 16 mod 16 = unat b div 16"
    using unat_lt_256 [of b] by (simp add: less_mult_imp_div_less)
  then show ?thesis by simp
qed

lemma sscanf_fmt_02x: "sscanf_x 2 (fmt_02x b) = Some (unat b)"
proof -
  have "hex_value (fmt_02x b) = unat b"
    by (simp add: hex_value_def fmt_02x_def unat_byte_decomp)
  then show ?thesis
    using sscanf_x_hex [of "fmt_02x b" 2] unat_lt_256 [of b]
    by (simp add: fmt_02x_def)
qed

lemma unat_16_decomp:
  fixes n :: nat
  assumes "n < 65536"
  shows "16 * (16 * (16 * (n div 4096) + n div 256 mod 16) + n div 16 mod 16) + n mod 16 = n"
proof -
  have "n div 4096 = n div 256 div 16" "n div 256 = n div 16 div 16"
    by (simp_all add: div_mult2_eq [symmetric])
  then have "16 * (n div 4096) + n div 256 mod 16 = n div 256"
    "16 * (n div 256) + n div 16 mod 16 = n div 16"
    by simp_all
  then show ?thesis by simp
qed

lemma sscanf_fmt_04x: "sscanf_x 4 (fmt_04x w) = Some (unat w)"
proof -
  have lt: "unat w < 65536" using unsigned_less [of w, where ?'a = nat] by simp
  have "hex_value (fmt_04x w) = unat w"
    using unat_16_decomp [OF lt] lt
    by (simp add: hex_value_def fmt_04x_def less_mult_imp_div_less del: distrib_left_numeral)
  then show ?thesis
    using sscanf_x_hex [of "fmt_04x w" 4] lt by (simp add: fmt_04x_def)
qed

section \<open>Decimal numbers\<close>

text \<open>
  The conversion \<^verbatim>\<open>%d\<close> of \<^verbatim>\<open>sscanf\<close>: white space, a sign and decimal digits. A number that does
  not fit into an \<^verbatim>\<open>int\<close> is undefined behaviour.
\<close>

definition dec_digit :: "char \<Rightarrow> bool" where
  "dec_digit c = (48 \<le> (of_char c :: nat) \<and> of_char c \<le> (57 :: nat))"

definition dec_value :: "string \<Rightarrow> nat" where
  "dec_value ds = foldl (\<lambda>a c. 10 * a + (of_char c - 48)) 0 ds"

definition sscanf_d :: "string \<Rightarrow> int option" where
  "sscanf_d s =
    (let (neg, item) = strip_sign (dropWhile is_space s);
         digits = takeWhile dec_digit item
     in if digits = [] then None
        else Some (if neg then - int (dec_value digits) else int (dec_value digits)))"

definition fits_int :: "int \<Rightarrow> bool" where "fits_int n = (- (2 ^ 31) \<le> n \<and> n < 2 ^ 31)"

text \<open>Decimal output, the conversion \<^verbatim>\<open>%d\<close> of \<^verbatim>\<open>printf\<close>.\<close>

fun dec_digits :: "nat \<Rightarrow> string" where
  "dec_digits n = (if n < 10 then [char_of (48 + n)] else dec_digits (n div 10) @ [char_of (48 + n mod 10)])"

declare dec_digits.simps [simp del]

definition fmt_dec :: "int \<Rightarrow> string" where
  "fmt_dec n = (if n < 0 then CHR ''-'' # dec_digits (nat (- n)) else dec_digits (nat n))"

end
