(* ===== verification/Basics.thy ===== *)
theory Basics
  imports Prelude
begin

text \<open>
  \<^verbatim>\<open>src/basics.h\<close> and \<^verbatim>\<open>src/basics.c\<close>: the buffer cursor \<open>evr_buf_pos\<close> with its push
  and pull macros, the eight bit header checksum, whitespace trimming, splitting of a
  string into fragments, the time representation and the exponential back off.

  A cursor is the array it points into and the offset of its write position. A push or
  pull that would touch memory behind the array is undefined behaviour in C and the value
  \<open>None\<close> here, so a result \<open>Some\<close> is a memory safety statement.
\<close>

section \<open>The buffer cursor\<close>

record evr_buf_pos =
  buf :: bytes
  pos :: nat

definition evr_init_buf_pos :: "bytes \<Rightarrow> evr_buf_pos" where
  "evr_init_buf_pos b = \<lparr>buf = b, pos = 0\<rparr>"

definition evr_reset_buf_pos :: "evr_buf_pos \<Rightarrow> evr_buf_pos" where
  "evr_reset_buf_pos bp = bp\<lparr>pos := 0\<rparr>"

definition evr_inc_buf_pos :: "evr_buf_pos \<Rightarrow> int \<Rightarrow> evr_buf_pos" where
  "evr_inc_buf_pos bp d = bp\<lparr>pos := nat (int (pos bp) + d)\<rparr>"

definition evr_push_n :: "evr_buf_pos \<Rightarrow> bytes \<Rightarrow> evr_buf_pos option" where
  "evr_push_n bp val =
    (if pos bp + length val \<le> length (buf bp)
     then Some (evr_inc_buf_pos (bp\<lparr>buf := overwrite (buf bp) (pos bp) val\<rparr>) (int (length val)))
     else None)"

definition evr_pull_n :: "evr_buf_pos \<Rightarrow> nat \<Rightarrow> (bytes \<times> evr_buf_pos) option" where
  "evr_pull_n bp n =
    (if pos bp + n \<le> length (buf bp)
     then Some (take n (drop (pos bp) (buf bp)), evr_inc_buf_pos bp (int n))
     else None)"

text \<open>\<^verbatim>\<open>evr_push_as\<close> with \<^verbatim>\<open>uint8_t\<close>: the value is converted to eight bits.\<close>

definition evr_push_u8 :: "evr_buf_pos \<Rightarrow> 'a::len word \<Rightarrow> evr_buf_pos option" where
  "evr_push_u8 bp v = evr_push_n bp [ucast v]"

text \<open>\<^verbatim>\<open>evr_push_map\<close> with a host to big-endian conversion of the converted value.\<close>

definition evr_push_be16 :: "evr_buf_pos \<Rightarrow> 'a::len word \<Rightarrow> evr_buf_pos option" where
  "evr_push_be16 bp v = evr_push_n bp (be16 (ucast v))"

definition evr_push_be32 :: "evr_buf_pos \<Rightarrow> 'a::len word \<Rightarrow> evr_buf_pos option" where
  "evr_push_be32 bp v = evr_push_n bp (be32 (ucast v))"

definition evr_push_be64 :: "evr_buf_pos \<Rightarrow> 'a::len word \<Rightarrow> evr_buf_pos option" where
  "evr_push_be64 bp v = evr_push_n bp (be64 (ucast v))"

text \<open>\<^verbatim>\<open>evr_pull_as\<close> with \<^verbatim>\<open>uint8_t\<close>, and \<^verbatim>\<open>evr_pull_map\<close> with a big-endian to host
  conversion, into a variable of the width the result type has.\<close>

definition evr_pull_u8 :: "evr_buf_pos \<Rightarrow> ('a::len word \<times> evr_buf_pos) option" where
  "evr_pull_u8 bp = do { (bs, bp') \<leftarrow> evr_pull_n bp 1; Some (ucast (hd bs), bp') }"

definition evr_pull_be :: "evr_buf_pos \<Rightarrow> nat \<Rightarrow> ('a::len word \<times> evr_buf_pos) option" where
  "evr_pull_be bp n = do { (bs, bp') \<leftarrow> evr_pull_n bp n; Some (word_of_nat (be_val bs), bp') }"

text \<open>
  The lemmas below run a sequence of pushes or pulls on a cursor. \<open>at_pos\<close> is the view of
  an array as what has been written, what is next and what follows.
\<close>

definition at_pos :: "bytes \<Rightarrow> bytes \<Rightarrow> evr_buf_pos" where
  "at_pos done rest = \<lparr>buf = done @ rest, pos = length done\<rparr>"

lemma at_pos_fields [simp]: "buf (at_pos done rest) = done @ rest" "pos (at_pos done rest) = length done"
  by (simp_all add: at_pos_def)

lemma init_at_pos: "evr_init_buf_pos b = at_pos [] b"
  by (simp add: evr_init_buf_pos_def at_pos_def)

lemma push_at_pos:
  "length val = length gap \<Longrightarrow> evr_push_n (at_pos done (gap @ rest)) val = Some (at_pos (done @ val) rest)"
  by (simp add: at_pos_def evr_push_n_def evr_inc_buf_pos_def overwrite_def nat_add_distrib)

lemma push_at_pos_take:
  assumes "length val \<le> length rest"
  shows "evr_push_n (at_pos done rest) val = Some (at_pos (done @ val) (drop (length val) rest))"
  using push_at_pos [of val "take (length val) rest" "done" "drop (length val) rest"] assms
  by simp

lemma pull_at_pos:
  "n = length val \<Longrightarrow> evr_pull_n (at_pos done (val @ rest)) n = Some (val, at_pos (done @ val) rest)"
  by (simp add: at_pos_def evr_pull_n_def evr_inc_buf_pos_def nat_add_distrib)

lemma pull_u8_at_pos:
  "evr_pull_u8 (at_pos done (b # rest)) = Some (ucast b, at_pos (done @ [b]) rest)"
  using pull_at_pos [of 1 "[b]" "done" rest] by (simp add: evr_pull_u8_def)

lemma pull_be_at_pos:
  "n = length val \<Longrightarrow> evr_pull_be (at_pos done (val @ rest)) n
     = Some (word_of_nat (be_val val), at_pos (done @ val) rest)"
  by (simp add: evr_pull_be_def pull_at_pos)

lemma pull_be32_at_pos:
  "evr_pull_be (at_pos done (be32 w @ rest)) 4 = Some (ucast w, at_pos (done @ be32 w) rest)"
  by (simp add: pull_be_at_pos)

lemma pull_be64_at_pos:
  "evr_pull_be (at_pos done (be64 w @ rest)) 8 = Some (ucast w, at_pos (done @ be64 w) rest)"
  by (simp add: pull_be_at_pos)

lemma pull_be16_at_pos:
  "evr_pull_be (at_pos done (be16 w @ rest)) 2 = Some (ucast w, at_pos (done @ be16 w) rest)"
  by (simp add: pull_be_at_pos)

lemmas push_runs = init_at_pos evr_push_u8_def evr_push_be16_def evr_push_be32_def
  evr_push_be64_def push_at_pos_take
lemmas pull_runs = init_at_pos pull_u8_at_pos pull_be16_at_pos pull_be32_at_pos pull_be64_at_pos
  pull_at_pos

section \<open>The eight bit checksum\<close>

primrec checksum_loop :: "byte \<Rightarrow> bytes \<Rightarrow> byte" where
  "checksum_loop cs [] = cs"
| "checksum_loop cs (b # bs) = checksum_loop (cs + b) bs"

definition evr_buf_pos_8bit_checksum :: "evr_buf_pos \<Rightarrow> byte" where
  "evr_buf_pos_8bit_checksum bp = NOT (checksum_loop 0 (take (pos bp) (buf bp)))"

definition evr_push_8bit_checksum :: "evr_buf_pos \<Rightarrow> evr_buf_pos option" where
  "evr_push_8bit_checksum bp = evr_push_u8 bp (evr_buf_pos_8bit_checksum bp)"

definition evr_pull_8bit_checksum :: "evr_buf_pos \<Rightarrow> (evr_code \<times> evr_buf_pos) option" where
  "evr_pull_8bit_checksum bp =
    do { let calc_cs = evr_buf_pos_8bit_checksum bp;
         (buf_cs, bp') \<leftarrow> evr_pull_u8 bp;
         Some (if calc_cs \<noteq> buf_cs then Evr_error else Evr_ok, bp') }"

lemma checksum_loop_sum: "checksum_loop cs bs = cs + sum_list bs"
  by (induction bs arbitrary: cs) (auto simp: add.assoc)

lemma checksum_at_pos: "evr_buf_pos_8bit_checksum (at_pos done rest) = NOT (sum_list done)"
  by (simp add: evr_buf_pos_8bit_checksum_def at_pos_def checksum_loop_sum)

lemma push_checksum_at_pos:
  "rest \<noteq> [] \<Longrightarrow> evr_push_8bit_checksum (at_pos done rest)
     = Some (at_pos (done @ [NOT (sum_list done)]) (tl rest))"
  by (cases rest) (simp_all add: evr_push_8bit_checksum_def evr_push_u8_def checksum_at_pos
    push_at_pos_take)

lemma pull_checksum_at_pos:
  "evr_pull_8bit_checksum (at_pos done (b # rest))
     = Some (if b = NOT (sum_list done) then Evr_ok else Evr_error, at_pos (done @ [b]) rest)"
  by (auto simp: evr_pull_8bit_checksum_def checksum_at_pos pull_u8_at_pos)

text \<open>Replacing one byte by a different one changes the sum of the bytes.\<close>

lemma sum_list_upd_byte:
  assumes "i < length (bs :: bytes)" and "b \<noteq> bs ! i"
  shows "sum_list (bs[i := b]) \<noteq> sum_list bs"
proof -
  have "sum_list bs = sum_list (take i bs) + bs ! i + sum_list (drop (Suc i) bs)"
    by (subst id_take_nth_drop [OF assms(1)]) simp
  moreover have "sum_list (bs[i := b]) = sum_list (take i bs) + b + sum_list (drop (Suc i) bs)"
    by (simp add: upd_conv_take_nth_drop [OF assms(1)])
  ultimately show ?thesis using assms(2) by simp
qed

section \<open>Trimming\<close>

text \<open>
  The macro \<^verbatim>\<open>is_whitespace\<close> of the source is true for the characters that are not
  blank; its negation, which is all the code uses, is \<open>is_blank\<close>. A C string is the list
  of its characters without the terminating zero; the pointers are offsets.
\<close>

definition is_blank :: "char \<Rightarrow> bool" where
  "is_blank c = (c = CHR '' '' \<or> c = CHR 0x09 \<or> c = CHR 0x0A)"

function trim_start :: "string \<Rightarrow> nat \<Rightarrow> nat" where
  "trim_start s start = (if start < length s \<and> is_blank (s ! start) then trim_start s (Suc start) else start)"
  by pat_completeness auto
termination by (relation "measure (\<lambda>(s, i). length s - i)") auto

fun trim_end :: "string \<Rightarrow> nat \<Rightarrow> nat \<Rightarrow> nat" where
  "trim_end s start e = (if start < e \<and> is_blank (s ! (e - 1)) then trim_end s start (e - 1) else e)"

declare trim_start.simps [simp del] trim_end.simps [simp del]

definition evr_trim :: "string \<Rightarrow> nat \<times> nat" where
  "evr_trim s = (let start = trim_start s 0 in (start, trim_end s start (length s)))"

lemma trim_start_eq:
  "start \<le> length s \<Longrightarrow> trim_start s start \<le> length s \<and> start \<le> trim_start s start \<and>
     drop (trim_start s start) s = dropWhile is_blank (drop start s)"
proof (induction s start rule: trim_start.induct)
  case (1 s start)
  show ?case
  proof (cases "start < length s \<and> is_blank (s ! start)")
    case True
    then have "drop start s = s ! start # drop (Suc start) s" by (simp add: take_Suc_drop_nth)
    with True 1 show ?thesis by (simp add: trim_start.simps [of s start])
  next
    case False
    then have "dropWhile is_blank (drop start s) = drop start s"
      by (cases "start < length s") (auto simp: take_Suc_drop_nth)
    with False 1 show ?thesis by (auto simp: trim_start.simps [of s start])
  qed
qed

lemma trim_end_eq:
  "start \<le> e \<Longrightarrow> e \<le> length s \<Longrightarrow> start \<le> trim_end s start e \<and> trim_end s start e \<le> e \<and>
     drop start (take (trim_end s start e) s) =
     rev (dropWhile is_blank (rev (drop start (take e s))))"
proof (induction s start e rule: trim_end.induct)
  case (1 s start e)
  show ?case
  proof (cases "start < e \<and> is_blank (s ! (e - 1))")
    case True
    then obtain k where k: "e = Suc k" by (cases e) auto
    have "drop start (take e s) = drop start (take k s) @ [s ! k]"
      using True "1.prems" by (simp add: k take_Suc_conv_app_nth)
    with True 1 show ?thesis by (auto simp: trim_end.simps [of s start "Suc k"] k)
  next
    case False
    have "dropWhile is_blank (rev (drop start (take e s))) = rev (drop start (take e s))"
    proof (cases "start < e")
      case True
      then obtain k where k: "e = Suc k" by (cases e) auto
      then have "drop start (take e s) = drop start (take k s) @ [s ! k]"
        using True "1.prems" by (simp add: take_Suc_conv_app_nth)
      with False True k show ?thesis by simp
    qed simp
    with False 1 show ?thesis by (auto simp: trim_end.simps [of s start e])
  qed
qed

lemma evr_trim_strip:
  assumes "evr_trim s = (start, e)"
  shows "start \<le> e \<and> e \<le> length s \<and>
    take (e - start) (drop start s) = rev (dropWhile is_blank (rev (dropWhile is_blank s)))"
proof -
  from assms have eqs: "start = trim_start s 0" "e = trim_end s start (length s)"
    by (auto simp: evr_trim_def Let_def)
  note st = trim_start_eq [of 0 s, folded eqs(1)]
  note en = trim_end_eq [of start "length s" s, folded eqs(2)]
  from st en show ?thesis by (simp add: drop_take)
qed

section \<open>Splitting into fragments\<close>

text \<open>
  \<^verbatim>\<open>evr_split_n\<close> writes a zero over each separator and stores the offset of each
  fragment. The array holds the string and its terminating zero. The result is the code,
  the array and the stored offsets.
\<close>

abbreviation NUL :: char where "NUL \<equiv> CHR 0x00"

function split_n_loop :: "nat \<Rightarrow> char \<Rightarrow> string \<Rightarrow> nat \<Rightarrow> nat list \<Rightarrow> evr_code \<times> string \<times> nat list" where
  "split_n_loop n sep s cs fragments =
    (if cs < length s then
       (if s ! cs = sep then
          (if n \<le> length fragments then (Evr_error, s, fragments)
           else split_n_loop n sep (s[cs := NUL]) (Suc cs) (fragments @ [Suc cs]))
        else split_n_loop n sep s (Suc cs) fragments)
     else if length fragments \<noteq> n then (Evr_error, s, fragments)
     else (Evr_ok, s, fragments))"
  by pat_completeness auto
termination by (relation "measure (\<lambda>(n, sep, s, cs, fr). length s - cs)") auto

declare split_n_loop.simps [simp del]

definition evr_split_n :: "nat \<Rightarrow> string \<Rightarrow> char \<Rightarrow> evr_code \<times> string \<times> nat list" where
  "evr_split_n fragments_len s sep =
    (if fragments_len = 0 then (Evr_error, s @ [NUL], [])
     else split_n_loop fragments_len sep (s @ [NUL]) 0 [0])"

text \<open>The C string that starts at an offset of an array.\<close>

definition c_str_at :: "string \<Rightarrow> nat \<Rightarrow> string" where
  "c_str_at s off = takeWhile (\<lambda>c. c \<noteq> NUL) (drop off s)"

text \<open>Reference: the maximal separator-free fragments of a string.\<close>

fun split_on :: "char \<Rightarrow> string \<Rightarrow> string list" where
  "split_on sep [] = [[]]"
| "split_on sep (c # cs) =
    (if c = sep then [] # split_on sep cs
     else case split_on sep cs of [] \<Rightarrow> [[c]] | f # fs \<Rightarrow> (c # f) # fs)"

lemma split_on_not_Nil [simp]: "split_on sep s \<noteq> []"
  by (induction s) (auto split: list.splits)

lemma length_split_on: "length (split_on sep s) = Suc (count_list s sep)"
  by (induction s) (auto split: list.splits)

lemma split_on_append_other:
  "sep \<notin> set f \<Longrightarrow> split_on sep (f @ sep # s) = f # split_on sep s"
  by (induction f) auto

lemma split_on_no_sep: "sep \<notin> set f \<Longrightarrow> split_on sep f = [f]"
  by (induction f) auto

lemma c_str_at_append: "NUL \<in> set (drop off pre) \<Longrightarrow> off \<le> length pre \<Longrightarrow> c_str_at (pre @ x) off = c_str_at pre off"
  by (auto simp: c_str_at_def takeWhile_append)

lemma c_str_at_fragment: "NUL \<notin> set f \<Longrightarrow> c_str_at (pre @ f @ NUL # x) (length pre) = f"
  by (simp add: c_str_at_def takeWhile_append)

text \<open>
  The loop in the middle of a run: \<open>pre\<close> holds the closed fragments, \<open>f\<close> the characters
  of the open one and \<open>rest\<close> what is still to be scanned.
\<close>

lemma split_n_loop_run:
  assumes "sep \<noteq> NUL" "NUL \<notin> set (f @ rest)" "sep \<notin> set f"
    and "\<forall>off\<in>set frs. off \<le> length pre \<and> NUL \<in> set (drop off pre)"
    and "map (c_str_at pre) frs = fs"
    and "split_n_loop n sep (pre @ f @ rest @ [NUL]) (length (pre @ f)) (frs @ [length pre]) = (code, b, offs)"
  shows "if length frs + length (split_on sep (f @ rest)) = n
         then code = Evr_ok \<and> map (c_str_at b) offs = fs @ split_on sep (f @ rest)
         else code = Evr_error"
  using assms
proof (induction rest arbitrary: pre f frs fs)
  case Nil
  then have closed: "map (c_str_at (pre @ f @ [NUL])) frs = fs"
    by (auto simp: c_str_at_append)
  from Nil.prems(1,6) have "(code, b, offs) =
      (if Suc (length frs) = n then (Evr_ok, pre @ f @ [NUL], frs @ [length pre])
       else (Evr_error, pre @ f @ [NUL], frs @ [length pre]))"
    by (simp add: split_n_loop.simps [of n sep _ "length pre + length f"]
        split_n_loop.simps [of n sep _ "Suc (length pre + length f)"] nth_append split: if_splits)
  with closed Nil.prems(2,3) show ?case
    by (auto simp: split_on_no_sep c_str_at_fragment)
next
  case (Cons c rest)
  show ?case
  proof (cases "c = sep")
    case True
    have step: "split_n_loop n sep (pre @ f @ (c # rest) @ [NUL]) (length (pre @ f)) (frs @ [length pre])
      = (if n \<le> Suc (length frs) then (Evr_error, pre @ f @ (c # rest) @ [NUL], frs @ [length pre])
         else split_n_loop n sep ((pre @ f @ [NUL]) @ [] @ rest @ [NUL]) (length ((pre @ f @ [NUL]) @ []))
           ((frs @ [length pre]) @ [length (pre @ f @ [NUL])]))"
      using True by (simp add: split_n_loop.simps [of n sep "pre @ f @ _"] nth_append list_update_append)
    have frag: "split_on sep (f @ c # rest) = f # split_on sep rest"
      using True Cons.prems(3) by (simp add: split_on_append_other)
    show ?thesis
    proof (cases "n \<le> Suc (length frs)")
      case True
      then have "length frs + length (split_on sep (f @ c # rest)) \<noteq> n"
        unfolding frag by (simp add: length_split_on)
      with True step Cons.prems(6) show ?thesis by simp
    next
      case False
      have "map (c_str_at (pre @ f @ [NUL])) (frs @ [length pre]) = fs @ [f]"
        using Cons.prems(2,4,5) by (auto simp: c_str_at_append c_str_at_fragment)
      moreover have "\<forall>off\<in>set (frs @ [length pre]). off \<le> length (pre @ f @ [NUL])
          \<and> NUL \<in> set (drop off (pre @ f @ [NUL]))"
        using Cons.prems(4) by auto
      ultimately show ?thesis
        using Cons.IH [of "[]" "frs @ [length pre]" "pre @ f @ [NUL]" "fs @ [f]"]
          Cons.prems(1,2,6) step False frag by simp
    qed
  next
    case False
    then have "split_n_loop n sep (pre @ f @ (c # rest) @ [NUL]) (length (pre @ f)) (frs @ [length pre])
      = split_n_loop n sep (pre @ (f @ [c]) @ rest @ [NUL]) (length (pre @ (f @ [c]))) (frs @ [length pre])"
      by (simp add: split_n_loop.simps [of n sep "pre @ f @ c # _"] nth_append)
    with Cons.IH [of "f @ [c]" frs pre fs] Cons.prems False show ?thesis by simp
  qed
qed

section \<open>Time\<close>

record timespec =
  tv_sec :: "64 word"
  tv_nsec :: "64 word"

definition evr_time_from_timespec :: "timespec \<Rightarrow> evr_time" where
  "evr_time_from_timespec ts = tv_sec ts * 1000 + tv_nsec ts div 1000000"

definition evr_time_to_timespec :: "evr_time \<Rightarrow> timespec" where
  "evr_time_to_timespec t = \<lparr>tv_sec = t div 1000, tv_nsec = (t mod 1000) * 1000000\<rparr>"

definition evr_time_add_ms :: "evr_time \<Rightarrow> evr_time \<Rightarrow> evr_time" where
  "evr_time_add_ms t ms = t + ms"

section \<open>Exponential back off\<close>

text \<open>
  \<open>running k\<close> is the answer of the \<open>k\<close>th call of the callback (a missing callback always
  answers yes) and \<open>slept k\<close> whether the \<open>k\<close>th \<^verbatim>\<open>thrd_sleep\<close> of 250 ms succeeds. The
  second component of the result counts the completed sleeps.
\<close>

primrec back_off_loop :: "(nat \<Rightarrow> bool) \<Rightarrow> (nat \<Rightarrow> bool) \<Rightarrow> nat \<Rightarrow> nat \<Rightarrow> evr_code \<times> nat" where
  "back_off_loop running slept 0 k = (if \<not> running k then (Evr_end, k) else (Evr_ok, k))"
| "back_off_loop running slept (Suc i) k =
    (if \<not> running k then (Evr_end, k)
     else if \<not> slept k then (Evr_error, k)
     else back_off_loop running slept i (Suc k))"

definition evr_back_off_delay :: "nat \<Rightarrow> (nat \<Rightarrow> bool) \<Rightarrow> (nat \<Rightarrow> bool) \<Rightarrow> evr_code \<times> nat" where
  "evr_back_off_delay failed_retries running slept =
    back_off_loop running slept (2 ^ min 8 failed_retries) 0"

lemma back_off_loop_result:
  "back_off_loop running slept i k = (code, m) \<Longrightarrow>
    k \<le> m \<and> m \<le> k + i \<and> (code = Evr_ok \<longleftrightarrow> (\<forall>j\<in>{k..k + i}. running j) \<and> (\<forall>j\<in>{k..<k + i}. slept j))
    \<and> (code = Evr_ok \<longrightarrow> m = k + i) \<and> (code = Evr_end \<longrightarrow> \<not> running m)"
proof (induction i arbitrary: k)
  case (Suc i)
  have range: "{k..k + Suc i} = insert k {Suc k..Suc k + i}" "{k..<k + Suc i} = insert k {Suc k..<Suc k + i}"
    by auto
  from Suc.prems Suc.IH [of "Suc k"] show ?case
    unfolding range by (auto split: if_splits)
qed (auto split: if_splits)

end
