(* ===== verification/Dyn_Mem.thy ===== *)
theory Dyn_Mem
  imports Basics
begin

text \<open>
  \<^verbatim>\<open>src/dyn-mem.h\<close> and \<^verbatim>\<open>src/dyn-mem.c\<close>: the growing byte array, the chunk set that holds
  a blob in pieces of one mebibyte, and the linked list of blocks \<open>evr_llbuf_s\<close> with its
  iterator. Whether an allocation succeeds is an argument of the operations: \<open>True\<close> or
  \<open>Some\<close> of the new memory when \<^verbatim>\<open>malloc\<close> returned memory.
\<close>

section \<open>Dynamic arrays\<close>

text \<open>\<open>da_data\<close> are the \<^verbatim>\<open>size_used\<close> bytes in use; the rest of the allocation is never read.\<close>

record dynamic_array =
  size_allocated :: nat
  da_data :: bytes

definition da_size_used :: "dynamic_array \<Rightarrow> nat" where
  "da_size_used da = length (da_data da)"

definition da_inv :: "dynamic_array \<Rightarrow> bool" where
  "da_inv da = (da_size_used da \<le> size_allocated da)"

definition sizeof_dynamic_array :: nat where "sizeof_dynamic_array = 24"

definition alloc_dynamic_array :: "nat \<Rightarrow> bool \<Rightarrow> nat \<Rightarrow> dynamic_array option" where
  "alloc_dynamic_array evr_page_size malloc initial_size =
    (let size = (if initial_size = 0 then evr_page_size - sizeof_dynamic_array else initial_size)
     in if \<not> malloc then None else Some \<lparr>size_allocated = size, da_data = []\<rparr>)"

text \<open>
  The factor 1.5 is a double; the truncated product is \<open>3 * n div 2\<close> for every size below
  \<open>2 ^ 52\<close>, which no allocation reaches. A failed \<^verbatim>\<open>realloc\<close> frees the former array.
\<close>

definition grow_dynamic_array_at_least ::
  "bool \<Rightarrow> dynamic_array option \<Rightarrow> nat \<Rightarrow> dynamic_array option" where
  "grow_dynamic_array_at_least realloc da min_size =
    (let grown = (case da of None \<Rightarrow> 0 | Some d \<Rightarrow> 3 * size_allocated d div 2 + 1);
         new_size = (if grown < min_size then min_size else grown)
     in if \<not> realloc then None
        else Some (case da of
            None \<Rightarrow> \<lparr>size_allocated = new_size, da_data = []\<rparr>
          | Some d \<Rightarrow> d\<lparr>size_allocated := new_size\<rparr>))"

fun rtrim_loop :: "(byte \<Rightarrow> bool) \<Rightarrow> bytes \<Rightarrow> nat \<Rightarrow> nat" where
  "rtrim_loop istrimmed d it =
    (if 1 < it then (if \<not> istrimmed (d ! (it - 1)) then it else rtrim_loop istrimmed d (it - 1)) else it)"

declare rtrim_loop.simps [simp del]

definition rtrim_dynamic_array :: "dynamic_array \<Rightarrow> (byte \<Rightarrow> bool) \<Rightarrow> dynamic_array" where
  "rtrim_dynamic_array da istrimmed =
    da\<lparr>da_data := take (rtrim_loop istrimmed (da_data da) (da_size_used da)) (da_data da)\<rparr>"

definition dynamic_array_remove :: "dynamic_array \<Rightarrow> nat \<Rightarrow> nat \<Rightarrow> evr_code \<times> dynamic_array" where
  "dynamic_array_remove da offset sz =
    (let e = offset + sz in
     if e < da_size_used da
     then (Evr_ok, da\<lparr>da_data := take (da_size_used da - sz)
             (overwrite (da_data da) offset (take (da_size_used da - e) (drop e (da_data da))))\<rparr>)
     else if e > da_size_used da then (Evr_error, da)
     else (Evr_ok, da\<lparr>da_data := take (da_size_used da - sz) (da_data da)\<rparr>))"

definition write_n_dynamic_array :: "bool \<Rightarrow> dynamic_array \<Rightarrow> bytes \<Rightarrow> dynamic_array option" where
  "write_n_dynamic_array realloc da d =
    (let new_size_used = da_size_used da + length d
     in case (if new_size_used > size_allocated da
              then grow_dynamic_array_at_least realloc (Some da) new_size_used else Some da) of
          None \<Rightarrow> None
        | Some da' \<Rightarrow> Some (da'\<lparr>da_data := overwrite (da_data da') (da_size_used da') d\<rparr>))"

lemma grow_dynamic_array_Some:
  "grow_dynamic_array_at_least r (Some d) m = Some d' \<Longrightarrow>
    da_data d' = da_data d \<and> m \<le> size_allocated d' \<and> size_allocated d < size_allocated d'"
  by (auto simp: grow_dynamic_array_at_least_def Let_def split: if_splits)

lemma write_n_dynamic_array_Some:
  assumes "write_n_dynamic_array r da d = Some da'" "da_inv da"
  shows "da_data da' = da_data da @ d \<and> da_inv da'"
  using assms
  by (auto simp: write_n_dynamic_array_def da_inv_def da_size_used_def overwrite_at_end Let_def
      split: if_splits option.splits dest: grow_dynamic_array_Some)

lemma dynamic_array_remove_ok:
  "offset + sz \<le> da_size_used da \<Longrightarrow>
   dynamic_array_remove da offset sz =
     (Evr_ok, da\<lparr>da_data := take offset (da_data da) @ drop (offset + sz) (da_data da)\<rparr>)"
proof (cases "offset + sz = length (da_data da)")
  case True
  then have "length (da_data da) - sz = offset" by simp
  with True show ?thesis by (simp add: dynamic_array_remove_def da_size_used_def Let_def)
qed (auto simp: dynamic_array_remove_def da_size_used_def overwrite_def Let_def)

lemma dynamic_array_remove_error:
  "offset + sz > da_size_used da \<Longrightarrow> dynamic_array_remove da offset sz = (Evr_error, da)"
  by (simp add: dynamic_array_remove_def Let_def)

text \<open>The loop of \<^verbatim>\<open>rtrim_dynamic_array\<close> never looks at the first byte.\<close>

lemma rtrim_loop_eq:
  "it \<le> length d \<Longrightarrow> 0 < it \<Longrightarrow>
    take (rtrim_loop p d it) d = hd d # rev (dropWhile p (rev (tl (take it d))))"
proof (induction p d it rule: rtrim_loop.induct)
  case (1 p d it)
  show ?case
  proof (cases "1 < it")
    case True
    then obtain k where k: "it = Suc (Suc k)" by (metis One_nat_def gr0_conv_Suc less_imp_Suc_add add_Suc)
    have "take it d = take (Suc k) d @ [d ! Suc k]"
      using "1.prems" k by (simp add: take_Suc_conv_app_nth)
    moreover have "take (Suc k) d \<noteq> []" using "1.prems" k by auto
    ultimately have tk: "tl (take it d) = tl (take (Suc k) d) @ [d ! Suc k]" by simp
    show ?thesis
    proof (cases "p (d ! Suc k)")
      case True
      then show ?thesis
        using "1.IH" "1.prems" k tk by (simp add: rtrim_loop.simps [of p d "Suc (Suc k)"])
    next
      case False
      then have "take (rtrim_loop p d it) d = take it d"
        using k by (simp add: rtrim_loop.simps [of p d "Suc (Suc k)"])
      moreover have "hd d # tl (take it d) = take it d"
        using "1.prems" k by (cases d) auto
      ultimately show ?thesis using False tk by simp
    qed
  next
    case False
    with "1.prems" have "it = 1" by simp
    with "1.prems" show ?thesis by (cases d) (auto simp: rtrim_loop.simps [of p _ "Suc 0"])
  qed
qed

section \<open>Chunk sets\<close>

definition evr_max_blob_data_size :: nat where "evr_max_blob_data_size = 16 * 1024 * 1024"
definition evr_chunk_size :: nat where "evr_chunk_size = 1 * 1024 * 1024"
definition evr_chunk_set_max_chunks :: nat where
  "evr_chunk_set_max_chunks = evr_max_blob_data_size div evr_chunk_size + 1"

lemma evr_chunk_size_pos [simp]: "0 < evr_chunk_size"
  by (simp add: evr_chunk_size_def)

record chunk_set =
  cs_size_used :: nat
  cs_chunks :: "bytes list"

text \<open>
  \<open>cs_chunks\<close> are the first \<^verbatim>\<open>chunks_len\<close> entries of the array. \<open>alloc i\<close> is the memory
  \<^verbatim>\<open>evr_alloc_chunk\<close> returns for index \<open>i\<close>. The list \<open>freed\<close> in a result names the
  indices passed to \<^verbatim>\<open>evr_free_chunk\<close>.
\<close>

fun alloc_chunks_loop :: "(nat \<Rightarrow> bytes option) \<Rightarrow> nat \<Rightarrow> nat \<Rightarrow> bytes list option" where
  "alloc_chunks_loop alloc i 0 = Some []"
| "alloc_chunks_loop alloc i (Suc n) =
    (case alloc i of None \<Rightarrow> None
     | Some c \<Rightarrow> map_option (Cons c) (alloc_chunks_loop alloc (Suc i) n))"

fun alloc_fail_index :: "(nat \<Rightarrow> bytes option) \<Rightarrow> nat \<Rightarrow> nat \<Rightarrow> nat" where
  "alloc_fail_index alloc i 0 = i"
| "alloc_fail_index alloc i (Suc n) =
    (case alloc i of None \<Rightarrow> i | Some c \<Rightarrow> alloc_fail_index alloc (Suc i) n)"

definition evr_init_chunk_set :: "(nat \<Rightarrow> bytes option) \<Rightarrow> nat \<Rightarrow> evr_code \<times> chunk_set option \<times> nat list" where
  "evr_init_chunk_set alloc n =
    (if n > evr_chunk_set_max_chunks then (Evr_error, None, [])
     else case alloc_chunks_loop alloc 0 n of
            None \<Rightarrow> (Evr_error, None, [0..<alloc_fail_index alloc 0 n])
          | Some cks \<Rightarrow> (Evr_ok, Some \<lparr>cs_size_used = 0, cs_chunks = cks\<rparr>, []))"

definition evr_grow_chunk_set ::
  "(nat \<Rightarrow> bytes option) \<Rightarrow> chunk_set \<Rightarrow> nat \<Rightarrow> evr_code \<times> chunk_set \<times> nat list" where
  "evr_grow_chunk_set alloc cs new_len =
    (let len = length (cs_chunks cs) in
     if new_len > evr_chunk_set_max_chunks then (Evr_error, cs, [])
     else case alloc_chunks_loop alloc len (new_len - len) of
            None \<Rightarrow> (Evr_error, cs, [len..<alloc_fail_index alloc len (new_len - len)])
          | Some cks \<Rightarrow> (Evr_ok, cs\<lparr>cs_chunks := take new_len (cs_chunks cs) @ cks\<rparr>, []))"

text \<open>
  \<^verbatim>\<open>evr_chunk_setify\<close> points the chunks into one buffer. The last chunk reaches up to the
  end of the buffer and may be shorter than a chunk, or empty.
\<close>

definition evr_chunk_setify :: "bytes \<Rightarrow> evr_code \<times> chunk_set option" where
  "evr_chunk_setify b =
    (let size = length b; n = size div evr_chunk_size + 1 in
     if n > evr_chunk_set_max_chunks then (Evr_error, None)
     else (Evr_ok, Some \<lparr>cs_size_used = size,
             cs_chunks = map (\<lambda>i. take evr_chunk_size (drop (i * evr_chunk_size) b)) [0..<n]\<rparr>))"

lemma length_alloc_chunks_loop: "alloc_chunks_loop alloc i n = Some cks \<Longrightarrow> length cks = n"
  by (induction n arbitrary: i cks) (auto split: option.splits)

lemma alloc_fail_index_range:
  "alloc_chunks_loop alloc i n = None \<Longrightarrow>
    i \<le> alloc_fail_index alloc i n \<and> alloc_fail_index alloc i n < i + n \<and>
    alloc (alloc_fail_index alloc i n) = None \<and> (\<forall>j\<in>{i..<alloc_fail_index alloc i n}. alloc j \<noteq> None)"
proof (induction n arbitrary: i)
  case (Suc n)
  show ?case
  proof (cases "alloc i")
    case (Some c)
    with Suc.prems have "alloc_chunks_loop alloc (Suc i) n = None" by simp
    from Suc.IH [OF this] Some show ?thesis
      by (auto simp: Ball_def) (metis Suc_leI le_neq_implies_less option.distinct(1))
  qed simp
qed simp

lemma concat_chunk_pieces:
  "concat (map (\<lambda>i. take w (drop (i * w) b)) [0..<n]) = take (n * w) b"
proof (induction n)
  case (Suc n)
  then show ?case by (simp add: take_add_drop [of "n * w" w b, symmetric] add.commute)
qed simp

lemma chunk_setify_concat:
  assumes "evr_chunk_setify b = (Evr_ok, Some cs)"
  shows "concat (cs_chunks cs) = b \<and> cs_size_used cs = length b"
proof -
  have "length b \<le> (length b div evr_chunk_size + 1) * evr_chunk_size"
    using dividend_less_div_times [OF evr_chunk_size_pos, of "length b"] by simp
  moreover from assms have "cs_size_used cs = length b"
    "cs_chunks cs = map (\<lambda>i. take evr_chunk_size (drop (i * evr_chunk_size) b)) [0..<length b div evr_chunk_size + 1]"
    by (auto simp: evr_chunk_setify_def Let_def split: if_splits)
  ultimately show ?thesis by (simp only: concat_chunk_pieces take_all)
qed

section \<open>Linked list buffers\<close>

text \<open>
  A block is an array of \<open>block_child_count\<close> child slots; a slot is \<open>None\<close> until the
  caller stores a child through the returned pointer. \<open>evr_llbuf_s_append\<close> takes the child
  that the caller stores. The list of blocks is the chain from \<^verbatim>\<open>first\<close> to \<^verbatim>\<open>last\<close>.
\<close>

record 'a evr_llbuf_s =
  blocks :: "'a option list list"
  block_child_count :: nat
  child_count :: nat

definition sizeof_evr_llbuf :: nat where "sizeof_evr_llbuf = 16"

definition evr_init_llbuf_s :: "nat \<Rightarrow> nat \<Rightarrow> 'a evr_llbuf_s" where
  "evr_init_llbuf_s evr_page_size child_size =
    \<lparr>blocks = [], block_child_count = max 1 ((evr_page_size - sizeof_evr_llbuf) div child_size),
     child_count = 0\<rparr>"

definition llbuf_s_grow :: "'a evr_llbuf_s \<Rightarrow> 'a evr_llbuf_s" where
  "llbuf_s_grow llb = llb\<lparr>blocks := blocks llb @ [replicate (block_child_count llb) None]\<rparr>"

definition evr_llbuf_s_append :: "bool \<Rightarrow> 'a evr_llbuf_s \<Rightarrow> 'a \<Rightarrow> evr_code \<times> 'a evr_llbuf_s" where
  "evr_llbuf_s_append malloc llb child =
    (let full = child_count llb + 1 > length (blocks llb) * block_child_count llb in
     if full \<and> \<not> malloc then (Evr_error, llb)
     else let llb1 = (if full then llbuf_s_grow llb else llb);
              i = child_count llb1 mod block_child_count llb1
          in (Evr_ok, llb1\<lparr>blocks := butlast (blocks llb1) @ [(last (blocks llb1))[i := Some child]],
                child_count := child_count llb1 + 1\<rparr>))"

definition evr_llbuf_s_empty :: "'a evr_llbuf_s \<Rightarrow> 'a evr_llbuf_s" where
  "evr_llbuf_s_empty llb = llb\<lparr>blocks := [], child_count := 0\<rparr>"

text \<open>
  The iterator holds the index of its block and of the child in it. \<open>iter_next\<close> is
  \<open>None\<close> when the code would follow a null pointer or leave a block, and otherwise
  the returned child (\<open>None\<close> for the null result) with the advanced iterator.
\<close>

record evr_llbuf_s_iter =
  it_block :: nat
  it_child :: nat
  remaining_children :: nat

definition evr_init_llbuf_s_iter :: "'a evr_llbuf_s \<Rightarrow> evr_llbuf_s_iter" where
  "evr_init_llbuf_s_iter llb = \<lparr>it_block = 0, it_child = 0, remaining_children = child_count llb\<rparr>"

definition child_at :: "'a evr_llbuf_s \<Rightarrow> nat \<Rightarrow> nat \<Rightarrow> 'a option" where
  "child_at llb b c =
    (if b < length (blocks llb) \<and> c < length (blocks llb ! b) then blocks llb ! b ! c else None)"

definition evr_llbuf_s_iter_next ::
  "'a evr_llbuf_s \<Rightarrow> evr_llbuf_s_iter \<Rightarrow> ('a option \<times> evr_llbuf_s_iter) option" where
  "evr_llbuf_s_iter_next llb iter =
    (if remaining_children iter = 0 then Some (None, iter)
     else case child_at llb (it_block iter) (it_child iter) of
         None \<Rightarrow> None
       | Some v \<Rightarrow>
          (let iter1 = iter\<lparr>remaining_children := remaining_children iter - 1\<rparr>;
               iter2 = (if remaining_children iter1 > 0
                 then (let iter' = iter1\<lparr>it_child := it_child iter1 + 1\<rparr>
                       in if it_child iter' = block_child_count llb
                          then iter'\<lparr>it_block := it_block iter' + 1, it_child := 0\<rparr> else iter')
                 else iter1)
           in Some (Some v, iter2)))"

text \<open>Reading an iterator to its end, with as many steps as children remain.\<close>

fun iter_collect :: "nat \<Rightarrow> 'a evr_llbuf_s \<Rightarrow> evr_llbuf_s_iter \<Rightarrow> 'a list option" where
  "iter_collect 0 llb iter =
    (case evr_llbuf_s_iter_next llb iter of Some (None, _) \<Rightarrow> Some [] | _ \<Rightarrow> None)"
| "iter_collect (Suc n) llb iter =
    (case evr_llbuf_s_iter_next llb iter of
       Some (Some v, iter') \<Rightarrow> map_option (Cons v) (iter_collect n llb iter')
     | _ \<Rightarrow> None)"

fun llbuf_s_append_all :: "'a evr_llbuf_s \<Rightarrow> 'a list \<Rightarrow> 'a evr_llbuf_s" where
  "llbuf_s_append_all llb [] = llb"
| "llbuf_s_append_all llb (x # xs) = llbuf_s_append_all (snd (evr_llbuf_s_append True llb x)) xs"

text \<open>The abstraction: child \<open>i\<close> sits in slot \<open>i mod block_child_count\<close> of block \<open>i div block_child_count\<close>.\<close>

definition llbuf_s_repr :: "'a evr_llbuf_s \<Rightarrow> 'a list \<Rightarrow> bool" where
  "llbuf_s_repr llb xs =
    (0 < block_child_count llb \<and> child_count llb = length xs \<and>
     (\<forall>blk\<in>set (blocks llb). length blk = block_child_count llb) \<and>
     length (blocks llb) = (length xs + block_child_count llb - 1) div block_child_count llb \<and>
     (\<forall>i<length xs. child_at llb (i div block_child_count llb) (i mod block_child_count llb) = Some (xs ! i)))"

lemma butlast_snoc_update: "xs \<noteq> [] \<Longrightarrow> butlast xs @ [y] = xs[length xs - 1 := y]"
  by (cases xs rule: rev_cases) (auto simp: list_update_append)

lemma ceil_div_cases:
  "0 < b \<Longrightarrow> (n + b - Suc 0) div b = (if b dvd n then n div b else n div b + 1)" for n b :: nat
proof -
  assume b: "0 < b"
  have n: "n = n div b * b + n mod b" by simp
  show ?thesis
  proof (cases "n mod b = 0")
    case True
    then have "n + b - Suc 0 = (b - 1) + n div b * b" using n b by linarith
    moreover have "((b - 1) + n div b * b) div b = n div b" using b by (subst div_mult_self1) auto
    ultimately show ?thesis using True by (simp only: dvd_eq_mod_eq_0 simp_thms if_True)
  next
    case False
    then have "n + b - Suc 0 = (n mod b - 1) + (n div b + 1) * b"
      using n b by (simp only: distrib_right mult_1)
    moreover have "n mod b - 1 < b" using b by (meson less_imp_diff_less mod_less_divisor)
    then have "((n mod b - 1) + (n div b + 1) * b) div b = n div b + 1"
      using b by (subst div_mult_self1) auto
    ultimately show ?thesis using False by (simp only: dvd_eq_mod_eq_0 if_False)
  qed
qed

text \<open>Once the block is grown when needed, the next child goes into the last block.\<close>

lemma llbuf_s_room:
  assumes "llbuf_s_repr llb xs"
  defines "llb1 \<equiv> (if child_count llb + 1 > length (blocks llb) * block_child_count llb
                   then llbuf_s_grow llb else llb)"
  shows "length (blocks llb1) = length xs div block_child_count llb + 1"
    and "block_child_count llb1 = block_child_count llb" "child_count llb1 = length xs"
    and "\<forall>blk\<in>set (blocks llb1). length blk = block_child_count llb"
    and "\<forall>i<length xs. child_at llb1 (i div block_child_count llb) (i mod block_child_count llb) = Some (xs ! i)"
proof -
  let ?b = "block_child_count llb" and ?n = "length xs"
  from assms(1) have b: "0 < ?b" and c: "child_count llb = ?n"
    and len: "length (blocks llb) = (if ?b dvd ?n then ?n div ?b else ?n div ?b + 1)"
    by (auto simp: llbuf_s_repr_def ceil_div_cases)
  have full: "(child_count llb + 1 > length (blocks llb) * ?b) = (?b dvd ?n)"
  proof (cases "?b dvd ?n")
    case True
    then show ?thesis using c len by simp
  next
    case False
    have "?n < ?n div ?b * ?b + ?b" using dividend_less_div_times [OF b, of ?n] by simp
    with False show ?thesis using c len by (simp add: algebra_simps)
  qed
  show "length (blocks llb1) = ?n div ?b + 1" "block_child_count llb1 = ?b" "child_count llb1 = ?n"
    using full len c by (auto simp: llb1_def llbuf_s_grow_def)
  show "\<forall>blk\<in>set (blocks llb1). length blk = ?b"
    using assms(1) by (auto simp: llb1_def llbuf_s_grow_def llbuf_s_repr_def)
  show "\<forall>i<?n. child_at llb1 (i div ?b) (i mod ?b) = Some (xs ! i)"
    using assms(1)
    by (auto simp: llb1_def llbuf_s_grow_def llbuf_s_repr_def child_at_def nth_append split: if_splits)
qed

lemma llbuf_s_append_repr:
  assumes "llbuf_s_repr llb xs" and "evr_llbuf_s_append m llb x = (Evr_ok, llb')"
  shows "llbuf_s_repr llb' (xs @ [x])"
proof -
  let ?b = "block_child_count llb" and ?n = "length xs"
  define llb1 where "llb1 = (if child_count llb + 1 > length (blocks llb) * ?b then llbuf_s_grow llb else llb)"
  note room = llbuf_s_room [OF assms(1), folded llb1_def]
  have b: "0 < ?b" using assms(1) by (simp add: llbuf_s_repr_def)
  have ne: "blocks llb1 \<noteq> []" using room(1) by auto
  have last: "last (blocks llb1) = blocks llb1 ! (?n div ?b)"
    using ne room(1) by (simp add: last_conv_nth)
  have llb': "llb' = llb1\<lparr>blocks := (blocks llb1)[?n div ?b := (blocks llb1 ! (?n div ?b))[?n mod ?b := Some x]],
      child_count := ?n + 1\<rparr>"
  proof -
    have "llb' = llb1\<lparr>blocks := butlast (blocks llb1) @
        [(last (blocks llb1))[child_count llb1 mod block_child_count llb1 := Some x]],
        child_count := child_count llb1 + 1\<rparr>"
      using assms(2) by (auto simp: evr_llbuf_s_append_def Let_def llb1_def split: if_splits)
    then show ?thesis using room(1-3) ne by (simp add: butlast_snoc_update last)
  qed
  have blk: "length (blocks llb1 ! (?n div ?b)) = ?b" using room(1,4) by simp
  have "child_at llb' (i div ?b) (i mod ?b) = Some ((xs @ [x]) ! i)" if "i < Suc ?n" for i
  proof (cases "i = ?n")
    case True
    then show ?thesis using room(1) blk b by (simp add: llb' child_at_def)
  next
    case False
    with that have i: "i < ?n" by simp
    then have old: "child_at llb1 (i div ?b) (i mod ?b) = Some (xs ! i)" using room(5) by simp
    have "i div ?b \<noteq> ?n div ?b \<or> i mod ?b \<noteq> ?n mod ?b" using False by (metis div_mult_mod_eq)
    with old i show ?thesis
      by (cases "i div ?b = ?n div ?b") (auto simp: llb' child_at_def nth_append split: if_splits)
  qed
  moreover have "(Suc ?n + ?b - 1) div ?b = ?n div ?b + 1" using b by (simp add: div_add_self2)
  ultimately show ?thesis
    using room b by (auto simp: llbuf_s_repr_def llb' dest!: in_set_conv_nth [THEN iffD1])
      (metis blk length_list_update nth_list_update_eq nth_list_update_neq nth_mem)
qed

lemma llbuf_s_init_repr: "llbuf_s_repr (evr_init_llbuf_s pg cs) []"
  by (simp add: llbuf_s_repr_def evr_init_llbuf_s_def)

lemma llbuf_s_append_ok: "fst (evr_llbuf_s_append True llb x) = Evr_ok"
  by (simp add: evr_llbuf_s_append_def Let_def)

lemma llbuf_s_append_all_repr:
  "llbuf_s_repr llb xs \<Longrightarrow> llbuf_s_repr (llbuf_s_append_all llb ys) (xs @ ys)"
proof (induction ys arbitrary: llb xs)
  case (Cons y ys)
  have "evr_llbuf_s_append True llb y = (Evr_ok, snd (evr_llbuf_s_append True llb y))"
    using llbuf_s_append_ok [of llb y] by (metis prod.collapse)
  from llbuf_s_append_repr [OF Cons.prems this] Cons.IH show ?case by fastforce
qed simp

lemma iter_collect_repr:
  assumes "llbuf_s_repr llb xs" "i + r = length xs"
    and "r > 0 \<Longrightarrow> it_block iter = i div block_child_count llb \<and> it_child iter = i mod block_child_count llb"
    and "remaining_children iter = r"
  shows "iter_collect r llb iter = Some (drop i xs)"
  using assms
proof (induction r arbitrary: i iter)
  case 0
  then show ?case by (simp add: evr_llbuf_s_iter_next_def)
next
  case (Suc r)
  let ?b = "block_child_count llb"
  from Suc.prems have at: "child_at llb (it_block iter) (it_child iter) = Some (xs ! i)" and i: "i < length xs"
    and b: "0 < ?b" by (auto simp: llbuf_s_repr_def)
  then obtain iter' where nxt: "evr_llbuf_s_iter_next llb iter = Some (Some (xs ! i), iter')"
    by (auto simp: evr_llbuf_s_iter_next_def Let_def Suc.prems(4))
  then have "remaining_children iter' = r" "r > 0 \<Longrightarrow> it_block iter' = Suc i div ?b \<and> it_child iter' = Suc i mod ?b"
    using Suc.prems at b
    by (auto simp: evr_llbuf_s_iter_next_def Let_def div_Suc mod_Suc split: if_splits)
  then have "iter_collect r llb iter' = Some (drop (Suc i) xs)"
    using Suc.prems by (intro Suc.IH) auto
  with nxt i show ?case by (simp add: take_Suc_drop_nth)
qed

section \<open>Properties\<close>

text \<open>
  Iterating over a linked list buffer returns the children in the order they were appended,
  for every page size and child size, never following a null pointer, and ends with null.
\<close>

theorem llbuf_s_roundtrip:
  "iter_collect (length xs) (llbuf_s_append_all (evr_init_llbuf_s page child) xs)
     (evr_init_llbuf_s_iter (llbuf_s_append_all (evr_init_llbuf_s page child) xs)) = Some xs"
proof -
  let ?l = "llbuf_s_append_all (evr_init_llbuf_s page child) xs"
  have r: "llbuf_s_repr ?l xs" using llbuf_s_append_all_repr [OF llbuf_s_init_repr] by fastforce
  then have "child_count ?l = length xs" by (simp add: llbuf_s_repr_def)
  then show ?thesis
    using iter_collect_repr [OF r, of 0 "length xs" "evr_init_llbuf_s_iter ?l"]
    by (simp add: evr_init_llbuf_s_iter_def)
qed

text \<open>
  \<^verbatim>\<open>evr_chunk_setify\<close> accepts exactly the buffers below \<open>evr_chunk_set_max_chunks\<close> chunks, and
  the chunks it points out joined are the buffer.
\<close>

theorem chunk_setify_covers:
  "evr_chunk_setify b =
     (if length b < evr_chunk_set_max_chunks * evr_chunk_size
      then (Evr_ok, snd (evr_chunk_setify b)) else (Evr_error, None)) \<and>
   (case snd (evr_chunk_setify b) of None \<Rightarrow> length b \<ge> evr_chunk_set_max_chunks * evr_chunk_size
    | Some cs \<Rightarrow> concat (cs_chunks cs) = b \<and> cs_size_used cs = length b)"
proof (cases "length b < evr_chunk_set_max_chunks * evr_chunk_size")
  case True
  then have "length b div evr_chunk_size < evr_chunk_set_max_chunks"
    by (simp add: less_mult_imp_div_less)
  then obtain cs where "evr_chunk_setify b = (Evr_ok, Some cs)" by (simp add: evr_chunk_setify_def Let_def)
  with chunk_setify_concat [OF this] True show ?thesis by simp
next
  case False
  then have "evr_chunk_set_max_chunks \<le> length b div evr_chunk_size"
    by (simp add: less_eq_div_iff_mult_less_eq)
  with False show ?thesis by (simp add: evr_chunk_setify_def Let_def)
qed

end
