(* ===== verification/Keys.thy ===== *)
theory Keys
  imports C_Lib Dyn_Mem
begin

text \<open>
  \<^verbatim>\<open>src/keys.h\<close> and \<^verbatim>\<open>src/keys.c\<close>: references of blobs (a SHA3-224 digest) and of claims
  (a blob reference and the index of the claim in the blob), their text form, the digest
  over a chunked blob, and the small set of claim references.

  The digest is computed by libgcrypt. It is the parameter \<open>sha3_224\<close> of the definitions; a
  digest handle is modelled by the bytes written to it so far.
\<close>

section \<open>Blob references\<close>

definition evr_blob_ref_size :: nat where [evr_layout]: "evr_blob_ref_size = 28"
definition evr_claim_ref_size :: nat where [evr_layout]: "evr_claim_ref_size = 30"

type_synonym evr_blob_ref = bytes
type_synonym evr_claim_ref = bytes

definition evr_blob_ref_str_prefix :: string where "evr_blob_ref_str_prefix = ''sha3-224-''"

definition evr_blob_ref_str_size :: nat where
  [evr_layout]: "evr_blob_ref_str_size = 9 + 2 * evr_blob_ref_size + 1"

definition evr_claim_ref_str_size :: nat where
  [evr_layout]: "evr_claim_ref_str_size = evr_blob_ref_str_size + 1 + 4"

primrec fmt_hex_loop :: "bytes \<Rightarrow> string" where
  "fmt_hex_loop [] = []"
| "fmt_hex_loop (k # ks) = fmt_02x k @ fmt_hex_loop ks"

definition evr_fmt_blob_ref :: "bytes \<Rightarrow> string" where
  "evr_fmt_blob_ref key = evr_blob_ref_str_prefix @ fmt_hex_loop (take evr_blob_ref_size key)"

text \<open>
  The parsers write into an array of the caller. The first argument is its content before
  the call, and the result holds the code and the content after it, also on errors.
\<close>

fun parse_hex_loop :: "bool \<Rightarrow> bytes \<Rightarrow> nat \<Rightarrow> string \<Rightarrow> evr_code \<times> bytes" where
  "parse_hex_loop check key i (a # b # p) =
    (case sscanf_x 2 [a, b] of
       None \<Rightarrow> (Evr_error, key)
     | Some v \<Rightarrow> if check \<and> v > 255 then (Evr_error, key)
                 else parse_hex_loop check (key[i := word_of_nat v]) (Suc i) p)"
| "parse_hex_loop check key i p = (Evr_ok, key)"

definition evr_parse_blob_ref :: "bytes \<Rightarrow> string \<Rightarrow> evr_code \<times> bytes" where
  "evr_parse_blob_ref key fmt_key =
    (if \<not> strncmp_eq evr_blob_ref_str_prefix fmt_key then (Evr_error, key)
     else let p = drop (length evr_blob_ref_str_prefix) fmt_key in
          if length p \<noteq> 2 * evr_blob_ref_size then (Evr_error, key)
          else parse_hex_loop True key 0 p)"

lemma length_fmt_hex_loop [simp]: "length (fmt_hex_loop ks) = 2 * length ks"
  by (induction ks) auto

lemma parse_fmt_hex_loop:
  "length ks \<le> length key - i \<Longrightarrow> i \<le> length key \<Longrightarrow>
   parse_hex_loop check key i (fmt_hex_loop ks) = (Evr_ok, overwrite key i ks)"
proof (induction ks arbitrary: key i)
  case (Cons k ks)
  have "parse_hex_loop check key i (fmt_hex_loop (k # ks))
      = parse_hex_loop check (key[i := k]) (Suc i) (fmt_hex_loop ks)"
    using sscanf_fmt_02x [of k] by (simp add: fmt_02x_def)
  also have "\<dots> = (Evr_ok, overwrite (key[i := k]) (Suc i) ks)"
    using Cons.prems by (intro Cons.IH) auto
  also have "overwrite (key[i := k]) (Suc i) ks = overwrite key i (k # ks)"
    using Cons.prems by (simp add: overwrite_def take_Suc_conv_app_nth upd_conv_take_nth_drop drop_Cons' add.commute)
  finally show ?case .
qed simp

lemma overwrite_all: "length key = length ks \<Longrightarrow> overwrite key 0 ks = ks"
  by (simp add: overwrite_def)

section \<open>Digests\<close>

type_synonym evr_blob_ref_hd = bytes

definition evr_blob_ref_write :: "evr_blob_ref_hd \<Rightarrow> bytes \<Rightarrow> evr_blob_ref_hd" where
  "evr_blob_ref_write md b = md @ b"

definition evr_blob_ref_write_se :: "evr_blob_ref_hd \<Rightarrow> bytes \<Rightarrow> evr_code \<times> evr_blob_ref_hd" where
  "evr_blob_ref_write_se md b = (Evr_ok, evr_blob_ref_write md b)"

definition evr_blob_ref_final :: "(bytes \<Rightarrow> bytes) \<Rightarrow> evr_blob_ref_hd \<Rightarrow> evr_blob_ref" where
  "evr_blob_ref_final sha3_224 md = take evr_blob_ref_size (sha3_224 md)"

definition evr_cmp_blob_ref_eq :: "bytes \<Rightarrow> bytes \<Rightarrow> bool" where
  "evr_cmp_blob_ref_eq r1 r2 = (take evr_blob_ref_size r1 = take evr_blob_ref_size r2)"

definition evr_blob_ref_hd_match :: "(bytes \<Rightarrow> bytes) \<Rightarrow> evr_blob_ref_hd \<Rightarrow> evr_blob_ref \<Rightarrow> evr_code" where
  "evr_blob_ref_hd_match sha3_224 md expected_ref =
    (if \<not> evr_cmp_blob_ref_eq expected_ref (evr_blob_ref_final sha3_224 md) then Evr_error else Evr_ok)"

text \<open>
  The loop visits \<open>size div evr_chunk_size + 1\<close> chunk pointers. \<open>None\<close> is a read behind the
  array of chunk pointers or behind a chunk.
\<close>

fun calc_blob_ref_loop :: "nat \<Rightarrow> nat \<Rightarrow> bytes list \<Rightarrow> evr_blob_ref_hd \<Rightarrow> evr_blob_ref_hd option" where
  "calc_blob_ref_loop 0 bytes_remaining chunks md = Some md"
| "calc_blob_ref_loop (Suc n) bytes_remaining [] md = None"
| "calc_blob_ref_loop (Suc n) bytes_remaining (c # cs) md =
    (let sz = (if bytes_remaining < evr_chunk_size then bytes_remaining else evr_chunk_size)
     in if sz > length c then None
        else calc_blob_ref_loop n (bytes_remaining - sz) cs (evr_blob_ref_write md (take sz c)))"

definition evr_calc_blob_ref :: "(bytes \<Rightarrow> bytes) \<Rightarrow> bool \<Rightarrow> nat \<Rightarrow> bytes list \<Rightarrow> (evr_code \<times> evr_blob_ref) option" where
  "evr_calc_blob_ref sha3_224 md_open sz chunks =
    (if \<not> md_open then Some (Evr_error, [])
     else do { md \<leftarrow> calc_blob_ref_loop (sz div evr_chunk_size + 1) sz chunks [];
               Some (Evr_ok, evr_blob_ref_final sha3_224 md) })"

text \<open>Chunks that hold a blob: all but the last are full.\<close>

fun chunks_hold :: "nat \<Rightarrow> bytes list \<Rightarrow> bytes \<Rightarrow> bool" where
  "chunks_hold 0 cs b = (b = [])"
| "chunks_hold (Suc n) [] b = False"
| "chunks_hold (Suc n) (c # cs) b =
    (min evr_chunk_size (length b) \<le> length c \<and> take (min evr_chunk_size (length b)) c = take evr_chunk_size b
     \<and> chunks_hold n cs (drop evr_chunk_size b))"

lemma calc_blob_ref_loop_eq:
  "chunks_hold n cs b \<Longrightarrow> calc_blob_ref_loop n (length b) cs md = Some (md @ b)"
proof (induction n cs b arbitrary: md rule: chunks_hold.induct)
  case (3 n c cs b)
  let ?sz = "if length b < evr_chunk_size then length b else evr_chunk_size"
  have sz: "?sz = min evr_chunk_size (length b)" by simp
  have "length b - ?sz = length (drop evr_chunk_size b)" by simp
  with 3 show ?case by (auto simp: sz evr_blob_ref_write_def Let_def)
qed simp_all

section \<open>Claim references\<close>

definition evr_build_claim_ref :: "bytes \<Rightarrow> evr_blob_ref \<Rightarrow> c_int \<Rightarrow> evr_claim_ref option" where
  "evr_build_claim_ref cref bref claim =
    do { bp1 \<leftarrow> evr_push_n (evr_init_buf_pos cref) (take evr_blob_ref_size bref);
         bp2 \<leftarrow> evr_push_be16 bp1 claim;
         Some (buf bp2) }"

definition evr_split_claim_ref :: "evr_claim_ref \<Rightarrow> (evr_blob_ref \<times> c_int) option" where
  "evr_split_claim_ref cref =
    do { (bref, bp1) \<leftarrow> evr_pull_n (evr_init_buf_pos cref) evr_blob_ref_size;
         (claim, bp2) \<leftarrow> evr_pull_be bp1 2;
         Some (bref, claim) }"

definition evr_fmt_claim_ref :: "evr_claim_ref \<Rightarrow> string" where
  "evr_fmt_claim_ref cref =
    evr_fmt_blob_ref cref @ ''-'' @
    fmt_04x (word_of_nat (be_val (take 2 (drop evr_blob_ref_size cref))))"

text \<open>The result of the blob reference parser is not looked at.\<close>

definition evr_parse_claim_ref :: "bytes \<Rightarrow> string \<Rightarrow> evr_code \<times> bytes" where
  "evr_parse_claim_ref cref fmt_ref =
    (if length fmt_ref \<noteq> evr_claim_ref_str_size - 1 then (Evr_error, cref)
     else let bref_str = take (evr_blob_ref_str_size - 1) fmt_ref;
              cref1 = snd (evr_parse_blob_ref cref bref_str);
              s = drop (evr_blob_ref_str_size - 1) fmt_ref
          in if \<not> strncmp_eq ''-'' s then (Evr_error, cref1)
             else case sscanf_x 4 (drop 1 s) of
                    None \<Rightarrow> (Evr_error, cref1)
                  | Some index_ref \<Rightarrow>
                      (Evr_ok, overwrite cref1 evr_blob_ref_size (be16 (word_of_nat index_ref))))"

lemma be16_be_val: "length bs = 2 \<Longrightarrow> be16 (word_of_nat (be_val bs)) = bs"
  using be_val_bound [of bs] be_bytes_be_val [of bs] by (simp add: be16_def unat_of_nat)

lemma parse_fmt_blob_ref_part:
  assumes "length cref = evr_claim_ref_size" "length c = evr_claim_ref_size"
  shows "evr_parse_blob_ref cref (evr_fmt_blob_ref c) =
    (Evr_ok, take evr_blob_ref_size c @ drop evr_blob_ref_size cref)"
  using assms parse_fmt_hex_loop [of "take 28 c" cref 0 True]
  by (simp add: evr_parse_blob_ref_def evr_fmt_blob_ref_def strncmp_eq_def evr_blob_ref_str_prefix_def
      evr_layout overwrite_def)

section \<open>The tiny set of claim references\<close>

text \<open>
  \<open>refs\<close> are the \<^verbatim>\<open>refs_used\<close> first entries of the array, \<open>hash_set\<close> tells for each value of
  the first byte whether a reference with that byte may be present.
\<close>

record evr_claim_ref_tiny_set =
  refs_len :: nat
  refs :: "evr_claim_ref list"
  hash_set :: "bool list"

definition evr_reset_claim_ref_tiny_set :: "evr_claim_ref_tiny_set \<Rightarrow> evr_claim_ref_tiny_set" where
  "evr_reset_claim_ref_tiny_set st = st\<lparr>refs := [], hash_set := replicate 256 False\<rparr>"

definition evr_create_claim_ref_tiny_set :: "bool \<Rightarrow> nat \<Rightarrow> evr_claim_ref_tiny_set option" where
  "evr_create_claim_ref_tiny_set malloc n =
    (if \<not> malloc then None
     else Some (evr_reset_claim_ref_tiny_set \<lparr>refs_len = n, refs = [], hash_set = []\<rparr>))"

fun tiny_set_find :: "evr_claim_ref list \<Rightarrow> evr_claim_ref \<Rightarrow> bool" where
  "tiny_set_find [] ref = False"
| "tiny_set_find (r # rs) ref =
    (if take evr_claim_ref_size ref = take evr_claim_ref_size r then True else tiny_set_find rs ref)"

definition evr_claim_ref_tiny_set_add ::
  "evr_claim_ref_tiny_set \<Rightarrow> evr_claim_ref \<Rightarrow> evr_code \<times> evr_claim_ref_tiny_set" where
  "evr_claim_ref_tiny_set_add st ref =
    (let h = unat (ref ! 0) in
     if hash_set st ! h \<and> tiny_set_find (refs st) ref then (Evr_exists, st)
     else let st1 = (if hash_set st ! h then st else st\<lparr>hash_set := (hash_set st)[h := True]\<rparr>) in
          if refs_len st1 \<le> length (refs st1) then (Evr_error, st1)
          else (Evr_ok, st1\<lparr>refs := refs st1 @ [take evr_claim_ref_size ref]\<rparr>))"

definition tiny_set_inv :: "evr_claim_ref_tiny_set \<Rightarrow> bool" where
  "tiny_set_inv st =
    (length (refs st) \<le> refs_len st \<and> distinct (refs st) \<and> length (hash_set st) = 256 \<and>
     (\<forall>r\<in>set (refs st). length r = evr_claim_ref_size \<and> hash_set st ! unat (r ! 0)))"

lemma tiny_set_find_iff:
  "length ref = evr_claim_ref_size \<Longrightarrow> \<forall>r\<in>set rs. length r = evr_claim_ref_size \<Longrightarrow>
   tiny_set_find rs ref = (ref \<in> set rs)"
  by (induction rs) auto

lemma tiny_set_inv_reset: "tiny_set_inv (evr_reset_claim_ref_tiny_set st)"
  by (simp add: tiny_set_inv_def evr_reset_claim_ref_tiny_set_def)

text \<open>Adding refines insertion into a finite set of bounded size.\<close>

lemma tiny_set_add_spec:
  assumes inv: "tiny_set_inv st" and ref: "length ref = evr_claim_ref_size"
    and add: "evr_claim_ref_tiny_set_add st ref = (code, st')"
  shows "tiny_set_inv st' \<and> refs_len st' = refs_len st \<and>
    (if ref \<in> set (refs st) then code = Evr_exists \<and> set (refs st') = set (refs st)
     else if card (set (refs st)) < refs_len st
          then code = Evr_ok \<and> set (refs st') = insert ref (set (refs st))
          else code = Evr_error \<and> set (refs st') = set (refs st))"
proof -
  have find: "tiny_set_find (refs st) ref = (ref \<in> set (refs st))"
    using inv ref by (intro tiny_set_find_iff) (auto simp: tiny_set_inv_def)
  have hash: "ref \<in> set (refs st) \<Longrightarrow> hash_set st ! unat (ref ! 0)"
    using inv by (auto simp: tiny_set_inv_def)
  have card: "card (set (refs st)) = length (refs st)"
    using inv by (simp add: tiny_set_inv_def distinct_card)
  have upd: "tiny_set_inv (st\<lparr>hash_set := (hash_set st)[unat (ref ! 0) := True]\<rparr>)"
    using inv by (auto simp: tiny_set_inv_def nth_list_update)
  show ?thesis
    using add inv upd hash ref
    by (auto simp: evr_claim_ref_tiny_set_add_def Let_def find card tiny_set_inv_def split: if_splits)
qed

section \<open>Properties\<close>

text \<open>
  Parsing the text form of a blob reference gives the reference back, whatever the caller's
  array held before, and the text form has the length \<^verbatim>\<open>evr_blob_ref_str_len\<close>.
\<close>

theorem blob_ref_roundtrip:
  assumes "length key = evr_blob_ref_size" "length old = evr_blob_ref_size"
  shows "evr_parse_blob_ref old (evr_fmt_blob_ref key) = (Evr_ok, key) \<and>
    length (evr_fmt_blob_ref key) = evr_blob_ref_str_size - 1"
  using assms parse_fmt_hex_loop [of key old 0 True]
  by (simp add: evr_parse_blob_ref_def evr_fmt_blob_ref_def strncmp_eq_def evr_blob_ref_str_prefix_def
      evr_layout overwrite_all)

theorem blob_ref_roundtrip_witness:
  "evr_parse_blob_ref (replicate 28 0) (evr_fmt_blob_ref (map word_of_nat [200..<228])) =
    (Evr_ok, map word_of_nat [200..<228])"
  using blob_ref_roundtrip [of "map word_of_nat [200..<228]" "replicate 28 0"]
  by (simp add: evr_layout)

lemma parse_fmt_claim_ref:
  assumes "length c = evr_claim_ref_size" "length old = evr_claim_ref_size"
  shows "evr_parse_claim_ref old (evr_fmt_claim_ref c) = (Evr_ok, c)"
proof -
  have len: "length (evr_fmt_blob_ref c) = evr_blob_ref_str_size - 1"
    using assms(1) by (simp add: evr_fmt_blob_ref_def evr_blob_ref_str_prefix_def evr_layout)
  have "evr_parse_claim_ref old (evr_fmt_claim_ref c) =
    (Evr_ok, overwrite (take evr_blob_ref_size c @ drop evr_blob_ref_size old) evr_blob_ref_size
       (take 2 (drop evr_blob_ref_size c)))"
    using assms len
    by (simp add: evr_parse_claim_ref_def evr_fmt_claim_ref_def Let_def
        parse_fmt_blob_ref_part strncmp_eq_def sscanf_fmt_04x be16_be_val evr_layout)
  also have "\<dots> = (Evr_ok, c)" using assms by (simp add: overwrite_def evr_layout)
  finally show ?thesis .
qed

text \<open>
  Parsing the text form of a claim reference gives the reference back, and a claim reference
  built from a blob reference and a claim index below \<open>2 ^ 16\<close> splits into both again.
\<close>

theorem claim_ref_roundtrip:
  assumes "length c = evr_claim_ref_size" "length old = evr_claim_ref_size"
    "length bref = evr_blob_ref_size" "unat claim < 2 ^ 16"
  shows "evr_parse_claim_ref old (evr_fmt_claim_ref c) = (Evr_ok, c) \<and>
    (\<exists>cr. evr_build_claim_ref old bref claim = Some cr \<and> length cr = evr_claim_ref_size \<and>
       evr_split_claim_ref cr = Some (bref, claim))"
proof
  show "evr_parse_claim_ref old (evr_fmt_claim_ref c) = (Evr_ok, c)"
    using assms(1,2) by (rule parse_fmt_claim_ref)
  let ?cr = "bref @ be16 (ucast claim)"
  have "evr_build_claim_ref old bref claim = Some ?cr"
    using assms(2,3) by (simp add: evr_build_claim_ref_def push_runs evr_layout)
  moreover have "ucast (ucast claim :: 16 word) = claim"
    using assms(4) by (simp add: word_eq_iff_unsigned [where ?'a = nat] unsigned_ucast_eq unsigned_take_bit_eq take_bit_nat_eq_self)
  then have "evr_pull_be (at_pos bref (be16 (ucast claim) @ [])) 2 = Some (claim, at_pos ?cr [])"
    by (simp only: pull_be16_at_pos)
  then have "evr_split_claim_ref ?cr = Some (bref, claim)"
    using assms(3) by (simp add: evr_split_claim_ref_def pull_runs)
  ultimately show "\<exists>cr. evr_build_claim_ref old bref claim = Some cr \<and> length cr = evr_claim_ref_size \<and>
       evr_split_claim_ref cr = Some (bref, claim)"
    using assms(3) by (simp add: evr_layout)
qed

theorem claim_ref_roundtrip_witness:
  "evr_parse_claim_ref (replicate 30 0) (evr_fmt_claim_ref (map word_of_nat [200..<230])) =
      (Evr_ok, map word_of_nat [200..<230]) \<and>
    (\<exists>cr. evr_build_claim_ref (replicate 30 0) (replicate 28 1) 300 = Some cr \<and>
       length cr = evr_claim_ref_size \<and> evr_split_claim_ref cr = Some (replicate 28 1, 300))"
  using claim_ref_roundtrip [of "map word_of_nat [200..<230]" "replicate 30 0" "replicate 28 1" 300]
  by (simp add: evr_layout)

text \<open>
  The digest of a blob that lies in chunks is the digest of the blob: the loop reads no byte
  outside the chunks and writes exactly the blob's bytes in order.
\<close>

theorem calc_blob_ref_is_digest:
  assumes "chunks_hold (length b div evr_chunk_size + 1) chunks b"
  shows "evr_calc_blob_ref sha3_224 True (length b) chunks =
    Some (Evr_ok, evr_blob_ref_final sha3_224 b)"
  using calc_blob_ref_loop_eq [OF assms, of "[]"] by (simp add: evr_calc_blob_ref_def)

theorem calc_blob_ref_is_digest_witness:
  "evr_calc_blob_ref (\<lambda>m. replicate 27 0 @ [sum_list m]) True (length [1, 2, 3 :: byte]) [[1, 2, 3, 4, 5]] =
    Some (Evr_ok, evr_blob_ref_final (\<lambda>m. replicate 27 0 @ [sum_list m]) [1, 2, 3])"
  by (rule calc_blob_ref_is_digest) (simp add: evr_chunk_size_def)

text \<open>
  The tiny set refines a bounded set: adding a present reference is \<^verbatim>\<open>evr_exists\<close>, adding a
  new one inserts it while there is room and fails with \<^verbatim>\<open>evr_error\<close> otherwise, and the
  invariant that ties the hash table to the references is kept on every branch.
\<close>

theorem tiny_set_refines_set:
  assumes "tiny_set_inv st" "length ref = evr_claim_ref_size"
    "evr_claim_ref_tiny_set_add st ref = (code, st')"
  shows "tiny_set_inv st' \<and> refs_len st' = refs_len st \<and>
    (if ref \<in> set (refs st) then code = Evr_exists \<and> set (refs st') = set (refs st)
     else if card (set (refs st)) < refs_len st
          then code = Evr_ok \<and> set (refs st') = insert ref (set (refs st))
          else code = Evr_error \<and> set (refs st') = set (refs st))"
  by (rule tiny_set_add_spec [OF assms])

theorem tiny_set_refines_set_witness:
  "\<exists>code st'. evr_claim_ref_tiny_set_add
      \<lparr>refs_len = 1, refs = [], hash_set = replicate 256 False\<rparr> (replicate 30 5) = (code, st') \<and>
    tiny_set_inv st' \<and> refs_len st' = 1 \<and> code = Evr_ok \<and> set (refs st') = {replicate 30 5}"
proof -
  let ?st = "\<lparr>refs_len = 1, refs = [], hash_set = replicate 256 False\<rparr> :: evr_claim_ref_tiny_set"
  obtain code st' where a: "evr_claim_ref_tiny_set_add ?st (replicate 30 5) = (code, st')" by fastforce
  have "tiny_set_inv ?st" by (simp add: tiny_set_inv_def)
  from tiny_set_refines_set [OF this _ a] a show ?thesis by (auto simp: evr_layout)
qed

end
