(* ===== verification/Files.thy ===== *)
theory Files
  imports Keys
begin

text \<open>
  \<^verbatim>\<open>src/files.h\<close> and \<^verbatim>\<open>src/files.c\<close>, the loops over an \<open>evr_file\<close>. The struct is a table of
  functions; the loops only call \<^verbatim>\<open>read\<close> and \<^verbatim>\<open>write\<close>, which are arguments of the models.
  The locales \<open>evr_reader\<close>, \<open>evr_reliable_reader\<close> and \<open>evr_writer\<close> state what an
  implementation of these calls promises, and the loops are verified once against them.
  File descriptors implement them here, the in-memory file in \<open>File_Mem\<close> and bucket files in
  \<open>Bucket_Io\<close>.
\<close>

section \<open>The file interface\<close>

text \<open>A read delivers an error or bytes, none of them at the end of the file.\<close>

datatype read_res = Read_fail | Read_bytes bytes

text \<open>
  A write returns the number of bytes taken, or a result below one together with whether
  \<^verbatim>\<open>errno\<close> is \<^verbatim>\<open>EPIPE\<close>.
\<close>

datatype write_res = Write_fail bool | Written nat

type_synonym 'f reader = "'f \<Rightarrow> nat \<Rightarrow> read_res \<times> 'f"
type_synonym 'f writer = "'f \<Rightarrow> bytes \<Rightarrow> write_res \<times> 'f"
type_synonym 'c side_effect = "'c \<Rightarrow> bytes \<Rightarrow> evr_code \<times> 'c"

text \<open>The missing side effect.\<close>

definition no_se :: "'c side_effect" where "no_se ctx bs = (Evr_ok, ctx)"

definition visited_bytes_counter_se :: "nat side_effect" where
  "visited_bytes_counter_se ctx bs = (Evr_ok, ctx + length bs)"

section \<open>Loops\<close>

text \<open>The results hold the code, the bytes that went into the buffer, the context and the file.\<close>

function read_n :: "'f reader \<Rightarrow> 'c side_effect \<Rightarrow> 'f \<Rightarrow> nat \<Rightarrow> 'c \<Rightarrow> evr_code \<times> bytes \<times> 'c \<times> 'f" where
  "read_n rd se f remaining ctx =
    (if remaining = 0 then (Evr_ok, [], ctx, f)
     else case rd f remaining of
         (Read_fail, f') \<Rightarrow> (Evr_error, [], ctx, f')
       | (Read_bytes bs, f') \<Rightarrow>
           (if bs = [] then (Evr_end, [], ctx, f')
            else case se ctx bs of (sc, ctx') \<Rightarrow>
              if sc \<noteq> Evr_ok then (Evr_error, bs, ctx', f')
              else case read_n rd se f' (remaining - length bs) ctx' of
                (code, rest, ctx'', f'') \<Rightarrow> (code, bs @ rest, ctx'', f'')))"
  by pat_completeness auto
termination by (relation "measure (\<lambda>(rd, se, f, remaining, ctx). remaining)") auto

function write_n :: "'f writer \<Rightarrow> 'f \<Rightarrow> bytes \<Rightarrow> evr_code \<times> 'f" where
  "write_n wr f b =
    (if b = [] then (Evr_ok, f)
     else case wr f b of
         (Write_fail epipe, f') \<Rightarrow> (if epipe then Evr_end else Evr_error, f')
       | (Written k, f') \<Rightarrow> if k = 0 then (Evr_error, f') else write_n wr f' (drop k b))"
  by pat_completeness auto
termination by (relation "measure (\<lambda>(wr, f, b). length b)") auto

function dump_n :: "'f reader \<Rightarrow> 'c side_effect \<Rightarrow> 'f \<Rightarrow> nat \<Rightarrow> nat \<Rightarrow> 'c \<Rightarrow> evr_code \<times> 'c \<times> 'f" where
  "dump_n rd se f buf_size remaining ctx =
    (if remaining = 0 then (Evr_ok, ctx, f)
     else case rd f (min buf_size remaining) of
         (Read_fail, f') \<Rightarrow> (Evr_error, ctx, f')
       | (Read_bytes bs, f') \<Rightarrow>
           (if bs = [] then (Evr_end, ctx, f')
            else case se ctx bs of (sc, ctx') \<Rightarrow>
              if sc \<noteq> Evr_ok then (Evr_error, ctx', f')
              else dump_n rd se f' buf_size (remaining - length bs) ctx'))"
  by pat_completeness auto
termination by (relation "measure (\<lambda>(rd, se, f, buf_size, remaining, ctx). remaining)") auto

text \<open>\<^verbatim>\<open>dump_n\<close> declares a buffer of \<^verbatim>\<open>min(bytes, 4096)\<close> bytes.\<close>

abbreviation dump_n_bytes :: "'f reader \<Rightarrow> 'c side_effect \<Rightarrow> 'f \<Rightarrow> nat \<Rightarrow> 'c \<Rightarrow> evr_code \<times> 'c \<times> 'f" where
  "dump_n_bytes rd se f n ctx \<equiv> dump_n rd se f (min n 4096) n ctx"

function pipe_n :: "'d writer \<Rightarrow> 's reader \<Rightarrow> 'c side_effect \<Rightarrow> 'd \<Rightarrow> 's \<Rightarrow> nat \<Rightarrow> 'c \<Rightarrow> evr_code \<times> 'c \<times> 'd \<times> 's" where
  "pipe_n wr rd se dest src remaining ctx =
    (if remaining = 0 then (Evr_ok, ctx, dest, src)
     else case rd src (min remaining 4096) of
         (Read_fail, src') \<Rightarrow> (Evr_error, ctx, dest, src')
       | (Read_bytes bs, src') \<Rightarrow>
           (if bs = [] then (Evr_error, ctx, dest, src')
            else case se ctx bs of (sc, ctx') \<Rightarrow>
              if sc \<noteq> Evr_ok then (Evr_error, ctx', dest, src')
              else case write_n wr dest bs of (wc, dest') \<Rightarrow>
                if wc = Evr_end then (Evr_end, ctx', dest', src')
                else if wc \<noteq> Evr_ok then (Evr_error, ctx', dest', src')
                else pipe_n wr rd se dest' src' (remaining - length bs) ctx'))"
  by pat_completeness auto
termination by (relation "measure (\<lambda>(wr, rd, se, dest, src, remaining, ctx). remaining)") auto

declare read_n.simps [simp del] write_n.simps [simp del] dump_n.simps [simp del] pipe_n.simps [simp del]

lemma loops_done [simp]:
  "read_n rd se f 0 ctx = (Evr_ok, [], ctx, f)"
  "write_n wr g [] = (Evr_ok, g)"
  "dump_n rd se f bsz 0 ctx = (Evr_ok, ctx, f)"
  "pipe_n wr rd se g f 0 ctx = (Evr_ok, ctx, g, f)"
  by (simp_all add: read_n.simps write_n.simps dump_n.simps pipe_n.simps)

text \<open>\<^verbatim>\<open>write_chunk_set\<close>: \<open>None\<close> is a read behind the chunk pointers or behind a chunk.\<close>

fun write_chunk_set_loop :: "'f writer \<Rightarrow> 'f \<Rightarrow> bytes list \<Rightarrow> nat \<Rightarrow> (evr_code \<times> 'f) option" where
  "write_chunk_set_loop wr f [] remaining = (if remaining = 0 then Some (Evr_ok, f) else None)"
| "write_chunk_set_loop wr f (c # cs) remaining =
    (if remaining = 0 then Some (Evr_ok, f)
     else let k = min evr_chunk_size remaining in
          if k > length c then None
          else case write_n wr f (take k c) of (code, f') \<Rightarrow>
            if code \<noteq> Evr_ok then Some (Evr_error, f')
            else write_chunk_set_loop wr f' cs (remaining - k))"

definition write_chunk_set :: "'f writer \<Rightarrow> 'f \<Rightarrow> chunk_set \<Rightarrow> (evr_code \<times> 'f) option" where
  "write_chunk_set wr f cs = write_chunk_set_loop wr f (cs_chunks cs) (cs_size_used cs)"

text \<open>
  \<^verbatim>\<open>read_into_chunks\<close> allocates \<open>ceil_div size evr_chunk_size\<close> chunks and fills them.
  \<open>alloc\<close> is as for \<^verbatim>\<open>evr_init_chunk_set\<close>; the result is \<open>None\<close> for the null pointer, and
  also tells the context and the file.
\<close>

definition ceil_div :: "nat \<Rightarrow> nat \<Rightarrow> nat" where
  "ceil_div dividend divisor = (dividend + (divisor - 1)) div divisor"

lemma ceil_div_covers:
  assumes "0 < d"
  shows "n \<le> ceil_div n d * d"
proof -
  have "n + (d - 1) < d + (n + (d - 1)) div d * d" using dividend_less_div_times [OF assms] by simp
  then show ?thesis using assms by (simp add: ceil_div_def)
qed

lemma alloc_chunks_all: "alloc_chunks_loop alloc i n = Some cks \<Longrightarrow> \<forall>c\<in>set cks. \<exists>j. alloc j = Some c"
proof (induction n arbitrary: i cks)
  case (Suc n)
  then show ?case by (auto split: option.splits)
qed simp

fun read_chunks_loop ::
  "'f reader \<Rightarrow> 'c side_effect \<Rightarrow> 'f \<Rightarrow> bytes list \<Rightarrow> nat \<Rightarrow> 'c \<Rightarrow> evr_code \<times> bytes list \<times> 'c \<times> 'f" where
  "read_chunks_loop rd se f [] remaining ctx = (Evr_ok, [], ctx, f)"
| "read_chunks_loop rd se f (c # cs) remaining ctx =
    (let k = min remaining evr_chunk_size in
     case read_n rd se f k ctx of (code, bs, ctx', f') \<Rightarrow>
       if code \<noteq> Evr_ok then (Evr_error, [], ctx', f')
       else case read_chunks_loop rd se f' cs (remaining - k) ctx' of
         (code', rest, ctx'', f'') \<Rightarrow> (code', overwrite c 0 bs # rest, ctx'', f''))"

definition read_into_chunks ::
  "'f reader \<Rightarrow> 'c side_effect \<Rightarrow> (nat \<Rightarrow> bytes option) \<Rightarrow> 'f \<Rightarrow> nat \<Rightarrow> 'c \<Rightarrow> chunk_set option \<times> 'c \<times> 'f" where
  "read_into_chunks rd se alloc f sz ctx =
    (case evr_init_chunk_set alloc (ceil_div sz evr_chunk_size) of
       (code, None, _) \<Rightarrow> (None, ctx, f)
     | (code, Some cs, _) \<Rightarrow>
        (case read_chunks_loop rd se f (cs_chunks cs) sz ctx of (code, cks, ctx', f') \<Rightarrow>
           if code \<noteq> Evr_ok then (None, ctx', f')
           else (Some (cs\<lparr>cs_chunks := cks, cs_size_used := sz\<rparr>), ctx', f')))"

text \<open>
  \<^verbatim>\<open>read_fd\<close> appends to a dynamic array until exactly \<open>max_size\<close> bytes were read by this
  call. The bound of one read is \<^verbatim>\<open>min(max_size, free space)\<close>, not what is left of
  \<open>max_size\<close>, so short reads can carry the total past \<open>max_size\<close>; the loop then goes on.
  \<open>realloc k\<close> tells whether growing an array of \<open>k\<close> bytes succeeds; the array is \<open>None\<close>
  after a failed growth. The whole result is \<open>None\<close> when the loop does not end.
\<close>

partial_function (option) read_fd ::
  "'f reader \<Rightarrow> (nat \<Rightarrow> bool) \<Rightarrow> nat \<Rightarrow> dynamic_array \<Rightarrow> 'f \<Rightarrow> nat \<Rightarrow> (evr_code \<times> dynamic_array option \<times> 'f) option" where
  "read_fd rd realloc max_size da f total_read =
    (case (if size_allocated da = da_size_used da
           then grow_dynamic_array_at_least (realloc (da_size_used da)) (Some da) 0 else Some da) of
       None \<Rightarrow> Some (Evr_error, None, f)
     | Some da1 \<Rightarrow>
        (case rd f (min max_size (size_allocated da1 - da_size_used da1)) of
           (Read_fail, f') \<Rightarrow> Some (Evr_error, Some da1, f')
         | (Read_bytes bs, f') \<Rightarrow>
            (if bs = [] then Some (Evr_end, Some da1, f')
             else if total_read + length bs = max_size
                  then Some (Evr_ok, Some (da1\<lparr>da_data := da_data da1 @ bs\<rparr>), f')
                  else read_fd rd realloc max_size (da1\<lparr>da_data := da_data da1 @ bs\<rparr>) f'
                         (total_read + length bs))))"

section \<open>What a file promises\<close>

locale evr_reader =
  fixes rd :: "'f reader" and stream :: "'f \<Rightarrow> bytes" and valid :: "'f \<Rightarrow> bool"
  assumes rd_bytes: "valid f \<Longrightarrow> rd f n = (Read_bytes bs, f') \<Longrightarrow>
      length bs \<le> n \<and> stream f = bs @ stream f' \<and> valid f'"
    and rd_end: "valid f \<Longrightarrow> 0 < n \<Longrightarrow> rd f n = (Read_bytes [], f') \<Longrightarrow> stream f = []"
    and rd_fail: "valid f \<Longrightarrow> rd f n = (Read_fail, f') \<Longrightarrow> stream f' = stream f \<and> valid f'"
begin

text \<open>Whatever happens, the bytes in the buffer are the next bytes of the stream.\<close>

lemma read_n_stream:
  assumes "valid f" "read_n rd se f n ctx = (code, bs, ctx', f')"
  shows "stream f = bs @ stream f' \<and> valid f' \<and> length bs \<le> n \<and>
   (code = Evr_ok \<longrightarrow> length bs = n) \<and> (code = Evr_end \<longrightarrow> stream f' = [] \<and> length bs < n) \<and>
   code \<in> {Evr_ok, Evr_end, Evr_error}"
  using assms
proof (induction n arbitrary: f ctx code bs rule: less_induct)
  case (less n)
  obtain r f1 where r: "rd f n = (r, f1)" by fastforce
  consider "n = 0" | "n > 0" "r = Read_fail" | "n > 0" "r = Read_bytes []"
    | b where "n > 0" "r = Read_bytes b" "b \<noteq> []"
    by (cases r) auto
  then show ?case
  proof cases
    case 4
    note rb = rd_bytes [OF less.prems(1) r [unfolded 4(2)]]
    obtain sc ctx1 where se: "se ctx b = (sc, ctx1)" by fastforce
    show ?thesis
    proof (cases "sc = Evr_ok")
      case True
      obtain code2 rest ctx2 f2 where rec: "read_n rd se f1 (n - length b) ctx1 = (code2, rest, ctx2, f2)"
        using prod_cases4 by blast
      have eq: "(code, bs, ctx', f') = (code2, b @ rest, ctx2, f2)"
        using less.prems(2) 4 r se True rec by (simp add: read_n.simps [of rd se f n])
      then have rec': "read_n rd se f1 (n - length b) ctx1 = (code, rest, ctx', f')" using rec by simp
      have "n - length b < n" using 4 by (cases b) auto
      from less.IH [OF this _ rec'] rb have
        "stream f1 = rest @ stream f'" "valid f'" "length rest \<le> n - length b"
        "code = Evr_ok \<longrightarrow> length rest = n - length b"
        "code = Evr_end \<longrightarrow> stream f' = [] \<and> length rest < n - length b"
        "code \<in> {Evr_ok, Evr_end, Evr_error}" by blast+
      with rb eq show ?thesis by auto
    next
      case False
      then show ?thesis using less.prems(2) 4 r se rb by (simp add: read_n.simps [of rd se f n])
    qed
  next
    case 1
    then show ?thesis using less.prems by simp
  next
    case 2
    then show ?thesis using less.prems r rd_fail [OF less.prems(1)] by (simp add: read_n.simps [of rd se f n])
  next
    case 3
    then show ?thesis
      using less.prems r rd_end [OF less.prems(1), of n f1] rd_bytes [OF less.prems(1), of n "[]" f1]
      by (auto simp: read_n.simps [of rd se f n])
  qed
qed

text \<open>A side effect that collects what it is given sees the bytes of the buffer.\<close>

lemma read_n_collect:
  assumes "\<And>c b. se c b = (Evr_ok, c @ b)" "valid f" "read_n rd se f n ctx = (code, bs, ctx', f')"
  shows "ctx' = ctx @ bs"
  using assms(2-)
proof (induction n arbitrary: f ctx code bs rule: less_induct)
  case (less n)
  obtain r f1 where r: "rd f n = (r, f1)" by fastforce
  show ?case
  proof (cases "\<exists>b. n > 0 \<and> r = Read_bytes b \<and> b \<noteq> []")
    case True
    then obtain b where b: "n > 0" "r = Read_bytes b" "b \<noteq> []" by auto
    note rb = rd_bytes [OF less.prems(1) r [unfolded b(2)]]
    obtain code2 rest ctx2 f2 where rec: "read_n rd se f1 (n - length b) (ctx @ b) = (code2, rest, ctx2, f2)"
      using prod_cases4 by blast
    have eq: "(code, bs, ctx', f') = (code2, b @ rest, ctx2, f2)"
      using less.prems(2) b r rec assms(1) [of ctx b] by (simp add: read_n.simps [of rd se f n])
    then have rec': "read_n rd se f1 (n - length b) (ctx @ b) = (code, rest, ctx', f')" using rec by simp
    have "n - length b < n" using b by (cases b) auto
    from less.IH [OF this _ rec'] rb eq show ?thesis by simp
  next
    case False
    with less.prems r show ?thesis
      by (cases r) (auto simp: read_n.simps [of rd se f n] split: if_splits)
  qed
qed

lemma dump_n_stream:
  assumes "valid f" "0 < bsz" "dump_n rd se f bsz n ctx = (code, ctx', f')"
  shows "\<exists>bs. stream f = bs @ stream f' \<and> valid f' \<and> length bs \<le> n \<and>
   (code = Evr_ok \<longrightarrow> length bs = n) \<and> (code = Evr_end \<longrightarrow> stream f' = [] \<and> length bs < n) \<and>
   ((\<forall>c b. se c b = (Evr_ok, c @ b)) \<longrightarrow> ctx' = ctx @ bs)"
  using assms
proof (induction n arbitrary: f ctx code rule: less_induct)
  case (less n)
  obtain r f1 where r: "rd f (min bsz n) = (r, f1)" by fastforce
  consider "n = 0" | "n > 0" "r = Read_fail" | "n > 0" "r = Read_bytes []"
    | b where "n > 0" "r = Read_bytes b" "b \<noteq> []"
    by (cases r) auto
  then show ?case
  proof cases
    case 3
    then have "stream f = []" using rd_end [OF less.prems(1) _ r [unfolded 3(2)]] less.prems(2) by simp
    with 3 r less.prems rd_bytes show ?thesis by (auto simp: dump_n.simps [of rd se f bsz n])
  next
    case 4
    note rb = rd_bytes [OF less.prems(1) r [unfolded 4(2)]]
    obtain sc ctx1 where se: "se ctx b = (sc, ctx1)" by fastforce
    show ?thesis
    proof (cases "sc = Evr_ok")
      case True
      have rec: "dump_n rd se f1 bsz (n - length b) ctx1 = (code, ctx', f')"
        using less.prems(3) 4 r se True by (simp add: dump_n.simps [of rd se f bsz n])
      have "n - length b < n" using 4 by (cases b) auto
      from less.IH [OF this _ less.prems(2) rec] rb obtain bs where
        "stream f1 = bs @ stream f'" "valid f'" "length bs \<le> n - length b"
        "code = Evr_ok \<longrightarrow> length bs = n - length b"
        "code = Evr_end \<longrightarrow> stream f' = [] \<and> length bs < n - length b"
        "(\<forall>c b. se c b = (Evr_ok, c @ b)) \<longrightarrow> ctx' = ctx1 @ bs" by blast
      with rb se 4 show ?thesis by (intro exI [of _ "b @ bs"]) auto
    next
      case False
      then have "code = Evr_error" "f' = f1"
        using less.prems(3) 4 r se by (simp_all add: dump_n.simps [of rd se f bsz n])
      moreover have "\<not> (\<forall>c b. se c b = (Evr_ok, c @ b))" using False se by (metis prod.inject)
      ultimately show ?thesis using rb by (intro exI [of _ b]) (simp only:, simp)
    qed
  next
    case 1
    then show ?thesis using less.prems by simp
  next
    case 2
    then show ?thesis using less.prems r rd_fail [OF less.prems(1)] by (simp add: dump_n.simps [of rd se f bsz n])
  qed
qed

lemma read_chunks_loop_stream:
  assumes "valid f" "\<forall>c\<in>set cs. length c = evr_chunk_size" "n \<le> evr_chunk_size * length cs"
    and "read_chunks_loop rd se f cs n ctx = (Evr_ok, cks, ctx', f')"
  shows "\<exists>b. length b = n \<and> stream f = b @ stream f' \<and> valid f' \<and> chunks_hold (length cs) cks b \<and>
    ((\<forall>c b. se c b = (Evr_ok, c @ b)) \<longrightarrow> ctx' = ctx @ b)"
  using assms
proof (induction cs arbitrary: f n ctx cks)
  case (Cons c cs)
  let ?k = "min n evr_chunk_size"
  obtain code bs ctx1 f1 where rd: "read_n rd se f ?k ctx = (code, bs, ctx1, f1)"
    using prod_cases4 by blast
  obtain code2 rest ctx2 f2 where rec: "read_chunks_loop rd se f1 cs (n - ?k) ctx1 = (code2, rest, ctx2, f2)"
    using prod_cases4 by blast
  from Cons.prems(4) rd rec have eqs: "code = Evr_ok" "code2 = Evr_ok" "cks = overwrite c 0 bs # rest"
    "ctx2 = ctx'" "f2 = f'"
    by (auto simp: Let_def split: if_splits)
  note st = read_n_stream [OF Cons.prems(1) rd]
  have "n - ?k \<le> evr_chunk_size * length cs" using Cons.prems(3) by auto
  from Cons.IH [OF _ _ this, of f1 ctx1 rest] st Cons.prems(2) rec eqs obtain b where b:
    "length b = n - ?k" "stream f1 = b @ stream f'" "valid f'" "chunks_hold (length cs) rest b"
    "(\<forall>c b. se c b = (Evr_ok, c @ b)) \<longrightarrow> ctx' = ctx1 @ b" by auto
  have len: "length bs = ?k" using st eqs by simp
  have col: "(\<forall>c b. se c b = (Evr_ok, c @ b)) \<longrightarrow> ctx1 = ctx @ bs"
    using read_n_collect [OF _ Cons.prems(1) rd] by blast
  have "chunks_hold (Suc (length cs)) (overwrite c 0 bs # rest) (bs @ b)"
  proof (cases "n \<le> evr_chunk_size")
    case True
    with b(1) have "b = []" by simp
    with True b(4) len Cons.prems(2) show ?thesis by (simp add: overwrite_def min_def)
  next
    case False
    with b(4) len Cons.prems(2) show ?thesis by (simp add: overwrite_def min_def)
  qed
  with b len st col eqs show ?case
    by (intro exI [of _ "bs @ b"]) auto
qed simp

lemma read_into_chunks_stream:
  assumes "valid f" "\<forall>i c. alloc i = Some c \<longrightarrow> length c = evr_chunk_size"
    and "read_into_chunks rd se alloc f sz ctx = (Some cs, ctx', f')"
  shows "\<exists>b. length b = sz \<and> stream f = b @ stream f' \<and> valid f' \<and> cs_size_used cs = sz \<and>
    chunks_hold (ceil_div sz evr_chunk_size) (cs_chunks cs) b \<and>
    ((\<forall>c b. se c b = (Evr_ok, c @ b)) \<longrightarrow> ctx' = ctx @ b)"
proof -
  let ?n = "ceil_div sz evr_chunk_size"
  from assms(3) obtain cs0 code cks where init: "evr_init_chunk_set alloc ?n = (Evr_ok, Some cs0, [])"
    and rd: "read_chunks_loop rd se f (cs_chunks cs0) sz ctx = (Evr_ok, cks, ctx', f')"
    and cs: "cs = cs0\<lparr>cs_chunks := cks, cs_size_used := sz\<rparr>"
    by (auto simp: read_into_chunks_def evr_init_chunk_set_def split: if_splits option.splits prod.splits)
  from init have al: "alloc_chunks_loop alloc 0 ?n = Some (cs_chunks cs0)"
    by (auto simp: evr_init_chunk_set_def split: if_splits option.splits)
  have all: "\<forall>c\<in>set (cs_chunks cs0). length c = evr_chunk_size"
    using alloc_chunks_all [OF al] assms(2) by blast
  have len: "length (cs_chunks cs0) = ?n" by (rule length_alloc_chunks_loop [OF al])
  have "sz \<le> evr_chunk_size * length (cs_chunks cs0)"
    using len ceil_div_covers [of evr_chunk_size sz] by (simp add: mult.commute)
  from read_chunks_loop_stream [OF assms(1) all this rd] len show ?thesis by (auto simp: cs)
qed

end

text \<open>A reader whose calls never fail: the result of the loop is determined by the stream.\<close>

locale evr_reliable_reader = evr_reader +
  assumes rd_ok: "valid f \<Longrightarrow> \<exists>bs f'. rd f n = (Read_bytes bs, f')"
begin

lemma read_n_no_error:
  assumes "\<And>c b. fst (se c b) = Evr_ok" "valid f"
  shows "fst (read_n rd se f n ctx) \<noteq> Evr_error"
  using assms(2)
proof (induction n arbitrary: f ctx rule: less_induct)
  case (less n)
  show ?case
  proof (cases "n = 0")
    case False
    from rd_ok [OF less.prems] obtain b f1 where r: "rd f n = (Read_bytes b, f1)" by blast
    show ?thesis
    proof (cases "b = []")
      case False
      obtain ctx1 where se: "se ctx b = (Evr_ok, ctx1)" using assms(1) [of ctx b] by (metis prod.collapse)
      have "n - length b < n" using \<open>n \<noteq> 0\<close> False by (cases b) auto
      from less.IH [OF this, of f1 ctx1] rd_bytes [OF less.prems r] r se False \<open>n \<noteq> 0\<close> show ?thesis
        by (auto simp: read_n.simps [of rd se f n] split: prod.splits)
    qed (use r False in \<open>simp add: read_n.simps [of rd se f n]\<close>)
  qed simp
qed

lemma read_n_reliable:
  assumes "\<And>c b. fst (se c b) = Evr_ok" "valid f"
  shows "\<exists>ctx' f'. read_n rd se f n ctx =
      (if n \<le> length (stream f) then Evr_ok else Evr_end, take n (stream f), ctx', f')
    \<and> stream f' = drop n (stream f) \<and> valid f'"
proof -
  obtain code bs ctx' f' where rd: "read_n rd se f n ctx = (code, bs, ctx', f')"
    using prod_cases4 by blast
  note st = read_n_stream [OF assms(2) rd]
  have "fst (read_n rd se f n ctx) \<noteq> Evr_error" using assms by (rule read_n_no_error)
  then have "code \<noteq> Evr_error" using rd by simp
  with st rd show ?thesis by (cases "code = Evr_ok") auto
qed

lemma dump_n_reliable:
  assumes "\<And>c b. se c b = (Evr_ok, c @ b)" "valid f" "0 < bsz"
  shows "\<exists>f'. dump_n rd se f bsz n ctx =
      (if n \<le> length (stream f) then Evr_ok else Evr_end, ctx @ take n (stream f), f')
    \<and> stream f' = drop n (stream f) \<and> valid f'"
proof -
  have noerr: "fst (dump_n rd se f bsz n ctx) \<in> {Evr_ok, Evr_end}"
    using assms(2)
  proof (induction n arbitrary: f ctx rule: less_induct)
    case (less n)
    show ?case
    proof (cases "n = 0")
      case False
      from rd_ok [OF less.prems] obtain b f1 where r: "rd f (min bsz n) = (Read_bytes b, f1)" by blast
      show ?thesis
      proof (cases "b = []")
        case True
        with r False show ?thesis by (simp add: dump_n.simps [of rd se f bsz n])
      next
        case nonempty: False
        have "n - length b < n" using False nonempty by (cases b) auto
        from less.IH [OF this, of f1 "ctx @ b"] rd_bytes [OF less.prems r] r nonempty False assms(1) [of ctx b]
        show ?thesis by (simp add: dump_n.simps [of rd se f bsz n])
      qed
    qed simp
  qed
  obtain code ctx' f' where d: "dump_n rd se f bsz n ctx = (code, ctx', f')" using prod_cases3 by blast
  from dump_n_stream [OF assms(2,3) d] assms(1) obtain bs where
    "stream f = bs @ stream f'" "valid f'" "length bs \<le> n" "code = Evr_ok \<longrightarrow> length bs = n"
    "code = Evr_end \<longrightarrow> stream f' = [] \<and> length bs < n" "ctx' = ctx @ bs" by blast
  with d noerr show ?thesis by (cases "code = Evr_ok") auto
qed

end

text \<open>What a write promises: it takes a prefix of what it is given.\<close>

locale evr_writer =
  fixes wr :: "'f writer" and sink :: "'f \<Rightarrow> bytes" and wvalid :: "'f \<Rightarrow> bool"
  assumes wr_written: "wvalid f \<Longrightarrow> wr f b = (Written k, f') \<Longrightarrow>
      k \<le> length b \<and> sink f' = sink f @ take k b \<and> wvalid f'"
    and wr_fail: "wvalid f \<Longrightarrow> wr f b = (Write_fail e, f') \<Longrightarrow> sink f' = sink f \<and> wvalid f'"
begin

lemma write_n_sink:
  assumes "wvalid f" "write_n wr f b = (code, f')"
  shows "wvalid f' \<and> (\<exists>k\<le>length b. sink f' = sink f @ take k b \<and> (code = Evr_ok \<longrightarrow> k = length b)) \<and>
    code \<in> {Evr_ok, Evr_end, Evr_error}"
  using assms
proof (induction "length b" arbitrary: b f rule: less_induct)
  case less
  show ?case
  proof (cases "b = []")
    case True
    with less.prems show ?thesis by simp
  next
    case ne: False
    obtain r f1 where r: "wr f b = (r, f1)" by fastforce
    show ?thesis
    proof (cases r)
      case (Write_fail e)
      with less.prems r ne wr_fail [OF less.prems(1)] show ?thesis
        by (auto simp: write_n.simps [of wr f b] intro: exI [of _ 0] split: if_splits)
    next
      case (Written k)
      note w = wr_written [OF less.prems(1) r [unfolded Written]]
      show ?thesis
      proof (cases "k = 0")
        case True
        with less.prems r ne Written w show ?thesis
          by (auto simp: write_n.simps [of wr f b] intro: exI [of _ 0])
      next
        case False
        have rec: "write_n wr f1 (drop k b) = (code, f')"
          using less.prems r ne Written False by (simp add: write_n.simps [of wr f b])
        have "length (drop k b) < length b" using False ne by simp
        from less.hyps [OF this _ rec] w obtain j where j: "wvalid f'" "j \<le> length b - k"
          "sink f' = sink f1 @ take j (drop k b)" "code = Evr_ok \<longrightarrow> j = length b - k"
          "code \<in> {Evr_ok, Evr_end, Evr_error}" by auto
        have "sink f' = sink f @ take (k + j) b" using j w by (simp add: take_add)
        with j w show ?thesis by (auto intro!: exI [of _ "k + j"])
      qed
    qed
  qed
qed

lemma write_n_ok: "wvalid f \<Longrightarrow> write_n wr f b = (Evr_ok, f') \<Longrightarrow> sink f' = sink f @ b \<and> wvalid f'"
  using write_n_sink by fastforce

text \<open>A chunk set that holds a blob is written without reading outside the chunks.\<close>

lemma write_chunk_set_loop_sink:
  assumes "wvalid f" "chunks_hold n cs b"
  shows "\<exists>code f'. write_chunk_set_loop wr f cs (length b) = Some (code, f') \<and> wvalid f' \<and>
    (code = Evr_ok \<longrightarrow> sink f' = sink f @ b) \<and> (\<exists>k\<le>length b. sink f' = sink f @ take k b)"
  using assms
proof (induction n cs b arbitrary: f rule: chunks_hold.induct)
  case (1 cs b)
  then show ?case by (cases cs) auto
next
  case (3 n c cs b)
  show ?case
  proof (cases "b = []")
    case False
    let ?k = "min evr_chunk_size (length b)"
    from "3.prems"(2) have c: "?k \<le> length c" "take ?k c = take evr_chunk_size b"
      "chunks_hold n cs (drop evr_chunk_size b)" by simp_all
    obtain code f1 where w: "write_n wr f (take evr_chunk_size b) = (code, f1)" by fastforce
    from write_n_sink [OF "3.prems"(1) w] obtain j where j: "wvalid f1" "j \<le> length (take evr_chunk_size b)"
      "sink f1 = sink f @ take j (take evr_chunk_size b)"
      "code = Evr_ok \<longrightarrow> j = length (take evr_chunk_size b)" by blast
    show ?thesis
    proof (cases "code = Evr_ok")
      case True
      then have s1: "sink f1 = sink f @ take evr_chunk_size b"
        using j by (cases "length b \<le> evr_chunk_size") (auto simp: min_def)
      from "3.IH" [OF j(1) c(3)] obtain code2 f2 k2 where rec:
        "write_chunk_set_loop wr f1 cs (length b - evr_chunk_size) = Some (code2, f2)" "wvalid f2"
        "code2 = Evr_ok \<longrightarrow> sink f2 = sink f1 @ drop evr_chunk_size b"
        "k2 \<le> length b - evr_chunk_size" "sink f2 = sink f1 @ take k2 (drop evr_chunk_size b)"
        unfolding length_drop by blast
      have "length b - ?k = length b - evr_chunk_size" by simp
      moreover have "sink f2 = sink f @ take (?k + k2) b"
        using rec(5) s1 by (cases "evr_chunk_size \<le> length b") (auto simp: take_add min_def)
      ultimately show ?thesis using False c w True rec s1
        by (auto simp: Let_def intro!: exI [of _ "?k + k2"])
    next
      case notok: False
      have "sink f1 = sink f @ take j b" "j \<le> length b" using j by (auto simp: min_def split: if_splits)
      with False c w notok j(1) show ?thesis by (auto simp: Let_def intro: exI [of _ j])
    qed
  qed (use "3.prems" in \<open>auto\<close>)
qed auto

end

text \<open>Moving bytes from a reader to a writer.\<close>

locale evr_pipe = evr_reader + evr_writer
begin

lemma pipe_n_moves:
  assumes "valid src" "wvalid dest" "pipe_n wr rd se dest src n ctx = (code, ctx', dest', src')"
  shows "valid src' \<and> wvalid dest' \<and>
    (code = Evr_ok \<longrightarrow> (\<exists>b. length b = n \<and> stream src = b @ stream src' \<and> sink dest' = sink dest @ b))"
  using assms
proof (induction n arbitrary: src dest ctx rule: less_induct)
  case (less n)
  obtain r s1 where r: "rd src (min n 4096) = (r, s1)" by fastforce
  consider "n = 0" | "n > 0" "r = Read_fail" | "n > 0" "r = Read_bytes []"
    | b where "n > 0" "r = Read_bytes b" "b \<noteq> []"
    by (cases r) auto
  then show ?case
  proof cases
    case 1
    with less.prems show ?thesis by simp
  next
    case 2
    with less.prems r rd_fail [OF less.prems(1)] show ?thesis
      by (auto simp: pipe_n.simps [of wr rd se dest src n])
  next
    case 3
    with less.prems r rd_bytes [OF less.prems(1)] show ?thesis
      by (auto simp: pipe_n.simps [of wr rd se dest src n])
  next
    case 4
    note rb = rd_bytes [OF less.prems(1) r [unfolded 4(2)]]
    obtain sc ctx1 where se: "se ctx b = (sc, ctx1)" by fastforce
    obtain wc d1 where w: "write_n wr dest b = (wc, d1)" by fastforce
    note ws = write_n_sink [OF less.prems(2) w]
    have step: "pipe_n wr rd se dest src n ctx =
      (if sc \<noteq> Evr_ok then (Evr_error, ctx1, dest, s1)
       else if wc = Evr_end then (Evr_end, ctx1, d1, s1)
       else if wc \<noteq> Evr_ok then (Evr_error, ctx1, d1, s1)
       else pipe_n wr rd se d1 s1 (n - length b) ctx1)"
      using 4 r se w by (simp add: pipe_n.simps [of wr rd se dest src n])
    show ?thesis
    proof (cases "sc = Evr_ok \<and> wc = Evr_ok")
      case True
      then have rec: "pipe_n wr rd se d1 s1 (n - length b) ctx1 = (code, ctx', dest', src')"
        using less.prems(3) step by simp
      have lt: "n - length b < n" using 4 by (cases b) auto
      have s: "sink d1 = sink dest @ b" "wvalid d1" using write_n_ok [OF less.prems(2)] w True by auto
      have IH: "valid src' \<and> wvalid dest' \<and>
        (code = Evr_ok \<longrightarrow> (\<exists>c. length c = n - length b \<and> stream s1 = c @ stream src' \<and> sink dest' = sink d1 @ c))"
        using less.IH [OF lt _ s(2) rec] rb by blast
      show ?thesis
      proof (cases "code = Evr_ok")
        case True
        with IH obtain c where "length c = n - length b" "stream s1 = c @ stream src'" "sink dest' = sink d1 @ c"
          by blast
        with rb s have "length (b @ c) = n \<and> stream src = (b @ c) @ stream src' \<and> sink dest' = sink dest @ b @ c"
          by simp
        with IH show ?thesis by blast
      qed (use IH in blast)
    next
      case False
      with step less.prems rb ws show ?thesis by (auto split: if_splits)
    qed
  qed
qed

end

section \<open>File descriptors\<close>

text \<open>
  \<^verbatim>\<open>evr_file_bind_fd\<close>: the calls go to \<^verbatim>\<open>read\<close> and \<^verbatim>\<open>write\<close> of the kernel. A descriptor has the
  bytes that will arrive, the bytes it has sent and a schedule of what the kernel does in
  the next calls: serve the call in full, serve it in part, or fail (with \<^verbatim>\<open>EPIPE\<close> or
  another error). A call beyond the schedule is served in full.
\<close>

datatype io = Io_full | Io_short nat | Io_fail bool

record fd_file =
  fd_in :: bytes
  fd_out :: bytes
  fd_io :: "io list"

definition next_io :: "fd_file \<Rightarrow> io \<times> fd_file" where
  "next_io f = (case fd_io f of [] \<Rightarrow> (Io_full, f) | x # xs \<Rightarrow> (x, f\<lparr>fd_io := xs\<rparr>))"

text \<open>How many of \<open>n\<close> bytes a call transfers; a short transfer is at least one byte.\<close>

definition io_amount :: "io \<Rightarrow> nat \<Rightarrow> nat" where
  "io_amount x n = (case x of Io_short k \<Rightarrow> min n (Suc k) | _ \<Rightarrow> n)"

definition evr_file_fd_read :: "fd_file reader" where
  "evr_file_fd_read f n =
    (case next_io f of (x, f1) \<Rightarrow>
       case x of
         Io_fail e \<Rightarrow> (Read_fail, f1)
       | _ \<Rightarrow> let k = io_amount x n
              in (Read_bytes (take k (fd_in f1)), f1\<lparr>fd_in := drop k (fd_in f1)\<rparr>))"

definition evr_file_fd_write :: "fd_file writer" where
  "evr_file_fd_write f b =
    (case next_io f of (x, f1) \<Rightarrow>
       case x of
         Io_fail e \<Rightarrow> (Write_fail e, f1)
       | _ \<Rightarrow> let k = io_amount x (length b)
              in (Written k, f1\<lparr>fd_out := fd_out f1 @ take k b\<rparr>))"

definition fd_never_fails :: "fd_file \<Rightarrow> bool" where
  "fd_never_fails f = (\<forall>x\<in>set (fd_io f). \<forall>e. x \<noteq> Io_fail e)"

lemma next_io_fields:
  "next_io f = (x, f1) \<Longrightarrow> fd_in f1 = fd_in f \<and> fd_out f1 = fd_out f \<and>
     (fd_never_fails f \<longrightarrow> fd_never_fails f1 \<and> (\<forall>e. x \<noteq> Io_fail e))"
  by (auto simp: next_io_def fd_never_fails_def split: list.splits)

lemma io_amount_le: "io_amount x n \<le> n" "0 < n \<Longrightarrow> 0 < io_amount x n"
  by (auto simp: io_amount_def split: io.splits)

lemma fd_read_cases:
  assumes "evr_file_fd_read f n = (r, f')"
  obtains (fail) "r = Read_fail" "fd_in f' = fd_in f"
  | (bytes) k where "k \<le> n" "0 < n \<longrightarrow> 0 < k" "r = Read_bytes (take k (fd_in f))"
      "fd_in f' = drop k (fd_in f)"
proof (cases "next_io f")
  case (Pair x f1)
  note f1 = next_io_fields [OF Pair]
  show thesis
  proof (cases "\<exists>e. x = Io_fail e")
    case True
    with assms Pair f1 show thesis by (intro fail) (auto simp: evr_file_fd_read_def)
  next
    case False
    with assms Pair f1 show thesis
      by (intro bytes [of "io_amount x n"])
         (auto simp: evr_file_fd_read_def Let_def io_amount_le split: io.splits)
  qed
qed

lemma fd_read_valid:
  "fd_never_fails f \<Longrightarrow> evr_file_fd_read f n = (r, f') \<Longrightarrow> fd_never_fails f' \<and> r \<noteq> Read_fail"
  using next_io_fields [of f]
  by (auto simp: evr_file_fd_read_def Let_def fd_never_fails_def split: prod.splits io.splits)

interpretation fd: evr_reader evr_file_fd_read fd_in "\<lambda>_. True"
  by unfold_locales (auto elim!: fd_read_cases)

interpretation fd_rel: evr_reliable_reader evr_file_fd_read fd_in fd_never_fails
proof unfold_locales
  fix f n bs f'
  assume v: "fd_never_fails f"
  show "evr_file_fd_read f n = (Read_bytes bs, f') \<Longrightarrow>
      length bs \<le> n \<and> fd_in f = bs @ fd_in f' \<and> fd_never_fails f'"
    using fd.rd_bytes fd_read_valid [OF v] by blast
  show "0 < n \<Longrightarrow> evr_file_fd_read f n = (Read_bytes [], f') \<Longrightarrow> fd_in f = []"
    using fd.rd_end by blast
  show "evr_file_fd_read f n = (Read_fail, f') \<Longrightarrow> fd_in f' = fd_in f \<and> fd_never_fails f'"
    using fd_read_valid [OF v] by blast
  obtain r g where r: "evr_file_fd_read f n = (r, g)" by fastforce
  from fd_read_valid [OF v r] r show "\<exists>bs f'. evr_file_fd_read f n = (Read_bytes bs, f')"
    by (cases r) auto
qed

interpretation fd_wr: evr_writer evr_file_fd_write fd_out "\<lambda>_. True"
  by unfold_locales
     (auto simp: evr_file_fd_write_def Let_def io_amount_le dest!: next_io_fields
        split: prod.splits io.splits)

interpretation fd_pipe: evr_pipe evr_file_fd_read fd_in "\<lambda>_. True" evr_file_fd_write fd_out "\<lambda>_. True" ..

end
