(* ===== verification/File_Mem.thy ===== *)
theory File_Mem
  imports Files
begin

text \<open>
  \<^verbatim>\<open>src/file-mem.h\<close> and \<^verbatim>\<open>src/file-mem.c\<close>: the \<open>evr_file\<close> in memory. \<open>fm_data\<close> are the
  \<^verbatim>\<open>used_size\<close> first bytes of the allocation, or \<open>None\<close> for the null pointer. A write ends the
  used part at its own end.
\<close>

record evr_file_mem =
  fm_max_size :: nat
  fm_alloc_size :: nat
  fm_offset :: nat
  fm_data :: "bytes option"

definition evr_init_file_mem :: "bool \<Rightarrow> nat \<Rightarrow> nat \<Rightarrow> evr_file_mem option" where
  "evr_init_file_mem malloc initial_size max_size =
    (if \<not> malloc then None
     else Some \<lparr>fm_max_size = max_size, fm_alloc_size = initial_size, fm_offset = 0, fm_data = Some []\<rparr>)"

definition evr_file_mem_read :: "evr_file_mem reader" where
  "evr_file_mem_read fm n =
    (case fm_data fm of
       None \<Rightarrow> (Read_bytes [], fm)
     | Some d \<Rightarrow>
        (if fm_offset fm > length d then (Read_fail, fm)
         else let k = min n (length d - fm_offset fm)
              in (Read_bytes (take k (drop (fm_offset fm) d)), fm\<lparr>fm_offset := fm_offset fm + k\<rparr>)))"

definition evr_file_mem_write :: "bool \<Rightarrow> evr_file_mem writer" where
  "evr_file_mem_write realloc fm b =
    (case fm_data fm of
       None \<Rightarrow> (Write_fail False, fm)
     | Some d \<Rightarrow>
        (let min_size = fm_offset fm + length b;
             new_size = min (max (2 * fm_alloc_size fm) (2 * min_size)) (fm_max_size fm);
             store = (\<lambda>g. (Written (length b),
                g\<lparr>fm_data := Some (take (fm_offset fm) d @ b), fm_offset := min_size\<rparr>))
         in if min_size > fm_alloc_size fm
            then (if min_size > fm_max_size fm then (Write_fail False, fm)
                  else if \<not> realloc then (Write_fail False, fm)
                  else store (fm\<lparr>fm_alloc_size := new_size\<rparr>))
            else store fm))"

definition fm_valid :: "evr_file_mem \<Rightarrow> bool" where
  "fm_valid fm = (\<exists>d. fm_data fm = Some d \<and> fm_offset fm \<le> length d \<and> length d \<le> fm_alloc_size fm)"

definition fm_stream :: "evr_file_mem \<Rightarrow> bytes" where
  "fm_stream fm = (case fm_data fm of None \<Rightarrow> [] | Some d \<Rightarrow> drop (fm_offset fm) d)"

definition fm_sink :: "evr_file_mem \<Rightarrow> bytes" where
  "fm_sink fm = (case fm_data fm of None \<Rightarrow> [] | Some d \<Rightarrow> take (fm_offset fm) d)"

lemma fm_write_alloc:
  "fm_offset fm + length b \<le> fm_max_size fm \<Longrightarrow>
   fm_offset fm + length b \<le> min (max (2 * fm_alloc_size fm) (2 * (fm_offset fm + length b))) (fm_max_size fm)"
  by auto

interpretation fm: evr_reliable_reader evr_file_mem_read fm_stream fm_valid
proof unfold_locales
  fix f n bs f'
  assume v: "fm_valid f"
  then obtain d where d: "fm_data f = Some d" "fm_offset f \<le> length d" "length d \<le> fm_alloc_size f"
    by (auto simp: fm_valid_def)
  show "evr_file_mem_read f n = (Read_bytes bs, f') \<Longrightarrow>
      length bs \<le> n \<and> fm_stream f = bs @ fm_stream f' \<and> fm_valid f'"
    using d append_take_drop_id [of n "drop (fm_offset f) d"]
    by (auto simp: evr_file_mem_read_def fm_stream_def fm_valid_def Let_def min_def add.commute)
  show "0 < n \<Longrightarrow> evr_file_mem_read f n = (Read_bytes [], f') \<Longrightarrow> fm_stream f = []"
    using d by (auto simp: evr_file_mem_read_def fm_stream_def Let_def)
  show "evr_file_mem_read f n = (Read_fail, f') \<Longrightarrow> fm_stream f' = fm_stream f \<and> fm_valid f'"
    using d by (auto simp: evr_file_mem_read_def Let_def)
  show "\<exists>bs f'. evr_file_mem_read f n = (Read_bytes bs, f')"
    using d by (auto simp: evr_file_mem_read_def Let_def)
qed

interpretation fm_wr: evr_writer "evr_file_mem_write r" fm_sink fm_valid for r
proof unfold_locales
  fix f b k f' e
  assume v: "fm_valid f"
  then obtain d where d: "fm_data f = Some d" "fm_offset f \<le> length d" "length d \<le> fm_alloc_size f"
    by (auto simp: fm_valid_def)
  show "evr_file_mem_write r f b = (Written k, f') \<Longrightarrow>
      k \<le> length b \<and> fm_sink f' = fm_sink f @ take k b \<and> fm_valid f'"
    using d fm_write_alloc [of f b]
    by (auto simp: evr_file_mem_write_def fm_sink_def fm_valid_def Let_def split: if_splits)
  show "evr_file_mem_write r f b = (Write_fail e, f') \<Longrightarrow> fm_sink f' = fm_sink f \<and> fm_valid f'"
    using d v by (auto simp: evr_file_mem_write_def Let_def split: if_splits)
qed

lemma file_mem_write_fits:
  assumes "fm_data fm = Some d" "fm_offset fm + length b \<le> fm_max_size fm"
  shows "\<exists>fm'. evr_file_mem_write True fm b = (Written (length b), fm') \<and>
    fm_data fm' = Some (take (fm_offset fm) d @ b) \<and> fm_offset fm' = fm_offset fm + length b"
  using assms by (auto simp: evr_file_mem_write_def Let_def)

lemma write_n_one_go: "b \<noteq> [] \<Longrightarrow> wr f b = (Written (length b), f') \<Longrightarrow> write_n wr f b = (Evr_ok, f')"
  by (simp add: write_n.simps)

end
