(* ===== verification/Roll_Sum.thy ===== *)
theory Roll_Sum
  imports Prelude
begin

text \<open>
  \<^verbatim>\<open>src/rollsum.h\<close> and \<^verbatim>\<open>src/rollsum.c\<close>: the rolling checksum of librsync.
  \<^verbatim>\<open>uint_fast16_t\<close> and \<^verbatim>\<open>size_t\<close> are 64 bit wide, as with glibc on a 64 bit host; all
  arithmetic wraps. The lemmas show what rolling means: the unrolled bulk update is the
  byte by byte one, and a rotation turns the checksum of a window into the checksum of
  the window moved on by one byte.
\<close>

record Rollsum =
  count :: "64 word"
  s1 :: "64 word"
  s2 :: "64 word"

definition ROLLSUM_CHAR_OFFSET :: "64 word" where "ROLLSUM_CHAR_OFFSET = 31"

definition RollsumInit :: Rollsum where
  "RollsumInit = \<lparr>count = 0, s1 = 0, s2 = 0\<rparr>"

definition RollsumRotate :: "Rollsum \<Rightarrow> byte \<Rightarrow> byte \<Rightarrow> Rollsum" where
  "RollsumRotate rs out inb =
    (let rs1 = rs\<lparr>s1 := s1 rs + (ucast inb - ucast out)\<rparr>
     in rs1\<lparr>s2 := s2 rs1 + (s1 rs1 - count rs1 * (ucast out + ROLLSUM_CHAR_OFFSET))\<rparr>)"

definition RollsumRollin :: "Rollsum \<Rightarrow> byte \<Rightarrow> Rollsum" where
  "RollsumRollin rs inb =
    (let rs1 = rs\<lparr>s1 := s1 rs + (ucast inb + ROLLSUM_CHAR_OFFSET)\<rparr>
     in rs1\<lparr>s2 := s2 rs1 + s1 rs1, count := count rs1 + 1\<rparr>)"

definition RollsumRollout :: "Rollsum \<Rightarrow> byte \<Rightarrow> Rollsum" where
  "RollsumRollout rs out =
    (let rs1 = rs\<lparr>s1 := s1 rs - (ucast out + ROLLSUM_CHAR_OFFSET)\<rparr>
     in rs1\<lparr>s2 := s2 rs1 - count rs1 * (ucast out + ROLLSUM_CHAR_OFFSET), count := count rs1 - 1\<rparr>)"

definition RollsumDigest :: "Rollsum \<Rightarrow> 32 word" where
  "RollsumDigest rs = push_bit 16 (ucast (s2 rs)) OR (ucast (s1 rs) AND 0xffff)"

text \<open>\<^verbatim>\<open>DO1\<close> and its repetitions \<^verbatim>\<open>DO2\<close> to \<^verbatim>\<open>DO16\<close> on the pair of running sums.\<close>

definition DO1 :: "64 word \<times> 64 word \<Rightarrow> byte \<Rightarrow> 64 word \<times> 64 word" where
  "DO1 s b = (let a = fst s + ucast b in (a, snd s + a))"

definition DO2 :: "64 word \<times> 64 word \<Rightarrow> bytes \<Rightarrow> nat \<Rightarrow> 64 word \<times> 64 word" where
  "DO2 s b i = DO1 (DO1 s (b ! i)) (b ! (i + 1))"

definition DO4 :: "64 word \<times> 64 word \<Rightarrow> bytes \<Rightarrow> nat \<Rightarrow> 64 word \<times> 64 word" where
  "DO4 s b i = DO2 (DO2 s b i) b (i + 2)"

definition DO8 :: "64 word \<times> 64 word \<Rightarrow> bytes \<Rightarrow> nat \<Rightarrow> 64 word \<times> 64 word" where
  "DO8 s b i = DO4 (DO4 s b i) b (i + 4)"

definition DO16 :: "64 word \<times> 64 word \<Rightarrow> bytes \<Rightarrow> 64 word \<times> 64 word" where
  "DO16 s b = DO8 (DO8 s b 0) b 8"

function update_loop16 :: "64 word \<times> 64 word \<Rightarrow> bytes \<Rightarrow> (64 word \<times> 64 word) \<times> bytes" where
  "update_loop16 s b = (if 16 \<le> length b then update_loop16 (DO16 s b) (drop 16 b) else (s, b))"
  by pat_completeness auto
termination by (relation "measure (\<lambda>(s, b). length b)") auto

declare update_loop16.simps [simp del]

primrec update_loop1 :: "64 word \<times> 64 word \<Rightarrow> bytes \<Rightarrow> 64 word \<times> 64 word" where
  "update_loop1 s [] = s"
| "update_loop1 s (b # bs) = update_loop1 (DO1 s b) bs"

definition RollsumUpdate :: "Rollsum \<Rightarrow> bytes \<Rightarrow> Rollsum" where
  "RollsumUpdate rs b =
    (let len = (word_of_nat (length b) :: 64 word);
         (st, rest) = update_loop16 (s1 rs, s2 rs) b;
         (a, c) = update_loop1 st rest
     in \<lparr>count = count rs + len,
         s1 = a + len * ROLLSUM_CHAR_OFFSET,
         s2 = c + (len * (len + 1)) div 2 * ROLLSUM_CHAR_OFFSET\<rparr>)"

section \<open>The bulk update is the byte by byte update\<close>

lemma DO16_fold: "length b = 16 \<Longrightarrow> DO16 s (b @ c) = update_loop1 s b"
  by (auto simp: DO16_def DO8_def DO4_def DO2_def numeral_eq_Suc length_Suc_conv nth_append)

lemma update_loop1_append: "update_loop1 s (xs @ ys) = update_loop1 (update_loop1 s xs) ys"
  by (induction xs arbitrary: s) auto

lemma update_loop16_eq: "(case update_loop16 s b of (st, rest) \<Rightarrow> update_loop1 st rest) = update_loop1 s b"
proof (induction s b rule: update_loop16.induct)
  case (1 s b)
  show ?case
  proof (cases "16 \<le> length b")
    case True
    have "DO16 s b = update_loop1 s (take 16 b)"
      using DO16_fold [of "take 16 b" s "drop 16 b"] True by simp
    with 1 True show ?thesis
      by (simp add: update_loop16.simps [of s b] update_loop1_append [symmetric])
  next
    case False
    then show ?thesis by (simp add: update_loop16.simps [of s b])
  qed
qed

abbreviation rollin_all :: "Rollsum \<Rightarrow> bytes \<Rightarrow> Rollsum" where
  "rollin_all rs bs \<equiv> foldl RollsumRollin rs bs"

lemma rollin_all_update_loop1:
  assumes "update_loop1 (s1 rs, s2 rs) bs = (a, c)"
  shows "rollin_all rs bs =
    \<lparr>count = count rs + word_of_nat (length bs),
     s1 = a + word_of_nat (length bs) * ROLLSUM_CHAR_OFFSET,
     s2 = c + word_of_nat (length bs * (length bs + 1) div 2) * ROLLSUM_CHAR_OFFSET\<rparr>"
  using assms
proof (induction bs arbitrary: a c rule: rev_induct)
  case (snoc b bs)
  obtain a0 c0 where st: "update_loop1 (s1 rs, s2 rs) bs = (a0, c0)" by fastforce
  let ?k = "length bs"
  have ac: "a = a0 + ucast b" "c = c0 + (a0 + ucast b)"
    using snoc.prems st by (auto simp: update_loop1_append DO1_def Let_def)
  have tri: "Suc ?k * Suc (Suc ?k) div 2 = ?k * Suc ?k div 2 + Suc ?k" by simp
  show ?case
    using snoc.IH [OF st] by (simp add: RollsumRollin_def Let_def ac tri algebra_simps del: mult_Suc mult_Suc_right)
qed (simp add: RollsumInit_def)

lemma word_half: "m < 2 ^ 64 \<Longrightarrow> (word_of_nat m :: 64 word) div 2 = word_of_nat (m div 2)"
  by (simp add: word_arith_nat_div unat_of_nat)

lemma word_triangle:
  assumes "n * (n + 1) < 2 ^ 64"
  shows "((word_of_nat n :: 64 word) * (word_of_nat n + 1)) div 2 = word_of_nat (n * (n + 1) div 2)"
proof -
  have "(word_of_nat n :: 64 word) * (word_of_nat n + 1) = word_of_nat (n * (n + 1))"
    by (simp add: distrib_left)
  moreover have "(word_of_nat (n * (n + 1)) :: 64 word) div 2 = word_of_nat (n * (n + 1) div 2)"
    using assms by (rule word_half)
  ultimately show ?thesis by (simp only:)
qed

section \<open>Rolling over a window\<close>

text \<open>
  The closed form of the sums of a window: \<open>s1\<close> is the sum of the shifted bytes, \<open>s2\<close>
  weighs each of them with its distance from the end.
\<close>

primrec win_s1 :: "bytes \<Rightarrow> 64 word" where
  "win_s1 [] = 0"
| "win_s1 (b # bs) = ucast b + ROLLSUM_CHAR_OFFSET + win_s1 bs"

primrec win_s2 :: "bytes \<Rightarrow> 64 word" where
  "win_s2 [] = 0"
| "win_s2 (b # bs) = word_of_nat (Suc (length bs)) * (ucast b + ROLLSUM_CHAR_OFFSET) + win_s2 bs"

definition win_sum :: "bytes \<Rightarrow> Rollsum" where
  "win_sum w = \<lparr>count = word_of_nat (length w), s1 = win_s1 w, s2 = win_s2 w\<rparr>"

lemma win_s1_snoc: "win_s1 (w @ [b]) = win_s1 w + (ucast b + ROLLSUM_CHAR_OFFSET)"
  by (induction w) (auto simp: algebra_simps)

lemma win_s2_snoc: "win_s2 (w @ [b]) = win_s2 w + win_s1 w + (ucast b + ROLLSUM_CHAR_OFFSET)"
  by (induction w) (auto simp: algebra_simps)

lemma rollin_win_sum: "RollsumRollin (win_sum w) b = win_sum (w @ [b])"
  by (simp add: RollsumRollin_def win_sum_def Let_def win_s1_snoc win_s2_snoc algebra_simps)

lemma rollin_all_win_sum: "rollin_all RollsumInit w = win_sum w"
proof (induction w rule: rev_induct)
  case Nil
  then show ?case by (simp add: RollsumInit_def win_sum_def)
next
  case (snoc b w)
  then show ?case by (simp add: rollin_win_sum)
qed

lemma rotate_win_sum: "RollsumRotate (win_sum (x # w)) x y = win_sum (w @ [y])"
  by (simp add: RollsumRotate_def win_sum_def Let_def win_s1_snoc win_s2_snoc algebra_simps)

lemma rollout_win_sum: "RollsumRollout (win_sum (x # w)) x = win_sum w"
  by (simp add: RollsumRollout_def win_sum_def Let_def algebra_simps)

text \<open>Rotating a window along a stream of bytes.\<close>

primrec roll_along :: "Rollsum \<Rightarrow> bytes \<Rightarrow> bytes \<Rightarrow> Rollsum" where
  "roll_along rs w [] = rs"
| "roll_along rs w (y # ys) = roll_along (RollsumRotate rs (hd w) y) (tl w @ [y]) ys"

lemma roll_along_win_sum:
  "w \<noteq> [] \<Longrightarrow> roll_along (win_sum w) w ys = win_sum (drop (length ys) (w @ ys))"
proof (induction ys arbitrary: w)
  case (Cons y ys)
  then obtain x w' where w: "w = x # w'" by (cases w) auto
  then show ?case using Cons.IH [of "w' @ [y]"] by (simp add: rotate_win_sum)
qed simp

section \<open>Properties\<close>

text \<open>
  C40: the unrolled bulk update is the byte by byte roll-in, with every sum at 64 bits, for every
  buffer whose length \<open>n\<close> keeps \<open>n * (n + 1)\<close> below \<open>2 ^ 64\<close>.
\<close>

theorem rollsum_update_is_rollin:
  assumes "length b * (length b + 1) < 2 ^ 64"
  shows "RollsumUpdate rs b = foldl RollsumRollin rs b"
proof -
  obtain st rest where l: "update_loop16 (s1 rs, s2 rs) b = (st, rest)" by fastforce
  obtain a c where u: "update_loop1 st rest = (a, c)" by fastforce
  have "update_loop1 (s1 rs, s2 rs) b = (a, c)" using update_loop16_eq [of "(s1 rs, s2 rs)" b] l u by simp
  from rollin_all_update_loop1 [OF this] word_triangle [OF assms] l u show ?thesis
    by (simp add: RollsumUpdate_def Let_def)
qed

theorem rollsum_update_is_rollin_witness:
  "RollsumUpdate RollsumInit (replicate 100 7) = foldl RollsumRollin RollsumInit (replicate 100 7)"
  by (rule rollsum_update_is_rollin) simp

text \<open>
  The sum is a rolling one: after rolling in a window and rotating it along any bytes it is the
  sum of the last window alone, so it does not depend on what was rolled out.
\<close>

theorem rollsum_depends_on_window:
  assumes "w \<noteq> []"
  shows "roll_along (foldl RollsumRollin RollsumInit w) w ys =
    foldl RollsumRollin RollsumInit (drop (length ys) (w @ ys))"
  by (simp only: rollin_all_win_sum roll_along_win_sum [OF assms])

theorem rollsum_depends_on_window_witness:
  "roll_along (foldl RollsumRollin RollsumInit [1, 2]) [1, 2] [9, 8, 7] =
    foldl RollsumRollin RollsumInit [8, 7]"
  using rollsum_depends_on_window [of "[1, 2]" "[9, 8, 7]"] by simp

end
