(* ===== verification/Split.thy ===== *)
theory Split
  imports Files Roll_Sum
begin

text \<open>
  \<^verbatim>\<open>evr_rollsum_split\<close> of \<^verbatim>\<open>src/files.c\<close>: cuts a file into slices at positions a rolling
  checksum chooses. First what \<^verbatim>\<open>read_fd\<close> delivers over any reliable reader, then the scan
  of one buffer, then the loop over the file.
\<close>

section \<open>Definitions\<close>

definition evr_split_window_size :: nat where "evr_split_window_size = 64"
definition avg_slice_size :: nat where "avg_slice_size = 256 * 1024"
definition min_slice_size :: nat where "min_slice_size = 64 * 1024"
definition max_slice_size :: nat where "max_slice_size = 10 * 1024 * 1024"

definition evr_want_split :: "Rollsum \<Rightarrow> bool" where
  "evr_want_split rs =
    (s2 rs AND (word_of_nat avg_slice_size - 1) = -1 AND (word_of_nat avg_slice_size - 1))"

text \<open>The checksum, the window and the position in the window.\<close>

record split_state =
  sp_rs :: Rollsum
  sp_window :: bytes
  sp_window_pos :: nat

definition split_init :: split_state where
  "split_init = \<lparr>sp_rs = RollsumInit, sp_window = replicate evr_split_window_size 0, sp_window_pos = 0\<rparr>"

definition split_rotate :: "split_state \<Rightarrow> byte \<Rightarrow> split_state" where
  "split_rotate st b =
    \<lparr>sp_rs = RollsumRotate (sp_rs st) (sp_window st ! sp_window_pos st) b,
     sp_window = (sp_window st)[sp_window_pos st := b],
     sp_window_pos = (sp_window_pos st + 1) mod evr_split_window_size\<rparr>"

text \<open>
  The inner loop over the bytes \<open>p..\<close> of the buffer, with the start of the current slice.
  The callback may reject a slice, which ends the loop with \<open>False\<close>.
\<close>

function scan_loop ::
  "'c side_effect \<Rightarrow> bytes \<Rightarrow> split_state \<Rightarrow> 'c \<Rightarrow> nat \<Rightarrow> nat \<Rightarrow> bool \<times> split_state \<times> 'c \<times> nat" where
  "scan_loop on_slice d st ctx p next_slice_start =
    (if p < length d then
       let st' = split_rotate st (d ! p); slice_size = p - next_slice_start in
       if slice_size > min_slice_size \<and> (slice_size \<ge> max_slice_size \<or> evr_want_split (sp_rs st'))
       then (case on_slice ctx (take slice_size (drop next_slice_start d)) of (sc, ctx') \<Rightarrow>
               if sc \<noteq> Evr_ok then (False, st', ctx', next_slice_start)
               else scan_loop on_slice d st' ctx' (Suc p) p)
       else scan_loop on_slice d st' ctx (Suc p) next_slice_start
     else (True, st, ctx, next_slice_start))"
  by pat_completeness auto
termination by (relation "measure (\<lambda>(on_slice, d, st, ctx, p, n). length d - p)") auto

declare scan_loop.simps [simp del]

text \<open>Subtraction in \<^verbatim>\<open>size_t\<close>.\<close>

definition sub64 :: "nat \<Rightarrow> nat \<Rightarrow> nat" where
  "sub64 a b = (if b \<le> a then a - b else 2 ^ 64 + a - b)"

partial_function (option) rollsum_split_loop ::
  "'f reader \<Rightarrow> (nat \<Rightarrow> bool) \<Rightarrow> 'c side_effect \<Rightarrow> dynamic_array \<Rightarrow> split_state \<Rightarrow> 'f \<Rightarrow> nat \<Rightarrow> 'c
   \<Rightarrow> (evr_code \<times> 'c \<times> 'f) option" where
  "rollsum_split_loop rd realloc on_slice da st f max_read ctx =
    (case (if da_size_used da = size_allocated da
           then grow_dynamic_array_at_least (realloc (da_size_used da)) (Some da) 0 else Some da) of
       None \<Rightarrow> Some (Evr_error, ctx, f)
     | Some da1 \<Rightarrow>
        (case read_fd rd realloc (sub64 (min max_read (size_allocated da1)) (da_size_used da1)) da1 f 0 of
           None \<Rightarrow> None
         | Some (read_res, da2o, f1) \<Rightarrow>
            (if read_res \<noteq> Evr_ok \<and> read_res \<noteq> Evr_end then Some (Evr_error, ctx, f1)
             else case da2o of None \<Rightarrow> Some (Evr_error, ctx, f1)
             | Some da2 \<Rightarrow>
                (case scan_loop on_slice (da_data da2) st ctx (da_size_used da1) 0 of (ok, st', ctx', start) \<Rightarrow>
                   if \<not> ok then Some (Evr_error, ctx', f1)
                   else (case (if start > 0 then dynamic_array_remove da2 0 start else (Evr_ok, da2)) of
                     (rm, da3) \<Rightarrow>
                      if rm \<noteq> Evr_ok then Some (Evr_error, ctx', f1)
                      else if read_res = Evr_end \<or> da_size_used da3 = sub64 max_read start
                      then (case on_slice ctx' (da_data da3) of (sc, ctx'') \<Rightarrow>
                              if sc \<noteq> Evr_ok then Some (Evr_error, ctx'', f1)
                              else Some (if read_res = Evr_end then Evr_end else Evr_ok, ctx'', f1))
                      else rollsum_split_loop rd realloc on_slice da3 st' f1 (sub64 max_read start) ctx')))))"

definition evr_rollsum_split ::
  "'f reader \<Rightarrow> bool \<Rightarrow> (nat \<Rightarrow> bool) \<Rightarrow> 'c side_effect \<Rightarrow> 'f \<Rightarrow> nat \<Rightarrow> 'c \<Rightarrow> (evr_code \<times> 'c \<times> 'f) option" where
  "evr_rollsum_split rd malloc realloc on_slice f max_read ctx =
    (case alloc_dynamic_array 4096 malloc (1 * 1024 * 1024) of
       None \<Rightarrow> Some (Evr_error, ctx, f)
     | Some da \<Rightarrow> rollsum_split_loop rd realloc on_slice da split_init f max_read ctx)"

section \<open>Scanning one buffer\<close>

text \<open>A callback that accepts and collects every slice.\<close>

definition collect_slice :: "bytes list side_effect" where
  "collect_slice ctx b = (Evr_ok, ctx @ [b])"

definition slice_ok :: "bytes \<Rightarrow> bool" where
  "slice_ok s = (min_slice_size < length s \<and> length s \<le> max_slice_size)"

lemma slice_sizes: "0 < min_slice_size" "min_slice_size < max_slice_size" "1 \<le> max_slice_size"
  by (simp_all add: min_slice_size_def max_slice_size_def)

lemma scan_loop_slices:
  assumes "scan_loop collect_slice d st ctx p start = (ok, st', ctx', start')"
    and "start \<le> p" "p \<le> length d" "p - start \<le> max_slice_size"
  shows "ok \<and> start \<le> start' \<and> start' \<le> length d \<and> length d - start' \<le> max_slice_size \<and>
    (\<exists>ss. ctx' = ctx @ ss \<and> concat ss = drop start (take start' d) \<and> (\<forall>s\<in>set ss. slice_ok s))"
  using assms
proof (induction collect_slice d st ctx p start rule: scan_loop.induct)
  case (1 d st ctx p start)
  let ?st = "split_rotate st (d ! p)" and ?ss = "p - start"
  let ?cut = "?ss > min_slice_size \<and> (?ss \<ge> max_slice_size \<or> evr_want_split (sp_rs ?st))"
  show ?case
  proof (cases "p < length d")
    case False
    with "1.prems" show ?thesis by (auto simp: scan_loop.simps [of _ d st ctx p])
  next
    case True
    show ?thesis
    proof (cases ?cut)
      case cut: True
      let ?s = "take ?ss (drop start d)"
      have rec: "scan_loop collect_slice d ?st (ctx @ [?s]) (Suc p) p = (ok, st', ctx', start')"
        using "1.prems"(1) True cut by (simp add: scan_loop.simps [of _ d st ctx p] collect_slice_def)
      have "ok \<and> p \<le> start' \<and> start' \<le> length d \<and> length d - start' \<le> max_slice_size \<and>
        (\<exists>ss. ctx' = (ctx @ [?s]) @ ss \<and> concat ss = drop p (take start' d) \<and> (\<forall>s\<in>set ss. slice_ok s))"
        using "1.hyps"(1) [OF True refl refl cut, of Evr_ok "ctx @ [?s]"] rec True slice_sizes
        by (simp add: collect_slice_def)
      then obtain ss where ss: "ok" "p \<le> start'" "start' \<le> length d" "length d - start' \<le> max_slice_size"
        "ctx' = ctx @ ?s # ss" "concat ss = drop p (take start' d)" "\<forall>s\<in>set ss. slice_ok s" by auto
      have "?s @ drop p (take start' d) = drop start (take start' d)"
      proof -
        have "drop p (take start' d) = drop ?ss (drop start (take start' d))"
          using "1.prems"(2) by simp
        moreover have "?s = take ?ss (drop start (take start' d))"
          using ss(2) by (simp add: drop_take min_def)
        ultimately show ?thesis by (simp only: append_take_drop_id)
      qed
      moreover have "slice_ok ?s" using cut "1.prems" True by (simp add: slice_ok_def)
      ultimately show ?thesis using ss "1.prems"(2) by (intro conjI exI [of _ "?s # ss"]) auto
    next
      case False
      have rec: "scan_loop collect_slice d ?st ctx (Suc p) start = (ok, st', ctx', start')"
        using "1.prems"(1) True False by (simp add: scan_loop.simps [of _ d st ctx p])
      have "Suc p - start \<le> max_slice_size" using False "1.prems" slice_sizes by auto
      then show ?thesis using "1.hyps"(2) [OF True refl refl False rec] "1.prems" True by simp
    qed
  qed
qed

section \<open>Reading and splitting a whole file\<close>

lemma grow_dynamic_array_ok:
  "\<exists>d'. grow_dynamic_array_at_least True (Some d) m = Some d' \<and> da_data d' = da_data d \<and>
     size_allocated d < size_allocated d'"
  by (auto simp: grow_dynamic_array_at_least_def Let_def)

lemma room_in_array:
  assumes "da_inv da"
  shows "\<exists>d'. (if size_allocated da = da_size_used da
        then grow_dynamic_array_at_least True (Some da) 0 else Some da) = Some d' \<and>
      da_data d' = da_data da \<and> length (da_data da) < size_allocated d'"
  using assms grow_dynamic_array_ok [of da 0] by (auto simp: da_inv_def da_size_used_def)

context evr_reliable_reader
begin

text \<open>The array gets a prefix of the stream: exactly \<open>max_size\<close> bytes, or all that is left.\<close>

lemma read_fd_result:
  assumes "valid f" "da_inv da" "0 < max_size"
  shows "\<exists>code da' f' b. read_fd rd (\<lambda>_. True) max_size da f tot = Some (code, Some da', f') \<and>
    da_inv da' \<and> da_data da' = da_data da @ b \<and> stream f = b @ stream f' \<and> valid f' \<and>
    (code = Evr_ok \<and> tot + length b = max_size \<and> b \<noteq> [] \<or> code = Evr_end \<and> stream f' = [])"
  using assms(1,2)
proof (induction "length (stream f)" arbitrary: f da tot rule: less_induct)
  case less
  from room_in_array [OF less.prems(2)] obtain d1 where d1:
    "(if size_allocated da = da_size_used da
      then grow_dynamic_array_at_least True (Some da) 0 else Some da) = Some d1"
    "da_data d1 = da_data da" "length (da_data da) < size_allocated d1" by blast
  let ?n = "min max_size (size_allocated d1 - da_size_used d1)"
  have n: "0 < ?n" using d1 assms(3) by (simp add: da_size_used_def)
  from rd_ok [OF less.prems(1)] obtain b f1 where r: "rd f ?n = (Read_bytes b, f1)" by blast
  note rb = rd_bytes [OF less.prems(1) r]
  let ?d2 = "d1\<lparr>da_data := da_data d1 @ b\<rparr>"
  have inv: "da_inv ?d2" using rb d1 by (auto simp: da_inv_def da_size_used_def)
  note step = read_fd.simps [of rd "\<lambda>_. True" max_size da f tot]
  consider (fin) "b = []" | (full) "b \<noteq> []" "tot + length b = max_size"
    | (more) "b \<noteq> []" "tot + length b \<noteq> max_size" by blast
  then show ?case
  proof cases
    case fin
    with rd_end [OF less.prems(1) n] r have "stream f = []" by simp
    moreover have "da_inv d1" using d1 by (simp add: da_inv_def da_size_used_def)
    ultimately show ?thesis using fin rb r d1 by (simp add: step)
  next
    case full
    with rb r d1 inv show ?thesis by (simp add: step)
  next
    case more
    then have "length (stream f1) < length (stream f)" using rb by simp
    from less.hyps [OF this _ inv, of "tot + length b"] rb obtain code da' f' c where
      "read_fd rd (\<lambda>_. True) max_size ?d2 f1 (tot + length b) = Some (code, Some da', f')"
      "da_inv da'" "da_data da' = da_data ?d2 @ c" "stream f1 = c @ stream f'" "valid f'"
      "code = Evr_ok \<and> tot + length b + length c = max_size \<or> code = Evr_end \<and> stream f' = []"
      by blast
    with more rb r d1 show ?thesis by (simp add: step add.assoc)
  qed
qed

text \<open>
  The loop of the splitter: what is in the buffer and what is left of the file come out as the
  slices, every cut slice within the size bounds and the flushed rest at most the maximum.
\<close>

lemma rollsum_split_loop_result:
  assumes "valid f" "da_inv da" "da_size_used da \<le> max_slice_size"
    "da_size_used da + length (stream f) < max_read" "max_read < 2 ^ 64"
  shows "\<exists>ss s f'. rollsum_split_loop rd (\<lambda>_. True) collect_slice da st f max_read ctx =
      Some (Evr_end, ctx @ ss @ [s], f') \<and> concat ss @ s = da_data da @ stream f \<and>
      (\<forall>x\<in>set ss. slice_ok x) \<and> length s \<le> max_slice_size \<and> stream f' = []"
  using assms
proof (induction "length (stream f)" arbitrary: f da st max_read ctx rule: less_induct)
  case less
  from room_in_array [OF less.prems(2)] obtain d1 where d1:
    "(if da_size_used da = size_allocated da
      then grow_dynamic_array_at_least True (Some da) 0 else Some da) = Some d1"
    "da_data d1 = da_data da" "length (da_data da) < size_allocated d1" by (metis (full_types))
  let ?want = "sub64 (min max_read (size_allocated d1)) (da_size_used d1)"
  have want: "0 < ?want" using d1 less.prems(4) by (simp add: sub64_def da_size_used_def)
  have "da_inv d1" using d1 by (simp add: da_inv_def da_size_used_def)
  from read_fd_result [OF less.prems(1) this want, of 0] obtain code d2 f1 b where rf:
    "read_fd rd (\<lambda>_. True) ?want d1 f 0 = Some (code, Some d2, f1)" "da_inv d2"
    "da_data d2 = da_data da @ b" "stream f = b @ stream f1" "valid f1"
    "code = Evr_ok \<and> b \<noteq> [] \<or> code = Evr_end \<and> stream f1 = []" using d1 by auto
  obtain ok st' ctx' start where sc:
    "scan_loop collect_slice (da_data d2) st ctx (da_size_used d1) 0 = (ok, st', ctx', start)"
    using prod_cases4 by blast
  from scan_loop_slices [OF sc] obtain ss where ss: "ok" "start \<le> length (da_data d2)"
    "length (da_data d2) - start \<le> max_slice_size" "ctx' = ctx @ ss"
    "concat ss = take start (da_data d2)" "\<forall>s\<in>set ss. slice_ok s"
    using d1 rf(3) less.prems(3) by (auto simp: da_size_used_def)
  let ?d3 = "d2\<lparr>da_data := drop start (da_data d2)\<rparr>"
  have rm: "(if start > 0 then dynamic_array_remove d2 0 start else (Evr_ok, d2)) = (Evr_ok, ?d3)"
    using ss(2) by (simp add: dynamic_array_remove_ok da_size_used_def)
  note step = rollsum_split_loop.simps [of rd "\<lambda>_. True" collect_slice da st f max_read ctx]
  have sub: "sub64 max_read start = max_read - start"
    using ss(2) rf(3,4) less.prems(4) by (simp add: sub64_def da_size_used_def)
  from rf(6) show ?case
  proof
    assume e: "code = Evr_end \<and> stream f1 = []"
    have "concat ss @ drop start (da_data d2) = da_data da @ stream f"
      using e rf(4) by (simp only: ss(5) append_take_drop_id rf(3)) simp
    with e ss rf d1(1) sc rm show ?thesis
      by (intro exI [of _ ss] exI [of _ "drop start (da_data d2)"] exI [of _ f1])
         (simp add: step collect_slice_def)
  next
    assume o: "code = Evr_ok \<and> b \<noteq> []"
    have lt: "length (stream f1) < length (stream f)" using rf(4) o by simp
    have used: "da_size_used ?d3 + length (stream f1) < max_read - start"
      using ss(2) rf(3,4) less.prems(4) by (simp add: da_size_used_def)
    have inv3: "da_inv ?d3" using rf(2) by (simp add: da_inv_def da_size_used_def)
    have "da_size_used ?d3 \<le> max_slice_size" "max_read - start < 2 ^ 64"
      using ss(3) less.prems(5) by (simp_all add: da_size_used_def)
    from less.hyps [OF lt rf(5) inv3 this(1) used this(2), of st' ctx'] obtain ts s f' where rec:
      "rollsum_split_loop rd (\<lambda>_. True) collect_slice ?d3 st' f1 (max_read - start) ctx' =
         Some (Evr_end, ctx' @ ts @ [s], f')" "concat ts @ s = da_data ?d3 @ stream f1"
      "\<forall>x\<in>set ts. slice_ok x" "length s \<le> max_slice_size" "stream f' = []" by blast
    have "concat (ss @ ts) @ s = (take start (da_data d2) @ drop start (da_data d2)) @ stream f1"
      using rec(2) ss(5) by simp
    then have "concat (ss @ ts) @ s = da_data da @ stream f"
      using rf(3,4) by (simp only: append_take_drop_id) simp
    moreover have "rollsum_split_loop rd (\<lambda>_. True) collect_slice da st f max_read ctx =
        Some (Evr_end, ctx @ (ss @ ts) @ [s], f')"
      using o ss(1,4) rf(1) d1(1) sc rm rec(1) used by (simp add: step sub)
    ultimately show ?thesis using ss(6) rec(3,4,5)
      by (intro exI [of _ "ss @ ts"] exI [of _ s] exI [of _ f']) auto
  qed
qed

lemma evr_rollsum_split_result:
  assumes "valid f" "length (stream f) < max_read" "max_read < 2 ^ 64"
  shows "\<exists>ss s f'. evr_rollsum_split rd True (\<lambda>_. True) collect_slice f max_read [] =
      Some (Evr_end, ss @ [s], f') \<and> concat ss @ s = stream f \<and>
      (\<forall>x\<in>set ss. slice_ok x) \<and> length s \<le> max_slice_size \<and> stream f' = []"
proof -
  let ?da = "\<lparr>size_allocated = 1048576, da_data = []\<rparr>"
  have "da_inv ?da" "da_size_used ?da \<le> max_slice_size" "da_size_used ?da + length (stream f) < max_read"
    using assms(2) by (simp_all add: da_inv_def da_size_used_def)
  from rollsum_split_loop_result [OF assms(1) this assms(3), of split_init "[]"] show ?thesis
    by (simp add: evr_rollsum_split_def alloc_dynamic_array_def)
qed

end

section \<open>Properties\<close>

text \<open>
  C34: however the kernel cuts the reads short, \<^verbatim>\<open>evr_rollsum_split\<close> over a descriptor that
  does not fail and whose file is shorter than the number of bytes to read at most returns and ends with \<^verbatim>\<open>evr_end\<close>; the slices it hands out joined are the
  file, every slice but the last is longer than \<^verbatim>\<open>min_slice_size\<close> and none is longer
  than \<^verbatim>\<open>max_slice_size\<close>.
\<close>

theorem rollsum_split_complete:
  assumes "fd_never_fails f" "length (fd_in f) < max_read" "max_read < 2 ^ 64"
  shows "\<exists>ss s f'. evr_rollsum_split evr_file_fd_read True (\<lambda>_. True) collect_slice f max_read [] =
      Some (Evr_end, ss @ [s], f') \<and> concat (ss @ [s]) = fd_in f \<and>
      (\<forall>x\<in>set ss. min_slice_size < length x \<and> length x \<le> max_slice_size) \<and>
      length s \<le> max_slice_size \<and> fd_in f' = []"
  using fd_rel.evr_rollsum_split_result [OF assms] by (auto simp: slice_ok_def)

theorem rollsum_split_complete_witness:
  "\<exists>ss s f'. evr_rollsum_split evr_file_fd_read True (\<lambda>_. True) collect_slice
        \<lparr>fd_in = replicate 200000 7, fd_out = [], fd_io = [Io_short 2, Io_short 0]\<rparr> 300000 [] =
      Some (Evr_end, ss @ [s], f') \<and> concat (ss @ [s]) = replicate 200000 7 \<and>
      (\<forall>x\<in>set ss. min_slice_size < length x \<and> length x \<le> max_slice_size) \<and>
      length s \<le> max_slice_size \<and> fd_in f' = []"
  using rollsum_split_complete
    [of "\<lparr>fd_in = replicate 200000 7, fd_out = [], fd_io = [Io_short 2, Io_short 0]\<rparr>" 300000]
  by (simp add: fd_never_fails_def)

end
