(* ===== verification/Buf_Read.thy ===== *)
theory Buf_Read
  imports Files
begin

text \<open>
  The ring buffer \<^verbatim>\<open>evr_buf_read\<close> of \<^verbatim>\<open>src/files.c\<close>, which the line oriented protocols read through. It
  is transparent: what it holds followed by what the file still delivers is the stream, a read
  only moves bytes from the file into the ring, and a search for a sentinel finds the first one.
\<close>

section \<open>The ring\<close>

record 'f evr_buf_read =
  br_f :: 'f
  br_read_i :: nat
  br_write_i :: nat
  br_buf :: bytes
  br_buf_size :: nat

text \<open>
  The memory \<^verbatim>\<open>malloc\<close> returns behind the structure is the parameter \<open>mem\<close>, \<open>None\<close> for the null pointer. The size is \<^verbatim>\<open>1\<close> of
  type \<^verbatim>\<open>int\<close> shifted to the left, which is undefined from 31 on.
\<close>

definition evr_create_buf_read :: "bytes option \<Rightarrow> 'f \<Rightarrow> nat \<Rightarrow> 'f evr_buf_read option exec" where
  "evr_create_buf_read mem f buf_size_exp =
    (if buf_size_exp \<ge> 31 then Undef
     else Ret (map_option (\<lambda>m. \<lparr>br_f = f, br_read_i = 0, br_write_i = 0, br_buf = take (2 ^ buf_size_exp) m,
       br_buf_size = 2 ^ buf_size_exp\<rparr>) mem))"

text \<open>The difference of two values of type \<^verbatim>\<open>size_t\<close> wraps around before it is masked.\<close>

definition evr_buf_read_bytes_ready :: "'f evr_buf_read \<Rightarrow> nat" where
  "evr_buf_read_bytes_ready br =
    ((br_write_i br + 2 ^ 64 - br_read_i br) mod 2 ^ 64) AND (br_buf_size br - 1)"

definition evr_buf_read_peek :: "'f evr_buf_read \<Rightarrow> nat \<Rightarrow> byte" where
  "evr_buf_read_peek br offset = br_buf br ! ((br_read_i br + offset) AND (br_buf_size br - 1))"

text \<open>The largest read that fits behind the write index.\<close>

definition buf_read_room :: "'f evr_buf_read \<Rightarrow> nat" where
  "buf_read_room br =
    (if br_read_i br \<le> br_write_i br
     then br_buf_size br - br_write_i br - (if br_read_i br = 0 then 1 else 0)
     else br_read_i br - br_write_i br - 1)"

definition evr_buf_read_read :: "'f reader \<Rightarrow> 'f evr_buf_read \<Rightarrow> int \<times> 'f evr_buf_read" where
  "evr_buf_read_read rd br =
    (let rsize = buf_read_room br in
     if br_read_i br \<le> br_write_i br \<and> rsize = 0 then (- 1, br)
     else case rd (br_f br) rsize of (r, f') \<Rightarrow>
       (case r of
          Read_fail \<Rightarrow> (- 1, br\<lparr>br_f := f'\<rparr>)
        | Read_bytes bs \<Rightarrow>
           if bs = [] then (0, br\<lparr>br_f := f'\<rparr>)
           else (int (length bs),
                 br\<lparr>br_f := f', br_buf := overwrite (br_buf br) (br_write_i br) bs,
                   br_write_i := (br_write_i br + length bs) AND (br_buf_size br - 1)\<rparr>)))"

text \<open>
  The sentinel is searched from index \<open>i\<close> on. Without a place for the offset the search does not
  stop at a sentinel, as in the sources, where only the assignment is guarded by the pointer test
  together with the return.
\<close>

definition find_sentinel :: "'f evr_buf_read \<Rightarrow> byte \<Rightarrow> nat \<Rightarrow> nat option" where
  "find_sentinel br sentinel i = List.find (\<lambda>j. evr_buf_read_peek br j = sentinel) [i..<evr_buf_read_bytes_ready br]"

partial_function (option) read_until_loop ::
  "'f reader \<Rightarrow> byte \<Rightarrow> bool \<Rightarrow> nat \<Rightarrow> 'f evr_buf_read \<Rightarrow> (evr_code \<times> nat \<times> 'f evr_buf_read) option" where
  "read_until_loop rd sentinel has_offset i br =
    (case (if has_offset then find_sentinel br sentinel i else None) of
       Some j \<Rightarrow> Some (Evr_ok, j, br)
     | None \<Rightarrow>
        (case evr_buf_read_read rd br of (bytes_read, br1) \<Rightarrow>
           if bytes_read = 0 then Some (Evr_end, 0, br1)
           else if bytes_read < 0 then Some (Evr_error, 0, br1)
           else read_until_loop rd sentinel has_offset (max i (evr_buf_read_bytes_ready br)) br1))"

definition evr_buf_read_read_until ::
  "'f reader \<Rightarrow> 'f evr_buf_read \<Rightarrow> byte \<Rightarrow> bool \<Rightarrow> (evr_code \<times> nat \<times> 'f evr_buf_read) option" where
  "evr_buf_read_read_until rd br sentinel has_offset = read_until_loop rd sentinel has_offset 0 br"

definition evr_buf_read_pop :: "'f evr_buf_read \<Rightarrow> nat \<Rightarrow> evr_code \<times> bytes \<times> 'f evr_buf_read" where
  "evr_buf_read_pop br n =
    (Evr_ok, map (evr_buf_read_peek br) [0..<n], br\<lparr>br_read_i := (br_read_i br + n) AND (br_buf_size br - 1)\<rparr>)"

section \<open>Invariant and content\<close>

definition buf_read_inv :: "'f evr_buf_read \<Rightarrow> bool" where
  "buf_read_inv br = ((\<exists>k\<le>63. br_buf_size br = 2 ^ k) \<and> br_read_i br < br_buf_size br \<and>
     br_write_i br < br_buf_size br \<and> length (br_buf br) = br_buf_size br)"

definition buf_contents :: "'f evr_buf_read \<Rightarrow> bytes" where
  "buf_contents br = map (evr_buf_read_peek br) [0..<evr_buf_read_bytes_ready br]"

lemma length_buf_contents [simp]: "length (buf_contents br) = evr_buf_read_bytes_ready br"
  by (simp add: buf_contents_def)

lemma and_mask:
  assumes "buf_read_inv br"
  shows "(x :: nat) AND (br_buf_size br - 1) = x mod br_buf_size br"
proof -
  from assms obtain k where "br_buf_size br = 2 ^ k" by (auto simp: buf_read_inv_def)
  then show ?thesis using nat_and_exp_minus_1 [of x k] by simp
qed

lemma ready_cases:
  assumes "buf_read_inv br"
  shows "evr_buf_read_bytes_ready br =
    (if br_read_i br \<le> br_write_i br then br_write_i br - br_read_i br else br_write_i br + br_buf_size br - br_read_i br)"
proof -
  let ?n = "br_buf_size br" and ?r = "br_read_i br" and ?w = "br_write_i br"
  from assms obtain k where k: "k \<le> 63" "?n = 2 ^ k" and b: "?r < ?n" "?w < ?n" by (auto simp: buf_read_inv_def)
  have dv: "?n dvd 2 ^ 64" unfolding k(2) using k(1) by (intro le_imp_power_dvd) simp
  have le: "?n \<le> 2 ^ 64" using k power_increasing [of k 64 "2 :: nat"] by simp
  obtain q where q: "(2 :: nat) ^ 64 = ?n * q" using dv unfolding dvd_def by blast
  have q0: "0 < q" using q by (cases q) auto
  have "evr_buf_read_bytes_ready br = (?w + 2 ^ 64 - ?r) mod ?n"
    using dv by (simp add: evr_buf_read_bytes_ready_def and_mask [OF assms, unfolded One_nat_def] mod_mod_cancel)
  also have "?w + 2 ^ 64 - ?r = (?w + ?n - ?r) + ?n * (q - 1)"
    using b q q0 le by (cases q) (auto simp: algebra_simps)
  also have "\<dots> mod ?n = (?w + ?n - ?r) mod ?n" by simp
  also have "\<dots> = (if ?r \<le> ?w then ?w - ?r else ?w + ?n - ?r)"
    using b by (auto simp: mod_less_double)
  finally show ?thesis .
qed

lemma peek_eq: "buf_read_inv br \<Longrightarrow> evr_buf_read_peek br j = br_buf br ! ((br_read_i br + j) mod br_buf_size br)"
  by (simp add: evr_buf_read_peek_def and_mask [unfolded One_nat_def])

lemma create_buf_read_inv:
  assumes "evr_create_buf_read (Some m) f k = Ret (Some br)" "2 ^ k \<le> length m"
  shows "buf_read_inv br" "buf_contents br = []" "br_f br = f"
proof -
  from assms show i: "buf_read_inv br" and "br_f br = f" by (auto simp: evr_create_buf_read_def buf_read_inv_def split: if_splits)
  have "br_read_i br = 0" "br_write_i br = 0" using assms(1) by (auto simp: evr_create_buf_read_def split: if_splits)
  then show "buf_contents br = []" using ready_cases [OF i] by (simp add: buf_contents_def)
qed

text \<open>Room for a read leaves one slot free.\<close>

lemma room_bounds:
  assumes "buf_read_inv br"
  shows "br_write_i br + buf_read_room br \<le> br_buf_size br"
    "evr_buf_read_bytes_ready br + buf_read_room br < br_buf_size br"
  using assms by (auto simp: ready_cases buf_read_room_def buf_read_inv_def)

lemma room_zero:
  assumes "buf_read_inv br" "buf_read_room br = 0" "br_write_i br < br_read_i br"
  shows "Suc (evr_buf_read_bytes_ready br) = br_buf_size br"
  using assms by (auto simp: ready_cases buf_read_room_def buf_read_inv_def)

lemma buf_read_store:
  fixes f' :: 'f and br :: "'f evr_buf_read"
  assumes "buf_read_inv br" "length bs \<le> buf_read_room br"
  defines "br' \<equiv> br\<lparr>br_f := f', br_buf := overwrite (br_buf br) (br_write_i br) bs,
      br_write_i := (br_write_i br + length bs) AND (br_buf_size br - 1)\<rparr>"
  shows "buf_read_inv br' \<and> buf_contents br' = buf_contents br @ bs"
proof -
  let ?n = "br_buf_size br" and ?r = "br_read_i br" and ?w = "br_write_i br" and ?e = "evr_buf_read_bytes_ready br"
  note rb = room_bounds [OF assms(1)]
  have b: "?r < ?n" "?w < ?n" "length (br_buf br) = ?n" using assms(1) by (auto simp: buf_read_inv_def)
  have w': "br_write_i br' = (?w + length bs) mod ?n" by (simp add: br'_def and_mask [OF assms(1), unfolded One_nat_def])
  have le: "?w + length bs \<le> ?n" using rb(1) assms(2) by linarith
  have inv: "buf_read_inv br'" using assms(1) w' le b by (auto simp: buf_read_inv_def br'_def)
  have fs: "br_read_i br' = ?r" "br_buf_size br' = ?n" "br_buf br' = overwrite (br_buf br) ?w bs" by (simp_all add: br'_def)
  have e: "?e + length bs < ?n" using rb(2) assms(2) by linarith
  note ec = ready_cases [OF assms(1)] and ec' = ready_cases [OF inv, unfolded w' fs(1,2)]
  have ready: "evr_buf_read_bytes_ready br' = ?e + length bs"
    using ec ec' e b le by (auto simp: mod_less_double split: if_splits)
  have "evr_buf_read_peek br' j = (buf_contents br @ bs) ! j" if j: "j < ?e + length bs" for j
  proof (cases "j < ?e")
    case True
    let ?p = "(?r + j) mod ?n"
    have "?p < ?w \<or> ?w + length bs \<le> ?p" "?p < ?n"
      using True ec b e assms(2) by (auto simp: mod_less_double buf_read_room_def split: if_splits)
    then have "overwrite (br_buf br) ?w bs ! ?p = br_buf br ! ?p" using b le by (auto simp: nth_overwrite)
    with True show ?thesis using peek_eq [OF inv] peek_eq [OF assms(1)] fs by (simp add: buf_contents_def nth_append)
  next
    case False
    then obtain t where t: "j = ?e + t" "t < length bs" using j by (metis add_less_cancel_left le_Suc_ex not_less)
    have "(?r + j) mod ?n = ?w + t" using t ec b le by (auto simp: mod_less_double split: if_splits)
    moreover have "overwrite (br_buf br) ?w bs ! (?w + t) = bs ! t" using t b le by (simp add: nth_overwrite)
    ultimately show ?thesis using peek_eq [OF inv] fs t by (simp add: nth_append)
  qed
  then have "buf_contents br' = buf_contents br @ bs"
    by (intro nth_equalityI) (simp_all add: ready, simp add: buf_contents_def ready)
  with inv show ?thesis by blast
qed

lemma buf_read_pop_result:
  assumes "buf_read_inv br" "n \<le> evr_buf_read_bytes_ready br" "evr_buf_read_pop br n = (r, bs, br')"
  shows "r = Evr_ok \<and> bs = take n (buf_contents br) \<and> buf_contents br' = drop n (buf_contents br) \<and>
    buf_read_inv br' \<and> br_f br' = br_f br"
proof -
  let ?n = "br_buf_size br" and ?r = "br_read_i br" and ?w = "br_write_i br" and ?e = "evr_buf_read_bytes_ready br"
  have b: "?r < ?n" "?w < ?n" using assms(1) by (auto simp: buf_read_inv_def)
  have br': "br' = br\<lparr>br_read_i := (?r + n) mod ?n\<rparr>" "r = Evr_ok" "bs = map (evr_buf_read_peek br) [0..<n]"
    using assms(3) by (auto simp: evr_buf_read_pop_def and_mask [OF assms(1), unfolded One_nat_def])
  have inv: "buf_read_inv br'" using assms(1) br'(1) b by (auto simp: buf_read_inv_def)
  note ec = ready_cases [OF assms(1)] and ec' = ready_cases [OF inv]
  have ready: "evr_buf_read_bytes_ready br' = ?e - n"
    using ec ec' assms(2) b br'(1) by (auto simp: mod_less_double split: if_splits)
  have "evr_buf_read_peek br' j = evr_buf_read_peek br (n + j)" for j
    using peek_eq [OF assms(1)] peek_eq [OF inv] by (simp add: br'(1) mod_add_left_eq add.assoc)
  then have "buf_contents br' = drop n (buf_contents br)"
    by (intro nth_equalityI) (simp_all add: ready buf_contents_def)
  moreover have "bs = take n (buf_contents br)" using br'(3) assms(2) by (simp add: buf_contents_def take_map)
  ultimately show ?thesis using inv br' by simp
qed

section \<open>Over a file\<close>

definition br_stream :: "('f \<Rightarrow> bytes) \<Rightarrow> 'f evr_buf_read \<Rightarrow> bytes" where
  "br_stream stream br = buf_contents br @ stream (br_f br)"

definition br_valid :: "('f \<Rightarrow> bool) \<Rightarrow> 'f evr_buf_read \<Rightarrow> bool" where
  "br_valid valid br = (buf_read_inv br \<and> valid (br_f br))"

context evr_reader
begin

lemma buf_read_set_f: "buf_read_inv (br\<lparr>br_f := f\<rparr>) = buf_read_inv br" "buf_contents (br\<lparr>br_f := f\<rparr>) = buf_contents br"
  by (simp_all add: buf_read_inv_def buf_contents_def evr_buf_read_peek_def [abs_def] evr_buf_read_bytes_ready_def)

lemma buf_read_read_result:
  assumes "br_valid valid br" "evr_buf_read_read rd br = (n, br')"
  shows "br_valid valid br' \<and> br_stream stream br' = br_stream stream br \<and> (\<exists>bs. buf_contents br' = buf_contents br @ bs \<and> (0 < n \<longrightarrow> bs \<noteq> [])) \<and>
    (n = 0 \<longrightarrow> buf_contents br' = buf_contents br \<and> (stream (br_f br) = [] \<or> Suc (length (buf_contents br)) = br_buf_size br)) \<and>
    br_buf_size br' = br_buf_size br"
proof -
  let ?m = "buf_read_room br"
  have inv: "buf_read_inv br" and v: "valid (br_f br)" using assms(1) by (auto simp: br_valid_def)
  show ?thesis
  proof (cases "br_read_i br \<le> br_write_i br \<and> ?m = 0")
    case True
    with assms show ?thesis by (simp add: evr_buf_read_read_def)
  next
    case room: False
    obtain r f' where r: "rd (br_f br) ?m = (r, f')" by fastforce
    show ?thesis
    proof (cases r)
      case Read_fail
      with assms(2) room r have "n = - 1" "br' = br\<lparr>br_f := f'\<rparr>" by (auto simp: evr_buf_read_read_def Let_def)
      with rd_fail [OF v] r Read_fail inv show ?thesis by (simp add: br_valid_def br_stream_def buf_read_set_f)
    next
      case (Read_bytes bs)
      note rb = rd_bytes [OF v r [unfolded Read_bytes]]
      show ?thesis
      proof (cases "bs = []")
        case True
        with assms(2) room r Read_bytes have br': "n = 0" "br' = br\<lparr>br_f := f'\<rparr>" by (auto simp: evr_buf_read_read_def Let_def)
        have "stream (br_f br) = [] \<or> Suc (length (buf_contents br)) = br_buf_size br"
          using rd_end [OF v _ r [unfolded Read_bytes True]] room room_zero [OF inv] by (cases "?m = 0") auto
        with br' rb True inv show ?thesis by (auto simp: br_valid_def br_stream_def buf_read_set_f)
      next
        case False
        with assms(2) room r Read_bytes have br': "n = int (length bs)" "br' = br\<lparr>br_f := f',
            br_buf := overwrite (br_buf br) (br_write_i br) bs,
            br_write_i := (br_write_i br + length bs) AND (br_buf_size br - 1)\<rparr>"
          by (auto simp: evr_buf_read_read_def Let_def)
        from buf_read_store [OF inv conjunct1 [OF rb], of f'] br' rb False show ?thesis
          by (auto simp: br_valid_def br_stream_def)
      qed
    qed
  qed
qed

lemma find_sentinel_result:
  "find_sentinel br c i = Some j \<Longrightarrow> i \<le> j \<and> j < length (buf_contents br) \<and> buf_contents br ! j = c \<and>
     (\<forall>k. i \<le> k \<and> k < j \<longrightarrow> buf_contents br ! k \<noteq> c)"
  "find_sentinel br c i = None \<Longrightarrow> i \<le> k \<Longrightarrow> k < length (buf_contents br) \<Longrightarrow> buf_contents br ! k \<noteq> c"
proof -
  assume "find_sentinel br c i = Some j"
  then obtain t where t: "t < length [i..<evr_buf_read_bytes_ready br]" "evr_buf_read_peek br ([i..<evr_buf_read_bytes_ready br] ! t) = c"
    "j = [i..<evr_buf_read_bytes_ready br] ! t" "\<forall>s<t. evr_buf_read_peek br ([i..<evr_buf_read_bytes_ready br] ! s) \<noteq> c"
    by (auto simp: find_sentinel_def find_Some_iff)
  have "buf_contents br ! k \<noteq> c" if "i \<le> k" "k < j" for k
    using t(4) [rule_format, of "k - i"] t(1,3) that by (auto simp: buf_contents_def)
  with t show "i \<le> j \<and> j < length (buf_contents br) \<and> buf_contents br ! j = c \<and>
     (\<forall>k. i \<le> k \<and> k < j \<longrightarrow> buf_contents br ! k \<noteq> c)" by (auto simp: buf_contents_def)
next
  assume "find_sentinel br c i = None" "i \<le> k" "k < length (buf_contents br)"
  then show "buf_contents br ! k \<noteq> c" by (auto simp: find_sentinel_def find_None_iff buf_contents_def)
qed

lemma read_until_result:
  assumes "br_valid valid br" "i \<le> length (buf_contents br)" "\<forall>k<i. buf_contents br ! k \<noteq> c"
  shows "\<exists>r j br'. read_until_loop rd c True i br = Some (r, j, br') \<and> br_valid valid br' \<and> br_stream stream br' = br_stream stream br \<and>
    (r = Evr_ok \<and> j < length (buf_contents br') \<and> br_stream stream br ! j = c \<and> (\<forall>k<j. br_stream stream br ! k \<noteq> c) \<or>
     r = Evr_end \<and> (c \<notin> set (br_stream stream br) \<or> Suc (length (buf_contents br')) = br_buf_size br) \<or> r = Evr_error)"
  using assms
proof (induction "br_buf_size br - length (buf_contents br)" arbitrary: br i rule: less_induct)
  case less
  note step = read_until_loop.simps [of rd c True i br]
  show ?case
  proof (cases "find_sentinel br c i")
    case (Some j)
    note fs = find_sentinel_result(1) [OF this]
    have "\<forall>k<j. br_stream stream br ! k \<noteq> c"
    proof (intro allI impI)
      fix k assume "k < j"
      then have "buf_contents br ! k \<noteq> c" using fs less.prems(3) by (cases "k < i") auto
      then show "br_stream stream br ! k \<noteq> c" using fs \<open>k < j\<close> by (simp add: br_stream_def nth_append)
    qed
    moreover have "br_stream stream br ! j = c" using fs by (simp add: br_stream_def nth_append)
    ultimately show ?thesis using Some fs less.prems(1) by (simp add: step)
  next
    case None
    obtain n br1 where r: "evr_buf_read_read rd br = (n, br1)" by fastforce
    note rr = buf_read_read_result [OF less.prems(1) r]
    have nc: "\<forall>k<length (buf_contents br). buf_contents br ! k \<noteq> c"
    proof (intro allI impI)
      fix k assume "k < length (buf_contents br)"
      then show "buf_contents br ! k \<noteq> c" using find_sentinel_result(2) [OF None] less.prems(3) by (cases "k < i") auto
    qed
    consider "n = 0" | "n < 0" | "0 < n" by linarith
    then show ?thesis
    proof cases
      case 1
      have "c \<notin> set (br_stream stream br) \<or> Suc (length (buf_contents br1)) = br_buf_size br"
        using rr 1 nc by (auto simp: br_stream_def in_set_conv_nth)
      with 1 None r rr show ?thesis by (simp add: step del: length_buf_contents)
    next
      case 2
      with None r rr show ?thesis by (simp add: step)
    next
      case 3
      from rr 3 obtain bs where bs: "buf_contents br1 = buf_contents br @ bs" "bs \<noteq> []" by blast
      have inv1: "buf_read_inv br1" using rr by (simp add: br_valid_def)
      have lt: "br_buf_size br1 - length (buf_contents br1) < br_buf_size br - length (buf_contents br)"
        using bs rr room_bounds(2) [of br] less.prems(1) by (cases bs) (auto simp: br_valid_def)
      have mx: "max i (evr_buf_read_bytes_ready br) = length (buf_contents br)" using less.prems(2) by simp
      have nc1: "\<forall>k<length (buf_contents br). buf_contents br1 ! k \<noteq> c" using bs(1) nc by (simp add: nth_append)
      from less.hyps [OF lt _ _ nc1] rr bs(1) obtain r' j br' where
        "read_until_loop rd c True (length (buf_contents br)) br1 = Some (r', j, br')" "br_valid valid br'" "br_stream stream br' = br_stream stream br"
        "r' = Evr_ok \<and> j < length (buf_contents br') \<and> br_stream stream br ! j = c \<and> (\<forall>k<j. br_stream stream br ! k \<noteq> c) \<or>
         r' = Evr_end \<and> (c \<notin> set (br_stream stream br) \<or> Suc (length (buf_contents br')) = br_buf_size br) \<or> r' = Evr_error" by auto
      with 3 None r mx show ?thesis by (simp add: step)
    qed
  qed
qed

end

section \<open>Properties\<close>

text \<open>
  The ring buffer is transparent and finds the first sentinel. For every file that keeps the
  contract of a reader, \<^verbatim>\<open>evr_buf_read_read_until\<close> always returns, never loses or reorders a byte
  (the bytes in the ring followed by what the file still delivers stay the same), and on
  \<^verbatim>\<open>evr_ok\<close> the offset is that of the first sentinel of the stream, which lies in the ring.
  \<^verbatim>\<open>evr_end\<close> means that no sentinel follows, or that the ring is full with a wrapped write index,
  which the sources do not tell from the end of the file.
\<close>

theorem read_until_finds_first:
  assumes "evr_reader rd stream valid" "buf_read_inv br" "valid (br_f br)"
  shows "\<exists>r j br'. evr_buf_read_read_until rd br c True = Some (r, j, br') \<and> buf_read_inv br' \<and>
    buf_contents br' @ stream (br_f br') = buf_contents br @ stream (br_f br) \<and>
    (r = Evr_ok \<and> j < length (buf_contents br') \<and> (buf_contents br' @ stream (br_f br')) ! j = c \<and>
        (\<forall>k<j. (buf_contents br' @ stream (br_f br')) ! k \<noteq> c) \<or>
     r = Evr_end \<and> (c \<notin> set (buf_contents br @ stream (br_f br)) \<or> Suc (length (buf_contents br')) = br_buf_size br) \<or>
     r = Evr_error)"
proof -
  have "br_valid valid br" using assms(2,3) by (simp add: br_valid_def)
  from evr_reader.read_until_result [OF assms(1) this, of 0 c] show ?thesis
    by (fastforce simp: evr_buf_read_read_until_def br_stream_def br_valid_def)
qed

definition demo_ring :: "fd_file evr_buf_read" where
  "demo_ring = \<lparr>br_f = \<lparr>fd_in = [97, 98, 10, 99], fd_out = [], fd_io = [Io_short 1]\<rparr>, br_read_i = 6, br_write_i = 7,
     br_buf = replicate 8 120, br_buf_size = 8\<rparr>"

theorem read_until_finds_first_witness:
  "\<exists>r j br'. evr_buf_read_read_until evr_file_fd_read demo_ring 10 True = Some (r, j, br') \<and>
    buf_contents br' @ fd_in (br_f br') = [120, 97, 98, 10, 99]"
proof -
  have inv: "buf_read_inv demo_ring" by (auto simp: demo_ring_def buf_read_inv_def intro!: exI [of _ 3])
  have "evr_buf_read_bytes_ready demo_ring = 1" using ready_cases [OF inv] by (simp add: demo_ring_def)
  then have "buf_contents demo_ring = [120]" by (simp add: buf_contents_def peek_eq [OF inv]) (simp add: demo_ring_def)
  with read_until_finds_first [OF fd.evr_reader_axioms inv, of 10] show ?thesis by (auto simp: demo_ring_def)
qed

text \<open>
  Popping is dequeuing. As long as at least \<open>n\<close> bytes are ready, \<^verbatim>\<open>evr_buf_read_pop\<close> hands
  over the first \<open>n\<close> bytes of the ring and leaves the others, in their order.
\<close>

theorem buf_read_pop_dequeues:
  assumes "buf_read_inv br" "n \<le> evr_buf_read_bytes_ready br"
  shows "\<exists>br'. evr_buf_read_pop br n = (Evr_ok, take n (buf_contents br), br') \<and>
    buf_contents br' = drop n (buf_contents br) \<and> buf_read_inv br'"
proof -
  obtain r bs br' where p: "evr_buf_read_pop br n = (r, bs, br')" using prod_cases3 by blast
  with buf_read_pop_result [OF assms p] show ?thesis by simp
qed

theorem buf_read_pop_dequeues_witness:
  "\<exists>br'. evr_buf_read_pop demo_ring 1 = (Evr_ok, take 1 (buf_contents demo_ring), br') \<and> buf_read_inv br'"
proof -
  have inv: "buf_read_inv demo_ring" by (auto simp: demo_ring_def buf_read_inv_def intro!: exI [of _ 3])
  have "evr_buf_read_bytes_ready demo_ring = 1" using ready_cases [OF inv] by (simp add: demo_ring_def)
  with buf_read_pop_dequeues [OF inv, of 1] show ?thesis by auto
qed

end
