(* ===== verification/Queue.thy ===== *)
theory Queue
  imports Basics
begin

text \<open>
  The inter-thread queue of \<^verbatim>\<open>src/queue.c\<close>: a ring of \<open>2 ^ exp\<close> items in one flat buffer, of
  which one slot always stays free, with a status that stays \<^verbatim>\<open>evr_temporary_occupied\<close> once
  the ring overflowed. The locale \<open>bounded_fifo\<close> states what a queue promises its users, proves
  that what is delivered is what was accepted, in order and whatever the threads interleave, and
  is interpreted on the ring.
\<close>

section \<open>Definitions\<close>

text \<open>
  The results of the synchronisation calls an operation makes. \<^verbatim>\<open>evr_panic\<close> ends the process:
  an operation whose result is \<open>None\<close> did not return to its caller.
\<close>

record sync =
  mtx_lock_ok :: bool
  cnd_signal_ok :: bool
  mtx_unlock_ok :: bool

definition sync_ok :: sync where
  "sync_ok = \<lparr>mtx_lock_ok = True, cnd_signal_ok = True, mtx_unlock_ok = True\<rparr>"

text \<open>\<open>q_producing\<close> tells whether the mutex \<^verbatim>\<open>producing\<close> is held.\<close>

record evr_queue =
  q_status :: evr_code
  q_writing_i :: nat
  q_reading_i :: nat
  q_items_len :: nat
  q_item_size :: nat
  q_items_buf :: bytes
  q_producing :: bool

text \<open>
  The five results are those of \<^verbatim>\<open>malloc\<close>, of the three initialisations and of the lock of
  \<^verbatim>\<open>producing\<close>; \<open>mem\<close> is what the allocated items hold and \<open>struct_size\<close> the size of \<^verbatim>\<open>struct evr_queue\<close>. The number of
  items is \<^verbatim>\<open>1\<close> of type \<^verbatim>\<open>int\<close> shifted to the left, which is undefined from 31 on. The size that is allocated is
  a \<^verbatim>\<open>size_t\<close> and wraps around: the items are what follows the structure in the memory, and when not even the
  structure fits, its fields are written behind the memory.
\<close>

definition evr_create_queue ::
  "nat \<Rightarrow> bool \<Rightarrow> bool \<Rightarrow> bool \<Rightarrow> bool \<Rightarrow> bool \<Rightarrow> (nat \<Rightarrow> bytes) \<Rightarrow> nat \<Rightarrow> nat \<Rightarrow> evr_queue option exec" where
  "evr_create_queue struct_size malloc lock_init fill_init producing_init producing_lock mem items_len_exp item_size =
    (if items_len_exp \<ge> 31 then Undef
     else let items_len = 2 ^ items_len_exp;
              alloc = (struct_size + items_len * item_size) mod 2 ^ 64 in
     if \<not> malloc then Ret None
     else if alloc < struct_size then Undef
     else if \<not> lock_init then Ret None
     else if \<not> fill_init then Ret None
     else if \<not> producing_init then Ret None
     else if \<not> producing_lock then Ret None
     else Ret (Some \<lparr>q_status = Evr_ok, q_writing_i = 0, q_reading_i = 0, q_items_len = items_len,
                q_item_size = item_size, q_items_buf = mem (alloc - struct_size),
                q_producing = True\<rparr>))"

definition evr_queue_end_producing :: "sync \<Rightarrow> evr_queue \<Rightarrow> evr_queue option" where
  "evr_queue_end_producing s q =
    (if \<not> mtx_unlock_ok s then None else Some (q\<lparr>q_producing := False\<rparr>))"

text \<open>
  \<^verbatim>\<open>evr_free_queue\<close> waits for the mutex \<^verbatim>\<open>producing\<close>: \<open>Blocked\<close> while a producer holds it.
\<close>

datatype 'a blocking = Blocked | Done 'a

definition evr_free_queue :: "sync \<Rightarrow> evr_queue option \<Rightarrow> (evr_code \<times> evr_code) blocking option" where
  "evr_free_queue s qo =
    (case qo of
       None \<Rightarrow> Some (Done (Evr_ok, Evr_ok))
     | Some q \<Rightarrow>
        (if q_producing q then Some Blocked
         else if \<not> mtx_lock_ok s then None
         else if \<not> mtx_unlock_ok s then None
         else Some (Done (Evr_ok, q_status q))))"

definition queue_unlock :: "sync \<Rightarrow> evr_code \<Rightarrow> 'r \<Rightarrow> evr_queue \<Rightarrow> (evr_code \<times> 'r \<times> evr_queue) option" where
  "queue_unlock s ret r q = (if \<not> mtx_unlock_ok s then None else Some (ret, r, q))"

text \<open>
  \<open>others\<close> is what the other threads do to the queue while \<^verbatim>\<open>cnd_timedwait\<close> has released the
  lock; its result is not looked at by the code. The second result is the entry copied out.
\<close>

definition evr_queue_take ::
  "sync \<Rightarrow> (evr_queue \<Rightarrow> evr_queue) \<Rightarrow> evr_queue \<Rightarrow> (evr_code \<times> bytes option \<times> evr_queue) option" where
  "evr_queue_take s others q0 =
    (if \<not> mtx_lock_ok s then Some (Evr_error, None, q0)
     else if q_status q0 \<noteq> Evr_ok then queue_unlock s Evr_error None q0
     else
       let q = (if q_writing_i q0 = q_reading_i q0 then others q0 else q0) in
       if q_writing_i q0 = q_reading_i q0 \<and> q_writing_i q = q_reading_i q
       then queue_unlock s Evr_not_found None q
       else queue_unlock s Evr_ok
              (Some (take (q_item_size q) (drop (q_reading_i q * q_item_size q) (q_items_buf q))))
              (q\<lparr>q_reading_i := (q_reading_i q + 1) AND (q_items_len q - 1)\<rparr>))"

definition evr_queue_put :: "sync \<Rightarrow> evr_queue \<Rightarrow> bytes \<Rightarrow> (evr_code \<times> unit \<times> evr_queue) option" where
  "evr_queue_put s q entry =
    (if \<not> mtx_lock_ok s then Some (Evr_error, (), q)
     else if q_status q = Evr_temporary_occupied then queue_unlock s Evr_temporary_occupied () q
     else if q_status q \<noteq> Evr_ok then queue_unlock s Evr_error () q
     else
       let next_writing_i = (q_writing_i q + 1) AND (q_items_len q - 1);
           (ret, q') = (if next_writing_i = q_reading_i q
             then (Evr_temporary_occupied, q\<lparr>q_status := Evr_temporary_occupied\<rparr>)
             else (Evr_ok, q\<lparr>q_items_buf := overwrite (q_items_buf q)
                       (q_writing_i q * q_item_size q) (take (q_item_size q) entry),
                     q_writing_i := next_writing_i\<rparr>))
       in if \<not> cnd_signal_ok s then None else queue_unlock s ret () q')"

section \<open>What a queue promises\<close>

text \<open>
  The operations as a user sees them: \<open>put\<close> accepts an entry or refuses it, \<open>poll\<close> is a take that
  found the lock, given what the other threads did while it waited. The laws hold on the queues
  that satisfy \<open>inv\<close>; \<open>contents\<close> is the abstract sequence, \<open>open_q\<close> tells that the queue is
  not broken.
\<close>

locale bounded_fifo =
  fixes put :: "'q \<Rightarrow> 'e \<Rightarrow> evr_code \<times> 'q"
    and poll :: "('q \<Rightarrow> 'q) \<Rightarrow> 'q \<Rightarrow> evr_code \<times> 'e option \<times> 'q"
    and inv :: "'q \<Rightarrow> bool" and entry_ok :: "'q \<Rightarrow> 'e \<Rightarrow> bool"
    and contents :: "'q \<Rightarrow> 'e list" and cap :: "'q \<Rightarrow> nat" and open_q :: "'q \<Rightarrow> bool"
    and waits :: "'q \<Rightarrow> bool"
  assumes put_keeps: "inv q \<Longrightarrow> entry_ok q e \<Longrightarrow> put q e = (c, q') \<Longrightarrow>
      inv q' \<and> cap q' = cap q \<and> entry_ok q' = entry_ok q"
    and put_open: "inv q \<Longrightarrow> entry_ok q e \<Longrightarrow> open_q q \<Longrightarrow> length (contents q) < cap q \<Longrightarrow>
      \<exists>q'. put q e = (Evr_ok, q') \<and> contents q' = contents q @ [e] \<and> open_q q'"
    and put_full: "inv q \<Longrightarrow> entry_ok q e \<Longrightarrow> open_q q \<Longrightarrow> length (contents q) = cap q \<Longrightarrow>
      \<exists>q'. put q e = (Evr_temporary_occupied, q') \<and> contents q' = contents q \<and> \<not> open_q q'"
    and put_closed: "inv q \<Longrightarrow> entry_ok q e \<Longrightarrow> \<not> open_q q \<Longrightarrow> put q e = (c, q') \<Longrightarrow> c \<noteq> Evr_ok \<and> q' = q"
    and bounded: "inv q \<Longrightarrow> length (contents q) \<le> cap q"
    and poll_some: "inv q \<Longrightarrow> open_q q \<Longrightarrow> contents q = e # es \<Longrightarrow>
      \<exists>q'. poll w q = (Evr_ok, Some e, q') \<and> contents q' = es \<and> open_q q' \<and> inv q' \<and>
        cap q' = cap q \<and> entry_ok q' = entry_ok q"
    and poll_wait: "inv q \<Longrightarrow> open_q q \<Longrightarrow> contents q = [] \<Longrightarrow> inv (w q) \<Longrightarrow>
      (case contents (w q) of
         [] \<Rightarrow> poll w q = (Evr_not_found, None, w q)
       | e # es \<Rightarrow> \<exists>q'. poll w q = (Evr_ok, Some e, q') \<and> contents q' = es \<and>
           open_q q' = open_q (w q) \<and> inv q' \<and> cap q' = cap (w q) \<and> entry_ok q' = entry_ok (w q))"
    and waits_iff: "inv q \<Longrightarrow> waits q = (open_q q \<and> contents q = [])"
    and poll_closed: "inv q \<Longrightarrow> \<not> open_q q \<Longrightarrow> poll w q = (Evr_error, None, q)"

section \<open>Interleaved threads\<close>

text \<open>
  A run of the threads over one queue: puts and takes, each in its critical section, and inside a
  take that waits the actions of the other threads. The run collects what was accepted and what
  was delivered.
\<close>

datatype 'e qact = Put 'e | Take "'e qact list"

fun act :: "('q \<Rightarrow> 'e \<Rightarrow> evr_code \<times> 'q) \<Rightarrow> (('q \<Rightarrow> 'q) \<Rightarrow> 'q \<Rightarrow> evr_code \<times> 'e option \<times> 'q) \<Rightarrow> ('q \<Rightarrow> bool)
    \<Rightarrow> 'e qact \<Rightarrow> 'q \<times> 'e list \<times> 'e list \<Rightarrow> 'q \<times> 'e list \<times> 'e list"
  and acts :: "('q \<Rightarrow> 'e \<Rightarrow> evr_code \<times> 'q) \<Rightarrow> (('q \<Rightarrow> 'q) \<Rightarrow> 'q \<Rightarrow> evr_code \<times> 'e option \<times> 'q) \<Rightarrow> ('q \<Rightarrow> bool)
    \<Rightarrow> 'e qact list \<Rightarrow> 'q \<times> 'e list \<times> 'e list \<Rightarrow> 'q \<times> 'e list \<times> 'e list" where
  "act put poll waits (Put e) (q, acc, del) =
    (case put q e of (c, q') \<Rightarrow> (q', if c = Evr_ok then acc @ [e] else acc, del))"
| "act put poll waits (Take w) (q, acc, del) =
    (if waits q then
       (case acts put poll waits w (q, acc, del) of (q1, acc1, del1) \<Rightarrow>
          case poll (\<lambda>_. q1) q of (c, e, q') \<Rightarrow> (q', acc1, case e of None \<Rightarrow> del1 | Some x \<Rightarrow> del1 @ [x]))
     else case poll id q of (c, e, q') \<Rightarrow> (q', acc, case e of None \<Rightarrow> del | Some x \<Rightarrow> del @ [x]))"
| "acts put poll waits [] s = s"
| "acts put poll waits (a # as) s = acts put poll waits as (act put poll waits a s)"

lemma qact_inducts:
  assumes "\<And>e. P (Put e)" "\<And>w. Q w \<Longrightarrow> P (Take w)" "Q []" "\<And>a as. P a \<Longrightarrow> Q as \<Longrightarrow> Q (a # as)"
  shows "P a" and "Q as"
proof -
  have l: "(\<forall>a\<in>set as. P a) \<Longrightarrow> Q as" for as by (induction as) (auto intro: assms)
  then show p: "P a" for a by (induction a) (auto intro: assms)
  show "Q as" using l p by blast
qed

fun act_ok :: "('e \<Rightarrow> bool) \<Rightarrow> 'e qact \<Rightarrow> bool" where
  "act_ok p (Put e) = p e"
| "act_ok p (Take w) = list_all (act_ok p) w"

context bounded_fifo
begin

text \<open>Accepted is delivered or still in the queue, in the order of acceptance.\<close>

lemma acts_deliver_in_order:
  shows "act put poll waits a (q, acc, del) = (q', acc', del') \<Longrightarrow> inv q \<Longrightarrow> act_ok (entry_ok q) a \<Longrightarrow>
      acc = del @ contents q \<Longrightarrow>
      inv q' \<and> cap q' = cap q \<and> entry_ok q' = entry_ok q \<and> acc' = del' @ contents q'"
    and "acts put poll waits as (q, acc, del) = (q', acc', del') \<Longrightarrow> inv q \<Longrightarrow> list_all (act_ok (entry_ok q)) as \<Longrightarrow>
      acc = del @ contents q \<Longrightarrow>
      inv q' \<and> cap q' = cap q \<and> entry_ok q' = entry_ok q \<and> acc' = del' @ contents q'"
proof (induction a and as arbitrary: q acc del q' acc' del' and q acc del q' acc' del' rule: qact_inducts)
  case (1 e)
  obtain c q1 where p: "put q e = (c, q1)" by fastforce
  have e: "entry_ok q e" using "1.prems" by simp
  note k = put_keeps [OF "1.prems"(2) e p]
  consider "open_q q" "length (contents q) < cap q" | "open_q q" "length (contents q) = cap q" | "\<not> open_q q"
    using bounded [OF "1.prems"(2)] by linarith
  then show ?case
  proof cases
    case 1
    from put_open [OF "1.prems"(2) e this] p have "c = Evr_ok" "contents q1 = contents q @ [e]" by auto
    with p k "1.prems" show ?thesis by auto
  next
    case 2
    from put_full [OF "1.prems"(2) e this] p have "c = Evr_temporary_occupied" "contents q1 = contents q" by auto
    with p k "1.prems" show ?thesis by auto
  next
    case 3
    from put_closed [OF "1.prems"(2) e this p] p k "1.prems" show ?thesis by auto
  qed
next
  case (2 w)
  show ?case
  proof (cases "waits q")
    case True
    obtain q1 acc1 del1 where w: "acts put poll waits w (q, acc, del) = (q1, acc1, del1)" using prod_cases3 by blast
    have IH: "inv q1 \<and> cap q1 = cap q \<and> entry_ok q1 = entry_ok q \<and> acc1 = del1 @ contents q1"
      using "2.IH" [OF w] "2.prems" by simp
    have "inv q" "open_q q" "contents q = []" using "2.prems" True waits_iff by auto
    note pw = poll_wait [OF this, of "\<lambda>_. q1"]
    show ?thesis
    proof (cases "contents q1")
      case Nil
      with pw IH w True "2.prems" show ?thesis by auto
    next
      case (Cons x xs)
      with pw IH obtain q2 where "poll (\<lambda>_. q1) q = (Evr_ok, Some x, q2)" "contents q2 = xs" "inv q2"
        "cap q2 = cap q1" "entry_ok q2 = entry_ok q1" by auto
      with IH w True Cons "2.prems"(1) show ?thesis by auto
    qed
  next
    case False
    show ?thesis
    proof (cases "open_q q")
      case True
      with False waits_iff "2.prems"(2) obtain x xs where c: "contents q = x # xs" by (cases "contents q") auto
      from poll_some [OF "2.prems"(2) True c, of id] obtain q2 where
        "poll id q = (Evr_ok, Some x, q2)" "contents q2 = xs" "inv q2" "cap q2 = cap q" "entry_ok q2 = entry_ok q"
        by blast
      with "2.prems" \<open>\<not> waits q\<close> c show ?thesis by auto
    next
      case closed: False
      from poll_closed [OF "2.prems"(2) closed, of id] "2.prems" \<open>\<not> waits q\<close> show ?thesis by auto
    qed
  qed
next
  case (4 a as)
  obtain q1 acc1 del1 where a: "act put poll waits a (q, acc, del) = (q1, acc1, del1)" using prod_cases3 by blast
  have 1: "inv q1 \<and> cap q1 = cap q \<and> entry_ok q1 = entry_ok q \<and> acc1 = del1 @ contents q1"
    using "4.IH"(1) [OF a] "4.prems" by simp
  with "4.IH"(2) [of q1 acc1 del1 q' acc' del'] a "4.prems" show ?case by simp
qed simp

end

section \<open>The ring keeps the promise\<close>

definition queue_inv :: "evr_queue \<Rightarrow> bool" where
  "queue_inv q = ((\<exists>k. q_items_len q = 2 ^ k) \<and> q_writing_i q < q_items_len q \<and>
     q_reading_i q < q_items_len q \<and> length (q_items_buf q) = q_items_len q * q_item_size q \<and>
     q_status q \<in> {Evr_ok, Evr_temporary_occupied})"

definition queue_slot :: "evr_queue \<Rightarrow> nat \<Rightarrow> bytes" where
  "queue_slot q i = take (q_item_size q) (drop (i * q_item_size q) (q_items_buf q))"

definition queue_len :: "evr_queue \<Rightarrow> nat" where
  "queue_len q = (q_writing_i q + q_items_len q - q_reading_i q) mod q_items_len q"

definition queue_contents :: "evr_queue \<Rightarrow> bytes list" where
  "queue_contents q = map (\<lambda>k. queue_slot q ((q_reading_i q + k) mod q_items_len q)) [0..<queue_len q]"

lemma length_queue_contents [simp]: "length (queue_contents q) = queue_len q"
  by (simp add: queue_contents_def)

lemma queue_index_step:
  "queue_inv q \<Longrightarrow> Suc i AND (q_items_len q - Suc 0) = Suc i mod q_items_len q"
  by (elim queue_inv_def [THEN iffD1, elim_format] conjE exE)
     (simp only: nat_and_exp_minus_1 [unfolded One_nat_def])

lemma queue_len_cases:
  assumes "queue_inv q"
  shows "queue_len q = (if q_reading_i q \<le> q_writing_i q then q_writing_i q - q_reading_i q
      else q_writing_i q + q_items_len q - q_reading_i q)"
  using assms by (auto simp: queue_len_def queue_inv_def mod_less_double)

lemma queue_len_facts:
  assumes "queue_inv q"
  shows "queue_len q < q_items_len q"
    and "queue_len q = 0 \<longleftrightarrow> q_writing_i q = q_reading_i q"
    and "(q_reading_i q + queue_len q) mod q_items_len q = q_writing_i q"
    and "Suc (q_writing_i q) mod q_items_len q = q_reading_i q \<longleftrightarrow> Suc (queue_len q) = q_items_len q"
    and "k < queue_len q \<Longrightarrow> (q_reading_i q + k) mod q_items_len q \<noteq> q_writing_i q"
proof -
  note c = queue_len_cases [OF assms]
  have i: "q_writing_i q < q_items_len q" "q_reading_i q < q_items_len q"
    using assms by (simp_all add: queue_inv_def)
  show lt: "queue_len q < q_items_len q" "queue_len q = 0 \<longleftrightarrow> q_writing_i q = q_reading_i q"
    using c i by (auto split: if_splits)
  show "(q_reading_i q + queue_len q) mod q_items_len q = q_writing_i q"
    using c i by (auto simp: mod_less_double split: if_splits)
  show "Suc (q_writing_i q) mod q_items_len q = q_reading_i q \<longleftrightarrow> Suc (queue_len q) = q_items_len q"
    using c i by (cases "Suc (q_writing_i q) = q_items_len q") (auto split: if_splits)
  show "k < queue_len q \<Longrightarrow> (q_reading_i q + k) mod q_items_len q \<noteq> q_writing_i q"
    using c i lt by (auto simp: mod_less_double split: if_splits)
qed

lemma slots_apart: "(i :: nat) < j \<Longrightarrow> i * sz + sz \<le> j * sz"
  by (metis Suc_leI add.commute mult_Suc mult_le_mono1)

lemma queue_slot_overwrite:
  assumes "length (q_items_buf q) = n * q_item_size q" "i < n" "j < n" "length e = q_item_size q"
  shows "queue_slot (q\<lparr>q_items_buf := overwrite (q_items_buf q) (i * q_item_size q) e, q_writing_i := w\<rparr>) j =
      (if j = i then e else queue_slot q j)"
proof (cases "j = i")
  case True
  have "i * q_item_size q + q_item_size q \<le> n * q_item_size q" using slots_apart assms(2) by blast
  with assms True show ?thesis by (simp add: queue_slot_def overwrite_def)
next
  case False
  let ?sz = "q_item_size q" and ?b = "q_items_buf q"
  have i: "i * ?sz + ?sz \<le> n * ?sz" using slots_apart assms(2) by blast
  from False consider "i < j" | "j < i" by linarith
  then have "take ?sz (drop (j * ?sz) (overwrite ?b (i * ?sz) e)) = take ?sz (drop (j * ?sz) ?b)"
  proof cases
    case 1
    then show ?thesis using slots_apart [of i j ?sz] i assms by (simp add: drop_overwrite_ge)
  next
    case 2
    then show ?thesis using slots_apart [of j i ?sz] i assms by (simp add: take_drop add.commute)
  qed
  with False show ?thesis by (simp add: queue_slot_def)
qed

text \<open>The operations with the synchronisation calls succeeding.\<close>

definition ring_put :: "evr_queue \<Rightarrow> bytes \<Rightarrow> evr_code \<times> evr_queue" where
  "ring_put q e = (case evr_queue_put sync_ok q e of Some (c, _, q') \<Rightarrow> (c, q') | None \<Rightarrow> (Evr_error, q))"

definition ring_poll :: "(evr_queue \<Rightarrow> evr_queue) \<Rightarrow> evr_queue \<Rightarrow> evr_code \<times> bytes option \<times> evr_queue" where
  "ring_poll w q = (case evr_queue_take sync_ok w q of Some r \<Rightarrow> r | None \<Rightarrow> (Evr_error, None, q))"

definition ring_waits :: "evr_queue \<Rightarrow> bool" where
  "ring_waits q = (q_status q = Evr_ok \<and> q_writing_i q = q_reading_i q)"

abbreviation queue_cap :: "evr_queue \<Rightarrow> nat" where "queue_cap q \<equiv> q_items_len q - 1"
abbreviation queue_entry :: "evr_queue \<Rightarrow> bytes \<Rightarrow> bool" where "queue_entry q e \<equiv> length e = q_item_size q"
abbreviation queue_open :: "evr_queue \<Rightarrow> bool" where "queue_open q \<equiv> q_status q = Evr_ok"

lemma queue_inv_len_pos: "queue_inv q \<Longrightarrow> 0 < q_items_len q"
  by (auto simp: queue_inv_def)

lemma queue_full_iff:
  "queue_inv q \<Longrightarrow> Suc (q_writing_i q) mod q_items_len q = q_reading_i q \<longleftrightarrow> queue_len q = queue_cap q"
  using queue_len_facts(1,4) [of q] by auto

definition queue_written :: "evr_queue \<Rightarrow> bytes \<Rightarrow> evr_queue" where
  "queue_written q e = q\<lparr>q_items_buf := overwrite (q_items_buf q) (q_writing_i q * q_item_size q) e,
     q_writing_i := Suc (q_writing_i q) mod q_items_len q\<rparr>"

lemma ring_put_eq:
  assumes "queue_inv q" "queue_entry q e"
  shows "ring_put q e =
    (if \<not> queue_open q then (Evr_temporary_occupied, q)
     else if queue_len q = queue_cap q then (Evr_temporary_occupied, q\<lparr>q_status := Evr_temporary_occupied\<rparr>)
     else (Evr_ok, queue_written q e))"
proof -
  have "q_status q \<in> {Evr_ok, Evr_temporary_occupied}" using assms(1) by (simp add: queue_inv_def)
  then show ?thesis
    using assms(2) queue_full_iff [OF assms(1)]
    by (auto simp: ring_put_def evr_queue_put_def queue_unlock_def sync_ok_def queue_written_def
        queue_index_step [OF assms(1)] Let_def)
qed

lemma queue_written_len:
  assumes "queue_inv q" "queue_len q \<noteq> queue_cap q"
  shows "queue_len (queue_written q e) = Suc (queue_len q)"
proof -
  have i: "q_writing_i q < q_items_len q" "q_reading_i q < q_items_len q"
    using assms(1) by (simp_all add: queue_inv_def)
  have nf: "Suc (q_writing_i q) mod q_items_len q \<noteq> q_reading_i q" using queue_full_iff assms by blast
  have "queue_len (queue_written q e) =
      (Suc (q_writing_i q) mod q_items_len q + q_items_len q - q_reading_i q) mod q_items_len q"
    by (simp add: queue_len_def queue_written_def)
  also have "\<dots> = Suc (queue_len q)"
    using i nf queue_len_cases [OF assms(1)]
    by (cases "Suc (q_writing_i q) = q_items_len q") (auto simp: mod_less_double)
  finally show ?thesis .
qed

lemma queue_written_keeps:
  assumes "queue_inv q" "queue_entry q e"
  shows "queue_inv (queue_written q e)"
proof -
  have "q_writing_i q * q_item_size q + q_item_size q \<le> q_items_len q * q_item_size q"
    using assms(1) slots_apart by (simp add: queue_inv_def)
  with assms queue_inv_len_pos [OF assms(1)] show ?thesis
    by (auto simp: queue_inv_def queue_written_def)
qed

lemma queue_written_contents:
  assumes "queue_inv q" "queue_entry q e" "queue_len q \<noteq> queue_cap q"
  shows "queue_contents (queue_written q e) = queue_contents q @ [e]"
proof -
  let ?n = "queue_len q" and ?L = "q_items_len q" and ?r = "q_reading_i q"
  have slot: "queue_slot (queue_written q e) j = (if j = q_writing_i q then e else queue_slot q j)"
    if "j < ?L" for j
    using queue_slot_overwrite [of q ?L "q_writing_i q" j e] that assms
    by (simp add: queue_written_def queue_inv_def)
  have L: "0 < ?L" by (rule queue_inv_len_pos [OF assms(1)])
  have flds: "q_reading_i (queue_written q e) = ?r" "q_items_len (queue_written q e) = ?L"
    by (simp_all add: queue_written_def)
  have "queue_contents (queue_written q e) =
      map (\<lambda>k. queue_slot (queue_written q e) ((?r + k) mod ?L)) [0..<?n] @
      [queue_slot (queue_written q e) ((?r + ?n) mod ?L)]"
    using queue_written_len [OF assms(1,3)] by (simp add: queue_contents_def flds)
  moreover have "map (\<lambda>k. queue_slot (queue_written q e) ((?r + k) mod ?L)) [0..<?n] = queue_contents q"
    using queue_len_facts(5) [OF assms(1)] L by (simp add: queue_contents_def slot)
  moreover have "queue_slot (queue_written q e) ((?r + ?n) mod ?L) = e"
    using queue_len_facts(3) [OF assms(1)] slot [of "q_writing_i q"] assms(1) by (simp add: queue_inv_def)
  ultimately show ?thesis by simp
qed

lemma queue_read_contents:
  assumes "queue_inv q" "queue_contents q = e # es"
  shows "e = queue_slot q (q_reading_i q)"
    "queue_contents (q\<lparr>q_reading_i := Suc (q_reading_i q) mod q_items_len q\<rparr>) = es"
    "queue_inv (q\<lparr>q_reading_i := Suc (q_reading_i q) mod q_items_len q\<rparr>)"
proof -
  let ?L = "q_items_len q" and ?r = "q_reading_i q"
  let ?q = "q\<lparr>q_reading_i := Suc ?r mod ?L\<rparr>"
  have i: "q_writing_i q < ?L" "?r < ?L" using assms(1) by (simp_all add: queue_inv_def)
  have n: "queue_len q = Suc (length es)" using arg_cong [OF assms(2), of length] by simp
  then have ne: "q_writing_i q \<noteq> ?r" using queue_len_facts(2) [OF assms(1)] by simp
  have len: "queue_len ?q = length es"
  proof -
    have "queue_len ?q = (q_writing_i q + ?L - Suc ?r mod ?L) mod ?L" by (simp add: queue_len_def)
    also have "\<dots> = length es"
      using i ne n queue_len_cases [OF assms(1)]
      by (cases "Suc ?r = ?L") (auto simp: mod_less_double split: if_splits)
    finally show ?thesis .
  qed
  have "e # es = map (\<lambda>k. queue_slot q ((?r + k) mod ?L)) (0 # map Suc [0..<length es])"
    using assms(2) n by (simp add: queue_contents_def upt_conv_Cons map_Suc_upt del: upt_Suc)
  then have e: "e = queue_slot q ?r" and es: "es = map (\<lambda>k. queue_slot q ((?r + Suc k) mod ?L)) [0..<length es]"
    using i by (auto simp: comp_def)
  show "e = queue_slot q ?r" by (rule e)
  show "queue_inv ?q" using assms(1) queue_inv_len_pos [OF assms(1)] by (auto simp: queue_inv_def)
  have "queue_contents ?q = map (\<lambda>k. queue_slot q ((Suc ?r mod ?L + k) mod ?L)) [0..<length es]"
    using len by (simp add: queue_contents_def queue_slot_def)
  also have "\<dots> = map (\<lambda>k. queue_slot q ((?r + Suc k) mod ?L)) [0..<length es]" by (simp add: mod_simps)
  also have "\<dots> = es" by (rule es [symmetric])
  finally show "queue_contents ?q = es" .
qed

lemma ring_poll_eq:
  assumes "queue_inv q" "queue_inv (w q)"
  shows "ring_poll w q =
    (if \<not> queue_open q then (Evr_error, None, q)
     else let q1 = (if queue_contents q = [] then w q else q) in
       case queue_contents q1 of
         [] \<Rightarrow> (Evr_not_found, None, q1)
       | e # es \<Rightarrow> (Evr_ok, Some e, q1\<lparr>q_reading_i := Suc (q_reading_i q1) mod q_items_len q1\<rparr>))"
proof -
  have emp: "q_writing_i p = q_reading_i p \<longleftrightarrow> queue_contents p = []" if "queue_inv p" for p
    using queue_len_facts(2) [OF that] by (metis length_0_conv length_queue_contents)
  show ?thesis
    using queue_read_contents(1) assms
    by (auto simp: ring_poll_def evr_queue_take_def queue_unlock_def sync_ok_def emp queue_slot_def
        queue_index_step Let_def split: list.split)
qed

lemma ring_waits_iff:
  "queue_inv q \<Longrightarrow> ring_waits q = (queue_open q \<and> queue_contents q = [])"
  using queue_len_facts(2) [of q] by (metis length_0_conv length_queue_contents ring_waits_def)

lemma ring_put_keeps:
  assumes "queue_inv q" "queue_entry q e" "ring_put q e = (c, q')"
  shows "queue_inv q' \<and> q_items_len q' = q_items_len q \<and> q_item_size q' = q_item_size q"
proof -
  have "queue_inv (q\<lparr>q_status := Evr_temporary_occupied\<rparr>)" using assms(1) by (auto simp: queue_inv_def)
  with assms ring_put_eq [OF assms(1,2)] queue_written_keeps [OF assms(1,2)] show ?thesis
    by (auto simp: queue_written_def split: if_splits)
qed

lemma queue_contents_status [simp]: "queue_contents (q\<lparr>q_status := x\<rparr>) = queue_contents q"
  by (simp add: queue_contents_def queue_len_def queue_slot_def)

interpretation ring: bounded_fifo ring_put ring_poll queue_inv queue_entry queue_contents queue_cap
  queue_open ring_waits
proof (unfold_locales, goal_cases)
  case (1 q e c q')
  from ring_put_keeps [OF this] show ?case by simp
next
  case (2 q e)
  then have "ring_put q e = (Evr_ok, queue_written q e)"
    "queue_contents (queue_written q e) = queue_contents q @ [e]"
    using queue_written_contents [of q e] by (simp_all add: ring_put_eq)
  with 2 show ?case by (simp add: queue_written_def)
next
  case (3 q e)
  then show ?case by (simp add: ring_put_eq)
next
  case (4 q e c q')
  then show ?case by (simp add: ring_put_eq)
next
  case (5 q)
  then show ?case using queue_len_facts(1) [of q] by simp
next
  case (6 q e es w)
  have "ring_poll w q = ring_poll id q"
    using 6 ring_waits_iff [of q]
    by (auto simp: ring_poll_def evr_queue_take_def ring_waits_def Let_def)
  with 6 show ?case by (simp add: ring_poll_eq queue_read_contents)
next
  case (7 q w)
  then show ?case by (auto simp: ring_poll_eq queue_read_contents Let_def split: list.split)
next
  case (8 q)
  then show ?case by (rule ring_waits_iff)
next
  case (9 q w)
  then show ?case by (simp add: ring_poll_def evr_queue_take_def sync_ok_def queue_unlock_def)
qed

lemma evr_create_queue_fresh:
  assumes "evr_create_queue ss a b c d e mem k sz = Ret (Some q)" "\<And>n. length (mem n) = n" "ss + 2 ^ k * sz < 2 ^ 64"
  shows "queue_inv q" "queue_contents q = []" "queue_open q" "queue_cap q = 2 ^ k - 1"
    "q_item_size q = sz" "q_producing q"
  using assms
  by (auto simp: evr_create_queue_def queue_inv_def queue_contents_def queue_len_def Let_def split: if_splits)

section \<open>Properties\<close>

text \<open>
  C35: whatever puts and takes the threads interleave on a fresh queue, also while a take waits with
  the lock released, the entries that were accepted are the delivered ones followed by those still
  in the queue, in the order of acceptance, and at most \<open>2 ^ exp - 1\<close> entries are held. The sizes must be such that the
  queue with its items fits into the address space, which \<^verbatim>\<open>evr_create_queue\<close> does not check.
\<close>

theorem queue_delivers_in_order:
  assumes "evr_create_queue struct_size True True True True True mem k sz = Ret (Some q)"
    and "\<And>n. length (mem n) = n" and "struct_size + 2 ^ k * sz < 2 ^ 64" and "list_all (act_ok (\<lambda>e. length e = sz)) as"
    and "acts ring_put ring_poll ring_waits as (q, [], []) = (q', accepted, delivered)"
  shows "accepted = delivered @ queue_contents q' \<and> length (queue_contents q') \<le> 2 ^ k - 1"
proof -
  note fr = evr_create_queue_fresh [OF assms(1-3)]
  have "list_all (act_ok (queue_entry q)) as" using assms(4) fr(5) by simp
  from ring.acts_deliver_in_order(2) [OF assms(5) fr(1) this] ring.bounded [of q'] fr
  show ?thesis by simp
qed

theorem queue_delivers_in_order_witness:
  "\<exists>q' acc del. acts ring_put ring_poll ring_waits [Put [1], Take [], Take [Put [2], Put [3]]]
       (\<lparr>q_status = Evr_ok, q_writing_i = 0, q_reading_i = 0, q_items_len = 2 ^ 2, q_item_size = 1,
         q_items_buf = replicate (2 ^ 2 * 1) 0, q_producing = True\<rparr>, [], []) = (q', acc, del) \<and>
     acc = del @ queue_contents q' \<and> length (queue_contents q') \<le> 2 ^ 2 - 1"
proof -
  let ?q = "\<lparr>q_status = Evr_ok, q_writing_i = 0, q_reading_i = 0, q_items_len = 2 ^ 2, q_item_size = 1,
         q_items_buf = replicate (2 ^ 2 * 1) 0, q_producing = True\<rparr> :: evr_queue"
  obtain q' acc del where r: "acts ring_put ring_poll ring_waits
      [Put [1], Take [], Take [Put [2], Put [3]]] (?q, [], []) = (q', acc, del)"
    using prod_cases3 by blast
  have "evr_create_queue 200 True True True True True (\<lambda>n. replicate n 0) 2 1 = Ret (Some ?q)"
    by (simp add: evr_create_queue_def)
  from queue_delivers_in_order [OF this _ _ _ r] r show ?thesis by simp
qed

text \<open>
  A put into a full queue is refused with \<^verbatim>\<open>evr_temporary_occupied\<close> and breaks the queue for
  good: the entries are kept, but from then on every put is refused the same way and every take
  fails with \<^verbatim>\<open>evr_error\<close> although entries are there, both leaving the queue as it is.
\<close>

theorem queue_overflow_is_final:
  assumes "queue_inv q" "q_status q = Evr_ok" "length (queue_contents q) = q_items_len q - 1"
    "length e = q_item_size q"
  shows "\<exists>q'. evr_queue_put sync_ok q e = Some (Evr_temporary_occupied, (), q') \<and>
    queue_contents q' = queue_contents q \<and> q_status q' = Evr_temporary_occupied \<and>
    (\<forall>x. evr_queue_put sync_ok q' x = Some (Evr_temporary_occupied, (), q')) \<and>
    (\<forall>w. evr_queue_take sync_ok w q' = Some (Evr_error, None, q'))"
proof -
  have "Suc (q_writing_i q) mod q_items_len q = q_reading_i q"
    using queue_full_iff [OF assms(1)] assms(3) by simp
  with assms(2) show ?thesis
    by (simp add: evr_queue_put_def evr_queue_take_def queue_unlock_def sync_ok_def Let_def
        queue_index_step [OF assms(1)])
qed

theorem queue_overflow_is_final_witness:
  "\<exists>q'. evr_queue_put sync_ok \<lparr>q_status = Evr_ok, q_writing_i = 1, q_reading_i = 0, q_items_len = 2 ^ 1,
       q_item_size = 1, q_items_buf = [5, 6], q_producing = True\<rparr> [9] = Some (Evr_temporary_occupied, (), q') \<and>
    queue_contents q' = [[5]] \<and>
    (\<forall>w. evr_queue_take sync_ok w q' = Some (Evr_error, None, q'))"
proof -
  let ?q = "\<lparr>q_status = Evr_ok, q_writing_i = 1, q_reading_i = 0, q_items_len = 2 ^ 1,
       q_item_size = 1, q_items_buf = [5, 6], q_producing = True\<rparr> :: evr_queue"
  have inv: "queue_inv ?q" by (simp only: queue_inv_def evr_queue.simps) (auto intro: exI [of _ 1])
  have "queue_contents ?q = [[5]]" by (simp add: queue_contents_def queue_len_def queue_slot_def)
  moreover have "queue_len ?q = 1" by (simp add: queue_len_def)
  ultimately show ?thesis using queue_overflow_is_final [OF inv, of "[9]"] by auto
qed

end
