(* ===== verification/Handover.thy ===== *)
theory Handover
  imports Queue
begin

text \<open>
  \<^verbatim>\<open>src/handover.c\<close>: a slot for one value that producer threads fill and consumer threads empty,
  with one lock, a condition for each side and a state that ends the exchange. The operations come
  first, with the results of their thread calls as arguments; the step relation interleaves
  producers, consumers and the thread that ends the exchange, which writes the state and signals
  without holding the lock.
\<close>

section \<open>Operations\<close>

datatype handover_state = Handover_run | Handover_abort | Handover_finish

record evr_handover_ctx =
  ho_state :: handover_state
  ho_occupied :: bool

definition evr_init_handover_ctx :: "bool \<Rightarrow> bool \<Rightarrow> bool \<Rightarrow> evr_code \<times> evr_handover_ctx" where
  "evr_init_handover_ctx lock_init on_push_init on_empty_init =
    (if lock_init \<and> on_push_init \<and> on_empty_init then Evr_ok else Evr_error,
     \<lparr>ho_state = Handover_run, ho_occupied = False\<rparr>)"

text \<open>What one iteration of a waiting loop decides.\<close>

datatype decision = Give_up | Go_on | Wait_more

definition available_check :: "evr_handover_ctx \<Rightarrow> decision" where
  "available_check c =
    (if ho_state c = Handover_abort \<or> ho_state c = Handover_finish then Give_up
     else if \<not> ho_occupied c then Go_on
     else Wait_more)"

definition occupied_check :: "evr_handover_ctx \<Rightarrow> decision" where
  "occupied_check c =
    (if ho_state c = Handover_abort then Give_up
     else if ho_state c = Handover_finish \<and> \<not> ho_occupied c then Give_up
     else if ho_occupied c then Go_on
     else Wait_more)"

text \<open>
  \<open>seen i\<close> is the context when the loop has the lock for the time \<open>i\<close> and \<open>wait_ok i\<close> whether
  \<^verbatim>\<open>cnd_wait\<close> succeeds then. \<open>Ret Evr_ok\<close> returns with the lock held. Both loops are the same
  but for the check and the condition.
\<close>

partial_function (option) wait_loop ::
  "(evr_handover_ctx \<Rightarrow> decision) \<Rightarrow> (nat \<Rightarrow> evr_handover_ctx) \<Rightarrow> (nat \<Rightarrow> bool) \<Rightarrow> bool \<Rightarrow> nat \<Rightarrow> evr_code exec option" where
  "wait_loop check seen wait_ok unlock_ok i =
    (case check (seen i) of
       Give_up \<Rightarrow> Some (if unlock_ok then Ret Evr_end else Panic)
     | Go_on \<Rightarrow> Some (Ret Evr_ok)
     | Wait_more \<Rightarrow> if wait_ok i then wait_loop check seen wait_ok unlock_ok (Suc i) else Some Panic)"

definition evr_wait_for_handover_available ::
  "(nat \<Rightarrow> evr_handover_ctx) \<Rightarrow> bool \<Rightarrow> (nat \<Rightarrow> bool) \<Rightarrow> bool \<Rightarrow> evr_code exec option" where
  "evr_wait_for_handover_available seen lock_ok wait_ok unlock_ok =
    (if \<not> lock_ok then Some Panic else wait_loop available_check seen wait_ok unlock_ok 0)"

definition evr_wait_for_handover_occupied ::
  "(nat \<Rightarrow> evr_handover_ctx) \<Rightarrow> bool \<Rightarrow> (nat \<Rightarrow> bool) \<Rightarrow> bool \<Rightarrow> evr_code exec option" where
  "evr_wait_for_handover_occupied seen lock_ok wait_ok unlock_ok =
    (if \<not> lock_ok then Some Panic else wait_loop occupied_check seen wait_ok unlock_ok 0)"

definition evr_occupy_handover :: "sync \<Rightarrow> evr_handover_ctx \<Rightarrow> evr_code exec \<times> evr_handover_ctx" where
  "evr_occupy_handover s c =
    (if \<not> cnd_signal_ok s then Panic else if \<not> mtx_unlock_ok s then Panic else Ret Evr_ok, c\<lparr>ho_occupied := True\<rparr>)"

definition evr_empty_handover :: "sync \<Rightarrow> evr_handover_ctx \<Rightarrow> evr_code exec \<times> evr_handover_ctx" where
  "evr_empty_handover s c =
    (if \<not> cnd_signal_ok s then Panic else if \<not> mtx_unlock_ok s then Panic else Ret Evr_ok, c\<lparr>ho_occupied := False\<rparr>)"

text \<open>The signals of the loop in the order they are sent; \<open>signal_ok i\<close> is the result of signal \<open>i\<close>.\<close>

datatype handover_cond = On_push | On_empty

definition end_signals :: "nat \<Rightarrow> handover_cond list" where
  "end_signals handover_thrds = concat (replicate handover_thrds [On_push, On_empty])"

definition evr_end_handover ::
  "(nat \<Rightarrow> bool) \<Rightarrow> evr_handover_ctx \<Rightarrow> nat \<Rightarrow> handover_state \<Rightarrow> evr_code exec \<times> evr_handover_ctx" where
  "evr_end_handover signal_ok c handover_thrds end_state =
    (if list_all signal_ok [0..<length (end_signals handover_thrds)] then Ret Evr_ok else Panic,
     c\<lparr>ho_state := end_state\<rparr>)"

definition evr_finish_handover :: "(nat \<Rightarrow> bool) \<Rightarrow> evr_handover_ctx \<Rightarrow> nat \<Rightarrow> evr_code exec \<times> evr_handover_ctx" where
  "evr_finish_handover signal_ok c handover_thrds = evr_end_handover signal_ok c handover_thrds Handover_finish"

definition evr_abort_handover :: "(nat \<Rightarrow> bool) \<Rightarrow> evr_handover_ctx \<Rightarrow> nat \<Rightarrow> evr_code exec \<times> evr_handover_ctx" where
  "evr_abort_handover signal_ok c handover_thrds = evr_end_handover signal_ok c handover_thrds Handover_abort"

section \<open>Threads interleaved\<close>

text \<open>
  Where a thread is: outside of the handover, at \<^verbatim>\<open>mtx_lock\<close>, inside the lock before the check,
  inside the lock before \<^verbatim>\<open>cnd_wait\<close>, in it, inside the lock with the result \<^verbatim>\<open>evr_ok\<close>, and
  after the result \<^verbatim>\<open>evr_end\<close>.
\<close>

datatype thread_pc = Outside | Locking | Checking | To_wait | Waiting | Holding | Left

fun inside_lock :: "thread_pc \<Rightarrow> bool" where
  "inside_lock Checking = True"
| "inside_lock To_wait = True"
| "inside_lock Holding = True"
| "inside_lock _ = False"

text \<open>The last two fields record what the producers put and the consumers got.\<close>

record 'a handover =
  hs_ctx :: evr_handover_ctx
  hs_lock :: "nat option"
  hs_slot :: 'a
  hs_pc :: "nat \<Rightarrow> thread_pc"
  hs_signals :: "handover_cond list"
  hs_pushed :: "'a list"
  hs_popped :: "'a list"

definition after_check :: "decision \<Rightarrow> nat \<Rightarrow> 'a handover \<Rightarrow> 'a handover" where
  "after_check d t s = (case d of
      Give_up \<Rightarrow> s\<lparr>hs_lock := None, hs_pc := (hs_pc s)(t := Left)\<rparr>
    | Go_on \<Rightarrow> s\<lparr>hs_pc := (hs_pc s)(t := Holding)\<rparr>
    | Wait_more \<Rightarrow> s\<lparr>hs_pc := (hs_pc s)(t := To_wait)\<rparr>)"

text \<open>A signal wakes one of the threads \<open>W\<close> that wait, if there is one.\<close>

definition signalled :: "nat set \<Rightarrow> (nat \<Rightarrow> thread_pc) \<Rightarrow> (nat \<Rightarrow> thread_pc) \<Rightarrow> bool" where
  "signalled W pc pc' =
    (if \<exists>t\<in>W. pc t = Waiting then \<exists>t\<in>W. pc t = Waiting \<and> pc' = pc(t := Locking) else pc' = pc)"

datatype actor = Thread nat | Ender | Spurious nat

inductive handover_step :: "nat set \<Rightarrow> nat set \<Rightarrow> 'a handover \<Rightarrow> actor \<Rightarrow> 'a handover \<Rightarrow> bool" for P C where
  enter: "t \<in> P \<union> C \<Longrightarrow> hs_pc s t = Outside \<Longrightarrow> handover_step P C s (Thread t) (s\<lparr>hs_pc := (hs_pc s)(t := Locking)\<rparr>)"
| lock: "t \<in> P \<union> C \<Longrightarrow> hs_pc s t = Locking \<Longrightarrow> hs_lock s = None \<Longrightarrow>
    handover_step P C s (Thread t) (s\<lparr>hs_lock := Some t, hs_pc := (hs_pc s)(t := Checking)\<rparr>)"
| check_producer: "t \<in> P \<Longrightarrow> hs_pc s t = Checking \<Longrightarrow>
    handover_step P C s (Thread t) (after_check (available_check (hs_ctx s)) t s)"
| check_consumer: "t \<in> C \<Longrightarrow> hs_pc s t = Checking \<Longrightarrow>
    handover_step P C s (Thread t) (after_check (occupied_check (hs_ctx s)) t s)"
| wait: "t \<in> P \<union> C \<Longrightarrow> hs_pc s t = To_wait \<Longrightarrow>
    handover_step P C s (Thread t) (s\<lparr>hs_lock := None, hs_pc := (hs_pc s)(t := Waiting)\<rparr>)"
| occupy: "t \<in> P \<Longrightarrow> hs_pc s t = Holding \<Longrightarrow> signalled C ((hs_pc s)(t := Outside)) pc' \<Longrightarrow>
    handover_step P C s (Thread t) (s\<lparr>hs_slot := x, hs_ctx := snd (evr_occupy_handover sync_ok (hs_ctx s)), hs_lock := None,
      hs_pc := pc', hs_pushed := hs_pushed s @ [x]\<rparr>)"
| empty: "t \<in> C \<Longrightarrow> hs_pc s t = Holding \<Longrightarrow> signalled P ((hs_pc s)(t := Outside)) pc' \<Longrightarrow>
    handover_step P C s (Thread t) (s\<lparr>hs_ctx := snd (evr_empty_handover sync_ok (hs_ctx s)), hs_lock := None,
      hs_pc := pc', hs_popped := hs_popped s @ [hs_slot s]\<rparr>)"
| end_state: "hs_signals s = [] \<Longrightarrow> e \<noteq> Handover_run \<Longrightarrow>
    handover_step P C s Ender (s\<lparr>hs_ctx := snd (evr_end_handover (\<lambda>_. True) (hs_ctx s) n e), hs_signals := end_signals n\<rparr>)"
| end_signal: "hs_signals s = c # cs \<Longrightarrow> signalled (case c of On_push \<Rightarrow> C | On_empty \<Rightarrow> P) (hs_pc s) pc' \<Longrightarrow>
    handover_step P C s Ender (s\<lparr>hs_pc := pc', hs_signals := cs\<rparr>)"
| spurious: "t \<in> P \<union> C \<Longrightarrow> hs_pc s t = Waiting \<Longrightarrow>
    handover_step P C s (Spurious t) (s\<lparr>hs_pc := (hs_pc s)(t := Locking)\<rparr>)"

inductive handover_run :: "nat set \<Rightarrow> nat set \<Rightarrow> 'a handover \<Rightarrow> 'a handover \<Rightarrow> bool" for P C where
  here: "handover_run P C s s"
| further: "handover_run P C s s1 \<Longrightarrow> handover_step P C s1 l s2 \<Longrightarrow> handover_run P C s s2"

definition fresh_handover :: "'a handover \<Rightarrow> bool" where
  "fresh_handover s = (hs_ctx s = snd (evr_init_handover_ctx True True True) \<and> hs_lock s = None \<and> hs_pc s = (\<lambda>_. Outside) \<and>
     hs_signals s = [] \<and> hs_pushed s = [] \<and> hs_popped s = [])"

section \<open>Invariants\<close>

definition slot_content :: "'a handover \<Rightarrow> 'a list" where
  "slot_content s = (if ho_occupied (hs_ctx s) then [hs_slot s] else [])"

definition locks :: "nat option \<Rightarrow> (nat \<Rightarrow> thread_pc) \<Rightarrow> bool" where
  "locks lk pc = (\<forall>t. inside_lock (pc t) = (lk = Some t))"

definition lock_inv :: "'a handover \<Rightarrow> bool" where
  "lock_inv s = locks (hs_lock s) (hs_pc s)"

definition role_inv :: "nat set \<Rightarrow> nat set \<Rightarrow> 'a handover \<Rightarrow> bool" where
  "role_inv P C s =
    ((\<forall>t\<in>P. (hs_pc s t = Holding \<longrightarrow> \<not> ho_occupied (hs_ctx s)) \<and> (hs_pc s t = To_wait \<longrightarrow> ho_occupied (hs_ctx s))) \<and>
     (\<forall>t\<in>C. (hs_pc s t = Holding \<longrightarrow> ho_occupied (hs_ctx s)) \<and> (hs_pc s t = To_wait \<longrightarrow> \<not> ho_occupied (hs_ctx s))) \<and>
     (\<forall>t. t \<notin> P \<union> C \<longrightarrow> hs_pc s t = Outside))"

definition fifo_inv :: "'a handover \<Rightarrow> bool" where
  "fifo_inv s = (hs_pushed s = hs_popped s @ slot_content s)"

text \<open>While the exchange runs, the side whose turn it is does not sleep as a whole.\<close>

definition awake_inv :: "nat set \<Rightarrow> nat set \<Rightarrow> 'a handover \<Rightarrow> bool" where
  "awake_inv P C s = (ho_state (hs_ctx s) = Handover_run \<longrightarrow>
     (\<forall>t. hs_pc s t \<noteq> Left) \<and>
     (if ho_occupied (hs_ctx s) then \<exists>t\<in>C. hs_pc s t \<noteq> Waiting else \<exists>t\<in>P. hs_pc s t \<noteq> Waiting))"

definition handover_inv :: "nat set \<Rightarrow> nat set \<Rightarrow> 'a handover \<Rightarrow> bool" where
  "handover_inv P C s = (lock_inv s \<and> role_inv P C s \<and> fifo_inv s)"

lemma signalled_cases:
  assumes "signalled W pc pc'"
  obtains (woken) t where "t \<in> W" "pc t = Waiting" "pc' = pc(t := Locking)" | (nobody) "\<forall>t\<in>W. pc t \<noteq> Waiting" "pc' = pc"
  using assms by (auto simp: signalled_def split: if_splits)

lemma signalled_inside: "signalled W pc pc' \<Longrightarrow> inside_lock (pc' t) = inside_lock (pc t)"
  by (erule signalled_cases) auto

lemma signalled_at:
  "signalled W pc pc' \<Longrightarrow> (pc' t = Holding) = (pc t = Holding) \<and> (pc' t = To_wait) = (pc t = To_wait) \<and>
     (pc' t = Left) = (pc t = Left)"
  by (erule signalled_cases) auto

lemma signalled_awake: "signalled W pc pc' \<Longrightarrow> W \<noteq> {} \<Longrightarrow> \<exists>t\<in>W. pc' t \<noteq> Waiting"
  by (erule signalled_cases) auto

lemma signalled_keeps_awake: "signalled W pc pc' \<Longrightarrow> pc' t = Waiting \<Longrightarrow> pc t = Waiting"
  by (erule signalled_cases) (auto split: if_splits)

lemma signalled_outside: "signalled W pc pc' \<Longrightarrow> t \<notin> W \<Longrightarrow> pc' t = pc t"
  by (erule signalled_cases) auto

lemmas handover_ops = evr_occupy_handover_def evr_empty_handover_def evr_end_handover_def

lemma locks_stay: "locks lk pc \<Longrightarrow> inside_lock p = inside_lock (pc t) \<Longrightarrow> locks lk (pc(t := p))"
  by (simp add: locks_def)

lemma locks_release: "locks lk pc \<Longrightarrow> inside_lock (pc t) \<Longrightarrow> \<not> inside_lock p \<Longrightarrow> locks None (pc(t := p))"
  unfolding locks_def by (metis fun_upd_apply option.distinct(1) option.inject)

lemma locks_acquire: "locks None pc \<Longrightarrow> inside_lock p \<Longrightarrow> locks (Some t) (pc(t := p))"
  by (simp add: locks_def)

lemma locks_signalled: "signalled W pc pc' \<Longrightarrow> locks lk pc \<Longrightarrow> locks lk pc'"
  by (simp add: locks_def signalled_inside)

lemma step_lock_inv: "handover_step P C s l s' \<Longrightarrow> lock_inv s \<Longrightarrow> lock_inv s'"
proof (induction rule: handover_step.induct)
  case (occupy t s pc' x)
  then have "locks None ((hs_pc s)(t := Outside))" by (auto simp: lock_inv_def intro: locks_release)
  with occupy show ?case by (simp add: lock_inv_def locks_signalled)
next
  case (empty t s pc')
  then have "locks None ((hs_pc s)(t := Outside))" by (auto simp: lock_inv_def intro: locks_release)
  with empty show ?case by (simp add: lock_inv_def locks_signalled)
qed (auto simp: lock_inv_def after_check_def split: decision.splits
      intro: locks_stay locks_release locks_acquire locks_signalled)

lemma lock_inv_exclusive: "lock_inv s \<Longrightarrow> inside_lock (hs_pc s t) \<Longrightarrow> inside_lock (hs_pc s u) \<Longrightarrow> u = t"
  by (metis lock_inv_def locks_def option.inject)

text \<open>When a thread that holds the slot moves on, no other thread is inside the lock.\<close>

lemma others_outside:
  assumes "lock_inv s" "inside_lock (hs_pc s t)" "signalled W ((hs_pc s)(t := Outside)) pc'"
  shows "\<not> inside_lock (pc' u)"
  using lock_inv_exclusive [OF assms(1,2), of u] by (auto simp: signalled_inside [OF assms(3)])

lemma not_inside: "\<not> inside_lock p \<Longrightarrow> p \<noteq> Holding \<and> p \<noteq> To_wait"
  by auto

lemma step_role_inv:
  "handover_step P C s l s' \<Longrightarrow> P \<inter> C = {} \<Longrightarrow> lock_inv s \<Longrightarrow> role_inv P C s \<Longrightarrow> role_inv P C s'"
proof (induction rule: handover_step.induct)
  case (occupy t s pc' x)
  then have "\<forall>u. pc' u \<noteq> Holding \<and> pc' u \<noteq> To_wait" using others_outside not_inside by (metis inside_lock.simps(3))
  moreover have "u \<notin> P \<union> C \<Longrightarrow> pc' u = Outside" for u
    using occupy signalled_outside [OF occupy(3), of u] by (auto simp: role_inv_def)
  ultimately show ?case by (simp add: role_inv_def)
next
  case (empty t s pc')
  then have "\<forall>u. pc' u \<noteq> Holding \<and> pc' u \<noteq> To_wait" using others_outside not_inside by (metis inside_lock.simps(3))
  moreover have "u \<notin> P \<union> C \<Longrightarrow> pc' u = Outside" for u
    using empty signalled_outside [OF empty(3), of u] by (auto simp: role_inv_def)
  ultimately show ?case by (simp add: role_inv_def)
next
  case (end_signal s c cs pc')
  then show ?case using signalled_at [OF end_signal(2)] signalled_outside [OF end_signal(2)]
    by (auto simp: role_inv_def split: handover_cond.splits)
next
  case (check_producer t s)
  then show ?case by (auto simp: role_inv_def after_check_def available_check_def)
next
  case (check_consumer t s)
  then show ?case by (auto simp: role_inv_def after_check_def occupied_check_def)
qed (auto simp: role_inv_def handover_ops)

lemma step_fifo_inv:
  "handover_step P C s l s' \<Longrightarrow> role_inv P C s \<Longrightarrow> fifo_inv s \<Longrightarrow> fifo_inv s'"
  by (induction rule: handover_step.induct)
    (auto simp: fifo_inv_def slot_content_def role_inv_def after_check_def handover_ops split: decision.splits)

lemma step_awake_inv:
  "handover_step P C s l s' \<Longrightarrow> P \<noteq> {} \<Longrightarrow> C \<noteq> {} \<Longrightarrow> P \<inter> C = {} \<Longrightarrow> role_inv P C s \<Longrightarrow> awake_inv P C s \<Longrightarrow> awake_inv P C s'"
proof (induction rule: handover_step.induct)
  case (occupy t s pc' x)
  then show ?case using signalled_awake [OF occupy(3)] signalled_at [OF occupy(3)]
    by (auto simp: awake_inv_def handover_ops)
next
  case (empty t s pc')
  then show ?case using signalled_awake [OF empty(3)] signalled_at [OF empty(3)]
    by (auto simp: awake_inv_def handover_ops)
next
  case (end_signal s c cs pc')
  then show ?case using signalled_keeps_awake [OF end_signal(2)] signalled_at [OF end_signal(2)]
    by (auto simp: awake_inv_def split: if_splits)
next
  case (check_producer t s)
  then show ?case by (auto simp: awake_inv_def after_check_def available_check_def)
next
  case (check_consumer t s)
  then show ?case by (auto simp: awake_inv_def after_check_def occupied_check_def)
next
  case (wait t s)
  let ?pc = "(hs_pc s)(t := Waiting)"
  from wait(1) show ?case
  proof
    assume t: "t \<in> P"
    then have "ho_occupied (hs_ctx s)" using wait(2) \<open>role_inv P C s\<close> by (simp add: role_inv_def)
    moreover have "?pc u = hs_pc s u" if "u \<in> C" for u using t that \<open>P \<inter> C = {}\<close> by auto
    ultimately show ?thesis using \<open>awake_inv P C s\<close> by (auto simp: awake_inv_def)
  next
    assume t: "t \<in> C"
    then have "\<not> ho_occupied (hs_ctx s)" using wait(2) \<open>role_inv P C s\<close> by (simp add: role_inv_def)
    moreover have "?pc u = hs_pc s u" if "u \<in> P" for u using t that \<open>P \<inter> C = {}\<close> by auto
    ultimately show ?thesis using \<open>awake_inv P C s\<close> by (auto simp: awake_inv_def)
  qed
qed (auto simp: awake_inv_def handover_ops split: if_splits)

lemma step_handover_inv:
  "handover_step P C s l s' \<Longrightarrow> P \<inter> C = {} \<Longrightarrow> handover_inv P C s \<Longrightarrow> handover_inv P C s'"
  by (auto simp: handover_inv_def intro: step_lock_inv step_role_inv step_fifo_inv)

lemma fresh_handover_inv:
  "fresh_handover s \<Longrightarrow> handover_inv P C s \<and> (P \<noteq> {} \<longrightarrow> awake_inv P C s)"
  by (auto simp: fresh_handover_def handover_inv_def lock_inv_def locks_def role_inv_def fifo_inv_def slot_content_def
      awake_inv_def evr_init_handover_ctx_def)

lemma run_handover_inv:
  "handover_run P C s s' \<Longrightarrow> P \<inter> C = {} \<Longrightarrow> handover_inv P C s \<Longrightarrow> handover_inv P C s'"
  by (induction rule: handover_run.induct) (auto intro: step_handover_inv)

lemma run_awake_inv:
  "handover_run P C s s' \<Longrightarrow> P \<inter> C = {} \<Longrightarrow> P \<noteq> {} \<Longrightarrow> C \<noteq> {} \<Longrightarrow> handover_inv P C s \<Longrightarrow> awake_inv P C s \<Longrightarrow> awake_inv P C s'"
proof (induction rule: handover_run.induct)
  case (further s s1 l s2)
  from run_handover_inv [OF further(1)] further have "role_inv P C s1" by (simp add: handover_inv_def)
  with further step_awake_inv [OF further(2)] show ?case by simp
qed simp

section \<open>Progress\<close>

lemma signalled_ex: "\<exists>pc'. signalled W pc pc'"
  unfolding signalled_def by metis

lemma inside_moves:
  assumes "t \<in> P \<union> C" "inside_lock (hs_pc s t)"
  shows "\<exists>s'. handover_step P C s (Thread t) s'"
proof -
  from assms(2) consider "hs_pc s t = Checking" | "hs_pc s t = To_wait" | "hs_pc s t = Holding" by (cases "hs_pc s t") auto
  then show ?thesis
  proof cases
    case 1
    with assms(1) show ?thesis by (blast intro: check_producer check_consumer)
  next
    case 2
    with assms(1) show ?thesis by (blast intro: wait)
  next
    case 3
    with assms(1) signalled_ex show ?thesis by (metis UnE occupy empty)
  qed
qed

lemma awake_moves:
  assumes "handover_inv P C s" "t \<in> P \<union> C" "hs_pc s t \<noteq> Waiting" "hs_pc s t \<noteq> Left"
  shows "\<exists>u\<in>P \<union> C. \<exists>s'. handover_step P C s (Thread u) s'"
proof (cases "hs_pc s t = Locking \<and> hs_lock s \<noteq> None")
  case True
  then obtain u where "hs_lock s = Some u" by auto
  then have u: "inside_lock (hs_pc s u)" using assms(1) by (simp add: handover_inv_def lock_inv_def locks_def)
  then have "u \<in> P \<union> C" using assms(1) by (metis handover_inv_def role_inv_def inside_lock.simps(4))
  with inside_moves u show ?thesis by blast
next
  case False
  have "\<exists>s'. handover_step P C s (Thread t) s'"
  proof (cases "inside_lock (hs_pc s t)")
    case True
    then show ?thesis by (rule inside_moves [OF assms(2)])
  next
    case out: False
    with False assms(3,4) have "hs_pc s t = Outside \<or> hs_pc s t = Locking \<and> hs_lock s = None" by (cases "hs_pc s t") auto
    with assms(2) show ?thesis by (blast intro: enter lock)
  qed
  with assms(2) show ?thesis by blast
qed

section \<open>Properties\<close>

definition demo_pcs :: "thread_pc \<Rightarrow> thread_pc \<Rightarrow> nat \<Rightarrow> thread_pc" where
  "demo_pcs a b t = (if t = 2 then a else if t = 3 then b else Outside)"

lemma demo_pcs_upd [simp]:
  "(demo_pcs a b)(2 := c) = demo_pcs c b" "(demo_pcs a b)(3 := c) = demo_pcs a c"
  "demo_pcs a b 2 = a" "demo_pcs a b 3 = b"
  by (auto simp: demo_pcs_def fun_eq_iff)

text \<open>Producer 2 and consumer 3 with an empty slot.\<close>

definition demo_handover :: "handover_state \<Rightarrow> nat option \<Rightarrow> thread_pc \<Rightarrow> thread_pc \<Rightarrow> handover_cond list \<Rightarrow> nat handover" where
  "demo_handover e lk a b sg = \<lparr>hs_ctx = \<lparr>ho_state = e, ho_occupied = False\<rparr>, hs_lock = lk, hs_slot = 0,
     hs_pc = demo_pcs a b, hs_signals = sg, hs_pushed = [], hs_popped = []\<rparr>"

abbreviation "demo_start \<equiv> demo_handover Handover_run None Outside Outside []"
abbreviation "demo_entered \<equiv> demo_handover Handover_run None Outside Locking []"

lemma demo_handover_fresh: "fresh_handover demo_start"
  by (auto simp: fresh_handover_def demo_handover_def evr_init_handover_ctx_def demo_pcs_def)

lemma run_step: "handover_run P C s s1 \<Longrightarrow> handover_step P C s1 l s2' \<Longrightarrow> s2' = s2 \<Longrightarrow> handover_run P C s s2"
  by (auto intro: further)

lemma demo_handover_entered: "handover_run {2} {3} demo_start demo_entered"
  by (rule run_step [OF here enter [of 3]]) (simp_all add: demo_handover_def)

text \<open>
  C23: the handover passes each value exactly once and in order. Whatever producers, consumers, the
  ending thread and spurious wake-ups interleave, also after an abort, the values put are the
  values taken followed by the one in the slot, and at most one thread is inside the lock: a producer
  that may write the slot finds it free and a consumer that may read it finds it occupied.
\<close>

theorem handover_exactly_once:
  assumes "fresh_handover s" "P \<inter> C = {}" "handover_run P C s s'"
  shows "hs_pushed s' = hs_popped s' @ (if ho_occupied (hs_ctx s') then [hs_slot s'] else []) \<and>
    (\<forall>t u. inside_lock (hs_pc s' t) \<and> inside_lock (hs_pc s' u) \<longrightarrow> t = u) \<and>
    (\<forall>t\<in>P. hs_pc s' t = Holding \<longrightarrow> \<not> ho_occupied (hs_ctx s')) \<and>
    (\<forall>t\<in>C. hs_pc s' t = Holding \<longrightarrow> ho_occupied (hs_ctx s'))"
proof -
  from run_handover_inv [OF assms(3,2)] fresh_handover_inv [OF assms(1)] have inv: "handover_inv P C s'" by blast
  then have "lock_inv s'" by (simp add: handover_inv_def)
  with lock_inv_exclusive have "\<forall>t u. inside_lock (hs_pc s' t) \<and> inside_lock (hs_pc s' u) \<longrightarrow> t = u" by metis
  with inv show ?thesis by (simp add: handover_inv_def fifo_inv_def slot_content_def role_inv_def)
qed

theorem handover_exactly_once_witness:
  "handover_run {2} {3} demo_start demo_entered \<and> hs_pushed demo_entered = hs_popped demo_entered @
    (if ho_occupied (hs_ctx demo_entered) then [hs_slot demo_entered] else [])"
  using handover_exactly_once [OF demo_handover_fresh _ demo_handover_entered] demo_handover_entered by simp

text \<open>
  C24: no deadlock while the exchange runs. With at least one producer and one consumer, as long as
  nobody has ended the exchange, some thread can take a step without a spurious wake-up: the signals
  of \<^verbatim>\<open>evr_occupy_handover\<close> and \<^verbatim>\<open>evr_empty_handover\<close> are never lost.
\<close>

theorem handover_no_deadlock:
  assumes "fresh_handover s" "P \<inter> C = {}" "P \<noteq> {}" "C \<noteq> {}" "handover_run P C s s'"
    "ho_state (hs_ctx s') = Handover_run"
  shows "\<exists>t\<in>P \<union> C. \<exists>s''. handover_step P C s' (Thread t) s''"
proof -
  from fresh_handover_inv [OF assms(1)] assms(3) have f: "handover_inv P C s" "awake_inv P C s" by blast+
  note inv = run_handover_inv [OF assms(5,2) f(1)]
  from run_awake_inv [OF assms(5,2,3,4) f] assms(6) obtain t where
    "t \<in> P \<union> C" "hs_pc s' t \<noteq> Waiting" "hs_pc s' t \<noteq> Left" by (auto simp: awake_inv_def split: if_splits)
  from awake_moves [OF inv this] show ?thesis .
qed

theorem handover_no_deadlock_witness:
  "\<exists>t\<in>{2} \<union> {3}. \<exists>s''. handover_step {2} {3} demo_entered (Thread t) s''"
proof -
  have "ho_state (hs_ctx demo_entered) = Handover_run" by (simp add: demo_handover_def)
  from handover_no_deadlock [OF demo_handover_fresh _ _ _ demo_handover_entered this] show ?thesis by simp
qed

lemma demo_lost_wakeup: "handover_run {2} {3} demo_start (demo_handover Handover_finish None Left Waiting [])"
proof -
  note d = demo_handover_def after_check_def occupied_check_def available_check_def handover_ops end_signals_def signalled_def
  let ?run = "handover_run {2} {3} demo_start"
  have r: "?run (demo_handover Handover_run (Some 3) Outside Checking [])"
    by (rule run_step [OF demo_handover_entered lock [of 3]]) (simp_all add: d)
  have r: "?run (demo_handover Handover_run (Some 3) Outside To_wait [])"
    by (rule run_step [OF r check_consumer [of 3]]) (simp_all add: d)
  have r: "?run (demo_handover Handover_finish (Some 3) Outside To_wait [On_push, On_empty, On_push, On_empty])"
    by (rule run_step [OF r end_state [of _ Handover_finish _ _ 2]]) (simp_all add: d numeral_2_eq_2)
  have r: "?run (demo_handover Handover_finish (Some 3) Outside To_wait [On_empty, On_push, On_empty])"
    by (rule run_step [OF r end_signal]) (auto simp: d)
  have r: "?run (demo_handover Handover_finish (Some 3) Outside To_wait [On_push, On_empty])"
    by (rule run_step [OF r end_signal]) (auto simp: d)
  have r: "?run (demo_handover Handover_finish (Some 3) Outside To_wait [On_empty])"
    by (rule run_step [OF r end_signal]) (auto simp: d)
  have r: "?run (demo_handover Handover_finish (Some 3) Outside To_wait [])"
    by (rule run_step [OF r end_signal]) (auto simp: d)
  have r: "?run (demo_handover Handover_finish None Outside Waiting [])"
    by (rule run_step [OF r wait [of 3]]) (simp_all add: d)
  have r: "?run (demo_handover Handover_finish None Locking Waiting [])"
    by (rule run_step [OF r enter [of 2]]) (simp_all add: d)
  have r: "?run (demo_handover Handover_finish (Some 2) Checking Waiting [])"
    by (rule run_step [OF r lock [of 2]]) (simp_all add: d)
  show ?thesis by (rule run_step [OF r check_producer [of 2]]) (simp_all add: d)
qed

inductive_cases handover_thread_step: "handover_step P C s (Thread t) s'"

text \<open>
  Ending the exchange can lose its wake-up. \<^verbatim>\<open>evr_end_handover\<close> writes the state and signals
  without the lock; when a consumer has found the slot empty and is about to wait, it misses both. From
  a fresh handover with one producer and one consumer a state is reachable in which the exchange was
  finished for two threads and all signals are sent, the producer has left, and the consumer waits
  although its check would end it; only a spurious wake-up or another end moves anything again.
\<close>

theorem handover_end_loses_wakeup:
  "\<exists>s. handover_run {2} {3} demo_start s \<and> ho_state (hs_ctx s) = Handover_finish \<and> hs_signals s = [] \<and>
    hs_pc s 3 = Waiting \<and> occupied_check (hs_ctx s) = Give_up \<and> hs_pc s 2 = Left \<and>
    (\<forall>t s'. \<not> handover_step {2} {3} s (Thread t) s')"
  by (rule exI [of _ "demo_handover Handover_finish None Left Waiting []"], insert demo_lost_wakeup)
    (auto simp: demo_handover_def occupied_check_def elim!: handover_thread_step)

end
