(* ===== verification/Fs_Inode.thy ===== *)
theory Fs_Inode
  imports Keys Dyn_Mem
begin

text \<open>
  \<^verbatim>\<open>src/fs-inode.c\<close>: the inodes of the virtual file system. They are an array in which directories
  hold the indices of their children; index 1 is the root and an inode of the type \<open>Type_unlinked\<close> is free. The
  two members of the union \<^verbatim>\<open>evr_inode_data\<close> are two fields here: the code accesses the member of the
  type, and what does otherwise is \<open>Undef\<close>, as is reading a \<open>file\<close> that nobody has set (\<open>None\<close>). Functions
  that may recurse forever give \<open>None\<close> then.
\<close>

section \<open>Definitions\<close>

definition FUSE_ROOT_ID :: nat where "FUSE_ROOT_ID = 1"

datatype evr_inode_type = Type_unlinked | Type_dir | Type_file | Type_status_online

record evr_inode_file =
  if_file_size :: nat
  if_file_ref :: evr_claim_ref
  if_seed :: evr_claim_ref
  if_dependent_seeds :: "evr_claim_ref list"

record evr_inode =
  ino_parent :: nat
  ino_name :: "string option"
  ino_created :: evr_time
  ino_last_modified :: evr_time
  ino_type :: evr_inode_type
  ino_children :: "nat list"
  ino_file :: "evr_inode_file option"

type_synonym inodes = "evr_inode list"

text \<open>\<open>junk\<close> is the content of fresh memory.\<close>

definition evr_create_inodes :: "(nat \<Rightarrow> evr_inode) \<Rightarrow> bool \<Rightarrow> evr_time \<Rightarrow> nat \<Rightarrow> inodes option exec" where
  "evr_create_inodes junk malloc now inodes_len =
    (if inodes_len \<le> FUSE_ROOT_ID then Panic
     else if \<not> malloc then Ret None
     else Ret (Some (map (\<lambda>n.
        if n < FUSE_ROOT_ID then junk n
        else if n = FUSE_ROOT_ID then
          (junk n)\<lparr>ino_parent := FUSE_ROOT_ID, ino_name := None, ino_created := now, ino_last_modified := now,
            ino_type := Type_dir, ino_children := []\<rparr>
        else (junk n)\<lparr>ino_type := Type_unlinked\<rparr>) [0..<inodes_len])))"

definition evr_init_inode_set :: "(nat \<Rightarrow> evr_inode) \<Rightarrow> bool \<Rightarrow> evr_time \<Rightarrow> inodes option exec" where
  "evr_init_inode_set junk malloc now = evr_create_inodes junk malloc now 1024"

text \<open>The recursion of \<^verbatim>\<open>evr_free_inode_and_children\<close> with its loop over the children: frees the listed inodes one after the other.\<close>

definition unlink_inode :: "evr_inode \<Rightarrow> evr_inode" where
  "unlink_inode nd = nd\<lparr>ino_name := None, ino_children := [], ino_file := None, ino_type := Type_unlinked\<rparr>"

partial_function (option) free_inodes :: "inodes \<Rightarrow> nat list \<Rightarrow> inodes exec option" where
  "free_inodes ino ns =
    (case ns of
       [] \<Rightarrow> Some (Ret ino)
     | n # ns' \<Rightarrow>
        if n \<ge> length ino then Some Undef
        else (case ino_type (ino ! n) of
            Type_unlinked \<Rightarrow> Some Panic
          | Type_dir \<Rightarrow> Option.bind (free_inodes ino (ino_children (ino ! n))) (\<lambda>r. case r of
                Ret ino1 \<Rightarrow> free_inodes (ino1[n := unlink_inode (ino1 ! n)]) ns'
              | Panic \<Rightarrow> Some Panic
              | Undef \<Rightarrow> Some Undef)
          | Type_file \<Rightarrow> if ino_file (ino ! n) = None then Some Undef
                   else free_inodes (ino[n := unlink_inode (ino ! n)]) ns'
          | Type_status_online \<Rightarrow> free_inodes (ino[n := unlink_inode (ino ! n)]) ns'))"

definition evr_free_inode_and_children :: "inodes \<Rightarrow> nat \<Rightarrow> inodes exec option" where
  "evr_free_inode_and_children ino n = free_inodes ino [n]"

definition evr_free_inodes :: "inodes option \<Rightarrow> unit exec option" where
  "evr_free_inodes inos = (case inos of
      None \<Rightarrow> Some (Ret ())
    | Some ino \<Rightarrow> map_option (\<lambda>r. case r of Ret _ \<Rightarrow> Ret () | Panic \<Rightarrow> Panic | Undef \<Rightarrow> Undef)
        (evr_free_inode_and_children ino FUSE_ROOT_ID))"

text \<open>The loop that overwrites \<open>n\<close> by the last child, and the shortened array.\<close>

definition remove_child :: "nat \<Rightarrow> nat list \<Rightarrow> nat list" where
  "remove_child n cs = map (\<lambda>c. if c = n then last cs else c) (butlast cs)"

text \<open>\<open>shrink\<close> tells whether the array of children can be made shorter.\<close>

partial_function (option) evr_inode_remove :: "bool \<Rightarrow> inodes \<Rightarrow> nat \<Rightarrow> inodes exec option" where
  "evr_inode_remove shrink ino n =
    (if n = FUSE_ROOT_ID then Some (Ret ino)
     else Option.bind (evr_free_inode_and_children ino n) (\<lambda>r. case r of
         Panic \<Rightarrow> Some Panic
       | Undef \<Rightarrow> Some Undef
       | Ret ino1 \<Rightarrow>
          if ino_parent (ino1 ! n) \<ge> length ino1 \<or> ino_type (ino1 ! ino_parent (ino1 ! n)) \<noteq> Type_dir \<or>
             ino_children (ino1 ! ino_parent (ino1 ! n)) = [] then Some Undef
          else if length (ino_children (ino1 ! ino_parent (ino1 ! n))) \<le> 1 then
            evr_inode_remove shrink
              (ino1[ino_parent (ino1 ! n) := (ino1 ! ino_parent (ino1 ! n))\<lparr>ino_children := []\<rparr>]) (ino_parent (ino1 ! n))
          else if \<not> shrink then Some Panic
          else Some (Ret (ino1[ino_parent (ino1 ! n) := (ino1 ! ino_parent (ino1 ! n))
            \<lparr>ino_children := remove_child n (ino_children (ino1 ! ino_parent (ino1 ! n)))\<rparr>]))))"

primrec remove_by_seed_loop :: "bool \<Rightarrow> evr_claim_ref \<Rightarrow> nat list \<Rightarrow> inodes \<Rightarrow> inodes exec option" where
  "remove_by_seed_loop shrink seed [] ino = Some (Ret ino)"
| "remove_by_seed_loop shrink seed (n # ns) ino =
    (if ino_type (ino ! n) \<noteq> Type_file then remove_by_seed_loop shrink seed ns ino
     else case ino_file (ino ! n) of
         None \<Rightarrow> Some Undef
       | Some fl \<Rightarrow>
          if take evr_claim_ref_size seed \<noteq> take evr_claim_ref_size (if_seed fl) then remove_by_seed_loop shrink seed ns ino
          else Option.bind (evr_inode_remove shrink ino n) (\<lambda>r. case r of
              Ret ino1 \<Rightarrow> remove_by_seed_loop shrink seed ns ino1
            | Panic \<Rightarrow> Some Panic
            | Undef \<Rightarrow> Some Undef))"

definition evr_inode_remove_by_seed :: "bool \<Rightarrow> inodes \<Rightarrow> evr_claim_ref \<Rightarrow> inodes exec option" where
  "evr_inode_remove_by_seed shrink ino seed = remove_by_seed_loop shrink seed [FUSE_ROOT_ID + 1..<length ino] ino"

text \<open>Which of the allocations of an appended inode succeed: the array of inodes, that of the children, the name.\<close>

record inode_mem =
  mem_inodes :: bool
  mem_children :: bool
  mem_name :: bool

definition evr_inode_get_available :: "(nat \<Rightarrow> evr_inode) \<Rightarrow> inode_mem \<Rightarrow> inodes \<Rightarrow> nat \<times> inodes" where
  "evr_inode_get_available junk m ino =
    (case find (\<lambda>n. ino_type (ino ! n) = Type_unlinked) [FUSE_ROOT_ID + 1..<length ino] of
       Some n \<Rightarrow> (n, ino)
     | None \<Rightarrow>
        if \<not> mem_inodes m then (0, ino)
        else (length ino, ino @ map (\<lambda>n. (junk n)\<lparr>ino_type := Type_unlinked\<rparr>) [length ino..<2 * length ino]))"

definition evr_inode_add_child :: "inode_mem \<Rightarrow> inodes \<Rightarrow> nat \<Rightarrow> nat \<Rightarrow> (evr_code \<times> inodes) exec" where
  "evr_inode_add_child m ino parent child =
    (if parent \<ge> length ino \<or> ino_type (ino ! parent) \<noteq> Type_dir then Undef
     else if \<not> mem_children m then Ret (Evr_error, ino)
     else Ret (Evr_ok, ino[parent := (ino ! parent)\<lparr>ino_children := ino_children (ino ! parent) @ [child]\<rparr>]))"

text \<open>\<open>evr_inode_append_dir\<close> and \<open>evr_inode_append_file\<close> begin the same way; \<open>init\<close> is what they set at the end.\<close>

definition append_inode ::
  "(evr_inode \<Rightarrow> evr_inode) \<Rightarrow> (nat \<Rightarrow> evr_inode) \<Rightarrow> inode_mem \<Rightarrow> inodes \<Rightarrow> nat \<Rightarrow> string \<Rightarrow> (nat \<times> inodes) exec" where
  "append_inode init junk m ino parent name =
    (case evr_inode_get_available junk m ino of (n, ino1) \<Rightarrow>
       if n = 0 then Ret (0, ino1)
       else case evr_inode_add_child m ino1 parent n of
           Panic \<Rightarrow> Panic
         | Undef \<Rightarrow> Undef
         | Ret (r, ino2) \<Rightarrow>
            if r \<noteq> Evr_ok then Ret (0, ino2)
            else if \<not> mem_name m then Ret (0, ino2[n := (ino2 ! n)\<lparr>ino_parent := parent, ino_name := None\<rparr>])
            else Ret (n, ino2[n := init ((ino2 ! n)\<lparr>ino_parent := parent, ino_name := Some name\<rparr>)]))"

definition evr_inode_append_dir :: "(nat \<Rightarrow> evr_inode) \<Rightarrow> inode_mem \<Rightarrow> inodes \<Rightarrow> nat \<Rightarrow> string \<Rightarrow> (nat \<times> inodes) exec" where
  "evr_inode_append_dir =
    append_inode (\<lambda>nd. nd\<lparr>ino_type := Type_dir, ino_children := [], ino_last_modified := 0, ino_created := 0\<rparr>)"

definition evr_inode_append_file :: "(nat \<Rightarrow> evr_inode) \<Rightarrow> inode_mem \<Rightarrow> inodes \<Rightarrow> nat \<Rightarrow> string \<Rightarrow> (nat \<times> inodes) exec" where
  "evr_inode_append_file = append_inode (\<lambda>nd. nd\<lparr>ino_type := Type_file, ino_file := None\<rparr>)"

primrec get_child_dir_loop :: "inodes \<Rightarrow> string \<Rightarrow> nat list \<Rightarrow> nat exec" where
  "get_child_dir_loop ino name [] = Ret 0"
| "get_child_dir_loop ino name (c # cs) =
    (if c \<ge> length ino then Undef
     else if ino_type (ino ! c) \<noteq> Type_dir then get_child_dir_loop ino name cs
     else case ino_name (ino ! c) of
         None \<Rightarrow> Undef
       | Some nm \<Rightarrow> if name \<noteq> nm then get_child_dir_loop ino name cs else Ret c)"

definition evr_inode_get_child_dir :: "inodes \<Rightarrow> nat \<Rightarrow> string \<Rightarrow> nat exec" where
  "evr_inode_get_child_dir ino parent name =
    (if parent \<ge> length ino \<or> ino_type (ino ! parent) \<noteq> Type_dir then Undef
     else get_child_dir_loop ino name (ino_children (ino ! parent)))"

text \<open>An inode number that went through a variable of the type \<^verbatim>\<open>int\<close>.\<close>

definition ino_of_int :: "nat \<Rightarrow> nat" where
  "ino_of_int n = (if n mod 2 ^ 32 < 2 ^ 31 then n mod 2 ^ 32 else 2 ^ 64 - 2 ^ 32 + n mod 2 ^ 32)"

text \<open>The loop over the path: \<open>name\<close> is what was read since the last slash, \<open>k\<close> counts the directories.\<close>

primrec create_file_loop ::
  "(nat \<Rightarrow> evr_inode) \<Rightarrow> (nat \<Rightarrow> inode_mem) \<Rightarrow> nat \<Rightarrow> nat \<Rightarrow> string \<Rightarrow> string \<Rightarrow> inodes \<Rightarrow> (nat \<times> inodes) exec" where
  "create_file_loop junk m k n name [] ino =
    (case evr_inode_append_file junk (m k) ino n name of
       Ret (r, ino1) \<Rightarrow> Ret (ino_of_int r, ino1)
     | x \<Rightarrow> x)"
| "create_file_loop junk m k n name (c # cs) ino =
    (if c = CHR ''/'' then
       (case evr_inode_get_child_dir ino n name of
          Panic \<Rightarrow> Panic
        | Undef \<Rightarrow> Undef
        | Ret g \<Rightarrow>
           (case (if ino_of_int g = 0 then evr_inode_append_dir junk (m k) ino n name else Ret (g, ino)) of
              Panic \<Rightarrow> Panic
            | Undef \<Rightarrow> Undef
            | Ret (r, ino1) \<Rightarrow>
               if ino_of_int r = 0 then Ret (0, ino1)
               else create_file_loop junk m (Suc k) (ino_of_int r) [] cs ino1))
     else create_file_loop junk m k n (name @ [c]) cs ino)"

definition evr_inode_create_file ::
  "(nat \<Rightarrow> evr_inode) \<Rightarrow> (nat \<Rightarrow> inode_mem) \<Rightarrow> inodes \<Rightarrow> string \<Rightarrow> (nat \<times> inodes) exec" where
  "evr_inode_create_file junk m ino file_path = create_file_loop junk m 0 FUSE_ROOT_ID [] file_path ino"

text \<open>\<open>mem\<close> tells for which inodes the list of the affected ones can grow.\<close>

definition inode_affected :: "evr_claim_ref \<Rightarrow> evr_inode_file \<Rightarrow> bool" where
  "inode_affected seed fl =
    (if take evr_claim_ref_size seed = take evr_claim_ref_size (if_seed fl) then True
     else list_ex (\<lambda>ds. take evr_claim_ref_size seed = take evr_claim_ref_size ds) (if_dependent_seeds fl))"

primrec collect_affected_loop ::
  "(nat \<Rightarrow> bool) \<Rightarrow> evr_claim_ref \<Rightarrow> inodes \<Rightarrow> nat list \<Rightarrow> nat evr_llbuf_s \<Rightarrow> (evr_code \<times> nat evr_llbuf_s) exec" where
  "collect_affected_loop mem seed ino [] acc = Ret (Evr_ok, acc)"
| "collect_affected_loop mem seed ino (n # ns) acc =
    (if ino_type (ino ! n) \<noteq> Type_file then collect_affected_loop mem seed ino ns acc
     else case ino_file (ino ! n) of
         None \<Rightarrow> Undef
       | Some fl \<Rightarrow>
          if \<not> inode_affected seed fl then collect_affected_loop mem seed ino ns acc
          else case evr_llbuf_s_append (mem n) acc n of (r, acc1) \<Rightarrow>
            if r \<noteq> Evr_ok then Ret (Evr_error, acc1) else collect_affected_loop mem seed ino ns acc1)"

definition evr_collect_affected_inodes ::
  "(nat \<Rightarrow> bool) \<Rightarrow> nat evr_llbuf_s \<Rightarrow> inodes \<Rightarrow> evr_claim_ref \<Rightarrow> (evr_code \<times> nat evr_llbuf_s) exec" where
  "evr_collect_affected_inodes mem affected ino seed = collect_affected_loop mem seed ino [FUSE_ROOT_ID..<length ino] affected"

end
