(* ===== verification/Fs_Tree.thy ===== *)
theory Fs_Tree
  imports Fs_Inode
begin

text \<open>
  The inodes of \<open>Fs_Inode\<close> as a tree of names: the invariant that links children and parents, the
  path of an inode, and what creating and removing files does to the paths.
\<close>

section \<open>The invariant\<close>

definition linked :: "inodes \<Rightarrow> nat \<Rightarrow> bool" where
  "linked ino n = (1 \<le> n \<and> n < length ino \<and> ino_type (ino ! n) \<noteq> Type_unlinked)"

abbreviation is_dir :: "inodes \<Rightarrow> nat \<Rightarrow> bool" where
  "is_dir ino n \<equiv> linked ino n \<and> ino_type (ino ! n) = Type_dir"

text \<open>The names from the root to an inode.\<close>

inductive inode_path :: "inodes \<Rightarrow> nat \<Rightarrow> string list \<Rightarrow> bool" for ino where
  path_root: "linked ino 1 \<Longrightarrow> inode_path ino 1 []"
| path_step: "inode_path ino (ino_parent (ino ! n)) ps \<Longrightarrow> linked ino n \<Longrightarrow> n \<noteq> 1 \<Longrightarrow> ino_name (ino ! n) = Some nm \<Longrightarrow>
    inode_path ino n (ps @ [nm])"

text \<open>The inodes under an inode, itself included.\<close>

inductive below :: "inodes \<Rightarrow> nat \<Rightarrow> nat \<Rightarrow> bool" for ino a where
  below_refl: "below ino a a"
| below_step: "below ino a (ino_parent (ino ! m)) \<Longrightarrow> linked ino m \<Longrightarrow> m \<noteq> 1 \<Longrightarrow> below ino a m"

definition inodes_inv :: "inodes \<Rightarrow> bool" where
  "inodes_inv ino = (is_dir ino 1 \<and>
     (\<forall>p c. is_dir ino p \<and> c \<in> set (ino_children (ino ! p)) \<longrightarrow> linked ino c \<and> c \<noteq> 1 \<and> ino_parent (ino ! c) = p) \<and>
     (\<forall>p. is_dir ino p \<longrightarrow> distinct (ino_children (ino ! p))) \<and>
     (\<forall>n. linked ino n \<and> n \<noteq> 1 \<longrightarrow> is_dir ino (ino_parent (ino ! n)) \<and> n \<in> set (ino_children (ino ! ino_parent (ino ! n)))) \<and>
     (\<forall>n. linked ino n \<longrightarrow> (\<exists>ps. inode_path ino n ps)))"

text \<open>The files have their data.\<close>

definition files_set :: "inodes \<Rightarrow> bool" where
  "files_set ino = (\<forall>n. linked ino n \<and> ino_type (ino ! n) = Type_file \<longrightarrow> ino_file (ino ! n) \<noteq> None)"

text \<open>Two inodes that differ at most in their children.\<close>

definition same_inode :: "evr_inode \<Rightarrow> evr_inode \<Rightarrow> bool" where
  "same_inode a b = (a\<lparr>ino_children := []\<rparr> = b\<lparr>ino_children := []\<rparr>)"

lemma same_inode_fields:
  "same_inode a b \<Longrightarrow> ino_parent a = ino_parent b \<and> ino_name a = ino_name b \<and> ino_created a = ino_created b \<and>
    ino_last_modified a = ino_last_modified b \<and> ino_type a = ino_type b \<and> ino_file a = ino_file b"
  by (cases a; cases b) (simp add: same_inode_def)

lemma same_inode_refl [simp]: "same_inode a a" "same_inode (a\<lparr>ino_children := cs\<rparr>) a" "same_inode a (a\<lparr>ino_children := cs\<rparr>)"
  by (simp_all add: same_inode_def)

lemma same_inode_trans: "same_inode a b \<Longrightarrow> same_inode b c \<Longrightarrow> same_inode a c"
  by (simp add: same_inode_def)

lemma inv_root: "inodes_inv ino \<Longrightarrow> is_dir ino 1"
  unfolding inodes_inv_def by blast

lemma inv_child:
  "inodes_inv ino \<Longrightarrow> is_dir ino p \<Longrightarrow> c \<in> set (ino_children (ino ! p)) \<Longrightarrow> linked ino c \<and> c \<noteq> 1 \<and> ino_parent (ino ! c) = p"
  unfolding inodes_inv_def by blast

lemma inv_distinct: "inodes_inv ino \<Longrightarrow> is_dir ino p \<Longrightarrow> distinct (ino_children (ino ! p))"
  unfolding inodes_inv_def by blast

lemma inv_parent:
  "inodes_inv ino \<Longrightarrow> linked ino n \<Longrightarrow> n \<noteq> 1 \<Longrightarrow> is_dir ino (ino_parent (ino ! n)) \<and> n \<in> set (ino_children (ino ! ino_parent (ino ! n)))"
  unfolding inodes_inv_def by blast

lemma inv_path: "inodes_inv ino \<Longrightarrow> linked ino n \<Longrightarrow> \<exists>ps. inode_path ino n ps"
  unfolding inodes_inv_def by blast

lemma path_linked: "inode_path ino n ps \<Longrightarrow> linked ino n"
  by (cases rule: inode_path.cases) blast+

lemma path_stepE:
  assumes "inode_path ino n ps" "n \<noteq> 1"
  obtains qs nm where "ps = qs @ [nm]" "inode_path ino (ino_parent (ino ! n)) qs" "ino_name (ino ! n) = Some nm"
  using assms by (cases rule: inode_path.cases) blast+

lemma path_rootE: "inode_path ino 1 ps \<Longrightarrow> ps = []"
  by (cases rule: inode_path.cases) blast+

lemma path_unique: "inode_path ino n ps \<Longrightarrow> inode_path ino n qs \<Longrightarrow> ps = qs"
proof (induction arbitrary: qs rule: inode_path.induct)
  case path_root
  then show ?case using path_rootE by blast
next
  case (path_step n ps nm)
  from path_stepE [OF path_step.prems path_step.hyps(3)] path_step.hyps(4) path_step.IH show ?case by (metis option.inject)
qed

text \<open>The depth of an inode.\<close>

lemma below_ancestor:
  assumes "below ino a m" "inode_path ino m ps" "inode_path ino a qs"
  shows "length qs \<le> length ps \<and> a = ((\<lambda>x. ino_parent (ino ! x)) ^^ (length ps - length qs)) m"
  using assms
proof (induction arbitrary: ps rule: below.induct)
  case below_refl
  then have "ps = qs" by (rule path_unique)
  then show ?case by simp
next
  case (below_step m)
  obtain ps' nm where p: "ps = ps' @ [nm]" "inode_path ino (ino_parent (ino ! m)) ps'"
    using path_stepE [OF below_step.prems(1) below_step.hyps(3)] by metis
  from below_step.IH [OF p(2) below_step.prems(2)] show ?case
    by (simp add: p(1) Suc_diff_le funpow_Suc_right del: funpow.simps)
qed

lemma below_same_depth:
  assumes "inodes_inv ino" "below ino a m" "below ino b m" "linked ino m" "inode_path ino a ps" "inode_path ino b qs" "length ps = length qs"
  shows "a = b"
proof -
  obtain rs where "inode_path ino m rs" using inv_path assms(1,4) by blast
  with below_ancestor assms show ?thesis by metis
qed

lemma path_bound: "\<exists>D. \<forall>n ps. inode_path ino n ps \<longrightarrow> length ps \<le> D"
proof -
  have "finite {length ps |ps. inode_path ino n ps}" for n
  proof (cases "\<exists>ps. inode_path ino n ps")
    case True
    then obtain ps where "inode_path ino n ps" by blast
    then have "{length ps |ps. inode_path ino n ps} \<subseteq> {length ps}" using path_unique by blast
    then show ?thesis by (rule finite_subset) simp
  qed simp
  then have "finite (\<Union>n<length ino. {length ps |ps. inode_path ino n ps})" by simp
  then obtain D where D: "\<forall>x\<in>(\<Union>n<length ino. {length ps |ps. inode_path ino n ps}). x \<le> D"
    using finite_nat_set_iff_bounded_le by blast
  show ?thesis
  proof (intro exI allI impI)
    fix n ps
    assume p: "inode_path ino n ps"
    then have "n < length ino" using path_linked by (auto simp: linked_def)
    with p D show "length ps \<le> D" by blast
  qed
qed

lemma below_linked: "below ino a m \<Longrightarrow> linked ino a \<Longrightarrow> linked ino m"
  by (auto elim: below.cases)

lemma below_child:
  assumes "inodes_inv ino" "is_dir ino n" "c \<in> set (ino_children (ino ! n))" "below ino c m"
  shows "below ino n m"
  using assms(4)
proof (induction rule: below.induct)
  case below_refl
  then show ?case using inv_child [OF assms(1-3)] below.below_refl [of ino n] below.below_step [of ino n c] by metis
qed (rule below.below_step)

lemma below_children:
  assumes "inodes_inv ino" "below ino n m"
  shows "m = n \<or> (is_dir ino n \<and> (\<exists>c\<in>set (ino_children (ino ! n)). below ino c m))"
  using assms(2)
proof (induction rule: below.induct)
  case (below_step m)
  note p = inv_parent [OF assms(1) below_step.hyps(2,3)]
  from below_step.IH show ?case
  proof
    assume "ino_parent (ino ! m) = n"
    with p show ?thesis using below_refl by blast
  next
    assume "is_dir ino n \<and> (\<exists>c\<in>set (ino_children (ino ! n)). below ino c (ino_parent (ino ! m)))"
    with below_step.hyps show ?thesis using below.below_step by blast
  qed
qed simp

section \<open>Freeing\<close>

definition under_any :: "inodes \<Rightarrow> nat list \<Rightarrow> nat \<Rightarrow> bool" where
  "under_any ino ns m = (\<exists>n\<in>set ns. below ino n m)"

lemma under_any_simps [simp]: "\<not> under_any ino [] m" "under_any ino (n # ns) m \<longleftrightarrow> below ino n m \<or> under_any ino ns m"
  by (auto simp: under_any_def)

lemma below_not_child:
  assumes "inodes_inv ino" "is_dir ino n"
  shows "\<not> under_any ino (ino_children (ino ! n)) n"
proof
  assume "under_any ino (ino_children (ino ! n)) n"
  then obtain c where c: "c \<in> set (ino_children (ino ! n))" "below ino c n" by (auto simp: under_any_def)
  note ch = inv_child [OF assms c(1)]
  obtain ps where ps: "inode_path ino n ps" using inv_path assms by blast
  obtain qs where qs: "inode_path ino c qs" using inv_path [OF assms(1)] ch by blast
  from path_stepE [OF qs] ch ps path_unique obtain nm where "qs = ps @ [nm]" by metis
  with below_ancestor [OF c(2) ps qs] show False by simp
qed

text \<open>
  Siblings are freed with everything under them, and nothing else is touched. \<open>ino0\<close> is the tree before, \<open>ino\<close>
  the array in which other siblings may be gone already.
\<close>

lemma free_inodes_under:
  assumes inv: "inodes_inv ino0" and D: "\<forall>n ps. inode_path ino0 n ps \<longrightarrow> length ps \<le> D" and fs: "files_set ino0"
    and ns: "distinct ns" "\<forall>n\<in>set ns. \<exists>ps. inode_path ino0 n ps \<and> length ps = d"
    and agree: "length ino = length ino0" "\<forall>m. under_any ino0 ns m \<longrightarrow> ino ! m = ino0 ! m"
  shows "\<exists>ino'. free_inodes ino ns = Some (Ret ino') \<and> length ino' = length ino0 \<and>
    (\<forall>m. ino' ! m = (if under_any ino0 ns m then unlink_inode (ino0 ! m) else ino ! m))"
  using ns agree
proof (induction "Suc D - d" arbitrary: d ns ino rule: less_induct)
  case less
  note outer = less.hyps
  from less.prems show ?case
  proof (induction ns arbitrary: ino)
    case Nil
    then show ?case by (simp add: free_inodes.simps [of ino "[]"])
  next
    case (Cons n ns)
    obtain ps where ps: "inode_path ino0 n ps" "length ps = d" using Cons.prems(2) by auto
    have ln: "linked ino0 n" "n < length ino" "d \<le> D" using path_linked [OF ps(1)] Cons.prems(3) ps D by (auto simp: linked_def)
    have at: "ino ! n = ino0 ! n" using Cons.prems(4) below_refl by simp
    have disj: "\<not> under_any ino0 ns m" if "below ino0 n m" for m
    proof
      assume "under_any ino0 ns m"
      then obtain b where b: "b \<in> set ns" "below ino0 b m" by (auto simp: under_any_def)
      then obtain qs where "inode_path ino0 b qs" "length qs = d" using Cons.prems(2) by auto
      with below_same_depth [OF inv that b(2) below_linked [OF that ln(1)] ps(1)] ps(2) have "n = b" by simp
      with b(1) Cons.prems(1) show False by simp
    qed
    have step: ?case if j: "length j = length ino0" "\<forall>m. j ! m = (if below ino0 n m then unlink_inode (ino0 ! m) else ino ! m)"
      "free_inodes ino (n # ns) = free_inodes j ns" for j
    proof -
      have "\<exists>ino'. free_inodes j ns = Some (Ret ino') \<and> length ino' = length ino0 \<and>
          (\<forall>m. ino' ! m = (if under_any ino0 ns m then unlink_inode (ino0 ! m) else j ! m))"
        by (rule Cons.IH) (use Cons.prems j disj in auto)
      with j show ?thesis by auto
    qed
    show ?case
    proof (cases "ino_type (ino0 ! n) = Type_dir")
      case True
      then have dir: "is_dir ino0 n" using ln by simp
      let ?cs = "ino_children (ino0 ! n)"
      have cs: "\<forall>c\<in>set ?cs. \<exists>qs. inode_path ino0 c qs \<and> length qs = Suc d"
      proof
        fix c
        assume "c \<in> set ?cs"
        note ch = inv_child [OF inv dir this]
        then obtain qs where qs: "inode_path ino0 c qs" using inv_path inv by blast
        from path_stepE [OF qs] ch ps(1) path_unique obtain nm where "qs = ps @ [nm]" by metis
        with qs ps(2) show "\<exists>qs. inode_path ino0 c qs \<and> length qs = Suc d" by auto
      qed
      have un: "under_any ino0 ?cs m \<longrightarrow> below ino0 n m" for m using below_child [OF inv dir] by (auto simp: under_any_def)
      have "Suc D - Suc d < Suc D - d" using ln(3) by simp
      from outer [OF this inv_distinct [OF inv dir] cs Cons.prems(3)] un Cons.prems(4) obtain j where j: "free_inodes ino ?cs = Some (Ret j)"
        "length j = length ino0" "\<forall>m. j ! m = (if under_any ino0 ?cs m then unlink_inode (ino0 ! m) else ino ! m)" by auto
      have jn: "j ! n = ino0 ! n" using j(3) below_not_child [OF inv dir] at by simp
      have bl: "below ino0 n m \<longleftrightarrow> m = n \<or> under_any ino0 ?cs m" for m
        using below_children [OF inv, of n m] below_refl [of ino0 n] un [of m] unfolding under_any_def by blast
      have "\<forall>m. j[n := unlink_inode (j ! n)] ! m = (if below ino0 n m then unlink_inode (ino0 ! m) else ino ! m)"
        using j(2,3) jn bl ln(2) Cons.prems(3) by (auto simp: nth_list_update)
      then show ?thesis using step [of "j[n := unlink_inode (j ! n)]"] j True at ln by (simp add: free_inodes.simps [of ino "n # ns"])
    next
      case False
      have bl: "below ino0 n m \<longleftrightarrow> m = n" for m using below_children [OF inv] below_refl False by blast
      have "\<forall>m. ino[n := unlink_inode (ino ! n)] ! m = (if below ino0 n m then unlink_inode (ino0 ! m) else ino ! m)"
        using bl at ln(2) by (auto simp: nth_list_update)
      moreover have "ino_type (ino0 ! n) = Type_file \<Longrightarrow> ino_file (ino0 ! n) \<noteq> None" using fs ln by (simp add: files_set_def)
      then have "free_inodes ino (n # ns) = free_inodes (ino[n := unlink_inode (ino ! n)]) ns"
        using False at ln by (cases "ino_type (ino0 ! n)") (auto simp: free_inodes.simps [of ino "n # ns"] linked_def)
      ultimately show ?thesis using step [of "ino[n := unlink_inode (ino ! n)]"] Cons.prems(3) by simp
    qed
  qed
qed

lemma free_inode_below:
  assumes "inodes_inv ino" "files_set ino" "linked ino n"
  shows "\<exists>ino'. evr_free_inode_and_children ino n = Some (Ret ino') \<and> length ino' = length ino \<and>
    (\<forall>m. ino' ! m = (if below ino n m then unlink_inode (ino ! m) else ino ! m))"
proof -
  obtain D where D: "\<forall>n ps. inode_path ino n ps \<longrightarrow> length ps \<le> D" using path_bound by blast
  obtain ps where "inode_path ino n ps" using inv_path assms by blast
  then have p: "\<forall>k\<in>set [n]. \<exists>qs. inode_path ino k qs \<and> length qs = length ps" by auto
  from free_inodes_under [OF assms(1) D assms(2) _ p refl] show ?thesis by (simp add: evr_free_inode_and_children_def)
qed

section \<open>Removing\<close>

lemma below_stepE: "below ino a m \<Longrightarrow> m = a \<or> (below ino a (ino_parent (ino ! m)) \<and> linked ino m \<and> m \<noteq> 1)"
  by (cases rule: below.cases) blast+

lemma not_below_parent:
  assumes "inodes_inv ino" "linked ino n" "n \<noteq> 1"
  shows "\<not> below ino n (ino_parent (ino ! n))"
  using below_not_child [OF assms(1)] inv_parent [OF assms] unfolding under_any_def by blast

text \<open>The array without what is under an inode.\<close>

definition detached :: "inodes \<Rightarrow> nat \<Rightarrow> inodes \<Rightarrow> bool" where
  "detached ino n ino2 = (inodes_inv ino2 \<and> files_set ino2 \<and> length ino2 = length ino \<and>
     (\<forall>m. linked ino2 m \<longleftrightarrow> linked ino m \<and> \<not> below ino n m) \<and>
     (\<forall>m. linked ino2 m \<longrightarrow> same_inode (ino2 ! m) (ino ! m)) \<and>
     (\<forall>m. linked ino2 m \<and> m \<noteq> ino_parent (ino ! n) \<longrightarrow> ino2 ! m = ino ! m) \<and>
     (\<forall>m ps. linked ino2 m \<and> inode_path ino m ps \<longrightarrow> inode_path ino2 m ps))"

lemma detachedD:
  assumes "detached ino n ino2"
  shows "inodes_inv ino2" "files_set ino2" "length ino2 = length ino" "linked ino2 m \<longleftrightarrow> linked ino m \<and> \<not> below ino n m"
    "linked ino2 m \<Longrightarrow> same_inode (ino2 ! m) (ino ! m)" "linked ino2 m \<Longrightarrow> m \<noteq> ino_parent (ino ! n) \<Longrightarrow> ino2 ! m = ino ! m"
    "linked ino2 m \<Longrightarrow> inode_path ino m ps \<Longrightarrow> inode_path ino2 m ps"
  using assms unfolding detached_def by blast+

lemma detach_inv:
  assumes inv: "inodes_inv ino" and fs: "files_set ino" and n: "linked ino n" "n \<noteq> 1" and p: "p = ino_parent (ino ! n)"
    and len: "length ino2 = length ino"
    and val: "\<And>m. m < length ino \<Longrightarrow> ino2 ! m = (if below ino n m then unlink_inode (ino ! m) else if m = p then (ino ! p)\<lparr>ino_children := cs\<rparr> else ino ! m)"
    and cs: "distinct cs" "set cs = set (ino_children (ino ! p)) - {n}"
  shows "detached ino n ino2"
proof -
  have dp: "is_dir ino p" using inv_parent [OF inv n] p by simp
  have np: "\<not> below ino n p" using not_below_parent [OF inv n] p by simp
  have lk: "linked ino2 m \<longleftrightarrow> linked ino m \<and> \<not> below ino n m" for m
    using len val [of m] dp by (auto simp: linked_def unlink_inode_def split: if_splits)
  have same: "linked ino2 m \<longrightarrow> same_inode (ino2 ! m) (ino ! m)" for m
    using lk val [of m] by (auto simp: linked_def)
  note fld = same_inode_fields [OF mp [OF same]]
  have keep: "linked ino2 m \<and> m \<noteq> p \<longrightarrow> ino2 ! m = ino ! m" for m using lk val [of m] by (auto simp: linked_def)
  have at_p: "ino2 ! p = (ino ! p)\<lparr>ino_children := cs\<rparr>" using val [of p] np dp by (simp add: linked_def)
  have up: "\<not> below ino n (ino_parent (ino ! m))" if "linked ino2 m" "m \<noteq> 1" for m
    using that lk below_step by blast
  have path: "linked ino2 m \<longrightarrow> inode_path ino2 m ps" if "inode_path ino m ps" for m ps
    using that
  proof (induction rule: inode_path.induct)
    case path_root
    then show ?case using inode_path.path_root by blast
  next
    case (path_step m ps nm)
    show ?case
    proof
      assume l: "linked ino2 m"
      have "linked ino2 (ino_parent (ino ! m))" using lk up [OF l path_step.hyps(3)] path_linked [OF path_step.hyps(1)] by blast
      then have "inode_path ino2 (ino_parent (ino2 ! m)) ps" using path_step.IH fld [OF l] by simp
      from inode_path.path_step [OF this l path_step.hyps(3)] path_step.hyps(4) fld [OF l] show "inode_path ino2 m (ps @ [nm])" by simp
    qed
  qed
  have l1: "\<not> below ino n 1" using below_stepE n(2) by blast
  have root: "is_dir ino2 1" using lk l1 fld [of 1] inv_root [OF inv] by metis
  have ch: "linked ino2 c \<and> c \<noteq> 1 \<and> ino_parent (ino2 ! c) = q" if q: "is_dir ino2 q" and c: "c \<in> set (ino_children (ino2 ! q))" for q c
  proof -
    have dq: "is_dir ino q" using q lk fld [of q] by metis
    have cc: "c \<in> set (ino_children (ino ! q)) \<and> c \<noteq> n"
    proof (cases "q = p")
      case True
      then show ?thesis using c at_p cs by simp
    next
      case False
      then have "c \<in> set (ino_children (ino ! q))" using keep q c by simp
      moreover from inv_child [OF inv dq this] have "c \<noteq> n" using False p by blast
      ultimately show ?thesis by blast
    qed
    note ic = inv_child [OF inv dq conjunct1 [OF cc]]
    have "\<not> below ino n c" using below_stepE [of ino n c] cc ic q lk by metis
    then have "linked ino2 c" using lk ic by blast
    with ic fld [of c] show ?thesis by simp
  qed
  have ds: "distinct (ino_children (ino2 ! q))" if "is_dir ino2 q" for q
    using that keep [of q] at_p cs(1) inv_distinct [OF inv, of q] lk fld [of q] by (cases "q = p") auto
  have pa: "is_dir ino2 (ino_parent (ino2 ! m)) \<and> m \<in> set (ino_children (ino2 ! ino_parent (ino2 ! m)))" if m: "linked ino2 m" "m \<noteq> 1" for m
  proof -
    have lm: "linked ino m" "m \<noteq> n" using m lk below_refl [of ino n] by metis+
    note ip = inv_parent [OF inv lm(1) m(2)]
    have e: "ino_parent (ino2 ! m) = ino_parent (ino ! m)" using fld [OF m(1)] by simp
    have l2: "linked ino2 (ino_parent (ino ! m))" using lk ip up [OF m] by blast
    have "m \<in> set (ino_children (ino2 ! ino_parent (ino ! m)))"
      using ip keep [of "ino_parent (ino ! m)"] l2 at_p cs(2) lm(2) by (cases "ino_parent (ino ! m) = p") auto
    with l2 ip fld [OF l2] e show ?thesis by simp
  qed
  have "\<exists>ps. inode_path ino2 m ps" if "linked ino2 m" for m using path inv_path [OF inv] lk that by blast
  then have "inodes_inv ino2" unfolding inodes_inv_def using root ch ds pa by (intro conjI allI impI) (blast | metis)+
  moreover have "files_set ino2" unfolding files_set_def
  proof (intro allI impI)
    fix m
    assume "linked ino2 m \<and> ino_type (ino2 ! m) = Type_file"
    then show "ino_file (ino2 ! m) \<noteq> None" using fs lk fld [of m] by (simp add: files_set_def)
  qed
  ultimately show ?thesis unfolding detached_def p [symmetric] using len lk same keep path by blast
qed

lemma remove_child_set:
  assumes "distinct cs" "n \<in> set cs"
  shows "distinct (remove_child n cs)" "set (remove_child n cs) = set cs - {n}"
proof -
  obtain as x where cs: "cs = as @ [x]" using assms(2) by (cases cs rule: rev_cases) auto
  show "distinct (remove_child n cs)" using assms by (auto simp: cs remove_child_def distinct_map inj_on_def)
  show "set (remove_child n cs) = set cs - {n}" using assms by (auto simp: cs remove_child_def split: if_splits)
qed

text \<open>What is left after an inode was removed: everything that is not a directory, except what was under the inode.\<close>

definition pruned :: "inodes \<Rightarrow> nat \<Rightarrow> inodes \<Rightarrow> bool" where
  "pruned ino n ino' = (inodes_inv ino' \<and> files_set ino' \<and> length ino' = length ino \<and> \<not> linked ino' n \<and>
     (\<forall>m. linked ino' m \<longrightarrow> linked ino m \<and> same_inode (ino' ! m) (ino ! m)) \<and>
     (\<forall>m. linked ino m \<and> ino_type (ino ! m) \<noteq> Type_dir \<and> \<not> below ino n m \<longrightarrow> linked ino' m) \<and>
     (\<forall>m ps. linked ino' m \<and> inode_path ino m ps \<longrightarrow> inode_path ino' m ps) \<and>
     (\<forall>m. is_dir ino' m \<and> m \<noteq> 1 \<and> ino_children (ino' ! m) = [] \<longrightarrow> ino_children (ino ! m) = []))"

lemma prunedD:
  assumes "pruned ino n ino'"
  shows "inodes_inv ino'" "files_set ino'" "length ino' = length ino" "\<not> linked ino' n"
    "linked ino' m \<Longrightarrow> linked ino m" "linked ino' m \<Longrightarrow> same_inode (ino' ! m) (ino ! m)"
    "linked ino m \<Longrightarrow> ino_type (ino ! m) \<noteq> Type_dir \<Longrightarrow> \<not> below ino n m \<Longrightarrow> linked ino' m"
    "linked ino' m \<Longrightarrow> inode_path ino m ps \<Longrightarrow> inode_path ino' m ps"
    "is_dir ino' m \<Longrightarrow> m \<noteq> 1 \<Longrightarrow> ino_children (ino' ! m) = [] \<Longrightarrow> ino_children (ino ! m) = []"
  using assms unfolding pruned_def by blast+

lemma pruned_chain:
  assumes d: "detached ino n ino2" and r: "pruned ino2 p ino'" and p: "p = ino_parent (ino ! n)" "is_dir ino p"
    and only: "\<And>m. below ino2 p m \<Longrightarrow> m = p"
  shows "pruned ino n ino'"
proof -
  note dd = detachedD [OF d] and rr = prunedD [OF r]
  have "\<not> linked ino' n" using rr(5) dd(4) below_refl by blast
  moreover have "linked ino m \<and> same_inode (ino' ! m) (ino ! m)" if "linked ino' m" for m
    using that rr(5,6) dd(4,5) same_inode_trans by blast
  moreover have "linked ino' m" if m: "linked ino m" "ino_type (ino ! m) \<noteq> Type_dir" "\<not> below ino n m" for m
  proof -
    have l2: "linked ino2 m" using dd(4) m by blast
    have "ino_type (ino2 ! m) = ino_type (ino ! m)" using same_inode_fields [OF dd(5) [OF l2]] by simp
    moreover have "\<not> below ino2 p m" using only m p by blast
    ultimately show ?thesis using rr(7) l2 m(2) by simp
  qed
  moreover have "inode_path ino' m ps" if "linked ino' m" "inode_path ino m ps" for m ps using that rr(5,8) dd(7) by blast
  moreover have "ino_children (ino ! m) = []" if m: "is_dir ino' m" "m \<noteq> 1" "ino_children (ino' ! m) = []" for m
  proof -
    have "ino_children (ino2 ! m) = []" "linked ino2 m" "m \<noteq> p" using rr(9) [OF m] rr(4,5) m(1) by blast+
    then show ?thesis using dd(6) [of m] p by simp
  qed
  ultimately show ?thesis using rr(1,2,3) dd(3) unfolding pruned_def by (intro conjI allI impI) (simp | blast)+
qed

lemma inode_remove_prunes:
  assumes "inodes_inv ino" "files_set ino" "inode_path ino n ps" "n \<noteq> 1"
  shows "\<exists>ino'. evr_inode_remove True ino n = Some (Ret ino') \<and> pruned ino n ino'"
  using assms
proof (induction ps arbitrary: ino n rule: rev_induct)
  case Nil
  then show ?case using path_stepE by blast
next
  case (snoc nm ps)
  note inv = snoc.prems(1) and n1 = snoc.prems(4)
  have ln: "linked ino n" by (rule path_linked [OF snoc.prems(3)])
  let ?p = "ino_parent (ino ! n)" and ?cs = "ino_children (ino ! ino_parent (ino ! n))"
  have pp: "inode_path ino ?p ps" using path_stepE [OF snoc.prems(3) n1] by (metis butlast_snoc)
  note ip = inv_parent [OF inv ln n1]
  obtain ino1 where fr: "evr_free_inode_and_children ino n = Some (Ret ino1)" "length ino1 = length ino"
    "\<forall>m. ino1 ! m = (if below ino n m then unlink_inode (ino ! m) else ino ! m)"
    using free_inode_below [OF inv snoc.prems(2) ln] by blast
  have par: "ino_parent (ino1 ! n) = ?p" using fr(3) by (simp add: unlink_inode_def)
  have np: "\<not> below ino n ?p" by (rule not_below_parent [OF inv ln n1])
  then have at_p: "ino1 ! ?p = ino ! ?p" using fr(3) by simp
  have plen: "?p < length ino" using ip by (simp add: linked_def)
  define cs where "cs = (if length ?cs \<le> 1 then [] else remove_child n ?cs)"
  define ino2 where "ino2 = ino1[?p := (ino ! ?p)\<lparr>ino_children := cs\<rparr>]"
  have "?cs = [n]" if "length ?cs \<le> 1" using that ip by (cases ?cs) auto
  then have cs: "distinct cs" "set cs = set ?cs - {n}"
    using remove_child_set [OF inv_distinct [OF inv]] ip unfolding cs_def by auto
  have len2: "length ino2 = length ino" using fr(2) by (simp add: ino2_def)
  have val: "ino2 ! m = (if below ino n m then unlink_inode (ino ! m) else if m = ?p then (ino ! ?p)\<lparr>ino_children := cs\<rparr> else ino ! m)"
    if "m < length ino" for m using fr(2,3) plen np that by (auto simp: ino2_def nth_list_update)
  note det = detach_inv [OF inv snoc.prems(2) ln n1 refl len2 val cs]
  have step: "evr_inode_remove True ino n = (if length ?cs \<le> 1 then evr_inode_remove True ino2 ?p else Some (Ret ino2))"
    using ip plen n1 fr(1,2) by (auto simp: evr_inode_remove.simps [of True ino n] par at_p FUSE_ROOT_ID_def ino2_def cs_def)
  show ?case
  proof (cases "length ?cs \<le> 1 \<and> ?p \<noteq> 1")
    case True
    have i2: "inodes_inv ino2" "files_set ino2" and p2: "inode_path ino2 ?p ps" using detachedD [OF det] pp np ip by blast+
    obtain ino' where r: "evr_inode_remove True ino2 ?p = Some (Ret ino')" "pruned ino2 ?p ino'"
      using snoc.IH [OF i2 p2] True by blast
    have nb: "m = ?p" if "below ino2 ?p m" for m
      using below_children [OF i2(1) that] val [OF plen] np True by (auto simp: cs_def)
    have "pruned ino n ino'" by (rule pruned_chain [OF det r(2) refl]) (use ip nb in blast)+
    then show ?thesis using r(1) step True by simp
  next
    case False
    have "evr_inode_remove True ino n = Some (Ret ino2)"
      using False step evr_inode_remove.simps [of True ino2 1] by (auto simp: FUSE_ROOT_ID_def)
    moreover have "ino_children (ino ! m) = []" if "is_dir ino2 m" "m \<noteq> 1" "ino_children (ino2 ! m) = []" for m
    proof (cases "m = ?p")
      case True
      then show ?thesis using False that val [OF plen] np by (cases ?cs rule: rev_cases) (auto simp: cs_def remove_child_def)
    next
      case m: False
      then show ?thesis using detachedD(6) [OF det, of m] that by simp
    qed
    then have "pruned ino n ino2"
      unfolding pruned_def using detachedD [OF det] below_refl [of ino n] by (intro conjI allI impI) (simp | blast)+
    ultimately show ?thesis by blast
  qed
qed

text \<open>The files of a set are gone, all other inodes that are not directories are as they were.\<close>

definition kept :: "nat set \<Rightarrow> inodes \<Rightarrow> inodes \<Rightarrow> bool" where
  "kept S ino ino' = (inodes_inv ino' \<and> files_set ino' \<and> length ino' = length ino \<and>
     (\<forall>m. linked ino' m \<longrightarrow> linked ino m \<and> m \<notin> S \<and> same_inode (ino' ! m) (ino ! m)) \<and>
     (\<forall>m ps. linked ino' m \<and> inode_path ino m ps \<longrightarrow> inode_path ino' m ps) \<and>
     (\<forall>m. linked ino m \<and> ino_type (ino ! m) \<noteq> Type_dir \<and> m \<notin> S \<longrightarrow> linked ino' m) \<and>
     (\<forall>m. is_dir ino' m \<and> m \<noteq> 1 \<and> ino_children (ino' ! m) = [] \<longrightarrow> ino_children (ino ! m) = []))"

lemma keptD:
  assumes "kept S ino ino'"
  shows "inodes_inv ino'" "files_set ino'" "length ino' = length ino" "linked ino' m \<Longrightarrow> linked ino m" "linked ino' m \<Longrightarrow> m \<notin> S"
    "linked ino' m \<Longrightarrow> same_inode (ino' ! m) (ino ! m)" "linked ino' m \<Longrightarrow> inode_path ino m ps \<Longrightarrow> inode_path ino' m ps"
    "linked ino m \<Longrightarrow> ino_type (ino ! m) \<noteq> Type_dir \<Longrightarrow> m \<notin> S \<Longrightarrow> linked ino' m"
    "is_dir ino' m \<Longrightarrow> m \<noteq> 1 \<Longrightarrow> ino_children (ino' ! m) = [] \<Longrightarrow> ino_children (ino ! m) = []"
  using assms unfolding kept_def by blast+

lemma kept_none: "inodes_inv ino \<Longrightarrow> files_set ino \<Longrightarrow> kept {} ino ino"
  unfolding kept_def by (intro conjI allI impI) (simp | blast)+

lemma kept_trans:
  assumes a: "kept S ino ino1" and b: "kept T ino1 ino2"
  shows "kept (S \<union> T) ino ino2"
proof -
  note aa = keptD [OF a] and bb = keptD [OF b]
  have "linked ino m \<and> m \<notin> S \<union> T \<and> same_inode (ino2 ! m) (ino ! m)" if "linked ino2 m" for m
    using that aa(4,5,6) bb(4,5,6) same_inode_trans by blast
  moreover have "inode_path ino2 m ps" if "linked ino2 m" "inode_path ino m ps" for m ps using that aa(7) bb(4,7) by blast
  moreover have "linked ino2 m" if m: "linked ino m" "ino_type (ino ! m) \<noteq> Type_dir" "m \<notin> S \<union> T" for m
  proof -
    have l1: "linked ino1 m" using aa(8) m by blast
    have "ino_type (ino1 ! m) = ino_type (ino ! m)" using same_inode_fields [OF aa(6) [OF l1]] by simp
    then show ?thesis using bb(8) [OF l1] m by simp
  qed
  moreover have "ino_children (ino ! m) = []" if m: "is_dir ino2 m" "m \<noteq> 1" "ino_children (ino2 ! m) = []" for m
  proof -
    have l: "linked ino1 m" using bb(4) m by blast
    have "ino_type (ino1 ! m) = Type_dir" using same_inode_fields [OF bb(6)] m by metis
    then show ?thesis using aa(9) [of m] bb(9) [OF m] l m(2) by blast
  qed
  ultimately show ?thesis using bb(1,2,3) aa(3) unfolding kept_def by (intro conjI allI impI) (simp | blast)+
qed

lemma kept_remove_file:
  assumes "inodes_inv ino" "files_set ino" "linked ino n" "ino_type (ino ! n) \<noteq> Type_dir"
  shows "\<exists>ino'. evr_inode_remove True ino n = Some (Ret ino') \<and> kept {n} ino ino'"
proof -
  obtain ps where ps: "inode_path ino n ps" using inv_path assms by blast
  have n1: "n \<noteq> 1" using inv_root [OF assms(1)] assms(4) by blast
  obtain ino' where r: "evr_inode_remove True ino n = Some (Ret ino')" "pruned ino n ino'"
    using inode_remove_prunes [OF assms(1,2) ps n1] by blast
  have "m = n" if "below ino n m" for m using below_children [OF assms(1) that] assms(4) by blast
  then have "kept {n} ino ino'" unfolding kept_def using prunedD [OF r(2)] by (intro conjI allI impI) (simp | blast)+
  with r(1) show ?thesis by blast
qed

definition of_seed :: "evr_claim_ref \<Rightarrow> evr_inode \<Rightarrow> bool" where
  "of_seed seed nd = (ino_type nd = Type_file \<and> (case ino_file nd of None \<Rightarrow> False
     | Some fl \<Rightarrow> take evr_claim_ref_size seed = take evr_claim_ref_size (if_seed fl)))"

lemma of_seed_same: "same_inode a b \<Longrightarrow> of_seed seed a = of_seed seed b"
  by (drule same_inode_fields) (simp add: of_seed_def)

lemma remove_by_seed_kept:
  assumes "inodes_inv ino" "files_set ino" "set ns \<subseteq> {2..<length ino}"
  shows "\<exists>ino'. remove_by_seed_loop True seed ns ino = Some (Ret ino') \<and> kept {m \<in> set ns. linked ino m \<and> of_seed seed (ino ! m)} ino ino'"
  using assms
proof (induction ns arbitrary: ino)
  case Nil
  then show ?case using kept_none by simp
next
  case (Cons n ns)
  let ?S = "\<lambda>ns ino. {m \<in> set ns. linked ino m \<and> of_seed seed (ino ! m)}"
  show ?case
  proof (cases "of_seed seed (ino ! n)")
    case False
    have "ino_type (ino ! n) = Type_file \<Longrightarrow> ino_file (ino ! n) \<noteq> None" using Cons.prems(2,3) by (simp add: files_set_def linked_def)
    then have "remove_by_seed_loop True seed (n # ns) ino = remove_by_seed_loop True seed ns ino"
      using False by (auto simp: of_seed_def split: option.splits)
    moreover have "?S (n # ns) ino = ?S ns ino" using False by auto
    ultimately show ?thesis using Cons.IH [OF Cons.prems(1,2)] Cons.prems(3) by simp
  next
    case True
    then have l: "linked ino n" "ino_type (ino ! n) = Type_file" using Cons.prems(3) by (auto simp: of_seed_def linked_def)
    obtain ino1 where r: "evr_inode_remove True ino n = Some (Ret ino1)" "kept {n} ino ino1"
      using kept_remove_file [OF Cons.prems(1,2) l(1)] l(2) by auto
    note k1 = keptD [OF r(2)]
    obtain ino' where r2: "remove_by_seed_loop True seed ns ino1 = Some (Ret ino')" "kept (?S ns ino1) ino1 ino'"
      using Cons.IH [OF k1(1,2)] Cons.prems(3) k1(3) by auto
    have e: "{n} \<union> ?S ns ino1 = ?S (n # ns) ino"
    proof (rule set_eqI)
      fix m
      show "m \<in> {n} \<union> ?S ns ino1 \<longleftrightarrow> m \<in> ?S (n # ns) ino"
        using k1(4,6,8) [of m] l True of_seed_same [of "ino1 ! m" "ino ! m" seed] by (auto simp: of_seed_def)
    qed
    have "remove_by_seed_loop True seed (n # ns) ino = Some (Ret ino')"
      using True l r r2 by (auto simp: of_seed_def split: option.splits)
    with kept_trans [OF r(2) r2(2)] e show ?thesis by metis
  qed
qed

section \<open>Creating\<close>

text \<open>The array with some more inodes.\<close>

definition grown :: "nat set \<Rightarrow> inodes \<Rightarrow> inodes \<Rightarrow> bool" where
  "grown S ino ino' = (inodes_inv ino' \<and> length ino \<le> length ino' \<and>
     (\<forall>m. linked ino' m \<longleftrightarrow> linked ino m \<or> m \<in> S) \<and> (\<forall>m\<in>S. \<not> linked ino m) \<and>
     (\<forall>m. linked ino m \<longrightarrow> same_inode (ino' ! m) (ino ! m)) \<and>
     (\<forall>m ps. inode_path ino m ps \<longrightarrow> inode_path ino' m ps))"

lemma grownD:
  assumes "grown S ino ino'"
  shows "inodes_inv ino'" "length ino \<le> length ino'" "linked ino' m \<longleftrightarrow> linked ino m \<or> m \<in> S" "m \<in> S \<Longrightarrow> \<not> linked ino m"
    "linked ino m \<Longrightarrow> same_inode (ino' ! m) (ino ! m)" "inode_path ino m ps \<Longrightarrow> inode_path ino' m ps"
  using assms unfolding grown_def by blast+

lemma grown_none: "inodes_inv ino \<Longrightarrow> grown {} ino ino"
  by (simp add: grown_def)

lemma grown_trans:
  assumes a: "grown S ino ino1" and b: "grown T ino1 ino2"
  shows "grown (S \<union> T) ino ino2"
proof -
  note aa = grownD [OF a] and bb = grownD [OF b]
  have "same_inode (ino2 ! m) (ino ! m)" if "linked ino m" for m using that aa(3,5) bb(5) same_inode_trans by blast
  moreover have "linked ino2 m \<longleftrightarrow> linked ino m \<or> m \<in> S \<union> T" for m using aa(3) bb(3) by blast
  moreover have "\<not> linked ino m" if "m \<in> S \<union> T" for m using that aa(3,4) bb(4) by blast
  moreover have "inode_path ino2 m ps" if "inode_path ino m ps" for m ps using that aa(6) bb(6) by blast
  moreover have "length ino \<le> length ino2" using aa(2) bb(2) by (rule order_trans)
  ultimately show ?thesis using bb(1) unfolding grown_def by blast
qed

lemma attach_grown:
  assumes inv: "inodes_inv ino" and p: "is_dir ino p" and n: "2 \<le> n" "n < length ino'" "\<not> linked ino n" and len: "length ino \<le> length ino'"
    and at_p: "ino' ! p = (ino ! p)\<lparr>ino_children := ino_children (ino ! p) @ [n]\<rparr>"
    and at_n: "ino_type (ino' ! n) \<noteq> Type_unlinked" "ino_parent (ino' ! n) = p" "ino_name (ino' ! n) = Some nm"
      "ino_type (ino' ! n) = Type_dir \<longrightarrow> ino_children (ino' ! n) = []"
    and others: "\<And>m. linked ino m \<Longrightarrow> m \<noteq> p \<Longrightarrow> ino' ! m = ino ! m"
    and free: "\<And>m. m < length ino' \<Longrightarrow> \<not> linked ino m \<Longrightarrow> m \<noteq> n \<Longrightarrow> 1 \<le> m \<Longrightarrow> ino_type (ino' ! m) = Type_unlinked"
  shows "grown {n} ino ino'"
proof -
  have same: "same_inode (ino' ! m) (ino ! m)" if "linked ino m" for m using that others [of m] at_p by (cases "m = p") auto
  note fld = same_inode_fields [OF same]
  have ch: "ino_children (ino' ! m) = (if m = p then ino_children (ino ! p) @ [n] else ino_children (ino ! m))" if "linked ino m" for m
    using that others [of m] at_p by auto
  have lk: "linked ino' m \<longleftrightarrow> linked ino m \<or> m \<in> {n}" for m
  proof
    assume "linked ino' m"
    then show "linked ino m \<or> m \<in> {n}" using free [of m] by (auto simp: linked_def)
  next
    assume "linked ino m \<or> m \<in> {n}"
    then show "linked ino' m" using fld [of m] n at_n(1) len by (auto simp: linked_def)
  qed
  have path: "inode_path ino' m ps" if "inode_path ino m ps" for m ps
    using that
  proof (induction rule: inode_path.induct)
    case path_root
    then show ?case using lk inode_path.path_root by blast
  next
    case (path_step m ps x)
    from inode_path.path_step [of ino' m ps x] path_step.hyps path_step.IH fld [OF path_step.hyps(2)] lk show ?case by simp
  qed
  obtain ps where ps: "inode_path ino p ps" using inv_path [OF inv] p by blast
  have pn: "inode_path ino' n (ps @ [nm])"
    using inode_path.path_step [of ino' n ps nm] path [OF ps] at_n(2,3) n(1) lk by simp
  have dir: "is_dir ino' q \<longleftrightarrow> is_dir ino q \<or> (q = n \<and> ino_type (ino' ! n) = Type_dir)" for q
    using lk [of q] fld [of q] n(3) by auto
  have "is_dir ino' 1" using dir inv_root [OF inv] by blast
  moreover have "linked ino' c \<and> c \<noteq> 1 \<and> ino_parent (ino' ! c) = q" if q: "is_dir ino' q" "c \<in> set (ino_children (ino' ! q))" for q c
  proof (cases "c = n")
    case True
    then have "q = p" using q dir [of q] ch [of q] at_n(4) inv_child [OF inv, of q n] n(3) by (auto split: if_splits)
    then show ?thesis using True lk at_n(2) n(1) by simp
  next
    case False
    then have "is_dir ino q" "c \<in> set (ino_children (ino ! q))" using q dir [of q] ch [of q] at_n(4) by (auto split: if_splits)
    note ic = inv_child [OF inv this]
    then show ?thesis using lk fld [of c] by simp
  qed
  moreover have "distinct (ino_children (ino' ! q))" if q: "is_dir ino' q" for q
    using dir [of q] q ch [of q] at_n(4) inv_distinct [OF inv, of q] inv_child [OF inv, of q n] n(3) by (auto split: if_splits)
  moreover have "is_dir ino' (ino_parent (ino' ! m)) \<and> m \<in> set (ino_children (ino' ! ino_parent (ino' ! m)))" if m: "linked ino' m" "m \<noteq> 1" for m
  proof (cases "m = n")
    case True
    then show ?thesis using dir [of p] p at_n(2) ch [of p] by simp
  next
    case False
    then have lm: "linked ino m" using lk m by blast
    note ip = inv_parent [OF inv lm m(2)]
    then show ?thesis using fld [OF lm] dir [of "ino_parent (ino ! m)"] ch [of "ino_parent (ino ! m)"] by auto
  qed
  moreover have "\<exists>qs. inode_path ino' m qs" if "linked ino' m" for m using that lk path pn inv_path [OF inv] by blast
  ultimately have "inodes_inv ino'" unfolding inodes_inv_def by (intro conjI allI impI) (blast | metis)+
  then show ?thesis using len lk n(3) same path unfolding grown_def by (intro conjI allI impI ballI) (simp | blast)+
qed

lemma frame_grown:
  assumes inv: "inodes_inv ino" and lk: "\<And>m. linked ino' m \<longleftrightarrow> linked ino m" and val: "\<And>m. linked ino m \<Longrightarrow> ino' ! m = ino ! m"
    and len: "length ino \<le> length ino'"
  shows "grown {} ino ino'"
proof -
  have path: "inode_path ino' m ps" if "inode_path ino m ps" for m ps
    using that
  proof (induction rule: inode_path.induct)
    case path_root
    then show ?case using lk inode_path.path_root by blast
  next
    case (path_step m ps x)
    from inode_path.path_step [of ino' m ps x] path_step.hyps path_step.IH val [OF path_step.hyps(2)] lk show ?case by simp
  qed
  have dir: "is_dir ino' q \<longleftrightarrow> is_dir ino q" for q using lk [of q] val [of q] by auto
  have "is_dir ino' 1" using dir inv_root [OF inv] by blast
  moreover have "linked ino' c \<and> c \<noteq> 1 \<and> ino_parent (ino' ! c) = q" if "is_dir ino' q" "c \<in> set (ino_children (ino' ! q))" for q c
    using that dir [of q] val [of q] val [of c] inv_child [OF inv, of q c] lk [of c] by auto
  moreover have "distinct (ino_children (ino' ! q))" if "is_dir ino' q" for q
    using that dir [of q] val [of q] inv_distinct [OF inv, of q] by simp
  moreover have "is_dir ino' (ino_parent (ino' ! m)) \<and> m \<in> set (ino_children (ino' ! ino_parent (ino' ! m)))" if "linked ino' m" "m \<noteq> 1" for m
    using that lk [of m] val [of m] inv_parent [OF inv, of m] dir [of "ino_parent (ino ! m)"] val [of "ino_parent (ino ! m)"] by simp
  moreover have "\<exists>ps. inode_path ino' m ps" if "linked ino' m" for m using that lk path inv_path [OF inv] by blast
  ultimately have "inodes_inv ino'" unfolding inodes_inv_def by (intro conjI allI impI) (blast | metis)+
  then show ?thesis using lk val path len unfolding grown_def by (intro conjI allI impI ballI) (simp | blast)+
qed

lemma get_available_grown:
  assumes "inodes_inv ino" "evr_inode_get_available junk m ino = (n, ino1)"
  shows "grown {} ino ino1 \<and> length ino1 \<le> 2 * length ino \<and> (mem_inodes m \<longrightarrow> n \<noteq> 0) \<and>
    (n \<noteq> 0 \<longrightarrow> 2 \<le> n \<and> n < length ino1 \<and> \<not> linked ino1 n)"
proof -
  have len: "1 < length ino" using inv_root [OF assms(1)] by (simp add: linked_def)
  show ?thesis
  proof (cases "find (\<lambda>n. ino_type (ino ! n) = Type_unlinked) [FUSE_ROOT_ID + 1..<length ino]")
    case None
    let ?xs = "map (\<lambda>n. (junk n)\<lparr>ino_type := Type_unlinked\<rparr>) [length ino..<2 * length ino]"
    have lk: "linked (ino @ ?xs) k \<longleftrightarrow> linked ino k" for k by (auto simp: linked_def nth_append)
    have "grown {} ino (ino @ ?xs)" by (rule frame_grown [OF assms(1) lk]) (simp_all add: linked_def nth_append)
    moreover have "\<not> linked ino (length ino)" by (simp add: linked_def)
    ultimately show ?thesis using None assms(2) len lk grown_none [OF assms(1)] by (auto simp: evr_inode_get_available_def split: if_splits)
  next
    case (Some k)
    then have k: "k \<in> set [FUSE_ROOT_ID + 1..<length ino]" "ino_type (ino ! k) = Type_unlinked" by (auto simp: find_Some_iff)
    then show ?thesis using Some assms(2) grown_none [OF assms(1)] by (auto simp: evr_inode_get_available_def FUSE_ROOT_ID_def linked_def)
  qed
qed

lemma append_inode_grown:
  assumes inv: "inodes_inv ino" and p: "is_dir ino p" "inode_path ino p ps" and m: "mem_name m"
    and init: "\<And>nd. ino_type (init nd) \<noteq> Type_unlinked \<and> ino_parent (init nd) = ino_parent nd \<and> ino_name (init nd) = ino_name nd \<and>
      (ino_type (init nd) = Type_dir \<longrightarrow> ino_children (init nd) = [])"
  shows "\<exists>r ino'. append_inode init junk m ino p name = Ret (r, ino') \<and> length ino' \<le> 2 * length ino \<and>
    (mem_inodes m \<and> mem_children m \<longrightarrow> r \<noteq> 0) \<and> (r = 0 \<longrightarrow> grown {} ino ino') \<and>
    (r \<noteq> 0 \<longrightarrow> grown {r} ino ino' \<and> r < length ino' \<and> inode_path ino' r (ps @ [name]) \<and> (\<exists>nd. ino' ! r = init nd))"
proof -
  obtain n ino1 where av: "evr_inode_get_available junk m ino = (n, ino1)" by fastforce
  note g = get_available_grown [OF inv av]
  note g1 = grownD [OF conjunct1 [OF g]]
  have p1: "is_dir ino1 p" using g1(3,5) p(1) same_inode_fields by (metis empty_iff)
  then have pl: "p < length ino1" by (simp add: linked_def)
  consider "n = 0" | "n \<noteq> 0" "\<not> mem_children m" | "n \<noteq> 0" "mem_children m" by blast
  then show ?thesis
  proof cases
    case 1
    then show ?thesis using av g by (simp add: append_inode_def)
  next
    case 2
    then show ?thesis using av g p1 pl by (simp add: append_inode_def evr_inode_add_child_def)
  next
    case 3
    let ?ino2 = "ino1[p := (ino1 ! p)\<lparr>ino_children := ino_children (ino1 ! p) @ [n]\<rparr>]"
    let ?nd = "(?ino2 ! n)\<lparr>ino_parent := p, ino_name := Some name\<rparr>"
    let ?ino' = "?ino2[n := init ?nd]"
    have n: "2 \<le> n" "n < length ino1" "\<not> linked ino1 n" "n \<noteq> p" using g 3 p1 by auto
    have r: "append_inode init junk m ino p name = Ret (n, ?ino')"
      using av 3 p1 pl m by (simp add: append_inode_def evr_inode_add_child_def)
    have at_n: "?ino' ! n = init ?nd" using n(2) by simp
    have "grown {n} ino1 ?ino'"
    proof (rule attach_grown [OF g1(1) p1 n(1) _ n(3), where nm = name])
      show "?ino' ! p = (ino1 ! p)\<lparr>ino_children := ino_children (ino1 ! p) @ [n]\<rparr>" using n(4) pl by simp
      show "ino_type (?ino' ! n) \<noteq> Type_unlinked" "ino_parent (?ino' ! n) = p" "ino_name (?ino' ! n) = Some name"
        "ino_type (?ino' ! n) = Type_dir \<longrightarrow> ino_children (?ino' ! n) = []" using init [of ?nd] at_n by simp_all
      show "?ino' ! k = ino1 ! k" if "linked ino1 k" "k \<noteq> p" for k using that n(3) by (cases "k = n") simp_all
      show "ino_type (?ino' ! k) = Type_unlinked" if "k < length ?ino'" "\<not> linked ino1 k" "k \<noteq> n" "1 \<le> k" for k
        using that p1 by (cases "k = p") (auto simp: linked_def)
    qed (use n in simp_all)
    note g2 = grownD [OF this]
    have gr: "grown {n} ino ?ino'" using grown_trans [OF conjunct1 [OF g] \<open>grown {n} ino1 ?ino'\<close>] by simp
    have "inode_path ?ino' n (ps @ [name])"
      using inode_path.path_step [of ?ino' n ps name] g2(6) [OF g1(6) [OF p(2)]] g2(3) [of n] n(1) init [of ?nd] at_n by simp
    with r gr g n at_n 3 show ?thesis by (intro exI [of _ n] exI [of _ ?ino']) (auto simp del: nth_list_update_eq)
  qed
qed

lemma get_child_dir_loop_finds:
  assumes "inodes_inv ino" "is_dir ino p" "set cs \<subseteq> set (ino_children (ino ! p))"
  shows "\<exists>g. get_child_dir_loop ino name cs = Ret g \<and> (g \<noteq> 0 \<longrightarrow> is_dir ino g \<and> g \<noteq> 1 \<and> ino_parent (ino ! g) = p \<and> ino_name (ino ! g) = Some name)"
  using assms(3)
proof (induction cs)
  case (Cons c cs)
  note ic = inv_child [OF assms(1,2), of c]
  have c: "linked ino c" "c \<noteq> 1" "ino_parent (ino ! c) = p" using ic Cons.prems by auto
  obtain ps where "inode_path ino c ps" using inv_path [OF assms(1) c(1)] by blast
  then obtain nm where nm: "ino_name (ino ! c) = Some nm" using path_stepE c(2) by metis
  show ?case using Cons c nm by (auto simp: linked_def)
qed simp

lemma get_child_dir_finds:
  assumes "inodes_inv ino" "is_dir ino p"
  shows "\<exists>g. evr_inode_get_child_dir ino p name = Ret g \<and>
    (g \<noteq> 0 \<longrightarrow> is_dir ino g \<and> g \<noteq> 1 \<and> ino_parent (ino ! g) = p \<and> ino_name (ino ! g) = Some name)"
  using get_child_dir_loop_finds [OF assms order_refl] assms(2) by (simp add: evr_inode_get_child_dir_def linked_def)

text \<open>The names in a path.\<close>

primrec split_path :: "string \<Rightarrow> string \<Rightarrow> string list" where
  "split_path name [] = [name]"
| "split_path name (c # cs) = (if c = CHR ''/'' then name # split_path [] cs else split_path (name @ [c]) cs)"

lemma ino_of_int_id: "n < 2 ^ 31 \<Longrightarrow> ino_of_int n = n"
  by (simp add: ino_of_int_def)

text \<open>What a created file and the directories created for it are.\<close>

definition new_file :: "inodes \<Rightarrow> string list \<Rightarrow> nat \<Rightarrow> inodes \<Rightarrow> bool" where
  "new_file ino ps r ino' = (\<exists>S. grown S ino ino' \<and> (\<forall>s\<in>S - {r}. ino_type (ino' ! s) = Type_dir) \<and>
     (r \<noteq> 0 \<longrightarrow> r \<in> S \<and> ino_type (ino' ! r) = Type_file \<and> ino_file (ino' ! r) = None \<and> inode_path ino' r ps))"

lemma new_file_chain:
  assumes a: "grown S ino ino1" and S: "\<forall>s\<in>S. ino_type (ino1 ! s) = Type_dir" and b: "new_file ino1 ps r ino'"
  shows "new_file ino ps r ino'"
proof -
  obtain T where T: "grown T ino1 ino'" "\<forall>s\<in>T - {r}. ino_type (ino' ! s) = Type_dir"
    "r \<noteq> 0 \<longrightarrow> r \<in> T \<and> ino_type (ino' ! r) = Type_file \<and> ino_file (ino' ! r) = None \<and> inode_path ino' r ps"
    using b by (auto simp: new_file_def)
  have "ino_type (ino' ! s) = Type_dir" if "s \<in> S" for s
    using S that same_inode_fields [OF grownD(5) [OF T(1)]] grownD(3) [OF a] by auto
  then show ?thesis using grown_trans [OF a T(1)] T(2,3) unfolding new_file_def by (intro exI [of _ "S \<union> T"]) auto
qed

lemma create_file_loop_new:
  assumes "inodes_inv ino" "is_dir ino n" "inode_path ino n ps" "\<forall>i. mem_name (m i)" "length ino * 2 ^ length (split_path name cs) \<le> 2 ^ 31"
  shows "\<exists>r ino'. create_file_loop junk m k n name cs ino = Ret (r, ino') \<and> new_file ino (ps @ split_path name cs) r ino' \<and>
    ((\<forall>i. mem_inodes (m i) \<and> mem_children (m i)) \<longrightarrow> r \<noteq> 0) \<and> length ino' \<le> length ino * 2 ^ length (split_path name cs)"
  using assms
proof (induction cs arbitrary: ino n ps name k)
  case Nil
  obtain r ino' where ap: "evr_inode_append_file junk (m k) ino n name = Ret (r, ino')" "length ino' \<le> 2 * length ino"
    "mem_inodes (m k) \<and> mem_children (m k) \<longrightarrow> r \<noteq> 0" "r = 0 \<longrightarrow> grown {} ino ino'"
    "r \<noteq> 0 \<longrightarrow> grown {r} ino ino' \<and> r < length ino' \<and> inode_path ino' r (ps @ [name]) \<and> (\<exists>nd. ino' ! r = nd\<lparr>ino_type := Type_file, ino_file := None\<rparr>)"
    using append_inode_grown [OF Nil.prems(1,2,3) spec [OF Nil.prems(4), of k], of "\<lambda>nd. nd\<lparr>ino_type := Type_file, ino_file := None\<rparr>" junk name]
    by (auto simp: evr_inode_append_file_def)
  have "ino_of_int r = r" using ap(2,5) Nil.prems(5) by (cases "r = 0") (auto intro: ino_of_int_id simp: ino_of_int_def)
  moreover have "new_file ino (ps @ [name]) r ino'" using ap(4,5) by (cases "r = 0") (auto simp: new_file_def)
  ultimately show ?case using ap(1,2,3) by simp
next
  case (Cons c cs)
  show ?case
  proof (cases "c = CHR ''/''")
    case False
    then show ?thesis using Cons.IH [OF Cons.prems(1-4), of "name @ [c]" k] Cons.prems(5) by simp
  next
    case True
    let ?ns = "split_path [] cs"
    have bnd: "2 * length ino * 2 ^ length ?ns \<le> 2 ^ 31" using Cons.prems(5) True by (simp add: mult.assoc mult.left_commute)
    have "(1::nat) \<le> 2 ^ length ?ns" by simp
    then have bnd2: "2 * length ino \<le> 2 ^ 31" using bnd by (metis mult.right_neutral mult_le_mono2 order_trans)
    obtain g where g: "evr_inode_get_child_dir ino n name = Ret g"
      "g \<noteq> 0 \<longrightarrow> is_dir ino g \<and> g \<noteq> 1 \<and> ino_parent (ino ! g) = n \<and> ino_name (ino ! g) = Some name"
      using get_child_dir_finds [OF Cons.prems(1,2)] by blast
    show ?thesis
    proof (cases "g = 0")
      case False
      have "ino_of_int g = g" using g(2) False bnd2 by (intro ino_of_int_id) (auto simp: linked_def)
      moreover have "inode_path ino g (ps @ [name])" using inode_path.path_step [of ino g ps name] g(2) False Cons.prems(3) by simp
      moreover have "length ino * 2 ^ length ?ns \<le> 2 ^ 31" using bnd by simp
      moreover obtain r2 ino2 where "create_file_loop junk m (Suc k) g [] cs ino = Ret (r2, ino2)" "new_file ino ((ps @ [name]) @ ?ns) r2 ino2"
        "(\<forall>i. mem_inodes (m i) \<and> mem_children (m i)) \<longrightarrow> r2 \<noteq> 0" "length ino2 \<le> length ino * 2 ^ length ?ns"
        using Cons.IH [OF Cons.prems(1) _ calculation(2) Cons.prems(4) calculation(3), of "Suc k"] g(2) False by blast
      ultimately show ?thesis using g False True by simp
    next
      case g0: True
      obtain r ino1 where ap: "evr_inode_append_dir junk (m k) ino n name = Ret (r, ino1)" "length ino1 \<le> 2 * length ino"
        "mem_inodes (m k) \<and> mem_children (m k) \<longrightarrow> r \<noteq> 0" "r = 0 \<longrightarrow> grown {} ino ino1"
        "r \<noteq> 0 \<longrightarrow> grown {r} ino ino1 \<and> r < length ino1 \<and> inode_path ino1 r (ps @ [name]) \<and>
          (\<exists>nd. ino1 ! r = nd\<lparr>ino_type := Type_dir, ino_children := [], ino_last_modified := 0, ino_created := 0\<rparr>)"
        using append_inode_grown [OF Cons.prems(1,2,3) spec [OF Cons.prems(4), of k], of "\<lambda>nd. nd\<lparr>ino_type := Type_dir, ino_children := [], ino_last_modified := 0, ino_created := 0\<rparr>" junk name]
        by (auto simp: evr_inode_append_dir_def)
      have id: "ino_of_int r = r" using ap(2,5) bnd2 by (cases "r = 0") (auto intro: ino_of_int_id simp: ino_of_int_def)
      have z: "ino_of_int 0 = 0" by (simp add: ino_of_int_def)
      show ?thesis
      proof (cases "r = 0")
        case True
        have "2 * length ino \<le> 2 * (length ino * 2 ^ length ?ns)" by simp
        with ap(2) have "length ino1 \<le> 2 * (length ino * 2 ^ length ?ns)" by (rule order_trans)
        then have "length ino1 \<le> length ino * 2 ^ length (split_path name (c # cs))"
          using \<open>c = CHR ''/''\<close> by (simp add: mult.left_commute)
        then show ?thesis using \<open>c = CHR ''/''\<close> g g0 ap z True by (auto simp: new_file_def)
      next
        case False
        then have gr: "grown {r} ino ino1" "inode_path ino1 r (ps @ [name])" "ino_type (ino1 ! r) = Type_dir" using ap(5) by auto
        have b1: "length ino1 * 2 ^ length ?ns \<le> 2 ^ 31" using bnd ap(2) by (meson mult_le_mono1 order_trans)
        have d1: "is_dir ino1 r" using gr path_linked by blast
        obtain r2 ino2 where rec: "create_file_loop junk m (Suc k) r [] cs ino1 = Ret (r2, ino2)" "new_file ino1 ((ps @ [name]) @ ?ns) r2 ino2"
          "(\<forall>i. mem_inodes (m i) \<and> mem_children (m i)) \<longrightarrow> r2 \<noteq> 0" "length ino2 \<le> length ino1 * 2 ^ length ?ns"
          using Cons.IH [OF grownD(1) [OF gr(1)] d1 gr(2) Cons.prems(4) b1, of "Suc k"] by auto
        have "new_file ino (ps @ split_path name (c # cs)) r2 ino2"
          using new_file_chain [OF gr(1) _ rec(2)] gr(3) \<open>c = CHR ''/''\<close> by simp
        moreover have "create_file_loop junk m k n name (c # cs) ino = Ret (r2, ino2)"
          using \<open>c = CHR ''/''\<close> g g0 ap(1) z id False rec(1) by simp
        moreover have "length ino2 \<le> 2 * length ino * 2 ^ length ?ns" using rec(4) ap(2) by (meson mult_le_mono1 order_trans)
        then have "length ino2 \<le> length ino * 2 ^ length (split_path name (c # cs))"
          using \<open>c = CHR ''/''\<close> by (simp add: mult.left_commute mult.assoc)
        ultimately show ?thesis using rec(3) by blast
      qed
    qed
  qed
qed

section \<open>Properties\<close>

text \<open>A fresh array holds the root alone.\<close>

lemma create_inodes_inv:
  assumes "evr_create_inodes junk malloc now len = Ret (Some ino)"
  shows "inodes_inv ino \<and> files_set ino \<and> length ino = len \<and> (\<forall>n. linked ino n \<longleftrightarrow> n = 1) \<and> ino_children (ino ! 1) = []"
proof -
  have l: "1 < len" "length ino = len" using assms by (auto simp: evr_create_inodes_def FUSE_ROOT_ID_def split: if_splits)
  have v: "ino ! n = (if n < 1 then junk n else if n = 1 then
      (junk n)\<lparr>ino_parent := 1, ino_name := None, ino_created := now, ino_last_modified := now, ino_type := Type_dir, ino_children := []\<rparr>
      else (junk n)\<lparr>ino_type := Type_unlinked\<rparr>)" if "n < len" for n
    using assms that by (auto simp: evr_create_inodes_def FUSE_ROOT_ID_def split: if_splits)
  have lk: "linked ino n \<longleftrightarrow> n = 1" for n using l v [of n] by (auto simp: linked_def split: if_splits)
  have r: "ino_type (ino ! 1) = Type_dir" "ino_children (ino ! 1) = []" using l v [of 1] by simp_all
  have "inode_path ino 1 []" using lk path_root by blast
  with lk r have "inodes_inv ino" unfolding inodes_inv_def by (intro conjI allI impI) (simp | metis)+
  moreover have "files_set ino" using lk r by (simp add: files_set_def)
  ultimately show ?thesis using l lk r by blast
qed

text \<open>
  C27: a created file is found under its path. When every name can be copied and the table of inodes, doubled for each name of the
  path, has at most \<open>2 ^ 31\<close> entries, creating a file keeps the inodes a tree in which all former inodes keep their path, type and data; the
  returned inode is a new file whose path are the names between the slashes, and all other new
  inodes are directories. With enough memory an inode is returned.
\<close>

theorem create_file_has_path:
  assumes "inodes_inv ino" "\<forall>i. mem_name (m i)" "length ino * 2 ^ length (split_path [] file_path) \<le> 2 ^ 31"
  shows "\<exists>r ino'. evr_inode_create_file junk m ino file_path = Ret (r, ino') \<and> inodes_inv ino' \<and>
    ((\<forall>i. mem_inodes (m i) \<and> mem_children (m i)) \<longrightarrow> r \<noteq> 0) \<and>
    (r \<noteq> 0 \<longrightarrow> \<not> linked ino r \<and> linked ino' r \<and> ino_type (ino' ! r) = Type_file \<and> inode_path ino' r (split_path [] file_path)) \<and>
    (\<forall>n. linked ino n \<longrightarrow> linked ino' n \<and> same_inode (ino' ! n) (ino ! n)) \<and>
    (\<forall>n ps. inode_path ino n ps \<longrightarrow> inode_path ino' n ps) \<and>
    (\<forall>n. linked ino' n \<and> \<not> linked ino n \<and> n \<noteq> r \<longrightarrow> ino_type (ino' ! n) = Type_dir)"
proof -
  have "inode_path ino 1 []" using inv_root [OF assms(1)] path_root by blast
  from create_file_loop_new [OF assms(1) inv_root [OF assms(1)] this assms(2,3), of junk 0] obtain r ino' where
    c: "evr_inode_create_file junk m ino file_path = Ret (r, ino')" "new_file ino (split_path [] file_path) r ino'"
    "(\<forall>i. mem_inodes (m i) \<and> mem_children (m i)) \<longrightarrow> r \<noteq> 0" by (auto simp: evr_inode_create_file_def FUSE_ROOT_ID_def)
  then obtain S where S: "grown S ino ino'" "\<forall>s\<in>S - {r}. ino_type (ino' ! s) = Type_dir"
    "r \<noteq> 0 \<longrightarrow> r \<in> S \<and> ino_type (ino' ! r) = Type_file \<and> inode_path ino' r (split_path [] file_path)" by (auto simp: new_file_def)
  note g = grownD [OF S(1)]
  show ?thesis
    by (intro exI conjI) (use c g S(2,3) in \<open>blast+\<close>)
qed

text \<open>
  C28: removing a file removes nothing else but directories that become empty. On a tree whose
  files have their data the removal of an inode always returns and leaves a tree without the inode; every inode
  that is left keeps its path, type and data, every file that was not under the inode is left, and no directory but the
  root is left empty that was not empty before.
\<close>

theorem remove_prunes_empty_dirs:
  assumes "inodes_inv ino" "files_set ino" "linked ino n" "n \<noteq> FUSE_ROOT_ID"
  shows "\<exists>ino'. evr_inode_remove True ino n = Some (Ret ino') \<and> inodes_inv ino' \<and> files_set ino' \<and> \<not> linked ino' n \<and>
    (\<forall>m. linked ino' m \<longrightarrow> linked ino m \<and> same_inode (ino' ! m) (ino ! m)) \<and>
    (\<forall>m ps. linked ino' m \<and> inode_path ino m ps \<longrightarrow> inode_path ino' m ps) \<and>
    (\<forall>m. linked ino m \<and> ino_type (ino ! m) \<noteq> Type_dir \<and> \<not> below ino n m \<longrightarrow> linked ino' m) \<and>
    (\<forall>m. is_dir ino' m \<and> m \<noteq> FUSE_ROOT_ID \<and> ino_children (ino' ! m) = [] \<longrightarrow> ino_children (ino ! m) = [])"
proof -
  obtain ps where "inode_path ino n ps" using inv_path assms(1,3) by blast
  from inode_remove_prunes [OF assms(1,2) this] assms(4) obtain ino' where
    r: "evr_inode_remove True ino n = Some (Ret ino')" "pruned ino n ino'" by (auto simp: FUSE_ROOT_ID_def)
  note d = prunedD [OF r(2)]
  show ?thesis unfolding FUSE_ROOT_ID_def by (intro exI [of _ ino'] conjI) (use r d in \<open>blast+\<close>)
qed

text \<open>A directory with one file.\<close>

definition demo_inode :: evr_inode where
  "demo_inode = \<lparr>ino_parent = 1, ino_name = None, ino_created = 0, ino_last_modified = 0, ino_type = Type_unlinked, ino_children = [], ino_file = None\<rparr>"

definition demo_inode_file :: evr_inode_file where
  "demo_inode_file = \<lparr>if_file_size = 3, if_file_ref = replicate 30 1, if_seed = replicate 30 2, if_dependent_seeds = []\<rparr>"

definition demo_inodes :: inodes where
  "demo_inodes = [demo_inode, demo_inode\<lparr>ino_type := Type_dir, ino_children := [2]\<rparr>,
     demo_inode\<lparr>ino_type := Type_dir, ino_name := Some ''a'', ino_children := [3]\<rparr>,
     demo_inode\<lparr>ino_type := Type_file, ino_name := Some ''b'', ino_parent := 2, ino_file := Some demo_inode_file\<rparr>]"

lemma demo_linked: "linked demo_inodes n \<longleftrightarrow> n = 1 \<or> n = 2 \<or> n = 3"
proof -
  consider "n = 0" | "n = 1" | "n = 2" | "n = 3" | "4 \<le> n" by linarith
  then show ?thesis by cases (simp_all add: linked_def demo_inodes_def demo_inode_def numeral_2_eq_2 numeral_3_eq_3)
qed

lemma demo_at:
  "demo_inodes ! 1 = demo_inode\<lparr>ino_type := Type_dir, ino_children := [2]\<rparr>"
  "demo_inodes ! 2 = demo_inode\<lparr>ino_type := Type_dir, ino_name := Some ''a'', ino_children := [3]\<rparr>"
  "demo_inodes ! 3 = demo_inode\<lparr>ino_type := Type_file, ino_name := Some ''b'', ino_parent := 2, ino_file := Some demo_inode_file\<rparr>"
  "length demo_inodes = 4"
  by (simp_all add: demo_inodes_def numeral_2_eq_2 numeral_3_eq_3)

lemma demo_paths: "inode_path demo_inodes 1 []" "inode_path demo_inodes 2 [''a'']" "inode_path demo_inodes 3 [''a'', ''b'']"
proof -
  show 1: "inode_path demo_inodes 1 []" using demo_linked path_root by blast
  show 2: "inode_path demo_inodes 2 [''a'']" using path_step [of demo_inodes 2 "[]"] 1 by (simp add: demo_at demo_linked demo_inode_def)
  show "inode_path demo_inodes 3 [''a'', ''b'']" using path_step [of demo_inodes 3 "[''a'']"] 2 by (simp add: demo_at demo_linked demo_inode_def)
qed

lemma demo_inodes_inv: "inodes_inv demo_inodes" "files_set demo_inodes"
proof -
  have d: "is_dir demo_inodes p \<longleftrightarrow> p = 1 \<or> p = 2" for p using demo_linked [of p] demo_at by (auto simp: demo_inode_def)
  have c: "ino_children (demo_inodes ! 1) = [2]" "ino_children (demo_inodes ! 2) = [3]" "ino_parent (demo_inodes ! 2) = 1" "ino_parent (demo_inodes ! 3) = 2"
    "ino_type (demo_inodes ! 1) = Type_dir" "ino_type (demo_inodes ! 2) = Type_dir" "ino_type (demo_inodes ! 3) = Type_file"
    by (simp_all only: demo_at) (simp_all add: demo_inode_def)
  show "inodes_inv demo_inodes" unfolding inodes_inv_def d demo_linked using demo_paths c
    by (intro conjI allI impI) (auto simp del: One_nat_def)
  show "files_set demo_inodes" unfolding files_set_def demo_linked using demo_at by (auto simp: demo_inode_def)
qed

theorem create_file_has_path_witness:
  "\<exists>r ino'. evr_inode_create_file (\<lambda>_. demo_inode) (\<lambda>_. \<lparr>mem_inodes = True, mem_children = True, mem_name = True\<rparr>) demo_inodes ''a/c'' = Ret (r, ino') \<and>
    inode_path ino' r [''a'', ''c''] \<and> inode_path ino' 3 [''a'', ''b'']"
  using create_file_has_path [OF demo_inodes_inv(1), of "\<lambda>_. \<lparr>mem_inodes = True, mem_children = True, mem_name = True\<rparr>" "''a/c''" "\<lambda>_. demo_inode"]
    demo_paths by (auto simp: demo_at)

theorem remove_prunes_empty_dirs_witness:
  "\<exists>ino'. evr_inode_remove True demo_inodes 3 = Some (Ret ino') \<and> \<not> linked ino' 3 \<and> linked ino' 1 \<and> inodes_inv ino'"
  using remove_prunes_empty_dirs [OF demo_inodes_inv, of 3] demo_linked inv_root by (auto simp: FUSE_ROOT_ID_def)

text \<open>
  When the copy of a name fails, the new inode is already among the children of its parent although it stays unlinked;
  the file is reported as not created, and freeing the inodes later panics.
\<close>

theorem failed_name_breaks_tree:
  "\<exists>ino ino'. evr_create_inodes (\<lambda>_. \<lparr>ino_parent = 0, ino_name = None, ino_created = 0, ino_last_modified = 0, ino_type = Type_unlinked, ino_children = [], ino_file = None\<rparr>)
      True 0 4 = Ret (Some ino) \<and>
    evr_inode_create_file (\<lambda>_. ino ! 2) (\<lambda>_. \<lparr>mem_inodes = True, mem_children = True, mem_name = False\<rparr>) ino ''a'' = Ret (0, ino') \<and>
    evr_free_inodes (Some ino) = Some (Ret ()) \<and> evr_free_inodes (Some ino') = Some Panic"
  by (simp add: evr_create_inodes_def FUSE_ROOT_ID_def evr_inode_create_file_def evr_inode_append_file_def append_inode_def
      evr_inode_get_available_def evr_inode_add_child_def evr_free_inodes_def evr_free_inode_and_children_def
      free_inodes.simps upt_conv_Cons ino_of_int_def)

end
