(* ===== verification/Bucket_Io.thy ===== *)
theory Bucket_Io
  imports Files
begin

text \<open>
  The system calls the glacier makes on its directory, and its bucket files. A world holds the
  files, the directory's names in the order \<^verbatim>\<open>readdir\<close> lists them, the index database and a
  schedule of what the coming system calls do: serve the call, serve it in part, or fail.
  Every theorem over all worlds is therefore one over all ways the calls can fail.

  Descriptors of bucket files implement the file interfaces of \<open>Files\<close>: the interpretations
  \<open>bk\<close>, \<open>bk_rel\<close> and \<open>bk_wr\<close> make the verified transfer loops available for them.
\<close>

section \<open>Worlds and system calls\<close>

datatype file_id = Stdout | File string

record 'd world =
  w_files :: "file_id \<Rightarrow> bytes option"
  w_dir :: "string list"
  w_io :: "io list"
  w_db :: 'd

record fd =
  fd_id :: file_id
  fd_off :: nat

definition next_call :: "'d world \<Rightarrow> io \<times> 'd world" where
  "next_call w = (case w_io w of [] \<Rightarrow> (Io_full, w) | x # xs \<Rightarrow> (x, w\<lparr>w_io := xs\<rparr>))"

text \<open>A call that only succeeds or fails, such as \<^verbatim>\<open>lseek\<close>, \<^verbatim>\<open>fdatasync\<close> and \<^verbatim>\<open>close\<close>.\<close>

definition sys_call :: "'d world \<Rightarrow> bool \<times> 'd world" where
  "sys_call w = (case next_call w of (x, w') \<Rightarrow> (case x of Io_fail _ \<Rightarrow> False | _ \<Rightarrow> True, w'))"

definition content :: "'d world \<Rightarrow> file_id \<Rightarrow> bytes" where
  "content w i = (case w_files w i of None \<Rightarrow> [] | Some c \<Rightarrow> c)"

text \<open>A write behind the end of a file fills the gap with zeros.\<close>

definition write_at :: "bytes \<Rightarrow> nat \<Rightarrow> bytes \<Rightarrow> bytes" where
  "write_at c i b = (if b = [] then c else overwrite (c @ replicate (i - length c) 0) i b)"

definition put_file :: "'d world \<Rightarrow> fd \<Rightarrow> bytes \<Rightarrow> 'd world" where
  "put_file w f b = (if b = [] then w
     else w\<lparr>w_files := (w_files w)(fd_id f \<mapsto> write_at (content w (fd_id f)) (fd_off f) b)\<rparr>)"

definition sys_read :: "('d world \<times> fd) reader" where
  "sys_read = (\<lambda>(w, f) n.
    (case next_call w of (x, w1) \<Rightarrow>
       case x of
         Io_fail e \<Rightarrow> (Read_fail, (w1, f))
       | _ \<Rightarrow> let b = take (io_amount x n) (drop (fd_off f) (content w1 (fd_id f)))
              in (Read_bytes b, (w1, f\<lparr>fd_off := fd_off f + length b\<rparr>))))"

definition sys_write :: "('d world \<times> fd) writer" where
  "sys_write = (\<lambda>(w, f) b.
    (case next_call w of (x, w1) \<Rightarrow>
       case x of
         Io_fail e \<Rightarrow> (Write_fail e, (w1, f))
       | _ \<Rightarrow> let k = io_amount x (length b)
              in (Written k, (put_file w1 f (take k b), f\<lparr>fd_off := fd_off f + k\<rparr>))))"

text \<open>
  \<^verbatim>\<open>open\<close> without flags needs the file, with \<^verbatim>\<open>O_CREAT | O_EXCL\<close> it must not exist.
  The results hold the descriptor, \<open>None\<close> for \<open>-1\<close>.
\<close>

definition sys_open :: "'d world \<Rightarrow> string \<Rightarrow> bool \<Rightarrow> fd option \<times> 'd world" where
  "sys_open w name create =
    (case sys_call w of (ok, w1) \<Rightarrow>
       if \<not> ok then (None, w1)
       else if create then
         (if w_files w1 (File name) \<noteq> None then (None, w1)
          else (Some \<lparr>fd_id = File name, fd_off = 0\<rparr>,
                w1\<lparr>w_files := (w_files w1)(File name \<mapsto> []), w_dir := w_dir w1 @ [name]\<rparr>))
       else (case w_files w1 (File name) of
              None \<Rightarrow> (None, w1) | Some c \<Rightarrow> (Some \<lparr>fd_id = File name, fd_off = 0\<rparr>, w1)))"

text \<open>\<^verbatim>\<open>lseek\<close> with \<^verbatim>\<open>SEEK_SET\<close> and with \<^verbatim>\<open>SEEK_END\<close> and offset zero, the latter with its result.\<close>

definition sys_seek :: "'d world \<Rightarrow> fd \<Rightarrow> nat \<Rightarrow> bool \<times> 'd world \<times> fd" where
  "sys_seek w f off = (case sys_call w of (ok, w1) \<Rightarrow> (ok, w1, if ok then f\<lparr>fd_off := off\<rparr> else f))"

definition sys_seek_end :: "'d world \<Rightarrow> fd \<Rightarrow> nat option \<times> 'd world \<times> fd" where
  "sys_seek_end w f = (case sys_call w of (ok, w1) \<Rightarrow>
     if \<not> ok then (None, w1, f)
     else let n = length (content w1 (fd_id f)) in (Some n, w1, f\<lparr>fd_off := n\<rparr>))"

section \<open>Only the schedule changes\<close>

definition same_world :: "'d world \<Rightarrow> 'd world \<Rightarrow> bool" where
  "same_world w w' = (\<exists>io. w' = w\<lparr>w_io := io\<rparr> \<and> set io \<subseteq> set (w_io w))"

lemma same_world_refl [simp, intro]: "same_world w w"
  unfolding same_world_def by (rule exI [of _ "w_io w"]) simp

lemma same_world_trans [trans]: "same_world a b \<Longrightarrow> same_world b c \<Longrightarrow> same_world a c"
  by (fastforce simp: same_world_def)

lemma same_world_fields:
  assumes "same_world w w'"
  shows "w_files w' = w_files w" "w_dir w' = w_dir w" "w_db w' = w_db w" "content w' = content w"
    "set (w_io w') \<subseteq> set (w_io w)"
  using assms by (auto simp: same_world_def content_def fun_eq_iff)

lemma next_call_same: "next_call w = (x, w') \<Longrightarrow> same_world w w' \<and> (x = Io_full \<or> x \<in> set (w_io w))"
  by (cases "w_io w") (auto simp: next_call_def same_world_def)

lemma sys_call_same: "sys_call w = (ok, w') \<Longrightarrow> same_world w w'"
  using next_call_same by (fastforce simp: sys_call_def split: prod.splits)

lemma sys_seek_same:
  "sys_seek w f off = (ok, w', f') \<Longrightarrow> same_world w w' \<and> fd_id f' = fd_id f \<and> (ok \<longrightarrow> fd_off f' = off)"
  using sys_call_same by (fastforce simp: sys_seek_def split: prod.splits)

lemma sys_seek_end_same:
  assumes "sys_seek_end w f = (r, w', f')"
  shows "same_world w w' \<and> fd_id f' = fd_id f \<and> (r = None \<or> r = Some (length (content w (fd_id f))))"
proof (cases "sys_call w")
  case (Pair ok w1)
  with sys_call_same [OF Pair] same_world_fields(4) [of w w1] assms show ?thesis
    by (auto simp: sys_seek_end_def Let_def split: if_splits)
qed

definition calls_ok :: "'d world \<Rightarrow> bool" where
  "calls_ok w = (\<forall>x\<in>set (w_io w). \<forall>e. x \<noteq> Io_fail e)"

lemma calls_ok_same: "calls_ok w \<Longrightarrow> same_world w w' \<Longrightarrow> calls_ok w'"
  using same_world_fields(5) [of w w'] by (auto simp: calls_ok_def)

lemma sys_call_ok: "calls_ok w \<Longrightarrow> sys_call w = (ok, w') \<Longrightarrow> ok"
  by (auto simp: sys_call_def next_call_def calls_ok_def split: list.splits io.splits prod.splits)

lemma sys_seek_ok: "calls_ok w \<Longrightarrow> sys_seek w f off = (ok, w', f') \<Longrightarrow> ok"
  using sys_call_ok by (fastforce simp: sys_seek_def split: prod.splits)

section \<open>Bucket files as files\<close>

text \<open>Reading from a file leaves the world as it was.\<close>

definition bk_valid :: "'d world \<Rightarrow> file_id \<Rightarrow> 'd world \<times> fd \<Rightarrow> bool" where
  "bk_valid w0 i s = (same_world w0 (fst s) \<and> fd_id (snd s) = i)"

definition bk_stream :: "'d world \<times> fd \<Rightarrow> bytes" where
  "bk_stream s = drop (fd_off (snd s)) (content (fst s) (fd_id (snd s)))"

lemma sys_read_cases:
  assumes "sys_read s n = (r, s')"
  obtains (fail) e where "r = Read_fail" "same_world (fst s) (fst s')" "snd s' = snd s"
      "Io_fail e \<in> set (w_io (fst s))"
  | (bytes) k where "k \<le> n" "0 < n \<longrightarrow> 0 < k" "r = Read_bytes (take k (bk_stream s))"
      "same_world (fst s) (fst s')" "fd_id (snd s') = fd_id (snd s)"
      "bk_stream s' = drop k (bk_stream s)"
proof -
  obtain w f where s: "s = (w, f)" by fastforce
  obtain x w1 where nc: "next_call w = (x, w1)" by fastforce
  note same = next_call_same [OF nc]
  note fields = same_world_fields [OF conjunct1 [OF same]]
  show thesis
  proof (cases "\<exists>e. x = Io_fail e")
    case True
    then obtain e where "x = Io_fail e" by blast
    with assms s nc same show thesis by (intro fail [of e]) (auto simp: sys_read_def)
  next
    case False
    let ?b = "take (io_amount x n) (drop (fd_off f) (content w (fd_id f)))"
    have "r = Read_bytes ?b" "s' = (w1, f\<lparr>fd_off := fd_off f + length ?b\<rparr>)"
      using assms s nc False fields by (auto simp: sys_read_def Let_def split: io.splits)
    with s same fields io_amount_le [where x = x and n = n] show thesis
      by (intro bytes [of "io_amount x n"]) (auto simp: bk_stream_def min_def add.commute)
  qed
qed

lemma sys_read_same: "sys_read s n = (r, s') \<Longrightarrow> same_world (fst s) (fst s')"
  by (elim sys_read_cases) auto

interpretation bk: evr_reader sys_read bk_stream "bk_valid w0 i" for w0 i
proof unfold_locales
  fix f n bs f'
  assume v: "bk_valid w0 i f"
  show "sys_read f n = (Read_bytes bs, f') \<Longrightarrow>
      length bs \<le> n \<and> bk_stream f = bs @ bk_stream f' \<and> bk_valid w0 i f'"
    using v same_world_trans by (elim sys_read_cases) (auto simp: bk_valid_def)
  show "0 < n \<Longrightarrow> sys_read f n = (Read_bytes [], f') \<Longrightarrow> bk_stream f = []"
    by (elim sys_read_cases) auto
  show "sys_read f n = (Read_fail, f') \<Longrightarrow> bk_stream f' = bk_stream f \<and> bk_valid w0 i f'"
    using v same_world_trans same_world_fields(4) [of "fst f" "fst f'"]
    by (elim sys_read_cases) (auto simp: bk_valid_def bk_stream_def)
qed

interpretation bk_rel: evr_reliable_reader sys_read bk_stream "\<lambda>s. bk_valid w0 i s \<and> calls_ok (fst s)" for w0 i
proof unfold_locales
  fix f n bs f'
  assume v: "bk_valid w0 i f \<and> calls_ok (fst f)"
  show "sys_read f n = (Read_bytes bs, f') \<Longrightarrow> length bs \<le> n \<and> bk_stream f = bs @ bk_stream f' \<and>
      bk_valid w0 i f' \<and> calls_ok (fst f')"
    using v bk.rd_bytes calls_ok_same sys_read_same by blast
  show "0 < n \<Longrightarrow> sys_read f n = (Read_bytes [], f') \<Longrightarrow> bk_stream f = []"
    using v bk.rd_end by blast
  show "sys_read f n = (Read_fail, f') \<Longrightarrow> bk_stream f' = bk_stream f \<and> bk_valid w0 i f' \<and> calls_ok (fst f')"
    using v bk.rd_fail calls_ok_same sys_read_same by blast
  obtain r s where r: "sys_read f n = (r, s)" by (cases "sys_read f n")
  then have "\<exists>bs. r = Read_bytes bs" using v by (elim sys_read_cases) (auto simp: calls_ok_def)
  with r show "\<exists>bs f'. sys_read f n = (Read_bytes bs, f')" by blast
qed

text \<open>
  Writing: the bytes that were written since the start at the offset of \<open>f0\<close> lie at that offset,
  and nothing else changed.
\<close>

definition bk_sink :: "fd \<Rightarrow> 'd world \<times> fd \<Rightarrow> bytes" where
  "bk_sink f0 s = take (fd_off (snd s) - fd_off f0) (drop (fd_off f0) (content (fst s) (fd_id f0)))"

definition bk_wvalid :: "'d world \<Rightarrow> fd \<Rightarrow> 'd world \<times> fd \<Rightarrow> bool" where
  "bk_wvalid w0 f0 s = (snd s = f0\<lparr>fd_off := fd_off f0 + length (bk_sink f0 s)\<rparr> \<and>
     same_world (put_file w0 f0 (bk_sink f0 s)) (fst s))"

lemma write_at_append:
  "write_at (write_at c i a) (i + length a) b = write_at c i (a @ b)"
  by (cases "i \<le> length c") (auto simp: write_at_def overwrite_def min_def add.commute add.left_commute)

lemma take_drop_write_at: "b \<noteq> [] \<Longrightarrow> take (length b) (drop i (write_at c i b)) = b"
  by (simp add: write_at_def overwrite_def)

lemma length_write_at: "b \<noteq> [] \<Longrightarrow> length (write_at c i b) = max (length c) (i + length b)"
  by (auto simp: write_at_def)

lemma take_write_at: "n \<le> i \<Longrightarrow> n \<le> length c \<Longrightarrow> take n (write_at c i b) = take n c"
  by (simp add: write_at_def)

lemma content_put_file:
  "content (put_file w f b) i = (if i = fd_id f then write_at (content w i) (fd_off f) b else content w i)"
  by (auto simp: put_file_def content_def write_at_def)

lemma put_file_append:
  "put_file (put_file w f a) (f\<lparr>fd_off := fd_off f + length a\<rparr>) b = put_file w f (a @ b)"
  using write_at_append [of "content w (fd_id f)" "fd_off f" a b]
  by (auto simp: put_file_def content_def)

lemma put_file_fields [simp]:
  "w_io (put_file w f b) = w_io w" "w_dir (put_file w f b) = w_dir w" "w_db (put_file w f b) = w_db w"
  by (simp_all add: put_file_def)

lemma same_world_put_file: "same_world w w' \<Longrightarrow> same_world (put_file w f b) (put_file w' f b)"
  by (cases w) (auto simp: same_world_def put_file_def content_def)

lemma sys_write_cases:
  assumes "sys_write (w, f) b = (r, (w', f'))"
  obtains (fail) e where "r = Write_fail e" "same_world w w'" "f' = f" "Io_fail e \<in> set (w_io w)"
  | (written) k where "r = Written k" "k \<le> length b" "b \<noteq> [] \<longrightarrow> 0 < k"
      "same_world (put_file w f (take k b)) w'" "f' = f\<lparr>fd_off := fd_off f + k\<rparr>"
proof -
  obtain x w1 where nc: "next_call w = (x, w1)" by fastforce
  note same = next_call_same [OF nc]
  show thesis
  proof (cases "\<exists>e. x = Io_fail e")
    case True
    then obtain e where "x = Io_fail e" by blast
    with assms nc same show thesis by (intro fail [of e]) (auto simp: sys_write_def)
  next
    case False
    let ?k = "io_amount x (length b)"
    have eq: "r = Written ?k" "f' = f\<lparr>fd_off := fd_off f + ?k\<rparr>"
      "w' = put_file w1 f (take ?k b)"
      using assms nc False by (auto simp: sys_write_def Let_def split: io.splits)
    show thesis
    proof (rule written [of ?k])
      show "same_world (put_file w f (take ?k b)) w'"
        using same_world_put_file [OF conjunct1 [OF same], of f "take ?k b"] eq(3) by simp
    qed (use eq io_amount_le [where x = x and n = "length b"] in auto)
  qed
qed


lemma bk_wvalid_write:
  assumes "bk_wvalid w0 f0 s" "sys_write s b = (Written k, s')"
  shows "k \<le> length b \<and> bk_sink f0 s' = bk_sink f0 s @ take k b \<and> bk_wvalid w0 f0 s'"
proof -
  obtain w f w' f' where s: "s = (w, f)" "s' = (w', f')" by (metis surj_pair)
  define a where "a = bk_sink f0 s"
  have f: "f = f0\<lparr>fd_off := fd_off f0 + length a\<rparr>" and w: "same_world (put_file w0 f0 a) w"
    using assms(1) s(1) by (simp_all add: bk_wvalid_def a_def)
  from assms(2) s have k: "k \<le> length b" "same_world (put_file w f (take k b)) w'"
    "f' = f\<lparr>fd_off := fd_off f + k\<rparr>" by (auto elim: sys_write_cases)
  define c where "c = a @ take k b"
  have len: "length c = length a + k" using k(1) by (simp add: c_def)
  have w': "same_world (put_file w0 f0 c) w'"
    using same_world_trans [OF same_world_put_file [OF w, of f "take k b"] k(2)]
    by (simp add: put_file_append f c_def)
  have f': "f' = f0\<lparr>fd_off := fd_off f0 + length c\<rparr>" using k(3) f len by simp
  have "content w' (fd_id f0) = write_at (content w0 (fd_id f0)) (fd_off f0) c"
    using same_world_fields(4) [OF w'] by (simp add: content_put_file)
  then have sink: "bk_sink f0 s' = c"
    using f' s(2) take_drop_write_at [of c "fd_off f0"] by (cases "c = []") (simp_all add: bk_sink_def)
  have "bk_wvalid w0 f0 s'" using w' f' s(2) sink by (simp add: bk_wvalid_def)
  with k(1) sink show ?thesis by (simp add: c_def a_def)
qed

lemma bk_wvalid_fail:
  assumes "bk_wvalid w0 f0 s" "sys_write s b = (Write_fail e, s')"
  shows "bk_sink f0 s' = bk_sink f0 s \<and> bk_wvalid w0 f0 s'"
proof -
  obtain w f w' f' where s: "s = (w, f)" "s' = (w', f')" by (metis surj_pair)
  from assms(2) s have k: "same_world w w'" "f' = f" by (auto elim: sys_write_cases)
  have "bk_sink f0 s' = bk_sink f0 s" using same_world_fields(4) [OF k(1)] k(2) s by (simp add: bk_sink_def)
  with assms(1) k s same_world_trans show ?thesis by (auto simp: bk_wvalid_def)
qed

interpretation bk_wr: evr_writer sys_write "bk_sink f0" "bk_wvalid w0 f0" for w0 f0
  by unfold_locales (use bk_wvalid_write bk_wvalid_fail in blast)+

text \<open>
  What the loops do to a bucket file: \<^verbatim>\<open>write_n\<close> puts a prefix of the bytes at the offset, all of
  them when it succeeds, and leaves the rest of the world alone; \<^verbatim>\<open>read_n\<close> changes nothing.
\<close>

lemma write_n_world:
  assumes "write_n sys_write (w, f) b = (code, (w', f'))"
  shows "\<exists>k\<le>length b. same_world (put_file w f (take k b)) w' \<and> f' = f\<lparr>fd_off := fd_off f + k\<rparr> \<and>
    (code = Evr_ok \<longrightarrow> k = length b)"
proof -
  have v: "bk_wvalid w f (w, f)" by (simp add: bk_wvalid_def bk_sink_def put_file_def)
  have "bk_sink f (w, f) = []" by (simp add: bk_sink_def)
  with bk_wr.write_n_sink [OF v assms] obtain k where k: "k \<le> length b"
    "bk_sink f (w', f') = take k b" "code = Evr_ok \<longrightarrow> k = length b" "bk_wvalid w f (w', f')" by auto
  then have "same_world (put_file w f (take k b)) w'" "f' = f\<lparr>fd_off := fd_off f + k\<rparr>"
    by (auto simp: bk_wvalid_def min_def)
  with k show ?thesis by blast
qed

lemma read_n_world:
  assumes "read_n sys_read se (w, f) n ctx = (code, bs, ctx', (w', f'))"
  shows "same_world w w' \<and> fd_id f' = fd_id f \<and>
    (code = Evr_ok \<longrightarrow> bs = take n (drop (fd_off f) (content w (fd_id f))) \<and> length bs = n)"
proof -
  have v: "bk_valid w (fd_id f) (w, f)" by (simp add: bk_valid_def)
  from bk.read_n_stream [OF v assms] show ?thesis
    by (auto simp: bk_valid_def bk_stream_def)
qed

text \<open>With calls that do not fail the loops succeed, however short the transfers are.\<close>

lemma calls_ok_put_file [simp]: "calls_ok (put_file w f b) = calls_ok w"
  by (simp add: calls_ok_def)

lemma write_n_calls_ok:
  assumes "calls_ok w" "write_n sys_write (w, f) b = (r, (w', f'))"
  shows "r = Evr_ok \<and> calls_ok w'"
  using assms
proof (induction "length b" arbitrary: b w f rule: less_induct)
  case less
  show ?case
  proof (cases "b = []")
    case True
    with less.prems show ?thesis by simp
  next
    case False
    obtain x w1 f1 where s: "sys_write (w, f) b = (x, (w1, f1))" using prod_cases3 by blast
    then show ?thesis
    proof (cases rule: sys_write_cases)
      case (fail e)
      with less.prems(1) show ?thesis by (auto simp: calls_ok_def)
    next
      case (written k)
      have ok1: "calls_ok w1" using calls_ok_same [OF _ written(4)] less.prems(1) by simp
      have "write_n sys_write (w1, f1) (drop k b) = (r, (w', f'))"
        using less.prems(2) s written False by (simp add: write_n.simps [of sys_write "(w, f)" b])
      moreover have "length (drop k b) < length b" using written(3) False by (cases b) auto
      ultimately show ?thesis using less.hyps ok1 by blast
    qed
  qed
qed

lemma read_n_calls_ok:
  assumes "calls_ok w" "\<And>c b. fst (se c b) = Evr_ok" "read_n sys_read se (w, f) n ctx = (r, bs, ctx', (w', f'))"
  shows "calls_ok w' \<and> bs = take n (drop (fd_off f) (content w (fd_id f))) \<and>
    r = (if n \<le> length (content w (fd_id f)) - fd_off f then Evr_ok else Evr_end)"
proof -
  have "bk_valid w (fd_id f) (w, f) \<and> calls_ok (fst (w, f))" using assms(1) by (simp add: bk_valid_def)
  from bk_rel.read_n_reliable [of se w "fd_id f" "(w, f)" n ctx, OF assms(2) this] assms(3) show ?thesis
    by (auto simp: bk_stream_def)
qed

end
