(* ===== verification/Index_Db.thy ===== *)
theory Index_Db
  imports Bucket_Io "HOL-Library.List_Lexorder"
begin

text \<open>
  The index database of the glacier. It is a SQLite database, code outside of this repository: the
  record \<open>index_db\<close> is the parameter that stands for it, with one field per statement the
  sources prepare. The locale \<open>sqlite_index\<close> names what the sources rely on (the documented effect
  of the statements on the two tables, also when a statement fails), and
  \<open>sqlite_reliable\<close> adds that no statement fails. Both are interpreted on \<open>table_ops\<close>,
  a database that keeps the tables as lists.
\<close>

section \<open>The statements\<close>

text \<open>
  The integer columns hold what \<^verbatim>\<open>sqlite3_bind_int\<close> and \<^verbatim>\<open>sqlite3_bind_int64\<close> take, values of
  32 and 64 bits.
\<close>

record blob_row =
  br_key :: bytes
  br_flags :: c_int
  br_bucket_index :: "64 word"
  br_offset :: "32 word"
  br_size :: "32 word"
  br_last_modified :: evr_time

text \<open>
  What a statement that changes the database does: it is done, it violates a primary key, it fails,
  or one of its parameters can not be bound. \<^verbatim>\<open>sqlite3_reset\<close> returns an error exactly when the
  preceding step did.
\<close>

datatype sql_res = Sql_done | Sql_constraint | Sql_fail | Sql_bind_fail

datatype 'a sql_row = Sql_row 'a | Sql_no_row | Sql_row_fail | Sql_row_bind_fail

text \<open>The rows a query delivers, and whether it ends with \<^verbatim>\<open>SQLITE_DONE\<close> or with an error.\<close>

type_synonym sql_rows = "blob_row list \<times> bool"

datatype sort_order = By_last_modified | By_ref

record 'd index_db =
  ix_open :: "'d \<Rightarrow> bool \<times> 'd"
  ix_create_tables :: "'d \<Rightarrow> bool \<times> 'd"
  ix_unlink :: "'d \<Rightarrow> bool \<times> 'd"
  ix_insert_blob :: "'d \<Rightarrow> blob_row \<Rightarrow> sql_res \<times> 'd"
  ix_find_blob :: "'d \<Rightarrow> bytes \<Rightarrow> blob_row sql_row"
  ix_list_blobs :: "'d \<Rightarrow> sort_order \<Rightarrow> 64 word \<Rightarrow> sql_rows option"
  ix_latest_blobs :: "'d \<Rightarrow> sql_rows option"
  ix_random_blobs :: "'d \<Rightarrow> sql_rows option"
  ix_insert_bucket :: "'d \<Rightarrow> 32 word \<Rightarrow> sql_res \<times> 'd"
  ix_update_bucket :: "'d \<Rightarrow> 32 word \<Rightarrow> 32 word \<Rightarrow> sql_res \<times> 'd"
  ix_find_bucket :: "'d \<Rightarrow> 32 word \<Rightarrow> 32 word sql_row"

definition evr_bucket_header_size :: nat where [evr_layout]: "evr_bucket_header_size = 7"

section \<open>What the sources rely on\<close>

text \<open>
  The tables as maps: \<open>blobs\<close> by key, \<open>buckets\<close> from the bucket index to the end offset. A
  statement that does not succeed leaves the tables as they are. The column \<^verbatim>\<open>end_offset\<close> defaults
  to the size of the bucket header.
\<close>

locale sqlite_index =
  fixes S :: "'d index_db"
    and blobs :: "'d \<Rightarrow> bytes \<Rightarrow> blob_row option" and buckets :: "'d \<Rightarrow> 32 word \<Rightarrow> 32 word option"
  assumes open_keeps: "ix_open S d = (ok, d') \<Longrightarrow> blobs d' = blobs d \<and> buckets d' = buckets d"
    and create_keeps: "ix_create_tables S d = (ok, d') \<Longrightarrow> blobs d' = blobs d \<and> buckets d' = buckets d"
    and unlink_empty: "ix_unlink S d = (True, d') \<Longrightarrow> blobs d' = (\<lambda>_. None) \<and> buckets d' = (\<lambda>_. None)"
    and unlink_fail: "ix_unlink S d = (False, d') \<Longrightarrow> blobs d' = blobs d \<and> buckets d' = buckets d"
    and insert_blob_done: "ix_insert_blob S d r = (Sql_done, d') \<Longrightarrow>
      blobs d (br_key r) = None \<and> blobs d' = (blobs d)(br_key r \<mapsto> r) \<and> buckets d' = buckets d"
    and insert_blob_constraint: "ix_insert_blob S d r = (Sql_constraint, d') \<Longrightarrow> blobs d (br_key r) \<noteq> None"
    and insert_blob_keeps: "ix_insert_blob S d r = (res, d') \<Longrightarrow> res \<noteq> Sql_done \<Longrightarrow>
      blobs d' = blobs d \<and> buckets d' = buckets d"
    and find_blob_row: "ix_find_blob S d k = Sql_row r \<Longrightarrow> blobs d k = Some r \<and> br_key r = k"
    and find_blob_none: "ix_find_blob S d k = Sql_no_row \<Longrightarrow> blobs d k = None"
    and list_blobs_rows: "ix_list_blobs S d so t = Some (rows, True) \<Longrightarrow>
      distinct rows \<and> set rows = {r. blobs d (br_key r) = Some r \<and> sint t \<le> sint (br_last_modified r)} \<and>
      (so = By_last_modified \<longrightarrow> sorted (map (sint \<circ> br_last_modified) rows)) \<and>
      (so = By_ref \<longrightarrow> sorted (map br_key rows))"
    and list_blobs_part: "ix_list_blobs S d so t = Some (rows, False) \<Longrightarrow>
      set rows \<subseteq> {r. blobs d (br_key r) = Some r \<and> sint t \<le> sint (br_last_modified r)}"
    and insert_bucket_done: "ix_insert_bucket S d i = (Sql_done, d') \<Longrightarrow>
      buckets d i = None \<and> buckets d' = (buckets d)(i \<mapsto> word_of_nat evr_bucket_header_size) \<and> blobs d' = blobs d"
    and insert_bucket_keeps: "ix_insert_bucket S d i = (res, d') \<Longrightarrow> res \<noteq> Sql_done \<Longrightarrow>
      blobs d' = blobs d \<and> buckets d' = buckets d"
    and update_bucket_done: "ix_update_bucket S d e i = (Sql_done, d') \<Longrightarrow>
      buckets d' = (if buckets d i = None then buckets d else (buckets d)(i \<mapsto> e)) \<and> blobs d' = blobs d"
    and update_bucket_keeps: "ix_update_bucket S d e i = (res, d') \<Longrightarrow> res \<noteq> Sql_done \<Longrightarrow>
      blobs d' = blobs d \<and> buckets d' = buckets d"
    and find_bucket_row: "ix_find_bucket S d i = Sql_row e \<Longrightarrow> buckets d i = Some e"
    and find_bucket_none: "ix_find_bucket S d i = Sql_no_row \<Longrightarrow> buckets d i = None"

text \<open>No statement fails but for the primary keys.\<close>

locale sqlite_reliable = sqlite_index +
  assumes open_ok: "fst (ix_open S d)" and create_ok: "fst (ix_create_tables S d)"
    and unlink_ok: "fst (ix_unlink S d)"
    and insert_blob_ok: "fst (ix_insert_blob S d r) \<in> {Sql_done, Sql_constraint}"
    and find_blob_ok: "ix_find_blob S d k \<notin> {Sql_row_fail, Sql_row_bind_fail}"
    and insert_bucket_ok: "fst (ix_insert_bucket S d i) = (if buckets d i = None then Sql_done else Sql_constraint)"
    and update_bucket_ok: "fst (ix_update_bucket S d e i) = Sql_done"
    and find_bucket_ok: "ix_find_bucket S d i \<notin> {Sql_row_fail, Sql_row_bind_fail}"

section \<open>A database of lists\<close>

record table_db =
  tb_blobs :: "blob_row list"
  tb_buckets :: "(32 word \<times> 32 word) list"

definition table_find :: "table_db \<Rightarrow> bytes \<Rightarrow> blob_row option" where
  "table_find d = map_of (map (\<lambda>r. (br_key r, r)) (tb_blobs d))"

definition table_bucket :: "table_db \<Rightarrow> 32 word \<Rightarrow> 32 word option" where
  "table_bucket d = map_of (tb_buckets d)"

definition table_rows :: "table_db \<Rightarrow> blob_row list" where
  "table_rows d = filter (\<lambda>r. table_find d (br_key r) = Some r) (remdups (tb_blobs d))"

definition row_to_option :: "'a option \<Rightarrow> 'a sql_row" where
  "row_to_option x = (case x of None \<Rightarrow> Sql_no_row | Some r \<Rightarrow> Sql_row r)"

definition table_ops :: "table_db index_db" where
  "table_ops =
    \<lparr>ix_open = \<lambda>d. (True, d), ix_create_tables = \<lambda>d. (True, d),
     ix_unlink = \<lambda>d. (True, \<lparr>tb_blobs = [], tb_buckets = []\<rparr>),
     ix_insert_blob = \<lambda>d r.
       (if table_find d (br_key r) \<noteq> None then (Sql_constraint, d)
        else (Sql_done, d\<lparr>tb_blobs := r # tb_blobs d\<rparr>)),
     ix_find_blob = \<lambda>d k. row_to_option (table_find d k),
     ix_list_blobs = \<lambda>d so t.
       (let rows = filter (\<lambda>r. sint t \<le> sint (br_last_modified r)) (table_rows d)
        in Some (case so of By_last_modified \<Rightarrow> sort_key (sint \<circ> br_last_modified) rows
                 | By_ref \<Rightarrow> sort_key br_key rows, True)),
     ix_latest_blobs = \<lambda>d. Some (take 1024 (rev (sort_key (sint \<circ> br_last_modified) (table_rows d))), True),
     ix_random_blobs = \<lambda>d. Some (take 1024 (table_rows d), True),
     ix_insert_bucket = \<lambda>d i.
       (if table_bucket d i \<noteq> None then (Sql_constraint, d)
        else (Sql_done, d\<lparr>tb_buckets := (i, word_of_nat evr_bucket_header_size) # tb_buckets d\<rparr>)),
     ix_update_bucket = \<lambda>d e i.
       (Sql_done, if table_bucket d i = None then d else d\<lparr>tb_buckets := (i, e) # tb_buckets d\<rparr>),
     ix_find_bucket = \<lambda>d i. row_to_option (table_bucket d i)\<rparr>"

lemma table_find_Some: "table_find d k = Some r \<Longrightarrow> br_key r = k \<and> r \<in> set (tb_blobs d)"
  by (auto simp: table_find_def dest: map_of_SomeD)

lemma table_rows_set: "set (table_rows d) = {r. table_find d (br_key r) = Some r}"
  using table_find_Some by (auto simp: table_rows_def)

lemma distinct_table_rows: "distinct (table_rows d)"
  by (simp add: table_rows_def)

lemma table_insert [simp]:
  "table_find (d\<lparr>tb_blobs := r # tb_blobs d\<rparr>) = (table_find d)(br_key r \<mapsto> r)"
  "table_bucket (d\<lparr>tb_buckets := (i, e) # tb_buckets d\<rparr>) = (table_bucket d)(i \<mapsto> e)"
  "table_find (d\<lparr>tb_buckets := bs\<rparr>) = table_find d" "table_bucket (d\<lparr>tb_blobs := rs\<rparr>) = table_bucket d"
  by (simp_all add: table_find_def table_bucket_def)

lemma table_empty [simp]:
  "table_find \<lparr>tb_blobs = [], tb_buckets = []\<rparr> = (\<lambda>_. None)"
  "table_bucket \<lparr>tb_blobs = [], tb_buckets = []\<rparr> = (\<lambda>_. None)"
  by (simp_all add: table_find_def table_bucket_def)

lemma row_to_option_eq [simp]:
  "row_to_option x = Sql_row r \<longleftrightarrow> x = Some r" "row_to_option x = Sql_no_row \<longleftrightarrow> x = None"
  "row_to_option x \<noteq> Sql_row_fail" "row_to_option x \<noteq> Sql_row_bind_fail"
  by (simp_all add: row_to_option_def split: option.split)

interpretation tbl: sqlite_reliable table_ops table_find table_bucket
proof (unfold_locales, goal_cases)
  case (10 d so t rows)
  let ?f = "filter (\<lambda>r. sint t \<le> sint (br_last_modified r)) (table_rows d)"
  have "rows = (case so of By_last_modified \<Rightarrow> sort_key (sint \<circ> br_last_modified) ?f
      | By_ref \<Rightarrow> sort_key br_key ?f)"
    using 10 by (simp add: table_ops_def Let_def)
  then show ?case
    by (cases so) (auto simp: table_rows_set distinct_table_rows sorted_sort_key)
qed (auto simp: table_ops_def Let_def split: if_splits dest: table_find_Some)

end
