(* ===== verification/Bucket_Format.thy ===== *)
theory Bucket_Format
  imports Index_Db
begin

text \<open>
  The format of a bucket file in \<^verbatim>\<open>src/glacier.c\<close>: the magic number, the end offset, and the blobs,
  each behind a header of 42 bytes with the reference, the flags, the time, the size and a
  checksum. The encoding of \<^verbatim>\<open>evr_glacier_append_blob\<close> and the decoding of
  \<^verbatim>\<open>evr_glacier_walk_bucket\<close>, that they are inverse, and what the checksum detects.
\<close>

section \<open>Definitions\<close>

definition evr_bucket_magic_number :: bytes where "evr_bucket_magic_number = [0x45, 0x56, 0x42]"

definition evr_bucket_blob_header_size :: nat where
  [evr_layout]: "evr_bucket_blob_header_size = evr_blob_ref_size + 1 + 8 + 4 + 1"

definition evr_bucket_end_offset_size :: nat where [evr_layout]: "evr_bucket_end_offset_size = 4"

definition evr_bucket_end_offset_corrupt :: nat where "evr_bucket_end_offset_corrupt = 0"

datatype sync_strategy = Sync_default | Sync_per_blob | Sync_avoid

record evr_writing_blob =
  wb_key :: evr_blob_ref
  wb_flags :: c_int
  wb_size :: nat
  wb_sync_strategy :: sync_strategy
  wb_chunks :: "bytes list"

text \<open>The header as \<^verbatim>\<open>evr_glacier_append_blob\<close> builds it in its local array.\<close>

definition push_blob_header :: "bytes \<Rightarrow> evr_writing_blob \<Rightarrow> 64 word \<Rightarrow> bytes option" where
  "push_blob_header header_buf blob t64 =
    do { bp1 \<leftarrow> evr_push_n (evr_init_buf_pos header_buf) (take evr_blob_ref_size (wb_key blob));
         bp2 \<leftarrow> evr_push_u8 bp1 (wb_flags blob);
         bp3 \<leftarrow> evr_push_be64 bp2 t64;
         bp4 \<leftarrow> evr_push_be32 bp3 (word_of_nat (wb_size blob) :: 64 word);
         bp5 \<leftarrow> evr_push_8bit_checksum bp4;
         Some (buf bp5) }"

record evr_glacier_bucket_blob_stat =
  st_ref :: evr_blob_ref
  st_flags :: c_int
  st_last_modified :: evr_time
  st_offset :: nat
  st_size :: nat
  st_checksum :: byte
  st_checksum_valid :: evr_code

text \<open>The fields as \<^verbatim>\<open>evr_glacier_walk_bucket\<close> pulls them; \<open>offset\<close> is computed before.\<close>

definition pull_blob_header :: "bytes \<Rightarrow> nat \<Rightarrow> evr_glacier_bucket_blob_stat option" where
  "pull_blob_header header_buf offset =
    do { (ref, bp1) \<leftarrow> evr_pull_n (evr_init_buf_pos header_buf) evr_blob_ref_size;
         (flags, bp2) \<leftarrow> evr_pull_u8 bp1;
         (last_modified, bp3) \<leftarrow> evr_pull_be bp2 8;
         (size, bp4) \<leftarrow> evr_pull_be bp3 4;
         (checksum, bp5) \<leftarrow> evr_pull_u8 bp4;
         (valid, bp6) \<leftarrow> evr_pull_8bit_checksum (evr_inc_buf_pos bp5 (-1));
         Some \<lparr>st_ref = ref, st_flags = flags, st_last_modified = last_modified, st_offset = offset,
               st_size = unat (size :: 64 word), st_checksum = checksum, st_checksum_valid = valid\<rparr> }"

section \<open>What is written\<close>

definition header_fields :: "bytes \<Rightarrow> byte \<Rightarrow> 64 word \<Rightarrow> 32 word \<Rightarrow> bytes" where
  "header_fields ref flags t sz = ref @ [flags] @ be64 t @ be32 sz"

definition header_bytes :: "bytes \<Rightarrow> byte \<Rightarrow> 64 word \<Rightarrow> 32 word \<Rightarrow> bytes" where
  "header_bytes ref flags t sz =
    header_fields ref flags t sz @ [NOT (sum_list (header_fields ref flags t sz))]"

lemma length_header_fields:
  "length ref = evr_blob_ref_size \<Longrightarrow> length (header_fields ref flags t sz) = 41"
  by (simp add: header_fields_def evr_layout)

lemma length_header_bytes [simp]:
  "length ref = evr_blob_ref_size \<Longrightarrow> length (header_bytes ref flags t sz) = evr_bucket_blob_header_size"
  by (simp add: header_bytes_def length_header_fields evr_layout)

lemma push_blob_header_eq:
  assumes "length old = evr_bucket_blob_header_size" "length (wb_key blob) = evr_blob_ref_size"
  shows "push_blob_header old blob t =
    Some (header_bytes (wb_key blob) (ucast (wb_flags blob)) t (word_of_nat (wb_size blob)))"
proof -
  let ?fs = "header_fields (wb_key blob) (ucast (wb_flags blob)) t (word_of_nat (wb_size blob))"
  obtain x where x: "drop 41 old = [x]"
    using assms(1) by (cases "drop 41 old") (auto simp: evr_layout dest: arg_cong [of _ _ length])
  have sz: "ucast (word_of_nat (wb_size blob) :: 64 word) = (word_of_nat (wb_size blob) :: 32 word)"
    by (simp add: word_eq_iff_unsigned [where ?'a = nat] unsigned_ucast_eq unsigned_take_bit_eq
        unsigned_of_nat take_bit_take_bit)
  have "evr_push_n (evr_init_buf_pos old) (wb_key blob) \<bind> (\<lambda>bp1. evr_push_u8 bp1 (wb_flags blob) \<bind>
      (\<lambda>bp2. evr_push_be64 bp2 t \<bind> (\<lambda>bp3. evr_push_be32 bp3 (word_of_nat (wb_size blob) :: 64 word)))) =
      Some (at_pos ?fs [x])"
    using assms x sz by (simp add: push_runs header_fields_def evr_layout)
  then have "push_blob_header old blob t = evr_push_8bit_checksum (at_pos ?fs [x]) \<bind> (\<lambda>bp5. Some (buf bp5))"
    using assms(2) by (auto simp: push_blob_header_def bind_eq_Some_conv)
  then show ?thesis by (simp add: push_checksum_at_pos header_bytes_def)
qed

text \<open>Any 42 bytes can be pulled; the checksum byte decides whether they are valid.\<close>

lemma pull_blob_header_eq:
  assumes "length ref = evr_blob_ref_size"
  shows "pull_blob_header (header_fields ref flags t sz @ [cs]) off =
    Some \<lparr>st_ref = ref, st_flags = ucast flags, st_last_modified = t, st_offset = off,
      st_size = unat sz, st_checksum = cs,
      st_checksum_valid = (if cs = NOT (sum_list (header_fields ref flags t sz)) then Evr_ok else Evr_error)\<rparr>"
proof -
  let ?fs = "header_fields ref flags t sz"
  have step_back: "evr_inc_buf_pos (at_pos (ref @ flags # be64 t @ be32 sz @ [cs]) []) (- 1) = at_pos ?fs [cs]"
    by (simp add: evr_inc_buf_pos_def at_pos_def header_fields_def)
  have sz: "unat (ucast sz :: 64 word) = unat sz"
    using unsigned_less [of sz, where ?'a = nat] by (simp add: unsigned_ucast_eq take_bit_nat_eq_self)
  have "pull_blob_header (?fs @ [cs]) off = evr_pull_8bit_checksum (at_pos ?fs [cs]) \<bind>
      (\<lambda>(valid, bp6). Some \<lparr>st_ref = ref, st_flags = ucast flags, st_last_modified = t, st_offset = off,
        st_size = unat sz, st_checksum = cs, st_checksum_valid = valid\<rparr>)"
    using assms
    by (simp add: pull_blob_header_def header_fields_def pull_runs step_back [unfolded header_fields_def, simplified] sz)
  then show ?thesis by (simp add: pull_checksum_at_pos)
qed

lemma be32_be_val: "length bs = 4 \<Longrightarrow> be32 (word_of_nat (be_val bs)) = bs"
  using be_val_bound [of bs] be_bytes_be_val [of bs] by (simp add: be32_def unat_of_nat)

lemma be64_be_val: "length bs = 8 \<Longrightarrow> be64 (word_of_nat (be_val bs)) = bs"
  using be_val_bound [of bs] be_bytes_be_val [of bs] by (simp add: be64_def unat_of_nat)

lemma header_split:
  assumes "length h = evr_bucket_blob_header_size"
  shows "\<exists>ref flags t sz cs. length ref = evr_blob_ref_size \<and> h = header_fields ref flags t sz @ [cs]"
proof -
  let ?r = "take 28 h" and ?t = "take 8 (drop 29 h)" and ?s = "take 4 (drop 37 h)"
  have "h = ?r @ drop 28 h" by simp
  also have "drop 28 h = h ! 28 # drop 29 h" using assms Cons_nth_drop_Suc [of 28 h] by (simp add: evr_layout)
  also have "drop 29 h = ?t @ drop 37 h" using append_take_drop_id [of 8 "drop 29 h"] by simp
  also have "drop 37 h = ?s @ drop 41 h" using append_take_drop_id [of 4 "drop 37 h"] by simp
  also have "drop 41 h = [h ! 41]" using assms Cons_nth_drop_Suc [of 41 h] by (simp add: evr_layout)
  finally have "h = header_fields ?r (h ! 28) (word_of_nat (be_val ?t)) (word_of_nat (be_val ?s)) @ [h ! 41]"
    using assms by (simp add: header_fields_def be64_be_val be32_be_val evr_layout)
  moreover have "length ?r = evr_blob_ref_size" using assms by (simp add: evr_layout)
  ultimately show ?thesis by blast
qed

lemma pull_blob_header_total:
  assumes "length h = evr_bucket_blob_header_size"
  shows "\<exists>st. pull_blob_header h off = Some st \<and> st_offset st = off \<and> st_size st < 2 ^ 32 \<and>
    length (st_ref st) = evr_blob_ref_size \<and>
    (st_checksum_valid st = Evr_ok \<longleftrightarrow> last h = NOT (sum_list (butlast h)))"
proof -
  from header_split [OF assms] obtain ref flags t sz cs where
    "length ref = evr_blob_ref_size" "h = header_fields ref flags t sz @ [cs]" by blast
  then show ?thesis using unsigned_less [of sz, where ?'a = nat] by (simp add: pull_blob_header_eq)
qed

lemma not_byte_eq: "NOT (a :: byte) = NOT b \<longleftrightarrow> a = b"
  by (metis bit.double_compl)

lemma corrupt_byte_breaks_sum:
  assumes "last h = NOT (sum_list (butlast h))" "i < length h" "b \<noteq> h ! i" "h \<noteq> []"
  shows "last (h[i := b]) \<noteq> NOT (sum_list (butlast (h[i := b])) :: byte)"
proof (cases "i = length h - 1")
  case True
  then have "butlast (h[i := b]) = butlast h" "last (h[i := b]) = b"
    using assms by (simp_all add: butlast_list_update last_list_update)
  moreover have "h ! i = last h" using True assms(4) by (simp add: last_conv_nth)
  ultimately show ?thesis using assms(1,3) by simp
next
  case False
  then have i: "i < length (butlast h)" "last (h[i := b]) = last h" "butlast (h[i := b]) = (butlast h)[i := b]"
    using assms by (simp_all add: butlast_list_update last_list_update)
  have "sum_list ((butlast h)[i := b]) \<noteq> sum_list (butlast h)"
    using i(1) assms(3) by (intro sum_list_upd_byte) (simp_all add: nth_butlast)
  with i assms(1) show ?thesis by (simp add: not_byte_eq)
qed

section \<open>Properties\<close>

text \<open>
  The header \<^verbatim>\<open>evr_glacier_append_blob\<close> builds is read back by \<^verbatim>\<open>evr_glacier_walk_bucket\<close> with
  the same reference, time and size, the flags cut to eight bits, and a valid checksum, for every
  blob below 4 GiB and whatever the array held before.
\<close>

theorem blob_header_roundtrip:
  assumes "length header_buf = evr_bucket_blob_header_size" "length (wb_key blob) = evr_blob_ref_size"
    "wb_size blob < 2 ^ 32"
  shows "\<exists>h st. push_blob_header header_buf blob t = Some h \<and>
    length h = evr_bucket_blob_header_size \<and> pull_blob_header h off = Some st \<and>
    st_ref st = wb_key blob \<and> st_flags st = ucast (ucast (wb_flags blob) :: byte) \<and> st_last_modified st = t \<and>
    st_offset st = off \<and> st_size st = wb_size blob \<and> st_checksum_valid st = Evr_ok"
  using assms
  by (simp add: push_blob_header_eq header_bytes_def pull_blob_header_eq length_header_fields
      unsigned_of_nat take_bit_nat_eq_self evr_layout)

theorem blob_header_roundtrip_witness:
  "\<exists>h st. push_blob_header (replicate 42 0)
      \<lparr>wb_key = replicate 28 7, wb_flags = 1, wb_size = 1000, wb_sync_strategy = Sync_default,
        wb_chunks = [replicate 1000 5]\<rparr> 99 = Some h \<and>
    pull_blob_header h 49 = Some st \<and> st_ref st = replicate 28 7 \<and> st_size st = 1000 \<and>
    st_checksum_valid st = Evr_ok"
  using blob_header_roundtrip [of "replicate 42 0" "\<lparr>wb_key = replicate 28 7, wb_flags = 1,
      wb_size = 1000, wb_sync_strategy = Sync_default, wb_chunks = [replicate 1000 5]\<rparr>" 99 49]
  by (auto simp: evr_layout)

text \<open>
  The checksum of a blob header detects every corruption of a single byte of the header, the
  checksum byte included.
\<close>

theorem checksum_detects_corrupt_byte:
  assumes "length h = evr_bucket_blob_header_size" "pull_blob_header h off = Some st"
    "st_checksum_valid st = Evr_ok" "i < length h" "b \<noteq> h ! i"
  shows "\<exists>st'. pull_blob_header (h[i := b]) off = Some st' \<and> st_checksum_valid st' = Evr_error"
proof -
  have ne: "h \<noteq> []" using assms(4) by auto
  have "last h = NOT (sum_list (butlast h))"
    using pull_blob_header_total [OF assms(1), of off] assms(2,3) by auto
  from corrupt_byte_breaks_sum [OF this assms(4,5) ne] have
    bad: "last (h[i := b]) \<noteq> NOT (sum_list (butlast (h[i := b])))" .
  from header_split [of "h[i := b]"] assms(1) obtain ref flags t sz cs where
    "length ref = evr_blob_ref_size" "h[i := b] = header_fields ref flags t sz @ [cs]" by auto
  with bad show ?thesis by (simp add: pull_blob_header_eq)
qed

theorem checksum_detects_corrupt_byte_witness:
  "\<exists>st'. pull_blob_header ((replicate 41 0 @ [255])[40 := 8]) 49 = Some st' \<and>
     st_checksum_valid st' = Evr_error"
proof -
  let ?h = "replicate 41 0 @ [255] :: bytes"
  have l: "length ?h = evr_bucket_blob_header_size" by (simp add: evr_layout)
  from pull_blob_header_total [OF l, of 49] obtain st where
    "pull_blob_header ?h 49 = Some st" "st_checksum_valid st = Evr_ok \<longleftrightarrow> last ?h = NOT (sum_list (butlast ?h))" by blast
  moreover have "last ?h = NOT (sum_list (butlast ?h))" by (simp add: butlast_append sum_list_replicate)
  ultimately show ?thesis
    using checksum_detects_corrupt_byte [OF l, of 49 st 40 8] by (simp add: nth_append evr_layout)
qed

end
