(* ===== verification/Glacier.thy ===== *)
theory Glacier
  imports Bucket_Format
begin

text \<open>
  The glacier of \<^verbatim>\<open>src/glacier.c\<close>: opening and creating buckets, appending a blob, reading it back,
  its metadata and the listing of blobs. The write context and the world are passed explicitly.
  The theorems about these operations are in \<open>Glacier_Append\<close> and \<open>Glacier_Read\<close>, walking and
  reindexing in \<open>Glacier_Reindex\<close>.
\<close>

section \<open>Bucket files\<close>

fun hex_digits :: "nat \<Rightarrow> string" where
  "hex_digits n = (if n < 16 then [hex_char n] else hex_digits (n div 16) @ [hex_char n])"

declare hex_digits.simps [simp del]

text \<open>The format \<^verbatim>\<open>%05lx.evb\<close>.\<close>

definition bucket_file_name :: "nat \<Rightarrow> string" where
  "bucket_file_name n =
    replicate (5 - length (hex_digits n)) (CHR ''0'') @ hex_digits n @ ''.evb''"

text \<open>
  \<^verbatim>\<open>evr_open_bucket\<close> returns \<open>1\<close> when \<^verbatim>\<open>open\<close> fails, the descriptor of the standard output; its
  callers compare with \<open>-1\<close>, which is \<open>None\<close> here.
\<close>

definition evr_open_bucket :: "'d world \<Rightarrow> nat \<Rightarrow> bool \<Rightarrow> fd option \<times> 'd world" where
  "evr_open_bucket w bucket_index create =
    (case sys_open w (bucket_file_name bucket_index) create of (f, w1) \<Rightarrow>
       (case f of
          None \<Rightarrow> (Some \<lparr>fd_id = Stdout, fd_off = length (content w1 Stdout)\<rparr>, w1)
        | Some g \<Rightarrow> (Some g, w1)))"

definition evr_validate_bucket_magic_number :: "'d world \<Rightarrow> fd \<Rightarrow> evr_code \<times> 'd world \<times> fd" where
  "evr_validate_bucket_magic_number w f =
    (case sys_seek w f 0 of (ok, w1, f1) \<Rightarrow>
       if \<not> ok then (Evr_error, w1, f1)
       else case read_n sys_read no_se (w1, f1) (length evr_bucket_magic_number) () of
         (r, b, _, (w2, f2)) \<Rightarrow>
           if r \<noteq> Evr_ok then (Evr_error, w2, f2)
           else if b \<noteq> evr_bucket_magic_number then (Evr_error, w2, f2)
           else (Evr_ok, w2, f2))"

definition evr_write_bucket_magic_number :: "'d world \<Rightarrow> fd \<Rightarrow> evr_code \<times> 'd world \<times> fd" where
  "evr_write_bucket_magic_number w f =
    (case sys_seek w f 0 of (ok, w1, f1) \<Rightarrow>
       if \<not> ok then (Evr_error, w1, f1)
       else case write_n sys_write (w1, f1) evr_bucket_magic_number of (r, (w2, f2)) \<Rightarrow>
         (if r \<noteq> Evr_ok then Evr_error else Evr_ok, w2, f2))"

definition evr_read_bucket_end_offset :: "'d world \<Rightarrow> fd \<Rightarrow> nat option \<times> 'd world \<times> fd" where
  "evr_read_bucket_end_offset w f =
    (case sys_seek w f (length evr_bucket_magic_number) of (ok, w1, f1) \<Rightarrow>
       if \<not> ok then (None, w1, f1)
       else case read_n sys_read no_se (w1, f1) evr_bucket_end_offset_size () of (r, b, _, (w2, f2)) \<Rightarrow>
         (if r \<noteq> Evr_ok then None else Some (be_val b), w2, f2))"

definition evr_write_bucket_end_offset :: "'d world \<Rightarrow> fd \<Rightarrow> nat \<Rightarrow> bool \<Rightarrow> evr_code \<times> 'd world \<times> fd" where
  "evr_write_bucket_end_offset w f end_offset sync =
    (case sys_seek w f (length evr_bucket_magic_number) of (ok, w1, f1) \<Rightarrow>
       if \<not> ok then (Evr_error, w1, f1)
       else case write_n sys_write (w1, f1) (be32 (word_of_nat end_offset)) of (r, (w2, f2)) \<Rightarrow>
         if r \<noteq> Evr_ok then (Evr_error, w2, f2)
         else if sync then (case sys_call w2 of (ok, w3) \<Rightarrow> (if ok then Evr_ok else Evr_error, w3, f2))
         else (Evr_ok, w2, f2))"

section \<open>The write context\<close>

record evr_glacier_write_ctx =
  wc_bucket_index :: nat
  wc_bucket_f :: "fd option"
  wc_bucket_pos :: nat
  wc_bucket_sync :: bool

definition open_current_bucket ::
  "evr_glacier_write_ctx \<Rightarrow> 'd world \<Rightarrow> bool \<Rightarrow> evr_code \<times> evr_glacier_write_ctx \<times> 'd world" where
  "open_current_bucket c w create =
    (case evr_open_bucket w (wc_bucket_index c) create of (f, w1) \<Rightarrow>
       (if f = None then Evr_error else Evr_ok, c\<lparr>wc_bucket_f := f\<rparr>, w1))"

definition close_current_bucket ::
  "evr_glacier_write_ctx \<Rightarrow> 'd world \<Rightarrow> evr_code \<times> evr_glacier_write_ctx \<times> 'd world" where
  "close_current_bucket c w =
    (case wc_bucket_f c of
       None \<Rightarrow> (Evr_ok, c, w)
     | Some f \<Rightarrow>
        (case (if wc_bucket_sync c then (True, w) else sys_call w) of (synced, w1) \<Rightarrow>
           if \<not> synced then (Evr_error, c, w1)
           else case sys_call w1 of (closed, w2) \<Rightarrow>
             if \<not> closed then (Evr_error, c\<lparr>wc_bucket_sync := True\<rparr>, w2)
             else (Evr_ok, c\<lparr>wc_bucket_sync := True, wc_bucket_f := None\<rparr>, w2)))"

text \<open>
  What a statement that changes the database makes of the result: \<^verbatim>\<open>sqlite3_reset\<close> repeats the
  error of a failed step, on which the sources panic.
\<close>

definition sql_outcome :: "sql_res \<Rightarrow> evr_code exec" where
  "sql_outcome r = (case r of Sql_done \<Rightarrow> Ret Evr_ok | Sql_bind_fail \<Rightarrow> Ret Evr_error | _ \<Rightarrow> Panic)"

definition create_next_bucket ::
  "'d index_db \<Rightarrow> evr_glacier_write_ctx \<Rightarrow> 'd world \<Rightarrow> evr_code exec \<times> evr_glacier_write_ctx \<times> 'd world" where
  "create_next_bucket S c w =
    (case close_current_bucket c w of (r, c1, w1) \<Rightarrow>
       if r \<noteq> Evr_ok then (Panic, c1, w1)
       else case open_current_bucket (c1\<lparr>wc_bucket_index := wc_bucket_index c1 + 1\<rparr>) w1 True of (r, c2, w2) \<Rightarrow>
         if r \<noteq> Evr_ok then (Ret Evr_error, c2\<lparr>wc_bucket_index := wc_bucket_index c2 - 1\<rparr>, w2)
         else let c3 = c2\<lparr>wc_bucket_pos := evr_bucket_header_size\<rparr> in
         case wc_bucket_f c3 of
           None \<Rightarrow> (Ret Evr_error, c3, w2)
         | Some f \<Rightarrow>
            (case evr_write_bucket_magic_number w2 f of (r, w3, f1) \<Rightarrow>
               if r \<noteq> Evr_ok then (Ret Evr_error, c3\<lparr>wc_bucket_f := Some f1\<rparr>, w3)
               else case evr_write_bucket_end_offset w3 f1 (wc_bucket_pos c3) True of (r, w4, f2) \<Rightarrow>
                 if r \<noteq> Evr_ok then (Ret Evr_error, c3\<lparr>wc_bucket_f := Some f2\<rparr>, w4)
                 else case ix_insert_bucket S (w_db w4) (word_of_nat (wc_bucket_index c3)) of (res, d) \<Rightarrow>
                   (sql_outcome res, c3\<lparr>wc_bucket_f := Some f2\<rparr>, w4\<lparr>w_db := d\<rparr>)))"

section \<open>Appending\<close>

text \<open>The chunks in the order of the array; \<open>None\<close> is a read behind the chunks.\<close>

fun write_blob_chunks :: "'d world \<times> fd \<Rightarrow> bytes list \<Rightarrow> nat \<Rightarrow> (evr_code \<times> 'd world \<times> fd) option" where
  "write_blob_chunks s chunks remaining =
    (if remaining = 0 then Some (Evr_ok, s)
     else case chunks of
         [] \<Rightarrow> None
       | c # cs \<Rightarrow>
          (let chunk_bytes_len = (if remaining < evr_chunk_size then remaining else evr_chunk_size) in
           if chunk_bytes_len > length c then None
           else case write_n sys_write s (take chunk_bytes_len c) of (r, s') \<Rightarrow>
             if r \<noteq> Evr_ok then Some (Evr_error, s')
             else write_blob_chunks s' cs (remaining - chunk_bytes_len)))"

declare write_blob_chunks.simps [simp del]

definition evr_glacier_add_blob_to_index ::
  "'d index_db \<Rightarrow> evr_glacier_write_ctx \<Rightarrow> 'd world \<Rightarrow> evr_blob_ref \<Rightarrow> c_int \<Rightarrow> nat \<Rightarrow> nat \<Rightarrow> evr_time
   \<Rightarrow> evr_code exec \<times> 'd world" where
  "evr_glacier_add_blob_to_index S c w ref flags blob_offset blob_size last_modified =
    (case ix_insert_blob S (w_db w)
        \<lparr>br_key = take evr_blob_ref_size ref, br_flags = flags,
         br_bucket_index = word_of_nat (wc_bucket_index c), br_offset = word_of_nat blob_offset,
         br_size = word_of_nat blob_size, br_last_modified = last_modified\<rparr> of
       (res, d) \<Rightarrow>
         (case res of
            Sql_done \<Rightarrow> Ret Evr_ok
          | Sql_constraint \<Rightarrow> Ret Evr_ok
          | Sql_fail \<Rightarrow> Panic
          | Sql_bind_fail \<Rightarrow> Ret Evr_error, w\<lparr>w_db := d\<rparr>))"

text \<open>
  The part of \<^verbatim>\<open>evr_glacier_append_blob\<close> after a bucket with room for the blob was found, in three
  steps: the header and the data go to the file, the end offset is moved, the index is told.
  \<open>header_mem\<close> is what the local array for the header holds.
\<close>

definition write_blob_to_bucket ::
  "evr_time \<Rightarrow> bytes \<Rightarrow> evr_writing_blob \<Rightarrow> evr_glacier_write_ctx \<Rightarrow> 'd world
   \<Rightarrow> evr_code exec \<times> evr_glacier_write_ctx \<times> 'd world" where
  "write_blob_to_bucket now header_mem blob c w =
    (case wc_bucket_f c of
       None \<Rightarrow> (Ret Evr_error, c, w)
     | Some f \<Rightarrow>
    (case sys_seek w f (wc_bucket_pos c) of (ok, w1, f1) \<Rightarrow>
     if \<not> ok then (Ret Evr_error, c\<lparr>wc_bucket_f := Some f1\<rparr>, w1)
     else case push_blob_header header_mem blob now of
       None \<Rightarrow> (Undef, c\<lparr>wc_bucket_f := Some f1\<rparr>, w1)
     | Some header_buf \<Rightarrow>
    (case write_n sys_write (w1, f1) (take evr_bucket_blob_header_size header_buf) of (r, (w2, f2)) \<Rightarrow>
     if r \<noteq> Evr_ok then (Ret Evr_error, c\<lparr>wc_bucket_f := Some f2\<rparr>, w2)
     else case write_blob_chunks (w2, f2) (wb_chunks blob) (wb_size blob) of
       None \<Rightarrow> (Undef, c\<lparr>wc_bucket_f := Some f2\<rparr>, w2)
     | Some (r, (w3, f3)) \<Rightarrow>
     if r \<noteq> Evr_ok then (Ret Evr_error, c\<lparr>wc_bucket_f := Some f3\<rparr>, w3)
     else if wb_sync_strategy blob = Sync_per_blob
     then (case sys_call w3 of (synced, w4) \<Rightarrow>
             if \<not> synced then (Ret Evr_error, c\<lparr>wc_bucket_f := Some f3\<rparr>, w4)
             else (Ret Evr_ok, c\<lparr>wc_bucket_f := Some f3, wc_bucket_sync := True\<rparr>, w4))
     else (Ret Evr_ok, c\<lparr>wc_bucket_f := Some f3\<rparr>, w3))))"

definition index_appended_blob ::
  "'d index_db \<Rightarrow> evr_time \<Rightarrow> evr_writing_blob \<Rightarrow> nat \<Rightarrow> nat \<Rightarrow> evr_glacier_write_ctx \<Rightarrow> 'd world
   \<Rightarrow> evr_code exec \<times> 'd world" where
  "index_appended_blob S now blob blob_offset end_offset c w =
    (case evr_glacier_add_blob_to_index S c w (wb_key blob) (wb_flags blob) blob_offset (wb_size blob) now of
       (x, w1) \<Rightarrow>
       if x = Ret Evr_ok
       then (case ix_update_bucket S (w_db w1) (word_of_nat end_offset) (word_of_nat (wc_bucket_index c)) of
               (res, d) \<Rightarrow> (sql_outcome res, w1\<lparr>w_db := d\<rparr>))
       else (x, w1))"

definition append_to_bucket ::
  "'d index_db \<Rightarrow> evr_time \<Rightarrow> bytes \<Rightarrow> evr_writing_blob \<Rightarrow> evr_glacier_write_ctx \<Rightarrow> 'd world
   \<Rightarrow> evr_code exec \<times> evr_glacier_write_ctx \<times> 'd world" where
  "append_to_bucket S now header_mem blob c w =
    (let per_blob = (wb_sync_strategy blob = Sync_per_blob) in
     case write_blob_to_bucket now header_mem blob c w of (x, c1, w1) \<Rightarrow>
     if x \<noteq> Ret Evr_ok then (x, c1, w1)
     else case wc_bucket_f c1 of
       None \<Rightarrow> (Ret Evr_error, c1, w1)
     | Some f \<Rightarrow>
       (let blob_offset = wc_bucket_pos c1 + evr_bucket_blob_header_size;
            end_offset = wc_bucket_pos c1 + (evr_bucket_blob_header_size + wb_size blob);
            c2 = c1\<lparr>wc_bucket_pos := end_offset\<rparr>
        in case evr_write_bucket_end_offset w1 f end_offset per_blob of (r, w2, f2) \<Rightarrow>
           if r \<noteq> Evr_ok then (Ret Evr_error, c2\<lparr>wc_bucket_f := Some f2\<rparr>, w2)
           else let c3 = c2\<lparr>wc_bucket_f := Some f2, wc_bucket_sync := per_blob\<rparr>
                in case index_appended_blob S now blob blob_offset end_offset c3 w2 of (x, w3) \<Rightarrow> (x, c3, w3)))"

definition evr_glacier_append_blob ::
  "'d index_db \<Rightarrow> nat \<Rightarrow> evr_time \<Rightarrow> bytes \<Rightarrow> evr_writing_blob \<Rightarrow> evr_glacier_write_ctx \<Rightarrow> 'd world
   \<Rightarrow> evr_code exec \<times> evr_glacier_write_ctx \<times> 'd world" where
  "evr_glacier_append_blob S max_bucket_size now header_mem blob c w =
    (let blob_disk_size = evr_bucket_blob_header_size + wb_size blob;
         worst_disk_size = evr_bucket_header_size + blob_disk_size
     in if worst_disk_size > max_bucket_size then (Ret Evr_error, c, w)
        else if wc_bucket_pos c + blob_disk_size > max_bucket_size
        then (case create_next_bucket S c w of (x, c1, w1) \<Rightarrow>
                if x \<noteq> Ret Evr_ok then (x, c1, w1)
                else append_to_bucket S now header_mem blob c1 w1)
        else append_to_bucket S now header_mem blob c w)"

section \<open>Reading\<close>

definition evr_read_buffer_size :: nat where "evr_read_buffer_size = 1 * 1024 * 1024"

text \<open>A \<^verbatim>\<open>size_t\<close> variable set from an \<^verbatim>\<open>int\<close>.\<close>

definition int_to_size :: "32 word \<Rightarrow> nat" where "int_to_size x = unat (scast x :: 64 word)"

record evr_glacier_blob_stat =
  bs_flags :: c_int
  bs_blob_size :: nat

definition evr_glacier_stat_blob ::
  "'d index_db \<Rightarrow> 'd world \<Rightarrow> evr_blob_ref \<Rightarrow> evr_code \<times> evr_glacier_blob_stat option" where
  "evr_glacier_stat_blob S w key =
    (case ix_find_blob S (w_db w) (take evr_blob_ref_size key) of
       Sql_row_bind_fail \<Rightarrow> (Evr_error, None)
     | Sql_no_row \<Rightarrow> (Evr_not_found, None)
     | Sql_row_fail \<Rightarrow> (Evr_error, None)
     | Sql_row r \<Rightarrow> (Evr_ok, Some \<lparr>bs_flags = br_flags r, bs_blob_size = int_to_size (br_size r)\<rparr>))"

type_synonym 'c status_cb = "'c \<Rightarrow> bool \<Rightarrow> c_int \<Rightarrow> nat \<Rightarrow> evr_code \<times> 'c"

text \<open>
  The loop hands every read to the callback, also an empty one: it does not end when the file
  ends before the blob does. Such a run has the result \<open>None\<close>.
\<close>

partial_function (option) read_blob_loop ::
  "'c side_effect \<Rightarrow> nat \<Rightarrow> nat \<Rightarrow> 'c \<Rightarrow> 'd world \<times> fd \<Rightarrow> (bool \<times> 'c \<times> 'd world \<times> fd) option" where
  "read_blob_loop on_data bytes_read blob_size ctx s =
    (if bytes_read < blob_size
     then (case sys_read s (min evr_read_buffer_size (blob_size - bytes_read)) of (r, s1) \<Rightarrow>
             case r of
               Read_fail \<Rightarrow> Some (False, ctx, s1)
             | Read_bytes b \<Rightarrow>
                (case on_data ctx b of (code, ctx1) \<Rightarrow>
                   if code \<noteq> Evr_ok then Some (False, ctx1, s1)
                   else read_blob_loop on_data (bytes_read + length b) blob_size ctx1 s1))
     else Some (True, ctx, s))"

text \<open>What follows the label \<^verbatim>\<open>end_with_open_bucket\<close>.\<close>

definition close_bucket :: "evr_code \<Rightarrow> 'c \<Rightarrow> 'd world \<Rightarrow> evr_code \<times> 'c \<times> 'd world" where
  "close_bucket ret ctx w = (case sys_call w of (ok, w1) \<Rightarrow> (if ok then ret else Evr_error, ctx, w1))"

definition evr_glacier_read_blob ::
  "'d index_db \<Rightarrow> evr_blob_ref \<Rightarrow> 'c status_cb \<Rightarrow> 'c side_effect \<Rightarrow> 'c \<Rightarrow> 'd world
   \<Rightarrow> (evr_code \<times> 'c \<times> 'd world) option" where
  "evr_glacier_read_blob S key status on_data arg w =
    (case ix_find_blob S (w_db w) (take evr_blob_ref_size key) of
       Sql_row_bind_fail \<Rightarrow> Some (Evr_error, arg, w)
     | Sql_no_row \<Rightarrow>
        (case status arg False 0 0 of (r, arg1) \<Rightarrow>
           Some (if r = Evr_end then Evr_end else if r \<noteq> Evr_ok then Evr_error else Evr_not_found, arg1, w))
     | Sql_row_fail \<Rightarrow> Some (Evr_error, arg, w)
     | Sql_row row \<Rightarrow>
        (let bucket_blob_offset = int_to_size (br_offset row); blob_size = int_to_size (br_size row) in
         case evr_open_bucket w (unat (br_bucket_index row)) False of (fo, w1) \<Rightarrow>
         case fo of
           None \<Rightarrow> Some (Evr_error, arg, w1)
         | Some f \<Rightarrow>
        (case evr_validate_bucket_magic_number w1 f of (r, w2, f2) \<Rightarrow>
         if r \<noteq> Evr_ok then Some (close_bucket Evr_error arg w2)
         else case (if sint (br_offset row) < 0 then (False, w2, f2) else sys_seek w2 f2 bucket_blob_offset) of
           (ok, w3, f3) \<Rightarrow>
         if \<not> ok then Some (close_bucket Evr_error arg w3)
         else case status arg True (br_flags row) blob_size of (r, arg1) \<Rightarrow>
         if r = Evr_end then Some (close_bucket Evr_end arg1 w3)
         else if r \<noteq> Evr_ok then Some (close_bucket Evr_error arg1 w3)
         else case read_blob_loop on_data 0 blob_size arg1 (w3, f3) of
             None \<Rightarrow> None
           | Some (ok, arg2, (w4, f4)) \<Rightarrow> Some (close_bucket (if ok then Evr_ok else Evr_error) arg2 w4))))"

section \<open>Listing\<close>

record evr_blob_filter =
  bf_sort_order :: c_int
  bf_flags_filter :: c_int
  bf_last_modified_after :: evr_time

definition evr_cmd_watch_sort_order :: "c_int \<Rightarrow> sort_order option" where
  "evr_cmd_watch_sort_order x =
    (if x = 0x01 then Some By_last_modified else if x = 0x02 then Some By_ref else None)"

type_synonym 'v list_visitor = "'v \<Rightarrow> evr_blob_ref \<Rightarrow> c_int \<Rightarrow> evr_time \<Rightarrow> bool \<Rightarrow> evr_code \<times> 'v"

text \<open>A row is visited when the next one is known, so that the last one can be marked.\<close>

fun list_blobs_loop ::
  "c_int \<Rightarrow> 'v list_visitor \<Rightarrow> blob_row option \<Rightarrow> blob_row list \<Rightarrow> bool \<Rightarrow> 'v \<Rightarrow> evr_code \<times> 'v" where
  "list_blobs_loop flags_filter visit found [] complete vctx =
    (if \<not> complete then (Evr_error, vctx)
     else case found of
         None \<Rightarrow> (Evr_ok, vctx)
       | Some r \<Rightarrow>
          (case visit vctx (br_key r) (br_flags r) (br_last_modified r) True of (code, vctx') \<Rightarrow>
             (if code \<noteq> Evr_ok then Evr_error else Evr_ok, vctx')))"
| "list_blobs_loop flags_filter visit found (n # rows) complete vctx =
    (if br_flags n AND flags_filter \<noteq> flags_filter
     then list_blobs_loop flags_filter visit found rows complete vctx
     else case (case found of
                  None \<Rightarrow> (Evr_ok, vctx)
                | Some r \<Rightarrow> visit vctx (br_key r) (br_flags r) (br_last_modified r) False) of
       (code, vctx') \<Rightarrow>
         if code \<noteq> Evr_ok then (Evr_error, vctx')
         else if length (br_key n) \<noteq> evr_blob_ref_size then (Evr_error, vctx')
         else list_blobs_loop flags_filter visit (Some n) rows complete vctx')"

definition evr_glacier_list_blobs ::
  "'d index_db \<Rightarrow> 'd world \<Rightarrow> 'v list_visitor \<Rightarrow> evr_blob_filter \<Rightarrow> 'v \<Rightarrow> evr_code \<times> 'v" where
  "evr_glacier_list_blobs S w visit filt vctx =
    (if unat (bf_last_modified_after filt) > 2 ^ 63 - 1 then (Evr_error, vctx)
     else case evr_cmd_watch_sort_order (bf_sort_order filt) of
         None \<Rightarrow> (Evr_error, vctx)
       | Some so \<Rightarrow>
          (case ix_list_blobs S (w_db w) so (bf_last_modified_after filt) of
             None \<Rightarrow> (Evr_error, vctx)
           | Some (rows, complete) \<Rightarrow>
               list_blobs_loop (bf_flags_filter filt) visit None rows complete vctx))"

end
