(* ===== verification/Glacier_Append.thy ===== *)
theory Glacier_Append
  imports Glacier
begin

text \<open>
  What appending does to the files and the index, whatever the system calls and the database do.
  \<open>keeps\<close> says which bytes of the files an operation leaves alone; \<open>glacier_abs\<close> reads the
  glacier as a map from references to flags and data, and appending is shown to extend that map.
\<close>

section \<open>Bytes that are left alone\<close>

definition bucket_ext :: "nat \<Rightarrow> bytes \<Rightarrow> bytes \<Rightarrow> bool" where
  "bucket_ext p c c' = (length c \<le> length c' \<and> take 3 c' = take 3 c \<and>
     drop evr_bucket_header_size (take p c') = drop evr_bucket_header_size (take p c))"

definition keeps :: "file_id \<Rightarrow> nat \<Rightarrow> 'd world \<Rightarrow> 'd world \<Rightarrow> bool" where
  "keeps fid p w w' = (\<forall>i c. w_files w i = Some c \<longrightarrow>
     (\<exists>c'. w_files w' i = Some c' \<and> (if i = fid then p \<le> length c \<longrightarrow> bucket_ext p c c' else c' = c)))"

lemma keeps_same: "w_files w' = w_files w \<Longrightarrow> keeps fid p w w'"
  by (auto simp: keeps_def bucket_ext_def)

lemma keeps_trans [trans]:
  assumes "keeps fid p a b" "keeps fid p b c"
  shows "keeps fid p a c"
  unfolding keeps_def
proof (intro allI impI)
  fix i x assume "w_files a i = Some x"
  with assms(1) obtain y where y: "w_files b i = Some y"
    "if i = fid then p \<le> length x \<longrightarrow> bucket_ext p x y else y = x" by (auto simp: keeps_def)
  with assms(2) obtain z where "w_files c i = Some z"
    "if i = fid then p \<le> length y \<longrightarrow> bucket_ext p y z else z = y" by (fastforce simp: keeps_def)
  with y show "\<exists>z. w_files c i = Some z \<and> (if i = fid then p \<le> length x \<longrightarrow> bucket_ext p x z else z = x)"
    by (auto simp: bucket_ext_def)
qed

lemma bucket_ext_write:
  assumes "7 \<le> p" "p \<le> length c" "p \<le> off"
  shows "bucket_ext p c (write_at c off b)"
proof -
  have "take 3 (write_at c off b) = take 3 c" "take p (write_at c off b) = take p c"
    using assms by (auto simp: take_write_at)
  moreover have "length c \<le> length (write_at c off b)" by (cases "b = []") (auto simp: length_write_at write_at_def)
  ultimately show ?thesis by (simp add: bucket_ext_def)
qed

lemma write_at_inside: "i \<le> length c \<Longrightarrow> write_at c i b = overwrite c i b"
  by (simp add: write_at_def)

lemma bucket_ext_end_offset:
  assumes "7 \<le> p" "p \<le> length c" "length b \<le> 4"
  shows "bucket_ext p c (write_at c 3 b)"
proof -
  have w: "write_at c 3 b = overwrite c 3 b" using assms by (simp add: write_at_inside)
  have "drop 7 (overwrite c 3 b) = drop 7 c" using assms by (intro drop_overwrite_ge) auto
  then have "drop 7 (take p (overwrite c 3 b)) = drop 7 (take p c)"
    using assms by (simp add: drop_take)
  with assms w show ?thesis by (simp add: bucket_ext_def evr_layout)
qed

lemma keeps_put_file:
  assumes "\<And>c. p \<le> length c \<Longrightarrow> bucket_ext p c (write_at c (fd_off f) b)"
  shows "keeps (fd_id f) p w (put_file w f b)"
  using assms
  by (auto simp: keeps_def put_file_def content_def bucket_ext_def write_at_def)

lemma keeps_write_n:
  assumes "write_n sys_write (w, f) b = (r, (w', f'))" "7 \<le> p" "p \<le> fd_off f"
  shows "keeps (fd_id f) p w w' \<and> w_db w' = w_db w \<and> fd_id f' = fd_id f \<and> fd_off f \<le> fd_off f'"
proof -
  from write_n_world [OF assms(1)] obtain k where k: "same_world (put_file w f (take k b)) w'"
    "f' = f\<lparr>fd_off := fd_off f + k\<rparr>" by blast
  have "keeps (fd_id f) p w (put_file w f (take k b))"
    using assms by (intro keeps_put_file bucket_ext_write)
  also have "keeps (fd_id f) p (put_file w f (take k b)) w'"
    using same_world_fields(1) [OF k(1)] by (rule keeps_same)
  finally show ?thesis using same_world_fields(3) [OF k(1)] k(2) by simp
qed

lemma write_n_exact:
  assumes "write_n sys_write (w, f) b = (Evr_ok, (w', f'))"
  shows "content w' (fd_id f) = write_at (content w (fd_id f)) (fd_off f) b \<and>
    fd_off f' = fd_off f + length b \<and> fd_id f' = fd_id f \<and>
    (w_files w (fd_id f) \<noteq> None \<longrightarrow> w_files w' (fd_id f) \<noteq> None) \<and>
    (\<forall>i. i \<noteq> fd_id f \<longrightarrow> w_files w' i = w_files w i) \<and> w_db w' = w_db w \<and> w_dir w' = w_dir w"
proof -
  from write_n_world [OF assms] have k: "same_world (put_file w f b) w'"
    "f' = f\<lparr>fd_off := fd_off f + length b\<rparr>" by auto
  note fl = same_world_fields [OF k(1)]
  have "content w' (fd_id f) = write_at (content w (fd_id f)) (fd_off f) b"
    using fl(4) by (simp add: content_put_file)
  with k(2) fl(1,2,3) show ?thesis by (auto simp: put_file_def)
qed

text \<open>Sequencing reads and seeks, which change nothing but the schedule.\<close>

lemma keeps_same_world: "same_world w w' \<Longrightarrow> keeps fid p w w' \<and> w_db w' = w_db w"
  using same_world_fields keeps_same by fastforce

lemma keeps_end_offset:
  assumes "evr_write_bucket_end_offset w f e sync = (r, w', f')" "7 \<le> p"
  shows "keeps (fd_id f) p w w' \<and> w_db w' = w_db w \<and> fd_id f' = fd_id f"
proof -
  obtain ok w1 f1 where s: "sys_seek w f (length evr_bucket_magic_number) = (ok, w1, f1)" using prod_cases3 by blast
  note s1 = sys_seek_same [OF s]
  note k1 = keeps_same_world [OF conjunct1 [OF s1], of "fd_id f" p]
  show ?thesis
  proof (cases ok)
    case False
    with assms s s1 k1 show ?thesis by (simp add: evr_write_bucket_end_offset_def)
  next
    case True
    obtain r2 w2 f2 where wn: "write_n sys_write (w1, f1) (be32 (word_of_nat e)) = (r2, (w2, f2))"
      using prod_cases3 by blast
    from write_n_world [OF wn] obtain k where k: "same_world (put_file w1 f1 (take k (be32 (word_of_nat e)))) w2"
      "f2 = f1\<lparr>fd_off := fd_off f1 + k\<rparr>" by blast
    have off: "fd_off f1 = 3" using True s1 by (simp add: evr_bucket_magic_number_def)
    have "keeps (fd_id f1) p w1 (put_file w1 f1 (take k (be32 (word_of_nat e))))"
      using assms(2) by (intro keeps_put_file) (simp add: off bucket_ext_end_offset)
    with keeps_same_world [OF k(1), of "fd_id f1" p] have k2: "keeps (fd_id f1) p w1 w2 \<and> w_db w2 = w_db w1"
      using keeps_trans by simp blast
    obtain ok3 w3 where sc: "sys_call w2 = (ok3, w3)" by fastforce
    have k3: "keeps (fd_id f1) p w1 w3 \<and> w_db w3 = w_db w1"
      using k2 keeps_same_world [OF sys_call_same [OF sc], of "fd_id f1" p] keeps_trans by simp blast
    have "(w' = w2 \<or> w' = w3) \<and> f' = f2"
      using assms(1) s True wn sc by (auto simp: evr_write_bucket_end_offset_def split: if_splits)
    moreover have "fd_id f1 = fd_id f" "fd_id f2 = fd_id f1" using s1 k(2) by simp_all
    ultimately show ?thesis using k1 k2 k3 keeps_trans by auto
  qed
qed

section \<open>Writing the blob\<close>

lemma write_blob_chunks_eq: "write_blob_chunks s cs n = write_chunk_set_loop sys_write s cs n"
proof (induction s cs n rule: write_blob_chunks.induct)
  case (1 s cs n)
  have m: "(if n < evr_chunk_size then n else evr_chunk_size) = min evr_chunk_size n" by simp
  show ?case
  proof (cases cs)
    case Nil
    then show ?thesis by (simp add: write_blob_chunks.simps [of s])
  next
    case (Cons c cs')
    show ?thesis
    proof (cases "n = 0 \<or> min evr_chunk_size n > length c")
      case True
      then show ?thesis using Cons by (auto simp: write_blob_chunks.simps [of s] m Let_def)
    next
      case False
      obtain r s' where w: "write_n sys_write s (take (min evr_chunk_size n) c) = (r, s')"
        by (cases "write_n sys_write s (take (min evr_chunk_size n) c)")
      have "r = Evr_ok \<Longrightarrow> write_blob_chunks s' cs' (n - min evr_chunk_size n) =
          write_chunk_set_loop sys_write s' cs' (n - min evr_chunk_size n)"
        using 1 [OF _ Cons m [symmetric] _ w [symmetric]] False by auto
      with False Cons w show ?thesis by (auto simp: write_blob_chunks.simps [of s] m Let_def)
    qed
  qed
qed

lemma bk_wvalid_id: "bk_wvalid w f s \<Longrightarrow> fd_id (snd s) = fd_id f"
  by (simp add: bk_wvalid_def)

lemma write_blob_chunks_world:
  assumes "chunks_hold n cs b"
  shows "\<exists>r w' f'. write_blob_chunks (w, f) cs (length b) = Some (r, (w', f')) \<and>
    (r = Evr_ok \<longrightarrow> same_world (put_file w f b) w' \<and> fd_id f' = fd_id f)"
proof -
  have v: "bk_wvalid w f (w, f)" by (simp add: bk_wvalid_def bk_sink_def put_file_def)
  have s0: "bk_sink f (w, f) = []" by (simp add: bk_sink_def)
  from bk_wr.write_chunk_set_loop_sink [OF v assms] obtain r w' f' where
    "write_chunk_set_loop sys_write (w, f) cs (length b) = Some (r, (w', f'))" "bk_wvalid w f (w', f')"
    "r = Evr_ok \<longrightarrow> bk_sink f (w', f') = bk_sink f (w, f) @ b" by (metis surj_pair)
  moreover from this(2) have "fd_id f' = fd_id f" using bk_wvalid_id by fastforce
  moreover from calculation(2) have "same_world (put_file w f (bk_sink f (w', f'))) w'"
    by (simp add: bk_wvalid_def)
  ultimately show ?thesis using s0 by (auto simp: write_blob_chunks_eq)
qed

lemma keeps_write_blob_chunks:
  assumes "write_blob_chunks (w, f) cs n = Some (r, (w', f'))" "7 \<le> p" "p \<le> fd_off f"
  shows "keeps (fd_id f) p w w' \<and> w_db w' = w_db w \<and> fd_id f' = fd_id f"
  using assms
proof (induction "(w, f)" cs n arbitrary: w f rule: write_blob_chunks.induct)
  case (1 cs n w f)
  show ?case
  proof (cases "n = 0")
    case True
    with "1.prems" show ?thesis by (auto simp: write_blob_chunks.simps [of "(w, f)"] keeps_same)
  next
    case False
    then obtain c cs' where cs: "cs = c # cs'"
      using "1.prems"(1) by (cases cs) (auto simp: write_blob_chunks.simps [of "(w, f)"])
    define k where "k = (if n < evr_chunk_size then n else evr_chunk_size)"
    have k: "\<not> length c < k" using "1.prems"(1) False cs
      by (auto simp: write_blob_chunks.simps [of "(w, f)"] k_def [symmetric] Let_def split: if_splits)
    obtain r1 w1 f1 where wn: "write_n sys_write (w, f) (take k c) = (r1, (w1, f1))" using prod_cases3 by blast
    note kp = keeps_write_n [OF wn "1.prems"(2,3)]
    show ?thesis
    proof (cases "r1 = Evr_ok")
      case True
      then have rec: "write_blob_chunks (w1, f1) cs' (n - k) = Some (r, (w', f'))"
        using "1.prems"(1) False cs k wn by (simp add: write_blob_chunks.simps [of "(w, f)"] k_def [symmetric] Let_def)
      have "keeps (fd_id f1) p w1 w' \<and> w_db w' = w_db w1 \<and> fd_id f' = fd_id f1"
        using "1.hyps" [OF False cs k_def k wn [symmetric]] True rec kp "1.prems"(2,3) by simp
      with kp keeps_trans show ?thesis by auto
    next
      case r1: False
      with "1.prems"(1) False cs k wn kp show ?thesis
        by (auto simp: write_blob_chunks.simps [of "(w, f)"] k_def [symmetric] Let_def)
    qed
  qed
qed

lemma write_blob_to_bucket_keeps:
  assumes "write_blob_to_bucket now hm blob c w = (x, c1, w1)" "wc_bucket_f c = Some f"
    "7 \<le> p" "p \<le> wc_bucket_pos c"
  shows "keeps (fd_id f) p w w1 \<and> w_db w1 = w_db w \<and>
    (\<exists>f1 s1. c1 = c\<lparr>wc_bucket_f := Some f1, wc_bucket_sync := s1\<rparr> \<and> fd_id f1 = fd_id f)"
proof -
  let ?K = "\<lambda>u v. keeps (fd_id f) p u v \<and> w_db v = w_db u"
  have T: "?K a b \<Longrightarrow> ?K b d \<Longrightarrow> ?K a d" for a b d using keeps_trans by auto
  have C: "c\<lparr>wc_bucket_f := g\<rparr> = c\<lparr>wc_bucket_f := g, wc_bucket_sync := wc_bucket_sync c\<rparr>" for g by simp
  obtain ok w2 f2 where s: "sys_seek w f (wc_bucket_pos c) = (ok, w2, f2)" using prod_cases3 by blast
  note s2 = sys_seek_same [OF s]
  have K2: "?K w w2" using keeps_same_world s2 by blast
  show ?thesis
  proof (cases "ok \<and> push_blob_header hm blob now \<noteq> None")
    case False
    then have "w1 = w2 \<and> c1 = c\<lparr>wc_bucket_f := Some f2\<rparr>"
      using assms(1,2) s by (cases ok) (simp_all add: write_blob_to_bucket_def)
    with s2 K2 C show ?thesis by metis
  next
    case True
    then obtain h where h: "push_blob_header hm blob now = Some h" by auto
    obtain r3 w3 f3 where w3: "write_n sys_write (w2, f2) (take evr_bucket_blob_header_size h) = (r3, (w3, f3))"
      using prod_cases3 by blast
    have off: "p \<le> fd_off f2" using True s2 assms(4) by simp
    note k3 = keeps_write_n [OF w3 assms(3) off]
    have "?K w2 w3" using k3 s2 by simp
    then have K3: "?K w w3" by (rule T [OF K2])
    show ?thesis
    proof (cases "r3 \<noteq> Evr_ok \<or> write_blob_chunks (w3, f3) (wb_chunks blob) (wb_size blob) = None")
      case bad: True
      then have "w1 = w3 \<and> c1 = c\<lparr>wc_bucket_f := Some f3\<rparr>"
        using assms(1,2) s True h w3 by (auto simp: write_blob_to_bucket_def split: if_splits)
      with k3 s2 K3 C show ?thesis by metis
    next
      case ok3: False
      then obtain r4 w4 f4 where w4: "write_blob_chunks (w3, f3) (wb_chunks blob) (wb_size blob) = Some (r4, (w4, f4))"
        by auto
      have "p \<le> fd_off f3" using off k3 by simp
      note k4 = keeps_write_blob_chunks [OF w4 assms(3) this]
      have "?K w3 w4" using k4 k3 s2 by simp
      then have K4: "?K w w4" by (rule T [OF K3])
      obtain ok5 w5 where w5: "sys_call w4 = (ok5, w5)" by fastforce
      have K5: "?K w w5" using T [OF K4] keeps_same_world [OF sys_call_same [OF w5]] by blast
      have "(w1 = w4 \<or> w1 = w5) \<and>
          (c1 = c\<lparr>wc_bucket_f := Some f4\<rparr> \<or> c1 = c\<lparr>wc_bucket_f := Some f4, wc_bucket_sync := True\<rparr>)"
        using assms(1,2) s True h w3 ok3 w4 w5
        by (auto simp: write_blob_to_bucket_def split: if_splits)
      with k3 k4 s2 K4 K5 C [of "Some f4"] show ?thesis by metis
    qed
  qed
qed

text \<open>A blob whose chunks hold its data, with a reference of the right size.\<close>

definition blob_holds :: "evr_writing_blob \<Rightarrow> bytes \<Rightarrow> bool" where
  "blob_holds blob b = (wb_size blob = length b \<and> length (wb_key blob) = evr_blob_ref_size \<and>
     (\<exists>n. chunks_hold n (wb_chunks blob) b))"

definition blob_record :: "evr_writing_blob \<Rightarrow> evr_time \<Rightarrow> bytes \<Rightarrow> bytes" where
  "blob_record blob t b = header_bytes (wb_key blob) (ucast (wb_flags blob)) t (word_of_nat (wb_size blob)) @ b"

lemma length_blob_record:
  "blob_holds blob b \<Longrightarrow> length (blob_record blob t b) = evr_bucket_blob_header_size + wb_size blob"
  by (simp add: blob_record_def blob_holds_def)

lemma write_blob_to_bucket_ok:
  assumes "write_blob_to_bucket now hm blob c w = (Ret Evr_ok, c1, w1)" "wc_bucket_f c = Some f"
    "blob_holds blob b" "length hm = evr_bucket_blob_header_size"
  shows "content w1 (fd_id f) = write_at (content w (fd_id f)) (wc_bucket_pos c) (blob_record blob now b)"
    "w_files w (fd_id f) \<noteq> None \<Longrightarrow> w_files w1 (fd_id f) \<noteq> None"
    "\<And>i. i \<noteq> fd_id f \<Longrightarrow> w_files w1 i = w_files w i" "w_dir w1 = w_dir w"
proof -
  let ?h = "header_bytes (wb_key blob) (ucast (wb_flags blob)) now (word_of_nat (wb_size blob))"
  obtain ok w2 f2 where s: "sys_seek w f (wc_bucket_pos c) = (ok, w2, f2)" using prod_cases3 by blast
  note s2 = sys_seek_same [OF s]
  note w2 = same_world_fields [OF conjunct1 [OF s2]]
  have h: "push_blob_header hm blob now = Some ?h" "length ?h = evr_bucket_blob_header_size"
    using assms(3,4) by (simp_all add: push_blob_header_eq blob_holds_def)
  obtain r3 w3 f3 where w3: "write_n sys_write (w2, f2) ?h = (r3, (w3, f3))" using prod_cases3 by blast
  from assms(3) obtain n where n: "chunks_hold n (wb_chunks blob) b" "wb_size blob = length b"
    by (auto simp: blob_holds_def)
  from write_blob_chunks_world [OF n(1), of w3 f3] obtain r4 w4 f4 where
    w4: "write_blob_chunks (w3, f3) (wb_chunks blob) (length b) = Some (r4, (w4, f4))"
    "r4 = Evr_ok \<longrightarrow> same_world (put_file w3 f3 b) w4" by blast
  obtain ok5 w5 where w5: "sys_call w4 = (ok5, w5)" by fastforce
  have okk: "ok" "r3 = Evr_ok" "r4 = Evr_ok" "w1 = w4 \<or> w1 = w5"
    using assms(1,2) s h w3 w4(1) w5 n(2) by (auto simp: write_blob_to_bucket_def split: if_splits)
  have same: "same_world (put_file w3 f3 b) w1"
    using okk w4(2) sys_call_same [OF w5] same_world_trans by blast
  note w1 = same_world_fields [OF same]
  note e3 = write_n_exact [OF w3 [unfolded okk(2)]]
  have id: "fd_id f2 = fd_id f" "fd_id f3 = fd_id f" "fd_off f2 = wc_bucket_pos c"
    "fd_off f3 = wc_bucket_pos c + length ?h" using s2 e3 okk(1) by simp_all
  have "content w1 (fd_id f) = write_at (content w3 (fd_id f)) (fd_off f3) b"
    using w1(4) id by (simp add: content_put_file)
  also have "\<dots> = write_at (write_at (content w (fd_id f)) (wc_bucket_pos c) ?h) (wc_bucket_pos c + length ?h) b"
    using e3 id w2(4) by simp
  finally show "content w1 (fd_id f) = write_at (content w (fd_id f)) (wc_bucket_pos c) (blob_record blob now b)"
    by (simp add: write_at_append blob_record_def)
  show "w_files w (fd_id f) \<noteq> None \<Longrightarrow> w_files w1 (fd_id f) \<noteq> None"
    using e3 id w1(1) w2(1) by (auto simp: put_file_def)
  show "w_files w1 i = w_files w i" if "i \<noteq> fd_id f" for i
    using that e3 id w1(1) w2(1) by (auto simp: put_file_def)
  show "w_dir w1 = w_dir w" using e3 w1(2) w2(2) by simp
qed

lemma end_offset_ok:
  assumes "evr_write_bucket_end_offset w f e sync = (Evr_ok, w', f')"
  shows "content w' (fd_id f) = write_at (content w (fd_id f)) 3 (be32 (word_of_nat e))"
    "w_files w (fd_id f) \<noteq> None \<Longrightarrow> w_files w' (fd_id f) \<noteq> None"
    "\<And>i. i \<noteq> fd_id f \<Longrightarrow> w_files w' i = w_files w i" "w_dir w' = w_dir w"
proof -
  obtain ok w1 f1 where s: "sys_seek w f (length evr_bucket_magic_number) = (ok, w1, f1)" using prod_cases3 by blast
  note s1 = sys_seek_same [OF s]
  note w1 = same_world_fields [OF conjunct1 [OF s1]]
  obtain r2 w2 f2 where w2: "write_n sys_write (w1, f1) (be32 (word_of_nat e)) = (r2, (w2, f2))"
    using prod_cases3 by blast
  obtain ok3 w3 where sc: "sys_call w2 = (ok3, w3)" by fastforce
  have okk: "ok" "r2 = Evr_ok" "w' = w2 \<or> w' = w3"
    using assms s w2 sc by (auto simp: evr_write_bucket_end_offset_def split: if_splits)
  have same: "same_world w2 w'" using okk(3) sys_call_same [OF sc] by blast
  note e2 = write_n_exact [OF w2 [unfolded okk(2)]]
  have id: "fd_id f1 = fd_id f" "fd_off f1 = 3" using s1 okk(1) by (simp_all add: evr_bucket_magic_number_def)
  note w' = same_world_fields [OF same]
  show "content w' (fd_id f) = write_at (content w (fd_id f)) 3 (be32 (word_of_nat e))"
    using e2 id w1(4) w'(4) by simp
  show "w_files w (fd_id f) \<noteq> None \<Longrightarrow> w_files w' (fd_id f) \<noteq> None" using e2 id w1(1) w'(1) by simp
  show "w_files w' i = w_files w i" if "i \<noteq> fd_id f" for i using that e2 id w1(1) w'(1) by simp
  show "w_dir w' = w_dir w" using e2 w1(2) w'(2) by simp
qed

section \<open>The next bucket\<close>

lemma hex_value_snoc: "hex_value (ds @ [c]) = 16 * hex_value ds + the (hex_digit c)"
  by (simp add: hex_value_def)

lemma hex_value_zeros: "hex_value (replicate k (CHR ''0'') @ ds) = hex_value ds"
proof (induction k)
  case (Suc k)
  have "the (hex_digit (CHR ''0'')) = 0" by (simp add: hex_digit_def)
  with Suc show ?case by (simp add: hex_value_def)
qed simp

lemma hex_value_hex_digits: "hex_value (hex_digits n) = n"
proof (induction n rule: hex_digits.induct)
  case (1 n)
  show ?case
  proof (cases "n < 16")
    case True
    then show ?thesis by (simp add: hex_digits.simps [of n] hex_value_def)
  next
    case False
    with 1 show ?thesis by (simp add: hex_digits.simps [of n] hex_value_snoc)
  qed
qed

lemma bucket_file_name_inj: "bucket_file_name a = bucket_file_name b \<Longrightarrow> a = b"
proof -
  assume "bucket_file_name a = bucket_file_name b"
  then have "replicate (5 - length (hex_digits a)) (CHR ''0'') @ hex_digits a =
      replicate (5 - length (hex_digits b)) (CHR ''0'') @ hex_digits b"
    by (simp add: bucket_file_name_def)
  from arg_cong [OF this, of hex_value] show "a = b" by (simp add: hex_value_zeros hex_value_hex_digits)
qed

definition bucket_file :: "nat \<Rightarrow> file_id" where "bucket_file i = File (bucket_file_name i)"

lemma bucket_file_eq [simp]: "bucket_file a = bucket_file b \<longleftrightarrow> a = b" "bucket_file a \<noteq> Stdout"
  using bucket_file_name_inj by (auto simp: bucket_file_def)

text \<open>Only the file of the descriptor changes.\<close>

definition only_file :: "file_id \<Rightarrow> 'd world \<Rightarrow> 'd world \<Rightarrow> bool" where
  "only_file fid w w' = ((\<forall>i. i \<noteq> fid \<longrightarrow> w_files w' i = w_files w i) \<and> w_db w' = w_db w)"

lemma only_file_trans: "only_file fid a b \<Longrightarrow> only_file fid b c \<Longrightarrow> only_file fid a c"
  by (simp add: only_file_def)

lemma only_file_same: "same_world w w' \<Longrightarrow> only_file fid w w'"
  using same_world_fields by (fastforce simp: only_file_def)

lemma only_file_write_n:
  assumes "write_n sys_write (w, f) b = (r, (w', f'))"
  shows "only_file (fd_id f) w w' \<and> fd_id f' = fd_id f"
proof -
  from write_n_world [OF assms] obtain k where k: "same_world (put_file w f (take k b)) w'"
    "f' = f\<lparr>fd_off := fd_off f + k\<rparr>" by blast
  have "only_file (fd_id f) w (put_file w f (take k b))" by (simp add: only_file_def put_file_def)
  with only_file_same [OF k(1)] only_file_trans k(2) show ?thesis by fastforce
qed

lemma only_file_magic:
  assumes "evr_write_bucket_magic_number w f = (r, w', f')"
  shows "only_file (fd_id f) w w' \<and> fd_id f' = fd_id f"
proof -
  obtain ok w1 f1 where s: "sys_seek w f 0 = (ok, w1, f1)" using prod_cases3 by blast
  obtain r2 w2 f2 where w2: "write_n sys_write (w1, f1) evr_bucket_magic_number = (r2, (w2, f2))"
    using prod_cases3 by blast
  have "(w' = w1 \<and> f' = f1) \<or> (w' = w2 \<and> f' = f2)"
    using assms s w2 by (auto simp: evr_write_bucket_magic_number_def split: if_splits)
  moreover note sys_seek_same [OF s] only_file_write_n [OF w2]
  ultimately show ?thesis using only_file_same only_file_trans by metis
qed

lemma only_file_end_offset:
  assumes "evr_write_bucket_end_offset w f e sync = (r, w', f')"
  shows "only_file (fd_id f) w w' \<and> fd_id f' = fd_id f"
proof -
  obtain ok w1 f1 where s: "sys_seek w f (length evr_bucket_magic_number) = (ok, w1, f1)" using prod_cases3 by blast
  obtain r2 w2 f2 where w2: "write_n sys_write (w1, f1) (be32 (word_of_nat e)) = (r2, (w2, f2))"
    using prod_cases3 by blast
  obtain ok3 w3 where w3: "sys_call w2 = (ok3, w3)" by fastforce
  have "(w' = w1 \<and> f' = f1) \<or> (w' = w2 \<and> f' = f2) \<or> (w' = w3 \<and> f' = f2)"
    using assms s w2 w3 by (auto simp: evr_write_bucket_end_offset_def split: if_splits)
  moreover note sys_seek_same [OF s] only_file_write_n [OF w2] sys_call_same [OF w3]
  ultimately show ?thesis using only_file_same only_file_trans by metis
qed

lemma close_current_bucket_same:
  assumes "close_current_bucket c w = (r, c1, w1)"
  shows "same_world w w1 \<and> wc_bucket_index c1 = wc_bucket_index c \<and> wc_bucket_pos c1 = wc_bucket_pos c"
proof (cases "wc_bucket_f c")
  case None
  with assms show ?thesis by (simp add: close_current_bucket_def)
next
  case (Some f)
  obtain a wa where a: "sys_call w = (a, wa)" by fastforce
  obtain b wb where b: "sys_call wa = (b, wb)" by fastforce
  show ?thesis
    using assms Some a b sys_call_same [OF a] sys_call_same [OF b] same_world_trans
    by (auto simp: close_current_bucket_def split: if_splits)
qed

text \<open>
  Opening a bucket for creation: a new empty file, or the standard output when \<^verbatim>\<open>open\<close> fails.
\<close>

lemma open_create:
  assumes "open_current_bucket c w True = (r, c1, w1)"
  shows "r = Evr_ok \<and> (\<exists>f. c1 = c\<lparr>wc_bucket_f := Some f\<rparr> \<and> w_db w1 = w_db w \<and>
    (fd_id f = Stdout \<and> w_files w1 = w_files w \<or>
     fd_id f = bucket_file (wc_bucket_index c) \<and> w_files w (fd_id f) = None \<and>
     w_files w1 = (w_files w)(fd_id f \<mapsto> []) \<and> w_dir w1 = w_dir w @ [bucket_file_name (wc_bucket_index c)]))"
proof -
  obtain ok w2 where s: "sys_call w = (ok, w2)" by fastforce
  note w2 = same_world_fields [OF sys_call_same [OF s]]
  show ?thesis
    using assms s w2
    by (auto simp: open_current_bucket_def evr_open_bucket_def sys_open_def bucket_file_def
        split: if_splits)
qed

end
