(* ===== verification/Glacier_Inv.thy ===== *)
theory Glacier_Inv
  imports Glacier_Append
begin

text \<open>
  The invariant of an open glacier and its refinement: seen through the index, the glacier is a
  map from references to flags and data. Appending extends the map and never changes what it holds,
  whatever fails on the way.
\<close>

section \<open>Creating the next bucket\<close>

context sqlite_index
begin

lemma create_next_bucket_effect:
  assumes "create_next_bucket S c w = (x, c1, w1)"
  shows "(\<forall>i cont. i \<noteq> Stdout \<longrightarrow> w_files w i = Some cont \<longrightarrow> w_files w1 i = Some cont) \<and>
    blobs (w_db w1) = blobs (w_db w) \<and>
    (x = Ret Evr_ok \<longrightarrow> wc_bucket_index c1 = Suc (wc_bucket_index c) \<and>
       wc_bucket_pos c1 = evr_bucket_header_size \<and>
       (\<exists>f. wc_bucket_f c1 = Some f \<and>
         (fd_id f = Stdout \<or>
          fd_id f = bucket_file (Suc (wc_bucket_index c)) \<and> w_files w (fd_id f) = None \<and>
          w_files w1 (fd_id f) = Some (evr_bucket_magic_number @ be32 (word_of_nat evr_bucket_header_size)))))"
proof -
  obtain r a wa where a: "close_current_bucket c w = (r, a, wa)" using prod_cases3 by blast
  note ca = close_current_bucket_same [OF a]
  note wa = same_world_fields [OF conjunct1 [OF ca]]
  show ?thesis
  proof (cases "r = Evr_ok")
    case False
    with assms a wa show ?thesis by (auto simp: create_next_bucket_def)
  next
    case True
    let ?b = "a\<lparr>wc_bucket_index := wc_bucket_index a + 1\<rparr>"
    obtain r2 b wb where b: "open_current_bucket ?b wa True = (r2, b, wb)" using prod_cases3 by blast
    from open_create [OF b] obtain f where f: "r2 = Evr_ok" "b = ?b\<lparr>wc_bucket_f := Some f\<rparr>" "w_db wb = w_db wa"
      "fd_id f = Stdout \<and> w_files wb = w_files wa \<or>
       fd_id f = bucket_file (Suc (wc_bucket_index c)) \<and> w_files wa (fd_id f) = None \<and>
       w_files wb = (w_files wa)(fd_id f \<mapsto> [])" using ca by auto
    obtain r3 w3 f3 where m: "evr_write_bucket_magic_number wb f = (r3, w3, f3)" using prod_cases3 by blast
    obtain r4 w4 f4 where e: "evr_write_bucket_end_offset w3 f3 evr_bucket_header_size True = (r4, w4, f4)"
      using prod_cases3 by blast
    obtain res d where i: "ix_insert_bucket S (w_db w4) (word_of_nat (Suc (wc_bucket_index c))) = (res, d)" by fastforce
    note m' = only_file_magic [OF m] and e' = only_file_end_offset [OF e]
    have old: "i \<noteq> Stdout \<Longrightarrow> w_files w i = Some cont \<Longrightarrow> v \<in> {wb, w3, w4} \<Longrightarrow> w_files v i = Some cont" for i cont v
      using f(4) wa(1) m' e' by (cases "i = fd_id f") (auto simp: only_file_def)
    have db: "v \<in> {wb, w3, w4} \<Longrightarrow> w_db v = w_db w" for v using f(3) wa(3) m' e' by (auto simp: only_file_def)
    have d: "blobs d = blobs (w_db w)"
      using i insert_bucket_done insert_bucket_keeps db [of w4] by (metis insertCI)
    have w1: "w1 \<in> {w3, w4} \<or> w1 = w4\<lparr>w_db := d\<rparr>"
      using assms a True b f(1,2) m e i ca
      by (auto simp: create_next_bucket_def Let_def split: if_splits)
    have ok: "r3 = Evr_ok" "r4 = Evr_ok" "w1 = w4\<lparr>w_db := d\<rparr>" "wc_bucket_index c1 = Suc (wc_bucket_index c)"
      "wc_bucket_pos c1 = evr_bucket_header_size" "wc_bucket_f c1 = Some f4" if "x = Ret Evr_ok"
      using that assms a True b f(1,2) m e i ca
      by (auto simp: create_next_bucket_def Let_def split: if_splits)
    have new: "w_files w4 (fd_id f) = Some (evr_bucket_magic_number @ be32 (word_of_nat evr_bucket_header_size))"
      if x: "x = Ret Evr_ok" and nf: "fd_id f = bucket_file (Suc (wc_bucket_index c))"
    proof -
      obtain o1 w5 f5 where s: "sys_seek wb f 0 = (o1, w5, f5)" using prod_cases3 by blast
      obtain r6 w6 f6 where wn: "write_n sys_write (w5, f5) evr_bucket_magic_number = (r6, (w6, f6))"
        using prod_cases3 by blast
      have "o1" "r6 = Evr_ok" "w3 = w6" "f3 = f6"
        using m s wn ok(1) [OF x] by (auto simp: evr_write_bucket_magic_number_def split: if_splits)
      note s' = sys_seek_same [OF s] and wn' = write_n_exact [OF wn [unfolded \<open>r6 = Evr_ok\<close>]]
      have fb: "w_files wb (fd_id f) = Some []" using f(4) nf by auto
      have c3: "content w3 (fd_id f) = evr_bucket_magic_number" "w_files w3 (fd_id f) \<noteq> None"
        using s' wn' fb same_world_fields [OF conjunct1 [OF s']] \<open>o1\<close> \<open>w3 = w6\<close>
        by (auto simp: content_def write_at_def overwrite_def evr_bucket_magic_number_def)
      have e2: "evr_write_bucket_end_offset w3 f3 evr_bucket_header_size True = (Evr_ok, w4, f4)"
        using e ok(2) [OF x] by simp
      have id: "fd_id f3 = fd_id f" using m' by simp
      have "content w4 (fd_id f) = evr_bucket_magic_number @ be32 (word_of_nat evr_bucket_header_size)"
        using end_offset_ok(1) [OF e2] c3(1) id
        by (simp add: write_at_def overwrite_def evr_bucket_magic_number_def length_0_conv [symmetric] del: length_0_conv)
      moreover have "w_files w4 (fd_id f) \<noteq> None" using end_offset_ok(2) [OF e2] c3(2) id by simp
      ultimately show ?thesis by (auto simp: content_def)
    qed
    have ids: "fd_id f4 = fd_id f" using m' e' by simp
    show ?thesis
    proof (intro conjI allI impI)
      show "w_files w1 i = Some cont" if "i \<noteq> Stdout" "w_files w i = Some cont" for i cont
        using w1 old [OF that, of w3] old [OF that, of w4] by auto
      show "blobs (w_db w1) = blobs (w_db w)" using w1 d db by auto
      assume x: "x = Ret Evr_ok"
      show "wc_bucket_index c1 = Suc (wc_bucket_index c)" "wc_bucket_pos c1 = evr_bucket_header_size"
        using ok [OF x] by simp_all
      show "\<exists>f. wc_bucket_f c1 = Some f \<and> (fd_id f = Stdout \<or>
          fd_id f = bucket_file (Suc (wc_bucket_index c)) \<and> w_files w (fd_id f) = None \<and>
          w_files w1 (fd_id f) = Some (evr_bucket_magic_number @ be32 (word_of_nat evr_bucket_header_size)))"
        using ok [OF x] f(4) wa(1) new [OF x] ids by auto
    qed
  qed
qed

end

section \<open>The invariant and the map\<close>

definition bucket_ok :: "bytes \<Rightarrow> nat \<Rightarrow> bool" where
  "bucket_ok cont p = (take 3 cont = evr_bucket_magic_number \<and> take 4 (drop 3 cont) = be32 (word_of_nat p) \<and>
     evr_bucket_header_size \<le> p \<and> p \<le> length cont)"

text \<open>The current bucket is open, and ends at the position of the context.\<close>

definition ctx_inv :: "evr_glacier_write_ctx \<Rightarrow> 'd world \<Rightarrow> bool" where
  "ctx_inv c w = (\<exists>f cont. wc_bucket_f c = Some f \<and> fd_id f = bucket_file (wc_bucket_index c) \<and>
     w_files w (fd_id f) = Some cont \<and> bucket_ok cont (wc_bucket_pos c))"

text \<open>A row points into a bucket file, and in the current bucket not behind its end.\<close>

definition row_file :: "blob_row \<Rightarrow> file_id" where
  "row_file r = bucket_file (unat (br_bucket_index r))"

definition row_ok :: "evr_glacier_write_ctx \<Rightarrow> 'd world \<Rightarrow> blob_row \<Rightarrow> bool" where
  "row_ok c w r = (evr_bucket_header_size \<le> unat (br_offset r) \<and> unat (br_offset r) + unat (br_size r) < 2 ^ 31 \<and>
     (\<exists>cont. w_files w (row_file r) = Some cont \<and> take 3 cont = evr_bucket_magic_number \<and>
        unat (br_offset r) + unat (br_size r) \<le> length cont \<and>
        (unat (br_bucket_index r) = wc_bucket_index c \<longrightarrow> unat (br_offset r) + unat (br_size r) \<le> wc_bucket_pos c)))"

definition glacier_inv :: "('d \<Rightarrow> bytes \<Rightarrow> blob_row option) \<Rightarrow> evr_glacier_write_ctx \<Rightarrow> 'd world \<Rightarrow> bool" where
  "glacier_inv blobs c w = (ctx_inv c w \<and> (\<forall>k r. blobs (w_db w) k = Some r \<longrightarrow> row_ok c w r))"

definition stored :: "'d world \<Rightarrow> blob_row \<Rightarrow> bytes" where
  "stored w r = take (unat (br_size r)) (drop (unat (br_offset r)) (content w (row_file r)))"

definition glacier_abs :: "('d \<Rightarrow> bytes \<Rightarrow> blob_row option) \<Rightarrow> 'd world \<Rightarrow> bytes \<Rightarrow> (c_int \<times> bytes) option" where
  "glacier_abs blobs w k = map_option (\<lambda>r. (br_flags r, stored w r)) (blobs (w_db w) k)"

text \<open>What lies before the end of the current bucket stays readable.\<close>

lemma stored_ext:
  assumes "row_ok c w r" "w_files w (row_file r) = Some cont" "w_files w' (row_file r) = Some cont'"
    "bucket_ext p cont cont'" "unat (br_offset r) + unat (br_size r) \<le> p"
  shows "stored w' r = stored w r"
proof -
  let ?o = "unat (br_offset r)" and ?s = "unat (br_size r)"
  have o: "7 \<le> ?o" using assms(1) by (simp add: row_ok_def evr_layout)
  have t: "take ?s (drop ?o x) = take ?s (drop (?o - 7) (drop 7 (take p x)))" for x :: bytes
    using o assms(5) by (simp add: drop_take)
  have "drop 7 (take p cont') = drop 7 (take p cont)" using assms(4) by (simp add: bucket_ext_def evr_layout)
  then have "take ?s (drop ?o cont') = take ?s (drop ?o cont)" by (simp only: t)
  then show ?thesis using assms(2,3) by (simp add: stored_def content_def)
qed

lemma row_kept:
  assumes "row_ok c w r" "keeps (bucket_file (wc_bucket_index c)) (wc_bucket_pos c) w w'"
    "\<forall>cont. w_files w (bucket_file (wc_bucket_index c)) = Some cont \<longrightarrow> wc_bucket_pos c \<le> length cont"
  shows "stored w' r = stored w r" and
    "wc_bucket_index c' = wc_bucket_index c \<Longrightarrow> wc_bucket_pos c \<le> wc_bucket_pos c' \<Longrightarrow> row_ok c' w' r"
proof -
  from assms(1) obtain cont where c: "w_files w (row_file r) = Some cont" "take 3 cont = evr_bucket_magic_number"
    "unat (br_offset r) + unat (br_size r) \<le> length cont"
    "unat (br_bucket_index r) = wc_bucket_index c \<longrightarrow> unat (br_offset r) + unat (br_size r) \<le> wc_bucket_pos c"
    by (auto simp: row_ok_def)
  with assms(2) obtain cont' where c': "w_files w' (row_file r) = Some cont'"
    "if row_file r = bucket_file (wc_bucket_index c) then wc_bucket_pos c \<le> length cont \<longrightarrow>
       bucket_ext (wc_bucket_pos c) cont cont' else cont' = cont"
    by (auto simp: keeps_def)
  show "stored w' r = stored w r"
  proof (cases "unat (br_bucket_index r) = wc_bucket_index c")
    case True
    then have "bucket_ext (wc_bucket_pos c) cont cont'" using c' c(1) assms(3) by (simp add: row_file_def)
    from stored_ext [OF assms(1) c(1) c'(1) this] True c(4) show ?thesis by simp
  next
    case False
    with c' c(1) show ?thesis by (simp add: stored_def content_def row_file_def)
  qed
  assume "wc_bucket_index c' = wc_bucket_index c" "wc_bucket_pos c \<le> wc_bucket_pos c'"
  moreover have "take 3 cont' = evr_bucket_magic_number \<and> length cont \<le> length cont'"
    using c' c assms(3) by (auto simp: bucket_ext_def row_file_def split: if_splits)
  ultimately show "row_ok c' w' r" using assms(1) c c'(1) by (auto simp: row_ok_def)
qed

section \<open>Appending to the current bucket\<close>

text \<open>The row of a blob that is appended at position \<open>p\<close>.\<close>

definition appended_row :: "evr_writing_blob \<Rightarrow> evr_time \<Rightarrow> nat \<Rightarrow> nat \<Rightarrow> blob_row" where
  "appended_row blob now i p =
    \<lparr>br_key = wb_key blob, br_flags = wb_flags blob, br_bucket_index = word_of_nat i,
     br_offset = word_of_nat (p + evr_bucket_blob_header_size), br_size = word_of_nat (wb_size blob),
     br_last_modified = now\<rparr>"

context sqlite_index
begin

lemma index_appended_blob_effect:
  assumes "index_appended_blob S now blob (p + evr_bucket_blob_header_size) e c w = (x, w')"
    "length (wb_key blob) = evr_blob_ref_size"
  defines "row \<equiv> appended_row blob now (wc_bucket_index c) p"
  shows "w_files w' = w_files w \<and>
    (blobs (w_db w') = blobs (w_db w) \<or> blobs (w_db w) (wb_key blob) = None \<and>
       blobs (w_db w') = (blobs (w_db w))(wb_key blob \<mapsto> row)) \<and>
    (x = Ret Evr_ok \<longrightarrow> blobs (w_db w') =
       (if blobs (w_db w) (wb_key blob) = None then (blobs (w_db w))(wb_key blob \<mapsto> row) else blobs (w_db w)))"
proof -
  have key: "br_key row = wb_key blob" by (simp add: row_def appended_row_def)
  obtain res d where i: "ix_insert_blob S (w_db w) row = (res, d)" by fastforce
  obtain res2 d2 where u: "ix_update_bucket S d (word_of_nat e) (word_of_nat (wc_bucket_index c)) = (res2, d2)"
    by fastforce
  have add: "evr_glacier_add_blob_to_index S c w (wb_key blob) (wb_flags blob)
      (p + evr_bucket_blob_header_size) (wb_size blob) now =
      (case res of Sql_done \<Rightarrow> Ret Evr_ok | Sql_constraint \<Rightarrow> Ret Evr_ok | Sql_fail \<Rightarrow> Panic
        | Sql_bind_fail \<Rightarrow> Ret Evr_error, w\<lparr>w_db := d\<rparr>)"
    using i assms(2) by (simp add: evr_glacier_add_blob_to_index_def row_def appended_row_def)
  have d2: "blobs d2 = blobs d" using u update_bucket_done update_bucket_keeps by metis
  have w': "w' = w\<lparr>w_db := d\<rparr> \<or> w' = w\<lparr>w_db := d2\<rparr>" "x = Ret Evr_ok \<Longrightarrow> res \<in> {Sql_done, Sql_constraint}"
    using assms(1) add u by (auto simp: index_appended_blob_def split: sql_res.splits if_splits)
  then have bl: "blobs (w_db w') = blobs d" and fl: "w_files w' = w_files w" using d2 by auto
  show ?thesis
  proof (cases "res = Sql_done")
    case True
    with insert_blob_done [of "w_db w" row d] i key bl fl show ?thesis by auto
  next
    case False
    have "res = Sql_constraint \<Longrightarrow> blobs (w_db w) (wb_key blob) \<noteq> None"
      using insert_blob_constraint [of "w_db w" row d] i key by simp
    with False insert_blob_keeps [OF i False] bl fl w'(2) show ?thesis by auto
  qed
qed

lemma append_to_bucket_effect:
  assumes "append_to_bucket S now hm blob c w = (x, c', w')" "wc_bucket_f c = Some f"
    "7 \<le> p" "p \<le> wc_bucket_pos c" "length (wb_key blob) = evr_blob_ref_size"
  defines "row \<equiv> appended_row blob now (wc_bucket_index c) (wc_bucket_pos c)"
  shows "keeps (fd_id f) p w w' \<and> wc_bucket_index c' = wc_bucket_index c \<and>
    wc_bucket_pos c \<le> wc_bucket_pos c' \<and>
    (\<exists>f'. wc_bucket_f c' = Some f' \<and> fd_id f' = fd_id f) \<and>
    (blobs (w_db w') = blobs (w_db w) \<or> blobs (w_db w) (wb_key blob) = None \<and>
       blobs (w_db w') = (blobs (w_db w))(wb_key blob \<mapsto> row)) \<and>
    (x = Ret Evr_ok \<longrightarrow> blobs (w_db w') =
       (if blobs (w_db w) (wb_key blob) = None then (blobs (w_db w))(wb_key blob \<mapsto> row) else blobs (w_db w)))"
proof -
  obtain x1 c1 w1 where a: "write_blob_to_bucket now hm blob c w = (x1, c1, w1)" using prod_cases3 by blast
  from write_blob_to_bucket_keeps [OF a assms(2-4)] obtain f1 s1 where k1: "keeps (fd_id f) p w w1"
    "w_db w1 = w_db w" "c1 = c\<lparr>wc_bucket_f := Some f1, wc_bucket_sync := s1\<rparr>" "fd_id f1 = fd_id f" by blast
  let ?p = "wc_bucket_pos c" and ?e = "wc_bucket_pos c + (evr_bucket_blob_header_size + wb_size blob)"
  let ?pb = "wb_sync_strategy blob = Sync_per_blob"
  obtain r2 w2 f2 where e: "evr_write_bucket_end_offset w1 f1 ?e ?pb = (r2, w2, f2)" using prod_cases3 by blast
  note k2 = keeps_end_offset [OF e assms(3)]
  let ?c3 = "c1\<lparr>wc_bucket_pos := ?e, wc_bucket_f := Some f2, wc_bucket_sync := ?pb\<rparr>"
  obtain x3 w3 where i: "index_appended_blob S now blob (?p + evr_bucket_blob_header_size) ?e ?c3 w2 = (x3, w3)"
    by fastforce
  have kw2: "keeps (fd_id f) p w w2" "w_db w2 = w_db w" using k1 k2 keeps_trans by auto
  consider "x1 \<noteq> Ret Evr_ok" "x = x1" "c' = c1" "w' = w1"
    | "x1 = Ret Evr_ok" "r2 \<noteq> Evr_ok" "x = Ret Evr_error" "c' = c1\<lparr>wc_bucket_pos := ?e, wc_bucket_f := Some f2\<rparr>" "w' = w2"
    | "x1 = Ret Evr_ok" "r2 = Evr_ok" "x = x3" "c' = ?c3" "w' = w3"
    using assms(1) a e i k1(3) by (auto simp: append_to_bucket_def Let_def split: if_splits)
  then show ?thesis
  proof cases
    case 1
    with k1 show ?thesis by simp
  next
    case 2
    with k1 k2 kw2 show ?thesis by simp
  next
    case 3
    have idx: "wc_bucket_index ?c3 = wc_bucket_index c" using k1(3) by simp
    note eff = index_appended_blob_effect [OF i assms(5), unfolded idx, folded row_def]
    have "keeps (fd_id f) p w w3" using keeps_trans [OF kw2(1) keeps_same] eff by blast
    with 3 k1 k2 kw2(2) eff idx show ?thesis by simp
  qed
qed

end

end
