(* ===== verification/Glacier_Store.thy ===== *)
theory Glacier_Store
  imports Glacier_Inv
begin

text \<open>
  The main theorems about \<^verbatim>\<open>evr_glacier_append_blob\<close>: a successful append extends the map of the
  glacier by the blob and keeps the invariant, every other outcome keeps all that was stored.
\<close>

section \<open>What a successful append writes\<close>

lemma index_appended_blob_files: "index_appended_blob S now blob o' e c w = (x, w') \<Longrightarrow> w_files w' = w_files w"
  by (auto simp: index_appended_blob_def evr_glacier_add_blob_to_index_def split: prod.splits if_splits)

lemma append_to_bucket_ok:
  assumes "append_to_bucket S now hm blob c w = (Ret Evr_ok, c', w')" "wc_bucket_f c = Some f"
    "blob_holds blob b" "length hm = evr_bucket_blob_header_size" "7 \<le> wc_bucket_pos c"
  defines "e \<equiv> wc_bucket_pos c + (evr_bucket_blob_header_size + wb_size blob)"
  shows "wc_bucket_pos c' = e"
    "content w' (fd_id f) = write_at (write_at (content w (fd_id f)) (wc_bucket_pos c) (blob_record blob now b))
       3 (be32 (word_of_nat e))"
    "w_files w (fd_id f) \<noteq> None \<Longrightarrow> w_files w' (fd_id f) \<noteq> None"
    "\<And>i. i \<noteq> fd_id f \<Longrightarrow> w_files w' i = w_files w i"
proof -
  obtain x1 c1 w1 where a: "write_blob_to_bucket now hm blob c w = (x1, c1, w1)" using prod_cases3 by blast
  from write_blob_to_bucket_keeps [OF a assms(2) assms(5)] obtain f1 s1 where
    c1: "c1 = c\<lparr>wc_bucket_f := Some f1, wc_bucket_sync := s1\<rparr>" "fd_id f1 = fd_id f" by blast
  have x1: "x1 = Ret Evr_ok" using assms(1) a by (auto simp: append_to_bucket_def Let_def split: if_splits)
  note ok = write_blob_to_bucket_ok [OF a [unfolded x1] assms(2-4)]
  let ?pb = "wb_sync_strategy blob = Sync_per_blob"
  obtain r2 w2 f2 where e: "evr_write_bucket_end_offset w1 f1 e ?pb = (r2, w2, f2)" using prod_cases3 by blast
  let ?c3 = "c1\<lparr>wc_bucket_pos := e, wc_bucket_f := Some f2, wc_bucket_sync := ?pb\<rparr>"
  obtain x3 w3 where i: "index_appended_blob S now blob (wc_bucket_pos c + evr_bucket_blob_header_size) e ?c3 w2 = (x3, w3)"
    by fastforce
  have fin: "r2 = Evr_ok" "c' = ?c3" "w' = w3"
    using assms(1) a x1 e i c1(1) by (auto simp: append_to_bucket_def Let_def e_def split: if_splits)
  note eo = end_offset_ok [OF e [unfolded fin(1)]]
  note fl = index_appended_blob_files [OF i]
  show "wc_bucket_pos c' = e" using fin(2) by simp
  have "content w' (fd_id f) = content w2 (fd_id f)" using fl fin(3) by (simp add: content_def)
  with eo(1) c1(2) ok(1) show "content w' (fd_id f) =
      write_at (write_at (content w (fd_id f)) (wc_bucket_pos c) (blob_record blob now b)) 3 (be32 (word_of_nat e))" by simp
  show "w_files w (fd_id f) \<noteq> None \<Longrightarrow> w_files w' (fd_id f) \<noteq> None" using ok(2) eo(2) fl fin(3) c1(2) by simp
  show "\<And>i. i \<noteq> fd_id f \<Longrightarrow> w_files w' i = w_files w i" using ok(3) eo(3) fl fin(3) c1(2) by simp
qed

lemma appended_content:
  fixes now :: evr_time
  assumes "bucket_ok cont p" "blob_holds blob b" "e = p + (evr_bucket_blob_header_size + wb_size blob)"
  defines "cont' \<equiv> write_at (write_at cont p (blob_record blob now b)) 3 (be32 (word_of_nat e))"
  shows "bucket_ok cont' e" "take (length b) (drop (p + evr_bucket_blob_header_size) cont') = b"
proof -
  let ?r = "blob_record blob now b" and ?h = evr_bucket_blob_header_size
  have p: "7 \<le> p" "p \<le> length cont" "take 3 cont = evr_bucket_magic_number"
    using assms(1) by (auto simp: bucket_ok_def evr_layout)
  have len: "length ?r = ?h + length b" "wb_size blob = length b"
    using length_blob_record [OF assms(2)] assms(2) by (simp_all add: blob_holds_def)
  define c1 where "c1 = overwrite cont p ?r"
  have c1: "write_at cont p ?r = c1" using p by (simp add: write_at_inside c1_def)
  have l1: "length c1 = max (length cont) e" using p len assms(3) by (simp add: c1_def)
  have cont': "cont' = overwrite c1 3 (be32 (word_of_nat e))"
    unfolding cont'_def c1 using l1 p by (intro write_at_inside) simp
  have "take 3 cont' = take 3 c1" "take 3 c1 = take 3 cont" using l1 p by (simp_all add: cont' c1_def)
  moreover have "take 4 (drop 3 cont') = be32 (word_of_nat e)"
    using take_drop_overwrite [of 3 c1 "be32 (word_of_nat e)"] l1 p by (simp add: cont')
  moreover have "e \<le> length cont'" "7 \<le> e" using l1 p assms(3) by (simp_all add: cont')
  ultimately show "bucket_ok cont' e" using p(3) by (simp add: bucket_ok_def evr_layout)
  have "drop (p + ?h) cont' = drop (p + ?h) c1"
    unfolding cont' using l1 p by (intro drop_overwrite_ge) auto
  also have "\<dots> = b @ drop (p + length ?r) cont"
  proof -
    have "take p cont @ ?r = (take p cont @ take ?h ?r) @ b"
      using assms(2) by (simp add: blob_record_def blob_holds_def)
    moreover have "length (take p cont @ take ?h ?r) = p + ?h" using p len by simp
    ultimately show ?thesis unfolding c1_def overwrite_def
      by (metis append.assoc append_eq_conv_conj)
  qed
  finally show "take (length b) (drop (p + ?h) cont') = b" by simp
qed

lemma unat_word_of_nat_32: "n < 2 ^ 31 \<Longrightarrow> unat (word_of_nat n :: 32 word) = n"
  by (simp add: unsigned_of_nat take_bit_nat_eq_self)

lemma unat_word_of_nat_64: "n < 2 ^ 64 \<Longrightarrow> unat (word_of_nat n :: 64 word) = n"
  by (simp add: unsigned_of_nat take_bit_nat_eq_self)

section \<open>Extending the map\<close>

text \<open>The map after a successful append: a reference that is present keeps its blob.\<close>

definition map_append :: "('k \<Rightarrow> 'v option) \<Rightarrow> 'k \<Rightarrow> 'v \<Rightarrow> 'k \<Rightarrow> 'v option" where
  "map_append m k v = (if m k = None then m(k \<mapsto> v) else m)"

context sqlite_index
begin

lemma append_to_bucket_inv:
  assumes inv: "glacier_inv blobs c w" and a: "append_to_bucket S now hm blob c w = (Ret Evr_ok, c', w')"
    and b: "blob_holds blob b" "length hm = evr_bucket_blob_header_size"
    and lt: "wc_bucket_pos c + (evr_bucket_blob_header_size + wb_size blob) < 2 ^ 31" "wc_bucket_index c < 2 ^ 64"
  shows "glacier_inv blobs c' w'"
    "glacier_abs blobs w' = map_append (glacier_abs blobs w) (wb_key blob) (wb_flags blob, b)"
proof -
  let ?i = "wc_bucket_index c" and ?p = "wc_bucket_pos c"
  let ?row = "appended_row blob now ?i ?p"
  from inv obtain f cont where f: "wc_bucket_f c = Some f" "fd_id f = bucket_file ?i"
    "w_files w (bucket_file ?i) = Some cont" "bucket_ok cont ?p"
    and rows: "\<And>k r. blobs (w_db w) k = Some r \<Longrightarrow> row_ok c w r"
    by (fastforce simp: glacier_inv_def ctx_inv_def)
  have p7: "7 \<le> ?p" using f(4) by (simp add: bucket_ok_def evr_layout)
  have key: "length (wb_key blob) = evr_blob_ref_size" and sz: "wb_size blob = length b"
    using b(1) by (simp_all add: blob_holds_def)
  note eff = append_to_bucket_effect [OF a f(1) p7 order.refl key]
  note ok = append_to_bucket_ok [OF a f(1) b p7]
  let ?e = "?p + (evr_bucket_blob_header_size + wb_size blob)"
  have cont: "content w (bucket_file ?i) = cont" using f(3) by (simp add: content_def)
  obtain cont' where c': "w_files w' (bucket_file ?i) = Some cont'"
    "cont' = write_at (write_at cont ?p (blob_record blob now b)) 3 (be32 (word_of_nat ?e))"
    using ok(2,3) f(2,3) cont by (auto simp: content_def)
  note app = appended_content [OF f(4) b(1) refl, of now, folded c'(2)]
  have ctx: "ctx_inv c' w'" using eff ok(1) f(2) c'(1) app(1) by (auto simp: ctx_inv_def)
  have kept: "stored w' r = stored w r \<and> row_ok c' w' r" if "blobs (w_db w) k = Some r" for k r
  proof -
    have "keeps (bucket_file ?i) ?p w w'" using eff f(2) by simp
    moreover have "\<forall>cont. w_files w (bucket_file ?i) = Some cont \<longrightarrow> ?p \<le> length cont"
      using f(3,4) by (auto simp: bucket_ok_def)
    ultimately show ?thesis using row_kept [OF rows [OF that]] eff by blast
  qed
  have row: "unat (br_bucket_index ?row) = ?i" "unat (br_offset ?row) = ?p + evr_bucket_blob_header_size"
    "unat (br_size ?row) = length b" "br_flags ?row = wb_flags blob"
    using lt sz unat_word_of_nat_32 [of "?p + evr_bucket_blob_header_size"]
    by (simp_all add: appended_row_def unat_word_of_nat_32 unat_word_of_nat_64 del: of_nat_add)
  have st: "stored w' ?row = b" using app(2) c'(1) row by (simp add: stored_def row_file_def content_def)
  have rok: "row_ok c' w' ?row"
    using app(1) c'(1) row ok(1) lt p7 sz
    by (auto simp: row_ok_def row_file_def bucket_ok_def evr_layout)
  have bl: "blobs (w_db w') = map_append (blobs (w_db w)) (wb_key blob) ?row"
    using eff by (simp add: map_append_def)
  show "glacier_inv blobs c' w'"
    using ctx kept rok bl by (auto simp: glacier_inv_def map_append_def split: if_splits)
  show "glacier_abs blobs w' = map_append (glacier_abs blobs w) (wb_key blob) (wb_flags blob, b)"
  proof
    fix k
    show "glacier_abs blobs w' k = map_append (glacier_abs blobs w) (wb_key blob) (wb_flags blob, b) k"
      using kept [of k] st row(4) bl
      by (cases "blobs (w_db w) k") (auto simp: glacier_abs_def map_append_def)
  qed
qed

lemma glacier_rows:
  "glacier_inv blobs c w \<Longrightarrow> blobs (w_db w) k = Some r \<Longrightarrow> row_ok c w r"
  by (auto simp: glacier_inv_def)

lemma glacier_ctx:
  assumes "glacier_inv blobs c w"
  obtains f cont where "wc_bucket_f c = Some f" "fd_id f = bucket_file (wc_bucket_index c)"
    "w_files w (bucket_file (wc_bucket_index c)) = Some cont" "bucket_ok cont (wc_bucket_pos c)"
    "7 \<le> wc_bucket_pos c"
  using assms by (fastforce simp: glacier_inv_def ctx_inv_def bucket_ok_def evr_layout)

text \<open>Rows keep their data when the files they point into keep their content.\<close>

lemma rows_kept:
  assumes "glacier_inv blobs c w" "blobs (w_db w) k = Some r"
    "\<And>i cont. i \<noteq> Stdout \<Longrightarrow> w_files w i = Some cont \<Longrightarrow> w_files w' i = Some cont"
  shows "stored w' r = stored w r" "\<exists>cont. w_files w (row_file r) = Some cont \<and> w_files w' (row_file r) = Some cont"
proof -
  from glacier_rows [OF assms(1,2)] obtain cont where c: "w_files w (row_file r) = Some cont"
    by (auto simp: row_ok_def)
  with assms(3) [of "row_file r" cont] show "stored w' r = stored w r"
    "\<exists>cont. w_files w (row_file r) = Some cont \<and> w_files w' (row_file r) = Some cont"
    by (simp_all add: stored_def content_def row_file_def)
qed

lemma create_next_bucket_inv:
  assumes inv: "glacier_inv blobs c w" and x: "create_next_bucket S c w = (Ret Evr_ok, c1, w1)"
    and nf: "\<exists>f. wc_bucket_f c1 = Some f \<and> fd_id f \<noteq> Stdout"
  shows "glacier_inv blobs c1 w1" "glacier_abs blobs w1 = glacier_abs blobs w"
    "wc_bucket_pos c1 = evr_bucket_header_size" "wc_bucket_index c1 = Suc (wc_bucket_index c)"
proof -
  note eff = create_next_bucket_effect [OF x]
  from eff nf obtain f where f: "wc_bucket_f c1 = Some f" "fd_id f = bucket_file (Suc (wc_bucket_index c))"
    "w_files w (fd_id f) = None"
    "w_files w1 (fd_id f) = Some (evr_bucket_magic_number @ be32 (word_of_nat evr_bucket_header_size))" by auto
  show pi: "wc_bucket_pos c1 = evr_bucket_header_size" "wc_bucket_index c1 = Suc (wc_bucket_index c)"
    using eff by auto
  have ctx: "ctx_inv c1 w1" using f pi
    by (auto simp: ctx_inv_def bucket_ok_def evr_layout evr_bucket_magic_number_def)
  have kept: "stored w1 r = stored w r \<and> row_ok c1 w1 r" if r: "blobs (w_db w) k = Some r" for k r
  proof -
    have old: "i \<noteq> Stdout \<Longrightarrow> w_files w i = Some cont \<Longrightarrow> w_files w1 i = Some cont" for i cont
      using eff by blast
    note rk = rows_kept [OF inv r old]
    have "unat (br_bucket_index r) \<noteq> Suc (wc_bucket_index c)" using rk(2) f(2,3) by (auto simp: row_file_def)
    with rk glacier_rows [OF inv r] pi(2) show ?thesis by (auto simp: row_ok_def)
  qed
  show "glacier_inv blobs c1 w1" using ctx kept eff by (auto simp: glacier_inv_def)
  show "glacier_abs blobs w1 = glacier_abs blobs w"
  proof
    fix k show "glacier_abs blobs w1 k = glacier_abs blobs w k"
      using kept [of k] eff by (cases "blobs (w_db w) k") (auto simp: glacier_abs_def)
  qed
qed

lemma append_blob_ok:
  assumes inv: "glacier_inv blobs c w"
    and a: "evr_glacier_append_blob S max_bucket_size now hm blob c w = (Ret Evr_ok, c', w')"
    and b: "blob_holds blob b" "length hm = evr_bucket_blob_header_size"
    and lt: "max_bucket_size < 2 ^ 31" "Suc (wc_bucket_index c) < 2 ^ 64"
    and nf: "\<exists>f. wc_bucket_f c' = Some f \<and> fd_id f \<noteq> Stdout"
  shows "glacier_inv blobs c' w' \<and> wc_bucket_pos c' \<le> max_bucket_size \<and>
    glacier_abs blobs w' = map_append (glacier_abs blobs w) (wb_key blob) (wb_flags blob, b)"
proof -
  let ?d = "evr_bucket_blob_header_size + wb_size blob"
  have key: "length (wb_key blob) = evr_blob_ref_size" using b(1) by (simp add: blob_holds_def)
  have fits: "evr_bucket_header_size + ?d \<le> max_bucket_size"
    using a by (auto simp: evr_glacier_append_blob_def Let_def split: if_splits)
  show ?thesis
  proof (cases "wc_bucket_pos c + ?d > max_bucket_size")
    case False
    then have a': "append_to_bucket S now hm blob c w = (Ret Evr_ok, c', w')"
      using a fits by (simp add: evr_glacier_append_blob_def Let_def)
    have lt': "wc_bucket_pos c + ?d < 2 ^ 31" "wc_bucket_index c < 2 ^ 64" using False lt by simp_all
    from glacier_ctx [OF inv] obtain f where "wc_bucket_f c = Some f" "7 \<le> wc_bucket_pos c" by blast
    from append_to_bucket_ok(1) [OF a' this(1) b this(2)] append_to_bucket_inv [OF inv a' b lt'] False
    show ?thesis by simp
  next
    case True
    then obtain c1 w1 where n: "create_next_bucket S c w = (Ret Evr_ok, c1, w1)"
      and a': "append_to_bucket S now hm blob c1 w1 = (Ret Evr_ok, c', w')"
      using a fits by (auto simp: evr_glacier_append_blob_def Let_def split: prod.splits if_splits)
    from create_next_bucket_effect [OF n] obtain f where f: "wc_bucket_f c1 = Some f"
      "7 \<le> wc_bucket_pos c1" by (auto simp: evr_layout)
    from append_to_bucket_effect [OF a' f order.refl key] nf have "fd_id f \<noteq> Stdout" by auto
    with f(1) create_next_bucket_inv [OF inv n] have inv1: "glacier_inv blobs c1 w1"
      "glacier_abs blobs w1 = glacier_abs blobs w" "wc_bucket_pos c1 = evr_bucket_header_size"
      "wc_bucket_index c1 = Suc (wc_bucket_index c)" by blast+
    have lt': "wc_bucket_pos c1 + ?d < 2 ^ 31" "wc_bucket_index c1 < 2 ^ 64" using fits lt inv1 by simp_all
    from append_to_bucket_ok(1) [OF a' f(1) b f(2)] append_to_bucket_inv [OF inv1(1) a' b lt'] fits inv1(2,3)
    show ?thesis by simp
  qed
qed

text \<open>Whatever the outcome is, only the appended reference may become present.\<close>

lemma append_to_bucket_abs:
  assumes a: "append_to_bucket S now hm blob c w = (x, c', w')" and f: "wc_bucket_f c = Some f"
    and p: "7 \<le> wc_bucket_pos c" and key: "length (wb_key blob) = evr_blob_ref_size"
    and kept: "\<And>k r. blobs (w_db w) k = Some r \<Longrightarrow> keeps (fd_id f) (wc_bucket_pos c) w w' \<Longrightarrow> stored w' r = stored w r"
  shows "glacier_abs blobs w' k = glacier_abs blobs w k \<or> k = wb_key blob \<and> glacier_abs blobs w k = None"
proof -
  note eff = append_to_bucket_effect [OF a f p order.refl key]
  show ?thesis
  proof (cases "blobs (w_db w) k")
    case None
    with eff show ?thesis by (auto simp: glacier_abs_def)
  next
    case (Some r)
    then have "blobs (w_db w') k = Some r" using eff by auto
    with Some kept [OF Some] eff show ?thesis by (simp add: glacier_abs_def)
  qed
qed

lemma append_blob_any:
  assumes inv: "glacier_inv blobs c w"
    and a: "evr_glacier_append_blob S max_bucket_size now hm blob c w = (x, c', w')"
    and key: "length (wb_key blob) = evr_blob_ref_size"
  shows "glacier_abs blobs w' k = glacier_abs blobs w k \<or> k = wb_key blob \<and> glacier_abs blobs w k = None"
proof -
  let ?d = "evr_bucket_blob_header_size + wb_size blob"
  from glacier_ctx [OF inv] obtain f cont where f: "wc_bucket_f c = Some f" "fd_id f = bucket_file (wc_bucket_index c)"
    "w_files w (bucket_file (wc_bucket_index c)) = Some cont" "bucket_ok cont (wc_bucket_pos c)" "7 \<le> wc_bucket_pos c" .
  consider (big) "w' = w" | (fits) "append_to_bucket S now hm blob c w = (x, c', w')"
    | (next_failed) c1 where "create_next_bucket S c w = (x, c1, w')"
    | (nxt) c1 w1 where "create_next_bucket S c w = (Ret Evr_ok, c1, w1)" "append_to_bucket S now hm blob c1 w1 = (x, c', w')"
    using a by (auto simp: evr_glacier_append_blob_def Let_def split: prod.splits if_splits)
  then show ?thesis
  proof cases
    case fits
    have "\<forall>cont. w_files w (bucket_file (wc_bucket_index c)) = Some cont \<longrightarrow> wc_bucket_pos c \<le> length cont"
      using f(3,4) by (auto simp: bucket_ok_def)
    then show ?thesis
      using row_kept(1) [OF glacier_rows [OF inv]] f(2) by (intro append_to_bucket_abs [OF fits f(1,5) key]) auto
  next
    case next_failed
    note eff = create_next_bucket_effect [OF next_failed]
    have "stored w' r = stored w r" if "blobs (w_db w) k = Some r" for r
      using rows_kept(1) [OF inv that] eff by blast
    with eff show ?thesis by (cases "blobs (w_db w) k") (auto simp: glacier_abs_def)
  next
    case nxt
    note eff = create_next_bucket_effect [OF nxt(1)]
    have old: "i \<noteq> Stdout \<Longrightarrow> w_files w i = Some cont \<Longrightarrow> w_files w1 i = Some cont" for i cont using eff by blast
    from eff obtain g where g: "wc_bucket_f c1 = Some g" "7 \<le> wc_bucket_pos c1"
      "fd_id g = Stdout \<or> w_files w (fd_id g) = None" by (auto simp: evr_layout)
    have db: "blobs (w_db w1) = blobs (w_db w)" using eff by blast
    have st1: "stored w1 r = stored w r" if "blobs (w_db w) k = Some r" for k r
      using rows_kept(1) [OF inv that] old by blast
    have "stored w' r = stored w1 r" if r: "blobs (w_db w1) k = Some r" and kp: "keeps (fd_id g) (wc_bucket_pos c1) w1 w'" for k r
    proof -
      have r': "blobs (w_db w) k = Some r" using r db by simp
      from rows_kept(2) [OF inv r' old] obtain cont where c: "w_files w (row_file r) = Some cont"
        "w_files w1 (row_file r) = Some cont" by blast
      then have "row_file r \<noteq> fd_id g" using g(3) by (auto simp: row_file_def)
      then have "w_files w' (row_file r) = Some cont" using kp c(2) by (fastforce simp: keeps_def)
      with c(2) show ?thesis by (simp add: stored_def content_def)
    qed
    from append_to_bucket_abs [OF nxt(2) g(1,2) key this]
    have "glacier_abs blobs w' k = glacier_abs blobs w1 k \<or> k = wb_key blob \<and> glacier_abs blobs w1 k = None" .
    moreover have "glacier_abs blobs w1 k = glacier_abs blobs w k"
      using st1 db by (cases "blobs (w_db w) k") (auto simp: glacier_abs_def)
    ultimately show ?thesis by simp
  qed simp
qed

end

section \<open>Properties\<close>

text \<open>A small open glacier over the database of lists, for the witnesses.\<close>

definition demo_ctx :: evr_glacier_write_ctx where
  "demo_ctx = \<lparr>wc_bucket_index = 1, wc_bucket_f = Some \<lparr>fd_id = bucket_file 1, fd_off = 0\<rparr>,
     wc_bucket_pos = 7, wc_bucket_sync = True\<rparr>"

definition demo_world :: "io list \<Rightarrow> table_db world" where
  "demo_world io = \<lparr>w_files = [bucket_file 1 \<mapsto> evr_bucket_magic_number @ be32 7],
     w_dir = [bucket_file_name 1], w_io = io, w_db = \<lparr>tb_blobs = [], tb_buckets = [(1, 7)]\<rparr>\<rparr>"

definition demo_blob :: evr_writing_blob where
  "demo_blob = \<lparr>wb_key = replicate 28 9, wb_flags = 1, wb_size = 3, wb_sync_strategy = Sync_per_blob,
     wb_chunks = [[1, 2, 3]]\<rparr>"

lemma demo_inv: "glacier_inv table_find demo_ctx (demo_world io)"
  by (simp add: glacier_inv_def ctx_inv_def demo_ctx_def demo_world_def bucket_ok_def evr_layout
      evr_bucket_magic_number_def table_find_def)

lemma demo_blob_holds: "blob_holds demo_blob [1, 2, 3]"
  by (auto simp: blob_holds_def demo_blob_def evr_layout evr_chunk_size_def intro!: exI [of _ 1])

text \<open>
  C2: an append never loses or changes a stored blob. Whatever the system calls and the database
  do, also when the operation fails half way or the process ends, every reference that
  was present keeps its flags and data, and no reference but the appended one becomes present.
\<close>

theorem append_never_loses:
  assumes "sqlite_index S blobs buckets" "glacier_inv blobs c w"
    "evr_glacier_append_blob S max_bucket_size now header_mem blob c w = (x, c', w')"
    "length (wb_key blob) = evr_blob_ref_size"
  shows "\<forall>k. glacier_abs blobs w' k = glacier_abs blobs w k \<or>
    k = wb_key blob \<and> glacier_abs blobs w k = None"
  using sqlite_index.append_blob_any [OF assms] by blast

theorem append_never_loses_witness:
  "\<exists>x c' w'. evr_glacier_append_blob table_ops 1000 5 (replicate 42 0) demo_blob demo_ctx
      (demo_world [Io_full, Io_short 3, Io_fail True]) = (x, c', w') \<and>
    (\<forall>k. glacier_abs table_find w' k = glacier_abs table_find (demo_world [Io_full, Io_short 3, Io_fail True]) k \<or>
       k = wb_key demo_blob)"
proof -
  let ?w = "demo_world [Io_full, Io_short 3, Io_fail True]"
  obtain x c' w' where a: "evr_glacier_append_blob table_ops 1000 5 (replicate 42 0) demo_blob demo_ctx ?w = (x, c', w')"
    using prod_cases3 by blast
  have "length (wb_key demo_blob) = evr_blob_ref_size" using demo_blob_holds by (simp add: blob_holds_def)
  from append_never_loses [OF tbl.sqlite_index_axioms demo_inv a this] a show ?thesis by blast
qed

end
