(* ===== verification/Glacier_Progress.thy ===== *)
theory Glacier_Progress
  imports Glacier_Store
begin

text \<open>
  Appending succeeds: with system calls that do not fail and a database that does not fail, a blob that
  fits into a bucket is appended, in a new bucket if the current one is full.
\<close>

section \<open>Every step succeeds\<close>

lemma sys_call_calls_ok: "calls_ok w \<Longrightarrow> sys_call w = (ok, w') \<Longrightarrow> ok \<and> calls_ok w'"
  using sys_call_ok sys_call_same calls_ok_same by blast

lemma sys_seek_calls_ok: "calls_ok w \<Longrightarrow> sys_seek w f n = (ok, w', f') \<Longrightarrow> ok \<and> calls_ok w'"
  using sys_seek_ok sys_seek_same calls_ok_same by blast

lemma write_blob_chunks_calls_ok:
  assumes "calls_ok w" "write_blob_chunks (w, f) cs n = Some (r, (w', f'))"
  shows "r = Evr_ok \<and> calls_ok w'"
  using assms
proof (induction "(w, f)" cs n arbitrary: w f rule: write_blob_chunks.induct)
  case (1 cs n w f)
  show ?case
  proof (cases "n = 0")
    case True
    with "1.prems" show ?thesis by (auto simp: write_blob_chunks.simps [of "(w, f)"])
  next
    case False
    then obtain c cs' where cs: "cs = c # cs'"
      using "1.prems"(2) by (cases cs) (auto simp: write_blob_chunks.simps [of "(w, f)"])
    define k where "k = (if n < evr_chunk_size then n else evr_chunk_size)"
    have k: "\<not> length c < k" using "1.prems"(2) False cs
      by (auto simp: write_blob_chunks.simps [of "(w, f)"] k_def [symmetric] Let_def split: if_splits)
    obtain r1 w1 f1 where wn: "write_n sys_write (w, f) (take k c) = (r1, (w1, f1))" using prod_cases3 by blast
    note ok1 = write_n_calls_ok [OF "1.prems"(1) wn]
    then have rec: "write_blob_chunks (w1, f1) cs' (n - k) = Some (r, (w', f'))"
      using "1.prems"(2) False cs k wn by (simp add: write_blob_chunks.simps [of "(w, f)"] k_def [symmetric] Let_def)
    show ?thesis using "1.hyps" [OF False cs k_def k wn [symmetric]] ok1 rec by simp
  qed
qed

lemma write_blob_to_bucket_calls_ok:
  assumes "calls_ok w" "wc_bucket_f c = Some f" "blob_holds blob b" "length hm = evr_bucket_blob_header_size"
  shows "\<exists>c1 w1. write_blob_to_bucket now hm blob c w = (Ret Evr_ok, c1, w1) \<and> calls_ok w1"
proof -
  let ?h = "header_bytes (wb_key blob) (ucast (wb_flags blob)) now (word_of_nat (wb_size blob))"
  obtain ok w2 f2 where s: "sys_seek w f (wc_bucket_pos c) = (ok, w2, f2)" using prod_cases3 by blast
  note o2 = sys_seek_calls_ok [OF assms(1) s]
  have h: "push_blob_header hm blob now = Some ?h" "length ?h = evr_bucket_blob_header_size"
    using assms(3,4) by (simp_all add: push_blob_header_eq blob_holds_def)
  obtain r3 w3 f3 where w3: "write_n sys_write (w2, f2) ?h = (r3, (w3, f3))" using prod_cases3 by blast
  note o3 = write_n_calls_ok [OF conjunct2 [OF o2] w3]
  from assms(3) obtain n where n: "chunks_hold n (wb_chunks blob) b" "wb_size blob = length b"
    by (auto simp: blob_holds_def)
  from write_blob_chunks_world [OF n(1), of w3 f3] obtain r4 w4 f4 where
    w4: "write_blob_chunks (w3, f3) (wb_chunks blob) (wb_size blob) = Some (r4, (w4, f4))" using n(2) by metis
  note o4 = write_blob_chunks_calls_ok [OF conjunct2 [OF o3] w4]
  obtain ok5 w5 where w5: "sys_call w4 = (ok5, w5)" by fastforce
  note o5 = sys_call_calls_ok [OF conjunct2 [OF o4] w5]
  show ?thesis using assms(2) s o2 h w3 o3 w4 o4 w5 o5 by (simp add: write_blob_to_bucket_def)
qed

lemma end_offset_calls_ok:
  assumes "calls_ok w"
  shows "\<exists>w' f'. evr_write_bucket_end_offset w f e sync = (Evr_ok, w', f') \<and> calls_ok w'"
proof -
  obtain ok w1 f1 where s: "sys_seek w f (length evr_bucket_magic_number) = (ok, w1, f1)" using prod_cases3 by blast
  note o1 = sys_seek_calls_ok [OF assms s]
  obtain r2 w2 f2 where w2: "write_n sys_write (w1, f1) (be32 (word_of_nat e)) = (r2, (w2, f2))"
    using prod_cases3 by blast
  note o2 = write_n_calls_ok [OF conjunct2 [OF o1] w2]
  obtain ok3 w3 where w3: "sys_call w2 = (ok3, w3)" by fastforce
  note o3 = sys_call_calls_ok [OF conjunct2 [OF o2] w3]
  show ?thesis using s o1 w2 o2 w3 o3 by (simp add: evr_write_bucket_end_offset_def)
qed

lemma magic_calls_ok:
  assumes "calls_ok w"
  shows "\<exists>w' f'. evr_write_bucket_magic_number w f = (Evr_ok, w', f') \<and> calls_ok w'"
proof -
  obtain ok w1 f1 where s: "sys_seek w f 0 = (ok, w1, f1)" using prod_cases3 by blast
  note o1 = sys_seek_calls_ok [OF assms s]
  obtain r2 w2 f2 where w2: "write_n sys_write (w1, f1) evr_bucket_magic_number = (r2, (w2, f2))"
    using prod_cases3 by blast
  note o2 = write_n_calls_ok [OF conjunct2 [OF o1] w2]
  show ?thesis using s o1 w2 o2 by (simp add: evr_write_bucket_magic_number_def)
qed

lemma close_calls_ok:
  assumes "calls_ok w"
  shows "\<exists>c1 w1. close_current_bucket c w = (Evr_ok, c1, w1) \<and> calls_ok w1"
proof -
  obtain a wa where a: "sys_call w = (a, wa)" by fastforce
  note oa = sys_call_calls_ok [OF assms a]
  obtain b wb where b: "sys_call wa = (b, wb)" by fastforce
  note ob = sys_call_calls_ok [OF conjunct2 [OF oa] b]
  show ?thesis using assms a oa b ob by (auto simp: close_current_bucket_def split: option.split)
qed

context sqlite_reliable
begin

lemma index_appended_blob_succeeds: "\<exists>w'. index_appended_blob S now blob off e c w = (Ret Evr_ok, w') \<and> w_io w' = w_io w"
proof -
  let ?r = "\<lparr>br_key = take evr_blob_ref_size (wb_key blob), br_flags = wb_flags blob,
    br_bucket_index = word_of_nat (wc_bucket_index c), br_offset = word_of_nat off,
    br_size = word_of_nat (wb_size blob), br_last_modified = now\<rparr>"
  obtain res d where i: "ix_insert_blob S (w_db w) ?r = (res, d)" by fastforce
  obtain res2 d2 where u: "ix_update_bucket S d (word_of_nat e) (word_of_nat (wc_bucket_index c)) = (res2, d2)" by fastforce
  have "res = Sql_done \<or> res = Sql_constraint" "res2 = Sql_done"
    using insert_blob_ok [of "w_db w" ?r] i
      update_bucket_ok [of d "word_of_nat e" "word_of_nat (wc_bucket_index c)"] u by auto
  with i u show ?thesis
    by (auto simp: index_appended_blob_def evr_glacier_add_blob_to_index_def sql_outcome_def)
qed

lemma append_to_bucket_succeeds:
  assumes "calls_ok w" "wc_bucket_f c = Some f" "7 \<le> wc_bucket_pos c" "blob_holds blob b"
    "length hm = evr_bucket_blob_header_size"
  shows "\<exists>c' w'. append_to_bucket S now hm blob c w = (Ret Evr_ok, c', w') \<and> calls_ok w'"
proof -
  from write_blob_to_bucket_calls_ok [OF assms(1,2,4,5), of now] obtain c1 w1 where
    a: "write_blob_to_bucket now hm blob c w = (Ret Evr_ok, c1, w1)" "calls_ok w1" by blast
  from write_blob_to_bucket_keeps [OF a(1) assms(2,3)] obtain f1 where f1: "wc_bucket_f c1 = Some f1" by auto
  let ?pb = "wb_sync_strategy blob = Sync_per_blob"
  from end_offset_calls_ok [OF a(2), of f1 "wc_bucket_pos c1 + (evr_bucket_blob_header_size + wb_size blob)" ?pb]
  obtain w2 f2 where e: "evr_write_bucket_end_offset w1 f1
      (wc_bucket_pos c1 + (evr_bucket_blob_header_size + wb_size blob)) ?pb = (Evr_ok, w2, f2)" "calls_ok w2" by blast
  let ?e = "wc_bucket_pos c1 + (evr_bucket_blob_header_size + wb_size blob)"
  let ?c = "c1\<lparr>wc_bucket_pos := ?e, wc_bucket_f := Some f2, wc_bucket_sync := ?pb\<rparr>"
  from index_appended_blob_succeeds obtain w3 where
    "index_appended_blob S now blob (wc_bucket_pos c1 + evr_bucket_blob_header_size) ?e ?c w2 = (Ret Evr_ok, w3)" "w_io w3 = w_io w2" by blast
  with a f1 e show ?thesis by (simp add: append_to_bucket_def Let_def calls_ok_def)
qed

lemma create_next_bucket_succeeds:
  assumes "calls_ok w" "w_files w (bucket_file (Suc (wc_bucket_index c))) = None"
    "buckets (w_db w) (word_of_nat (Suc (wc_bucket_index c))) = None"
  shows "\<exists>c1 w1 f. create_next_bucket S c w = (Ret Evr_ok, c1, w1) \<and> wc_bucket_f c1 = Some f \<and>
    fd_id f \<noteq> Stdout \<and> calls_ok w1"
proof -
  from close_calls_ok [OF assms(1), of c] obtain a wa where a: "close_current_bucket c w = (Evr_ok, a, wa)" "calls_ok wa"
    by blast
  note ca = close_current_bucket_same [OF a(1)]
  note wa = same_world_fields [OF conjunct1 [OF ca]]
  let ?b = "a\<lparr>wc_bucket_index := wc_bucket_index a + 1\<rparr>"
  obtain ok w2 where s: "sys_call wa = (ok, w2)" by fastforce
  note o2 = sys_call_calls_ok [OF a(2) s]
  note w2 = same_world_fields [OF sys_call_same [OF s]]
  let ?f = "\<lparr>fd_id = bucket_file (Suc (wc_bucket_index c)), fd_off = 0\<rparr>"
  let ?wb = "w2\<lparr>w_files := (w_files w2)(fd_id ?f \<mapsto> []), w_dir := w_dir w2 @ [bucket_file_name (Suc (wc_bucket_index c))]\<rparr>"
  have b: "open_current_bucket ?b wa True = (Evr_ok, ?b\<lparr>wc_bucket_f := Some ?f\<rparr>, ?wb)"
    using s o2 w2(1) wa(1) assms(2) ca
    by (simp add: open_current_bucket_def evr_open_bucket_def sys_open_def bucket_file_def)
  have "calls_ok ?wb" using o2 by (simp add: calls_ok_def)
  from magic_calls_ok [OF this, of ?f] obtain w3 f3 where m: "evr_write_bucket_magic_number ?wb ?f = (Evr_ok, w3, f3)"
    "calls_ok w3" by blast
  from end_offset_calls_ok [OF m(2), of f3 evr_bucket_header_size True] obtain w4 f4 where
    e: "evr_write_bucket_end_offset w3 f3 evr_bucket_header_size True = (Evr_ok, w4, f4)" "calls_ok w4" by blast
  have ids: "w_db w4 = w_db w" "fd_id f4 = fd_id ?f"
    using only_file_magic [OF m(1)] only_file_end_offset [OF e(1)] w2(3) wa(3) by (auto simp: only_file_def)
  obtain d where "ix_insert_bucket S (w_db w4) (word_of_nat (Suc (wc_bucket_index c))) = (Sql_done, d)"
    using insert_bucket_ok [of "w_db w4" "word_of_nat (Suc (wc_bucket_index c))"] ids(1) assms(3)
    by (metis prod.collapse)
  moreover have "calls_ok (w4\<lparr>w_db := d\<rparr>)" for d using e(2) by (simp add: calls_ok_def)
  ultimately show ?thesis using a b m e ids ca
    by (simp add: create_next_bucket_def Let_def sql_outcome_def)
qed

lemma append_blob_succeeds:
  assumes inv: "glacier_inv blobs c w" and calls: "calls_ok w"
    and b: "blob_holds blob b" "length hm = evr_bucket_blob_header_size"
    and fits: "evr_bucket_header_size + (evr_bucket_blob_header_size + wb_size blob) \<le> max_bucket_size"
    and nxt: "w_files w (bucket_file (Suc (wc_bucket_index c))) = None"
      "buckets (w_db w) (word_of_nat (Suc (wc_bucket_index c))) = None"
  shows "\<exists>c' w' f. evr_glacier_append_blob S max_bucket_size now hm blob c w = (Ret Evr_ok, c', w') \<and>
    wc_bucket_f c' = Some f \<and> fd_id f \<noteq> Stdout"
proof -
  have key: "length (wb_key blob) = evr_blob_ref_size" using b(1) by (simp add: blob_holds_def)
  show ?thesis
  proof (cases "wc_bucket_pos c + (evr_bucket_blob_header_size + wb_size blob) > max_bucket_size")
    case False
    from glacier_ctx [OF inv] obtain f where f: "wc_bucket_f c = Some f"
      "fd_id f = bucket_file (wc_bucket_index c)" "7 \<le> wc_bucket_pos c" by blast
    from append_to_bucket_succeeds [OF calls f(1,3) b] obtain c' w' where
      a: "append_to_bucket S now hm blob c w = (Ret Evr_ok, c', w')" by blast
    have "fd_id f \<noteq> Stdout" using f(2) by simp
    with append_to_bucket_effect [OF a f(1,3) order.refl key] False fits a show ?thesis
      by (auto simp: evr_glacier_append_blob_def Let_def)
  next
    case True
    from create_next_bucket_succeeds [OF calls nxt] obtain c1 w1 f where
      n: "create_next_bucket S c w = (Ret Evr_ok, c1, w1)" "wc_bucket_f c1 = Some f" "fd_id f \<noteq> Stdout" "calls_ok w1"
      by blast
    have p: "7 \<le> wc_bucket_pos c1" using create_next_bucket_effect [OF n(1)] by (simp add: evr_layout)
    from append_to_bucket_succeeds [OF n(4,2) p b] obtain c' w' where
      a: "append_to_bucket S now hm blob c1 w1 = (Ret Evr_ok, c', w')" by blast
    from append_to_bucket_effect [OF a n(2) p order.refl key] n(1,3) True fits a show ?thesis
      by (auto simp: evr_glacier_append_blob_def Let_def)
  qed
qed

end

section \<open>Properties\<close>

lemma demo_side:
  "calls_ok (demo_world [])" "w_files (demo_world io) (bucket_file (Suc (wc_bucket_index demo_ctx))) = None"
  "table_bucket (w_db (demo_world io)) (word_of_nat (Suc (wc_bucket_index demo_ctx))) = None"
  "Suc (wc_bucket_index demo_ctx) < 2 ^ 64"
  "evr_bucket_header_size + (evr_bucket_blob_header_size + wb_size demo_blob) \<le> 1000"
  "length (replicate 42 0 :: bytes) = evr_bucket_blob_header_size"
  "glacier_abs table_find (demo_world io) k = None" "wb_key demo_blob = replicate 28 9" "wb_flags demo_blob = 1"
  "calls_ok (demo_world [Io_short 0])"
  by (simp_all add: demo_world_def demo_ctx_def demo_blob_def calls_ok_def table_bucket_def glacier_abs_def
      table_find_def evr_layout)

text \<open>
  C1: appending refines the extension of a map. When \<^verbatim>\<open>evr_glacier_append_blob\<close> returns
  \<^verbatim>\<open>evr_ok\<close> on a glacier that satisfies the invariant, the invariant holds again, the bucket
  does not exceed its maximum size, and the glacier read as a map from references to flags and data
  is the former one extended by the blob, or unchanged when the reference was present. Calls may be short and may fail,
  with one exception: the bucket of the context afterwards must be a file. When opening the next bucket fails, its
  descriptor is the standard output, and \<^verbatim>\<open>evr_ok\<close> is returned for a blob that no bucket holds. The maximum size of a
  bucket is below \<open>2 ^ 31\<close> and the index of the bucket below \<open>2 ^ 64 - 1\<close>.
\<close>

theorem append_extends_glacier:
  assumes "sqlite_index S blobs buckets" "glacier_inv blobs c w"
    "evr_glacier_append_blob S max_bucket_size now header_mem blob c w = (Ret Evr_ok, c', w')"
    "blob_holds blob b" "length header_mem = evr_bucket_blob_header_size"
    "max_bucket_size < 2 ^ 31" "Suc (wc_bucket_index c) < 2 ^ 64"
    "\<exists>f. wc_bucket_f c' = Some f \<and> fd_id f \<noteq> Stdout"
  shows "glacier_inv blobs c' w' \<and> wc_bucket_pos c' \<le> max_bucket_size \<and>
    glacier_abs blobs w' = map_append (glacier_abs blobs w) (wb_key blob) (wb_flags blob, b)"
  by (rule sqlite_index.append_blob_ok [OF assms])

theorem append_extends_glacier_witness:
  "\<exists>c' w'. evr_glacier_append_blob table_ops 1000 5 (replicate 42 0) demo_blob demo_ctx (demo_world []) =
      (Ret Evr_ok, c', w') \<and> glacier_inv table_find c' w' \<and> wc_bucket_pos c' \<le> 1000 \<and>
    glacier_abs table_find w' = map_append (glacier_abs table_find (demo_world [])) (wb_key demo_blob) (wb_flags demo_blob, [1, 2, 3])"
proof -
  have m: "(1000 :: nat) < 2 ^ 31" by simp
  from tbl.append_blob_succeeds [OF demo_inv demo_side(1) demo_blob_holds demo_side(6,5,2,3), of 5] obtain c' w' f where
    a: "evr_glacier_append_blob table_ops 1000 5 (replicate 42 0) demo_blob demo_ctx (demo_world []) = (Ret Evr_ok, c', w')"
    "wc_bucket_f c' = Some f" "fd_id f \<noteq> Stdout" by blast
  then have "\<exists>f. wc_bucket_f c' = Some f \<and> fd_id f \<noteq> Stdout" by blast
  from append_extends_glacier [OF tbl.sqlite_index_axioms demo_inv a(1) demo_blob_holds demo_side(6) m demo_side(4) this] a(1)
  show ?thesis by blast
qed

text \<open>
  C33: a blob that fits into a bucket is appended: when neither system calls nor the database fail,
  however short the writes are, \<^verbatim>\<open>evr_glacier_append_blob\<close> returns \<^verbatim>\<open>evr_ok\<close> and the glacier holds
  the blob. The next bucket, which is created when the current one is full, must not exist yet.
\<close>

theorem append_succeeds:
  assumes "sqlite_reliable S blobs buckets" "glacier_inv blobs c w" "calls_ok w"
    "blob_holds blob b" "length header_mem = evr_bucket_blob_header_size"
    "evr_bucket_header_size + (evr_bucket_blob_header_size + wb_size blob) \<le> max_bucket_size"
    "max_bucket_size < 2 ^ 31" "Suc (wc_bucket_index c) < 2 ^ 64"
    "w_files w (bucket_file (Suc (wc_bucket_index c))) = None"
    "buckets (w_db w) (word_of_nat (Suc (wc_bucket_index c))) = None"
  shows "\<exists>c' w'. evr_glacier_append_blob S max_bucket_size now header_mem blob c w = (Ret Evr_ok, c', w') \<and>
    glacier_inv blobs c' w' \<and> glacier_abs blobs w' (wb_key blob) \<noteq> None \<and>
    (glacier_abs blobs w (wb_key blob) = None \<longrightarrow> glacier_abs blobs w' (wb_key blob) = Some (wb_flags blob, b))"
proof -
  from assms(1) have S: "sqlite_index S blobs buckets" by (simp add: sqlite_reliable_def)
  from sqlite_reliable.append_blob_succeeds [OF assms(1-6,9,10), of now] obtain c' w' f where
    a: "evr_glacier_append_blob S max_bucket_size now header_mem blob c w = (Ret Evr_ok, c', w')"
    "wc_bucket_f c' = Some f" "fd_id f \<noteq> Stdout" by blast
  then have "\<exists>f. wc_bucket_f c' = Some f \<and> fd_id f \<noteq> Stdout" by blast
  from sqlite_index.append_blob_ok [OF S assms(2) a(1) assms(4,5,7,8) this] a(1) show ?thesis
    by (auto simp: map_append_def split: if_splits)
qed

theorem append_succeeds_witness:
  "\<exists>c' w'. evr_glacier_append_blob table_ops 1000 5 (replicate 42 0) demo_blob demo_ctx (demo_world [Io_short 0]) =
      (Ret Evr_ok, c', w') \<and> glacier_abs table_find w' (replicate 28 9) = Some (1, [1, 2, 3])"
proof -
  have m: "(1000 :: nat) < 2 ^ 31" by simp
  from append_succeeds [OF tbl.sqlite_reliable_axioms demo_inv demo_side(10) demo_blob_holds demo_side(6,5) m
      demo_side(4,2,3), of 5] demo_side(7-9)
  show ?thesis by auto
qed

end
