(* ===== verification/Glacier_Index.thy ===== *)
theory Glacier_Index
  imports Glacier
begin

text \<open>
  The rest of \<^verbatim>\<open>src/glacier.c\<close>: walking the directory and the records of a bucket, rebuilding the
  index database from the buckets, opening and closing the contexts, and the check at startup. A
  call that only succeeds or fails, such as \<^verbatim>\<open>malloc\<close>, \<^verbatim>\<open>opendir\<close>, \<^verbatim>\<open>sqlite3_finalize\<close>
  or the process lock, takes one entry of the schedule.
\<close>

section \<open>Paths\<close>

definition glacier_dir_lock_file_path :: string where "glacier_dir_lock_file_path = ''/lock''"
definition glacier_dir_index_db_path :: string where "glacier_dir_index_db_path = ''/index.db''"

text \<open>A directory of slashes only is left as it is.\<close>

definition trim_bucket_dir_path :: "string \<Rightarrow> string" where
  "trim_bucket_dir_path p =
    (let t = rev (dropWhile (\<lambda>c. c = CHR ''/'') (rev p)) in if t = [] then p else t)"

definition build_glacier_file_path :: "nat \<Rightarrow> string \<Rightarrow> string \<Rightarrow> string" where
  "build_glacier_file_path glacier_file_path_size bucket_dir_path path_suffix =
    (let p = take (glacier_file_path_size - 1) bucket_dir_path in
     if glacier_file_path_size - 1 - length p < length path_suffix then [] else p @ path_suffix)"

section \<open>Calls that succeed or fail\<close>

fun sys_calls :: "nat \<Rightarrow> 'd world \<Rightarrow> bool \<times> 'd world" where
  "sys_calls 0 w = (True, w)"
| "sys_calls (Suc n) w = (case sys_call w of (ok, w1) \<Rightarrow> if ok then sys_calls n w1 else (False, w1))"

section \<open>Walking the directory\<close>

definition evr_bucket_file_ext :: string where "evr_bucket_file_ext = ''.evb''"

text \<open>
  The bucket index of a directory entry: hexadecimal digits and the extension. \<^verbatim>\<open>%lx\<close> reads at most
  the largest \<^verbatim>\<open>unsigned long\<close>, and nothing from an empty string.
\<close>

definition bucket_index_of :: "string \<Rightarrow> nat option" where
  "bucket_index_of d_name =
    (let digits = takeWhile (\<lambda>c. hex_digit c \<noteq> None) d_name in
     if drop (length digits) d_name \<noteq> evr_bucket_file_ext then None
     else if digits = [] then None
     else Some (min (hex_value digits) (2 ^ 64 - 1)))"

type_synonym ('c, 'd) bucket_visitor =
  "'c \<Rightarrow> nat \<Rightarrow> string \<Rightarrow> 'd world \<Rightarrow> (evr_code exec \<times> 'c \<times> 'd world) option"

fun walk_dir ::
  "('c, 'd) bucket_visitor \<Rightarrow> string list \<Rightarrow> 'c \<Rightarrow> 'd world \<Rightarrow> (evr_code exec \<times> 'c \<times> 'd world) option" where
  "walk_dir visit [] c w =
    (case sys_call w of (ok, w1) \<Rightarrow> Some (Ret (if ok then Evr_ok else Evr_error), c, w1))"
| "walk_dir visit (d_name # ds) c w =
    (case sys_call w of (ok, w1) \<Rightarrow>
       if \<not> ok then Some (Ret Evr_error, c, w1)
       else case bucket_index_of d_name of
           None \<Rightarrow> walk_dir visit ds c w1
         | Some i \<Rightarrow>
            (case visit c i d_name w1 of
               None \<Rightarrow> None
             | Some (x, c1, w2) \<Rightarrow>
                (case x of
                   Ret r \<Rightarrow> if r = Evr_ok then walk_dir visit ds c1 w2 else Some (Ret Evr_error, c1, w2)
                 | _ \<Rightarrow> Some (x, c1, w2))))"

definition evr_walk_buckets ::
  "('c, 'd) bucket_visitor \<Rightarrow> 'c \<Rightarrow> 'd world \<Rightarrow> (evr_code exec \<times> 'c \<times> 'd world) option" where
  "evr_walk_buckets visit c w =
    (case sys_call w of (ok, w1) \<Rightarrow>
       if \<not> ok then Some (Ret Evr_error, c, w1)
       else case walk_dir visit (w_dir w1) c w1 of
           None \<Rightarrow> None
         | Some (x, c1, w2) \<Rightarrow>
            (case x of
               Ret r \<Rightarrow> (case sys_call w2 of (ok, w3) \<Rightarrow> Some (if ok then Ret r else Panic, c1, w3))
             | _ \<Rightarrow> Some (x, c1, w2)))"

definition evr_move_to_last_bucket_visitor :: "(evr_glacier_write_ctx, 'd) bucket_visitor" where
  "evr_move_to_last_bucket_visitor c bucket_index file_name w =
    Some (Ret Evr_ok, if bucket_index > wc_bucket_index c then c\<lparr>wc_bucket_index := bucket_index\<rparr> else c, w)"

definition move_to_last_bucket ::
  "evr_glacier_write_ctx \<Rightarrow> 'd world \<Rightarrow> (evr_code exec \<times> evr_glacier_write_ctx \<times> 'd world) option" where
  "move_to_last_bucket c w = evr_walk_buckets evr_move_to_last_bucket_visitor (c\<lparr>wc_bucket_index := 0\<rparr>) w"

section \<open>Walking a bucket\<close>

type_synonym ('v, 'd) blob_visitor =
  "'v \<Rightarrow> evr_glacier_bucket_blob_stat \<Rightarrow> 'd world \<Rightarrow> evr_code exec \<times> 'v \<times> 'd world"

partial_function (option) walk_bucket_loop ::
  "('v, 'd) blob_visitor \<Rightarrow> nat \<Rightarrow> 'v \<Rightarrow> 'd world \<times> fd \<Rightarrow> (evr_code exec \<times> 'v \<times> 'd world) option" where
  "walk_bucket_loop visit_blob f_pos v s =
    (case read_n sys_read visited_bytes_counter_se s evr_bucket_blob_header_size 0 of
       (r, header_buf, visited_bytes, (w1, f1)) \<Rightarrow>
     if r = Evr_end then Some (Ret (if visited_bytes = 0 then Evr_ok else Evr_end), v, w1)
     else if r \<noteq> Evr_ok then Some (Ret Evr_error, v, w1)
     else case pull_blob_header header_buf (f_pos + evr_bucket_blob_header_size) of
         None \<Rightarrow> Some (Undef, v, w1)
       | Some stat \<Rightarrow>
          (case visit_blob v stat w1 of (x, v1, w2) \<Rightarrow>
             (case x of
                Ret c \<Rightarrow>
                 if c = Evr_end then Some (Ret Evr_end, v1, w2)
                 else if c \<noteq> Evr_ok then Some (Ret Evr_error, v1, w2)
                 else (case sys_seek w2 f1 (f_pos + evr_bucket_blob_header_size + st_size stat) of (ok, w3, f2) \<Rightarrow>
                         if \<not> ok then Some (Ret Evr_error, v1, w3)
                         else walk_bucket_loop visit_blob (f_pos + evr_bucket_blob_header_size + st_size stat) v1 (w3, f2))
              | _ \<Rightarrow> Some (x, v1, w2))))"

text \<open>The file position is behind the end offset when the loop starts, which is the size of the bucket header.\<close>

definition evr_glacier_walk_bucket ::
  "string \<Rightarrow> ('v \<Rightarrow> nat \<Rightarrow> evr_code \<times> 'v) option \<Rightarrow> ('v, 'd) blob_visitor \<Rightarrow> 'v \<Rightarrow> 'd world
   \<Rightarrow> (evr_code exec \<times> 'v \<times> 'd world) option" where
  "evr_glacier_walk_bucket file_name visit_bucket visit_blob v w =
    (let with_close = (\<lambda>x v w. case x of
            Ret r \<Rightarrow> (case sys_call w of (ok, w') \<Rightarrow> Some (if ok then Ret r else Panic, v, w'))
          | _ \<Rightarrow> Some (x, v, w)) in
     case sys_open w file_name False of (fo, w1) \<Rightarrow>
     case fo of
       None \<Rightarrow> Some (Ret Evr_error, v, w1)
     | Some f \<Rightarrow>
    (case evr_read_bucket_end_offset w1 f of (e, w2, f2) \<Rightarrow>
     case e of
       None \<Rightarrow> with_close (Ret Evr_error) v w2
     | Some end_offset \<Rightarrow>
    (case (case visit_bucket of None \<Rightarrow> (Evr_ok, v) | Some visit \<Rightarrow> visit v end_offset) of (r, v1) \<Rightarrow>
     if r = Evr_end then with_close (Ret Evr_end) v1 w2
     else if r \<noteq> Evr_ok then with_close (Ret Evr_error) v1 w2
     else case walk_bucket_loop visit_blob evr_bucket_header_size v1 (w2, f2) of
         None \<Rightarrow> None
       | Some (x, v2, w3) \<Rightarrow> with_close x v2 w3)))"

section \<open>Rebuilding the index\<close>

definition evr_glacier_reindex_visit_blob ::
  "'d index_db \<Rightarrow> (bytes \<Rightarrow> bytes) \<Rightarrow> (evr_glacier_write_ctx, 'd) blob_visitor" where
  "evr_glacier_reindex_visit_blob S sha3_224 c stat w =
    (if st_checksum_valid stat \<noteq> Evr_ok then (Ret Evr_end, c, w)
     else case wc_bucket_f c of
       None \<Rightarrow> (Ret Evr_error, c, w)
     | Some f \<Rightarrow>
    (case sys_seek w f (st_offset stat) of (ok, w1, f1) \<Rightarrow>
     let c1 = c\<lparr>wc_bucket_f := Some f1\<rparr> in
     if \<not> ok then (Ret Evr_error, c1, w1)
     else case sys_call w1 of (opened, w2) \<Rightarrow>
     if \<not> opened then (Ret Evr_error, c1, w2)
     else case dump_n_bytes sys_read evr_blob_ref_write_se (w2, f1) (st_size stat) [] of (r, md, (w3, f3)) \<Rightarrow>
     let c3 = c\<lparr>wc_bucket_f := Some f3\<rparr> in
     if r \<noteq> Evr_ok then (Ret Evr_error, c3, w3)
     else if evr_blob_ref_hd_match sha3_224 md (st_ref stat) \<noteq> Evr_ok then (Ret Evr_ok, c3, w3)
     else case evr_glacier_add_blob_to_index S c3 w3 (st_ref stat) (st_flags stat) (st_offset stat) (st_size stat)
            (st_last_modified stat) of (x, w4) \<Rightarrow>
     (case x of Ret r \<Rightarrow> Ret (if r = Evr_ok then Evr_ok else Evr_error) | _ \<Rightarrow> x, c3, w4)))"

text \<open>
  What follows \<^verbatim>\<open>out_with_close_bucket\<close>, and the two statements about the bucket before it:
  \<^verbatim>\<open>sqlite3_reset\<close> repeats the error of a failed step, on which the process ends.
\<close>

definition reindex_close ::
  "evr_code exec \<Rightarrow> evr_glacier_write_ctx \<Rightarrow> 'd world \<Rightarrow> evr_code exec \<times> evr_glacier_write_ctx \<times> 'd world" where
  "reindex_close x c w =
    (case x of
       Ret r \<Rightarrow> (case close_current_bucket c w of (cr, c1, w1) \<Rightarrow> (if cr \<noteq> Evr_ok then Panic else Ret r, c1, w1))
     | _ \<Rightarrow> (x, c, w))"

definition reindex_bucket_row ::
  "'d index_db \<Rightarrow> 32 word \<Rightarrow> evr_glacier_write_ctx \<Rightarrow> 'd world \<Rightarrow> evr_code exec \<times> 'd world" where
  "reindex_bucket_row S end_offset c w =
    (case ix_insert_bucket S (w_db w) (word_of_nat (wc_bucket_index c)) of (res, d) \<Rightarrow>
       if res \<noteq> Sql_done then (sql_outcome res, w\<lparr>w_db := d\<rparr>)
       else case ix_update_bucket S d end_offset (word_of_nat (wc_bucket_index c)) of (res2, d2) \<Rightarrow>
         (sql_outcome res2, w\<lparr>w_db := d2\<rparr>))"

definition reindex_end_offset ::
  "'d index_db \<Rightarrow> 32 word \<Rightarrow> evr_glacier_write_ctx \<Rightarrow> 'd world \<Rightarrow> evr_code exec \<times> evr_glacier_write_ctx \<times> 'd world" where
  "reindex_end_offset S end_offset c w =
    (case wc_bucket_f c of
       None \<Rightarrow> (Ret Evr_error, c, w)
     | Some f \<Rightarrow>
      (case evr_write_bucket_end_offset w f (unat end_offset) True of (r, w1, f1) \<Rightarrow>
       let c1 = c\<lparr>wc_bucket_f := Some f1\<rparr> in
       if r \<noteq> Evr_ok then reindex_close (Ret Evr_error) c1 w1
       else case reindex_bucket_row S end_offset c1 w1 of (x, w2) \<Rightarrow> reindex_close x c1 w2))"

definition evr_glacier_reindex_bucket ::
  "'d index_db \<Rightarrow> (bytes \<Rightarrow> bytes) \<Rightarrow> (evr_glacier_write_ctx, 'd) bucket_visitor" where
  "evr_glacier_reindex_bucket S sha3_224 c bucket_index file_name w =
    (case open_current_bucket (c\<lparr>wc_bucket_index := bucket_index\<rparr>) w False of (r, c1, w1) \<Rightarrow>
     if r \<noteq> Evr_ok then Some (Ret Evr_error, c1, w1)
     else case wc_bucket_f c1 of
       None \<Rightarrow> Some (Ret Evr_error, c1, w1)
     | Some f \<Rightarrow>
    (case evr_validate_bucket_magic_number w1 f of (r, w2, f2) \<Rightarrow>
     let c2 = c1\<lparr>wc_bucket_f := Some f2\<rparr> in
     if r \<noteq> Evr_ok then Some (reindex_close (Ret Evr_error) c2 w2)
     else case evr_glacier_walk_bucket file_name None (evr_glacier_reindex_visit_blob S sha3_224) c2 w2 of
       None \<Rightarrow> None
     | Some (x, c3, w3) \<Rightarrow>
     Some (case x of
       Ret walk_res \<Rightarrow>
         if walk_res = Evr_end then reindex_end_offset S (word_of_nat evr_bucket_end_offset_corrupt) c3 w3
         else if walk_res \<noteq> Evr_ok then reindex_close (Ret Evr_error) c3 w3
         else (case wc_bucket_f c3 of
             None \<Rightarrow> (Ret Evr_error, c3, w3)
           | Some f3 \<Rightarrow>
              (case sys_seek_end w3 f3 of (e, w4, f4) \<Rightarrow>
               let c4 = c3\<lparr>wc_bucket_f := Some f4\<rparr> in
               case e of
                 None \<Rightarrow> reindex_close (Ret Evr_error) c4 w4
               | Some n \<Rightarrow>
                  if word_of_nat n = (- 1 :: 32 word) then reindex_close (Ret Evr_error) c4 w4
                  else reindex_end_offset S (word_of_nat n) c4 w4))
     | _ \<Rightarrow> (x, c3, w3))))"

definition evr_glacier_reindex ::
  "'d index_db \<Rightarrow> (bytes \<Rightarrow> bytes) \<Rightarrow> evr_glacier_write_ctx \<Rightarrow> 'd world
   \<Rightarrow> (evr_code exec \<times> evr_glacier_write_ctx \<times> 'd world) option" where
  "evr_glacier_reindex S sha3_224 c w = evr_walk_buckets (evr_glacier_reindex_bucket S sha3_224) c w"


section \<open>Contexts\<close>

record evr_glacier_storage_cfg =
  sc_max_bucket_size :: nat
  sc_bucket_dir_path :: string
  sc_index_db_path :: "string option"

definition evr_open_index_db :: "'d index_db \<Rightarrow> 'd world \<Rightarrow> bool \<times> 'd world" where
  "evr_open_index_db S w = (case ix_open S (w_db w) of (ok, d) \<Rightarrow> (ok, w\<lparr>w_db := d\<rparr>))"

definition evr_create_index_db :: "'d index_db \<Rightarrow> 'd world \<Rightarrow> bool \<times> 'd world" where
  "evr_create_index_db S w = (case ix_create_tables S (w_db w) of (ok, d) \<Rightarrow> (ok, w\<lparr>w_db := d\<rparr>))"

text \<open>The memory, the database and three prepared statements.\<close>

definition evr_create_glacier_read_ctx :: "'d index_db \<Rightarrow> 'd world \<Rightarrow> bool \<times> 'd world" where
  "evr_create_glacier_read_ctx S w =
    (case sys_call w of (ok, w1) \<Rightarrow>
       if \<not> ok then (False, w1)
       else case evr_open_index_db S w1 of (ok, w2) \<Rightarrow> if \<not> ok then (False, w2) else sys_calls 3 w2)"

definition evr_free_glacier_read_ctx :: "'d world \<Rightarrow> evr_code exec \<times> 'd world" where
  "evr_free_glacier_read_ctx w = (case sys_calls 4 w of (ok, w1) \<Rightarrow> (if ok then Ret Evr_ok else Panic, w1))"

text \<open>The lock of the process is released last; when that fails the process ends.\<close>

definition fail_with_db :: "evr_code \<Rightarrow> 'd world \<Rightarrow> evr_code exec \<times> evr_glacier_write_ctx option \<times> 'd world" where
  "fail_with_db r w = (case sys_call w of (ok, w1) \<Rightarrow> (if ok then Ret r else Panic, None, w1))"

definition fail_with_open_bucket ::
  "'d world \<Rightarrow> evr_code exec \<times> evr_glacier_write_ctx option \<times> 'd world" where
  "fail_with_open_bucket w =
    (case sys_call w of (ok, w1) \<Rightarrow> if ok then fail_with_db Evr_error w1 else (Panic, None, w1))"

definition create_first_bucket ::
  "'d index_db \<Rightarrow> evr_glacier_write_ctx \<Rightarrow> 'd world \<Rightarrow> evr_code exec \<times> evr_glacier_write_ctx option \<times> 'd world" where
  "create_first_bucket S c w =
    (case create_next_bucket S c w of (x, c1, w1) \<Rightarrow>
       (case x of Ret r \<Rightarrow> if r = Evr_ok then (x, Some c1, w1) else fail_with_db Evr_error w1
        | _ \<Rightarrow> (x, None, w1)))"

definition open_last_bucket ::
  "'d index_db \<Rightarrow> evr_glacier_write_ctx \<Rightarrow> 'd world \<Rightarrow> evr_code exec \<times> evr_glacier_write_ctx option \<times> 'd world" where
  "open_last_bucket S c w =
    (case open_current_bucket c w False of (r, c1, w1) \<Rightarrow>
     if r \<noteq> Evr_ok then fail_with_db Evr_error w1
     else case wc_bucket_f c1 of
       None \<Rightarrow> fail_with_db Evr_error w1
     | Some f \<Rightarrow>
    (case evr_validate_bucket_magic_number w1 f of (r, w2, f2) \<Rightarrow>
     if r \<noteq> Evr_ok then fail_with_open_bucket w2
     else case evr_read_bucket_end_offset w2 f2 of (e, w3, f3) \<Rightarrow>
     case e of
       None \<Rightarrow> fail_with_open_bucket w3
     | Some p \<Rightarrow>
        (let c3 = c1\<lparr>wc_bucket_f := Some f3, wc_bucket_pos := p\<rparr> in
         if p = evr_bucket_end_offset_corrupt
         then (case create_next_bucket S c3 w3 of (x, c4, w4) \<Rightarrow>
                 (case x of Ret r \<Rightarrow> if r = Evr_ok then (x, Some c4, w4) else fail_with_open_bucket w4
                  | _ \<Rightarrow> (x, None, w4)))
         else (Ret Evr_ok, Some c3, w3))))"

definition evr_create_glacier_write_ctx ::
  "'d index_db \<Rightarrow> evr_glacier_storage_cfg \<Rightarrow> 'd world
   \<Rightarrow> (evr_code exec \<times> evr_glacier_write_ctx option \<times> 'd world) option" where
  "evr_create_glacier_write_ctx S cfg w =
    (let c = \<lparr>wc_bucket_index = 0, wc_bucket_f = None, wc_bucket_pos = 0, wc_bucket_sync = True\<rparr>;
         dir = trim_bucket_dir_path (sc_bucket_dir_path cfg);
         lock_path = build_glacier_file_path (length dir + 10) dir glacier_dir_lock_file_path in
     case sys_call w of (allocated, w1) \<Rightarrow>
     if \<not> allocated then Some (Ret Evr_error, None, w1)
     else if lock_path = [] then Some (Ret Evr_error, None, w1)
     else case sys_call w1 of (locked, w2) \<Rightarrow>
     if \<not> locked then Some (Ret Evr_error, None, w2)
     else case evr_open_index_db S w2 of (ok, w3) \<Rightarrow>
     if \<not> ok then Some (fail_with_db Evr_glacier_index_db_corrupt w3)
     else case evr_create_index_db S w3 of (ok, w4) \<Rightarrow>
     if \<not> ok then Some (fail_with_db Evr_error w4)
     else case sys_calls 4 w4 of (prepared, w5) \<Rightarrow>
     if \<not> prepared then Some (fail_with_db Evr_error w5)
     else case move_to_last_bucket c w5 of
       None \<Rightarrow> None
     | Some (x, c6, w6) \<Rightarrow>
        (case x of
           Ret r \<Rightarrow>
             if r \<noteq> Evr_ok then Some (fail_with_db Evr_error w6)
             else if wc_bucket_index c6 = 0 then Some (create_first_bucket S c6 w6)
             else Some (open_last_bucket S c6 w6)
         | _ \<Rightarrow> Some (x, None, w6)))"

definition evr_free_glacier_write_ctx :: "evr_glacier_write_ctx \<Rightarrow> 'd world \<Rightarrow> evr_code exec \<times> 'd world" where
  "evr_free_glacier_write_ctx c w =
    (case close_current_bucket c w of (r, c1, w1) \<Rightarrow>
       if r \<noteq> Evr_ok then (Ret Evr_error, w1)
       else case sys_calls 5 w1 of (ok, w2) \<Rightarrow>
         if \<not> ok then (Ret Evr_error, w2)
         else case sys_call w2 of (released, w3) \<Rightarrow> (if released then Ret Evr_ok else Panic, w3))"

definition evr_glacier_recreate_index_db ::
  "'d index_db \<Rightarrow> (bytes \<Rightarrow> bytes) \<Rightarrow> evr_glacier_storage_cfg \<Rightarrow> 'd world \<Rightarrow> (evr_code exec \<times> 'd world) option" where
  "evr_glacier_recreate_index_db S sha3_224 cfg w =
    (case ix_unlink S (w_db w) of (ok, d) \<Rightarrow>
     if \<not> ok then Some (Ret Evr_error, w\<lparr>w_db := d\<rparr>)
     else case evr_create_glacier_write_ctx S cfg (w\<lparr>w_db := d\<rparr>) of
       None \<Rightarrow> None
     | Some (x, co, w1) \<Rightarrow>
        (case co of
           None \<Rightarrow> Some (case x of Ret _ \<Rightarrow> Ret Evr_error | _ \<Rightarrow> x, w1)
         | Some c \<Rightarrow>
            (case evr_glacier_reindex S sha3_224 c w1 of
               None \<Rightarrow> None
             | Some (x, c2, w2) \<Rightarrow>
                Some (case x of
                  Ret r \<Rightarrow> (case evr_free_glacier_write_ctx c2 w2 of (y, w3) \<Rightarrow>
                     (if y \<noteq> Ret Evr_ok then Panic else Ret (if r = Evr_ok then Evr_ok else Evr_error), w3))
                | _ \<Rightarrow> (x, w2)))))"

section \<open>The check at startup\<close>

record evr_glacier_blob_check_ctx =
  bc_ref :: evr_blob_ref
  bc_flags :: c_int
  bc_blob_size :: nat
  bc_ret :: evr_code
  bc_blob_hd :: evr_blob_ref_hd

definition evr_glacier_blob_check_status :: "evr_glacier_blob_check_ctx status_cb" where
  "evr_glacier_blob_check_status b ex flags blob_size =
    (if \<not> ex \<or> flags \<noteq> bc_flags b \<or> blob_size \<noteq> bc_blob_size b
     then (Evr_end, b\<lparr>bc_ret := Evr_glacier_index_db_corrupt\<rparr>)
     else (Evr_ok, b\<lparr>bc_ret := Evr_ok\<rparr>))"

definition evr_glacier_blob_check_data :: "evr_glacier_blob_check_ctx side_effect" where
  "evr_glacier_blob_check_data b d = (Evr_ok, b\<lparr>bc_blob_hd := evr_blob_ref_write (bc_blob_hd b) d\<rparr>)"

definition check_blob_row ::
  "'d index_db \<Rightarrow> (bytes \<Rightarrow> bytes) \<Rightarrow> blob_row \<Rightarrow> 'd world \<Rightarrow> (evr_code \<times> 'd world) option" where
  "check_blob_row S sha3_224 row w =
    (if length (br_key row) \<noteq> evr_blob_ref_size then Some (Evr_glacier_index_db_corrupt, w)
     else case sys_call w of (opened, w1) \<Rightarrow>
     if \<not> opened then Some (Evr_error, w1)
     else case evr_glacier_read_blob S (br_key row) evr_glacier_blob_check_status evr_glacier_blob_check_data
         \<lparr>bc_ref = br_key row, bc_flags = br_flags row, bc_blob_size = int_to_size (br_size row),
          bc_ret = Evr_error, bc_blob_hd = []\<rparr> w1 of
       None \<Rightarrow> None
     | Some (r, b, w2) \<Rightarrow>
        Some (if r \<noteq> Evr_ok then Evr_error
              else if bc_ret b = Evr_glacier_index_db_corrupt then Evr_glacier_index_db_corrupt
              else if bc_ret b \<noteq> Evr_ok then Evr_error
              else if evr_blob_ref_hd_match sha3_224 (bc_blob_hd b) (bc_ref b) \<noteq> Evr_ok
              then Evr_glacier_index_db_corrupt else Evr_ok, w2))"

text \<open>\<^verbatim>\<open>sqlite3_finalize\<close> repeats the error of the last step.\<close>

fun check_blobs_loop ::
  "'d index_db \<Rightarrow> (bytes \<Rightarrow> bytes) \<Rightarrow> blob_row list \<Rightarrow> bool \<Rightarrow> 'd world \<Rightarrow> (evr_code exec \<times> 'd world) option" where
  "check_blobs_loop S sha3_224 [] complete w = Some (if complete then Ret Evr_ok else Panic, w)"
| "check_blobs_loop S sha3_224 (row # rows) complete w =
    (case check_blob_row S sha3_224 row w of
       None \<Rightarrow> None
     | Some (r, w1) \<Rightarrow> if r \<noteq> Evr_ok then Some (Ret r, w1) else check_blobs_loop S sha3_224 rows complete w1)"

definition evr_glacier_check_blobs ::
  "'d index_db \<Rightarrow> (bytes \<Rightarrow> bytes) \<Rightarrow> ('d \<Rightarrow> sql_rows option) \<Rightarrow> 'd world \<Rightarrow> (evr_code exec \<times> 'd world) option" where
  "evr_glacier_check_blobs S sha3_224 sql w =
    (let with_free = (\<lambda>x w. case x of
            Ret r \<Rightarrow> (case evr_free_glacier_read_ctx w of (y, w') \<Rightarrow> Some (if y = Ret Evr_ok then Ret r else Panic, w'))
          | _ \<Rightarrow> Some (x, w)) in
     case evr_create_glacier_read_ctx S w of (ok, w1) \<Rightarrow>
     if \<not> ok then Some (Ret Evr_error, w1)
     else case sql (w_db w1) of
       None \<Rightarrow> with_free (Ret Evr_error) w1
     | Some (rows, complete) \<Rightarrow>
        (case check_blobs_loop S sha3_224 rows complete w1 of
           None \<Rightarrow> None
         | Some (x, w2) \<Rightarrow> with_free x w2))"

text \<open>
  The end offset of the database is compared as \<^verbatim>\<open>int\<close>. A failed lookup is to count as a corrupt
  index, but then \<^verbatim>\<open>sqlite3_reset\<close> repeats the error and the process ends.
\<close>

definition evr_glacier_check_index_db ::
  "'d index_db \<Rightarrow> (bytes \<Rightarrow> bytes) \<Rightarrow> evr_glacier_write_ctx \<Rightarrow> 'd world
   \<Rightarrow> (evr_code exec \<times> evr_glacier_write_ctx \<times> 'd world) option" where
  "evr_glacier_check_index_db S sha3_224 c w =
    (case wc_bucket_f c of
       None \<Rightarrow> Some (Ret Evr_error, c, w)
     | Some f \<Rightarrow>
    (case sys_seek_end w f of (e, w1, f1) \<Rightarrow>
     let c1 = c\<lparr>wc_bucket_f := Some f1\<rparr> in
     case e of
       None \<Rightarrow> Some (Ret Evr_error, c1, w1)
     | Some bucket_end_offset \<Rightarrow>
    (case ix_find_bucket S (w_db w1) (word_of_nat (wc_bucket_index c)) of
       Sql_row_bind_fail \<Rightarrow> Some (Ret Evr_error, c1, w1)
     | Sql_no_row \<Rightarrow> Some (Ret Evr_glacier_index_db_corrupt, c1, w1)
     | Sql_row_fail \<Rightarrow> Some (Panic, c1, w1)
     | Sql_row db_end_offset \<Rightarrow>
        if sint db_end_offset \<noteq> int bucket_end_offset then Some (Ret Evr_glacier_index_db_corrupt, c1, w1)
        else case evr_glacier_check_blobs S sha3_224 (ix_latest_blobs S) w1 of
            None \<Rightarrow> None
          | Some (x, w2) \<Rightarrow>
             if x \<noteq> Ret Evr_ok then Some (x, c1, w2)
             else (case evr_glacier_check_blobs S sha3_224 (ix_random_blobs S) w2 of
                 None \<Rightarrow> None
               | Some (y, w3) \<Rightarrow> Some (y, c1, w3)))))"

definition evr_quick_check_glacier ::
  "'d index_db \<Rightarrow> (bytes \<Rightarrow> bytes) \<Rightarrow> evr_glacier_storage_cfg \<Rightarrow> 'd world \<Rightarrow> (evr_code exec \<times> 'd world) option" where
  "evr_quick_check_glacier S sha3_224 cfg w =
    (let recreate = (\<lambda>w. case evr_glacier_recreate_index_db S sha3_224 cfg w of
            None \<Rightarrow> None
          | Some (x, w') \<Rightarrow> Some (if x = Ret Evr_ok then Ret Evr_ok else Panic, w')) in
     case evr_create_glacier_write_ctx S cfg w of
       None \<Rightarrow> None
     | Some (x, co, w1) \<Rightarrow>
        (case co of
           None \<Rightarrow>
             if x = Ret Evr_glacier_index_db_corrupt then recreate w1
             else Some (case x of Ret _ \<Rightarrow> Ret Evr_error | _ \<Rightarrow> x, w1)
         | Some c \<Rightarrow>
            (case evr_glacier_check_index_db S sha3_224 c w1 of
               None \<Rightarrow> None
             | Some (y, c2, w2) \<Rightarrow>
                (case y of
                   Ret check_res \<Rightarrow>
                    (case evr_free_glacier_write_ctx c2 w2 of (z, w3) \<Rightarrow>
                       if z \<noteq> Ret Evr_ok then Some (Panic, w3)
                       else if check_res = Evr_glacier_index_db_corrupt then recreate w3
                       else Some (if check_res \<noteq> Evr_ok then Panic else Ret Evr_ok, w3))
                 | _ \<Rightarrow> Some (y, w2)))))"

end
