(* ===== verification/Notify.thy ===== *)
theory Notify
  imports Queue
begin

text \<open>
  \<^verbatim>\<open>src/notify.c\<close>: a table of observers, each with a queue of messages of its own, guarded by one
  lock. The queues live in a heap and are named by their addresses, because the observer keeps the
  pointer it got at registration and hands it back when it unregisters. The operations run inside
  the lock, so each is one step on the table and the heap.
\<close>

section \<open>Definitions\<close>

type_synonym queues = "nat \<Rightarrow> evr_queue option"

record 'c evr_observer =
  ob_messages :: "nat option"
  ob_ctx :: 'c

record 'c evr_notify_ctx =
  nt_observers :: "'c evr_observer list"
  nt_msgs_len_exp :: nat
  nt_msg_size :: nat

text \<open>\<open>ctxs\<close> is what the allocated memory holds in the places of the contexts.\<close>

definition evr_create_notify_ctx :: "bool \<Rightarrow> bool \<Rightarrow> 'c list \<Rightarrow> nat \<Rightarrow> nat \<Rightarrow> 'c evr_notify_ctx option" where
  "evr_create_notify_ctx mem lock_init ctxs msgs_len_exp msg_size =
    (if \<not> mem then None
     else if \<not> lock_init then None
     else Some \<lparr>nt_observers = map (\<lambda>c. \<lparr>ob_messages = None, ob_ctx = c\<rparr>) ctxs,
                nt_msgs_len_exp = msgs_len_exp, nt_msg_size = msg_size\<rparr>)"

text \<open>
  \<open>polled i\<close> is the table when the loop has the lock for the time \<open>i\<close>; \<open>sync i\<close> are the
  results of its calls then, the second one that of \<^verbatim>\<open>thrd_sleep\<close>.
\<close>

partial_function (option) evr_free_notify_ctx ::
  "(nat \<Rightarrow> 'c evr_notify_ctx) \<Rightarrow> (nat \<Rightarrow> sync) \<Rightarrow> nat \<Rightarrow> evr_code exec option" where
  "evr_free_notify_ctx polled s i =
    (if \<not> mtx_lock_ok (s i) then Some (Ret Evr_error)
     else if \<forall>ob\<in>set (nt_observers (polled i)). ob_messages ob = None
     then Some (if mtx_unlock_ok (s i) then Ret Evr_ok else Panic)
     else if \<not> mtx_unlock_ok (s i) then Some Panic
     else if \<not> cnd_signal_ok (s i) then Some (Ret Evr_error)
     else evr_free_notify_ctx polled s (Suc i))"

text \<open>\<open>s i\<close> are the results of the calls \<^verbatim>\<open>evr_queue_put\<close> makes for the observer \<open>i\<close>.\<close>

fun notify_send_loop ::
  "(nat \<Rightarrow> sync) \<Rightarrow> ('c \<Rightarrow> bytes \<Rightarrow> bool) option \<Rightarrow> bytes \<Rightarrow> nat \<Rightarrow> 'c evr_observer list \<Rightarrow> evr_code \<Rightarrow> queues
   \<Rightarrow> evr_code exec \<times> queues" where
  "notify_send_loop s filt entry i [] ret h = (Ret ret, h)"
| "notify_send_loop s filt entry i (ob # obs) ret h =
    (case ob_messages ob of
       None \<Rightarrow> notify_send_loop s filt entry (Suc i) obs ret h
     | Some a \<Rightarrow>
        if (case filt of None \<Rightarrow> False | Some f \<Rightarrow> \<not> f (ob_ctx ob) entry)
        then notify_send_loop s filt entry (Suc i) obs ret h
        else (case h a of
            None \<Rightarrow> (Undef, h)
          | Some q \<Rightarrow>
             (case evr_queue_put (s i) q entry of
                None \<Rightarrow> (Panic, h)
              | Some (put_res, _, q') \<Rightarrow>
                  notify_send_loop s filt entry (Suc i) obs
                    (if put_res \<noteq> Evr_ok \<and> put_res \<noteq> Evr_temporary_occupied then Evr_error else ret)
                    (h(a \<mapsto> q')))))"

definition evr_notify_send ::
  "sync \<Rightarrow> (nat \<Rightarrow> sync) \<Rightarrow> 'c evr_notify_ctx \<Rightarrow> bytes \<Rightarrow> ('c \<Rightarrow> bytes \<Rightarrow> bool) option \<Rightarrow> queues \<Rightarrow> evr_code exec \<times> queues" where
  "evr_notify_send s0 s nt entry filt h =
    (if \<not> mtx_lock_ok s0 then (Ret Evr_error, h)
     else case notify_send_loop s filt entry 0 (nt_observers nt) Evr_ok h of
         (Ret r, h') \<Rightarrow> (if mtx_unlock_ok s0 then Ret r else Panic, h')
       | (x, h') \<Rightarrow> (x, h'))"

text \<open>
  The first free place gets a queue: \<open>new\<close> is the queue \<^verbatim>\<open>evr_create_queue\<close> returns together
  with its address, \<open>None\<close> for the null pointer.
\<close>

fun notify_register_loop ::
  "(nat \<times> evr_queue) option \<Rightarrow> 'c \<Rightarrow> 'c evr_observer list \<Rightarrow> queues \<Rightarrow> nat option \<times> 'c evr_observer list \<times> queues" where
  "notify_register_loop new ctx [] h = (None, [], h)"
| "notify_register_loop new ctx (ob # obs) h =
    (if ob_messages ob \<noteq> None
     then (case notify_register_loop new ctx obs h of (r, obs', h') \<Rightarrow> (r, ob # obs', h'))
     else case new of
         None \<Rightarrow> (None, ob # obs, h)
       | Some (a, q) \<Rightarrow> (Some a, \<lparr>ob_messages = Some a, ob_ctx = ctx\<rparr> # obs, h(a \<mapsto> q)))"

definition evr_notify_register ::
  "sync \<Rightarrow> (nat \<times> evr_queue) option \<Rightarrow> 'c evr_notify_ctx \<Rightarrow> 'c \<Rightarrow> queues \<Rightarrow> nat option exec \<times> 'c evr_notify_ctx \<times> queues" where
  "evr_notify_register s new nt ctx h =
    (if \<not> mtx_lock_ok s then (Ret None, nt, h)
     else case notify_register_loop new ctx (nt_observers nt) h of (r, obs, h') \<Rightarrow>
       (if mtx_unlock_ok s then Ret r else Panic, nt\<lparr>nt_observers := obs\<rparr>, h'))"

text \<open>
  \<^verbatim>\<open>evr_free_queue\<close> would wait while somebody produces; the call before it has ended that. A
  failing call in it ends the process.
\<close>

fun notify_unregister_loop ::
  "sync \<Rightarrow> nat \<Rightarrow> 'c evr_observer list \<Rightarrow> queues \<Rightarrow> evr_code exec \<times> 'c evr_observer list \<times> queues" where
  "notify_unregister_loop s a [] h = (Ret Evr_error, [], h)"
| "notify_unregister_loop s a (ob # obs) h =
    (if ob_messages ob \<noteq> Some a
     then (case notify_unregister_loop s a obs h of (r, obs', h') \<Rightarrow> (r, ob # obs', h'))
     else case h a of
         None \<Rightarrow> (Undef, ob # obs, h)
       | Some q \<Rightarrow>
          (case evr_queue_end_producing s q of
             None \<Rightarrow> (Panic, ob # obs, h)
           | Some q' \<Rightarrow>
              (case evr_free_queue s (Some q') of
                 Some (Done (r, _)) \<Rightarrow>
                   if r = Evr_ok then (Ret Evr_ok, ob\<lparr>ob_messages := None\<rparr> # obs, h(a := None)) else (Panic, ob # obs, h)
               | _ \<Rightarrow> (Panic, ob # obs, h))))"

definition evr_notify_unregister ::
  "sync \<Rightarrow> sync \<Rightarrow> 'c evr_notify_ctx \<Rightarrow> nat option \<Rightarrow> queues \<Rightarrow> evr_code exec \<times> 'c evr_notify_ctx \<times> queues" where
  "evr_notify_unregister s0 s nt messages h =
    (case messages of
       None \<Rightarrow> (Ret Evr_error, nt, h)
     | Some a \<Rightarrow>
        if \<not> mtx_lock_ok s0 then (Ret Evr_error, nt, h)
        else (case notify_unregister_loop s a (nt_observers nt) h of (x, obs, h') \<Rightarrow>
          (case x of Ret r \<Rightarrow> if mtx_unlock_ok s0 then Ret r else Panic | _ \<Rightarrow> x, nt\<lparr>nt_observers := obs\<rparr>, h')))"

section \<open>Invariant\<close>

definition obs_addrs :: "'c evr_observer list \<Rightarrow> nat list" where
  "obs_addrs obs = List.map_filter ob_messages obs"

lemma obs_addrs_simps [simp]:
  "obs_addrs [] = []" "obs_addrs (ob # obs) = (case ob_messages ob of None \<Rightarrow> obs_addrs obs | Some a \<Rightarrow> a # obs_addrs obs)"
  by (simp_all add: obs_addrs_def List.map_filter_def split: option.split)

definition notify_inv :: "'c evr_notify_ctx \<Rightarrow> queues \<Rightarrow> bool" where
  "notify_inv nt h = (distinct (obs_addrs (nt_observers nt)) \<and>
     (\<forall>a\<in>set (obs_addrs (nt_observers nt)). \<exists>q. h a = Some q \<and> queue_inv q \<and> q_item_size q = nt_msg_size nt))"

text \<open>What a queue holds after an entry was put, also when it overflows.\<close>

definition put_contents :: "evr_queue \<Rightarrow> bytes \<Rightarrow> bytes list" where
  "put_contents q e = (if queue_open q \<and> queue_len q < queue_cap q then queue_contents q @ [e] else queue_contents q)"

lemma queue_put_contents:
  assumes "queue_inv q" "length e = q_item_size q"
  shows "\<exists>c q'. evr_queue_put sync_ok q e = Some (c, (), q') \<and> (c = Evr_ok \<or> c = Evr_temporary_occupied) \<and>
    queue_inv q' \<and> q_item_size q' = q_item_size q \<and> queue_contents q' = put_contents q e"
proof -
  obtain c q' where p: "evr_queue_put sync_ok q e = Some (c, (), q')"
    by (cases "evr_queue_put sync_ok q e") (auto simp: evr_queue_put_def queue_unlock_def sync_ok_def Let_def split: if_splits)
  then have r: "ring_put q e = (c, q')" by (simp add: ring_put_def)
  from ring_put_keeps [OF assms r] ring_put_eq [OF assms] r queue_written_contents [OF assms] queue_len_facts(1) [OF assms(1)] p
  show ?thesis by (auto simp: put_contents_def split: if_splits)
qed

definition wants :: "('c \<Rightarrow> bytes \<Rightarrow> bool) option \<Rightarrow> bytes \<Rightarrow> 'c evr_observer \<Rightarrow> bool" where
  "wants filt entry ob = (case filt of None \<Rightarrow> True | Some f \<Rightarrow> f (ob_ctx ob) entry)"

text \<open>The queue of an observer before and after a message was sent.\<close>

definition served :: "('c \<Rightarrow> bytes \<Rightarrow> bool) option \<Rightarrow> bytes \<Rightarrow> queues \<Rightarrow> queues \<Rightarrow> 'c evr_observer \<Rightarrow> bool" where
  "served filt entry h h' ob = (\<forall>a. ob_messages ob = Some a \<longrightarrow>
     (\<exists>q q'. h a = Some q \<and> h' a = Some q' \<and> queue_inv q' \<and> q_item_size q' = q_item_size q \<and>
        queue_contents q' = (if wants filt entry ob then put_contents q entry else queue_contents q)))"

lemma obs_addrs_mem: "ob \<in> set obs \<Longrightarrow> ob_messages ob = Some a \<Longrightarrow> a \<in> set (obs_addrs obs)"
  by (induction obs) (auto split: option.split)

lemma notify_send_loop_effect:
  assumes "distinct (obs_addrs obs)" "\<forall>a\<in>set (obs_addrs obs). \<exists>q. h a = Some q \<and> queue_inv q \<and> q_item_size q = length entry"
  shows "\<exists>h'. notify_send_loop (\<lambda>_. sync_ok) filt entry i obs Evr_ok h = (Ret Evr_ok, h') \<and>
    (\<forall>ob\<in>set obs. served filt entry h h' ob) \<and> (\<forall>a. a \<notin> set (obs_addrs obs) \<longrightarrow> h' a = h a)"
  using assms
proof (induction obs arbitrary: i h)
  case (Cons ob obs)
  show ?case
  proof (cases "ob_messages ob")
    case None
    with Cons.IH [of h "Suc i"] Cons.prems show ?thesis by (auto simp: served_def)
  next
    case (Some a)
    from Cons.prems Some obtain q where q: "h a = Some q" "queue_inv q" "q_item_size q = length entry" "a \<notin> set (obs_addrs obs)"
      "distinct (obs_addrs obs)" by auto
    from queue_put_contents [OF q(2), of entry] q(3) obtain c q1 where
      p: "evr_queue_put sync_ok q entry = Some (c, (), q1)" "c = Evr_ok \<or> c = Evr_temporary_occupied" "queue_inv q1"
      "q_item_size q1 = q_item_size q" "queue_contents q1 = put_contents q entry" by auto
    define h1 where "h1 = (if wants filt entry ob then h(a \<mapsto> q1) else h)"
    have h1: "h1 b = h b" if "b \<noteq> a" for b using that by (simp add: h1_def)
    have step: "notify_send_loop (\<lambda>_. sync_ok) filt entry i (ob # obs) Evr_ok h =
        notify_send_loop (\<lambda>_. sync_ok) filt entry (Suc i) obs Evr_ok h1"
      using Some q(1) p(1,2) by (auto simp: h1_def wants_def split: option.splits)
    have "\<forall>b\<in>set (obs_addrs obs). \<exists>q. h1 b = Some q \<and> queue_inv q \<and> q_item_size q = length entry"
      using Cons.prems(2) Some q(4) h1 by (metis list.set_intros(2) obs_addrs_simps(2) option.simps(5))
    from Cons.IH [OF q(5) this, of "Suc i"] obtain h' where
      h': "notify_send_loop (\<lambda>_. sync_ok) filt entry (Suc i) obs Evr_ok h1 = (Ret Evr_ok, h')"
      "\<forall>ob\<in>set obs. served filt entry h1 h' ob" "\<forall>b. b \<notin> set (obs_addrs obs) \<longrightarrow> h' b = h1 b" by blast
    have "served filt entry h h' ob" using h'(3) q Some p by (auto simp: served_def h1_def)
    moreover have "served filt entry h h' ob'" if "ob' \<in> set obs" for ob'
      using h'(2) that h1 obs_addrs_mem [OF that] q(4) by (fastforce simp: served_def)
    ultimately have "\<forall>ob'\<in>set (ob # obs). served filt entry h h' ob'" by simp
    moreover have "\<forall>b. b \<notin> set (obs_addrs (ob # obs)) \<longrightarrow> h' b = h b" using h'(3) h1 Some by auto
    ultimately show ?thesis using step h'(1) by auto
  qed
qed simp

section \<open>Registering\<close>

lemma register_loop_effect:
  assumes "notify_register_loop new ctx obs h = (r, obs', h')" "\<And>a q. new = Some (a, q) \<Longrightarrow> a \<notin> set (obs_addrs obs)"
  shows "(r = None \<longrightarrow> obs' = obs \<and> h' = h) \<and>
    (\<forall>a. r = Some a \<longrightarrow> (\<exists>q. new = Some (a, q) \<and> h' = h(a \<mapsto> q)) \<and> set (obs_addrs obs') = insert a (set (obs_addrs obs)) \<and>
       (distinct (obs_addrs obs) \<longrightarrow> distinct (obs_addrs obs')) \<and>
       (\<exists>ob\<in>set obs'. ob_messages ob = Some a \<and> ob_ctx ob = ctx) \<and>
       (\<forall>ob\<in>set obs. ob_messages ob \<noteq> None \<longrightarrow> ob \<in> set obs')) \<and>
    (new \<noteq> None \<longrightarrow> (r = None \<longleftrightarrow> (\<forall>ob\<in>set obs. ob_messages ob \<noteq> None))) \<and> length obs' = length obs"
  using assms
proof (induction obs arbitrary: r obs' h')
  case (Cons ob obs)
  show ?case
  proof (cases "ob_messages ob")
    case None
    with Cons.prems show ?thesis by (auto split: option.splits prod.splits)
  next
    case (Some b)
    obtain r1 obs1 h1 where rec: "notify_register_loop new ctx obs h = (r1, obs1, h1)" using prod_cases3 by blast
    have eq: "r = r1" "obs' = ob # obs1" "h' = h1" using Cons.prems(1) Some rec by auto
    have new: "new = Some (a, q) \<Longrightarrow> a \<notin> set (obs_addrs obs) \<and> a \<noteq> b" for a q using Cons.prems(2) Some by auto
    note IH = Cons.IH [OF rec] 
    show ?thesis
    proof (cases r1)
      case None
      with IH new eq Some show ?thesis by auto
    next
      case (Some a)
      with IH new eq \<open>ob_messages ob = Some b\<close> show ?thesis by auto
    qed
  qed
qed simp

lemma unregister_loop_effect:
  assumes "notify_unregister_loop sync_ok a obs h = (x, obs', h')" "distinct (obs_addrs obs)"
    "\<forall>b\<in>set (obs_addrs obs). h b \<noteq> None"
  shows "(a \<in> set (obs_addrs obs) \<longrightarrow> x = Ret Evr_ok \<and> h' = h(a := None) \<and> set (obs_addrs obs') = set (obs_addrs obs) - {a} \<and>
      distinct (obs_addrs obs') \<and> (\<forall>ob\<in>set obs. ob_messages ob \<noteq> Some a \<longrightarrow> ob \<in> set obs')) \<and>
    (a \<notin> set (obs_addrs obs) \<longrightarrow> x = Ret Evr_error \<and> h' = h \<and> obs' = obs) \<and> length obs' = length obs"
  using assms
proof (induction obs arbitrary: x obs' h')
  case (Cons ob obs)
  show ?case
  proof (cases "ob_messages ob = Some a")
    case True
    then obtain q where q: "h a = Some q" using Cons.prems(3) by auto
    then have "x = Ret Evr_ok" "obs' = ob\<lparr>ob_messages := None\<rparr> # obs" "h' = h(a := None)"
      using Cons.prems(1) True by (auto simp: evr_queue_end_producing_def evr_free_queue_def sync_ok_def)
    with True Cons.prems(2) show ?thesis by auto
  next
    case False
    obtain x1 obs1 h1 where rec: "notify_unregister_loop sync_ok a obs h = (x1, obs1, h1)" using prod_cases3 by blast
    have eq: "x = x1" "obs' = ob # obs1" "h' = h1" using Cons.prems(1) False rec by auto
    have pre: "distinct (obs_addrs obs)" "\<forall>b\<in>set (obs_addrs obs). h b \<noteq> None" using Cons.prems(2,3) by (auto split: option.splits)
    from Cons.IH [OF rec pre] eq False Cons.prems(2) show ?thesis by (cases "ob_messages ob") auto
  qed
qed simp

section \<open>Properties\<close>

text \<open>
  A message reaches exactly the observers that want it. When the calls succeed,
  \<^verbatim>\<open>evr_notify_send\<close> returns \<^verbatim>\<open>evr_ok\<close>, also when a queue overflows; the queue of every observer whose
  filter accepts the message gets it at its end while there is room, the queues of the other
  observers and every other queue stay as they are, and the table stays well formed.
\<close>

theorem notify_send_serves:
  assumes "notify_inv nt h" "length entry = nt_msg_size nt"
  shows "\<exists>h'. evr_notify_send sync_ok (\<lambda>_. sync_ok) nt entry filt h = (Ret Evr_ok, h') \<and> notify_inv nt h' \<and>
    (\<forall>ob\<in>set (nt_observers nt). served filt entry h h' ob) \<and>
    (\<forall>a. a \<notin> set (obs_addrs (nt_observers nt)) \<longrightarrow> h' a = h a)"
proof -
  let ?obs = "nt_observers nt"
  from assms have pre: "distinct (obs_addrs ?obs)"
    "\<forall>a\<in>set (obs_addrs ?obs). \<exists>q. h a = Some q \<and> queue_inv q \<and> q_item_size q = length entry" by (auto simp: notify_inv_def)
  from notify_send_loop_effect [OF pre, of filt 0] obtain h' where
    h': "notify_send_loop (\<lambda>_. sync_ok) filt entry 0 ?obs Evr_ok h = (Ret Evr_ok, h')"
    "\<forall>ob\<in>set ?obs. served filt entry h h' ob" "\<forall>a. a \<notin> set (obs_addrs ?obs) \<longrightarrow> h' a = h a" by blast
  have "\<exists>q. h' a = Some q \<and> queue_inv q \<and> q_item_size q = nt_msg_size nt" if "a \<in> set (obs_addrs ?obs)" for a
  proof -
    from that obtain ob where "ob \<in> set ?obs" "ob_messages ob = Some a"
      by (auto simp: obs_addrs_def List.map_filter_def)
    with h'(2) obtain q q' where "h a = Some q" "h' a = Some q'" "queue_inv q'" "q_item_size q' = q_item_size q"
      by (force simp: served_def)
    with pre(2) that assms(2) show ?thesis by auto
  qed
  then have "notify_inv nt h'" using pre(1) by (simp add: notify_inv_def)
  with h' show ?thesis by (simp add: evr_notify_send_def sync_ok_def)
qed

definition demo_nt :: "byte evr_notify_ctx" where
  "demo_nt = \<lparr>nt_observers = [\<lparr>ob_messages = Some 4, ob_ctx = 1\<rparr>, \<lparr>ob_messages = None, ob_ctx = 0\<rparr>, \<lparr>ob_messages = Some 9, ob_ctx = 2\<rparr>],
     nt_msgs_len_exp = 1, nt_msg_size = 1\<rparr>"

definition demo_queue :: evr_queue where
  "demo_queue = \<lparr>q_status = Evr_ok, q_writing_i = 0, q_reading_i = 0, q_items_len = 2, q_item_size = 1,
     q_items_buf = [0, 0], q_producing = True\<rparr>"

lemma demo_queue_inv: "queue_inv demo_queue"
  by (auto simp: queue_inv_def demo_queue_def intro!: exI [of _ 1])

lemma demo_nt_inv: "notify_inv demo_nt [4 \<mapsto> demo_queue, 9 \<mapsto> demo_queue]"
  using demo_queue_inv by (auto simp: notify_inv_def demo_nt_def demo_queue_def)

theorem notify_send_serves_witness:
  "\<exists>h'. evr_notify_send sync_ok (\<lambda>_. sync_ok) demo_nt [7] (Some (\<lambda>c e. c = 1)) [4 \<mapsto> demo_queue, 9 \<mapsto> demo_queue] = (Ret Evr_ok, h') \<and>
    (\<exists>q. h' 4 = Some q \<and> queue_contents q = [[7]])"
proof -
  have c: "put_contents demo_queue [7] = [[7]]"
    by (simp add: put_contents_def demo_queue_def queue_contents_def queue_len_def)
  from notify_send_serves [OF demo_nt_inv, of "[7]" "Some (\<lambda>c e. c = 1)"] c show ?thesis
    by (fastforce simp: demo_nt_def served_def wants_def)
qed

text \<open>
  Registering and unregistering. A registration returns the address of an empty queue of its own
  exactly when a place is free, and the null pointer otherwise without any effect; unregistering
  with that address frees the queue and the place. Both keep the table well formed and touch
  neither the other observers nor their queues.
\<close>

theorem notify_register_unregister:
  assumes "notify_inv nt h" "h a = None"
    "evr_create_queue struct_size True True True True True mem (nt_msgs_len_exp nt) (nt_msg_size nt) = Ret (Some q)" "\<And>n. length (mem n) = n"
    "struct_size + 2 ^ nt_msgs_len_exp nt * nt_msg_size nt < 2 ^ 64"
    "evr_notify_register sync_ok (Some (a, q)) nt ctx h = (Ret r, nt', h')"
  shows "(r = None \<longleftrightarrow> (\<forall>ob\<in>set (nt_observers nt). ob_messages ob \<noteq> None)) \<and> (r = None \<longrightarrow> nt' = nt \<and> h' = h) \<and>
    (r \<noteq> None \<longrightarrow> r = Some a \<and> h' = h(a \<mapsto> q) \<and> queue_contents q = [] \<and> notify_inv nt' h' \<and>
      (\<forall>ob\<in>set (nt_observers nt). ob_messages ob \<noteq> None \<longrightarrow> ob \<in> set (nt_observers nt')) \<and>
      (\<exists>nt''. evr_notify_unregister sync_ok sync_ok nt' r h' = (Ret Evr_ok, nt'', h) \<and> notify_inv nt'' h))"
proof -
  let ?obs = "nt_observers nt"
  note fr = evr_create_queue_fresh [OF assms(3-5)]
  obtain r1 obs1 h1 where l: "notify_register_loop (Some (a, q)) ctx ?obs h = (r1, obs1, h1)" using prod_cases3 by blast
  have eq: "r = r1" "nt' = nt\<lparr>nt_observers := obs1\<rparr>" "h' = h1"
    using assms(6) l by (auto simp: evr_notify_register_def sync_ok_def)
  have na: "a \<notin> set (obs_addrs ?obs)" using assms(1,2) by (auto simp: notify_inv_def)
  from register_loop_effect [OF l] na have reg: "r1 = None \<longrightarrow> obs1 = ?obs \<and> h1 = h"
    "r1 = None \<longleftrightarrow> (\<forall>ob\<in>set ?obs. ob_messages ob \<noteq> None)"
    "\<And>b. r1 = Some b \<Longrightarrow> b = a \<and> h1 = h(a \<mapsto> q) \<and> set (obs_addrs obs1) = insert a (set (obs_addrs ?obs)) \<and>
       (distinct (obs_addrs ?obs) \<longrightarrow> distinct (obs_addrs obs1)) \<and>
       (\<forall>ob\<in>set ?obs. ob_messages ob \<noteq> None \<longrightarrow> ob \<in> set obs1)" by auto
  have some: "r = Some a \<and> h' = h(a \<mapsto> q) \<and> notify_inv nt' h' \<and>
      (\<forall>ob\<in>set ?obs. ob_messages ob \<noteq> None \<longrightarrow> ob \<in> set (nt_observers nt')) \<and>
      (\<exists>nt''. evr_notify_unregister sync_ok sync_ok nt' r h' = (Ret Evr_ok, nt'', h) \<and> notify_inv nt'' h)" if "r \<noteq> None"
  proof -
    from that eq(1) obtain b where b: "r1 = Some b" by auto
    note rb = reg(3) [OF b]
    have inv: "notify_inv nt' h'" using assms(1) rb eq fr(1,5) by (auto simp: notify_inv_def)
    obtain x2 obs2 h2 where u: "notify_unregister_loop sync_ok a obs1 h1 = (x2, obs2, h2)" using prod_cases3 by blast
    have pre: "distinct (obs_addrs obs1)" "\<forall>b\<in>set (obs_addrs obs1). h1 b \<noteq> None"
      using inv eq by (auto simp: notify_inv_def)
    from unregister_loop_effect [OF u pre] rb have un: "x2 = Ret Evr_ok" "h2 = h1(a := None)"
      "set (obs_addrs obs2) = set (obs_addrs ?obs)" "distinct (obs_addrs obs2)" using na by auto
    have h2: "h2 = h" using un(2) rb assms(2) by (auto simp: fun_eq_iff)
    have "evr_notify_unregister sync_ok sync_ok nt' (Some a) h' = (Ret Evr_ok, nt'\<lparr>nt_observers := obs2\<rparr>, h)"
      using u un(1) h2 eq by (simp add: evr_notify_unregister_def sync_ok_def [symmetric]) (simp add: sync_ok_def)
    moreover have "notify_inv (nt'\<lparr>nt_observers := obs2\<rparr>) h" using assms(1) un(3,4) eq(2) by (simp add: notify_inv_def)
    ultimately show ?thesis using rb b eq inv by auto
  qed
  show ?thesis
  proof (cases "r = None")
    case True
    with reg(1,2) eq show ?thesis by simp
  next
    case False
    with some [OF False] reg(2) eq(1) fr(2) show ?thesis by blast
  qed
qed

theorem notify_register_unregister_witness:
  "\<exists>nt' h' nt''. evr_notify_register sync_ok (Some (5, demo_queue)) demo_nt 3 [4 \<mapsto> demo_queue, 9 \<mapsto> demo_queue] = (Ret (Some 5), nt', h') \<and>
    evr_notify_unregister sync_ok sync_ok nt' (Some 5) h' = (Ret Evr_ok, nt'', [4 \<mapsto> demo_queue, 9 \<mapsto> demo_queue])"
proof -
  let ?h = "[4 \<mapsto> demo_queue, 9 \<mapsto> demo_queue]"
  obtain r nt' h' where reg: "evr_notify_register sync_ok (Some (5, demo_queue)) demo_nt 3 ?h = (Ret r, nt', h')" "r = Some 5"
    by (simp add: evr_notify_register_def demo_nt_def sync_ok_def)
  have "evr_create_queue 200 True True True True True (\<lambda>n. replicate n 0) (nt_msgs_len_exp demo_nt) (nt_msg_size demo_nt) = Ret (Some demo_queue)"
    unfolding evr_create_queue_def demo_queue_def demo_nt_def by (simp add: Let_def) (simp add: numeral_2_eq_2)
  moreover have "200 + 2 ^ nt_msgs_len_exp demo_nt * nt_msg_size demo_nt < 2 ^ 64" by (simp add: demo_nt_def)
  ultimately show ?thesis using notify_register_unregister [OF demo_nt_inv _ _ _ _ reg(1)] reg by fastforce
qed

end
