(* ===== verification/Persister.thy ===== *)
theory Persister
  imports Glacier_Progress Glacier_Index Notify
begin

text \<open>
  \<^verbatim>\<open>src/concurrent-glacier.c\<close>: clients queue tasks into a ring of pointers, one worker thread takes
  them out, appends the blobs to the glacier, releases the \<^verbatim>\<open>done\<close> lock of the task and notifies the
  watchers. The ring is only touched inside the worker lock, so an operation on it is one step;
  the step relation interleaves clients and worker in every possible way.
\<close>

section \<open>Tasks and ring\<close>

definition evr_persister_task_queue_length :: nat where "evr_persister_task_queue_length = 32"

record evr_persister_task =
  tk_blob :: evr_writing_blob
  tk_done :: bool
  tk_result :: evr_code
  tk_last_modified :: evr_time

record evr_modified_blob =
  mb_key :: evr_blob_ref
  mb_last_modified :: evr_time
  mb_flags :: c_int

text \<open>The memory of the struct on a little endian host with 64 bit alignment, the padding being zero.\<close>

definition modified_blob_mem :: "evr_modified_blob \<Rightarrow> bytes" where
  "modified_blob_mem m = take evr_blob_ref_size (mb_key m) @ replicate 4 0 @ rev (be64 (mb_last_modified m)) @
     rev (be32 (mb_flags m)) @ replicate 4 0"

definition mem_modified_blob :: "bytes \<Rightarrow> evr_modified_blob" where
  "mem_modified_blob b = \<lparr>mb_key = take evr_blob_ref_size b,
     mb_last_modified = word_of_nat (be_val (rev (take 8 (drop 32 b)))),
     mb_flags = word_of_nat (be_val (rev (take 4 (drop 40 b))))\<rparr>"

record evr_persister_ctx =
  pc_tasks :: "nat list"
  pc_writing :: nat
  pc_reading :: nat
  pc_write_ctx :: evr_glacier_write_ctx
  pc_working :: bool
  pc_watchers :: "evr_blob_filter evr_notify_ctx"

type_synonym tasks = "nat \<Rightarrow> evr_persister_task"

definition evr_persister_ctx_step :: "nat \<Rightarrow> nat" where
  "evr_persister_ctx_step p = (if p + 1 = evr_persister_task_queue_length + 1 then 0 else p + 1)"

definition evr_persister_init_task :: "bool \<Rightarrow> evr_persister_task \<Rightarrow> evr_writing_blob \<Rightarrow> evr_code \<times> evr_persister_task" where
  "evr_persister_init_task init_ok task blob =
    (if init_ok then (Evr_ok, task\<lparr>tk_blob := blob, tk_done := False\<rparr>) else (Evr_error, task\<lparr>tk_blob := blob\<rparr>))"

text \<open>
  \<open>None\<close> means that the caller waits for the lock of the task. \<open>done_lock\<close> and \<open>done_unlock\<close> are the
  results of the calls on it, \<open>s\<close> those on the worker lock and its condition.
\<close>

definition queue_task_end ::
  "sync \<Rightarrow> evr_code \<Rightarrow> evr_persister_ctx \<Rightarrow> tasks \<Rightarrow> (evr_code \<times> evr_persister_ctx \<times> tasks) option" where
  "queue_task_end s result p tasks =
    (if \<not> cnd_signal_ok s then Some (Evr_error, p, tasks)
     else if \<not> mtx_unlock_ok s then Some (Evr_error, p, tasks)
     else Some (result, p, tasks))"

definition evr_persister_queue_task ::
  "bool \<Rightarrow> bool \<Rightarrow> sync \<Rightarrow> nat \<Rightarrow> evr_persister_ctx \<Rightarrow> tasks \<Rightarrow> (evr_code \<times> evr_persister_ctx \<times> tasks) option" where
  "evr_persister_queue_task done_lock done_unlock s t p tasks =
    (if tk_done (tasks t) then None
     else if \<not> done_lock then Some (Evr_error, p, tasks)
     else let tasks1 = tasks(t := (tasks t)\<lparr>tk_done := True\<rparr>) in
       if \<not> mtx_lock_ok s then Some (Evr_error, p, tasks1)
       else let next_writing = evr_persister_ctx_step (pc_writing p) in
         if next_writing = pc_reading p
         then (if \<not> done_unlock then Some (Evr_error, p, tasks1)
               else queue_task_end s Evr_temporary_occupied p (tasks1(t := (tasks1 t)\<lparr>tk_done := False\<rparr>)))
         else queue_task_end s Evr_ok
                (p\<lparr>pc_tasks := (pc_tasks p)[pc_writing p := t], pc_writing := next_writing\<rparr>) tasks1)"

definition evr_persister_wait_for_task :: "bool \<Rightarrow> nat \<Rightarrow> tasks \<Rightarrow> (evr_code \<times> tasks) option" where
  "evr_persister_wait_for_task lock_ok t tasks =
    (if tk_done (tasks t) then None
     else if \<not> lock_ok then Some (Evr_error, tasks)
     else Some (Evr_ok, tasks(t := (tasks t)\<lparr>tk_done := True\<rparr>)))"

definition evr_persister_watch_filter :: "evr_blob_filter \<Rightarrow> bytes \<Rightarrow> bool" where
  "evr_persister_watch_filter f entry =
    (bf_flags_filter f AND mb_flags (mem_modified_blob entry) = bf_flags_filter f)"

section \<open>The worker\<close>

definition worker_take :: "evr_persister_ctx \<Rightarrow> (nat \<times> evr_persister_ctx) option" where
  "worker_take p =
    (if pc_writing p = pc_reading p then None
     else Some (pc_tasks p ! pc_reading p, p\<lparr>pc_reading := evr_persister_ctx_step (pc_reading p)\<rparr>))"

text \<open>
  What the worker does with a task outside of the worker lock. \<open>done_unlock\<close> is the result of the
  unlock of the task, \<open>s0\<close> and \<open>s\<close> those of the calls of \<^verbatim>\<open>evr_notify_send\<close>. A worker that ends
  with an error ends the process.
\<close>

definition worker_process ::
  "'d index_db \<Rightarrow> nat \<Rightarrow> evr_time \<Rightarrow> bytes \<Rightarrow> bool \<Rightarrow> sync \<Rightarrow> (nat \<Rightarrow> sync) \<Rightarrow> nat \<Rightarrow> evr_persister_ctx \<Rightarrow> tasks \<Rightarrow> 'd world \<Rightarrow> queues
   \<Rightarrow> evr_code exec \<times> evr_persister_ctx \<times> tasks \<times> 'd world \<times> queues" where
  "worker_process S max_bucket_size now header_mem done_unlock s0 s t p tasks w h =
    (case evr_glacier_append_blob S max_bucket_size now header_mem (tk_blob (tasks t)) (pc_write_ctx p) w of (x, c1, w1) \<Rightarrow>
       let p1 = p\<lparr>pc_write_ctx := c1\<rparr> in
       case x of
         Ret task_res \<Rightarrow>
          (let tasks1 = tasks(t := (tasks t)\<lparr>tk_result := task_res, tk_last_modified := now\<rparr>) in
           if \<not> done_unlock then (Panic, p1, tasks1, w1, h)
           else let tasks2 = tasks1(t := (tasks1 t)\<lparr>tk_done := False\<rparr>) in
             if task_res \<noteq> Evr_ok then (Ret task_res, p1, tasks2, w1, h)
             else case evr_notify_send s0 s (pc_watchers p)
                 (modified_blob_mem \<lparr>mb_key = take evr_blob_ref_size (wb_key (tk_blob (tasks t))), mb_last_modified = now,
                    mb_flags = wb_flags (tk_blob (tasks t))\<rparr>) (Some evr_persister_watch_filter) h of
               (y, h1) \<Rightarrow> (case y of Ret r \<Rightarrow> if r = Evr_ok then Ret task_res else Panic | _ \<Rightarrow> y, p1, tasks2, w1, h1))
       | _ \<Rightarrow> (x, p1, tasks, w1, h))"

section \<open>Start, stop and watchers\<close>

text \<open>
  The results of the calls of the thread library at the start, and those of \<^verbatim>\<open>evr_create_notify_ctx\<close>.
  A failure after the watchers were created frees them; nobody can have registered until then.
\<close>

record start_calls =
  st_mtx_init :: bool
  st_cnd_init :: bool
  st_notify_mem :: bool
  st_notify_lock :: bool
  st_thrd_create :: bool
  st_free_notify :: "nat \<Rightarrow> sync"

definition modified_blob_size :: nat where "modified_blob_size = 48"

definition start_fail :: "start_calls \<Rightarrow> evr_blob_filter evr_notify_ctx \<Rightarrow> 'd world \<Rightarrow> (evr_code exec \<times> evr_persister_ctx option \<times> 'd world) option" where
  "start_fail st watchers w =
    (case evr_free_notify_ctx (\<lambda>_. watchers) (st_free_notify st) 0 of
       None \<Rightarrow> None
     | Some y \<Rightarrow> Some (if y = Ret Evr_ok then Ret Evr_error else Panic, None, w))"

definition evr_persister_start ::
  "'d index_db \<Rightarrow> start_calls \<Rightarrow> nat list \<Rightarrow> evr_blob_filter list \<Rightarrow> evr_glacier_storage_cfg \<Rightarrow> 'd world
   \<Rightarrow> (evr_code exec \<times> evr_persister_ctx option \<times> 'd world) option" where
  "evr_persister_start S st mem ctxs config w =
    (if \<not> st_mtx_init st then Some (Ret Evr_error, None, w)
     else if \<not> st_cnd_init st then Some (Ret Evr_error, None, w)
     else case evr_create_notify_ctx (st_notify_mem st) (st_notify_lock st) ctxs 8 modified_blob_size of
       None \<Rightarrow> Some (Ret Evr_error, None, w)
     | Some watchers \<Rightarrow>
        (case evr_create_glacier_write_ctx S config w of
           None \<Rightarrow> None
         | Some (x, co, w1) \<Rightarrow>
            (case x of
               Ret r \<Rightarrow>
                (case co of
                   None \<Rightarrow> start_fail st watchers w1
                 | Some c \<Rightarrow>
                    if r \<noteq> Evr_ok then start_fail st watchers w1
                    else if \<not> st_thrd_create st
                    then (case evr_free_glacier_write_ctx c w1 of (y, w2) \<Rightarrow>
                            (case y of Ret _ \<Rightarrow> start_fail st watchers w2 | _ \<Rightarrow> Some (y, None, w2)))
                    else Some (Ret Evr_ok, Some \<lparr>pc_tasks = mem, pc_writing = 0, pc_reading = 0, pc_write_ctx = c,
                           pc_working = True, pc_watchers = watchers\<rparr>, w1))
             | _ \<Rightarrow> Some (x, None, w1))))"

text \<open>
  \<open>joined\<close> is what \<^verbatim>\<open>thrd_join\<close> gives, the result of the worker or a failure, and \<open>c\<close> the write
  context the worker leaves.
\<close>

definition evr_persister_stop ::
  "sync \<Rightarrow> evr_code option \<Rightarrow> evr_persister_ctx \<Rightarrow> (evr_glacier_write_ctx \<times> 'd world) \<Rightarrow> evr_code exec \<times> evr_persister_ctx \<times> 'd world" where
  "evr_persister_stop s joined p cw =
    (let p1 = p\<lparr>pc_working := False\<rparr> in
     if \<not> mtx_lock_ok s then (Ret Evr_error, p1, snd cw)
     else if \<not> cnd_signal_ok s then (Ret Evr_error, p1, snd cw)
     else if \<not> mtx_unlock_ok s then (Ret Evr_error, p1, snd cw)
     else case joined of
       None \<Rightarrow> (Ret Evr_error, p1, snd cw)
     | Some worker_result \<Rightarrow>
        if worker_result \<noteq> Evr_ok then (Ret Evr_error, p1, snd cw)
        else (case evr_free_glacier_write_ctx (fst cw) (snd cw) of (x, w') \<Rightarrow>
          (case x of Ret r \<Rightarrow> if r = Evr_ok then Ret Evr_ok else Ret Evr_error | _ \<Rightarrow> x, p1, w')))"

definition evr_persister_add_watcher ::
  "sync \<Rightarrow> (nat \<times> evr_queue) option \<Rightarrow> evr_persister_ctx \<Rightarrow> evr_blob_filter \<Rightarrow> queues \<Rightarrow> nat option exec \<times> evr_persister_ctx \<times> queues" where
  "evr_persister_add_watcher s new p filt h =
    (case evr_notify_register s new (pc_watchers p) filt h of (x, n, h') \<Rightarrow> (x, p\<lparr>pc_watchers := n\<rparr>, h'))"

definition evr_persister_rm_watcher ::
  "sync \<Rightarrow> sync \<Rightarrow> evr_persister_ctx \<Rightarrow> nat option \<Rightarrow> queues \<Rightarrow> evr_code exec \<times> evr_persister_ctx \<times> queues" where
  "evr_persister_rm_watcher s0 s p msgs h =
    (case evr_notify_unregister s0 s (pc_watchers p) msgs h of (x, n, h') \<Rightarrow> (x, p\<lparr>pc_watchers := n\<rparr>, h'))"

section \<open>Clients and worker interleaved\<close>

datatype worker_pc = Worker_idle | Worker_busy nat | Worker_ended | Worker_dead

text \<open>
  The last two fields are not part of the program: the tasks that were accepted, and what became of
  them, in the order of the steps.
\<close>

record 'd pstate =
  ps_p :: evr_persister_ctx
  ps_tasks :: tasks
  ps_w :: "'d world"
  ps_h :: queues
  ps_pc :: worker_pc
  ps_accepted :: "nat list"
  ps_finished :: "(nat \<times> evr_writing_blob \<times> evr_code) list"

text \<open>What a client that gets the lock of the task reads; a worker that died inside the append never releases it.\<close>

definition task_outcome :: "evr_persister_task \<Rightarrow> evr_code" where
  "task_outcome k = (if tk_done k then Evr_error else tk_result k)"

text \<open>
  \<^verbatim>\<open>client\<close> is what a client does with a task whose lock is free: initialising it, waiting for it,
  reading its result, reusing its memory; \<^verbatim>\<open>observe\<close> is what the observers do with their queues.
\<close>

inductive persister_step :: "'d index_db \<Rightarrow> nat \<Rightarrow> 'd pstate \<Rightarrow> 'd pstate \<Rightarrow> bool" for S max_bucket_size where
  queue: "evr_persister_queue_task True True sync_ok t (ps_p s) (ps_tasks s) = Some (r, p', tasks') \<Longrightarrow>
    persister_step S max_bucket_size s (s\<lparr>ps_p := p', ps_tasks := tasks',
      ps_accepted := if r = Evr_ok then ps_accepted s @ [t] else ps_accepted s\<rparr>)"
| client: "\<not> tk_done (ps_tasks s t) \<Longrightarrow>
    persister_step S max_bucket_size s (s\<lparr>ps_tasks := (ps_tasks s)(t := k)\<rparr>)"
| add_watcher: "evr_persister_add_watcher s0 new (ps_p s) filt (ps_h s) = (x, p', h') \<Longrightarrow>
    persister_step S max_bucket_size s (s\<lparr>ps_p := p', ps_h := h'\<rparr>)"
| rm_watcher: "evr_persister_rm_watcher s0 s1 (ps_p s) msgs (ps_h s) = (x, p', h') \<Longrightarrow>
    persister_step S max_bucket_size s (s\<lparr>ps_p := p', ps_h := h'\<rparr>)"
| observe: "persister_step S max_bucket_size s (s\<lparr>ps_h := h\<rparr>)"
| stop: "persister_step S max_bucket_size s (s\<lparr>ps_p := (ps_p s)\<lparr>pc_working := False\<rparr>\<rparr>)"
| take: "ps_pc s = Worker_idle \<Longrightarrow> pc_working (ps_p s) \<Longrightarrow> worker_take (ps_p s) = Some (t, p') \<Longrightarrow>
    persister_step S max_bucket_size s (s\<lparr>ps_p := p', ps_pc := Worker_busy t\<rparr>)"
| process: "ps_pc s = Worker_busy t \<Longrightarrow> length header_mem = evr_bucket_blob_header_size \<Longrightarrow>
    worker_process S max_bucket_size now header_mem True s0 sn t (ps_p s) (ps_tasks s) (ps_w s) (ps_h s) = (x, p', tasks', w', h') \<Longrightarrow>
    persister_step S max_bucket_size s (s\<lparr>ps_p := p', ps_tasks := tasks', ps_w := w', ps_h := h',
      ps_pc := (case x of Ret _ \<Rightarrow> Worker_idle | _ \<Rightarrow> Worker_dead),
      ps_finished := ps_finished s @ [(t, tk_blob (ps_tasks s t), task_outcome (tasks' t))]\<rparr>)"
| ended: "ps_pc s = Worker_idle \<Longrightarrow> \<not> pc_working (ps_p s) \<Longrightarrow>
    persister_step S max_bucket_size s (s\<lparr>ps_pc := Worker_ended\<rparr>)"

inductive persister_run :: "('d pstate \<Rightarrow> 'd pstate \<Rightarrow> bool) \<Rightarrow> 'd index_db \<Rightarrow> nat \<Rightarrow> 'd pstate \<Rightarrow> 'd pstate \<Rightarrow> bool"
  for good S max_bucket_size where
  here: "persister_run good S max_bucket_size s s"
| further: "persister_run good S max_bucket_size s s1 \<Longrightarrow> persister_step S max_bucket_size s1 s2 \<Longrightarrow> good s1 s2 \<Longrightarrow>
    persister_run good S max_bucket_size s s2"

section \<open>The ring\<close>

definition ring_size :: nat where "ring_size = 33"

definition pring_ok :: "evr_persister_ctx \<Rightarrow> bool" where
  "pring_ok p = (length (pc_tasks p) = ring_size \<and> pc_writing p < ring_size \<and> pc_reading p < ring_size)"

definition pring_len :: "evr_persister_ctx \<Rightarrow> nat" where
  "pring_len p = (pc_writing p + ring_size - pc_reading p) mod ring_size"

definition pring :: "evr_persister_ctx \<Rightarrow> nat list" where
  "pring p = map (\<lambda>k. pc_tasks p ! ((pc_reading p + k) mod ring_size)) [0..<pring_len p]"

lemma length_pring [simp]: "length (pring p) = pring_len p"
  by (simp add: pring_def)

lemma ctx_step_mod: "i < ring_size \<Longrightarrow> evr_persister_ctx_step i = Suc i mod ring_size"
  by (auto simp: evr_persister_ctx_step_def evr_persister_task_queue_length_def ring_size_def)

lemma pring_len_cases:
  "pring_ok p \<Longrightarrow> pring_len p = (if pc_reading p \<le> pc_writing p then pc_writing p - pc_reading p
     else pc_writing p + ring_size - pc_reading p)"
  by (auto simp: pring_len_def pring_ok_def mod_less_double)

lemma pring_bound: "pring_ok p \<Longrightarrow> pring_len p \<le> evr_persister_task_queue_length"
  by (auto simp: pring_len_cases pring_ok_def ring_size_def evr_persister_task_queue_length_def)

lemma pring_put:
  fixes t :: nat
  assumes "pring_ok p" "evr_persister_ctx_step (pc_writing p) \<noteq> pc_reading p"
  defines "p' \<equiv> p\<lparr>pc_tasks := (pc_tasks p)[pc_writing p := t], pc_writing := evr_persister_ctx_step (pc_writing p)\<rparr>"
  shows "pring_ok p' \<and> pring p' = pring p @ [t]"
proof -
  let ?r = "pc_reading p" and ?w = "pc_writing p" and ?n = ring_size
  have b: "length (pc_tasks p) = ?n" "?w < ?n" "?r < ?n" "0 < ?n" using assms(1) by (auto simp: pring_ok_def)
  have st: "evr_persister_ctx_step ?w = Suc ?w mod ?n" using ctx_step_mod b(2) by simp
  have ok: "pring_ok p'" using b st by (simp add: p'_def pring_ok_def)
  have fs: "pc_reading p' = ?r" "pc_writing p' = Suc ?w mod ?n" "pc_tasks p' = (pc_tasks p)[?w := t]" by (simp_all add: p'_def st)
  note c = pring_len_cases [OF assms(1)] and c' = pring_len_cases [OF ok, unfolded fs]
  have len: "pring_len p' = Suc (pring_len p)"
    using c c' b assms(2) st by (cases "Suc ?w = ?n") (auto split: if_splits)
  have old: "?w \<noteq> (?r + k) mod ?n" if "k < pring_len p" for k
    using that c b by (auto simp: mod_less_double split: if_splits)
  have last: "(?r + pring_len p) mod ?n = ?w" using c b by (auto simp: mod_less_double split: if_splits)
  have "pring p' = map (\<lambda>k. pc_tasks p' ! ((?r + k) mod ?n)) [0..<pring_len p] @ [pc_tasks p' ! ((?r + pring_len p) mod ?n)]"
    by (simp add: pring_def len fs)
  also have "\<dots> = pring p @ [t]" using old last b by (simp add: pring_def fs)
  finally show ?thesis using ok by simp
qed

lemma pring_take:
  assumes "pring_ok p" "worker_take p = Some (t, p')"
  shows "pring_ok p' \<and> pring p = t # pring p' \<and> pc_write_ctx p' = pc_write_ctx p"
proof -
  let ?r = "pc_reading p" and ?w = "pc_writing p" and ?n = ring_size
  have b: "?w < ?n" "?r < ?n" "0 < ?n" using assms(1) by (auto simp: pring_ok_def)
  have p': "p' = p\<lparr>pc_reading := Suc ?r mod ?n\<rparr>" "t = pc_tasks p ! ?r" "?w \<noteq> ?r"
    using assms(2) ctx_step_mod [OF b(2)] by (auto simp: worker_take_def split: if_splits)
  have ok: "pring_ok p'" using assms(1) b by (simp add: p'(1) pring_ok_def)
  note c = pring_len_cases [OF assms(1)] and c' = pring_len_cases [OF ok]
  have len: "pring_len p = Suc (pring_len p')"
    using c c' b p'(1,3) by (cases "Suc ?r = ?n") (auto split: if_splits)
  have "pring p = pc_tasks p ! ?r # map (\<lambda>k. pc_tasks p ! ((?r + Suc k) mod ?n)) [0..<pring_len p']"
    using b by (simp add: pring_def len upt_conv_Cons map_Suc_upt [symmetric] comp_def del: upt_Suc)
  moreover have "pring p' = map (\<lambda>k. pc_tasks p ! ((?r + Suc k) mod ?n)) [0..<pring_len p']"
    by (simp add: pring_def p'(1) mod_simps)
  ultimately show ?thesis using ok p' by simp
qed

section \<open>First in, first out\<close>

definition pending :: "'d pstate \<Rightarrow> nat list" where
  "pending s = (case ps_pc s of Worker_busy t \<Rightarrow> [t] | _ \<Rightarrow> []) @ pring (ps_p s)"

definition persister_inv :: "'d pstate \<Rightarrow> bool" where
  "persister_inv s = (pring_ok (ps_p s) \<and> ps_accepted s = map fst (ps_finished s) @ pending s \<and>
     distinct (pending s) \<and> (\<forall>t\<in>set (pending s). tk_done (ps_tasks s t)))"

lemma pring_fields [simp]:
  "pring (p\<lparr>pc_write_ctx := c\<rparr>) = pring p" "pring_ok (p\<lparr>pc_write_ctx := c\<rparr>) = pring_ok p"
  "pring (p\<lparr>pc_watchers := n\<rparr>) = pring p" "pring_ok (p\<lparr>pc_watchers := n\<rparr>) = pring_ok p"
  "pring (p\<lparr>pc_working := b\<rparr>) = pring p" "pring_ok (p\<lparr>pc_working := b\<rparr>) = pring_ok p"
  by (simp_all add: pring_def pring_len_def pring_ok_def)

lemma watcher_fields:
  "evr_persister_add_watcher s0 new p filt h = (x, p', h') \<Longrightarrow> \<exists>n. p' = p\<lparr>pc_watchers := n\<rparr>"
  "evr_persister_rm_watcher s0 s1 p msgs h = (y, p', h') \<Longrightarrow> \<exists>n. p' = p\<lparr>pc_watchers := n\<rparr>"
  by (auto simp: evr_persister_add_watcher_def evr_persister_rm_watcher_def split: prod.splits)

lemma queue_task_cases:
  assumes "evr_persister_queue_task True True sync_ok t p tasks = Some (r, p', tasks')"
  obtains (full) "r = Evr_temporary_occupied" "p' = p" "tasks' = tasks" "\<not> tk_done (tasks t)"
      "evr_persister_ctx_step (pc_writing p) = pc_reading p"
  | (accepted) "r = Evr_ok" "\<not> tk_done (tasks t)" "tasks' = tasks(t := (tasks t)\<lparr>tk_done := True\<rparr>)"
      "evr_persister_ctx_step (pc_writing p) \<noteq> pc_reading p"
      "p' = p\<lparr>pc_tasks := (pc_tasks p)[pc_writing p := t], pc_writing := evr_persister_ctx_step (pc_writing p)\<rparr>"
proof -
  have nd: "\<not> tk_done (tasks t)" using assms by (auto simp: evr_persister_queue_task_def split: if_splits)
  have same: "(tasks t)\<lparr>tk_done := False\<rparr> = tasks t" using nd by (cases "tasks t") simp
  have eq: "tasks(t := (tasks t)\<lparr>tk_done := False\<rparr>) = tasks" by (simp add: same)
  show thesis
  proof (cases "evr_persister_ctx_step (pc_writing p) = pc_reading p")
    case True
    with assms nd eq show ?thesis
      by (intro full) (simp_all add: evr_persister_queue_task_def queue_task_end_def sync_ok_def)
  next
    case False
    with assms nd show ?thesis
      by (intro accepted) (simp_all add: evr_persister_queue_task_def queue_task_end_def sync_ok_def Let_def)
  qed
qed

lemma worker_process_effect:
  assumes "worker_process S max_bucket_size now hm True s0 sn t p tasks w h = (x, p', tasks', w', h')"
  obtains y c where
    "evr_glacier_append_blob S max_bucket_size now hm (tk_blob (tasks t)) (pc_write_ctx p) w = (y, c, w')"
    "p' = p\<lparr>pc_write_ctx := c\<rparr>" "\<forall>u. u \<noteq> t \<longrightarrow> tasks' u = tasks u" "tk_blob (tasks' t) = tk_blob (tasks t)"
    "(\<exists>r. y = Ret r \<and> tk_result (tasks' t) = r \<and> \<not> tk_done (tasks' t)) \<or> tasks' = tasks"
proof -
  obtain y c w1 where a: "evr_glacier_append_blob S max_bucket_size now hm (tk_blob (tasks t)) (pc_write_ctx p) w = (y, c, w1)"
    using prod_cases3 by blast
  show thesis using assms a
    by (cases y) (auto simp: worker_process_def Let_def intro!: that split: if_splits prod.splits exec.splits)
qed

lemma persister_step_keeps:
  assumes "persister_step S max_bucket_size s s'" "persister_inv s"
  shows "persister_inv s'"
  using assms
proof (cases rule: persister_step.cases)
  case (queue t r p' tasks')
  from queue(2) show ?thesis
  proof (cases rule: queue_task_cases)
    case full
    with queue(1) assms(2) show ?thesis by (simp add: persister_inv_def pending_def)
  next
    case accepted
    have ok: "pring_ok (ps_p s)" using assms(2) by (simp add: persister_inv_def)
    from pring_put [OF ok accepted(4), of t] accepted(5) have "pring_ok p'" "pring p' = pring (ps_p s) @ [t]" by simp_all
    moreover have "t \<notin> set (pending s)" using assms(2) accepted(2) by (auto simp: persister_inv_def)
    ultimately show ?thesis using queue(1) assms(2) accepted(1,3)
      by (auto simp: persister_inv_def pending_def split: worker_pc.splits)
  qed
next
  case (client t k)
  have "t \<notin> set (pending s)" using assms(2) client(2) by (auto simp: persister_inv_def)
  with client(1) assms(2) show ?thesis by (auto simp: persister_inv_def pending_def split: worker_pc.splits)
next
  case (take t p')
  have ok: "pring_ok (ps_p s)" using assms(2) by (simp add: persister_inv_def)
  from pring_take [OF ok take(4)] take(1,2) assms(2) show ?thesis by (auto simp: persister_inv_def pending_def)
next
  case (process t hm now s0 sn x p' tasks' w' h')
  from process(4) obtain c where
    p': "p' = (ps_p s)\<lparr>pc_write_ctx := c\<rparr>" "\<forall>u. u \<noteq> t \<longrightarrow> tasks' u = ps_tasks s u" by (rule worker_process_effect)
  with process(1,2) assms(2) show ?thesis by (auto simp: persister_inv_def pending_def split: exec.splits)
qed (auto dest!: watcher_fields simp: persister_inv_def pending_def split: worker_pc.splits)

lemma persister_run_keeps:
  "persister_run good S max_bucket_size s s' \<Longrightarrow> persister_inv s \<Longrightarrow> persister_inv s'"
  by (induction rule: persister_run.induct) (auto intro: persister_step_keeps)

section \<open>What was acknowledged is stored\<close>

text \<open>
  The steps of a run without failures of the disk: what is queued is a blob in chunks whose
  reference and bytes satisfy \<open>Q\<close>, the bucket of the writer is a file, and an append that is refused
  has changed nothing.
\<close>

definition queued_blob :: "(evr_blob_ref \<Rightarrow> bytes \<Rightarrow> bool) \<Rightarrow> evr_writing_blob \<Rightarrow> bool" where
  "queued_blob Q blob = (\<exists>b. blob_holds blob b \<and> Q (wb_key blob) b)"

definition clean_step :: "(evr_blob_ref \<Rightarrow> bytes \<Rightarrow> bool) \<Rightarrow> 'd pstate \<Rightarrow> 'd pstate \<Rightarrow> bool" where
  "clean_step Q s s' =
    ((\<forall>t. ps_accepted s' = ps_accepted s @ [t] \<longrightarrow> queued_blob Q (tk_blob (ps_tasks s t))) \<and>
     (\<forall>x. ps_finished s' = ps_finished s @ [x] \<longrightarrow>
        (if snd (snd x) = Evr_ok
         then (\<exists>f. wc_bucket_f (pc_write_ctx (ps_p s')) = Some f \<and> fd_id f \<noteq> Stdout) \<and>
              Suc (wc_bucket_index (pc_write_ctx (ps_p s))) < 2 ^ 64
         else pc_write_ctx (ps_p s') = pc_write_ctx (ps_p s) \<and> ps_w s' = ps_w s)))"

definition stored_inv :: "(evr_blob_ref \<Rightarrow> bytes \<Rightarrow> bool) \<Rightarrow> ('d \<Rightarrow> bytes \<Rightarrow> blob_row option) \<Rightarrow> 'd world \<Rightarrow> 'd pstate \<Rightarrow> bool" where
  "stored_inv Q blobs w0 s =
    (glacier_inv blobs (pc_write_ctx (ps_p s)) (ps_w s) \<and>
     (\<forall>t\<in>set (pending s). queued_blob Q (tk_blob (ps_tasks s t))) \<and>
     (\<forall>k f d. glacier_abs blobs (ps_w s) k = Some (f, d) \<longrightarrow> Q k d) \<and>
     (\<forall>k v. glacier_abs blobs w0 k = Some v \<longrightarrow> glacier_abs blobs (ps_w s) k = Some v) \<and>
     (\<forall>(t, blob, r)\<in>set (ps_finished s). r = Evr_ok \<longrightarrow> glacier_abs blobs (ps_w s) (wb_key blob) \<noteq> None))"

lemma stored_inv_same:
  assumes "stored_inv Q blobs w0 s" "ps_w s' = ps_w s" "pc_write_ctx (ps_p s') = pc_write_ctx (ps_p s)"
    "ps_finished s' = ps_finished s" "\<forall>t\<in>set (pending s'). queued_blob Q (tk_blob (ps_tasks s' t))"
  shows "stored_inv Q blobs w0 s'"
  using assms by (simp add: stored_inv_def)

context sqlite_index
begin

lemma clean_step_stored:
  assumes "persister_step S max_bucket_size s s'" "clean_step Q s s'" "persister_inv s" "stored_inv Q blobs w0 s"
    "max_bucket_size < 2 ^ 31"
  shows "stored_inv Q blobs w0 s'"
  using assms(1)
proof (cases rule: persister_step.cases)
  case (queue t r p' tasks')
  from queue(2) show ?thesis
  proof (cases rule: queue_task_cases)
    case full
    with queue(1) assms(4) show ?thesis by (intro stored_inv_same [OF assms(4)]) (auto simp: stored_inv_def pending_def)
  next
    case accepted
    have ok: "pring_ok (ps_p s)" using assms(3) by (simp add: persister_inv_def)
    from pring_put [OF ok accepted(4), of t] accepted(5) have p': "pring p' = pring (ps_p s) @ [t]" by simp
    have "queued_blob Q (tk_blob (ps_tasks s t))" using assms(2) queue(1) accepted(1) by (simp add: clean_step_def)
    with queue(1) assms(4) accepted p' show ?thesis
      by (intro stored_inv_same [OF assms(4)]) (auto simp: stored_inv_def pending_def split: worker_pc.splits)
  qed
next
  case (client t k)
  have "t \<notin> set (pending s)" using assms(3) client(2) by (auto simp: persister_inv_def)
  with client(1) assms(4) show ?thesis
    by (intro stored_inv_same [OF assms(4)]) (auto simp: stored_inv_def pending_def split: worker_pc.splits)
next
  case (take t p')
  have ok: "pring_ok (ps_p s)" using assms(3) by (simp add: persister_inv_def)
  from pring_take [OF ok take(4)] take(1,2) assms(4) show ?thesis
    by (intro stored_inv_same [OF assms(4)]) (auto simp: stored_inv_def pending_def)
next
  case (process t hm now s0 sn x p' tasks' w' h')
  let ?c = "pc_write_ctx (ps_p s)" and ?blob = "tk_blob (ps_tasks s t)"
  from process(4) obtain y c where
    a: "evr_glacier_append_blob S max_bucket_size now hm ?blob ?c (ps_w s) = (y, c, w')"
    "p' = (ps_p s)\<lparr>pc_write_ctx := c\<rparr>" "\<forall>u. u \<noteq> t \<longrightarrow> tasks' u = ps_tasks s u"
    "(\<exists>r. y = Ret r \<and> tk_result (tasks' t) = r \<and> \<not> tk_done (tasks' t)) \<or> tasks' = ps_tasks s"
    by (rule worker_process_effect)
  have held: "tk_done (ps_tasks s t)" using assms(3) process(2) by (simp add: persister_inv_def pending_def)
  have pend: "\<forall>t\<in>set (pring (ps_p s)). queued_blob Q (tk_blob (tasks' t))"
  proof
    fix u assume "u \<in> set (pring (ps_p s))"
    moreover have "u \<noteq> t" using assms(3) process(2) calculation by (auto simp: persister_inv_def pending_def)
    ultimately show "queued_blob Q (tk_blob (tasks' u))" using assms(4) a(3) by (auto simp: stored_inv_def pending_def)
  qed
  have pend': "set (pending s') = set (pring (ps_p s))" using process(1) a(2) by (auto simp: pending_def split: exec.splits)
  note cl = assms(2) [unfolded clean_step_def, THEN conjunct2, rule_format, of "(t, ?blob, task_outcome (tasks' t))"]
  show ?thesis
  proof (cases "task_outcome (tasks' t) = Evr_ok")
    case True
    from assms(4) process(2) obtain b where b: "blob_holds ?blob b" "Q (wb_key ?blob) b"
      by (auto simp: stored_inv_def pending_def queued_blob_def)
    have gi: "glacier_inv blobs ?c (ps_w s)" using assms(4) by (simp add: stored_inv_def)
    have ok: "evr_glacier_append_blob S max_bucket_size now hm ?blob ?c (ps_w s) = (Ret Evr_ok, c, w')"
      using a(1,4) True held by (auto simp: task_outcome_def split: if_splits)
    have "(\<exists>f. wc_bucket_f c = Some f \<and> fd_id f \<noteq> Stdout) \<and> Suc (wc_bucket_index ?c) < 2 ^ 64"
      using cl True process(1) a(2) by simp
    from append_blob_ok [OF gi ok b(1) process(3) assms(5)] this have
      g: "glacier_inv blobs c w'" "glacier_abs blobs w' = map_append (glacier_abs blobs (ps_w s)) (wb_key ?blob) (wb_flags ?blob, b)"
      by auto
    have keep: "glacier_abs blobs (ps_w s) k = Some v \<Longrightarrow> glacier_abs blobs w' k = Some v" for k v
      using g(2) by (auto simp: map_append_def)
    have new: "glacier_abs blobs w' (wb_key ?blob) \<noteq> None" using g(2) by (auto simp: map_append_def)
    have fin: "ps_finished s' = ps_finished s @ [(t, ?blob, Evr_ok)]" using process(1) True by simp
    have "\<forall>(t, blob, r)\<in>set (ps_finished s'). r = Evr_ok \<longrightarrow> glacier_abs blobs w' (wb_key blob) \<noteq> None"
      using assms(4) keep new by (fastforce simp: stored_inv_def fin)
    moreover have "\<forall>k f d. glacier_abs blobs w' k = Some (f, d) \<longrightarrow> Q k d"
      using g(2) b(2) assms(4) by (auto simp: map_append_def stored_inv_def split: if_splits)
    ultimately show ?thesis using g(1) keep assms(4) pend pend' process(1) a(2) by (auto simp: stored_inv_def)
  next
    case False
    then have "pc_write_ctx (ps_p s') = ?c" "ps_w s' = ps_w s" using cl process(1) by simp_all
    with assms(4) pend pend' process(1) False show ?thesis by (auto simp: stored_inv_def)
  qed
qed (use assms(4) in \<open>auto dest!: watcher_fields simp: stored_inv_def pending_def split: worker_pc.splits\<close>)

lemma clean_run_stored:
  assumes "persister_run (clean_step Q) S max_bucket_size s s'" "persister_inv s" "stored_inv Q blobs w0 s" "max_bucket_size < 2 ^ 31"
  shows "stored_inv Q blobs w0 s'"
  using assms
  by (induction rule: persister_run.induct) (auto intro: clean_step_stored persister_run_keeps)

end

section \<open>The result a client reads\<close>

text \<open>Nobody else touches a task whose lock is free, and what its client then reads is what became of it.\<close>

definition own_step :: "nat \<Rightarrow> 'd pstate \<Rightarrow> 'd pstate \<Rightarrow> bool" where
  "own_step t s s' = (\<not> tk_done (ps_tasks s t) \<longrightarrow> ps_tasks s' t = ps_tasks s t)"

definition own_inv :: "nat \<Rightarrow> evr_writing_blob \<Rightarrow> 'd pstate \<Rightarrow> bool" where
  "own_inv t blob s = (tk_blob (ps_tasks s t) = blob \<and>
     (\<not> tk_done (ps_tasks s t) \<longrightarrow> (t, blob, tk_result (ps_tasks s t)) \<in> set (ps_finished s)))"

lemma own_step_keeps:
  assumes "persister_step S max_bucket_size s s'" "own_step t s s'" "own_inv t blob s"
  shows "own_inv t blob s'"
  using assms
proof (cases rule: persister_step.cases)
  case (queue u r p' tasks')
  from queue(2) show ?thesis
  proof (cases rule: queue_task_cases)
    case full
    with queue(1) assms(3) show ?thesis by (simp add: own_inv_def)
  next
    case accepted
    with queue(1) assms(2,3) show ?thesis by (cases "u = t") (auto simp: own_inv_def own_step_def)
  qed
next
  case (process u hm now s0 sn x p' tasks' w' h')
  from process(4) obtain y where "\<forall>v. v \<noteq> u \<longrightarrow> tasks' v = ps_tasks s v" "tk_blob (tasks' u) = tk_blob (ps_tasks s u)"
    "(\<exists>r. y = Ret r \<and> tk_result (tasks' u) = r \<and> \<not> tk_done (tasks' u)) \<or> tasks' = ps_tasks s"
    by (rule worker_process_effect)
  with process(1) assms(3) show ?thesis by (cases "u = t") (auto simp: own_inv_def task_outcome_def)
qed (auto simp: own_inv_def own_step_def split: if_splits)

lemma own_run_keeps:
  "persister_run good S max_bucket_size s s' \<Longrightarrow> (\<And>a b. good a b \<Longrightarrow> own_step t a b) \<Longrightarrow> own_inv t blob s \<Longrightarrow> own_inv t blob s'"
  by (induction rule: persister_run.induct) (auto intro: own_step_keeps)

lemma persister_run_trans:
  "persister_run good S max_bucket_size s1 s2 \<Longrightarrow> persister_run good S max_bucket_size s s1 \<Longrightarrow> persister_run good S max_bucket_size s s2"
  by (induction rule: persister_run.induct) (auto intro: persister_run.further)

lemma run_mono: "persister_run good S max_bucket_size s s' \<Longrightarrow> (\<And>a b. good a b \<Longrightarrow> good' a b) \<Longrightarrow> persister_run good' S max_bucket_size s s'"
  by (induction rule: persister_run.induct) (auto intro: persister_run.intros)

section \<open>The worker makes progress\<close>

lemma length_modified_blob_mem: "length (mb_key m) = evr_blob_ref_size \<Longrightarrow> length (modified_blob_mem m) = modified_blob_size"
  by (simp add: modified_blob_mem_def modified_blob_size_def evr_layout)

lemma pring_worker_take:
  assumes "pring_ok p" "pring p = t # ts"
  obtains p' where "worker_take p = Some (t, p')" "pring p' = ts" "pring_ok p'"
    "p' = p\<lparr>pc_reading := evr_persister_ctx_step (pc_reading p)\<rparr>"
proof -
  have "pc_writing p \<noteq> pc_reading p" using assms by (auto simp: pring_def pring_len_def pring_ok_def)
  then obtain u p' where u: "worker_take p = Some (u, p')" "p' = p\<lparr>pc_reading := evr_persister_ctx_step (pc_reading p)\<rparr>"
    by (simp add: worker_take_def)
  from pring_take [OF assms(1) u(1)] assms(2) u that show thesis by simp
qed

text \<open>Nothing stands in the way of the next task: the calls succeed, its blob is whole and fits, and the next bucket is free.\<close>

definition ready :: "('d \<Rightarrow> bytes \<Rightarrow> blob_row option) \<Rightarrow> ('d \<Rightarrow> 32 word \<Rightarrow> 32 word option) \<Rightarrow> nat \<Rightarrow> evr_writing_blob \<Rightarrow> 'd pstate \<Rightarrow> bool" where
  "ready blobs buckets max_bucket_size blob s =
    (let c = pc_write_ctx (ps_p s); w = ps_w s in
     glacier_inv blobs c w \<and> calls_ok w \<and> (\<exists>b. blob_holds blob b) \<and>
     evr_bucket_header_size + (evr_bucket_blob_header_size + wb_size blob) \<le> max_bucket_size \<and>
     Suc (wc_bucket_index c) < 2 ^ 64 \<and> w_files w (bucket_file (Suc (wc_bucket_index c))) = None \<and>
     buckets (w_db w) (word_of_nat (Suc (wc_bucket_index c))) = None \<and>
     notify_inv (pc_watchers (ps_p s)) (ps_h s) \<and> nt_msg_size (pc_watchers (ps_p s)) = modified_blob_size)"

context sqlite_reliable
begin

lemma worker_processes:
  assumes "ready blobs buckets max_bucket_size blob s" "tk_blob (ps_tasks s t) = blob"
  obtains c w' f h' where "worker_process S max_bucket_size now (replicate 42 0) True sync_ok (\<lambda>_. sync_ok) t (ps_p s) (ps_tasks s) (ps_w s) (ps_h s) =
     (Ret Evr_ok, (ps_p s)\<lparr>pc_write_ctx := c\<rparr>,
      (ps_tasks s)(t := (ps_tasks s t)\<lparr>tk_result := Evr_ok, tk_last_modified := now, tk_done := False\<rparr>), w', h')"
    "wc_bucket_f c = Some f" "fd_id f \<noteq> Stdout"
proof -
  let ?c = "pc_write_ctx (ps_p s)" and ?w = "ps_w s" and ?nt = "pc_watchers (ps_p s)"
  from assms(1) obtain b where b: "glacier_inv blobs ?c ?w" "calls_ok ?w" "blob_holds blob b"
    "evr_bucket_header_size + (evr_bucket_blob_header_size + wb_size blob) \<le> max_bucket_size"
    "w_files ?w (bucket_file (Suc (wc_bucket_index ?c))) = None" "buckets (w_db ?w) (word_of_nat (Suc (wc_bucket_index ?c))) = None"
    and nt: "notify_inv ?nt (ps_h s)" "nt_msg_size ?nt = modified_blob_size" by (auto simp: ready_def Let_def)
  have hm: "length (replicate 42 0 :: bytes) = evr_bucket_blob_header_size" by (simp add: evr_layout)
  from append_blob_succeeds [OF b(1,2,3) hm b(4,5,6), of now] obtain c' w' f where
    a: "evr_glacier_append_blob S max_bucket_size now (replicate 42 0) blob ?c ?w = (Ret Evr_ok, c', w')"
    "wc_bucket_f c' = Some f" "fd_id f \<noteq> Stdout" by blast
  let ?m = "modified_blob_mem \<lparr>mb_key = take evr_blob_ref_size (wb_key blob), mb_last_modified = now, mb_flags = wb_flags blob\<rparr>"
  have "length ?m = modified_blob_size" using b(3) by (intro length_modified_blob_mem) (simp add: blob_holds_def)
  with nt have "distinct (obs_addrs (nt_observers ?nt))"
    "\<forall>a\<in>set (obs_addrs (nt_observers ?nt)). \<exists>q. ps_h s a = Some q \<and> queue_inv q \<and> q_item_size q = length ?m"
    by (auto simp: notify_inv_def)
  from notify_send_loop_effect [OF this, of "Some evr_persister_watch_filter" 0] obtain h' where
    "notify_send_loop (\<lambda>_. sync_ok) (Some evr_persister_watch_filter) ?m 0 (nt_observers ?nt) Evr_ok (ps_h s) = (Ret Evr_ok, h')" by blast
  then have "evr_notify_send sync_ok (\<lambda>_. sync_ok) ?nt ?m (Some evr_persister_watch_filter) (ps_h s) = (Ret Evr_ok, h')"
    by (simp add: evr_notify_send_def sync_ok_def)
  then show thesis using a assms(2) by (intro that) (simp_all add: worker_process_def Let_def)
qed

lemma worker_progress:
  assumes "ready blobs buckets max_bucket_size (tk_blob (ps_tasks s t)) s" "persister_inv s" "pring (ps_p s) = t # ts"
    "ps_pc s = Worker_idle" "pc_working (ps_p s)"
  obtains s1 s2 where "persister_step S max_bucket_size s s1" "persister_step S max_bucket_size s1 s2"
    "clean_step Q s s1" "clean_step Q s1 s2" "own_step t s s1" "own_step t s1 s2"
    "ps_pc s2 = Worker_idle" "pring (ps_p s2) = ts" "ps_finished s2 = ps_finished s @ [(t, tk_blob (ps_tasks s t), Evr_ok)]"
    "\<not> tk_done (ps_tasks s2 t)" "tk_result (ps_tasks s2 t) = Evr_ok"
proof -
  have ok: "pring_ok (ps_p s)" and held: "tk_done (ps_tasks s t)"
    using assms(2,3) by (auto simp: persister_inv_def pending_def assms(4))
  obtain p' where p': "worker_take (ps_p s) = Some (t, p')" "pring p' = ts" "p' = (ps_p s)\<lparr>pc_reading := evr_persister_ctx_step (pc_reading (ps_p s))\<rparr>"
    using pring_worker_take [OF ok assms(3)] by metis
  define s1 where "s1 = s\<lparr>ps_p := p', ps_pc := Worker_busy t\<rparr>"
  have st1: "persister_step S max_bucket_size s s1" unfolding s1_def by (rule persister_step.take [OF assms(4,5) p'(1)])
  have "ready blobs buckets max_bucket_size (tk_blob (ps_tasks s t)) s1" using assms(1) by (simp add: ready_def s1_def p'(3))
  then obtain c w' f h' where wp: "worker_process S max_bucket_size 5 (replicate 42 0) True sync_ok (\<lambda>_. sync_ok) t (ps_p s1) (ps_tasks s1)
      (ps_w s1) (ps_h s1) = (Ret Evr_ok, (ps_p s1)\<lparr>pc_write_ctx := c\<rparr>,
      (ps_tasks s1)(t := (ps_tasks s1 t)\<lparr>tk_result := Evr_ok, tk_last_modified := 5, tk_done := False\<rparr>), w', h')"
    "wc_bucket_f c = Some f" "fd_id f \<noteq> Stdout"
    by (rule worker_processes) (simp add: s1_def)
  have hm: "length (replicate 42 0 :: bytes) = evr_bucket_blob_header_size" by (simp add: evr_layout)
  have busy: "ps_pc s1 = Worker_busy t" by (simp add: s1_def)
  note st2 = persister_step.process [OF busy hm wp(1)]
  have idx: "Suc (wc_bucket_index (pc_write_ctx (ps_p s))) < 2 ^ 64" using assms(1) by (simp add: ready_def Let_def)
  have cl2: "clean_step Q s1 (s1\<lparr>ps_p := (ps_p s1)\<lparr>pc_write_ctx := c\<rparr>, ps_tasks := T, ps_w := w', ps_h := h', ps_pc := x,
      ps_finished := ps_finished s1 @ [(t, tk_blob (ps_tasks s1 t), Evr_ok)]\<rparr>)" for T x
    using wp(2,3) idx by (simp add: clean_step_def s1_def p'(3))
  show thesis
    using st1 st2 cl2 held p'(2,3)
    by (intro that [OF st1 st2]) (simp_all add: clean_step_def own_step_def s1_def task_outcome_def)
qed

end

section \<open>Properties\<close>

definition fresh_persister :: "'d pstate \<Rightarrow> bool" where
  "fresh_persister s = (length (pc_tasks (ps_p s)) = evr_persister_task_queue_length + 1 \<and> pc_writing (ps_p s) = 0 \<and>
     pc_reading (ps_p s) = 0 \<and> ps_pc s = Worker_idle \<and> ps_accepted s = [] \<and> ps_finished s = [])"

lemma fresh_persister_inv: "fresh_persister s \<Longrightarrow> persister_inv s \<and> pending s = []"
  by (simp add: fresh_persister_def persister_inv_def pending_def pring_ok_def pring_def pring_len_def ring_size_def
      evr_persister_task_queue_length_def)

definition demo_persister :: "table_db pstate" where
  "demo_persister = \<lparr>
     ps_p = \<lparr>pc_tasks = replicate 33 0, pc_writing = 0, pc_reading = 0, pc_write_ctx = demo_ctx, pc_working = True,
       pc_watchers = \<lparr>nt_observers = [], nt_msgs_len_exp = 8, nt_msg_size = 48\<rparr>\<rparr>,
     ps_tasks = (\<lambda>_. \<lparr>tk_blob = demo_blob, tk_done = False, tk_result = Evr_error, tk_last_modified = 0\<rparr>),
     ps_w = demo_world [], ps_h = Map.empty, ps_pc = Worker_idle, ps_accepted = [], ps_finished = []\<rparr>"

definition demo_queued :: "table_db pstate" where
  "demo_queued = demo_persister\<lparr>
     ps_p := (ps_p demo_persister)\<lparr>pc_tasks := (replicate 33 0)[0 := 7], pc_writing := 1\<rparr>,
     ps_tasks := (ps_tasks demo_persister)(7 := (ps_tasks demo_persister 7)\<lparr>tk_done := True\<rparr>), ps_accepted := [7]\<rparr>"

lemma demo_persister_fresh: "fresh_persister demo_persister"
  by (simp add: fresh_persister_def demo_persister_def evr_persister_task_queue_length_def)

lemma demo_queue_step: "persister_step table_ops 1000 demo_persister demo_queued"
proof -
  have q: "evr_persister_queue_task True True sync_ok 7 (ps_p demo_persister) (ps_tasks demo_persister) =
      Some (Evr_ok, ps_p demo_queued, ps_tasks demo_queued)"
    by (simp add: evr_persister_queue_task_def queue_task_end_def sync_ok_def evr_persister_ctx_step_def Let_def
        evr_persister_task_queue_length_def demo_persister_def demo_queued_def)
  from persister_step.queue [OF q, of table_ops 1000] show ?thesis by (simp add: demo_queued_def demo_persister_def)
qed

lemma demo_queued_facts:
  "ready table_find table_bucket 1000 (tk_blob (ps_tasks demo_queued 7)) demo_queued" "persister_inv demo_queued"
  "pring (ps_p demo_queued) = 7 # []" "ps_pc demo_queued = Worker_idle" "pc_working (ps_p demo_queued)"
proof -
  show "ready table_find table_bucket 1000 (tk_blob (ps_tasks demo_queued 7)) demo_queued"
    using demo_inv [of "[]"] demo_side(1-5) demo_blob_holds
    by (auto simp: ready_def Let_def demo_queued_def demo_persister_def notify_inv_def modified_blob_size_def)
  have "persister_inv demo_persister" using fresh_persister_inv demo_persister_fresh by blast
  then show "persister_inv demo_queued" by (rule persister_step_keeps [OF demo_queue_step])
qed (simp_all add: demo_queued_def demo_persister_def pring_def pring_len_def ring_size_def)

text \<open>
  The persister serves its clients in order. Whatever clients, watchers and worker interleave,
  the accepted tasks are the finished ones followed by the one the worker holds and those in the ring,
  in the order they were accepted; at most 32 wait in the ring, none twice, and the \<^verbatim>\<open>done\<close>
  lock of each task that is not finished is held, so that a client that waits for it waits.
\<close>

theorem persister_serves_in_order:
  assumes "fresh_persister s" "persister_run (\<lambda>_ _. True) S max_bucket_size s s'"
  shows "ps_accepted s' = map fst (ps_finished s') @ pending s' \<and> distinct (pending s') \<and>
    length (pring (ps_p s')) \<le> 32 \<and> (\<forall>t\<in>set (pending s'). evr_persister_wait_for_task True t (ps_tasks s') = None)"
  using persister_run_keeps [OF assms(2)] fresh_persister_inv [OF assms(1)] pring_bound [of "ps_p s'"]
  by (auto simp: persister_inv_def evr_persister_wait_for_task_def evr_persister_task_queue_length_def)

theorem persister_serves_in_order_witness:
  "persister_run (\<lambda>_ _. True) table_ops 1000 demo_persister demo_queued \<and> [7] = map fst (ps_finished demo_queued) @ pending demo_queued \<and>
    evr_persister_wait_for_task True 7 (ps_tasks demo_queued) = None"
proof -
  have run: "persister_run (\<lambda>_ _. True) table_ops 1000 demo_persister demo_queued"
    by (intro persister_run.further [OF persister_run.here demo_queue_step]) simp
  have f: "ps_accepted demo_queued = [7]" "ps_finished demo_queued = []"
    by (simp_all add: demo_queued_def demo_persister_def)
  from persister_serves_in_order [OF demo_persister_fresh run] run f show ?thesis
    by (metis append_Nil list.map(1) list.set_intros(1))
qed

text \<open>
  C38: what the persister acknowledges is stored. In every run in which each queued blob is whole, the
  bucket of the writer after an append that succeeded is a file and not the standard output that a failed opening gives, and a
  refused append changed nothing, each finished task with
  the result \<^verbatim>\<open>evr_ok\<close> has its reference in the glacier, every blob that was there before the run is
  still there with its flags and bytes, and the invariant of the glacier holds. What holds of the
  reference and the bytes of each queued blob, such as that one is the digest of the other, holds of all that is stored.
\<close>

theorem persister_acknowledged_is_stored:
  assumes "sqlite_index S blobs buckets" "fresh_persister s" "glacier_inv blobs (pc_write_ctx (ps_p s)) (ps_w s)"
    "\<forall>k f d. glacier_abs blobs (ps_w s) k = Some (f, d) \<longrightarrow> Q k d"
    "max_bucket_size < 2 ^ 31" "persister_run (clean_step Q) S max_bucket_size s s'"
  shows "(\<forall>k f d. glacier_abs blobs (ps_w s') k = Some (f, d) \<longrightarrow> Q k d) \<and> glacier_inv blobs (pc_write_ctx (ps_p s')) (ps_w s') \<and>
    (\<forall>k v. glacier_abs blobs (ps_w s) k = Some v \<longrightarrow> glacier_abs blobs (ps_w s') k = Some v) \<and>
    (\<forall>(t, blob, r)\<in>set (ps_finished s'). r = Evr_ok \<longrightarrow> glacier_abs blobs (ps_w s') (wb_key blob) \<noteq> None)"
proof -
  note f = fresh_persister_inv [OF assms(2)]
  have "stored_inv Q blobs (ps_w s) s" using f assms(2-4) by (simp add: stored_inv_def fresh_persister_def)
  from sqlite_index.clean_run_stored [OF assms(1,6) conjunct1 [OF f] this assms(5)] show ?thesis
    by (simp add: stored_inv_def)
qed

theorem persister_acknowledged_is_stored_witness:
  "\<exists>s'. persister_run (clean_step (\<lambda>k d. length d = 3)) table_ops 1000 demo_persister s' \<and> ps_finished s' = [(7, demo_blob, Evr_ok)] \<and>
    glacier_abs table_find (ps_w s') (replicate 28 9) \<noteq> None"
proof -
  let ?Q = "\<lambda>k d. length d = 3"
  from tbl.worker_progress [OF demo_queued_facts] obtain s1 s2 where
    s2: "persister_step table_ops 1000 demo_queued s1" "persister_step table_ops 1000 s1 s2"
    "clean_step ?Q demo_queued s1" "clean_step ?Q s1 s2" "ps_finished s2 = ps_finished demo_queued @ [(7, tk_blob (ps_tasks demo_queued 7), Evr_ok)]"
    by metis
  have cl: "clean_step ?Q demo_persister demo_queued"
    using demo_blob_holds by (auto simp: queued_blob_def clean_step_def demo_queued_def demo_persister_def)
  have run: "persister_run (clean_step ?Q) table_ops 1000 demo_persister s2"
    using persister_run.here [of "clean_step ?Q"] demo_queue_step cl s2(1-4) by (blast intro: persister_run.further)
  have fin: "ps_finished s2 = [(7, demo_blob, Evr_ok)]" using s2(5) by (simp add: demo_queued_def demo_persister_def)
  have "glacier_inv table_find (pc_write_ctx (ps_p demo_persister)) (ps_w demo_persister)"
    by (simp add: demo_persister_def demo_inv)
  from persister_acknowledged_is_stored [OF tbl.sqlite_index_axioms demo_persister_fresh this _ _ run] run fin demo_side(7,8)
  show ?thesis by (auto simp: demo_persister_def)
qed

text \<open>
  C39: the queue of the persister is full exactly when 32 tasks wait. A task whose lock is free is
  then refused with \<^verbatim>\<open>evr_temporary_occupied\<close>, its lock is free again and nothing else has changed;
  otherwise it is accepted behind the others and its lock is held.
\<close>

theorem persister_queue_bounded:
  assumes "pring_ok p" "\<not> tk_done (tasks t)"
  shows "\<exists>r p' tasks'. evr_persister_queue_task True True sync_ok t p tasks = Some (r, p', tasks') \<and>
    (if length (pring p) = 32 then r = Evr_temporary_occupied \<and> p' = p \<and> tasks' = tasks
     else r = Evr_ok \<and> pring p' = pring p @ [t] \<and> pring_ok p' \<and> tk_done (tasks' t))"
proof -
  have "evr_persister_queue_task True True sync_ok t p tasks \<noteq> None"
    using assms(2) by (simp add: evr_persister_queue_task_def queue_task_end_def sync_ok_def Let_def)
  then obtain r p' tasks' where q: "evr_persister_queue_task True True sync_ok t p tasks = Some (r, p', tasks')" by auto
  have full: "length (pring p) = 32 \<longleftrightarrow> evr_persister_ctx_step (pc_writing p) = pc_reading p"
    using assms(1) by (auto simp: pring_len_cases pring_ok_def ring_size_def evr_persister_ctx_step_def
        evr_persister_task_queue_length_def)
  from q show ?thesis
  proof (cases rule: queue_task_cases)
    case full: full
    with q \<open>length (pring p) = 32 \<longleftrightarrow> _\<close> show ?thesis by simp
  next
    case accepted
    with q full pring_put [OF assms(1) accepted(4), of t] show ?thesis by simp
  qed
qed

theorem persister_queue_bounded_witness:
  "\<exists>r p' tasks'. evr_persister_queue_task True True sync_ok 7 (ps_p demo_persister) (ps_tasks demo_persister) =
      Some (r, p', tasks') \<and> r = Evr_ok \<and> pring p' = [7]"
proof -
  have e: "pring (ps_p demo_persister) = []" "pring_ok (ps_p demo_persister)" "\<not> tk_done (ps_tasks demo_persister 7)"
    by (simp_all add: demo_persister_def pring_def pring_len_def pring_ok_def ring_size_def)
  from persister_queue_bounded [OF e(2), of "ps_tasks demo_persister" 7, OF e(3)] e(1) show ?thesis by fastforce
qed

text \<open>
  The worker of the persister makes progress. In a state in which a task is at the head of the
  ring, the worker is idle and was not stopped, nothing fails, the blob is whole and fits and the next
  bucket is free, two steps of the worker take the task out, append its blob and release its lock with
  the result \<^verbatim>\<open>evr_ok\<close>; a client that waits for it then goes on.
\<close>

theorem persister_makes_progress:
  assumes "sqlite_reliable S blobs buckets" "fresh_persister s0" "persister_run (\<lambda>_ _. True) S max_bucket_size s0 s"
    "ready blobs buckets max_bucket_size (tk_blob (ps_tasks s t)) s" "pring (ps_p s) = t # ts"
    "ps_pc s = Worker_idle" "pc_working (ps_p s)"
  shows "\<exists>s1 s2. persister_step S max_bucket_size s s1 \<and> persister_step S max_bucket_size s1 s2 \<and>
    pring (ps_p s2) = ts \<and> ps_finished s2 = ps_finished s @ [(t, tk_blob (ps_tasks s t), Evr_ok)] \<and>
    tk_result (ps_tasks s2 t) = Evr_ok \<and> evr_persister_wait_for_task True t (ps_tasks s2) \<noteq> None"
proof -
  have "persister_inv s" using persister_run_keeps [OF assms(3)] fresh_persister_inv [OF assms(2)] by blast
  from sqlite_reliable.worker_progress [OF assms(1,4) this assms(5-7)] obtain s1 s2 where
    "persister_step S max_bucket_size s s1" "persister_step S max_bucket_size s1 s2" "pring (ps_p s2) = ts"
    "ps_finished s2 = ps_finished s @ [(t, tk_blob (ps_tasks s t), Evr_ok)]" "\<not> tk_done (ps_tasks s2 t)"
    "tk_result (ps_tasks s2 t) = Evr_ok" by metis
  then show ?thesis by (intro exI [of _ s1] exI [of _ s2]) (simp add: evr_persister_wait_for_task_def)
qed

theorem persister_makes_progress_witness:
  "\<exists>s1 s2. persister_step table_ops 1000 demo_queued s1 \<and> persister_step table_ops 1000 s1 s2 \<and>
    tk_result (ps_tasks s2 7) = Evr_ok \<and> pring (ps_p s2) = []"
proof -
  have run: "persister_run (\<lambda>_ _. True) table_ops 1000 demo_persister demo_queued"
    by (intro persister_run.further [OF persister_run.here demo_queue_step]) simp
  from persister_makes_progress [OF tbl.sqlite_reliable_axioms demo_persister_fresh run demo_queued_facts(1,3-5)]
  show ?thesis by blast
qed

end
