(* ===== verification/Glacier_Read.thy ===== *)
theory Glacier_Read
  imports Glacier_Progress
begin

text \<open>
  Reading a blob back: \<^verbatim>\<open>evr_glacier_read_blob\<close> delivers what the map of the glacier holds, and
  \<^verbatim>\<open>evr_glacier_list_blobs\<close> visits the rows that pass the filter and marks the last one.
\<close>

section \<open>Columns\<close>

lemma int_to_size_small:
  assumes "unat x < 2 ^ 31"
  shows "int_to_size x = unat x \<and> 0 \<le> sint x"
proof -
  have i: "uint x = int (unat x)" by simp
  have u: "uint x < 2 ^ 31" unfolding i using assms by (simp only: of_nat_less_numeral_power_cancel_iff)
  have "- (2 ^ 31) \<le> (0 :: int)" by simp
  then have "- (2 ^ 31) \<le> uint x" by (rule order_trans) simp
  then have s: "sint x = uint x" using u unfolding sint_uint
    by (simp add: signed_take_bit_int_eq_self)
  have e: "(scast x :: 64 word) = word_of_int (uint x)" by (metis of_int_sint s)
  have "uint (scast x :: 64 word) = take_bit 64 (uint x)" unfolding e uint_word_of_int_eq by simp
  also have "\<dots> = uint x" by (rule take_bit_int_eq_self) (use u in auto)
  finally have "unat (scast x :: 64 word) = unat x" by (metis unat_eq_nat_uint)
  moreover have "0 \<le> sint x" unfolding s by simp
  ultimately show ?thesis by (simp add: int_to_size_def)
qed

lemma length_magic: "length evr_bucket_magic_number = 3"
  by (simp add: evr_bucket_magic_number_def)

section \<open>The loop\<close>

text \<open>Callbacks that record the status calls and join the data.\<close>

type_synonym collected = "(bool \<times> c_int \<times> nat) list \<times> bytes"

definition collect_status :: "collected status_cb" where
  "collect_status ctx ex flags sz = (Evr_ok, (fst ctx @ [(ex, flags, sz)], snd ctx))"

definition collect_data :: "collected side_effect" where
  "collect_data ctx b = (Evr_ok, (fst ctx, snd ctx @ b))"

lemma read_blob_loop_result:
  assumes "bk_valid w0 i s" "n - k \<le> length (bk_stream s)" "k \<le> n"
  shows "\<exists>ok s' d. read_blob_loop collect_data k n ctx s = Some (ok, (fst ctx, snd ctx @ d), s') \<and>
    bk_valid w0 i s' \<and> (ok \<longrightarrow> d = take (n - k) (bk_stream s)) \<and> (calls_ok (fst s) \<longrightarrow> ok \<and> calls_ok (fst s'))"
  using assms
proof (induction "n - k" arbitrary: k ctx s rule: less_induct)
  case less
  note step = read_blob_loop.simps [of collect_data k n ctx s]
  show ?case
  proof (cases "k < n")
    case False
    then have "read_blob_loop collect_data k n ctx s = Some (True, ctx, s)" by (simp add: step)
    with less.prems False show ?thesis by (intro exI [of _ True] exI [of _ s] exI [of _ "[]"]) simp
  next
    case True
    let ?m = "min evr_read_buffer_size (n - k)"
    have m: "0 < ?m" using True by (simp add: evr_read_buffer_size_def)
    obtain r s1 where r: "sys_read s ?m = (r, s1)" by (cases "sys_read s ?m")
    show ?thesis
    proof (cases r)
      case Read_fail
      have "\<not> calls_ok (fst s)" using r Read_fail by (elim sys_read_cases) (auto simp: calls_ok_def)
      moreover have "bk_valid w0 i s1" using bk.rd_fail [OF less.prems(1)] r Read_fail by blast
      ultimately show ?thesis using True r Read_fail
        by (intro exI [of _ False] exI [of _ s1] exI [of _ "[]"]) (simp add: step)
    next
      case (Read_bytes b)
      note rb = bk.rd_bytes [OF less.prems(1) r [unfolded Read_bytes]]
      have "b \<noteq> []" using bk.rd_end [OF less.prems(1) m] r Read_bytes less.prems(2) True by auto
      then have lt: "n - (k + length b) < n - k" using True by (cases b) auto
      have ks: "k + length b \<le> n" "n - (k + length b) \<le> length (bk_stream s1)"
        using rb less.prems(2) True by auto
      from less.hyps [OF lt conjunct2 [OF conjunct2 [OF rb]] ks(2,1), of "(fst ctx, snd ctx @ b)"]
      obtain ok s' d where rec: "read_blob_loop collect_data (k + length b) n (fst ctx, snd ctx @ b) s1 =
          Some (ok, (fst ctx, (snd ctx @ b) @ d), s')" "bk_valid w0 i s'"
        "ok \<longrightarrow> d = take (n - (k + length b)) (bk_stream s1)"
        "calls_ok (fst s1) \<longrightarrow> ok \<and> calls_ok (fst s')" by auto
      have "ok \<longrightarrow> b @ d = take (n - k) (bk_stream s)"
        using rec(3) rb ks(1) by auto
      moreover have "calls_ok (fst s) \<longrightarrow> calls_ok (fst s1)" using sys_read_same [OF r] calls_ok_same by blast
      ultimately show ?thesis using rec True r Read_bytes
        by (intro exI [of _ ok] exI [of _ s'] exI [of _ "b @ d"]) (simp add: step collect_data_def)
    qed
  qed
qed

lemma validate_magic:
  assumes "evr_validate_bucket_magic_number w f = (r, w', f')"
  shows "same_world w w' \<and> fd_id f' = fd_id f \<and>
    (r = Evr_ok \<longrightarrow> take 3 (content w (fd_id f)) = evr_bucket_magic_number) \<and>
    (calls_ok w \<longrightarrow> take 3 (content w (fd_id f)) = evr_bucket_magic_number \<longrightarrow> r = Evr_ok \<and> calls_ok w')"
proof -
  obtain ok w1 f1 where s: "sys_seek w f 0 = (ok, w1, f1)" using prod_cases3 by blast
  note s1 = sys_seek_same [OF s]
  obtain r2 b u w2 f2 where rn: "read_n sys_read no_se (w1, f1) (length evr_bucket_magic_number) () = (r2, b, u, (w2, f2))"
    by (metis surj_pair)
  note r2 = read_n_world [OF rn]
  have res: "(w' = w1 \<and> f' = f1 \<or> w' = w2 \<and> f' = f2)"
    using assms s rn by (auto simp: evr_validate_bucket_magic_number_def split: if_splits)
  then have "same_world w w' \<and> fd_id f' = fd_id f" using s1 r2 same_world_trans by metis
  moreover have "take 3 (content w (fd_id f)) = evr_bucket_magic_number" if "r = Evr_ok"
  proof -
    have "ok \<and> r2 = Evr_ok \<and> b = evr_bucket_magic_number"
      using that assms s rn by (auto simp: evr_validate_bucket_magic_number_def split: if_splits)
    then show ?thesis using r2 s1 same_world_fields(4) [of w w1] by (auto simp: length_magic)
  qed
  moreover have "r = Evr_ok \<and> calls_ok w'" if ok: "calls_ok w" and m: "take 3 (content w (fd_id f)) = evr_bucket_magic_number"
  proof -
    note o1 = sys_seek_calls_ok [OF ok s]
    have se: "fst (no_se c b) = Evr_ok" for c b by (simp add: no_se_def)
    have c1: "content w1 = content w" "fd_id f1 = fd_id f" "fd_off f1 = 0"
      using s1 o1 same_world_fields(4) [of w w1] by auto
    have "length (take 3 (content w (fd_id f))) = 3" using m by (simp add: length_magic)
    then have "3 \<le> length (content w (fd_id f))" by simp
    with read_n_calls_ok [OF conjunct2 [OF o1] se rn] c1 m have "r2 = Evr_ok" "b = evr_bucket_magic_number" "calls_ok w2"
      by (simp_all add: length_magic)
    with assms s o1 rn show ?thesis by (simp add: evr_validate_bucket_magic_number_def)
  qed
  ultimately show ?thesis by blast
qed

lemma open_read:
  assumes "evr_open_bucket w i False = (fo, w1)"
  shows "same_world w w1 \<and> (\<exists>f. fo = Some f \<and> (fd_id f = Stdout \<or> fd_id f = bucket_file i)) \<and>
    (calls_ok w \<longrightarrow> w_files w (bucket_file i) \<noteq> None \<longrightarrow>
      calls_ok w1 \<and> fo = Some \<lparr>fd_id = bucket_file i, fd_off = 0\<rparr>)"
proof -
  obtain ok w2 where s: "sys_call w = (ok, w2)" by fastforce
  note w2 = sys_call_same [OF s]
  show ?thesis
    using assms s w2 same_world_fields(1) [OF w2] sys_call_calls_ok [of w ok w2]
    by (auto simp: evr_open_bucket_def sys_open_def bucket_file_def split: if_splits option.splits)
qed

section \<open>Reading a row\<close>

lemma close_bucket_result:
  assumes "same_world w0 w"
  shows "\<exists>r' w'. close_bucket r ctx w = (r', ctx, w') \<and> same_world w0 w' \<and> (r' = r \<or> r' = Evr_error) \<and>
    (calls_ok w \<longrightarrow> r' = r)"
proof (cases "sys_call w")
  case (Pair ok w')
  from same_world_trans [OF assms sys_call_same [OF Pair]] sys_call_ok [OF _ Pair] Pair show ?thesis
    by (auto simp: close_bucket_def)
qed

lemma read_blob_row:
  assumes find: "ix_find_blob S (w_db w) (take evr_blob_ref_size key) = Sql_row row" and row: "row_ok c w row"
    and out: "take 3 (content w Stdout) \<noteq> evr_bucket_magic_number"
  shows "\<exists>r ctx w'. evr_glacier_read_blob S key collect_status collect_data ([], []) w = Some (r, ctx, w') \<and>
    same_world w w' \<and> (r = Evr_ok \<and> ctx = ([(True, br_flags row, unat (br_size row))], stored w row) \<or>
      r = Evr_error \<and> \<not> calls_ok w)"
proof -
  let ?p = "unat (br_offset row)" and ?n = "unat (br_size row)"
  from row obtain cont where cont: "w_files w (row_file row) = Some cont" "take 3 cont = evr_bucket_magic_number"
    "?p + ?n \<le> length cont" and small: "?p + ?n < 2 ^ 31" by (auto simp: row_ok_def)
  have cnt: "content w (row_file row) = cont" using cont(1) by (simp add: content_def)
  have p: "int_to_size (br_offset row) = ?p" "\<not> sint (br_offset row) < 0" "int_to_size (br_size row) = ?n"
    using int_to_size_small [of "br_offset row"] int_to_size_small [of "br_size row"] small by auto
  obtain fo w1 where o1: "evr_open_bucket w (unat (br_bucket_index row)) False = (fo, w1)" by fastforce
  from open_read [OF o1] obtain f where f: "same_world w w1" "fo = Some f" "fd_id f = Stdout \<or> fd_id f = row_file row"
    and fk: "calls_ok w \<longrightarrow> calls_ok w1 \<and> fd_id f = row_file row" using cont(1) by (auto simp: row_file_def)
  obtain r2 w2 f2 where m: "evr_validate_bucket_magic_number w1 f = (r2, w2, f2)" using prod_cases3 by blast
  note m' = validate_magic [OF m]
  have c1: "content w1 = content w" using same_world_fields(4) [OF f(1)] .
  have w2: "same_world w w2" using f(1) m' same_world_trans by blast
  have k2: "calls_ok w \<longrightarrow> r2 = Evr_ok \<and> calls_ok w2" using fk m' c1 cnt cont(2) by auto
  note start = evr_glacier_read_blob_def find o1 f(2) m p
  show ?thesis
  proof (cases "r2 = Evr_ok")
    case False
    with close_bucket_result [OF w2, of Evr_error "([], [])"] k2 show ?thesis by (auto simp: start)
  next
    case True
    then have id: "fd_id f2 = row_file row" using m' f(3) c1 out by auto
    obtain ok w3 f3 where s: "sys_seek w2 f2 ?p = (ok, w3, f3)" using prod_cases3 by blast
    note s' = sys_seek_same [OF s]
    have w3: "same_world w w3" using w2 s' same_world_trans by blast
    have k3: "calls_ok w \<longrightarrow> ok \<and> calls_ok w3" using k2 sys_seek_calls_ok [OF _ s] by blast
    show ?thesis
    proof (cases ok)
      case False
      with close_bucket_result [OF w3, of Evr_error "([], [])"] k3 True s show ?thesis by (auto simp: start Let_def)
    next
      case ok: True
      have v: "bk_valid w (row_file row) (w3, f3)" using w3 s' id by (simp add: bk_valid_def)
      have st: "bk_stream (w3, f3) = drop ?p cont" using s' ok id cnt same_world_fields(4) [OF w3] by (simp add: bk_stream_def)
      have len: "?n - 0 \<le> length (bk_stream (w3, f3))" using st cont(3) by simp
      let ?ctx = "([(True, br_flags row, ?n)], [])"
      from read_blob_loop_result [OF v len, of ?ctx] obtain rok w4 f4 d where l:
        "read_blob_loop collect_data 0 ?n ?ctx (w3, f3) = Some (rok, ([(True, br_flags row, ?n)], d), (w4, f4))"
        "bk_valid w (row_file row) (w4, f4)" "rok \<longrightarrow> d = take ?n (drop ?p cont)"
        "calls_ok w3 \<longrightarrow> rok \<and> calls_ok w4" using st by auto
      have w4: "same_world w w4" using l(2) by (simp add: bk_valid_def)
      let ?r = "if rok then Evr_ok else Evr_error"
      from close_bucket_result [OF w4, of ?r "([(True, br_flags row, ?n)], d)"] obtain r' w' where
        cl: "close_bucket ?r ([(True, br_flags row, ?n)], d) w4 = (r', ([(True, br_flags row, ?n)], d), w')"
        "same_world w w'" "r' = ?r \<or> r' = Evr_error" "calls_ok w4 \<longrightarrow> r' = ?r" by blast
      have "evr_glacier_read_blob S key collect_status collect_data ([], []) w = Some (r', ([(True, br_flags row, ?n)], d), w')"
        using True ok s l(1) cl(1) by (simp add: start Let_def collect_status_def)
      moreover have "r' = Evr_ok \<and> d = stored w row \<or> r' = Evr_error \<and> \<not> calls_ok w"
        using cl(3,4) l(3,4) k3 cnt by (auto simp: stored_def split: if_splits)
      ultimately show ?thesis using cl(2) by blast
    qed
  qed
qed

section \<open>A file that ends before the blob\<close>

lemma read_blob_loop_needs:
  assumes "read_blob_loop on_data k n ctx s = Some y"
  shows "(\<forall>c b. fst (on_data c b) = Evr_ok) \<longrightarrow> calls_ok (fst s) \<longrightarrow> k \<le> n \<longrightarrow> n - k \<le> length (bk_stream s)"
proof (rule read_blob_loop.raw_induct [OF _ assms])
  fix loop :: "'a side_effect \<Rightarrow> nat \<Rightarrow> nat \<Rightarrow> 'a \<Rightarrow> 'd world \<times> fd \<Rightarrow> (bool \<times> 'a \<times> 'd world \<times> fd) option"
    and on_data k n ctx s y
  assume IH: "\<And>on_data k n ctx s y. loop on_data k n ctx s = Some y \<Longrightarrow>
      (\<forall>c b. fst (on_data c b) = Evr_ok) \<longrightarrow> calls_ok (fst s) \<longrightarrow> k \<le> n \<longrightarrow> n - k \<le> length (bk_stream s)"
    and run: "(if k < n
     then (case sys_read s (min evr_read_buffer_size (n - k)) of (r, s1) \<Rightarrow>
             case r of
               Read_fail \<Rightarrow> Some (False, ctx, s1)
             | Read_bytes b \<Rightarrow>
                (case on_data ctx b of (code, ctx1) \<Rightarrow>
                   if code \<noteq> Evr_ok then Some (False, ctx1, s1) else loop on_data (k + length b) n ctx1 s1))
     else Some (True, ctx, s)) = Some y"
  show "(\<forall>c b. fst (on_data c b) = Evr_ok) \<longrightarrow> calls_ok (fst s) \<longrightarrow> k \<le> n \<longrightarrow> n - k \<le> length (bk_stream s)"
  proof (intro impI, cases "k < n")
    case True
    assume a: "\<forall>c b. fst (on_data c b) = Evr_ok" "calls_ok (fst s)"
    obtain r s1 where r: "sys_read s (min evr_read_buffer_size (n - k)) = (r, s1)"
      by (cases "sys_read s (min evr_read_buffer_size (n - k))")
    have v: "bk_valid (fst s) (fd_id (snd s)) s" by (simp add: bk_valid_def)
    obtain b where b: "r = Read_bytes b"
      using r a(2) by (cases r) (auto elim!: sys_read_cases simp: calls_ok_def)
    obtain code ctx1 where o: "on_data ctx b = (code, ctx1)" by fastforce
    then have "code = Evr_ok" using a(1) by (metis fst_conv)
    note rb = bk.rd_bytes [OF v r [unfolded b]]
    have "loop on_data (k + length b) n ctx1 s1 = Some y"
      using run True r b o \<open>code = Evr_ok\<close> by simp
    from IH [OF this] a calls_ok_same [OF a(2) sys_read_same [OF r]] rb True
    show "n - k \<le> length (bk_stream s)" by auto
  qed simp
qed

text \<open>The rows before the last one are visited without the mark.\<close>

definition mark_last :: "'a list \<Rightarrow> ('a \<times> bool) list" where
  "mark_last xs = zip xs (replicate (length xs - 1) False @ [True])"

lemma mark_last_simps [simp]:
  "mark_last [] = []" "mark_last [x] = [(x, True)]" "mark_last (x # y # xs) = (x, False) # mark_last (y # xs)"
  by (simp_all add: mark_last_def)

type_synonym visit = "(evr_blob_ref \<times> c_int \<times> evr_time) \<times> bool"

definition collect_visit :: "visit list list_visitor" where
  "collect_visit vs key flags t lst = (Evr_ok, vs @ [((key, flags, t), lst)])"

definition visit_of :: "blob_row \<Rightarrow> evr_blob_ref \<times> c_int \<times> evr_time" where
  "visit_of r = (br_key r, br_flags r, br_last_modified r)"

definition passes :: "c_int \<Rightarrow> blob_row \<Rightarrow> bool" where
  "passes ff r = (br_flags r AND ff = ff)"

lemma list_blobs_loop_visits:
  assumes "list_blobs_loop ff collect_visit found rows complete vs = (code, vs')"
  shows "(code = Evr_ok \<longrightarrow> complete \<and>
      vs' = vs @ mark_last (map visit_of ((case found of None \<Rightarrow> [] | Some r \<Rightarrow> [r]) @ filter (passes ff) rows))) \<and>
    (code = Evr_ok \<or> code = Evr_error) \<and>
    (complete \<and> (\<forall>r\<in>set rows. length (br_key r) = evr_blob_ref_size) \<longrightarrow> code = Evr_ok)"
  using assms
  by (induction rows arbitrary: found vs)
    (force simp: passes_def collect_visit_def visit_of_def split: if_splits option.splits)+

section \<open>Properties\<close>

context sqlite_index
begin

lemma read_blob_result:
  assumes "glacier_inv blobs c w" "take 3 (content w Stdout) \<noteq> evr_bucket_magic_number"
    "length key = evr_blob_ref_size"
  shows "\<exists>r ctx w'. evr_glacier_read_blob S key collect_status collect_data ([], []) w = Some (r, ctx, w') \<and>
    same_world w w' \<and>
    (r = Evr_ok \<and> (\<exists>flags d. glacier_abs blobs w key = Some (flags, d) \<and> ctx = ([(True, flags, length d)], d)) \<or>
     r = Evr_not_found \<and> glacier_abs blobs w key = None \<and> ctx = ([(False, 0, 0)], []) \<or>
     r = Evr_error \<and> (calls_ok w \<longrightarrow> ix_find_blob S (w_db w) key \<in> {Sql_row_fail, Sql_row_bind_fail}))"
proof (cases "ix_find_blob S (w_db w) key")
  case (Sql_row row)
  then have b: "blobs (w_db w) key = Some row" using find_blob_row by blast
  then have row: "row_ok c w row" using assms(1) by (simp add: glacier_inv_def)
  then have "length (stored w row) = unat (br_size row)" by (auto simp: row_ok_def stored_def content_def)
  then have abs: "glacier_abs blobs w key = Some (br_flags row, stored w row)"
    "unat (br_size row) = length (stored w row)" using b by (simp_all add: glacier_abs_def)
  have "ix_find_blob S (w_db w) (take evr_blob_ref_size key) = Sql_row row" using Sql_row assms(3) by simp
  from read_blob_row [OF this row assms(2)] abs show ?thesis by auto
next
  case Sql_no_row
  then have "glacier_abs blobs w key = None" using find_blob_none by (simp add: glacier_abs_def)
  with Sql_no_row assms(3) show ?thesis by (simp add: evr_glacier_read_blob_def collect_status_def)
qed (use assms(3) in \<open>simp_all add: evr_glacier_read_blob_def\<close>)

lemma list_blobs_result:
  assumes "evr_glacier_list_blobs S w collect_visit filt [] = (Evr_ok, vs)"
  shows "\<exists>rows. vs = mark_last (map visit_of rows) \<and> distinct rows \<and>
    set rows = {r. blobs (w_db w) (br_key r) = Some r \<and> passes (bf_flags_filter filt) r \<and>
      sint (bf_last_modified_after filt) \<le> sint (br_last_modified r)} \<and>
    (bf_sort_order filt = 1 \<longrightarrow> sorted (map (sint \<circ> br_last_modified) rows)) \<and>
    (bf_sort_order filt = 2 \<longrightarrow> sorted (map br_key rows)) \<and> bf_sort_order filt \<in> {1, 2}"
proof -
  from assms obtain so rows complete where so: "evr_cmd_watch_sort_order (bf_sort_order filt) = Some so"
    "ix_list_blobs S (w_db w) so (bf_last_modified_after filt) = Some (rows, complete)"
    "list_blobs_loop (bf_flags_filter filt) collect_visit None rows complete [] = (Evr_ok, vs)"
    by (auto simp: evr_glacier_list_blobs_def split: if_splits option.splits)
  from list_blobs_loop_visits [OF so(3)] have vs: "complete"
    "vs = mark_last (map visit_of (filter (passes (bf_flags_filter filt)) rows))" by auto
  note rows = list_blobs_rows [OF so(2) [unfolded vs(1) [THEN eqTrueI]]]
  let ?rows = "filter (passes (bf_flags_filter filt)) rows"
  have order: "bf_sort_order filt = 1 \<and> so = By_last_modified \<or> bf_sort_order filt = 2 \<and> so = By_ref"
    using so(1) by (auto simp: evr_cmd_watch_sort_order_def split: if_splits)
  have "so = By_last_modified \<Longrightarrow> sorted (map (sint \<circ> br_last_modified) ?rows)" "so = By_ref \<Longrightarrow> sorted (map br_key ?rows)"
    using rows sorted_filter [of _ rows "passes (bf_flags_filter filt)"] by blast+
  with order have "(bf_sort_order filt = 1 \<longrightarrow> sorted (map (sint \<circ> br_last_modified) ?rows)) \<and>
    (bf_sort_order filt = 2 \<longrightarrow> sorted (map br_key ?rows)) \<and> bf_sort_order filt \<in> {1, 2}" by auto
  with rows vs(2) show ?thesis by (intro exI [of _ "filter (passes (bf_flags_filter filt)) rows"]) auto
qed

end

text \<open>A bucket with one blob of three bytes, in a file that may be cut off.\<close>

definition demo_row :: blob_row where
  "demo_row = \<lparr>br_key = replicate 28 9, br_flags = 1, br_bucket_index = 1, br_offset = 49, br_size = 3, br_last_modified = 5\<rparr>"

definition read_world :: "bytes \<Rightarrow> table_db world" where
  "read_world b = \<lparr>w_files = [bucket_file 1 \<mapsto> evr_bucket_magic_number @ be32 52 @ replicate 42 0 @ b],
     w_dir = [bucket_file_name 1], w_io = [], w_db = \<lparr>tb_blobs = [demo_row], tb_buckets = [(1, 52)]\<rparr>\<rparr>"

lemma read_world_inv: "glacier_inv table_find (demo_ctx\<lparr>wc_bucket_pos := 52\<rparr>) (read_world [1, 2, 3])"
  by (simp add: glacier_inv_def ctx_inv_def demo_ctx_def read_world_def bucket_ok_def evr_layout row_ok_def demo_row_def
      evr_bucket_magic_number_def table_find_def row_file_def)

lemma read_world_facts:
  "take 3 (content (read_world b) Stdout) \<noteq> evr_bucket_magic_number" "calls_ok (read_world b)"
  "glacier_abs table_find (read_world [1, 2, 3]) (replicate 28 9) = Some (1, [1, 2, 3])"
  by (simp_all add: read_world_def content_def evr_bucket_magic_number_def bucket_file_def calls_ok_def glacier_abs_def
      table_find_def demo_row_def stored_def row_file_def evr_layout)

text \<open>
  C3: reading refines looking up a map. On a glacier that satisfies the invariant,
  \<^verbatim>\<open>evr_glacier_read_blob\<close> always returns. When it returns \<^verbatim>\<open>evr_ok\<close> it has reported flags and
  size once and has handed over exactly the bytes the glacier holds under the reference; it returns
  \<^verbatim>\<open>evr_not_found\<close> only when the glacier does not hold the reference; it changes no file, and it
  fails only when a system call or the database fails. The standard output is assumed not to read as
  a bucket, because a bucket that can not be opened is replaced by it.
\<close>

theorem read_blob_is_lookup:
  assumes "sqlite_index S blobs buckets" "glacier_inv blobs c w"
    "take 3 (content w Stdout) \<noteq> evr_bucket_magic_number" "length key = evr_blob_ref_size"
  shows "\<exists>r ctx w'. evr_glacier_read_blob S key collect_status collect_data ([], []) w = Some (r, ctx, w') \<and>
    w_files w' = w_files w \<and> w_db w' = w_db w \<and>
    (r = Evr_ok \<and> (\<exists>flags d. glacier_abs blobs w key = Some (flags, d) \<and> ctx = ([(True, flags, length d)], d)) \<or>
     r = Evr_not_found \<and> glacier_abs blobs w key = None \<and> ctx = ([(False, 0, 0)], []) \<or>
     r = Evr_error \<and> (calls_ok w \<longrightarrow> ix_find_blob S (w_db w) key \<in> {Sql_row_fail, Sql_row_bind_fail}))"
proof -
  from sqlite_index.read_blob_result [OF assms] obtain r ctx w' where
    r: "evr_glacier_read_blob S key collect_status collect_data ([], []) w = Some (r, ctx, w')" "same_world w w'"
    "r = Evr_ok \<and> (\<exists>flags d. glacier_abs blobs w key = Some (flags, d) \<and> ctx = ([(True, flags, length d)], d)) \<or>
     r = Evr_not_found \<and> glacier_abs blobs w key = None \<and> ctx = ([(False, 0, 0)], []) \<or>
     r = Evr_error \<and> (calls_ok w \<longrightarrow> ix_find_blob S (w_db w) key \<in> {Sql_row_fail, Sql_row_bind_fail})" by blast
  have "w_files w' = w_files w \<and> w_db w' = w_db w" using same_world_fields [OF r(2)] by simp
  with r(1,3) show ?thesis by blast
qed

theorem read_blob_is_lookup_witness:
  "\<exists>w'. evr_glacier_read_blob table_ops (replicate 28 9) collect_status collect_data ([], []) (read_world [1, 2, 3]) =
     Some (Evr_ok, ([(True, 1, 3)], [1, 2, 3]), w')"
proof -
  from read_blob_is_lookup [OF tbl.sqlite_index_axioms read_world_inv, of "replicate 28 9"] read_world_facts
    tbl.find_blob_ok [of "w_db (read_world [1, 2, 3])" "replicate 28 9"]
  show ?thesis by (auto simp: evr_layout)
qed

text \<open>
  C37: the read loop ends exactly when the bucket file holds the whole blob. A file that was cut
  off, as after a crash, makes \<^verbatim>\<open>evr_glacier_read_blob\<close> hand over empty reads forever: the end of
  the file is not checked.
\<close>

theorem read_blob_ends_iff:
  assumes "ix_find_blob S (w_db w) key = Sql_row row" "length key = evr_blob_ref_size" "calls_ok w"
    "w_files w (row_file row) = Some cont" "take 3 cont = evr_bucket_magic_number"
    "unat (br_offset row) \<le> length cont" "unat (br_offset row) + unat (br_size row) < 2 ^ 31"
  shows "evr_glacier_read_blob S key collect_status collect_data ([], []) w = None \<longleftrightarrow>
    length cont < unat (br_offset row) + unat (br_size row)"
proof -
  let ?p = "unat (br_offset row)" and ?n = "unat (br_size row)"
  have cnt: "content w (row_file row) = cont" using assms(4) by (simp add: content_def)
  have p: "int_to_size (br_offset row) = ?p" "\<not> sint (br_offset row) < 0" "int_to_size (br_size row) = ?n"
    using int_to_size_small [of "br_offset row"] int_to_size_small [of "br_size row"] assms(7) by auto
  obtain fo w1 where o1: "evr_open_bucket w (unat (br_bucket_index row)) False = (fo, w1)" by fastforce
  from open_read [OF o1] assms(3,4) have w1: "same_world w w1" "calls_ok w1" "fo = Some \<lparr>fd_id = row_file row, fd_off = 0\<rparr>"
    by (auto simp: row_file_def)
  obtain r2 w2 f2 where m: "evr_validate_bucket_magic_number w1 \<lparr>fd_id = row_file row, fd_off = 0\<rparr> = (r2, w2, f2)"
    using prod_cases3 by blast
  from validate_magic [OF m] w1 cnt assms(5) same_world_fields(4) [OF w1(1)]
  have w2: "same_world w1 w2" "r2 = Evr_ok" "calls_ok w2" "fd_id f2 = row_file row" by auto
  obtain ok w3 f3 where s: "sys_seek w2 f2 ?p = (ok, w3, f3)" using prod_cases3 by blast
  have s': "same_world w2 w3" "fd_id f3 = row_file row" "fd_off f3 = ?p" "ok" "calls_ok w3"
    using sys_seek_same [OF s] sys_seek_calls_ok [OF w2(3) s] w2(4) by auto
  have w3: "same_world w w3" using same_world_trans [OF same_world_trans [OF w1(1) w2(1)] s'(1)] .
  let ?ctx = "([(True, br_flags row, ?n)], [])"
  have st: "bk_stream (w3, f3) = drop ?p cont" using s' cnt same_world_fields(4) [OF w3] by (simp add: bk_stream_def)
  have v: "bk_valid w (row_file row) (w3, f3)" using w3 s' by (simp add: bk_valid_def)
  have "evr_glacier_read_blob S key collect_status collect_data ([], []) w = None \<longleftrightarrow>
      read_blob_loop collect_data 0 ?n ?ctx (w3, f3) = None"
    using assms(1,2) o1 w1(3) m w2(2) s s'(4) p
    by (auto simp: evr_glacier_read_blob_def Let_def collect_status_def close_bucket_def split: option.splits prod.splits)
  also have "\<dots> \<longleftrightarrow> \<not> ?n \<le> length cont - ?p"
    using read_blob_loop_result [OF v, of ?n 0 ?ctx] read_blob_loop_needs [of collect_data 0 ?n ?ctx "(w3, f3)"] st s'(5)
    by (cases "read_blob_loop collect_data 0 ?n ?ctx (w3, f3)") (auto simp: collect_data_def)
  also have "\<dots> \<longleftrightarrow> length cont < ?p + ?n" using assms(6) by linarith
  finally show ?thesis .
qed

theorem read_blob_ends_iff_witness:
  "evr_glacier_read_blob table_ops (replicate 28 9) collect_status collect_data ([], []) (read_world [1, 2]) = None"
proof -
  have "ix_find_blob table_ops (w_db (read_world [1, 2])) (replicate 28 9) = Sql_row demo_row"
    by (simp add: table_ops_def read_world_def table_find_def demo_row_def)
  from read_blob_ends_iff [OF this, of "evr_bucket_magic_number @ be32 52 @ replicate 42 0 @ [1, 2]"] show ?thesis
    by (simp add: evr_layout calls_ok_def read_world_def row_file_def demo_row_def evr_bucket_magic_number_def)
qed

text \<open>
  C36: listing the glacier. When \<^verbatim>\<open>evr_glacier_list_blobs\<close> succeeds it has visited exactly the blobs
  that were modified since the given time and have all flags of the filter, each of them once, in the order of
  their modification (sort order 1) or of their references as bytes (sort order 2), whichever was asked for; no other order is
  accepted. Exactly the last visit is marked as the last one.
\<close>

theorem list_blobs_visits_matching:
  assumes "sqlite_index S blobs buckets" "evr_glacier_list_blobs S w collect_visit filt [] = (Evr_ok, vs)"
  shows "\<exists>rows. vs = mark_last (map visit_of rows) \<and> distinct rows \<and>
    set rows = {r. blobs (w_db w) (br_key r) = Some r \<and> passes (bf_flags_filter filt) r \<and>
      sint (bf_last_modified_after filt) \<le> sint (br_last_modified r)} \<and>
    (bf_sort_order filt = 1 \<longrightarrow> sorted (map (sint \<circ> br_last_modified) rows)) \<and>
    (bf_sort_order filt = 2 \<longrightarrow> sorted (map br_key rows)) \<and> bf_sort_order filt \<in> {1, 2}"
  by (rule sqlite_index.list_blobs_result [OF assms])

theorem list_blobs_visits_matching_witness:
  "\<exists>rows. [((replicate 28 9, 1, 5), True)] = mark_last (map visit_of rows) \<and>
    set rows = {r. table_find (w_db (read_world [1, 2, 3])) (br_key r) = Some r \<and> passes 1 r \<and> 4 \<le> sint (br_last_modified r)}"
proof -
  let ?f = "\<lparr>bf_sort_order = 1, bf_flags_filter = 1, bf_last_modified_after = 4\<rparr>"
  have "evr_glacier_list_blobs table_ops (read_world [1, 2, 3]) collect_visit ?f [] = (Evr_ok, [((replicate 28 9, 1, 5), True)])"
    by (simp add: evr_glacier_list_blobs_def evr_cmd_watch_sort_order_def table_ops_def read_world_def table_rows_def
        table_find_def demo_row_def evr_layout collect_visit_def)
  from list_blobs_visits_matching [OF tbl.sqlite_index_axioms this] show ?thesis by auto
qed

end
