(* ===== verification/Glacier_Cmd.thy ===== *)
theory Glacier_Cmd
  imports Glacier
begin

text \<open>
  \<^verbatim>\<open>src/glacier-cmd.h\<close> and \<^verbatim>\<open>src/glacier-cmd.c\<close>: the fixed size headers and bodies of the protocol
  between the storage server and its clients. Every formatter writes into an array of the caller; a
  result \<open>None\<close> is an access outside of it. The locale \<open>fixed_codec\<close> states what a pair of
  formatter and parser promises; the four pairs are instances of it.
\<close>

section \<open>Constants\<close>

definition evr_cmd_type_get_blob :: c_int where "evr_cmd_type_get_blob = 0x01"
definition evr_cmd_type_put_blob :: c_int where "evr_cmd_type_put_blob = 0x02"
definition evr_cmd_type_stat_blob :: c_int where "evr_cmd_type_stat_blob = 0x03"
definition evr_cmd_type_watch_blobs :: c_int where "evr_cmd_type_watch_blobs = 0x04"
definition evr_cmd_type_configure_connection :: c_int where "evr_cmd_type_configure_connection = 0x05"

definition evr_status_code_ok :: c_int where "evr_status_code_ok = 0x20"
definition evr_status_code_client_error :: c_int where "evr_status_code_client_error = 0x40"
definition evr_status_code_unknown_cmd :: c_int where "evr_status_code_unknown_cmd = 0x44"
definition evr_status_code_blob_not_found :: c_int where "evr_status_code_blob_not_found = 0x45"
definition evr_status_code_server_error :: c_int where "evr_status_code_server_error = 0x50"

definition evr_cmd_header_n_size :: nat where [evr_layout]: "evr_cmd_header_n_size = 1 + 4"
definition evr_resp_header_n_size :: nat where [evr_layout]: "evr_resp_header_n_size = 1 + 4"
definition evr_blob_flags_n_size :: nat where [evr_layout]: "evr_blob_flags_n_size = 1"
definition evr_stat_blob_resp_n_size :: nat where
  [evr_layout]: "evr_stat_blob_resp_n_size = evr_blob_flags_n_size + 4"
definition evr_blob_filter_n_size :: nat where [evr_layout]: "evr_blob_filter_n_size = 1 + 1 + 8"
definition evr_watch_blobs_body_n_size :: nat where
  [evr_layout]: "evr_watch_blobs_body_n_size = evr_blob_ref_size + 8 + evr_blob_flags_n_size"
definition evr_watch_flag_eob :: c_int where "evr_watch_flag_eob = 0x01"

section \<open>Headers and bodies\<close>

record evr_cmd_header =
  ch_type :: c_int
  ch_body_size :: nat

record evr_resp_header =
  rh_status_code :: c_int
  rh_body_size :: nat

record evr_stat_blob_resp =
  sr_flags :: c_int
  sr_blob_size :: nat

record evr_watch_blobs_body =
  wbb_key :: evr_blob_ref
  wbb_last_modified :: evr_time
  wbb_flags :: c_int

definition evr_parse_cmd_header :: "bytes \<Rightarrow> evr_cmd_header option" where
  "evr_parse_cmd_header buffer =
    do { (t, bp1) \<leftarrow> evr_pull_u8 (evr_init_buf_pos buffer);
         (n, bp2) \<leftarrow> evr_pull_be bp1 4;
         Some \<lparr>ch_type = t, ch_body_size = unat (n :: 64 word)\<rparr> }"

definition evr_format_cmd_header :: "bytes \<Rightarrow> evr_cmd_header \<Rightarrow> bytes option" where
  "evr_format_cmd_header buffer header =
    do { bp1 \<leftarrow> evr_push_u8 (evr_init_buf_pos buffer) (ch_type header);
         bp2 \<leftarrow> evr_push_be32 bp1 (word_of_nat (ch_body_size header) :: 64 word);
         Some (buf bp2) }"

definition evr_parse_resp_header :: "bytes \<Rightarrow> evr_resp_header option" where
  "evr_parse_resp_header buffer =
    do { (c, bp1) \<leftarrow> evr_pull_u8 (evr_init_buf_pos buffer);
         (n, bp2) \<leftarrow> evr_pull_be bp1 4;
         Some \<lparr>rh_status_code = c, rh_body_size = unat (n :: 64 word)\<rparr> }"

definition evr_format_resp_header :: "bytes \<Rightarrow> evr_resp_header \<Rightarrow> bytes option" where
  "evr_format_resp_header buffer header =
    do { bp1 \<leftarrow> evr_push_u8 (evr_init_buf_pos buffer) (rh_status_code header);
         bp2 \<leftarrow> evr_push_be32 bp1 (word_of_nat (rh_body_size header) :: 64 word);
         Some (buf bp2) }"

definition evr_parse_stat_blob_resp :: "bytes \<Rightarrow> evr_stat_blob_resp option" where
  "evr_parse_stat_blob_resp b =
    do { (f, bp1) \<leftarrow> evr_pull_u8 (evr_init_buf_pos b);
         (n, bp2) \<leftarrow> evr_pull_be bp1 4;
         Some \<lparr>sr_flags = f, sr_blob_size = unat (n :: 64 word)\<rparr> }"

definition evr_format_stat_blob_resp :: "bytes \<Rightarrow> evr_stat_blob_resp \<Rightarrow> bytes option" where
  "evr_format_stat_blob_resp b resp =
    do { bp1 \<leftarrow> evr_push_u8 (evr_init_buf_pos b) (sr_flags resp);
         bp2 \<leftarrow> evr_push_be32 bp1 (word_of_nat (sr_blob_size resp) :: 64 word);
         Some (buf bp2) }"

definition evr_parse_blob_filter :: "bytes \<Rightarrow> evr_blob_filter option" where
  "evr_parse_blob_filter b =
    do { (s, bp1) \<leftarrow> evr_pull_u8 (evr_init_buf_pos b);
         (f, bp2) \<leftarrow> evr_pull_u8 bp1;
         (t, bp3) \<leftarrow> evr_pull_be bp2 8;
         Some \<lparr>bf_sort_order = s, bf_flags_filter = f, bf_last_modified_after = t\<rparr> }"

definition evr_format_blob_filter :: "bytes \<Rightarrow> evr_blob_filter \<Rightarrow> bytes option" where
  "evr_format_blob_filter b f =
    do { bp1 \<leftarrow> evr_push_u8 (evr_init_buf_pos b) (bf_sort_order f);
         bp2 \<leftarrow> evr_push_u8 bp1 (bf_flags_filter f);
         bp3 \<leftarrow> evr_push_be64 bp2 (bf_last_modified_after f);
         Some (buf bp3) }"

definition evr_parse_watch_blobs_body :: "bytes \<Rightarrow> evr_watch_blobs_body option" where
  "evr_parse_watch_blobs_body b =
    do { (k, bp1) \<leftarrow> evr_pull_n (evr_init_buf_pos b) evr_blob_ref_size;
         (t, bp2) \<leftarrow> evr_pull_be bp1 8;
         (f, bp3) \<leftarrow> evr_pull_u8 bp2;
         Some \<lparr>wbb_key = k, wbb_last_modified = t, wbb_flags = f\<rparr> }"

section \<open>What a pair promises\<close>

locale fixed_codec =
  fixes fmt :: "bytes \<Rightarrow> 'a \<Rightarrow> bytes option" and prs :: "bytes \<Rightarrow> 'a option" and n :: nat and fits :: "'a \<Rightarrow> bool"
  assumes fmt_total: "length b = n \<Longrightarrow> \<exists>b'. fmt b x = Some b' \<and> length b' = n"
    and prs_fmt: "length b = n \<Longrightarrow> fits x \<Longrightarrow> fmt b x = Some b' \<Longrightarrow> prs b' = Some x"
    and fmt_prs: "length b = n \<Longrightarrow> length b' = n \<Longrightarrow> \<exists>x. prs b' = Some x \<and> fits x \<and> fmt b x = Some b'"
begin

text \<open>The old content of the array does not show, and different values have different bytes.\<close>

lemma fmt_any_array: "length b = n \<Longrightarrow> length c = n \<Longrightarrow> fits x \<Longrightarrow> fmt b x = fmt c x"
  using fmt_total [of b x] fmt_total [of c x] prs_fmt fmt_prs by (metis option.inject)

lemma fmt_inj: "length b = n \<Longrightarrow> fits x \<Longrightarrow> fits y \<Longrightarrow> fmt b x = fmt b y \<Longrightarrow> x = y"
  using fmt_total [of b x] prs_fmt by (metis option.inject)

end

text \<open>A value that was sent is received, however short the reads are.\<close>

locale sent_codec = evr_reliable_reader rd stream valid + fixed_codec fmt prs n fits
  for rd :: "'f reader" and stream :: "'f \<Rightarrow> bytes" and valid :: "'f \<Rightarrow> bool"
    and fmt :: "bytes \<Rightarrow> 'a \<Rightarrow> bytes option" and prs :: "bytes \<Rightarrow> 'a option" and n :: nat and fits :: "'a \<Rightarrow> bool"
begin

lemma sent_received:
  assumes "length b = n" "fits x" "fmt b x = Some b'" "valid f" "stream f = b' @ rest"
  shows "\<exists>c f'. read_n rd no_se f n () = (Evr_ok, b', c, f') \<and> prs b' = Some x \<and> stream f' = rest \<and> valid f'"
proof -
  have se: "fst (no_se c d) = Evr_ok" for c :: unit and d by (simp add: no_se_def)
  have "length b' = n" using fmt_total [OF assms(1), of x] assms(3) by auto
  with read_n_reliable [where se = no_se and n = n and ctx = "()", OF se assms(4)] assms prs_fmt [OF assms(1-3)] show ?thesis by auto
qed

end

section \<open>The pairs\<close>

definition byte_fits :: "c_int \<Rightarrow> bool" where "byte_fits x = (unat x < 256)"

lemma byte_fits_ucast: "byte_fits x \<Longrightarrow> ucast (ucast x :: byte) = x"
  by (simp add: byte_fits_def word_eq_iff_unsigned [where ?'a = nat] unsigned_ucast_eq unsigned_take_bit_eq take_bit_nat_eq_self)

lemma byte_fits_of_byte: "byte_fits (ucast (b :: byte))"
  using unat_lt_256 [of b] order_le_less_trans [OF take_bit_nat_less_eq_self]
  by (auto simp: byte_fits_def unsigned_ucast_eq)

lemma push_u8_be32:
  assumes "length b = 5"
  shows "do { bp1 \<leftarrow> evr_push_u8 (evr_init_buf_pos b) (x :: c_int);
      bp2 \<leftarrow> evr_push_be32 bp1 (k :: 64 word); Some (buf bp2) } = Some (ucast x # be32 (ucast k))"
  using assms by (simp add: push_runs)

lemma pull_u8_be32:
  "do { (t, bp1) \<leftarrow> evr_pull_u8 (evr_init_buf_pos (c # be32 w)); (m, bp2) \<leftarrow> evr_pull_be bp1 4;
      Some (f (t :: c_int) (m :: 64 word)) } = Some (f (ucast c) (ucast w))"
  by (simp add: pull_runs pull_be32_at_pos [of _ _ "[]", simplified])

lemma five_bytes:
  assumes "length b = 5"
  obtains c w where "b = c # be32 w"
proof -
  from assms obtain c r where "b = c # r" "length r = 4" by (cases b) auto
  then show thesis using that be32_be_val [of r] by metis
qed

lemma ucast_32_64: "unat (ucast (w :: 32 word) :: 64 word) = unat w" "ucast (ucast w :: 64 word) = w"
  "ucast (ucast (c :: byte) :: c_int) = c"
proof -
  have lt: "unat w < 2 ^ 32" "unat c < 2 ^ 8" using unsigned_less [of w, where ?'a = nat] unsigned_less [of c, where ?'a = nat] by simp_all
  then show "unat (ucast w :: 64 word) = unat w"
    by (simp add: unsigned_ucast_eq unsigned_take_bit_eq take_bit_nat_eq_self)
  show "ucast (ucast w :: 64 word) = w"
    using lt by (simp add: word_eq_iff_unsigned [where ?'a = nat] unsigned_ucast_eq unsigned_take_bit_eq take_bit_nat_eq_self)
  have "unat c < 2 ^ 32" using lt(2) by (rule order_less_trans) simp
  then show "ucast (ucast c :: c_int) = c"
    by (simp add: word_eq_iff_unsigned [where ?'a = nat] unsigned_ucast_eq unsigned_take_bit_eq take_bit_nat_eq_self)
qed

lemma ucast_64_32: "k < 4294967296 \<Longrightarrow> unat (ucast (word_of_nat k :: 64 word) :: 32 word) = k"
  by (simp add: unsigned_ucast_eq unsigned_of_nat take_bit_nat_eq_self)

definition cmd_header_fits :: "evr_cmd_header \<Rightarrow> bool" where
  "cmd_header_fits h = (byte_fits (ch_type h) \<and> ch_body_size h < 2 ^ 32)"

definition resp_header_fits :: "evr_resp_header \<Rightarrow> bool" where
  "resp_header_fits h = (byte_fits (rh_status_code h) \<and> rh_body_size h < 2 ^ 32)"

definition stat_blob_resp_fits :: "evr_stat_blob_resp \<Rightarrow> bool" where
  "stat_blob_resp_fits r = (byte_fits (sr_flags r) \<and> sr_blob_size r < 2 ^ 32)"

definition blob_filter_fits :: "evr_blob_filter \<Rightarrow> bool" where
  "blob_filter_fits f = (byte_fits (bf_sort_order f) \<and> byte_fits (bf_flags_filter f))"

lemmas fixed_size_run = push_u8_be32 pull_u8_be32 byte_fits_ucast byte_fits_of_byte ucast_64_32 ucast_32_64

interpretation cmd_header: fixed_codec evr_format_cmd_header evr_parse_cmd_header evr_cmd_header_n_size cmd_header_fits
proof (unfold_locales, goal_cases)
  case (2 b x b')
  then show ?case by (cases x) (auto simp: evr_format_cmd_header_def evr_parse_cmd_header_def cmd_header_fits_def fixed_size_run evr_layout)
next
  case (3 b b')
  then obtain c w where "b' = c # be32 w" by (auto simp: evr_layout elim: five_bytes)
  with 3 unsigned_less [of w, where ?'a = nat] show ?case
    by (auto simp: evr_format_cmd_header_def evr_parse_cmd_header_def cmd_header_fits_def fixed_size_run evr_layout)
qed (auto simp: evr_format_cmd_header_def evr_parse_cmd_header_def cmd_header_fits_def fixed_size_run evr_layout)

interpretation resp_header: fixed_codec evr_format_resp_header evr_parse_resp_header evr_resp_header_n_size resp_header_fits
proof (unfold_locales, goal_cases)
  case (2 b x b')
  then show ?case by (cases x) (auto simp: evr_format_resp_header_def evr_parse_resp_header_def resp_header_fits_def fixed_size_run evr_layout)
next
  case (3 b b')
  then obtain c w where "b' = c # be32 w" by (auto simp: evr_layout elim: five_bytes)
  with 3 unsigned_less [of w, where ?'a = nat] show ?case
    by (auto simp: evr_format_resp_header_def evr_parse_resp_header_def resp_header_fits_def fixed_size_run evr_layout)
qed (auto simp: evr_format_resp_header_def evr_parse_resp_header_def resp_header_fits_def fixed_size_run evr_layout)

interpretation stat_blob_resp: fixed_codec evr_format_stat_blob_resp evr_parse_stat_blob_resp evr_stat_blob_resp_n_size stat_blob_resp_fits
proof (unfold_locales, goal_cases)
  case (2 b x b')
  then show ?case by (cases x) (auto simp: evr_format_stat_blob_resp_def evr_parse_stat_blob_resp_def stat_blob_resp_fits_def fixed_size_run evr_layout)
next
  case (3 b b')
  then obtain c w where "b' = c # be32 w" by (auto simp: evr_layout elim: five_bytes)
  with 3 unsigned_less [of w, where ?'a = nat] show ?case
    by (auto simp: evr_format_stat_blob_resp_def evr_parse_stat_blob_resp_def stat_blob_resp_fits_def fixed_size_run evr_layout)
qed (auto simp: evr_format_stat_blob_resp_def evr_parse_stat_blob_resp_def stat_blob_resp_fits_def fixed_size_run evr_layout)

lemma ten_bytes:
  assumes "length b = 10"
  obtains c d w where "b = c # d # be64 w"
proof -
  from assms obtain c d r where "b = c # d # r" "length r = 8" by (cases b; cases "tl b") auto
  then show thesis using that be64_be_val [of r] by metis
qed

lemma push_blob_filter:
  "length b = 10 \<Longrightarrow> evr_format_blob_filter b f =
    Some (ucast (bf_sort_order f) # ucast (bf_flags_filter f) # be64 (bf_last_modified_after f))"
  by (simp add: evr_format_blob_filter_def push_runs)

lemma pull_blob_filter:
  "evr_parse_blob_filter (c # d # be64 w) =
    Some \<lparr>bf_sort_order = ucast c, bf_flags_filter = ucast d, bf_last_modified_after = w\<rparr>"
  by (simp add: evr_parse_blob_filter_def pull_runs pull_be64_at_pos [of _ _ "[]", simplified])

interpretation blob_filter: fixed_codec evr_format_blob_filter evr_parse_blob_filter evr_blob_filter_n_size blob_filter_fits
proof (unfold_locales, goal_cases)
  case (2 b x b')
  then show ?case by (cases x) (auto simp: push_blob_filter pull_blob_filter blob_filter_fits_def byte_fits_ucast evr_layout)
next
  case (3 b b')
  then obtain c d w where "b' = c # d # be64 w" by (auto simp: evr_layout elim: ten_bytes)
  with 3 show ?case by (auto simp: push_blob_filter pull_blob_filter blob_filter_fits_def fixed_size_run evr_layout)
qed (auto simp: push_blob_filter evr_layout)

interpretation fd_cmd: sent_codec evr_file_fd_read fd_in fd_never_fails
  evr_format_cmd_header evr_parse_cmd_header evr_cmd_header_n_size cmd_header_fits ..

interpretation fd_resp: sent_codec evr_file_fd_read fd_in fd_never_fails
  evr_format_resp_header evr_parse_resp_header evr_resp_header_n_size resp_header_fits ..

lemma parse_watch_blobs_body:
  assumes "length key = evr_blob_ref_size"
  shows "evr_parse_watch_blobs_body (key @ be64 t @ [fl]) = Some \<lparr>wbb_key = key, wbb_last_modified = t, wbb_flags = ucast fl\<rparr>"
  using assms by (simp add: evr_parse_watch_blobs_body_def pull_runs)

section \<open>Properties\<close>

text \<open>
  The headers of the storage protocol are self-inverse. Formatting a command header, a response
  header, a stat response or a blob filter and parsing the bytes gives the value back, provided its
  type, status and flags fit into a byte and its sizes into 32 bits; conversely every array of the
  right size parses, to a value that formats to the same bytes.
\<close>

theorem protocol_headers_roundtrip:
  assumes "length b = 5" "length b' = 5" "length d = 10" "length d' = 10"
  shows "(cmd_header_fits h \<longrightarrow> (\<exists>x. evr_format_cmd_header b h = Some x \<and> evr_parse_cmd_header x = Some h)) \<and>
    (resp_header_fits r \<longrightarrow> (\<exists>x. evr_format_resp_header b r = Some x \<and> evr_parse_resp_header x = Some r)) \<and>
    (stat_blob_resp_fits s \<longrightarrow> (\<exists>x. evr_format_stat_blob_resp b s = Some x \<and> evr_parse_stat_blob_resp x = Some s)) \<and>
    (blob_filter_fits f \<longrightarrow> (\<exists>x. evr_format_blob_filter d f = Some x \<and> evr_parse_blob_filter x = Some f)) \<and>
    (\<exists>h. evr_parse_cmd_header b' = Some h \<and> evr_format_cmd_header b h = Some b') \<and>
    (\<exists>f. evr_parse_blob_filter d' = Some f \<and> evr_format_blob_filter d f = Some d')"
proof -
  have b: "length b = evr_cmd_header_n_size" "length b = evr_resp_header_n_size" "length b = evr_stat_blob_resp_n_size"
    "length b' = evr_cmd_header_n_size" "length d = evr_blob_filter_n_size" "length d' = evr_blob_filter_n_size"
    using assms by (simp_all add: evr_layout)
  show ?thesis
    using cmd_header.fmt_total [OF b(1), of h] cmd_header.prs_fmt [OF b(1), of h] cmd_header.fmt_prs [OF b(1,4)]
      resp_header.fmt_total [OF b(2), of r] resp_header.prs_fmt [OF b(2), of r]
      stat_blob_resp.fmt_total [OF b(3), of s] stat_blob_resp.prs_fmt [OF b(3), of s]
      blob_filter.fmt_total [OF b(5), of f] blob_filter.prs_fmt [OF b(5), of f] blob_filter.fmt_prs [OF b(5,6)]
    by blast
qed

theorem protocol_headers_roundtrip_witness:
  "\<exists>x. evr_format_cmd_header (replicate 5 0) \<lparr>ch_type = 2, ch_body_size = 70000\<rparr> = Some x \<and>
     evr_parse_cmd_header x = Some \<lparr>ch_type = 2, ch_body_size = 70000\<rparr>"
  using protocol_headers_roundtrip [of "replicate 5 0" "replicate 5 0" "replicate 10 0" "replicate 10 0"
      "\<lparr>ch_type = 2, ch_body_size = 70000\<rparr>"]
  by (simp add: cmd_header_fits_def byte_fits_def)

text \<open>
  A header that one side sends is the one the other side receives: reading the size of a header
  from a descriptor that does not fail, however short its reads are, and parsing it gives the value
  that was formatted, and the bytes behind it stay in the stream.
\<close>

theorem header_sent_is_received:
  assumes "fd_never_fails f" "cmd_header_fits h" "length b = evr_cmd_header_n_size"
    "evr_format_cmd_header b h = Some b'" "fd_in f = b' @ rest"
  shows "\<exists>c f'. read_n evr_file_fd_read no_se f evr_cmd_header_n_size () = (Evr_ok, b', c, f') \<and>
    evr_parse_cmd_header b' = Some h \<and> fd_in f' = rest"
  using fd_cmd.sent_received [OF assms(3,2,4,1,5)] by blast

theorem header_sent_is_received_witness:
  "\<exists>c f'. read_n evr_file_fd_read no_se \<lparr>fd_in = [1, 0, 0, 0, 28, 77], fd_out = [], fd_io = [Io_short 0, Io_short 1]\<rparr>
      evr_cmd_header_n_size () = (Evr_ok, [1, 0, 0, 0, 28], c, f') \<and>
    evr_parse_cmd_header [1, 0, 0, 0, 28] = Some \<lparr>ch_type = 1, ch_body_size = 28\<rparr>"
proof -
  have "evr_format_cmd_header (replicate 5 0) \<lparr>ch_type = 1, ch_body_size = 28\<rparr> = Some [1, 0, 0, 0, 28]"
    by (simp add: evr_format_cmd_header_def push_u8_be32 be32_def be_bytes_def)
  from header_sent_is_received [OF _ _ _ this, of "\<lparr>fd_in = [1, 0, 0, 0, 28, 77], fd_out = [], fd_io = [Io_short 0, Io_short 1]\<rparr>" "[77]"]
  show ?thesis by (auto simp: fd_never_fails_def cmd_header_fits_def byte_fits_def evr_layout)
qed

end
