(* ===== verification/Auth.thy ===== *)
theory Auth
  imports Keys
begin

text \<open>
  \<^verbatim>\<open>src/auth.h\<close> and \<^verbatim>\<open>src/auth.c\<close>: authentication tokens, their text form, and the chain of tokens
  per host and port that the command line options build. The chain refines a map; a token given
  later shadows an earlier one for the same host and port.
\<close>

type_synonym evr_auth_token = bytes

definition evr_auth_token_size :: nat where [evr_layout]: "evr_auth_token_size = 32"

definition evr_parse_auth_token :: "bytes \<Rightarrow> string \<Rightarrow> evr_code \<times> bytes" where
  "evr_parse_auth_token t s =
    (if length s \<noteq> 2 * evr_auth_token_size then (Evr_error, t) else parse_hex_loop False t 0 s)"

definition evr_fmt_auth_token :: "evr_auth_token \<Rightarrow> string" where
  "evr_fmt_auth_token t = fmt_hex_loop (take evr_auth_token_size t)"

record evr_auth_token_cfg =
  atc_host :: string
  atc_port :: string
  atc_token :: evr_auth_token

text \<open>
  The chain is the list of its nodes. \<open>old\<close> is what the local array for the token held, and
  \<open>mem\<close> whether \<^verbatim>\<open>malloc\<close> succeeds.
\<close>

definition evr_push_auth_token ::
  "bytes \<Rightarrow> bool \<Rightarrow> evr_auth_token_cfg list \<Rightarrow> string \<Rightarrow> string \<Rightarrow> string \<Rightarrow> evr_code \<times> evr_auth_token_cfg list" where
  "evr_push_auth_token old mem cfg host port token_str =
    (case evr_parse_auth_token old token_str of (r, token) \<Rightarrow>
       if r \<noteq> Evr_ok then (Evr_error, cfg)
       else if \<not> mem then (Evr_error, cfg)
       else (Evr_ok, \<lparr>atc_host = host, atc_port = port, atc_token = token\<rparr> # cfg))"

definition evr_parse_and_push_auth_token ::
  "bytes \<Rightarrow> bool \<Rightarrow> evr_auth_token_cfg list \<Rightarrow> string \<Rightarrow> evr_code \<times> evr_auth_token_cfg list" where
  "evr_parse_and_push_auth_token old mem cfg token_spec =
    (case evr_split_n 3 token_spec CHR '':'' of (r, b, fragments) \<Rightarrow>
       if r \<noteq> Evr_ok then (Evr_error, cfg)
       else evr_push_auth_token old mem cfg (c_str_at b (fragments ! 0)) (c_str_at b (fragments ! 1)) (c_str_at b (fragments ! 2)))"

fun evr_find_auth_token :: "evr_auth_token_cfg list \<Rightarrow> string \<Rightarrow> string \<Rightarrow> evr_code \<times> evr_auth_token_cfg option" where
  "evr_find_auth_token [] host port = (Evr_not_found, None)"
| "evr_find_auth_token (c # chain) host port =
    (if port \<noteq> atc_port c then evr_find_auth_token chain host port
     else if host \<noteq> atc_host c then evr_find_auth_token chain host port
     else (Evr_ok, Some c))"

section \<open>The chain as a map\<close>

definition auth_abs :: "evr_auth_token_cfg list \<Rightarrow> string \<times> string \<Rightarrow> evr_auth_token option" where
  "auth_abs chain = map_of (map (\<lambda>c. ((atc_host c, atc_port c), atc_token c)) chain)"

lemma find_auth_token_abs:
  "evr_find_auth_token chain host port = (r, c) \<Longrightarrow>
   map_option atc_token c = auth_abs chain (host, port) \<and> (r = Evr_ok \<longleftrightarrow> c \<noteq> None) \<and> (r = Evr_not_found \<longleftrightarrow> c = None)"
  by (induction chain) (auto simp: auth_abs_def split: if_splits)

lemma parse_fmt_auth_token:
  assumes "length t = evr_auth_token_size" "length old = evr_auth_token_size"
  shows "evr_parse_auth_token old (evr_fmt_auth_token t) = (Evr_ok, t)"
  using assms parse_fmt_hex_loop [of t old 0 False]
  by (simp add: evr_parse_auth_token_def evr_fmt_auth_token_def overwrite_all)

lemma split_n_spec:
  assumes "sep \<noteq> NUL" "NUL \<notin> set s" "0 < n" "evr_split_n n s sep = (r, b, offs)"
  shows "if length (split_on sep s) = n then r = Evr_ok \<and> map (c_str_at b) offs = split_on sep s else r = Evr_error"
  using assms split_n_loop_run [of sep "[]" s "[]" "[]" "[]" n r b offs] by (simp add: evr_split_n_def)

lemma split_on_app: "sep \<notin> set f \<Longrightarrow> split_on sep (f @ sep # rest) = f # split_on sep rest"
  by (simp add: split_on_append_other)

lemma hex_text_plain:
  assumes "c \<in> set (fmt_hex_loop t)"
  shows "c \<noteq> CHR '':'' \<and> c \<noteq> NUL"
proof -
  have "hex_digit c \<noteq> None" using assms by (induction t) (auto simp: fmt_02x_def)
  then show ?thesis by (auto simp: hex_digit_def split: if_splits)
qed

section \<open>Properties\<close>

text \<open>
  An authentication option \<^verbatim>\<open>host:port:token\<close> updates the map of tokens. When host and port hold
  no colon and the token is the text form of 32 bytes, \<^verbatim>\<open>evr_parse_and_push_auth_token\<close> makes the
  chain map the host and port to that token and leaves every other entry as it is, and
  \<^verbatim>\<open>evr_find_auth_token\<close> looks the map up. A specification with another number of colons changes
  nothing and is an error.
\<close>

theorem auth_chain_refines_map:
  assumes "CHR '':'' \<notin> set host" "CHR '':'' \<notin> set port" "NUL \<notin> set host" "NUL \<notin> set port"
    "length t = evr_auth_token_size" "length old = evr_auth_token_size"
  shows "(\<exists>chain'. evr_parse_and_push_auth_token old True chain (host @ '':'' @ port @ '':'' @ evr_fmt_auth_token t) = (Evr_ok, chain') \<and>
      auth_abs chain' = (auth_abs chain)((host, port) \<mapsto> t)) \<and>
    map_option atc_token (snd (evr_find_auth_token chain h p)) = auth_abs chain (h, p) \<and>
    (fst (evr_find_auth_token chain h p) = (if auth_abs chain (h, p) = None then Evr_not_found else Evr_ok)) \<and>
    (NUL \<notin> set spec \<and> length (split_on CHR '':'' spec) \<noteq> 3 \<longrightarrow> evr_parse_and_push_auth_token old mem chain spec = (Evr_error, chain))"
proof -
  let ?s = "host @ '':'' @ port @ '':'' @ evr_fmt_auth_token t"
  have plain: "CHR '':'' \<notin> set (evr_fmt_auth_token t)" "NUL \<notin> set (evr_fmt_auth_token t)"
    using hex_text_plain by (auto simp: evr_fmt_auth_token_def)
  have sp: "split_on CHR '':'' ?s = [host, port, evr_fmt_auth_token t]"
    using split_on_app [OF assms(1)] split_on_app [OF assms(2)] split_on_no_sep [OF plain(1)] by simp
  obtain r b offs where n: "evr_split_n 3 ?s CHR '':'' = (r, b, offs)" using prod_cases3 by blast
  have "NUL \<notin> set ?s" using assms(3,4) plain(2) by simp
  from split_n_spec [OF _ this _ n] sp have ok: "r = Evr_ok" "map (c_str_at b) offs = [host, port, evr_fmt_auth_token t]" by simp_all
  then have "length offs = 3" by (metis length_map list.size(3,4) One_nat_def add_Suc numeral_3_eq_3 plus_nat.add_0 Suc_eq_plus1)
  with ok(2) have fr: "c_str_at b (offs ! 0) = host" "c_str_at b (offs ! 1) = port" "c_str_at b (offs ! 2) = evr_fmt_auth_token t"
    using nth_map [of 0 offs "c_str_at b"] nth_map [of 1 offs "c_str_at b"] nth_map [of 2 offs "c_str_at b"] by simp_all
  have "evr_parse_and_push_auth_token old True chain ?s = (Evr_ok, \<lparr>atc_host = host, atc_port = port, atc_token = t\<rparr> # chain)"
    unfolding evr_parse_and_push_auth_token_def n
    using ok(1) fr parse_fmt_auth_token [OF assms(5,6)] by (simp add: evr_push_auth_token_def)
  moreover have "evr_parse_and_push_auth_token old mem chain spec = (Evr_error, chain)"
    if "NUL \<notin> set spec" "length (split_on CHR '':'' spec) \<noteq> 3"
  proof -
    obtain r b offs where n: "evr_split_n 3 spec CHR '':'' = (r, b, offs)" using prod_cases3 by blast
    from split_n_spec [OF _ that(1) _ n] that(2) have "r = Evr_error" by simp
    with n show ?thesis by (simp add: evr_parse_and_push_auth_token_def)
  qed
  moreover obtain fr fc where f: "evr_find_auth_token chain h p = (fr, fc)" by fastforce
  note find_auth_token_abs [OF f]
  ultimately show ?thesis using f by (auto simp: auth_abs_def)
qed

theorem auth_chain_refines_map_witness:
  "\<exists>chain'. evr_parse_and_push_auth_token (replicate 32 0) True [] (''localhost'' @ '':'' @ ''2361'' @ '':'' @ evr_fmt_auth_token (replicate 32 7))
      = (Evr_ok, chain') \<and> auth_abs chain' (''localhost'', ''2361'') = Some (replicate 32 7)"
  using auth_chain_refines_map [of "''localhost''" "''2361''" "replicate 32 7" "replicate 32 0" "[]" "[]" "[]" "[]" True]
  by (auto simp: evr_layout)

end
