(* ===== verification/Storage_Server.thy ===== *)
theory Storage_Server
  imports Persister Glacier_Read Glacier_Cmd Auth
begin

text \<open>
  \<^verbatim>\<open>src/evr-glacier-storage.c\<close>: what a connection of the storage server does, from the
  authentication over the dispatch of commands to its end. The socket is a file of which only the
  calls \<open>rd\<close> and \<open>wr\<close> are known. The state is the one of the persister, which other connections and
  the worker of the persister change: \<open>others\<close> is what they do while a handler waits.
\<close>

section \<open>Connections and responses\<close>

record 's evr_connection =
  cn_socket :: 's
  cn_sync_strategy :: sync_strategy

definition evr_auth_type_token :: c_int where "evr_auth_type_token = 1"

definition evr_authenticate_client :: "'s reader \<Rightarrow> evr_auth_token \<Rightarrow> 's \<Rightarrow> evr_code \<times> 's" where
  "evr_authenticate_client rd cfg_token c =
    (case read_n rd no_se c (1 + evr_auth_token_size) () of (r, b, _, c1) \<Rightarrow>
       if r \<noteq> Evr_ok then (Evr_error, c1)
       else case do { (t, bp1) \<leftarrow> evr_pull_u8 (evr_init_buf_pos b); (token, bp2) \<leftarrow> evr_pull_n bp1 evr_auth_token_size;
                      Some (t :: c_int, token) } of
           None \<Rightarrow> (Evr_error, c1)
         | Some (auth_type, token) \<Rightarrow>
            if auth_type \<noteq> evr_auth_type_token then (Evr_user_data_invalid, c1)
            else if cfg_token \<noteq> token then (Evr_user_data_invalid, c1)
            else (Evr_ok, c1))"

text \<open>
  The buffer of a response header is on the stack and all of it is overwritten; what follows the
  header in the same write is \<open>body\<close>.
\<close>

definition send_resp :: "'s writer \<Rightarrow> 's \<Rightarrow> evr_resp_header \<Rightarrow> bytes \<Rightarrow> evr_code \<times> 's" where
  "send_resp wr f resp body =
    (case evr_format_resp_header (replicate evr_resp_header_n_size 0) resp of
       None \<Rightarrow> (Evr_error, f)
     | Some h \<Rightarrow> (case write_n wr f (h @ body) of (r, f1) \<Rightarrow> (if r \<noteq> Evr_ok then Evr_error else Evr_ok, f1)))"

definition evr_ensure_worker_rctx_exists :: "'d index_db \<Rightarrow> bool \<Rightarrow> 'd world \<Rightarrow> evr_code \<times> bool \<times> 'd world" where
  "evr_ensure_worker_rctx_exists S rctx w =
    (if rctx then (Evr_ok, True, w)
     else case evr_create_glacier_read_ctx S w of (ok, w1) \<Rightarrow> (if ok then Evr_ok else Evr_error, ok, w1))"

section \<open>Commands\<close>

definition evr_unknown_request :: c_int where "evr_unknown_request = 7"

definition evr_work_unknown_cmd ::
  "'s reader \<Rightarrow> 's writer \<Rightarrow> evr_cmd_header \<Rightarrow> 's evr_connection \<Rightarrow> evr_code \<times> 's evr_connection" where
  "evr_work_unknown_cmd rd wr cmd ctx =
    (case dump_n_bytes rd no_se (cn_socket ctx) (ch_body_size cmd) () of (r, _, c1) \<Rightarrow>
       if r \<noteq> Evr_ok then (Evr_error, ctx\<lparr>cn_socket := c1\<rparr>)
       else case send_resp wr c1 \<lparr>rh_status_code = evr_unknown_request, rh_body_size = 0\<rparr> [] of (r, c2) \<Rightarrow>
         (r, ctx\<lparr>cn_socket := c2\<rparr>))"

definition send_get_response :: "'s writer \<Rightarrow> 's status_cb" where
  "send_get_response wr f ex flags blob_size =
    (if ex then send_resp wr f \<lparr>rh_status_code = evr_status_code_ok, rh_body_size = 1 + blob_size\<rparr> [ucast flags]
     else send_resp wr f \<lparr>rh_status_code = evr_status_code_blob_not_found, rh_body_size = 0\<rparr> [])"

definition pipe_data :: "'s writer \<Rightarrow> 's side_effect" where
  "pipe_data wr f d = write_n wr f d"

definition evr_work_get_blob ::
  "'d index_db \<Rightarrow> 's reader \<Rightarrow> 's writer \<Rightarrow> evr_cmd_header \<Rightarrow> 's evr_connection \<Rightarrow> bool \<Rightarrow> 'd world
   \<Rightarrow> (evr_code \<times> 's evr_connection \<times> bool \<times> 'd world) option" where
  "evr_work_get_blob S rd wr cmd ctx rctx w =
    (if ch_body_size cmd \<noteq> evr_blob_ref_size then Some (Evr_error, ctx, rctx, w)
     else case read_n rd no_se (cn_socket ctx) evr_blob_ref_size () of (r, key, _, c1) \<Rightarrow>
       if r \<noteq> Evr_ok then Some (Evr_error, ctx\<lparr>cn_socket := c1\<rparr>, rctx, w)
       else case evr_ensure_worker_rctx_exists S rctx w of (r, rctx1, w1) \<Rightarrow>
         if r \<noteq> Evr_ok then Some (Evr_error, ctx\<lparr>cn_socket := c1\<rparr>, rctx1, w1)
         else case evr_glacier_read_blob S key (send_get_response wr) (pipe_data wr) c1 w1 of
             None \<Rightarrow> None
           | Some (r, c2, w2) \<Rightarrow>
              Some (if r \<noteq> Evr_ok \<and> r \<noteq> Evr_not_found then Evr_error else Evr_ok, ctx\<lparr>cn_socket := c2\<rparr>, rctx1, w2))"

definition evr_work_stat_blob ::
  "'d index_db \<Rightarrow> 's reader \<Rightarrow> 's writer \<Rightarrow> evr_cmd_header \<Rightarrow> 's evr_connection \<Rightarrow> bool \<Rightarrow> 'd world
   \<Rightarrow> evr_code \<times> 's evr_connection \<times> bool \<times> 'd world" where
  "evr_work_stat_blob S rd wr cmd ctx rctx w =
    (if ch_body_size cmd \<noteq> evr_blob_ref_size then (Evr_error, ctx, rctx, w)
     else case read_n rd no_se (cn_socket ctx) evr_blob_ref_size () of (r, key, _, c1) \<Rightarrow>
       if r \<noteq> Evr_ok then (Evr_error, ctx\<lparr>cn_socket := c1\<rparr>, rctx, w)
       else case evr_ensure_worker_rctx_exists S rctx w of (r, rctx1, w1) \<Rightarrow>
         if r \<noteq> Evr_ok then (Evr_error, ctx\<lparr>cn_socket := c1\<rparr>, rctx1, w1)
         else case evr_glacier_stat_blob S w1 key of
             (Evr_not_found, _) \<Rightarrow>
               (case send_resp wr c1 \<lparr>rh_status_code = evr_status_code_blob_not_found, rh_body_size = 0\<rparr> [] of (r, c2) \<Rightarrow>
                  (r, ctx\<lparr>cn_socket := c2\<rparr>, rctx1, w1))
           | (Evr_ok, Some st) \<Rightarrow>
               (case evr_format_stat_blob_resp (replicate evr_stat_blob_resp_n_size 0)
                   \<lparr>sr_flags = bs_flags st, sr_blob_size = bs_blob_size st\<rparr> of
                  None \<Rightarrow> (Evr_error, ctx\<lparr>cn_socket := c1\<rparr>, rctx1, w1)
                | Some body \<Rightarrow>
                   (case send_resp wr c1 \<lparr>rh_status_code = evr_status_code_ok, rh_body_size = evr_stat_blob_resp_n_size\<rparr> body of
                      (r, c2) \<Rightarrow> (r, ctx\<lparr>cn_socket := c2\<rparr>, rctx1, w1)))
           | _ \<Rightarrow> (Evr_error, ctx\<lparr>cn_socket := c1\<rparr>, rctx1, w1))"

definition sync_strategy_of :: "byte \<Rightarrow> sync_strategy" where
  "sync_strategy_of b = (if b = 1 then Sync_per_blob else if b = 2 then Sync_avoid else Sync_default)"

definition evr_work_configure_connection ::
  "'s reader \<Rightarrow> 's writer \<Rightarrow> evr_cmd_header \<Rightarrow> 's evr_connection \<Rightarrow> evr_code \<times> 's evr_connection" where
  "evr_work_configure_connection rd wr cmd ctx =
    (if ch_body_size cmd < 1 \<or> ch_body_size cmd > 512 then (Evr_error, ctx)
     else case read_n rd no_se (cn_socket ctx) (ch_body_size cmd) () of (r, b, _, c1) \<Rightarrow>
       if r \<noteq> Evr_ok then (Evr_error, ctx\<lparr>cn_socket := c1\<rparr>)
       else case send_resp wr c1 \<lparr>rh_status_code = evr_status_code_ok, rh_body_size = 0\<rparr> [] of (r, c2) \<Rightarrow>
         (r, \<lparr>cn_socket = c2, cn_sync_strategy = sync_strategy_of (hd b)\<rparr>))"

subsection \<open>Put\<close>

text \<open>The results of the calls of libgcrypt and of the thread library on the way.\<close>

record put_calls =
  pb_hd_open :: bool
  pb_mtx_init :: bool
  pb_done_lock :: bool
  pb_done_unlock :: bool
  pb_sync :: sync
  pb_wait_lock :: bool

definition put_ok :: put_calls where
  "put_ok = \<lparr>pb_hd_open = True, pb_mtx_init = True, pb_done_lock = True, pb_done_unlock = True, pb_sync = sync_ok, pb_wait_lock = True\<rparr>"

text \<open>The size of the blob is computed at the width of \<^verbatim>\<open>size_t\<close>: a body without flags wraps around.\<close>

definition put_blob_size :: "nat \<Rightarrow> nat" where
  "put_blob_size body_size = unat ((word_of_nat body_size :: 64 word) - word_of_nat evr_blob_ref_size - 1)"

definition put_receive ::
  "(bytes \<Rightarrow> bytes) \<Rightarrow> 's reader \<Rightarrow> (nat \<Rightarrow> bytes option) \<Rightarrow> bool \<Rightarrow> evr_cmd_header \<Rightarrow> 's evr_connection
   \<Rightarrow> evr_writing_blob option \<times> 's evr_connection" where
  "put_receive sha3_224 rd alloc hd_open cmd ctx =
    (if ch_body_size cmd < evr_blob_ref_size then (None, ctx)
     else let blob_size = put_blob_size (ch_body_size cmd) in
     if blob_size > evr_max_blob_data_size then (None, ctx)
     else case read_n rd no_se (cn_socket ctx) evr_blob_ref_size () of (r, key, _, c1) \<Rightarrow>
     if r \<noteq> Evr_ok then (None, ctx\<lparr>cn_socket := c1\<rparr>)
     else case read_n rd no_se c1 1 () of (r, flags, _, c2) \<Rightarrow>
     if r \<noteq> Evr_ok then (None, ctx\<lparr>cn_socket := c2\<rparr>)
     else if \<not> hd_open then (None, ctx\<lparr>cn_socket := c2\<rparr>)
     else case read_into_chunks rd evr_blob_ref_write_se alloc c2 blob_size [] of (blob, md, c3) \<Rightarrow>
     case blob of
       None \<Rightarrow> (None, ctx\<lparr>cn_socket := c3\<rparr>)
     | Some cs \<Rightarrow>
        if evr_blob_ref_hd_match sha3_224 md key \<noteq> Evr_ok then (None, ctx\<lparr>cn_socket := c3\<rparr>)
        else (Some \<lparr>wb_key = key, wb_flags = ucast (hd flags), wb_size = blob_size,
               wb_sync_strategy = (if cn_sync_strategy ctx = Sync_default then Sync_per_blob else cn_sync_strategy ctx),
               wb_chunks = cs_chunks cs\<rparr>, ctx\<lparr>cn_socket := c3\<rparr>))"

text \<open>
  The task has the address \<open>t\<close> of a variable on the stack. \<open>None\<close> means that the client waits for
  the lock of the task forever.
\<close>

definition put_persist ::
  "put_calls \<Rightarrow> ('d pstate \<Rightarrow> 'd pstate) \<Rightarrow> nat \<Rightarrow> evr_writing_blob \<Rightarrow> 'd pstate \<Rightarrow> (evr_code \<times> 'd pstate) option" where
  "put_persist pb others t wblob s =
    (case evr_persister_init_task (pb_mtx_init pb) (ps_tasks s t) wblob of (r, k) \<Rightarrow>
     let s1 = s\<lparr>ps_tasks := (ps_tasks s)(t := k)\<rparr> in
     if r \<noteq> Evr_ok then Some (Evr_error, s1)
     else case evr_persister_queue_task (pb_done_lock pb) (pb_done_unlock pb) (pb_sync pb) t (ps_p s1) (ps_tasks s1) of
       None \<Rightarrow> None
     | Some (r, p2, tasks2) \<Rightarrow>
       (let s2 = s1\<lparr>ps_p := p2, ps_tasks := tasks2, ps_accepted := if r = Evr_ok then ps_accepted s1 @ [t] else ps_accepted s1\<rparr> in
        if r \<noteq> Evr_ok then Some (Evr_error, s2)
        else let s3 = others s2 in
        case evr_persister_wait_for_task (pb_wait_lock pb) t (ps_tasks s3) of
          None \<Rightarrow> None
        | Some (r, tasks4) \<Rightarrow>
           (let s4 = s3\<lparr>ps_tasks := tasks4\<rparr> in
            if r \<noteq> Evr_ok then Some (Evr_error, s4)
            else if tk_result (tasks4 t) \<noteq> Evr_ok then Some (Evr_error, s4)
            else Some (Evr_ok, s4))))"

definition evr_work_put_blob ::
  "(bytes \<Rightarrow> bytes) \<Rightarrow> 's reader \<Rightarrow> 's writer \<Rightarrow> (nat \<Rightarrow> bytes option) \<Rightarrow> put_calls \<Rightarrow> ('d pstate \<Rightarrow> 'd pstate) \<Rightarrow> nat
   \<Rightarrow> evr_cmd_header \<Rightarrow> 's evr_connection \<Rightarrow> 'd pstate \<Rightarrow> (evr_code \<times> 's evr_connection \<times> 'd pstate) option" where
  "evr_work_put_blob sha3_224 rd wr alloc pb others t cmd ctx s =
    (case put_receive sha3_224 rd alloc (pb_hd_open pb) cmd ctx of (blob, ctx1) \<Rightarrow>
     case blob of
       None \<Rightarrow> Some (Evr_error, ctx1, s)
     | Some wblob \<Rightarrow>
       (case put_persist pb others t wblob s of
          None \<Rightarrow> None
        | Some (r, s1) \<Rightarrow>
           if r \<noteq> Evr_ok then Some (Evr_error, ctx1, s1)
           else case send_resp wr (cn_socket ctx1) \<lparr>rh_status_code = evr_status_code_ok, rh_body_size = 0\<rparr> [] of
             (r, c2) \<Rightarrow> Some (r, ctx1\<lparr>cn_socket := c2\<rparr>, s1)))"

subsection \<open>Watch\<close>

definition evr_list_blobs_blobs_len :: nat where "evr_list_blobs_blobs_len = 1000 div (evr_blob_ref_size + 8)"

record 's evr_list_blobs_ctx =
  lc_socket :: 's
  lc_blobs :: "evr_modified_blob list"

definition watch_entry :: "evr_modified_blob \<Rightarrow> bytes" where
  "watch_entry b = take evr_blob_ref_size (mb_key b) @ be64 (mb_last_modified b) @ [ucast (mb_flags b)]"

definition evr_flush_list_blobs_ctx :: "'s writer \<Rightarrow> 's evr_list_blobs_ctx \<Rightarrow> evr_code \<times> 's evr_list_blobs_ctx" where
  "evr_flush_list_blobs_ctx wr ctx =
    (if lc_blobs ctx = [] then (Evr_ok, ctx)
     else case write_n wr (lc_socket ctx) (concat (map watch_entry (lc_blobs ctx))) of (r, f) \<Rightarrow>
       if r \<noteq> Evr_ok then (Evr_error, ctx\<lparr>lc_socket := f\<rparr>) else (Evr_ok, \<lparr>lc_socket = f, lc_blobs = []\<rparr>))"

definition evr_handle_blob_list :: "'s writer \<Rightarrow> 's evr_list_blobs_ctx list_visitor" where
  "evr_handle_blob_list wr ctx key flags last_modified last_blob =
    (case (if length (lc_blobs ctx) = evr_list_blobs_blobs_len then evr_flush_list_blobs_ctx wr ctx else (Evr_ok, ctx)) of
       (r, ctx1) \<Rightarrow>
         if r \<noteq> Evr_ok then (Evr_error, ctx1)
         else (Evr_ok, ctx1\<lparr>lc_blobs := lc_blobs ctx1 @ [\<lparr>mb_key = key, mb_last_modified = last_modified,
                 mb_flags = (if last_blob then 1 else 0)\<rparr>]\<rparr>))"

text \<open>
  What the loop of a live watch meets in step \<open>i\<close>: whether the server still runs, whether the peer
  shut the connection down or hung up, and the calls of \<^verbatim>\<open>evr_queue_take\<close>.
\<close>

record watch_env =
  we_running :: "nat \<Rightarrow> bool"
  we_shutdown :: "nat \<Rightarrow> bool"
  we_hang_up :: "nat \<Rightarrow> evr_code"
  we_sync :: "nat \<Rightarrow> sync"
  we_others :: "nat \<Rightarrow> evr_queue \<Rightarrow> evr_queue"

text \<open>\<open>inner\<close> tells which of the two nested loops goes on.\<close>

partial_function (option) watch_loop ::
  "'s writer \<Rightarrow> watch_env \<Rightarrow> bool \<Rightarrow> nat \<Rightarrow> evr_queue \<Rightarrow> 's \<Rightarrow> (evr_code exec \<times> evr_queue \<times> 's) option" where
  "watch_loop wr e inner i q f =
    (if \<not> we_running e i then Some (Ret Evr_ok, q, f)
     else if \<not> inner then
       (if we_shutdown e i then Some (Ret Evr_end, q, f) else watch_loop wr e True (Suc i) q f)
     else case evr_queue_take (we_sync e i) (we_others e i) q of
         None \<Rightarrow> Some (Panic, q, f)
       | Some (r, m, q1) \<Rightarrow>
          if r = Evr_not_found then
            (if \<not> we_running e (Suc i) then Some (Ret Evr_ok, q1, f)
             else if we_hang_up e i = Evr_end then Some (Ret Evr_end, q1, f)
             else if we_hang_up e i \<noteq> Evr_ok then Some (Ret Evr_error, q1, f)
             else watch_loop wr e False (Suc (Suc i)) q1 f)
          else if r \<noteq> Evr_ok then Some (Ret Evr_error, q1, f)
          else case write_n wr f (watch_entry ((mem_modified_blob (case m of None \<Rightarrow> [] | Some x \<Rightarrow> x))\<lparr>mb_flags := evr_watch_flag_eob\<rparr>)) of
              (r, f1) \<Rightarrow> if r \<noteq> Evr_ok then Some (Ret Evr_error, q1, f1) else watch_loop wr e True (Suc i) q1 f1)"

text \<open>
  \<open>watcher\<close> is the address of the queue of modified blobs, if there is one. The queue is gone from
  the table of the persister before the handler returns.
\<close>

definition watch_end ::
  "sync \<Rightarrow> sync \<Rightarrow> nat option \<Rightarrow> evr_code exec \<Rightarrow> 'd pstate \<Rightarrow> evr_code exec \<times> 'd pstate" where
  "watch_end s0 s1 watcher ret s =
    (case watcher of
       None \<Rightarrow> (ret, s)
     | Some a \<Rightarrow>
        (case evr_persister_rm_watcher s0 s1 (ps_p s) (Some a) (ps_h s) of (x, p', h') \<Rightarrow>
           (case x of Ret r \<Rightarrow> if r = Evr_ok then ret else Panic | _ \<Rightarrow> x, s\<lparr>ps_p := p', ps_h := h'\<rparr>)))"

record watch_calls =
  wa_env :: watch_env
  wa_new :: "(nat \<times> evr_queue) option"
  wa_add :: sync
  wa_rm0 :: sync
  wa_rm1 :: sync

definition watch_list ::
  "'d index_db \<Rightarrow> 's writer \<Rightarrow> watch_calls \<Rightarrow> evr_blob_filter \<Rightarrow> nat option \<Rightarrow> 's evr_connection \<Rightarrow> bool \<Rightarrow> 'd pstate
   \<Rightarrow> (evr_code exec \<times> 's evr_connection \<times> bool \<times> 'd pstate) option" where
  "watch_list S wr wa f watcher ctx rctx s =
    (let rm = watch_end (wa_rm0 wa) (wa_rm1 wa) watcher in
     case evr_ensure_worker_rctx_exists S rctx (ps_w s) of (r, rctx1, w1) \<Rightarrow>
     let s1 = s\<lparr>ps_w := w1\<rparr> in
     if r \<noteq> Evr_ok then (case rm (Ret Evr_error) s1 of (x, s2) \<Rightarrow> Some (x, ctx, rctx1, s2))
     else case evr_glacier_list_blobs S w1 (evr_handle_blob_list wr) f \<lparr>lc_socket = cn_socket ctx, lc_blobs = []\<rparr> of (r, lctx) \<Rightarrow>
     if r \<noteq> Evr_ok then (case rm (Ret Evr_error) s1 of (x, s2) \<Rightarrow> Some (x, ctx\<lparr>cn_socket := lc_socket lctx\<rparr>, rctx1, s2))
     else case evr_flush_list_blobs_ctx wr lctx of (r, lctx1) \<Rightarrow>
     let ctx1 = ctx\<lparr>cn_socket := lc_socket lctx1\<rparr> in
     if r \<noteq> Evr_ok then (case rm (Ret Evr_error) s1 of (x, s2) \<Rightarrow> Some (x, ctx1, rctx1, s2))
     else case watcher of
       None \<Rightarrow> Some (Ret Evr_ok, ctx1, rctx1, s1)
     | Some a \<Rightarrow>
        (case ps_h s1 a of
           None \<Rightarrow> Some (Undef, ctx1, rctx1, s1)
         | Some q \<Rightarrow>
            (case watch_loop wr (wa_env wa) False 0 q (cn_socket ctx1) of
               None \<Rightarrow> None
             | Some (y, q1, c2) \<Rightarrow>
                (case y of
                   Ret r \<Rightarrow> (case rm (Ret r) (s1\<lparr>ps_h := (ps_h s1)(a \<mapsto> q1)\<rparr>) of (x, s2) \<Rightarrow> Some (x, ctx1\<lparr>cn_socket := c2\<rparr>, rctx1, s2))
                 | _ \<Rightarrow> Some (y, ctx1\<lparr>cn_socket := c2\<rparr>, rctx1, s1)))))"

definition evr_work_watch_blobs ::
  "'d index_db \<Rightarrow> 's reader \<Rightarrow> 's writer \<Rightarrow> watch_calls \<Rightarrow> evr_cmd_header \<Rightarrow> 's evr_connection \<Rightarrow> bool \<Rightarrow> 'd pstate
   \<Rightarrow> (evr_code exec \<times> 's evr_connection \<times> bool \<times> 'd pstate) option" where
  "evr_work_watch_blobs S rd wr wa cmd ctx rctx s =
    (if ch_body_size cmd \<noteq> evr_blob_filter_n_size then Some (Ret Evr_error, ctx, rctx, s)
     else case read_n rd no_se (cn_socket ctx) evr_blob_filter_n_size () of (r, b, _, c1) \<Rightarrow>
     if r \<noteq> Evr_ok then Some (Ret Evr_error, ctx\<lparr>cn_socket := c1\<rparr>, rctx, s)
     else case evr_parse_blob_filter b of
       None \<Rightarrow> Some (Undef, ctx\<lparr>cn_socket := c1\<rparr>, rctx, s)
     | Some f \<Rightarrow>
     (case send_resp wr c1 \<lparr>rh_status_code = evr_status_code_ok, rh_body_size = 0\<rparr> [] of (r, c2) \<Rightarrow>
     let ctx2 = ctx\<lparr>cn_socket := c2\<rparr> in
     if r \<noteq> Evr_ok then Some (Ret Evr_error, ctx2, rctx, s)
     else if evr_cmd_watch_sort_order (bf_sort_order f) = Some By_last_modified
     then (case evr_persister_add_watcher (wa_add wa) (wa_new wa) (ps_p s) f (ps_h s) of (x, p', h') \<Rightarrow>
       (let s2 = s\<lparr>ps_p := p', ps_h := h'\<rparr> in
        case x of
          Ret mod_blobs \<Rightarrow>
            if mod_blobs = None then Some (Ret Evr_error, ctx2, rctx, s2) else watch_list S wr wa f mod_blobs ctx2 rctx s2
        | _ \<Rightarrow> Some (Panic, ctx2, rctx, s2)))
     else watch_list S wr wa f None ctx2 rctx s))"

section \<open>The worker of a connection\<close>

text \<open>What a connection meets besides its socket, for the command with the number \<open>i\<close>.\<close>

record 'd conn_env =
  ce_running :: "nat \<Rightarrow> bool"
  ce_alloc :: "nat \<Rightarrow> nat \<Rightarrow> bytes option"
  ce_put :: "nat \<Rightarrow> put_calls"
  ce_task :: "nat \<Rightarrow> nat"
  ce_others :: "nat \<Rightarrow> 'd pstate \<Rightarrow> 'd pstate"
  ce_watch :: "nat \<Rightarrow> watch_calls"

definition work_cmd ::
  "'d index_db \<Rightarrow> (bytes \<Rightarrow> bytes) \<Rightarrow> 's reader \<Rightarrow> 's writer \<Rightarrow> 'd conn_env \<Rightarrow> nat \<Rightarrow> evr_cmd_header \<Rightarrow> 's evr_connection \<Rightarrow> bool \<Rightarrow> 'd pstate
   \<Rightarrow> (evr_code exec \<times> 's evr_connection \<times> bool \<times> 'd pstate) option" where
  "work_cmd S sha3_224 rd wr e i cmd ctx rctx s =
    (if ch_type cmd = evr_cmd_type_get_blob
     then (case evr_work_get_blob S rd wr cmd ctx rctx (ps_w s) of
         None \<Rightarrow> None | Some (r, ctx1, rctx1, w1) \<Rightarrow> Some (Ret r, ctx1, rctx1, s\<lparr>ps_w := w1\<rparr>))
     else if ch_type cmd = evr_cmd_type_put_blob
     then (case evr_work_put_blob sha3_224 rd wr (ce_alloc e i) (ce_put e i) (ce_others e i) (ce_task e i) cmd ctx s of
         None \<Rightarrow> None | Some (r, ctx1, s1) \<Rightarrow> Some (Ret r, ctx1, rctx, s1))
     else if ch_type cmd = evr_cmd_type_stat_blob
     then (case evr_work_stat_blob S rd wr cmd ctx rctx (ps_w s) of (r, ctx1, rctx1, w1) \<Rightarrow> Some (Ret r, ctx1, rctx1, s\<lparr>ps_w := w1\<rparr>))
     else if ch_type cmd = evr_cmd_type_watch_blobs
     then evr_work_watch_blobs S rd wr (ce_watch e i) cmd ctx rctx s
     else if ch_type cmd = evr_cmd_type_configure_connection
     then (case evr_work_configure_connection rd wr cmd ctx of (r, ctx1) \<Rightarrow> Some (Ret r, ctx1, rctx, s))
     else case evr_work_unknown_cmd rd wr cmd ctx of (r, ctx1) \<Rightarrow> Some (Ret r, ctx1, rctx, s))"

partial_function (option) connection_loop ::
  "'d index_db \<Rightarrow> (bytes \<Rightarrow> bytes) \<Rightarrow> 's reader \<Rightarrow> 's writer \<Rightarrow> 'd conn_env \<Rightarrow> nat \<Rightarrow> 's evr_connection \<Rightarrow> bool \<Rightarrow> 'd pstate
   \<Rightarrow> (evr_code exec \<times> 's evr_connection \<times> bool \<times> 'd pstate) option" where
  "connection_loop S sha3_224 rd wr e i ctx rctx s =
    (if \<not> ce_running e i then Some (Ret Evr_ok, ctx, rctx, s)
     else case read_n rd no_se (cn_socket ctx) evr_cmd_header_n_size () of (r, b, _, c1) \<Rightarrow>
     let ctx1 = ctx\<lparr>cn_socket := c1\<rparr> in
     if r = Evr_end then Some (Ret Evr_ok, ctx1, rctx, s)
     else if r \<noteq> Evr_ok then Some (Ret Evr_error, ctx1, rctx, s)
     else case evr_parse_cmd_header b of
       None \<Rightarrow> Some (Undef, ctx1, rctx, s)
     | Some cmd \<Rightarrow>
       (case work_cmd S sha3_224 rd wr e i cmd ctx1 rctx s of
          None \<Rightarrow> None
        | Some (x, ctx2, rctx2, s2) \<Rightarrow>
           if x \<noteq> Ret Evr_ok then Some (case x of Ret _ \<Rightarrow> Ret Evr_error | _ \<Rightarrow> x, ctx2, rctx2, s2)
           else if ch_type cmd = evr_cmd_type_watch_blobs then Some (Ret Evr_ok, ctx2, rctx2, s2)
           else connection_loop S sha3_224 rd wr e (Suc i) ctx2 rctx2 s2))"

definition close_connection :: "bool \<Rightarrow> evr_code exec \<Rightarrow> evr_code exec" where
  "close_connection close_ok x = (case x of Ret r \<Rightarrow> if close_ok then Ret r else Panic | _ \<Rightarrow> x)"

definition evr_connection_worker ::
  "'d index_db \<Rightarrow> (bytes \<Rightarrow> bytes) \<Rightarrow> 's reader \<Rightarrow> 's writer \<Rightarrow> evr_auth_token \<Rightarrow> 'd conn_env \<Rightarrow> bool \<Rightarrow> 's evr_connection \<Rightarrow> 'd pstate
   \<Rightarrow> (evr_code exec \<times> 's evr_connection \<times> 'd pstate) option" where
  "evr_connection_worker S sha3_224 rd wr cfg_token e close_ok ctx s =
    (case evr_authenticate_client rd cfg_token (cn_socket ctx) of (auth_res, c1) \<Rightarrow>
     let ctx1 = ctx\<lparr>cn_socket := c1\<rparr> in
     if auth_res = Evr_user_data_invalid then Some (close_connection close_ok (Ret Evr_ok), ctx1, s)
     else if auth_res \<noteq> Evr_ok then Some (close_connection close_ok (Ret Evr_error), ctx1, s)
     else case connection_loop S sha3_224 rd wr e 0 ctx1 False s of
       None \<Rightarrow> None
     | Some (x, ctx2, rctx, s2) \<Rightarrow>
       (if \<not> rctx then Some (close_connection close_ok x, ctx2, s2)
        else case x of
          Ret r \<Rightarrow> (case evr_free_glacier_read_ctx (ps_w s2) of (y, w3) \<Rightarrow>
             Some (case y of Ret r' \<Rightarrow> close_connection close_ok (Ret (if r' = Evr_ok then r else Evr_error)) | _ \<Rightarrow> y,
                   ctx2, s2\<lparr>ps_w := w3\<rparr>))
        | _ \<Rightarrow> Some (x, ctx2, s2)))"

end
