(* ===== verification/Storage_Correct.thy ===== *)
theory Storage_Correct
  imports Storage_Server
begin

text \<open>
  What a client of the storage server can rely on: the locale \<open>evr_socket\<close> states what the calls of a
  socket promise, descriptors implement it, and under it the responses of the handlers are the
  bytes of the protocol for what the glacier holds.
\<close>

section \<open>Reading a blob into any sink\<close>

text \<open>
  The loop with other callbacks than the collecting ones does the same steps until a callback
  refuses; \<open>out\<close> reads what the callbacks sent.
\<close>

lemma read_blob_loop_sim:
  assumes "read_blob_loop od k n cc s = Some y" "od = collect_data"
  shows "\<forall>ctx. V ctx \<longrightarrow> (\<forall>c b c'. on_data c b = (Evr_ok, c') \<longrightarrow> V c \<longrightarrow> V c' \<and> out c' = out c @ b) \<longrightarrow>
    (\<exists>ok2 ctx2 s2. read_blob_loop on_data k n ctx s = Some (ok2, ctx2, s2) \<and>
       (ok2 \<longrightarrow> (\<exists>d. y = (True, (fst cc, snd cc @ d), s2) \<and> V ctx2 \<and> out ctx2 = out ctx @ d)))"
  using assms(2)
proof (induction rule: read_blob_loop.raw_induct [OF _ assms(1)])
  case (1 loop od k n cc s y)
  note IH = 1(1) and run = 1(2) and od = 1(3)
  note step = read_blob_loop.simps [of on_data k n _ s]
  show ?case
  proof (intro allI impI, cases "k < n")
    fix ctx assume V: "V ctx" and law: "\<forall>c b c'. on_data c b = (Evr_ok, c') \<longrightarrow> V c \<longrightarrow> V c' \<and> out c' = out c @ b"
    case True
    obtain r s1 where r: "sys_read s (min evr_read_buffer_size (n - k)) = (r, s1)"
      by (cases "sys_read s (min evr_read_buffer_size (n - k))")
    show "\<exists>ok2 ctx2 s2. read_blob_loop on_data k n ctx s = Some (ok2, ctx2, s2) \<and>
       (ok2 \<longrightarrow> (\<exists>d. y = (True, (fst cc, snd cc @ d), s2) \<and> V ctx2 \<and> out ctx2 = out ctx @ d))"
    proof (cases r)
      case Read_fail
      with True r show ?thesis by (auto simp: step)
    next
      case (Read_bytes b)
      obtain code c1 where c1: "on_data ctx b = (code, c1)" by fastforce
      have l: "loop od (k + length b) n (fst cc, snd cc @ b) s1 = Some y"
        using run True r Read_bytes od by (simp add: collect_data_def)
      show ?thesis
      proof (cases "code = Evr_ok")
        case False
        with True r Read_bytes c1 show ?thesis by (auto simp: step)
      next
        case ok: True
        with law V c1 have c1': "V c1" "out c1 = out ctx @ b" by blast+
        from IH [OF l od, rule_format, OF c1'(1)] law obtain ok2 ctx2 s2 where
          rec: "read_blob_loop on_data (k + length b) n c1 s1 = Some (ok2, ctx2, s2)"
          "ok2 \<longrightarrow> (\<exists>d. y = (True, (fst cc, (snd cc @ b) @ d), s2) \<and> V ctx2 \<and> out ctx2 = out c1 @ d)" by auto
        then show ?thesis using True r Read_bytes c1 ok c1'(2) by (fastforce simp: step)
      qed
    qed
  next
    fix ctx assume V: "V ctx"
    case False
    with run have "y = (True, cc, s)" by simp
    with False V show "\<exists>ok2 ctx2 s2. read_blob_loop on_data k n ctx s = Some (ok2, ctx2, s2) \<and>
       (ok2 \<longrightarrow> (\<exists>d. y = (True, (fst cc, snd cc @ d), s2) \<and> V ctx2 \<and> out ctx2 = out ctx @ d))"
      by (auto simp: step)
  qed
qed

text \<open>\<open>enc\<close> is what the status callback sends.\<close>

lemma read_blob_sim:
  assumes "evr_glacier_read_blob S key collect_status collect_data ([], []) w = Some (r, cc, w')" "V ctx"
    and data: "\<And>c b c'. on_data c b = (Evr_ok, c') \<Longrightarrow> V c \<Longrightarrow> V c' \<and> out c' = out c @ b"
    and stat: "\<And>c e f z c'. status c e f z = (Evr_ok, c') \<Longrightarrow> V c \<Longrightarrow> V c' \<and> out c' = out c @ enc (e, f, z)"
  shows "\<exists>r2 ctx2 w2. evr_glacier_read_blob S key status on_data ctx w = Some (r2, ctx2, w2) \<and>
    (r2 = Evr_ok \<or> r2 = Evr_not_found \<longrightarrow> r = r2 \<and> w' = w2 \<and> V ctx2 \<and> out ctx2 = out ctx @ concat (map enc (fst cc)) @ snd cc)"
proof (cases "ix_find_blob S (w_db w) (take evr_blob_ref_size key)")
  case (Sql_row row)
  let ?off = "br_offset row" and ?n = "int_to_size (br_size row)"
  obtain fo w1 where o1: "evr_open_bucket w (unat (br_bucket_index row)) False = (fo, w1)" by fastforce
  show ?thesis
  proof (cases fo)
    case None
    with Sql_row o1 show ?thesis by (simp add: evr_glacier_read_blob_def Let_def)
  next
    case (Some f)
    obtain r2 w2 f2 where m: "evr_validate_bucket_magic_number w1 f = (r2, w2, f2)" using prod_cases3 by blast
    obtain ok w3 f3 where sk: "(if sint ?off < 0 then (False, w2, f2) else sys_seek w2 f2 (int_to_size ?off)) = (ok, w3, f3)"
      using prod_cases3 by blast
    obtain rs c1 where st: "status ctx True (br_flags row) ?n = (rs, c1)" by fastforce
    note run = Sql_row o1 Some m sk st
    show ?thesis
    proof (cases "r2 = Evr_ok \<and> ok \<and> rs = Evr_ok")
      case False
      then show ?thesis using run
        by (auto simp: evr_glacier_read_blob_def Let_def close_bucket_def split: prod.splits)
    next
      case True
      note c1 = stat [OF st [unfolded True [THEN conjunct2, THEN conjunct2]] assms(2)]
      let ?cc = "([(True, br_flags row, ?n)], [])"
      obtain y where l: "read_blob_loop collect_data 0 ?n ?cc (w3, f3) = Some y"
        using assms(1) run True
        by (auto simp: evr_glacier_read_blob_def Let_def collect_status_def split: option.splits)
      have law: "\<forall>c b c'. on_data c b = (Evr_ok, c') \<longrightarrow> V c \<longrightarrow> V c' \<and> out c' = out c @ b" using data by blast
      from read_blob_loop_sim [OF l refl, of V on_data out, rule_format, OF conjunct1 [OF c1] law [rule_format]]
      obtain ok2 ctx2 s4 where l2: "read_blob_loop on_data 0 ?n c1 (w3, f3) = Some (ok2, ctx2, s4)"
        "ok2 \<longrightarrow> (\<exists>d. y = (True, (fst ?cc, d), s4) \<and> V ctx2 \<and> out ctx2 = out c1 @ d)" by auto
      obtain w4 f4 where s4: "s4 = (w4, f4)" by fastforce
      obtain o5 w5 where cl: "sys_call w4 = (o5, w5)" by fastforce
      have "evr_glacier_read_blob S key status on_data ctx w = Some (if o5 \<and> ok2 then Evr_ok else Evr_error, ctx2, w5)"
        using run True l2(1) s4 cl by (simp add: evr_glacier_read_blob_def Let_def close_bucket_def)
      moreover have "r = Evr_ok \<and> w' = w5 \<and> V ctx2 \<and> out ctx2 = out ctx @ concat (map enc (fst cc)) @ snd cc"
        if "o5" "ok2"
      proof -
        from l2(2) that obtain d where d: "y = (True, (fst ?cc, d), (w4, f4))" "V ctx2" "out ctx2 = out c1 @ d"
          using s4 by auto
        have "r = Evr_ok \<and> w' = w5 \<and> cc = (fst ?cc, d)" using assms(1) run True l d(1) cl that
          by (simp add: evr_glacier_read_blob_def Let_def collect_status_def close_bucket_def)
        with d c1 show ?thesis by simp
      qed
      ultimately show ?thesis by auto
    qed
  qed
next
  case Sql_no_row
  obtain rs c1 where st: "status ctx False 0 0 = (rs, c1)" by fastforce
  have cc: "r = Evr_not_found" "cc = ([(False, 0, 0)], [])" "w' = w"
    using assms(1) Sql_no_row by (simp_all add: evr_glacier_read_blob_def collect_status_def)
  show ?thesis
  proof (cases "rs = Evr_ok")
    case True
    with stat [OF st [unfolded True] assms(2)] st Sql_no_row cc show ?thesis by (simp add: evr_glacier_read_blob_def)
  next
    case False
    with st Sql_no_row show ?thesis by (simp add: evr_glacier_read_blob_def)
  qed
qed (simp_all add: evr_glacier_read_blob_def)

section \<open>Sockets\<close>

text \<open>Both directions of a socket are independent of each other.\<close>

locale evr_socket = evr_reader rd stream valid + evr_writer wr sink valid
  for rd :: "'s reader" and wr :: "'s writer" and stream sink :: "'s \<Rightarrow> bytes" and valid :: "'s \<Rightarrow> bool" +
  assumes rd_sink: "valid f \<Longrightarrow> rd f n = (r, f') \<Longrightarrow> sink f' = sink f"
    and wr_stream: "valid f \<Longrightarrow> wr f b = (x, f') \<Longrightarrow> stream f' = stream f"
begin

lemma read_n_sink:
  assumes "valid f" "read_n rd se f n c = (r, b, c', f')"
  shows "sink f' = sink f"
  using assms
proof (induction n arbitrary: f c r b c' f' rule: less_induct)
  case (less n)
  obtain x f1 where x: "rd f n = (x, f1)" by fastforce
  note s1 = rd_sink [OF less.prems(1) x]
  show ?case
  proof (cases "n = 0 \<or> x = Read_fail \<or> x = Read_bytes []")
    case True
    with less.prems(2) x s1 show ?thesis by (auto simp: read_n.simps [of rd se f n] split: if_splits)
  next
    case False
    then obtain bs where bs: "x = Read_bytes bs" "bs \<noteq> []" "n \<noteq> 0" by (cases x) auto
    obtain sc c1 where sc: "se c bs = (sc, c1)" by fastforce
    obtain r2 b2 c2 f2 where rec: "read_n rd se f1 (n - length bs) c1 = (r2, b2, c2, f2)" using prod_cases4 by blast
    note v1 = rd_bytes [OF less.prems(1) x [unfolded bs(1)]]
    have "n - length bs < n" using bs by (cases bs) auto
    from less.IH [OF this conjunct2 [OF conjunct2 [OF v1]] rec] have "sink f2 = sink f1" .
    with less.prems(2) x bs sc rec s1 show ?thesis by (auto simp: read_n.simps [of rd se f n] split: if_splits)
  qed
qed

lemma write_n_stream:
  assumes "valid f" "write_n wr f b = (r, f')"
  shows "stream f' = stream f"
  using assms
proof (induction "length b" arbitrary: b f rule: less_induct)
  case less
  obtain x f1 where x: "wr f b = (x, f1)" by fastforce
  note s1 = wr_stream [OF less.prems(1) x]
  show ?case
  proof (cases "b = [] \<or> (\<exists>e. x = Write_fail e) \<or> x = Written 0")
    case True
    with less.prems(2) x s1 show ?thesis by (auto simp: write_n.simps [of wr f b] split: if_splits)
  next
    case False
    then obtain k where k: "x = Written k" "0 < k" "b \<noteq> []" by (cases x) auto
    note v1 = wr_written [OF less.prems(1) x [unfolded k(1)]]
    have "length (drop k b) < length b" using k by (cases b) auto
    from less.hyps [OF this, of f1] v1 less.prems(2) x k s1 show ?thesis by (simp add: write_n.simps [of wr f b])
  qed
qed

end

interpretation fd_sock: evr_socket evr_file_fd_read evr_file_fd_write fd_in fd_out "\<lambda>_. True"
  by unfold_locales
    (auto simp: evr_file_fd_read_def evr_file_fd_write_def Let_def dest!: next_io_fields split: prod.splits io.splits)

section \<open>Responses\<close>

definition resp_bytes :: "c_int \<Rightarrow> nat \<Rightarrow> bytes" where
  "resp_bytes status_code body_size = ucast status_code # be32 (word_of_nat body_size)"

lemma ucast_size: "(ucast (word_of_nat n :: 64 word) :: 32 word) = word_of_nat n"
  by (simp add: unsigned_of_nat word_of_nat_eq_iff)

lemma format_resp: "evr_format_resp_header (replicate evr_resp_header_n_size 0) h = Some (resp_bytes (rh_status_code h) (rh_body_size h))"
  by (simp add: evr_format_resp_header_def resp_bytes_def fixed_size_run ucast_size evr_layout)

text \<open>What a client that reads the header of a response gets.\<close>

lemma resp_bytes_parse:
  assumes "unat status_code < 256" "body_size < 2 ^ 32"
  shows "evr_parse_resp_header (resp_bytes status_code body_size) = Some \<lparr>rh_status_code = status_code, rh_body_size = body_size\<rparr>"
  using resp_header.prs_fmt [OF length_replicate, OF _ format_resp [of "\<lparr>rh_status_code = status_code, rh_body_size = body_size\<rparr>"]] assms
  by (simp add: resp_header_fits_def byte_fits_def)

text \<open>What a client gets that asks for a reference.\<close>

definition get_answer :: "(c_int \<times> bytes) option \<Rightarrow> bytes" where
  "get_answer v = (case v of
      None \<Rightarrow> resp_bytes evr_status_code_blob_not_found 0
    | Some (flags, d) \<Rightarrow> resp_bytes evr_status_code_ok (1 + length d) @ ucast flags # d)"

definition get_status :: "bool \<times> c_int \<times> nat \<Rightarrow> bytes" where
  "get_status x = (case x of (ex, flags, n) \<Rightarrow>
     if ex then resp_bytes evr_status_code_ok (1 + n) @ [ucast flags] else resp_bytes evr_status_code_blob_not_found 0)"

lemma sys_calls_same: "sys_calls n w = (ok, w') \<Longrightarrow> same_world w w'"
proof (induction n arbitrary: w)
  case (Suc n)
  obtain o1 w1 where c: "sys_call w = (o1, w1)" by fastforce
  from Suc.prems c Suc.IH [of w1] sys_call_same [OF c] show ?case by (auto intro: same_world_trans split: if_splits)
qed simp

lemma glacier_cong:
  assumes "w_files w' = w_files w" "blobs (w_db w') = blobs (w_db w)"
  shows "glacier_inv blobs c w' = glacier_inv blobs c w" "glacier_abs blobs w' = glacier_abs blobs w" "content w' = content w"
proof -
  have c: "content w' = content w" using assms(1) by (simp add: content_def fun_eq_iff)
  then show "content w' = content w" .
  show "glacier_inv blobs c w' = glacier_inv blobs c w"
    using assms c by (simp add: glacier_inv_def ctx_inv_def row_ok_def)
  show "glacier_abs blobs w' = glacier_abs blobs w"
    using assms c by (simp add: glacier_abs_def stored_def fun_eq_iff)
qed

context sqlite_index
begin

lemma ensure_rctx:
  assumes "evr_ensure_worker_rctx_exists S rctx w = (r, rctx', w')"
  shows "w_files w' = w_files w \<and> blobs (w_db w') = blobs (w_db w)"
proof (cases rctx)
  case False
  obtain o1 w1 where c1: "sys_call w = (o1, w1)" by fastforce
  obtain o2 d where c2: "ix_open S (w_db w1) = (o2, d)" by fastforce
  obtain o3 w3 where c3: "sys_calls 3 (w1\<lparr>w_db := d\<rparr>) = (o3, w3)" by fastforce
  have "w' = w1 \<or> w' = w1\<lparr>w_db := d\<rparr> \<or> w' = w3" using assms False c1 c2 c3
    by (auto simp: evr_ensure_worker_rctx_exists_def evr_create_glacier_read_ctx_def evr_open_index_db_def split: if_splits)
  then show ?thesis
    using same_world_fields [OF sys_call_same [OF c1]] same_world_fields [OF sys_calls_same [OF c3]] open_keeps [OF c2] by auto
qed (use assms in \<open>simp add: evr_ensure_worker_rctx_exists_def\<close>)

end

context evr_socket
begin

lemma send_resp_ok:
  assumes "valid f" "send_resp wr f h body = (Evr_ok, f')"
  shows "valid f' \<and> sink f' = sink f @ resp_bytes (rh_status_code h) (rh_body_size h) @ body \<and> stream f' = stream f"
proof -
  obtain r f1 where w: "write_n wr f (resp_bytes (rh_status_code h) (rh_body_size h) @ body) = (r, f1)" by fastforce
  with assms(2) have "r = Evr_ok" "f1 = f'" by (auto simp: send_resp_def format_resp split: if_splits)
  with write_n_ok [OF assms(1)] w write_n_stream [OF assms(1) w] show ?thesis by simp
qed

lemma get_blob_answer:
  assumes "sqlite_index S blobs buckets" "glacier_inv blobs c w" "take 3 (content w Stdout) \<noteq> evr_bucket_magic_number"
    "valid (cn_socket ctx)" "stream (cn_socket ctx) = key @ rest" "length key = evr_blob_ref_size"
  shows "\<exists>r ctx' rctx' w'. evr_work_get_blob S rd wr cmd ctx rctx w = Some (r, ctx', rctx', w') \<and>
    (r = Evr_ok \<longrightarrow> ch_body_size cmd = evr_blob_ref_size \<and> stream (cn_socket ctx') = rest \<and>
       sink (cn_socket ctx') = sink (cn_socket ctx) @ get_answer (glacier_abs blobs w key) \<and>
       w_files w' = w_files w \<and> blobs (w_db w') = blobs (w_db w))"
proof -
  obtain r k u c1 where rk: "read_n rd no_se (cn_socket ctx) evr_blob_ref_size () = (r, k, u, c1)" using prod_cases4 by blast
  note rs = read_n_stream [OF assms(4) rk]
  have key: "r = Evr_ok \<Longrightarrow> k = key \<and> stream c1 = rest" using rs assms(5,6) by auto
  obtain r1 rctx1 w1 where ens: "evr_ensure_worker_rctx_exists S rctx w = (r1, rctx1, w1)" using prod_cases3 by blast
  note w1 = sqlite_index.ensure_rctx [OF assms(1) ens]
  note gw = glacier_cong [where blobs = blobs, OF conjunct1 [OF w1] conjunct2 [OF w1]]
  show ?thesis
  proof (cases "ch_body_size cmd = evr_blob_ref_size \<and> r = Evr_ok \<and> r1 = Evr_ok")
    case False
    then show ?thesis using rk ens by (auto simp: evr_work_get_blob_def)
  next
    case True
    then have k: "k = key" "stream c1 = rest" using key by simp_all
    from sqlite_index.read_blob_result [OF assms(1), of c w1 key] assms(2,3,6) gw obtain r2 cc w2 where
      rb: "evr_glacier_read_blob S key collect_status collect_data ([], []) w1 = Some (r2, cc, w2)" "same_world w1 w2"
      "r2 = Evr_ok \<and> (\<exists>flags d. glacier_abs blobs w key = Some (flags, d) \<and> cc = ([(True, flags, length d)], d)) \<or>
       r2 = Evr_not_found \<and> glacier_abs blobs w key = None \<and> cc = ([(False, 0, 0)], []) \<or> r2 = Evr_error" by auto
    let ?V = "\<lambda>f. valid f \<and> stream f = rest"
    have data: "pipe_data wr f b = (Evr_ok, f') \<Longrightarrow> ?V f \<Longrightarrow> ?V f' \<and> sink f' = sink f @ b" for f b f'
      using write_n_ok write_n_stream by (auto simp: pipe_data_def)
    have stat: "send_get_response wr f e fl z = (Evr_ok, f') \<Longrightarrow> ?V f \<Longrightarrow> ?V f' \<and> sink f' = sink f @ get_status (e, fl, z)" for f e fl z f'
      using send_resp_ok by (fastforce simp: send_get_response_def get_status_def split: if_splits)
    have V1: "?V c1" using rs k by simp
    from read_blob_sim [where V = ?V and out = sink and enc = get_status, OF rb(1) V1 data stat] obtain r3 c3 w3 where
      sim: "evr_glacier_read_blob S key (send_get_response wr) (pipe_data wr) c1 w1 = Some (r3, c3, w3)"
      "r3 = Evr_ok \<or> r3 = Evr_not_found \<longrightarrow> r2 = r3 \<and> w2 = w3 \<and> ?V c3 \<and> sink c3 = sink c1 @ concat (map get_status (fst cc)) @ snd cc"
      by blast
    have "evr_work_get_blob S rd wr cmd ctx rctx w =
        Some (if r3 \<noteq> Evr_ok \<and> r3 \<noteq> Evr_not_found then Evr_error else Evr_ok, ctx\<lparr>cn_socket := c3\<rparr>, rctx1, w3)"
      using True rk ens sim(1) k by (simp add: evr_work_get_blob_def)
    moreover have "stream c3 = rest \<and> sink c3 = sink (cn_socket ctx) @ get_answer (glacier_abs blobs w key) \<and>
        w_files w3 = w_files w \<and> blobs (w_db w3) = blobs (w_db w)" if "r3 = Evr_ok \<or> r3 = Evr_not_found"
      using sim(2) that rb(2,3) w1 same_world_fields [OF rb(2)] read_n_sink [OF assms(4) rk]
      by (auto simp: get_answer_def get_status_def)
    ultimately show ?thesis using True by auto
  qed
qed

end

section \<open>Put\<close>

text \<open>The reference of a blob is the digest of its bytes.\<close>

definition addressed :: "(bytes \<Rightarrow> bytes) \<Rightarrow> evr_blob_ref \<Rightarrow> bytes \<Rightarrow> bool" where
  "addressed sha3_224 k d = (evr_blob_ref_final sha3_224 d = k)"

lemma hd_match_addressed:
  "evr_blob_ref_hd_match sha3_224 d key = Evr_ok \<Longrightarrow> length key = evr_blob_ref_size \<Longrightarrow> addressed sha3_224 key d"
  by (auto simp: evr_blob_ref_hd_match_def evr_cmp_blob_ref_eq_def addressed_def evr_blob_ref_final_def split: if_splits)

context evr_socket
begin

lemma read_chunks_loop_sink:
  "valid f \<Longrightarrow> read_chunks_loop rd se f cs n c = (r, cks, c', f') \<Longrightarrow> sink f' = sink f"
proof (induction cs arbitrary: f n c r cks c' f')
  case (Cons x cs)
  obtain r1 b1 c1 f1 where rn: "read_n rd se f (min n evr_chunk_size) c = (r1, b1, c1, f1)" using prod_cases4 by blast
  obtain r2 b2 c2 f2 where rec: "read_chunks_loop rd se f1 cs (n - min n evr_chunk_size) c1 = (r2, b2, c2, f2)"
    using prod_cases4 by blast
  have "valid f1" "sink f1 = sink f" using read_n_stream [OF Cons.prems(1) rn] read_n_sink [OF Cons.prems(1) rn] by simp_all
  with Cons.IH [OF _ rec] Cons.prems(2) rn rec show ?case by (auto simp: Let_def split: if_splits)
qed simp

lemma read_into_chunks_sink:
  assumes "valid f" "read_into_chunks rd se alloc f n c = (cs, c', f')"
  shows "sink f' = sink f"
  using assms read_chunks_loop_sink [OF assms(1)]
  by (auto simp: read_into_chunks_def split: prod.splits option.splits if_splits)

lemma put_receive_blob:
  assumes "valid (cn_socket ctx)" "\<forall>i c. alloc i = Some c \<longrightarrow> length c = evr_chunk_size"
    "put_receive sha3_224 rd alloc hd_open cmd ctx = (Some blob, ctx')"
  shows "\<exists>fl d. stream (cn_socket ctx) = wb_key blob @ fl # d @ stream (cn_socket ctx') \<and> valid (cn_socket ctx') \<and>
    sink (cn_socket ctx') = sink (cn_socket ctx) \<and> wb_flags blob = ucast fl \<and> blob_holds blob d \<and> addressed sha3_224 (wb_key blob) d"
proof -
  let ?n = "put_blob_size (ch_body_size cmd)"
  obtain r1 key u1 c1 where rk: "read_n rd no_se (cn_socket ctx) evr_blob_ref_size () = (r1, key, u1, c1)" using prod_cases4 by blast
  obtain r2 fb u2 c2 where rf: "read_n rd no_se c1 1 () = (r2, fb, u2, c2)" using prod_cases4 by blast
  obtain co md c3 where rc: "read_into_chunks rd evr_blob_ref_write_se alloc c2 ?n [] = (co, md, c3)" using prod_cases3 by blast
  from assms(3) rk rf rc obtain cs where ok: "r1 = Evr_ok" "r2 = Evr_ok" "co = Some cs"
    "evr_blob_ref_hd_match sha3_224 md key = Evr_ok" "cn_socket ctx' = c3"
    and blob: "wb_key blob = key" "wb_flags blob = ucast (hd fb)" "wb_size blob = ?n" "wb_chunks blob = cs_chunks cs"
    by (auto simp: put_receive_def Let_def split: if_splits option.splits)
  note s1 = read_n_stream [OF assms(1) rk]
  have v1: "valid c1" "length key = evr_blob_ref_size" using s1 ok by simp_all
  note s2 = read_n_stream [OF v1(1) rf]
  have v2: "valid c2" "length fb = 1" using s2 ok by simp_all
  from v2(2) have fb: "fb = [hd fb]" by (cases fb) auto
  have se: "evr_blob_ref_write_se c b = (Evr_ok, c @ b)" for c b by (simp add: evr_blob_ref_write_se_def evr_blob_ref_write_def)
  from read_into_chunks_stream [OF v2(1) assms(2) rc [unfolded ok(3)]] se obtain d where
    d: "length d = ?n" "stream c2 = d @ stream c3" "valid c3" "chunks_hold (ceil_div ?n evr_chunk_size) (cs_chunks cs) d" "md = d" by auto
  have "sink c3 = sink (cn_socket ctx)"
    using read_into_chunks_sink [OF v2(1) rc] read_n_sink [OF v1(1) rf] read_n_sink [OF assms(1) rk] by simp
  moreover have "stream (cn_socket ctx) = key @ hd fb # d @ stream c3" using s1 s2 d(2) fb by (metis append_Cons append_Nil)
  ultimately show ?thesis using ok blob d v1(2) hd_match_addressed [of sha3_224 d key]
    by (intro exI [of _ "hd fb"] exI [of _ d]) (auto simp: blob_holds_def)
qed

end

lemma queue_task_ok:
  assumes "evr_persister_queue_task dl du sy t p tasks = Some (Evr_ok, p', tasks')"
  shows "evr_persister_queue_task True True sync_ok t p tasks = Some (Evr_ok, p', tasks')"
  using assms by (auto simp: evr_persister_queue_task_def queue_task_end_def sync_ok_def Let_def split: if_splits)

text \<open>The other threads neither touch the task of this one nor do they break the rules of a clean run.\<close>

definition fair_others :: "(evr_blob_ref \<Rightarrow> bytes \<Rightarrow> bool) \<Rightarrow> 'd index_db \<Rightarrow> nat \<Rightarrow> nat \<Rightarrow> ('d pstate \<Rightarrow> 'd pstate) \<Rightarrow> bool" where
  "fair_others Q S max_bucket_size t others =
    (\<forall>s. persister_run (\<lambda>a b. clean_step Q a b \<and> own_step t a b) S max_bucket_size s (others s))"

text \<open>A put that succeeds is a run of the persister at whose end the task is finished.\<close>

lemma put_persist_run:
  assumes "put_persist pb others t blob s = Some (Evr_ok, s')" "\<not> tk_done (ps_tasks s t)" "queued_blob Q blob"
    "fair_others Q S max_bucket_size t others"
  shows "persister_run (clean_step Q) S max_bucket_size s s' \<and> (t, blob, Evr_ok) \<in> set (ps_finished s')"
proof -
  let ?k = "(ps_tasks s t)\<lparr>tk_blob := blob, tk_done := False\<rparr>"
  define s1 where "s1 = s\<lparr>ps_tasks := (ps_tasks s)(t := ?k)\<rparr>"
  from assms(1) obtain p2 tasks2 where q: "evr_persister_queue_task (pb_done_lock pb) (pb_done_unlock pb) (pb_sync pb) t (ps_p s1)
      (ps_tasks s1) = Some (Evr_ok, p2, tasks2)"
    by (auto simp: put_persist_def evr_persister_init_task_def Let_def s1_def split: if_splits option.splits)
  define s2 where "s2 = s1\<lparr>ps_p := p2, ps_tasks := tasks2, ps_accepted := ps_accepted s1 @ [t]\<rparr>"
  from assms(1) q obtain tasks4 where w: "evr_persister_wait_for_task (pb_wait_lock pb) t (ps_tasks (others s2)) = Some (Evr_ok, tasks4)"
    "tk_result (tasks4 t) = Evr_ok" "s' = (others s2)\<lparr>ps_tasks := tasks4\<rparr>"
    by (auto simp: put_persist_def evr_persister_init_task_def Let_def s1_def s2_def split: if_splits option.splits)
  from w(1) have t4: "\<not> tk_done (ps_tasks (others s2) t)" "tasks4 = (ps_tasks (others s2))(t := (ps_tasks (others s2) t)\<lparr>tk_done := True\<rparr>)"
    by (auto simp: evr_persister_wait_for_task_def split: if_splits)
  have st1: "persister_step S max_bucket_size s s1" unfolding s1_def by (rule persister_step.client [OF assms(2)])
  have st2: "persister_step S max_bucket_size s1 s2"
    using persister_step.queue [OF queue_task_ok [OF q]] by (simp add: s2_def)
  from queue_task_ok [OF q] have own: "own_inv t blob s2"
    by (elim queue_task_cases) (auto simp: own_inv_def s2_def s1_def)
  have run: "persister_run (\<lambda>a b. clean_step Q a b \<and> own_step t a b) S max_bucket_size s2 (others s2)"
    using assms(4) by (simp add: fair_others_def)
  have c1: "clean_step Q s s1" by (simp add: clean_step_def s1_def)
  have c2: "clean_step Q s1 s2" using assms(3) by (simp add: clean_step_def s2_def s1_def)
  have "persister_run (clean_step Q) S max_bucket_size s s2"
    using persister_run.here [of "clean_step Q"] st1 c1 st2 c2 by (blast intro: persister_run.further)
  moreover have "persister_run (clean_step Q) S max_bucket_size s2 (others s2)" using run by (rule run_mono) simp
  moreover have "persister_step S max_bucket_size (others s2) s'"
    using persister_step.client [OF t4(1)] by (simp add: w(3) t4(2))
  moreover have "clean_step Q (others s2) s'" by (simp add: clean_step_def w(3))
  moreover have "(t, blob, Evr_ok) \<in> set (ps_finished s')"
    using own_run_keeps [OF run _ own] t4 w(2,3) by (auto simp: own_inv_def)
  ultimately show ?thesis using persister_run_trans persister_run.further by metis
qed

section \<open>Authentication\<close>

lemma ucast_byte_1: "(ucast (x :: byte) :: c_int) = 1 \<Longrightarrow> x = 1"
  by transfer simp

context evr_socket
begin

lemma authenticate_result:
  assumes "valid c" "evr_authenticate_client rd token c = (r, c')" "length token = evr_auth_token_size"
  shows "sink c' = sink c \<and> valid c' \<and> (r = Evr_ok \<longrightarrow> stream c = 1 # token @ stream c')"
proof -
  obtain r1 b u c1 where rn: "read_n rd no_se c (1 + evr_auth_token_size) () = (r1, b, u, c1)" using prod_cases4 by blast
  note st = read_n_stream [OF assms(1) rn]
  have c': "c' = c1" using assms(2) rn by (auto simp: evr_authenticate_client_def split: if_splits option.splits)
  have "stream c = 1 # token @ stream c1" if "r = Evr_ok"
  proof -
    have r1: "r1 = Evr_ok" using that assms(2) rn by (auto simp: evr_authenticate_client_def split: if_splits)
    then obtain x tk where b: "b = x # tk" "length tk = evr_auth_token_size" using st by (cases b) auto
    have "evr_pull_n (at_pos [x] tk) evr_auth_token_size = Some (tk, at_pos (x # tk) [])"
      using pull_at_pos [of evr_auth_token_size tk "[x]" "[]"] b(2) by simp
    then have "(ucast x :: c_int) = 1" "token = tk"
      using that assms(2) rn r1 b(1)
      by (auto simp: evr_authenticate_client_def evr_auth_type_token_def init_at_pos pull_u8_at_pos split: if_splits)
    then show ?thesis using st b by (simp add: ucast_byte_1)
  qed
  with c' st read_n_sink [OF assms(1) rn] show ?thesis by simp
qed

end

section \<open>Listing\<close>

text \<open>A visitor that sends does the visits of the collecting one until it fails.\<close>

lemma list_blobs_loop_sim:
  assumes "list_blobs_loop ff visit found rows complete v = (Evr_ok, v')" "V v"
    and law: "\<And>v k f t l v'. visit v k f t l = (Evr_ok, v') \<Longrightarrow> V v \<Longrightarrow> V v' \<and> out v' = out v @ enc ((k, f, t), l)"
  shows "\<exists>vs'. list_blobs_loop ff collect_visit found rows complete vs = (Evr_ok, vs @ vs') \<and> V v' \<and> out v' = out v @ concat (map enc vs')"
  using assms(1,2)
proof (induction rows arbitrary: found v vs)
  case Nil
  show ?case
  proof (cases found)
    case (Some r)
    obtain c v1 where c: "visit v (br_key r) (br_flags r) (br_last_modified r) True = (c, v1)" by fastforce
    with Nil Some have "c = Evr_ok" "v1 = v'" "complete" by (auto split: if_splits)
    with law c Nil(2) Some show ?thesis by (fastforce simp: collect_visit_def)
  qed (use Nil in \<open>auto split: if_splits\<close>)
next
  case (Cons n rows)
  show ?case
  proof (cases "br_flags n AND ff \<noteq> ff")
    case True
    with Cons show ?thesis by simp
  next
    case False
    show ?thesis
    proof (cases found)
      case None
      with Cons.prems False Cons.IH [of "Some n" v vs] show ?thesis by (auto split: if_splits)
    next
      case (Some r)
      obtain c v1 where c: "visit v (br_key r) (br_flags r) (br_last_modified r) False = (c, v1)" by fastforce
      with Cons.prems False Some have k: "c = Evr_ok" "length (br_key n) = evr_blob_ref_size"
        "list_blobs_loop ff visit (Some n) rows complete v1 = (Evr_ok, v')" by (auto split: if_splits)
      let ?x = "((br_key r, br_flags r, br_last_modified r), False)"
      from law c k(1) Cons.prems(2) have v1: "V v1" "out v1 = out v @ enc ?x" by blast+
      from Cons.IH [OF k(3) v1(1), of "vs @ [?x]"] obtain vs' where
        "list_blobs_loop ff collect_visit (Some n) rows complete (vs @ [?x]) = (Evr_ok, (vs @ [?x]) @ vs')" "V v'"
        "out v' = out v1 @ concat (map enc vs')" by blast
      with False Some k(2) v1(2) show ?thesis
        by (intro exI [of _ "?x # vs'"]) (simp add: collect_visit_def [of vs "br_key r" "br_flags r" "br_last_modified r" False])
    qed
  qed
qed

definition visit_bytes :: "visit \<Rightarrow> bytes" where
  "visit_bytes x = (case x of ((k, f, t), l) \<Rightarrow> take evr_blob_ref_size k @ be64 t @ [if l then 1 else 0])"

context evr_socket
begin

definition list_sent :: "'s evr_list_blobs_ctx \<Rightarrow> bytes" where
  "list_sent v = sink (lc_socket v) @ concat (map watch_entry (lc_blobs v))"

lemma flush_sends:
  assumes "evr_flush_list_blobs_ctx wr v = (Evr_ok, v')" "valid (lc_socket v)"
  shows "lc_blobs v' = [] \<and> sink (lc_socket v') = list_sent v \<and> valid (lc_socket v')"
proof (cases "lc_blobs v = []")
  case False
  obtain r f where "write_n wr (lc_socket v) (concat (map watch_entry (lc_blobs v))) = (r, f)" by fastforce
  with assms False write_n_ok [OF assms(2)] show ?thesis by (auto simp: evr_flush_list_blobs_ctx_def list_sent_def split: if_splits)
qed (use assms in \<open>auto simp: evr_flush_list_blobs_ctx_def list_sent_def\<close>)

lemma handle_sends:
  assumes "evr_handle_blob_list wr v k f t l = (Evr_ok, v')" "valid (lc_socket v)"
  shows "valid (lc_socket v') \<and> list_sent v' = list_sent v @ visit_bytes ((k, f, t), l)"
proof -
  obtain r v1 where v1: "(if length (lc_blobs v) = evr_list_blobs_blobs_len then evr_flush_list_blobs_ctx wr v else (Evr_ok, v)) = (r, v1)"
    by fastforce
  with assms have r: "r = Evr_ok" "v' = v1\<lparr>lc_blobs := lc_blobs v1 @ [\<lparr>mb_key = k, mb_last_modified = t, mb_flags = (if l then 1 else 0)\<rparr>]\<rparr>"
    by (auto simp: evr_handle_blob_list_def split: if_splits)
  have "valid (lc_socket v1) \<and> list_sent v1 = list_sent v"
    using v1 r(1) assms(2) flush_sends [of v v1] by (auto simp: list_sent_def split: if_splits)
  then show ?thesis by (simp add: r(2) list_sent_def watch_entry_def visit_bytes_def)
qed

lemma listing_sends:
  assumes "evr_glacier_list_blobs S w (evr_handle_blob_list wr) filt \<lparr>lc_socket = f, lc_blobs = []\<rparr> = (Evr_ok, v)" "valid f"
    "evr_flush_list_blobs_ctx wr v = (Evr_ok, v')"
  shows "\<exists>vs. evr_glacier_list_blobs S w collect_visit filt [] = (Evr_ok, vs) \<and>
    sink (lc_socket v') = sink f @ concat (map visit_bytes vs)"
proof -
  let ?v = "\<lparr>lc_socket = f, lc_blobs = []\<rparr>"
  from assms(1) obtain so rows complete where l: "\<not> unat (bf_last_modified_after filt) > 2 ^ 63 - 1"
    "evr_cmd_watch_sort_order (bf_sort_order filt) = Some so" "ix_list_blobs S (w_db w) so (bf_last_modified_after filt) = Some (rows, complete)"
    "list_blobs_loop (bf_flags_filter filt) (evr_handle_blob_list wr) None rows complete ?v = (Evr_ok, v)"
    by (auto simp: evr_glacier_list_blobs_def split: if_splits option.splits)
  have V: "valid (lc_socket ?v)" using assms(2) by simp
  from list_blobs_loop_sim [where V = "\<lambda>v. valid (lc_socket v)" and out = list_sent and enc = visit_bytes and vs = "[]", OF l(4) V handle_sends]
  obtain vs where vs: "list_blobs_loop (bf_flags_filter filt) collect_visit None rows complete [] = (Evr_ok, vs)"
    "valid (lc_socket v)" "list_sent v = list_sent ?v @ concat (map visit_bytes vs)" by auto
  from flush_sends [OF assms(3) vs(2)] vs l(1-3) show ?thesis by (auto simp: evr_glacier_list_blobs_def list_sent_def)
qed

end

section \<open>Properties\<close>

text \<open>
  C5: the server answers a request for a blob with what the glacier holds. Whatever the socket and the
  system calls do, the handler returns, and when it succeeds it has sent exactly the response of
  the protocol: the status \<^verbatim>\<open>ok\<close>, the flags and the bytes that the glacier holds under the reference,
  or the status \<^verbatim>\<open>blob_not_found\<close> when it holds none; it has read the reference and nothing behind it,
  and the glacier is unchanged.
\<close>

theorem get_blob_serves_glacier:
  assumes "evr_socket rd wr stream sink valid" "sqlite_index S blobs buckets" "glacier_inv blobs c w"
    "take 3 (content w Stdout) \<noteq> evr_bucket_magic_number" "valid (cn_socket ctx)"
    "stream (cn_socket ctx) = key @ rest" "length key = evr_blob_ref_size"
  shows "\<exists>r ctx' rctx' w'. evr_work_get_blob S rd wr cmd ctx rctx w = Some (r, ctx', rctx', w') \<and>
    (r = Evr_ok \<longrightarrow> ch_body_size cmd = evr_blob_ref_size \<and> stream (cn_socket ctx') = rest \<and>
       sink (cn_socket ctx') = sink (cn_socket ctx) @ (case glacier_abs blobs w key of
           None \<Rightarrow> resp_bytes evr_status_code_blob_not_found 0
         | Some (flags, d) \<Rightarrow> resp_bytes evr_status_code_ok (1 + length d) @ ucast flags # d) \<and>
       w_files w' = w_files w \<and> blobs (w_db w') = blobs (w_db w))"
  using evr_socket.get_blob_answer [OF assms(1-7)] unfolding get_answer_def .

theorem get_blob_serves_glacier_witness:
  "\<exists>r ctx' rctx' w'. evr_work_get_blob table_ops evr_file_fd_read evr_file_fd_write \<lparr>ch_type = 1, ch_body_size = 28\<rparr>
      \<lparr>cn_socket = \<lparr>fd_in = replicate 28 9, fd_out = [], fd_io = []\<rparr>, cn_sync_strategy = Sync_default\<rparr> True (read_world [1, 2, 3]) =
        Some (r, ctx', rctx', w') \<and>
    (r = Evr_ok \<longrightarrow> fd_out (cn_socket ctx') = resp_bytes evr_status_code_ok 4 @ [1, 1, 2, 3])"
proof -
  let ?c = "\<lparr>cn_socket = \<lparr>fd_in = replicate 28 9, fd_out = [], fd_io = []\<rparr>, cn_sync_strategy = Sync_default\<rparr>"
  have four: "Suc (Suc (Suc (Suc 0))) = 4" by simp
  from get_blob_serves_glacier [where ctx = ?c and key = "replicate 28 9" and rest = "[]", OF fd_sock.evr_socket_axioms
      tbl.sqlite_index_axioms read_world_inv _ TrueI, of "\<lparr>ch_type = 1, ch_body_size = 28\<rparr>" True] read_world_facts
  show ?thesis by (auto simp: evr_layout four)
qed

text \<open>
  C4: what a client puts is stored under its digest. When the server acknowledges a put, in a run without failures of
  the disk and however the steps of other connections and of the worker of the persister interleave, the bytes received are a reference,
  flags and data with that digest; the glacier holds the reference with data of that digest, as does
  every other reference; everything stored before is still there; and the
  acknowledgement is the only thing sent. A run without failures of the disk
  (\<open>clean_step\<close>) is one in which only whole blobs with the right digest are queued, an append that succeeded has left the writer in
  a bucket that is a file and not the standard output, and an append that was refused has changed nothing;
  \<open>fair_others\<close> says that the other threads keep to this and do not touch the task of this one.
\<close>

theorem put_blob_stores:
  assumes "evr_socket rd wr stream sink valid" "sqlite_index S blobs buckets" "max_bucket_size < 2 ^ 31"
    "fresh_persister s0" "glacier_inv blobs (pc_write_ctx (ps_p s0)) (ps_w s0)"
    "\<forall>k f d. glacier_abs blobs (ps_w s0) k = Some (f, d) \<longrightarrow> addressed sha3_224 k d"
    "persister_run (clean_step (addressed sha3_224)) S max_bucket_size s0 s"
    "\<not> tk_done (ps_tasks s t)" "fair_others (addressed sha3_224) S max_bucket_size t others"
    "valid (cn_socket ctx)" "\<forall>i c. alloc i = Some c \<longrightarrow> length c = evr_chunk_size"
    "evr_work_put_blob sha3_224 rd wr alloc pb others t cmd ctx s = Some (Evr_ok, ctx', s')"
  shows "\<exists>key flags d. stream (cn_socket ctx) = key @ flags # d @ stream (cn_socket ctx') \<and>
    evr_blob_ref_final sha3_224 d = key \<and> glacier_abs blobs (ps_w s') key \<noteq> None \<and>
    sink (cn_socket ctx') = sink (cn_socket ctx) @ resp_bytes evr_status_code_ok 0 \<and>
    (\<forall>k f d. glacier_abs blobs (ps_w s') k = Some (f, d) \<longrightarrow> evr_blob_ref_final sha3_224 d = k) \<and>
    (\<forall>k v. glacier_abs blobs (ps_w s0) k = Some v \<longrightarrow> glacier_abs blobs (ps_w s') k = Some v) \<and>
    glacier_inv blobs (pc_write_ctx (ps_p s')) (ps_w s')"
proof -
  let ?Q = "addressed sha3_224"
  from assms(12) obtain blob ctx1 r c2 where
    rc: "put_receive sha3_224 rd alloc (pb_hd_open pb) cmd ctx = (Some blob, ctx1)" "put_persist pb others t blob s = Some (Evr_ok, s')"
    "send_resp wr (cn_socket ctx1) \<lparr>rh_status_code = evr_status_code_ok, rh_body_size = 0\<rparr> [] = (Evr_ok, c2)"
    "ctx' = ctx1\<lparr>cn_socket := c2\<rparr>"
    by (auto simp: evr_work_put_blob_def split: prod.splits option.splits if_splits)
  from evr_socket.put_receive_blob [OF assms(1,10,11) rc(1)] obtain fl d where
    rd: "stream (cn_socket ctx) = wb_key blob @ fl # d @ stream (cn_socket ctx1)" "valid (cn_socket ctx1)"
    "sink (cn_socket ctx1) = sink (cn_socket ctx)" "blob_holds blob d" "?Q (wb_key blob) d" by blast
  then have "queued_blob ?Q blob" by (auto simp: queued_blob_def)
  from put_persist_run [OF rc(2) assms(8) this assms(9)] have
    run: "persister_run (clean_step ?Q) S max_bucket_size s0 s'" "(t, blob, Evr_ok) \<in> set (ps_finished s')"
    using persister_run_trans [OF _ assms(7)] by blast+
  note f = fresh_persister_inv [OF assms(4)]
  have "stored_inv ?Q blobs (ps_w s0) s0" using f assms(4-6) by (simp add: stored_inv_def fresh_persister_def)
  from sqlite_index.clean_run_stored [OF assms(2) run(1) conjunct1 [OF f] this assms(3)] run(2) have
    "glacier_inv blobs (pc_write_ctx (ps_p s')) (ps_w s')" "glacier_abs blobs (ps_w s') (wb_key blob) \<noteq> None"
    "\<forall>k f d. glacier_abs blobs (ps_w s') k = Some (f, d) \<longrightarrow> ?Q k d"
    "\<forall>k v. glacier_abs blobs (ps_w s0) k = Some v \<longrightarrow> glacier_abs blobs (ps_w s') k = Some v"
    by (fastforce simp: stored_inv_def)+
  moreover have "stream c2 = stream (cn_socket ctx1)" "sink c2 = sink (cn_socket ctx) @ resp_bytes evr_status_code_ok 0"
    using evr_socket.send_resp_ok [OF assms(1) rd(2) rc(3)] rd(3) by simp_all
  ultimately show ?thesis using rd(1,5) rc(4)
    by (intro exI [of _ "wb_key blob"] exI [of _ fl] exI [of _ d]) (simp add: addressed_def)
qed

definition empty_blob :: evr_writing_blob where
  "empty_blob = \<lparr>wb_key = replicate 28 9, wb_flags = 1, wb_size = 0, wb_sync_strategy = Sync_per_blob, wb_chunks = []\<rparr>"

definition demo_put :: "table_db pstate" where
  "demo_put = demo_queued\<lparr>ps_tasks := (ps_tasks demo_persister)(7 := (ps_tasks demo_persister 7)\<lparr>tk_blob := empty_blob, tk_done := True\<rparr>)\<rparr>"

definition put_conn :: "bytes \<Rightarrow> bytes \<Rightarrow> fd_file evr_connection" where
  "put_conn i out = \<lparr>cn_socket = \<lparr>fd_in = i, fd_out = out, fd_io = []\<rparr>, cn_sync_strategy = Sync_default\<rparr>"

lemma demo_put_facts:
  "ready table_find table_bucket 1000 (tk_blob (ps_tasks demo_put 7)) demo_put" "persister_inv demo_put"
  "pring (ps_p demo_put) = 7 # []" "ps_pc demo_put = Worker_idle" "pc_working (ps_p demo_put)"
proof -
  have "blob_holds empty_blob []" by (auto simp: blob_holds_def empty_blob_def evr_layout intro!: exI [of _ 0])
  then show "ready table_find table_bucket 1000 (tk_blob (ps_tasks demo_put 7)) demo_put"
    using demo_queued_facts(1) by (auto simp: ready_def Let_def demo_put_def empty_blob_def evr_layout)
  show "persister_inv demo_put" using demo_queued_facts(2,3,4) by (auto simp: persister_inv_def pending_def demo_put_def)
qed (use demo_queued_facts(3-5) in \<open>simp_all add: demo_put_def\<close>)

lemma fd_read_full:
  "read_n evr_file_fd_read no_se \<lparr>fd_in = a @ b, fd_out = y, fd_io = []\<rparr> (length a) () = (Evr_ok, a, (), \<lparr>fd_in = b, fd_out = y, fd_io = []\<rparr>)"
  by (simp add: read_n.simps [of evr_file_fd_read no_se _ "length a"] evr_file_fd_read_def next_io_def no_se_def Let_def io_amount_def)

lemma fd_write_full:
  "write_n evr_file_fd_write \<lparr>fd_in = x, fd_out = y, fd_io = []\<rparr> b = (Evr_ok, \<lparr>fd_in = x, fd_out = y @ b, fd_io = []\<rparr>)"
  by (simp add: write_n.simps [of evr_file_fd_write _ b] evr_file_fd_write_def next_io_def Let_def io_amount_def)

lemma fd_send_resp:
  "send_resp evr_file_fd_write \<lparr>fd_in = x, fd_out = y, fd_io = []\<rparr> h b =
    (Evr_ok, \<lparr>fd_in = x, fd_out = y @ resp_bytes (rh_status_code h) (rh_body_size h) @ b, fd_io = []\<rparr>)"
  by (simp add: send_resp_def format_resp fd_write_full)

lemma demo_put_received:
  "put_receive (\<lambda>_. replicate 28 9) evr_file_fd_read (\<lambda>_. None) True \<lparr>ch_type = 2, ch_body_size = 29\<rparr> (put_conn (replicate 28 9 @ [1]) []) =
    (Some empty_blob, put_conn [] [])"
proof -
  have r: "read_n evr_file_fd_read no_se \<lparr>fd_in = replicate 28 9 @ [1], fd_out = [], fd_io = []\<rparr> 28 () =
      (Evr_ok, replicate 28 9, (), \<lparr>fd_in = [1], fd_out = [], fd_io = []\<rparr>)"
    using fd_read_full [of "replicate 28 9" "[1]" "[]"] by simp
  have f: "read_n evr_file_fd_read no_se \<lparr>fd_in = [1], fd_out = [], fd_io = []\<rparr> (Suc 0) () =
      (Evr_ok, [1], (), \<lparr>fd_in = [], fd_out = [], fd_io = []\<rparr>)"
    using fd_read_full [of "[1]" "[]" "[]"] by simp
  have z: "put_blob_size 29 = 0" by (simp add: put_blob_size_def evr_layout)
  have c: "\<exists>cs. read_into_chunks evr_file_fd_read evr_blob_ref_write_se (\<lambda>_. None) f 0 [] = (Some cs, [], f) \<and> cs_chunks cs = []" for f
    by (simp add: read_into_chunks_def evr_init_chunk_set_def ceil_div_def evr_chunk_size_def)
  show ?thesis
    using r f z c [of "\<lparr>fd_in = [], fd_out = [], fd_io = []\<rparr>"] by (auto simp: put_receive_def put_conn_def empty_blob_def evr_layout Let_def evr_blob_ref_hd_match_def
        evr_cmp_blob_ref_eq_def evr_blob_ref_final_def)
qed

lemma demo_put_others:
  obtains others s' where "fair_others Q table_ops 1000 7 others"
    "put_persist put_ok others 7 empty_blob demo_persister = Some (Evr_ok, s')"
proof -
  from tbl.worker_progress [OF demo_put_facts, of Q] obtain s1 s2 where
    s2: "persister_step table_ops 1000 demo_put s1" "persister_step table_ops 1000 s1 s2"
    "clean_step Q demo_put s1" "clean_step Q s1 s2" "own_step 7 demo_put s1" "own_step 7 s1 s2"
    "\<not> tk_done (ps_tasks s2 7)" "tk_result (ps_tasks s2 7) = Evr_ok" by metis
  define others where "others = (\<lambda>s. if s = demo_put then s2 else s)"
  let ?g = "\<lambda>a b. clean_step Q a b \<and> own_step 7 a b"
  have "persister_run ?g table_ops 1000 demo_put s2"
    using persister_run.here [of ?g] s2(1-6) by (blast intro: persister_run.further)
  then have fair: "fair_others Q table_ops 1000 7 others"
    by (auto simp: fair_others_def others_def intro: persister_run.here)
  have demo_persister_free: "pc_writing (ps_p demo_persister) = 0" "pc_reading (ps_p demo_persister) = 0" "ps_accepted demo_persister = []"
    "evr_persister_ctx_step 0 = 1"
    by (simp_all add: demo_persister_def evr_persister_ctx_step_def evr_persister_task_queue_length_def)
  have q': "demo_persister\<lparr>ps_p := (ps_p demo_persister)\<lparr>pc_tasks := (pc_tasks (ps_p demo_persister))[0 := 7], pc_writing := Suc 0\<rparr>,
      ps_tasks := (ps_tasks demo_persister)(7 := (ps_tasks demo_persister 7)\<lparr>tk_blob := empty_blob, tk_done := True\<rparr>),
      ps_accepted := [7]\<rparr> = demo_put"
    by (simp add: demo_put_def demo_queued_def demo_persister_def)
  have "put_persist put_ok others 7 empty_blob demo_persister =
      Some (Evr_ok, s2\<lparr>ps_tasks := (ps_tasks s2)(7 := (ps_tasks s2 7)\<lparr>tk_done := True\<rparr>)\<rparr>)"
    using s2(7,8) by (simp add: put_persist_def evr_persister_init_task_def evr_persister_queue_task_def queue_task_end_def put_ok_def
        sync_ok_def evr_persister_wait_for_task_def Let_def others_def q' demo_persister_free)
  with fair show thesis by (rule that)
qed

theorem put_blob_stores_witness:
  "\<exists>others ctx' s'. evr_work_put_blob (\<lambda>_. replicate 28 9) evr_file_fd_read evr_file_fd_write (\<lambda>_. None) put_ok others 7
      \<lparr>ch_type = 2, ch_body_size = 29\<rparr> (put_conn (replicate 28 9 @ [1]) []) demo_persister = Some (Evr_ok, ctx', s') \<and>
    glacier_abs table_find (ps_w s') (replicate 28 9) \<noteq> None"
proof -
  let ?sha = "\<lambda>_ :: bytes. replicate 28 9 :: bytes"
  obtain others s' where o: "fair_others (addressed ?sha) table_ops 1000 7 others"
    "put_persist put_ok others 7 empty_blob demo_persister = Some (Evr_ok, s')" by (rule demo_put_others)
  obtain ctx' where p: "evr_work_put_blob ?sha evr_file_fd_read evr_file_fd_write (\<lambda>_. None) put_ok others 7
      \<lparr>ch_type = 2, ch_body_size = 29\<rparr> (put_conn (replicate 28 9 @ [1]) []) demo_persister = Some (Evr_ok, ctx', s')"
    using o(2) demo_put_received
    by (simp add: evr_work_put_blob_def put_ok_def fd_send_resp put_conn_def)
  have g: "glacier_inv table_find (pc_write_ctx (ps_p demo_persister)) (ps_w demo_persister)"
    "\<forall>k f d. glacier_abs table_find (ps_w demo_persister) k = Some (f, d) \<longrightarrow> addressed ?sha k d"
    "\<not> tk_done (ps_tasks demo_persister 7)"
    using demo_side(7) by (simp_all add: demo_persister_def demo_inv)
  have "\<forall>i c. None = Some c \<longrightarrow> length c = evr_chunk_size" by simp
  from put_blob_stores [OF fd_sock.evr_socket_axioms tbl.sqlite_index_axioms _ demo_persister_fresh g(1,2) persister_run.here g(3) o(1) TrueI this p]
  obtain key flags d where "replicate 28 9 @ [1] = key @ flags # d @ fd_in (cn_socket ctx')" "evr_blob_ref_final ?sha d = key"
    "glacier_abs table_find (ps_w s') key \<noteq> None" by (auto simp: put_conn_def)
  then have "glacier_abs table_find (ps_w s') (replicate 28 9) \<noteq> None" by (auto simp: evr_blob_ref_final_def evr_layout)
  with p show ?thesis by blast
qed

text \<open>
  C8: a client that does not present the token gets nothing. When the stream does not begin with the
  authentication type and the configured token, the worker of the connection ends without having
  sent a byte and without having changed the glacier, the tasks or the queues.
\<close>

theorem unauthenticated_gets_nothing:
  assumes "evr_socket rd wr stream sink valid" "valid (cn_socket ctx)" "length token = evr_auth_token_size"
    "\<nexists>rest. stream (cn_socket ctx) = 1 # token @ rest"
  shows "\<exists>x ctx'. evr_connection_worker S sha3_224 rd wr token e close_ok ctx s = Some (x, ctx', s) \<and>
    sink (cn_socket ctx') = sink (cn_socket ctx)"
proof -
  obtain r c1 where a: "evr_authenticate_client rd token (cn_socket ctx) = (r, c1)" by fastforce
  from evr_socket.authenticate_result [OF assms(1,2) a assms(3)] assms(4) have "r \<noteq> Evr_ok" "sink c1 = sink (cn_socket ctx)" by auto
  with a show ?thesis by (simp add: evr_connection_worker_def Let_def)
qed

theorem unauthenticated_gets_nothing_witness:
  "\<forall>e. \<exists>x ctx'. evr_connection_worker table_ops (\<lambda>_. []) evr_file_fd_read evr_file_fd_write (replicate 32 7) e True
      \<lparr>cn_socket = \<lparr>fd_in = 1 # replicate 32 8, fd_out = [], fd_io = []\<rparr>, cn_sync_strategy = Sync_default\<rparr> demo_persister =
        Some (x, ctx', demo_persister) \<and> fd_out (cn_socket ctx') = []"
proof -
  let ?c = "\<lparr>cn_socket = \<lparr>fd_in = 1 # replicate 32 8, fd_out = [], fd_io = []\<rparr>, cn_sync_strategy = Sync_default\<rparr>"
  have "\<nexists>rest. fd_in (cn_socket ?c) = 1 # replicate 32 7 @ rest" by (simp add: numeral_eq_Suc)
  from unauthenticated_gets_nothing [where ctx = ?c and token = "replicate 32 7" and s = demo_persister,
      OF fd_sock.evr_socket_axioms TrueI _ this] show ?thesis by (simp add: evr_layout)
qed

text \<open>
  A watch that is not live lists the glacier. When a watch in the order of the references succeeds,
  the server has sent the status and then, in packets or not, one entry for each blob that was
  modified since the given time and has all flags of the filter, each once, the last one and no
  other marked as the end of the batch; nothing else was sent.
\<close>

theorem watch_lists_glacier:
  assumes "evr_socket rd wr stream sink valid" "sqlite_index S blobs buckets" "valid (cn_socket ctx)"
    "stream (cn_socket ctx) = fb @ rest" "length fb = evr_blob_filter_n_size" "evr_parse_blob_filter fb = Some f" "bf_sort_order f = 2"
    "evr_work_watch_blobs S rd wr wa cmd ctx rctx s = Some (Ret Evr_ok, ctx', rctx', s')"
  shows "\<exists>rows. sink (cn_socket ctx') = sink (cn_socket ctx) @ resp_bytes evr_status_code_ok 0 @
      concat (map visit_bytes (mark_last (map visit_of rows))) \<and> distinct rows \<and>
    set rows = {r. blobs (w_db (ps_w s)) (br_key r) = Some r \<and> passes (bf_flags_filter f) r \<and>
      sint (bf_last_modified_after f) \<le> sint (br_last_modified r)}"
proof -
  obtain r b u c1 where rn: "read_n rd no_se (cn_socket ctx) evr_blob_filter_n_size () = (r, b, u, c1)" using prod_cases4 by blast
  have sk: "evr_reader rd stream valid" using assms(1) by (simp add: evr_socket_def)
  note st = evr_reader.read_n_stream [OF sk assms(3) rn]
  have r: "r = Evr_ok" using assms(8) rn by (auto simp: evr_work_watch_blobs_def split: if_splits)
  then have b: "b = fb" using st assms(4,5) by auto
  have ns: "evr_cmd_watch_sort_order (bf_sort_order f) \<noteq> Some By_last_modified" using assms(7) by (simp add: evr_cmd_watch_sort_order_def)
  obtain r2 c2 where sr: "send_resp wr c1 \<lparr>rh_status_code = evr_status_code_ok, rh_body_size = 0\<rparr> [] = (r2, c2)" by fastforce
  from assms(6,8) rn r b ns sr have r2: "r2 = Evr_ok"
    and wl: "watch_list S wr wa f None (ctx\<lparr>cn_socket := c2\<rparr>) rctx s = Some (Ret Evr_ok, ctx', rctx', s')"
    by (auto simp: evr_work_watch_blobs_def Let_def split: if_splits)
  have c2: "valid c2" "sink c2 = sink (cn_socket ctx) @ resp_bytes evr_status_code_ok 0"
    using evr_socket.send_resp_ok [OF assms(1) _ sr [unfolded r2]] st evr_socket.read_n_sink [OF assms(1,3) rn] by auto
  obtain r3 rctx1 w1 where en: "evr_ensure_worker_rctx_exists S rctx (ps_w s) = (r3, rctx1, w1)" using prod_cases3 by blast
  obtain r4 v where li: "evr_glacier_list_blobs S w1 (evr_handle_blob_list wr) f \<lparr>lc_socket = c2, lc_blobs = []\<rparr> = (r4, v)" by fastforce
  obtain r5 v' where fl: "evr_flush_list_blobs_ctx wr v = (r5, v')" by fastforce
  from wl en li fl have ok: "r4 = Evr_ok" "r5 = Evr_ok" "cn_socket ctx' = lc_socket v'"
    by (auto simp: watch_list_def watch_end_def Let_def split: if_splits)
  from evr_socket.listing_sends [OF assms(1) li [unfolded ok(1)] c2(1) fl [unfolded ok(2)]] obtain vs where
    vs: "evr_glacier_list_blobs S w1 collect_visit f [] = (Evr_ok, vs)" "sink (lc_socket v') = sink c2 @ concat (map visit_bytes vs)" by blast
  from sqlite_index.list_blobs_result [OF assms(2) vs(1)] sqlite_index.ensure_rctx [OF assms(2) en] vs(2) ok(3) c2(2)
  show ?thesis by auto
qed

theorem watch_lists_glacier_witness:
  "\<forall>wa. \<exists>ctx' s' rows. evr_work_watch_blobs table_ops evr_file_fd_read evr_file_fd_write wa \<lparr>ch_type = 4, ch_body_size = 10\<rparr>
      (put_conn ([2, 1] @ be64 4) []) True (demo_persister\<lparr>ps_w := read_world [1, 2, 3]\<rparr>) = Some (Ret Evr_ok, ctx', True, s') \<and>
    fd_out (cn_socket ctx') = resp_bytes evr_status_code_ok 0 @ concat (map visit_bytes (mark_last (map visit_of rows)))"
proof
  fix wa
  let ?b = "[2, 1] @ be64 4" and ?f = "\<lparr>bf_sort_order = 2, bf_flags_filter = 1, bf_last_modified_after = 4\<rparr>"
    and ?s = "demo_persister\<lparr>ps_w := read_world [1, 2, 3]\<rparr>" and ?n = "evr_blob_filter_n_size"
  have len: "length ?b = ?n" by (simp add: evr_layout)
  have rd: "read_n evr_file_fd_read no_se \<lparr>fd_in = ?b, fd_out = [], fd_io = []\<rparr> ?n () = (Evr_ok, ?b, (), \<lparr>fd_in = [], fd_out = [], fd_io = []\<rparr>)"
    using fd_read_full [of ?b "[]" "[]"] unfolding len by simp
  have pf: "evr_parse_blob_filter ?b = Some ?f"
    using pull_be64_at_pos [of "[2, 1]" 4 "[]", where ?'a = 64] by (simp add: evr_parse_blob_filter_def pull_runs)
  have li: "evr_glacier_list_blobs table_ops (read_world [1, 2, 3]) (evr_handle_blob_list evr_file_fd_write) ?f \<lparr>lc_socket = x, lc_blobs = []\<rparr> =
      (Evr_ok, \<lparr>lc_socket = x, lc_blobs = [\<lparr>mb_key = replicate 28 9, mb_last_modified = 5, mb_flags = 1\<rparr>]\<rparr>)" for x
    by (simp add: evr_glacier_list_blobs_def evr_cmd_watch_sort_order_def table_ops_def read_world_def table_rows_def
        table_find_def demo_row_def evr_layout evr_handle_blob_list_def evr_list_blobs_blobs_len_def)
  have "\<exists>ctx' s'. evr_work_watch_blobs table_ops evr_file_fd_read evr_file_fd_write wa \<lparr>ch_type = 4, ch_body_size = 10\<rparr>
      (put_conn ?b []) True ?s = Some (Ret Evr_ok, ctx', True, s')"
    using rd pf li
    by (simp add: evr_work_watch_blobs_def put_conn_def watch_list_def fd_send_resp fd_write_full Let_def
        evr_cmd_watch_sort_order_def evr_ensure_worker_rctx_exists_def evr_flush_list_blobs_ctx_def watch_end_def evr_layout)
  then obtain ctx' s' where w: "evr_work_watch_blobs table_ops evr_file_fd_read evr_file_fd_write wa \<lparr>ch_type = 4, ch_body_size = 10\<rparr>
      (put_conn ?b []) True ?s = Some (Ret Evr_ok, ctx', True, s')" by blast
  have "fd_in (cn_socket (put_conn ?b [])) = ?b @ []" "bf_sort_order ?f = 2" "fd_out (cn_socket (put_conn ?b [])) = []"
    by (simp_all add: put_conn_def)
  from watch_lists_glacier [OF fd_sock.evr_socket_axioms tbl.sqlite_index_axioms TrueI this(1) len pf this(2) w] this(3)
  obtain rows where "fd_out (cn_socket ctx') = resp_bytes evr_status_code_ok 0 @ concat (map visit_bytes (mark_last (map visit_of rows)))"
    by auto
  with w show "\<exists>ctx' s' rows. evr_work_watch_blobs table_ops evr_file_fd_read evr_file_fd_write wa \<lparr>ch_type = 4, ch_body_size = 10\<rparr>
      (put_conn ?b []) True ?s = Some (Ret Evr_ok, ctx', True, s') \<and>
    fd_out (cn_socket ctx') = resp_bytes evr_status_code_ok 0 @ concat (map visit_bytes (mark_last (map visit_of rows)))"
    by blast
qed

end
