(* ===== verification/Glacier_Client.thy ===== *)
theory Glacier_Client
  imports Storage_Correct
begin

text \<open>
  \<^verbatim>\<open>src/evr-glacier-client.c\<close>: the other end of the storage protocol. The functions write commands to
  a socket and read the responses; what libxml does with the bytes and what the verification of
  a signature does are arguments. The properties say that the commands are those the server
  reads and that the responses the server sends are understood.
\<close>

section \<open>Definitions\<close>

text \<open>The buffers are on the stack and all of them is overwritten before they are written.\<close>

definition write_cmd :: "'s writer \<Rightarrow> 's \<Rightarrow> evr_cmd_header \<Rightarrow> bytes \<Rightarrow> evr_code \<times> 's" where
  "write_cmd wr f cmd body =
    (case evr_format_cmd_header (replicate evr_cmd_header_n_size 0) cmd of
       None \<Rightarrow> (Evr_error, f)
     | Some h \<Rightarrow> (case write_n wr f (h @ body) of (r, f1) \<Rightarrow> (if r \<noteq> Evr_ok then Evr_error else Evr_ok, f1)))"

definition evr_write_auth_token :: "'s writer \<Rightarrow> 's \<Rightarrow> evr_auth_token \<Rightarrow> evr_code \<times> 's" where
  "evr_write_auth_token wr f t =
    (case write_n wr f (ucast evr_auth_type_token # take evr_auth_token_size t) of (r, f1) \<Rightarrow>
       (if r \<noteq> Evr_ok then Evr_error else Evr_ok, f1))"

definition evr_read_resp_header :: "'s reader \<Rightarrow> 's \<Rightarrow> evr_resp_header option \<times> 's" where
  "evr_read_resp_header rd f =
    (case read_n rd no_se f evr_resp_header_n_size () of (r, b, _, f1) \<Rightarrow>
       if r \<noteq> Evr_ok then (None, f1) else (evr_parse_resp_header b, f1))"

definition evr_write_cmd_configure_connection :: "'s writer \<Rightarrow> 's \<Rightarrow> c_int \<Rightarrow> evr_code \<times> 's" where
  "evr_write_cmd_configure_connection wr f sync_strategy =
    write_cmd wr f \<lparr>ch_type = evr_cmd_type_configure_connection, ch_body_size = 1\<rparr> [ucast sync_strategy]"

definition evr_configure_connection :: "'s reader \<Rightarrow> 's writer \<Rightarrow> 's \<Rightarrow> c_int \<Rightarrow> evr_code \<times> 's" where
  "evr_configure_connection rd wr f sync_strategy =
    (case evr_write_cmd_configure_connection wr f sync_strategy of (r, f1) \<Rightarrow>
     if r \<noteq> Evr_ok then (Evr_error, f1)
     else case evr_read_resp_header rd f1 of
         (None, f2) \<Rightarrow> (Evr_error, f2)
       | (Some resp, f2) \<Rightarrow>
          (if rh_status_code resp = evr_unknown_request then Evr_unknown_request
           else if rh_status_code resp \<noteq> evr_status_code_ok then Evr_error else Evr_ok, f2))"

definition evr_write_cmd_stat_blob :: "'s writer \<Rightarrow> 's \<Rightarrow> evr_blob_ref \<Rightarrow> evr_code \<times> 's" where
  "evr_write_cmd_stat_blob wr f key =
    write_cmd wr f \<lparr>ch_type = evr_cmd_type_stat_blob, ch_body_size = evr_blob_ref_size\<rparr> (take evr_blob_ref_size key)"

definition evr_req_cmd_stat_blob :: "'s reader \<Rightarrow> 's writer \<Rightarrow> 's \<Rightarrow> evr_blob_ref \<Rightarrow> evr_resp_header option \<times> 's" where
  "evr_req_cmd_stat_blob rd wr f key =
    (case evr_write_cmd_stat_blob wr f key of (r, f1) \<Rightarrow>
       if r \<noteq> Evr_ok then (None, f1) else evr_read_resp_header rd f1)"

definition evr_write_cmd_get_blob :: "'s writer \<Rightarrow> 's \<Rightarrow> evr_blob_ref \<Rightarrow> evr_code \<times> 's" where
  "evr_write_cmd_get_blob wr f key =
    write_cmd wr f \<lparr>ch_type = evr_cmd_type_get_blob, ch_body_size = evr_blob_ref_size\<rparr> (take evr_blob_ref_size key)"

text \<open>The limit is that of a blob although the body also holds the flags.\<close>

definition evr_req_cmd_get_blob :: "'s reader \<Rightarrow> 's writer \<Rightarrow> 's \<Rightarrow> evr_blob_ref \<Rightarrow> evr_resp_header option \<times> 's" where
  "evr_req_cmd_get_blob rd wr f key =
    (case evr_write_cmd_get_blob wr f key of (r, f1) \<Rightarrow>
       if r \<noteq> Evr_ok then (None, f1)
       else case evr_read_resp_header rd f1 of
           (None, f2) \<Rightarrow> (None, f2)
         | (Some resp, f2) \<Rightarrow> (if rh_body_size resp > evr_max_blob_data_size then None else Some resp, f2))"

text \<open>\<open>mem\<close> and \<open>hd_open\<close> tell whether the buffer and the digest can be had.\<close>

definition evr_read_cmd_get_resp_blob ::
  "(bytes \<Rightarrow> bytes) \<Rightarrow> 's reader \<Rightarrow> bool \<Rightarrow> bool \<Rightarrow> 's \<Rightarrow> nat \<Rightarrow> evr_blob_ref \<Rightarrow> bytes option \<times> 's" where
  "evr_read_cmd_get_resp_blob sha3_224 rd mem hd_open c resp_body_size expected_ref =
    (if resp_body_size < evr_blob_flags_n_size \<or> resp_body_size > evr_max_blob_data_size + evr_blob_flags_n_size then (None, c)
     else case read_n rd no_se c evr_blob_flags_n_size () of (r, _, _, c1) \<Rightarrow>
     if r \<noteq> Evr_ok then (None, c1)
     else if \<not> mem then (None, c1)
     else if \<not> hd_open then (None, c1)
     else case read_n rd evr_blob_ref_write_se c1 (resp_body_size - evr_blob_flags_n_size) [] of (r, data, md, c2) \<Rightarrow>
     if r \<noteq> Evr_ok then (None, c2)
     else if evr_blob_ref_hd_match sha3_224 md expected_ref \<noteq> Evr_ok then (None, c2)
     else (Some data, c2))"

definition evr_pipe_cmd_get_resp_blob ::
  "(bytes \<Rightarrow> bytes) \<Rightarrow> 'd writer \<Rightarrow> 's reader \<Rightarrow> bool \<Rightarrow> 'd \<Rightarrow> 's \<Rightarrow> nat \<Rightarrow> evr_blob_ref \<Rightarrow> evr_code \<times> 'd \<times> 's" where
  "evr_pipe_cmd_get_resp_blob sha3_224 wr rd hd_open dst src resp_body_size expected_ref =
    (if resp_body_size < evr_blob_flags_n_size then (Evr_error, dst, src)
     else case read_n rd no_se src evr_blob_flags_n_size () of (r, _, _, s1) \<Rightarrow>
     if r = Evr_end then (Evr_end, dst, s1)
     else if r \<noteq> Evr_ok then (Evr_error, dst, s1)
     else if \<not> hd_open then (Evr_error, dst, s1)
     else case pipe_n wr rd evr_blob_ref_write_se dst s1 (resp_body_size - 1) [] of (r, md, d2, s2) \<Rightarrow>
     (if r = Evr_end then Evr_end
      else if r \<noteq> Evr_ok then Evr_error
      else if evr_blob_ref_hd_match sha3_224 md expected_ref \<noteq> Evr_ok then Evr_error else Evr_ok, d2, s2))"

definition evr_write_cmd_put_blob :: "'s writer \<Rightarrow> 's \<Rightarrow> evr_blob_ref \<Rightarrow> c_int \<Rightarrow> nat \<Rightarrow> evr_code \<times> 's" where
  "evr_write_cmd_put_blob wr f key flags blob_size =
    write_cmd wr f \<lparr>ch_type = evr_cmd_type_put_blob, ch_body_size = evr_blob_ref_size + 1 + blob_size\<rparr>
      (take evr_blob_ref_size key @ [ucast flags])"

text \<open>\<open>None\<close> is an access outside of the chunks.\<close>

definition evr_stat_and_put ::
  "'s reader \<Rightarrow> 's writer \<Rightarrow> 's \<Rightarrow> evr_blob_ref \<Rightarrow> c_int \<Rightarrow> chunk_set \<Rightarrow> (evr_code \<times> 's) option" where
  "evr_stat_and_put rd wr c key flags blob =
    (case evr_req_cmd_stat_blob rd wr c key of
       (None, c1) \<Rightarrow> Some (Evr_error, c1)
     | (Some resp, c1) \<Rightarrow>
        if rh_status_code resp = evr_status_code_ok then
          (if rh_body_size resp \<noteq> evr_stat_blob_resp_n_size then Some (Evr_error, c1)
           else case dump_n_bytes rd no_se c1 evr_stat_blob_resp_n_size () of (r, _, c2) \<Rightarrow>
             Some (if r \<noteq> Evr_ok then Evr_error else Evr_exists, c2))
        else if rh_status_code resp \<noteq> evr_status_code_blob_not_found then Some (Evr_error, c1)
        else if rh_body_size resp \<noteq> 0 then Some (Evr_error, c1)
        else case evr_write_cmd_put_blob wr c1 key flags (cs_size_used blob) of (r, c2) \<Rightarrow>
        if r \<noteq> Evr_ok then Some (Evr_error, c2)
        else case write_chunk_set wr c2 blob of
          None \<Rightarrow> None
        | Some (r, c3) \<Rightarrow>
           if r \<noteq> Evr_ok then Some (Evr_error, c3)
           else (case evr_read_resp_header rd c3 of
                (None, c4) \<Rightarrow> Some (Evr_error, c4)
              | (Some resp, c4) \<Rightarrow> Some (if rh_status_code resp \<noteq> evr_status_code_ok then Evr_error else Evr_ok, c4)))"

definition evr_write_cmd_watch_blobs :: "'s writer \<Rightarrow> 's \<Rightarrow> evr_blob_filter \<Rightarrow> evr_code \<times> 's" where
  "evr_write_cmd_watch_blobs wr f filt =
    (case evr_format_blob_filter (replicate evr_blob_filter_n_size 0) filt of
       None \<Rightarrow> (Evr_error, f)
     | Some b \<Rightarrow> write_cmd wr f \<lparr>ch_type = evr_cmd_type_watch_blobs, ch_body_size = evr_blob_filter_n_size\<rparr> b)"

definition evr_req_cmd_watch_blobs :: "'s reader \<Rightarrow> 's writer \<Rightarrow> 's \<Rightarrow> evr_blob_filter \<Rightarrow> evr_code \<times> 's" where
  "evr_req_cmd_watch_blobs rd wr f filt =
    (case evr_write_cmd_watch_blobs wr f filt of (r, f1) \<Rightarrow>
     if r \<noteq> Evr_ok then (Evr_error, f1)
     else case evr_read_resp_header rd f1 of
         (None, f2) \<Rightarrow> (Evr_error, f2)
       | (Some resp, f2) \<Rightarrow>
          (if rh_status_code resp \<noteq> evr_status_code_ok then Evr_error
           else if rh_body_size resp \<noteq> 0 then Evr_error else Evr_ok, f2))"

definition evr_read_watch_blobs_body :: "'s reader \<Rightarrow> 's \<Rightarrow> evr_code \<times> evr_watch_blobs_body option \<times> 's" where
  "evr_read_watch_blobs_body rd f =
    (case read_n rd no_se f evr_watch_blobs_body_n_size () of (r, b, _, f1) \<Rightarrow>
       if r = Evr_end then (Evr_end, None, f1)
       else if r \<noteq> Evr_ok then (Evr_error, None, f1)
       else case evr_parse_watch_blobs_body b of None \<Rightarrow> (Evr_error, None, f1) | Some x \<Rightarrow> (Evr_ok, Some x, f1))"

text \<open>\<open>parse\<close> is \<^verbatim>\<open>xmlReadMemory\<close>, \<open>verify\<close> is \<^verbatim>\<open>evr_verify\<close> and \<open>parse_claim\<close> is \<^verbatim>\<open>evr_parse_xml\<close>.\<close>

definition evr_fetch_xml ::
  "(bytes \<Rightarrow> 'x option) \<Rightarrow> (bytes \<Rightarrow> bytes) \<Rightarrow> 's reader \<Rightarrow> 's writer \<Rightarrow> bool \<Rightarrow> bool \<Rightarrow> 's \<Rightarrow> evr_blob_ref \<Rightarrow> evr_code \<times> 'x option \<times> 's" where
  "evr_fetch_xml parse sha3_224 rd wr mem hd_open f key =
    (case evr_req_cmd_get_blob rd wr f key of
       (None, f1) \<Rightarrow> (Evr_error, None, f1)
     | (Some resp, f1) \<Rightarrow>
        if rh_status_code resp \<noteq> evr_status_code_ok then (Evr_error, None, f1)
        else case evr_read_cmd_get_resp_blob sha3_224 rd mem hd_open f1 (rh_body_size resp) key of
            (None, f2) \<Rightarrow> (Evr_error, None, f2)
          | (Some b, f2) \<Rightarrow>
             (case parse (take (rh_body_size resp - evr_blob_flags_n_size) b) of
                None \<Rightarrow> (Evr_user_data_invalid, None, f2)
              | Some doc \<Rightarrow> (Evr_ok, Some doc, f2)))"

definition evr_fetch_signed_xml ::
  "(bytes \<Rightarrow> evr_code \<times> bytes) \<Rightarrow> (bytes \<Rightarrow> evr_code \<times> 'x option) \<Rightarrow> (bytes \<Rightarrow> bytes) \<Rightarrow> 's reader \<Rightarrow> 's writer \<Rightarrow> bool \<Rightarrow> bool \<Rightarrow> 's \<Rightarrow> evr_blob_ref
   \<Rightarrow> evr_code \<times> 'x option \<times> 's" where
  "evr_fetch_signed_xml verify parse_claim sha3_224 rd wr mem hd_open f key =
    (case evr_req_cmd_get_blob rd wr f key of
       (None, f1) \<Rightarrow> (Evr_error, None, f1)
     | (Some resp, f1) \<Rightarrow>
        if rh_status_code resp \<noteq> evr_status_code_ok then (Evr_not_found, None, f1)
        else case evr_read_cmd_get_resp_blob sha3_224 rd mem hd_open f1 (rh_body_size resp) key of
            (None, f2) \<Rightarrow> (Evr_error, None, f2)
          | (Some b, f2) \<Rightarrow>
             (case verify (take (rh_body_size resp - evr_blob_flags_n_size) b) of (verify_res, claim) \<Rightarrow>
              if verify_res = Evr_user_data_invalid then (Evr_user_data_invalid, None, f2)
              else if verify_res \<noteq> Evr_ok then (Evr_error, None, f2)
              else case parse_claim claim of (parse_res, doc) \<Rightarrow>
                if parse_res = Evr_user_data_invalid then (Evr_user_data_invalid, None, f2)
                else if parse_res \<noteq> Evr_ok then (Evr_error, None, f2)
                else (Evr_ok, doc, f2)))"

section \<open>Commands\<close>

definition cmd_bytes :: "c_int \<Rightarrow> nat \<Rightarrow> bytes" where
  "cmd_bytes type body_size = ucast type # be32 (word_of_nat body_size)"

lemma format_cmd: "evr_format_cmd_header (replicate evr_cmd_header_n_size 0) h = Some (cmd_bytes (ch_type h) (ch_body_size h))"
  by (simp add: evr_format_cmd_header_def cmd_bytes_def fixed_size_run ucast_size evr_layout)

lemma length_resp_bytes [simp]: "length (resp_bytes c n) = evr_resp_header_n_size"
  by (simp add: resp_bytes_def evr_layout)

context evr_socket
begin

lemma write_cmd_ok:
  assumes "valid f" "write_cmd wr f h body = (Evr_ok, f')"
  shows "valid f' \<and> sink f' = sink f @ cmd_bytes (ch_type h) (ch_body_size h) @ body \<and> stream f' = stream f"
proof -
  obtain r f1 where w: "write_n wr f (cmd_bytes (ch_type h) (ch_body_size h) @ body) = (r, f1)" by fastforce
  with assms(2) have "r = Evr_ok" "f1 = f'" by (auto simp: write_cmd_def format_cmd split: if_splits)
  with write_n_ok [OF assms(1)] w write_n_stream [OF assms(1) w] show ?thesis by simp
qed

text \<open>A header that is read is the next one of the stream.\<close>

lemma read_resp_header_stream:
  assumes "valid f" "evr_read_resp_header rd f = (Some resp, f')" "stream f = resp_bytes c n @ rest" "unat c < 256" "n < 2 ^ 32"
  shows "resp = \<lparr>rh_status_code = c, rh_body_size = n\<rparr> \<and> stream f' = rest \<and> valid f' \<and> sink f' = sink f"
proof -
  obtain r b u f1 where rn: "read_n rd no_se f evr_resp_header_n_size () = (r, b, u, f1)" using prod_cases4 by blast
  note st = read_n_stream [OF assms(1) rn]
  have r: "r = Evr_ok" "f1 = f'" "evr_parse_resp_header b = Some resp" using assms(2) rn
    by (auto simp: evr_read_resp_header_def split: if_splits)
  then have "b = resp_bytes c n" "stream f' = rest" using st assms(3) by auto
  with r resp_bytes_parse [OF assms(4,5)] st read_n_sink [OF assms(1) rn] show ?thesis by simp
qed

lemma get_resp_blob_stream:
  assumes "valid f" "evr_read_cmd_get_resp_blob sha3_224 rd mem hd_open f (1 + length d) key = (Some b, f')"
    "stream f = fl # d @ rest" "length key = evr_blob_ref_size"
  shows "b = d \<and> addressed sha3_224 key d \<and> stream f' = rest \<and> valid f' \<and> sink f' = sink f"
proof -
  obtain r1 b1 u1 f1 where r1: "read_n rd no_se f evr_blob_flags_n_size () = (r1, b1, u1, f1)" using prod_cases4 by blast
  obtain r2 b2 md f2 where r2: "read_n rd evr_blob_ref_write_se f1 (length d) [] = (r2, b2, md, f2)" using prod_cases4 by blast
  have ok: "r1 = Evr_ok" "r2 = Evr_ok" "b = b2" "f' = f2" "evr_blob_ref_hd_match sha3_224 md key = Evr_ok"
    using assms(2) r1 r2 by (auto simp: evr_read_cmd_get_resp_blob_def evr_layout split: if_splits)
  note s1 = read_n_stream [OF assms(1) r1]
  have "length b1 = 1" using s1 ok(1) by (simp add: evr_layout)
  then obtain x where "b1 = [x]" by (cases b1) auto
  then have v1: "valid f1" "stream f1 = d @ rest" using s1 assms(3) by simp_all
  note s2 = read_n_stream [OF v1(1) r2]
  have "length b2 = length d" "b2 @ stream f2 = d @ rest" using s2 ok(2) v1(2) by metis+
  then have d: "b2 = d" "stream f2 = rest" by simp_all
  have "md = b2" using read_n_collect [OF _ v1(1) r2] by (simp add: evr_blob_ref_write_se_def evr_blob_ref_write_def)
  with ok d hd_match_addressed [OF _ assms(4)] s2 read_n_sink [OF assms(1) r1] read_n_sink [OF v1(1) r2] show ?thesis by auto
qed

text \<open>What a client makes of the answer to a request for a blob.\<close>

lemma fetch_stream:
  assumes "valid f" "stream f = get_answer v @ rest" "length key = evr_blob_ref_size" "\<And>fl d. v = Some (fl, d) \<Longrightarrow> 1 + length d < 2 ^ 32"
    "evr_req_cmd_get_blob rd wr f key = (Some resp, f1)"
  shows "valid f1 \<and> sink f1 = sink f @ cmd_bytes evr_cmd_type_get_blob evr_blob_ref_size @ key \<and>
    (case v of
       None \<Rightarrow> rh_status_code resp = evr_status_code_blob_not_found \<and> stream f1 = rest
     | Some (fl, d) \<Rightarrow> length d < evr_max_blob_data_size \<and>
         resp = \<lparr>rh_status_code = evr_status_code_ok, rh_body_size = 1 + length d\<rparr> \<and> stream f1 = ucast fl # d @ rest)"
proof -
  obtain f0 where w: "evr_write_cmd_get_blob wr f key = (Evr_ok, f0)"
    and rh: "evr_read_resp_header rd f0 = (Some resp, f1)" and small: "rh_body_size resp \<le> evr_max_blob_data_size"
    using assms(5) by (auto simp: evr_req_cmd_get_blob_def split: if_splits option.splits prod.splits)
  have f0: "valid f0" "sink f0 = sink f @ cmd_bytes evr_cmd_type_get_blob evr_blob_ref_size @ key" "stream f0 = stream f"
    using write_cmd_ok [OF assms(1) w [unfolded evr_write_cmd_get_blob_def]] assms(3) by auto
  show ?thesis
  proof (cases v)
    case None
    have "stream f0 = resp_bytes evr_status_code_blob_not_found 0 @ rest" using None f0(3) assms(2) by (simp add: get_answer_def)
    from read_resp_header_stream [OF f0(1) rh this] None f0 show ?thesis by (simp add: evr_status_code_blob_not_found_def)
  next
    case (Some x)
    obtain fl d where x: "x = (fl, d)" by fastforce
    have "stream f0 = resp_bytes evr_status_code_ok (1 + length d) @ ucast fl # d @ rest"
      using Some x f0(3) assms(2) by (simp add: get_answer_def)
    from read_resp_header_stream [OF f0(1) rh this _ assms(4) [OF Some [unfolded x]]] Some x f0 small show ?thesis
      by (auto simp: evr_status_code_ok_def)
  qed
qed

lemma write_chunk_set_loop_stream:
  "valid f \<Longrightarrow> write_chunk_set_loop wr f cs n = Some (r, f') \<Longrightarrow> stream f' = stream f \<and> valid f'"
proof (induction cs arbitrary: f n)
  case (Cons c cs)
  let ?k = "min evr_chunk_size n"
  obtain r1 f1 where w: "write_n wr f (take ?k c) = (r1, f1)" by fastforce
  have "stream f1 = stream f" "valid f1" using write_n_stream [OF Cons.prems(1) w] write_n_sink [OF Cons.prems(1) w] by simp_all
  with Cons.IH [of f1] Cons.prems w show ?case by (auto simp: Let_def split: if_splits)
qed (auto split: if_splits)

lemma stat_and_put_sends:
  assumes "valid c" "length key = evr_blob_ref_size" "chunks_hold n (cs_chunks blob) b" "cs_size_used blob = length b"
    "evr_stat_and_put rd wr c key flags blob = Some (Evr_ok, c')"
  shows "sink c' = sink c @ cmd_bytes evr_cmd_type_stat_blob evr_blob_ref_size @ key @
    cmd_bytes evr_cmd_type_put_blob (evr_blob_ref_size + 1 + length b) @ key @ ucast flags # b"
proof -
  obtain resp c1 where rq: "evr_req_cmd_stat_blob rd wr c key = (Some resp, c1)"
    using assms(5) by (auto simp: evr_stat_and_put_def split: prod.splits option.splits)
  obtain c2 c3 resp2 where p: "evr_write_cmd_put_blob wr c1 key flags (cs_size_used blob) = (Evr_ok, c2)"
    "write_chunk_set wr c2 blob = Some (Evr_ok, c3)" "evr_read_resp_header rd c3 = (Some resp2, c')"
    using assms(5) rq by (auto simp: evr_stat_and_put_def split: prod.splits option.splits if_splits)
  obtain c0 where w: "evr_write_cmd_stat_blob wr c key = (Evr_ok, c0)" "evr_read_resp_header rd c0 = (Some resp, c1)"
    using rq by (auto simp: evr_req_cmd_stat_blob_def split: prod.splits if_splits)
  have rh: "sink y = sink x \<and> valid y" if "valid x" "evr_read_resp_header rd x = (z, y)" for x y z
  proof -
    obtain r b u g where rn: "read_n rd no_se x evr_resp_header_n_size () = (r, b, u, g)" using prod_cases4 by blast
    with that read_n_sink [OF that(1) rn] read_n_stream [OF that(1) rn] show ?thesis
      by (auto simp: evr_read_resp_header_def split: if_splits)
  qed
  note a0 = write_cmd_ok [OF assms(1) w(1) [unfolded evr_write_cmd_stat_blob_def]]
  note a1 = rh [OF conjunct1 [OF a0] w(2)]
  note a2 = write_cmd_ok [OF conjunct2 [OF a1] p(1) [unfolded evr_write_cmd_put_blob_def]]
  have "sink c3 = sink c2 @ b" "valid c3"
    using write_chunk_set_loop_sink [OF conjunct1 [OF a2] assms(3)] p(2) assms(4) by (auto simp: write_chunk_set_def)
  with a0 a1 a2 rh [OF _ p(3)] assms(2,4) show ?thesis by simp
qed

end

section \<open>Properties\<close>

lemma cmd_bytes_parse:
  assumes "unat type < 256" "body_size < 2 ^ 32"
  shows "evr_parse_cmd_header (cmd_bytes type body_size) = Some \<lparr>ch_type = type, ch_body_size = body_size\<rparr>"
  using cmd_header.prs_fmt [OF length_replicate, OF _ format_cmd [of "\<lparr>ch_type = type, ch_body_size = body_size\<rparr>"]] assms
  by (simp add: cmd_header_fits_def byte_fits_def)

lemma put_blob_size_eq: "n + 29 < 2 ^ 32 \<Longrightarrow> put_blob_size (evr_blob_ref_size + 1 + n) = n"
proof -
  assume n: "n + 29 < 2 ^ 32"
  have "(word_of_nat (evr_blob_ref_size + 1 + n) :: 64 word) - word_of_nat evr_blob_ref_size - 1 = word_of_nat n"
    by (simp add: evr_layout)
  then show ?thesis using n by (simp add: put_blob_size_def unsigned_of_nat take_bit_nat_eq_self)
qed

text \<open>
  C6: a client that fetches a document gets what the server holds, or nothing. When the stream of its
  socket is the answer of the server for a reference and the fetch succeeds, the document was parsed
  from exactly the bytes the glacier holds, these have the digest the client asked for, and the client
  has sent the command and read the answer and nothing behind it. A blob of the
  maximal size, which the server accepts, is never fetched: its response is one byte too long for the check.
\<close>

theorem client_fetches_stored:
  fixes v :: "(c_int \<times> bytes) option"
  assumes "evr_socket rd wr stream sink valid" "valid f" "length key = evr_blob_ref_size"
    "stream f = (case v of
        None \<Rightarrow> resp_bytes evr_status_code_blob_not_found 0
      | Some (flags, d) \<Rightarrow> resp_bytes evr_status_code_ok (1 + length d) @ ucast flags # d) @ rest"
    "\<And>fl d. v = Some (fl, d) \<Longrightarrow> 1 + length d < 2 ^ 32"
    "evr_fetch_xml parse sha3_224 rd wr mem hd_open f key = (code, doc, f')"
  shows "(code = Evr_ok \<longrightarrow> (\<exists>flags d. v = Some (flags, d) \<and> doc = parse d \<and> evr_blob_ref_final sha3_224 d = key \<and>
      stream f' = rest \<and> sink f' = sink f @ cmd_bytes evr_cmd_type_get_blob evr_blob_ref_size @ key)) \<and>
    (\<forall>flags d. v = Some (flags, d) \<and> length d = evr_max_blob_data_size \<longrightarrow> code = Evr_error)"
proof -
  have st: "stream f = get_answer v @ rest" using assms(4) by (simp add: get_answer_def)
  note ft = evr_socket.fetch_stream [OF assms(1,2) st assms(3) assms(5)]
  show ?thesis
  proof (cases "evr_req_cmd_get_blob rd wr f key")
    case (Pair ro f1)
    show ?thesis
    proof (cases ro)
      case None
      with Pair assms(6) show ?thesis by (auto simp: evr_fetch_xml_def)
    next
      case (Some resp)
      note ft = ft [OF _ Pair [unfolded Some]]
      show ?thesis
      proof (cases v)
        case None
        with ft Pair Some assms(6) show ?thesis
          by (auto simp: evr_fetch_xml_def evr_status_code_ok_def evr_status_code_blob_not_found_def)
      next
        case v: (Some x)
        obtain fl d where x: "x = (fl, d)" by fastforce
        with ft v have r: "valid f1" "sink f1 = sink f @ cmd_bytes evr_cmd_type_get_blob evr_blob_ref_size @ key"
          "length d < evr_max_blob_data_size" "resp = \<lparr>rh_status_code = evr_status_code_ok, rh_body_size = 1 + length d\<rparr>"
          "stream f1 = ucast fl # d @ rest" by auto
        obtain bo f2 where g: "evr_read_cmd_get_resp_blob sha3_224 rd mem hd_open f1 (1 + length d) key = (bo, f2)" by fastforce
        show ?thesis
        proof (cases bo)
          case None
          with Pair Some r g v x assms(6) show ?thesis by (auto simp: evr_fetch_xml_def)
        next
          case b: (Some b)
          note gr = evr_socket.get_resp_blob_stream [OF assms(1) r(1) g [unfolded b] r(5) assms(3)]
          with Pair Some r g b v x assms(6) show ?thesis
            by (auto simp: evr_fetch_xml_def addressed_def evr_layout split: option.splits)
        qed
      qed
    qed
  qed
qed

lemma fd_write_cmd:
  "write_cmd evr_file_fd_write \<lparr>fd_in = x, fd_out = y, fd_io = []\<rparr> h b =
    (Evr_ok, \<lparr>fd_in = x, fd_out = y @ cmd_bytes (ch_type h) (ch_body_size h) @ b, fd_io = []\<rparr>)"
  by (simp add: write_cmd_def format_cmd fd_write_full)

lemma fd_read_resp:
  assumes "unat c < 256" "n < 2 ^ 32"
  shows "evr_read_resp_header evr_file_fd_read \<lparr>fd_in = resp_bytes c n @ x, fd_out = y, fd_io = []\<rparr> =
    (Some \<lparr>rh_status_code = c, rh_body_size = n\<rparr>, \<lparr>fd_in = x, fd_out = y, fd_io = []\<rparr>)"
  using fd_read_full [of "resp_bytes c n" x y] resp_bytes_parse [OF assms] by (simp add: evr_read_resp_header_def)

theorem client_fetches_stored_witness:
  "\<exists>f'. evr_fetch_xml Some (\<lambda>_. replicate 28 9) evr_file_fd_read evr_file_fd_write True True
      \<lparr>fd_in = resp_bytes evr_status_code_ok 1 @ [7], fd_out = [], fd_io = []\<rparr> (replicate 28 9) = (Evr_ok, Some [], f') \<and> fd_in f' = []"
proof -
  let ?f = "\<lparr>fd_in = resp_bytes evr_status_code_ok 1 @ [7], fd_out = [], fd_io = []\<rparr>" and ?sha = "\<lambda>_ :: bytes. replicate 28 9 :: bytes"
  have rh: "evr_read_resp_header evr_file_fd_read \<lparr>fd_in = resp_bytes evr_status_code_ok 1 @ [7], fd_out = y, fd_io = []\<rparr> =
      (Some \<lparr>rh_status_code = evr_status_code_ok, rh_body_size = 1\<rparr>, \<lparr>fd_in = [7], fd_out = y, fd_io = []\<rparr>)" for y
    by (rule fd_read_resp) (simp_all add: evr_status_code_ok_def)
  have fl: "read_n evr_file_fd_read no_se \<lparr>fd_in = [7], fd_out = y, fd_io = []\<rparr> (Suc 0) () = (Evr_ok, [7], (), \<lparr>fd_in = [], fd_out = y, fd_io = []\<rparr>)" for y
    using fd_read_full [of "[7]" "[]" y] by simp
  have "\<exists>f'. evr_fetch_xml Some ?sha evr_file_fd_read evr_file_fd_write True True ?f (replicate 28 9) = (Evr_ok, Some [], f')"
    using rh fl
    by (simp add: evr_fetch_xml_def evr_req_cmd_get_blob_def evr_write_cmd_get_blob_def fd_write_cmd evr_read_cmd_get_resp_blob_def
        evr_layout evr_blob_ref_hd_match_def evr_cmp_blob_ref_eq_def evr_blob_ref_final_def evr_max_blob_data_size_def)
  then obtain f' where f': "evr_fetch_xml Some ?sha evr_file_fd_read evr_file_fd_write True True ?f (replicate 28 9) = (Evr_ok, Some [], f')" by blast
  from client_fetches_stored [where f = ?f and v = "Some (7, [])" and rest = "[]", OF fd_sock.evr_socket_axioms TrueI _ _ _ f'] f'
  show ?thesis by (auto simp: evr_layout)
qed

text \<open>
  C7: what a client puts is what the server receives. A client that puts a blob successfully has sent
  a stat command and then the put command, the reference, the flags and the bytes of the chunks;
  a server whose socket delivers this parses both commands, and when it accepts the body it has
  received exactly the reference, the flags and the bytes, and nothing behind them.
\<close>

theorem client_put_is_received:
  assumes "evr_socket rd wr stream sink valid" "evr_socket rd' wr' stream' sink' valid'"
    "valid c" "length key = evr_blob_ref_size" "chunks_hold n (cs_chunks cs) b" "cs_size_used cs = length b" "length b + 29 < 2 ^ 32"
    "evr_stat_and_put rd wr c key flags cs = Some (Evr_ok, c')"
    "valid' (cn_socket ctx)" "\<forall>i x. alloc i = Some x \<longrightarrow> length x = evr_chunk_size"
    "stream' (cn_socket ctx) = key @ ucast flags # b @ rest"
    "put_receive sha3_224 rd' alloc hd_open \<lparr>ch_type = evr_cmd_type_put_blob, ch_body_size = evr_blob_ref_size + 1 + length b\<rparr> ctx = (Some blob, ctx')"
  shows "\<exists>h1 h2. sink c' = sink c @ h1 @ key @ h2 @ key @ ucast flags # b \<and>
    evr_parse_cmd_header h1 = Some \<lparr>ch_type = evr_cmd_type_stat_blob, ch_body_size = evr_blob_ref_size\<rparr> \<and>
    evr_parse_cmd_header h2 = Some \<lparr>ch_type = evr_cmd_type_put_blob, ch_body_size = evr_blob_ref_size + 1 + length b\<rparr> \<and>
    wb_key blob = key \<and> wb_flags blob = ucast (ucast flags :: byte) \<and> blob_holds blob b \<and>
    evr_blob_ref_final sha3_224 b = key \<and> stream' (cn_socket ctx') = rest"
proof -
  have sz: "wb_size blob = length b"
    using assms(7,12) put_blob_size_eq [of "length b"]
    by (auto simp: put_receive_def Let_def split: if_splits option.splits prod.splits)
  from evr_socket.put_receive_blob [OF assms(2,9,10,12)] obtain fl d where
    r: "stream' (cn_socket ctx) = wb_key blob @ fl # d @ stream' (cn_socket ctx')" "wb_flags blob = ucast fl" "blob_holds blob d"
    "addressed sha3_224 (wb_key blob) d" by blast
  then have len: "length (wb_key blob) = evr_blob_ref_size" "wb_size blob = length b" using sz by (simp_all add: blob_holds_def)
  have "wb_key blob = key" "fl = ucast flags" "d @ stream' (cn_socket ctx') = b @ rest" using r(1) assms(4,11) len(1) by simp_all
  moreover from this have "d = b" "stream' (cn_socket ctx') = rest" using r(3) len(2) by (simp_all add: blob_holds_def)
  moreover have "evr_parse_cmd_header (cmd_bytes evr_cmd_type_stat_blob evr_blob_ref_size) = Some \<lparr>ch_type = evr_cmd_type_stat_blob, ch_body_size = evr_blob_ref_size\<rparr>"
    "evr_parse_cmd_header (cmd_bytes evr_cmd_type_put_blob (evr_blob_ref_size + 1 + length b)) =
      Some \<lparr>ch_type = evr_cmd_type_put_blob, ch_body_size = evr_blob_ref_size + 1 + length b\<rparr>"
    using assms(7) by (intro cmd_bytes_parse; simp add: evr_layout evr_cmd_type_stat_blob_def evr_cmd_type_put_blob_def)+
  ultimately show ?thesis using r evr_socket.stat_and_put_sends [OF assms(1,3,4,5,6,8)]
    by (intro exI [of _ "cmd_bytes evr_cmd_type_stat_blob evr_blob_ref_size"]
        exI [of _ "cmd_bytes evr_cmd_type_put_blob (evr_blob_ref_size + 1 + length b)"]) (simp add: addressed_def)
qed

theorem client_put_is_received_witness:
  "\<exists>c' h1 h2. evr_stat_and_put evr_file_fd_read evr_file_fd_write
      \<lparr>fd_in = resp_bytes evr_status_code_blob_not_found 0 @ resp_bytes evr_status_code_ok 0, fd_out = [], fd_io = []\<rparr>
      (replicate 28 9) 1 \<lparr>cs_size_used = 0, cs_chunks = []\<rparr> = Some (Evr_ok, c') \<and>
    fd_out c' = h1 @ replicate 28 9 @ h2 @ replicate 28 9 @ [1] \<and> evr_parse_cmd_header h2 = Some \<lparr>ch_type = 2, ch_body_size = 29\<rparr>"
proof -
  let ?n = "resp_bytes evr_status_code_blob_not_found 0" and ?o = "resp_bytes evr_status_code_ok 0"
  let ?c = "\<lparr>fd_in = ?n @ ?o, fd_out = [], fd_io = []\<rparr>" and ?cs = "\<lparr>cs_size_used = 0, cs_chunks = []\<rparr>"
  have r1: "evr_read_resp_header evr_file_fd_read \<lparr>fd_in = ?n @ x, fd_out = y, fd_io = []\<rparr> =
      (Some \<lparr>rh_status_code = evr_status_code_blob_not_found, rh_body_size = 0\<rparr>, \<lparr>fd_in = x, fd_out = y, fd_io = []\<rparr>)" for x y
    by (rule fd_read_resp) (simp_all add: evr_status_code_blob_not_found_def)
  have r2: "evr_read_resp_header evr_file_fd_read \<lparr>fd_in = ?o, fd_out = y, fd_io = []\<rparr> =
      (Some \<lparr>rh_status_code = evr_status_code_ok, rh_body_size = 0\<rparr>, \<lparr>fd_in = [], fd_out = y, fd_io = []\<rparr>)" for y
    using fd_read_resp [of evr_status_code_ok 0 "[]" y] by (simp add: evr_status_code_ok_def)
  have ne: "evr_status_code_blob_not_found \<noteq> evr_status_code_ok" by (simp add: evr_status_code_blob_not_found_def evr_status_code_ok_def)
  have "\<exists>c'. evr_stat_and_put evr_file_fd_read evr_file_fd_write ?c (replicate 28 9) 1 ?cs = Some (Evr_ok, c')"
    using r1 r2 ne by (simp add: evr_stat_and_put_def evr_req_cmd_stat_blob_def evr_write_cmd_stat_blob_def fd_write_cmd
        evr_write_cmd_put_blob_def write_chunk_set_def)
  then obtain c' where p: "evr_stat_and_put evr_file_fd_read evr_file_fd_write ?c (replicate 28 9) 1 ?cs = Some (Evr_ok, c')" by blast
  have k: "length (replicate 28 9 :: bytes) = evr_blob_ref_size" "chunks_hold 0 (cs_chunks ?cs) []" "cs_size_used ?cs = length ([] :: bytes)"
    "length ([] :: bytes) + 29 < 2 ^ 32" "\<forall>i x. None = Some x \<longrightarrow> length x = evr_chunk_size"
    "fd_in (cn_socket (put_conn (replicate 28 9 @ [1]) [])) = replicate 28 9 @ ucast (1 :: c_int) # [] @ []"
    by (simp_all add: evr_layout put_conn_def)
  have q: "put_receive (\<lambda>_. replicate 28 9) evr_file_fd_read (\<lambda>_. None) True
      \<lparr>ch_type = evr_cmd_type_put_blob, ch_body_size = evr_blob_ref_size + 1 + length ([] :: bytes)\<rparr> (put_conn (replicate 28 9 @ [1]) []) =
      (Some empty_blob, put_conn [] [])"
    using demo_put_received by (simp add: evr_layout evr_cmd_type_put_blob_def)
  from client_put_is_received [OF fd_sock.evr_socket_axioms fd_sock.evr_socket_axioms TrueI k(1-4) p TrueI k(5,6) q] p show ?thesis
    by (auto simp: evr_cmd_type_put_blob_def evr_layout)
qed

end
