(* ===== verification/Open_Files.thy ===== *)
theory Open_Files
  imports Glacier_Client
begin

text \<open>
  \<^verbatim>\<open>src/open-files.c\<close>: reading a file of the virtual file system. A file is a list of slices, each a blob
  in the storage; the slice read last is kept in a cache. The storage is reached over a socket of which only
  the calls are known, so the properties hold for whatever a server sends. Offsets and sizes are below
  \<open>2 ^ 63\<close>.
\<close>

section \<open>Definitions\<close>

record evr_file_slice =
  fs_ref :: evr_blob_ref
  fs_size :: nat

record 's evr_open_file =
  of_open :: bool
  of_gc :: 's
  of_claim :: "evr_file_slice list"
  of_cached_slice_index :: nat
  of_cached_slice_buf :: "bytes option"

text \<open>
  The outcomes of the calls: the uninitialised memory that \<open>malloc\<close> gives for a size, and whether the digest is
  to be had and the connection closes.
\<close>

record slice_calls =
  sl_mem :: "nat \<Rightarrow> bytes option"
  sl_hd_open :: bool
  sl_close :: bool

definition close_gc :: "slice_calls \<Rightarrow> 's evr_open_file \<Rightarrow> evr_code exec \<times> 's evr_open_file" where
  "close_gc k f = (if sl_close k then Ret Evr_error else Panic, f)"

definition evr_open_file_cache_slice ::
  "(bytes \<Rightarrow> bytes) \<Rightarrow> 's reader \<Rightarrow> 's writer \<Rightarrow> slice_calls \<Rightarrow> 's evr_open_file \<Rightarrow> nat \<Rightarrow> evr_file_slice \<Rightarrow> evr_code exec \<times> 's evr_open_file" where
  "evr_open_file_cache_slice sha3_224 rd wr k f si s =
    (case evr_req_cmd_get_blob rd wr (of_gc f) (fs_ref s) of
       (None, g1) \<Rightarrow> (Ret Evr_error, f\<lparr>of_gc := g1\<rparr>)
     | (Some rhdr, g1) \<Rightarrow>
        if rh_status_code rhdr \<noteq> evr_status_code_ok \<or> rh_body_size rhdr < evr_blob_flags_n_size then
          (case dump_n_bytes rd no_se g1 (rh_body_size rhdr) () of (r, _, g2) \<Rightarrow>
             if r \<noteq> Evr_ok then close_gc k (f\<lparr>of_gc := g2\<rparr>) else (Ret Evr_error, f\<lparr>of_gc := g2\<rparr>))
        else case dump_n_bytes rd no_se g1 evr_blob_flags_n_size () of (r, _, g2) \<Rightarrow>
          if r \<noteq> Evr_ok then close_gc k (f\<lparr>of_gc := g2\<rparr>)
          else let f2 = f\<lparr>of_gc := g2, of_cached_slice_index := si, of_cached_slice_buf := None\<rparr>;
                   blob_size = rh_body_size rhdr - evr_blob_flags_n_size in
          case sl_mem k blob_size of None \<Rightarrow> close_gc k f2 | Some raw \<Rightarrow>
          if \<not> sl_hd_open k then close_gc k (f2\<lparr>of_cached_slice_buf := Some raw\<rparr>)
          else case read_n rd evr_blob_ref_write_se g2 blob_size [] of (r, data, md, g3) \<Rightarrow>
          if r \<noteq> Evr_ok then close_gc k (f2\<lparr>of_gc := g3\<rparr>)
          else if evr_blob_ref_hd_match sha3_224 md (fs_ref s) \<noteq> Evr_ok then (Ret Evr_error, f2\<lparr>of_gc := g3\<rparr>)
          else (Ret Evr_ok, f2\<lparr>of_gc := g3, of_cached_slice_buf := Some data\<rparr>))"

text \<open>
  The body of the loop for a slice that holds bytes of the range: \<open>written\<close> is what is in the buffer of the caller.
  \<open>Undef\<close> is a copy from outside of the cached slice.
\<close>

definition open_file_read_slice ::
  "(bytes \<Rightarrow> bytes) \<Rightarrow> 's reader \<Rightarrow> 's writer \<Rightarrow> slice_calls \<Rightarrow> nat \<Rightarrow> nat \<Rightarrow> nat \<Rightarrow> nat \<Rightarrow> evr_file_slice \<Rightarrow> bytes \<Rightarrow> 's evr_open_file
   \<Rightarrow> evr_code exec \<times> bytes \<times> 's evr_open_file" where
  "open_file_read_slice sha3_224 rd wr k n off si slices_off s written f =
    (case (if of_cached_slice_buf f = None \<or> of_cached_slice_index f \<noteq> si
           then evr_open_file_cache_slice sha3_224 rd wr k f si s else (Ret Evr_ok, f)) of
       (x, f1) \<Rightarrow>
         if x \<noteq> Ret Evr_ok then (case x of Ret _ \<Rightarrow> Ret Evr_error | _ \<Rightarrow> x, written, f1)
         else let s_off = (if slices_off \<ge> off then 0 else off - slices_off);
                  remaining_bytes = n - length written;
                  s_size = (if remaining_bytes \<ge> fs_size s - s_off then fs_size s - s_off else remaining_bytes) in
         case of_cached_slice_buf f1 of
           None \<Rightarrow> (Undef, written, f1)
         | Some b \<Rightarrow>
            if s_off + s_size > length b then (Undef, written, f1)
            else (Ret Evr_ok, written @ take s_size (drop s_off b), f1))"

primrec open_file_read_loop ::
  "(bytes \<Rightarrow> bytes) \<Rightarrow> 's reader \<Rightarrow> 's writer \<Rightarrow> (nat \<Rightarrow> slice_calls) \<Rightarrow> nat \<Rightarrow> nat \<Rightarrow> nat \<Rightarrow> nat \<Rightarrow> evr_file_slice list \<Rightarrow> bytes \<Rightarrow> 's evr_open_file
   \<Rightarrow> evr_code exec \<times> bytes \<times> 's evr_open_file" where
  "open_file_read_loop sha3_224 rd wr k n off si slices_off [] written f = (Ret Evr_ok, written, f)"
| "open_file_read_loop sha3_224 rd wr k n off si slices_off (s # ss) written f =
    (if off < slices_off + fs_size s then
       (case open_file_read_slice sha3_224 rd wr (k si) n off si slices_off s written f of (x, written1, f1) \<Rightarrow>
          if x \<noteq> Ret Evr_ok then (x, written1, f1)
          else if length written1 = n then (Ret Evr_ok, written1, f1)
          else open_file_read_loop sha3_224 rd wr k n off (Suc si) (slices_off + fs_size s) ss written1 f1)
     else open_file_read_loop sha3_224 rd wr k n off (Suc si) (slices_off + fs_size s) ss written f)"

definition evr_open_file_read ::
  "(bytes \<Rightarrow> bytes) \<Rightarrow> 's reader \<Rightarrow> 's writer \<Rightarrow> sync \<Rightarrow> (nat \<Rightarrow> slice_calls) \<Rightarrow> 's evr_open_file \<Rightarrow> nat \<Rightarrow> nat
   \<Rightarrow> evr_code exec \<times> bytes \<times> 's evr_open_file" where
  "evr_open_file_read sha3_224 rd wr sy k f n off =
    (if \<not> mtx_lock_ok sy then (Ret Evr_error, [], f)
     else case open_file_read_loop sha3_224 rd wr k n off 0 0 (of_claim f) [] f of (x, written, f1) \<Rightarrow>
       (case x of Ret r \<Rightarrow> if mtx_unlock_ok sy then Ret r else Panic | _ \<Rightarrow> x, written, f1))"

text \<open>The set of open files; \<open>gc0\<close> is the socket bound to the descriptor 0 and \<open>unbound\<close> the one without descriptor.\<close>

definition evr_init_open_file_set :: "bool \<Rightarrow> bool \<Rightarrow> (nat \<Rightarrow> bool) \<Rightarrow> 's \<Rightarrow> 's evr_open_file list option" where
  "evr_init_open_file_set lock_init mem file_lock_init gc0 =
    (if \<not> lock_init then None
     else if \<not> mem then None
     else if \<not> list_all file_lock_init [0..<64] then None
     else Some (replicate 64 \<lparr>of_open = False, of_gc = gc0, of_claim = [], of_cached_slice_index = 0, of_cached_slice_buf = None\<rparr>))"

primrec allocate_loop :: "'s \<Rightarrow> nat \<Rightarrow> 's evr_open_file list \<Rightarrow> nat option \<times> 's evr_open_file list" where
  "allocate_loop unbound i [] = (None, [])"
| "allocate_loop unbound i (f # fs) =
    (if of_open f then (case allocate_loop unbound (Suc i) fs of (r, fs') \<Rightarrow> (r, f # fs'))
     else (Some i, f\<lparr>of_open := True, of_gc := unbound\<rparr> # fs))"

definition evr_allocate_open_file :: "sync \<Rightarrow> 's \<Rightarrow> 's evr_open_file list \<Rightarrow> nat option exec \<times> 's evr_open_file list" where
  "evr_allocate_open_file sy unbound ofs =
    (if \<not> mtx_lock_ok sy then (Ret None, ofs)
     else case allocate_loop unbound 0 ofs of (r, ofs1) \<Rightarrow> (if mtx_unlock_ok sy then Ret r else Panic, ofs1))"

definition evr_close_open_file :: "sync \<Rightarrow> bool \<Rightarrow> 's \<Rightarrow> 's evr_open_file list \<Rightarrow> nat \<Rightarrow> evr_code exec \<times> 's evr_open_file list" where
  "evr_close_open_file sy close_ok unbound ofs fh =
    (if fh \<ge> length ofs then (Undef, ofs)
     else if \<not> mtx_lock_ok sy then (Ret Evr_error, ofs)
     else if \<not> close_ok then (Panic, ofs)
     else (if mtx_unlock_ok sy then Ret Evr_ok else Panic,
           ofs[fh := (ofs ! fh)\<lparr>of_open := False, of_gc := unbound, of_claim := [], of_cached_slice_buf := None\<rparr>]))"

section \<open>The cache\<close>

text \<open>
  \<open>data\<close> gives the bytes of a reference: no other bytes have the digest of a slice, and the
  sizes of the claim are those of the bytes.
\<close>

definition slices_of :: "(bytes \<Rightarrow> bytes) \<Rightarrow> (evr_blob_ref \<Rightarrow> bytes) \<Rightarrow> evr_file_slice list \<Rightarrow> bool" where
  "slices_of sha3_224 data ss = (\<forall>s\<in>set ss. length (fs_ref s) = evr_blob_ref_size \<and> length (data (fs_ref s)) = fs_size s \<and>
     (\<forall>d. evr_blob_ref_final sha3_224 d = fs_ref s \<longrightarrow> d = data (fs_ref s)))"

definition cache_ok :: "(evr_blob_ref \<Rightarrow> bytes) \<Rightarrow> evr_file_slice list \<Rightarrow> 's evr_open_file \<Rightarrow> bool" where
  "cache_ok data ss f = (\<forall>b. of_cached_slice_buf f = Some b \<longrightarrow>
     of_cached_slice_index f < length ss \<and> b = data (fs_ref (ss ! of_cached_slice_index f)))"

text \<open>The content of the file, and how a range of it grows by a slice.\<close>

definition file_bytes :: "(evr_blob_ref \<Rightarrow> bytes) \<Rightarrow> evr_file_slice list \<Rightarrow> bytes" where
  "file_bytes data ss = concat (map (data \<circ> fs_ref) ss)"

lemma file_bytes_snoc: "file_bytes data (ss @ [s]) = file_bytes data ss @ data (fs_ref s)"
  by (simp add: file_bytes_def)

lemma take_drop_grow:
  "take n (drop off (p @ d)) = take n (drop off p) @ take (n - length (take n (drop off p))) (drop (off - length p) d)"
  by (simp add: min_def)

context evr_socket
begin

lemma req_get_blob_valid:
  assumes "valid f" "evr_req_cmd_get_blob rd wr f key = (resp, f')"
  shows "valid f'"
proof -
  obtain r f1 where w: "evr_write_cmd_get_blob wr f key = (r, f1)" by fastforce
  have v1: "valid f1" using w assms(1) write_n_sink
    by (auto simp: evr_write_cmd_get_blob_def write_cmd_def split: option.splits prod.splits)
  obtain x b u f2 where rn: "read_n rd no_se f1 evr_resp_header_n_size () = (x, b, u, f2)" using prod_cases4 by blast
  have "valid f2" using read_n_stream [OF v1 rn] by simp
  then show ?thesis using assms(2) w v1 rn
    by (auto simp: evr_req_cmd_get_blob_def evr_read_resp_header_def split: if_splits option.splits)
qed

lemma dump_n_valid: "valid f \<Longrightarrow> dump_n rd se f bsz n c = (r, c', f') \<Longrightarrow> valid f'"
proof (induction n arbitrary: f c rule: less_induct)
  case (less n)
  obtain x f1 where x: "rd f (min bsz n) = (x, f1)" by fastforce
  have v: "valid f1" using rd_bytes rd_fail less.prems(1) x by (cases x) blast+
  show ?case
  proof (cases "n = 0 \<or> x = Read_fail \<or> x = Read_bytes []")
    case True
    then show ?thesis using less.prems v x by (auto simp: dump_n.simps [of rd se f bsz n] split: if_splits)
  next
    case False
    then obtain b where b: "x = Read_bytes b" "b \<noteq> []" "n \<noteq> 0" by (cases x) auto
    then have "n - length b < n" by (cases b) auto
    from less.IH [OF this v] less.prems(2) v x b show ?thesis
      by (auto simp: dump_n.simps [of rd se f bsz n] split: if_splits prod.splits)
  qed
qed

lemma cache_slice_cases:
  assumes "valid (of_gc f)" "evr_open_file_cache_slice sha3_224 rd wr k f si s = (x, f')" "length (fs_ref s) = evr_blob_ref_size"
  shows "valid (of_gc f') \<and> of_claim f' = of_claim f \<and> of_open f' = of_open f \<and> x \<noteq> Undef \<and>
    (x = Ret Evr_ok \<longrightarrow> (\<exists>d. of_cached_slice_buf f' = Some d \<and> of_cached_slice_index f' = si \<and> addressed sha3_224 (fs_ref s) d)) \<and>
    (x \<noteq> Ret Evr_ok \<longrightarrow> sl_hd_open k \<longrightarrow> of_cached_slice_buf f' = None \<or>
       of_cached_slice_buf f' = of_cached_slice_buf f \<and> of_cached_slice_index f' = of_cached_slice_index f)"
proof -
  obtain resp g1 where q: "evr_req_cmd_get_blob rd wr (of_gc f) (fs_ref s) = (resp, g1)" by fastforce
  have v1: "valid g1" by (rule req_get_blob_valid [OF assms(1) q])
  show ?thesis
  proof (cases resp)
    case None
    then show ?thesis using assms(2) q v1 by (auto simp: evr_open_file_cache_slice_def)
  next
    case (Some h)
    obtain rd1 u1 g2 where d1: "dump_n_bytes rd no_se g1 (rh_body_size h) () = (rd1, u1, g2)" using prod_cases3 by blast
    obtain rd2 u2 g3 where d2: "dump_n_bytes rd no_se g1 evr_blob_flags_n_size () = (rd2, u2, g3)" using prod_cases3 by blast
    have v2: "valid g2" "valid g3" using dump_n_valid [OF v1 d1] dump_n_valid [OF v1 d2] by blast+
    obtain r data md g4 where rn: "read_n rd evr_blob_ref_write_se g3 (rh_body_size h - evr_blob_flags_n_size) [] = (r, data, md, g4)"
      using prod_cases4 by blast
    have v4: "valid g4" using read_n_stream [OF v2(2) rn] by simp
    have "md = data" using read_n_collect [OF _ v2(2) rn] by (simp add: evr_blob_ref_write_se_def evr_blob_ref_write_def)
    with assms(2,3) q Some d1 d2 rn v1 v2 v4 hd_match_addressed show ?thesis
      by (auto simp: evr_open_file_cache_slice_def close_gc_def Let_def split: if_splits option.splits)
  qed
qed

lemma read_slice_bytes:
  assumes "valid (of_gc f)" "cache_ok data ss f" "slices_of sha3_224 data ss" "si < length ss"
    "open_file_read_slice sha3_224 rd wr k n off si slices_off (ss ! si) written f = (x, written', f')"
    "off < slices_off + fs_size (ss ! si)"
  shows "valid (of_gc f') \<and> of_claim f' = of_claim f \<and> x \<noteq> Undef \<and> (sl_hd_open k \<or> x = Ret Evr_ok \<longrightarrow> cache_ok data ss f') \<and>
    (x = Ret Evr_ok \<longrightarrow> written' = written @ take (n - length written) (drop (off - slices_off) (data (fs_ref (ss ! si)))))"
proof -
  let ?s = "ss ! si"
  have s: "length (fs_ref ?s) = evr_blob_ref_size" "length (data (fs_ref ?s)) = fs_size ?s"
    "\<And>d. addressed sha3_224 (fs_ref ?s) d \<Longrightarrow> d = data (fs_ref ?s)"
    using assms(3,4) by (auto simp: slices_of_def addressed_def)
  obtain y f1 where c: "(if of_cached_slice_buf f = None \<or> of_cached_slice_index f \<noteq> si
      then evr_open_file_cache_slice sha3_224 rd wr k f si ?s else (Ret Evr_ok, f)) = (y, f1)" by fastforce
  have f1: "valid (of_gc f1) \<and> of_claim f1 = of_claim f \<and> y \<noteq> Undef \<and> (sl_hd_open k \<or> y = Ret Evr_ok \<longrightarrow> cache_ok data ss f1) \<and>
    (y = Ret Evr_ok \<longrightarrow> of_cached_slice_buf f1 = Some (data (fs_ref ?s)))"
  proof (cases "of_cached_slice_buf f = None \<or> of_cached_slice_index f \<noteq> si")
    case True
    then have "evr_open_file_cache_slice sha3_224 rd wr k f si ?s = (y, f1)" using c by simp
    note cc = cache_slice_cases [OF assms(1) this s(1)]
    have ok: "of_cached_slice_buf f1 = Some (data (fs_ref ?s)) \<and> of_cached_slice_index f1 = si" if "y = Ret Evr_ok"
      using cc that s(3) by blast
    have "cache_ok data ss f1" if "y \<noteq> Ret Evr_ok" "sl_hd_open k"
      using cc that assms(2) unfolding cache_ok_def by (metis option.distinct(1))
    moreover have "cache_ok data ss f1" if "y = Ret Evr_ok" using ok [OF that] assms(4) by (simp add: cache_ok_def)
    ultimately show ?thesis using cc ok by blast
  next
    case False
    then show ?thesis using c assms(1,2) by (auto simp: cache_ok_def)
  qed
  show ?thesis
  proof (cases "y = Ret Evr_ok")
    case True
    let ?d = "data (fs_ref ?s)" and ?t = "off - slices_off"
    have off: "(if slices_off \<ge> off then 0 else off - slices_off) = ?t" by simp
    have sz: "(if r \<ge> fs_size ?s - ?t then fs_size ?s - ?t else r) = min r (fs_size ?s - ?t)" for r by simp
    have "open_file_read_slice sha3_224 rd wr k n off si slices_off ?s written f =
        (if ?t + min (n - length written) (fs_size ?s - ?t) > length ?d then (Undef, written, f1)
         else (Ret Evr_ok, written @ take (min (n - length written) (fs_size ?s - ?t)) (drop ?t ?d), f1))"
      unfolding open_file_read_slice_def c off sz Let_def using True f1 by simp
    moreover have "?t + min (n - length written) (fs_size ?s - ?t) \<le> length ?d" using assms(6) s(2) by simp
    moreover have "take (min (n - length written) (fs_size ?s - ?t)) (drop ?t ?d) = take (n - length written) (drop ?t ?d)"
      using s(2) by (simp add: min_def)
    ultimately show ?thesis using assms(5) f1 True by simp
  next
    case False
    then show ?thesis using assms(5) c f1 by (auto simp: open_file_read_slice_def split: exec.splits)
  qed
qed

lemma read_loop_bytes:
  assumes "valid (of_gc f)" "cache_ok data (pre @ post) f" "slices_of sha3_224 data (pre @ post)"
    "written = take n (drop off (file_bytes data pre))"
    "open_file_read_loop sha3_224 rd wr k n off (length pre) (length (file_bytes data pre)) post written f = (x, written', f')"
  shows "valid (of_gc f') \<and> of_claim f' = of_claim f \<and> x \<noteq> Undef \<and>
    ((\<forall>i. sl_hd_open (k i)) \<longrightarrow> cache_ok data (pre @ post) f') \<and>
    (x = Ret Evr_ok \<longrightarrow> written' = take n (drop off (file_bytes data (pre @ post))))"
  using assms
proof (induction post arbitrary: pre written f)
  case Nil
  then show ?case by auto
next
  case (Cons s post)
  let ?p = "file_bytes data pre"
  let ?w = "take n (drop off (file_bytes data (pre @ [s])))"
  have nth: "(pre @ s # post) ! length pre = s" by simp
  have sz: "length (data (fs_ref s)) = fs_size s" using Cons.prems(3) by (simp add: slices_of_def)
  have len: "length ?p + fs_size s = length (file_bytes data (pre @ [s]))" using sz by (simp add: file_bytes_snoc)
  note IH = Cons.IH [where pre = "pre @ [s]", simplified]
  show ?case
  proof (cases "off < length ?p + fs_size s")
    case False
    then have w: "written = take n (drop off (file_bytes data (pre @ [s])))" using Cons.prems(4) len by simp
    show ?thesis using IH [OF Cons.prems(1) _ _ w] Cons.prems(2,3,5) False len by simp
  next
    case True
    obtain y w1 f1 where rs: "open_file_read_slice sha3_224 rd wr (k (length pre)) n off (length pre) (length ?p) s written f = (y, w1, f1)"
      using prod_cases3 by blast
    note sl = read_slice_bytes [OF Cons.prems(1,2,3), of "length pre", unfolded nth, OF _ rs True]
    have w1: "w1 = ?w" if "y = Ret Evr_ok"
      using sl that Cons.prems(4) take_drop_grow [of n off ?p "data (fs_ref s)"] by (simp add: file_bytes_snoc)
    consider "y \<noteq> Ret Evr_ok" | "y = Ret Evr_ok" "length w1 = n" | "y = Ret Evr_ok" "length w1 \<noteq> n" by blast
    then show ?thesis
    proof cases
      case 1
      then show ?thesis using sl Cons.prems(5) True rs by auto
    next
      case 2
      have "take n (drop off (file_bytes data (pre @ s # post))) = take n (drop off (file_bytes data (pre @ [s]) @ file_bytes data post))"
        by (simp add: file_bytes_def)
      also have "\<dots> = ?w" using 2 w1 by (simp add: take_drop_grow [of n off "file_bytes data (pre @ [s])"])
      finally show ?thesis using 2 sl Cons.prems(5) True rs w1 by auto
    next
      case 3
      have "open_file_read_loop sha3_224 rd wr k n off (Suc (length pre)) (length (file_bytes data (pre @ [s]))) post w1 f1 = (x, written', f')"
        using Cons.prems(5) True rs 3 len by simp
      moreover have "valid (of_gc f1)" "cache_ok data (pre @ s # post) f1" "of_claim f1 = of_claim f" using sl 3 by auto
      ultimately show ?thesis using IH [OF _ _ Cons.prems(3) w1 [OF 3(1)]] by auto
    qed
  qed
qed

end

section \<open>A server that answers\<close>

lemma fd_dump_full:
  "dump_n_bytes evr_file_fd_read no_se \<lparr>fd_in = [a] @ b, fd_out = y, fd_io = []\<rparr> evr_blob_flags_n_size () = (Evr_ok, (), \<lparr>fd_in = b, fd_out = y, fd_io = []\<rparr>)"
  by (simp add: dump_n.simps evr_file_fd_read_def next_io_def no_se_def Let_def io_amount_def evr_layout)

lemma fd_read_digest:
  "read_n evr_file_fd_read evr_blob_ref_write_se \<lparr>fd_in = a @ b, fd_out = y, fd_io = []\<rparr> (length a) [] =
    (Evr_ok, a, a, \<lparr>fd_in = b, fd_out = y, fd_io = []\<rparr>)"
  by (simp add: read_n.simps [of evr_file_fd_read _ _ "length a"] evr_file_fd_read_def next_io_def Let_def io_amount_def
      evr_blob_ref_write_se_def evr_blob_ref_write_def)

lemma fd_cache_slice:
  assumes "of_gc f = \<lparr>fd_in = get_answer (Some (fl, d)) @ rest, fd_out = y, fd_io = []\<rparr>" "sl_mem k (length d) \<noteq> None" "sl_hd_open k"
    "length (fs_ref s) = evr_blob_ref_size" "addressed sha3_224 (fs_ref s) d" "length d < evr_max_blob_data_size"
  shows "\<exists>f' y'. evr_open_file_cache_slice sha3_224 evr_file_fd_read evr_file_fd_write k f si s = (Ret Evr_ok, f') \<and>
    of_gc f' = \<lparr>fd_in = rest, fd_out = y', fd_io = []\<rparr> \<and> of_cached_slice_index f' = si \<and> of_cached_slice_buf f' = Some d"
proof -
  let ?r = "resp_bytes evr_status_code_ok (1 + length d)"
  let ?in = "ucast fl # d @ rest"
  have small: "1 + length d < 2 ^ 32" using assms(6) by (simp add: evr_max_blob_data_size_def)
  obtain y' where rq: "evr_req_cmd_get_blob evr_file_fd_read evr_file_fd_write (of_gc f) (fs_ref s) =
      (Some \<lparr>rh_status_code = evr_status_code_ok, rh_body_size = 1 + length d\<rparr>, \<lparr>fd_in = ?in, fd_out = y', fd_io = []\<rparr>)"
    using fd_read_resp [of evr_status_code_ok "1 + length d" ?in] small assms(6)
    by (simp add: assms(1) evr_req_cmd_get_blob_def evr_write_cmd_get_blob_def fd_write_cmd get_answer_def evr_status_code_ok_def)
  have "evr_blob_ref_hd_match sha3_224 d (fs_ref s) = Evr_ok"
    using assms(4,5) by (auto simp: evr_blob_ref_hd_match_def evr_cmp_blob_ref_eq_def addressed_def evr_blob_ref_final_def)
  then show ?thesis
    using rq fd_dump_full [of "ucast fl" "d @ rest" y'] fd_read_digest [of d rest y'] assms(2,3)
    by (auto simp: evr_open_file_cache_slice_def evr_layout Let_def split: option.splits)
qed

lemma fd_read_slice:
  assumes "of_gc f = \<lparr>fd_in = get_answer (Some (fl, d)) @ rest, fd_out = y, fd_io = []\<rparr>" "sl_mem k (length d) \<noteq> None" "sl_hd_open k"
    "length (fs_ref s) = evr_blob_ref_size" "addressed sha3_224 (fs_ref s) d" "length d < evr_max_blob_data_size" "length d = fs_size s"
    "of_cached_slice_buf f = None \<or> of_cached_slice_index f \<noteq> si"
  shows "\<exists>w' f' y'. open_file_read_slice sha3_224 evr_file_fd_read evr_file_fd_write k n 0 si slices_off s written f = (Ret Evr_ok, w', f') \<and>
    of_gc f' = \<lparr>fd_in = rest, fd_out = y', fd_io = []\<rparr> \<and> of_cached_slice_index f' = si"
proof -
  obtain f' y' where "evr_open_file_cache_slice sha3_224 evr_file_fd_read evr_file_fd_write k f si s = (Ret Evr_ok, f')"
    "of_gc f' = \<lparr>fd_in = rest, fd_out = y', fd_io = []\<rparr>" "of_cached_slice_index f' = si" "of_cached_slice_buf f' = Some d"
    using fd_cache_slice [OF assms(1-6), of si] by blast
  then show ?thesis using assms(7,8) by (simp add: open_file_read_slice_def Let_def)
qed

text \<open>What a server sends that is asked for the slices one after the other.\<close>

definition slice_answers :: "(evr_blob_ref \<Rightarrow> c_int) \<Rightarrow> (evr_blob_ref \<Rightarrow> bytes) \<Rightarrow> evr_file_slice list \<Rightarrow> bytes" where
  "slice_answers flags data ss = concat (map (\<lambda>s. get_answer (Some (flags (fs_ref s), data (fs_ref s)))) ss)"

definition slice_servable :: "(bytes \<Rightarrow> bytes) \<Rightarrow> (evr_blob_ref \<Rightarrow> bytes) \<Rightarrow> evr_file_slice \<Rightarrow> bool" where
  "slice_servable sha3_224 data s = (length (fs_ref s) = evr_blob_ref_size \<and> addressed sha3_224 (fs_ref s) (data (fs_ref s)) \<and>
     length (data (fs_ref s)) = fs_size s \<and> 0 < fs_size s \<and> fs_size s < evr_max_blob_data_size)"

lemma fd_read_loop:
  assumes "\<forall>s\<in>set ss. slice_servable sha3_224 data s" "\<And>i m. sl_mem (k i) m \<noteq> None" "\<And>i. sl_hd_open (k i)"
    "\<exists>y. of_gc f = \<lparr>fd_in = slice_answers flags data ss, fd_out = y, fd_io = []\<rparr>"
    "of_cached_slice_buf f = None \<or> of_cached_slice_index f < si"
  shows "\<exists>w' f'. open_file_read_loop sha3_224 evr_file_fd_read evr_file_fd_write k n 0 si slices_off ss written f = (Ret Evr_ok, w', f')"
  using assms
proof (induction ss arbitrary: si slices_off written f)
  case (Cons s ss)
  let ?d = "data (fs_ref s)"
  have s: "length (fs_ref s) = evr_blob_ref_size" "addressed sha3_224 (fs_ref s) ?d" "length ?d < evr_max_blob_data_size" "length ?d = fs_size s"
    "0 < fs_size s"
    using Cons.prems(1) by (simp_all add: slice_servable_def)
  obtain y where gc: "of_gc f = \<lparr>fd_in = get_answer (Some (flags (fs_ref s), ?d)) @ slice_answers flags data ss, fd_out = y, fd_io = []\<rparr>"
    using Cons.prems(4) by (auto simp: slice_answers_def)
  have "of_cached_slice_buf f = None \<or> of_cached_slice_index f \<noteq> si" using Cons.prems(5) by auto
  from fd_read_slice [OF gc Cons.prems(2,3) s(1-4) this] obtain w' f' y' where r:
    "open_file_read_slice sha3_224 evr_file_fd_read evr_file_fd_write (k si) n 0 si slices_off s written f = (Ret Evr_ok, w', f')"
    "of_gc f' = \<lparr>fd_in = slice_answers flags data ss, fd_out = y', fd_io = []\<rparr>" "of_cached_slice_index f' = si" by blast
  have "\<exists>w'' f''. open_file_read_loop sha3_224 evr_file_fd_read evr_file_fd_write k n 0 (Suc si) (slices_off + fs_size s) ss w' f' = (Ret Evr_ok, w'', f'')"
    using Cons.IH [of f' "Suc si"] Cons.prems(1-3) r(2,3) by simp
  then show ?case using r(1) s(5) by simp
qed simp

section \<open>Properties\<close>

text \<open>
  A file of the virtual file system reads as the concatenation of its slices, whatever the server
  sends. When the references name their slices and the sizes are right, a read that succeeds returns
  the bytes of the range, cut off at the end of the file; no read copies from outside the cached slice; and
  the cache keeps holding the slice it claims to hold, provided that the digest can be opened.
\<close>

lemma open_file_read_is_range:
  assumes "evr_socket rd wr stream sink valid" "valid (of_gc f)" "slices_of sha3_224 data (of_claim f)" "cache_ok data (of_claim f) f"
    "evr_open_file_read sha3_224 rd wr sy k f n off = (x, b, f')"
  shows "x \<noteq> Undef \<and> of_claim f' = of_claim f \<and> valid (of_gc f') \<and> ((\<forall>i. sl_hd_open (k i)) \<longrightarrow> cache_ok data (of_claim f') f') \<and>
    (x = Ret Evr_ok \<longrightarrow> b = take n (drop off (file_bytes data (of_claim f))))"
proof -
  obtain y w g where l: "open_file_read_loop sha3_224 rd wr k n off 0 0 (of_claim f) [] f = (y, w, g)" using prod_cases3 by blast
  have e: "file_bytes data [] = []" by (simp add: file_bytes_def)
  from evr_socket.read_loop_bytes [OF assms(1,2), of data "[]" "of_claim f" sha3_224 "[]" n off k y w g] assms(3,4) l e
  have "valid (of_gc g) \<and> of_claim g = of_claim f \<and> y \<noteq> Undef \<and> ((\<forall>i. sl_hd_open (k i)) \<longrightarrow> cache_ok data (of_claim f) g) \<and>
    (y = Ret Evr_ok \<longrightarrow> w = take n (drop off (file_bytes data (of_claim f))))" by simp
  with assms(2,4,5) l show ?thesis by (auto simp: evr_open_file_read_def split: if_splits exec.splits)
qed

text \<open>
  A file can be read. When the server answers the requests for the slices, and memory and digest
  are to be had, a read from the start of a file with nothing in the cache succeeds and returns the
  requested bytes.
\<close>

theorem open_file_read_succeeds:
  assumes "slices_of sha3_224 data (of_claim f)" "\<forall>s\<in>set (of_claim f). slice_servable sha3_224 data s"
    "of_gc f = \<lparr>fd_in = slice_answers flags data (of_claim f), fd_out = y, fd_io = []\<rparr>" "of_cached_slice_buf f = None"
    "\<And>i m. sl_mem (k i) m \<noteq> None" "\<And>i. sl_hd_open (k i)" "mtx_lock_ok sy" "mtx_unlock_ok sy"
  shows "\<exists>f'. evr_open_file_read sha3_224 evr_file_fd_read evr_file_fd_write sy k f n 0 =
    (Ret Evr_ok, take n (file_bytes data (of_claim f)), f')"
proof -
  obtain w g where l: "open_file_read_loop sha3_224 evr_file_fd_read evr_file_fd_write k n 0 0 0 (of_claim f) [] f = (Ret Evr_ok, w, g)"
    using fd_read_loop [where k = k and f = f and flags = flags and si = 0 and n = n and slices_off = 0 and written = "[]", OF assms(2,5,6)] assms(3,4)
    by auto
  have "cache_ok data (of_claim f) f" using assms(4) by (simp add: cache_ok_def)
  with fd_sock.read_loop_bytes [OF TrueI, of data "[]" "of_claim f" f sha3_224 "[]" n 0 k "Ret Evr_ok" w g] assms(1) l
  have "w = take n (file_bytes data (of_claim f))" by (simp add: file_bytes_def)
  with l assms(7,8) show ?thesis by (simp add: evr_open_file_read_def)
qed

definition demo_sha :: "bytes \<Rightarrow> bytes" where
  "demo_sha d = (if d = [1, 2, 3] then replicate 28 7 else replicate 28 9)"

definition demo_file :: "fd_file evr_open_file" where
  "demo_file = \<lparr>of_open = True, of_gc = \<lparr>fd_in = get_answer (Some (1, [1, 2, 3])), fd_out = [], fd_io = []\<rparr>,
     of_claim = [\<lparr>fs_ref = replicate 28 7, fs_size = 3\<rparr>], of_cached_slice_index = 0, of_cached_slice_buf = None\<rparr>"

definition demo_slice_calls :: slice_calls where
  "demo_slice_calls = \<lparr>sl_mem = (\<lambda>n. Some (replicate n 0)), sl_hd_open = True, sl_close = True\<rparr>"

definition demo_data :: "evr_blob_ref \<Rightarrow> bytes" where "demo_data r = [1, 2, 3]"

lemma demo_sha_ref: "evr_blob_ref_final demo_sha d = replicate 28 7 \<longleftrightarrow> d = [1, 2, 3]"
  by (simp add: evr_blob_ref_final_def demo_sha_def evr_layout)

lemma demo_file_facts:
  "slices_of demo_sha demo_data (of_claim demo_file)" "\<forall>s\<in>set (of_claim demo_file). slice_servable demo_sha demo_data s"
  "of_gc demo_file = \<lparr>fd_in = slice_answers (\<lambda>_. 1) demo_data (of_claim demo_file), fd_out = [], fd_io = []\<rparr>" "of_cached_slice_buf demo_file = None"
  by (simp_all add: demo_file_def demo_data_def slices_of_def slice_servable_def addressed_def slice_answers_def
      demo_sha_ref evr_layout evr_max_blob_data_size_def)

theorem open_file_read_succeeds_witness:
  "\<exists>f'. evr_open_file_read demo_sha evr_file_fd_read evr_file_fd_write sync_ok (\<lambda>_. demo_slice_calls) demo_file 2 0 =
    (Ret Evr_ok, [1, 2], f')"
  using open_file_read_succeeds [OF demo_file_facts, where k = "\<lambda>_. demo_slice_calls" and sy = "sync_ok" and n = 2]
  by (simp add: demo_slice_calls_def demo_data_def file_bytes_def demo_file_def sync_ok_def)

section \<open>Handles\<close>

text \<open>A handle is the first one that is not in use; a set without one reports an error.\<close>

lemma allocate_loop_first:
  assumes "allocate_loop unbound i fs = (r, fs')"
  shows "(case r of
     None \<Rightarrow> (\<forall>f\<in>set fs. of_open f) \<and> fs' = fs
   | Some h \<Rightarrow> i \<le> h \<and> h < i + length fs \<and> \<not> of_open (fs ! (h - i)) \<and> (\<forall>j<h - i. of_open (fs ! j)) \<and>
       fs' = fs[h - i := (fs ! (h - i))\<lparr>of_open := True, of_gc := unbound\<rparr>])"
  using assms
proof (induction fs arbitrary: i r fs')
  case (Cons f fs)
  show ?case
  proof (cases "of_open f")
    case True
    obtain r1 fs1 where rec: "allocate_loop unbound (Suc i) fs = (r1, fs1)" by fastforce
    have eq: "r = r1" "fs' = f # fs1" using Cons.prems True rec by auto
    note IH = Cons.IH [OF rec]
    show ?thesis
    proof (cases r1)
      case None
      then show ?thesis using IH eq True by simp
    next
      case (Some h)
      then have "Suc i \<le> h" using IH by simp
      then have d: "h - i = Suc (h - Suc i)" by simp
      show ?thesis using IH eq True Some d by (auto simp: less_Suc_eq_0_disj nth_Cons')
    qed
  next
    case False
    then show ?thesis using Cons.prems by auto
  qed
qed simp

text \<open>
  A handle that is opened is closed again. An allocated handle was not in use, no
  other file changes, and closing it gives back the set with the handle free and without claim and cache.
\<close>

theorem open_file_handle_cycle:
  assumes "evr_allocate_open_file sync_ok unbound ofs = (Ret (Some h), ofs1)"
  shows "h < length ofs \<and> \<not> of_open (ofs ! h) \<and> of_open (ofs1 ! h) \<and> (\<forall>j. j \<noteq> h \<longrightarrow> ofs1 ! j = ofs ! j) \<and>
    (\<exists>ofs2. evr_close_open_file sync_ok True unbound ofs1 h = (Ret Evr_ok, ofs2) \<and> map of_open ofs2 = map of_open ofs \<and>
      of_claim (ofs2 ! h) = [] \<and> of_cached_slice_buf (ofs2 ! h) = None \<and> (\<forall>j. j \<noteq> h \<longrightarrow> ofs2 ! j = ofs ! j))"
proof -
  obtain r fs' where a: "allocate_loop unbound 0 ofs = (r, fs')" by fastforce
  then have "r = Some h" "fs' = ofs1" using assms by (simp_all add: evr_allocate_open_file_def sync_ok_def)
  with allocate_loop_first [OF a] have f: "h < length ofs" "\<not> of_open (ofs ! h)" "ofs1 = ofs[h := (ofs ! h)\<lparr>of_open := True, of_gc := unbound\<rparr>]"
    by simp_all
  have "map of_open (ofs[h := (ofs ! h)\<lparr>of_open := False, of_gc := unbound, of_claim := [], of_cached_slice_buf := None\<rparr>]) = map of_open ofs"
    using f(1,2) by (simp add: map_update list_update_same_conv)
  with f show ?thesis by (simp add: evr_close_open_file_def sync_ok_def)
qed

theorem open_file_handle_cycle_witness:
  "\<exists>ofs1 ofs2. evr_allocate_open_file sync_ok (0 :: nat) (replicate 2 \<lparr>of_open = False, of_gc = 0, of_claim = [], of_cached_slice_index = 0, of_cached_slice_buf = None\<rparr>) = (Ret (Some 0), ofs1) \<and>
    evr_close_open_file sync_ok True 0 ofs1 0 = (Ret Evr_ok, ofs2) \<and> map of_open ofs2 = [False, False]"
proof -
  let ?ofs = "replicate 2 \<lparr>of_open = False, of_gc = 0 :: nat, of_claim = [], of_cached_slice_index = 0, of_cached_slice_buf = None\<rparr>"
  obtain ofs1 where a: "evr_allocate_open_file sync_ok 0 ?ofs = (Ret (Some 0), ofs1)"
    by (simp add: evr_allocate_open_file_def sync_ok_def numeral_2_eq_2)
  from open_file_handle_cycle [OF a] a show ?thesis by (auto simp: numeral_2_eq_2)
qed

end
