(* ===== verification/Virtual_Fs.thy ===== *)
theory Virtual_Fs
  imports Fs_Tree Open_Files
begin

text \<open>
  \<^verbatim>\<open>src/evr-fs.c\<close>: the virtual file system. Its state are the inodes, the open files and whether the
  index is reachable; the requests of FUSE read it and changes in the attribute index rebuild the inodes of
  a seed. The replies to FUSE are values; \<open>reply_ok\<close> tells whether FUSE accepts them. What libxml and
  libxslt make of the description of a seed is an argument: the seeds named in it and the files of its file set.
\<close>

section \<open>Definitions\<close>

record fs_stat =
  st_mode :: nat
  st_nlink :: nat
  st_size :: nat
  st_ino :: nat
  st_uid :: nat
  st_gid :: nat
  st_mtim :: timespec
  st_ctim :: timespec

datatype fuse_reply =
    Reply_err nat
  | Reply_entry nat fs_stat
  | Reply_attr fs_stat
  | Reply_buf bytes
  | Reply_open nat

definition enoent :: nat where "enoent = 2"
definition enotdir :: nat where "enotdir = 20"
definition eisdir :: nat where "eisdir = 21"
definition einval :: nat where "einval = 22"

text \<open>\<^verbatim>\<open>S_IFDIR | 0555\<close> and \<^verbatim>\<open>S_IFREG | 0444\<close>.\<close>

definition dir_mode :: nat where "dir_mode = 16384 + 365"
definition file_mode :: nat where "file_mode = 32768 + 292"

definition reply :: "bool \<Rightarrow> fuse_reply \<Rightarrow> fuse_reply exec" where
  "reply reply_ok r = (if reply_ok then Ret r else Panic)"

text \<open>\<^verbatim>\<open>evr_lock_inode_set_or_panic\<close> and \<^verbatim>\<open>evr_unlock_inode_set_or_panic\<close> around a request.\<close>

definition with_inode_lock :: "sync \<Rightarrow> 'a exec \<Rightarrow> 'a exec" where
  "with_inode_lock sy x = (if \<not> mtx_lock_ok sy then Panic
     else case x of Ret r \<Rightarrow> if mtx_unlock_ok sy then Ret r else Panic | _ \<Rightarrow> x)"

definition evr_get_inode :: "inodes \<Rightarrow> nat \<Rightarrow> evr_inode option" where
  "evr_get_inode inos ino =
    (if ino < FUSE_ROOT_ID \<or> ino \<ge> length inos then None
     else if ino_type (inos ! ino) = Type_unlinked then None
     else Some (inos ! ino))"

text \<open>The result is the error that was already reported or the attributes.\<close>

definition evr_fs_stat :: "nat \<Rightarrow> nat \<Rightarrow> bool \<Rightarrow> inodes \<Rightarrow> nat \<Rightarrow> (fuse_reply + fs_stat) exec" where
  "evr_fs_stat uid gid reply_ok inos ino =
    (case evr_get_inode inos ino of
       None \<Rightarrow> if reply_ok then Ret (Inl (Reply_err enoent)) else Panic
     | Some nd \<Rightarrow>
        let st = (\<lambda>mode sz. Ret (Inr \<lparr>st_mode = mode, st_nlink = 1, st_size = sz, st_ino = ino, st_uid = uid, st_gid = gid,
              st_mtim = evr_time_to_timespec (ino_last_modified nd), st_ctim = evr_time_to_timespec (ino_created nd)\<rparr>)) in
        case ino_type nd of
          Type_unlinked \<Rightarrow> Panic
        | Type_dir \<Rightarrow> st dir_mode 0
        | Type_file \<Rightarrow> (case ino_file nd of None \<Rightarrow> Undef | Some fl \<Rightarrow> st file_mode (if_file_size fl))
        | Type_status_online \<Rightarrow> st file_mode 1)"

primrec lookup_loop :: "nat \<Rightarrow> nat \<Rightarrow> bool \<Rightarrow> inodes \<Rightarrow> string \<Rightarrow> nat list \<Rightarrow> fuse_reply exec" where
  "lookup_loop uid gid reply_ok inos name [] = reply reply_ok (Reply_err enoent)"
| "lookup_loop uid gid reply_ok inos name (c # cs) =
    (if c \<ge> length inos then Undef
     else case ino_name (inos ! c) of
         None \<Rightarrow> Undef
       | Some nm \<Rightarrow>
          if name \<noteq> nm then lookup_loop uid gid reply_ok inos name cs
          else case evr_fs_stat uid gid reply_ok inos c of
              Panic \<Rightarrow> Panic
            | Undef \<Rightarrow> Undef
            | Ret (Inl r) \<Rightarrow> Ret r
            | Ret (Inr st) \<Rightarrow> reply reply_ok (Reply_entry c st))"

definition evr_fs_lookup :: "nat \<Rightarrow> nat \<Rightarrow> sync \<Rightarrow> bool \<Rightarrow> inodes \<Rightarrow> nat \<Rightarrow> string \<Rightarrow> fuse_reply exec" where
  "evr_fs_lookup uid gid sy reply_ok inos parent name = with_inode_lock sy
    (case evr_get_inode inos parent of
       None \<Rightarrow> reply reply_ok (Reply_err enoent)
     | Some pnd \<Rightarrow>
        if ino_type pnd \<noteq> Type_dir then reply reply_ok (Reply_err enotdir)
        else lookup_loop uid gid reply_ok inos name (ino_children pnd))"

definition evr_fs_getattr :: "nat \<Rightarrow> nat \<Rightarrow> sync \<Rightarrow> bool \<Rightarrow> inodes \<Rightarrow> nat \<Rightarrow> fuse_reply exec" where
  "evr_fs_getattr uid gid sy reply_ok inos ino = with_inode_lock sy
    (case evr_fs_stat uid gid reply_ok inos ino of
       Panic \<Rightarrow> Panic
     | Undef \<Rightarrow> Undef
     | Ret (Inl r) \<Rightarrow> Ret r
     | Ret (Inr st) \<Rightarrow> reply reply_ok (Reply_attr st))"

text \<open>
  \<open>dirent name ino off\<close> is the entry of FUSE, of the size \<open>dirent_size name\<close>; \<open>mem i\<close> tells whether the buffer can grow for the
  \<open>i\<close>-th entry.
\<close>

definition evr_add_direntry ::
  "(string \<Rightarrow> nat) \<Rightarrow> (string \<Rightarrow> nat \<Rightarrow> nat \<Rightarrow> bytes) \<Rightarrow> bool \<Rightarrow> dynamic_array \<Rightarrow> string \<Rightarrow> nat \<Rightarrow> dynamic_array option" where
  "evr_add_direntry dirent_size dirent mem da name child_ino =
    (let entry_size = dirent_size name;
         min_buf_size = da_size_used da + entry_size in
     case (if min_buf_size > size_allocated da then grow_dynamic_array_at_least mem (Some da) min_buf_size else Some da) of
       None \<Rightarrow> None
     | Some b \<Rightarrow> Some (b\<lparr>da_data := da_data b @ dirent name child_ino (da_size_used b + entry_size)\<rparr>))"

primrec readdir_loop ::
  "(string \<Rightarrow> nat) \<Rightarrow> (string \<Rightarrow> nat \<Rightarrow> nat \<Rightarrow> bytes) \<Rightarrow> (nat \<Rightarrow> bool) \<Rightarrow> inodes \<Rightarrow> nat list \<Rightarrow> dynamic_array \<Rightarrow> dynamic_array option exec" where
  "readdir_loop dirent_size dirent mem inos [] da = Ret (Some da)"
| "readdir_loop dirent_size dirent mem inos (c # cs) da =
    (if c \<ge> length inos then Undef
     else case ino_name (inos ! c) of
         None \<Rightarrow> Undef
       | Some nm \<Rightarrow> (case evr_add_direntry dirent_size dirent (mem c) da nm c of
            None \<Rightarrow> Ret None
          | Some b \<Rightarrow> readdir_loop dirent_size dirent mem inos cs b))"

text \<open>The inode is used without a check that there is one.\<close>

definition evr_fs_readdir ::
  "nat \<Rightarrow> (string \<Rightarrow> nat) \<Rightarrow> (string \<Rightarrow> nat \<Rightarrow> nat \<Rightarrow> bytes) \<Rightarrow> (nat \<Rightarrow> bool) \<Rightarrow> bool \<Rightarrow> sync \<Rightarrow> bool \<Rightarrow> inodes \<Rightarrow> nat \<Rightarrow> nat \<Rightarrow> nat \<Rightarrow> fuse_reply exec" where
  "evr_fs_readdir page_size dirent_size dirent mem alloc sy reply_ok inos ino sz off = with_inode_lock sy
    (case evr_get_inode inos ino of
       None \<Rightarrow> Undef
     | Some nd \<Rightarrow>
        if ino_type nd \<noteq> Type_dir then reply reply_ok (Reply_err enotdir)
        else case alloc_dynamic_array page_size alloc 0 of
          None \<Rightarrow> reply reply_ok (Reply_err einval)
        | Some da \<Rightarrow>
           (case Option.bind (evr_add_direntry dirent_size dirent (mem 0) da ''.'' ino)
               (\<lambda>b. evr_add_direntry dirent_size dirent (mem 1) b ''..'' (ino_parent nd)) of
              None \<Rightarrow> reply reply_ok (Reply_err einval)
            | Some b \<Rightarrow> (case readdir_loop dirent_size dirent mem inos (ino_children nd) b of
                 Panic \<Rightarrow> Panic
               | Undef \<Rightarrow> Undef
               | Ret None \<Rightarrow> reply reply_ok (Reply_err einval)
               | Ret (Some d) \<Rightarrow>
                  reply reply_ok (Reply_buf (if off \<ge> da_size_used d then []
                    else take (min (da_size_used d - off) sz) (drop off (da_data d)))))))"

text \<open>
  The calls around an open file: the connection to the storage and the claim that is fetched over it (the slices of the file),
  and whether a connection closes.
\<close>

record 's open_calls =
  oc_connect :: "'s option"
  oc_fetch :: "'s \<Rightarrow> evr_claim_ref \<Rightarrow> evr_code \<times> evr_file_slice list \<times> 's"
  oc_close :: bool
  oc_sync :: sync

definition open_file_failed :: "'s open_calls \<Rightarrow> 's \<Rightarrow> nat \<Rightarrow> evr_code \<Rightarrow> 's evr_open_file list \<Rightarrow> (evr_code \<times> 's evr_open_file list) exec" where
  "open_file_failed c unbound fh code ofs =
    (case evr_close_open_file (oc_sync c) (oc_close c) unbound ofs fh of
       (Ret r, ofs1) \<Rightarrow> if r \<noteq> Evr_ok then Panic else Ret (code, ofs1)
     | (Panic, _) \<Rightarrow> Panic
     | (Undef, _) \<Rightarrow> Undef)"

definition evr_fs_open_file ::
  "'s open_calls \<Rightarrow> 's \<Rightarrow> bool \<Rightarrow> evr_claim_ref \<Rightarrow> 's evr_open_file list \<Rightarrow> (evr_code \<times> fuse_reply list \<times> 's evr_open_file list) exec" where
  "evr_fs_open_file c unbound reply_ok file_ref ofs =
    (case evr_allocate_open_file (oc_sync c) unbound ofs of
       (Panic, _) \<Rightarrow> Panic
     | (Undef, _) \<Rightarrow> Undef
     | (Ret None, ofs1) \<Rightarrow> Ret (Evr_error, [], ofs1)
     | (Ret (Some fh), ofs1) \<Rightarrow>
        let fail = (\<lambda>code ofs2. case open_file_failed c unbound fh code ofs2 of
              Ret (r, ofs3) \<Rightarrow> Ret (r, [], ofs3) | Panic \<Rightarrow> Panic | Undef \<Rightarrow> Undef) in
        case oc_connect c of
          None \<Rightarrow> fail Evr_error ofs1
        | Some gc \<Rightarrow>
           (case oc_fetch c gc file_ref of (res, claim, gc1) \<Rightarrow>
              let ofs2 = ofs1[fh := (ofs1 ! fh)\<lparr>of_gc := gc1, of_claim := claim\<rparr>] in
              if res = Evr_not_found \<or> res = Evr_user_data_invalid then fail res ofs2
              else if res \<noteq> Evr_ok then fail Evr_error ofs2
              else if \<not> reply_ok then fail Evr_error ofs2
              else Ret (Evr_ok, [Reply_open fh], ofs2)))"

text \<open>The inode is used without a check that there is one, here and in the release and the read of a file.\<close>

definition evr_fs_open ::
  "'s open_calls \<Rightarrow> 's \<Rightarrow> sync \<Rightarrow> bool \<Rightarrow> bool \<Rightarrow> inodes \<Rightarrow> nat \<Rightarrow> nat \<Rightarrow> 's evr_open_file list \<Rightarrow> (fuse_reply list \<times> 's evr_open_file list) exec" where
  "evr_fs_open c unbound sy reply_ok err_ok inos ino fh ofs =
    (let fail = (\<lambda>e ofs1. if err_ok then Ret ([Reply_err e], ofs1) else Panic) in
     case with_inode_lock sy (case evr_get_inode inos ino of None \<Rightarrow> Undef | Some nd \<Rightarrow> Ret nd) of
       Panic \<Rightarrow> Panic
     | Undef \<Rightarrow> Undef
     | Ret nd \<Rightarrow>
        (case ino_type nd of
           Type_file \<Rightarrow> (case ino_file nd of
               None \<Rightarrow> Undef
             | Some fl \<Rightarrow> (case evr_fs_open_file c unbound reply_ok (if_file_ref fl) ofs of
                  Panic \<Rightarrow> Panic
                | Undef \<Rightarrow> Undef
                | Ret (r, rs, ofs1) \<Rightarrow> if r \<noteq> Evr_ok then fail einval ofs1 else Ret (rs, ofs1)))
         | Type_status_online \<Rightarrow> if reply_ok then Ret ([Reply_open fh], ofs) else fail einval ofs
         | _ \<Rightarrow> fail eisdir ofs))"

definition evr_fs_release ::
  "sync \<Rightarrow> bool \<Rightarrow> 's \<Rightarrow> sync \<Rightarrow> bool \<Rightarrow> bool \<Rightarrow> inodes \<Rightarrow> nat \<Rightarrow> nat \<Rightarrow> 's evr_open_file list \<Rightarrow> (fuse_reply list \<times> 's evr_open_file list) exec" where
  "evr_fs_release fsy close_ok unbound sy reply_ok err_ok inos ino fh ofs =
    (let fail = (\<lambda>ofs1. if err_ok then Ret ([Reply_err einval], ofs1) else Panic) in
     case with_inode_lock sy (case evr_get_inode inos ino of None \<Rightarrow> Undef | Some nd \<Rightarrow> Ret nd) of
       Panic \<Rightarrow> Panic
     | Undef \<Rightarrow> Undef
     | Ret nd \<Rightarrow>
        (case ino_type nd of
           Type_file \<Rightarrow> (case evr_close_open_file fsy close_ok unbound ofs fh of
               (Panic, _) \<Rightarrow> Panic
             | (Undef, _) \<Rightarrow> Undef
             | (Ret r, ofs1) \<Rightarrow> if r \<noteq> Evr_ok then fail ofs1 else if reply_ok then Ret ([Reply_err 0], ofs1) else Panic)
         | Type_status_online \<Rightarrow> if reply_ok then Ret ([Reply_err 0], ofs) else fail ofs
         | _ \<Rightarrow> Panic))"

definition evr_fs_read_status_online :: "bool \<Rightarrow> nat \<Rightarrow> fuse_reply" where
  "evr_fs_read_status_online online off = Reply_buf (if off = 0 then [if online then 49 else 48] else [])"

definition evr_fs_read_file ::
  "(bytes \<Rightarrow> bytes) \<Rightarrow> 's reader \<Rightarrow> 's writer \<Rightarrow> sync \<Rightarrow> (nat \<Rightarrow> slice_calls) \<Rightarrow> bool \<Rightarrow> bool \<Rightarrow> nat \<Rightarrow> nat \<Rightarrow> nat \<Rightarrow> 's evr_open_file list
   \<Rightarrow> (fuse_reply option \<times> 's evr_open_file list) exec" where
  "evr_fs_read_file sha3_224 rd wr fsy k mem reply_ok fh n off ofs =
    (if \<not> mem then Ret (None, ofs)
     else if fh \<ge> length ofs then Undef
     else case evr_open_file_read sha3_224 rd wr fsy k (ofs ! fh) n off of
         (Panic, _, _) \<Rightarrow> Panic
       | (Undef, _, _) \<Rightarrow> Undef
       | (Ret r, b, f) \<Rightarrow> Ret (if r = Evr_ok \<and> reply_ok then Some (Reply_buf b) else None, ofs[fh := f]))"

definition evr_fs_read ::
  "(bytes \<Rightarrow> bytes) \<Rightarrow> 's reader \<Rightarrow> 's writer \<Rightarrow> sync \<Rightarrow> (nat \<Rightarrow> slice_calls) \<Rightarrow> bool \<Rightarrow> sync \<Rightarrow> bool \<Rightarrow> bool \<Rightarrow> bool \<Rightarrow> inodes \<Rightarrow> nat \<Rightarrow> nat \<Rightarrow> nat \<Rightarrow> nat \<Rightarrow> 's evr_open_file list
   \<Rightarrow> (fuse_reply \<times> 's evr_open_file list) exec" where
  "evr_fs_read sha3_224 rd wr fsy k mem sy reply_ok err_ok online inos ino n off fh ofs =
    (let fail = (\<lambda>ofs1. if err_ok then Ret (Reply_err einval, ofs1) else Panic) in
     case with_inode_lock sy (case evr_get_inode inos ino of None \<Rightarrow> Undef | Some nd \<Rightarrow> Ret nd) of
       Panic \<Rightarrow> Panic
     | Undef \<Rightarrow> Undef
     | Ret nd \<Rightarrow>
        (case ino_type nd of
           Type_file \<Rightarrow> (case evr_fs_read_file sha3_224 rd wr fsy k mem reply_ok fh n off ofs of
               Panic \<Rightarrow> Panic
             | Undef \<Rightarrow> Undef
             | Ret (None, ofs1) \<Rightarrow> fail ofs1
             | Ret (Some r, ofs1) \<Rightarrow> Ret (r, ofs1))
         | Type_status_online \<Rightarrow> if reply_ok then Ret (evr_fs_read_status_online online off, ofs) else fail ofs
         | _ \<Rightarrow> Panic))"

definition evr_add_status_dir_inode :: "(nat \<Rightarrow> evr_inode) \<Rightarrow> (nat \<Rightarrow> inode_mem) \<Rightarrow> inodes \<Rightarrow> (evr_code \<times> inodes) exec" where
  "evr_add_status_dir_inode junk m inos =
    (case evr_inode_create_file junk m inos ''.evr/online'' of
       Panic \<Rightarrow> Panic
     | Undef \<Rightarrow> Undef
     | Ret (n, inos1) \<Rightarrow>
        if n = 0 then Ret (Evr_error, inos1)
        else if n \<ge> length inos1 then Undef
        else Ret (Evr_ok, inos1[n := (inos1 ! n)\<lparr>ino_type := Type_status_online\<rparr>]))"

record evr_fs_file =
  ff_path :: string
  ff_file_ref :: evr_claim_ref
  ff_size :: nat
  ff_created :: evr_time
  ff_last_modified :: evr_time

text \<open>
  \<open>sds\<close> are the seed attributes of the seed descriptions, \<open>None\<close> when the document is none of that kind; \<open>raw\<close> is the
  uninitialised reference.
\<close>

primrec count_dependent_seeds :: "bytes \<Rightarrow> evr_claim_ref \<Rightarrow> string option list \<Rightarrow> nat option" where
  "count_dependent_seeds raw seed [] = Some 0"
| "count_dependent_seeds raw seed (a # as) =
    (case a of
       None \<Rightarrow> None
     | Some v \<Rightarrow> (case evr_parse_claim_ref raw v of (r, sd_seed) \<Rightarrow>
         if r \<noteq> Evr_ok then None
         else map_option (\<lambda>n. if take evr_claim_ref_size seed \<noteq> take evr_claim_ref_size sd_seed then Suc n else n)
           (count_dependent_seeds raw seed as)))"

primrec fill_dependent_seeds :: "bytes \<Rightarrow> evr_claim_ref \<Rightarrow> string option list \<Rightarrow> evr_claim_ref list option" where
  "fill_dependent_seeds raw seed [] = Some []"
| "fill_dependent_seeds raw seed (a # as) =
    (case a of
       None \<Rightarrow> None
     | Some v \<Rightarrow> (case evr_parse_claim_ref raw v of (r, sd_seed) \<Rightarrow>
         if r \<noteq> Evr_ok then None
         else map_option (\<lambda>ds. if take evr_claim_ref_size seed \<noteq> take evr_claim_ref_size sd_seed then take evr_claim_ref_size sd_seed # ds else ds)
           (fill_dependent_seeds raw seed as)))"

definition evr_collect_dependent_seeds :: "bool \<Rightarrow> bytes \<Rightarrow> string option list option \<Rightarrow> evr_claim_ref \<Rightarrow> evr_claim_ref list option" where
  "evr_collect_dependent_seeds malloc raw sds seed =
    (case sds of
       None \<Rightarrow> None
     | Some as \<Rightarrow> (case count_dependent_seeds raw seed as of
          None \<Rightarrow> None
        | Some n \<Rightarrow> if \<not> malloc then None else fill_dependent_seeds raw seed as))"

text \<open>The loop over the file nodes: \<open>None\<close> stands for a node that can not be parsed. \<open>mem i\<close> are the allocations for the \<open>i\<close>-th node.\<close>

primrec populate_loop ::
  "(nat \<Rightarrow> evr_inode) \<Rightarrow> (nat \<Rightarrow> bool) \<Rightarrow> (nat \<Rightarrow> nat \<Rightarrow> inode_mem) \<Rightarrow> evr_claim_ref \<Rightarrow> evr_claim_ref list \<Rightarrow> nat \<Rightarrow> evr_fs_file option list \<Rightarrow> inodes
   \<Rightarrow> (evr_code \<times> inodes) exec" where
  "populate_loop junk mem m seed dependent_seeds i [] inos = Ret (Evr_ok, inos)"
| "populate_loop junk mem m seed dependent_seeds i (fn # fns) inos =
    (case fn of
       None \<Rightarrow> populate_loop junk mem m seed dependent_seeds (Suc i) fns inos
     | Some f \<Rightarrow>
        if dependent_seeds \<noteq> [] \<and> \<not> mem i then Ret (Evr_error, inos)
        else case evr_inode_create_file junk (m i) inos (ff_path f) of
            Panic \<Rightarrow> Panic
          | Undef \<Rightarrow> Undef
          | Ret (ino, inos1) \<Rightarrow>
             if ino = 0 then Ret (Evr_error, inos1)
             else if ino \<ge> length inos1 then Undef
             else populate_loop junk mem m seed dependent_seeds (Suc i) fns
               (inos1[ino := (inos1 ! ino)\<lparr>ino_created := ff_created f, ino_last_modified := ff_last_modified f,
                  ino_file := Some \<lparr>if_file_size = ff_size f, if_file_ref = take evr_claim_ref_size (ff_file_ref f),
                    if_seed = take evr_claim_ref_size seed, if_dependent_seeds = dependent_seeds\<rparr>\<rparr>]))"

text \<open>
  \<open>desc\<close> is the description of the seed, with the seeds in it and, when the transformation succeeds, the file set, which
  may be missing.
\<close>

definition evr_populate_inode_set_visit_seed ::
  "(nat \<Rightarrow> evr_inode) \<Rightarrow> bool \<Rightarrow> bytes \<Rightarrow> (nat \<Rightarrow> bool) \<Rightarrow> (nat \<Rightarrow> nat \<Rightarrow> inode_mem) \<Rightarrow> bool \<Rightarrow> sync \<Rightarrow>
   (string option list option \<times> evr_fs_file option list option option) option \<Rightarrow> evr_claim_ref \<Rightarrow> inodes \<Rightarrow> (evr_code \<times> inodes) exec option" where
  "evr_populate_inode_set_visit_seed junk malloc raw mem m shrink sy desc seed inos =
    (case desc of
       None \<Rightarrow> Some (Ret (Evr_error, inos))
     | Some (sds, files_doc) \<Rightarrow> (case files_doc of
          None \<Rightarrow> Some (Ret (Evr_error, inos))
        | Some file_set \<Rightarrow> (case file_set of
             None \<Rightarrow> Some (Ret (Evr_ok, inos))
           | Some fns \<Rightarrow> (case evr_collect_dependent_seeds malloc raw sds seed of
                None \<Rightarrow> Some (Ret (Evr_error, inos))
              | Some ds \<Rightarrow>
                 if \<not> mtx_lock_ok sy then Some (Ret (Evr_error, inos))
                 else map_option (\<lambda>x. case x of
                     Panic \<Rightarrow> Panic
                   | Undef \<Rightarrow> Undef
                   | Ret inos1 \<Rightarrow> (case populate_loop junk mem m seed ds 0 fns inos1 of
                        Panic \<Rightarrow> Panic
                      | Undef \<Rightarrow> Undef
                      | Ret r \<Rightarrow> if mtx_unlock_ok sy then Ret r else Panic))
                   (evr_inode_remove_by_seed shrink inos seed)))))"

text \<open>The seeds to build again after a change: \<open>mem i\<close> tells whether the list can grow for the \<open>i\<close>-th inode.\<close>

primrec affected_seeds_loop ::
  "(nat \<Rightarrow> bool) \<Rightarrow> inodes \<Rightarrow> nat list \<Rightarrow> evr_claim_ref_tiny_set \<Rightarrow> evr_claim_ref evr_llbuf_s \<Rightarrow> (evr_code \<times> evr_claim_ref evr_llbuf_s) exec" where
  "affected_seeds_loop mem inos [] seed_set acc = Ret (Evr_ok, acc)"
| "affected_seeds_loop mem inos (n # ns) seed_set acc =
    (if n \<ge> length inos then Undef
     else case ino_file (inos ! n) of
         None \<Rightarrow> Undef
       | Some fl \<Rightarrow> (case evr_claim_ref_tiny_set_add seed_set (if_seed fl) of (r, seed_set1) \<Rightarrow>
           if r = Evr_exists then affected_seeds_loop mem inos ns seed_set1 acc
           else case evr_llbuf_s_append (mem n) acc (take evr_claim_ref_size (if_seed fl)) of (ra, acc1) \<Rightarrow>
             if ra \<noteq> Evr_ok then Ret (Evr_error, acc1) else affected_seeds_loop mem inos ns seed_set1 acc1))"

definition evr_collect_affected_seeds ::
  "nat \<Rightarrow> sync \<Rightarrow> (nat \<Rightarrow> bool) \<Rightarrow> bool \<Rightarrow> (nat \<Rightarrow> bool) \<Rightarrow> inodes \<Rightarrow> evr_claim_ref \<Rightarrow> evr_claim_ref evr_llbuf_s
   \<Rightarrow> (evr_code \<times> evr_claim_ref evr_llbuf_s) exec" where
  "evr_collect_affected_seeds page_size sy mem1 malloc mem2 inos seed acc =
    (if \<not> mtx_lock_ok sy then Ret (Evr_error, acc)
     else case evr_collect_affected_inodes mem1 (evr_init_llbuf_s page_size 8) inos seed of
         Panic \<Rightarrow> Panic
       | Undef \<Rightarrow> Undef
       | Ret (collect_res, affected) \<Rightarrow>
          if \<not> mtx_unlock_ok sy then Panic
          else if collect_res \<noteq> Evr_ok then Ret (Evr_error, acc)
          else case evr_create_claim_ref_tiny_set malloc 128 of
              None \<Rightarrow> Ret (Evr_error, acc)
            | Some seed_set \<Rightarrow> (case evr_claim_ref_tiny_set_add seed_set seed of (add_res, seed_set1) \<Rightarrow>
                if add_res \<noteq> Evr_ok then Ret (Evr_error, acc)
                else case evr_llbuf_s_append (mem2 0) acc (take evr_claim_ref_size seed) of (ra, acc1) \<Rightarrow>
                if ra \<noteq> Evr_ok then Ret (Evr_error, acc1)
                else case iter_collect (child_count affected) affected (evr_init_llbuf_s_iter affected) of
                    None \<Rightarrow> Undef
                  | Some ns \<Rightarrow> affected_seeds_loop mem2 inos ns seed_set1 acc1))"

text \<open>\<open>visit\<close> visits a seed over the connection to the index.\<close>

primrec visit_seeds ::
  "(evr_claim_ref \<Rightarrow> inodes \<Rightarrow> (evr_code \<times> inodes) exec option) \<Rightarrow> evr_claim_ref list \<Rightarrow> inodes \<Rightarrow> (evr_code \<times> inodes) exec option" where
  "visit_seeds visit [] inos = Some (Ret (Evr_ok, inos))"
| "visit_seeds visit (s # ss) inos =
    (case visit s inos of
       None \<Rightarrow> None
     | Some (Ret (r, inos1)) \<Rightarrow> if r \<noteq> Evr_ok then Some (Ret (Evr_error, inos1)) else visit_seeds visit ss inos1
     | x \<Rightarrow> x)"

definition evr_index_watch_worker_visit_changed_seed ::
  "nat \<Rightarrow> sync \<Rightarrow> (nat \<Rightarrow> bool) \<Rightarrow> bool \<Rightarrow> (nat \<Rightarrow> bool) \<Rightarrow> bool \<Rightarrow> bool \<Rightarrow> (evr_claim_ref \<Rightarrow> inodes \<Rightarrow> (evr_code \<times> inodes) exec option)
   \<Rightarrow> evr_claim_ref \<Rightarrow> inodes \<Rightarrow> (evr_code \<times> inodes) exec option" where
  "evr_index_watch_worker_visit_changed_seed page_size sy mem1 malloc mem2 connect close_ok visit seed inos =
    (case evr_collect_affected_seeds page_size sy mem1 malloc mem2 inos seed (evr_init_llbuf_s page_size evr_claim_ref_size) of
       Panic \<Rightarrow> Some Panic
     | Undef \<Rightarrow> Some Undef
     | Ret (r, affected) \<Rightarrow>
        if r \<noteq> Evr_ok then Some (Ret (Evr_error, inos))
        else if \<not> connect then Some (Ret (Evr_error, inos))
        else case iter_collect (child_count affected) affected (evr_init_llbuf_s_iter affected) of
            None \<Rightarrow> Some Undef
          | Some ss \<Rightarrow> map_option (\<lambda>x. case x of Ret q \<Rightarrow> if close_ok then Ret q else Panic | _ \<Rightarrow> x) (visit_seeds visit ss inos))"

end
