(* ===== verification/Virtual_Fs_Correct.thy ===== *)
theory Virtual_Fs_Correct
  imports Virtual_Fs
begin

text \<open>
  What a user of the virtual file system sees: the inodes of a seed after it was built again, the
  answers to lookups and directory reads, and the bytes of a file.
\<close>

lemma with_inode_lock_ok [simp]: "with_inode_lock sync_ok x = x"
  by (cases x) (simp_all add: with_inode_lock_def sync_ok_def)

lemma get_inode_linked: "evr_get_inode ino n = (if linked ino n then Some (ino ! n) else None)"
  by (auto simp: evr_get_inode_def linked_def FUSE_ROOT_ID_def)

section \<open>Building the inodes of a seed\<close>

definition same_shape :: "inodes \<Rightarrow> inodes \<Rightarrow> bool" where
  "same_shape ino ino' = (length ino' = length ino \<and> (\<forall>m<length ino. ino_parent (ino' ! m) = ino_parent (ino ! m) \<and>
     ino_name (ino' ! m) = ino_name (ino ! m) \<and> ino_children (ino' ! m) = ino_children (ino ! m) \<and>
     (ino_type (ino' ! m) = Type_dir \<longleftrightarrow> ino_type (ino ! m) = Type_dir) \<and>
     (ino_type (ino' ! m) = Type_unlinked \<longleftrightarrow> ino_type (ino ! m) = Type_unlinked)))"

lemma same_shape_inv:
  assumes s: "same_shape ino ino'" and inv: "inodes_inv ino"
  shows "inodes_inv ino'" "linked ino' m \<longleftrightarrow> linked ino m" "inode_path ino n ps \<Longrightarrow> inode_path ino' n ps"
proof -
  have lk: "linked ino' m \<longleftrightarrow> linked ino m" for m using s by (auto simp: same_shape_def linked_def)
  have f: "ino_parent (ino' ! m) = ino_parent (ino ! m)" "ino_name (ino' ! m) = ino_name (ino ! m)"
    "ino_children (ino' ! m) = ino_children (ino ! m)" "ino_type (ino' ! m) = Type_dir \<longleftrightarrow> ino_type (ino ! m) = Type_dir"
    if "linked ino m" for m using s that by (auto simp: same_shape_def linked_def)
  have path: "inode_path ino' m ps" if "inode_path ino m ps" for m ps
    using that
  proof (induction rule: inode_path.induct)
    case path_root
    then show ?case using lk inode_path.path_root by blast
  next
    case (path_step m ps x)
    from inode_path.path_step [of ino' m ps x] path_step.hyps path_step.IH f [OF path_step.hyps(2)] lk show ?case by simp
  qed
  have dir: "is_dir ino' q \<longleftrightarrow> is_dir ino q" for q using lk [of q] f(4) [of q] by auto
  have "is_dir ino' 1" using dir inv_root [OF inv] by blast
  moreover have "linked ino' c \<and> c \<noteq> 1 \<and> ino_parent (ino' ! c) = q" if "is_dir ino' q" "c \<in> set (ino_children (ino' ! q))" for q c
    using that dir [of q] f(3) [of q] f(1) [of c] inv_child [OF inv, of q c] lk [of c] by auto
  moreover have "distinct (ino_children (ino' ! q))" if "is_dir ino' q" for q
    using that dir [of q] f(3) [of q] inv_distinct [OF inv, of q] by simp
  moreover have "is_dir ino' (ino_parent (ino' ! m)) \<and> m \<in> set (ino_children (ino' ! ino_parent (ino' ! m)))" if "linked ino' m" "m \<noteq> 1" for m
    using that lk [of m] f(1) [of m] inv_parent [OF inv, of m] dir [of "ino_parent (ino ! m)"] f(3) [of "ino_parent (ino ! m)"] by simp
  moreover have "\<exists>ps. inode_path ino' m ps" if "linked ino' m" for m using that lk path inv_path [OF inv] by blast
  ultimately show "inodes_inv ino'" unfolding inodes_inv_def by (intro conjI allI impI) (blast | metis)+
  show "linked ino' m \<longleftrightarrow> linked ino m" "inode_path ino n ps \<Longrightarrow> inode_path ino' n ps" using lk path by blast+
qed

text \<open>The inode of a file of a seed.\<close>

definition file_inode :: "evr_claim_ref \<Rightarrow> evr_claim_ref list \<Rightarrow> inodes \<Rightarrow> nat \<Rightarrow> evr_fs_file \<Rightarrow> bool" where
  "file_inode seed ds ino r f = (linked ino r \<and> ino_type (ino ! r) = Type_file \<and> inode_path ino r (split_path [] (ff_path f)) \<and>
     ino_created (ino ! r) = ff_created f \<and> ino_last_modified (ino ! r) = ff_last_modified f \<and>
     ino_file (ino ! r) = Some \<lparr>if_file_size = ff_size f, if_file_ref = take evr_claim_ref_size (ff_file_ref f),
       if_seed = take evr_claim_ref_size seed, if_dependent_seeds = ds\<rparr>)"

lemma file_inode_grown:
  assumes "grown S ino ino'" "file_inode seed ds ino r f"
  shows "file_inode seed ds ino' r f"
proof -
  have l: "linked ino r" and p: "inode_path ino r (split_path [] (ff_path f))" using assms(2) by (simp_all add: file_inode_def)
  have "linked ino' r" using grownD(3) [OF assms(1)] l by blast
  with same_inode_fields [OF grownD(5) [OF assms(1) l]] grownD(6) [OF assms(1) p] assms(2) show ?thesis by (simp add: file_inode_def)
qed

lemma set_file_grown:
  assumes new: "new_file ino ps r ino1" "r \<noteq> 0" and fs: "files_set ino"
    and ino2: "ino2 = ino1[r := (ino1 ! r)\<lparr>ino_created := c, ino_last_modified := t, ino_file := Some fl\<rparr>]"
  shows "r < length ino1 \<and> files_set ino2 \<and> inode_path ino2 r ps \<and> linked ino2 r \<and>
    ino_type (ino2 ! r) = Type_file \<and> ino_created (ino2 ! r) = c \<and> ino_last_modified (ino2 ! r) = t \<and> ino_file (ino2 ! r) = Some fl \<and>
    (\<exists>S. r \<in> S \<and> grown S ino ino2 \<and> (\<forall>s\<in>S - {r}. ino_type (ino2 ! s) = Type_dir))"
proof -
  obtain S where S: "grown S ino ino1" "\<forall>s\<in>S - {r}. ino_type (ino1 ! s) = Type_dir" "r \<in> S" "ino_type (ino1 ! r) = Type_file"
    "inode_path ino1 r ps" using new by (auto simp: new_file_def)
  note g = grownD [OF S(1)]
  have r: "r < length ino1" "linked ino1 r" "\<not> linked ino r" using path_linked [OF S(5)] g(4) [OF S(3)] by (simp_all add: linked_def)
  have sh: "same_shape ino1 ino2" using r(1) by (auto simp: same_shape_def ino2 nth_list_update)
  note si = same_shape_inv [OF sh g(1)]
  have at: "ino2 ! r = (ino1 ! r)\<lparr>ino_created := c, ino_last_modified := t, ino_file := Some fl\<rparr>" using r by (simp add: ino2)
  have others: "m \<noteq> r \<Longrightarrow> ino2 ! m = ino1 ! m" for m by (simp add: ino2)
  have "same_inode (ino2 ! m) (ino ! m)" if "linked ino m" for m
  proof -
    have "m \<noteq> r" using that r(3) by blast
    then show ?thesis using g(5) [OF that] others [of m] by simp
  qed
  moreover have "length ino \<le> length ino2" using g(2) by (simp add: ino2)
  ultimately have "grown S ino ino2" using si g(3,4,6) unfolding grown_def by (intro conjI allI impI ballI) (simp | blast)+
  moreover have "ino_file (ino2 ! m) \<noteq> None" if m: "linked ino2 m" "ino_type (ino2 ! m) = Type_file" for m
  proof (cases "m = r")
    case False
    then have "ino2 ! m = ino1 ! m" by (rule others)
    then have "linked ino m" using m False si(2) g(3) S(2) by auto
    moreover from this have "same_inode (ino2 ! m) (ino ! m)" using g(5) others [OF False] by simp
    ultimately show ?thesis using m(2) fs same_inode_fields unfolding files_set_def by metis
  qed (simp add: at)
  then have "files_set ino2" by (simp add: files_set_def)
  moreover have "\<forall>s\<in>S - {r}. ino_type (ino2 ! s) = Type_dir" using S(2) others by simp
  ultimately show ?thesis using si(2) si(3) [OF S(5)] r S(3,4) at by auto
qed

definition parsed_files :: "evr_fs_file option list \<Rightarrow> evr_fs_file list" where
  "parsed_files fns = List.map_filter id fns"

lemma parsed_files_simps [simp]:
  "parsed_files [] = []" "parsed_files (None # fns) = parsed_files fns" "parsed_files (Some f # fns) = f # parsed_files fns"
  by (simp_all add: parsed_files_def List.map_filter_def)

definition path_names :: "evr_fs_file list \<Rightarrow> nat" where
  "path_names fs = sum_list (map (\<lambda>f. length (split_path [] (ff_path f))) fs)"

definition built :: "evr_claim_ref \<Rightarrow> evr_claim_ref list \<Rightarrow> inodes \<Rightarrow> nat list \<Rightarrow> evr_fs_file list \<Rightarrow> inodes \<Rightarrow> bool" where
  "built seed ds ino news fs ino' = (list_all2 (file_inode seed ds ino') news fs \<and> distinct news \<and>
     (\<exists>S. set news \<subseteq> S \<and> grown S ino ino' \<and> (\<forall>s\<in>S - set news. ino_type (ino' ! s) = Type_dir)))"

lemma grown_dir: "grown T ino1 ino2 \<Longrightarrow> linked ino1 s \<Longrightarrow> ino_type (ino1 ! s) = t \<Longrightarrow> ino_type (ino2 ! s) = t"
  using grownD(5) same_inode_fields by metis

lemma grown_dirs_files_set:
  assumes "grown S ino ino'" "\<forall>s\<in>S. ino_type (ino' ! s) = Type_dir" "files_set ino"
  shows "files_set ino'"
  unfolding files_set_def
proof (intro allI impI)
  fix n
  assume n: "linked ino' n \<and> ino_type (ino' ! n) = Type_file"
  then have "linked ino n" using assms(1,2) grownD(3) by fastforce
  moreover from this have "same_inode (ino' ! n) (ino ! n)" using grownD(5) [OF assms(1)] by blast
  ultimately show "ino_file (ino' ! n) \<noteq> None" using n assms(3) same_inode_fields unfolding files_set_def by metis
qed

lemma built_chain:
  assumes a: "r \<in> S" "grown S ino ino1" "\<forall>s\<in>S - {r}. ino_type (ino1 ! s) = Type_dir" "file_inode seed ds ino1 r f"
    and b: "built seed ds ino1 news fs ino'"
  shows "built seed ds ino (r # news) (f # fs) ino'"
proof -
  obtain T where T: "set news \<subseteq> T" "grown T ino1 ino'" "\<forall>s\<in>T - set news. ino_type (ino' ! s) = Type_dir" using b by (auto simp: built_def)
  have "ino_type (ino' ! s) = Type_dir" if "s \<in> S - {r}" for s
    using grown_dir [OF T(2)] a(2,3) grownD(3) that by blast
  moreover have "r \<notin> T" using grownD(4) [OF T(2)] a(4) by (auto simp: file_inode_def)
  ultimately show ?thesis using grown_trans [OF a(2) T(2)] T a(1) b file_inode_grown [OF T(2) a(4)] unfolding built_def
    by (intro conjI exI [of _ "S \<union> T"]) auto
qed

lemma populate_loop_builds:
  assumes "inodes_inv ino" "files_set ino" "\<forall>i j. mem_name (m i j)" "length ino * 2 ^ path_names (parsed_files fns) \<le> 2 ^ 31"
  shows "\<exists>r ino'. populate_loop junk mem m seed ds i fns ino = Ret (r, ino') \<and> inodes_inv ino' \<and> files_set ino' \<and>
    (\<forall>n. linked ino n \<longrightarrow> linked ino' n \<and> same_inode (ino' ! n) (ino ! n)) \<and>
    ((\<forall>i j. mem i \<and> mem_inodes (m i j) \<and> mem_children (m i j)) \<longrightarrow> r = Evr_ok) \<and>
    (r = Evr_ok \<longrightarrow> (\<exists>news. built seed ds ino news (parsed_files fns) ino'))"
  using assms
proof (induction fns arbitrary: ino i)
  case Nil
  have "built seed ds ino [] [] ino" using grown_none [OF Nil.prems(1)] unfolding built_def by fastforce
  with Nil show ?case by fastforce
next
  case (Cons fn fns)
  show ?case
  proof (cases fn)
    case None
    then show ?thesis using Cons.IH [OF Cons.prems(1-3), of "Suc i"] Cons.prems(4) by simp
  next
    case (Some f)
    let ?k = "length (split_path [] (ff_path f))"
    have bnd: "length ino * 2 ^ ?k * 2 ^ path_names (parsed_files fns) \<le> 2 ^ 31"
      using Cons.prems(4) Some by (simp add: path_names_def power_add mult.assoc)
    have "(1::nat) \<le> 2 ^ path_names (parsed_files fns)" by simp
    then have b1: "length ino * 2 ^ ?k \<le> 2 ^ 31" using bnd by (metis mult.right_neutral mult_le_mono2 order_trans)
    have rp: "inode_path ino 1 []" using inv_root [OF Cons.prems(1)] path_root by blast
    have mm: "\<forall>j. mem_name (m i j)" using Cons.prems(3) by blast
    from create_file_loop_new [OF Cons.prems(1) inv_root [OF Cons.prems(1)] rp mm b1, of junk 0] obtain r ino1 where
      c: "evr_inode_create_file junk (m i) ino (ff_path f) = Ret (r, ino1)" "new_file ino (split_path [] (ff_path f)) r ino1"
      "(\<forall>j. mem_inodes (m i j) \<and> mem_children (m i j)) \<longrightarrow> r \<noteq> 0" "length ino1 \<le> length ino * 2 ^ ?k"
      by (auto simp: evr_inode_create_file_def FUSE_ROOT_ID_def)
    consider "ds \<noteq> [] \<and> \<not> mem i" | "ds = [] \<or> mem i" "r = 0" | "ds = [] \<or> mem i" "r \<noteq> 0" by blast
    then show ?thesis
    proof cases
      case 1
      then show ?thesis using Some Cons.prems(1,2) by auto
    next
      case 2
      obtain S where S: "grown S ino ino1" "\<forall>s\<in>S - {0}. ino_type (ino1 ! s) = Type_dir" using c(2) 2 by (auto simp: new_file_def)
      have "0 \<notin> S" using grownD(3) [OF S(1), of 0] by (simp add: linked_def)
      then have fs1: "files_set ino1" using grown_dirs_files_set [OF S(1) _ Cons.prems(2)] S(2) by auto
      have "populate_loop junk mem m seed ds i (fn # fns) ino = Ret (Evr_error, ino1)" using Some c(1) 2 by auto
      then show ?thesis
      proof (intro exI conjI)
        show "\<forall>n. linked ino n \<longrightarrow> linked ino1 n \<and> same_inode (ino1 ! n) (ino ! n)" using grownD(3,5) [OF S(1)] by blast
        show "(\<forall>i j. mem i \<and> mem_inodes (m i j) \<and> mem_children (m i j)) \<longrightarrow> Evr_error = Evr_ok" using c(3) 2 by blast
      qed (use fs1 grownD(1) [OF S(1)] in simp_all)
    next
      case 3
      define fl where "fl = \<lparr>if_file_size = ff_size f, if_file_ref = take evr_claim_ref_size (ff_file_ref f),
                    if_seed = take evr_claim_ref_size seed, if_dependent_seeds = ds\<rparr>"
      define ino2 where "ino2 = ino1[r := (ino1 ! r)\<lparr>ino_created := ff_created f, ino_last_modified := ff_last_modified f, ino_file := Some fl\<rparr>]"
      note sf = set_file_grown [OF c(2) 3(2) Cons.prems(2) ino2_def]
      then obtain S where S: "r \<in> S" "grown S ino ino2" "\<forall>s\<in>S - {r}. ino_type (ino2 ! s) = Type_dir" by blast
      note g = grownD [OF S(2)]
      have fi: "file_inode seed ds ino2 r f" using sf by (simp add: file_inode_def fl_def)
      have f2: "files_set ino2" using sf by blast
      have b2: "length ino2 * 2 ^ path_names (parsed_files fns) \<le> 2 ^ 31"
        using bnd c(4) by (simp add: ino2_def) (meson mult_le_mono1 order_trans)
      obtain r' ino' where rec: "populate_loop junk mem m seed ds (Suc i) fns ino2 = Ret (r', ino')" "inodes_inv ino'" "files_set ino'"
        "\<forall>n. linked ino2 n \<longrightarrow> linked ino' n \<and> same_inode (ino' ! n) (ino2 ! n)"
        "(\<forall>i j. mem i \<and> mem_inodes (m i j) \<and> mem_children (m i j)) \<longrightarrow> r' = Evr_ok"
        "r' = Evr_ok \<longrightarrow> (\<exists>news. built seed ds ino2 news (parsed_files fns) ino')"
        using Cons.IH [OF g(1) f2 Cons.prems(3) b2, of "Suc i"] by (elim exE conjE) (rule that)
      have "populate_loop junk mem m seed ds i (fn # fns) ino = Ret (r', ino')"
        using Some c(1) 3 sf rec(1) by (auto simp: ino2_def fl_def)
      moreover have "linked ino' n \<and> same_inode (ino' ! n) (ino ! n)" if "linked ino n" for n
        using that g(3,5) rec(4) same_inode_trans by blast
      moreover have "\<exists>news. built seed ds ino news (parsed_files (fn # fns)) ino'" if "r' = Evr_ok"
        using rec(6) that built_chain [OF S fi] Some by fastforce
      ultimately show ?thesis using rec(2,3,5) by blast
    qed
  qed
qed

lemma remove_by_seed_all:
  assumes "inodes_inv ino" "files_set ino"
  shows "\<exists>ino'. evr_inode_remove_by_seed True ino seed = Some (Ret ino') \<and> kept {n. linked ino n \<and> of_seed seed (ino ! n)} ino ino'"
proof -
  have e: "{m \<in> set [FUSE_ROOT_ID + 1..<length ino]. linked ino m \<and> of_seed seed (ino ! m)} = {n. linked ino n \<and> of_seed seed (ino ! n)}"
  proof (rule set_eqI)
    fix n
    have "n \<noteq> 1" if "of_seed seed (ino ! n)" using that inv_root [OF assms(1)] by (auto simp: of_seed_def)
    then show "n \<in> {m \<in> set [FUSE_ROOT_ID + 1..<length ino]. linked ino m \<and> of_seed seed (ino ! m)} \<longleftrightarrow> n \<in> {n. linked ino n \<and> of_seed seed (ino ! n)}"
      by (auto simp: FUSE_ROOT_ID_def linked_def)
  qed
  show ?thesis
    using remove_by_seed_kept [OF assms, of "[FUSE_ROOT_ID + 1..<length ino]" seed] unfolding e
    by (auto simp: evr_inode_remove_by_seed_def FUSE_ROOT_ID_def)
qed

lemma built_of_seed:
  assumes "kept {n. linked ino n \<and> of_seed seed (ino ! n)} ino ino1" "built seed ds ino1 news fs ino'"
  shows "linked ino' n \<and> of_seed seed (ino' ! n) \<longleftrightarrow> n \<in> set news"
proof
  obtain S where S: "set news \<subseteq> S" "grown S ino1 ino'" "\<forall>s\<in>S - set news. ino_type (ino' ! s) = Type_dir" using assms(2) by (auto simp: built_def)
  assume n: "linked ino' n \<and> of_seed seed (ino' ! n)"
  have "\<not> linked ino1 n"
  proof
    assume l: "linked ino1 n"
    then have "of_seed seed (ino1 ! n)" using n of_seed_same grownD(5) [OF S(2)] by blast
    then have "of_seed seed (ino ! n)" using of_seed_same keptD(6) [OF assms(1) l] by blast
    then show False using keptD(4,5) [OF assms(1) l] by blast
  qed
  then have "n \<in> S" using grownD(3) [OF S(2)] n by blast
  moreover have "ino_type (ino' ! n) \<noteq> Type_dir" using n by (simp add: of_seed_def)
  ultimately show "n \<in> set news" using S(3) by blast
next
  assume "n \<in> set news"
  then obtain f where "file_inode seed ds ino' n f" using assms(2) unfolding built_def by (metis in_set_conv_nth list_all2_conv_all_nth)
  then show "linked ino' n \<and> of_seed seed (ino' ! n)" by (simp add: file_inode_def of_seed_def)
qed

section \<open>Affected seeds\<close>

text \<open>The seeds whose files depend on a seed.\<close>

definition seeds_of :: "evr_claim_ref \<Rightarrow> inodes \<Rightarrow> evr_claim_ref set" where
  "seeds_of seed ino = {if_seed fl |n fl. linked ino n \<and> ino_type (ino ! n) = Type_file \<and> ino_file (ino ! n) = Some fl \<and> inode_affected seed fl}"

definition affected_inode :: "evr_claim_ref \<Rightarrow> evr_inode \<Rightarrow> bool" where
  "affected_inode seed nd = (ino_type nd = Type_file \<and> (case ino_file nd of None \<Rightarrow> False | Some fl \<Rightarrow> inode_affected seed fl))"

lemma iter_collect_all: "llbuf_s_repr llb xs \<Longrightarrow> iter_collect (child_count llb) llb (evr_init_llbuf_s_iter llb) = Some xs"
  using iter_collect_repr [of llb xs 0 "child_count llb" "evr_init_llbuf_s_iter llb"]
  by (simp add: evr_init_llbuf_s_iter_def llbuf_s_repr_def)

lemma collect_affected_loop_repr:
  assumes "\<forall>n\<in>set ns. ino_type (ino ! n) = Type_file \<longrightarrow> ino_file (ino ! n) \<noteq> None" "llbuf_s_repr acc xs"
  shows "\<exists>r acc'. collect_affected_loop mem seed ino ns acc = Ret (r, acc') \<and> ((\<forall>n. mem n) \<longrightarrow> r = Evr_ok) \<and>
    (r = Evr_ok \<longrightarrow> llbuf_s_repr acc' (xs @ filter (\<lambda>n. affected_inode seed (ino ! n)) ns))"
  using assms
proof (induction ns arbitrary: acc xs)
  case (Cons n ns)
  show ?case
  proof (cases "affected_inode seed (ino ! n)")
    case False
    then have "collect_affected_loop mem seed ino (n # ns) acc = collect_affected_loop mem seed ino ns acc"
      using Cons.prems(1) by (auto simp: affected_inode_def split: option.splits)
    then show ?thesis using Cons.IH [of acc xs] Cons.prems False by simp
  next
    case True
    obtain r acc1 where ap: "evr_llbuf_s_append (mem n) acc n = (r, acc1)" by fastforce
    have eq: "collect_affected_loop mem seed ino (n # ns) acc = (if r \<noteq> Evr_ok then Ret (Evr_error, acc1) else collect_affected_loop mem seed ino ns acc1)"
      using True ap by (auto simp: affected_inode_def split: option.splits)
    show ?thesis
    proof (cases "r = Evr_ok")
      case False
      then have "\<not> mem n" using ap llbuf_s_append_ok [of acc n] by (cases "mem n") auto
      then show ?thesis using eq False by auto
    next
      case ok: True
      then have "llbuf_s_repr acc1 (xs @ [n])" using llbuf_s_append_repr [OF Cons.prems(2)] ap by blast
      from Cons.IH [OF _ this] Cons.prems(1) eq ok True show ?thesis by auto
    qed
  qed
qed auto

lemma affected_seeds_loop_repr:
  assumes "\<forall>n\<in>set ns. n < length ino \<and> (\<exists>fl. ino_file (ino ! n) = Some fl \<and> length (if_seed fl) = evr_claim_ref_size)"
    "tiny_set_inv st" "set (refs st) \<subseteq> set xs" "llbuf_s_repr acc xs"
  shows "\<exists>r acc'. affected_seeds_loop mem ino ns st acc = Ret (r, acc') \<and> ((\<forall>n. mem n) \<longrightarrow> r = Evr_ok) \<and>
    (r = Evr_ok \<longrightarrow> (\<exists>ss. llbuf_s_repr acc' (xs @ ss) \<and> set (xs @ ss) = set xs \<union> {if_seed (the (ino_file (ino ! n))) |n. n \<in> set ns}))"
  using assms
proof (induction ns arbitrary: st acc xs)
  case Nil
  then show ?case by (intro exI [of _ Evr_ok] exI [of _ acc]) (auto intro: exI [of _ "[]"])
next
  case (Cons n ns)
  then obtain fl where fl: "ino_file (ino ! n) = Some fl" "length (if_seed fl) = evr_claim_ref_size" "n < length ino" by auto
  let ?s = "if_seed fl"
  obtain c st1 where add: "evr_claim_ref_tiny_set_add st ?s = (c, st1)" by fastforce
  note sp = tiny_set_add_spec [OF Cons.prems(2) fl(2) add]
  have un: "{if_seed (the (ino_file (ino ! k))) |k. k \<in> set (n # ns)} = insert ?s {if_seed (the (ino_file (ino ! k))) |k. k \<in> set ns}"
    using fl(1) by force
  show ?case
  proof (cases "c = Evr_exists")
    case True
    then have "?s \<in> set xs" "set (refs st1) \<subseteq> set xs" using sp Cons.prems(3) by (auto split: if_splits)
    moreover from this have "\<exists>r acc'. affected_seeds_loop mem ino ns st1 acc = Ret (r, acc') \<and> ((\<forall>n. mem n) \<longrightarrow> r = Evr_ok) \<and>
      (r = Evr_ok \<longrightarrow> (\<exists>ss. llbuf_s_repr acc' (xs @ ss) \<and> set (xs @ ss) = set xs \<union> {if_seed (the (ino_file (ino ! n))) |n. n \<in> set ns}))"
      by (intro Cons.IH) (use Cons.prems sp in auto)
    ultimately show ?thesis using fl add True un by (auto simp: insert_absorb)
  next
    case False
    obtain ra acc1 where ap: "evr_llbuf_s_append (mem n) acc ?s = (ra, acc1)" by fastforce
    have eq: "affected_seeds_loop mem ino (n # ns) st acc = (if ra \<noteq> Evr_ok then Ret (Evr_error, acc1) else affected_seeds_loop mem ino ns st1 acc1)"
      using fl add False ap by simp
    show ?thesis
    proof (cases "ra = Evr_ok")
      case no: False
      then have "\<not> mem n" using ap llbuf_s_append_ok [of acc ?s] by (cases "mem n") auto
      then show ?thesis using eq no by auto
    next
      case True
      have r1: "llbuf_s_repr acc1 (xs @ [?s])" using llbuf_s_append_repr [OF Cons.prems(4)] ap True by blast
      have sub: "set (refs st1) \<subseteq> set (xs @ [?s])" using sp Cons.prems(3) False by (auto split: if_splits)
      have ns: "\<forall>n\<in>set ns. n < length ino \<and> (\<exists>fl. ino_file (ino ! n) = Some fl \<and> length (if_seed fl) = evr_claim_ref_size)" using Cons.prems(1) by simp
      have ti: "tiny_set_inv st1" using sp by simp
      obtain r acc' where rec: "affected_seeds_loop mem ino ns st1 acc1 = Ret (r, acc')" "(\<forall>n. mem n) \<longrightarrow> r = Evr_ok"
        "r = Evr_ok \<longrightarrow> (\<exists>ss. llbuf_s_repr acc' ((xs @ [?s]) @ ss) \<and> set ((xs @ [?s]) @ ss) = set (xs @ [?s]) \<union> {if_seed (the (ino_file (ino ! n))) |n. n \<in> set ns})"
        using Cons.IH [OF ns ti sub r1] by (elim exE conjE) (rule that)
      have "\<exists>ss. llbuf_s_repr acc' (xs @ ss) \<and> set (xs @ ss) = set xs \<union> {if_seed (the (ino_file (ino ! k))) |k. k \<in> set (n # ns)}" if ok: "r = Evr_ok"
      proof -
        obtain ss where "llbuf_s_repr acc' ((xs @ [?s]) @ ss)" "set ((xs @ [?s]) @ ss) = set (xs @ [?s]) \<union> {if_seed (the (ino_file (ino ! n))) |n. n \<in> set ns}"
          using rec(3) ok by blast
        then show ?thesis unfolding un by (intro exI [of _ "?s # ss"]) auto
      qed
      then show ?thesis using eq True rec(1,2) by auto
    qed
  qed
qed

section \<open>Properties\<close>

text \<open>
  C25: after a seed was visited its files are exactly those of its description. When the description has a file set,
  every copy of a name succeeds and the table of inodes, doubled for each name of the paths, has at most \<open>2 ^ 31\<close> entries, the
  visit returns and leaves a tree whose files have their data; it succeeds when the dependent seeds can be collected and no other
  allocation fails. When it succeeds, the inodes of the seed are one new inode for each file that could be parsed, with its path, times,
  size, reference and the seeds it depends on, and every other file keeps its path and data.
\<close>

theorem visit_seed_rebuilds:
  assumes "inodes_inv ino" "files_set ino" "\<forall>i j. mem_name (m i j)" "length ino * 2 ^ path_names (parsed_files fns) \<le> 2 ^ 31"
  shows "\<exists>r ino'. evr_populate_inode_set_visit_seed junk malloc raw mem m True sync_ok (Some (sds, Some (Some fns))) seed ino = Some (Ret (r, ino')) \<and>
    inodes_inv ino' \<and> files_set ino' \<and>
    (evr_collect_dependent_seeds malloc raw sds seed \<noteq> None \<and> (\<forall>i j. mem i \<and> mem_inodes (m i j) \<and> mem_children (m i j)) \<longrightarrow>
       r = Evr_ok) \<and>
    (r = Evr_ok \<longrightarrow> (\<exists>ds news. evr_collect_dependent_seeds malloc raw sds seed = Some ds \<and>
       list_all2 (file_inode seed ds ino') news (parsed_files fns) \<and> distinct news \<and>
       (\<forall>n. linked ino' n \<and> of_seed seed (ino' ! n) \<longleftrightarrow> n \<in> set news) \<and>
       (\<forall>n ps. inode_path ino n ps \<and> ino_type (ino ! n) \<noteq> Type_dir \<and> \<not> of_seed seed (ino ! n) \<longrightarrow>
          inode_path ino' n ps \<and> same_inode (ino' ! n) (ino ! n))))"
proof (cases "evr_collect_dependent_seeds malloc raw sds seed")
  case None
  then show ?thesis using assms(1,2) by (auto simp: evr_populate_inode_set_visit_seed_def)
next
  case (Some ds)
  obtain ino1 where r1: "evr_inode_remove_by_seed True ino seed = Some (Ret ino1)" "kept {n. linked ino n \<and> of_seed seed (ino ! n)} ino ino1"
    using remove_by_seed_all [OF assms(1,2)] by blast
  note k = keptD [OF r1(2)]
  have b: "length ino1 * 2 ^ path_names (parsed_files fns) \<le> 2 ^ 31" using assms(4) k(3) by simp
  obtain r ino' where p: "populate_loop junk mem m seed ds 0 fns ino1 = Ret (r, ino')" "inodes_inv ino'" "files_set ino'"
    "r = Evr_ok \<longrightarrow> (\<exists>news. built seed ds ino1 news (parsed_files fns) ino')"
    "(\<forall>i j. mem i \<and> mem_inodes (m i j) \<and> mem_children (m i j)) \<longrightarrow> r = Evr_ok"
    using populate_loop_builds [OF k(1,2) assms(3) b, of junk mem seed ds 0] by (elim exE conjE) (rule that)
  have "evr_populate_inode_set_visit_seed junk malloc raw mem m True sync_ok (Some (sds, Some (Some fns))) seed ino = Some (Ret (r, ino'))"
    using Some r1(1) p(1) by (simp add: evr_populate_inode_set_visit_seed_def sync_ok_def)
  moreover have "\<exists>news. list_all2 (file_inode seed ds ino') news (parsed_files fns) \<and> distinct news \<and>
       (\<forall>n. linked ino' n \<and> of_seed seed (ino' ! n) \<longleftrightarrow> n \<in> set news) \<and>
       (\<forall>n ps. inode_path ino n ps \<and> ino_type (ino ! n) \<noteq> Type_dir \<and> \<not> of_seed seed (ino ! n) \<longrightarrow>
          inode_path ino' n ps \<and> same_inode (ino' ! n) (ino ! n))" if ok: "r = Evr_ok"
  proof -
    obtain news where bt: "built seed ds ino1 news (parsed_files fns) ino'" using p(4) ok by blast
    then obtain S where S: "grown S ino1 ino'" by (auto simp: built_def)
    have "inode_path ino' n ps \<and> same_inode (ino' ! n) (ino ! n)"
      if n: "inode_path ino n ps" "ino_type (ino ! n) \<noteq> Type_dir" "\<not> of_seed seed (ino ! n)" for n ps
    proof -
      have l: "linked ino1 n" using k(8) path_linked [OF n(1)] n(2,3) by blast
      show ?thesis using k(7) [OF l n(1)] grownD(6) [OF S] same_inode_trans [OF grownD(5) [OF S l] k(6) [OF l]] by blast
    qed
    moreover have "list_all2 (file_inode seed ds ino') news (parsed_files fns)" "distinct news" using bt by (simp_all add: built_def)
    ultimately show ?thesis using built_of_seed [OF r1(2) bt] by blast
  qed
  ultimately show ?thesis using p(2,3,5) Some by blast
qed

definition demo_files :: "evr_fs_file option list" where
  "demo_files = [Some \<lparr>ff_path = ''a/c'', ff_file_ref = replicate 30 5, ff_size = 7, ff_created = 1, ff_last_modified = 2\<rparr>, None,
     Some \<lparr>ff_path = ''d'', ff_file_ref = replicate 30 6, ff_size = 8, ff_created = 3, ff_last_modified = 4\<rparr>]"

theorem visit_seed_rebuilds_witness:
  "\<exists>ino' n1 n2. evr_populate_inode_set_visit_seed (\<lambda>_. demo_inode) True (replicate 30 0) (\<lambda>_. True)
      (\<lambda>_ _. \<lparr>mem_inodes = True, mem_children = True, mem_name = True\<rparr>) True sync_ok (Some (Some [], Some (Some demo_files)))
      (replicate 30 2) demo_inodes = Some (Ret (Evr_ok, ino')) \<and>
    inode_path ino' n1 [''a'', ''c''] \<and> inode_path ino' n2 [''d''] \<and>
    (\<forall>n. linked ino' n \<and> of_seed (replicate 30 2) (ino' ! n) \<longleftrightarrow> n = n1 \<or> n = n2)"
proof -
  let ?m = "\<lambda>_ _. \<lparr>mem_inodes = True, mem_children = True, mem_name = True\<rparr>"
  have "path_names (parsed_files demo_files) = 3" by (simp add: path_names_def demo_files_def)
  then have "length demo_inodes * 2 ^ path_names (parsed_files demo_files) \<le> 2 ^ 31" by (simp add: demo_at)
  from visit_seed_rebuilds [OF demo_inodes_inv _ this, of ?m "\<lambda>_. demo_inode" True "replicate 30 0" "\<lambda>_. True" "Some []" "replicate 30 2"]
  obtain ino' ds news where v: "evr_populate_inode_set_visit_seed (\<lambda>_. demo_inode) True (replicate 30 0) (\<lambda>_. True) ?m True sync_ok
      (Some (Some [], Some (Some demo_files))) (replicate 30 2) demo_inodes = Some (Ret (Evr_ok, ino'))"
    "list_all2 (file_inode (replicate 30 2) ds ino') news (parsed_files demo_files)"
    "\<forall>n. linked ino' n \<and> of_seed (replicate 30 2) (ino' ! n) \<longleftrightarrow> n \<in> set news"
    by (auto simp: evr_collect_dependent_seeds_def)
  then obtain n1 n2 where "news = [n1, n2]" "inode_path ino' n1 [''a'', ''c'']" "inode_path ino' n2 [''d'']"
    by (auto simp: demo_files_def list_all2_Cons2 file_inode_def)
  with v show ?thesis by auto
qed

text \<open>
  A change of a seed reaches every file that depends on it. When memory is to be had, the seeds collected for a changed
  seed begin with the seed, and they are it and the seeds of all files that were built from it or that name it among the seeds they
  depend on.
\<close>

theorem affected_seeds_complete:
  assumes "files_set ino" "length seed = evr_claim_ref_size"
    "\<forall>n fl. linked ino n \<and> ino_file (ino ! n) = Some fl \<longrightarrow> length (if_seed fl) = evr_claim_ref_size"
  shows "\<exists>acc ss. evr_collect_affected_seeds page_size sync_ok (\<lambda>_. True) True (\<lambda>_. True) ino seed (evr_init_llbuf_s page_size evr_claim_ref_size) = Ret (Evr_ok, acc) \<and>
    iter_collect (child_count acc) acc (evr_init_llbuf_s_iter acc) = Some (seed # ss) \<and> set (seed # ss) = insert seed (seeds_of seed ino)"
proof -
  let ?ns = "[FUSE_ROOT_ID..<length ino]" and ?af = "\<lambda>n. affected_inode seed (ino ! n)"
  have lk: "n \<in> set ?ns \<and> ino_type (ino ! n) = Type_file \<longleftrightarrow> linked ino n \<and> ino_type (ino ! n) = Type_file" for n
    by (auto simp: FUSE_ROOT_ID_def linked_def)
  have "\<forall>n\<in>set ?ns. ino_type (ino ! n) = Type_file \<longrightarrow> ino_file (ino ! n) \<noteq> None" using lk assms(1) unfolding files_set_def by blast
  from collect_affected_loop_repr [OF this llbuf_s_init_repr [of page_size 8], of "\<lambda>_. True" seed] obtain aff where
    aff: "evr_collect_affected_inodes (\<lambda>_. True) (evr_init_llbuf_s page_size 8) ino seed = Ret (Evr_ok, aff)" "llbuf_s_repr aff (filter ?af ?ns)"
    by (auto simp: evr_collect_affected_inodes_def)
  define st where "st = evr_reset_claim_ref_tiny_set \<lparr>refs_len = 128, refs = [], hash_set = []\<rparr>"
  have st: "tiny_set_inv st" "refs st = []" "refs_len st = 128"
    unfolding st_def by (rule tiny_set_inv_reset) (simp_all add: evr_reset_claim_ref_tiny_set_def)
  obtain c st1 where add: "evr_claim_ref_tiny_set_add st seed = (c, st1)" by fastforce
  have s1: "c = Evr_ok" "tiny_set_inv st1" "set (refs st1) \<subseteq> set [seed]" using tiny_set_add_spec [OF st(1) assms(2) add] st(2,3) by auto
  obtain acc1 where ap: "evr_llbuf_s_append True (evr_init_llbuf_s page_size evr_claim_ref_size) seed = (Evr_ok, acc1)"
    using llbuf_s_append_ok by (metis prod.collapse)
  have r1: "llbuf_s_repr acc1 [seed]" using llbuf_s_append_repr [OF llbuf_s_init_repr ap] by simp
  have ns: "\<forall>n\<in>set (filter ?af ?ns). n < length ino \<and> (\<exists>fl. ino_file (ino ! n) = Some fl \<and> length (if_seed fl) = evr_claim_ref_size)"
    using assms(3) lk by (auto simp: affected_inode_def linked_def FUSE_ROOT_ID_def split: option.splits)
  obtain acc' ss where l: "affected_seeds_loop (\<lambda>_. True) ino (filter ?af ?ns) st1 acc1 = Ret (Evr_ok, acc')" "llbuf_s_repr acc' ([seed] @ ss)"
    "set ([seed] @ ss) = set [seed] \<union> {if_seed (the (ino_file (ino ! n))) |n. n \<in> set (filter ?af ?ns)}"
    using affected_seeds_loop_repr [OF ns s1(2,3) r1, of "\<lambda>_. True"] by auto
  have "{if_seed (the (ino_file (ino ! n))) |n. n \<in> set (filter ?af ?ns)} = seeds_of seed ino"
    using lk by (auto simp: seeds_of_def affected_inode_def split: option.splits) (metis option.sel)+
  moreover have "evr_collect_affected_seeds page_size sync_ok (\<lambda>_. True) True (\<lambda>_. True) ino seed (evr_init_llbuf_s page_size evr_claim_ref_size) = Ret (Evr_ok, acc')"
    using aff(1) iter_collect_all [OF aff(2)] add s1(1) ap l(1) assms(2)
    by (simp add: evr_collect_affected_seeds_def sync_ok_def evr_create_claim_ref_tiny_set_def st_def)
  ultimately show ?thesis using iter_collect_all [OF l(2)] l(3) by (intro exI [of _ acc'] exI [of _ ss]) simp
qed

theorem affected_seeds_complete_witness:
  "\<exists>acc ss. evr_collect_affected_seeds 4096 sync_ok (\<lambda>_. True) True (\<lambda>_. True) demo_inodes (replicate 30 2) (evr_init_llbuf_s 4096 evr_claim_ref_size) = Ret (Evr_ok, acc) \<and>
    iter_collect (child_count acc) acc (evr_init_llbuf_s_iter acc) = Some (replicate 30 2 # ss)"
proof -
  have "\<forall>n fl. linked demo_inodes n \<and> ino_file (demo_inodes ! n) = Some fl \<longrightarrow> length (if_seed fl) = evr_claim_ref_size"
    using demo_linked demo_at by (auto simp: demo_inode_def demo_inode_file_def evr_layout)
  from affected_seeds_complete [OF demo_inodes_inv(2) _ this, of "replicate 30 2" 4096] show ?thesis by (auto simp: evr_layout)
qed

text \<open>
  C29: a lookup resolves a name. In a directory with a path it replies with an inode whose path is the
  path of the directory extended by the name, with its number in the attributes, or, exactly when no inode has that path,
  with the error that there is none.
\<close>

theorem lookup_resolves_path:
  assumes "inodes_inv ino" "files_set ino" "is_dir ino p" "inode_path ino p ps"
  shows "(\<exists>c st. evr_fs_lookup uid gid sync_ok True ino p name = Ret (Reply_entry c st) \<and> inode_path ino c (ps @ [name]) \<and> st_ino st = c) \<or>
    (evr_fs_lookup uid gid sync_ok True ino p name = Ret (Reply_err enoent) \<and> (\<nexists>c. inode_path ino c (ps @ [name]) \<and> ino_parent (ino ! c) = p \<and> c \<noteq> FUSE_ROOT_ID))"
proof -
  have loop: "(\<exists>c st. lookup_loop uid gid True ino name cs = Ret (Reply_entry c st) \<and> inode_path ino c (ps @ [name]) \<and> st_ino st = c) \<or>
      (lookup_loop uid gid True ino name cs = Ret (Reply_err enoent) \<and> (\<forall>c\<in>set cs. ino_name (ino ! c) \<noteq> Some name))"
    if "set cs \<subseteq> set (ino_children (ino ! p))" for cs
    using that
  proof (induction cs)
    case (Cons c cs)
    have c: "linked ino c" "c \<noteq> 1" "ino_parent (ino ! c) = p" using inv_child [OF assms(1,3), of c] Cons.prems by auto
    obtain qs where "inode_path ino c qs" using inv_path [OF assms(1) c(1)] by blast
    then obtain nm where nm: "ino_name (ino ! c) = Some nm" using path_stepE c(2) by metis
    show ?case
    proof (cases "nm = name")
      case True
      have p: "inode_path ino c (ps @ [name])" using path_step [of ino c ps name] assms(4) c nm True by simp
      have "\<exists>st. evr_fs_stat uid gid True ino c = Ret (Inr st) \<and> st_ino st = c"
        using c(1) assms(2) by (cases "ino_type (ino ! c)")
          (auto simp: evr_fs_stat_def get_inode_linked linked_def files_set_def split: option.splits)
      then show ?thesis using p nm True c(1) by (auto simp: reply_def linked_def)
    next
      case False
      then show ?thesis using Cons nm c(1) by (auto simp: linked_def)
    qed
  qed (simp add: reply_def)
  have lk: "evr_fs_lookup uid gid sync_ok True ino p name = lookup_loop uid gid True ino name (ino_children (ino ! p))"
    using assms(3) by (simp add: evr_fs_lookup_def get_inode_linked)
  have none: "\<nexists>c. inode_path ino c (ps @ [name]) \<and> ino_parent (ino ! c) = p \<and> c \<noteq> FUSE_ROOT_ID" if n: "\<forall>c\<in>set (ino_children (ino ! p)). ino_name (ino ! c) \<noteq> Some name"
  proof
    assume "\<exists>c. inode_path ino c (ps @ [name]) \<and> ino_parent (ino ! c) = p \<and> c \<noteq> FUSE_ROOT_ID"
    then obtain c where c: "inode_path ino c (ps @ [name])" "ino_parent (ino ! c) = p" "c \<noteq> 1" by (auto simp: FUSE_ROOT_ID_def)
    have "c \<in> set (ino_children (ino ! p))" using inv_parent [OF assms(1) path_linked [OF c(1)] c(3)] c(2) by simp
    moreover have "ino_name (ino ! c) = Some name" using path_stepE [OF c(1,3)] by (metis append1_eq_conv)
    ultimately show False using n by blast
  qed
  from loop [OF order_refl] lk none show ?thesis by auto
qed

theorem lookup_resolves_path_witness:
  "\<exists>c st. evr_fs_lookup 0 0 sync_ok True demo_inodes 2 ''b'' = Ret (Reply_entry c st) \<and> inode_path demo_inodes c [''a'', ''b'']"
proof -
  have "is_dir demo_inodes 2" using demo_linked demo_at by (simp add: demo_inode_def)
  moreover have "ino_parent (demo_inodes ! 3) = 2" by (simp only: demo_at) simp
  ultimately show ?thesis using lookup_resolves_path [OF demo_inodes_inv _ demo_paths(2), of 0 0 "''b''"] demo_paths(3)
    by (auto simp: FUSE_ROOT_ID_def)
qed

text \<open>The listing of a directory: each entry tells the offset behind it.\<close>

primrec listing :: "(string \<Rightarrow> nat \<Rightarrow> nat \<Rightarrow> bytes) \<Rightarrow> (string \<times> nat) list \<Rightarrow> bytes \<Rightarrow> bytes" where
  "listing dirent [] acc = acc"
| "listing dirent (e # es) acc = listing dirent es (acc @ dirent (fst e) (snd e) (length acc + length (dirent (fst e) (snd e) 0)))"

lemma add_direntry_all:
  assumes "\<And>name n off. length (dirent name n off) = dirent_size name"
  shows "\<exists>d'. evr_add_direntry dirent_size dirent True d name n = Some d' \<and>
    da_data d' = da_data d @ dirent name n (length (da_data d) + length (dirent name n 0))"
  by (auto simp: evr_add_direntry_def grow_dynamic_array_at_least_def da_size_used_def assms Let_def split: option.splits)

lemma readdir_loop_lists:
  assumes sz: "\<And>name n off. length (dirent name n off) = dirent_size name"
    and cs: "\<forall>c\<in>set cs. c < length ino \<and> ino_name (ino ! c) \<noteq> None"
  shows "\<exists>d'. readdir_loop dirent_size dirent (\<lambda>_. True) ino cs d = Ret (Some d') \<and>
    da_data d' = listing dirent (map (\<lambda>c. (the (ino_name (ino ! c)), c)) cs) (da_data d)"
  using cs
proof (induction cs arbitrary: d)
  case (Cons c cs)
  then obtain nm where nm: "ino_name (ino ! c) = Some nm" "c < length ino" by auto
  obtain d1 where d1: "evr_add_direntry dirent_size dirent True d nm c = Some d1"
    "da_data d1 = da_data d @ dirent nm c (length (da_data d) + length (dirent nm c 0))"
    using add_direntry_all [where dirent = dirent and dirent_size = dirent_size, OF sz] by blast
  from Cons.IH [of d1] Cons.prems obtain d' where "readdir_loop dirent_size dirent (\<lambda>_. True) ino cs d1 = Ret (Some d')"
    "da_data d' = listing dirent (map (\<lambda>c. (the (ino_name (ino ! c)), c)) cs) (da_data d1)" by auto
  with d1 nm show ?case by simp
qed simp

text \<open>
  A directory lists itself, its parent and its children, once each and in order. When the
  size of an entry of FUSE depends on the name alone and there is memory, the reply is the requested window of
  the listing.
\<close>

theorem readdir_lists_children:
  assumes "inodes_inv ino" "is_dir ino p" "\<And>name n off. length (dirent name n off) = dirent_size name"
  shows "distinct (ino_children (ino ! p)) \<and> (\<forall>c. c \<in> set (ino_children (ino ! p)) \<longleftrightarrow> linked ino c \<and> c \<noteq> FUSE_ROOT_ID \<and> ino_parent (ino ! c) = p) \<and>
    evr_fs_readdir page_size dirent_size dirent (\<lambda>_. True) True sync_ok True ino p n off =
      Ret (Reply_buf (take n (drop off (listing dirent
        ((''.'', p) # (''..'', ino_parent (ino ! p)) # map (\<lambda>c. (the (ino_name (ino ! c)), c)) (ino_children (ino ! p))) []))))"
proof -
  let ?cs = "ino_children (ino ! p)"
  have ch: "c \<in> set ?cs \<longleftrightarrow> linked ino c \<and> c \<noteq> FUSE_ROOT_ID \<and> ino_parent (ino ! c) = p" for c
    using inv_child [OF assms(1,2), of c] inv_parent [OF assms(1), of c] by (auto simp: FUSE_ROOT_ID_def)
  have nm: "\<forall>c\<in>set ?cs. c < length ino \<and> ino_name (ino ! c) \<noteq> None"
  proof
    fix c
    assume "c \<in> set ?cs"
    then have c: "linked ino c" "c \<noteq> 1" using ch by (auto simp: FUSE_ROOT_ID_def)
    obtain qs where "inode_path ino c qs" using inv_path [OF assms(1) c(1)] by blast
    then show "c < length ino \<and> ino_name (ino ! c) \<noteq> None" using path_stepE [OF _ c(2)] c(1) by (metis linked_def option.distinct(1))
  qed
  let ?d0 = "\<lparr>size_allocated = page_size - sizeof_dynamic_array, da_data = []\<rparr>"
  note add = add_direntry_all [where dirent = dirent and dirent_size = dirent_size, OF assms(3)]
  obtain d1 where d1: "evr_add_direntry dirent_size dirent True ?d0 ''.'' p = Some d1"
    "da_data d1 = da_data ?d0 @ dirent ''.'' p (length (da_data ?d0) + length (dirent ''.'' p 0))" using add by blast
  obtain d2 where d2: "evr_add_direntry dirent_size dirent True d1 ''..'' (ino_parent (ino ! p)) = Some d2"
    "da_data d2 = da_data d1 @ dirent ''..'' (ino_parent (ino ! p)) (length (da_data d1) + length (dirent ''..'' (ino_parent (ino ! p)) 0))" using add by blast
  obtain d3 where d3: "readdir_loop dirent_size dirent (\<lambda>_. True) ino ?cs d2 = Ret (Some d3)"
    "da_data d3 = listing dirent (map (\<lambda>c. (the (ino_name (ino ! c)), c)) ?cs) (da_data d2)"
    using readdir_loop_lists [where dirent = dirent and dirent_size = dirent_size, OF assms(3) nm] by blast
  have w: "take (min (length b - off) n) (drop off b) = take n (drop off b)" for b :: bytes
    by (auto simp: min_def)
  have "evr_fs_readdir page_size dirent_size dirent (\<lambda>_. True) True sync_ok True ino p n off = Ret (Reply_buf (take n (drop off (da_data d3))))"
    using assms(2) d1(1) d2(1) d3(1) w [of "da_data d3"]
    by (simp add: evr_fs_readdir_def get_inode_linked alloc_dynamic_array_def reply_def da_size_used_def)
  then show ?thesis using ch inv_distinct [OF assms(1,2)] d1(2) d2(2) d3(2) by simp
qed

theorem readdir_lists_children_witness:
  "evr_fs_readdir 4096 (\<lambda>name. length name) (\<lambda>name n off. map (\<lambda>_. word_of_nat n) name) (\<lambda>_. True) True sync_ok True demo_inodes 2 100 0 =
    Ret (Reply_buf [2, 1, 1, 3])"
proof -
  have "is_dir demo_inodes 2" using demo_linked demo_at by (simp add: demo_inode_def)
  moreover have "ino_children (demo_inodes ! 2) = [3]" "ino_parent (demo_inodes ! 2) = 1" "ino_name (demo_inodes ! 3) = Some ''b''"
    by (simp_all only: demo_at) (simp_all add: demo_inode_def)
  ultimately show ?thesis
    using readdir_lists_children [OF demo_inodes_inv(1), of 2 "\<lambda>name n off. map (\<lambda>_. word_of_nat n) name" "\<lambda>name. length name" 4096 100 0] by simp
qed

text \<open>
  C26: reading a file of the virtual file system gives its bytes, whatever the server sends. When the
  references of the claim name their slices, the sizes in the claim are those of the slices and the cache is consistent, the
  reply to a read of an open file is the requested range of the concatenated slices, cut off at the end, or an
  error; nothing is read from outside the cached slice; and the cache stays consistent unless a handle for a digest can not
  be opened.
\<close>

theorem fs_read_replies_range:
  assumes "evr_socket rd wr stream sink valid" "valid (of_gc f)" "slices_of sha3_224 data (of_claim f)" "cache_ok data (of_claim f) f"
    "linked ino n" "ino_type (ino ! n) = Type_file" "fh < length ofs" "ofs ! fh = f"
    "evr_fs_read sha3_224 rd wr sync_ok k mem sync_ok reply_ok err_ok online ino n sz off fh ofs = x"
  shows "x \<noteq> Undef \<and> (\<forall>r ofs'. x = Ret (r, ofs') \<longrightarrow>
    (r = Reply_err einval \<or> r = Reply_buf (take sz (drop off (file_bytes data (of_claim f))))) \<and>
    (\<exists>f'. ofs' = ofs[fh := f'] \<and> of_claim f' = of_claim f \<and> valid (of_gc f') \<and> ((\<forall>i. sl_hd_open (k i)) \<longrightarrow> cache_ok data (of_claim f') f')))"
proof -
  obtain y b f' where rd: "evr_open_file_read sha3_224 rd wr sync_ok k f sz off = (y, b, f')" using prod_cases3 by blast
  note r = open_file_read_is_range [OF assms(1-4) rd]
  have "\<exists>f'. ofs = ofs[fh := f'] \<and> of_claim f' = of_claim f \<and> valid (of_gc f') \<and> ((\<forall>i. sl_hd_open (k i)) \<longrightarrow> cache_ok data (of_claim f') f')"
    using assms(2,4,7,8) by (intro exI [of _ f]) auto
  with r rd assms(5-9) show ?thesis
    by (cases y) (auto simp: evr_fs_read_def evr_fs_read_file_def get_inode_linked split: if_splits)
qed

theorem fs_read_replies_range_witness:
  "\<exists>f'. evr_fs_read demo_sha evr_file_fd_read evr_file_fd_write sync_ok (\<lambda>_. demo_slice_calls) True sync_ok True True True demo_inodes 3 5 1 0
      [demo_file\<lparr>of_cached_slice_buf := Some [1, 2, 3]\<rparr>] = Ret (Reply_buf [2, 3], [f'])"
proof -
  let ?f = "demo_file\<lparr>of_cached_slice_buf := Some [1, 2, 3]\<rparr>"
  have r: "evr_open_file_read demo_sha evr_file_fd_read evr_file_fd_write sync_ok (\<lambda>_. demo_slice_calls) ?f 5 1 = (Ret Evr_ok, [2, 3], ?f)"
    by (simp add: evr_open_file_read_def open_file_read_slice_def demo_file_def sync_ok_def Let_def)
  have c: "cache_ok demo_data (of_claim ?f) ?f" "slices_of demo_sha demo_data (of_claim ?f)"
    using demo_file_facts(1) by (simp_all add: cache_ok_def demo_file_def demo_data_def)
  have l: "linked demo_inodes 3" "ino_type (demo_inodes ! 3) = Type_file" using demo_linked demo_at(3) by simp_all
  have x: "evr_fs_read demo_sha evr_file_fd_read evr_file_fd_write sync_ok (\<lambda>_. demo_slice_calls) True sync_ok True True True demo_inodes 3 5 1 0 [?f] =
      Ret (Reply_buf [2, 3], [?f])" using r l by (simp add: evr_fs_read_def evr_fs_read_file_def get_inode_linked)
  from fs_read_replies_range [OF fd_sock.evr_socket_axioms TrueI c(2,1) l _ _ x] x show ?thesis by simp
qed

text \<open>
  C30: a file that disappears while it is open takes the file system down. After the removal of a file's
  inode, as it happens when its seed changes, a read of the open file, its release and an open of it use the inode that
  is not found without a check.
\<close>

theorem removed_file_is_dereferenced:
  assumes "inodes_inv ino" "files_set ino" "linked ino n" "ino_type (ino ! n) = Type_file" "evr_inode_remove True ino n = Some (Ret ino')"
  shows "evr_fs_read sha3_224 rd wr fsy k mem sync_ok reply_ok err_ok online ino' n sz off fh ofs = Undef \<and>
    evr_fs_release fsy close_ok unbound sync_ok reply_ok err_ok ino' n fh ofs = Undef \<and>
    evr_fs_open c unbound sync_ok reply_ok err_ok ino' n fh ofs = Undef"
proof -
  have "\<not> linked ino' n" using kept_remove_file [OF assms(1-3)] assms(4,5) keptD(5) by fastforce
  then have "evr_get_inode ino' n = None" by (simp add: get_inode_linked)
  then show ?thesis by (simp add: evr_fs_read_def evr_fs_release_def evr_fs_open_def)
qed

theorem removed_file_is_dereferenced_witness:
  "\<exists>ino'. evr_inode_remove True demo_inodes 3 = Some (Ret ino') \<and> evr_fs_release sync_ok True () sync_ok True True ino' 3 0 [] = Undef"
proof -
  have l: "linked demo_inodes 3" "ino_type (demo_inodes ! 3) = Type_file" using demo_linked demo_at(3) by simp_all
  then obtain ino' where "evr_inode_remove True demo_inodes 3 = Some (Ret ino')" using kept_remove_file [OF demo_inodes_inv l(1)] by auto
  with removed_file_is_dereferenced [OF demo_inodes_inv l this, where fsy = sync_ok and close_ok = True and unbound = "()" and reply_ok = True and err_ok = True and fh = 0 and ofs = "[]"]
  show ?thesis by auto
qed

end
