(* ===== verification/Glacier_Walk.thy ===== *)
theory Glacier_Walk
  imports Glacier_Index Glacier_Read
begin

text \<open>
  Walking the records of a bucket. \<open>bucket_stats\<close> is the reference: it reads the headers off
  the content of the file. The locale \<open>bucket_visit\<close> states what a visitor has to keep; under
  it the loop of \<^verbatim>\<open>evr_glacier_walk_bucket\<close> ends and folds the abstract step of the visitor over
  the records. The visitor that rebuilds the index is an instance.
\<close>

section \<open>The records of a bucket\<close>

function bucket_stats :: "bytes \<Rightarrow> nat \<Rightarrow> evr_glacier_bucket_blob_stat list \<times> bool" where
  "bucket_stats cont p =
    (if length cont \<le> p then ([], True)
     else case pull_blob_header (take evr_bucket_blob_header_size (drop p cont)) (p + evr_bucket_blob_header_size) of
         None \<Rightarrow> ([], False)
       | Some st \<Rightarrow>
          if length cont < p + evr_bucket_blob_header_size then ([], False)
          else (case bucket_stats cont (p + evr_bucket_blob_header_size + st_size st) of (xs, e) \<Rightarrow> (st # xs, e)))"
  by pat_completeness auto
termination by (relation "measure (\<lambda>(cont, p). length cont - p)") (auto simp: evr_layout)

declare bucket_stats.simps [simp del]

lemma bucket_stats_end: "length cont \<le> p \<Longrightarrow> bucket_stats cont p = ([], True)"
  by (simp add: bucket_stats.simps)

lemma bucket_stats_short: "p < length cont \<Longrightarrow> length cont < p + evr_bucket_blob_header_size \<Longrightarrow> bucket_stats cont p = ([], False)"
  by (simp add: bucket_stats.simps split: option.split)

lemma bucket_stats_step:
  assumes "p + evr_bucket_blob_header_size \<le> length cont"
    "pull_blob_header (take evr_bucket_blob_header_size (drop p cont)) (p + evr_bucket_blob_header_size) = Some st"
    "bucket_stats cont (p + evr_bucket_blob_header_size + st_size st) = (xs, e)"
  shows "bucket_stats cont p = (st # xs, e)"
proof -
  have "\<not> length cont \<le> p" using assms(1) by (simp add: evr_layout)
  with assms show ?thesis by (subst bucket_stats.simps) simp
qed

lemma read_n_counts:
  "read_n rd visited_bytes_counter_se f n ctx = (r, bs, ctx', f') \<Longrightarrow> ctx' = ctx + length bs"
proof (induction n arbitrary: f ctx bs r ctx' f' rule: less_induct)
  case (less n)
  note step = read_n.simps [of rd visited_bytes_counter_se f n ctx]
  obtain x f1 where x: "rd f n = (x, f1)" by fastforce
  show ?case
  proof (cases "\<exists>b. n > 0 \<and> x = Read_bytes b \<and> b \<noteq> []")
    case True
    then obtain b where b: "n > 0" "x = Read_bytes b" "b \<noteq> []" by auto
    obtain r2 rest c2 f2 where rec: "read_n rd visited_bytes_counter_se f1 (n - length b) (ctx + length b) = (r2, rest, c2, f2)"
      using prod_cases4 by blast
    have "visited_bytes_counter_se ctx b = (Evr_ok, ctx + length b)" by (simp add: visited_bytes_counter_se_def)
    with rec have eq: "bs = b @ rest" "ctx' = c2" using less.prems b x by (simp_all add: step)
    have "n - length b < n" using b by (cases b) auto
    from less.IH [OF this rec] eq show ?thesis by simp
  next
    case False
    with less.prems x show ?thesis by (cases x) (auto simp: step split: if_splits)
  qed
qed

text \<open>Reading \<open>n\<close> bytes moves the stream by \<open>n\<close>.\<close>

lemma read_n_moves:
  assumes "calls_ok w" "\<And>c b. fst (se c b) = Evr_ok" "read_n sys_read se (w, f) n ctx = (r, bs, ctx', (w', f'))"
  shows "drop (fd_off f') (content w (fd_id f)) = drop n (drop (fd_off f) (content w (fd_id f)))"
proof -
  have "bk_valid w (fd_id f) (w, f) \<and> calls_ok (fst (w, f))" using assms(1) by (simp add: bk_valid_def)
  from bk_rel.read_n_reliable [of se w "fd_id f" "(w, f)" n ctx, OF assms(2) this] assms(3) read_n_world [OF assms(3)]
  show ?thesis using same_world_fields(4) [of w w'] by (auto simp: bk_stream_def)
qed

lemma read_end_offset_calls_ok:
  assumes "calls_ok w" "7 \<le> length (content w (fd_id f))" "evr_read_bucket_end_offset w f = (e, w', f')"
  shows "e = Some (be_val (take 4 (drop 3 (content w (fd_id f))))) \<and> same_world w w' \<and> calls_ok w' \<and> fd_id f' = fd_id f \<and>
    drop (fd_off f') (content w (fd_id f)) = drop 7 (content w (fd_id f))"
proof -
  obtain ok w2 f2 where s: "sys_seek w f (length evr_bucket_magic_number) = (ok, w2, f2)" using prod_cases3 by blast
  note s' = sys_seek_same [OF s] and k = sys_seek_calls_ok [OF assms(1) s]
  obtain r bs u w3 f3 where rd: "read_n sys_read no_se (w2, f2) evr_bucket_end_offset_size () = (r, bs, u, (w3, f3))"
    by (metis surj_pair)
  have se: "fst (no_se x b) = Evr_ok" for x b by (simp add: no_se_def)
  have c2: "content w2 = content w" using s' same_world_fields(4) by blast
  have len: "length evr_bucket_magic_number = 3" "evr_bucket_end_offset_size = 4" by (simp_all add: length_magic evr_layout)
  from read_n_calls_ok [OF conjunct2 [OF k] se rd] s' k c2 assms(2) len
  have r: "r = Evr_ok" "calls_ok w3" "bs = take 4 (drop 3 (content w (fd_id f)))" by auto
  have d: "drop (fd_off f3) (content w (fd_id f)) = drop 7 (content w (fd_id f))"
    using read_n_moves [OF conjunct2 [OF k] se rd] s' k c2 unfolding len by simp
  have "(e, w', f') = (Some (be_val bs), w3, f3)"
    using assms(3) s k rd r(1) by (simp add: evr_read_bucket_end_offset_def)
  with r d read_n_world [OF rd] s' same_world_trans show ?thesis by auto
qed

section \<open>Visitors\<close>

text \<open>
  \<open>R a v w\<close> relates an abstract state to the state of the visitor and the world. The
  visitor may move descriptors and change the database, but keeps the content of the bucket.
\<close>

locale bucket_visit =
  fixes visit :: "('v, 'd) blob_visitor"
    and R :: "'a \<Rightarrow> 'v \<Rightarrow> 'd world \<Rightarrow> bool"
    and step :: "evr_glacier_bucket_blob_stat \<Rightarrow> 'a \<Rightarrow> 'a"
    and good :: "evr_glacier_bucket_blob_stat \<Rightarrow> bool"
    and i :: file_id and cont :: bytes
  assumes R_world: "R a v w \<Longrightarrow> calls_ok w \<and> w_files w i = Some cont"
    and R_same: "R a v w \<Longrightarrow> same_world w w' \<Longrightarrow> R a v w'"
    and R_visit: "R a v w \<Longrightarrow> good st \<Longrightarrow> \<exists>v' w'. visit v st w = (Ret Evr_ok, v', w') \<and> R (step st a) v' w'"
begin

lemma loop_folds:
  assumes "R a v w" "fd_id f = i" "drop (fd_off f) cont = drop p cont" "bucket_stats cont p = (sts, e)" "\<forall>st\<in>set sts. good st"
  shows "\<exists>v' w'. walk_bucket_loop visit p v (w, f) = Some (Ret (if e then Evr_ok else Evr_end), v', w') \<and>
    R (fold step sts a) v' w'"
  using assms
proof (induction "length cont - p" arbitrary: p v w f a sts rule: less_induct)
  case less
  note Rw = R_world [OF less.prems(1)]
  have cnt: "content w i = cont" using Rw by (simp add: content_def)
  obtain r bs vis w1 f1 where rd: "read_n sys_read visited_bytes_counter_se (w, f) evr_bucket_blob_header_size 0 =
      (r, bs, vis, (w1, f1))" by (metis surj_pair)
  have se: "fst (visited_bytes_counter_se c b) = Evr_ok" for c b by (simp add: visited_bytes_counter_se_def)
  from read_n_calls_ok [OF conjunct1 [OF Rw] se rd] less.prems(2,3) cnt
  have r: "calls_ok w1" "bs = take evr_bucket_blob_header_size (drop p cont)"
    "r = (if evr_bucket_blob_header_size \<le> length cont - p then Evr_ok else Evr_end)"
    by (auto simp flip: length_drop)
  note rw = read_n_world [OF rd]
  have R1: "R a v w1" using R_same less.prems(1) rw by blast
  have vis: "vis = length bs" using read_n_counts [OF rd] by simp
  note start = walk_bucket_loop.simps [of visit p v "(w, f)"] rd
  consider "length cont \<le> p" | "p < length cont" "length cont < p + evr_bucket_blob_header_size"
    | "p + evr_bucket_blob_header_size \<le> length cont" by linarith
  then show ?case
  proof cases
    case 1
    with less.prems(4) have "sts = []" "e" by (simp_all add: bucket_stats_end)
    moreover have "vis = 0" "r = Evr_end" using 1 r vis by (simp_all add: evr_layout)
    ultimately show ?thesis using R1 by (simp add: start)
  next
    case 2
    with less.prems(4) have "sts = []" "\<not> e" by (simp_all add: bucket_stats_short)
    moreover have "vis \<noteq> 0" "r = Evr_end" using 2 r vis by (auto simp: evr_layout)
    ultimately show ?thesis using R1 by (simp add: start)
  next
    case 3
    have "length bs = evr_bucket_blob_header_size" using 3 r(2) by simp
    from pull_blob_header_total [OF this, of "p + evr_bucket_blob_header_size"] obtain st where
      st: "pull_blob_header bs (p + evr_bucket_blob_header_size) = Some st" by blast
    let ?q = "p + evr_bucket_blob_header_size + st_size st"
    obtain xs e' where rest: "bucket_stats cont ?q = (xs, e')" by fastforce
    from bucket_stats_step [OF 3 st [unfolded r(2)] rest] less.prems(4) have sts: "sts = st # xs" "e' = e" by simp_all
    from R_visit [OF R1, of st] less.prems(5) sts obtain v2 w2 where
      v2: "visit v st w1 = (Ret Evr_ok, v2, w2)" "R (step st a) v2 w2" by auto
    obtain ok w3 f3 where s: "sys_seek w2 f1 ?q = (ok, w3, f3)" using prod_cases3 by blast
    have k3: "ok" "calls_ok w3" using sys_seek_calls_ok [OF conjunct1 [OF R_world [OF v2(2)]] s] by auto
    note s' = sys_seek_same [OF s]
    have R3: "R (step st a) v2 w3" using R_same v2(2) s' by blast
    have f3: "fd_id f3 = i" "drop (fd_off f3) cont = drop ?q cont" using s' k3 rw less.prems(2) by auto
    have lt: "length cont - ?q < length cont - p" using 3 by (simp add: evr_layout)
    from less.hyps [OF lt R3 f3 rest [unfolded sts(2)]] less.prems(5) sts obtain v' w' where
      "walk_bucket_loop visit ?q v2 (w3, f3) = Some (Ret (if e then Evr_ok else Evr_end), v', w')"
      "R (fold step xs (step st a)) v' w'" by auto
    moreover have "r = Evr_ok" using r(3) 3 by simp
    ultimately show ?thesis using st v2(1) s k3(1) sts(1) by (simp add: start)
  qed
qed

lemma walk_folds:
  assumes "R a v w" "i = File name" "7 \<le> length cont"
    "bucket_stats cont evr_bucket_header_size = (sts, whole)" "\<forall>st\<in>set sts. good st"
  shows "\<exists>v' w'. evr_glacier_walk_bucket name None visit v w = Some (Ret (if whole then Evr_ok else Evr_end), v', w') \<and>
    R (fold step sts a) v' w'"
proof -
  note Rw = R_world [OF assms(1)]
  obtain ok w1 where c: "sys_call w = (ok, w1)" by fastforce
  note w1 = sys_call_same [OF c]
  have o1: "ok" "calls_ok w1" using sys_call_calls_ok [OF conjunct1 [OF Rw] c] by auto
  let ?f = "\<lparr>fd_id = i, fd_off = 0\<rparr>"
  have op: "sys_open w name False = (Some ?f, w1)"
    using c o1 Rw assms(2) same_world_fields(1) [OF w1] by (simp add: sys_open_def)
  obtain eo w2 f2 where e: "evr_read_bucket_end_offset w1 ?f = (eo, w2, f2)" using prod_cases3 by blast
  have cnt: "content w1 i = cont" using Rw same_world_fields(4) [OF w1] by (simp add: content_def)
  from read_end_offset_calls_ok [OF o1(2) _ e] cnt assms(3) obtain n where
    w2: "eo = Some n" "same_world w1 w2" "fd_id f2 = i" "drop (fd_off f2) cont = drop 7 cont" by auto
  have R2: "R a v w2" using R_same [OF assms(1)] same_world_trans [OF w1 w2(2)] by blast
  from loop_folds [OF R2 w2(3), of evr_bucket_header_size] w2(4) assms(4,5) obtain v' w' where
    l: "walk_bucket_loop visit evr_bucket_header_size v (w2, f2) = Some (Ret (if whole then Evr_ok else Evr_end), v', w')"
    "R (fold step sts a) v' w'" by (auto simp: evr_layout)
  obtain ok3 w3 where c3: "sys_call w' = (ok3, w3)" by fastforce
  have "ok3" "R (fold step sts a) v' w3"
    using sys_call_ok [OF conjunct1 [OF R_world [OF l(2)]] c3] R_same [OF l(2) sys_call_same [OF c3]] by auto
  with op e w2(1) l(1) c3 show ?thesis by (simp add: evr_glacier_walk_bucket_def)
qed

end

section \<open>The visitor that rebuilds the index\<close>

definition reindex_row :: "nat \<Rightarrow> evr_glacier_bucket_blob_stat \<Rightarrow> blob_row" where
  "reindex_row n st =
    \<lparr>br_key = take evr_blob_ref_size (st_ref st), br_flags = st_flags st, br_bucket_index = word_of_nat n,
     br_offset = word_of_nat (st_offset st), br_size = word_of_nat (st_size st), br_last_modified = st_last_modified st\<rparr>"

definition stat_data :: "bytes \<Rightarrow> evr_glacier_bucket_blob_stat \<Rightarrow> bytes" where
  "stat_data cont st = take (st_size st) (drop (st_offset st) cont)"

text \<open>A record whose data has the digest it is stored under is added, unless the reference is known.\<close>

definition reindex_step ::
  "(bytes \<Rightarrow> bytes) \<Rightarrow> nat \<Rightarrow> bytes \<Rightarrow> evr_glacier_bucket_blob_stat \<Rightarrow> (bytes \<Rightarrow> blob_row option) \<Rightarrow> bytes \<Rightarrow> blob_row option" where
  "reindex_step sha3_224 n cont st m =
    (if evr_cmp_blob_ref_eq (st_ref st) (evr_blob_ref_final sha3_224 (stat_data cont st)) \<and>
        m (br_key (reindex_row n st)) = None
     then m(br_key (reindex_row n st) \<mapsto> reindex_row n st) else m)"

definition stat_whole :: "bytes \<Rightarrow> evr_glacier_bucket_blob_stat \<Rightarrow> bool" where
  "stat_whole cont st = (st_checksum_valid st = Evr_ok \<and> st_offset st + st_size st \<le> length cont)"

definition reindex_rel ::
  "('d \<Rightarrow> bytes \<Rightarrow> blob_row option) \<Rightarrow> ('d \<Rightarrow> 32 word \<Rightarrow> 32 word option) \<Rightarrow> evr_glacier_write_ctx \<Rightarrow> 'd world \<Rightarrow> file_id \<Rightarrow> bytes
   \<Rightarrow> (bytes \<Rightarrow> blob_row option) \<Rightarrow> evr_glacier_write_ctx \<Rightarrow> 'd world \<Rightarrow> bool" where
  "reindex_rel blobs buckets c0 w0 i cont m c w =
    (calls_ok w \<and> w_files w0 i = Some cont \<and> w_files w = w_files w0 \<and> w_dir w = w_dir w0 \<and>
     blobs (w_db w) = m \<and> buckets (w_db w) = buckets (w_db w0) \<and>
     (\<exists>f. fd_id f = i \<and> c = c0\<lparr>wc_bucket_f := Some f\<rparr>))"

context sqlite_reliable
begin

lemma add_blob_reliable:
  assumes "evr_glacier_add_blob_to_index S c w ref flags off sz t = (x, w')"
  defines "row \<equiv> \<lparr>br_key = take evr_blob_ref_size ref, br_flags = flags, br_bucket_index = word_of_nat (wc_bucket_index c),
     br_offset = word_of_nat off, br_size = word_of_nat sz, br_last_modified = t\<rparr>"
  shows "x = Ret Evr_ok \<and> same_world (w\<lparr>w_db := w_db w'\<rparr>) w' \<and> buckets (w_db w') = buckets (w_db w) \<and>
    blobs (w_db w') = (if blobs (w_db w) (br_key row) = None then (blobs (w_db w))(br_key row \<mapsto> row) else blobs (w_db w))"
proof -
  obtain res d where i: "ix_insert_blob S (w_db w) row = (res, d)" by fastforce
  have res: "res = Sql_done \<or> res = Sql_constraint" using insert_blob_ok [of "w_db w" row] i by simp
  then have x: "x = Ret Evr_ok" "w' = w\<lparr>w_db := d\<rparr>"
    using assms(1) i by (auto simp: evr_glacier_add_blob_to_index_def row_def)
  have "buckets d = buckets (w_db w) \<and> blobs d =
      (if blobs (w_db w) (br_key row) = None then (blobs (w_db w))(br_key row \<mapsto> row) else blobs (w_db w))"
    using res insert_blob_done [of "w_db w" row d] insert_blob_constraint [of "w_db w" row d] insert_blob_keeps [OF i] i by auto
  with x show ?thesis by simp
qed

lemma reindex_visit: "bucket_visit (evr_glacier_reindex_visit_blob S sha3_224) (reindex_rel blobs buckets c0 w0 i cont)
    (reindex_step sha3_224 (wc_bucket_index c0) cont) (stat_whole cont) i cont"
proof
  show "calls_ok w \<and> w_files w i = Some cont" if "reindex_rel blobs buckets c0 w0 i cont m c w" for m c w
    using that by (simp add: reindex_rel_def)
  show "reindex_rel blobs buckets c0 w0 i cont m c w'"
    if "reindex_rel blobs buckets c0 w0 i cont m c w" "same_world w w'" for m c w w'
    using that same_world_fields [OF that(2)] calls_ok_same [OF _ that(2)] by (simp add: reindex_rel_def)
  fix m c w st
  assume rel: "reindex_rel blobs buckets c0 w0 i cont m c w" and st: "stat_whole cont st"
  from rel obtain f where f: "fd_id f = i" "c = c0\<lparr>wc_bucket_f := Some f\<rparr>" and ok: "calls_ok w"
    and cnt: "content w i = cont" by (auto simp: reindex_rel_def content_def)
  obtain o1 w1 f1 where s: "sys_seek w f (st_offset st) = (o1, w1, f1)" using prod_cases3 by blast
  note s' = sys_seek_same [OF s] and k1 = sys_seek_calls_ok [OF ok s]
  obtain o2 w2 where c2: "sys_call w1 = (o2, w2)" by fastforce
  note k2 = sys_call_calls_ok [OF conjunct2 [OF k1] c2]
  have w2: "same_world w w2" using s' sys_call_same [OF c2] same_world_trans by blast
  have strm: "bk_stream (w2, f1) = drop (st_offset st) cont"
    using s' k1 f(1) cnt same_world_fields(4) [OF w2] by (simp add: bk_stream_def)
  have v: "bk_valid w i (w2, f1) \<and> calls_ok (fst (w2, f1))" using w2 s' f(1) k2 by (simp add: bk_valid_def)
  have len: "st_size st \<le> length (bk_stream (w2, f1))" using st strm by (auto simp: stat_whole_def)
  obtain r md w3 f3 where d: "dump_n_bytes sys_read evr_blob_ref_write_se (w2, f1) (st_size st) [] = (r, md, (w3, f3))"
    by (metis surj_pair)
  have d': "r = Evr_ok \<and> md = stat_data cont st \<and> bk_valid w i (w3, f3) \<and> calls_ok w3"
  proof (cases "st_size st = 0")
    case True
    with d v show ?thesis by (auto simp: stat_data_def)
  next
    case False
    have se: "evr_blob_ref_write_se a b = (Evr_ok, a @ b)" for a b
      by (simp add: evr_blob_ref_write_se_def evr_blob_ref_write_def)
    from bk_rel.dump_n_reliable [of evr_blob_ref_write_se w i "(w2, f1)", OF se v, of "min (st_size st) 4096" "st_size st" "[]"]
      False len d strm show ?thesis by (auto simp: stat_data_def)
  qed
  have w3: "same_world w w3" "fd_id f3 = i" using d' by (auto simp: bk_valid_def)
  let ?c3 = "c\<lparr>wc_bucket_f := Some f3\<rparr>"
  have c3: "?c3 = c0\<lparr>wc_bucket_f := Some f3\<rparr>" using f(2) by simp
  note run = evr_glacier_reindex_visit_blob_def s k1 c2 k2 d d'
  have rel3: "reindex_rel blobs buckets c0 w0 i cont m ?c3 w3"
    using rel same_world_fields [OF w3(1)] d' w3(2) c3 by (auto simp: reindex_rel_def)
  show "\<exists>v' w'. evr_glacier_reindex_visit_blob S sha3_224 c st w = (Ret Evr_ok, v', w') \<and>
      reindex_rel blobs buckets c0 w0 i cont (reindex_step sha3_224 (wc_bucket_index c0) cont st m) v' w'"
  proof (cases "evr_cmp_blob_ref_eq (st_ref st) (evr_blob_ref_final sha3_224 (stat_data cont st))")
    case False
    have "evr_glacier_reindex_visit_blob S sha3_224 c st w = (Ret Evr_ok, ?c3, w3)"
      using False st f(2) by (simp add: run stat_whole_def evr_blob_ref_hd_match_def Let_def)
    with False rel3 show ?thesis by (simp add: reindex_step_def)
  next
    case True
    obtain x w4 where a: "evr_glacier_add_blob_to_index S ?c3 w3 (st_ref st) (st_flags st) (st_offset st) (st_size st)
        (st_last_modified st) = (x, w4)" by fastforce
    note a' = add_blob_reliable [OF a]
    have idx: "wc_bucket_index ?c3 = wc_bucket_index c0" using f(2) by simp
    have "evr_glacier_reindex_visit_blob S sha3_224 c st w = (Ret Evr_ok, ?c3, w4)"
      using True st f(2) a a' by (simp add: run stat_whole_def evr_blob_ref_hd_match_def Let_def)
    moreover have "reindex_rel blobs buckets c0 w0 i cont (reindex_step sha3_224 (wc_bucket_index c0) cont st m) ?c3 w4"
      using rel3 a' True same_world_fields [of "w3\<lparr>w_db := w_db w4\<rparr>" w4]
      by (auto simp: reindex_rel_def reindex_step_def reindex_row_def calls_ok_def idx fun_eq_iff)
    ultimately show ?thesis by blast
  qed
qed

end

interpretation tbl_reindex: bucket_visit "evr_glacier_reindex_visit_blob table_ops sha3_224"
  "reindex_rel table_find table_bucket c0 w0 i cont" "reindex_step sha3_224 (wc_bucket_index c0) cont" "stat_whole cont" i cont
  for sha3_224 c0 w0 i cont
  by (rule tbl.reindex_visit)

end
