(* ===== verification/Glacier_Reindex.thy ===== *)
theory Glacier_Reindex
  imports Glacier_Walk
begin

text \<open>
  Rebuilding the index database from the bucket files. The rebuilt index holds exactly the
  references whose records lie in the buckets with a valid header and whose data has the digest
  they are stored under, and every row of it reads back such data.
\<close>

section \<open>File names\<close>

lemma hex_digits_hex: "\<forall>c\<in>set (hex_digits n). hex_digit c \<noteq> None"
  by (induction n rule: hex_digits.induct) (subst hex_digits.simps, auto)

lemma hex_digits_not_Nil: "hex_digits n \<noteq> []"
  by (subst hex_digits.simps) simp

lemma bucket_index_of_file_name:
  assumes "n < 2 ^ 64"
  shows "bucket_index_of (bucket_file_name n) = Some n"
proof -
  let ?ds = "replicate (5 - length (hex_digits n)) (CHR ''0'') @ hex_digits n"
  have hx: "c \<in> set ?ds \<Longrightarrow> hex_digit c \<noteq> None" for c
    using hex_digits_hex [of n] by (auto simp: hex_digit_def split: if_splits)
  have d: "takeWhile (\<lambda>c. hex_digit c \<noteq> None) (?ds @ ''.evb'') = ?ds"
    using hx by (subst takeWhile_append2) (auto simp: hex_digit_def)
  have nm: "bucket_file_name n = ?ds @ ''.evb''" by (simp add: bucket_file_name_def)
  show ?thesis unfolding bucket_index_of_def nm d Let_def
    using assms hex_digits_not_Nil hex_value_zeros hex_value_hex_digits by (simp add: evr_bucket_file_ext_def)
qed

section \<open>One bucket\<close>

lemma reindex_offset_word: "length cont < 2 ^ 31 \<Longrightarrow> word_of_nat (length cont) \<noteq> (- 1 :: 32 word)"
proof
  assume a: "length cont < 2 ^ 31" "word_of_nat (length cont) = (- 1 :: 32 word)"
  have "unat (word_of_nat (length cont) :: 32 word) = length cont" using a(1) by (simp add: unsigned_of_nat take_bit_nat_eq_self)
  moreover have "unat (- 1 :: 32 word) = 2 ^ 32 - 1" by (simp add: unsigned_minus_1_eq_mask mask_eq_exp_minus_1)
  ultimately show False using a by simp
qed

definition with_end_offset :: "bytes \<Rightarrow> 32 word \<Rightarrow> bytes" where
  "with_end_offset cont e = take 3 cont @ be32 e @ drop 7 cont"

text \<open>What the directory entry of a bucket needs for the reindex to go through.\<close>

definition bucket_whole :: "bytes \<Rightarrow> bool" where
  "bucket_whole cont = (take 3 cont = evr_bucket_magic_number \<and> 7 \<le> length cont \<and> length cont < 2 ^ 31 \<and>
     (\<forall>st\<in>set (fst (bucket_stats cont evr_bucket_header_size)). stat_whole cont st))"

definition end_word :: "bytes \<Rightarrow> 32 word" where
  "end_word cont = (if snd (bucket_stats cont evr_bucket_header_size) then word_of_nat (length cont)
     else word_of_nat evr_bucket_end_offset_corrupt)"

definition reindex_rows :: "(bytes \<Rightarrow> bytes) \<Rightarrow> nat \<Rightarrow> bytes \<Rightarrow> (bytes \<Rightarrow> blob_row option) \<Rightarrow> bytes \<Rightarrow> blob_row option" where
  "reindex_rows sha3_224 n cont = fold (reindex_step sha3_224 n cont) (fst (bucket_stats cont evr_bucket_header_size))"

lemma with_end_offset_write:
  assumes "7 \<le> length cont"
  shows "write_at cont 3 (be32 e) = with_end_offset cont e"
  using assms by (simp add: write_at_inside with_end_offset_def overwrite_def length_0_conv [symmetric] del: length_0_conv)

context sqlite_reliable
begin

lemma reindex_close_calls_ok:
  assumes "calls_ok w"
  shows "\<exists>c' w'. reindex_close (Ret r) c w = (Ret r, c', w') \<and> calls_ok w' \<and> same_world w w'"
proof -
  from close_calls_ok [OF assms, of c] obtain c1 w1 where c: "close_current_bucket c w = (Evr_ok, c1, w1)" "calls_ok w1" by blast
  with close_current_bucket_same [OF c(1)] show ?thesis by (simp add: reindex_close_def)
qed

lemma reindex_end_offset_result:
  assumes "calls_ok w" "wc_bucket_f c = Some f" "w_files w (fd_id f) = Some cont" "7 \<le> length cont"
    "buckets (w_db w) (word_of_nat (wc_bucket_index c)) = None"
  shows "\<exists>c' w'. reindex_end_offset S e c w = (Ret Evr_ok, c', w') \<and> calls_ok w' \<and>
    w_files w' = (w_files w)(fd_id f \<mapsto> with_end_offset cont e) \<and> w_dir w' = w_dir w \<and> blobs (w_db w') = blobs (w_db w) \<and>
    buckets (w_db w') = (buckets (w_db w))(word_of_nat (wc_bucket_index c) \<mapsto> e)"
proof -
  let ?i = "word_of_nat (wc_bucket_index c) :: 32 word"
  from end_offset_calls_ok [OF assms(1), of f "unat e" True] obtain w1 f1 where
    w1: "evr_write_bucket_end_offset w f (unat e) True = (Evr_ok, w1, f1)" "calls_ok w1" by blast
  note eo = end_offset_ok [OF w1(1)]
  have c1: "content w1 (fd_id f) = with_end_offset cont e"
    using eo(1) assms(3,4) with_end_offset_write by (simp add: content_def)
  have "w_files w1 (fd_id f) \<noteq> None" using eo(2) assms(3) by simp
  then have "w_files w1 (fd_id f) = Some (with_end_offset cont e)" using c1 by (auto simp: content_def)
  then have files: "w_files w1 = (w_files w)(fd_id f \<mapsto> with_end_offset cont e)" using eo(3) by (auto simp: fun_eq_iff)
  have db: "w_db w1 = w_db w" using only_file_end_offset [OF w1(1)] by (simp add: only_file_def)
  obtain d where d: "ix_insert_bucket S (w_db w1) ?i = (Sql_done, d)"
    using insert_bucket_ok [of "w_db w1" ?i] db assms(5) by (metis fst_conv surj_pair)
  note d' = insert_bucket_done [OF d]
  obtain d2 where d2: "ix_update_bucket S d e ?i = (Sql_done, d2)"
    using update_bucket_ok [of d e ?i] by (metis fst_conv surj_pair)
  note d2' = update_bucket_done [OF d2]
  let ?c1 = "c\<lparr>wc_bucket_f := Some f1\<rparr>"
  have row: "reindex_bucket_row S e ?c1 w1 = (Ret Evr_ok, w1\<lparr>w_db := d2\<rparr>)"
    using d d2 by (simp add: reindex_bucket_row_def sql_outcome_def)
  have "calls_ok (w1\<lparr>w_db := d2\<rparr>)" using w1(2) by (simp add: calls_ok_def)
  from reindex_close_calls_ok [OF this, of Evr_ok ?c1] obtain c' w' where
    cl: "reindex_close (Ret Evr_ok) ?c1 (w1\<lparr>w_db := d2\<rparr>) = (Ret Evr_ok, c', w')" "calls_ok w'"
    "same_world (w1\<lparr>w_db := d2\<rparr>) w'" by blast
  note same = same_world_fields [OF cl(3)]
  have "reindex_end_offset S e c w = (Ret Evr_ok, c', w')"
    using assms(2) w1(1) row cl(1) by (simp add: reindex_end_offset_def)
  then show ?thesis using cl(2) same files eo(4) d' d2' db by auto
qed

lemma reindex_bucket_result:
  assumes "calls_ok w" "w_files w (bucket_file n) = Some cont" "bucket_whole cont"
    "buckets (w_db w) (word_of_nat n) = None"
  shows "\<exists>c' w'. evr_glacier_reindex_bucket S sha3_224 c n (bucket_file_name n) w = Some (Ret Evr_ok, c', w') \<and>
    calls_ok w' \<and> w_files w' = (w_files w)(bucket_file n \<mapsto> with_end_offset cont (end_word cont)) \<and> w_dir w' = w_dir w \<and>
    blobs (w_db w') = reindex_rows sha3_224 n cont (blobs (w_db w)) \<and>
    buckets (w_db w') = (buckets (w_db w))(word_of_nat n \<mapsto> end_word cont)"
proof -
  from assms(3) have cont: "take 3 cont = evr_bucket_magic_number" "7 \<le> length cont" "length cont < 2 ^ 31"
    "\<forall>st\<in>set (fst (bucket_stats cont evr_bucket_header_size)). stat_whole cont st" by (auto simp: bucket_whole_def)
  obtain sts whole where st: "bucket_stats cont evr_bucket_header_size = (sts, whole)" by fastforce
  obtain fo w1 where o1: "evr_open_bucket w n False = (fo, w1)" by fastforce
  let ?f = "\<lparr>fd_id = bucket_file n, fd_off = 0\<rparr>" and ?c0 = "c\<lparr>wc_bucket_index := n\<rparr>"
  from open_read [OF o1] assms(1,2) have w1: "same_world w w1" "fo = Some ?f" "calls_ok w1" by auto
  have op: "open_current_bucket ?c0 w False = (Evr_ok, ?c0\<lparr>wc_bucket_f := Some ?f\<rparr>, w1)"
    using o1 w1(2) by (simp add: open_current_bucket_def)
  obtain r2 w2 f2 where m: "evr_validate_bucket_magic_number w1 ?f = (r2, w2, f2)" using prod_cases3 by blast
  have "take 3 (content w1 (bucket_file n)) = evr_bucket_magic_number"
    using same_world_fields(4) [OF w1(1)] assms(2) cont(1) by (simp add: content_def)
  with validate_magic [OF m] w1(3) have w2: "same_world w1 w2" "r2 = Evr_ok" "calls_ok w2" "fd_id f2 = bucket_file n" by auto
  have w02: "same_world w w2" using same_world_trans [OF w1(1) w2(1)] .
  note same2 = same_world_fields [OF w02]
  let ?c2 = "?c0\<lparr>wc_bucket_f := Some f2\<rparr>"
  have c2: "?c0\<lparr>wc_bucket_f := Some ?f\<rparr>\<lparr>wc_bucket_f := Some f2\<rparr> = ?c2" by simp
  have rel: "reindex_rel blobs buckets ?c2 w2 (bucket_file n) cont (blobs (w_db w2)) ?c2 w2"
    using w2 assms(2) same2(1) by (auto simp: reindex_rel_def)
  from bucket_visit.walk_folds [OF reindex_visit [of sha3_224 ?c2 w2 "bucket_file n" cont], OF rel bucket_file_def cont(2) st] cont(4) st obtain c3 w3 where
    wk: "evr_glacier_walk_bucket (bucket_file_name n) None (evr_glacier_reindex_visit_blob S sha3_224) ?c2 w2 =
      Some (Ret (if whole then Evr_ok else Evr_end), c3, w3)"
    and rel3: "reindex_rel blobs buckets ?c2 w2 (bucket_file n) cont
      (fold (reindex_step sha3_224 n cont) sts (blobs (w_db w2))) c3 w3"
    by auto
  from rel3 obtain f3 where w3: "calls_ok w3" "w_files w3 = w_files w" "w_dir w3 = w_dir w"
    "blobs (w_db w3) = reindex_rows sha3_224 n cont (blobs (w_db w))" "buckets (w_db w3) = buckets (w_db w)"
    "fd_id f3 = bucket_file n" "c3 = ?c2\<lparr>wc_bucket_f := Some f3\<rparr>"
    using same2 st by (auto simp: reindex_rel_def reindex_rows_def)
  note start = evr_glacier_reindex_bucket_def op m w2(2) c2 wk Let_def
  show ?thesis
  proof (cases whole)
    case False
    have e: "word_of_nat evr_bucket_end_offset_corrupt = end_word cont" using False st by (simp add: end_word_def)
    have "wc_bucket_f c3 = Some f3" "wc_bucket_index c3 = n" using w3(7) by simp_all
    from reindex_end_offset_result [OF w3(1) this(1), of cont "end_word cont"] this(2) w3 assms(2,4) cont(2) obtain c' w' where
      "reindex_end_offset S (end_word cont) c3 w3 = (Ret Evr_ok, c', w')" "calls_ok w'"
      "w_files w' = (w_files w)(bucket_file n \<mapsto> with_end_offset cont (end_word cont))" "w_dir w' = w_dir w"
      "blobs (w_db w') = blobs (w_db w3)" "buckets (w_db w') = (buckets (w_db w))(word_of_nat n \<mapsto> end_word cont)" by auto
    with False w3(4) show ?thesis by (simp add: start e)
  next
    case True
    obtain eo w4 f4 where s: "sys_seek_end w3 f3 = (eo, w4, f4)" using prod_cases3 by blast
    have k4: "eo = Some (length cont)" "calls_ok w4" "same_world w3 w4" "fd_id f4 = bucket_file n"
      using sys_seek_end_same [OF s] w3(1,2,6) assms(2) calls_ok_same sys_call_ok [OF w3(1)] s
      by (auto simp: content_def sys_seek_end_def Let_def split: prod.splits if_splits)
    note same4 = same_world_fields [OF k4(3)]
    let ?c4 = "c3\<lparr>wc_bucket_f := Some f4\<rparr>"
    have e: "word_of_nat (length cont) = end_word cont" using True st by (simp add: end_word_def)
    have ne: "end_word cont \<noteq> - 1" using reindex_offset_word [OF cont(3)] e by simp
    have "wc_bucket_f ?c4 = Some f4" "wc_bucket_index ?c4 = n" using w3(7) by simp_all
    from reindex_end_offset_result [OF k4(2) this(1), of cont "end_word cont"] this(2) w3 same4 k4(4) assms(2,4) cont(2)
    obtain c' w' where
      "reindex_end_offset S (end_word cont) ?c4 w4 = (Ret Evr_ok, c', w')" "calls_ok w'"
      "w_files w' = (w_files w)(bucket_file n \<mapsto> with_end_offset cont (end_word cont))" "w_dir w' = w_dir w"
      "blobs (w_db w') = blobs (w_db w3)" "buckets (w_db w') = (buckets (w_db w))(word_of_nat n \<mapsto> end_word cont)" by auto
    with True w3(4,7) s k4(1) ne show ?thesis by (simp add: start e)
  qed
qed

end

section \<open>What the rows say\<close>

lemma bucket_stats_fields:
  "st \<in> set (fst (bucket_stats cont p)) \<Longrightarrow>
   length (st_ref st) = evr_blob_ref_size \<and> p + evr_bucket_blob_header_size \<le> st_offset st \<and> st_size st < 2 ^ 32"
proof (induction cont p rule: bucket_stats.induct)
  case (1 cont p)
  let ?h = "take evr_bucket_blob_header_size (drop p cont)"
  show ?case
  proof (cases "p + evr_bucket_blob_header_size \<le> length cont")
    case True
    then have "length ?h = evr_bucket_blob_header_size" by simp
    from pull_blob_header_total [OF this, of "p + evr_bucket_blob_header_size"] obtain s where
      s: "pull_blob_header ?h (p + evr_bucket_blob_header_size) = Some s" "st_offset s = p + evr_bucket_blob_header_size"
      "st_size s < 2 ^ 32" "length (st_ref s) = evr_blob_ref_size" by blast
    obtain xs e where rest: "bucket_stats cont (p + evr_bucket_blob_header_size + st_size s) = (xs, e)" by fastforce
    have np: "\<not> length cont \<le> p" "\<not> length cont < p + evr_bucket_blob_header_size" using True by (simp_all add: evr_layout)
    have "st = s \<or> st \<in> set xs" using "1.prems" bucket_stats_step [OF True s(1) rest] by simp
    then show ?thesis
    proof
      assume "st \<in> set xs"
      with "1.IH" [OF np(1) s(1) np(2)] rest show ?thesis by auto
    qed (use s in simp)
  next
    case False
    with "1.prems" show ?thesis by (cases "length cont \<le> p") (simp_all add: bucket_stats_end bucket_stats_short)
  qed
qed

definition indexable :: "(bytes \<Rightarrow> bytes) \<Rightarrow> bytes \<Rightarrow> evr_glacier_bucket_blob_stat \<Rightarrow> bool" where
  "indexable sha3_224 cont st = (evr_blob_ref_final sha3_224 (stat_data cont st) = st_ref st)"

lemma reindex_step_eq:
  assumes "length (st_ref st) = evr_blob_ref_size"
  shows "reindex_step sha3_224 n cont st m =
    (if indexable sha3_224 cont st \<and> m (st_ref st) = None then m(st_ref st \<mapsto> reindex_row n st) else m)"
  using assms by (auto simp: reindex_step_def indexable_def evr_cmp_blob_ref_eq_def evr_blob_ref_final_def reindex_row_def)

lemma fold_reindex_step:
  fixes m :: "bytes \<Rightarrow> blob_row option"
  assumes "\<forall>st\<in>set sts. length (st_ref st) = evr_blob_ref_size"
  shows "(fold (reindex_step sha3_224 n cont) sts m k \<noteq> None \<longleftrightarrow>
      m k \<noteq> None \<or> (\<exists>st\<in>set sts. indexable sha3_224 cont st \<and> st_ref st = k)) \<and>
    (fold (reindex_step sha3_224 n cont) sts m k = Some r \<longrightarrow>
      m k = Some r \<or> (\<exists>st\<in>set sts. indexable sha3_224 cont st \<and> st_ref st = k \<and> r = reindex_row n st))"
  using assms
proof (induction sts arbitrary: m)
  case (Cons st sts)
  have st: "length (st_ref st) = evr_blob_ref_size" using Cons.prems by simp
  define m1 where "m1 = reindex_step sha3_224 n cont st m"
  have m1: "m1 k = (if indexable sha3_224 cont st \<and> m k = None \<and> st_ref st = k then Some (reindex_row n st) else m k)"
    by (auto simp: m1_def reindex_step_eq [OF st])
  have "fold (reindex_step sha3_224 n cont) (st # sts) m = fold (reindex_step sha3_224 n cont) sts m1"
    by (simp add: m1_def)
  with Cons.IH [of m1] Cons.prems m1 show ?case by (auto split: if_splits)
qed simp

lemma reindex_rows_dom:
  "reindex_rows sha3_224 n cont m k \<noteq> None \<longleftrightarrow> m k \<noteq> None \<or>
     (\<exists>st\<in>set (fst (bucket_stats cont evr_bucket_header_size)). indexable sha3_224 cont st \<and> st_ref st = k)"
  "reindex_rows sha3_224 n cont m k = Some r \<Longrightarrow> m k = Some r \<or>
     (\<exists>st\<in>set (fst (bucket_stats cont evr_bucket_header_size)). indexable sha3_224 cont st \<and> st_ref st = k \<and> r = reindex_row n st)"
  unfolding reindex_rows_def using bucket_stats_fields fold_reindex_step by metis+

lemma fold_reindex_rows:
  shows "fold (\<lambda>n. reindex_rows sha3_224 n (cont n)) ns m k \<noteq> None \<longleftrightarrow> m k \<noteq> None \<or>
      (\<exists>n\<in>set ns. \<exists>st\<in>set (fst (bucket_stats (cont n) evr_bucket_header_size)). indexable sha3_224 (cont n) st \<and> st_ref st = k)"
    "fold (\<lambda>n. reindex_rows sha3_224 n (cont n)) ns m k = Some r \<Longrightarrow> m k = Some r \<or>
      (\<exists>n\<in>set ns. \<exists>st\<in>set (fst (bucket_stats (cont n) evr_bucket_header_size)).
         indexable sha3_224 (cont n) st \<and> st_ref st = k \<and> r = reindex_row n st)"
proof -
  show "fold (\<lambda>n. reindex_rows sha3_224 n (cont n)) ns m k \<noteq> None \<longleftrightarrow> m k \<noteq> None \<or>
      (\<exists>n\<in>set ns. \<exists>st\<in>set (fst (bucket_stats (cont n) evr_bucket_header_size)). indexable sha3_224 (cont n) st \<and> st_ref st = k)"
  proof (induction ns arbitrary: m)
    case (Cons n ns)
    show ?case using Cons [of "reindex_rows sha3_224 n (cont n) m"] reindex_rows_dom(1) [of sha3_224 n "cont n" m k] by auto
  qed simp
  show "fold (\<lambda>n. reindex_rows sha3_224 n (cont n)) ns m k = Some r \<Longrightarrow> m k = Some r \<or>
      (\<exists>n\<in>set ns. \<exists>st\<in>set (fst (bucket_stats (cont n) evr_bucket_header_size)).
         indexable sha3_224 (cont n) st \<and> st_ref st = k \<and> r = reindex_row n st)"
  proof (induction ns arbitrary: m)
    case (Cons n ns)
    show ?case using Cons.IH [of "reindex_rows sha3_224 n (cont n) m"] Cons.prems
        reindex_rows_dom(2) [of sha3_224 n "cont n" m k r] by auto
  qed simp
qed

text \<open>A row of the rebuilt index reads back the data of its record.\<close>

lemma stored_reindex_row:
  assumes "bucket_whole cont" "st \<in> set (fst (bucket_stats cont evr_bucket_header_size))" "n < 2 ^ 64"
    "w_files w (bucket_file n) = Some (with_end_offset cont e)"
  shows "stored w (reindex_row n st) = stat_data cont st"
proof -
  note f = bucket_stats_fields [OF assms(2)]
  have len: "7 \<le> length cont" "st_offset st + st_size st < 2 ^ 31" using assms(1,2)
    by (auto simp: bucket_whole_def stat_whole_def)
  have "unat (word_of_nat n :: 64 word) = n" using assms(3) by (simp add: unsigned_of_nat take_bit_nat_eq_self)
  then have fl: "content w (row_file (reindex_row n st)) = with_end_offset cont e"
    using assms(4) by (simp add: row_file_def reindex_row_def content_def)
  have cols: "unat (br_offset (reindex_row n st)) = st_offset st" "unat (br_size (reindex_row n st)) = st_size st"
    using len(2) by (simp_all add: reindex_row_def unsigned_of_nat take_bit_nat_eq_self)
  have "drop (st_offset st) (with_end_offset cont e) = drop (st_offset st - 7) (drop 7 (with_end_offset cont e))"
    using f by (simp add: evr_layout)
  also have "drop 7 (with_end_offset cont e) = drop 7 cont" using len(1) by (simp add: with_end_offset_def)
  also have "drop (st_offset st - 7) (drop 7 cont) = drop (st_offset st) cont" using f by (simp add: evr_layout)
  finally show ?thesis by (simp add: stored_def fl cols stat_data_def)
qed

section \<open>All buckets\<close>

definition bucket_indices :: "string list \<Rightarrow> nat list" where
  "bucket_indices ds = List.map_filter bucket_index_of ds"

lemma bucket_indices_simps [simp]:
  "bucket_indices [] = []"
  "bucket_indices (d # ds) = (case bucket_index_of d of None \<Rightarrow> bucket_indices ds | Some n \<Rightarrow> n # bucket_indices ds)"
  by (simp_all add: bucket_indices_def List.map_filter_def split: option.split)

lemma bucket_indices_bound: "n \<in> set (bucket_indices ds) \<Longrightarrow> n < 2 ^ 64"
  by (induction ds) (auto simp: bucket_index_of_def Let_def split: option.splits if_splits)

text \<open>
  A directory that can be reindexed: the buckets have the names the program gives them, their
  indices differ also as the 32 bit numbers the database gets, and every bucket is whole.
\<close>

definition dir_whole :: "string list \<Rightarrow> 'd world \<Rightarrow> bool" where
  "dir_whole ds w = (distinct (map word_of_nat (bucket_indices ds) :: 32 word list) \<and>
     (\<forall>d\<in>set ds. \<forall>n. bucket_index_of d = Some n \<longrightarrow> d = bucket_file_name n) \<and>
     (\<forall>n\<in>set (bucket_indices ds). \<exists>cont. w_files w (bucket_file n) = Some cont \<and> bucket_whole cont))"

context sqlite_reliable
begin

lemma walk_dir_reindex:
  assumes "calls_ok w" "dir_whole ds w" "\<forall>n\<in>set (bucket_indices ds). buckets (w_db w) (word_of_nat n) = None"
  shows "\<exists>c' w'. walk_dir (evr_glacier_reindex_bucket S sha3_224) ds c w = Some (Ret Evr_ok, c', w') \<and> calls_ok w' \<and>
    blobs (w_db w') = fold (\<lambda>n. reindex_rows sha3_224 n (content w (bucket_file n))) (bucket_indices ds) (blobs (w_db w)) \<and>
    (\<forall>n\<in>set (bucket_indices ds). \<exists>e. w_files w' (bucket_file n) = Some (with_end_offset (content w (bucket_file n)) e)) \<and>
    (\<forall>i. i \<notin> bucket_file ` set (bucket_indices ds) \<longrightarrow> w_files w' i = w_files w i)"
  using assms
proof (induction ds arbitrary: c w)
  case Nil
  obtain ok w1 where s: "sys_call w = (ok, w1)" by fastforce
  from sys_call_calls_ok [OF Nil(1) s] same_world_fields [OF sys_call_same [OF s]] s show ?case by auto
next
  case (Cons d ds)
  obtain ok w1 where s: "sys_call w = (ok, w1)" by fastforce
  note k1 = sys_call_calls_ok [OF Cons.prems(1) s]
  note same = same_world_fields [OF sys_call_same [OF s]]
  show ?case
  proof (cases "bucket_index_of d")
    case None
    have "dir_whole ds w1" using Cons.prems(2) None same(1) by (auto simp: dir_whole_def)
    from Cons.IH [OF conjunct2 [OF k1] this, of c] Cons.prems(3) None same k1 s show ?thesis by auto
  next
    case (Some n)
    from Cons.prems(2) Some obtain cont where n: "d = bucket_file_name n" "w_files w (bucket_file n) = Some cont" "bucket_whole cont"
      "distinct (word_of_nat n # map word_of_nat (bucket_indices ds) :: 32 word list)" by (auto simp: dir_whole_def)
    have cn: "content w (bucket_file n) = cont" using n(2) by (simp add: content_def)
    have bn: "buckets (w_db w1) (word_of_nat n) = None" using Cons.prems(3) Some same(3) by simp
    have f1: "w_files w1 (bucket_file n) = Some cont" using n(2) same(1) by simp
    from reindex_bucket_result [OF conjunct2 [OF k1] f1 n(3) bn, of sha3_224 c] obtain c2 w2 where
      w2: "evr_glacier_reindex_bucket S sha3_224 c n (bucket_file_name n) w1 = Some (Ret Evr_ok, c2, w2)" "calls_ok w2"
      "w_files w2 = (w_files w)(bucket_file n \<mapsto> with_end_offset cont (end_word cont))"
      "blobs (w_db w2) = reindex_rows sha3_224 n cont (blobs (w_db w))"
      "buckets (w_db w2) = (buckets (w_db w))(word_of_nat n \<mapsto> end_word cont)" using same by auto
    have nin: "n \<notin> set (bucket_indices ds)" using n(4) by auto
    have other: "w_files w2 (bucket_file k) = w_files w (bucket_file k)" if "k \<in> set (bucket_indices ds)" for k
      using that nin w2(3) by auto
    have dw: "dir_whole ds w2" using Cons.prems(2) Some other by (auto simp: dir_whole_def)
    have bk: "\<forall>k\<in>set (bucket_indices ds). buckets (w_db w2) (word_of_nat k) = None"
      using Cons.prems(3) Some w2(5) n(4) by (auto simp: image_iff)
    from Cons.IH [OF w2(2) dw bk, of c2] obtain c' w' where w': "walk_dir (evr_glacier_reindex_bucket S sha3_224) ds c2 w2 =
        Some (Ret Evr_ok, c', w')" "calls_ok w'"
      "blobs (w_db w') = fold (\<lambda>n. reindex_rows sha3_224 n (content w2 (bucket_file n))) (bucket_indices ds) (blobs (w_db w2))"
      "\<forall>n\<in>set (bucket_indices ds). \<exists>e. w_files w' (bucket_file n) = Some (with_end_offset (content w2 (bucket_file n)) e)"
      "\<forall>i. i \<notin> bucket_file ` set (bucket_indices ds) \<longrightarrow> w_files w' i = w_files w2 i" by blast
    have cnt: "content w2 (bucket_file k) = content w (bucket_file k)" if "k \<in> set (bucket_indices ds)" for k
      using other [OF that] by (simp add: content_def)
    have "fold (\<lambda>n. reindex_rows sha3_224 n (content w2 (bucket_file n))) (bucket_indices ds) m =
        fold (\<lambda>n. reindex_rows sha3_224 n (content w (bucket_file n))) (bucket_indices ds) m" for m
      using cnt by (intro fold_cong) auto
    then have bl: "blobs (w_db w') = fold (\<lambda>n. reindex_rows sha3_224 n (content w (bucket_file n))) (bucket_indices (d # ds)) (blobs (w_db w))"
      using w'(3) w2(4) Some cn by simp
    have "w_files w' (bucket_file n) = Some (with_end_offset (content w (bucket_file n)) (end_word cont))"
      using w'(5) [rule_format, of "bucket_file n"] nin w2(3) cn by (auto simp: image_iff)
    then have fl: "\<forall>k\<in>set (bucket_indices (d # ds)). \<exists>e. w_files w' (bucket_file k) = Some (with_end_offset (content w (bucket_file k)) e)"
      using w'(4) cnt Some by auto
    have oth: "\<forall>i. i \<notin> bucket_file ` set (bucket_indices (d # ds)) \<longrightarrow> w_files w' i = w_files w i"
      using w'(5) w2(3) Some by auto
    have "walk_dir (evr_glacier_reindex_bucket S sha3_224) (d # ds) c w = Some (Ret Evr_ok, c', w')"
      using s k1 Some n(1) w2(1) w'(1) by simp
    with w'(2) bl fl oth show ?thesis by blast
  qed
qed

lemma reindex_result:
  assumes "calls_ok w" "dir_whole (w_dir w) w" "\<forall>n\<in>set (bucket_indices (w_dir w)). buckets (w_db w) (word_of_nat n) = None"
    "blobs (w_db w) = (\<lambda>_. None)"
  shows "\<exists>c' w'. evr_glacier_reindex S sha3_224 c w = Some (Ret Evr_ok, c', w') \<and>
    (\<forall>k. glacier_abs blobs w' k \<noteq> None \<longleftrightarrow> (\<exists>n\<in>set (bucket_indices (w_dir w)).
       \<exists>st\<in>set (fst (bucket_stats (content w (bucket_file n)) evr_bucket_header_size)).
         indexable sha3_224 (content w (bucket_file n)) st \<and> st_ref st = k)) \<and>
    (\<forall>k flags d. glacier_abs blobs w' k = Some (flags, d) \<longrightarrow> evr_blob_ref_final sha3_224 d = k)"
proof -
  let ?ns = "bucket_indices (w_dir w)" and ?cont = "\<lambda>n. content w (bucket_file n)"
  obtain ok w1 where s: "sys_call w = (ok, w1)" by fastforce
  note k1 = sys_call_calls_ok [OF assms(1) s]
  note same = same_world_fields [OF sys_call_same [OF s]]
  have dw: "dir_whole (w_dir w1) w1" using assms(2) same by (simp add: dir_whole_def)
  from walk_dir_reindex [OF conjunct2 [OF k1] dw, of sha3_224 c] assms(3) same obtain c2 w2 where
    w2: "walk_dir (evr_glacier_reindex_bucket S sha3_224) (w_dir w1) c w1 = Some (Ret Evr_ok, c2, w2)" "calls_ok w2"
    "blobs (w_db w2) = fold (\<lambda>n. reindex_rows sha3_224 n (?cont n)) ?ns (\<lambda>_. None)"
    "\<forall>n\<in>set ?ns. \<exists>e. w_files w2 (bucket_file n) = Some (with_end_offset (?cont n) e)" using assms(4) by auto
  obtain ok3 w3 where s3: "sys_call w2 = (ok3, w3)" by fastforce
  note k3 = sys_call_calls_ok [OF w2(2) s3]
  note same3 = same_world_fields [OF sys_call_same [OF s3]]
  have run: "evr_glacier_reindex S sha3_224 c w = Some (Ret Evr_ok, c2, w3)"
    using s k1 w2(1) s3 k3 by (simp add: evr_glacier_reindex_def evr_walk_buckets_def)
  have dom: "glacier_abs blobs w3 k \<noteq> None \<longleftrightarrow> (\<exists>n\<in>set ?ns.
       \<exists>st\<in>set (fst (bucket_stats (?cont n) evr_bucket_header_size)). indexable sha3_224 (?cont n) st \<and> st_ref st = k)" for k
    using fold_reindex_rows(1) [where m = "\<lambda>_. None" and k = k and cont = ?cont and ns = ?ns and ?sha3_224.0 = sha3_224]
    unfolding glacier_abs_def same3(3) w2(3) by simp
  have "evr_blob_ref_final sha3_224 d = k" if "glacier_abs blobs w3 k = Some (flags, d)" for k flags d
  proof -
    from that obtain r where r: "blobs (w_db w2) k = Some r" "d = stored w3 r" using same3(3) by (auto simp: glacier_abs_def)
    from fold_reindex_rows(2) [OF r(1) [unfolded w2(3)]] obtain n st where
      st: "n \<in> set ?ns" "st \<in> set (fst (bucket_stats (?cont n) evr_bucket_header_size))" "indexable sha3_224 (?cont n) st"
      "st_ref st = k" "r = reindex_row n st" by auto
    from w2(4) st(1) same3(1) obtain e where f: "w_files w3 (bucket_file n) = Some (with_end_offset (?cont n) e)" by auto
    have "bucket_whole (?cont n)" using assms(2) st(1) by (auto simp: dir_whole_def content_def)
    from stored_reindex_row [OF this st(2) bucket_indices_bound [OF st(1)] f] st(3-5) r(2) show ?thesis
      by (simp add: indexable_def)
  qed
  with run dom show ?thesis by blast
qed

end

section \<open>The records that were appended\<close>

type_synonym written = "evr_writing_blob \<times> evr_time \<times> bytes"

definition written_bytes :: "written \<Rightarrow> bytes" where
  "written_bytes = (\<lambda>(blob, t, b). blob_record blob t b)"

definition written_ok :: "written \<Rightarrow> bool" where
  "written_ok = (\<lambda>(blob, t, b). blob_holds blob b \<and> length b < 2 ^ 32)"

definition written_stat :: "nat \<Rightarrow> written \<Rightarrow> evr_glacier_bucket_blob_stat" where
  "written_stat p = (\<lambda>(blob, t, b).
    let fs = header_fields (wb_key blob) (ucast (wb_flags blob)) t (word_of_nat (length b)) in
    \<lparr>st_ref = wb_key blob, st_flags = ucast (ucast (wb_flags blob) :: byte), st_last_modified = t,
     st_offset = p + evr_bucket_blob_header_size, st_size = length b, st_checksum = NOT (sum_list fs),
     st_checksum_valid = Evr_ok\<rparr>)"

fun written_stats :: "nat \<Rightarrow> written list \<Rightarrow> evr_glacier_bucket_blob_stat list" where
  "written_stats p [] = []"
| "written_stats p (x # xs) = written_stat p x # written_stats (p + length (written_bytes x)) xs"

lemma pull_written:
  assumes "written_ok x"
  shows "pull_blob_header (take evr_bucket_blob_header_size (written_bytes x @ rest)) (p + evr_bucket_blob_header_size) =
      Some (written_stat p x)"
    "length (written_bytes x) = evr_bucket_blob_header_size + st_size (written_stat p x)"
proof -
  obtain blob t b where x: "x = (blob, t, b)" using prod_cases3 by blast
  let ?fs = "header_fields (wb_key blob) (ucast (wb_flags blob)) t (word_of_nat (length b))"
  have k: "length (wb_key blob) = evr_blob_ref_size" "wb_size blob = length b" "length b < 2 ^ 32"
    using assms x by (auto simp: written_ok_def blob_holds_def)
  have "take evr_bucket_blob_header_size (written_bytes x @ rest) = ?fs @ [NOT (sum_list ?fs)]"
    using k by (simp add: written_bytes_def x blob_record_def header_bytes_def length_header_fields evr_layout)
  then show "pull_blob_header (take evr_bucket_blob_header_size (written_bytes x @ rest)) (p + evr_bucket_blob_header_size) =
      Some (written_stat p x)"
    using k by (simp add: pull_blob_header_eq written_stat_def x Let_def unsigned_of_nat take_bit_nat_eq_self)
  show "length (written_bytes x) = evr_bucket_blob_header_size + st_size (written_stat p x)"
    using k by (simp add: written_bytes_def x blob_record_def written_stat_def Let_def)
qed

lemma bucket_stats_written:
  assumes "\<forall>x\<in>set xs. written_ok x"
  shows "bucket_stats (pre @ concat (map written_bytes xs)) (length pre) = (written_stats (length pre) xs, True)"
  using assms
proof (induction xs arbitrary: pre)
  case (Cons x xs)
  let ?cont = "pre @ concat (map written_bytes (x # xs))" and ?p = "length pre"
  have x: "written_ok x" using Cons.prems by simp
  have st: "pull_blob_header (take evr_bucket_blob_header_size (drop ?p ?cont)) (?p + evr_bucket_blob_header_size) =
      Some (written_stat ?p x)" using pull_written(1) [OF x] by simp
  have lx: "length (written_bytes x) = evr_bucket_blob_header_size + st_size (written_stat ?p x)" using pull_written(2) [OF x] .
  have "bucket_stats ((pre @ written_bytes x) @ concat (map written_bytes xs)) (length (pre @ written_bytes x)) =
      (written_stats (length (pre @ written_bytes x)) xs, True)" using Cons.prems by (intro Cons.IH) simp
  then have "bucket_stats ?cont (?p + evr_bucket_blob_header_size + st_size (written_stat ?p x)) =
      (written_stats (?p + length (written_bytes x)) xs, True)" using lx by (simp add: add.assoc)
  from bucket_stats_step [OF _ st this] lx show ?case by simp
qed (simp add: bucket_stats_end)

lemma written_stats_whole:
  assumes "\<forall>x\<in>set xs. written_ok x" "st \<in> set (written_stats p xs)"
  shows "st_checksum_valid st = Evr_ok \<and> st_offset st + st_size st \<le> p + length (concat (map written_bytes xs))"
  using assms
proof (induction xs arbitrary: p)
  case (Cons x xs)
  have lx: "length (written_bytes x) = evr_bucket_blob_header_size + st_size (written_stat p x)"
    using pull_written(2) Cons.prems(1) by simp
  show ?case
  proof (cases "st = written_stat p x")
    case True
    then show ?thesis using lx by (cases x) (auto simp: written_stat_def Let_def)
  next
    case False
    with Cons.IH [of "p + length (written_bytes x)"] Cons.prems show ?thesis by auto
  qed
qed simp

section \<open>Properties\<close>

definition collect_stat :: "(evr_glacier_bucket_blob_stat list, 'd) blob_visitor" where
  "collect_stat v st w = (Ret Evr_ok, v @ [st], w)"

interpretation collect: bucket_visit collect_stat "\<lambda>a v w. v = a \<and> calls_ok w \<and> w_files w i = Some cont"
  "\<lambda>st a. a @ [st]" "\<lambda>_. True" i cont for i cont
  by unfold_locales (auto simp: collect_stat_def same_world_fields(1) calls_ok_same)

lemma walk_bucket_records:
  assumes "calls_ok w" "w_files w (File name) = Some (evr_bucket_magic_number @ be32 e @ concat (map written_bytes xs))"
    "\<forall>x\<in>set xs. written_ok x"
  shows "\<exists>w'. evr_glacier_walk_bucket name None collect_stat [] w =
      Some (Ret Evr_ok, written_stats evr_bucket_header_size xs, w') \<and> w_files w' (File name) = w_files w (File name)"
proof -
  let ?cont = "evr_bucket_magic_number @ be32 e @ concat (map written_bytes xs)"
  have len: "length (evr_bucket_magic_number @ be32 e) = evr_bucket_header_size" by (simp add: length_magic evr_layout)
  have st: "bucket_stats ?cont evr_bucket_header_size = (written_stats evr_bucket_header_size xs, True)"
    using bucket_stats_written [OF assms(3), of "evr_bucket_magic_number @ be32 e"] len by simp
  have "fold (\<lambda>st a. a @ [st]) ys as = as @ ys" for ys as :: "evr_glacier_bucket_blob_stat list"
    by (induction ys arbitrary: as) auto
  moreover have "7 \<le> length ?cont" by (simp add: length_magic)
  ultimately show ?thesis using collect.walk_folds [OF _ _ _ st, of "[]" "[]" w "File name" name] assms(1,2) by auto
qed

text \<open>Appending blobs one after the other, until one is refused.\<close>

primrec append_blobs ::
  "'d index_db \<Rightarrow> nat \<Rightarrow> bytes \<Rightarrow> written list \<Rightarrow> evr_glacier_write_ctx \<Rightarrow> 'd world \<Rightarrow> evr_code exec \<times> evr_glacier_write_ctx \<times> 'd world" where
  "append_blobs S max_bucket_size hm [] c w = (Ret Evr_ok, c, w)"
| "append_blobs S max_bucket_size hm (x # xs) c w =
    (case evr_glacier_append_blob S max_bucket_size (fst (snd x)) hm (fst x) c w of (r, c1, w1) \<Rightarrow>
       if r \<noteq> Ret Evr_ok then (r, c1, w1) else append_blobs S max_bucket_size hm xs c1 w1)"

text \<open>The file of the current bucket holds a header and whole records, and the next record goes to its end.\<close>

definition holds_records :: "file_id \<Rightarrow> written list \<Rightarrow> evr_glacier_write_ctx \<Rightarrow> 'd world \<Rightarrow> bool" where
  "holds_records i xs c w = (\<exists>f e. wc_bucket_f c = Some f \<and> fd_id f = i \<and>
     w_files w i = Some (evr_bucket_magic_number @ be32 e @ concat (map written_bytes xs)) \<and>
     wc_bucket_pos c = evr_bucket_header_size + length (concat (map written_bytes xs)))"

lemma length_written: "written_ok x \<Longrightarrow> length (written_bytes x) = evr_bucket_blob_header_size + wb_size (fst x)"
  by (cases x) (simp add: written_ok_def written_bytes_def length_blob_record)

context sqlite_index
begin

lemma append_blob_record:
  assumes "evr_glacier_append_blob S max_bucket_size t hm blob c w = (Ret Evr_ok, c', w')" "holds_records i xs c w"
    "written_ok (blob, t, b)" "length hm = evr_bucket_blob_header_size"
    "wc_bucket_pos c + (evr_bucket_blob_header_size + wb_size blob) \<le> max_bucket_size"
  shows "holds_records i (xs @ [(blob, t, b)]) c' w'"
proof -
  let ?cs = "concat (map written_bytes xs)" and ?r = "blob_record blob t b"
  let ?e = "wc_bucket_pos c + (evr_bucket_blob_header_size + wb_size blob)"
  obtain f e where f: "wc_bucket_f c = Some f" "fd_id f = i" "w_files w i = Some (evr_bucket_magic_number @ be32 e @ ?cs)"
    "wc_bucket_pos c = evr_bucket_header_size + length ?cs" using assms(2) by (auto simp: holds_records_def)
  have a: "append_to_bucket S t hm blob c w = (Ret Evr_ok, c', w')"
    using assms(1,5) by (auto simp: evr_glacier_append_blob_def Let_def split: if_splits)
  have b: "blob_holds blob b" using assms(3) by (simp add: written_ok_def)
  have p: "7 \<le> wc_bucket_pos c" using f(4) by (simp add: evr_layout)
  note ok = append_to_bucket_ok [OF a f(1) b assms(4) p]
  have key: "length (wb_key blob) = evr_blob_ref_size" using b by (simp add: blob_holds_def)
  from append_to_bucket_effect [OF a f(1) p order.refl key] obtain f' where f': "wc_bucket_f c' = Some f'" "fd_id f' = i"
    using f(2) by auto
  have cont: "content w i = evr_bucket_magic_number @ be32 e @ ?cs" using f(3) by (simp add: content_def)
  have "write_at (content w i) (wc_bucket_pos c) ?r = evr_bucket_magic_number @ be32 e @ ?cs @ ?r"
    unfolding cont using f(4) by (subst write_at_inside) (simp_all add: overwrite_def length_magic evr_layout)
  then have "content w' i = write_at (evr_bucket_magic_number @ be32 e @ ?cs @ ?r) 3 (be32 (word_of_nat ?e))"
    using ok(2) f(2) by simp
  also have "\<dots> = evr_bucket_magic_number @ be32 (word_of_nat ?e) @ ?cs @ ?r"
    by (subst write_at_inside) (simp_all add: overwrite_def length_magic)
  finally have "w_files w' i = Some (evr_bucket_magic_number @ be32 (word_of_nat ?e) @ ?cs @ ?r)"
    using ok(3) f(2,3) by (auto simp: content_def)
  moreover have "length ?r = evr_bucket_blob_header_size + wb_size blob" using b by (rule length_blob_record)
  ultimately show ?thesis using f' ok(1) f(4) by (auto simp: holds_records_def written_bytes_def)
qed

lemma append_blobs_records:
  assumes "append_blobs S max_bucket_size hm xs c w = (Ret Evr_ok, c', w')" "holds_records i ys c w"
    "\<forall>x\<in>set xs. written_ok x" "length hm = evr_bucket_blob_header_size"
    "wc_bucket_pos c + length (concat (map written_bytes xs)) \<le> max_bucket_size"
  shows "holds_records i (ys @ xs) c' w'"
  using assms
proof (induction xs arbitrary: c w ys)
  case (Cons x xs)
  obtain blob t b where x: "x = (blob, t, b)" using prod_cases3 by blast
  obtain c1 w1 where s: "evr_glacier_append_blob S max_bucket_size t hm blob c w = (Ret Evr_ok, c1, w1)"
    "append_blobs S max_bucket_size hm xs c1 w1 = (Ret Evr_ok, c', w')"
    using Cons.prems(1) x by (auto split: prod.splits if_splits)
  have len: "length (written_bytes x) = evr_bucket_blob_header_size + wb_size blob" using length_written [of x] Cons.prems(3) x by simp
  have "holds_records i (ys @ [x]) c1 w1"
    unfolding x using Cons.prems(2-5) len x by (intro append_blob_record [OF s(1)]) simp_all
  moreover have "wc_bucket_pos c1 = wc_bucket_pos c + length (written_bytes x)"
    using calculation Cons.prems(2) by (auto simp: holds_records_def)
  ultimately show ?case using Cons.IH [OF s(2), of "ys @ [x]"] Cons.prems by simp
qed simp

end

context sqlite_reliable
begin

lemma append_blobs_succeed:
  assumes "calls_ok w" "holds_records i ys c w" "\<forall>x\<in>set xs. written_ok x" "length hm = evr_bucket_blob_header_size"
    "wc_bucket_pos c + length (concat (map written_bytes xs)) \<le> max_bucket_size"
  shows "\<exists>c' w'. append_blobs S max_bucket_size hm xs c w = (Ret Evr_ok, c', w') \<and> calls_ok w'"
  using assms
proof (induction xs arbitrary: c w ys)
  case (Cons x xs)
  obtain blob t b where x: "x = (blob, t, b)" using prod_cases3 by blast
  have len: "length (written_bytes x) = evr_bucket_blob_header_size + wb_size blob" using length_written [of x] Cons.prems(3) x by simp
  from Cons.prems(2) obtain f where f: "wc_bucket_f c = Some f" "evr_bucket_header_size \<le> wc_bucket_pos c" by (auto simp: holds_records_def)
  then have p: "7 \<le> wc_bucket_pos c" by (simp add: evr_layout)
  have b: "blob_holds blob b" using Cons.prems(3) x by (simp add: written_ok_def)
  from append_to_bucket_succeeds [OF Cons.prems(1) f(1) p b Cons.prems(4), of t] obtain c1 w1 where
    a: "append_to_bucket S t hm blob c w = (Ret Evr_ok, c1, w1)" "calls_ok w1" by blast
  have fits: "wc_bucket_pos c + (evr_bucket_blob_header_size + wb_size blob) \<le> max_bucket_size" using Cons.prems(5) len by simp
  then have s: "evr_glacier_append_blob S max_bucket_size t hm blob c w = (Ret Evr_ok, c1, w1)"
    using a(1) f(2) by (simp add: evr_glacier_append_blob_def Let_def)
  have h: "holds_records i (ys @ [x]) c1 w1"
    unfolding x using Cons.prems(2-4) x fits by (intro append_blob_record [OF s]) simp_all
  then have "wc_bucket_pos c1 = wc_bucket_pos c + length (written_bytes x)" using Cons.prems(2) by (auto simp: holds_records_def)
  with Cons.IH [OF a(2) h] Cons.prems s show ?case by (simp add: x)
qed simp

end

text \<open>
  C32: what was appended is walked. When blobs were appended one after the other by \<^verbatim>\<open>evr_glacier_append_blob\<close>, with
  \<^verbatim>\<open>evr_ok\<close> and within the maximum size, to a bucket whose file held a header and the records \<open>ys\<close>,
  \<^verbatim>\<open>evr_glacier_walk_bucket\<close> of that file, if none of its system calls fails and however short its reads are, returns
  \<^verbatim>\<open>evr_ok\<close> and has visited exactly the records \<open>ys\<close> and then the appended blobs, in order, with the references, flags,
  sizes, offsets and times they were appended with and a valid checksum.
\<close>

theorem walk_bucket_visits_appended:
  assumes lib: "sqlite_index S blobs buckets"
    and "append_blobs S max_bucket_size header_mem xs c w = (Ret Evr_ok, c', w')" "holds_records (File name) ys c w"
    "\<forall>x\<in>set (ys @ xs). written_ok x" "length header_mem = evr_bucket_blob_header_size"
    "wc_bucket_pos c + length (concat (map written_bytes xs)) \<le> max_bucket_size" "calls_ok w'"
  shows "\<exists>w''. evr_glacier_walk_bucket name None collect_stat [] w' =
    Some (Ret Evr_ok, written_stats evr_bucket_header_size (ys @ xs), w'')"
proof -
  have "\<forall>x\<in>set xs. written_ok x" using assms(4) by simp
  from sqlite_index.append_blobs_records [OF assms(1-3) this assms(5,6)] obtain e where
    "w_files w' (File name) = Some (evr_bucket_magic_number @ be32 e @ concat (map written_bytes (ys @ xs)))"
    by (auto simp: holds_records_def)
  from walk_bucket_records [OF assms(7) this assms(4)] show ?thesis by blast
qed

text \<open>Two blobs in one bucket.\<close>

definition demo_written :: "written list" where
  "demo_written = [(demo_blob, 5, [1, 2, 3]), (demo_blob\<lparr>wb_key := replicate 28 8, wb_size := 1, wb_chunks := [[4]]\<rparr>, 6, [4])]"

definition demo_bucket :: bytes where
  "demo_bucket = evr_bucket_magic_number @ be32 7 @ concat (map written_bytes demo_written)"

definition demo_dir :: "table_db world" where
  "demo_dir = \<lparr>w_files = [bucket_file 1 \<mapsto> demo_bucket], w_dir = [''lock'', bucket_file_name 1], w_io = [Io_short 2],
     w_db = \<lparr>tb_blobs = [], tb_buckets = []\<rparr>\<rparr>"

lemma demo_written_ok: "\<forall>x\<in>set demo_written. written_ok x"
  by (auto simp: demo_written_def written_ok_def demo_blob_def blob_holds_def evr_layout evr_chunk_size_def intro!: exI [of _ 1])

lemma demo_dir_facts: "calls_ok demo_dir" "w_files demo_dir (bucket_file 1) = Some demo_bucket"
  by (simp_all add: demo_dir_def calls_ok_def)

definition demo_start :: "table_db world" where
  "demo_start = \<lparr>w_files = [bucket_file 1 \<mapsto> evr_bucket_magic_number @ be32 7], w_dir = [bucket_file_name 1], w_io = [],
     w_db = \<lparr>tb_blobs = [], tb_buckets = [(1, 7)]\<rparr>\<rparr>"

definition demo_start_ctx :: evr_glacier_write_ctx where
  "demo_start_ctx = demo_ctx\<lparr>wc_bucket_f := Some \<lparr>fd_id = bucket_file 1, fd_off = 0\<rparr>, wc_bucket_index := 1, wc_bucket_pos := 7\<rparr>"

theorem walk_bucket_visits_appended_witness:
  "\<exists>c' w' w''. append_blobs table_ops 100 (replicate 42 0) demo_written demo_start_ctx demo_start = (Ret Evr_ok, c', w') \<and>
    evr_glacier_walk_bucket (bucket_file_name 1) None collect_stat [] w' = Some (Ret Evr_ok, written_stats 7 demo_written, w'')"
proof -
  have h: "holds_records (File (bucket_file_name 1)) [] demo_start_ctx demo_start"
    by (auto simp: holds_records_def demo_start_ctx_def demo_start_def bucket_file_def evr_layout)
  have fits: "wc_bucket_pos demo_start_ctx + length (concat (map written_bytes demo_written)) \<le> 100"
    by (simp add: demo_start_ctx_def demo_written_def written_bytes_def blob_record_def demo_blob_def evr_layout)
  have hm: "length (replicate 42 0 :: bytes) = evr_bucket_blob_header_size" by (simp add: evr_layout)
  have "calls_ok demo_start" by (simp add: calls_ok_def demo_start_def)
  from tbl.append_blobs_succeed [OF this h demo_written_ok hm fits] obtain c' w' where
    r: "append_blobs table_ops 100 (replicate 42 0) demo_written demo_start_ctx demo_start = (Ret Evr_ok, c', w')" "calls_ok w'" by blast
  from walk_bucket_visits_appended [OF tbl.sqlite_index_axioms r(1) h _ hm fits r(2)] r(1) demo_written_ok
  show ?thesis by (auto simp: evr_layout)
qed

text \<open>
  C31: the index database can be rebuilt from the buckets. When no call fails and every bucket of the
  directory has whole records, \<^verbatim>\<open>evr_glacier_reindex\<close> on an empty database returns \<^verbatim>\<open>evr_ok\<close>; the
  glacier then holds exactly the references of the records whose data has the digest of the
  reference, and what is stored under a reference has that digest.
\<close>

theorem reindex_rebuilds_index:
  assumes "sqlite_reliable S blobs buckets" "calls_ok w" "dir_whole (w_dir w) w"
    "\<forall>n\<in>set (bucket_indices (w_dir w)). buckets (w_db w) (word_of_nat n) = None" "blobs (w_db w) = (\<lambda>_. None)"
  shows "\<exists>c' w'. evr_glacier_reindex S sha3_224 c w = Some (Ret Evr_ok, c', w') \<and>
    (\<forall>k. glacier_abs blobs w' k \<noteq> None \<longleftrightarrow> (\<exists>n\<in>set (bucket_indices (w_dir w)).
       \<exists>st\<in>set (fst (bucket_stats (content w (bucket_file n)) evr_bucket_header_size)).
         indexable sha3_224 (content w (bucket_file n)) st \<and> st_ref st = k)) \<and>
    (\<forall>k flags d. glacier_abs blobs w' k = Some (flags, d) \<longrightarrow> evr_blob_ref_final sha3_224 d = k)"
  by (rule sqlite_reliable.reindex_result [OF assms])

lemma demo_dir_stats:
  "fst (bucket_stats demo_bucket evr_bucket_header_size) = written_stats evr_bucket_header_size demo_written"
proof -
  have len: "length (evr_bucket_magic_number @ be32 7) = evr_bucket_header_size" by (simp add: length_magic evr_layout)
  show ?thesis unfolding demo_bucket_def
    using bucket_stats_written [OF demo_written_ok, of "evr_bucket_magic_number @ be32 7"] len by simp
qed

lemma demo_bucket_whole: "bucket_whole demo_bucket"
proof -
  have len: "length (concat (map written_bytes demo_written)) = 88"
    by (simp add: demo_written_def written_bytes_def blob_record_def demo_blob_def evr_layout)
  have "7 + length (concat (map written_bytes demo_written)) = length demo_bucket"
    by (simp add: demo_bucket_def length_magic)
  then have "st \<in> set (written_stats evr_bucket_header_size demo_written) \<Longrightarrow> stat_whole demo_bucket st" for st
    using written_stats_whole [OF demo_written_ok, of st evr_bucket_header_size] by (simp add: stat_whole_def evr_layout)
  moreover have "take 3 demo_bucket = evr_bucket_magic_number" "length demo_bucket = 95"
    using len by (simp_all add: demo_bucket_def length_magic)
  ultimately show ?thesis by (auto simp: bucket_whole_def demo_dir_stats)
qed

lemma demo_dir_whole: "dir_whole (w_dir demo_dir) demo_dir" "bucket_indices (w_dir demo_dir) = [1]"
proof -
  have b: "bucket_index_of (bucket_file_name 1) = Some 1" "bucket_index_of ''lock'' = None"
    by (simp_all add: bucket_index_of_file_name) (simp add: bucket_index_of_def hex_digit_def evr_bucket_file_ext_def)
  then show i: "bucket_indices (w_dir demo_dir) = [1]" by (simp add: demo_dir_def)
  show "dir_whole (w_dir demo_dir) demo_dir"
    unfolding dir_whole_def i using demo_bucket_whole b by (auto simp: demo_dir_def)
qed

theorem reindex_rebuilds_index_witness:
  "\<exists>c' w'. evr_glacier_reindex table_ops (\<lambda>b. if b = [4] then replicate 28 8 else replicate 28 0) demo_ctx demo_dir = Some (Ret Evr_ok, c', w') \<and>
    glacier_abs table_find w' (replicate 28 8) \<noteq> None"
proof -
  let ?sha = "\<lambda>b :: bytes. if b = [4] then replicate 28 8 else replicate 28 (0 :: byte)"
  let ?st = "written_stat 52 (demo_blob\<lparr>wb_key := replicate 28 8, wb_size := 1, wb_chunks := [[4]]\<rparr>, 6, [4])"
  have cnt: "content demo_dir (bucket_file 1) = demo_bucket" by (simp add: demo_dir_def content_def)
  have "?st \<in> set (fst (bucket_stats demo_bucket evr_bucket_header_size))"
    unfolding demo_dir_stats by (simp add: demo_written_def written_bytes_def blob_record_def demo_blob_def evr_layout)
  moreover have "st_ref ?st = replicate 28 8" by (simp add: written_stat_def Let_def)
  moreover have "stat_data demo_bucket ?st = [4]"
    by (simp add: stat_data_def written_stat_def Let_def demo_bucket_def length_magic demo_written_def written_bytes_def
        blob_record_def demo_blob_def evr_layout)
  then have "indexable ?sha demo_bucket ?st"
    by (simp add: indexable_def evr_blob_ref_final_def evr_layout written_stat_def Let_def)
  ultimately have "\<exists>n\<in>set (bucket_indices (w_dir demo_dir)).
      \<exists>st\<in>set (fst (bucket_stats (content demo_dir (bucket_file n)) evr_bucket_header_size)).
        indexable ?sha (content demo_dir (bucket_file n)) st \<and> st_ref st = replicate 28 8"
    unfolding demo_dir_whole(2) using cnt by auto
  with reindex_rebuilds_index [OF tbl.sqlite_reliable_axioms demo_dir_facts(1) demo_dir_whole(1), of ?sha demo_ctx]
  show ?thesis by (fastforce simp: demo_dir_def)
qed

end
