(* ===== verification/Attr_Db.thy ===== *)
theory Attr_Db
  imports Index_Db Keys
begin

text \<open>
  The database of the attribute index, the SQLite side of \<^verbatim>\<open>src/attr-index-db.c\<close>. The record
  \<open>attr_stmts\<close> is the parameter that stands for SQLite, with one field per statement that
  \<^verbatim>\<open>evr_prepare_attr_index_db\<close> prepares. The locale \<open>sqlite_attr\<close> names the documented effect of the
  statements on the tables that \<^verbatim>\<open>evr_setup_attr_index_db\<close> creates, \<open>sqlite_attr_reliable\<close> adds
  that no statement fails. Both are interpreted on \<open>attr_table_ops\<close>, a database of lists.
\<close>

section \<open>Tables\<close>

text \<open>Column \<^verbatim>\<open>valid_until\<close> and the values may be null.\<close>

record attr_row =
  ar_seed :: bytes
  ar_key :: string
  ar_val_str :: "string option"
  ar_val_int :: "c_int option"
  ar_valid_from :: evr_time
  ar_valid_until :: "evr_time option"
  ar_trunc :: c_int

record claim_set_row =
  cs_created :: evr_time
  cs_fail_counter :: nat
  cs_last_fail :: "evr_time option"

record attr_tables =
  t_attr_def :: "string \<Rightarrow> c_int option"
  t_attr :: "64 word \<Rightarrow> attr_row option"
  t_claim :: "bytes \<Rightarrow> bytes option"
  t_claim_archive :: "bytes \<Rightarrow> evr_time option"
  t_state :: "c_int \<Rightarrow> 64 word option"
  t_claim_set :: "bytes \<Rightarrow> claim_set_row option"

section \<open>Statements\<close>

text \<open>
  A query delivers rows and ends with \<^verbatim>\<open>SQLITE_DONE\<close> or with an error; \<open>None\<close> when a parameter
  can not be bound. The rows of the attribute table come with their row id. A statement that has
  run to its end points to no row; SQLite leaves open what reading a column as text gives
  then, \<open>ai_no_row_text\<close>.
\<close>

type_synonym 'a row_list = "('a list \<times> bool) option"

record 'd attr_stmts =
  ai_find_state :: "'d \<Rightarrow> c_int \<Rightarrow> 64 word sql_row"
  ai_update_state :: "'d \<Rightarrow> 64 word \<Rightarrow> c_int \<Rightarrow> sql_res \<times> 'd"
  ai_find_attr_type_for_key :: "'d \<Rightarrow> string \<Rightarrow> c_int sql_row"
  ai_find_past_attr_siblings :: "'d \<Rightarrow> bytes \<Rightarrow> string \<Rightarrow> evr_time \<Rightarrow> (64 word \<times> attr_row) row_list"
  ai_find_future_attr_siblings :: "'d \<Rightarrow> bytes \<Rightarrow> string \<Rightarrow> evr_time \<Rightarrow> (64 word \<times> attr_row) row_list"
  ai_insert_attr :: "'d \<Rightarrow> attr_row \<Rightarrow> sql_res \<times> 'd"
  ai_insert_claim :: "'d \<Rightarrow> bytes \<Rightarrow> bytes \<Rightarrow> sql_res \<times> 'd"
  ai_find_claim_archived :: "'d \<Rightarrow> bytes \<Rightarrow> evr_time sql_row"
  ai_archive_claim :: "'d \<Rightarrow> bytes \<Rightarrow> evr_time \<Rightarrow> sql_res \<times> 'd"
  ai_insert_claim_set :: "'d \<Rightarrow> bytes \<Rightarrow> evr_time \<Rightarrow> sql_res \<times> 'd"
  ai_update_claim_set_failed :: "'d \<Rightarrow> evr_time \<Rightarrow> bytes \<Rightarrow> sql_res \<times> 'd"
  ai_reset_claim_set_failed :: "'d \<Rightarrow> bytes \<Rightarrow> sql_res \<times> 'd"
  ai_find_reindexable_claim_sets :: "'d \<Rightarrow> evr_time \<Rightarrow> bytes row_list"
  ai_update_attr_valid_until :: "'d \<Rightarrow> evr_time \<Rightarrow> 64 word \<Rightarrow> sql_res \<times> 'd"
  ai_find_seed_attrs :: "'d \<Rightarrow> bytes \<Rightarrow> evr_time \<Rightarrow> (string \<times> string) row_list"
  ai_find_claims_for_seed :: "'d \<Rightarrow> bytes \<Rightarrow> bytes row_list"
  ai_no_row_text :: "string option"

section \<open>What the sources rely on\<close>

text \<open>The rows of one seed and key, and those that are valid at a time. Times compare as signed numbers.\<close>

definition siblings :: "attr_tables \<Rightarrow> bytes \<Rightarrow> string \<Rightarrow> (64 word \<times> attr_row) set" where
  "siblings T seed key = {(i, r). t_attr T i = Some r \<and> ar_seed r = seed \<and> ar_key r = key}"

definition valid_at :: "evr_time \<Rightarrow> attr_row \<Rightarrow> bool" where
  "valid_at q r = (sint (ar_valid_from r) \<le> sint q \<and>
    (case ar_valid_until r of None \<Rightarrow> True | Some u \<Rightarrow> sint q < sint u))"

definition time_desc :: "(64 word \<times> attr_row) list \<Rightarrow> bool" where
  "time_desc rows = sorted_wrt (\<lambda>x y. sint (ar_valid_from (snd y)) \<le> sint (ar_valid_from (snd x))) rows"

text \<open>
  A new row gets a row id that is one larger than the largest one in use. A claim set is found again
  for indexing only if it failed.
\<close>

locale sqlite_attr =
  fixes S :: "'d attr_stmts" and tabs :: "'d \<Rightarrow> attr_tables"
  assumes find_state_row: "ai_find_state S d k = Sql_row v \<Longrightarrow> t_state (tabs d) k = Some v"
    and find_state_none: "ai_find_state S d k = Sql_no_row \<Longrightarrow> t_state (tabs d) k = None"
    and update_state_done: "ai_update_state S d v k = (Sql_done, d') \<Longrightarrow> tabs d' =
      (if t_state (tabs d) k = None then tabs d else (tabs d)\<lparr>t_state := (t_state (tabs d))(k \<mapsto> v)\<rparr>)"
    and update_state_keeps: "ai_update_state S d v k = (res, d') \<Longrightarrow> res \<noteq> Sql_done \<Longrightarrow> tabs d' = tabs d"
    and find_type_row: "ai_find_attr_type_for_key S d key = Sql_row ty \<Longrightarrow> t_attr_def (tabs d) key = Some ty"
    and find_type_none: "ai_find_attr_type_for_key S d key = Sql_no_row \<Longrightarrow> t_attr_def (tabs d) key = None"
    and past_rows: "ai_find_past_attr_siblings S d seed key t = Some (rows, True) \<Longrightarrow>
      distinct rows \<and> time_desc rows \<and>
      set rows = {x \<in> siblings (tabs d) seed key. sint (ar_valid_from (snd x)) \<le> sint t}"
    and future_rows: "ai_find_future_attr_siblings S d seed key t = Some (rows, True) \<Longrightarrow>
      distinct rows \<and> time_desc rows \<and>
      set rows = {x \<in> siblings (tabs d) seed key. sint t < sint (ar_valid_from (snd x))}"
    and past_rows_part: "ai_find_past_attr_siblings S d seed key t = Some (rows, False) \<Longrightarrow>
      time_desc rows \<and> set rows \<subseteq> {x \<in> siblings (tabs d) seed key. sint (ar_valid_from (snd x)) \<le> sint t} \<and>
      (\<forall>x \<in> siblings (tabs d) seed key. sint (ar_valid_from (snd x)) \<le> sint t \<longrightarrow> x \<notin> set rows \<longrightarrow>
         (\<forall>y\<in>set rows. sint (ar_valid_from (snd x)) \<le> sint (ar_valid_from (snd y))))"
    and future_rows_part: "ai_find_future_attr_siblings S d seed key t = Some (rows, False) \<Longrightarrow>
      set rows \<subseteq> {x \<in> siblings (tabs d) seed key. sint t < sint (ar_valid_from (snd x))}"
    and insert_attr_done: "ai_insert_attr S d r = (Sql_done, d') \<Longrightarrow> \<exists>i. t_attr (tabs d) i = None \<and>
      tabs d' = (tabs d)\<lparr>t_attr := (t_attr (tabs d))(i \<mapsto> r)\<rparr> \<and>
      (\<forall>n. 0 \<le> n \<longrightarrow> (\<forall>j\<in>dom (t_attr (tabs d)). 0 < sint j \<and> sint j \<le> n) \<longrightarrow> 0 < sint i \<and> sint i \<le> n + 1)"
    and insert_attr_keeps: "ai_insert_attr S d r = (res, d') \<Longrightarrow> res \<noteq> Sql_done \<Longrightarrow> tabs d' = tabs d"
    and insert_claim_done: "ai_insert_claim S d ref seed = (Sql_done, d') \<Longrightarrow> t_claim (tabs d) ref = None \<and>
      tabs d' = (tabs d)\<lparr>t_claim := (t_claim (tabs d))(ref \<mapsto> seed)\<rparr>"
    and insert_claim_keeps: "ai_insert_claim S d ref seed = (res, d') \<Longrightarrow> res \<noteq> Sql_done \<Longrightarrow> tabs d' = tabs d"
    and insert_claim_constraint: "ai_insert_claim S d ref seed = (Sql_constraint, d') \<Longrightarrow> t_claim (tabs d) ref \<noteq> None"
    and find_archived_row: "ai_find_claim_archived S d seed = Sql_row t \<Longrightarrow> t_claim_archive (tabs d) seed = Some t"
    and find_archived_none: "ai_find_claim_archived S d seed = Sql_no_row \<Longrightarrow> t_claim_archive (tabs d) seed = None"
    and archive_done: "ai_archive_claim S d seed t = (Sql_done, d') \<Longrightarrow>
      tabs d' = (tabs d)\<lparr>t_claim_archive := (t_claim_archive (tabs d))(seed \<mapsto> t)\<rparr>"
    and archive_keeps: "ai_archive_claim S d seed t = (res, d') \<Longrightarrow> res \<noteq> Sql_done \<Longrightarrow> tabs d' = tabs d"
    and insert_claim_set_done: "ai_insert_claim_set S d ref t = (Sql_done, d') \<Longrightarrow> t_claim_set (tabs d) ref = None \<and>
      tabs d' = (tabs d)\<lparr>t_claim_set := (t_claim_set (tabs d))
        (ref \<mapsto> \<lparr>cs_created = t, cs_fail_counter = 0, cs_last_fail = None\<rparr>)\<rparr>"
    and insert_claim_set_keeps: "ai_insert_claim_set S d ref t = (res, d') \<Longrightarrow> res \<noteq> Sql_done \<Longrightarrow> tabs d' = tabs d"
    and insert_claim_set_constraint:
      "ai_insert_claim_set S d ref t = (Sql_constraint, d') \<Longrightarrow> t_claim_set (tabs d) ref \<noteq> None"
    and set_failed_done: "ai_update_claim_set_failed S d t ref = (Sql_done, d') \<Longrightarrow>
      tabs d' = (tabs d)\<lparr>t_claim_set := (t_claim_set (tabs d))(ref := map_option
        (\<lambda>c. c\<lparr>cs_fail_counter := cs_fail_counter c + 1, cs_last_fail := Some t\<rparr>) (t_claim_set (tabs d) ref))\<rparr>"
    and set_failed_keeps: "ai_update_claim_set_failed S d t ref = (res, d') \<Longrightarrow> res \<noteq> Sql_done \<Longrightarrow> tabs d' = tabs d"
    and reset_failed_done: "ai_reset_claim_set_failed S d ref = (Sql_done, d') \<Longrightarrow>
      tabs d' = (tabs d)\<lparr>t_claim_set := (t_claim_set (tabs d))(ref := map_option
        (\<lambda>c. c\<lparr>cs_fail_counter := 0\<rparr>) (t_claim_set (tabs d) ref))\<rparr>"
    and reset_failed_keeps: "ai_reset_claim_set_failed S d ref = (res, d') \<Longrightarrow> res \<noteq> Sql_done \<Longrightarrow> tabs d' = tabs d"
    and reindexable_rows: "ai_find_reindexable_claim_sets S d t = Some (rs, ended) \<Longrightarrow> distinct rs \<and>
      (\<forall>ref\<in>set rs. \<exists>c. t_claim_set (tabs d) ref = Some c \<and> 0 < cs_fail_counter c)"
    and update_until_done: "ai_update_attr_valid_until S d t i = (Sql_done, d') \<Longrightarrow>
      tabs d' = (tabs d)\<lparr>t_attr := (t_attr (tabs d))(i := map_option (\<lambda>r. r\<lparr>ar_valid_until := Some t\<rparr>) (t_attr (tabs d) i))\<rparr>"
    and update_until_keeps: "ai_update_attr_valid_until S d t i = (res, d') \<Longrightarrow> res \<noteq> Sql_done \<Longrightarrow> tabs d' = tabs d"
    and seed_attrs_rows: "ai_find_seed_attrs S d seed q = Some (kvs, True) \<Longrightarrow>
      set kvs = {(k, v). \<exists>i r. (i, r) \<in> siblings (tabs d) seed k \<and> valid_at q r \<and> ar_val_str r = Some v}"
    and seed_attrs_part: "ai_find_seed_attrs S d seed q = Some (kvs, False) \<Longrightarrow>
      set kvs \<subseteq> {(k, v). \<exists>i r. (i, r) \<in> siblings (tabs d) seed k \<and> valid_at q r \<and> ar_val_str r = Some v}"
    and claims_for_seed_rows: "ai_find_claims_for_seed S d seed = Some (rs, True) \<Longrightarrow> set rs =
      {ref. t_claim (tabs d) ref = Some seed \<and>
        (\<exists>c. t_claim_set (tabs d) (take evr_blob_ref_size ref) = Some c \<and> cs_fail_counter c = 0)}"

text \<open>No statement fails but for the primary keys.\<close>

locale sqlite_attr_reliable = sqlite_attr +
  assumes find_state_ok: "ai_find_state S d k \<notin> {Sql_row_fail, Sql_row_bind_fail}"
    and update_state_ok: "fst (ai_update_state S d v k) = Sql_done"
    and find_type_ok: "ai_find_attr_type_for_key S d key \<notin> {Sql_row_fail, Sql_row_bind_fail}"
    and past_ok: "\<exists>rows. ai_find_past_attr_siblings S d seed key t = Some (rows, True)"
    and future_ok: "\<exists>rows. ai_find_future_attr_siblings S d seed key t = Some (rows, True)"
    and insert_attr_ok: "\<forall>j\<in>dom (t_attr (tabs d)). sint j < 2 ^ 63 - 1 \<Longrightarrow> fst (ai_insert_attr S d r) = Sql_done"
    and insert_claim_ok: "fst (ai_insert_claim S d ref seed) \<in> {Sql_done, Sql_constraint}"
    and find_archived_ok: "ai_find_claim_archived S d seed \<notin> {Sql_row_fail, Sql_row_bind_fail}"
    and archive_ok: "fst (ai_archive_claim S d seed t) = Sql_done"
    and insert_claim_set_ok: "fst (ai_insert_claim_set S d ref t) \<in> {Sql_done, Sql_constraint}"
    and set_failed_ok: "fst (ai_update_claim_set_failed S d t ref) = Sql_done"
    and reset_failed_ok: "fst (ai_reset_claim_set_failed S d ref) = Sql_done"
    and update_until_ok: "fst (ai_update_attr_valid_until S d t i) = Sql_done"
    and seed_attrs_ok: "\<exists>kvs. ai_find_seed_attrs S d seed q = Some (kvs, True)"

section \<open>A database of lists\<close>

text \<open>The row with the row id \<open>n\<close> is the entry \<open>n - 1\<close> of the list; rows are never deleted.\<close>

record attr_table_db =
  tb_attr_def :: "(string \<times> c_int) list"
  tb_attr :: "attr_row list"
  tb_claim :: "(bytes \<times> bytes) list"
  tb_claim_archive :: "(bytes \<times> evr_time) list"
  tb_state :: "(c_int \<times> 64 word) list"
  tb_claim_set :: "(bytes \<times> claim_set_row) list"

definition row_limit :: int where "row_limit = 2 ^ 63 - 1"

definition row_index :: "64 word \<Rightarrow> nat" where "row_index i = unat i - 1"

definition attr_at :: "attr_row list \<Rightarrow> 64 word \<Rightarrow> attr_row option" where
  "attr_at rs i =
    (if i \<noteq> 0 \<and> row_index i < length rs \<and> int (row_index i) < row_limit then Some (rs ! row_index i) else None)"

definition table_tabs :: "attr_table_db \<Rightarrow> attr_tables" where
  "table_tabs d =
    \<lparr>t_attr_def = map_of (tb_attr_def d), t_attr = attr_at (tb_attr d), t_claim = map_of (tb_claim d),
     t_claim_archive = map_of (tb_claim_archive d), t_state = map_of (tb_state d),
     t_claim_set = map_of (tb_claim_set d)\<rparr>"

definition attr_rows :: "attr_table_db \<Rightarrow> (64 word \<times> attr_row) list" where
  "attr_rows d = map (\<lambda>n. (word_of_nat (n + 1), tb_attr d ! n))
    (filter (\<lambda>n. int n < row_limit) [0..<length (tb_attr d)])"

definition sibling_rows :: "attr_table_db \<Rightarrow> bytes \<Rightarrow> string \<Rightarrow> (attr_row \<Rightarrow> bool) \<Rightarrow> (64 word \<times> attr_row) list" where
  "sibling_rows d seed key P =
    sort_key (\<lambda>x. - sint (ar_valid_from (snd x)))
      (filter (\<lambda>(i, r). ar_seed r = seed \<and> ar_key r = key \<and> P r) (attr_rows d))"

definition seed_attr_rows :: "attr_table_db \<Rightarrow> bytes \<Rightarrow> evr_time \<Rightarrow> (string \<times> string) list" where
  "seed_attr_rows d seed q =
    map (\<lambda>(i, r). (ar_key r, the (ar_val_str r)))
      (filter (\<lambda>(i, r). ar_seed r = seed \<and> valid_at q r \<and> ar_val_str r \<noteq> None) (attr_rows d))"

definition upd_row :: "'k \<Rightarrow> ('v \<Rightarrow> 'v) \<Rightarrow> ('k \<times> 'v) list \<Rightarrow> ('k \<times> 'v) list" where
  "upd_row k f rows = (case map_of rows k of None \<Rightarrow> rows | Some v \<Rightarrow> (k, f v) # rows)"

definition live_keys :: "('v \<Rightarrow> bool) \<Rightarrow> ('k \<times> 'v) list \<Rightarrow> 'k list" where
  "live_keys P rows = filter (\<lambda>k. case map_of rows k of None \<Rightarrow> False | Some v \<Rightarrow> P v) (remdups (map fst rows))"

text \<open>
  The interval of the statement for claim sets that failed grows by the factor 1.5 with every failure;
  \<open>3 ^ n * 30000 \<le> 2 ^ n * (q - l)\<close> is the comparison without the division.
\<close>

definition reindexable :: "evr_time \<Rightarrow> claim_set_row \<Rightarrow> bool" where
  "reindexable q c = (0 < cs_fail_counter c \<and> (case cs_last_fail c of None \<Rightarrow> False
    | Some l \<Rightarrow> 3 ^ cs_fail_counter c * 30000 \<le> 2 ^ cs_fail_counter c * (sint q - sint l)))"

definition attr_table_ops :: "attr_table_db attr_stmts" where
  "attr_table_ops =
    \<lparr>ai_find_state = \<lambda>d k. row_to_option (map_of (tb_state d) k),
     ai_update_state = \<lambda>d v k. (Sql_done, d\<lparr>tb_state := upd_row k (\<lambda>_. v) (tb_state d)\<rparr>),
     ai_find_attr_type_for_key = \<lambda>d key. row_to_option (map_of (tb_attr_def d) key),
     ai_find_past_attr_siblings = \<lambda>d seed key t.
       Some (sibling_rows d seed key (\<lambda>r. sint (ar_valid_from r) \<le> sint t), True),
     ai_find_future_attr_siblings = \<lambda>d seed key t.
       Some (sibling_rows d seed key (\<lambda>r. sint t < sint (ar_valid_from r)), True),
     ai_insert_attr = \<lambda>d r.
       (if int (length (tb_attr d)) < row_limit then (Sql_done, d\<lparr>tb_attr := tb_attr d @ [r]\<rparr>) else (Sql_fail, d)),
     ai_insert_claim = \<lambda>d ref seed.
       (if map_of (tb_claim d) ref \<noteq> None then (Sql_constraint, d)
        else (Sql_done, d\<lparr>tb_claim := (ref, seed) # tb_claim d\<rparr>)),
     ai_find_claim_archived = \<lambda>d seed. row_to_option (map_of (tb_claim_archive d) seed),
     ai_archive_claim = \<lambda>d seed t. (Sql_done, d\<lparr>tb_claim_archive := (seed, t) # tb_claim_archive d\<rparr>),
     ai_insert_claim_set = \<lambda>d ref t.
       (if map_of (tb_claim_set d) ref \<noteq> None then (Sql_constraint, d)
        else (Sql_done, d\<lparr>tb_claim_set :=
          (ref, \<lparr>cs_created = t, cs_fail_counter = 0, cs_last_fail = None\<rparr>) # tb_claim_set d\<rparr>)),
     ai_update_claim_set_failed = \<lambda>d t ref. (Sql_done, d\<lparr>tb_claim_set := upd_row ref
       (\<lambda>c. c\<lparr>cs_fail_counter := cs_fail_counter c + 1, cs_last_fail := Some t\<rparr>) (tb_claim_set d)\<rparr>),
     ai_reset_claim_set_failed = \<lambda>d ref. (Sql_done, d\<lparr>tb_claim_set := upd_row ref
       (\<lambda>c. c\<lparr>cs_fail_counter := 0\<rparr>) (tb_claim_set d)\<rparr>),
     ai_find_reindexable_claim_sets = \<lambda>d q. Some (live_keys (reindexable q) (tb_claim_set d), True),
     ai_update_attr_valid_until = \<lambda>d t i. (Sql_done, case attr_at (tb_attr d) i of None \<Rightarrow> d
       | Some r \<Rightarrow> d\<lparr>tb_attr := (tb_attr d)[row_index i := r\<lparr>ar_valid_until := Some t\<rparr>]\<rparr>),
     ai_find_seed_attrs = \<lambda>d seed q. Some (seed_attr_rows d seed q, True),
     ai_find_claims_for_seed = \<lambda>d seed.
       Some (filter (\<lambda>ref. case map_of (tb_claim_set d) (take evr_blob_ref_size ref) of
           None \<Rightarrow> False | Some c \<Rightarrow> cs_fail_counter c = 0)
         (live_keys (\<lambda>s. s = seed) (tb_claim d)), True),
     ai_no_row_text = None\<rparr>"

lemma map_of_upd_row: "map_of (upd_row k f rows) = (map_of rows)(k := map_option f (map_of rows k))"
  by (auto simp: upd_row_def fun_eq_iff split: option.split)

lemma live_keys_set: "set (live_keys P rows) = {k. \<exists>v. map_of rows k = Some v \<and> P v}"
proof -
  have "map_of rows k = Some v \<Longrightarrow> k \<in> fst ` set rows" for k v
    using map_of_SomeD by force
  then show ?thesis by (auto simp: live_keys_def split: option.splits)
qed

lemma distinct_live_keys: "distinct (live_keys P rows)"
  by (simp add: live_keys_def)

lemma row_index_word:
  assumes "int n < row_limit"
  shows "row_index (word_of_nat (n + 1)) = n" "(word_of_nat (n + 1) :: 64 word) \<noteq> 0"
    "sint (word_of_nat (n + 1) :: 64 word) = int n + 1"
proof -
  have n: "n + 1 < 2 ^ 63" using assms by (simp add: row_limit_def)
  have "unat (word_of_nat m :: 64 word) = m \<and> sint (word_of_nat m :: 64 word) = int m" if "m < 2 ^ 63" for m
    using that by (simp add: unsigned_of_nat take_bit_nat_eq_self signed_of_nat signed_take_bit_int_eq_self)
  from this [OF n] have u: "unat (word_of_nat (n + 1) :: 64 word) = n + 1"
    and i: "sint (word_of_nat (n + 1) :: 64 word) = int (n + 1)" by blast+
  show "row_index (word_of_nat (n + 1)) = n" unfolding row_index_def u by simp
  show "(word_of_nat (n + 1) :: 64 word) \<noteq> 0" using u by (metis add_is_0 one_neq_zero unsigned_0)
  show "sint (word_of_nat (n + 1) :: 64 word) = int n + 1" using i by linarith
qed

lemma attr_at_iff:
  "attr_at rs i = Some r \<longleftrightarrow> (\<exists>n. int n < row_limit \<and> n < length rs \<and> i = word_of_nat (n + 1) \<and> r = rs ! n)"
proof
  assume "attr_at rs i = Some r"
  then have h: "i \<noteq> 0" "int (row_index i) < row_limit" "row_index i < length rs" "r = rs ! row_index i"
    by (auto simp: attr_at_def split: if_splits)
  then have "i = word_of_nat (row_index i + 1)"
    by (simp add: row_index_def unat_gt_0 Suc_leI flip: of_nat_Suc)
  with h show "\<exists>n. int n < row_limit \<and> n < length rs \<and> i = word_of_nat (n + 1) \<and> r = rs ! n" by blast
next
  assume "\<exists>n. int n < row_limit \<and> n < length rs \<and> i = word_of_nat (n + 1) \<and> r = rs ! n"
  then obtain n where "int n < row_limit" "n < length rs" "i = word_of_nat (n + 1)" "r = rs ! n" by blast
  then show "attr_at rs i = Some r" using row_index_word [of n] by (simp add: attr_at_def)
qed

lemma attr_rows_set: "set (attr_rows d) = {(i, r). attr_at (tb_attr d) i = Some r}"
  by (auto simp: attr_rows_def attr_at_iff)

lemma distinct_attr_rows: "distinct (attr_rows d)"
proof -
  have "inj_on (\<lambda>n. (word_of_nat (n + 1) :: 64 word, tb_attr d ! n)) {n. n < length (tb_attr d) \<and> int n < row_limit}"
    using row_index_word(1) by (intro inj_onI) (metis mem_Collect_eq prod.inject)
  then show ?thesis by (auto simp: attr_rows_def distinct_map inj_on_def)
qed

lemma sibling_rows_spec:
  "distinct (sibling_rows d seed key P)" "time_desc (sibling_rows d seed key P)"
  "set (sibling_rows d seed key P) = {x \<in> siblings (table_tabs d) seed key. P (snd x)}"
proof -
  show "distinct (sibling_rows d seed key P)"
    by (simp add: sibling_rows_def distinct_attr_rows)
  have "sorted (map (\<lambda>x. - sint (ar_valid_from (snd x))) (sibling_rows d seed key P))"
    unfolding sibling_rows_def by (rule sorted_sort_key)
  then show "time_desc (sibling_rows d seed key P)"
    by (simp add: time_desc_def sorted_map)
  show "set (sibling_rows d seed key P) = {x \<in> siblings (table_tabs d) seed key. P (snd x)}"
    by (auto simp: sibling_rows_def attr_rows_set siblings_def table_tabs_def)
qed

lemma attr_at_append:
  assumes "int (length rs) < row_limit"
  shows "attr_at (rs @ [r]) = (attr_at rs)(word_of_nat (length rs + 1) \<mapsto> r)"
proof (intro ext option.expand)
  fix i
  have "attr_at (rs @ [r]) i = Some x \<longleftrightarrow> ((attr_at rs)(word_of_nat (length rs + 1) \<mapsto> r)) i = Some x" for x
  proof (cases "i = word_of_nat (length rs + 1)")
    case True
    then show ?thesis using row_index_word [OF assms] assms by (auto simp: attr_at_def)
  next
    case False
    then show ?thesis using assms by (auto simp: attr_at_iff nth_append less_Suc_eq)
  qed
  then show "attr_at (rs @ [r]) i = None \<longleftrightarrow> ((attr_at rs)(word_of_nat (length rs + 1) \<mapsto> r)) i = None"
    "\<And>x y. attr_at (rs @ [r]) i \<noteq> None \<Longrightarrow> ((attr_at rs)(word_of_nat (length rs + 1) \<mapsto> r)) i \<noteq> None \<Longrightarrow>
      the (attr_at (rs @ [r]) i) = the (((attr_at rs)(word_of_nat (length rs + 1) \<mapsto> r)) i)"
    by (metis not_Some_eq)+
qed

lemma attr_at_update:
  "attr_at (case attr_at rs i of None \<Rightarrow> rs | Some r \<Rightarrow> rs[row_index i := f r]) =
    (attr_at rs)(i := map_option f (attr_at rs i))"
proof (cases "attr_at rs i")
  case (Some r)
  then have i: "i \<noteq> 0" "row_index i < length rs" "int (row_index i) < row_limit" "r = rs ! row_index i"
    by (auto simp: attr_at_def split: if_splits)
  have inj: "row_index j = row_index i \<longleftrightarrow> j = i" if "j \<noteq> 0" for j
  proof
    assume "row_index j = row_index i"
    moreover have "0 < unat j" "0 < unat i" using that i(1) by (simp_all add: unat_gt_0)
    ultimately have "unat j = unat i" unfolding row_index_def by linarith
    then show "j = i" by (simp add: word_unat_eq_iff)
  qed simp
  have "attr_at (rs[row_index i := f r]) j = ((attr_at rs)(i := map_option f (attr_at rs i))) j" for j
    using i inj [of j] Some by (auto simp: attr_at_def nth_list_update)
  then show ?thesis using Some by (simp add: fun_eq_iff)
qed (simp add: fun_eq_iff)

lemma table_tabs_fields [simp]:
  "t_attr_def (table_tabs d) = map_of (tb_attr_def d)" "t_attr (table_tabs d) = attr_at (tb_attr d)"
  "t_claim (table_tabs d) = map_of (tb_claim d)" "t_claim_archive (table_tabs d) = map_of (tb_claim_archive d)"
  "t_state (table_tabs d) = map_of (tb_state d)" "t_claim_set (table_tabs d) = map_of (tb_claim_set d)"
  by (simp_all add: table_tabs_def)

lemma table_tabs_upd [simp]:
  "table_tabs (d\<lparr>tb_attr := rs\<rparr>) = (table_tabs d)\<lparr>t_attr := attr_at rs\<rparr>"
  "table_tabs (d\<lparr>tb_claim := cl\<rparr>) = (table_tabs d)\<lparr>t_claim := map_of cl\<rparr>"
  "table_tabs (d\<lparr>tb_claim_archive := ca\<rparr>) = (table_tabs d)\<lparr>t_claim_archive := map_of ca\<rparr>"
  "table_tabs (d\<lparr>tb_state := st\<rparr>) = (table_tabs d)\<lparr>t_state := map_of st\<rparr>"
  "table_tabs (d\<lparr>tb_claim_set := cs\<rparr>) = (table_tabs d)\<lparr>t_claim_set := map_of cs\<rparr>"
  by (simp_all add: table_tabs_def)

lemma table_insert_attr:
  assumes "ai_insert_attr attr_table_ops d r = (Sql_done, d')"
  shows "\<exists>i. t_attr (table_tabs d) i = None \<and>
    table_tabs d' = (table_tabs d)\<lparr>t_attr := (t_attr (table_tabs d))(i \<mapsto> r)\<rparr> \<and>
    (\<forall>n. 0 \<le> n \<longrightarrow> (\<forall>j\<in>dom (t_attr (table_tabs d)). 0 < sint j \<and> sint j \<le> n) \<longrightarrow> 0 < sint i \<and> sint i \<le> n + 1)"
proof -
  let ?k = "length (tb_attr d)"
  let ?i = "word_of_nat (?k + 1) :: 64 word"
  have k: "int ?k < row_limit" and d': "d' = d\<lparr>tb_attr := tb_attr d @ [r]\<rparr>"
    using assms by (auto simp: attr_table_ops_def split: if_splits)
  have fresh: "attr_at (tb_attr d) ?i = None"
    using row_index_word [OF k] by (simp add: attr_at_def)
  have bound: "0 < sint ?i \<and> sint ?i \<le> n + 1"
    if n: "0 \<le> n" "\<forall>j\<in>dom (attr_at (tb_attr d)). 0 < sint j \<and> sint j \<le> n" for n
  proof (cases ?k)
    case (Suc m)
    then have "attr_at (tb_attr d) (word_of_nat (m + 1)) = Some (tb_attr d ! m)"
      using k by (subst attr_at_iff) (intro exI [of _ m], simp)
    then have "sint (word_of_nat (m + 1) :: 64 word) \<le> n" using n(2) by blast
    moreover have "int m < row_limit" using Suc k by simp
    ultimately have "int m + 1 \<le> n" using row_index_word(3) [of m] by linarith
    then show ?thesis using row_index_word(3) [OF k] Suc by linarith
  qed (use row_index_word(3) [OF k] n(1) in auto)
  show ?thesis
    using fresh bound by (intro exI [of _ ?i]) (simp add: d' attr_at_append [OF k])
qed

lemma table_insert_attr_ok:
  assumes "\<forall>j\<in>dom (t_attr (table_tabs d)). sint j < 2 ^ 63 - 1"
  shows "fst (ai_insert_attr attr_table_ops d r) = Sql_done"
proof (rule ccontr)
  assume "fst (ai_insert_attr attr_table_ops d r) \<noteq> Sql_done"
  then have full: "row_limit \<le> int (length (tb_attr d))"
    by (auto simp: attr_table_ops_def split: if_splits)
  let ?m = "nat row_limit - 1"
  have m: "int ?m < row_limit" by (simp add: row_limit_def)
  then have "attr_at (tb_attr d) (word_of_nat (?m + 1)) = Some (tb_attr d ! ?m)"
    using full by (subst attr_at_iff) (intro exI [of _ ?m], simp)
  then have "sint (word_of_nat (?m + 1) :: 64 word) < 2 ^ 63 - 1" using assms by fastforce
  then show False using row_index_word(3) [OF m] by (simp add: row_limit_def)
qed

lemma table_update_until:
  assumes "ai_update_attr_valid_until attr_table_ops d t i = (Sql_done, d')"
  shows "table_tabs d' = (table_tabs d)\<lparr>t_attr := (t_attr (table_tabs d))
     (i := map_option (\<lambda>r. r\<lparr>ar_valid_until := Some t\<rparr>) (t_attr (table_tabs d) i))\<rparr>"
proof -
  let ?f = "\<lambda>r. r\<lparr>ar_valid_until := Some t\<rparr>"
  let ?rs = "case attr_at (tb_attr d) i of None \<Rightarrow> tb_attr d | Some r \<Rightarrow> (tb_attr d)[row_index i := ?f r]"
  have "d' = d\<lparr>tb_attr := ?rs\<rparr>"
    using assms by (cases "attr_at (tb_attr d) i") (simp_all add: attr_table_ops_def)
  then show ?thesis using attr_at_update [of "tb_attr d" i ?f] by simp
qed

lemma table_seed_attrs:
  "set (seed_attr_rows d seed q) =
    {(k, v). \<exists>i r. (i, r) \<in> siblings (table_tabs d) seed k \<and> valid_at q r \<and> ar_val_str r = Some v}"
  by (force simp: seed_attr_rows_def siblings_def attr_rows_set)

interpretation atbl: sqlite_attr_reliable attr_table_ops table_tabs
proof (unfold_locales, goal_cases)
  case (11 d r d')
  then show ?case by (rule table_insert_attr)
next
  case (28 d t i d')
  then show ?case by (rule table_update_until)
next
  case (32 d seed rs)
  then show ?case by (auto simp: attr_table_ops_def live_keys_set split: option.splits)
next
  case (38 d r)
  then show ?case by (rule table_insert_attr_ok)
qed (auto simp: attr_table_ops_def map_of_upd_row sibling_rows_spec table_seed_attrs live_keys_set distinct_live_keys
    reindexable_def fun_eq_iff split: if_splits option.splits)

end
