(* ===== verification/Attr_Index.thy ===== *)
theory Attr_Index
  imports Attr_Db
begin

text \<open>
  The operations of \<^verbatim>\<open>src/attr-index-db.c\<close> on the tables: the state, the types of the attributes,
  the merge of the attributes of a claim, and the visit of the attributes and claims of a seed.
  \<^verbatim>\<open>sqlite3_reset\<close> fails exactly if the last step did, and a failed reset ends the process: a
  step that fails is a \<open>Panic\<close>, a parameter that can not be bound an error.
\<close>

section \<open>Constants and structures\<close>

definition evr_type_str :: c_int where "evr_type_str = 1"
definition evr_type_int :: c_int where "evr_type_int = 2"
definition evr_type_claim_ref :: c_int where "evr_type_claim_ref = 3"

definition evr_attr_op_replace :: c_int where "evr_attr_op_replace = 1"
definition evr_attr_op_add :: c_int where "evr_attr_op_add = 2"
definition evr_attr_op_rm :: c_int where "evr_attr_op_rm = 3"

definition evr_attr_value_type_static :: c_int where "evr_attr_value_type_static = 1"
definition evr_attr_value_type_self_claim_ref :: c_int where "evr_attr_value_type_self_claim_ref = 2"

definition evr_seed_type_self :: c_int where "evr_seed_type_self = 1"
definition evr_seed_type_claim :: c_int where "evr_seed_type_claim = 2"

record evr_attr =
  a_op :: c_int
  a_key :: string
  a_value_type :: c_int
  a_value :: "string option"

record evr_attr_claim =
  ac_seed_type :: c_int
  ac_seed :: evr_claim_ref
  ac_index_seed :: size_t
  ac_attr :: "evr_attr list"

section \<open>The state\<close>

definition run_update :: "sql_res \<times> 'd \<Rightarrow> evr_code exec \<times> 'd" where
  "run_update res = (case fst res of
      Sql_done \<Rightarrow> Ret Evr_ok
    | Sql_bind_fail \<Rightarrow> Ret Evr_error
    | _ \<Rightarrow> Panic, snd res)"

text \<open>A result \<open>None\<close> is an error.\<close>

definition evr_attr_index_get_state :: "'d attr_stmts \<Rightarrow> 'd \<Rightarrow> c_int \<Rightarrow> 64 word option exec" where
  "evr_attr_index_get_state S d key = (case ai_find_state S d key of
      Sql_row v \<Rightarrow> Ret (Some v)
    | Sql_no_row \<Rightarrow> Ret None
    | Sql_row_fail \<Rightarrow> Panic
    | Sql_row_bind_fail \<Rightarrow> Ret None)"

definition evr_attr_index_set_state :: "'d attr_stmts \<Rightarrow> 'd \<Rightarrow> c_int \<Rightarrow> 64 word \<Rightarrow> evr_code exec \<times> 'd" where
  "evr_attr_index_set_state S d key v = run_update (ai_update_state S d v key)"

section \<open>Inserting a row\<close>

definition evr_get_attr_type_for_key :: "'d attr_stmts \<Rightarrow> 'd \<Rightarrow> string \<Rightarrow> c_int option exec" where
  "evr_get_attr_type_for_key S d key = (case ai_find_attr_type_for_key S d key of
      Sql_row ty \<Rightarrow> Ret (Some ty)
    | Sql_no_row \<Rightarrow> Ret (Some evr_type_str)
    | Sql_row_fail \<Rightarrow> Panic
    | Sql_row_bind_fail \<Rightarrow> Ret None)"

text \<open>
  The number of the column \<^verbatim>\<open>val_int\<close>, and whether the value is valid for the type of the
  attribute. \<^verbatim>\<open>evr_parse_claim_ref\<close> writes into an uninitialised reference.
\<close>

definition attr_number :: "c_int \<Rightarrow> string option \<Rightarrow> c_int option exec option" where
  "attr_number attr_type val = (case val of
      None \<Rightarrow> Some (Ret None)
    | Some v \<Rightarrow>
       if attr_type = evr_type_int
       then (case sscanf_d v of
          None \<Rightarrow> None
        | Some n \<Rightarrow> Some (if fits_int n then Ret (Some (word_of_int n)) else Undef))
       else if attr_type = evr_type_claim_ref \<and> fst (evr_parse_claim_ref (replicate evr_claim_ref_size 0) v) \<noteq> Evr_ok
       then None
       else Some (Ret None))"

definition evr_insert_attr ::
  "'d attr_stmts \<Rightarrow> 'd \<Rightarrow> evr_claim_ref \<Rightarrow> string \<Rightarrow> string option \<Rightarrow> evr_time \<Rightarrow> evr_time option \<Rightarrow> c_int
   \<Rightarrow> evr_code exec \<times> 'd" where
  "evr_insert_attr S d ref key val valid_from valid_until trunc =
    (case evr_get_attr_type_for_key S d key of
       Ret None \<Rightarrow> (Ret Evr_error, d)
     | Ret (Some attr_type) \<Rightarrow>
        (case attr_number attr_type val of
           None \<Rightarrow> (Ret Evr_user_data_invalid, d)
         | Some (Ret number) \<Rightarrow>
            run_update (ai_insert_attr S d
              \<lparr>ar_seed = take evr_claim_ref_size ref, ar_key = key, ar_val_str = val, ar_val_int = number,
               ar_valid_from = valid_from, ar_valid_until = valid_until, ar_trunc = trunc\<rparr>)
         | Some _ \<Rightarrow> (Undef, d))
     | _ \<Rightarrow> (Panic, d))"

section \<open>Merging an attribute\<close>

text \<open>The row id is stored in an \<^verbatim>\<open>int\<close> and converted back to 64 bits.\<close>

definition evr_attr_index_update_valid_until ::
  "'d attr_stmts \<Rightarrow> 'd \<Rightarrow> c_int \<Rightarrow> evr_time \<Rightarrow> evr_code exec \<times> 'd" where
  "evr_attr_index_update_valid_until S d rowid valid_until =
    run_update (ai_update_attr_valid_until S d valid_until (signed (rowid :: c_int)))"

text \<open>The first loop of the merges: it ends the rows it visits, up to the first truncating row.\<close>

primrec end_past_siblings ::
  "'d attr_stmts \<Rightarrow> evr_time \<Rightarrow> bool \<Rightarrow> (64 word \<times> attr_row) list \<Rightarrow> 'd \<Rightarrow> evr_code exec \<times> 'd" where
  "end_past_siblings S t ended [] d = (if ended then Ret Evr_ok else Panic, d)"
| "end_past_siblings S t ended (x # rows) d =
    (case evr_attr_index_update_valid_until S d (signed (fst x)) t of (res, d1) \<Rightarrow>
       if res = Ret Evr_ok
       then if ar_trunc (snd x) \<noteq> 0 then (Ret Evr_ok, d1) else end_past_siblings S t ended rows d1
       else (case res of Ret _ \<Rightarrow> Ret Evr_error | _ \<Rightarrow> res, d1))"

text \<open>
  The loop over the future siblings: the result is the time at which the new row ends. A statement
  that fails ends the process.
\<close>

primrec replace_future :: "bool \<Rightarrow> (64 word \<times> attr_row) list \<Rightarrow> evr_time option exec" where
  "replace_future ended [] = (if ended then Ret None else Panic)"
| "replace_future ended (x # rows) =
    (if ar_trunc (snd x) \<noteq> 0 then Ret (Some (ar_valid_from (snd x))) else replace_future ended rows)"

text \<open>
  The end of the merges: with the time of the future siblings the row is inserted.
\<close>

definition insert_until ::
  "'d attr_stmts \<Rightarrow> 'd \<Rightarrow> evr_claim_ref \<Rightarrow> string \<Rightarrow> string option \<Rightarrow> evr_time \<Rightarrow> c_int \<Rightarrow> evr_time option exec
   \<Rightarrow> evr_code exec \<times> 'd" where
  "insert_until S d seed key val t trunc future = (case future of
      Ret u \<Rightarrow>
       (case evr_insert_attr S d seed key val t u trunc of (res, d1) \<Rightarrow>
          (case res of Ret c \<Rightarrow> Ret (if c = Evr_ok \<or> c = Evr_user_data_invalid then c else Evr_error) | _ \<Rightarrow> res, d1))
    | Panic \<Rightarrow> (Panic, d)
    | Undef \<Rightarrow> (Undef, d))"

definition evr_merge_attr_index_attr_replace ::
  "'d attr_stmts \<Rightarrow> evr_time \<Rightarrow> evr_claim_ref \<Rightarrow> string \<Rightarrow> string option \<Rightarrow> 'd \<Rightarrow> evr_code exec \<times> 'd" where
  "evr_merge_attr_index_attr_replace S t seed key val d =
    (case evr_get_attr_type_for_key S d key of
       Ret None \<Rightarrow> (Ret Evr_error, d)
     | Ret (Some _) \<Rightarrow>
        (case ai_find_past_attr_siblings S d (take evr_claim_ref_size seed) key t of
           None \<Rightarrow> (Ret Evr_error, d)
         | Some (past, ended) \<Rightarrow>
            (case end_past_siblings S t ended past d of (res, d1) \<Rightarrow>
               if res \<noteq> Ret Evr_ok then (res, d1)
               else (case ai_find_future_attr_siblings S d1 (take evr_claim_ref_size seed) key t of
                  None \<Rightarrow> (Ret Evr_error, d1)
                | Some (future, fended) \<Rightarrow>
                   insert_until S d1 seed key val t 1 (replace_future fended future))))
     | _ \<Rightarrow> (Panic, d))"

text \<open>
  An addition ends the rows with the same value and rows without value. \<^verbatim>\<open>strcmp\<close> with a null
  pointer is undefined. The loop returns the row the statement points to, which is none when it
  ran to its end.
\<close>

primrec add_past ::
  "'d attr_stmts \<Rightarrow> evr_time \<Rightarrow> string option \<Rightarrow> bool \<Rightarrow> (64 word \<times> attr_row) list \<Rightarrow> 'd
   \<Rightarrow> evr_code exec \<times> 64 word option \<times> 'd" where
  "add_past S t val ended [] d = (if ended then Ret Evr_ok else Panic, None, d)"
| "add_past S t val ended (x # rows) d =
    (if ar_val_str (snd x) \<noteq> None \<and> val = None then (Undef, None, d)
     else case (if ar_val_str (snd x) = None \<or> ar_val_str (snd x) = val
                then evr_attr_index_update_valid_until S d (signed (fst x)) t else (Ret Evr_ok, d)) of
       (res, d1) \<Rightarrow>
         if res = Ret Evr_ok
         then if ar_trunc (snd x) \<noteq> 0 then (Ret Evr_ok, Some (fst x), d1) else add_past S t val ended rows d1
         else (case res of Ret _ \<Rightarrow> Ret Evr_error | _ \<Rightarrow> res, None, d1))"

text \<open>
  The loop over the future siblings reads the value from the first column of the statement for the
  past siblings: the row id as decimal text, if that statement points to a row.
\<close>

definition past_text :: "'d attr_stmts \<Rightarrow> 64 word option \<Rightarrow> string option" where
  "past_text S cur = (case cur of None \<Rightarrow> ai_no_row_text S | Some i \<Rightarrow> Some (fmt_dec (sint i)))"

primrec add_future :: "string option \<Rightarrow> string option \<Rightarrow> bool \<Rightarrow> (64 word \<times> attr_row) list \<Rightarrow> evr_time option exec" where
  "add_future val row_value ended [] = (if ended then Ret None else Panic)"
| "add_future val row_value ended (x # rows) =
    (if ar_trunc (snd x) \<noteq> 0 then Ret (Some (ar_valid_from (snd x)))
     else if row_value \<noteq> None \<and> val = None then Undef
     else if row_value \<noteq> None \<and> row_value = val then Ret (Some (ar_valid_from (snd x)))
     else add_future val row_value ended rows)"

definition evr_merge_attr_index_attr_add ::
  "'d attr_stmts \<Rightarrow> evr_time \<Rightarrow> evr_claim_ref \<Rightarrow> string \<Rightarrow> string option \<Rightarrow> 'd \<Rightarrow> evr_code exec \<times> 'd" where
  "evr_merge_attr_index_attr_add S t seed key val d =
    (case evr_get_attr_type_for_key S d key of
       Ret None \<Rightarrow> (Ret Evr_error, d)
     | Ret (Some _) \<Rightarrow>
        (case ai_find_past_attr_siblings S d (take evr_claim_ref_size seed) key t of
           None \<Rightarrow> (Ret Evr_error, d)
         | Some (past, ended) \<Rightarrow>
            (case add_past S t val ended past d of (res, cur, d1) \<Rightarrow>
               if res \<noteq> Ret Evr_ok then (res, d1)
               else (case ai_find_future_attr_siblings S d1 (take evr_claim_ref_size seed) key t of
                  None \<Rightarrow> (Ret Evr_error, d1)
                | Some (future, fended) \<Rightarrow>
                   insert_until S d1 seed key val t 0 (add_future val (past_text S cur) fended future))))
     | _ \<Rightarrow> (Panic, d))"

text \<open>A removal takes the first future sibling, whatever it is.\<close>

primrec rm_future :: "bool \<Rightarrow> (64 word \<times> attr_row) list \<Rightarrow> evr_time option exec" where
  "rm_future ended [] = (if ended then Ret None else Panic)"
| "rm_future ended (x # rows) = Ret (Some (ar_valid_from (snd x)))"

definition evr_merge_attr_index_attr_rm ::
  "'d attr_stmts \<Rightarrow> evr_time \<Rightarrow> evr_claim_ref \<Rightarrow> string \<Rightarrow> string option \<Rightarrow> 'd \<Rightarrow> evr_code exec \<times> 'd" where
  "evr_merge_attr_index_attr_rm S t seed key val d =
    (case ai_find_past_attr_siblings S d (take evr_claim_ref_size seed) key t of
       None \<Rightarrow> (Ret Evr_error, d)
     | Some (past, ended) \<Rightarrow>
        (case end_past_siblings S t ended past d of (res, d1) \<Rightarrow>
           if res \<noteq> Ret Evr_ok then (res, d1)
           else (case ai_find_future_attr_siblings S d1 (take evr_claim_ref_size seed) key t of
              None \<Rightarrow> (Ret Evr_error, d1)
            | Some (future, fended) \<Rightarrow> insert_until S d1 seed key val t 1 (rm_future fended future))))"

section \<open>Merging a claim\<close>

text \<open>An attribute of an unknown value type is skipped.\<close>

definition attr_value :: "evr_claim_ref \<Rightarrow> evr_attr \<Rightarrow> string option option" where
  "attr_value ref a =
    (if a_value_type a = evr_attr_value_type_static then Some (a_value a)
     else if a_value_type a = evr_attr_value_type_self_claim_ref then Some (Some (evr_fmt_claim_ref ref))
     else None)"

definition merge_attr_op ::
  "'d attr_stmts \<Rightarrow> evr_time \<Rightarrow> evr_claim_ref \<Rightarrow> evr_attr \<Rightarrow> string option \<Rightarrow> 'd \<Rightarrow> evr_code exec \<times> 'd" where
  "merge_attr_op S t seed a val d =
    (if a_op a = evr_attr_op_replace then evr_merge_attr_index_attr_replace S t seed (a_key a) val d
     else if a_op a = evr_attr_op_add then evr_merge_attr_index_attr_add S t seed (a_key a) val d
     else if a_op a = evr_attr_op_rm then evr_merge_attr_index_attr_rm S t seed (a_key a) val d
     else (Ret Evr_error, d))"

primrec evr_merge_attr_index_attr ::
  "'d attr_stmts \<Rightarrow> evr_time \<Rightarrow> evr_claim_ref \<Rightarrow> evr_claim_ref \<Rightarrow> evr_attr list \<Rightarrow> 'd \<Rightarrow> evr_code exec \<times> 'd" where
  "evr_merge_attr_index_attr S t seed ref [] d = (Ret Evr_ok, d)"
| "evr_merge_attr_index_attr S t seed ref (a # as) d =
    (case attr_value ref a of
       None \<Rightarrow> evr_merge_attr_index_attr S t seed ref as d
     | Some val \<Rightarrow>
        (case merge_attr_op S t seed a val d of (res, d1) \<Rightarrow>
           (case res of
              Ret c \<Rightarrow>
                if c = Evr_user_data_invalid then (Ret Evr_user_data_invalid, d1)
                else if c \<noteq> Evr_ok then (Ret Evr_error, d1)
                else evr_merge_attr_index_attr S t seed ref as d1
            | _ \<Rightarrow> (res, d1))))"

definition evr_merge_attr_index_claim ::
  "'d attr_stmts \<Rightarrow> evr_time \<Rightarrow> evr_claim_ref \<Rightarrow> evr_attr_claim \<Rightarrow> 'd \<Rightarrow> evr_code exec \<times> 'd" where
  "evr_merge_attr_index_claim S t cref claim d =
    (if ac_seed_type claim \<noteq> evr_seed_type_claim then (Ret Evr_error, d)
     else case evr_merge_attr_index_attr S t (ac_seed claim) cref (ac_attr claim) d of (res, d1) \<Rightarrow>
       (case res of
          Ret c \<Rightarrow>
            if c = Evr_user_data_invalid then (Ret Evr_user_data_invalid, d1)
            else if c \<noteq> Evr_ok then (Ret Evr_error, d1)
            else (case ai_insert_claim S d1 (take evr_claim_ref_size cref) (take evr_claim_ref_size (ac_seed claim)) of
                (r, d2) \<Rightarrow>
                  (case r of
                     Sql_done \<Rightarrow> Ret Evr_ok
                   | Sql_constraint \<Rightarrow> Ret Evr_ok
                   | Sql_bind_fail \<Rightarrow> Ret Evr_error
                   | Sql_fail \<Rightarrow> Panic, d2))
        | _ \<Rightarrow> (res, d1)))"

section \<open>Visiting attributes and claims\<close>

text \<open>The second component tells whether a step failed, so that the reset of the statement fails.\<close>

primrec evr_visit_attr_query ::
  "('c \<Rightarrow> string \<Rightarrow> string \<Rightarrow> evr_code \<times> 'c) \<Rightarrow> bool \<Rightarrow> (string \<times> string) list \<Rightarrow> 'c \<Rightarrow> evr_code \<times> bool \<times> 'c" where
  "evr_visit_attr_query visit ended [] c = (if ended then Evr_ok else Evr_error, \<not> ended, c)"
| "evr_visit_attr_query visit ended (kv # kvs) c =
    (case visit c (fst kv) (snd kv) of (res, c1) \<Rightarrow>
       if res \<noteq> Evr_ok then (Evr_error, False, c1) else evr_visit_attr_query visit ended kvs c1)"

definition evr_get_seed_attrs ::
  "'d attr_stmts \<Rightarrow> ('c \<Rightarrow> string \<Rightarrow> string \<Rightarrow> evr_code \<times> 'c) \<Rightarrow> 'd \<Rightarrow> evr_time \<Rightarrow> evr_claim_ref \<Rightarrow> 'c
   \<Rightarrow> evr_code exec \<times> 'c" where
  "evr_get_seed_attrs S visit d t seed c =
    (case ai_find_seed_attrs S d (take evr_claim_ref_size seed) t of
       None \<Rightarrow> (Ret Evr_error, c)
     | Some (kvs, ended) \<Rightarrow>
        (case evr_visit_attr_query visit ended kvs c of (res, failed, c1) \<Rightarrow>
           (if failed then Panic else Ret res, c1)))"

primrec visit_claims_loop ::
  "('c \<Rightarrow> bytes \<Rightarrow> evr_code \<times> 'c) \<Rightarrow> bool \<Rightarrow> bytes list \<Rightarrow> 'c \<Rightarrow> evr_code exec \<times> 'c" where
  "visit_claims_loop visit ended [] c = (if ended then Ret Evr_ok else Panic, c)"
| "visit_claims_loop visit ended (ref # rs) c =
    (if length ref \<noteq> evr_claim_ref_size then (Ret Evr_error, c)
     else case visit c ref of (res, c1) \<Rightarrow>
       if res \<noteq> Evr_ok then (Ret Evr_error, c1) else visit_claims_loop visit ended rs c1)"

definition evr_attr_visit_claims_for_seed ::
  "'d attr_stmts \<Rightarrow> ('c \<Rightarrow> bytes \<Rightarrow> evr_code \<times> 'c) \<Rightarrow> 'd \<Rightarrow> evr_claim_ref \<Rightarrow> 'c \<Rightarrow> evr_code exec \<times> 'c" where
  "evr_attr_visit_claims_for_seed S visit d seed_ref c =
    (case ai_find_claims_for_seed S d (take evr_claim_ref_size seed_ref) of
       None \<Rightarrow> (Ret Evr_error, c)
     | Some (rs, ended) \<Rightarrow> visit_claims_loop visit ended rs c)"

end
