(* ===== verification/Attr_Merge.thy ===== *)
theory Attr_Merge
  imports Attr_Index
begin

text \<open>
  What the merge of attributes means. The values of a seed and key at a time are those of the rows
  that are valid then. When the claims are merged in the order of their times, a replacement or removal
  at \<open>t\<close> makes the values from \<open>t\<close> on the new one, an addition adds a value from \<open>t\<close> on, and
  nothing changes before \<open>t\<close>. The invariant \<open>merge_inv\<close> says why the loop over the past rows may
  stop at the first truncating row.
\<close>

section \<open>Values at a time\<close>

definition vals :: "attr_tables \<Rightarrow> bytes \<Rightarrow> string \<Rightarrow> evr_time \<Rightarrow> string set" where
  "vals T seed key q = {v. \<exists>x\<in>siblings T seed key. valid_at q (snd x) \<and> ar_val_str (snd x) = Some v}"

abbreviation from_time :: "64 word \<times> attr_row \<Rightarrow> int" where
  "from_time x \<equiv> sint (ar_valid_from (snd x))"

abbreviation truncates :: "64 word \<times> attr_row \<Rightarrow> bool" where
  "truncates x \<equiv> ar_trunc (snd x) \<noteq> 0"

text \<open>The rows from the last truncating one on.\<close>

definition segment :: "(64 word \<times> attr_row) set \<Rightarrow> (64 word \<times> attr_row) set" where
  "segment R = {x \<in> R. \<forall>y\<in>R. truncates y \<longrightarrow> from_time y \<le> from_time x}"

text \<open>
  All times are at most \<open>m\<close> and the rows begin at different times. A row before a truncating one
  has ended, and a value of a row of the last segment is there from then on.
\<close>

definition merge_inv :: "attr_tables \<Rightarrow> bytes \<Rightarrow> string \<Rightarrow> int \<Rightarrow> bool" where
  "merge_inv T seed key m =
    ((\<forall>x\<in>siblings T seed key. from_time x \<le> m \<and> (\<forall>u. ar_valid_until (snd x) = Some u \<longrightarrow> sint u \<le> m)) \<and>
     inj_on from_time (siblings T seed key) \<and>
     (\<forall>x\<in>siblings T seed key. \<forall>y\<in>siblings T seed key.
        truncates y \<longrightarrow> from_time x < from_time y \<longrightarrow> ar_valid_until (snd x) \<noteq> None) \<and>
     (\<forall>x\<in>segment (siblings T seed key). \<forall>v q. ar_val_str (snd x) = Some v \<longrightarrow> from_time x \<le> sint q \<longrightarrow>
        v \<in> vals T seed key q))"

definition row_bound :: "attr_tables \<Rightarrow> int \<Rightarrow> bool" where
  "row_bound T n = (\<forall>j\<in>dom (t_attr T). 0 < sint j \<and> sint j \<le> n)"

lemma merge_inv_empty: "siblings T seed key = {} \<Longrightarrow> merge_inv T seed key m"
  by (simp add: merge_inv_def segment_def)

lemma siblings_cong: "t_attr T' = t_attr T \<Longrightarrow> siblings T' seed key = siblings T seed key"
  by (simp add: siblings_def)

lemma merge_inv_cong:
  "siblings T' seed key = siblings T seed key \<Longrightarrow> merge_inv T' seed key m = merge_inv T seed key m"
  by (simp add: merge_inv_def vals_def)

lemma merge_inv_mono: "merge_inv T seed key m \<Longrightarrow> m \<le> m' \<Longrightarrow> merge_inv T seed key m'"
  unfolding merge_inv_def by force

lemma valsI: "x \<in> siblings T seed key \<Longrightarrow> valid_at q (snd x) \<Longrightarrow> ar_val_str (snd x) = Some v \<Longrightarrow> v \<in> vals T seed key q"
  unfolding vals_def by blast

section \<open>One merge on the rows\<close>

text \<open>Rows of \<open>E\<close> end at \<open>t\<close>, and the row \<open>n\<close> is new.\<close>

definition end_row :: "evr_time \<Rightarrow> (64 word \<times> attr_row) set \<Rightarrow> 64 word \<times> attr_row \<Rightarrow> 64 word \<times> attr_row" where
  "end_row t E x = (if x \<in> E then (fst x, (snd x)\<lparr>ar_valid_until := Some t\<rparr>) else x)"

definition merged ::
  "attr_tables \<Rightarrow> attr_tables \<Rightarrow> bytes \<Rightarrow> string \<Rightarrow> evr_time \<Rightarrow> (64 word \<times> attr_row) set \<Rightarrow> 64 word \<times> attr_row \<Rightarrow> bool" where
  "merged T T' seed key t E n =
    (siblings T' seed key = insert n (end_row t E ` siblings T seed key) \<and>
     (\<forall>seed' key'. (seed', key') \<noteq> (seed, key) \<longrightarrow> siblings T' seed' key' = siblings T seed' key'))"

lemma end_row_fields [simp]:
  "fst (end_row t E x) = fst x" "ar_valid_from (snd (end_row t E x)) = ar_valid_from (snd x)"
  "ar_val_str (snd (end_row t E x)) = ar_val_str (snd x)" "ar_trunc (snd (end_row t E x)) = ar_trunc (snd x)"
  "ar_valid_until (snd (end_row t E x)) = (if x \<in> E then Some t else ar_valid_until (snd x))"
  by (simp_all add: end_row_def)

lemma valid_at_end_row:
  "valid_at q (snd (end_row t E x)) \<longleftrightarrow>
    (if x \<in> E then from_time x \<le> sint q \<and> sint q < sint t else valid_at q (snd x))"
  by (simp add: valid_at_def end_row_def)

text \<open>What both kinds of merges share: the times and the rows of other seeds and keys.\<close>

lemma merged_times:
  assumes inv: "merge_inv T seed key m" and mg: "merged T T' seed key t E (i, r)" and m: "m < sint t"
    and r: "ar_valid_from r = t" "ar_valid_until r = None"
  shows "\<forall>x\<in>siblings T' seed key. from_time x \<le> sint t \<and> (\<forall>u. ar_valid_until (snd x) = Some u \<longrightarrow> sint u \<le> sint t)"
    "inj_on from_time (siblings T' seed key)"
proof -
  have S': "siblings T' seed key = insert (i, r) (end_row t E ` siblings T seed key)"
    using mg by (simp add: merged_def)
  have le: "from_time x < sint t" if "x \<in> siblings T seed key" for x
    using inv m that unfolding merge_inv_def by force
  have un: "sint u \<le> sint t" if "x \<in> siblings T seed key" "ar_valid_until (snd x) = Some u" for x u
    using inv m that unfolding merge_inv_def by force
  show "\<forall>x\<in>siblings T' seed key. from_time x \<le> sint t \<and> (\<forall>u. ar_valid_until (snd x) = Some u \<longrightarrow> sint u \<le> sint t)"
    unfolding S' using le un r by (auto simp: less_imp_le split: if_splits)
  have comp: "from_time \<circ> end_row t E = from_time" by (simp add: fun_eq_iff)
  have "inj_on from_time (siblings T seed key)" using inv by (simp add: merge_inv_def)
  then have "inj_on from_time (end_row t E ` siblings T seed key)"
    by (intro inj_on_imageI) (simp only: comp)
  moreover have "sint t \<notin> from_time ` end_row t E ` siblings T seed key"
    unfolding image_comp comp using le by force
  ultimately show "inj_on from_time (siblings T' seed key)"
    unfolding S' inj_on_insert using r(1) by force
qed

text \<open>Before the time of the merge nothing changes, as the rows that are ended again cover their values.\<close>

lemma merged_before:
  assumes inv: "merge_inv T seed key m" and mg: "merged T T' seed key t E (i, r)"
    and E: "E \<subseteq> segment (siblings T seed key)" and r: "ar_valid_from r = t" and q: "sint q < sint t"
  shows "vals T' seed key q = vals T seed key q"
proof
  have S': "siblings T' seed key = insert (i, r) (end_row t E ` siblings T seed key)"
    using mg by (simp add: merged_def)
  show "vals T' seed key q \<subseteq> vals T seed key q"
  proof
    fix v assume "v \<in> vals T' seed key q"
    then obtain y where y: "y \<in> siblings T' seed key" "valid_at q (snd y)" "ar_val_str (snd y) = Some v"
      unfolding vals_def by blast
    then have "y \<noteq> (i, r)" using q r by (auto simp: valid_at_def)
    then obtain x where x: "x \<in> siblings T seed key" "y = end_row t E x" using y(1) S' by blast
    show "v \<in> vals T seed key q"
    proof (cases "x \<in> E")
      case True
      then have "x \<in> segment (siblings T seed key)" "from_time x \<le> sint q" "ar_val_str (snd x) = Some v"
        using E y x by (auto simp: valid_at_end_row)
      then show ?thesis using inv unfolding merge_inv_def by blast
    next
      case False
      then show ?thesis using x y by (intro valsI [OF x(1)]) (auto simp: valid_at_end_row)
    qed
  qed
  show "vals T seed key q \<subseteq> vals T' seed key q"
  proof
    fix v assume "v \<in> vals T seed key q"
    then obtain x where x: "x \<in> siblings T seed key" "valid_at q (snd x)" "ar_val_str (snd x) = Some v"
      unfolding vals_def by blast
    then have "valid_at q (snd (end_row t E x))" using q by (auto simp: valid_at_end_row valid_at_def)
    then show "v \<in> vals T' seed key q" using x S' by (intro valsI [of "end_row t E x"]) auto
  qed
qed

text \<open>A replacement or removal ends the whole segment.\<close>

lemma merged_truncating:
  assumes inv: "merge_inv T seed key m" and mg: "merged T T' seed key t (segment (siblings T seed key)) (i, r)"
    and m: "m < sint t" and r: "ar_valid_from r = t" "ar_valid_until r = None" "ar_trunc r \<noteq> 0"
  shows "vals T' seed key q = (if sint q < sint t then vals T seed key q else set_option (ar_val_str r))"
    "merge_inv T' seed key (sint t)"
proof -
  let ?R = "siblings T seed key" and ?E = "segment (siblings T seed key)"
  have S': "siblings T' seed key = insert (i, r) (end_row t ?E ` ?R)"
    using mg by (simp add: merged_def)
  have ended: "\<exists>u. ar_valid_until (snd (end_row t ?E x)) = Some u \<and> sint u \<le> sint t" if x: "x \<in> ?R" for x
  proof (cases "x \<in> ?E")
    case False
    then obtain y where "y \<in> ?R" "truncates y" "from_time x < from_time y"
      using x unfolding segment_def by fastforce
    then obtain u where "ar_valid_until (snd x) = Some u"
      using inv x unfolding merge_inv_def by blast
    moreover have "sint u \<le> m" using inv x calculation unfolding merge_inv_def by blast
    ultimately show ?thesis using False m by auto
  qed auto
  have after: "vals T' seed key p = set_option (ar_val_str r)" if p: "\<not> sint p < sint t" for p
  proof -
    have "\<not> valid_at p (snd (end_row t ?E x))" if "x \<in> ?R" for x
      using ended [OF that] p by (auto simp: valid_at_def simp del: end_row_fields)
    moreover have "valid_at p r" using r p by (simp add: valid_at_def)
    ultimately show ?thesis unfolding vals_def S' by auto
  qed
  then show "vals T' seed key q = (if sint q < sint t then vals T seed key q else set_option (ar_val_str r))"
    using merged_before [OF inv mg _ r(1)] by auto
  have lt: "from_time x < sint t" if "x \<in> ?R" for x
    using inv that m unfolding merge_inv_def by force
  have seg: "segment (siblings T' seed key) \<subseteq> {(i, r)}"
    using r lt unfolding segment_def S' by fastforce
  show "merge_inv T' seed key (sint t)"
    unfolding merge_inv_def
  proof (intro conjI)
    show "\<forall>x\<in>siblings T' seed key. \<forall>y\<in>siblings T' seed key.
        truncates y \<longrightarrow> from_time x < from_time y \<longrightarrow> ar_valid_until (snd x) \<noteq> None"
      using ended lt r unfolding S' by fastforce
    show "\<forall>x\<in>segment (siblings T' seed key). \<forall>v q. ar_val_str (snd x) = Some v \<longrightarrow>
        from_time x \<le> sint q \<longrightarrow> v \<in> vals T' seed key q"
      using seg after r(1) by auto
  qed (use merged_times [OF inv mg m r(1,2)] in blast)+
qed

text \<open>An addition ends the rows of the segment that have the same value or none.\<close>

lemma merged_adding:
  assumes inv: "merge_inv T seed key m" and m: "m < sint t"
    and E: "E = {x \<in> segment (siblings T seed key). ar_val_str (snd x) = None \<or> ar_val_str (snd x) = Some v}"
    and mg: "merged T T' seed key t E (i, r)"
    and r: "ar_valid_from r = t" "ar_valid_until r = None" "ar_trunc r = 0" "ar_val_str r = Some v"
  shows "vals T' seed key q = (if sint q < sint t then vals T seed key q else insert v (vals T seed key q))"
    "merge_inv T' seed key (sint t)"
proof -
  let ?R = "siblings T seed key"
  have S': "siblings T' seed key = insert (i, r) (end_row t E ` ?R)"
    using mg by (simp add: merged_def)
  have Esub: "E \<subseteq> segment ?R" using E by blast
  have after: "vals T' seed key p = insert v (vals T seed key p)" if p: "\<not> sint p < sint t" for p
  proof -
    have "w \<in> vals T' seed key p \<longleftrightarrow> w \<in> vals T seed key p" if w: "w \<noteq> v" for w
    proof -
      have "valid_at p (snd (end_row t E x)) \<longleftrightarrow> valid_at p (snd x)"
        if "x \<in> ?R" "ar_val_str (snd x) = Some w" for x
        using that w by (auto simp: valid_at_end_row E)
      moreover have "w \<in> vals T' seed key p \<longleftrightarrow>
          (\<exists>x\<in>?R. valid_at p (snd (end_row t E x)) \<and> ar_val_str (snd x) = Some w)"
        unfolding vals_def S' mem_Collect_eq bex_simps
        using w r(4) by (metis (no_types) end_row_fields(3) option.inject snd_conv)
      ultimately show ?thesis unfolding vals_def by blast
    qed
    moreover have "valid_at p r" using r p by (simp add: valid_at_def)
    then have "v \<in> vals T' seed key p"
      using r(4) S' by (intro valsI [of "(i, r)"]) simp_all
    ultimately show ?thesis by (intro set_eqI, rename_tac w, case_tac "w = v") simp_all
  qed
  then show "vals T' seed key q = (if sint q < sint t then vals T seed key q else insert v (vals T seed key q))"
    using merged_before [OF inv mg Esub r(1)] by auto
  have lt: "from_time x < sint t" if "x \<in> ?R" for x
    using inv that m unfolding merge_inv_def by force
  have seg: "x \<in> segment ?R" if x: "x \<in> ?R" "end_row t E x \<in> segment (siblings T' seed key)" for x
    using x unfolding segment_def S' by auto
  show "merge_inv T' seed key (sint t)"
    unfolding merge_inv_def
  proof (intro conjI)
    show "\<forall>x\<in>siblings T' seed key. \<forall>y\<in>siblings T' seed key.
        truncates y \<longrightarrow> from_time x < from_time y \<longrightarrow> ar_valid_until (snd x) \<noteq> None"
    proof (intro ballI impI)
      fix x y assume "x \<in> siblings T' seed key" "y \<in> siblings T' seed key"
        and h: "truncates y" "from_time x < from_time y"
      moreover have "y \<noteq> (i, r)" using h(1) r(3) by auto
      ultimately obtain y0 where y0: "y0 \<in> ?R" "y = end_row t E y0" unfolding S' by blast
      then have "x \<noteq> (i, r)" using h(2) r(1) lt [OF y0(1)] by auto
      then obtain x0 where x0: "x0 \<in> ?R" "x = end_row t E x0"
        using \<open>x \<in> siblings T' seed key\<close> unfolding S' by blast
      have "truncates y0" "from_time x0 < from_time y0" using h x0 y0 by simp_all
      then have "ar_valid_until (snd x0) \<noteq> None"
        using inv y0(1) x0(1) unfolding merge_inv_def by blast
      then show "ar_valid_until (snd x) \<noteq> None" using x0 by simp
    qed
    show "\<forall>x\<in>segment (siblings T' seed key). \<forall>w q. ar_val_str (snd x) = Some w \<longrightarrow>
        from_time x \<le> sint q \<longrightarrow> w \<in> vals T' seed key q"
    proof (intro ballI allI impI)
      fix x :: "64 word \<times> attr_row" and w :: string and q :: evr_time
      assume x: "x \<in> segment (siblings T' seed key)" "ar_val_str (snd x) = Some w" "from_time x \<le> sint q"
      show "w \<in> vals T' seed key q"
      proof (cases "x = (i, r)")
        case True
        then show ?thesis using x r after [of q] by auto
      next
        case False
        then obtain x0 where x0: "x0 \<in> ?R" "x = end_row t E x0"
          using x(1) unfolding segment_def S' by blast
        have "x0 \<in> segment ?R" "ar_val_str (snd x0) = Some w" "from_time x0 \<le> sint q"
          using seg [OF x0(1)] x x0(2) by simp_all
        then have "w \<in> vals T seed key q" using inv unfolding merge_inv_def by blast
        then show ?thesis using after [of q] merged_before [OF inv mg Esub r(1)] by (cases "sint q < sint t") auto
      qed
    qed
  qed (use merged_times [OF inv mg m r(1,2)] in blast)+
qed

lemma merged_other:
  assumes "merged T T' seed key t E n" "(seed', key') \<noteq> (seed, key)"
  shows "siblings T' seed' key' = siblings T seed' key'"
  using assms by (simp add: merged_def)

section \<open>The loops\<close>

primrec upto_trunc :: "(64 word \<times> attr_row) list \<Rightarrow> (64 word \<times> attr_row) list" where
  "upto_trunc [] = []"
| "upto_trunc (x # xs) = x # (if truncates x then [] else upto_trunc xs)"

definition set_until :: "attr_tables \<Rightarrow> 64 word set \<Rightarrow> evr_time \<Rightarrow> attr_tables" where
  "set_until T I t = T\<lparr>t_attr := \<lambda>i. if i \<in> I then map_option (\<lambda>r. r\<lparr>ar_valid_until := Some t\<rparr>) (t_attr T i) else t_attr T i\<rparr>"

lemma set_until_insert: "set_until (set_until T {i} t) I t = set_until T (insert i I) t"
  by (auto simp: set_until_def fun_eq_iff option.map_comp o_def)

lemma set_until_empty [simp]: "set_until T {} t = T"
  by (simp add: set_until_def)

lemma upto_trunc_subset: "set (upto_trunc xs) \<subseteq> set xs"
  by (induction xs) auto

lemma upto_trunc_all: "\<not> (\<exists>x\<in>set xs. truncates x) \<Longrightarrow> upto_trunc xs = xs"
  by (induction xs) auto

text \<open>On rows in descending order of distinct times the loop visits the segment.\<close>

lemma upto_trunc_segment:
  assumes "time_desc xs" "inj_on from_time (set xs)"
  shows "set (upto_trunc xs) = segment (set xs)"
  using assms
proof (induction xs)
  case (Cons x xs)
  have le: "\<forall>y\<in>set xs. from_time y \<le> from_time x" and desc: "time_desc xs"
    using Cons.prems(1) by (auto simp: time_desc_def)
  have inj: "inj_on from_time (set xs)" using Cons.prems(2) by (simp add: inj_on_insert)
  have strict: "\<forall>y\<in>set xs. y \<noteq> x \<longrightarrow> from_time y < from_time x"
  proof (intro ballI impI)
    fix y assume y: "y \<in> set xs" "y \<noteq> x"
    then have "from_time y \<noteq> from_time x" using Cons.prems(2) by (auto simp: inj_on_def)
    then show "from_time y < from_time x" using le y(1) by fastforce
  qed
  show ?case
  proof (cases "truncates x")
    case True
    then show ?thesis using le strict unfolding segment_def by fastforce
  next
    case False
    then have "segment (set (x # xs)) = insert x (segment (set xs))"
      using le unfolding segment_def by auto
    then show ?thesis using False Cons.IH [OF desc inj] by simp
  qed
qed (simp add: segment_def)

lemma row_id_fits:
  assumes "0 < sint i" "sint i < 2 ^ 31"
  shows "signed (signed (i :: 64 word) :: c_int) = i"
proof -
  have "signed_take_bit 31 (sint i) = sint i"
    using assms by (intro signed_take_bit_int_eq_self) simp_all
  then have eq: "sint (signed i :: c_int) = sint i"
    by transfer simp
  have "(signed (signed i :: c_int) :: 64 word) = word_of_int (sint (signed i :: c_int))" by transfer simp
  also have "\<dots> = word_of_int (sint i)" by (simp only: eq)
  also have "\<dots> = i" by transfer simp
  finally show ?thesis .
qed

definition short_ids :: "(64 word \<times> attr_row) list \<Rightarrow> bool" where
  "short_ids rows = (\<forall>x\<in>set rows. 0 < sint (fst x) \<and> sint (fst x) < 2 ^ 31)"

lemma run_update_ok: "run_update res = (Ret Evr_ok, d) \<longleftrightarrow> res = (Sql_done, d)"
  by (cases res; cases "fst res") (auto simp: run_update_def)

context sqlite_attr
begin

lemma update_valid_until_ok:
  assumes "evr_attr_index_update_valid_until S d (signed i) t = (Ret Evr_ok, d')"
    and "0 < sint i" "sint i < 2 ^ 31"
  shows "tabs d' = set_until (tabs d) {i} t"
proof -
  have "ai_update_attr_valid_until S d t i = (Sql_done, d')"
    using assms(1) row_id_fits [OF assms(2,3)]
    by (simp add: evr_attr_index_update_valid_until_def run_update_ok)
  then show ?thesis
    using update_until_done [of d t i d'] by (auto simp: set_until_def fun_eq_iff)
qed

lemma end_past_siblings_ok:
  assumes "end_past_siblings S t ended rows d = (Ret Evr_ok, d')" "short_ids rows"
  shows "tabs d' = set_until (tabs d) (fst ` set (upto_trunc rows)) t \<and> (ended \<or> (\<exists>x\<in>set rows. truncates x))"
  using assms
proof (induction rows arbitrary: d)
  case (Cons x rows)
  obtain res d1 where u: "evr_attr_index_update_valid_until S d (signed (fst x)) t = (res, d1)"
    by fastforce
  have "res = Ret Evr_ok" using Cons.prems(1) u by (auto split: if_splits exec.splits)
  then have T: "tabs d1 = set_until (tabs d) {fst x} t"
    using update_valid_until_ok u Cons.prems(2) by (auto simp: short_ids_def)
  show ?case
  proof (cases "truncates x")
    case True
    then show ?thesis using Cons.prems(1) u \<open>res = Ret Evr_ok\<close> T by auto
  next
    case False
    then have "end_past_siblings S t ended rows d1 = (Ret Evr_ok, d')" "short_ids rows"
      using Cons.prems u \<open>res = Ret Evr_ok\<close> by (auto simp: short_ids_def)
    then have "tabs d' = set_until (tabs d1) (fst ` set (upto_trunc rows)) t \<and> (ended \<or> (\<exists>x\<in>set rows. truncates x))"
      by (rule Cons.IH)
    then show ?thesis using False T by (auto simp: set_until_insert)
  qed
qed (auto split: if_splits)

lemma add_past_ok:
  assumes "add_past S t (Some v) ended rows d = (Ret Evr_ok, cur, d')" "short_ids rows"
  shows "tabs d' = set_until (tabs d)
      (fst ` {x \<in> set (upto_trunc rows). ar_val_str (snd x) = None \<or> ar_val_str (snd x) = Some v}) t \<and>
    (ended \<or> (\<exists>x\<in>set rows. truncates x))"
  using assms
proof (induction rows arbitrary: d)
  case (Cons x rows)
  let ?hit = "ar_val_str (snd x) = None \<or> ar_val_str (snd x) = Some v"
  let ?E = "\<lambda>xs. {x \<in> set xs. ar_val_str (snd x) = None \<or> ar_val_str (snd x) = Some v}"
  obtain res d1 where u: "(if ?hit then evr_attr_index_update_valid_until S d (signed (fst x)) t else (Ret Evr_ok, d)) = (res, d1)"
    by fastforce
  have ok: "res = Ret Evr_ok" using Cons.prems(1) u by (auto split: if_splits exec.splits)
  then have T: "tabs d1 = set_until (tabs d) (if ?hit then {fst x} else {}) t"
    using update_valid_until_ok [of d "fst x" t d1] u Cons.prems(2) by (auto simp: short_ids_def split: if_splits)
  show ?case
  proof (cases "truncates x")
    case True
    then have "d' = d1" using Cons.prems(1) u ok by simp
    moreover have "fst ` ?E (upto_trunc (x # rows)) = (if ?hit then {fst x} else {})" using True by auto
    ultimately show ?thesis using T True by auto
  next
    case False
    then have "add_past S t (Some v) ended rows d1 = (Ret Evr_ok, cur, d')" "short_ids rows"
      using Cons.prems u ok by (simp_all add: short_ids_def)
    then have IH: "tabs d' = set_until (tabs d1) (fst ` ?E (upto_trunc rows)) t \<and> (ended \<or> (\<exists>x\<in>set rows. truncates x))"
      by (rule Cons.IH)
    have "fst ` ?E (upto_trunc (x # rows)) = (if ?hit then {fst x} else {}) \<union> fst ` ?E (upto_trunc rows)"
      using False by auto
    then show ?thesis using IH T by (auto simp: set_until_insert)
  qed
qed (auto split: if_splits)

end

section \<open>The merges\<close>

lemma siblings_set_until:
  assumes E: "E \<subseteq> siblings T seed key"
  shows "siblings (set_until T (fst ` E) t) seed key = end_row t E ` siblings T seed key"
    "(seed', key') \<noteq> (seed, key) \<Longrightarrow> siblings (set_until T (fst ` E) t) seed' key' = siblings T seed' key'"
proof -
  have mem: "i \<in> fst ` E \<longleftrightarrow> (i, r) \<in> E" if "t_attr T i = Some r" for i r
    using E that by (force simp: siblings_def)
  show "siblings (set_until T (fst ` E) t) seed key = end_row t E ` siblings T seed key" (is "?L = ?R")
  proof
    show "?L \<subseteq> ?R"
    proof
      fix x assume "x \<in> ?L"
      then obtain i r where x: "x = (i, r)" and r: "t_attr (set_until T (fst ` E) t) i = Some r"
        and k: "ar_seed r = seed" "ar_key r = key" by (auto simp: siblings_def)
      then obtain r0 where r0: "t_attr T i = Some r0" by (auto simp: set_until_def split: if_splits)
      then have "r = (if (i, r0) \<in> E then r0\<lparr>ar_valid_until := Some t\<rparr> else r0)"
        using r mem [OF r0] by (auto simp: set_until_def split: if_splits)
      then have "x = end_row t E (i, r0)" "(i, r0) \<in> siblings T seed key"
        using x k r0 by (auto simp: end_row_def siblings_def split: if_splits)
      then show "x \<in> ?R" by blast
    qed
    show "?R \<subseteq> ?L" using mem by (auto simp: siblings_def set_until_def end_row_def)
  qed
  assume ne: "(seed', key') \<noteq> (seed, key)"
  have "t_attr (set_until T (fst ` E) t) i = Some r \<and> ar_seed r = seed' \<and> ar_key r = key' \<longleftrightarrow>
      t_attr T i = Some r \<and> ar_seed r = seed' \<and> ar_key r = key'" for i r
  proof (cases "i \<in> fst ` E")
    case True
    then obtain r0 where "t_attr T i = Some r0" "ar_seed r0 = seed" "ar_key r0 = key"
      using E by (force simp: siblings_def)
    then show ?thesis using True ne by (auto simp: set_until_def)
  qed (simp add: set_until_def)
  then show "siblings (set_until T (fst ` E) t) seed' key' = siblings T seed' key'"
    by (simp add: siblings_def)
qed

lemma dom_set_until: "dom (t_attr (set_until T I t)) = dom (t_attr T)"
  by (auto simp: set_until_def dom_def split: if_splits)

definition merge_row :: "bytes \<Rightarrow> string \<Rightarrow> string option \<Rightarrow> c_int option \<Rightarrow> evr_time \<Rightarrow> c_int \<Rightarrow> attr_row" where
  "merge_row seed key val num t trunc =
    \<lparr>ar_seed = seed, ar_key = key, ar_val_str = val, ar_val_int = num, ar_valid_from = t,
     ar_valid_until = None, ar_trunc = trunc\<rparr>"

lemma merge_row_fields [simp]:
  "ar_seed (merge_row seed key val num t tr) = seed" "ar_key (merge_row seed key val num t tr) = key"
  "ar_val_str (merge_row seed key val num t tr) = val" "ar_valid_from (merge_row seed key val num t tr) = t"
  "ar_valid_until (merge_row seed key val num t tr) = None" "ar_trunc (merge_row seed key val num t tr) = tr"
  by (simp_all add: merge_row_def)

text \<open>
  The effect of a merge: rows of \<open>E\<close> end, one row is added, the other tables stay, and the row
  ids grow by at most one.
\<close>

definition merge_effect ::
  "attr_tables \<Rightarrow> attr_tables \<Rightarrow> bytes \<Rightarrow> string \<Rightarrow> string option \<Rightarrow> evr_time \<Rightarrow> c_int \<Rightarrow> (64 word \<times> attr_row) set \<Rightarrow> bool" where
  "merge_effect T T' seed key val t trunc E =
    ((\<exists>i num. merged T T' seed key t E (i, merge_row seed key val num t trunc)) \<and>
     T' = T\<lparr>t_attr := t_attr T'\<rparr> \<and> (\<forall>n\<ge>0. row_bound T n \<longrightarrow> row_bound T' (n + 1)))"

context sqlite_attr
begin

lemma insert_until_ok:
  assumes ins: "insert_until S d seed key val t trunc (if fended then Ret None else Panic) = (Ret Evr_ok, d')"
    and T: "tabs d = set_until T (fst ` E) t" and E: "E \<subseteq> siblings T seed key"
    and len: "length seed = evr_claim_ref_size"
  shows "merge_effect T (tabs d') seed key val t trunc E"
proof -
  have f: fended using ins by (cases fended) (simp_all add: insert_until_def)
  obtain num where "ai_insert_attr S d (merge_row seed key val num t trunc) = (Sql_done, d')"
    using ins len f by (auto simp: insert_until_def evr_insert_attr_def run_update_ok merge_row_def
        split: exec.splits option.splits prod.splits if_splits)
  then obtain i where i: "t_attr (tabs d) i = None"
      "tabs d' = (tabs d)\<lparr>t_attr := (t_attr (tabs d))(i \<mapsto> merge_row seed key val num t trunc)\<rparr>"
      "\<forall>n. 0 \<le> n \<longrightarrow> (\<forall>j\<in>dom (t_attr (tabs d)). 0 < sint j \<and> sint j \<le> n) \<longrightarrow> 0 < sint i \<and> sint i \<le> n + 1"
    using insert_attr_done by blast
  have "siblings (tabs d') seed' key' = (if (seed', key') = (seed, key)
      then insert (i, merge_row seed key val num t trunc) (siblings (tabs d) seed' key')
      else siblings (tabs d) seed' key')" for seed' key'
    using i(1) by (auto simp: siblings_def i(2) split: if_splits)
  then have "merged T (tabs d') seed key t E (i, merge_row seed key val num t trunc)"
    using siblings_set_until [OF E] by (auto simp: merged_def T)
  moreover have "tabs d' = T\<lparr>t_attr := t_attr (tabs d')\<rparr>"
    by (simp add: i(2) T set_until_def)
  moreover have "row_bound (tabs d') (n + 1)" if n: "0 \<le> n" "row_bound T n" for n
  proof -
    have b: "\<forall>j\<in>dom (t_attr (tabs d)). 0 < sint j \<and> sint j \<le> n"
      using n(2) by (simp add: row_bound_def T dom_set_until)
    then have "0 < sint i \<and> sint i \<le> n + 1" using i(3) n(1) by blast
    moreover have "0 < sint j \<and> sint j \<le> n + 1" if "j \<in> dom (t_attr (tabs d))" for j
      using bspec [OF b that] by linarith
    ultimately show ?thesis by (simp add: row_bound_def i(2))
  qed
  ultimately show ?thesis unfolding merge_effect_def by blast
qed

lemma no_future:
  assumes inv: "merge_inv T seed key m" and m: "m < sint t"
    and T: "tabs d = set_until T (fst ` E) t" and E: "E \<subseteq> siblings T seed key"
    and q: "ai_find_future_attr_siblings S d seed key t = Some (rows, ended)"
  shows "rows = []"
proof -
  have "set rows \<subseteq> {x \<in> siblings (tabs d) seed key. sint t < from_time x}"
    using future_rows [of d seed key t rows] future_rows_part [of d seed key t rows] q by (cases ended) auto
  moreover have le: "from_time x \<le> m" if x: "x \<in> siblings (tabs d) seed key" for x
    using inv x siblings_set_until(1) [OF E] unfolding merge_inv_def T by auto
  ultimately have "False" if "x \<in> set rows" for x
  proof -
    have "x \<in> siblings (tabs d) seed key" "sint t < from_time x"
      using \<open>set rows \<subseteq> _\<close> that by auto
    then show False using le [of x] m by linarith
  qed
  then show ?thesis by (cases rows) auto
qed

lemma past_segment:
  assumes inv: "merge_inv (tabs d) seed key m" and m: "m < sint t"
    and q: "ai_find_past_attr_siblings S d seed key t = Some (rows, ended)"
    and e: "ended \<or> (\<exists>x\<in>set rows. truncates x)"
  shows "set (upto_trunc rows) = segment (siblings (tabs d) seed key)"
proof -
  let ?R = "siblings (tabs d) seed key"
  have all: "{x \<in> ?R. from_time x \<le> sint t} = ?R" using inv m unfolding merge_inv_def by force
  have inj: "inj_on from_time ?R" using inv by (simp add: merge_inv_def)
  have desc: "time_desc rows" and sub: "set rows \<subseteq> ?R"
    using past_rows [of d seed key t rows] past_rows_part [of d seed key t rows] q by (cases ended; auto)+
  have seg: "set (upto_trunc rows) = segment (set rows)"
    using desc inj_on_subset [OF inj sub] by (rule upto_trunc_segment)
  show ?thesis
  proof (cases ended)
    case True
    then have "set rows = ?R" using past_rows [of d seed key t rows] q all by auto
    then show ?thesis using seg by simp
  next
    case False
    then obtain y where y: "y \<in> set rows" "truncates y" using e by blast
    have miss: "from_time x \<le> from_time z" if "x \<in> ?R" "x \<notin> set rows" "z \<in> set rows" for x z
    proof -
      have "from_time x \<le> sint t" using that(1) all by blast
      then show ?thesis using past_rows_part [of d seed key t rows] q False that by auto
    qed
    have "x \<in> set rows" if x: "x \<in> segment ?R" for x
    proof (rule ccontr)
      assume n: "x \<notin> set rows"
      have "x \<in> ?R" using x by (simp add: segment_def)
      then have "from_time x \<le> from_time y" using miss n y(1) by blast
      moreover have "from_time y \<le> from_time x" using x y sub unfolding segment_def by blast
      ultimately have "from_time x = from_time y" by (rule order_antisym)
      moreover have "y \<in> ?R" using y(1) sub by blast
      ultimately have "x = y" using inj \<open>x \<in> ?R\<close> by (simp only: inj_on_def)
      then show False using n y(1) by simp
    qed
    moreover have "x \<in> segment ?R" if x: "x \<in> segment (set rows)" for x
    proof -
      have "x \<in> set rows" using x by (simp add: segment_def)
      then have "from_time z \<le> from_time x" if "z \<in> ?R" "truncates z" for z
        using x miss [OF that(1)] that by (cases "z \<in> set rows") (auto simp: segment_def)
      then show ?thesis using \<open>x \<in> set rows\<close> sub by (auto simp: segment_def)
    qed
    moreover have "x \<in> segment (set rows)" if "x \<in> segment ?R" "x \<in> set rows" for x
      using that sub unfolding segment_def by blast
    ultimately have "segment (set rows) = segment ?R" by blast
    then show ?thesis using seg by simp
  qed
qed

lemma past_short_ids:
  assumes "row_bound (tabs d) n" "n < 2 ^ 31" "ai_find_past_attr_siblings S d seed key t = Some (rows, ended)"
  shows "short_ids rows"
proof -
  have "set rows \<subseteq> siblings (tabs d) seed key"
    using past_rows [of d seed key t rows] past_rows_part [of d seed key t rows] assms(3) by (cases ended) auto
  then have "fst x \<in> dom (t_attr (tabs d))" if "x \<in> set rows" for x
    using that by (auto simp: siblings_def)
  then show ?thesis using assms(1,2) unfolding short_ids_def row_bound_def by (meson order_le_less_trans)
qed

lemma truncating_merge:
  assumes inv: "merge_inv (tabs d) seed key m" "m < sint t" and n: "row_bound (tabs d) n" "n < 2 ^ 31"
    and len: "length seed = evr_claim_ref_size"
    and past: "ai_find_past_attr_siblings S d seed key t = Some (rows, ended)"
    and loop: "end_past_siblings S t ended rows d = (Ret Evr_ok, d1)"
    and future: "ai_find_future_attr_siblings S d1 seed key t = Some (frows, fended)"
    and ins: "frows = [] \<Longrightarrow> insert_until S d1 seed key val t 1 (if fended then Ret None else Panic) = (Ret Evr_ok, d')"
  shows "merge_effect (tabs d) (tabs d') seed key val t 1 (segment (siblings (tabs d) seed key))"
proof -
  let ?E = "segment (siblings (tabs d) seed key)"
  have "tabs d1 = set_until (tabs d) (fst ` set (upto_trunc rows)) t \<and> (ended \<or> (\<exists>x\<in>set rows. truncates x))"
    using loop past_short_ids [OF n past] by (rule end_past_siblings_ok)
  then have T1: "tabs d1 = set_until (tabs d) (fst ` ?E) t"
    using past_segment [OF inv past] by simp
  have E: "?E \<subseteq> siblings (tabs d) seed key" by (auto simp: segment_def)
  have "frows = []" using no_future [OF inv T1 E future] .
  then show ?thesis using insert_until_ok [OF ins T1 E len] by simp
qed

lemma replace_ok:
  assumes "evr_merge_attr_index_attr_replace S t seed key val d = (Ret Evr_ok, d')"
    and inv: "merge_inv (tabs d) seed key m" "m < sint t" and n: "row_bound (tabs d) n" "n < 2 ^ 31"
    and len: "length seed = evr_claim_ref_size"
  shows "merge_effect (tabs d) (tabs d') seed key val t 1 (segment (siblings (tabs d) seed key))"
proof -
  obtain rows ended where past: "ai_find_past_attr_siblings S d seed key t = Some (rows, ended)"
    using assms(1) len by (auto simp: evr_merge_attr_index_attr_replace_def split: exec.splits option.splits)
  obtain d1 where loop: "end_past_siblings S t ended rows d = (Ret Evr_ok, d1)"
    using assms(1) len past
    by (auto simp: evr_merge_attr_index_attr_replace_def split: exec.splits option.splits prod.splits if_splits)
  obtain frows fended where future: "ai_find_future_attr_siblings S d1 seed key t = Some (frows, fended)"
    using assms(1) len past loop
    by (auto simp: evr_merge_attr_index_attr_replace_def split: exec.splits option.splits prod.splits if_splits)
  have "insert_until S d1 seed key val t 1 (replace_future fended frows) = (Ret Evr_ok, d')"
    using assms(1) len past loop future
    by (auto simp: evr_merge_attr_index_attr_replace_def split: exec.splits option.splits)
  then show ?thesis by (intro truncating_merge [OF inv n len past loop future]) simp
qed

lemma rm_ok:
  assumes "evr_merge_attr_index_attr_rm S t seed key val d = (Ret Evr_ok, d')"
    and inv: "merge_inv (tabs d) seed key m" "m < sint t" and n: "row_bound (tabs d) n" "n < 2 ^ 31"
    and len: "length seed = evr_claim_ref_size"
  shows "merge_effect (tabs d) (tabs d') seed key val t 1 (segment (siblings (tabs d) seed key))"
proof -
  obtain rows ended where past: "ai_find_past_attr_siblings S d seed key t = Some (rows, ended)"
    using assms(1) len by (auto simp: evr_merge_attr_index_attr_rm_def split: option.splits)
  obtain d1 where loop: "end_past_siblings S t ended rows d = (Ret Evr_ok, d1)"
    using assms(1) len past
    by (auto simp: evr_merge_attr_index_attr_rm_def split: option.splits prod.splits if_splits)
  obtain frows fended where future: "ai_find_future_attr_siblings S d1 seed key t = Some (frows, fended)"
    using assms(1) len past loop
    by (auto simp: evr_merge_attr_index_attr_rm_def split: option.splits prod.splits if_splits)
  have "insert_until S d1 seed key val t 1 (rm_future fended frows) = (Ret Evr_ok, d')"
    using assms(1) len past loop future
    by (auto simp: evr_merge_attr_index_attr_rm_def split: option.splits)
  then show ?thesis by (intro truncating_merge [OF inv n len past loop future]) simp
qed

lemma add_ok:
  assumes "evr_merge_attr_index_attr_add S t seed key (Some v) d = (Ret Evr_ok, d')"
    and inv: "merge_inv (tabs d) seed key m" "m < sint t" and n: "row_bound (tabs d) n" "n < 2 ^ 31"
    and len: "length seed = evr_claim_ref_size"
  shows "merge_effect (tabs d) (tabs d') seed key (Some v) t 0
    {x \<in> segment (siblings (tabs d) seed key). ar_val_str (snd x) = None \<or> ar_val_str (snd x) = Some v}"
    (is "merge_effect _ _ _ _ _ _ _ ?E")
proof -
  obtain rows ended where past: "ai_find_past_attr_siblings S d seed key t = Some (rows, ended)"
    using assms(1) len by (auto simp: evr_merge_attr_index_attr_add_def split: exec.splits option.splits)
  obtain cur d1 where loop: "add_past S t (Some v) ended rows d = (Ret Evr_ok, cur, d1)"
    using assms(1) len past
    by (auto simp: evr_merge_attr_index_attr_add_def split: exec.splits option.splits prod.splits if_splits)
  obtain frows fended where future: "ai_find_future_attr_siblings S d1 seed key t = Some (frows, fended)"
    using assms(1) len past loop
    by (auto simp: evr_merge_attr_index_attr_add_def split: exec.splits option.splits prod.splits if_splits)
  have ins: "insert_until S d1 seed key (Some v) t 0 (add_future (Some v) (past_text S cur) fended frows) = (Ret Evr_ok, d')"
    using assms(1) len past loop future
    by (auto simp: evr_merge_attr_index_attr_add_def split: exec.splits option.splits)
  have "tabs d1 = set_until (tabs d)
      (fst ` {x \<in> set (upto_trunc rows). ar_val_str (snd x) = None \<or> ar_val_str (snd x) = Some v}) t \<and>
    (ended \<or> (\<exists>x\<in>set rows. truncates x))"
    using loop past_short_ids [OF n past] by (rule add_past_ok)
  then have T1: "tabs d1 = set_until (tabs d) (fst ` ?E) t"
    using past_segment [OF inv past] by simp
  have E: "?E \<subseteq> siblings (tabs d) seed key" by (auto simp: segment_def)
  have "frows = []" using no_future [OF inv T1 E future] .
  then show ?thesis using ins by (intro insert_until_ok [OF _ T1 E len]) simp
qed

end

section \<open>Histories\<close>

text \<open>
  What an operation means for the set of values, as \<^verbatim>\<open>doc/evr-attr-index/attr-merge-operations.org\<close> describes it: a replacement
  leaves its value, an addition adds its value, a removal without a value empties the set and one with a
  value takes this value away.
\<close>

definition apply_op :: "c_int \<Rightarrow> string option \<Rightarrow> string set \<Rightarrow> string set" where
  "apply_op op val A =
    (if op = evr_attr_op_add then A \<union> set_option val
     else if op = evr_attr_op_rm then (case val of None \<Rightarrow> {} | Some v \<Rightarrow> A - {v})
     else set_option val)"

text \<open>What the merges do: a removal that names a value leaves exactly this value, like a replacement.\<close>

definition merged_op :: "c_int \<Rightarrow> string option \<Rightarrow> string set \<Rightarrow> string set" where
  "merged_op op val A = (if op = evr_attr_op_add then A \<union> set_option val else set_option val)"

lemma merged_op_documented: "(op = evr_attr_op_rm \<longrightarrow> val = None) \<Longrightarrow> merged_op op val A = apply_op op val A"
  by (auto simp: merged_op_def apply_op_def)

record attr_event =
  e_time :: evr_time
  e_seed :: bytes
  e_key :: string
  e_op :: c_int
  e_value :: "string option"

definition same_attr :: "attr_event \<Rightarrow> attr_event \<Rightarrow> bool" where
  "same_attr e f = (e_seed e = e_seed f \<and> e_key e = e_key f)"

definition in_order :: "attr_event list \<Rightarrow> bool" where
  "in_order es = sorted_wrt (\<lambda>e f. same_attr e f \<longrightarrow> sint (e_time e) < sint (e_time f)) es"

text \<open>An addition has a value and a removal has none.\<close>

definition event_ok :: "attr_event \<Rightarrow> bool" where
  "event_ok e = (length (e_seed e) = evr_claim_ref_size \<and> (e_op e = evr_attr_op_add \<longrightarrow> e_value e \<noteq> None) \<and>
     (e_op e = evr_attr_op_rm \<longrightarrow> e_value e = None))"

definition history_step :: "bytes \<Rightarrow> string \<Rightarrow> evr_time \<Rightarrow> string set \<Rightarrow> attr_event \<Rightarrow> string set" where
  "history_step seed key q A e =
    (if e_seed e = seed \<and> e_key e = key \<and> sint (e_time e) \<le> sint q then apply_op (e_op e) (e_value e) A else A)"

definition history :: "attr_event list \<Rightarrow> bytes \<Rightarrow> string \<Rightarrow> evr_time \<Rightarrow> string set" where
  "history es seed key q = foldl (history_step seed key q) {} es"

definition hist_inv :: "attr_tables \<Rightarrow> attr_event list \<Rightarrow> bool" where
  "hist_inv T es = (\<forall>seed key. (\<forall>q. vals T seed key q = history es seed key q) \<and>
    (\<exists>m. merge_inv T seed key m \<and>
      (\<forall>t. (\<forall>e\<in>set es. e_seed e = seed \<and> e_key e = key \<longrightarrow> sint (e_time e) < sint (t :: evr_time)) \<longrightarrow> m < sint t)))"

lemma history_snoc: "history (es @ [e]) seed key q = history_step seed key q (history es seed key q) e"
  by (simp add: history_def)

lemma hist_inv_empty: "t_attr T = Map.empty \<Longrightarrow> hist_inv T []"
proof -
  assume "t_attr T = Map.empty"
  then have s: "siblings T seed key = {}" for seed key by (simp add: siblings_def)
  have "- (2 ^ 63) - 1 < sint t" for t :: evr_time
    using sint_greater_eq [of t] by simp
  then have "\<exists>m. \<forall>t :: evr_time. m < sint t" by blast
  then show ?thesis by (simp add: hist_inv_def merge_inv_empty s vals_def history_def)
qed

lemma hist_inv_step:
  assumes inv: "hist_inv T es"
    and v: "\<forall>q. vals T' (e_seed e) (e_key e) q =
      (if sint q < sint (e_time e) then vals T (e_seed e) (e_key e) q
       else apply_op (e_op e) (e_value e) (vals T (e_seed e) (e_key e) q))"
    and m: "merge_inv T' (e_seed e) (e_key e) (sint (e_time e))"
    and other: "\<forall>seed key. (seed, key) \<noteq> (e_seed e, e_key e) \<longrightarrow> siblings T' seed key = siblings T seed key"
  shows "hist_inv T' (es @ [e])"
  unfolding hist_inv_def
proof (intro allI)
  fix seed key
  show "(\<forall>q. vals T' seed key q = history (es @ [e]) seed key q) \<and>
    (\<exists>m. merge_inv T' seed key m \<and> (\<forall>t. (\<forall>f\<in>set (es @ [e]). e_seed f = seed \<and> e_key f = key \<longrightarrow>
      sint (e_time f) < sint (t :: evr_time)) \<longrightarrow> m < sint t))"
  proof (cases "(seed, key) = (e_seed e, e_key e)")
    case True
    have "vals T' seed key q = history (es @ [e]) seed key q" for q
      using True v inv by (auto simp: hist_inv_def history_snoc history_step_def)
    then show ?thesis using True m by (intro conjI exI [of _ "sint (e_time e)"]) auto
  next
    case False
    then have s: "siblings T' seed key = siblings T seed key" using other by blast
    have "vals T' seed key q = history (es @ [e]) seed key q" for q
      using False inv s by (auto simp: hist_inv_def history_snoc history_step_def vals_def)
    moreover obtain k where "merge_inv T seed key k" "\<forall>t. (\<forall>f\<in>set es. e_seed f = seed \<and> e_key f = key \<longrightarrow>
        sint (e_time f) < sint (t :: evr_time)) \<longrightarrow> k < sint t"
      using inv unfolding hist_inv_def by blast
    ultimately show ?thesis using merge_inv_cong [OF s] by (intro conjI exI [of _ k]) auto
  qed
qed

definition claim_events :: "evr_time \<Rightarrow> evr_claim_ref \<Rightarrow> evr_attr_claim \<Rightarrow> attr_event list" where
  "claim_events t cref claim = concat (map (\<lambda>a. case attr_value cref a of None \<Rightarrow> []
     | Some val \<Rightarrow> [\<lparr>e_time = t, e_seed = ac_seed claim, e_key = a_key a, e_op = a_op a, e_value = val\<rparr>]) (ac_attr claim))"

text \<open>A sequence of claims, merged one after the other as long as the merges succeed.\<close>

primrec merge_claims ::
  "'d attr_stmts \<Rightarrow> (evr_time \<times> evr_claim_ref \<times> evr_attr_claim) list \<Rightarrow> 'd \<Rightarrow> evr_code exec \<times> 'd" where
  "merge_claims S [] d = (Ret Evr_ok, d)"
| "merge_claims S (c # cs) d =
    (case evr_merge_attr_index_claim S (fst c) (fst (snd c)) (snd (snd c)) d of (res, d1) \<Rightarrow>
       if res = Ret Evr_ok then merge_claims S cs d1 else (res, d1))"

definition claims_events :: "(evr_time \<times> evr_claim_ref \<times> evr_attr_claim) list \<Rightarrow> attr_event list" where
  "claims_events cs = concat (map (\<lambda>(t, cref, claim). claim_events t cref claim) cs)"

lemma row_bound_mono: "row_bound T n \<Longrightarrow> n \<le> k \<Longrightarrow> row_bound T k"
  unfolding row_bound_def by (meson order_trans)

lemma in_order_append:
  "in_order (es @ fs) \<Longrightarrow> in_order es \<and> in_order fs"
  by (simp add: in_order_def sorted_wrt_append)

text \<open>The history and the bound on the row ids.\<close>

definition db_inv :: "attr_tables \<Rightarrow> attr_event list \<Rightarrow> bool" where
  "db_inv T es = (hist_inv T es \<and> row_bound T (int (length es)))"

lemma merge_effect_values:
  assumes inv: "db_inv T es"
    and eff: "merge_inv T (e_seed e) (e_key e) m \<and> m < sint (e_time e) \<Longrightarrow>
      (if e_op e = evr_attr_op_add
       then e_value e \<noteq> None \<and> merge_effect T T' (e_seed e) (e_key e) (e_value e) (e_time e) 0
         {x \<in> segment (siblings T (e_seed e) (e_key e)). ar_val_str (snd x) = None \<or> ar_val_str (snd x) = e_value e}
       else merge_effect T T' (e_seed e) (e_key e) (e_value e) (e_time e) 1 (segment (siblings T (e_seed e) (e_key e))))"
    and m: "merge_inv T (e_seed e) (e_key e) m" "m < sint (e_time e)"
  shows "(\<forall>q. vals T' (e_seed e) (e_key e) q = (if sint q < sint (e_time e) then vals T (e_seed e) (e_key e) q
       else merged_op (e_op e) (e_value e) (vals T (e_seed e) (e_key e) q))) \<and> merge_inv T' (e_seed e) (e_key e) (sint (e_time e)) \<and>
    (\<forall>seed key. (seed, key) \<noteq> (e_seed e, e_key e) \<longrightarrow> siblings T' seed key = siblings T seed key) \<and>
    row_bound T' (int (length es) + 1)"
proof -
  let ?s = "e_seed e" and ?k = "e_key e" and ?t = "e_time e"
  show ?thesis
  proof (cases "e_op e = evr_attr_op_add")
    case True
    let ?E = "{x \<in> segment (siblings T ?s ?k). ar_val_str (snd x) = None \<or> ar_val_str (snd x) = e_value e}"
    obtain v where v: "e_value e = Some v" using True eff m by auto
    have "merge_effect T T' ?s ?k (e_value e) ?t 0 ?E" using True eff m by simp
    then obtain i num where mg: "merged T T' ?s ?k ?t ?E (i, merge_row ?s ?k (Some v) num ?t 0)"
      and b: "row_bound T' (int (length es) + 1)"
      using inv v unfolding merge_effect_def db_inv_def by auto
    have "vals T' ?s ?k q = (if sint q < sint ?t then vals T ?s ?k q else insert v (vals T ?s ?k q))"
      "merge_inv T' ?s ?k (sint ?t)" for q
      using merged_adding [OF m refl mg [unfolded v]] by simp_all
    then show ?thesis using True v merged_other [OF mg] b by (auto simp: merged_op_def)
  next
    case False
    let ?E = "segment (siblings T ?s ?k)"
    have "merge_effect T T' ?s ?k (e_value e) ?t 1 ?E" using False eff m by simp
    then obtain i num where mg: "merged T T' ?s ?k ?t ?E (i, merge_row ?s ?k (e_value e) num ?t 1)"
      and b: "row_bound T' (int (length es) + 1)"
      using inv unfolding merge_effect_def db_inv_def by auto
    have "vals T' ?s ?k q = (if sint q < sint ?t then vals T ?s ?k q else set_option (e_value e))"
      "merge_inv T' ?s ?k (sint ?t)" for q
      using merged_truncating [OF m(1) mg m(2)] by simp_all
    then show ?thesis using False merged_other [OF mg] b by (auto simp: merged_op_def)
  qed
qed

context sqlite_attr
begin

lemma merge_attr_op_values:
  assumes ok: "merge_attr_op S t seed a val d = (Ret Evr_ok, d')"
    and inv: "db_inv (tabs d) es"
    and e: "e = \<lparr>e_time = t, e_seed = seed, e_key = a_key a, e_op = a_op a, e_value = val\<rparr>"
    and ord: "in_order (es @ [e])" and eok: "length seed = evr_claim_ref_size" "a_op a = evr_attr_op_add \<longrightarrow> val \<noteq> None"
    and n: "int (length es) < 2 ^ 31"
  shows "(\<forall>q. vals (tabs d') seed (a_key a) q = (if sint q < sint t then vals (tabs d) seed (a_key a) q
       else merged_op (a_op a) val (vals (tabs d) seed (a_key a) q))) \<and> merge_inv (tabs d') seed (a_key a) (sint t) \<and>
    (\<forall>seed' key. (seed', key) \<noteq> (seed, a_key a) \<longrightarrow> siblings (tabs d') seed' key = siblings (tabs d) seed' key) \<and>
    row_bound (tabs d') (int (length es) + 1)"
proof -
  obtain m where m: "merge_inv (tabs d) seed (a_key a) m" and later:
    "\<forall>t. (\<forall>e\<in>set es. e_seed e = seed \<and> e_key e = a_key a \<longrightarrow> sint (e_time e) < sint (t :: evr_time)) \<longrightarrow> m < sint t"
    using inv unfolding db_inv_def hist_inv_def by blast
  have lt: "m < sint t"
    using later ord by (auto simp: in_order_def sorted_wrt_append same_attr_def e)
  have b: "row_bound (tabs d) (int (length es))" and len: "length seed = evr_claim_ref_size"
    using inv eok by (simp_all add: db_inv_def)
  have "if a_op a = evr_attr_op_add
    then val \<noteq> None \<and> merge_effect (tabs d) (tabs d') seed (a_key a) val t 0
      {x \<in> segment (siblings (tabs d) seed (a_key a)). ar_val_str (snd x) = None \<or> ar_val_str (snd x) = val}
    else merge_effect (tabs d) (tabs d') seed (a_key a) val t 1 (segment (siblings (tabs d) seed (a_key a)))"
    using ok eok add_ok [OF _ m lt b n len, of _ d'] replace_ok [OF _ m lt b n len, of val d'] rm_ok [OF _ m lt b n len, of val d']
    by (auto simp: merge_attr_op_def evr_attr_op_add_def evr_attr_op_replace_def split: if_splits)
  then show ?thesis using merge_effect_values [OF inv, of e m "tabs d'"] m lt by (simp add: e)
qed

lemma merge_attr_op_history:
  assumes ok: "merge_attr_op S t seed a val d = (Ret Evr_ok, d')"
    and inv: "db_inv (tabs d) es"
    and e: "e = \<lparr>e_time = t, e_seed = seed, e_key = a_key a, e_op = a_op a, e_value = val\<rparr>"
    and ord: "in_order (es @ [e])" and eok: "event_ok e" and n: "int (length es) < 2 ^ 31"
  shows "db_inv (tabs d') (es @ [e])"
proof -
  have k: "length seed = evr_claim_ref_size" "a_op a = evr_attr_op_add \<longrightarrow> val \<noteq> None" "a_op a = evr_attr_op_rm \<longrightarrow> val = None"
    using eok by (simp_all add: event_ok_def e)
  from merge_attr_op_values [OF ok inv e ord k(1,2) n] show ?thesis
    using hist_inv_step [of "tabs d" es "tabs d'" e] inv merged_op_documented [OF k(3)] by (simp add: db_inv_def e add.commute)
qed

lemma merge_attr_history:
  assumes "evr_merge_attr_index_attr S t seed ref as d = (Ret Evr_ok, d')"
    and "db_inv (tabs d) es" and "fs = concat (map (\<lambda>a. case attr_value ref a of None \<Rightarrow> []
     | Some val \<Rightarrow> [\<lparr>e_time = t, e_seed = seed, e_key = a_key a, e_op = a_op a, e_value = val\<rparr>]) as)"
    and "in_order (es @ fs)" and "\<forall>e\<in>set fs. event_ok e" and "int (length (es @ fs)) < 2 ^ 31"
  shows "db_inv (tabs d') (es @ fs)"
  using assms
proof (induction as arbitrary: d es fs)
  case (Cons a as)
  let ?gs = "concat (map (\<lambda>a. case attr_value ref a of None \<Rightarrow> []
     | Some val \<Rightarrow> [\<lparr>e_time = t, e_seed = seed, e_key = a_key a, e_op = a_op a, e_value = val\<rparr>]) as)"
  show ?case
  proof (cases "attr_value ref a")
    case None
    then show ?thesis using Cons.IH [of d es fs] Cons.prems by simp
  next
    case (Some val)
    let ?e = "\<lparr>e_time = t, e_seed = seed, e_key = a_key a, e_op = a_op a, e_value = val\<rparr>"
    have fs: "fs = ?e # ?gs" using Cons.prems(3) Some by simp
    obtain res d1 where r: "merge_attr_op S t seed a val d = (res, d1)" by fastforce
    have res: "res = Ret Evr_ok" "evr_merge_attr_index_attr S t seed ref as d1 = (Ret Evr_ok, d')"
      using Cons.prems(1) Some r by (auto split: exec.splits if_splits)
    have "in_order ((es @ [?e]) @ ?gs)" using Cons.prems(4) fs by simp
    then have ord: "in_order (es @ [?e])" using in_order_append by blast
    have "db_inv (tabs d1) (es @ [?e])"
      using r res(1) Cons.prems by (intro merge_attr_op_history [OF _ Cons.prems(2) refl ord]) (auto simp: fs)
    then have "db_inv (tabs d') ((es @ [?e]) @ ?gs)"
      using Cons.IH [OF res(2) _ refl, of "es @ [?e]"] Cons.prems(4-6) fs by simp
    then show ?thesis using fs by simp
  qed
qed simp

lemma merge_claim_history:
  assumes ok: "evr_merge_attr_index_claim S t cref claim d = (Ret Evr_ok, d')"
    and inv: "db_inv (tabs d) es" and "in_order (es @ claim_events t cref claim)"
    and "\<forall>e\<in>set (claim_events t cref claim). event_ok e"
    and "int (length (es @ claim_events t cref claim)) < 2 ^ 31"
  shows "db_inv (tabs d') (es @ claim_events t cref claim)"
proof -
  obtain d1 where m: "evr_merge_attr_index_attr S t (ac_seed claim) cref (ac_attr claim) d = (Ret Evr_ok, d1)"
    using ok by (auto simp: evr_merge_attr_index_claim_def split: if_splits exec.splits prod.splits)
  obtain r where "ai_insert_claim S d1 (take evr_claim_ref_size cref) (take evr_claim_ref_size (ac_seed claim)) = (r, d')"
    using ok m by (auto simp: evr_merge_attr_index_claim_def split: if_splits prod.splits)
  then have "t_attr (tabs d') = t_attr (tabs d1)"
    using insert_claim_done insert_claim_keeps by (cases "r = Sql_done") auto
  then have s: "siblings (tabs d') seed key = siblings (tabs d1) seed key" "row_bound (tabs d') n = row_bound (tabs d1) n"
    for seed key n by (simp_all add: siblings_def row_bound_def)
  have "db_inv (tabs d1) (es @ claim_events t cref claim)"
    using m inv by (rule merge_attr_history [OF _ _ claim_events_def]) (use assms(3-5) in simp_all)
  then show ?thesis
    unfolding db_inv_def hist_inv_def s vals_def merge_inv_cong [OF s(1)] .
qed

lemma merge_claims_history:
  assumes "merge_claims S cs d = (Ret Evr_ok, d')" "db_inv (tabs d) es" "in_order (es @ claims_events cs)"
    "\<forall>e\<in>set (claims_events cs). event_ok e" "int (length (es @ claims_events cs)) < 2 ^ 31"
  shows "db_inv (tabs d') (es @ claims_events cs)"
  using assms
proof (induction cs arbitrary: d es)
  case (Cons c cs)
  obtain t cref claim where c: "c = (t, cref, claim)" by (cases c)
  let ?e = "claim_events t cref claim"
  obtain d1 where d1: "evr_merge_attr_index_claim S t cref claim d = (Ret Evr_ok, d1)"
      "merge_claims S cs d1 = (Ret Evr_ok, d')"
    using Cons.prems(1) c by (auto split: prod.splits if_splits)
  have ev: "claims_events (c # cs) = ?e @ claims_events cs" by (simp add: claims_events_def c)
  have "in_order ((es @ ?e) @ claims_events cs)" using Cons.prems(3) ev by simp
  then have "in_order (es @ ?e)" using in_order_append by blast
  then have "db_inv (tabs d1) (es @ ?e)"
    using Cons.prems ev by (intro merge_claim_history [OF d1(1)]) auto
  then show ?case using Cons.IH [OF d1(2), of "es @ ?e"] Cons.prems ev by simp
qed (simp add: claims_events_def)

end

end
