(* ===== verification/Attr_Correct.thy ===== *)
theory Attr_Correct
  imports Attr_Merge
begin

text \<open>
  The properties of the attribute index. Claims that are merged in the order of their times give, for
  every seed, key and time, the values of the history; when no statement fails the merges succeed; a
  claim that is merged late, or two operations on one key at the same time, give other values.
\<close>

section \<open>Visiting\<close>

definition collect_attr :: "(string \<times> string) list \<Rightarrow> string \<Rightarrow> string \<Rightarrow> evr_code \<times> (string \<times> string) list" where
  "collect_attr c k v = (Evr_ok, c @ [(k, v)])"

lemma visit_collect: "evr_visit_attr_query collect_attr ended kvs c = (if ended then Evr_ok else Evr_error, \<not> ended, c @ kvs)"
  by (induction kvs arbitrary: c) (simp_all add: collect_attr_def)

lemma get_seed_attrs_values:
  assumes "sqlite_attr S tabs" and len: "length seed = evr_claim_ref_size"
    and ok: "evr_get_seed_attrs S collect_attr d q seed [] = (Ret Evr_ok, kvs)"
  shows "(key, v) \<in> set kvs \<longleftrightarrow> v \<in> vals (tabs d) seed key q"
proof -
  have "ai_find_seed_attrs S d seed q = Some (kvs, True)"
    using ok len by (auto simp: evr_get_seed_attrs_def visit_collect split: option.splits if_splits)
  then have "set kvs = {(k, v). \<exists>i r. (i, r) \<in> siblings (tabs d) seed k \<and> valid_at q r \<and> ar_val_str r = Some v}"
    by (rule sqlite_attr.seed_attrs_rows [OF assms(1)])
  then show ?thesis by (force simp: vals_def)
qed

section \<open>Merges succeed\<close>

definition key_type :: "attr_tables \<Rightarrow> string \<Rightarrow> c_int" where
  "key_type T key = (case t_attr_def T key of None \<Rightarrow> evr_type_str | Some ty \<Rightarrow> ty)"

text \<open>An operation that is known, with a value of the type of its key, and no addition without a value.\<close>

definition attr_fits :: "attr_tables \<Rightarrow> evr_claim_ref \<Rightarrow> evr_attr \<Rightarrow> bool" where
  "attr_fits T ref a =
    (a_op a \<in> {evr_attr_op_replace, evr_attr_op_add, evr_attr_op_rm} \<and>
     (case attr_value ref a of None \<Rightarrow> True
      | Some val \<Rightarrow> (\<exists>num. attr_number (key_type T (a_key a)) val = Some (Ret num)) \<and>
         (a_op a = evr_attr_op_add \<longrightarrow> val \<noteq> None)))"

lemma attr_fits_cong: "t_attr_def T' = t_attr_def T \<Longrightarrow> attr_fits T' ref a = attr_fits T ref a"
  by (cases "attr_value ref a") (simp_all add: attr_fits_def key_type_def)

text \<open>What the loops keep: the row ids and the types.\<close>

definition same_ids :: "attr_tables \<Rightarrow> attr_tables \<Rightarrow> bool" where
  "same_ids T T' = (dom (t_attr T') = dom (t_attr T) \<and> t_attr_def T' = t_attr_def T)"

lemma same_ids_refl [simp]: "same_ids T T"
  by (simp add: same_ids_def)

lemma same_ids_trans: "same_ids T T1 \<Longrightarrow> same_ids T1 T2 \<Longrightarrow> same_ids T T2"
  by (simp add: same_ids_def)

context sqlite_attr_reliable
begin

lemma update_valid_until_succeeds:
  "\<exists>d'. evr_attr_index_update_valid_until S d i t = (Ret Evr_ok, d') \<and> same_ids (tabs d) (tabs d')"
proof -
  obtain d' where d': "ai_update_attr_valid_until S d t (signed i) = (Sql_done, d')"
    using update_until_ok [of d t "signed i"] by (metis prod.collapse)
  then have "same_ids (tabs d) (tabs d')"
    using update_until_done [OF d'] by (auto simp: same_ids_def dom_def)
  then show ?thesis using d' by (simp add: evr_attr_index_update_valid_until_def run_update_def)
qed

lemma end_past_siblings_succeeds:
  "\<exists>d'. end_past_siblings S t True rows d = (Ret Evr_ok, d') \<and> same_ids (tabs d) (tabs d')"
proof (induction rows arbitrary: d)
  case (Cons x rows)
  obtain d1 where d1: "evr_attr_index_update_valid_until S d (signed (fst x)) t = (Ret Evr_ok, d1)"
      "same_ids (tabs d) (tabs d1)"
    using update_valid_until_succeeds by blast
  obtain d2 where d2: "end_past_siblings S t True rows d1 = (Ret Evr_ok, d2)" "same_ids (tabs d1) (tabs d2)"
    using Cons.IH by blast
  have "same_ids (tabs d) (tabs d2)" using d1(2) d2(2) by (rule same_ids_trans)
  then show ?case using d1 d2(1) by (cases "truncates x") auto
qed simp

lemma add_past_succeeds:
  "\<exists>cur d'. add_past S t (Some v) True rows d = (Ret Evr_ok, cur, d') \<and> same_ids (tabs d) (tabs d')"
proof (induction rows arbitrary: d)
  case (Cons x rows)
  obtain d1 where d1: "(if ar_val_str (snd x) = None \<or> ar_val_str (snd x) = Some v
      then evr_attr_index_update_valid_until S d (signed (fst x)) t else (Ret Evr_ok, d)) = (Ret Evr_ok, d1)"
      "same_ids (tabs d) (tabs d1)"
    using update_valid_until_succeeds [of d "signed (fst x)" t] same_ids_refl by metis
  obtain cur d2 where d2: "add_past S t (Some v) True rows d1 = (Ret Evr_ok, cur, d2)" "same_ids (tabs d1) (tabs d2)"
    using Cons.IH by blast
  have "same_ids (tabs d) (tabs d2)" using d1(2) d2(2) by (rule same_ids_trans)
  then show ?case using d1 d2(1) by (cases "truncates x") auto
qed simp

lemma get_type_succeeds: "evr_get_attr_type_for_key S d key = Ret (Some (key_type (tabs d) key))"
  using find_type_ok [of d key] find_type_row [of d key] find_type_none [of d key]
  by (auto simp: evr_get_attr_type_for_key_def key_type_def split: sql_row.split)

lemma insert_until_succeeds:
  assumes num: "\<exists>num. attr_number (key_type (tabs d) key) val = Some (Ret num)"
    and n: "row_bound (tabs d) n" "0 \<le> n" "n < 2 ^ 63 - 1"
  shows "\<exists>d'. insert_until S d seed key val t trunc (Ret u) = (Ret Evr_ok, d') \<and>
    row_bound (tabs d') (n + 1) \<and> t_attr_def (tabs d') = t_attr_def (tabs d)"
proof -
  obtain number where number: "attr_number (key_type (tabs d) key) val = Some (Ret number)" using num by blast
  let ?r = "\<lparr>ar_seed = take evr_claim_ref_size seed, ar_key = key, ar_val_str = val, ar_val_int = number,
    ar_valid_from = t, ar_valid_until = u, ar_trunc = trunc\<rparr>"
  have "\<forall>j\<in>dom (t_attr (tabs d)). sint j < 2 ^ 63 - 1" using n unfolding row_bound_def by (meson order_le_less_trans)
  then obtain d' where d': "ai_insert_attr S d ?r = (Sql_done, d')"
    using insert_attr_ok [of d ?r] by (metis prod.collapse)
  obtain i where i: "tabs d' = (tabs d)\<lparr>t_attr := (t_attr (tabs d))(i \<mapsto> ?r)\<rparr>" "0 < sint i \<and> sint i \<le> n + 1"
    using insert_attr_done [OF d'] n(1,2) unfolding row_bound_def by blast
  have "0 < sint j \<and> sint j \<le> n + 1" if "j \<in> dom (t_attr (tabs d))" for j
    using n(1) that unfolding row_bound_def by force
  then have "row_bound (tabs d') (n + 1)" using i(2) by (simp add: row_bound_def i(1))
  then show ?thesis
    using d' number i(1) by (simp add: insert_until_def evr_insert_attr_def get_type_succeeds run_update_def)
qed

lemma replace_future_succeeds: "\<exists>u. replace_future True rows = Ret u"
  by (induction rows) auto

lemma add_future_succeeds: "\<exists>u. add_future (Some v) rv True rows = Ret u"
  by (induction rows) auto

lemma rm_future_succeeds: "\<exists>u. rm_future True rows = Ret u"
  by (cases rows) auto

lemma merge_attr_op_succeeds:
  assumes fits: "attr_fits (tabs d) ref a" "attr_value ref a = Some val"
    and n: "row_bound (tabs d) n" "0 \<le> n" "n < 2 ^ 63 - 1"
  shows "\<exists>d'. merge_attr_op S t seed a val d = (Ret Evr_ok, d') \<and> row_bound (tabs d') (n + 1) \<and>
    t_attr_def (tabs d') = t_attr_def (tabs d)"
proof -
  let ?s = "take evr_claim_ref_size seed" and ?k = "a_key a"
  obtain rows where past: "ai_find_past_attr_siblings S d ?s ?k t = Some (rows, True)" using past_ok by blast
  have num: "\<exists>num. attr_number (key_type (tabs d) ?k) val = Some (Ret num)"
    and av: "a_op a = evr_attr_op_add \<longrightarrow> val \<noteq> None"
    using fits by (auto simp: attr_fits_def)
  have rest: "\<exists>frows d'. ai_find_future_attr_siblings S d1 ?s ?k t = Some (frows, True) \<and>
      (\<forall>u. f frows = Ret u \<longrightarrow> insert_until S d1 seed ?k val t tr (f frows) = (Ret Evr_ok, d') \<and>
        row_bound (tabs d') (n + 1) \<and> t_attr_def (tabs d') = t_attr_def (tabs d))"
    if ids: "same_ids (tabs d) (tabs d1)" and f: "\<forall>rows. \<exists>u. f rows = Ret u" for d1 f tr
  proof -
    have "row_bound (tabs d1) n" "key_type (tabs d1) ?k = key_type (tabs d) ?k"
      "t_attr_def (tabs d1) = t_attr_def (tabs d)"
      using ids n(1) by (simp_all add: same_ids_def row_bound_def key_type_def)
    moreover obtain frows where "ai_find_future_attr_siblings S d1 ?s ?k t = Some (frows, True)"
      using future_ok by blast
    moreover obtain u where "f frows = Ret u" using f by blast
    ultimately show ?thesis
      using insert_until_succeeds [of d1 ?k val n seed t tr u] num n(2,3) by auto
  qed
  consider (replace) "a_op a = evr_attr_op_replace" | (add) "a_op a = evr_attr_op_add" | (rm) "a_op a = evr_attr_op_rm"
    using fits(1) by (auto simp: attr_fits_def)
  then show ?thesis
  proof cases
    case replace
    obtain d1 where d1: "end_past_siblings S t True rows d = (Ret Evr_ok, d1)" "same_ids (tabs d) (tabs d1)"
      using end_past_siblings_succeeds by blast
    show ?thesis using rest [OF d1(2), of "replace_future True" 1] replace_future_succeeds replace past d1(1)
      by (fastforce simp: merge_attr_op_def evr_merge_attr_index_attr_replace_def get_type_succeeds)
  next
    case add
    then obtain v where v: "val = Some v" using av by blast
    obtain cur d1 where d1: "add_past S t (Some v) True rows d = (Ret Evr_ok, cur, d1)" "same_ids (tabs d) (tabs d1)"
      using add_past_succeeds by blast
    show ?thesis using rest [OF d1(2), of "add_future (Some v) (past_text S cur) True" 0] add_future_succeeds add past d1(1) v
      by (fastforce simp: merge_attr_op_def evr_merge_attr_index_attr_add_def get_type_succeeds
          evr_attr_op_replace_def evr_attr_op_add_def)
  next
    case rm
    obtain d1 where d1: "end_past_siblings S t True rows d = (Ret Evr_ok, d1)" "same_ids (tabs d) (tabs d1)"
      using end_past_siblings_succeeds by blast
    show ?thesis using rest [OF d1(2), of "rm_future True" 1] rm_future_succeeds rm past d1(1)
      by (fastforce simp: merge_attr_op_def evr_merge_attr_index_attr_rm_def
          evr_attr_op_replace_def evr_attr_op_add_def evr_attr_op_rm_def)
  qed
qed

lemma merge_attrs_succeed:
  assumes "\<forall>a\<in>set as. attr_fits (tabs d) ref a" "row_bound (tabs d) n" "0 \<le> n" "n + int (length as) < 2 ^ 63"
  shows "\<exists>d'. evr_merge_attr_index_attr S t seed ref as d = (Ret Evr_ok, d') \<and>
    row_bound (tabs d') (n + int (length as)) \<and> t_attr_def (tabs d') = t_attr_def (tabs d)"
  using assms
proof (induction as arbitrary: d n)
  case (Cons a as)
  show ?case
  proof (cases "attr_value ref a")
    case None
    have "row_bound (tabs d) (n + 1)" using Cons.prems(2) by (rule row_bound_mono) simp
    then show ?thesis using Cons.IH [of d "n + 1"] Cons.prems None by (simp add: add.assoc)
  next
    case (Some val)
    obtain d1 where d1: "merge_attr_op S t seed a val d = (Ret Evr_ok, d1)" "row_bound (tabs d1) (n + 1)"
        "t_attr_def (tabs d1) = t_attr_def (tabs d)"
      using merge_attr_op_succeeds [of d ref a val n t seed] Cons.prems Some by auto
    have "\<forall>a\<in>set as. attr_fits (tabs d1) ref a"
      using Cons.prems(1) attr_fits_cong [OF d1(3)] by simp
    then obtain d2 where "evr_merge_attr_index_attr S t seed ref as d1 = (Ret Evr_ok, d2)"
        "row_bound (tabs d2) (n + 1 + int (length as))" "t_attr_def (tabs d2) = t_attr_def (tabs d1)"
      using Cons.IH [of d1 "n + 1"] d1(2) Cons.prems by auto
    then show ?thesis using Some d1 by (simp add: add.assoc)
  qed
qed simp

lemma seed_attrs_visited:
  assumes "length seed = evr_claim_ref_size"
  shows "\<exists>kvs. evr_get_seed_attrs S collect_attr d q seed [] = (Ret Evr_ok, kvs)"
  using seed_attrs_ok [of d seed q] assms by (auto simp: evr_get_seed_attrs_def visit_collect)

lemma merge_claim_total:
  assumes ty: "ac_seed_type claim = evr_seed_type_claim" and fits: "\<forall>a\<in>set (ac_attr claim). attr_fits (tabs d) cref a"
    and n: "row_bound (tabs d) n" "0 \<le> n" "n + int (length (ac_attr claim)) < 2 ^ 63"
    and len: "length cref = evr_claim_ref_size" "length (ac_seed claim) = evr_claim_ref_size"
  shows "\<exists>d'. evr_merge_attr_index_claim S t cref claim d = (Ret Evr_ok, d') \<and>
    row_bound (tabs d') (n + int (length (ac_attr claim))) \<and> t_claim (tabs d') cref \<noteq> None"
proof -
  obtain d1 where d1: "evr_merge_attr_index_attr S t (ac_seed claim) cref (ac_attr claim) d = (Ret Evr_ok, d1)"
      "row_bound (tabs d1) (n + int (length (ac_attr claim)))"
    using merge_attrs_succeed [OF fits n] by blast
  obtain r d2 where r: "ai_insert_claim S d1 cref (ac_seed claim) = (r, d2)" by fastforce
  then have r2: "r = Sql_done \<or> r = Sql_constraint"
    using insert_claim_ok [of d1 cref "ac_seed claim"] by simp
  then have "t_claim (tabs d2) cref \<noteq> None \<and> t_attr (tabs d2) = t_attr (tabs d1)"
    using r insert_claim_done [of d1 cref "ac_seed claim" d2] insert_claim_keeps [OF r]
      insert_claim_constraint [of d1 cref "ac_seed claim" d2] by auto
  moreover have "evr_merge_attr_index_claim S t cref claim d = (Ret Evr_ok, d2)"
    using ty d1(1) r r2 len by (auto simp: evr_merge_attr_index_claim_def)
  ultimately show ?thesis using d1(2) by (auto simp: row_bound_def)
qed

end

section \<open>Examples\<close>

definition empty_attr_db :: attr_table_db where
  "empty_attr_db =
    \<lparr>tb_attr_def = [], tb_attr = [], tb_claim = [], tb_claim_archive = [], tb_state = [], tb_claim_set = []\<rparr>"

definition demo_seed :: evr_claim_ref where "demo_seed = replicate 30 7"

definition demo_attr :: "c_int \<Rightarrow> string \<Rightarrow> evr_attr" where
  "demo_attr op v = \<lparr>a_op = op, a_key = ''k'', a_value_type = evr_attr_value_type_static, a_value = Some v\<rparr>"

definition demo_claim :: "evr_time \<Rightarrow> evr_attr list \<Rightarrow> evr_time \<times> evr_claim_ref \<times> evr_attr_claim" where
  "demo_claim t as = (t, replicate 30 (ucast t),
    \<lparr>ac_seed_type = evr_seed_type_claim, ac_seed = demo_seed, ac_index_seed = 0, ac_attr = as\<rparr>)"

definition demo_claims :: "(evr_time \<times> evr_claim_ref \<times> evr_attr_claim) list" where
  "demo_claims =
    [demo_claim 10 [demo_attr evr_attr_op_replace ''a''], demo_claim 20 [demo_attr evr_attr_op_add ''b''],
     demo_claim 30 [demo_attr evr_attr_op_add ''b''], demo_claim 40 [(demo_attr evr_attr_op_rm [])\<lparr>a_value := None\<rparr>]]"

lemmas demo_attr_defs = empty_attr_db_def demo_seed_def demo_attr_def demo_claim_def demo_claims_def

lemmas attr_run_defs = evr_merge_attr_index_claim_def merge_attr_op_def evr_merge_attr_index_attr_replace_def
  evr_merge_attr_index_attr_add_def evr_merge_attr_index_attr_rm_def evr_get_attr_type_for_key_def
  evr_insert_attr_def insert_until_def run_update_def attr_number_def attr_value_def
  evr_attr_index_update_valid_until_def evr_type_str_def evr_type_int_def evr_type_claim_ref_def
  evr_attr_op_replace_def evr_attr_op_add_def evr_attr_op_rm_def evr_seed_type_claim_def
  evr_attr_value_type_static_def evr_attr_value_type_self_claim_ref_def

definition demo_attr_db :: attr_table_db where
  "demo_attr_db = snd (merge_claims attr_table_ops demo_claims empty_attr_db)"

lemma demo_claims_run:
  "fst (merge_claims attr_table_ops demo_claims empty_attr_db) = Ret Evr_ok"
  by code_simp

lemma demo_claims_attrs:
    "evr_get_seed_attrs attr_table_ops collect_attr demo_attr_db 35 demo_seed []
      = (Ret Evr_ok, [(''k'', ''a''), (''k'', ''b''), (''k'', ''b'')])"
  by code_simp

lemma demo_claims_ordered:
  "in_order (claims_events demo_claims)" "\<forall>e\<in>set (claims_events demo_claims). event_ok e"
  by code_simp+

section \<open>Properties\<close>

text \<open>
  C9: the attribute index is the history of the claims. Whatever statements fail, when a sequence of claims
  was merged into an empty index with \<^verbatim>\<open>evr_ok\<close>, with strictly increasing times for every seed and key, every addition
  with a value and every removal without one, and less than \<open>2 ^ 31\<close> operations, the attributes
  that \<^verbatim>\<open>evr_get_seed_attrs\<close> visits for a seed at any time, past or future, are exactly the values
  that the operations up to this time leave: a replacement leaves its value, an addition adds its value,
  a removal leaves no value.
\<close>

theorem attr_index_is_history:
  assumes lib: "sqlite_attr S tabs" and empty: "t_attr (tabs d0) = Map.empty"
    and run: "merge_claims S cs d0 = (Ret Evr_ok, d)"
    and ord: "in_order (claims_events cs)" and ok: "\<forall>e\<in>set (claims_events cs). event_ok e"
    and short: "length (claims_events cs) < 2 ^ 31"
    and seed: "length seed = evr_claim_ref_size"
    and visit: "evr_get_seed_attrs S collect_attr d q seed [] = (Ret Evr_ok, kvs)"
  shows "(key, v) \<in> set kvs \<longleftrightarrow> v \<in> history (claims_events cs) seed key q"
proof -
  have "db_inv (tabs d0) []"
    using empty hist_inv_empty by (simp add: db_inv_def row_bound_def)
  moreover have "int (length (claims_events cs)) < 2 ^ 31" using short by simp
  ultimately have "db_inv (tabs d) ([] @ claims_events cs)"
    using run ord ok by (intro sqlite_attr.merge_claims_history [OF lib]) simp_all
  then have "vals (tabs d) seed key q = history (claims_events cs) seed key q"
    by (simp add: db_inv_def hist_inv_def)
  then show ?thesis using get_seed_attrs_values [OF lib seed visit] by simp
qed

theorem attr_index_is_history_witness:
  "\<forall>v. (''k'', v) \<in> set [(''k'', ''a''), (''k'', ''b''), (''k'', ''b'')] \<longleftrightarrow>
    v \<in> history (claims_events demo_claims) demo_seed ''k'' 35"
proof -
  have "merge_claims attr_table_ops demo_claims empty_attr_db = (Ret Evr_ok, demo_attr_db)"
    using demo_claims_run by (simp add: demo_attr_db_def prod_eq_iff)
  moreover have "t_attr (table_tabs empty_attr_db) = Map.empty"
    by (simp add: empty_attr_db_def attr_at_def fun_eq_iff)
  moreover have "length (claims_events demo_claims) < 2 ^ 31"
    by (simp add: claims_events_def demo_claims_def demo_claim_def claim_events_def demo_attr_def attr_value_def
        evr_attr_value_type_static_def)
  moreover have "length demo_seed = evr_claim_ref_size" by (simp add: demo_seed_def evr_layout)
  ultimately show ?thesis
    using attr_index_is_history [OF atbl.sqlite_attr_axioms _ _ demo_claims_ordered _ _ demo_claims_attrs] by blast
qed

text \<open>
  C17: merging a claim succeeds. When no statement fails, a claim with a claim seed whose operations are known,
  whose additions have a value and whose values have the type of their key is merged with \<^verbatim>\<open>evr_ok\<close>, as long as the row ids
  fit into 63 bits; afterwards the seed of the
  claim is known, the row ids have grown by at most the number of the attributes, and the attributes can be visited.
\<close>

theorem merge_claim_succeeds:
  assumes lib: "sqlite_attr_reliable S tabs" and ty: "ac_seed_type claim = evr_seed_type_claim"
    and fits: "\<forall>a\<in>set (ac_attr claim). attr_fits (tabs d) cref a"
    and n: "row_bound (tabs d) n" "0 \<le> n" "n + int (length (ac_attr claim)) < 2 ^ 63"
    and len: "length cref = evr_claim_ref_size" "length (ac_seed claim) = evr_claim_ref_size"
  shows "\<exists>d'. evr_merge_attr_index_claim S t cref claim d = (Ret Evr_ok, d') \<and>
    row_bound (tabs d') (n + int (length (ac_attr claim))) \<and> t_claim (tabs d') cref \<noteq> None \<and>
    (\<forall>q. \<exists>kvs. evr_get_seed_attrs S collect_attr d' q (ac_seed claim) [] = (Ret Evr_ok, kvs))"
  using sqlite_attr_reliable.merge_claim_total [OF lib ty fits n len, of t]
    sqlite_attr_reliable.seed_attrs_visited [OF lib len(2)] by blast

lemma demo_fits: "attr_fits (table_tabs empty_attr_db) cref (demo_attr evr_attr_op_add ''b'')"
  by (simp add: attr_fits_def demo_attr_def attr_value_def attr_number_def key_type_def empty_attr_db_def
      evr_attr_value_type_static_def evr_type_str_def evr_type_int_def evr_type_claim_ref_def)

theorem merge_claim_succeeds_witness:
  "\<exists>d'. evr_merge_attr_index_claim attr_table_ops 20 (replicate 30 1)
      \<lparr>ac_seed_type = evr_seed_type_claim, ac_seed = demo_seed, ac_index_seed = 0,
       ac_attr = [demo_attr evr_attr_op_add ''b'']\<rparr> empty_attr_db = (Ret Evr_ok, d') \<and>
    row_bound (table_tabs d') 1 \<and> t_claim (table_tabs d') (replicate 30 1) \<noteq> None \<and>
    (\<forall>q. \<exists>kvs. evr_get_seed_attrs attr_table_ops collect_attr d' q demo_seed [] = (Ret Evr_ok, kvs))"
proof -
  let ?c = "\<lparr>ac_seed_type = evr_seed_type_claim, ac_seed = demo_seed, ac_index_seed = 0,
    ac_attr = [demo_attr evr_attr_op_add ''b'']\<rparr>"
  have "row_bound (table_tabs empty_attr_db) 0"
    by (simp add: row_bound_def empty_attr_db_def attr_at_def dom_def)
  then show ?thesis
    using merge_claim_succeeds [OF atbl.sqlite_attr_reliable_axioms, of ?c empty_attr_db "replicate 30 1" 0 20]
    by (simp add: demo_fits evr_layout demo_seed_def)
qed

text \<open>
  C21: removing a value keeps it. On an index that is the history \<open>es\<close>, a claim whose only operation removes the value \<open>v\<close>
  of a key, later than all operations on this key, leaves from its time on exactly the value \<open>v\<close>, whether it was there
  before or not, and no other one: \<^verbatim>\<open>evr_merge_attr_index_attr_rm\<close> ends all values and inserts a row with the value.
  By the documentation \<open>v\<close> is the one value that is not in the set afterwards.
\<close>

theorem removed_value_is_kept:
  fixes claim :: evr_attr_claim and seed :: evr_claim_ref and t :: evr_time and key v :: string
  defines "e \<equiv> \<lparr>e_time = t, e_seed = seed, e_key = key, e_op = evr_attr_op_rm, e_value = Some v\<rparr>"
  assumes lib: "sqlite_attr S tabs" and inv: "db_inv (tabs d) es" and n: "length es < 2 ^ 31" and ord: "in_order (es @ [e])"
    and claim: "ac_seed claim = seed" "ac_attr claim =
      [\<lparr>a_op = evr_attr_op_rm, a_key = key, a_value_type = evr_attr_value_type_static, a_value = Some v\<rparr>]"
    and run: "evr_merge_attr_index_claim S t cref claim d = (Ret Evr_ok, d')"
    and len: "length seed = evr_claim_ref_size" and q: "sint t \<le> sint q"
    and visit: "evr_get_seed_attrs S collect_attr d' q seed [] = (Ret Evr_ok, kvs)"
  shows "((key, w) \<in> set kvs \<longleftrightarrow> w = v) \<and> v \<notin> history (es @ [e]) seed key q"
proof -
  let ?a = "\<lparr>a_op = evr_attr_op_rm, a_key = key, a_value_type = evr_attr_value_type_static, a_value = Some v\<rparr>"
  have rm: "evr_attr_op_rm \<noteq> evr_attr_op_add" by (simp add: evr_attr_op_rm_def evr_attr_op_add_def)
  obtain d1 where m: "merge_attr_op S t seed ?a (Some v) d = (Ret Evr_ok, d1)"
    and d1: "\<exists>r. ai_insert_claim S d1 (take evr_claim_ref_size cref) (take evr_claim_ref_size seed) = (r, d')"
    using run claim by (auto simp: evr_merge_attr_index_claim_def attr_value_def split: if_splits exec.splits prod.splits)
  have "e = \<lparr>e_time = t, e_seed = seed, e_key = a_key ?a, e_op = a_op ?a, e_value = Some v\<rparr>" by (simp add: e_def)
  from sqlite_attr.merge_attr_op_values [OF lib m inv this ord len] n q rm
  have "vals (tabs d1) seed key q = {v}" by (simp add: merged_op_def)
  moreover from d1 obtain r where r: "ai_insert_claim S d1 (take evr_claim_ref_size cref) (take evr_claim_ref_size seed) = (r, d')" ..
  have "t_attr (tabs d') = t_attr (tabs d1)"
    using sqlite_attr.insert_claim_done [OF lib] sqlite_attr.insert_claim_keeps [OF lib r] r by (cases "r = Sql_done") auto
  ultimately have "vals (tabs d') seed key q = {v}" by (simp add: vals_def siblings_def)
  moreover have "v \<notin> history (es @ [e]) seed key q"
    using q rm by (simp add: history_snoc history_step_def e_def apply_op_def)
  ultimately show ?thesis using get_seed_attrs_values [OF lib len visit] by simp
qed

theorem removed_value_is_kept_witness:
  "\<exists>d kvs. evr_merge_attr_index_claim attr_table_ops 50 (replicate 30 1)
      \<lparr>ac_seed_type = evr_seed_type_claim, ac_seed = demo_seed, ac_index_seed = 0, ac_attr = [demo_attr evr_attr_op_rm ''a'']\<rparr> empty_attr_db
      = (Ret Evr_ok, d) \<and>
    evr_get_seed_attrs attr_table_ops collect_attr d 60 demo_seed [] = (Ret Evr_ok, kvs) \<and>
    (\<forall>w. (''k'', w) \<in> set kvs \<longleftrightarrow> w = ''a'')"
proof -
  let ?c = "\<lparr>ac_seed_type = evr_seed_type_claim, ac_seed = demo_seed, ac_index_seed = 0, ac_attr = [demo_attr evr_attr_op_rm ''a'']\<rparr>"
  have fits: "attr_fits (table_tabs empty_attr_db) (replicate 30 1) (demo_attr evr_attr_op_rm ''a'')"
    by (simp add: attr_fits_def demo_attr_def attr_value_def attr_number_def key_type_def empty_attr_db_def evr_attr_op_rm_def
        evr_attr_op_add_def evr_attr_value_type_static_def evr_type_str_def evr_type_int_def evr_type_claim_ref_def)
  have len: "length demo_seed = evr_claim_ref_size" by (simp add: demo_seed_def evr_layout)
  have empty: "t_attr (table_tabs empty_attr_db) = Map.empty" by (simp add: empty_attr_db_def attr_at_def fun_eq_iff)
  then have inv: "db_inv (table_tabs empty_attr_db) []" using hist_inv_empty by (simp add: db_inv_def row_bound_def)
  obtain d where d: "evr_merge_attr_index_claim attr_table_ops 50 (replicate 30 1) ?c empty_attr_db = (Ret Evr_ok, d)"
    using atbl.merge_claim_total [of ?c empty_attr_db "replicate 30 1" 0 50] fits empty len by (auto simp: row_bound_def evr_layout)
  obtain kvs where k: "evr_get_seed_attrs attr_table_ops collect_attr d 60 demo_seed [] = (Ret Evr_ok, kvs)"
    using atbl.seed_attrs_visited [OF len] by blast
  have "ac_attr ?c = [\<lparr>a_op = evr_attr_op_rm, a_key = ''k'', a_value_type = evr_attr_value_type_static, a_value = Some ''a''\<rparr>]"
    by (simp add: demo_attr_def)
  from removed_value_is_kept [OF atbl.sqlite_attr_axioms inv _ _ _ this d len _ k] d k show ?thesis
    by (auto simp: in_order_def)
qed

text \<open>
  An example: claims that are merged late overlap. The statement for the future siblings delivers the latest one first,
  so that a replacement for the time 20 that is merged after those for 30 and 40 ends at 40 and not at 30: at the time
  35 the seed has two values where the history, with the same claims in the order of time, has one. And of two
  operations on a key in one claim, the addition behind the replacement survives a later replacement, as the loop over the
  past siblings stops at the truncating row with the same time.
\<close>

theorem late_and_simultaneous_claims_overlap:
  "evr_get_seed_attrs attr_table_ops collect_attr
      (snd (merge_claims attr_table_ops
        [demo_claim 30 [demo_attr evr_attr_op_replace ''c''], demo_claim 40 [demo_attr evr_attr_op_replace ''d''],
         demo_claim 20 [demo_attr evr_attr_op_replace ''b'']] empty_attr_db)) 35 demo_seed []
    = (Ret Evr_ok, [(''k'', ''c''), (''k'', ''b'')]) \<and>
  history (claims_events
        [demo_claim 20 [demo_attr evr_attr_op_replace ''b''], demo_claim 30 [demo_attr evr_attr_op_replace ''c''],
         demo_claim 40 [demo_attr evr_attr_op_replace ''d'']]) demo_seed ''k'' 35 = {''c''} \<and>
  evr_get_seed_attrs attr_table_ops collect_attr
      (snd (merge_claims attr_table_ops
        [demo_claim 10 [demo_attr evr_attr_op_replace ''a'', demo_attr evr_attr_op_add ''b''],
         demo_claim 20 [demo_attr evr_attr_op_replace ''c'']] empty_attr_db)) 35 demo_seed []
    = (Ret Evr_ok, [(''k'', ''b''), (''k'', ''c'')])"
  by (intro conjI) code_simp+

end
