(* ===== verification/Iso_Time.thy ===== *)
theory Iso_Time
  imports Basics C_Lib
begin

text \<open>
  The ISO 8601 conversions of \<^verbatim>\<open>src/basics.c\<close>, with what they use of the C library: \<^verbatim>\<open>gmtime_r\<close>,
  \<^verbatim>\<open>timegm\<close>, and the format \<^verbatim>\<open>%Y-%m-%dT%H:%M:%SZ\<close> of \<^verbatim>\<open>strftime\<close> and \<^verbatim>\<open>strptime\<close>. A time that is
  formatted is parsed back.
\<close>

section \<open>The calendar\<close>

record tm =
  tm_year :: nat
  tm_mon :: nat
  tm_mday :: nat
  tm_hour :: nat
  tm_min :: nat
  tm_sec :: nat

text \<open>Years count from the year 0, months and days from 1.\<close>

definition leap :: "nat \<Rightarrow> bool" where
  "leap y = (y mod 4 = 0 \<and> (y mod 100 \<noteq> 0 \<or> y mod 400 = 0))"

definition year_days :: "nat \<Rightarrow> nat" where
  "year_days y = (if leap y then 366 else 365)"

definition month_days :: "nat \<Rightarrow> nat list" where
  "month_days y = [31, if leap y then 29 else 28, 31, 30, 31, 30, 31, 31, 30, 31, 30, 31]"

text \<open>Days from the first of January 1970 to the first of January of a year.\<close>

definition leaps :: "int \<Rightarrow> int" where
  "leaps y = y div 4 - y div 100 + y div 400"

definition days_before :: "nat \<Rightarrow> int" where
  "days_before y = 365 * (int y - 1970) + leaps (int y - 1) - leaps 1969"

definition timegm :: "tm \<Rightarrow> int" where
  "timegm t =
    (days_before (tm_year t) + int (sum_list (take (tm_mon t - 1) (month_days (tm_year t)))) + int (tm_mday t) - 1) * 86400
    + int (tm_hour t) * 3600 + int (tm_min t) * 60 + int (tm_sec t)"

function split_year :: "nat \<Rightarrow> nat \<Rightarrow> nat \<times> nat" where
  "split_year y d = (if d < year_days y then (y, d) else split_year (y + 1) (d - year_days y))"
  by auto
termination
  by (relation "measure snd") (auto simp: year_days_def split: if_splits)

declare split_year.simps [simp del]

fun split_month :: "nat list \<Rightarrow> nat \<Rightarrow> nat \<Rightarrow> nat \<times> nat" where
  "split_month [] m d = (m, d)"
| "split_month (l # ls) m d = (if d < l then (m, d) else split_month ls (m + 1) (d - l))"

definition gmtime_r :: "nat \<Rightarrow> tm" where
  "gmtime_r tt =
    (let (y, yd) = split_year 1970 (tt div 86400);
         (m, md) = split_month (month_days y) 1 yd;
         s = tt mod 86400
     in \<lparr>tm_year = y, tm_mon = m, tm_mday = md + 1, tm_hour = s div 3600, tm_min = s div 60 mod 60, tm_sec = s mod 60\<rparr>)"

lemma days_before_Suc: "days_before (y + 1) = days_before y + int (year_days y)"
proof -
  have step: "int y div int n = (int y - 1) div int n + (if y mod n = 0 then 1 else 0)" if n: "1 < n" for n
  proof -
    have e: "int y = int n * (int y div int n) + int (y mod n)" by (simp add: zmod_int)
    show ?thesis
    proof (cases "y mod n = 0")
      case True
      then have "int y - 1 = int n * (int y div int n - 1) + (int n - 1)" using e by (simp add: algebra_simps)
      then have "(int y - 1) div int n = int y div int n - 1"
        using n by (intro int_div_pos_eq [where r = "int n - 1"]) simp_all
      then show ?thesis using True by simp
    next
      case False
      then have "int y - 1 = int n * (int y div int n) + (int (y mod n) - 1)" "0 \<le> int (y mod n) - 1"
        "int (y mod n) - 1 < int n"
        using e False mod_less_divisor [of n y] n by linarith+
      then have "(int y - 1) div int n = int y div int n" by (intro int_div_pos_eq)
      then show ?thesis using False by simp
    qed
  qed
  have d: "y mod 100 = 0 \<Longrightarrow> y mod 4 = 0" "y mod 400 = 0 \<Longrightarrow> y mod 100 = 0" by presburger+
  have s: "int y div 4 = (int y - 1) div 4 + (if y mod 4 = 0 then 1 else 0)"
    "int y div 100 = (int y - 1) div 100 + (if y mod 100 = 0 then 1 else 0)"
    "int y div 400 = (int y - 1) div 400 + (if y mod 400 = 0 then 1 else 0)"
    using step [of 4] step [of 100] step [of 400] by (simp_all only: of_nat_numeral)
  have e: "int (y + 1) - 1 = int y" by simp
  show ?thesis
    unfolding days_before_def leaps_def e s year_days_def leap_def
    using d by (cases "y mod 4 = 0"; cases "y mod 100 = 0"; cases "y mod 400 = 0") simp_all
qed

lemma split_year_spec:
  "split_year y d = (y', d') \<Longrightarrow> days_before y + int d = days_before y' + int d' \<and> d' < year_days y' \<and> y \<le> y'"
proof (induction y d rule: split_year.induct)
  case (1 y d)
  show ?case
  proof (cases "d < year_days y")
    case True
    then show ?thesis using "1.prems" by (simp add: split_year.simps [of y d])
  next
    case False
    then have "split_year (y + 1) (d - year_days y) = (y', d')"
      using "1.prems" by (simp add: split_year.simps [of y d])
    from "1.IH" [OF False this] show ?thesis using False days_before_Suc [of y] by simp
  qed
qed

lemma split_month_spec:
  "split_month ls m d = (m', d') \<Longrightarrow> d < sum_list ls \<Longrightarrow>
    d = sum_list (take (m' - m) ls) + d' \<and> m \<le> m' \<and> m' - m < length ls \<and> d' < ls ! (m' - m)"
proof (induction ls arbitrary: m d)
  case (Cons l ls)
  show ?case
  proof (cases "d < l")
    case False
    then have "split_month ls (m + 1) (d - l) = (m', d')" "d - l < sum_list ls" using Cons.prems by auto
    from Cons.IH [OF this] have "d - l = sum_list (take (m' - (m + 1)) ls) + d'" "m + 1 \<le> m'"
        "m' - (m + 1) < length ls" "d' < ls ! (m' - (m + 1))" by auto
    moreover have "m' - m = Suc (m' - (m + 1))" using calculation(2) by simp
    ultimately show ?thesis using False by simp
  qed (use Cons.prems in simp)
qed simp

lemma sum_month_days: "sum_list (month_days y) = year_days y"
  by (simp add: month_days_def year_days_def)

text \<open>The broken-down time is in range, and \<^verbatim>\<open>timegm\<close> is the inverse.\<close>

lemma month_days_le: "m < 12 \<Longrightarrow> month_days y ! m \<le> 31"
  by (auto simp: month_days_def nth_Cons split: nat.splits)

lemma gmtime_timegm:
  fixes tt :: nat
  defines "t \<equiv> gmtime_r tt"
  shows "timegm t = int tt" "1970 \<le> tm_year t" "1 \<le> tm_mon t \<and> tm_mon t \<le> 12" "1 \<le> tm_mday t \<and> tm_mday t \<le> 31"
    "tm_hour t \<le> 23" "tm_min t \<le> 59" "tm_sec t \<le> 59"
proof -
  obtain y yd where y: "split_year 1970 (tt div 86400) = (y, yd)" by fastforce
  obtain m md where m: "split_month (month_days y) 1 yd = (m, md)" by fastforce
  let ?s = "tt mod 86400"
  have t: "t = \<lparr>tm_year = y, tm_mon = m, tm_mday = md + 1, tm_hour = ?s div 3600, tm_min = ?s div 60 mod 60, tm_sec = ?s mod 60\<rparr>"
    by (simp add: t_def gmtime_r_def Let_def y m [unfolded One_nat_def])
  have Y: "days_before 1970 + int (tt div 86400) = days_before y + int yd" "yd < year_days y" "1970 \<le> y"
    using split_year_spec [OF y] by auto
  have M: "yd = sum_list (take (m - 1) (month_days y)) + md" "1 \<le> m" "m - 1 < length (month_days y)" "md < month_days y ! (m - 1)"
    using split_month_spec [OF m] Y(2) by (simp_all add: sum_month_days)
  have m12: "m - 1 < 12" using M(3) by (simp add: month_days_def)
  have secs: "?s div 3600 * 3600 + ?s div 60 mod 60 * 60 + ?s mod 60 = ?s"
  proof -
    have "?s div 3600 = ?s div 60 div 60" by (simp add: div_mult2_eq)
    moreover have "?s div 60 div 60 * 60 + ?s div 60 mod 60 = ?s div 60" "?s div 60 * 60 + ?s mod 60 = ?s" by simp_all
    ultimately show ?thesis by linarith
  qed
  have days: "days_before y + int (sum_list (take (m - 1) (month_days y))) + int md = int (tt div 86400)"
    using Y(1) M(1) by (simp add: days_before_def leaps_def)
  have "timegm t = int (tt div 86400) * 86400 + int (?s div 3600 * 3600 + ?s div 60 mod 60 * 60 + ?s mod 60)"
    using days by (simp add: timegm_def t algebra_simps)
  also have "\<dots> = int tt" unfolding secs using div_mult_mod_eq [of tt 86400] by linarith
  finally show "timegm t = int tt" .
  show "1970 \<le> tm_year t" "1 \<le> tm_mon t \<and> tm_mon t \<le> 12" "tm_min t \<le> 59" "tm_sec t \<le> 59"
    using Y(3) M(2) m12 by (auto simp: t)
  show "1 \<le> tm_mday t \<and> tm_mday t \<le> 31"
    using M(4) month_days_le [OF m12, of y] by (simp add: t)
  have "?s < 86400" by simp
  then show "tm_hour t \<le> 23" by (simp add: t less_mult_imp_div_less flip: less_Suc_eq_le)
qed

section \<open>Formatting and parsing\<close>

text \<open>Digits with leading zeros, \<^verbatim>\<open>strftime\<close> and \<^verbatim>\<open>strptime\<close> with the format of the sources.\<close>

definition fmt_digit :: "nat \<Rightarrow> char" where "fmt_digit n = char_of (48 + n mod 10)"

primrec fmt_padded :: "nat \<Rightarrow> nat \<Rightarrow> string" where
  "fmt_padded 0 n = []"
| "fmt_padded (Suc w) n = fmt_padded w (n div 10) @ [fmt_digit n]"

definition strftime_iso :: "tm \<Rightarrow> string" where
  "strftime_iso t =
    dec_digits (tm_year t) @ ''-'' @ fmt_padded 2 (tm_mon t) @ ''-'' @ fmt_padded 2 (tm_mday t) @ ''T'' @
    fmt_padded 2 (tm_hour t) @ '':'' @ fmt_padded 2 (tm_min t) @ '':'' @ fmt_padded 2 (tm_sec t) @ ''Z''"

definition digit_value :: "char \<Rightarrow> nat" where "digit_value c = of_char c - 48"

fun number_loop :: "nat \<Rightarrow> nat \<Rightarrow> nat \<Rightarrow> string \<Rightarrow> nat \<times> string" where
  "number_loop 0 to val rp = (val, rp)"
| "number_loop (Suc n) to val [] = (val, [])"
| "number_loop (Suc n) to val (c # rp) =
    (if 10 * val \<le> to \<and> dec_digit c then number_loop n to (10 * val + digit_value c) rp else (val, c # rp))"

definition get_number :: "nat \<Rightarrow> nat \<Rightarrow> nat \<Rightarrow> string \<Rightarrow> (nat \<times> string) option" where
  "get_number from to n s = (case dropWhile (\<lambda>c. c = CHR '' '') s of
      [] \<Rightarrow> None
    | c # rp \<Rightarrow>
       if \<not> dec_digit c then None
       else let (val, rest) = number_loop (n - 1) to (digit_value c) rp in
         if from \<le> val \<and> val \<le> to then Some (val, rest) else None)"

definition get_char :: "char \<Rightarrow> string \<Rightarrow> string option" where
  "get_char c s = (case s of [] \<Rightarrow> None | x # xs \<Rightarrow> if x = c then Some xs else None)"

definition strptime_iso :: "string \<Rightarrow> (tm \<times> string) option" where
  "strptime_iso s =
    do { (y, s) \<leftarrow> get_number 0 9999 4 s; s \<leftarrow> get_char CHR ''-'' s;
         (mo, s) \<leftarrow> get_number 1 12 2 s; s \<leftarrow> get_char CHR ''-'' s;
         (d, s) \<leftarrow> get_number 1 31 2 s; s \<leftarrow> get_char CHR ''T'' s;
         (h, s) \<leftarrow> get_number 0 23 2 s; s \<leftarrow> get_char CHR '':'' s;
         (mi, s) \<leftarrow> get_number 0 59 2 s; s \<leftarrow> get_char CHR '':'' s;
         (sec, s) \<leftarrow> get_number 0 61 2 s; s \<leftarrow> get_char CHR ''Z'' s;
         Some (\<lparr>tm_year = y, tm_mon = mo, tm_mday = d, tm_hour = h, tm_min = mi, tm_sec = sec\<rparr>, s) }"

definition evr_second_fraction_digits :: nat where "evr_second_fraction_digits = 6"

text \<open>
  A date that does not fit into the buffer leaves its content unspecified. The fraction are
  microseconds.
\<close>

definition evr_time_to_iso8601 :: "nat \<Rightarrow> evr_time \<Rightarrow> string exec" where
  "evr_time_to_iso8601 s_size t =
    (let s = strftime_iso (gmtime_r (unat (t div 1000))); ms = unat (t mod 1000 * 1000) in
     if length s + 1 > s_size then Undef
     else if length s + 1 + evr_second_fraction_digits + 1 \<ge> s_size then Panic
     else Ret (butlast s @ ''.'' @ fmt_padded evr_second_fraction_digits ms @ ''Z''))"

text \<open>
  \<open>None\<close> is \<^verbatim>\<open>evr_error\<close>. The base date is copied up to the dot and closed by the letter Z; then the
  terminating zero is written one byte behind the array the function declares, which is undefined. \<open>spare\<close> tells
  whether the stack frame of the compiled function has a byte there that nothing else uses: the sources rely on it.
\<close>

definition evr_time_from_iso8601 :: "bool \<Rightarrow> string \<Rightarrow> evr_time option exec" where
  "evr_time_from_iso8601 spare s =
    (if length s < 2 + evr_second_fraction_digits then Ret None
     else let dot = length s - (2 + evr_second_fraction_digits);
              ms_s = take evr_second_fraction_digits (drop (dot + 1) s)
      in if s ! dot \<noteq> CHR ''.'' \<or> \<not> list_all dec_digit ms_s \<or> last s \<noteq> CHR ''Z'' then Ret None
         else if \<not> spare then Undef
         else case strptime_iso (take dot s @ ''Z'') of
             None \<Rightarrow> Ret None
           | Some (t, rest) \<Rightarrow>
               Ret (if rest \<noteq> [] then None
                    else Some (word_of_int (timegm t) * 1000 + word_of_nat (dec_value ms_s div 1000))))"

subsection \<open>Round trip\<close>

lemma of_char_digit: "n < 10 \<Longrightarrow> (of_char (char_of (48 + n) :: char) :: nat) = 48 + n"
  by (simp add: of_char_of take_bit_nat_eq_self)

lemma fmt_digit_simps [simp]:
  "dec_digit (fmt_digit n)" "digit_value (fmt_digit n) = n mod 10" "fmt_digit n \<noteq> CHR '' ''"
proof -
  have h: "of_char (fmt_digit n) = 48 + n mod 10" unfolding fmt_digit_def by (rule of_char_digit) simp
  show "dec_digit (fmt_digit n)" unfolding dec_digit_def h by simp
  show "digit_value (fmt_digit n) = n mod 10" unfolding digit_value_def h by simp
  have "(of_char (CHR '' '') :: nat) = 32" by simp
  then show "fmt_digit n \<noteq> CHR '' ''" using h by auto
qed

lemma dec_digits_4:
  assumes "1000 \<le> y" "y \<le> 9999"
  shows "dec_digits y = fmt_padded 4 y"
proof -
  have more: "\<not> n < 10 \<longrightarrow> dec_digits n = dec_digits (n div 10) @ [fmt_digit n]" for n
    by (subst dec_digits.simps) (simp add: fmt_digit_def)
  have one: "n < 10 \<longrightarrow> dec_digits n = [fmt_digit n]" for n
    by (subst dec_digits.simps) (simp add: fmt_digit_def)
  have "dec_digits y = dec_digits (y div 10) @ [fmt_digit y]" using more [of y] assms by simp
  moreover have "100 \<le> y div 10" "10 \<le> y div 10 div 10" "y div 10 div 10 div 10 < 10" using assms by simp_all
  then have "dec_digits (y div 10) = dec_digits (y div 10 div 10) @ [fmt_digit (y div 10)]"
    "dec_digits (y div 10 div 10) = dec_digits (y div 10 div 10 div 10) @ [fmt_digit (y div 10 div 10)]"
    "dec_digits (y div 10 div 10 div 10) = [fmt_digit (y div 10 div 10 div 10)]"
    using more [of "y div 10"] more [of "y div 10 div 10"] one [of "y div 10 div 10 div 10"] by simp_all
  moreover have "(4 :: nat) = Suc (Suc (Suc (Suc 0)))" by simp
  ultimately show ?thesis by (simp only: fmt_padded.simps append_Nil)
qed

lemma get_number_2:
  assumes "from \<le> n" "n \<le> to" "to < 100"
  shows "get_number from to 2 (fmt_padded 2 n @ rest) = Some (n, rest)"
proof -
  have "n div 10 < 10" using assms by simp
  moreover have "10 * (n div 10) \<le> to" using assms(2) by (meson div_times_less_eq_dividend mult.commute order_trans le_trans times_div_less_eq_dividend)
  ultimately show ?thesis using assms by (simp add: get_number_def numeral_2_eq_2)
qed

lemma get_number_4:
  assumes "n \<le> 9999"
  shows "get_number 0 9999 4 (fmt_padded 4 n @ rest) = Some (n, rest)"
proof -
  have e: "(4 :: nat) = Suc (Suc (Suc (Suc 0)))" by simp
  let ?a = "n div 10" let ?b = "n div 10 div 10" let ?c = "n div 10 div 10 div 10"
  have c: "?c < 10" using assms by simp
  have v: "10 * ?c + ?b mod 10 = ?b" "10 * ?b + ?a mod 10 = ?a" "10 * ?a + n mod 10 = n" by simp_all
  then have le: "10 * ?c \<le> 9999" "10 * ?b \<le> 9999" "10 * ?a \<le> 9999" using assms by linarith+
  have m: "?c mod 10 = ?c" using c by simp
  have "get_number 0 9999 4 (fmt_padded 4 n @ rest) =
      (let (val, r) = number_loop 3 9999 ?c (fmt_digit ?b # fmt_digit ?a # fmt_digit n # rest) in
       if 0 \<le> val \<and> val \<le> 9999 then Some (val, r) else None)"
    by (simp only: e get_number_def fmt_padded.simps append_Nil append_Cons append_assoc dropWhile.simps
        fmt_digit_simps if_False if_True list.case diff_Suc_1 m) (simp add: numeral_3_eq_3)
  also have "number_loop 3 9999 ?c (fmt_digit ?b # fmt_digit ?a # fmt_digit n # rest) = (n, rest)"
    by (simp only: numeral_3_eq_3 number_loop.simps le fmt_digit_simps v if_True simp_thms)
  finally show ?thesis using assms by simp
qed

lemma strptime_strftime:
  assumes "1000 \<le> tm_year t" "tm_year t \<le> 9999" "1 \<le> tm_mon t \<and> tm_mon t \<le> 12" "1 \<le> tm_mday t \<and> tm_mday t \<le> 31"
    "tm_hour t \<le> 23" "tm_min t \<le> 59" "tm_sec t \<le> 59"
  shows "strptime_iso (strftime_iso t) = Some (t, [])"
  using assms
  by (simp add: strptime_iso_def strftime_iso_def dec_digits_4 get_number_4 get_number_2 get_char_def)

lemma length_fmt_padded [simp]: "length (fmt_padded w n) = w"
  by (induction w arbitrary: n) simp_all

lemma fmt_padded_digits: "list_all dec_digit (fmt_padded w n)"
  by (induction w arbitrary: n) simp_all

text \<open>The characters of ASCII with a glyph, and the space.\<close>

definition printable :: "char \<Rightarrow> bool" where "printable c = (32 \<le> (of_char c :: nat) \<and> (of_char c :: nat) \<le> 126)"

lemma fmt_padded_printable: "list_all printable (fmt_padded w n)"
  using fmt_padded_digits [of w n] by (rule list.pred_mono_strong) (simp add: dec_digit_def printable_def)

lemma dec_value_snoc: "dec_value (ds @ [c]) = 10 * dec_value ds + digit_value c"
  by (simp add: dec_value_def digit_value_def)

lemma dec_value_fmt_padded: "n < 10 ^ w \<Longrightarrow> dec_value (fmt_padded w n) = n"
proof (induction w arbitrary: n)
  case (Suc w)
  then have "n div 10 < 10 ^ w" by (simp add: less_mult_imp_div_less mult.commute)
  then show ?case using Suc.IH by (simp add: dec_value_snoc)
qed (simp add: dec_value_def)

text \<open>The last second of the year 9999.\<close>

definition max_iso_second :: nat where "max_iso_second = 253402300799"

lemma days_before_mono: "y \<le> y' \<Longrightarrow> days_before y \<le> days_before y'"
proof (induction y' rule: dec_induct)
  case (step n)
  then show ?case using days_before_Suc [of n] by simp
qed simp

lemma gmtime_year:
  assumes "tt \<le> max_iso_second"
  shows "tm_year (gmtime_r tt) \<le> 9999"
proof (rule ccontr)
  assume "\<not> tm_year (gmtime_r tt) \<le> 9999"
  then have "days_before 10000 \<le> days_before (tm_year (gmtime_r tt))" by (intro days_before_mono) simp
  moreover have "days_before (tm_year (gmtime_r tt)) * 86400 \<le> timegm (gmtime_r tt)"
    using gmtime_timegm(4) [of tt] by (simp add: timegm_def)
  ultimately show False using assms gmtime_timegm(1) [of tt]
    by (simp add: days_before_def leaps_def max_iso_second_def)
qed

lemma iso8601_back:
  fixes t :: evr_time
  assumes t: "unat t div 1000 \<le> max_iso_second" and size: "30 \<le> s_size"
  shows "\<exists>s. evr_time_to_iso8601 s_size t = Ret s \<and> length s = 27 \<and> list_all printable s \<and>
    (\<forall>spare. evr_time_from_iso8601 spare s = (if spare then Ret (Some t) else Undef))"
proof -
  let ?tt = "unat (t div 1000)" and ?ms = "unat (t mod 1000 * 1000)"
  have tt: "?tt = unat t div 1000" by (simp add: unat_div)
  have mod: "unat (t mod 1000) = unat t mod 1000" by (simp add: unat_mod)
  then have ms: "?ms = unat t mod 1000 * 1000"
    by (simp add: unat_word_ariths take_bit_nat_eq_self unat_mult_lem [THEN iffD1])
  let ?g = "gmtime_r ?tt"
  have y: "tm_year ?g \<le> 9999" using gmtime_year t tt by simp
  have g: "strptime_iso (strftime_iso ?g) = Some (?g, [])"
    using y gmtime_timegm(2-7) [of ?tt] by (intro strptime_strftime) linarith+
  define base where "base = fmt_padded 4 (tm_year ?g) @ ''-'' @ fmt_padded 2 (tm_mon ?g) @ ''-'' @ fmt_padded 2 (tm_mday ?g) @
    ''T'' @ fmt_padded 2 (tm_hour ?g) @ '':'' @ fmt_padded 2 (tm_min ?g) @ '':'' @ fmt_padded 2 (tm_sec ?g)"
  have base: "strftime_iso ?g = base @ ''Z''" "length base = 19"
    using y gmtime_timegm(2) [of ?tt] by (simp_all add: base_def strftime_iso_def dec_digits_4)
  let ?s = "base @ ''.'' @ fmt_padded 6 ?ms @ ''Z''"
  have to: "evr_time_to_iso8601 s_size t = Ret ?s"
    using size base by (simp add: evr_time_to_iso8601_def Let_def evr_second_fraction_digits_def butlast_append)
  have "?ms < 10 ^ 6" unfolding ms by simp
  then have v: "dec_value (fmt_padded 6 ?ms) div 1000 = unat t mod 1000"
    using ms by (simp add: dec_value_fmt_padded)
  have sum: "word_of_int (timegm ?g) * 1000 + word_of_nat (unat t mod 1000) = t"
  proof -
    have "word_of_int (timegm ?g) = (word_of_nat (unat t div 1000) :: evr_time)"
      unfolding gmtime_timegm(1) tt by simp
    then have "word_of_int (timegm ?g) * 1000 + word_of_nat (unat t mod 1000) =
        (word_of_nat (unat t div 1000 * 1000 + unat t mod 1000) :: evr_time)"
      by (simp only: of_nat_add of_nat_mult of_nat_numeral)
    also have "\<dots> = t" unfolding div_mult_mod_eq by simp
    finally show ?thesis .
  qed
  have parsed: "evr_time_from_iso8601 spare ?s = (if spare then Ret (Some t) else Undef)" for spare
    using base g v sum fmt_padded_digits [of 6 ?ms]
    by (simp add: evr_time_from_iso8601_def Let_def evr_second_fraction_digits_def nth_append)
  have "list_all printable ?s" by (simp add: base_def fmt_padded_printable) (simp add: printable_def)
  with parsed show ?thesis using to base by (intro exI [of _ ?s]) simp
qed

text \<open>
  C22: a time survives its ISO 8601 form. Every time up to the end of the year 9999 is formatted into a buffer
  of 30 bytes, without panic and without a truncated date, as a text of 27 characters, and
  \<^verbatim>\<open>evr_time_from_iso8601\<close> gives the same time, in milliseconds, back, provided that the byte behind the array it
  writes into is spare; without this, parsing every such text is undefined.
\<close>

theorem iso8601_roundtrip:
  fixes t :: evr_time
  assumes t: "unat t div 1000 \<le> max_iso_second" and size: "30 \<le> s_size"
  shows "\<exists>s. evr_time_to_iso8601 s_size t = Ret s \<and> length s = 27 \<and> evr_time_from_iso8601 True s = Ret (Some t) \<and>
    evr_time_from_iso8601 False s = Undef"
  using iso8601_back [OF t size] by auto

theorem iso8601_roundtrip_witness:
  "\<exists>s. evr_time_to_iso8601 30 1651234567890 = Ret s \<and> length s = 27 \<and>
    evr_time_from_iso8601 True s = Ret (Some 1651234567890) \<and> evr_time_from_iso8601 False s = Undef"
  by (rule iso8601_roundtrip) (simp_all add: max_iso_second_def)

end
