(* ===== verification/Claims.thy ===== *)
theory Claims
  imports Virtual_Fs Attr_Index Iso_Time
begin

text \<open>
  \<^verbatim>\<open>src/claims.c\<close>: reading and writing claim sets. A document is the tree libxml builds of it, with
  namespaces resolved; \<open>next\<close> and \<open>prev\<close> of a node are the lists of its siblings. A function that returns
  a null pointer on errors returns \<open>None\<close>. \<open>malloc\<close> tells whether the allocation of the result succeeds.
\<close>

section \<open>Documents\<close>

record xml_attr =
  xa_ns :: "string option"
  xa_name :: string
  xa_value :: string

datatype xml_node =
    Element (xe_ns: "string option") (xe_name: string) (xe_attrs: "xml_attr list") (xe_children: "xml_node list")
  | Other_node string

definition is_element :: "xml_node \<Rightarrow> bool" where
  "is_element n = (case n of Element _ _ _ _ \<Rightarrow> True | _ \<Rightarrow> False)"

definition node_attrs :: "xml_node \<Rightarrow> xml_attr list" where
  "node_attrs n = (case n of Element _ _ as _ \<Rightarrow> as | _ \<Rightarrow> [])"

definition node_children :: "xml_node \<Rightarrow> xml_node list" where
  "node_children n = (case n of Element _ _ _ cs \<Rightarrow> cs | _ \<Rightarrow> [])"

text \<open>
  \<^verbatim>\<open>xmlGetProp\<close> looks for the name in any namespace, \<^verbatim>\<open>xmlGetNsProp\<close> in the given one.
  \<^verbatim>\<open>xmlSetProp\<close> sets an attribute without namespace, which is added when it is not there.
\<close>

definition xmlGetProp :: "xml_node \<Rightarrow> string \<Rightarrow> string option" where
  "xmlGetProp n nm = map_option xa_value (find (\<lambda>a. xa_name a = nm) (node_attrs n))"

definition xmlGetNsProp :: "xml_node \<Rightarrow> string \<Rightarrow> string \<Rightarrow> string option" where
  "xmlGetNsProp n nm ns = map_option xa_value (find (\<lambda>a. xa_name a = nm \<and> xa_ns a = Some ns) (node_attrs n))"

fun set_attr :: "string \<Rightarrow> string \<Rightarrow> xml_attr list \<Rightarrow> xml_attr list" where
  "set_attr nm v [] = [\<lparr>xa_ns = None, xa_name = nm, xa_value = v\<rparr>]"
| "set_attr nm v (a # as) = (if xa_name a = nm \<and> xa_ns a = None then a\<lparr>xa_value := v\<rparr> # as else a # set_attr nm v as)"

definition xmlSetProp :: "xml_node \<Rightarrow> string \<Rightarrow> string \<Rightarrow> xml_node" where
  "xmlSetProp n nm v = (case n of Element ns e as cs \<Rightarrow> Element ns e (set_attr nm v as) cs | _ \<Rightarrow> n)"

section \<open>Finding elements\<close>

definition evr_claims_ns :: string where "evr_claims_ns = ''https://evr.ma300k.de/claims/''"
definition evr_files_ns :: string where "evr_files_ns = ''https://evr.ma300k.de/files/''"
definition evr_dc_ns :: string where "evr_dc_ns = ''http://purl.org/dc/terms/''"

definition evr_is_evr_element :: "xml_node option \<Rightarrow> string \<Rightarrow> string \<Rightarrow> bool" where
  "evr_is_evr_element n nm ns = (case n of
      Some (Element (Some href) e _ _) \<Rightarrow> e = nm \<and> ns = href
    | _ \<Rightarrow> False)"

text \<open>The result starts with the element that was found, and is empty when there is none.\<close>

primrec evr_find_next_element :: "xml_node list \<Rightarrow> string option \<Rightarrow> string \<Rightarrow> xml_node list" where
  "evr_find_next_element [] name_filter ns = []"
| "evr_find_next_element (c # cs) name_filter ns =
    (if \<not> is_element c then evr_find_next_element cs name_filter ns
     else case name_filter of
         None \<Rightarrow> c # cs
       | Some nm \<Rightarrow> if evr_is_evr_element (Some c) nm ns then c # cs else evr_find_next_element cs name_filter ns)"

lemma length_find_next: "length (evr_find_next_element cs nf ns) \<le> length cs"
  by (induction cs) (auto split: option.splits)

text \<open>The elements a loop visits that goes on from the \<open>next\<close> of the element it found.\<close>

function visit_elements :: "string option \<Rightarrow> string \<Rightarrow> xml_node list \<Rightarrow> xml_node list" where
  "visit_elements nf ns cs = (case evr_find_next_element cs nf ns of [] \<Rightarrow> [] | n # rest \<Rightarrow> n # visit_elements nf ns rest)"
  by auto
termination
proof (relation "measure (\<lambda>(_, _, cs). length cs)")
  fix nf :: "string option" and ns :: string and cs n rest
  assume "evr_find_next_element cs nf ns = n # rest"
  then have "Suc (length rest) \<le> length cs" using length_find_next [of cs nf ns] by simp
  then show "((nf, ns, rest), nf, ns, cs) \<in> measure (\<lambda>(_, _, cs). length cs)" by simp
qed simp

declare visit_elements.simps [simp del]

definition wanted :: "string option \<Rightarrow> string \<Rightarrow> xml_node \<Rightarrow> bool" where
  "wanted nf ns n = (is_element n \<and> (case nf of None \<Rightarrow> True | Some nm \<Rightarrow> evr_is_evr_element (Some n) nm ns))"

lemma find_next_dropWhile: "evr_find_next_element cs nf ns = dropWhile (\<lambda>n. \<not> wanted nf ns n) cs"
  by (induction cs) (auto simp: wanted_def split: option.splits)

lemma visit_elements_filter: "visit_elements nf ns cs = filter (wanted nf ns) cs"
proof (induction nf ns cs rule: visit_elements.induct)
  case (1 nf ns cs)
  show ?case
  proof (cases "evr_find_next_element cs nf ns")
    case Nil
    then have "filter (wanted nf ns) cs = []"
      by (auto simp: find_next_dropWhile dropWhile_eq_Nil_conv filter_empty_conv)
    then show ?thesis using Nil by (simp add: visit_elements.simps [of nf ns cs])
  next
    case (Cons n rest)
    have d: "dropWhile (\<lambda>n. \<not> wanted nf ns n) cs = n # rest" using Cons by (simp add: find_next_dropWhile)
    have w: "wanted nf ns n" using hd_dropWhile [of "\<lambda>n. \<not> wanted nf ns n" cs] d by simp
    have "filter (wanted nf ns) cs = filter (wanted nf ns) (takeWhile (\<lambda>n. \<not> wanted nf ns n) cs @ n # rest)"
      using takeWhile_dropWhile_id [of "\<lambda>n. \<not> wanted nf ns n" cs] d by simp
    also have "\<dots> = n # filter (wanted nf ns) rest"
      using w by (auto simp: filter_empty_conv dest: set_takeWhileD)
    finally show ?thesis using Cons "1.IH" [OF Cons] by (simp add: visit_elements.simps [of nf ns cs])
  qed
qed

definition evr_count_elements :: "xml_node list \<Rightarrow> string \<Rightarrow> nat" where
  "evr_count_elements start nm = length (visit_elements (Some nm) evr_claims_ns start)"

definition evr_get_root_claim_set :: "xml_node option \<Rightarrow> xml_node option" where
  "evr_get_root_claim_set doc = (if evr_is_evr_element doc ''claim-set'' evr_claims_ns then doc else None)"

definition evr_first_claim :: "xml_node \<Rightarrow> xml_node list" where
  "evr_first_claim claim_set = evr_find_next_element (node_children claim_set) None []"

definition evr_next_claim :: "xml_node list \<Rightarrow> xml_node list" where
  "evr_next_claim cs = evr_find_next_element (tl cs) None []"

primrec nth_claim_loop :: "nat \<Rightarrow> xml_node list \<Rightarrow> xml_node list" where
  "nth_claim_loop 0 cs = cs"
| "nth_claim_loop (Suc n) cs = (if cs = [] then [] else nth_claim_loop n (evr_next_claim cs))"

text \<open>A negative number gives the first claim.\<close>

definition evr_nth_claim :: "xml_node \<Rightarrow> c_int \<Rightarrow> xml_node option" where
  "evr_nth_claim claim_set n =
    (case nth_claim_loop (nat (sint n)) (evr_first_claim claim_set) of [] \<Rightarrow> None | c # _ \<Rightarrow> Some c)"

definition evr_get_root_file_set :: "xml_node option \<Rightarrow> xml_node option" where
  "evr_get_root_file_set doc = (if evr_is_evr_element doc ''file-set'' evr_files_ns then doc else None)"

definition evr_first_file_node :: "xml_node \<Rightarrow> xml_node list" where
  "evr_first_file_node file_set = evr_find_next_element (node_children file_set) (Some ''file'') evr_files_ns"

definition evr_next_file_node :: "xml_node list \<Rightarrow> xml_node list" where
  "evr_next_file_node cs = evr_find_next_element (tl cs) (Some ''file'') evr_files_ns"

section \<open>Reading claims\<close>

text \<open>\<^verbatim>\<open>%zu\<close>: a number that is too large gives the largest one, a negative one wraps.\<close>

definition sscanf_zu :: "string \<Rightarrow> size_t option" where
  "sscanf_zu s =
    (let (neg, item) = strip_sign (dropWhile is_space s);
         digits = takeWhile dec_digit item; v = dec_value digits
     in if digits = [] then None
        else if int v \<ge> 2 ^ 64 then Some (- 1)
        else Some (if neg then - word_of_nat v else word_of_nat v))"

definition evr_parse_created :: "bool \<Rightarrow> xml_node \<Rightarrow> evr_time option exec" where
  "evr_parse_created spare n = (case xmlGetNsProp n ''created'' evr_dc_ns of
      None \<Rightarrow> Ret None
    | Some s \<Rightarrow> evr_time_from_iso8601 spare s)"

definition evr_parse_claim_index_seed_attr :: "xml_node \<Rightarrow> evr_code \<times> size_t" where
  "evr_parse_claim_index_seed_attr claim = (case xmlGetProp claim ''index-seed'' of
      None \<Rightarrow> (Evr_not_found, 0)
    | Some v \<Rightarrow> (case sscanf_zu v of None \<Rightarrow> (Evr_error, 0) | Some n \<Rightarrow> (Evr_ok, n)))"

record evr_file_claim =
  fc_title :: "string option"
  fc_slices :: "evr_file_slice list"

definition parse_slice :: "xml_node \<Rightarrow> evr_file_slice option" where
  "parse_slice n =
    do { fmt_ref \<leftarrow> xmlGetProp n ''ref'';
         ref \<leftarrow> (case evr_parse_blob_ref (replicate evr_blob_ref_size 0) fmt_ref of
                  (c, r) \<Rightarrow> if c \<noteq> Evr_ok then None else Some r);
         fmt_size \<leftarrow> xmlGetProp n ''size'';
         sz \<leftarrow> sscanf_zu fmt_size;
         Some \<lparr>fs_ref = ref, fs_size = unat sz\<rparr> }"

primrec parse_slices :: "xml_node list \<Rightarrow> evr_file_slice list option" where
  "parse_slices [] = Some []"
| "parse_slices (n # ns) = do { s \<leftarrow> parse_slice n; ss \<leftarrow> parse_slices ns; Some (s # ss) }"

definition evr_parse_file_claim :: "bool \<Rightarrow> xml_node \<Rightarrow> evr_file_claim option" where
  "evr_parse_file_claim malloc claim_node =
    (let title = xmlGetNsProp claim_node ''title'' evr_dc_ns in
     case evr_find_next_element (node_children claim_node) (Some ''body'') evr_claims_ns of
       [] \<Rightarrow> None
     | body # _ \<Rightarrow>
        if \<not> malloc then None
        else map_option (\<lambda>slices. \<lparr>fc_title = title, fc_slices = slices\<rparr>)
          (parse_slices (visit_elements (Some ''slice'') evr_claims_ns (node_children body))))"

definition evr_file_claim_file_size :: "evr_file_claim \<Rightarrow> size_t" where
  "evr_file_claim_file_size fc = foldl (\<lambda>s sl. s + word_of_nat (fs_size sl)) 0 (fc_slices fc)"

definition parse_attr_op :: "string \<Rightarrow> c_int option" where
  "parse_attr_op op_str =
    (if op_str = ''='' then Some evr_attr_op_replace
     else if op_str = ''+'' then Some evr_attr_op_add
     else if op_str = ''-'' then Some evr_attr_op_rm
     else None)"

definition parse_attr :: "xml_node \<Rightarrow> evr_attr option" where
  "parse_attr n =
    do { op_str \<leftarrow> xmlGetProp n ''op'';
         op \<leftarrow> parse_attr_op op_str;
         key \<leftarrow> xmlGetProp n ''k'';
         vt \<leftarrow> (case xmlGetProp n ''vf'' of
                 None \<Rightarrow> Some evr_attr_value_type_static
               | Some s \<Rightarrow> if s = ''static'' then Some evr_attr_value_type_static
                           else if s = ''claim-ref'' then Some evr_attr_value_type_self_claim_ref else None);
         Some \<lparr>a_op = op, a_key = key, a_value_type = vt,
           a_value = (if vt = evr_attr_value_type_static then xmlGetProp n ''v'' else None)\<rparr> }"

primrec parse_attrs :: "xml_node list \<Rightarrow> evr_attr list option" where
  "parse_attrs [] = Some []"
| "parse_attrs (n # ns) = do { a \<leftarrow> parse_attr n; as \<leftarrow> parse_attrs ns; Some (a # as) }"

text \<open>\<open>prev\<close> are the siblings before the claim. Without a seed the seed field is left as it is.\<close>

definition evr_parse_attr_claim :: "bool \<Rightarrow> xml_node list \<Rightarrow> xml_node \<Rightarrow> evr_code \<times> evr_attr_claim option" where
  "evr_parse_attr_claim malloc prev claim_node =
    (let raw = replicate evr_claim_ref_size 0;
         (seed_type, (seed_res, seed)) = (case xmlGetProp claim_node ''seed'' of
             None \<Rightarrow> (evr_seed_type_self, (Evr_ok, raw))
           | Some s \<Rightarrow> (evr_seed_type_claim, evr_parse_claim_ref raw s)) in
     if seed_res \<noteq> Evr_ok then (Evr_user_data_invalid, None)
     else let (index_res, n) = evr_parse_claim_index_seed_attr claim_node;
              index_seed = (if index_res = Evr_not_found then word_of_nat (length (filter is_element prev)) else n);
              attrs = visit_elements (Some ''a'') evr_claims_ns (node_children claim_node) in
       if index_res \<noteq> Evr_ok \<and> index_res \<noteq> Evr_not_found then (Evr_error, None)
       else if \<not> list_all (\<lambda>a. xmlGetProp a ''k'' \<noteq> None) attrs then (Evr_error, None)
       else if \<not> malloc then (Evr_error, None)
       else case parse_attrs attrs of
           None \<Rightarrow> (Evr_error, None)
         | Some as \<Rightarrow> (Evr_ok, Some \<lparr>ac_seed_type = seed_type, ac_seed = seed, ac_index_seed = index_seed, ac_attr = as\<rparr>))"

definition evr_parse_archive_claim :: "bool \<Rightarrow> xml_node \<Rightarrow> evr_claim_ref option" where
  "evr_parse_archive_claim malloc claim_node = (case xmlGetProp claim_node ''seed'' of
      None \<Rightarrow> None
    | Some s \<Rightarrow>
       if \<not> malloc then None
       else case evr_parse_claim_ref (replicate evr_claim_ref_size 0) s of
           (c, ref) \<Rightarrow> if c \<noteq> Evr_ok then None else Some ref)"

text \<open>A time of a file, with the value it has when the attribute is not there.\<close>

definition fs_file_time :: "bool \<Rightarrow> string option \<Rightarrow> evr_time \<Rightarrow> evr_time option exec" where
  "fs_file_time spare v otherwise = (case v of None \<Rightarrow> Ret (Some otherwise) | Some s \<Rightarrow> evr_time_from_iso8601 spare s)"

definition evr_parse_fs_file :: "bool \<Rightarrow> bool \<Rightarrow> xml_node \<Rightarrow> evr_fs_file option exec" where
  "evr_parse_fs_file spare malloc cn = (case
    do { path \<leftarrow> xmlGetProp cn ''path'';
         file_ref_str \<leftarrow> xmlGetProp cn ''file-ref'';
         file_ref \<leftarrow> (case evr_parse_claim_ref (replicate evr_claim_ref_size 0) file_ref_str of
                       (c, r) \<Rightarrow> if c \<noteq> Evr_ok then None else Some r);
         size_str \<leftarrow> xmlGetProp cn ''size'';
         n \<leftarrow> sscanf_zu size_str;
         Some (path, file_ref, n) } of
      None \<Rightarrow> Ret None
    | Some (path, file_ref, n) \<Rightarrow>
       (case fs_file_time spare (xmlGetProp cn ''created'') 0 of
          Ret (Some created) \<Rightarrow>
            (case fs_file_time spare (xmlGetProp cn ''last-modified'') created of
               Ret (Some last_modified) \<Rightarrow>
                 Ret (if \<not> malloc then None
                      else Some \<lparr>ff_path = path, ff_file_ref = file_ref, ff_size = unat n, ff_created = created,
                        ff_last_modified = last_modified\<rparr>)
             | Ret None \<Rightarrow> Ret None
             | Panic \<Rightarrow> Panic
             | Undef \<Rightarrow> Undef)
        | Ret None \<Rightarrow> Ret None
        | Panic \<Rightarrow> Panic
        | Undef \<Rightarrow> Undef))"

section \<open>Attribute specifications\<close>

record evr_attr_def =
  def_key :: string
  def_type :: c_int

record evr_attr_spec_claim =
  sp_attr_def :: "evr_attr_def list"
  sp_transformation_blob_ref :: evr_blob_ref
  sp_attr_factories :: "evr_blob_ref list"

definition parse_attr_def :: "xml_node \<Rightarrow> evr_attr_def option" where
  "parse_attr_def n =
    do { type_name \<leftarrow> xmlGetProp n ''type'';
         ty \<leftarrow> (if type_name = ''str'' then Some evr_type_str
                else if type_name = ''int'' then Some evr_type_int
                else if type_name = ''claim-ref'' then Some evr_type_claim_ref
                else None);
         key \<leftarrow> xmlGetProp n ''k'';
         Some \<lparr>def_key = key, def_type = ty\<rparr> }"

definition parse_blob_attr :: "string \<Rightarrow> evr_blob_ref option" where
  "parse_blob_attr s = (case evr_parse_blob_ref (replicate evr_blob_ref_size 0) s of
      (c, r) \<Rightarrow> if c \<noteq> Evr_ok then None else Some r)"

definition parse_attr_factory :: "xml_node \<Rightarrow> evr_blob_ref option" where
  "parse_attr_factory n =
    do { type_str \<leftarrow> xmlGetProp n ''type'';
         if type_str \<noteq> ''executable'' then None else do { ref_str \<leftarrow> xmlGetProp n ''blob''; parse_blob_attr ref_str } }"

primrec parse_all :: "('a \<Rightarrow> 'b option) \<Rightarrow> 'a list \<Rightarrow> 'b list option" where
  "parse_all f [] = Some []"
| "parse_all f (x # xs) = do { y \<leftarrow> f x; ys \<leftarrow> parse_all f xs; Some (y # ys) }"

text \<open>A transformation without the attribute \<open>blob\<close> gives a null pointer to the parser of references.\<close>

definition evr_parse_attr_spec_claim :: "bool \<Rightarrow> xml_node \<Rightarrow> evr_attr_spec_claim option exec" where
  "evr_parse_attr_spec_claim malloc claim_node =
    (let cs = node_children claim_node;
         defs = visit_elements (Some ''attr-def'') evr_claims_ns cs;
         factories = visit_elements (Some ''attr-factory'') evr_claims_ns cs in
     if \<not> list_all (\<lambda>n. xmlGetProp n ''k'' \<noteq> None) defs then Ret None
     else case evr_find_next_element cs (Some ''transformation'') evr_claims_ns of
         [] \<Rightarrow> Ret None
       | tr # _ \<Rightarrow>
          if xmlGetProp tr ''type'' \<noteq> Some ''xslt'' then Ret None
          else case xmlGetProp tr ''blob'' of
              None \<Rightarrow> Undef
            | Some fmt \<Rightarrow> Ret
                (do { ref \<leftarrow> parse_blob_attr fmt;
                      if \<not> malloc then None
                      else do { ds \<leftarrow> parse_all parse_attr_def defs;
                                fs \<leftarrow> parse_all parse_attr_factory factories;
                                Some \<lparr>sp_attr_def = ds, sp_transformation_blob_ref = ref, sp_attr_factories = fs\<rparr> } }))"

section \<open>Annotating claims\<close>

text \<open>
  \<open>sp\<close> tells for each claim whether setting the two attributes succeeds. The index of a claim is a \<^verbatim>\<open>size_t\<close>
  that \<^verbatim>\<open>evr_build_claim_ref\<close> takes as an \<^verbatim>\<open>int\<close>.
\<close>

definition claim_ref_text :: "evr_blob_ref \<Rightarrow> size_t \<Rightarrow> string option" where
  "claim_ref_text doc_ref i =
    map_option evr_fmt_claim_ref (evr_build_claim_ref (replicate evr_claim_ref_size 0) doc_ref (ucast i))"

definition annotate_claim :: "bool \<times> bool \<Rightarrow> evr_blob_ref \<Rightarrow> size_t \<Rightarrow> xml_node \<Rightarrow> evr_code \<times> xml_node" where
  "annotate_claim sp doc_ref ci c =
    (let (ok1, c1) = (if xmlGetProp c ''claim-ref'' \<noteq> None then (True, c)
           else (fst sp, if fst sp then xmlSetProp c ''claim-ref'' (the (claim_ref_text doc_ref ci)) else c)) in
     if \<not> ok1 then (Evr_error, c1)
     else if xmlGetProp c1 ''seed'' \<noteq> None then (Evr_ok, c1)
     else case evr_parse_claim_index_seed_attr c1 of (r, n) \<Rightarrow>
       if r \<noteq> Evr_ok \<and> r \<noteq> Evr_not_found then (Evr_error, c1)
       else let index_seed = (if r = Evr_not_found then ci else n) in
         if snd sp then (Evr_ok, xmlSetProp c1 ''seed'' (the (claim_ref_text doc_ref index_seed))) else (Evr_error, c1))"

primrec annotate_loop :: "(nat \<Rightarrow> bool \<times> bool) \<Rightarrow> evr_blob_ref \<Rightarrow> nat \<Rightarrow> xml_node list \<Rightarrow> evr_code \<times> xml_node list" where
  "annotate_loop sp doc_ref ci [] = (Evr_ok, [])"
| "annotate_loop sp doc_ref ci (c # cs) =
    (if \<not> is_element c then (case annotate_loop sp doc_ref ci cs of (r, cs') \<Rightarrow> (r, c # cs'))
     else case annotate_claim (sp ci) doc_ref (word_of_nat ci) c of (r, c') \<Rightarrow>
       if r \<noteq> Evr_ok then (Evr_error, c' # cs)
       else case annotate_loop sp doc_ref (Suc ci) cs of (r2, cs') \<Rightarrow> (r2, c' # cs'))"

definition evr_annotate_claims :: "(nat \<Rightarrow> bool \<times> bool) \<Rightarrow> xml_node option \<Rightarrow> evr_blob_ref \<Rightarrow> evr_code \<times> xml_node option" where
  "evr_annotate_claims sp doc doc_ref = (case evr_get_root_claim_set doc of
      None \<Rightarrow> (Evr_ok, doc)
    | Some cs \<Rightarrow>
       (case annotate_loop sp doc_ref 0 (node_children cs) of (r, cs') \<Rightarrow>
          (r, case cs of Element ns e as _ \<Rightarrow> Some (Element ns e as cs') | _ \<Rightarrow> doc)))"

section \<open>Writing claims\<close>

text \<open>
  The text writer of libxml is a parameter: \<open>'w\<close> is the writer with its buffer, and a call returns whether it
  succeeded. \<open>xw_new\<close> are \<^verbatim>\<open>xmlBufferCreate\<close> and \<^verbatim>\<open>xmlNewTextWriterMemory\<close>. An element is started with the namespace
  of \<^verbatim>\<open>xmlTextWriterStartElementNS\<close>, if any, and without a prefix; an attribute is written with a prefix and a
  namespace, if any, a name and a value.
\<close>

record 'w xml_text_writer =
  xw_new :: "'w option"
  xw_set_indent :: "'w \<Rightarrow> bool \<times> 'w"
  xw_start_document :: "'w \<Rightarrow> bool \<times> 'w"
  xw_start_element :: "string \<Rightarrow> string option \<Rightarrow> 'w \<Rightarrow> bool \<times> 'w"
  xw_write_attribute :: "string option \<Rightarrow> string \<Rightarrow> string option \<Rightarrow> string \<Rightarrow> 'w \<Rightarrow> bool \<times> 'w"
  xw_end_element :: "'w \<Rightarrow> bool \<times> 'w"
  xw_end_document :: "'w \<Rightarrow> bool \<times> 'w"

text \<open>Calls in sequence, up to the first one that fails.\<close>

primrec run_writer :: "('w \<Rightarrow> bool \<times> 'w) list \<Rightarrow> 'w \<Rightarrow> bool \<times> 'w" where
  "run_writer [] w = (True, w)"
| "run_writer (f # fs) w = (case f w of (ok, w1) \<Rightarrow> if ok then run_writer fs w1 else (False, w1))"

text \<open>\<open>None\<close> is \<^verbatim>\<open>evr_error\<close>: the writer and its buffer are freed.\<close>

definition evr_init_claim_set :: "'w xml_text_writer \<Rightarrow> evr_time \<Rightarrow> 'w option exec" where
  "evr_init_claim_set X created = (case xw_new X of
      None \<Rightarrow> Ret None
    | Some w \<Rightarrow>
       (case run_writer [xw_set_indent X, xw_start_document X, xw_start_element X ''claim-set'' (Some evr_claims_ns)] w of
          (ok, w1) \<Rightarrow>
            if \<not> ok then Ret None
            else case evr_time_to_iso8601 30 created of
                Ret s \<Rightarrow> (case xw_write_attribute X (Some ''dc'') ''created'' (Some evr_dc_ns) s w1 of
                   (ok2, w2) \<Rightarrow> Ret (if ok2 then Some w2 else None))
              | Panic \<Rightarrow> Panic
              | Undef \<Rightarrow> Undef))"

definition write_slice :: "'w xml_text_writer \<Rightarrow> evr_file_slice \<Rightarrow> 'w \<Rightarrow> bool \<times> 'w" where
  "write_slice X s = run_writer
    [xw_start_element X ''slice'' None,
     xw_write_attribute X None ''ref'' None (evr_fmt_blob_ref (fs_ref s)),
     (\<lambda>w. (fs_size s < 100 * 2 ^ 20, w)),
     xw_write_attribute X None ''size'' None (dec_digits (fs_size s)),
     xw_end_element X]"

text \<open>\<open>seed\<close> are the fields \<^verbatim>\<open>has_seed\<close> and \<^verbatim>\<open>seed\<close>.\<close>

definition evr_append_file_claim ::
  "'w xml_text_writer \<Rightarrow> evr_claim_ref option \<Rightarrow> evr_file_claim \<Rightarrow> 'w \<Rightarrow> evr_code \<times> 'w" where
  "evr_append_file_claim X seed claim w =
    (case run_writer
        ([xw_start_element X ''file'' None]
         @ (case seed of None \<Rightarrow> [] | Some ref \<Rightarrow> [xw_write_attribute X None ''seed'' None (evr_fmt_claim_ref ref)])
         @ (case fc_title claim of
              None \<Rightarrow> []
            | Some t \<Rightarrow> if t = [] then [] else [xw_write_attribute X (Some ''dc'') ''title'' None t])
         @ [xw_start_element X ''body'' None]
         @ map (write_slice X) (fc_slices claim)
         @ [xw_end_element X, xw_end_element X]) w of
       (ok, w1) \<Rightarrow> (if ok then Evr_ok else Evr_error, w1))"

definition evr_finalize_claim_set :: "'w xml_text_writer \<Rightarrow> 'w \<Rightarrow> evr_code \<times> 'w" where
  "evr_finalize_claim_set X w =
    (case run_writer [xw_end_element X, xw_end_document X] w of (ok, w1) \<Rightarrow> (if ok then Evr_ok else Evr_error, w1))"

end
