(* ===== verification/Claim_Set.thy ===== *)
theory Claim_Set
  imports Attr_Correct Claims
begin

text \<open>
  The claim sets of the attribute index, the rest of \<^verbatim>\<open>src/attr-index-db.c\<close> and \<^verbatim>\<open>evr_index_claim_set\<close> of
  \<^verbatim>\<open>src/evr-attr-index.c\<close>: a document is annotated, extended by the attribute factories, transformed by the
  stylesheet, and its attr and archive claims are merged. libxslt and the executables of the factories are
  arguments; so is whether an allocation, a thread or a system call succeeds.
\<close>

section \<open>Attribute factories\<close>

text \<open>A document is its root element, \<open>None\<close> for a null pointer. \<open>ok n\<close> tells whether libxml adopts the \<open>n\<close>-th claim.\<close>

primrec move_loop :: "(nat \<Rightarrow> bool) \<Rightarrow> nat \<Rightarrow> xml_node list \<Rightarrow> xml_node list \<Rightarrow> bool \<times> xml_node list" where
  "move_loop ok i [] moved = (True, moved)"
| "move_loop ok i (c # cs) moved = (if ok i then move_loop ok (Suc i) cs (moved @ [c]) else (False, moved))"

definition evr_move_claims :: "(nat \<Rightarrow> bool) \<Rightarrow> xml_node option \<Rightarrow> xml_node option \<Rightarrow> evr_code \<times> xml_node option" where
  "evr_move_claims ok dest src = (case evr_get_root_claim_set dest of
      None \<Rightarrow> (Evr_error, dest)
    | Some dcs \<Rightarrow> (case evr_get_root_claim_set src of
        None \<Rightarrow> (Evr_error, dest)
      | Some scs \<Rightarrow>
         (case move_loop ok 0 (visit_elements None [] (node_children scs)) [] of (done, moved) \<Rightarrow>
            (if done then Evr_ok else Evr_error,
             case dcs of Element ns e as cs \<Rightarrow> Some (Element ns e as (cs @ moved)) | _ \<Rightarrow> dest))))"

definition evr_ensure_attr_factory_exe_ready :: "bool \<Rightarrow> bool \<Rightarrow> evr_code \<Rightarrow> evr_code" where
  "evr_ensure_attr_factory_exe_ready stat_ok enoent_errno writer_res =
    (if stat_ok then Evr_ok else if \<not> enoent_errno then Evr_error
     else if writer_res \<noteq> Evr_ok then Evr_error else Evr_ok)"

text \<open>
  The calls of one worker thread: the executable, the subprocess and the transfer of the document to it and of its output, its
  exit status, and what the parser makes of the output. The thread leaves the result, at first \<^verbatim>\<open>evr_error\<close>,
  later the exit status, and the document.
\<close>

record worker_calls =
  wk_exe_ready :: evr_code
  wk_spawn :: evr_code
  wk_write :: evr_code
  wk_close :: bool
  wk_alloc :: bool
  wk_read :: evr_code
  wk_buf :: bool
  wk_wait :: "c_int option"
  wk_xml :: "xml_node option"
  wk_log_mem :: bool

definition evr_append_attr_factory_claims_worker :: "worker_calls \<Rightarrow> (c_int \<times> xml_node option) exec" where
  "evr_append_attr_factory_claims_worker k =
    (let failed = Ret (1, None) in
     if wk_exe_ready k \<noteq> Evr_ok then failed
     else if wk_spawn k \<noteq> Evr_ok then failed
     else if wk_write k \<noteq> Evr_ok \<and> wk_write k \<noteq> Evr_end then failed
     else if \<not> wk_close k then failed
     else if \<not> wk_alloc k then failed
     else if wk_read k \<noteq> Evr_ok \<and> wk_read k \<noteq> Evr_end then failed
     else if \<not> wk_buf k then failed
     else case wk_wait k of
         None \<Rightarrow> Panic
       | Some status \<Rightarrow>
          if status \<noteq> 0 then (if wk_log_mem k then Ret (status, None) else Panic)
          else case wk_xml k of
              None \<Rightarrow> if wk_log_mem k then Ret (0, None) else Panic
            | Some doc \<Rightarrow> Ret (0, Some doc))"

text \<open>
  When a thread can not be created, the loop that frees the documents also reads the contexts of the
  factories behind it, which were never written.
\<close>

record factory_calls =
  fa_format :: bool
  fa_create :: "nat \<Rightarrow> bool"
  fa_join :: bool
  fa_worker :: "nat \<Rightarrow> worker_calls"
  fa_adopt :: "nat \<Rightarrow> nat \<Rightarrow> bool"

primrec run_workers :: "factory_calls \<Rightarrow> nat \<Rightarrow> nat \<Rightarrow> (c_int \<times> xml_node option) list exec" where
  "run_workers fa i 0 = Ret []"
| "run_workers fa i (Suc n) = (case evr_append_attr_factory_claims_worker (fa_worker fa i) of
      Ret r \<Rightarrow> (case run_workers fa (Suc i) n of Ret rs \<Rightarrow> Ret (r # rs) | Panic \<Rightarrow> Panic | Undef \<Rightarrow> Undef)
    | Panic \<Rightarrow> Panic
    | Undef \<Rightarrow> Undef)"

primrec merge_factories ::
  "factory_calls \<Rightarrow> nat \<Rightarrow> evr_code \<Rightarrow> (c_int \<times> xml_node option) list \<Rightarrow> xml_node option \<Rightarrow> evr_code \<times> xml_node option" where
  "merge_factories fa i ret [] doc = (ret, doc)"
| "merge_factories fa i ret (r # rs) doc =
    (if fst r \<noteq> 0 then merge_factories fa (Suc i) Evr_error rs doc
     else case evr_move_claims (fa_adopt fa i) doc (snd r) of (res, doc1) \<Rightarrow>
       if res \<noteq> Evr_ok then (Evr_error, doc1) else merge_factories fa (Suc i) ret rs doc1)"

definition evr_append_attr_factory_claims ::
  "factory_calls \<Rightarrow> evr_attr_spec_claim \<Rightarrow> xml_node option \<Rightarrow> (evr_code \<times> xml_node option) exec" where
  "evr_append_attr_factory_claims fa spec doc =
    (let n = length (sp_attr_factories spec);
         started = length (takeWhile (fa_create fa) [0..<n]) in
     if \<not> fa_format fa then Ret (Evr_ok, doc)
     else case run_workers fa 0 started of
         Panic \<Rightarrow> Panic
       | Undef \<Rightarrow> Undef
       | Ret rs \<Rightarrow>
          if 0 < started \<and> \<not> fa_join fa then Panic
          else if started = n then Ret (merge_factories fa 0 Evr_ok rs doc)
          else if Suc started < n then Undef
          else Ret (Evr_error, doc))"

section \<open>Merging a claim set\<close>

text \<open>
  \<open>ce_bind\<close> tells whether the parameters of the statement for the claim set are bound when it is not run.
  The stylesheet gives a document or a null pointer.
\<close>

record claim_set_env =
  ce_bind :: bool
  ce_annotate :: "nat \<Rightarrow> bool \<times> bool"
  ce_annotate2 :: "nat \<Rightarrow> bool \<times> bool"
  ce_factories :: factory_calls
  ce_style :: "xml_node option \<Rightarrow> xml_node option option"
  ce_malloc :: "nat \<Rightarrow> bool"

text \<open>The seeds that were visited; there may be no set.\<close>

definition add_visited :: "evr_claim_ref_tiny_set option \<Rightarrow> evr_claim_ref \<Rightarrow> bool \<times> evr_claim_ref_tiny_set option" where
  "add_visited vs seed = (case vs of
      None \<Rightarrow> (True, None)
    | Some st \<Rightarrow> (case evr_claim_ref_tiny_set_add st seed of (r, st1) \<Rightarrow> (r = Evr_ok \<or> r = Evr_exists, Some st1)))"

definition build_ref :: "evr_blob_ref \<Rightarrow> size_t \<Rightarrow> evr_claim_ref" where
  "build_ref bref i = the (evr_build_claim_ref (replicate evr_claim_ref_size 0) bref (ucast i))"

text \<open>The claim whose seed is the claim itself gets the reference of this claim as seed.\<close>

definition self_seed :: "evr_blob_ref \<Rightarrow> evr_attr_claim \<Rightarrow> evr_attr_claim" where
  "self_seed claim_set_ref attr =
    (if ac_seed_type attr = evr_seed_type_self
     then attr\<lparr>ac_seed := build_ref claim_set_ref (ac_index_seed attr), ac_seed_type := evr_seed_type_claim\<rparr>
     else attr)"

definition merge_attr_claim_node ::
  "'d attr_stmts \<Rightarrow> bool \<Rightarrow> evr_time \<Rightarrow> evr_blob_ref \<Rightarrow> xml_node list \<Rightarrow> xml_node \<Rightarrow> 'd \<Rightarrow> evr_claim_ref_tiny_set option
   \<Rightarrow> evr_code exec \<times> 'd \<times> evr_claim_ref_tiny_set option" where
  "merge_attr_claim_node S malloc created claim_set_ref prev n d vs =
    (case evr_parse_attr_claim malloc prev n of
       (r, None) \<Rightarrow> (Ret (if r = Evr_user_data_invalid then Evr_user_data_invalid else Evr_error), d, vs)
     | (r, Some attr0) \<Rightarrow>
        (let attr = self_seed claim_set_ref attr0 in
         case evr_merge_attr_index_claim S created (build_ref claim_set_ref (ac_index_seed attr)) attr d of (res, d1) \<Rightarrow>
           (case res of
              Ret c \<Rightarrow>
                if c = Evr_ok
                then (case add_visited vs (ac_seed attr) of (ok, vs1) \<Rightarrow> (Ret (if ok then Evr_ok else Evr_error), d1, vs1))
                else (Ret (if c = Evr_user_data_invalid then c else Evr_error), d1, vs)
            | _ \<Rightarrow> (res, d1, vs))))"

primrec merge_attr_claims ::
  "'d attr_stmts \<Rightarrow> (nat \<Rightarrow> bool) \<Rightarrow> evr_time \<Rightarrow> evr_blob_ref \<Rightarrow> xml_node list \<Rightarrow> xml_node list \<Rightarrow> 'd \<Rightarrow> evr_claim_ref_tiny_set option
   \<Rightarrow> evr_code exec \<times> 'd \<times> evr_claim_ref_tiny_set option" where
  "merge_attr_claims S malloc created claim_set_ref prev [] d vs = (Ret Evr_ok, d, vs)"
| "merge_attr_claims S malloc created claim_set_ref prev (n # ns) d vs =
    (if \<not> evr_is_evr_element (Some n) ''attr'' evr_claims_ns
     then merge_attr_claims S malloc created claim_set_ref (prev @ [n]) ns d vs
     else case merge_attr_claim_node S (malloc (length prev)) created claim_set_ref prev n d vs of (res, d1, vs1) \<Rightarrow>
       if res = Ret Evr_ok then merge_attr_claims S malloc created claim_set_ref (prev @ [n]) ns d1 vs1
       else (res, d1, vs1))"

definition merge_archive_seed ::
  "'d attr_stmts \<Rightarrow> evr_time \<Rightarrow> evr_claim_ref \<Rightarrow> 'd \<Rightarrow> evr_code exec \<times> 'd" where
  "merge_archive_seed S created seed d =
    (let archive = (case ai_archive_claim S d (take evr_claim_ref_size seed) created of (r, d1) \<Rightarrow>
           (case r of Sql_done \<Rightarrow> Ret Evr_ok | Sql_bind_fail \<Rightarrow> Ret Evr_error | _ \<Rightarrow> Panic, d1)) in
     case ai_find_claim_archived S d (take evr_claim_ref_size seed) of
       Sql_row_bind_fail \<Rightarrow> (Ret Evr_error, d)
     | Sql_row_fail \<Rightarrow> (Panic, d)
     | Sql_no_row \<Rightarrow> archive
     | Sql_row at \<Rightarrow> if sint created < sint at then archive else (Ret Evr_ok, d))"

primrec merge_archive_claims ::
  "'d attr_stmts \<Rightarrow> (nat \<Rightarrow> bool) \<Rightarrow> evr_time \<Rightarrow> nat \<Rightarrow> xml_node list \<Rightarrow> 'd \<Rightarrow> evr_claim_ref_tiny_set option
   \<Rightarrow> evr_code exec \<times> 'd \<times> evr_claim_ref_tiny_set option" where
  "merge_archive_claims S malloc created i [] d vs = (Ret Evr_ok, d, vs)"
| "merge_archive_claims S malloc created i (n # ns) d vs =
    (if \<not> evr_is_evr_element (Some n) ''archive'' evr_claims_ns then merge_archive_claims S malloc created (Suc i) ns d vs
     else case evr_parse_archive_claim (malloc i) n of
         None \<Rightarrow> (Ret Evr_error, d, vs)
       | Some seed \<Rightarrow>
          (case merge_archive_seed S created seed d of (res, d1) \<Rightarrow>
             if res \<noteq> Ret Evr_ok then (res, d1, vs)
             else case add_visited vs seed of (ok, vs1) \<Rightarrow>
               if ok then merge_archive_claims S malloc created (Suc i) ns d1 vs1 else (Ret Evr_error, d1, vs1)))"

text \<open>The claims of the transformed document.\<close>

definition merge_transformed ::
  "'d attr_stmts \<Rightarrow> claim_set_env \<Rightarrow> evr_time \<Rightarrow> evr_blob_ref \<Rightarrow> bool \<Rightarrow> xml_node \<Rightarrow> 'd \<Rightarrow> evr_claim_ref_tiny_set option
   \<Rightarrow> evr_code exec \<times> 'd \<times> evr_claim_ref_tiny_set option" where
  "merge_transformed S env created claim_set_ref reindex cs d vs =
    (case merge_attr_claims S (ce_malloc env) created claim_set_ref [] (node_children cs) d vs of (res, d1, vs1) \<Rightarrow>
       if res \<noteq> Ret Evr_ok then (res, d1, vs1)
       else case merge_archive_claims S (ce_malloc env) created 0 (node_children cs) d1 vs1 of (res2, d2, vs2) \<Rightarrow>
         if res2 \<noteq> Ret Evr_ok then (res2, d2, vs2)
         else if \<not> reindex then (Ret Evr_ok, d2, vs2)
         else case ai_reset_claim_set_failed S d2 (take evr_blob_ref_size claim_set_ref) of (r, d3) \<Rightarrow>
           (if r = Sql_done then Ret Evr_ok else Panic, d3, vs2))"

text \<open>From the annotation on, after the claim set was inserted.\<close>

definition index_document ::
  "'d attr_stmts \<Rightarrow> claim_set_env \<Rightarrow> evr_attr_spec_claim \<Rightarrow> evr_time \<Rightarrow> evr_time \<Rightarrow> evr_blob_ref \<Rightarrow> bool \<Rightarrow> xml_node option \<Rightarrow> 'd
   \<Rightarrow> evr_claim_ref_tiny_set option \<Rightarrow> evr_code exec \<times> 'd \<times> evr_claim_ref_tiny_set option" where
  "index_document S env spec t created claim_set_ref reindex doc d vs =
    (case evr_annotate_claims (ce_annotate env) doc claim_set_ref of (r1, doc1) \<Rightarrow>
       if r1 \<noteq> Evr_ok then (Ret Evr_error, d, vs)
       else case evr_append_attr_factory_claims (ce_factories env) spec doc1 of
         Panic \<Rightarrow> (Panic, d, vs)
       | Undef \<Rightarrow> (Undef, d, vs)
       | Ret (r2, doc2) \<Rightarrow>
          if r2 \<noteq> Evr_ok
          then (case run_update (ai_update_claim_set_failed S d t (take evr_blob_ref_size claim_set_ref)) of (x, d1) \<Rightarrow> (x, d1, vs))
          else case evr_annotate_claims (ce_annotate2 env) doc2 claim_set_ref of (r3, doc3) \<Rightarrow>
            if r3 \<noteq> Evr_ok then (Ret Evr_error, d, vs)
            else case ce_style env doc3 of
                None \<Rightarrow> (Ret Evr_error, d, vs)
              | Some doc4 \<Rightarrow> (case evr_get_root_claim_set doc4 of
                   None \<Rightarrow> (Ret Evr_ok, d, vs)
                 | Some cs \<Rightarrow> merge_transformed S env created claim_set_ref reindex cs d vs))"

text \<open>\<open>spare\<close> tells whether the byte that \<^verbatim>\<open>evr_time_from_iso8601\<close> writes behind its array is spare.\<close>

definition evr_merge_attr_index_claim_set ::
  "bool \<Rightarrow> 'd attr_stmts \<Rightarrow> claim_set_env \<Rightarrow> evr_attr_spec_claim \<Rightarrow> evr_time \<Rightarrow> evr_blob_ref \<Rightarrow> xml_node option \<Rightarrow> bool \<Rightarrow> 'd
   \<Rightarrow> evr_claim_ref_tiny_set option \<Rightarrow> evr_code exec \<times> 'd \<times> evr_claim_ref_tiny_set option" where
  "evr_merge_attr_index_claim_set spare S env spec t claim_set_ref doc reindex d vs =
    (case evr_get_root_claim_set doc of
       None \<Rightarrow> (Ret Evr_error, d, vs)
     | Some cs \<Rightarrow> (case evr_parse_created spare cs of
         Panic \<Rightarrow> (Panic, d, vs)
       | Undef \<Rightarrow> (Undef, d, vs)
       | Ret None \<Rightarrow> (Ret Evr_user_data_invalid, d, vs)
       | Ret (Some created) \<Rightarrow>
          if reindex
          then if \<not> ce_bind env then (Ret Evr_error, d, vs)
               else index_document S env spec t created claim_set_ref reindex doc d vs
          else (case ai_insert_claim_set S d (take evr_blob_ref_size claim_set_ref) created of (r, d1) \<Rightarrow>
            (case r of
               Sql_constraint \<Rightarrow> (Ret Evr_ok, d1, vs)
             | Sql_bind_fail \<Rightarrow> (Ret Evr_error, d1, vs)
             | Sql_fail \<Rightarrow> (Panic, d1, vs)
             | Sql_done \<Rightarrow> index_document S env spec t created claim_set_ref reindex doc d1 vs))))"

section \<open>Indexing again\<close>

definition evr_max_claim_sets_per_reindex :: nat where "evr_max_claim_sets_per_reindex = 256"

text \<open>
  The number of claim sets is only stored when the statement runs to its end within the size of the array: \<open>None\<close>
  is the uninitialised variable of the caller.
\<close>

primrec reindexable_loop :: "nat \<Rightarrow> bool \<Rightarrow> bytes list \<Rightarrow> (evr_blob_ref list \<times> bool) option exec" where
  "reindexable_loop room ended [] =
    (if room = 0 then Ret (Some ([], False)) else if ended then Ret (Some ([], True)) else Panic)"
| "reindexable_loop room ended (ref # rs) =
    (if room = 0 then Ret (Some ([], False))
     else if length ref \<noteq> evr_blob_ref_size then Ret None
     else case reindexable_loop (room - 1) ended rs of
         Ret (Some (refs', found)) \<Rightarrow> Ret (Some (ref # refs', found))
       | x \<Rightarrow> x)"

definition evr_find_reindexable_claim_sets :: "'d attr_stmts \<Rightarrow> 'd \<Rightarrow> evr_time \<Rightarrow> nat \<Rightarrow> (evr_blob_ref list \<times> bool) option exec" where
  "evr_find_reindexable_claim_sets S d t max_claim_sets = (case ai_find_reindexable_claim_sets S d t of
      None \<Rightarrow> Ret None
    | Some (rs, ended) \<Rightarrow> reindexable_loop max_claim_sets ended rs)"

text \<open>\<open>env i\<close> is the environment of the \<open>i\<close>-th merge, \<open>get_claim_set\<close> fetches a claim set.\<close>

primrec reindex_loop ::
  "bool \<Rightarrow> 'd attr_stmts \<Rightarrow> (nat \<Rightarrow> claim_set_env) \<Rightarrow> evr_attr_spec_claim \<Rightarrow> evr_time \<Rightarrow> (evr_blob_ref \<Rightarrow> xml_node option option) \<Rightarrow> nat
   \<Rightarrow> evr_blob_ref list \<Rightarrow> 'd \<Rightarrow> evr_claim_ref_tiny_set option \<Rightarrow> evr_code exec \<times> 'd \<times> evr_claim_ref_tiny_set option" where
  "reindex_loop spare S env spec t get_claim_set i [] d vs = (Ret Evr_ok, d, vs)"
| "reindex_loop spare S env spec t get_claim_set i (cs_ref # rs) d vs = (case get_claim_set cs_ref of
      None \<Rightarrow> (Ret Evr_error, d, vs)
    | Some doc \<Rightarrow>
       (case evr_merge_attr_index_claim_set spare S (env i) spec t cs_ref doc True d vs of (res, d1, vs1) \<Rightarrow>
          (case res of
             Ret c \<Rightarrow> if c = Evr_ok then reindex_loop spare S env spec t get_claim_set (Suc i) rs d1 vs1 else (Ret Evr_error, d1, vs1)
           | _ \<Rightarrow> (res, d1, vs1))))"

definition evr_reindex_failed_claim_sets ::
  "bool \<Rightarrow> 'd attr_stmts \<Rightarrow> (nat \<Rightarrow> claim_set_env) \<Rightarrow> evr_attr_spec_claim \<Rightarrow> evr_time \<Rightarrow> (evr_blob_ref \<Rightarrow> xml_node option option) \<Rightarrow> 'd
   \<Rightarrow> evr_claim_ref_tiny_set option \<Rightarrow> evr_code exec \<times> 'd \<times> evr_claim_ref_tiny_set option" where
  "evr_reindex_failed_claim_sets spare S env spec t get_claim_set d vs =
    (case evr_find_reindexable_claim_sets S d t evr_max_claim_sets_per_reindex of
       Ret (Some (refs', found)) \<Rightarrow> if found then reindex_loop spare S env spec t get_claim_set 0 refs' d vs else (Undef, d, vs)
     | Ret None \<Rightarrow> (Ret Evr_error, d, vs)
     | Panic \<Rightarrow> (Panic, d, vs)
     | Undef \<Rightarrow> (Undef, d, vs))"

section \<open>Indexing a claim set of the glacier\<close>

text \<open>
  \<open>connect\<close> is the result of connecting and sending the token, if there is no connection; \<open>fetch\<close> what the signed document
  is, \<open>t\<close> the current time. A claim set with invalid content is ignored.
\<close>

definition evr_state_key_last_indexed_claim_ts :: c_int where "evr_state_key_last_indexed_claim_ts = 1"

definition evr_index_claim_set ::
  "bool \<Rightarrow> 'd attr_stmts \<Rightarrow> claim_set_env \<Rightarrow> evr_attr_spec_claim \<Rightarrow> bool \<Rightarrow> evr_code \<times> xml_node option \<Rightarrow> evr_time \<Rightarrow> evr_blob_ref \<Rightarrow> evr_time
   \<Rightarrow> 'd \<Rightarrow> evr_claim_ref_tiny_set option \<Rightarrow> evr_code exec \<times> 'd \<times> evr_claim_ref_tiny_set option" where
  "evr_index_claim_set spare S env spec connect fetch t claim_set_ref last_modified d vs =
    (if \<not> connect then (Ret Evr_error, d, vs)
     else if fst fetch = Evr_user_data_invalid then (Ret Evr_ok, d, vs)
     else if fst fetch \<noteq> Evr_ok then (Ret Evr_error, d, vs)
     else case evr_merge_attr_index_claim_set spare S env spec t claim_set_ref (snd fetch) False d vs of (res, d1, vs1) \<Rightarrow>
       (case res of
          Ret c \<Rightarrow>
            if c = Evr_user_data_invalid then (Ret Evr_ok, d1, vs1)
            else if c \<noteq> Evr_ok then (Ret Evr_error, d1, vs1)
            else (case evr_attr_index_set_state S d1 evr_state_key_last_indexed_claim_ts last_modified of (x, d2) \<Rightarrow>
              (case x of Ret r \<Rightarrow> Ret (if r = Evr_ok then Evr_ok else Evr_error) | _ \<Rightarrow> x, d2, vs1))
        | _ \<Rightarrow> (res, d1, vs1)))"

end
