(* ===== verification/Claims_Correct.thy ===== *)
theory Claims_Correct
  imports Claims
begin

text \<open>
  Properties of claim sets: what the writer writes is read back, whatever white space libxml puts between the
  elements, and annotating gives each claim its reference and its seed, once.
\<close>

section \<open>Decimal numbers\<close>

lemma dec_char:
  fixes n :: nat
  shows "n < 10 \<Longrightarrow> dec_digit (char_of (48 + n))" "n < 10 \<Longrightarrow> of_char (char_of (48 + n) :: char) - 48 = n"
  using of_char_digit [of n] by (simp_all add: dec_digit_def)

lemma dec_digits_value: "dec_value (dec_digits n) = n"
proof (induction n rule: dec_digits.induct)
  case (1 n)
  show ?case
  proof (cases "n < 10")
    case True
    then show ?thesis by (simp add: dec_digits.simps [of n] dec_value_def dec_char)
  next
    case False
    have "dec_value (dec_digits n) = 10 * dec_value (dec_digits (n div 10)) + n mod 10"
      using False of_char_digit [of "n mod 10"] by (simp add: dec_digits.simps [of n] dec_value_def)
    then show ?thesis using "1.IH" [OF False] by simp
  qed
qed

lemma dec_digits_digits: "list_all dec_digit (dec_digits n)" "dec_digits n \<noteq> []"
proof (induction n rule: dec_digits.induct)
  case (1 n)
  { case 1
    then show ?case using "1.IH"(1) by (cases "n < 10") (simp_all add: dec_digits.simps [of n] dec_char)
  next
    case 2
    then show ?case by (cases "n < 10") (simp_all add: dec_digits.simps [of n]) }
qed

lemma dec_digit_plain: "dec_digit c \<Longrightarrow> \<not> is_space c \<and> c \<noteq> CHR ''-'' \<and> c \<noteq> CHR ''+''"
  by (auto simp: dec_digit_def is_space_def)

lemma sscanf_zu_dec:
  assumes "n < 2 ^ 64"
  shows "sscanf_zu (dec_digits n) = Some (word_of_nat n)"
proof -
  obtain c cs where d: "dec_digits n = c # cs" using dec_digits_digits(2) by (cases "dec_digits n") auto
  have all: "list_all dec_digit (dec_digits n)" by (rule dec_digits_digits)
  then have c: "dec_digit c" using d by simp
  have "dropWhile is_space (dec_digits n) = dec_digits n" "strip_sign (dec_digits n) = (False, dec_digits n)"
    using dec_digit_plain [OF c] by (simp_all add: d strip_sign_def)
  moreover have tw: "takeWhile dec_digit (dec_digits n) = dec_digits n"
    using all by (simp add: takeWhile_eq_all_conv list_all_iff)
  ultimately show ?thesis
    using assms dec_digits_digits(2) [of n] by (simp add: sscanf_zu_def Let_def tw dec_digits_value of_nat_less_numeral_iff)
qed

section \<open>White space\<close>

primrec strip :: "xml_node \<Rightarrow> xml_node" where
  "strip (Element ns e as cs) = Element ns e as (filter is_element (map strip cs))"
| "strip (Other_node s) = Other_node s"

lemma strip_node [simp]: "is_element (strip n) = is_element n" "node_attrs (strip n) = node_attrs n"
  by (cases n; simp add: is_element_def node_attrs_def)+

lemma strip_filter: "filter is_element (map strip cs) = map strip (filter is_element cs)"
  by (induction cs) simp_all

lemma strip_children [simp]: "node_children (strip n) = map strip (filter is_element (node_children n))"
  by (cases n) (simp_all add: node_children_def strip_filter)

lemma strip_evr_element [simp]: "evr_is_evr_element (Some (strip n)) nm ns = evr_is_evr_element (Some n) nm ns"
  by (cases n) (simp_all add: evr_is_evr_element_def)

lemma strip_props [simp]:
  "xmlGetProp (strip n) nm = xmlGetProp n nm" "xmlGetNsProp (strip n) nm ns = xmlGetNsProp n nm ns"
  by (simp_all add: xmlGetProp_def xmlGetNsProp_def)

lemma strip_wanted [simp]: "wanted nf ns (strip n) = wanted nf ns n"
  by (cases nf) (simp_all add: wanted_def)

lemma wanted_element: "wanted nf ns n \<Longrightarrow> is_element n"
  by (simp add: wanted_def)

lemma visit_strip: "visit_elements nf ns (map strip (filter is_element cs)) = map strip (visit_elements nf ns cs)"
  by (induction cs) (auto simp: visit_elements_filter dest: wanted_element)

lemma find_strip: "evr_find_next_element (map strip (filter is_element cs)) nf ns = map strip (filter is_element (evr_find_next_element cs nf ns))"
  by (induction cs) (auto simp: find_next_dropWhile dest: wanted_element)

lemma parse_slice_strip [simp]: "parse_slice (strip n) = parse_slice n"
  by (simp add: parse_slice_def)

lemma parse_slices_strip: "parse_slices (map strip ns) = parse_slices ns"
  by (induction ns) simp_all

lemma find_next_head: "evr_find_next_element cs nf ns = n # rest \<Longrightarrow> is_element n"
  using hd_dropWhile [of "\<lambda>n. \<not> wanted nf ns n" cs] by (simp add: find_next_dropWhile wanted_def)

lemma parse_file_claim_strip: "evr_parse_file_claim m (strip n) = evr_parse_file_claim m n"
proof (cases "evr_find_next_element (node_children n) (Some ''body'') evr_claims_ns")
  case Nil
  then show ?thesis by (simp add: evr_parse_file_claim_def find_strip)
next
  case (Cons b rest)
  then have "is_element b" by (rule find_next_head)
  then show ?thesis using Cons
    by (simp add: evr_parse_file_claim_def find_strip visit_strip parse_slices_strip)
qed

section \<open>What the text writer promises\<close>

text \<open>
  What a text writer has written: elements with their namespace declarations and attributes, names with their prefixes.
  The document with namespaces: a prefix stands for the namespace of the innermost declaration, an element without
  prefix is in the default namespace, an attribute without prefix in none.
\<close>

datatype raw_xml = Raw string "(string option \<times> string) list" "(string option \<times> string \<times> string) list" "raw_xml list"

definition add_child :: "raw_xml \<Rightarrow> raw_xml \<Rightarrow> raw_xml" where
  "add_child c p = (case p of Raw e ds as cs \<Rightarrow> Raw e ds as (cs @ [c]))"

primrec resolve :: "(string option \<Rightarrow> string option) \<Rightarrow> raw_xml \<Rightarrow> xml_node" where
  "resolve env (Raw e ds as cs) =
    (let env1 = env ++ map_of ds in
     Element (env1 None) e
       (map (\<lambda>(p, nm, v). \<lparr>xa_ns = (case p of None \<Rightarrow> None | Some _ \<Rightarrow> env1 p), xa_name = nm, xa_value = v\<rparr>) as)
       (map (resolve env1) cs))"

text \<open>
  Documents that need no more of the standards than this: names of lower-case letters and hyphens that are not reserved,
  declared prefixes, no attribute twice, and printable ASCII characters in the values, among them those that are escaped.
\<close>

definition name_char :: "char \<Rightarrow> bool" where
  "name_char c = (c = CHR ''-'' \<or> 97 \<le> (of_char c :: nat) \<and> (of_char c :: nat) \<le> 122)"

definition plain_name :: "string \<Rightarrow> bool" where
  "plain_name nm = (list_all name_char nm \<and> nm \<noteq> [] \<and> hd nm \<noteq> CHR ''-'' \<and> take 3 nm \<noteq> ''xml'')"

primrec plain_xml :: "(string option \<Rightarrow> string option) \<Rightarrow> raw_xml \<Rightarrow> bool" where
  "plain_xml env (Raw e ds as cs) =
    (let env1 = env ++ map_of ds in
     plain_name e \<and> list_all (\<lambda>(p, u). (\<forall>x. p = Some x \<longrightarrow> plain_name x) \<and> list_all printable u) ds \<and>
     list_all (\<lambda>(p, nm, v). plain_name nm \<and> (p \<noteq> None \<longrightarrow> env1 p \<noteq> None) \<and> list_all printable v) as \<and>
     distinct (map (\<lambda>(p, nm, v). (p, nm)) as) \<and> (\<forall>b\<in>set (map (plain_xml env1) cs). b))"

text \<open>
  The interface of libxml: \<open>view\<close> are the open elements of a writer, the innermost first, and the root when it was
  closed; \<open>parse\<close> is the root of the document that the parser of libxml gives for the buffer. The laws say what calls that
  succeed have written, and that a plain document is read back, with any white space between its elements.
\<close>

locale text_writer =
  fixes X :: "'w xml_text_writer" and view :: "'w \<Rightarrow> raw_xml list \<times> raw_xml option" and parse :: "'w \<Rightarrow> xml_node option"
  assumes new_view: "xw_new X = Some w \<Longrightarrow> view w = ([], None)"
    and indent_view: "xw_set_indent X w = (True, w') \<Longrightarrow> view w' = view w"
    and document_view: "xw_start_document X w = (True, w') \<Longrightarrow> view w' = view w"
    and start_view: "xw_start_element X nm ns w = (True, w') \<Longrightarrow> view w = (es, r) \<Longrightarrow> es \<noteq> [] \<or> r = None \<Longrightarrow>
      view w' = (Raw nm (case ns of None \<Rightarrow> [] | Some u \<Rightarrow> [(None, u)]) [] [] # es, r)"
    and attribute_view: "xw_write_attribute X p nm ns v w = (True, w') \<Longrightarrow> view w = (Raw e ds as [] # es, r) \<Longrightarrow>
      p \<noteq> None \<or> ns = None \<Longrightarrow>
      view w' = (Raw e (ds @ (case ns of None \<Rightarrow> [] | Some u \<Rightarrow> [(p, u)])) (as @ [(p, nm, v)]) [] # es, r)"
    and end_view: "xw_end_element X w = (True, w') \<Longrightarrow> view w = (e1 # e2 # es, r) \<Longrightarrow> view w' = (add_child e1 e2 # es, r)"
    and end_root_view: "xw_end_element X w = (True, w') \<Longrightarrow> view w = ([e1], r) \<Longrightarrow> view w' = ([], Some e1)"
    and read_back: "xw_end_document X w = (True, w') \<Longrightarrow> view w = ([], Some root) \<Longrightarrow> plain_xml Map.empty root \<Longrightarrow>
      \<exists>n. parse w' = Some n \<and> strip n = resolve Map.empty root"

section \<open>What is written\<close>

lemma writer_result: "(case r of (ok, w1) \<Rightarrow> (if ok then Evr_ok else Evr_error, w1)) = (Evr_ok, w') \<Longrightarrow> r = (True, w')"
  by (cases r) (auto split: if_splits)

lemma run_writer_Cons: "run_writer (f # fs) w = (True, w') \<longleftrightarrow> (\<exists>w1. f w = (True, w1) \<and> run_writer fs w1 = (True, w'))"
  by (auto split: prod.splits if_splits)

lemma run_writer_append:
  "run_writer (fs @ gs) w = (True, w') \<longleftrightarrow> (\<exists>w1. run_writer fs w = (True, w1) \<and> run_writer gs w1 = (True, w'))"
  by (induction fs arbitrary: w) (auto simp: run_writer_Cons simp del: run_writer.simps(2))

definition raw_slice :: "evr_file_slice \<Rightarrow> raw_xml" where
  "raw_slice s = Raw ''slice'' [] [(None, ''ref'', evr_fmt_blob_ref (fs_ref s)), (None, ''size'', dec_digits (fs_size s))] []"

definition raw_file :: "evr_claim_ref option \<Rightarrow> evr_file_claim \<Rightarrow> raw_xml" where
  "raw_file seed claim = Raw ''file'' []
    ((case seed of None \<Rightarrow> [] | Some ref \<Rightarrow> [(None, ''seed'', evr_fmt_claim_ref ref)]) @
     (case fc_title claim of None \<Rightarrow> [] | Some t \<Rightarrow> if t = [] then [] else [(Some ''dc'', ''title'', t)]))
    [Raw ''body'' [] [] (map raw_slice (fc_slices claim))]"

definition raw_set :: "string \<Rightarrow> (evr_claim_ref option \<times> evr_file_claim) list \<Rightarrow> raw_xml" where
  "raw_set s cs = Raw ''claim-set'' [(None, evr_claims_ns), (Some ''dc'', evr_dc_ns)] [(Some ''dc'', ''created'', s)]
    (map (\<lambda>(seed, c). raw_file seed c) cs)"

primrec append_claims ::
  "'w xml_text_writer \<Rightarrow> (evr_claim_ref option \<times> evr_file_claim) list \<Rightarrow> 'w \<Rightarrow> evr_code \<times> 'w" where
  "append_claims X [] w = (Evr_ok, w)"
| "append_claims X (c # cs) w =
    (case evr_append_file_claim X (fst c) (snd c) w of (r, w1) \<Rightarrow> if r = Evr_ok then append_claims X cs w1 else (r, w1))"

context text_writer
begin

lemma write_slice_ok:
  assumes "write_slice X s w = (True, w')" "view w = (p # es, r)"
  shows "view w' = (add_child (raw_slice s) p # es, r) \<and> fs_size s < 100 * 2 ^ 20"
proof -
  obtain w1 w2 w3 where w1: "xw_start_element X ''slice'' None w = (True, w1)"
    and w2: "xw_write_attribute X None ''ref'' None (evr_fmt_blob_ref (fs_ref s)) w1 = (True, w2)"
    and sz: "fs_size s < 100 * 2 ^ 20"
    and w3: "xw_write_attribute X None ''size'' None (dec_digits (fs_size s)) w2 = (True, w3)"
    and w4: "xw_end_element X w3 = (True, w')"
    using assms(1) unfolding write_slice_def run_writer_Cons by (auto simp: run_writer.simps(1))
  note o1 = start_view [OF w1 assms(2), simplified]
  note o2 = attribute_view [OF w2 o1, simplified]
  note o3 = attribute_view [OF w3 o2, simplified]
  show ?thesis using end_view [OF w4 o3] sz by (simp add: raw_slice_def)
qed

lemma write_slices_ok:
  assumes "run_writer (map (write_slice X) ss) w = (True, w')" "view w = (Raw e ds as cs # es, r)"
  shows "view w' = (Raw e ds as (cs @ map raw_slice ss) # es, r) \<and> (\<forall>s\<in>set ss. fs_size s < 100 * 2 ^ 20)"
  using assms
proof (induction ss arbitrary: w cs)
  case (Cons s ss)
  obtain w1 where w1: "write_slice X s w = (True, w1)" "run_writer (map (write_slice X) ss) w1 = (True, w')"
    using Cons.prems(1) by (auto simp only: list.map run_writer_Cons)
  have "view w1 = (Raw e ds as (cs @ [raw_slice s]) # es, r) \<and> fs_size s < 100 * 2 ^ 20"
    using write_slice_ok [OF w1(1) Cons.prems(2)] by (simp add: add_child_def)
  then show ?case using Cons.IH [OF w1(2)] by simp
qed simp

lemma write_opt_attr_ok:
  assumes "run_writer (case x of None \<Rightarrow> [] | Some v \<Rightarrow> if P v then [] else [xw_write_attribute X p nm None (g v)]) w = (True, w')"
    "view w = (Raw e [] as [] # es, r)"
  shows "view w' = (Raw e [] (as @ (case x of None \<Rightarrow> [] | Some v \<Rightarrow> if P v then [] else [(p, nm, g v)])) [] # es, r)"
  using assms attribute_view [of p nm None "g (the x)" w w' e "[]" as es r]
  by (cases x) (auto split: if_splits prod.splits)

lemma append_file_claim_ok:
  assumes "evr_append_file_claim X seed claim w = (Evr_ok, w')" "view w = (p # es, r)"
  shows "view w' = (add_child (raw_file seed claim) p # es, r) \<and> (\<forall>s\<in>set (fc_slices claim). fs_size s < 100 * 2 ^ 20)"
proof -
  let ?seed = "case seed of None \<Rightarrow> [] | Some ref \<Rightarrow>
    if False then [] else [xw_write_attribute X None ''seed'' None (evr_fmt_claim_ref ref)]"
  let ?title = "case fc_title claim of None \<Rightarrow> [] | Some t \<Rightarrow>
    if t = [] then [] else [xw_write_attribute X (Some ''dc'') ''title'' None t]"
  have "run_writer ([xw_start_element X ''file'' None] @ ?seed @ ?title @ [xw_start_element X ''body'' None] @
      map (write_slice X) (fc_slices claim) @ [xw_end_element X, xw_end_element X]) w = (True, w')"
    using writer_result [OF assms(1) [unfolded evr_append_file_claim_def]] by (simp only: if_False)
  then obtain w1 w2 w3 w4 w5 w6 where w1: "xw_start_element X ''file'' None w = (True, w1)"
    and w2: "run_writer ?seed w1 = (True, w2)"
    and w3: "run_writer ?title w2 = (True, w3)" and w4: "xw_start_element X ''body'' None w3 = (True, w4)"
    and w5: "run_writer (map (write_slice X) (fc_slices claim)) w4 = (True, w5)"
    and w6: "xw_end_element X w5 = (True, w6)" and w7: "xw_end_element X w6 = (True, w')"
    unfolding run_writer_append run_writer_Cons by (auto simp: run_writer.simps(1))
  note o1 = start_view [OF w1 assms(2), simplified]
  note o2 = write_opt_attr_ok [OF w2 o1]
  note o3 = write_opt_attr_ok [OF w3 o2]
  note o4 = start_view [OF w4 o3, simplified option.case]
  note o5 = write_slices_ok [OF w5 o4]
  have o6: "view w6 = (raw_file seed claim # p # es, r)"
    using end_view [OF w6 o5 [THEN conjunct1]] by (simp add: raw_file_def add_child_def cong: option.case_cong)
  show ?thesis using end_view [OF w7 o6] o5 by simp
qed

lemma append_claims_ok:
  assumes "append_claims X cs w = (Evr_ok, w')" "view w = (Raw e ds as ns # es, r)"
  shows "view w' = (Raw e ds as (ns @ map (\<lambda>(seed, c). raw_file seed c) cs) # es, r) \<and>
    (\<forall>(seed, c)\<in>set cs. \<forall>s\<in>set (fc_slices c). fs_size s < 100 * 2 ^ 20)"
  using assms
proof (induction cs arbitrary: w ns)
  case (Cons c cs)
  obtain w1 where w1: "evr_append_file_claim X (fst c) (snd c) w = (Evr_ok, w1)" "append_claims X cs w1 = (Evr_ok, w')"
    using Cons.prems(1) by (auto split: prod.splits if_splits)
  have "view w1 = (Raw e ds as (ns @ [raw_file (fst c) (snd c)]) # es, r) \<and>
      (\<forall>s\<in>set (fc_slices (snd c)). fs_size s < 100 * 2 ^ 20)"
    using append_file_claim_ok [OF w1(1) Cons.prems(2)] by (simp add: add_child_def)
  then show ?case using Cons.IH [OF w1(2)] by (auto simp: case_prod_unfold)
qed simp

lemma written_root:
  assumes init: "evr_init_claim_set X t = Ret (Some w0)" and app: "append_claims X cs w0 = (Evr_ok, w1)"
    and fin: "evr_finalize_claim_set X w1 = (Evr_ok, w2)"
  shows "\<exists>s wb. evr_time_to_iso8601 30 t = Ret s \<and> view wb = ([], Some (raw_set s cs)) \<and> xw_end_document X wb = (True, w2) \<and>
    (\<forall>(seed, c)\<in>set cs. \<forall>s\<in>set (fc_slices c). fs_size s < 100 * 2 ^ 20)"
proof -
  obtain w wa s where w: "xw_new X = Some w" and
    wa: "run_writer [xw_set_indent X, xw_start_document X, xw_start_element X ''claim-set'' (Some evr_claims_ns)] w = (True, wa)"
      "evr_time_to_iso8601 30 t = Ret s"
      "xw_write_attribute X (Some ''dc'') ''created'' (Some evr_dc_ns) s wa = (True, w0)"
    using init by (auto simp: evr_init_claim_set_def simp del: run_writer.simps
        split: option.splits prod.splits if_splits exec.splits)
  obtain wc wd where c: "xw_set_indent X w = (True, wc)" "xw_start_document X wc = (True, wd)"
      "xw_start_element X ''claim-set'' (Some evr_claims_ns) wd = (True, wa)"
    using wa(1) unfolding run_writer_Cons by (auto simp: run_writer.simps(1))
  have "view wd = ([], None)" using new_view [OF w] indent_view [OF c(1)] document_view [OF c(2)] by simp
  note oa = start_view [OF c(3) this, simplified]
  note o0 = attribute_view [OF wa(3) oa, simplified]
  note o1 = append_claims_ok [OF app o0]
  obtain wb where wb: "xw_end_element X w1 = (True, wb)" "xw_end_document X wb = (True, w2)"
    using writer_result [OF fin [unfolded evr_finalize_claim_set_def]] unfolding run_writer_Cons by (auto simp: run_writer.simps(1))
  show ?thesis
    using end_root_view [OF wb(1) o1 [THEN conjunct1]] wb(2) wa(2) o1 by (auto simp: raw_set_def)
qed

end

section \<open>Reading what was written\<close>

lemma filter_dropWhile_all: "filter P (dropWhile (\<lambda>x. \<not> P x) xs) = filter P xs"
  by (induction xs) simp_all

lemma wanted_any: "wanted None ns = is_element"
  by (simp add: wanted_def fun_eq_iff)

definition claim_env :: "string option \<Rightarrow> string option" where
  "claim_env = Map.empty ++ map_of [(None, evr_claims_ns), (Some ''dc'', evr_dc_ns)]"

lemma claim_env_simps [simp]: "claim_env None = Some evr_claims_ns" "claim_env (Some ''dc'') = Some evr_dc_ns"
  by (simp_all add: claim_env_def)

lemma parse_fmt_blob_ref:
  assumes "length r = evr_blob_ref_size"
  shows "evr_parse_blob_ref (replicate evr_blob_ref_size 0) (evr_fmt_blob_ref r) = (Evr_ok, r)"
  using assms parse_fmt_hex_loop [of r "replicate 28 0" 0 True]
  by (simp add: evr_parse_blob_ref_def evr_fmt_blob_ref_def strncmp_eq_def evr_blob_ref_str_prefix_def
      evr_layout overwrite_all)

lemma parse_slice_written:
  assumes "length (fs_ref s) = evr_blob_ref_size" "fs_size s < 100 * 2 ^ 20"
  shows "parse_slice (resolve env (raw_slice s)) = Some s"
proof -
  have "sscanf_zu (dec_digits (fs_size s)) = Some (word_of_nat (fs_size s))"
    using assms(2) by (intro sscanf_zu_dec) simp
  moreover have "unat (word_of_nat (fs_size s) :: size_t) = fs_size s"
    using assms(2) by (simp add: unsigned_of_nat take_bit_nat_eq_self)
  ultimately show ?thesis
    using parse_fmt_blob_ref [OF assms(1)]
    by (simp add: parse_slice_def raw_slice_def xmlGetProp_def node_attrs_def)
qed

lemma parse_slices_written:
  assumes "\<forall>s\<in>set ss. length (fs_ref s) = evr_blob_ref_size \<and> fs_size s < 100 * 2 ^ 20"
  shows "parse_slices (map (resolve env \<circ> raw_slice) ss) = Some ss"
  using assms by (induction ss) (simp_all add: parse_slice_written)

lemma wanted_written:
  assumes "env None = Some evr_claims_ns"
  shows "wanted (Some nm) evr_claims_ns (resolve env (Raw e [] as cs)) = (e = nm)" "is_element (resolve env (Raw e ds as cs))"
  using assms by (auto simp: wanted_def is_element_def evr_is_evr_element_def Let_def)

text \<open>An empty title is not written.\<close>

definition written_title :: "string option \<Rightarrow> string option" where
  "written_title t = (if t = Some [] then None else t)"

lemma parse_file_written:
  assumes "\<forall>s\<in>set (fc_slices c). length (fs_ref s) = evr_blob_ref_size \<and> fs_size s < 100 * 2 ^ 20"
  shows "evr_parse_file_claim True (resolve claim_env (raw_file seed c)) = Some (c\<lparr>fc_title := written_title (fc_title c)\<rparr>)"
proof -
  have body: "evr_find_next_element (node_children (resolve claim_env (raw_file seed c))) (Some ''body'') evr_claims_ns =
      [resolve claim_env (Raw ''body'' [] [] (map raw_slice (fc_slices c)))]"
    by (simp add: find_next_dropWhile raw_file_def node_children_def wanted_def is_element_def evr_is_evr_element_def)
  have slices: "visit_elements (Some ''slice'') evr_claims_ns
      (node_children (resolve claim_env (Raw ''body'' [] [] (map raw_slice (fc_slices c))))) = map (resolve claim_env \<circ> raw_slice) (fc_slices c)"
    by (simp add: visit_elements_filter node_children_def filter_id_conv raw_slice_def wanted_def is_element_def evr_is_evr_element_def)
  have title: "xmlGetNsProp (resolve claim_env (raw_file seed c)) ''title'' evr_dc_ns = written_title (fc_title c)"
    by (cases seed; cases "fc_title c")
      (auto simp: xmlGetNsProp_def raw_file_def node_attrs_def written_title_def)
  have "evr_parse_file_claim True (resolve claim_env (raw_file seed c)) =
      Some \<lparr>fc_title = written_title (fc_title c), fc_slices = fc_slices c\<rparr>"
    unfolding evr_parse_file_claim_def Let_def body title list.case slices
    using parse_slices_written [OF assms] by simp
  then show ?thesis by (cases c) simp
qed

lemma claims_read:
  assumes st: "strip n = Element ns e as (map (\<lambda>(seed, c). resolve claim_env (raw_file seed c)) cs)"
    and each: "\<And>seed c. (seed, c) \<in> set cs \<Longrightarrow> evr_parse_file_claim True (resolve claim_env (raw_file seed c)) = Some (f c)"
  shows "map (evr_parse_file_claim True) (visit_elements None [] (evr_first_claim n)) = map (\<lambda>(seed, c). Some (f c)) cs \<and>
    map (\<lambda>x. xmlGetProp x ''seed'') (visit_elements None [] (evr_first_claim n)) =
      map (\<lambda>(seed, c). map_option evr_fmt_claim_ref seed) cs"
proof -
  let ?v = "visit_elements None [] (evr_first_claim n)"
  have v: "?v = filter is_element (node_children n)"
    by (simp add: visit_elements_filter evr_first_claim_def find_next_dropWhile wanted_any filter_dropWhile_all)
  have "map strip ?v = map (\<lambda>(seed, c). resolve claim_env (raw_file seed c)) cs"
    using strip_children [of n] unfolding v st by (simp add: node_children_def)
  then have "map (evr_parse_file_claim True) (map strip ?v) = map (evr_parse_file_claim True) (map (\<lambda>(seed, c). resolve claim_env (raw_file seed c)) cs)"
    "map (\<lambda>x. xmlGetProp x ''seed'') (map strip ?v) = map (\<lambda>x. xmlGetProp x ''seed'') (map (\<lambda>(seed, c). resolve claim_env (raw_file seed c)) cs)"
    by simp_all
  moreover have "xmlGetProp (resolve claim_env (raw_file seed c)) ''seed'' = map_option evr_fmt_claim_ref seed" for seed c
    by (cases seed) (simp_all add: xmlGetProp_def raw_file_def node_attrs_def split: option.split)
  ultimately show ?thesis
    using each by (auto simp: parse_file_claim_strip o_def case_prod_unfold cong: map_cong)
qed

text \<open>The written documents are plain.\<close>

definition plain_title :: "string option \<Rightarrow> bool" where
  "plain_title t = (case t of None \<Rightarrow> True | Some s \<Rightarrow> list_all printable s)"

lemma dec_digits_printable: "list_all printable (dec_digits n)"
  using dec_digits_digits(1) by (rule list.pred_mono_strong) (simp add: dec_digit_def printable_def)

lemma hex_digit_printable: "hex_digit c \<noteq> None \<Longrightarrow> printable c"
  by (auto simp: hex_digit_def printable_def Let_def split: if_splits)

lemma fmt_hex_printable: "list_all printable (fmt_hex_loop ks)"
  by (induction ks) (simp_all add: fmt_02x_def hex_digit_printable unat_byte_decomp)

lemma fmt_ref_printable: "list_all printable (evr_fmt_blob_ref r)" "list_all printable (evr_fmt_claim_ref r)"
proof -
  show b: "list_all printable (evr_fmt_blob_ref r)"
    by (simp add: evr_fmt_blob_ref_def fmt_hex_printable) (simp add: evr_blob_ref_str_prefix_def printable_def)
  show "list_all printable (evr_fmt_claim_ref r)"
    by (simp add: evr_fmt_claim_ref_def b fmt_04x_def hex_digit_printable) (simp add: printable_def)
qed

lemma plain_set:
  assumes "list_all printable s" "\<forall>(seed, c)\<in>set cs. plain_title (fc_title c)"
  shows "plain_xml Map.empty (raw_set s cs)"
proof -
  have names: "plain_name ''claim-set''" "plain_name ''dc''" "plain_name ''created''" "plain_name ''file''" "plain_name ''seed''"
    "plain_name ''title''" "plain_name ''body''" "plain_name ''slice''" "plain_name ''ref''" "plain_name ''size''"
    by (simp_all add: plain_name_def name_char_def)
  have uris: "list_all printable evr_claims_ns" "list_all printable evr_dc_ns"
    by (simp_all add: evr_claims_ns_def evr_dc_ns_def printable_def)
  have sl: "plain_xml env (raw_slice x)" for env x
    by (simp add: raw_slice_def names fmt_ref_printable dec_digits_printable)
  have "plain_xml claim_env (raw_file seed c)" if "(seed, c) \<in> set cs" for seed c
    using assms(2) that by (auto simp: raw_file_def names sl fmt_ref_printable plain_title_def split: option.split)
  then show ?thesis using assms(1) names uris by (auto simp: raw_set_def Let_def claim_env_def)
qed

text \<open>
  C18: a claim set that was written is read back. Over any text writer and parser that keep the laws of libxml: when
  all calls of the writer succeed, for a time up to the end of the year 9999, references of the size of a blob reference
  and titles of printable ASCII characters, the buffer is parsed, its root is a claim set whose time of creation is the one it was
  written with, if the byte behind the array of \<^verbatim>\<open>evr_time_from_iso8601\<close> is spare, and its claims are, in order, the file claims
  that were appended, with their slices, their title unless it is empty, and the formatted seed.
\<close>

theorem claim_set_roundtrip:
  assumes lib: "text_writer X view parse"
    and init: "evr_init_claim_set X t = Ret (Some w0)" and app: "append_claims X cs w0 = (Evr_ok, w1)"
    and fin: "evr_finalize_claim_set X w1 = (Evr_ok, w2)"
    and t: "unat t div 1000 \<le> max_iso_second"
    and refs: "\<forall>(seed, c)\<in>set cs. \<forall>s\<in>set (fc_slices c). length (fs_ref s) = evr_blob_ref_size"
    and titles: "\<forall>(seed, c)\<in>set cs. plain_title (fc_title c)"
  shows "\<exists>n. parse w2 = Some n \<and> evr_get_root_claim_set (Some n) = Some n \<and>
    evr_parse_created spare n = (if spare then Ret (Some t) else Undef) \<and>
    map (evr_parse_file_claim True) (visit_elements None [] (evr_first_claim n)) =
      map (\<lambda>(seed, c). Some (c\<lparr>fc_title := written_title (fc_title c)\<rparr>)) cs \<and>
    map (\<lambda>x. xmlGetProp x ''seed'') (visit_elements None [] (evr_first_claim n)) =
      map (\<lambda>(seed, c). map_option evr_fmt_claim_ref seed) cs"
proof -
  obtain s wb where s: "evr_time_to_iso8601 30 t = Ret s" and wb: "view wb = ([], Some (raw_set s cs))"
      "xw_end_document X wb = (True, w2)" and sz: "\<forall>(seed, c)\<in>set cs. \<forall>s\<in>set (fc_slices c). fs_size s < 100 * 2 ^ 20"
    using text_writer.written_root [OF lib init app fin] by blast
  obtain s' where "evr_time_to_iso8601 30 t = Ret s'" "list_all printable s'"
      "evr_time_from_iso8601 spare s' = (if spare then Ret (Some t) else Undef)"
    using iso8601_back [OF t, of 30] by auto
  then have time: "list_all printable s" "evr_time_from_iso8601 spare s = (if spare then Ret (Some t) else Undef)"
    using s by simp_all
  obtain n where n: "parse w2 = Some n" "strip n = resolve Map.empty (raw_set s cs)"
    using text_writer.read_back [OF lib wb(2,1) plain_set [OF time(1) titles]] by blast
  have st: "strip n = Element (Some evr_claims_ns) ''claim-set'' [\<lparr>xa_ns = Some evr_dc_ns, xa_name = ''created'', xa_value = s\<rparr>]
      (map (\<lambda>(seed, c). resolve claim_env (raw_file seed c)) cs)"
    using n(2) by (auto simp: raw_set_def Let_def claim_env_def case_prod_unfold o_def)
  have root_n: "evr_is_evr_element (Some n) ''claim-set'' evr_claims_ns"
    using strip_evr_element [of n "''claim-set''" evr_claims_ns] by (simp add: st evr_is_evr_element_def)
  have created: "xmlGetNsProp n ''created'' evr_dc_ns = Some s"
    using strip_props(2) [of n "''created''" evr_dc_ns] by (simp add: st xmlGetNsProp_def node_attrs_def)
  have "evr_parse_file_claim True (resolve claim_env (raw_file seed c)) = Some (c\<lparr>fc_title := written_title (fc_title c)\<rparr>)"
    if "(seed, c) \<in> set cs" for seed c
    using refs sz that by (intro parse_file_written) fastforce
  from claims_read [OF st this] show ?thesis
    using root_n created time(2) n(1) by (auto simp: evr_get_root_claim_set_def evr_parse_created_def)
qed

section \<open>A text writer\<close>

text \<open>
  The laws hold of a writer that keeps the tree of what it has written; \<open>w_calls\<close> tells which of the next calls succeed.
  An attribute can be written as long as the element has no content.
\<close>

record tree_writer =
  w_calls :: "bool list"
  w_open :: "raw_xml list"
  w_root :: "raw_xml option"

definition writer_call :: "(tree_writer \<Rightarrow> bool \<times> tree_writer) \<Rightarrow> tree_writer \<Rightarrow> bool \<times> tree_writer" where
  "writer_call f w = (case w_calls w of
      [] \<Rightarrow> f w
    | ok # r \<Rightarrow> if ok then f (w\<lparr>w_calls := r\<rparr>) else (False, w\<lparr>w_calls := r\<rparr>))"

definition tree_start :: "string \<Rightarrow> string option \<Rightarrow> tree_writer \<Rightarrow> bool \<times> tree_writer" where
  "tree_start nm ns = writer_call (\<lambda>w.
    (True, w\<lparr>w_open := Raw nm (case ns of None \<Rightarrow> [] | Some u \<Rightarrow> [(None, u)]) [] [] # w_open w\<rparr>))"

definition tree_attribute ::
  "string option \<Rightarrow> string \<Rightarrow> string option \<Rightarrow> string \<Rightarrow> tree_writer \<Rightarrow> bool \<times> tree_writer" where
  "tree_attribute p nm ns v = writer_call (\<lambda>w. case w_open w of
      Raw e ds as [] # es \<Rightarrow>
        (True, w\<lparr>w_open := Raw e (ds @ (case ns of None \<Rightarrow> [] | Some u \<Rightarrow> [(p, u)])) (as @ [(p, nm, v)]) [] # es\<rparr>)
    | _ \<Rightarrow> (False, w))"

definition tree_end :: "tree_writer \<Rightarrow> bool \<times> tree_writer" where
  "tree_end = writer_call (\<lambda>w. case w_open w of
      [] \<Rightarrow> (False, w)
    | [e] \<Rightarrow> (True, w\<lparr>w_open := [], w_root := Some e\<rparr>)
    | e # p # es \<Rightarrow> (True, w\<lparr>w_open := add_child e p # es\<rparr>))"

definition tree_ops :: "bool list \<Rightarrow> tree_writer xml_text_writer" where
  "tree_ops calls = \<lparr>xw_new = Some \<lparr>w_calls = calls, w_open = [], w_root = None\<rparr>,
    xw_set_indent = writer_call (\<lambda>w. (True, w)), xw_start_document = writer_call (\<lambda>w. (True, w)),
    xw_start_element = tree_start, xw_write_attribute = tree_attribute, xw_end_element = tree_end,
    xw_end_document = writer_call (\<lambda>w. (True, w))\<rparr>"

definition tree_view :: "tree_writer \<Rightarrow> raw_xml list \<times> raw_xml option" where
  "tree_view w = (w_open w, w_root w)"

definition tree_parse :: "tree_writer \<Rightarrow> xml_node option" where
  "tree_parse w = map_option (resolve Map.empty) (w_root w)"

lemma writer_call_ok:
  assumes "writer_call f w = (True, w')"
  obtains calls where "f (w\<lparr>w_calls := calls\<rparr>) = (True, w')"
proof (cases "w_calls w")
  case Nil
  then have e: "w\<lparr>w_calls := []\<rparr> = w" by (cases w) simp
  have "f w = (True, w')" using assms Nil by (simp add: writer_call_def)
  then show ?thesis using that [of "[]"] by (simp only: e)
next
  case (Cons ok calls)
  then show ?thesis using assms that by (auto simp: writer_call_def split: if_splits)
qed

lemma strip_resolve: "strip (resolve env r) = resolve env r"
proof (induction r arbitrary: env)
  case (Raw e ds as cs)
  have "is_element (resolve env1 c)" for env1 c by (cases c) (simp add: is_element_def Let_def)
  then show ?case using Raw.IH by (simp add: Let_def filter_id_conv)
qed

lemmas tree_ops_defs = tree_ops_def tree_view_def tree_parse_def tree_start_def tree_attribute_def tree_end_def

interpretation tw: text_writer "tree_ops calls" tree_view tree_parse for calls
proof
  fix w w' :: tree_writer and nm v :: string and ns p :: "string option" and ds as cs e es r pp root
  show "xw_new (tree_ops calls) = Some w \<Longrightarrow> tree_view w = ([], None)" by (auto simp: tree_ops_defs)
  show "xw_set_indent (tree_ops calls) w = (True, w') \<Longrightarrow> tree_view w' = tree_view w"
    "xw_start_document (tree_ops calls) w = (True, w') \<Longrightarrow> tree_view w' = tree_view w"
    by (auto simp: tree_ops_defs elim: writer_call_ok)
  show "xw_start_element (tree_ops calls) nm ns w = (True, w') \<Longrightarrow> tree_view w = (es, r) \<Longrightarrow> es \<noteq> [] \<or> r = None \<Longrightarrow>
      tree_view w' = (Raw nm (case ns of None \<Rightarrow> [] | Some u \<Rightarrow> [(None, u)]) [] [] # es, r)"
    by (auto simp: tree_ops_defs elim!: writer_call_ok)
  show "xw_write_attribute (tree_ops calls) p nm ns v w = (True, w') \<Longrightarrow> tree_view w = (Raw e ds as [] # es, r) \<Longrightarrow>
      p \<noteq> None \<or> ns = None \<Longrightarrow>
      tree_view w' = (Raw e (ds @ (case ns of None \<Rightarrow> [] | Some u \<Rightarrow> [(p, u)])) (as @ [(p, nm, v)]) [] # es, r)" for e
    by (auto simp: tree_ops_defs elim!: writer_call_ok)
  show "xw_end_element (tree_ops calls) w = (True, w') \<Longrightarrow> tree_view w = (e # pp # es, r) \<Longrightarrow>
      tree_view w' = (add_child e pp # es, r)" for e
    by (auto simp: tree_ops_defs elim!: writer_call_ok)
  show "xw_end_element (tree_ops calls) w = (True, w') \<Longrightarrow> tree_view w = ([e], r) \<Longrightarrow> tree_view w' = ([], Some e)" for e
    by (auto simp: tree_ops_defs elim!: writer_call_ok)
  show "xw_end_document (tree_ops calls) w = (True, w') \<Longrightarrow> tree_view w = ([], Some root) \<Longrightarrow> plain_xml Map.empty root \<Longrightarrow>
      \<exists>n. tree_parse w' = Some n \<and> strip n = resolve Map.empty root"
    by (auto simp: tree_ops_defs strip_resolve elim!: writer_call_ok)
qed

definition demo_file_claims :: "(evr_claim_ref option \<times> evr_file_claim) list" where
  "demo_file_claims =
    [(Some (replicate 30 7), \<lparr>fc_title = Some ''a & b.txt'', fc_slices = [\<lparr>fs_ref = replicate 28 1, fs_size = 12\<rparr>]\<rparr>),
     (None, \<lparr>fc_title = Some [], fc_slices = []\<rparr>)]"

lemma demo_claim_set:
  "\<exists>w0 w1 w2. evr_init_claim_set (tree_ops []) 0 = Ret (Some w0) \<and> append_claims (tree_ops []) demo_file_claims w0 = (Evr_ok, w1) \<and>
    evr_finalize_claim_set (tree_ops []) w1 = (Evr_ok, w2)"
proof -
  obtain s where "evr_time_to_iso8601 30 0 = Ret s" using iso8601_back [of 0 30] by auto
  then show ?thesis
    by (simp add: evr_init_claim_set_def demo_file_claims_def writer_call_def add_child_def tree_ops_defs
        evr_append_file_claim_def evr_finalize_claim_set_def write_slice_def)
qed

theorem claim_set_roundtrip_witness:
  "\<exists>w0 w1 w2 n. evr_init_claim_set (tree_ops []) 0 = Ret (Some w0) \<and> append_claims (tree_ops []) demo_file_claims w0 = (Evr_ok, w1) \<and>
    evr_finalize_claim_set (tree_ops []) w1 = (Evr_ok, w2) \<and> tree_parse w2 = Some n \<and>
    evr_get_root_claim_set (Some n) = Some n \<and> evr_parse_created True n = Ret (Some 0) \<and>
    map (evr_parse_file_claim True) (visit_elements None [] (evr_first_claim n)) =
      [Some \<lparr>fc_title = Some ''a & b.txt'', fc_slices = [\<lparr>fs_ref = replicate 28 1, fs_size = 12\<rparr>]\<rparr>,
       Some \<lparr>fc_title = None, fc_slices = []\<rparr>]"
proof -
  obtain w0 w1 w2 where w: "evr_init_claim_set (tree_ops []) 0 = Ret (Some w0)"
    "append_claims (tree_ops []) demo_file_claims w0 = (Evr_ok, w1)" "evr_finalize_claim_set (tree_ops []) w1 = (Evr_ok, w2)"
    using demo_claim_set by blast
  have "unat (0 :: evr_time) div 1000 \<le> max_iso_second"
    "\<forall>(seed, c)\<in>set demo_file_claims. \<forall>s\<in>set (fc_slices c). length (fs_ref s) = evr_blob_ref_size"
    "\<forall>(seed, c)\<in>set demo_file_claims. plain_title (fc_title c)"
    by (simp_all add: demo_file_claims_def evr_layout plain_title_def printable_def)
  from claim_set_roundtrip [OF tw.text_writer_axioms w this, of True] w show ?thesis
    by (auto simp: demo_file_claims_def written_title_def)
qed

section \<open>Annotated claims\<close>

lemma get_set_prop:
  "xmlGetProp c nm = None \<Longrightarrow> is_element c \<Longrightarrow> xmlGetProp (xmlSetProp c nm v) nm' = (if nm' = nm then Some v else xmlGetProp c nm')"
proof -
  have "find (\<lambda>a. xa_name a = nm) as = None \<Longrightarrow>
    find (\<lambda>a. xa_name a = nm') (set_attr nm v as) =
      (if nm' = nm then Some \<lparr>xa_ns = None, xa_name = nm, xa_value = v\<rparr> else find (\<lambda>a. xa_name a = nm') as)" for as
    by (induction as) (auto split: if_splits)
  then show "xmlGetProp c nm = None \<Longrightarrow> is_element c \<Longrightarrow>
      xmlGetProp (xmlSetProp c nm v) nm' = (if nm' = nm then Some v else xmlGetProp c nm')"
    by (cases c) (auto simp: xmlGetProp_def xmlSetProp_def node_attrs_def is_element_def)
qed

lemma set_prop_node [simp]:
  "is_element (xmlSetProp c nm v) = is_element c" "node_children (xmlSetProp c nm v) = node_children c"
  by (cases c; simp add: xmlSetProp_def is_element_def node_children_def)+

text \<open>What annotating the \<open>i\<close>-th claim of a document means.\<close>

definition annotated :: "evr_blob_ref \<Rightarrow> nat \<Rightarrow> xml_node \<Rightarrow> xml_node \<Rightarrow> bool" where
  "annotated doc_ref i c c' =
    (node_children c' = node_children c \<and> is_element c' \<and>
     xmlGetProp c' ''claim-ref'' = (case xmlGetProp c ''claim-ref'' of
        None \<Rightarrow> claim_ref_text doc_ref (word_of_nat i) | x \<Rightarrow> x) \<and>
     xmlGetProp c' ''seed'' = (case xmlGetProp c ''seed'' of
        None \<Rightarrow> claim_ref_text doc_ref
          (case xmlGetProp c ''index-seed'' of None \<Rightarrow> word_of_nat i | Some v \<Rightarrow> the (sscanf_zu v)) | x \<Rightarrow> x) \<and>
     (\<forall>nm. nm \<noteq> ''claim-ref'' \<longrightarrow> nm \<noteq> ''seed'' \<longrightarrow> xmlGetProp c' nm = xmlGetProp c nm))"

lemma claim_ref_text_some:
  assumes "evr_blob_ref_size \<le> length doc_ref"
  shows "claim_ref_text doc_ref i \<noteq> None"
  using assms by (simp add: claim_ref_text_def evr_build_claim_ref_def evr_push_n_def evr_push_be16_def evr_init_buf_pos_def
      evr_inc_buf_pos_def evr_layout)

lemma annotate_claim_ok:
  assumes "annotate_claim sp doc_ref (word_of_nat i) c = (Evr_ok, c')" "is_element c" "evr_blob_ref_size \<le> length doc_ref"
  shows "annotated doc_ref i c c'"
proof -
  note txt_some = claim_ref_text_some [OF assms(3)]
  define c1 where "c1 = (if xmlGetProp c ''claim-ref'' \<noteq> None then c
    else xmlSetProp c ''claim-ref'' (the (claim_ref_text doc_ref (word_of_nat i))))"
  have el: "is_element c1" "node_children c1 = node_children c" using assms(2) by (simp_all add: c1_def)
  have p1: "xmlGetProp c1 nm = (if nm = ''claim-ref'' \<and> xmlGetProp c ''claim-ref'' = None
      then claim_ref_text doc_ref (word_of_nat i) else xmlGetProp c nm)" for nm
    using txt_some [of "word_of_nat i"] by (auto simp: c1_def get_set_prop [OF _ assms(2)])
  define idx where "idx = (case xmlGetProp c ''index-seed'' of None \<Rightarrow> word_of_nat i | Some v \<Rightarrow> the (sscanf_zu v))"
  have "c' = (if xmlGetProp c1 ''seed'' \<noteq> None then c1 else xmlSetProp c1 ''seed'' (the (claim_ref_text doc_ref idx)))"
  proof -
    have c1: "(if xmlGetProp c ''claim-ref'' \<noteq> None then (True, c)
        else (fst sp, if fst sp then xmlSetProp c ''claim-ref'' (the (claim_ref_text doc_ref (word_of_nat i))) else c)) = (True, c1)"
      using assms(1) by (auto simp: annotate_claim_def Let_def c1_def split: if_splits)
    show ?thesis
      using assms(1) p1 [of "''index-seed''"] unfolding annotate_claim_def c1
      by (auto simp: Let_def evr_parse_claim_index_seed_attr_def idx_def split: if_splits option.splits)
  qed
  then have p2: "xmlGetProp c' nm = (if nm = ''seed'' \<and> xmlGetProp c ''seed'' = None
      then claim_ref_text doc_ref idx else xmlGetProp c1 nm)"
    and "is_element c'" "node_children c' = node_children c" for nm
    using txt_some [of idx] el p1 [of "''seed''"] by (auto simp: get_set_prop [OF _ el(1)])
  then show ?thesis
    unfolding annotated_def by (simp add: p2 p1 idx_def split: option.split)
qed

primrec annotated_list :: "evr_blob_ref \<Rightarrow> nat \<Rightarrow> xml_node list \<Rightarrow> xml_node list \<Rightarrow> bool" where
  "annotated_list doc_ref i [] cs' = (cs' = [])"
| "annotated_list doc_ref i (c # cs) cs' = (case cs' of [] \<Rightarrow> False
    | c' # r \<Rightarrow> if is_element c then annotated doc_ref i c c' \<and> annotated_list doc_ref (Suc i) cs r
        else c' = c \<and> annotated_list doc_ref i cs r)"

lemma annotate_loop_ok:
  assumes "annotate_loop sp doc_ref i cs = (Evr_ok, cs')" "evr_blob_ref_size \<le> length doc_ref"
  shows "annotated_list doc_ref i cs cs'"
  using assms
proof (induction cs arbitrary: i cs')
  case (Cons c cs)
  show ?case
  proof (cases "is_element c")
    case True
    then obtain c1 r where "annotate_claim (sp i) doc_ref (word_of_nat i) c = (Evr_ok, c1)"
        "annotate_loop sp doc_ref (Suc i) cs = (Evr_ok, r)" "cs' = c1 # r"
      using Cons.prems(1) by (auto split: prod.splits if_splits)
    then show ?thesis using True Cons.IH Cons.prems(2) annotate_claim_ok by auto
  next
    case False
    then show ?thesis using Cons by (auto split: prod.splits)
  qed
qed simp

text \<open>Claims that have both attributes are left as they are.\<close>

definition has_refs :: "xml_node \<Rightarrow> bool" where
  "has_refs c = (is_element c \<longrightarrow> xmlGetProp c ''claim-ref'' \<noteq> None \<and> xmlGetProp c ''seed'' \<noteq> None)"

lemma annotate_loop_id: "\<forall>c\<in>set cs. has_refs c \<Longrightarrow> annotate_loop sp doc_ref i cs = (Evr_ok, cs)"
  by (induction cs arbitrary: i) (auto simp: has_refs_def annotate_claim_def Let_def)

lemma annotated_has_refs:
  assumes "annotated_list doc_ref i cs cs'" "evr_blob_ref_size \<le> length doc_ref"
  shows "\<forall>c\<in>set cs'. has_refs c"
  using assms
proof (induction cs arbitrary: i cs')
  case (Cons c cs)
  obtain c' r where cs': "cs' = c' # r" using Cons.prems(1) by (auto split: list.splits)
  have "has_refs c'"
  proof (cases "is_element c")
    case True
    then have "annotated doc_ref i c c'" using Cons.prems(1) cs' by simp
    then show ?thesis using claim_ref_text_some [OF assms(2)] by (auto simp: annotated_def has_refs_def split: option.splits)
  next
    case False
    then show ?thesis using Cons.prems(1) cs' by (simp add: has_refs_def)
  qed
  moreover have "\<forall>c\<in>set r. has_refs c" using Cons.IH [of _ r] Cons.prems cs' by (auto split: if_splits)
  ultimately show ?case using cs' by simp
qed simp

text \<open>
  C19: annotating a claim set. When \<^verbatim>\<open>evr_annotate_claims\<close> returns \<^verbatim>\<open>evr_ok\<close> for a document that is a claim
  set, every claim has its reference, which is that of the document with the position of the claim unless there
  was one, and a seed, which is the given one, the claim of the given index or the claim itself;
  children, other attributes and nodes that are no claims stay. Annotating again, even as another document, changes nothing.
\<close>

theorem annotate_claims_spec:
  assumes run: "evr_annotate_claims sp doc doc_ref = (Evr_ok, doc')"
    and cs: "evr_get_root_claim_set doc = Some cs" and len: "evr_blob_ref_size \<le> length doc_ref"
  shows "\<exists>cs'. doc' = Some cs' \<and> evr_get_root_claim_set doc' = Some cs' \<and>
    annotated_list doc_ref 0 (node_children cs) (node_children cs') \<and>
    evr_annotate_claims sp' doc' doc_ref' = (Evr_ok, doc')"
proof -
  have d: "doc = Some cs" and e: "evr_is_evr_element (Some cs) ''claim-set'' evr_claims_ns"
    using cs by (auto simp: evr_get_root_claim_set_def split: if_splits)
  obtain ns nm as cl where el: "cs = Element ns nm as cl"
    using e by (cases cs) (auto simp: evr_is_evr_element_def)
  obtain cl' where l: "annotate_loop sp doc_ref 0 cl = (Evr_ok, cl')" and doc': "doc' = Some (Element ns nm as cl')"
    using run by (auto simp: evr_annotate_claims_def cs el node_children_def split: prod.splits)
  have al: "annotated_list doc_ref 0 cl cl'" using l len by (rule annotate_loop_ok)
  have "evr_is_evr_element doc' ''claim-set'' evr_claims_ns"
    using e unfolding doc' el by (simp add: evr_is_evr_element_def)
  then have r': "evr_get_root_claim_set doc' = Some (Element ns nm as cl')" by (simp add: evr_get_root_claim_set_def doc')
  moreover have "evr_annotate_claims sp' doc' doc_ref' = (Evr_ok, doc')"
    using annotate_loop_id [OF annotated_has_refs [OF al len], of sp' doc_ref' 0]
    unfolding evr_annotate_claims_def r' by (simp add: node_children_def doc')
  ultimately show ?thesis using al by (simp add: doc' el node_children_def)
qed

definition demo_claim_doc :: xml_node where
  "demo_claim_doc = Element (Some evr_claims_ns) ''claim-set'' []
    [Other_node '' '', Element (Some evr_claims_ns) ''attr'' [] [],
     Element (Some evr_claims_ns) ''attr'' [\<lparr>xa_ns = None, xa_name = ''index-seed'', xa_value = ''0''\<rparr>] []]"

theorem annotate_claims_spec_witness:
  "\<exists>doc' cs'. evr_annotate_claims (\<lambda>_. (True, True)) (Some demo_claim_doc) (replicate 28 3) = (Evr_ok, doc') \<and> doc' = Some cs' \<and>
    evr_get_root_claim_set doc' = Some cs' \<and> annotated_list (replicate 28 3) 0 (node_children demo_claim_doc) (node_children cs') \<and>
    evr_annotate_claims (\<lambda>_. (False, False)) doc' (replicate 28 4) = (Evr_ok, doc')"
proof -
  obtain doc' where d: "evr_annotate_claims (\<lambda>_. (True, True)) (Some demo_claim_doc) (replicate 28 3) = (Evr_ok, doc')"
  proof -
    have "fst (evr_annotate_claims (\<lambda>_. (True, True)) (Some demo_claim_doc) (replicate 28 3)) = Evr_ok" by code_simp
    then show ?thesis by (metis prod.collapse that)
  qed
  have "evr_get_root_claim_set (Some demo_claim_doc) = Some demo_claim_doc" by code_simp
  from annotate_claims_spec [OF d this, of "\<lambda>_. (False, False)" "replicate 28 4"] d show ?thesis
    by (auto simp: evr_layout)
qed

end
