(* ===== verification/Claim_Set_Correct.thy ===== *)
theory Claim_Set_Correct
  imports Claim_Set Claims_Correct
begin

text \<open>
  Properties of merging claim sets: what a merge that returns \<^verbatim>\<open>evr_ok\<close> has done to the tables, and what one
  that fails leaves behind.
\<close>

section \<open>What the merges keep\<close>

definition keeps_rest :: "attr_tables \<Rightarrow> attr_tables \<Rightarrow> bool" where
  "keeps_rest T T' = (t_claim_set T' = t_claim_set T \<and> t_claim_archive T' = t_claim_archive T \<and>
     t_attr_def T' = t_attr_def T \<and> t_state T' = t_state T)"

lemma keeps_rest_refl [simp]: "keeps_rest T T"
  by (simp add: keeps_rest_def)

lemma keeps_rest_trans: "keeps_rest T T1 \<Longrightarrow> keeps_rest T1 T2 \<Longrightarrow> keeps_rest T T2"
  by (simp add: keeps_rest_def)

lemma same_but_archive [simp]: "\<exists>arch. T = T\<lparr>t_claim_archive := arch\<rparr>"
  by (intro exI [of _ "t_claim_archive T"]) (cases T, simp)

lemma run_update_snd: "run_update r = (x, d') \<Longrightarrow> r = (fst r, d')"
  by (cases r) (simp add: run_update_def)

context sqlite_attr
begin

lemma update_valid_until_keeps:
  assumes "evr_attr_index_update_valid_until S d i t = (res, d')"
  shows "keeps_rest (tabs d) (tabs d')"
proof -
  obtain r where "ai_update_attr_valid_until S d t (signed i) = (r, d')"
    using run_update_snd [OF assms [unfolded evr_attr_index_update_valid_until_def]] by (metis prod.collapse)
  then show ?thesis
    using update_until_done [of d t "signed i" d'] update_until_keeps [of d t "signed i" r d']
    by (cases "r = Sql_done") (simp_all add: keeps_rest_def)
qed

lemma end_past_siblings_keeps: "end_past_siblings S t ended rows d = (res, d') \<Longrightarrow> keeps_rest (tabs d) (tabs d')"
proof (induction rows arbitrary: d)
  case (Cons x rows)
  obtain r d1 where u: "evr_attr_index_update_valid_until S d (signed (fst x)) t = (r, d1)" by fastforce
  have "keeps_rest (tabs d) (tabs d1)" using u by (rule update_valid_until_keeps)
  moreover have "keeps_rest (tabs d1) (tabs d')"
    using Cons u by (auto split: if_splits)
  ultimately show ?case by (rule keeps_rest_trans)
qed simp

lemma add_past_keeps: "add_past S t val ended rows d = (res, cur, d') \<Longrightarrow> keeps_rest (tabs d) (tabs d')"
proof (induction rows arbitrary: d)
  case (Cons x rows)
  let ?u = "if ar_val_str (snd x) = None \<or> ar_val_str (snd x) = val
    then evr_attr_index_update_valid_until S d (signed (fst x)) t else (Ret Evr_ok, d)"
  show ?case
  proof (cases "ar_val_str (snd x) \<noteq> None \<and> val = None")
    case True
    then show ?thesis using Cons.prems by simp
  next
    case False
    obtain r d1 where u: "?u = (r, d1)" by fastforce
    then have "keeps_rest (tabs d) (tabs d1)"
      using update_valid_until_keeps [of d "signed (fst x)" t r d1] by (auto split: if_splits)
    moreover have "keeps_rest (tabs d1) (tabs d')"
      using Cons.prems False u Cons.IH [of d1] by (simp only: add_past.simps) (auto split: if_splits)
    ultimately show ?thesis by (rule keeps_rest_trans)
  qed
qed (auto split: if_splits)

lemma insert_attr_keeps_rest: "ai_insert_attr S d r = (res, d') \<Longrightarrow> keeps_rest (tabs d) (tabs d')"
  using insert_attr_done [of d r d'] insert_attr_keeps [of d r res d']
  by (cases "res = Sql_done") (auto simp: keeps_rest_def)

lemma insert_until_keeps: "insert_until S d seed key val t trunc f = (res, d') \<Longrightarrow> keeps_rest (tabs d) (tabs d')"
  by (auto simp: insert_until_def evr_insert_attr_def split: exec.splits option.splits prod.splits
      dest!: run_update_snd intro: insert_attr_keeps_rest)

lemma replace_keeps: "evr_merge_attr_index_attr_replace S t seed key val d = (res, d') \<Longrightarrow> keeps_rest (tabs d) (tabs d')"
  by (auto simp: evr_merge_attr_index_attr_replace_def split: exec.splits option.splits prod.splits if_splits
      dest!: end_past_siblings_keeps insert_until_keeps intro: keeps_rest_trans)

lemma rm_keeps: "evr_merge_attr_index_attr_rm S t seed key val d = (res, d') \<Longrightarrow> keeps_rest (tabs d) (tabs d')"
  by (auto simp: evr_merge_attr_index_attr_rm_def split: option.splits prod.splits if_splits
      dest!: end_past_siblings_keeps insert_until_keeps intro: keeps_rest_trans)

lemma add_keeps: "evr_merge_attr_index_attr_add S t seed key val d = (res, d') \<Longrightarrow> keeps_rest (tabs d) (tabs d')"
  by (auto simp: evr_merge_attr_index_attr_add_def split: exec.splits option.splits prod.splits if_splits
      dest!: add_past_keeps insert_until_keeps intro: keeps_rest_trans)

lemma merge_attr_op_keeps: "merge_attr_op S t seed a val d = (res, d') \<Longrightarrow> keeps_rest (tabs d) (tabs d')"
  by (auto simp: merge_attr_op_def dest: replace_keeps add_keeps rm_keeps split: if_splits)

lemma merge_attr_keeps: "evr_merge_attr_index_attr S t seed ref as d = (res, d') \<Longrightarrow> keeps_rest (tabs d) (tabs d')"
proof (induction as arbitrary: d)
  case (Cons a as)
  show ?case
  proof (cases "attr_value ref a")
    case None
    then show ?thesis using Cons by simp
  next
    case (Some val)
    obtain r d1 where m: "merge_attr_op S t seed a val d = (r, d1)" by fastforce
    have "keeps_rest (tabs d) (tabs d1)" using m by (rule merge_attr_op_keeps)
    moreover have "keeps_rest (tabs d1) (tabs d')"
      using Cons Some m by (auto split: exec.splits if_splits)
    ultimately show ?thesis by (rule keeps_rest_trans)
  qed
qed simp

lemma merge_claim_keeps:
  assumes "evr_merge_attr_index_claim S t cref claim d = (res, d')"
  shows "keeps_rest (tabs d) (tabs d')"
proof -
  obtain r d1 where m: "evr_merge_attr_index_attr S t (ac_seed claim) cref (ac_attr claim) d = (r, d1)" by fastforce
  have k: "keeps_rest (tabs d) (tabs d1)" using m by (rule merge_attr_keeps)
  have ins: "keeps_rest (tabs d1) (tabs d2)" if "ai_insert_claim S d1 a b = (x, d2)" for a b x d2
    using that insert_claim_done [of d1 a b d2] insert_claim_keeps [of d1 a b x d2]
    by (cases "x = Sql_done") (auto simp: keeps_rest_def)
  show ?thesis
    using assms m k ins keeps_rest_trans
    by (auto simp: evr_merge_attr_index_claim_def split: if_splits exec.splits prod.splits)
qed

lemma merge_attr_claim_node_keeps:
  "merge_attr_claim_node S malloc created ref prev n d vs = (res, d', vs') \<Longrightarrow> keeps_rest (tabs d) (tabs d')"
  by (auto simp: merge_attr_claim_node_def Let_def split: prod.splits option.splits exec.splits if_splits
      dest: merge_claim_keeps)

lemma merge_attr_claims_keeps:
  "merge_attr_claims S malloc created ref prev ns d vs = (res, d', vs') \<Longrightarrow> keeps_rest (tabs d) (tabs d')"
proof (induction ns arbitrary: prev d vs)
  case (Cons n ns)
  show ?case
  proof (cases "evr_is_evr_element (Some n) ''attr'' evr_claims_ns")
    case False
    then show ?thesis using Cons by simp
  next
    case True
    obtain r d1 vs1 where m: "merge_attr_claim_node S (malloc (length prev)) created ref prev n d vs = (r, d1, vs1)"
      by (metis prod_cases3)
    have "keeps_rest (tabs d) (tabs d1)" using m by (rule merge_attr_claim_node_keeps)
    moreover have "keeps_rest (tabs d1) (tabs d')"
      using Cons True m by (auto split: if_splits)
    ultimately show ?thesis by (rule keeps_rest_trans)
  qed
qed simp

text \<open>An archive claim sets the time of its seed to the smaller one.\<close>

lemma merge_archive_seed_keeps:
  assumes "merge_archive_seed S created seed d = (res, d')"
  shows "\<exists>arch. tabs d' = (tabs d)\<lparr>t_claim_archive := arch\<rparr>"
proof -
  let ?s = "take evr_claim_ref_size seed"
  have arch: "\<exists>arch. tabs d1 = (tabs d)\<lparr>t_claim_archive := arch\<rparr>" if "ai_archive_claim S d ?s created = (r, d1)" for r d1
    using that archive_done [of d ?s created d1] archive_keeps [of d ?s created r d1]
    by (cases "r = Sql_done") auto
  show ?thesis
    using assms arch by (auto simp: merge_archive_seed_def Let_def split: sql_row.splits prod.splits if_splits)
qed

lemma merge_archive_seed_ok:
  assumes "merge_archive_seed S created seed d = (Ret Evr_ok, d')"
  shows "tabs d' = (tabs d)\<lparr>t_claim_archive := (t_claim_archive (tabs d))(take evr_claim_ref_size seed \<mapsto>
    (case t_claim_archive (tabs d) (take evr_claim_ref_size seed) of None \<Rightarrow> created
     | Some at \<Rightarrow> if sint created < sint at then created else at))\<rparr>"
proof -
  let ?s = "take evr_claim_ref_size seed"
  have arch: "tabs d1 = (tabs d)\<lparr>t_claim_archive := (t_claim_archive (tabs d))(?s \<mapsto> created)\<rparr>"
    if "ai_archive_claim S d ?s created = (Sql_done, d1)" for d1
    using that by (rule archive_done)
  show ?thesis
    using assms arch find_archived_row [of d ?s] find_archived_none [of d ?s]
    by (auto simp: merge_archive_seed_def Let_def map_upd_triv split: sql_row.splits prod.splits if_splits sql_res.splits)
qed

end

section \<open>The claims of a document\<close>

primrec attr_claims_of ::
  "(nat \<Rightarrow> bool) \<Rightarrow> evr_time \<Rightarrow> evr_blob_ref \<Rightarrow> xml_node list \<Rightarrow> xml_node list \<Rightarrow> (evr_time \<times> evr_claim_ref \<times> evr_attr_claim) list" where
  "attr_claims_of malloc created ref prev [] = []"
| "attr_claims_of malloc created ref prev (n # ns) =
    (if evr_is_evr_element (Some n) ''attr'' evr_claims_ns
     then (case snd (evr_parse_attr_claim (malloc (length prev)) prev n) of
         None \<Rightarrow> []
       | Some a \<Rightarrow> [(created, build_ref ref (ac_index_seed a), self_seed ref a)])
     else []) @ attr_claims_of malloc created ref (prev @ [n]) ns"

primrec archive_seeds_of :: "(nat \<Rightarrow> bool) \<Rightarrow> nat \<Rightarrow> xml_node list \<Rightarrow> evr_claim_ref list" where
  "archive_seeds_of malloc i [] = []"
| "archive_seeds_of malloc i (n # ns) =
    (if evr_is_evr_element (Some n) ''archive'' evr_claims_ns
     then (case evr_parse_archive_claim (malloc i) n of None \<Rightarrow> [] | Some s \<Rightarrow> [take evr_claim_ref_size s])
     else []) @ archive_seeds_of malloc (Suc i) ns"

definition earlier :: "evr_time \<Rightarrow> evr_time option \<Rightarrow> evr_time" where
  "earlier t x = (case x of None \<Rightarrow> t | Some at \<Rightarrow> if sint t < sint at then t else at)"

lemma earlier_idem: "earlier t (Some (earlier t x)) = earlier t x"
  by (auto simp: earlier_def split: option.splits)

lemma self_seed_index [simp]: "ac_index_seed (self_seed ref a) = ac_index_seed a"
  by (simp add: self_seed_def)

context sqlite_attr
begin

lemma merge_attr_claims_ok:
  assumes "merge_attr_claims S malloc created ref prev ns d vs = (Ret Evr_ok, d', vs')"
  shows "merge_claims S (attr_claims_of malloc created ref prev ns) d = (Ret Evr_ok, d')"
  using assms
proof (induction ns arbitrary: prev d vs)
  case (Cons n ns)
  show ?case
  proof (cases "evr_is_evr_element (Some n) ''attr'' evr_claims_ns")
    case False
    then show ?thesis using Cons by simp
  next
    case True
    obtain r d1 vs1 where m: "merge_attr_claim_node S (malloc (length prev)) created ref prev n d vs = (r, d1, vs1)"
      by (metis prod_cases3)
    have r: "r = Ret Evr_ok" and rest: "merge_attr_claims S malloc created ref (prev @ [n]) ns d1 vs1 = (Ret Evr_ok, d', vs')"
      using Cons.prems True m by (auto split: if_splits)
    obtain c x where p: "evr_parse_attr_claim (malloc (length prev)) prev n = (c, x)" by fastforce
    obtain a where a: "x = Some a"
      using m r p by (cases x) (auto simp: merge_attr_claim_node_def split: if_splits)
    have "evr_merge_attr_index_claim S created (build_ref ref (ac_index_seed a)) (self_seed ref a) d = (Ret Evr_ok, d1)"
      using m r p a by (auto simp: merge_attr_claim_node_def Let_def split: prod.splits exec.splits if_splits)
    then show ?thesis using True p a Cons.IH [OF rest] by simp
  qed
qed simp

lemma merge_archive_claims_ok:
  assumes "merge_archive_claims S malloc created i ns d vs = (Ret Evr_ok, d', vs')"
  shows "tabs d' = (tabs d)\<lparr>t_claim_archive := \<lambda>s. if s \<in> set (archive_seeds_of malloc i ns)
    then Some (earlier created (t_claim_archive (tabs d) s)) else t_claim_archive (tabs d) s\<rparr>"
  using assms
proof (induction ns arbitrary: i d vs)
  case (Cons n ns)
  show ?case
  proof (cases "evr_is_evr_element (Some n) ''archive'' evr_claims_ns")
    case False
    then show ?thesis using Cons by simp
  next
    case True
    obtain s where s: "evr_parse_archive_claim (malloc i) n = Some s"
      using Cons.prems True by (auto split: option.splits)
    obtain d1 vs1 where m: "merge_archive_seed S created s d = (Ret Evr_ok, d1)"
        "merge_archive_claims S malloc created (Suc i) ns d1 vs1 = (Ret Evr_ok, d', vs')"
      using Cons.prems True s by (auto split: prod.splits if_splits)
    have T1: "tabs d1 = (tabs d)\<lparr>t_claim_archive := (t_claim_archive (tabs d))(take evr_claim_ref_size s \<mapsto>
        earlier created (t_claim_archive (tabs d) (take evr_claim_ref_size s)))\<rparr>"
      using merge_archive_seed_ok [OF m(1)] by (simp add: earlier_def)
    show ?thesis using Cons.IH [OF m(2)] True s
      by (auto simp: T1 earlier_idem fun_eq_iff)
  qed
qed simp

lemma merge_archive_claims_keeps:
  "merge_archive_claims S malloc created i ns d vs = (res, d', vs') \<Longrightarrow> \<exists>arch. tabs d' = (tabs d)\<lparr>t_claim_archive := arch\<rparr>"
proof (induction ns arbitrary: i d vs)
  case (Cons n ns)
  show ?case
  proof (cases "evr_is_evr_element (Some n) ''archive'' evr_claims_ns \<and> evr_parse_archive_claim (malloc i) n \<noteq> None")
    case False
    then show ?thesis using Cons by (auto split: if_splits)
  next
    case True
    then obtain s where s: "evr_parse_archive_claim (malloc i) n = Some s" by blast
    obtain r d1 where m: "merge_archive_seed S created s d = (r, d1)" by fastforce
    obtain a1 where a1: "tabs d1 = (tabs d)\<lparr>t_claim_archive := a1\<rparr>" using merge_archive_seed_keeps [OF m] by blast
    have "\<exists>arch. tabs d' = (tabs d1)\<lparr>t_claim_archive := arch\<rparr>"
      using Cons True s m by (auto split: prod.splits if_splits)
    then show ?thesis by (auto simp: a1)
  qed
qed simp

end

section \<open>Claim sets\<close>

text \<open>The claims that are merged, \<open>None\<close> when a factory fails.\<close>

definition transformed_claims :: "claim_set_env \<Rightarrow> evr_attr_spec_claim \<Rightarrow> evr_blob_ref \<Rightarrow> xml_node option \<Rightarrow> xml_node list option" where
  "transformed_claims env spec ref doc =
    (case evr_append_attr_factory_claims (ce_factories env) spec (snd (evr_annotate_claims (ce_annotate env) doc ref)) of
       Ret (r, doc2) \<Rightarrow>
         if r \<noteq> Evr_ok then None
         else (case ce_style env (snd (evr_annotate_claims (ce_annotate2 env) doc2 ref)) of
             None \<Rightarrow> None
           | Some doc4 \<Rightarrow> (case evr_get_root_claim_set doc4 of None \<Rightarrow> Some [] | Some cs \<Rightarrow> Some (node_children cs)))
     | _ \<Rightarrow> None)"

context sqlite_attr
begin

lemma merge_transformed_ok:
  assumes "merge_transformed S env created ref False cs d vs = (Ret Evr_ok, d', vs')"
  shows "\<exists>d1. merge_claims S (attr_claims_of (ce_malloc env) created ref [] (node_children cs)) d = (Ret Evr_ok, d1) \<and>
    keeps_rest (tabs d) (tabs d1) \<and>
    tabs d' = (tabs d1)\<lparr>t_claim_archive := \<lambda>s. if s \<in> set (archive_seeds_of (ce_malloc env) 0 (node_children cs))
      then Some (earlier created (t_claim_archive (tabs d1) s)) else t_claim_archive (tabs d1) s\<rparr>"
proof -
  obtain d1 vs1 where a: "merge_attr_claims S (ce_malloc env) created ref [] (node_children cs) d vs = (Ret Evr_ok, d1, vs1)"
      "merge_archive_claims S (ce_malloc env) created 0 (node_children cs) d1 vs1 = (Ret Evr_ok, d', vs')"
    using assms by (auto simp: merge_transformed_def split: prod.splits if_splits)
  show ?thesis
    using merge_attr_claims_ok [OF a(1)] merge_attr_claims_keeps [OF a(1)] merge_archive_claims_ok [OF a(2)] by blast
qed

lemma merge_transformed_claim_set:
  assumes "merge_transformed S env created ref False cs d vs = (res, d', vs')"
  shows "t_claim_set (tabs d') = t_claim_set (tabs d)"
proof -
  obtain r d1 vs1 where a: "merge_attr_claims S (ce_malloc env) created ref [] (node_children cs) d vs = (r, d1, vs1)"
    by (metis prod_cases3)
  have k: "t_claim_set (tabs d1) = t_claim_set (tabs d)"
    using merge_attr_claims_keeps [OF a] by (simp add: keeps_rest_def)
  show ?thesis
  proof (cases "r = Ret Evr_ok")
    case True
    obtain r2 d2 vs2 where b: "merge_archive_claims S (ce_malloc env) created 0 (node_children cs) d1 vs1 = (r2, d2, vs2)"
      by (metis prod_cases3)
    obtain arch where "tabs d2 = (tabs d1)\<lparr>t_claim_archive := arch\<rparr>" using merge_archive_claims_keeps [OF b] by blast
    then show ?thesis using assms a b True k by (simp add: merge_transformed_def split: if_splits)
  next
    case False
    then show ?thesis using assms a k by (simp add: merge_transformed_def)
  qed
qed

text \<open>A run that is not successful leaves the row of the claim set; a successful one is one of two.\<close>

lemma index_document_fail:
  assumes "index_document S env spec t created ref False doc d vs = (Ret r, d', vs')" "r \<noteq> Evr_ok"
  shows "t_claim_set (tabs d') = t_claim_set (tabs d)"
proof -
  have upd: "t_claim_set (tabs d1) = t_claim_set (tabs d)"
    if u: "run_update (ai_update_claim_set_failed S d t k) = (Ret r, d1)" for d1 k
  proof -
    obtain x where x: "ai_update_claim_set_failed S d t k = (x, d1)" using run_update_snd [OF u] by (metis prod.collapse)
    then have "x \<noteq> Sql_done" using u assms(2) by (auto simp: run_update_def)
    then show ?thesis using set_failed_keeps [OF x] by simp
  qed
  show ?thesis
    using assms(1) upd merge_transformed_claim_set
    by (auto simp: index_document_def split: prod.splits if_splits exec.splits option.splits)
qed

lemma index_document_ok:
  assumes run: "index_document S env spec t created ref False doc d vs = (Ret Evr_ok, d', vs')"
  shows "case transformed_claims env spec ref doc of
      None \<Rightarrow> tabs d' = (tabs d)\<lparr>t_claim_set := (t_claim_set (tabs d))(take evr_blob_ref_size ref := map_option
        (\<lambda>c. c\<lparr>cs_fail_counter := cs_fail_counter c + 1, cs_last_fail := Some t\<rparr>) (t_claim_set (tabs d) (take evr_blob_ref_size ref)))\<rparr>
    | Some ns \<Rightarrow> \<exists>d1. merge_claims S (attr_claims_of (ce_malloc env) created ref [] ns) d = (Ret Evr_ok, d1) \<and>
        keeps_rest (tabs d) (tabs d1) \<and>
        tabs d' = (tabs d1)\<lparr>t_claim_archive := \<lambda>s. if s \<in> set (archive_seeds_of (ce_malloc env) 0 ns)
          then Some (earlier created (t_claim_archive (tabs d1) s)) else t_claim_archive (tabs d1) s\<rparr>"
proof -
  obtain r1 doc1 where a1: "evr_annotate_claims (ce_annotate env) doc ref = (r1, doc1)" by fastforce
  obtain r2 doc2 where f: "evr_append_attr_factory_claims (ce_factories env) spec doc1 = Ret (r2, doc2)"
    using run a1 by (auto simp: index_document_def split: if_splits exec.splits)
  show ?thesis
  proof (cases "r2 = Evr_ok")
    case False
    then have "run_update (ai_update_claim_set_failed S d t (take evr_blob_ref_size ref)) = (Ret Evr_ok, d')"
      using run a1 f by (auto simp: index_document_def split: if_splits prod.splits)
    then show ?thesis
      using set_failed_done False by (simp add: transformed_claims_def a1 f run_update_ok)
  next
    case True
    obtain r3 doc3 where a2: "evr_annotate_claims (ce_annotate2 env) doc2 ref = (r3, doc3)" by fastforce
    obtain doc4 where st: "ce_style env doc3 = Some doc4"
      using run a1 f a2 True by (auto simp: index_document_def split: if_splits option.splits)
    show ?thesis
    proof (cases "evr_get_root_claim_set doc4")
      case None
      have "(\<lambda>s. t_claim_archive (tabs d) s) = t_claim_archive (tabs d)" by simp
      then show ?thesis using run a1 f a2 True st None
        by (auto simp: index_document_def transformed_claims_def split: if_splits)
    next
      case (Some cs)
      then have "merge_transformed S env created ref False cs d vs = (Ret Evr_ok, d', vs')"
        using run a1 f a2 True st by (auto simp: index_document_def split: if_splits)
      from merge_transformed_ok [OF this] show ?thesis
        using True Some by (simp add: transformed_claims_def a1 f a2 st)
    qed
  qed
qed

end

lemma db_inv_cong: "t_attr T' = t_attr T \<Longrightarrow> db_inv T' es = db_inv T es"
proof -
  assume a: "t_attr T' = t_attr T"
  have s: "siblings T' seed key = siblings T seed key" for seed key using a by (rule siblings_cong)
  have "row_bound T' n = row_bound T n" for n by (simp add: row_bound_def a)
  then show ?thesis by (simp only: db_inv_def hist_inv_def vals_def s merge_inv_cong [OF s])
qed

section \<open>An example\<close>

text \<open>A claim set with two attr claims whose seeds are the claims themselves; the stylesheet gives this document.\<close>

definition demo_property :: "string \<Rightarrow> string \<Rightarrow> xml_attr" where
  "demo_property k v = \<lparr>xa_ns = None, xa_name = k, xa_value = v\<rparr>"

definition demo_set_doc :: "string \<Rightarrow> xml_node" where
  "demo_set_doc op = Element (Some evr_claims_ns) ''claim-set''
    [\<lparr>xa_ns = Some evr_dc_ns, xa_name = ''created'', xa_value = ''1970-01-01T00:00:01.000000Z''\<rparr>]
    [Element (Some evr_claims_ns) ''attr'' []
       [Element (Some evr_claims_ns) ''a'' [demo_property ''op'' ''='', demo_property ''k'' ''k'', demo_property ''v'' ''x''] []],
     Element (Some evr_claims_ns) ''attr'' []
       [Element (Some evr_claims_ns) ''a'' [demo_property ''op'' op, demo_property ''k'' ''k'', demo_property ''v'' ''y''] []]]"

definition demo_worker :: worker_calls where
  "demo_worker = \<lparr>wk_exe_ready = Evr_ok, wk_spawn = Evr_ok, wk_write = Evr_ok, wk_close = True, wk_alloc = True,
    wk_read = Evr_end, wk_buf = True, wk_wait = Some 0, wk_xml = None, wk_log_mem = True\<rparr>"

definition demo_set_env :: "string \<Rightarrow> claim_set_env" where
  "demo_set_env op = \<lparr>ce_bind = True, ce_annotate = \<lambda>_. (True, True), ce_annotate2 = \<lambda>_. (True, True),
    ce_factories = \<lparr>fa_format = True, fa_create = \<lambda>_. True, fa_join = True, fa_worker = \<lambda>_. demo_worker,
      fa_adopt = \<lambda>_ _. True\<rparr>,
    ce_style = \<lambda>_. Some (Some (demo_set_doc op)), ce_malloc = \<lambda>_. True\<rparr>"

definition demo_spec :: evr_attr_spec_claim where
  "demo_spec = \<lparr>sp_attr_def = [], sp_transformation_blob_ref = replicate 28 0, sp_attr_factories = []\<rparr>"

definition demo_set_run :: "string \<Rightarrow> evr_code exec \<times> attr_table_db \<times> evr_claim_ref_tiny_set option" where
  "demo_set_run op = evr_merge_attr_index_claim_set True attr_table_ops (demo_set_env op) demo_spec 5 (replicate 28 3)
    (Some (demo_set_doc op)) False empty_attr_db None"

definition demo_set_claims :: "(evr_time \<times> evr_claim_ref \<times> evr_attr_claim) list" where
  "demo_set_claims = attr_claims_of (\<lambda>_. True) 1000 (replicate 28 3) [] (node_children (demo_set_doc ''+''))"

lemma demo_set_run: "fst (demo_set_run ''+'') = Ret Evr_ok" "fst (demo_set_run ''?'') = Ret Evr_error"
  by code_simp+

lemma demo_set_root:
  "evr_get_root_claim_set (Some (demo_set_doc ''+'')) = Some (demo_set_doc ''+'')"
  "evr_get_root_claim_set (Some (demo_set_doc ''?'')) = Some (demo_set_doc ''?'')"
  "evr_parse_created True (demo_set_doc ''+'') = Ret (Some 1000)" "evr_parse_created True (demo_set_doc ''?'') = Ret (Some 1000)"
  by code_simp+

lemma demo_set_transformed:
  "transformed_claims (demo_set_env ''+'') demo_spec (replicate 28 3) (Some (demo_set_doc ''+''))
    = Some (node_children (demo_set_doc ''+''))"
  by code_simp

lemma demo_set_ordered:
  "in_order (claims_events demo_set_claims)" "list_all event_ok (claims_events demo_set_claims)"
  "length (claims_events demo_set_claims) = 2"
  by code_simp+

lemma demo_set_insert: "fst (ai_insert_claim_set attr_table_ops empty_attr_db (replicate 28 3) 1000) = Sql_done"
  by code_simp

section \<open>Properties\<close>

text \<open>
  C10: indexing a claim set extends the history. When \<^verbatim>\<open>evr_merge_attr_index_claim_set\<close> returns \<^verbatim>\<open>evr_ok\<close> for a new
  claim set on an index that is the history \<open>es\<close>, then either a factory failed, and the claim set is marked as
  failed at \<open>t\<close> and nothing else changed, or the index is the history extended by the operations of all attr claims of the
  transformed document, in their order, at the time of the claim set, every seed that is named by an archive
  claim is archived from the earlier of its former time and the time of the claim set on, no other seed is, and the claim set
  is marked as indexed. The operations must be later than those of the history on the same seed and key and not
  two of them on the same seed and key, additions have a value and removals none, and history and operations are less than
  \<open>2 ^ 31\<close> together: without this the claims overlap, or a removal keeps its value.
\<close>

theorem claim_set_extends_history:
  assumes lib: "sqlite_attr S tabs" and len: "length ref = evr_blob_ref_size" and inv: "db_inv (tabs d) es"
    and run: "evr_merge_attr_index_claim_set spare S env spec t ref doc False d vs = (Ret Evr_ok, d', vs')"
    and new: "t_claim_set (tabs d) ref = None"
    and root: "evr_get_root_claim_set doc = Some root" "evr_parse_created spare root = Ret (Some created)"
    and ord: "\<forall>ns. transformed_claims env spec ref doc = Some ns \<longrightarrow>
      (let fs = claims_events (attr_claims_of (ce_malloc env) created ref [] ns) in
       in_order (es @ fs) \<and> (\<forall>e\<in>set fs. event_ok e) \<and> int (length (es @ fs)) < 2 ^ 31)"
  shows "(case transformed_claims env spec ref doc of
       None \<Rightarrow> db_inv (tabs d') es \<and> t_claim_archive (tabs d') = t_claim_archive (tabs d) \<and>
         t_claim_set (tabs d') = (t_claim_set (tabs d))(ref \<mapsto> \<lparr>cs_created = created, cs_fail_counter = 1, cs_last_fail = Some t\<rparr>)
     | Some ns \<Rightarrow> db_inv (tabs d') (es @ claims_events (attr_claims_of (ce_malloc env) created ref [] ns)) \<and>
         t_claim_archive (tabs d') = (\<lambda>s. if s \<in> set (archive_seeds_of (ce_malloc env) 0 ns)
           then Some (earlier created (t_claim_archive (tabs d) s)) else t_claim_archive (tabs d) s) \<and>
         t_claim_set (tabs d') = (t_claim_set (tabs d))(ref \<mapsto> \<lparr>cs_created = created, cs_fail_counter = 0, cs_last_fail = None\<rparr>))"
proof -
  have tk: "take evr_blob_ref_size ref = ref" using len by simp
  obtain r d1 where ins: "ai_insert_claim_set S d ref created = (r, d1)" by fastforce
  have "r \<noteq> Sql_constraint" using sqlite_attr.insert_claim_set_constraint [OF lib] ins new by blast
  then have r: "r = Sql_done" and idx: "index_document S env spec t created ref False doc d1 vs = (Ret Evr_ok, d', vs')"
    using run root ins tk by (auto simp: evr_merge_attr_index_claim_set_def split: sql_res.splits)
  have T1: "tabs d1 = (tabs d)\<lparr>t_claim_set := (t_claim_set (tabs d))
      (ref \<mapsto> \<lparr>cs_created = created, cs_fail_counter = 0, cs_last_fail = None\<rparr>)\<rparr>"
    using sqlite_attr.insert_claim_set_done [OF lib] ins r by blast
  note eff = sqlite_attr.index_document_ok [OF lib idx]
  show ?thesis
  proof (cases "transformed_claims env spec ref doc")
    case None
    then have "tabs d' = (tabs d)\<lparr>t_claim_set := (t_claim_set (tabs d))
        (ref \<mapsto> \<lparr>cs_created = created, cs_fail_counter = 1, cs_last_fail = Some t\<rparr>)\<rparr>"
      using eff by (simp add: tk T1)
    then show ?thesis using root None inv db_inv_cong [of "tabs d'" "tabs d"] by simp
  next
    case (Some ns)
    let ?cs = "attr_claims_of (ce_malloc env) created ref [] ns"
    obtain d2 where d2: "merge_claims S ?cs d1 = (Ret Evr_ok, d2)" "keeps_rest (tabs d1) (tabs d2)"
      "tabs d' = (tabs d2)\<lparr>t_claim_archive := \<lambda>s. if s \<in> set (archive_seeds_of (ce_malloc env) 0 ns)
          then Some (earlier created (t_claim_archive (tabs d2) s)) else t_claim_archive (tabs d2) s\<rparr>"
      using eff Some by auto
    have o: "in_order (es @ claims_events ?cs)" "\<forall>e\<in>set (claims_events ?cs). event_ok e"
      "int (length (es @ claims_events ?cs)) < 2 ^ 31"
      using ord Some by (simp_all add: Let_def)
    have "db_inv (tabs d1) es" using inv db_inv_cong [of "tabs d1" "tabs d"] T1 by simp
    then have "db_inv (tabs d2) (es @ claims_events ?cs)"
      by (rule sqlite_attr.merge_claims_history [OF lib d2(1) _ o])
    then have "db_inv (tabs d') (es @ claims_events ?cs)" using db_inv_cong [of "tabs d'" "tabs d2"] d2(3) by simp
    then show ?thesis using Some d2(2,3) T1 by (simp add: keeps_rest_def cong: if_cong)
  qed
qed

theorem claim_set_extends_history_witness:
  "\<exists>d'. demo_set_run ''+'' = (Ret Evr_ok, d', snd (snd (demo_set_run ''+''))) \<and>
    db_inv (table_tabs d') (claims_events demo_set_claims) \<and>
    t_claim_set (table_tabs d') (replicate 28 3) = Some \<lparr>cs_created = 1000, cs_fail_counter = 0, cs_last_fail = None\<rparr>"
proof -
  obtain d' vs' where run: "evr_merge_attr_index_claim_set True attr_table_ops (demo_set_env ''+'') demo_spec 5 (replicate 28 3)
      (Some (demo_set_doc ''+'')) False empty_attr_db None = (Ret Evr_ok, d', vs')"
    using demo_set_run(1) unfolding demo_set_run_def by (metis prod.collapse)
  have m: "ce_malloc (demo_set_env ''+'') = (\<lambda>_. True)" by (simp add: demo_set_env_def)
  have inv: "db_inv (table_tabs empty_attr_db) []" 
    by (simp add: db_inv_def row_bound_def hist_inv_empty empty_attr_db_def attr_at_def fun_eq_iff dom_def)
  have new: "t_claim_set (table_tabs empty_attr_db) (replicate 28 3) = None" by (simp add: empty_attr_db_def)
  from claim_set_extends_history [OF atbl.sqlite_attr_axioms _ inv run new demo_set_root(1,3)]
  show ?thesis
    using demo_set_ordered
    by (simp add: demo_set_transformed m evr_layout demo_set_claims_def [symmetric] Let_def list_all_iff)
      (simp add: demo_set_run_def run)
qed

text \<open>
  C20: a claim set that fails is lost. The row of the claim set is written before its claims are merged and is not removed when
  the merge fails: afterwards the claim set counts as indexed without failure, whatever part of its claims was
  merged. Merging it again, at any time, changes no table and returns \<^verbatim>\<open>evr_ok\<close> unless the statement
  itself fails, and it is never among the claim sets to be indexed again.
\<close>

theorem failed_claim_set_is_lost:
  assumes lib: "sqlite_attr S tabs" and len: "length ref = evr_blob_ref_size"
    and root: "evr_get_root_claim_set doc = Some root" "evr_parse_created spare root = Ret (Some created)"
    and ins: "ai_insert_claim_set S d ref created = (Sql_done, d1)"
    and run: "evr_merge_attr_index_claim_set spare S env spec t ref doc False d vs = (Ret r, d', vs')" and r: "r \<noteq> Evr_ok"
  shows "t_claim_set (tabs d') ref = Some \<lparr>cs_created = created, cs_fail_counter = 0, cs_last_fail = None\<rparr> \<and>
    (\<forall>env' spec' t' ws res d2 ws'. evr_merge_attr_index_claim_set spare S env' spec' t' ref doc False d' ws = (res, d2, ws') \<longrightarrow>
      tabs d2 = tabs d' \<and> ws' = ws \<and> (fst (ai_insert_claim_set S d' ref created) = Sql_constraint \<longrightarrow> res = Ret Evr_ok)) \<and>
    (\<forall>t' rs ended. ai_find_reindexable_claim_sets S d' t' = Some (rs, ended) \<longrightarrow> ref \<notin> set rs)"
proof (intro conjI allI impI)
  have tk: "take evr_blob_ref_size ref = ref" using len by simp
  have "index_document S env spec t created ref False doc d1 vs = (Ret r, d', vs')"
    using run root ins tk by (simp add: evr_merge_attr_index_claim_set_def)
  then have "t_claim_set (tabs d') = t_claim_set (tabs d1)" using r by (rule sqlite_attr.index_document_fail [OF lib])
  then show row: "t_claim_set (tabs d') ref = Some \<lparr>cs_created = created, cs_fail_counter = 0, cs_last_fail = None\<rparr>"
    using sqlite_attr.insert_claim_set_done [OF lib ins] by simp
  show "ref \<notin> set rs" if "ai_find_reindexable_claim_sets S d' t' = Some (rs, ended)" for t' rs ended
    using sqlite_attr.reindexable_rows [OF lib, of d' t' rs ended] row that by force
  fix env' spec' t' ws res d2 ws'
  assume again: "evr_merge_attr_index_claim_set spare S env' spec' t' ref doc False d' ws = (res, d2, ws')"
  obtain x d3 where x: "ai_insert_claim_set S d' ref created = (x, d3)" by fastforce
  have nd: "x \<noteq> Sql_done" using sqlite_attr.insert_claim_set_done [OF lib, of d' ref created d3] x row by auto
  then have "tabs d3 = tabs d'" by (rule sqlite_attr.insert_claim_set_keeps [OF lib x])
  then have "tabs d2 = tabs d' \<and> ws' = ws \<and> (x = Sql_constraint \<longrightarrow> res = Ret Evr_ok)"
    using again root x tk nd by (auto simp: evr_merge_attr_index_claim_set_def split: sql_res.splits)
  then show "tabs d2 = tabs d'" "ws' = ws" "fst (ai_insert_claim_set S d' ref created) = Sql_constraint \<Longrightarrow> res = Ret Evr_ok"
    using x by simp_all
qed

theorem failed_claim_set_is_lost_witness:
  "\<exists>d'. demo_set_run ''?'' = (Ret Evr_error, d', snd (snd (demo_set_run ''?''))) \<and>
    t_claim_set (table_tabs d') (replicate 28 3) = Some \<lparr>cs_created = 1000, cs_fail_counter = 0, cs_last_fail = None\<rparr>"
proof -
  obtain d' vs' where run: "evr_merge_attr_index_claim_set True attr_table_ops (demo_set_env ''?'') demo_spec 5 (replicate 28 3)
      (Some (demo_set_doc ''?'')) False empty_attr_db None = (Ret Evr_error, d', vs')"
    using demo_set_run(2) unfolding demo_set_run_def by (metis prod.collapse)
  obtain d1 where ins: "ai_insert_claim_set attr_table_ops empty_attr_db (replicate 28 3) 1000 = (Sql_done, d1)"
    using demo_set_insert by (metis prod.collapse)
  have "length (replicate 28 3 :: bytes) = evr_blob_ref_size" by (simp add: evr_layout)
  from failed_claim_set_is_lost [OF atbl.sqlite_attr_axioms this demo_set_root(2,4) ins run] show ?thesis
    by (simp add: demo_set_run_def run)
qed

end
