(* ===== verification/Attr_Query.thy ===== *)
theory Attr_Query
  imports Attr_Correct Dyn_Mem
begin

text \<open>
  Queries over the attribute index: the conditions of \<^verbatim>\<open>src/attr-query-sql.c\<close>, and the text of SQL that
  \<^verbatim>\<open>src/attr-index-db.c\<close> builds of them, binds and runs. The parser of queries is generated by bison and flex, it is a
  parameter; so are the rows that SQLite gives for a text and its bound values.
\<close>

section \<open>Conditions\<close>

text \<open>The function pointers of \<^verbatim>\<open>evr_attr_query_node\<close> tell which condition a node is.\<close>

datatype evr_attr_query_node =
    Ref_cnd evr_claim_ref
  | Eq_cnd string string
  | Contains_cnd string string
  | Bool_and evr_attr_query_node evr_attr_query_node
  | Bool_or evr_attr_query_node evr_attr_query_node

definition evr_attr_query_ref_cnd :: "bool \<Rightarrow> string \<Rightarrow> evr_attr_query_node option" where
  "evr_attr_query_ref_cnd malloc ref_str =
    (if \<not> malloc then None
     else case evr_parse_claim_ref (replicate evr_claim_ref_size 0) ref_str of (r, ref) \<Rightarrow>
       if r \<noteq> Evr_ok then None else Some (Ref_cnd ref))"

definition evr_attr_query_eq_cnd :: "bool \<Rightarrow> string \<Rightarrow> string \<Rightarrow> evr_attr_query_node option" where
  "evr_attr_query_eq_cnd malloc key val = (if malloc then Some (Eq_cnd key val) else None)"

definition evr_attr_query_contains_cnd :: "bool \<Rightarrow> string \<Rightarrow> string \<Rightarrow> evr_attr_query_node option" where
  "evr_attr_query_contains_cnd malloc key needle = (if malloc then Some (Contains_cnd key needle) else None)"

definition evr_attr_query_bool ::
  "(evr_attr_query_node \<Rightarrow> evr_attr_query_node \<Rightarrow> evr_attr_query_node) \<Rightarrow> bool \<Rightarrow> evr_attr_query_node \<Rightarrow> evr_attr_query_node
   \<Rightarrow> evr_attr_query_node option" where
  "evr_attr_query_bool op malloc l r = (if malloc then Some (op l r) else None)"

definition evr_attr_query_bool_and :: "bool \<Rightarrow> evr_attr_query_node \<Rightarrow> evr_attr_query_node \<Rightarrow> evr_attr_query_node option" where
  "evr_attr_query_bool_and = evr_attr_query_bool Bool_and"

definition evr_attr_query_bool_or :: "bool \<Rightarrow> evr_attr_query_node \<Rightarrow> evr_attr_query_node \<Rightarrow> evr_attr_query_node option" where
  "evr_attr_query_bool_or = evr_attr_query_bool Bool_or"

definition evr_attr_selector_none :: c_int where "evr_attr_selector_none = 1"
definition evr_attr_selector_all :: c_int where "evr_attr_selector_all = 2"

record evr_attr_query =
  aq_selector :: "c_int option"
  aq_root :: "evr_attr_query_node option"
  aq_effective_time :: evr_time
  aq_limit :: c_int
  aq_offset :: c_int

definition evr_build_attr_selector :: "bool \<Rightarrow> c_int \<Rightarrow> c_int option" where
  "evr_build_attr_selector malloc t = (if malloc then Some t else None)"

definition evr_build_attr_query ::
  "bool \<Rightarrow> c_int option \<Rightarrow> evr_attr_query_node option \<Rightarrow> evr_time \<Rightarrow> c_int \<Rightarrow> c_int \<Rightarrow> evr_attr_query option" where
  "evr_build_attr_query malloc selector root effective_time limit offset =
    (if malloc
     then Some \<lparr>aq_selector = selector, aq_root = root, aq_effective_time = effective_time, aq_limit = limit, aq_offset = offset\<rparr>
     else None)"

definition evr_parse_attr_query_int :: "string \<Rightarrow> c_int option exec" where
  "evr_parse_attr_query_int s = (case sscanf_d s of
      None \<Rightarrow> Ret None
    | Some n \<Rightarrow> if fits_int n then Ret (Some (word_of_int n)) else Undef)"

section \<open>The text of a query\<close>

text \<open>\<open>realloc n\<close> tells whether an array that holds \<open>n\<close> bytes can grow; \<open>None\<close> is a null pointer.\<close>

definition text_bytes :: "string \<Rightarrow> bytes" where
  "text_bytes s = map (\<lambda>c. word_of_nat (of_char c)) s"

definition evr_attr_build_sql_append :: "(nat \<Rightarrow> bool) \<Rightarrow> string \<Rightarrow> dynamic_array \<Rightarrow> dynamic_array option" where
  "evr_attr_build_sql_append realloc cnd da = write_n_dynamic_array (realloc (da_size_used da)) da (text_bytes cnd)"

definition ref_cnd_text :: string where
  "ref_cnd_text = ''c.seed = ?''"

definition eq_cnd_text :: string where
  "eq_cnd_text = ''c.seed in (select seed from attr where key = ? and val_str = ? and valid_from <= ? and (valid_until > ? or valid_until is null) and val_str not null)''"

definition contains_cnd_text :: string where
  "contains_cnd_text = ''c.seed in (select seed from attr where key = ? and glob(lower(\"*\" || ? || \"*\"), lower(val_str)) and valid_from <= ? and (valid_until > ? or valid_until is null) and val_str not null)''"

definition evr_append_bool ::
  "(nat \<Rightarrow> bool) \<Rightarrow> (dynamic_array \<Rightarrow> dynamic_array option) \<Rightarrow> (dynamic_array \<Rightarrow> dynamic_array option) \<Rightarrow> string
   \<Rightarrow> dynamic_array \<Rightarrow> dynamic_array option" where
  "evr_append_bool realloc append_l append_r join_str da =
    do { da1 \<leftarrow> evr_attr_build_sql_append realloc ''('' da;
         da2 \<leftarrow> append_l da1;
         da3 \<leftarrow> evr_attr_build_sql_append realloc join_str da2;
         da4 \<leftarrow> append_r da3;
         evr_attr_build_sql_append realloc '')'' da4 }"

primrec append_cnd :: "(nat \<Rightarrow> bool) \<Rightarrow> evr_attr_query_node \<Rightarrow> dynamic_array \<Rightarrow> dynamic_array option" where
  "append_cnd realloc (Ref_cnd ref) = evr_attr_build_sql_append realloc ref_cnd_text"
| "append_cnd realloc (Eq_cnd key val) = evr_attr_build_sql_append realloc eq_cnd_text"
| "append_cnd realloc (Contains_cnd key needle) = evr_attr_build_sql_append realloc contains_cnd_text"
| "append_cnd realloc (Bool_and l r) = evr_append_bool realloc (append_cnd realloc l) (append_cnd realloc r) '') and (''"
| "append_cnd realloc (Bool_or l r) = evr_append_bool realloc (append_cnd realloc l) (append_cnd realloc r) '') or (''"

definition sql_prefix :: string where
  "sql_prefix = ''select distinct seed from claim c inner join claim_set cs where cs.ref = substr(c.ref, 0, (224 / 8) + 1) and cs.created <= ? and c.seed not in (select ca.seed from claim_archive ca where ca.seed = c.seed and ca.valid_until <= ?)''"

definition sql_suffix :: string where
  "sql_suffix = '' order by cs.created desc limit ? offset ?''"

definition evr_attr_build_sql_query ::
  "nat \<Rightarrow> bool \<Rightarrow> (nat \<Rightarrow> bool) \<Rightarrow> evr_attr_query_node option \<Rightarrow> dynamic_array option" where
  "evr_attr_build_sql_query evr_page_size malloc realloc root =
    do { da0 \<leftarrow> alloc_dynamic_array evr_page_size malloc 4096;
         da1 \<leftarrow> evr_attr_build_sql_append realloc sql_prefix da0;
         da2 \<leftarrow> (case root of
             None \<Rightarrow> Some da1
           | Some n \<Rightarrow> do { da \<leftarrow> evr_attr_build_sql_append realloc '' and '' da1; append_cnd realloc n da });
         write_n_dynamic_array (realloc (da_size_used da2)) da2 (text_bytes sql_suffix @ [0]) }"

section \<open>Binding values\<close>

text \<open>
  The values are bound to the columns 1, 2 and so on; \<open>ok\<close> tells for the number of values that were bound before whether
  binding the next one succeeds.
\<close>

datatype sql_value = Sql_blob bytes | Sql_text string | Sql_int int

definition bind_value :: "(nat \<Rightarrow> bool) \<Rightarrow> sql_value \<Rightarrow> sql_value list \<Rightarrow> sql_value list option" where
  "bind_value ok v vs = (if ok (length vs) then Some (vs @ [v]) else None)"

definition evr_bind_ref_cnd :: "(nat \<Rightarrow> bool) \<Rightarrow> evr_claim_ref \<Rightarrow> sql_value list \<Rightarrow> sql_value list option" where
  "evr_bind_ref_cnd ok ref vs = bind_value ok (Sql_blob (take evr_claim_ref_size ref)) vs"

definition evr_bind_eq_cnd :: "(nat \<Rightarrow> bool) \<Rightarrow> evr_time \<Rightarrow> string \<Rightarrow> string \<Rightarrow> sql_value list \<Rightarrow> sql_value list option" where
  "evr_bind_eq_cnd ok t key val vs =
    do { vs1 \<leftarrow> bind_value ok (Sql_text key) vs;
         vs2 \<leftarrow> bind_value ok (Sql_text val) vs1;
         vs3 \<leftarrow> bind_value ok (Sql_int (sint t)) vs2;
         bind_value ok (Sql_int (sint t)) vs3 }"

definition evr_bind_contains_cnd :: "(nat \<Rightarrow> bool) \<Rightarrow> evr_time \<Rightarrow> string \<Rightarrow> string \<Rightarrow> sql_value list \<Rightarrow> sql_value list option" where
  "evr_bind_contains_cnd ok t key needle vs =
    do { vs1 \<leftarrow> bind_value ok (Sql_text key) vs;
         vs2 \<leftarrow> bind_value ok (Sql_text needle) vs1;
         vs3 \<leftarrow> bind_value ok (Sql_int (sint t)) vs2;
         bind_value ok (Sql_int (sint t)) vs3 }"

primrec bind_cnd :: "(nat \<Rightarrow> bool) \<Rightarrow> evr_time \<Rightarrow> evr_attr_query_node \<Rightarrow> sql_value list \<Rightarrow> sql_value list option" where
  "bind_cnd ok t (Ref_cnd ref) vs = evr_bind_ref_cnd ok ref vs"
| "bind_cnd ok t (Eq_cnd key val) vs = evr_bind_eq_cnd ok t key val vs"
| "bind_cnd ok t (Contains_cnd key needle) vs = evr_bind_contains_cnd ok t key needle vs"
| "bind_cnd ok t (Bool_and l r) vs = Option.bind (bind_cnd ok t l vs) (bind_cnd ok t r)"
| "bind_cnd ok t (Bool_or l r) vs = Option.bind (bind_cnd ok t l vs) (bind_cnd ok t r)"

definition bind_query :: "(nat \<Rightarrow> bool) \<Rightarrow> evr_attr_query \<Rightarrow> sql_value list option" where
  "bind_query ok q =
    do { vs1 \<leftarrow> bind_value ok (Sql_int (sint (aq_effective_time q))) [];
         vs2 \<leftarrow> bind_value ok (Sql_int (sint (aq_effective_time q))) vs1;
         vs3 \<leftarrow> (case aq_root q of None \<Rightarrow> Some vs2 | Some n \<Rightarrow> bind_cnd ok (aq_effective_time q) n vs2);
         vs4 \<leftarrow> bind_value ok (Sql_int (sint (aq_limit q))) vs3;
         bind_value ok (Sql_int (sint (aq_offset q))) vs4 }"

section \<open>Running a query\<close>

text \<open>
  The attributes of a seed are collected in two buffers, one of 2000 pairs of pointers and one of 128000 bytes for
  the texts with their ends. \<open>None\<close>: the buffers were not allocated yet.
\<close>

definition evr_collect_selected_attrs_attrs_len :: nat where "evr_collect_selected_attrs_attrs_len = 2000"
definition evr_collect_selected_attrs_data_size :: nat where "evr_collect_selected_attrs_data_size = 2000 * 2 * 32"

definition data_used :: "(string \<times> string) list \<Rightarrow> nat" where
  "data_used kvs = sum_list (map (\<lambda>(k, v). length k + 1 + (length v + 1)) kvs)"

definition evr_collect_selected_attrs_visitor ::
  "bool \<Rightarrow> bool \<times> (string \<times> string) list \<Rightarrow> string \<Rightarrow> string \<Rightarrow> evr_code \<times> bool \<times> (string \<times> string) list" where
  "evr_collect_selected_attrs_visitor malloc c key val =
    (case c of (allocated, kvs) \<Rightarrow>
       if \<not> allocated \<and> \<not> malloc then (Evr_error, allocated, kvs)
       else if length kvs + 1 > evr_collect_selected_attrs_attrs_len then (Evr_error, True, kvs)
       else if data_used kvs + (length key + 1) + (length val + 1) > evr_collect_selected_attrs_data_size then (Evr_error, True, kvs)
       else (Evr_ok, True, kvs @ [(key, val)]))"

text \<open>
  The results of the calls: \<open>qe_fork\<close> and \<open>qe_fork_prepare\<close> tell whether the second connection is opened and
  prepared, and \<open>qe_close\<close> whether it is closed. \<open>qe_rows\<close> are the rows SQLite gives for a text and values, and whether they ended without a failure.
\<close>

record 'd query_env =
  qe_parse :: "string \<Rightarrow> evr_attr_query option \<times> string option"
  qe_page_size :: nat
  qe_malloc :: bool
  qe_realloc :: "nat \<Rightarrow> bool"
  qe_prepare :: bool
  qe_bind :: "nat \<Rightarrow> bool"
  qe_rows :: "'d \<Rightarrow> string \<Rightarrow> sql_value list \<Rightarrow> bytes list \<times> bool"
  qe_fork :: bool
  qe_fork_prepare :: bool
  qe_attrs_malloc :: bool
  qe_close :: bool

text \<open>\<open>forked\<close> tells whether the second connection is there, \<open>allocated\<close> whether the buffers are.\<close>

definition evr_collect_selected_attrs ::
  "'d attr_stmts \<Rightarrow> 'd query_env \<Rightarrow> 'd \<Rightarrow> c_int option \<Rightarrow> evr_time \<Rightarrow> evr_claim_ref \<Rightarrow> bool \<Rightarrow> bool
   \<Rightarrow> evr_code exec \<times> bool \<times> bool \<times> (string \<times> string) list" where
  "evr_collect_selected_attrs S env d selector t seed forked allocated =
    (case selector of
       None \<Rightarrow> (Ret Evr_ok, forked, allocated, [])
     | Some ty \<Rightarrow>
        if ty = evr_attr_selector_none then (Ret Evr_ok, forked, allocated, [])
        else if ty = evr_attr_selector_all
        then (if \<not> forked \<and> \<not> qe_fork env then (Ret Evr_error, forked, allocated, [])
              else if \<not> forked \<and> \<not> qe_fork_prepare env then (Ret Evr_error, True, allocated, [])
              else case evr_get_seed_attrs S (evr_collect_selected_attrs_visitor (qe_attrs_malloc env)) d t seed (allocated, []) of
                  (res, allocated1, kvs) \<Rightarrow> (res, True, allocated1, kvs))
        else (Ret Evr_error, forked, allocated, []))"

primrec query_rows_loop ::
  "'d attr_stmts \<Rightarrow> 'd query_env \<Rightarrow> ('c \<Rightarrow> evr_claim_ref \<Rightarrow> (string \<times> string) list \<Rightarrow> evr_code \<times> 'c) \<Rightarrow> evr_attr_query \<Rightarrow> 'd \<Rightarrow> bool
   \<Rightarrow> bytes list \<Rightarrow> bool \<Rightarrow> bool \<Rightarrow> 'c \<Rightarrow> evr_code exec \<times> bool \<times> 'c" where
  "query_rows_loop S env visit q d ended [] forked allocated c = (if ended then Ret Evr_ok else Panic, forked, c)"
| "query_rows_loop S env visit q d ended (seed # seeds) forked allocated c =
    (if length seed \<noteq> evr_claim_ref_size then (Ret Evr_error, forked, c)
     else case evr_collect_selected_attrs S env d (aq_selector q) (aq_effective_time q) seed forked allocated of
         (res, forked1, allocated1, kvs) \<Rightarrow>
       if res \<noteq> Ret Evr_ok then (case res of Ret _ \<Rightarrow> Ret Evr_error | _ \<Rightarrow> res, forked1, c)
       else case visit c seed kvs of (r, c1) \<Rightarrow>
         if r \<noteq> Evr_ok then (Ret Evr_error, forked1, c1)
         else query_rows_loop S env visit q d ended seeds forked1 allocated1 c1)"

text \<open>The text that SQLite reads ends at the first zero.\<close>

definition c_text :: "bytes \<Rightarrow> string" where
  "c_text bs = map (\<lambda>b. char_of (unat b)) (takeWhile (\<lambda>b. b \<noteq> 0) bs)"

definition run_query ::
  "'d attr_stmts \<Rightarrow> 'd query_env \<Rightarrow> ('c \<Rightarrow> evr_claim_ref \<Rightarrow> (string \<times> string) list \<Rightarrow> evr_code \<times> 'c) \<Rightarrow> evr_attr_query \<Rightarrow> 'd \<Rightarrow> 'c
   \<Rightarrow> evr_code exec \<times> 'c" where
  "run_query S env visit q d c =
    (case evr_attr_build_sql_query (qe_page_size env) (qe_malloc env) (qe_realloc env) (aq_root q) of
       None \<Rightarrow> (Ret Evr_error, c)
     | Some sql \<Rightarrow>
        if \<not> qe_prepare env then (Ret Evr_error, c)
        else case bind_query (qe_bind env) q of
            None \<Rightarrow> (Ret Evr_error, c)
          | Some vs \<Rightarrow>
             (case qe_rows env d (c_text (da_data sql)) vs of (seeds, ended) \<Rightarrow>
                case query_rows_loop S env visit q d ended seeds False False c of (res, forked, c1) \<Rightarrow>
                  (if forked \<and> \<not> qe_close env then Panic else res, c1)))"

definition evr_attr_query_claims ::
  "'d attr_stmts \<Rightarrow> 'd query_env \<Rightarrow> ('c \<Rightarrow> evr_code \<Rightarrow> string option \<Rightarrow> evr_code \<times> 'c) \<Rightarrow>
   ('c \<Rightarrow> evr_claim_ref \<Rightarrow> (string \<times> string) list \<Rightarrow> evr_code \<times> 'c) \<Rightarrow> string \<Rightarrow> 'd \<Rightarrow> 'c \<Rightarrow> evr_code exec \<times> 'c" where
  "evr_attr_query_claims S env status visit query_str d c =
    (case qe_parse env query_str of (query, query_error) \<Rightarrow>
       case query of
         None \<Rightarrow> (case status c Evr_error query_error of (r, c1) \<Rightarrow> (Ret (if r \<noteq> Evr_ok then Evr_error else Evr_ok), c1))
       | Some q \<Rightarrow>
          (case status c Evr_ok None of (r, c1) \<Rightarrow>
             if r \<noteq> Evr_ok then (Ret Evr_error, c1) else run_query S env visit q d c1))"

end
