(* ===== verification/Index_Server.thy ===== *)
theory Index_Server
  imports Attr_Query Auth Files Iso_Time
begin

text \<open>
  \<^verbatim>\<open>src/evr-attr-index.c\<close>: what a connection of the index server does. It reads lines, each a command and its
  arguments, and answers with lines. The socket is a file of which only the calls \<open>rd\<close> and \<open>wr\<close> are known; the index
  databases, the handover with the current index and the queue of a watcher are part of the environment.
\<close>

section \<open>Environment\<close>

text \<open>
  One round of a watching connection: whether the peer asked for the end, the messages the queue gives, how taking from it
  ended, and whether the peer hung up. The rounds end when the server stops.
\<close>

record evr_modified_seed =
  ms_change_time :: evr_time
  ms_index_ref :: evr_blob_ref
  ms_seed :: evr_claim_ref

record watch_round =
  wr_shutdown :: bool
  wr_msgs :: "evr_modified_seed list"
  wr_take :: evr_code
  wr_hang_up :: evr_code

text \<open>
  \<open>ix_wait\<close> is the result of waiting for the current index, \<open>ix_ref\<close> its reference, \<open>ix_help\<close> the text of the help, which begins
  with the name and version of the package.
\<close>

record 'd index_env =
  ix_token :: evr_auth_token
  ix_help :: string
  ix_wait :: evr_code
  ix_ref :: evr_blob_ref
  ix_unlock :: bool
  ix_open :: "string \<Rightarrow> 'd option"
  ix_prepare :: bool
  ix_free :: bool
  ix_query :: "'d query_env"
  ix_register :: bool
  ix_rounds :: "watch_round list"
  ix_unregister :: bool

record 's index_connection =
  ic_socket :: 's
  ic_authenticated :: bool

section \<open>Responses\<close>

definition send_text :: "'s writer \<Rightarrow> string \<Rightarrow> 's index_connection \<Rightarrow> evr_code \<times> 's index_connection" where
  "send_text wr s ctx = (case write_n wr (ic_socket ctx) (text_bytes s) of (r, f) \<Rightarrow> (r, ctx\<lparr>ic_socket := f\<rparr>))"

definition status_text :: "bool \<Rightarrow> string option \<Rightarrow> string" where
  "status_text ok msg = (if ok then ''OK'' else ''ERROR'') @ (case msg of None \<Rightarrow> [] | Some m \<Rightarrow> '' '' @ m) @ [CHR 0x0A]"

definition evr_respond_status :: "'s writer \<Rightarrow> bool \<Rightarrow> string option \<Rightarrow> 's index_connection \<Rightarrow> evr_code \<times> 's index_connection" where
  "evr_respond_status wr ok msg ctx = send_text wr (status_text ok msg) ctx"

definition evr_respond_message_end :: "'s writer \<Rightarrow> 's index_connection \<Rightarrow> evr_code \<times> 's index_connection" where
  "evr_respond_message_end wr ctx = send_text wr [CHR 0x0A] ctx"

definition evr_respond_help :: "'s writer \<Rightarrow> string \<Rightarrow> 's index_connection \<Rightarrow> evr_code \<times> 's index_connection" where
  "evr_respond_help wr help ctx =
    (case evr_respond_status wr True None ctx of (r, ctx1) \<Rightarrow>
       if r \<noteq> Evr_ok then (Evr_error, ctx1)
       else case send_text wr (help @ [CHR 0x00]) ctx1 of (r, ctx2) \<Rightarrow>
         if r \<noteq> Evr_ok then (Evr_error, ctx2)
         else case evr_respond_message_end wr ctx2 of (r, ctx3) \<Rightarrow> (if r \<noteq> Evr_ok then Evr_error else Evr_ok, ctx3))"

definition evr_get_current_index_ref :: "'d index_env \<Rightarrow> (evr_code \<times> evr_blob_ref) exec" where
  "evr_get_current_index_ref e =
    (if ix_wait e = Evr_end then Ret (Evr_end, [])
     else if ix_wait e \<noteq> Evr_ok then Ret (Evr_error, [])
     else if \<not> ix_unlock e then Panic
     else Ret (Evr_ok, take evr_blob_ref_size (ix_ref e)))"

section \<open>Commands\<close>

text \<open>\<open>None\<close> is the null pointer of a command without arguments, which \<^verbatim>\<open>evr_split_n\<close> reads.\<close>

definition evr_work_authenticate_cmd ::
  "evr_auth_token \<Rightarrow> string option \<Rightarrow> 's index_connection \<Rightarrow> evr_code exec \<times> 's index_connection" where
  "evr_work_authenticate_cmd cfg_token args_str ctx = (case args_str of
      None \<Rightarrow> (Undef, ctx)
    | Some s \<Rightarrow>
       (case evr_split_n 2 s CHR '' '' of (r, b, fragments) \<Rightarrow>
          if r \<noteq> Evr_ok then (Ret Evr_error, ctx)
          else if c_str_at b (fragments ! 0) \<noteq> ''token'' then (Ret Evr_error, ctx)
          else case evr_parse_auth_token (replicate evr_auth_token_size 0) (c_str_at b (fragments ! 1)) of (r, client_token) \<Rightarrow>
            if r \<noteq> Evr_ok then (Ret Evr_error, ctx)
            else if take evr_auth_token_size cfg_token \<noteq> client_token then (Ret Evr_error, ctx)
            else (Ret Evr_ok, ctx\<lparr>ic_authenticated := True\<rparr>)))"

definition attr_line :: "string \<times> string \<Rightarrow> string" where
  "attr_line kv = [CHR 0x09] @ fst kv @ ''='' @ snd kv @ [CHR 0x0A]"

definition result_text :: "evr_claim_ref \<Rightarrow> (string \<times> string) list \<Rightarrow> string" where
  "result_text ref attrs = evr_fmt_claim_ref ref @ [CHR 0x0A] @ concat (map attr_line attrs)"

definition evr_respond_search_result ::
  "'s writer \<Rightarrow> 's index_connection \<Rightarrow> evr_claim_ref \<Rightarrow> (string \<times> string) list \<Rightarrow> evr_code \<times> 's index_connection" where
  "evr_respond_search_result wr ctx ref attrs =
    (case send_text wr (result_text ref attrs) ctx of (r, ctx1) \<Rightarrow> (if r \<noteq> Evr_ok then Evr_error else Evr_ok, ctx1))"

definition evr_respond_search_status ::
  "'s writer \<Rightarrow> 's index_connection \<Rightarrow> evr_code \<Rightarrow> string option \<Rightarrow> evr_code \<times> 's index_connection" where
  "evr_respond_search_status wr ctx parse_res parse_error =
    (if parse_res \<noteq> Evr_ok then evr_respond_status wr False parse_error ctx else evr_respond_status wr True None ctx)"

text \<open>What follows the use of a database; \<open>free\<close> tells whether it is closed.\<close>

definition free_index_db :: "bool \<Rightarrow> evr_code exec \<times> 's index_connection \<Rightarrow> evr_code exec \<times> 's index_connection" where
  "free_index_db free x = (case x of (r, ctx) \<Rightarrow> (case r of Ret c \<Rightarrow> Ret (if free then c else Evr_error) | _ \<Rightarrow> r, ctx))"

definition evr_work_search_cmd ::
  "'d attr_stmts \<Rightarrow> 's writer \<Rightarrow> 'd index_env \<Rightarrow> string option \<Rightarrow> 's index_connection \<Rightarrow> evr_code exec \<times> 's index_connection" where
  "evr_work_search_cmd S wr e query ctx =
    (case evr_get_current_index_ref e of
       Ret (r, ref) \<Rightarrow>
         if r = Evr_end then (Ret Evr_end, ctx)
         else if r \<noteq> Evr_ok then (Ret Evr_error, ctx)
         else (case ix_open e (evr_fmt_blob_ref ref) of
             None \<Rightarrow> (Ret Evr_error, ctx)
           | Some d \<Rightarrow>
              free_index_db (ix_free e)
                (case evr_attr_query_claims S (ix_query e) (evr_respond_search_status wr) (evr_respond_search_result wr)
                    (case query of None \<Rightarrow> [] | Some q \<Rightarrow> q) d ctx of (res, ctx1) \<Rightarrow>
                   if res \<noteq> Ret Evr_ok then (case res of Ret _ \<Rightarrow> Ret Evr_error | _ \<Rightarrow> res, ctx1)
                   else case evr_respond_message_end wr ctx1 of (r, ctx2) \<Rightarrow> (Ret (if r \<noteq> Evr_ok then Evr_error else Evr_ok), ctx2)))
     | Panic \<Rightarrow> (Panic, ctx)
     | Undef \<Rightarrow> (Undef, ctx))"

definition evr_respond_claims_for_seed_result ::
  "'s writer \<Rightarrow> 's index_connection \<Rightarrow> evr_claim_ref \<Rightarrow> evr_code \<times> 's index_connection" where
  "evr_respond_claims_for_seed_result wr ctx claim = send_text wr (evr_fmt_claim_ref claim @ [CHR 0x0A]) ctx"

definition evr_list_claims_for_seed ::
  "'d attr_stmts \<Rightarrow> 's writer \<Rightarrow> 'd index_env \<Rightarrow> string option \<Rightarrow> 's index_connection \<Rightarrow> evr_code exec \<times> 's index_connection" where
  "evr_list_claims_for_seed S wr e seed_ref_str ctx =
    (case evr_parse_claim_ref (replicate evr_claim_ref_size 0) (case seed_ref_str of None \<Rightarrow> [] | Some s \<Rightarrow> s) of (r, seed_ref) \<Rightarrow>
       if r \<noteq> Evr_ok then (Ret Evr_error, ctx)
       else case evr_get_current_index_ref e of
         Ret (r, ref) \<Rightarrow>
           if r = Evr_end then (Ret Evr_end, ctx)
           else if r \<noteq> Evr_ok then (Ret Evr_error, ctx)
           else (case ix_open e (evr_fmt_blob_ref ref) of
               None \<Rightarrow> (Ret Evr_error, ctx)
             | Some d \<Rightarrow>
                if \<not> ix_prepare e then (Ret Evr_error, ctx)
                else free_index_db (ix_free e)
                  (case evr_attr_visit_claims_for_seed S (evr_respond_claims_for_seed_result wr) d seed_ref ctx of (res, ctx1) \<Rightarrow>
                     if res \<noteq> Ret Evr_ok then (case res of Ret _ \<Rightarrow> Ret Evr_error | _ \<Rightarrow> res, ctx1)
                     else case evr_respond_message_end wr ctx1 of (r, ctx2) \<Rightarrow> (Ret (if r \<noteq> Evr_ok then Evr_error else Evr_ok), ctx2)))
       | Panic \<Rightarrow> (Panic, ctx)
       | Undef \<Rightarrow> (Undef, ctx))"

definition evr_max_time_iso8601_size :: nat where "evr_max_time_iso8601_size = 30"

definition watch_line :: "evr_modified_seed \<Rightarrow> string exec" where
  "watch_line m = (case evr_time_to_iso8601 evr_max_time_iso8601_size (ms_change_time m) of
      Ret s \<Rightarrow> Ret (evr_fmt_blob_ref (ms_index_ref m) @ '' '' @ evr_fmt_claim_ref (ms_seed m) @ '' '' @ s @ [CHR 0x0A])
    | Panic \<Rightarrow> Panic
    | Undef \<Rightarrow> Undef)"

primrec watch_msgs_loop ::
  "'s writer \<Rightarrow> evr_code \<Rightarrow> evr_modified_seed list \<Rightarrow> 's index_connection \<Rightarrow> evr_code exec \<times> 's index_connection" where
  "watch_msgs_loop wr take_res [] ctx = (Ret (if take_res = Evr_not_found then Evr_ok else Evr_error), ctx)"
| "watch_msgs_loop wr take_res (m # ms) ctx = (case watch_line m of
      Ret s \<Rightarrow> (case send_text wr s ctx of (r, ctx1) \<Rightarrow>
         if r \<noteq> Evr_ok then (Ret Evr_error, ctx1) else watch_msgs_loop wr take_res ms ctx1)
    | Panic \<Rightarrow> (Panic, ctx)
    | Undef \<Rightarrow> (Undef, ctx))"

primrec watch_rounds_loop :: "'s writer \<Rightarrow> watch_round list \<Rightarrow> 's index_connection \<Rightarrow> evr_code exec \<times> 's index_connection" where
  "watch_rounds_loop wr [] ctx = (Ret Evr_ok, ctx)"
| "watch_rounds_loop wr (k # ks) ctx =
    (if wr_shutdown k then (Ret Evr_end, ctx)
     else case watch_msgs_loop wr (wr_take k) (wr_msgs k) ctx of (res, ctx1) \<Rightarrow>
       if res \<noteq> Ret Evr_ok then (res, ctx1)
       else if wr_hang_up k = Evr_end then (Ret Evr_end, ctx1)
       else if wr_hang_up k \<noteq> Evr_ok then (Ret Evr_error, ctx1)
       else watch_rounds_loop wr ks ctx1)"

definition evr_watch_index :: "'s writer \<Rightarrow> 'd index_env \<Rightarrow> 's index_connection \<Rightarrow> evr_code exec \<times> 's index_connection" where
  "evr_watch_index wr e ctx =
    (if \<not> ix_register e then (Ret Evr_error, ctx)
     else case evr_respond_status wr True None ctx of (r, ctx1) \<Rightarrow>
       if r \<noteq> Evr_ok then (Ret Evr_error, ctx1)
       else case watch_rounds_loop wr (ix_rounds e) ctx1 of (res, ctx2) \<Rightarrow>
         (case res of Ret _ \<Rightarrow> if ix_unregister e then res else Panic | _ \<Rightarrow> res, ctx2))"

definition evr_describe_index :: "'s writer \<Rightarrow> 'd index_env \<Rightarrow> 's index_connection \<Rightarrow> evr_code exec \<times> 's index_connection" where
  "evr_describe_index wr e ctx = (case evr_get_current_index_ref e of
      Ret (r, ref) \<Rightarrow>
        if r \<noteq> Evr_ok then (Ret Evr_error, ctx)
        else (case evr_respond_status wr True None ctx of (r, ctx1) \<Rightarrow>
          if r \<noteq> Evr_ok then (Ret Evr_error, ctx1)
          else case send_text wr (''index-ref: '' @ evr_fmt_blob_ref ref @ [CHR 0x0A]) ctx1 of (r, ctx2) \<Rightarrow>
            if r \<noteq> Evr_ok then (Ret Evr_error, ctx2)
            else case evr_respond_message_end wr ctx2 of (r, ctx3) \<Rightarrow> (Ret (if r \<noteq> Evr_ok then Evr_error else Evr_ok), ctx3))
    | Panic \<Rightarrow> (Panic, ctx)
    | Undef \<Rightarrow> (Undef, ctx))"

definition cmd_name :: "string \<Rightarrow> string" where
  "cmd_name line = takeWhile (\<lambda>c. c \<noteq> CHR '' '') line"

definition cmd_args :: "string \<Rightarrow> string option" where
  "cmd_args line = (if CHR '' '' \<in> set line then Some (drop (Suc (length (cmd_name line))) line) else None)"

definition evr_work_cmd ::
  "'d attr_stmts \<Rightarrow> 's writer \<Rightarrow> 'd index_env \<Rightarrow> string \<Rightarrow> 's index_connection \<Rightarrow> evr_code exec \<times> 's index_connection" where
  "evr_work_cmd S wr e line ctx =
    (let cmd = cmd_name line; args = cmd_args line in
     if cmd = ''a'' then evr_work_authenticate_cmd (ix_token e) args ctx
     else if ic_authenticated ctx \<and> cmd = ''s'' then evr_work_search_cmd S wr e args ctx
     else if ic_authenticated ctx \<and> cmd = ''c'' then evr_list_claims_for_seed S wr e args ctx
     else if ic_authenticated ctx \<and> cmd = ''w'' then evr_watch_index wr e ctx
     else if ic_authenticated ctx \<and> cmd = ''i'' then evr_describe_index wr e ctx
     else if cmd = ''exit'' then (Ret Evr_end, ctx)
     else if cmd = ''?'' \<or> cmd = ''help'' then (case evr_respond_help wr (ix_help e) ctx of (r, ctx1) \<Rightarrow> (Ret r, ctx1))
     else case evr_respond_status wr False (Some ''No such command.'') ctx of (r, ctx1) \<Rightarrow>
       if r \<noteq> Evr_ok then (Ret Evr_error, ctx1)
       else case evr_respond_message_end wr ctx1 of (r, ctx2) \<Rightarrow> (Ret r, ctx2))"

section \<open>Connections\<close>

definition query_str_size :: nat where "query_str_size = 8 * 1024"

text \<open>
  The bytes of one read. \<open>line\<close> are the bytes in front of the array that were scanned without a newline, \<open>n\<close> counts the
  commands; the first result is the end of the connection, if a command ends it.
\<close>

primrec scan_query ::
  "'d attr_stmts \<Rightarrow> 's writer \<Rightarrow> (nat \<Rightarrow> 'd index_env) \<Rightarrow> nat \<Rightarrow> bytes \<Rightarrow> bytes \<Rightarrow> 's index_connection
   \<Rightarrow> evr_code exec option \<times> nat \<times> bytes \<times> 's index_connection" where
  "scan_query S wr e n line [] ctx = (None, n, line, ctx)"
| "scan_query S wr e n line (b # bs) ctx =
    (if b \<noteq> 10 then scan_query S wr e n (line @ [b]) bs ctx
     else case evr_work_cmd S wr (e n) (c_text line) ctx of (res, ctx1) \<Rightarrow>
       (case res of
          Ret r \<Rightarrow>
            if r = Evr_end then (Some (Ret Evr_ok), n, line, ctx1)
            else if r \<noteq> Evr_ok then (Some (Ret Evr_error), n, line, ctx1)
            else scan_query S wr e (Suc n) [] bs ctx1
        | _ \<Rightarrow> (Some res, n, line, ctx1)))"

text \<open>\<open>running i\<close> tells whether the server runs before the \<open>i\<close>-th read.\<close>

partial_function (option) query_loop ::
  "'d attr_stmts \<Rightarrow> 's reader \<Rightarrow> 's writer \<Rightarrow> (nat \<Rightarrow> bool) \<Rightarrow> (nat \<Rightarrow> 'd index_env) \<Rightarrow> nat \<Rightarrow> nat \<Rightarrow> bytes \<Rightarrow> 's index_connection
   \<Rightarrow> (evr_code exec \<times> 's index_connection) option" where
  "query_loop S rd wr running e i n line ctx =
    (if \<not> running i then Some (Ret Evr_error, ctx)
     else if query_str_size - length line = 0 then Some (Ret Evr_error, ctx)
     else case rd (ic_socket ctx) (query_str_size - length line) of (x, f) \<Rightarrow>
       let ctx1 = ctx\<lparr>ic_socket := f\<rparr> in
       (case x of
          Read_fail \<Rightarrow> Some (Ret Evr_error, ctx1)
        | Read_bytes bs \<Rightarrow>
           if bs = [] then Some (Ret Evr_ok, ctx1)
           else case scan_query S wr e n line bs ctx1 of (done, n1, line1, ctx2) \<Rightarrow>
             (case done of
                Some res \<Rightarrow> Some (res, ctx2)
              | None \<Rightarrow> query_loop S rd wr running e (Suc i) n1 line1 ctx2)))"

definition index_connection_worker ::
  "'d attr_stmts \<Rightarrow> 's reader \<Rightarrow> 's writer \<Rightarrow> (nat \<Rightarrow> bool) \<Rightarrow> (nat \<Rightarrow> 'd index_env) \<Rightarrow> 's
   \<Rightarrow> (evr_code exec \<times> 's index_connection) option" where
  "index_connection_worker S rd wr running e socket =
    query_loop S rd wr running e 0 0 [] \<lparr>ic_socket = socket, ic_authenticated = False\<rparr>"

end
