(* ===== verification/Index_Server_Correct.thy ===== *)
theory Index_Server_Correct
  imports Index_Server Storage_Correct
begin

text \<open>
  What a connection to the index server shows to a peer that does not know the token: nothing that depends on the index.
\<close>

section \<open>Lines\<close>

text \<open>The complete lines of a stream, \<open>line\<close> being the bytes in front of it that belong to its first line.\<close>

primrec full_lines :: "bytes \<Rightarrow> bytes \<Rightarrow> bytes list" where
  "full_lines line [] = []"
| "full_lines line (b # bs) = (if b = 10 then line # full_lines [] bs else full_lines (line @ [b]) bs)"

primrec rest_line :: "bytes \<Rightarrow> bytes \<Rightarrow> bytes" where
  "rest_line line [] = line"
| "rest_line line (b # bs) = (if b = 10 then rest_line [] bs else rest_line (line @ [b]) bs)"

lemma full_lines_append: "full_lines line (bs @ cs) = full_lines line bs @ full_lines (rest_line line bs) cs"
  by (induction bs arbitrary: line) simp_all

text \<open>A line that presents the token of the server.\<close>

definition logs_in :: "evr_auth_token \<Rightarrow> bytes \<Rightarrow> bool" where
  "logs_in token line = (take 8 (c_text line) = ''a token '' \<and>
     evr_parse_auth_token (replicate evr_auth_token_size 0) (drop 8 (c_text line)) = (Evr_ok, take evr_auth_token_size token))"

lemma c_text_no_zero: "NUL \<notin> set (c_text bs)"
proof -
  have "char_of (unat b) \<noteq> NUL" if "b \<noteq> 0" for b :: byte
  proof
    assume "char_of (unat b) = NUL"
    then have "of_char (char_of (unat b) :: char) = (of_char NUL :: nat)" by simp
    moreover have "unat b < 2 ^ LENGTH(8)" by (rule unsigned_less)
    ultimately have "unat b = 0" by simp
    with that show False by (simp add: unat_eq_0)
  qed
  moreover have "b \<noteq> 0" if "b \<in> set (takeWhile (\<lambda>b. b \<noteq> 0) bs)" for b using set_takeWhileD [OF that] by simp
  ultimately show ?thesis unfolding c_text_def by force
qed

text \<open>What was split at a separator, joined again.\<close>

lemma split_on_two: "split_on sep s = [f, g] \<Longrightarrow> s = f @ sep # g"
proof (induction s arbitrary: f)
  case (Cons c s)
  have one: "s = g" if "split_on sep s = [g]" for g
    using that
  proof (induction s arbitrary: g)
    case (Cons d s)
    then show ?case by (cases "split_on sep s") (auto split: if_splits)
  qed simp
  from Cons show ?case by (cases "split_on sep s") (auto split: if_splits dest: one)
qed simp

lemma cmd_split: "cmd_args l = Some s \<Longrightarrow> l = cmd_name l @ '' '' @ s"
proof -
  assume a: "cmd_args l = Some s"
  then have "CHR '' '' \<in> set l" and s: "s = drop (Suc (length (cmd_name l))) l" by (auto simp: cmd_args_def split: if_splits)
  then have "dropWhile (\<lambda>c. c \<noteq> CHR '' '') l \<noteq> []" by (simp add: dropWhile_eq_Nil_conv)
  then have "dropWhile (\<lambda>c. c \<noteq> CHR '' '') l = CHR '' '' # tl (dropWhile (\<lambda>c. c \<noteq> CHR '' '') l)"
    using hd_dropWhile [of "\<lambda>c. c \<noteq> CHR '' ''" l] by (metis list.collapse)
  moreover have "l = cmd_name l @ dropWhile (\<lambda>c. c \<noteq> CHR '' '') l" by (simp add: cmd_name_def)
  ultimately obtain t where t: "l = cmd_name l @ CHR '' '' # t" by metis
  then have "s = t" using s by (metis append_Cons append_Nil append_assoc append_eq_conv_conj length_append_singleton)
  with t show ?thesis by simp
qed

section \<open>Authentication\<close>

text \<open>Only a line that presents the token authenticates; every other one leaves the connection as it is.\<close>

lemma authenticate_needs_token:
  assumes "cmd_name (c_text line) = ''a''" "\<not> logs_in token line"
    "evr_work_authenticate_cmd token (cmd_args (c_text line)) ctx = (res, ctx')"
  shows "ctx' = ctx"
proof (cases "cmd_args (c_text line)")
  case None
  with assms(3) show ?thesis by (simp add: evr_work_authenticate_cmd_def)
next
  case (Some s)
  obtain r b offs where n: "evr_split_n 2 s CHR '' '' = (r, b, offs)" using prod_cases3 by blast
  have l: "c_text line = ''a '' @ s" using cmd_split [OF Some] assms(1) by simp
  then have nz: "NUL \<notin> set s" using c_text_no_zero [of line] by simp
  note sp = split_n_spec [OF _ nz _ n]
  obtain r2 t where p: "evr_parse_auth_token (replicate evr_auth_token_size 0) (c_str_at b (offs ! 1)) = (r2, t)" by fastforce
  show ?thesis
  proof (rule ccontr)
    assume "ctx' \<noteq> ctx"
    then have ok: "r = Evr_ok" "c_str_at b (offs ! 0) = ''token''" "r2 = Evr_ok" "take evr_auth_token_size token = t"
      using assms(3) Some n p by (auto simp: evr_work_authenticate_cmd_def split: if_splits)
    from sp ok(1) have m: "map (c_str_at b) offs = split_on CHR '' '' s" "length (split_on CHR '' '' s) = 2"
      by (auto split: if_splits)
    then have two: "split_on CHR '' '' s = [c_str_at b (offs ! 0), c_str_at b (offs ! 1)]"
      by (intro nth_equalityI) (auto simp: less_2_cases_iff simp flip: m(1))
    then have "s = ''token '' @ c_str_at b (offs ! 1)"
      using split_on_two [OF two] ok(2) by simp
    with l p ok(3,4) assms(2) show False by (simp add: logs_in_def)
  qed
qed

section \<open>Commands without authentication\<close>

text \<open>What two environments share that a peer may see.\<close>

definition same_public :: "'d index_env \<Rightarrow> 'e index_env \<Rightarrow> bool" where
  "same_public e e' = (ix_token e = ix_token e' \<and> ix_help e = ix_help e')"

lemma work_cmd_public:
  assumes "same_public e e'" "\<not> logs_in (ix_token e) line" "\<not> ic_authenticated ctx"
  shows "evr_work_cmd S' wr e' (c_text line) ctx = evr_work_cmd S wr e (c_text line) ctx"
  using assms by (simp add: evr_work_cmd_def same_public_def Let_def)

context evr_socket
begin

text \<open>Sending keeps what the peer still has to say.\<close>

lemma send_text_keeps:
  assumes "valid (ic_socket ctx)" "send_text wr s ctx = (r, ctx')"
  shows "valid (ic_socket ctx') \<and> stream (ic_socket ctx') = stream (ic_socket ctx) \<and> ic_authenticated ctx' = ic_authenticated ctx"
proof -
  obtain r1 f where w: "write_n wr (ic_socket ctx) (text_bytes s) = (r1, f)" by fastforce
  with assms write_n_stream [OF assms(1) w] write_n_sink [OF assms(1) w] show ?thesis by (auto simp: send_text_def)
qed

lemma respond_help_keeps:
  assumes "valid (ic_socket ctx)" "evr_respond_help wr h ctx = (r, ctx')"
  shows "valid (ic_socket ctx') \<and> stream (ic_socket ctx') = stream (ic_socket ctx) \<and> ic_authenticated ctx' = ic_authenticated ctx"
proof -
  obtain r1 c1 where s1: "send_text wr (status_text True None) ctx = (r1, c1)" by fastforce
  obtain r2 c2 where s2: "send_text wr (h @ [CHR 0x00]) c1 = (r2, c2)" by fastforce
  obtain r3 c3 where s3: "send_text wr [CHR 0x0A] c2 = (r3, c3)" by fastforce
  note k1 = send_text_keeps [OF assms(1) s1]
  note k2 = send_text_keeps [OF conjunct1 [OF k1] s2]
  note k3 = send_text_keeps [OF conjunct1 [OF k2] s3]
  from assms(2) s1 s2 s3 k1 k2 k3 show ?thesis
    by (auto simp: evr_respond_help_def evr_respond_status_def evr_respond_message_end_def split: if_splits)
qed

lemma no_such_command_keeps:
  assumes "valid (ic_socket ctx)"
    "(case send_text wr s ctx of (r, ctx1) \<Rightarrow>
       if r \<noteq> Evr_ok then (Ret Evr_error, ctx1) else case send_text wr t ctx1 of (r, ctx2) \<Rightarrow> (Ret r, ctx2)) = (res, ctx')"
  shows "valid (ic_socket ctx') \<and> stream (ic_socket ctx') = stream (ic_socket ctx) \<and> ic_authenticated ctx' = ic_authenticated ctx"
proof -
  obtain r1 c1 where s1: "send_text wr s ctx = (r1, c1)" by fastforce
  obtain r2 c2 where s2: "send_text wr t c1 = (r2, c2)" by fastforce
  note k1 = send_text_keeps [OF assms(1) s1]
  note k2 = send_text_keeps [OF conjunct1 [OF k1] s2]
  from assms(2) s1 s2 k1 k2 show ?thesis by (auto split: if_splits)
qed

lemma work_cmd_keeps:
  assumes "valid (ic_socket ctx)" "\<not> ic_authenticated ctx" "\<not> logs_in (ix_token e) line"
    "evr_work_cmd S wr e (c_text line) ctx = (res, ctx')"
  shows "valid (ic_socket ctx') \<and> stream (ic_socket ctx') = stream (ic_socket ctx) \<and> \<not> ic_authenticated ctx'"
proof (cases "cmd_name (c_text line) = ''a''")
  case True
  then have "evr_work_authenticate_cmd (ix_token e) (cmd_args (c_text line)) ctx = (res, ctx')"
    using assms(4) by (simp add: evr_work_cmd_def Let_def)
  from authenticate_needs_token [OF True assms(3) this] assms(1,2) show ?thesis by simp
next
  case False
  let ?c = "cmd_name (c_text line)"
  consider "?c = ''exit''" | "?c = ''?'' \<or> ?c = ''help''" | "?c \<noteq> ''exit''" "?c \<noteq> ''?''" "?c \<noteq> ''help''" by blast
  then show ?thesis
  proof cases
    case 1
    with assms show ?thesis by (simp add: evr_work_cmd_def Let_def)
  next
    case 2
    obtain r c1 where h: "evr_respond_help wr (ix_help e) ctx = (r, c1)" by fastforce
    have "c1 = ctx'" using 2 assms(2,4) h by (auto simp: evr_work_cmd_def Let_def)
    with respond_help_keeps [OF assms(1) h] assms(2) show ?thesis by simp
  next
    case 3
    have "(case send_text wr (status_text False (Some ''No such command.'')) ctx of (r, ctx1) \<Rightarrow>
       if r \<noteq> Evr_ok then (Ret Evr_error, ctx1) else case send_text wr [CHR 0x0A] ctx1 of (r, ctx2) \<Rightarrow> (Ret r, ctx2)) = (res, ctx')"
      using assms(2,4) 3 False by (simp add: evr_work_cmd_def evr_respond_status_def evr_respond_message_end_def Let_def cong: if_cong)
    from no_such_command_keeps [OF assms(1) this] assms(2) show ?thesis by simp
  qed
qed

text \<open>The bytes of one read: the commands see nothing of the environment, and none of them authenticates.\<close>

lemma scan_query_public:
  assumes "\<And>k. same_public (e k) (e' k)" "\<And>k. ix_token (e k) = token" "\<forall>l\<in>set (full_lines line bs). \<not> logs_in token l"
    "valid (ic_socket ctx)" "\<not> ic_authenticated ctx" "scan_query S wr e n line bs ctx = (res, n1, line1, ctx')"
  shows "scan_query S' wr e' n line bs ctx = (res, n1, line1, ctx') \<and> valid (ic_socket ctx') \<and>
    stream (ic_socket ctx') = stream (ic_socket ctx) \<and> \<not> ic_authenticated ctx' \<and> (res = None \<longrightarrow> line1 = rest_line line bs)"
  using assms(3-6)
proof (induction bs arbitrary: n line ctx)
  case (Cons b bs)
  show ?case
  proof (cases "b = 10")
    case False
    with Cons.IH [of "line @ [b]" ctx n] Cons.prems show ?thesis by simp
  next
    case True
    obtain r c1 where w: "evr_work_cmd S wr (e n) (c_text line) ctx = (r, c1)" by fastforce
    have nl: "\<not> logs_in (ix_token (e n)) line" using Cons.prems(1) True assms(2) by simp
    note k = work_cmd_keeps [OF Cons.prems(2,3) nl w]
    have w': "evr_work_cmd S' wr (e' n) (c_text line) ctx = (r, c1)"
      using work_cmd_public [OF assms(1) nl Cons.prems(3), of S' wr S] w by simp
    show ?thesis
    proof (cases "r = Ret Evr_ok")
      case ok: True
      from Cons.IH [of "[]" c1 "Suc n"] Cons.prems True w w' k ok show ?thesis by simp
    next
      case no: False
      with Cons.prems(4) True w w' k show ?thesis by (auto split: exec.splits if_splits)
    qed
  qed
qed simp

lemma query_loop_public:
  assumes "\<And>k. same_public (e k) (e' k)" "\<And>k. ix_token (e k) = token" "valid (ic_socket ctx)" "\<not> ic_authenticated ctx"
    "\<forall>l\<in>set (full_lines line (stream (ic_socket ctx))). \<not> logs_in token l"
  shows "\<exists>res ctx'. query_loop S rd wr running e i n line ctx = Some (res, ctx') \<and>
    query_loop S' rd wr running e' i n line ctx = Some (res, ctx') \<and> \<not> ic_authenticated ctx'"
  using assms(3-5)
proof (induction "length (stream (ic_socket ctx))" arbitrary: ctx i n line rule: less_induct)
  case less
  note step = query_loop.simps [of S rd wr running e i n line ctx] query_loop.simps [of S' rd wr running e' i n line ctx]
  let ?m = "query_str_size - length line"
  obtain x f where x: "rd (ic_socket ctx) ?m = (x, f)" by fastforce
  let ?c1 = "ctx\<lparr>ic_socket := f\<rparr>"
  show ?case
  proof (cases "running i \<and> ?m \<noteq> 0 \<and> x \<noteq> Read_fail \<and> x \<noteq> Read_bytes []")
    case False
    with less.prems(2) x show ?thesis by (cases x) (auto simp: step Let_def)
  next
    case True
    then obtain bs where bs: "x = Read_bytes bs" "bs \<noteq> []" by (cases x) auto
    note rb = rd_bytes [OF less.prems(1) x [unfolded bs(1)]]
    obtain d n1 l1 c2 where sc: "scan_query S wr e n line bs ?c1 = (d, n1, l1, c2)" using prod_cases4 by blast
    have nl: "\<forall>l\<in>set (full_lines line bs). \<not> logs_in token l" "\<forall>l\<in>set (full_lines (rest_line line bs) (stream f)). \<not> logs_in token l"
      using less.prems(3) rb by (simp_all add: full_lines_append)
    have v1: "valid (ic_socket ?c1)" "\<not> ic_authenticated ?c1" using rb less.prems(2) by simp_all
    note k = scan_query_public [OF assms(1,2) nl(1) v1 sc, of S']
    show ?thesis
    proof (cases d)
      case (Some res)
      with True bs x sc k show ?thesis by (simp add: step Let_def)
    next
      case None
      have lt: "length (stream (ic_socket c2)) < length (stream (ic_socket ctx))" using rb bs(2) k by (cases bs) auto
      have "\<forall>l\<in>set (full_lines l1 (stream (ic_socket c2))). \<not> logs_in token l" using k None nl(2) by simp
      from less.hyps [OF lt _ _ this, of "Suc i" n1] k True bs x sc None show ?thesis by (simp add: step Let_def)
    qed
  qed
qed

end

section \<open>Properties\<close>

text \<open>
  C14: Without the token the index is invisible. For every socket that keeps its contract and every stream of a peer no line of
  which presents the token of the server (\<^verbatim>\<open>a token\<close> and the token's text), \<^verbatim>\<open>evr_connection_worker\<close> returns with the
  connection not authenticated, and it returns the same result, having written the same bytes in the same way, for every other
  index server with this token and help text: whatever the databases hold, whichever index is current, whatever the
  queries find and the watchers are told.
\<close>

theorem index_needs_token:
  assumes "evr_socket rd wr stream sink valid" "valid f" "\<forall>k. same_public (e k) (e' k) \<and> ix_token (e k) = token"
    "\<forall>l\<in>set (full_lines [] (stream f)). \<not> logs_in token l"
  shows "\<exists>res ctx. index_connection_worker S rd wr running e f = Some (res, ctx) \<and>
    index_connection_worker S' rd wr running e' f = Some (res, ctx) \<and> \<not> ic_authenticated ctx"
  unfolding index_connection_worker_def
  by (rule evr_socket.query_loop_public [OF assms(1)]) (use assms in simp_all)

text \<open>Two servers with the same token; the second one has no index to show. The peer asks for the help and tries a search.\<close>

definition demo_query_env :: "attr_table_db query_env" where
  "demo_query_env = \<lparr>qe_parse = (\<lambda>_. (None, None)), qe_page_size = 4096, qe_malloc = True, qe_realloc = (\<lambda>_. True),
     qe_prepare = True, qe_bind = (\<lambda>_. True), qe_rows = (\<lambda>_ _ _. ([], True)), qe_fork = True, qe_fork_prepare = True,
     qe_attrs_malloc = True, qe_close = True\<rparr>"

definition demo_index_env :: "attr_table_db index_env" where
  "demo_index_env = \<lparr>ix_token = replicate 32 7, ix_help = ''help'', ix_wait = Evr_ok, ix_ref = replicate 28 1, ix_unlock = True,
     ix_open = (\<lambda>_. None), ix_prepare = True, ix_free = True, ix_query = demo_query_env, ix_register = True,
     ix_rounds = [], ix_unregister = True\<rparr>"

definition demo_peer :: fd_file where
  "demo_peer = \<lparr>fd_in = text_bytes ''help'' @ [10] @ text_bytes ''s x=1'' @ [10], fd_out = [], fd_io = [Io_short 3]\<rparr>"

lemma demo_peer_no_login: "\<forall>l\<in>set (full_lines [] (fd_in demo_peer)). \<not> logs_in token l"
proof -
  have "full_lines [] (fd_in demo_peer) = [text_bytes ''help'', text_bytes ''s x=1'']" by code_simp
  moreover have "take 8 (c_text (text_bytes ''help'')) \<noteq> ''a token ''" "take 8 (c_text (text_bytes ''s x=1'')) \<noteq> ''a token ''" by code_simp+
  ultimately show ?thesis by (simp add: logs_in_def)
qed

theorem index_needs_token_witness:
  "\<exists>res ctx. index_connection_worker attr_table_ops evr_file_fd_read evr_file_fd_write (\<lambda>_. True) (\<lambda>_. demo_index_env) demo_peer = Some (res, ctx) \<and>
    index_connection_worker attr_table_ops evr_file_fd_read evr_file_fd_write (\<lambda>_. True) (\<lambda>_. demo_index_env\<lparr>ix_wait := Evr_error\<rparr>) demo_peer
      = Some (res, ctx) \<and> \<not> ic_authenticated ctx"
  by (rule index_needs_token [OF fd_sock.evr_socket_axioms TrueI _ demo_peer_no_login])
    (simp add: same_public_def demo_index_env_def)

text \<open>Without an argument the authentication command follows a null pointer.\<close>

lemma bare_login_undefined:
  "scan_query S wr e n [97] (10 # bs) ctx = (Some Undef, n, [97], ctx)"
  "scan_query S wr e n [] (97 # 10 # bs) ctx = (Some Undef, n, [97], ctx)"
proof -
  have "c_text [97] = ''a''" by code_simp
  then have "evr_work_cmd S wr (e n) (c_text [97]) ctx = (Undef, ctx)"
    by (simp add: evr_work_cmd_def evr_work_authenticate_cmd_def cmd_name_def cmd_args_def)
  then show "scan_query S wr e n [97] (10 # bs) ctx = (Some Undef, n, [97], ctx)"
    "scan_query S wr e n [] (97 # 10 # bs) ctx = (Some Undef, n, [97], ctx)" by simp_all
qed

context evr_reliable_reader
begin

text \<open>A read of the connection that gets something.\<close>

lemma query_loop_reads:
  assumes "valid (ic_socket ctx)" "running i" "length line < query_str_size" "stream (ic_socket ctx) \<noteq> []"
  obtains bs f where "bs \<noteq> []" "stream (ic_socket ctx) = bs @ stream f" "valid f"
    "query_loop S rd wr running e i n line ctx =
      (case scan_query S wr e n line bs (ctx\<lparr>ic_socket := f\<rparr>) of (done, n1, line1, ctx2) \<Rightarrow>
         (case done of Some res \<Rightarrow> Some (res, ctx2) | None \<Rightarrow> query_loop S rd wr running e (Suc i) n1 line1 ctx2))"
proof -
  let ?m = "query_str_size - length line"
  obtain bs f where r: "rd (ic_socket ctx) ?m = (Read_bytes bs, f)" using rd_ok [OF assms(1)] by blast
  have "bs \<noteq> []" using rd_end [OF assms(1), of ?m f] r assms(3,4) by auto
  with that [of bs f] rd_bytes [OF assms(1) r] r assms(2,3) show ?thesis
    by (simp add: query_loop.simps [of S rd wr running e i n line ctx])
qed

lemma query_loop_bare_login:
  assumes "valid (ic_socket ctx)" "\<forall>i. running i" "stream (ic_socket ctx) = 97 # 10 # rest"
  shows "\<exists>ctx'. query_loop S rd wr running e i n [] ctx = Some (Undef, ctx')"
proof -
  from assms obtain bs f where bs: "bs \<noteq> []" "97 # 10 # rest = bs @ stream f" "valid f" and q: "query_loop S rd wr running e i n [] ctx =
      (case scan_query S wr e n [] bs (ctx\<lparr>ic_socket := f\<rparr>) of (done, n1, line1, ctx2) \<Rightarrow>
         (case done of Some res \<Rightarrow> Some (res, ctx2) | None \<Rightarrow> query_loop S rd wr running e (Suc i) n1 line1 ctx2))"
    using query_loop_reads [of ctx running i "[]" S wr e n] by (auto simp: query_str_size_def)
  show ?thesis
  proof (cases "bs = [97]")
    case False
    then obtain cs where "bs = 97 # 10 # cs" using bs(1,2) by (cases bs; cases "tl bs") auto
    with q show ?thesis by (simp only: bare_login_undefined prod.case option.case) simp
  next
    case True
    let ?c = "ctx\<lparr>ic_socket := f\<rparr>"
    have s: "stream (ic_socket ?c) = 10 # rest" "valid (ic_socket ?c)" using bs True by simp_all
    have ne: "length [97 :: byte] < query_str_size" "stream (ic_socket ?c) \<noteq> []" using s(1) by (simp_all add: query_str_size_def)
    obtain bs2 f2 where bs2: "bs2 \<noteq> []" "stream (ic_socket ?c) = bs2 @ stream f2" and q2: "query_loop S rd wr running e (Suc i) n [97] ?c =
      (case scan_query S wr e n [97] bs2 (?c\<lparr>ic_socket := f2\<rparr>) of (done, n1, line1, ctx2) \<Rightarrow>
         (case done of Some res \<Rightarrow> Some (res, ctx2) | None \<Rightarrow> query_loop S rd wr running e (Suc (Suc i)) n1 line1 ctx2))"
      by (rule query_loop_reads [where running = running and i = "Suc i" and S = S and wr = wr and e = e and n = n,
            OF s(2) spec [OF assms(2)] ne])
    obtain cs where "bs2 = 10 # cs" using bs2 s(1) by (cases bs2) auto
    then have "query_loop S rd wr running e (Suc i) n [97] ?c = Some (Undef, ?c\<lparr>ic_socket := f2\<rparr>)"
      using q2 by (simp only: bare_login_undefined prod.case option.case)
    with q True show ?thesis by simp
  qed
qed

end

text \<open>
  C15: Anyone can crash the index server. Two bytes are enough: a peer that sends the line \<^verbatim>\<open>a\<close>, without an argument and without
  being authenticated, makes \<^verbatim>\<open>evr_work_authenticate_cmd\<close> split a null pointer, which C leaves undefined. The model reaches
  \<open>Undef\<close> for every reader whose calls do not fail, however the two bytes arrive.
\<close>

theorem bare_login_crashes:
  assumes "evr_reliable_reader rd stream valid" "valid f" "stream f = 97 # 10 # rest" "\<forall>i. running i"
  shows "\<exists>ctx. index_connection_worker S rd wr running e f = Some (Undef, ctx)"
  unfolding index_connection_worker_def
  by (rule evr_reliable_reader.query_loop_bare_login [OF assms(1)]) (use assms in simp_all)

theorem bare_login_crashes_witness:
  "\<exists>ctx. index_connection_worker attr_table_ops evr_file_fd_read evr_file_fd_write (\<lambda>_. True) (\<lambda>_. demo_index_env)
     \<lparr>fd_in = [97, 10], fd_out = [], fd_io = [Io_short 1]\<rparr> = Some (Undef, ctx)"
  by (rule bare_login_crashes [OF fd_rel.evr_reliable_reader_axioms]) (simp_all add: fd_never_fails_def)

end
