(* ===== verification/Index_Client.thy ===== *)
theory Index_Client
  imports Buf_Read Attr_Query Auth Iso_Time
begin

text \<open>
  \<^verbatim>\<open>src/evr-attr-index-client.c\<close>: the other end of the protocol of the index server. Commands are written to the file of
  a buffered reader, responses are read line by line through it.
\<close>

section \<open>Commands\<close>

definition evr_attri_validate_argument :: "string \<Rightarrow> evr_code" where
  "evr_attri_validate_argument arg = (if CHR 0x0A \<in> set arg then Evr_error else Evr_ok)"

definition evr_attri_write_auth_token :: "'f writer \<Rightarrow> 'f \<Rightarrow> evr_auth_token \<Rightarrow> evr_code \<times> 'f" where
  "evr_attri_write_auth_token wr f t = write_n wr f (text_bytes (''a token '' @ evr_fmt_auth_token t @ [CHR 0x0A]))"

definition evr_attri_write_list_claims_for_seed :: "'f writer \<Rightarrow> 'f \<Rightarrow> evr_claim_ref \<Rightarrow> evr_code \<times> 'f" where
  "evr_attri_write_list_claims_for_seed wr f seed = write_n wr f (text_bytes (''c '' @ evr_fmt_claim_ref seed @ [CHR 0x0A]))"

definition evr_attri_write_search :: "'f writer \<Rightarrow> 'f \<Rightarrow> string \<Rightarrow> evr_code \<times> 'f" where
  "evr_attri_write_search wr f query = write_n wr f (text_bytes (''s '' @ query @ [CHR 0x0A]))"

definition evr_attri_write_watch :: "'f writer \<Rightarrow> 'f \<Rightarrow> evr_code \<times> 'f" where
  "evr_attri_write_watch wr f = write_n wr f (text_bytes (''w'' @ [CHR 0x0A]))"

definition evr_attri_write_describe_index :: "'f writer \<Rightarrow> 'f \<Rightarrow> evr_code \<times> 'f" where
  "evr_attri_write_describe_index wr f = write_n wr f (text_bytes (''i'' @ [CHR 0x0A]))"

section \<open>Reading lines\<close>

text \<open>The line with its newline; the results of the two calls are kept apart, as a caller tells the end of the file from an error.\<close>

definition read_line :: "'f reader \<Rightarrow> 'f evr_buf_read \<Rightarrow> (evr_code \<times> bytes \<times> 'f evr_buf_read) option" where
  "read_line rd br = (case evr_buf_read_read_until rd br 10 True of
      None \<Rightarrow> None
    | Some (r, nl_offset, br1) \<Rightarrow>
       if r \<noteq> Evr_ok then Some (r, [], br1)
       else case evr_buf_read_pop br1 (nl_offset + 1) of (r2, line, br2) \<Rightarrow>
         Some (if r2 \<noteq> Evr_ok then Evr_error else Evr_ok, line, br2))"

text \<open>A status other than OK is logged and not an error.\<close>

definition evr_attri_read_status :: "'f reader \<Rightarrow> 'f evr_buf_read \<Rightarrow> (evr_code \<times> 'f evr_buf_read) option" where
  "evr_attri_read_status rd br = (case read_line rd br of
      None \<Rightarrow> None
    | Some (r, line, br1) \<Rightarrow> Some (if r \<noteq> Evr_ok then Evr_error else Evr_ok, br1))"

section \<open>Searching\<close>

text \<open>
  The line of an attribute without its tab and newline is split at the first equals sign. A zero in the line ends the
  key or the value.
\<close>

definition attr_of_line :: "bytes \<Rightarrow> (string \<times> string) option" where
  "attr_of_line line =
    (let body = butlast (tl line) in
     if 61 \<in> set body
     then Some (c_text (takeWhile (\<lambda>b. b \<noteq> 61) body), c_text (tl (dropWhile (\<lambda>b. b \<noteq> 61) body)))
     else None)"

type_synonym 'c seed_visitor = "'c \<Rightarrow> evr_claim_ref \<Rightarrow> evr_code \<times> 'c"
type_synonym 'c attr_visitor = "'c \<Rightarrow> evr_claim_ref \<Rightarrow> string \<Rightarrow> string \<Rightarrow> evr_code \<times> 'c"

text \<open>\<open>seed\<close> is the seed of the last line with a reference, \<open>ended\<close> whether a visitor asked for the end.\<close>

partial_function (option) read_search_loop ::
  "'f reader \<Rightarrow> 'c seed_visitor option \<Rightarrow> 'c attr_visitor option \<Rightarrow> evr_claim_ref option \<Rightarrow> bool \<Rightarrow> 'f evr_buf_read \<Rightarrow> 'c
   \<Rightarrow> (evr_code \<times> 'f evr_buf_read \<times> 'c) option" where
  "read_search_loop rd visit_seed visit_attr seed ended br c = (case read_line rd br of
      None \<Rightarrow> None
    | Some (r, line, br1) \<Rightarrow>
       if r \<noteq> Evr_ok then Some (Evr_error, br1, c)
       else if line ! 0 = 9
       then (case seed of
           None \<Rightarrow> Some (Evr_error, br1, c)
         | Some s \<Rightarrow> (case attr_of_line line of
             None \<Rightarrow> Some (Evr_error, br1, c)
           | Some (key, val) \<Rightarrow>
              (case (case visit_attr of None \<Rightarrow> (Evr_ok, c) | Some v \<Rightarrow> v c s key val) of (r2, c1) \<Rightarrow>
                 if r2 \<noteq> Evr_ok then Some (Evr_error, br1, c1)
                 else read_search_loop rd visit_seed visit_attr seed ended br1 c1)))
       else if line ! 0 = 10 then Some (if ended then Evr_end else Evr_ok, br1, c)
       else (case evr_parse_claim_ref (case seed of None \<Rightarrow> replicate evr_claim_ref_size 0 | Some s \<Rightarrow> s) (c_text (butlast line)) of
          (r2, s) \<Rightarrow>
            if r2 \<noteq> Evr_ok then Some (Evr_error, br1, c)
            else case (case visit_seed of None \<Rightarrow> (Evr_ok, c) | Some v \<Rightarrow> v c s) of (r3, c1) \<Rightarrow>
              if r3 \<noteq> Evr_end \<and> r3 \<noteq> Evr_ok then Some (Evr_error, br1, c1)
              else read_search_loop rd visit_seed visit_attr (Some s) (ended \<or> r3 = Evr_end) br1 c1))"

definition evr_attri_read_search ::
  "'f reader \<Rightarrow> 'c seed_visitor option \<Rightarrow> 'c attr_visitor option \<Rightarrow> 'f evr_buf_read \<Rightarrow> 'c
   \<Rightarrow> (evr_code \<times> 'f evr_buf_read \<times> 'c) option" where
  "evr_attri_read_search rd visit_seed visit_attr br c = (case evr_attri_read_status rd br of
      None \<Rightarrow> None
    | Some (r, br1) \<Rightarrow>
       if r \<noteq> Evr_ok then Some (Evr_error, br1, c)
       else read_search_loop rd visit_seed visit_attr None False br1 c)"

text \<open>A search is repeated with growing offsets until a response has less seeds than the limit.\<close>

definition search_limit :: nat where "search_limit = 256"

definition limit_query :: "string \<Rightarrow> nat \<Rightarrow> string" where
  "limit_query query off = query @ '' limit '' @ fmt_dec (int search_limit) @ '' offset '' @ fmt_dec (int off)"

definition evr_attri_search_visit_seed :: "'c seed_visitor option \<Rightarrow> (nat \<times> 'c) seed_visitor" where
  "evr_attri_search_visit_seed visit_seed c seed =
    (case visit_seed of
       None \<Rightarrow> (Evr_ok, fst c + 1, snd c)
     | Some v \<Rightarrow> (case v (snd c) seed of (r, c1) \<Rightarrow> (r, fst c + 1, c1)))"

definition evr_attri_search_visit_attr :: "'c attr_visitor option \<Rightarrow> (nat \<times> 'c) attr_visitor" where
  "evr_attri_search_visit_attr visit_attr c seed key val =
    (case visit_attr of
       None \<Rightarrow> (Evr_ok, c)
     | Some v \<Rightarrow> (case v (snd c) seed key val of (r, c1) \<Rightarrow> (r, fst c, c1)))"

partial_function (option) search_loop ::
  "'f reader \<Rightarrow> 'f writer \<Rightarrow> string \<Rightarrow> 'c seed_visitor option \<Rightarrow> 'c attr_visitor option \<Rightarrow> nat \<Rightarrow> 'f evr_buf_read \<Rightarrow> 'c
   \<Rightarrow> (evr_code \<times> 'f evr_buf_read \<times> 'c) option" where
  "search_loop rd wr query visit_seed visit_attr off br c =
    (case evr_attri_write_search wr (br_f br) (limit_query query off) of (r, f) \<Rightarrow>
       let br1 = br\<lparr>br_f := f\<rparr> in
       if r \<noteq> Evr_ok then Some (Evr_error, br1, c)
       else case evr_attri_read_search rd (Some (evr_attri_search_visit_seed visit_seed)) (Some (evr_attri_search_visit_attr visit_attr))
           br1 (0, c) of
           None \<Rightarrow> None
         | Some (r2, br2, count, c1) \<Rightarrow>
            if r2 = Evr_end then Some (Evr_ok, br2, c1)
            else if r2 \<noteq> Evr_ok then Some (Evr_error, br2, c1)
            else if count < search_limit then Some (Evr_ok, br2, c1)
            else search_loop rd wr query visit_seed visit_attr (off + search_limit) br2 c1)"

definition evr_attri_search ::
  "'f reader \<Rightarrow> 'f writer \<Rightarrow> string \<Rightarrow> 'c seed_visitor option \<Rightarrow> 'c attr_visitor option \<Rightarrow> 'f evr_buf_read \<Rightarrow> 'c
   \<Rightarrow> (evr_code \<times> 'f evr_buf_read \<times> 'c) option" where
  "evr_attri_search rd wr query visit_seed visit_attr br c = search_loop rd wr query visit_seed visit_attr 0 br c"

section \<open>Watching\<close>

definition evr_blob_ref_str_len :: nat where "evr_blob_ref_str_len = evr_blob_ref_str_size - 1"
definition evr_claim_ref_str_len :: nat where "evr_claim_ref_str_len = evr_claim_ref_str_size - 1"

text \<open>The three fields of a line without its newline. The separators are overwritten and not looked at.\<close>

definition parse_watch_line :: "bool \<Rightarrow> bytes \<Rightarrow> (evr_blob_ref \<times> evr_claim_ref \<times> evr_time) option exec" where
  "parse_watch_line spare l =
    (if length l \<le> evr_blob_ref_str_len + 1 + evr_claim_ref_str_len + 1 + 1 then Ret None
     else case evr_parse_blob_ref (replicate evr_blob_ref_size 0) (c_text (take evr_blob_ref_str_len l)) of (r1, index_ref) \<Rightarrow>
       if r1 \<noteq> Evr_ok then Ret None
       else case evr_parse_claim_ref (replicate evr_claim_ref_size 0)
           (c_text (take evr_claim_ref_str_len (drop (evr_blob_ref_str_len + 1) l))) of (r2, seed) \<Rightarrow>
         if r2 \<noteq> Evr_ok then Ret None
         else map_exec (map_option (\<lambda>t. (index_ref, seed, t)))
           (evr_time_from_iso8601 spare (c_text (drop (evr_blob_ref_str_len + 1 + evr_claim_ref_str_len + 1) l))))"

partial_function (option) read_watch_loop ::
  "bool \<Rightarrow> 'f reader \<Rightarrow> ('c \<Rightarrow> evr_blob_ref \<Rightarrow> evr_claim_ref \<Rightarrow> evr_time \<Rightarrow> evr_code \<times> 'c) \<Rightarrow> 'f evr_buf_read \<Rightarrow> 'c
   \<Rightarrow> (evr_code exec \<times> 'f evr_buf_read \<times> 'c) option" where
  "read_watch_loop spare rd visit br c = (case read_line rd br of
      None \<Rightarrow> None
    | Some (r, line, br1) \<Rightarrow>
       if r = Evr_end then Some (Ret Evr_ok, br1, c)
       else if r \<noteq> Evr_ok then Some (Ret Evr_error, br1, c)
       else (case parse_watch_line spare (butlast line) of
           Panic \<Rightarrow> Some (Panic, br1, c)
         | Undef \<Rightarrow> Some (Undef, br1, c)
         | Ret None \<Rightarrow> Some (Ret Evr_error, br1, c)
         | Ret (Some (index_ref, seed, last_modified)) \<Rightarrow>
            (case visit c index_ref seed last_modified of (r2, c1) \<Rightarrow>
               if r2 = Evr_end then Some (Ret Evr_end, br1, c1)
               else if r2 \<noteq> Evr_ok then Some (Ret Evr_error, br1, c1)
               else read_watch_loop spare rd visit br1 c1)))"

definition evr_attri_read_watch ::
  "bool \<Rightarrow> 'f reader \<Rightarrow> ('c \<Rightarrow> evr_blob_ref \<Rightarrow> evr_claim_ref \<Rightarrow> evr_time \<Rightarrow> evr_code \<times> 'c) \<Rightarrow> 'f evr_buf_read \<Rightarrow> 'c
   \<Rightarrow> (evr_code exec \<times> 'f evr_buf_read \<times> 'c) option" where
  "evr_attri_read_watch spare rd visit br c = (case evr_attri_read_status rd br of
      None \<Rightarrow> None
    | Some (r, br1) \<Rightarrow> if r \<noteq> Evr_ok then Some (Ret Evr_error, br1, c) else read_watch_loop spare rd visit br1 c)"

section \<open>Describing the index\<close>

text \<open>The label and the value of a line with its newline; a colon at its end is not followed by a space.\<close>

definition describe_line :: "bytes \<Rightarrow> (string \<times> string) option" where
  "describe_line line =
    (let colon_i = length (takeWhile (\<lambda>b. b \<noteq> 58) line) in
     if colon_i \<ge> length line - 1 then None
     else if line ! (colon_i + 1) \<noteq> 32 then None
     else Some (c_text (take colon_i line), c_text (butlast (drop (colon_i + 2) line))))"

partial_function (option) describe_loop ::
  "'f reader \<Rightarrow> evr_blob_ref option \<Rightarrow> 'f evr_buf_read \<Rightarrow> (evr_code \<times> evr_blob_ref option \<times> 'f evr_buf_read) option" where
  "describe_loop rd found br = (case read_line rd br of
      None \<Rightarrow> None
    | Some (r, line, br1) \<Rightarrow>
       if r \<noteq> Evr_ok then Some (Evr_error, found, br1)
       else if line ! 0 = 10 then Some (if found = None then Evr_error else Evr_ok, found, br1)
       else (case describe_line line of
           None \<Rightarrow> Some (Evr_error, found, br1)
         | Some (label, val) \<Rightarrow>
            if label = ''index-ref''
            then (case evr_parse_blob_ref (replicate evr_blob_ref_size 0) val of (r2, ref) \<Rightarrow>
                if r2 \<noteq> Evr_ok then Some (Evr_error, found, br1) else describe_loop rd (Some ref) br1)
            else describe_loop rd found br1))"

definition evr_attri_describe_index ::
  "'f reader \<Rightarrow> 'f writer \<Rightarrow> 'f evr_buf_read \<Rightarrow> (evr_code \<times> evr_blob_ref option \<times> 'f evr_buf_read) option" where
  "evr_attri_describe_index rd wr br =
    (case evr_attri_write_describe_index wr (br_f br) of (r, f) \<Rightarrow>
       let br1 = br\<lparr>br_f := f\<rparr> in
       if r \<noteq> Evr_ok then Some (Evr_error, None, br1)
       else case evr_attri_read_status rd br1 of
           None \<Rightarrow> None
         | Some (r2, br2) \<Rightarrow> if r2 \<noteq> Evr_ok then Some (Evr_error, None, br2) else describe_loop rd None br2)"

end
