(* ===== verification/Sql_Cond.thy ===== *)
theory Sql_Cond
  imports Attr_Query
begin

text \<open>
  What SQLite makes of the texts that \<open>Attr_Query\<close> builds: the part of the grammar of SQL they use, in which
  \<^verbatim>\<open>and\<close> binds stronger than \<^verbatim>\<open>or\<close> and placeholders are numbered from left to right, and the meaning of the
  conditions over the tables. The locale \<open>sqlite_query\<close> says that the rows of a statement are those that satisfy its
  condition; it is interpreted on the database of lists.
\<close>

section \<open>The grammar\<close>

datatype sql_atom = At_ref | At_created | At_join | At_archived | At_eq | At_contains

datatype sql_cond = Sql_leaf sql_atom | Sql_and sql_cond sql_cond | Sql_or sql_cond sql_cond

primrec atom_text :: "sql_atom \<Rightarrow> string" where
  "atom_text At_ref = ''c.seed = ?''"
| "atom_text At_created = ''cs.created <= ?''"
| "atom_text At_join = ''cs.ref = substr(c.ref, 0, (224 / 8) + 1)''"
| "atom_text At_archived = ''c.seed not in (select ca.seed from claim_archive ca where ca.seed = c.seed and ca.valid_until <= ?)''"
| "atom_text At_eq = ''c.seed in (select seed from attr where key = ? and val_str = ? and valid_from <= ? and (valid_until > ? or valid_until is null) and val_str not null)''"
| "atom_text At_contains = ''c.seed in (select seed from attr where key = ? and glob(lower(\"*\" || ? || \"*\"), lower(val_str)) and valid_from <= ? and (valid_until > ? or valid_until is null) and val_str not null)''"

primrec atom_params :: "sql_atom \<Rightarrow> nat" where
  "atom_params At_ref = 1"
| "atom_params At_created = 1"
| "atom_params At_join = 0"
| "atom_params At_archived = 1"
| "atom_params At_eq = 4"
| "atom_params At_contains = 4"

primrec sql_params :: "sql_cond \<Rightarrow> nat" where
  "sql_params (Sql_leaf a) = atom_params a"
| "sql_params (Sql_and e f) = sql_params e + sql_params f"
| "sql_params (Sql_or e f) = sql_params e + sql_params f"

definition strip_text :: "string \<Rightarrow> string \<Rightarrow> string option" where
  "strip_text p s = (if take (length p) s = p then Some (drop (length p) s) else None)"

primrec leaf_loop :: "sql_atom list \<Rightarrow> string \<Rightarrow> (sql_cond \<times> string) option" where
  "leaf_loop [] s = None"
| "leaf_loop (a # as) s = (case strip_text (atom_text a) s of Some r \<Rightarrow> Some (Sql_leaf a, r) | None \<Rightarrow> leaf_loop as s)"

definition sql_leaf :: "string \<Rightarrow> (sql_cond \<times> string) option" where
  "sql_leaf = leaf_loop [At_ref, At_created, At_join, At_archived, At_eq, At_contains]"

text \<open>The first argument bounds the depth of the recursion; the length of a text is enough for it.\<close>

fun sql_or :: "nat \<Rightarrow> string \<Rightarrow> (sql_cond \<times> string) option"
and sql_and :: "nat \<Rightarrow> string \<Rightarrow> (sql_cond \<times> string) option"
and sql_prim :: "nat \<Rightarrow> string \<Rightarrow> (sql_cond \<times> string) option" where
  "sql_or 0 s = None"
| "sql_or (Suc n) s = (case sql_and n s of
      None \<Rightarrow> None
    | Some (e, r) \<Rightarrow> (case strip_text '' or '' r of
        None \<Rightarrow> Some (e, r)
      | Some r1 \<Rightarrow> (case sql_or n r1 of None \<Rightarrow> None | Some (f, r2) \<Rightarrow> Some (Sql_or e f, r2))))"
| "sql_and 0 s = None"
| "sql_and (Suc n) s = (case sql_prim n s of
      None \<Rightarrow> None
    | Some (e, r) \<Rightarrow> (case strip_text '' and '' r of
        None \<Rightarrow> Some (e, r)
      | Some r1 \<Rightarrow> (case sql_and n r1 of None \<Rightarrow> None | Some (f, r2) \<Rightarrow> Some (Sql_and e f, r2))))"
| "sql_prim 0 s = None"
| "sql_prim (Suc n) s = (case strip_text ''('' s of
      None \<Rightarrow> sql_leaf s
    | Some r \<Rightarrow> (case sql_or n r of
        None \<Rightarrow> None
      | Some (e, r1) \<Rightarrow> (case strip_text '')'' r1 of None \<Rightarrow> None | Some r2 \<Rightarrow> Some (e, r2))))"

definition select_text :: string where
  "select_text = ''select distinct seed from claim c inner join claim_set cs where ''"

definition order_text :: string where
  "order_text = '' order by cs.created desc limit ? offset ?''"

definition sql_statement :: "string \<Rightarrow> sql_cond option" where
  "sql_statement s = (case strip_text select_text s of
      None \<Rightarrow> None
    | Some r \<Rightarrow> (case sql_or (length r) r of
        None \<Rightarrow> None
      | Some (e, r1) \<Rightarrow> if r1 = order_text then Some e else None))"

section \<open>The meaning\<close>

text \<open>
  A condition is about a claim and a claim set. \<open>hit seed P\<close> tells whether the table of attributes has a row for the
  seed with \<open>P\<close>, \<open>arch\<close> is the table of archived seeds, \<open>contains n v\<close> stands for the call of \<^verbatim>\<open>glob\<close>.
\<close>

type_synonym attr_hit = "bytes \<Rightarrow> (attr_row \<Rightarrow> bool) \<Rightarrow> bool"

definition row_between :: "int \<Rightarrow> int \<Rightarrow> attr_row \<Rightarrow> bool" where
  "row_between t1 t2 r = (sint (ar_valid_from r) \<le> t1 \<and> (case ar_valid_until r of None \<Rightarrow> True | Some u \<Rightarrow> t2 < sint u))"

fun atom_eval ::
  "attr_hit \<Rightarrow> (bytes \<Rightarrow> evr_time option) \<Rightarrow> (string \<Rightarrow> string \<Rightarrow> bool) \<Rightarrow> bytes \<Rightarrow> bytes \<Rightarrow> bytes \<Rightarrow> claim_set_row
   \<Rightarrow> sql_atom \<Rightarrow> sql_value list \<Rightarrow> bool" where
  "atom_eval hit arch contains ref seed csr cs At_join vs = (csr = take evr_blob_ref_size ref)"
| "atom_eval hit arch contains ref seed csr cs At_created [Sql_int t] = (sint (cs_created cs) \<le> t)"
| "atom_eval hit arch contains ref seed csr cs At_archived [Sql_int t] =
    (case arch seed of None \<Rightarrow> True | Some u \<Rightarrow> \<not> sint u \<le> t)"
| "atom_eval hit arch contains ref seed csr cs At_ref [Sql_blob b] = (seed = b)"
| "atom_eval hit arch contains ref seed csr cs At_eq [Sql_text k, Sql_text v, Sql_int t1, Sql_int t2] =
    hit seed (\<lambda>r. ar_key r = k \<and> ar_val_str r = Some v \<and> row_between t1 t2 r)"
| "atom_eval hit arch contains ref seed csr cs At_contains [Sql_text k, Sql_text n, Sql_int t1, Sql_int t2] =
    hit seed (\<lambda>r. ar_key r = k \<and> (case ar_val_str r of None \<Rightarrow> False | Some v \<Rightarrow> contains n v) \<and> row_between t1 t2 r)"
| "atom_eval hit arch contains ref seed csr cs a vs = False"

primrec sql_eval ::
  "attr_hit \<Rightarrow> (bytes \<Rightarrow> evr_time option) \<Rightarrow> (string \<Rightarrow> string \<Rightarrow> bool) \<Rightarrow> bytes \<Rightarrow> bytes \<Rightarrow> bytes \<Rightarrow> claim_set_row
   \<Rightarrow> sql_cond \<Rightarrow> sql_value list \<Rightarrow> bool" where
  "sql_eval hit arch contains ref seed csr cs (Sql_leaf a) vs =
    atom_eval hit arch contains ref seed csr cs a (take (atom_params a) vs)"
| "sql_eval hit arch contains ref seed csr cs (Sql_and e f) vs =
    (sql_eval hit arch contains ref seed csr cs e vs \<and> sql_eval hit arch contains ref seed csr cs f (drop (sql_params e) vs))"
| "sql_eval hit arch contains ref seed csr cs (Sql_or e f) vs =
    (sql_eval hit arch contains ref seed csr cs e vs \<or> sql_eval hit arch contains ref seed csr cs f (drop (sql_params e) vs))"

definition table_hit :: "attr_tables \<Rightarrow> attr_hit" where
  "table_hit T seed P = (\<exists>i r. t_attr T i = Some r \<and> ar_seed r = seed \<and> P r)"

definition sql_selected :: "attr_tables \<Rightarrow> (string \<Rightarrow> string \<Rightarrow> bool) \<Rightarrow> sql_cond \<Rightarrow> sql_value list \<Rightarrow> bytes set" where
  "sql_selected T contains e vs = {seed. \<exists>ref csr cs. t_claim T ref = Some seed \<and> t_claim_set T csr = Some cs \<and>
     sql_eval (table_hit T) (t_claim_archive T) contains ref seed csr cs e vs}"

text \<open>A negative limit is no limit, a negative offset is none.\<close>

definition sql_window :: "int \<Rightarrow> int \<Rightarrow> 'a list \<Rightarrow> 'a list" where
  "sql_window lim off xs = (let ys = drop (nat off) xs in if lim < 0 then ys else take (nat lim) ys)"

locale sqlite_query =
  fixes rows :: "'d \<Rightarrow> string \<Rightarrow> sql_value list \<Rightarrow> bytes list \<times> bool" and tabs :: "'d \<Rightarrow> attr_tables"
    and contains :: "string \<Rightarrow> string \<Rightarrow> bool"
  assumes rows_selected: "sql_statement s = Some e \<Longrightarrow> length vs = sql_params e \<Longrightarrow>
      rows d s (vs @ [Sql_int lim, Sql_int off]) = (seeds, True) \<Longrightarrow>
      \<exists>xs. distinct xs \<and> set xs = sql_selected (tabs d) contains e vs \<and> seeds = sql_window lim off xs"

section \<open>The database of lists\<close>

definition list_hit :: "attr_table_db \<Rightarrow> attr_hit" where
  "list_hit d seed P = list_ex (\<lambda>(i, r). ar_seed r = seed \<and> P r) (attr_rows d)"

text \<open>The newest claim set first.\<close>

definition list_selected :: "attr_table_db \<Rightarrow> (string \<Rightarrow> string \<Rightarrow> bool) \<Rightarrow> sql_cond \<Rightarrow> sql_value list \<Rightarrow> bytes list" where
  "list_selected d contains e vs =
    remdups (concat (map (\<lambda>csr. case map_of (tb_claim_set d) csr of None \<Rightarrow> []
      | Some cs \<Rightarrow> concat (map (\<lambda>ref. case map_of (tb_claim d) ref of None \<Rightarrow> []
          | Some seed \<Rightarrow> if sql_eval (list_hit d) (map_of (tb_claim_archive d)) contains ref seed csr cs e vs then [seed] else [])
          (map fst (tb_claim d))))
      (sort_key (\<lambda>csr. case map_of (tb_claim_set d) csr of None \<Rightarrow> 0 | Some cs \<Rightarrow> - sint (cs_created cs))
        (map fst (tb_claim_set d)))))"

definition list_rows ::
  "(string \<Rightarrow> string \<Rightarrow> bool) \<Rightarrow> attr_table_db \<Rightarrow> string \<Rightarrow> sql_value list \<Rightarrow> bytes list \<times> bool" where
  "list_rows contains d s vs = (case sql_statement s of
      None \<Rightarrow> ([], False)
    | Some e \<Rightarrow> (case drop (sql_params e) vs of
        [Sql_int lim, Sql_int off] \<Rightarrow>
          (sql_window lim off (list_selected d contains e (take (sql_params e) vs)), True)
      | _ \<Rightarrow> ([], False)))"

lemma list_hit_table: "list_hit d = table_hit (table_tabs d)"
proof (intro ext)
  fix seed P
  have "(i, r) \<in> set (attr_rows d) \<longleftrightarrow> attr_at (tb_attr d) i = Some r" for i r
    by (auto simp: attr_rows_def attr_at_iff)
  then show "list_hit d seed P = table_hit (table_tabs d) seed P"
    by (auto simp: list_hit_def table_hit_def table_tabs_def list_ex_iff)
qed

lemma set_list_selected: "set (list_selected d contains e vs) = sql_selected (table_tabs d) contains e vs"
  apply (auto simp: list_selected_def sql_selected_def table_tabs_def list_hit_table split: option.splits if_splits)
  subgoal by metis
  subgoal for seed ref csr cs
    by (rule bexI [of _ "(csr, cs)"]) (auto intro!: bexI [of _ "(ref, seed)"] dest: map_of_SomeD)
  done

interpretation list_query: sqlite_query "list_rows contains" table_tabs contains for contains
proof
  fix s e and vs :: "sql_value list" and d lim off seeds
  assume "sql_statement s = Some e" "length vs = sql_params e" "list_rows contains d s (vs @ [Sql_int lim, Sql_int off]) = (seeds, True)"
  then have "seeds = sql_window lim off (list_selected d contains e vs)"
    by (simp add: list_rows_def)
  then show "\<exists>xs. distinct xs \<and> set xs = sql_selected (table_tabs d) contains e vs \<and> seeds = sql_window lim off xs"
    by (intro exI [of _ "list_selected d contains e vs"]) (simp add: set_list_selected, simp add: list_selected_def)
qed

end
