(* ===== verification/Attr_Query_Correct.thy ===== *)
theory Attr_Query_Correct
  imports Sql_Cond
begin

text \<open>
  What a query finds. The text that is built for a query is parsed by SQL as the conditions that hold for
  every query and the condition of the query, unless the query is an alternative: then the first conditions only
  apply to its left side.
\<close>

section \<open>The text\<close>

primrec cnd_text :: "evr_attr_query_node \<Rightarrow> string" where
  "cnd_text (Ref_cnd ref) = ref_cnd_text"
| "cnd_text (Eq_cnd key val) = eq_cnd_text"
| "cnd_text (Contains_cnd key needle) = contains_cnd_text"
| "cnd_text (Bool_and l r) = ''('' @ cnd_text l @ '') and ('' @ cnd_text r @ '')''"
| "cnd_text (Bool_or l r) = ''('' @ cnd_text l @ '') or ('' @ cnd_text r @ '')''"

definition sql_text :: "evr_attr_query_node option \<Rightarrow> string" where
  "sql_text root = sql_prefix @ (case root of None \<Rightarrow> [] | Some n \<Rightarrow> '' and '' @ cnd_text n) @ sql_suffix"

lemma text_bytes_append: "text_bytes (s @ t) = text_bytes s @ text_bytes t"
  by (simp add: text_bytes_def)

lemma append_text:
  "evr_attr_build_sql_append realloc cnd da = Some da' \<Longrightarrow> da_inv da \<Longrightarrow> da_data da' = da_data da @ text_bytes cnd \<and> da_inv da'"
  unfolding evr_attr_build_sql_append_def by (rule write_n_dynamic_array_Some)

lemma append_bool_text:
  assumes run: "evr_append_bool realloc fl fr join_str da = Some da'" and inv: "da_inv da"
    and l: "\<And>x y. fl x = Some y \<Longrightarrow> da_inv x \<Longrightarrow> da_data y = da_data x @ text_bytes l_text \<and> da_inv y"
    and r: "\<And>x y. fr x = Some y \<Longrightarrow> da_inv x \<Longrightarrow> da_data y = da_data x @ text_bytes r_text \<and> da_inv y"
  shows "da_data da' = da_data da @ text_bytes (''('' @ l_text @ join_str @ r_text @ '')'') \<and> da_inv da'"
proof -
  obtain a b c d where steps: "evr_attr_build_sql_append realloc ''('' da = Some a" "fl a = Some b"
    "evr_attr_build_sql_append realloc join_str b = Some c" "fr c = Some d"
    "evr_attr_build_sql_append realloc '')'' d = Some da'"
    using run by (auto simp: evr_append_bool_def split: Option.bind_splits)
  have "da_data a = da_data da @ text_bytes ''('' \<and> da_inv a" by (rule append_text [OF steps(1) inv])
  moreover have "da_data b = da_data a @ text_bytes l_text \<and> da_inv b" using l [OF steps(2)] calculation by blast
  moreover have "da_data c = da_data b @ text_bytes join_str \<and> da_inv c" using append_text [OF steps(3)] calculation by blast
  moreover have "da_data d = da_data c @ text_bytes r_text \<and> da_inv d" using r [OF steps(4)] calculation by blast
  moreover have "da_data da' = da_data d @ text_bytes '')'' \<and> da_inv da'" using append_text [OF steps(5)] calculation by blast
  ultimately show ?thesis by (simp add: text_bytes_def)
qed

lemma append_cnd_text:
  "append_cnd realloc n da = Some da' \<Longrightarrow> da_inv da \<Longrightarrow> da_data da' = da_data da @ text_bytes (cnd_text n) \<and> da_inv da'"
proof (induction n arbitrary: da da')
  case (Bool_and l r)
  then show ?case using append_bool_text [of realloc "append_cnd realloc l" "append_cnd realloc r"] by simp
next
  case (Bool_or l r)
  then show ?case using append_bool_text [of realloc "append_cnd realloc l" "append_cnd realloc r"] by simp
qed (simp_all add: append_text)

lemma build_sql_text:
  assumes "evr_attr_build_sql_query page malloc realloc root = Some da"
  shows "da_data da = text_bytes (sql_text root) @ [0]"
proof -
  obtain a b c where a: "alloc_dynamic_array page malloc 4096 = Some a" "evr_attr_build_sql_append realloc sql_prefix a = Some b"
    and c: "(case root of None \<Rightarrow> Some b
        | Some n \<Rightarrow> do { da \<leftarrow> evr_attr_build_sql_append realloc '' and '' b; append_cnd realloc n da }) = Some c"
    and d: "write_n_dynamic_array (realloc (da_size_used c)) c (text_bytes sql_suffix @ [0]) = Some da"
    using assms by (auto simp: evr_attr_build_sql_query_def split: Option.bind_splits)
  have "da_data a = [] \<and> da_inv a" using a(1) by (auto simp: alloc_dynamic_array_def da_inv_def da_size_used_def split: if_splits)
  then have b: "da_data b = text_bytes sql_prefix \<and> da_inv b" using append_text [OF a(2)] by simp
  have "da_data c = text_bytes (sql_prefix @ (case root of None \<Rightarrow> [] | Some n \<Rightarrow> '' and '' @ cnd_text n)) \<and> da_inv c"
  proof (cases root)
    case None
    then show ?thesis using b c by simp
  next
    case (Some n)
    then obtain x where x: "evr_attr_build_sql_append realloc '' and '' b = Some x" "append_cnd realloc n x = Some c"
      using c by (auto split: Option.bind_splits)
    then have y: "da_data x = da_data b @ text_bytes '' and '' \<and> da_inv x" using append_text [OF x(1)] b by blast
    show ?thesis using append_cnd_text [OF x(2)] y b Some by (simp add: text_bytes_def)
  qed
  then show ?thesis using write_n_dynamic_array_Some [OF d] by (simp add: sql_text_def text_bytes_append)
qed

text \<open>No part of a text holds a zero.\<close>

definition no_zero :: "string \<Rightarrow> bool" where
  "no_zero s = list_all (\<lambda>c. c \<noteq> CHR 0x00) s"

lemma no_zero_texts:
  "no_zero ref_cnd_text" "no_zero eq_cnd_text" "no_zero contains_cnd_text" "no_zero sql_prefix" "no_zero sql_suffix"
  by code_simp+

lemma no_zero_append [simp]:
  "no_zero (s @ t) = (no_zero s \<and> no_zero t)" "no_zero []" "no_zero (c # s) = (c \<noteq> CHR 0x00 \<and> no_zero s)"
  by (simp_all add: no_zero_def)

lemma no_zero_cnd_text: "no_zero (cnd_text n)"
  by (induction n) (simp_all add: no_zero_texts)

lemma no_zero_sql_text: "no_zero (sql_text root)"
  using no_zero_texts by (simp add: sql_text_def no_zero_cnd_text split: option.split)

lemma char_byte: "char_of (unat (word_of_nat (of_char c) :: 8 word)) = c" "(word_of_nat (of_char c) :: 8 word) = 0 \<longleftrightarrow> c = CHR 0x00"
proof -
  have u: "unat (word_of_nat (of_char c) :: 8 word) = of_char c"
    using nat_of_char_less_256 [of c] by (simp add: unsigned_of_nat take_bit_nat_eq_self)
  then show "char_of (unat (word_of_nat (of_char c) :: 8 word)) = c" by simp
  have "(word_of_nat (of_char c) :: 8 word) = 0 \<longleftrightarrow> of_char c = (0 :: nat)"
  proof
    assume "(word_of_nat (of_char c) :: 8 word) = 0"
    then have "unat (word_of_nat (of_char c) :: 8 word) = 0" by (simp only: unsigned_0)
    then show "of_char c = (0 :: nat)" by (simp only: u)
  qed simp
  also have "\<dots> \<longleftrightarrow> of_char c = (of_char (CHR 0x00) :: nat)" by simp
  also have "\<dots> \<longleftrightarrow> c = CHR 0x00" by (rule of_char_eq_iff)
  finally show "(word_of_nat (of_char c) :: 8 word) = 0 \<longleftrightarrow> c = CHR 0x00" .
qed

lemma c_text_of_bytes: "no_zero s \<Longrightarrow> c_text (text_bytes s @ [0]) = s"
  by (induction s) (simp_all add: c_text_def text_bytes_def no_zero_def char_byte)

section \<open>The parsed text\<close>

primrec cnd_sql :: "evr_attr_query_node \<Rightarrow> sql_cond" where
  "cnd_sql (Ref_cnd ref) = Sql_leaf At_ref"
| "cnd_sql (Eq_cnd key val) = Sql_leaf At_eq"
| "cnd_sql (Contains_cnd key needle) = Sql_leaf At_contains"
| "cnd_sql (Bool_and l r) = Sql_and (cnd_sql l) (cnd_sql r)"
| "cnd_sql (Bool_or l r) = Sql_or (cnd_sql l) (cnd_sql r)"

definition with_base :: "sql_cond \<Rightarrow> sql_cond" where
  "with_base e = Sql_and (Sql_leaf At_join) (Sql_and (Sql_leaf At_created) (Sql_and (Sql_leaf At_archived) e))"

definition root_sql :: "evr_attr_query_node option \<Rightarrow> sql_cond" where
  "root_sql root = (case root of
      None \<Rightarrow> Sql_and (Sql_leaf At_join) (Sql_and (Sql_leaf At_created) (Sql_leaf At_archived))
    | Some (Bool_or l r) \<Rightarrow> Sql_or (with_base (cnd_sql l)) (cnd_sql r)
    | Some n \<Rightarrow> with_base (cnd_sql n))"

primrec depth :: "evr_attr_query_node \<Rightarrow> nat" where
  "depth (Ref_cnd ref) = 3"
| "depth (Eq_cnd key val) = 3"
| "depth (Contains_cnd key needle) = 3"
| "depth (Bool_and l r) = max (depth l) (depth r) + 4"
| "depth (Bool_or l r) = max (depth l) (depth r) + 4"

lemma strip_text_self [simp]: "strip_text p (p @ s) = Some s"
  by (simp add: strip_text_def)

lemma strip_text_append:
  "length p \<le> length s \<Longrightarrow> strip_text p (s @ r) = map_option (\<lambda>x. x @ r) (strip_text p s)"
  by (simp add: strip_text_def)

text \<open>A text is not mistaken for one that is tried before it.\<close>

definition before :: "sql_atom \<Rightarrow> string list" where
  "before a = ''('' # map atom_text (takeWhile (\<lambda>b. b \<noteq> a) [At_ref, At_created, At_join, At_archived, At_eq, At_contains])"

lemma atoms_distinct: "\<forall>p\<in>set (before a). length p \<le> length (atom_text a) \<and> strip_text p (atom_text a) = None"
proof -
  have "list_all (\<lambda>a. list_all (\<lambda>p. length p \<le> length (atom_text a) \<and> strip_text p (atom_text a) = None) (before a))
      [At_ref, At_created, At_join, At_archived, At_eq, At_contains]"
    by code_simp
  moreover have "a \<in> set [At_ref, At_created, At_join, At_archived, At_eq, At_contains]" by (cases a) simp_all
  ultimately show ?thesis unfolding list_all_iff by blast
qed

lemma leaf_loop_finds:
  "a \<in> set as \<Longrightarrow> \<forall>p\<in>set (map atom_text (takeWhile (\<lambda>b. b \<noteq> a) as)). length p \<le> length (atom_text a) \<and> strip_text p (atom_text a) = None \<Longrightarrow>
    leaf_loop as (atom_text a @ r) = Some (Sql_leaf a, r)"
proof (induction as)
  case (Cons b as)
  show ?case
  proof (cases "b = a")
    case False
    then have "strip_text (atom_text b) (atom_text a @ r) = None" using Cons.prems(2) by (simp add: strip_text_append)
    then show ?thesis using Cons False by simp
  qed simp
qed simp

lemma sql_prim_leaf: "sql_prim (Suc n) (atom_text a @ r) = Some (Sql_leaf a, r)"
proof -
  have d: "strip_text ''('' (atom_text a) = None \<and> length ''('' \<le> length (atom_text a)"
    and e: "\<forall>p\<in>set (map atom_text (takeWhile (\<lambda>b. b \<noteq> a) [At_ref, At_created, At_join, At_archived, At_eq, At_contains])).
      length p \<le> length (atom_text a) \<and> strip_text p (atom_text a) = None"
    using atoms_distinct [of a] unfolding before_def list.set ball_simps by blast+
  have "strip_text ''('' (atom_text a @ r) = None" using d by (simp only: strip_text_append option.map)
  moreover have "a \<in> set [At_ref, At_created, At_join, At_archived, At_eq, At_contains]" by (cases a) simp_all
  then have "sql_leaf (atom_text a @ r) = Some (Sql_leaf a, r)"
    unfolding sql_leaf_def using e by (rule leaf_loop_finds)
  ultimately show ?thesis by simp
qed

definition ends :: "string \<Rightarrow> bool" where
  "ends r = (strip_text '' and '' r = None \<and> strip_text '' or '' r = None)"

lemma ends_close [simp]: "ends ('')'' @ r)"
  by (simp add: ends_def strip_text_def)

lemma paren:
  assumes "sql_or f (s @ '')'' @ r) = Some (e, '')'' @ r)"
  shows "sql_prim (Suc f) (''('' @ s @ '')'' @ r) = Some (e, r)"
  using assms strip_text_self [of "''(''" "s @ '')'' @ r"] strip_text_self [of "'')''" r] by simp

lemma cnd_text_leaf:
  "cnd_text (Ref_cnd ref) = atom_text At_ref" "cnd_text (Eq_cnd key val) = atom_text At_eq"
  "cnd_text (Contains_cnd key needle) = atom_text At_contains"
  by (simp_all add: ref_cnd_text_def eq_cnd_text_def contains_cnd_text_def)

lemma leaf_and: "ends r \<Longrightarrow> sql_and (Suc (Suc f)) (atom_text a @ r) = Some (Sql_leaf a, r)"
  by (simp add: sql_prim_leaf ends_def del: sql_prim.simps)

lemma leaf_or: "ends r \<Longrightarrow> sql_or (Suc (Suc (Suc f))) (atom_text a @ r) = Some (Sql_leaf a, r)"
  by (simp add: leaf_and del: sql_and.simps) (simp add: ends_def)

lemma paren_and:
  assumes "sql_or f (s @ '')'' @ r) = Some (e, '')'' @ r)" "strip_text '' and '' r = None"
  shows "sql_and (Suc (Suc f)) (''('' @ s @ '')'' @ r) = Some (e, r)"
  using paren [OF assms(1)] assms(2) by (simp only: sql_and.simps option.case prod.case)

lemma paren_or:
  assumes "sql_or f (s @ '')'' @ r) = Some (e, '')'' @ r)" "ends r"
  shows "sql_or (Suc (Suc (Suc f))) (''('' @ s @ '')'' @ r) = Some (e, r)"
  using paren_and [OF assms(1)] assms(2) unfolding ends_def by (simp only: sql_or.simps option.case prod.case)

lemma join_and:
  assumes l: "sql_or (Suc f) (s @ '')'' @ '' and '' @ ''('' @ u @ '')'' @ r) = Some (e, '')'' @ '' and '' @ ''('' @ u @ '')'' @ r)"
    and u: "sql_or f (u @ '')'' @ r) = Some (e', '')'' @ r)" and r: "ends r"
  shows "sql_and (Suc (Suc (Suc f))) (''('' @ s @ '')'' @ '' and '' @ ''('' @ u @ '')'' @ r) = Some (Sql_and e e', r)"
proof -
  have "sql_prim (Suc (Suc f)) (''('' @ s @ '')'' @ '' and '' @ ''('' @ u @ '')'' @ r) = Some (e, '' and '' @ ''('' @ u @ '')'' @ r)"
    by (rule paren [OF l])
  moreover have "sql_and (Suc (Suc f)) (''('' @ u @ '')'' @ r) = Some (e', r)"
    using paren_and [OF u] r by (simp only: ends_def)
  ultimately show ?thesis
    by (simp only: sql_and.simps(2) [of "Suc (Suc f)"] option.case prod.case strip_text_self)
qed

lemma join_or:
  assumes l: "sql_or f (s @ '')'' @ '' or '' @ ''('' @ u @ '')'' @ r) = Some (e, '')'' @ '' or '' @ ''('' @ u @ '')'' @ r)"
    and u: "sql_or g (u @ '')'' @ r) = Some (e', '')'' @ r)" and r: "ends r"
    and g: "Suc (Suc f) = Suc (Suc (Suc g))"
  shows "sql_or (Suc (Suc (Suc f))) (''('' @ s @ '')'' @ '' or '' @ ''('' @ u @ '')'' @ r) = Some (Sql_or e e', r)"
proof -
  have "strip_text '' and '' ('' or '' @ ''('' @ u @ '')'' @ r) = None" by (simp add: strip_text_def)
  then have "sql_and (Suc (Suc f)) (''('' @ s @ '')'' @ '' or '' @ ''('' @ u @ '')'' @ r) = Some (e, '' or '' @ ''('' @ u @ '')'' @ r)"
    by (rule paren_and [OF l])
  moreover have "sql_or (Suc (Suc f)) (''('' @ u @ '')'' @ r) = Some (e', r)"
    unfolding g by (rule paren_or [OF u r])
  ultimately show ?thesis
    by (simp only: sql_or.simps(2) [of "Suc (Suc f)"] option.case prod.case strip_text_self)
qed

lemma sql_or_step: "sql_and f s = Some (e, r) \<Longrightarrow> ends r \<Longrightarrow> sql_or (Suc f) s = Some (e, r)"
  unfolding ends_def by (simp only: sql_or.simps option.case prod.case)

definition is_or :: "evr_attr_query_node \<Rightarrow> bool" where
  "is_or n = (case n of Bool_or _ _ \<Rightarrow> True | _ \<Rightarrow> False)"

lemma leaf_parse:
  assumes "3 \<le> Suc f" "ends r"
  shows "sql_or (Suc f) (atom_text a @ r) = Some (Sql_leaf a, r) \<and> sql_and f (atom_text a @ r) = Some (Sql_leaf a, r)"
proof -
  obtain g where "f = Suc (Suc g)" using assms(1) that [of "f - 2"] by simp
  then show ?thesis using leaf_and [OF assms(2)] leaf_or [OF assms(2)] by blast
qed

text \<open>Within parentheses, and after the conditions that hold for every query.\<close>

lemma parse_cnd:
  "depth n \<le> Suc f \<Longrightarrow> ends r \<Longrightarrow> sql_or (Suc f) (cnd_text n @ r) = Some (cnd_sql n, r) \<and>
    (\<not> is_or n \<longrightarrow> sql_and f (cnd_text n @ r) = Some (cnd_sql n, r))"
proof (induction n arbitrary: f r)
  case (Bool_and l u)
  have "3 \<le> depth l" by (cases l) simp_all
  then obtain h where f: "f = Suc (Suc (Suc (Suc h)))" and d: "depth l \<le> Suc (Suc h)" "depth u \<le> Suc h"
    using that [of "f - 4"] Bool_and.prems(1) by simp
  have "sql_or (Suc (Suc h)) (cnd_text l @ '')'' @ '' and '' @ ''('' @ cnd_text u @ '')'' @ r)
      = Some (cnd_sql l, '')'' @ '' and '' @ ''('' @ cnd_text u @ '')'' @ r)"
    using Bool_and.IH(1) [OF d(1) ends_close] by blast
  moreover have "sql_or (Suc h) (cnd_text u @ '')'' @ r) = Some (cnd_sql u, '')'' @ r)"
    using Bool_and.IH(2) [OF d(2) ends_close] by blast
  ultimately have "sql_and f (''('' @ cnd_text l @ '')'' @ '' and '' @ ''('' @ cnd_text u @ '')'' @ r)
      = Some (Sql_and (cnd_sql l) (cnd_sql u), r)"
    unfolding f using Bool_and.prems(2) by (rule join_and)
  then have "sql_and f (cnd_text (Bool_and l u) @ r) = Some (cnd_sql (Bool_and l u), r)" by simp
  then show ?case using sql_or_step Bool_and.prems(2) by blast
next
  case (Bool_or l u)
  have "3 \<le> depth l" by (cases l) simp_all
  then obtain h where f: "f = Suc (Suc (Suc (Suc h)))" and d: "depth l \<le> Suc (Suc h)" "depth u \<le> Suc h"
    using that [of "f - 4"] Bool_or.prems(1) by simp
  have "sql_or (Suc (Suc h)) (cnd_text l @ '')'' @ '' or '' @ ''('' @ cnd_text u @ '')'' @ r)
      = Some (cnd_sql l, '')'' @ '' or '' @ ''('' @ cnd_text u @ '')'' @ r)"
    using Bool_or.IH(1) [OF d(1) ends_close] by blast
  moreover have "sql_or (Suc h) (cnd_text u @ '')'' @ r) = Some (cnd_sql u, '')'' @ r)"
    using Bool_or.IH(2) [OF d(2) ends_close] by blast
  ultimately have "sql_or (Suc f) (''('' @ cnd_text l @ '')'' @ '' or '' @ ''('' @ cnd_text u @ '')'' @ r)
      = Some (Sql_or (cnd_sql l) (cnd_sql u), r)"
    unfolding f using Bool_or.prems(2) by (rule join_or) simp
  then show ?case by (simp add: is_or_def)
qed (simp_all only: depth.simps cnd_text_leaf cnd_sql.simps leaf_parse simp_thms)

text \<open>The length of a text is enough for the recursion.\<close>

lemma depth_length: "depth n \<le> length (cnd_text n)"
  by (induction n) (simp_all add: ref_cnd_text_def eq_cnd_text_def contains_cnd_text_def)

lemma and_atom:
  assumes "sql_and (Suc g) s = Some (e, r)"
  shows "sql_and (Suc (Suc g)) (atom_text a @ '' and '' @ s) = Some (Sql_and (Sql_leaf a) e, r)"
  using assms sql_prim_leaf [of g a "'' and '' @ s"]
  by (simp only: sql_and.simps(2) [of "Suc g"] option.case prod.case strip_text_self)

lemma and_base:
  assumes "sql_and (Suc g) s = Some (e, r)"
  shows "sql_and (Suc (Suc (Suc (Suc g)))) (atom_text At_join @ '' and '' @ atom_text At_created @ '' and '' @ atom_text At_archived @ '' and '' @ s)
    = Some (with_base e, r)"
  unfolding with_base_def by (intro and_atom assms)

lemma ends_order: "ends order_text"
  by code_simp

lemma prefix_text:
  "sql_prefix = select_text @ atom_text At_join @ '' and '' @ atom_text At_created @ '' and '' @ atom_text At_archived"
  "sql_suffix = order_text"
  by code_simp+

lemma parse_statement: "sql_or (length s) s = Some (e, order_text) \<Longrightarrow> sql_statement (select_text @ s) = Some e"
  by (simp only: sql_statement_def strip_text_self option.case prod.case simp_thms if_True)

lemma statement_of_query: "sql_statement (sql_text root) = Some (root_sql root)"
proof (cases root)
  case None
  let ?s = "atom_text At_join @ '' and '' @ atom_text At_created @ '' and '' @ atom_text At_archived @ order_text"
  obtain g where g: "length ?s = Suc (Suc (Suc (Suc (Suc g))))" by (simp add: order_text_def)
  have "sql_and (Suc (Suc g)) (atom_text At_archived @ order_text) = Some (Sql_leaf At_archived, order_text)"
    by (rule leaf_and [OF ends_order])
  then have "sql_and (Suc (Suc (Suc (Suc g)))) ?s = Some (root_sql root, order_text)"
    unfolding None root_sql_def option.case by (intro and_atom)
  from sql_or_step [OF this ends_order] show ?thesis
    using parse_statement [of ?s "root_sql root"] by (simp only: g None sql_text_def prefix_text option.case append_assoc append_Nil)
next
  case (Some n)
  let ?s = "atom_text At_join @ '' and '' @ atom_text At_created @ '' and '' @ atom_text At_archived @ '' and '' @ cnd_text n @ order_text"
  have t: "sql_text root = select_text @ ?s" by (simp only: Some sql_text_def prefix_text option.case append_assoc)
  have "length (cnd_text n) + 10 \<le> length ?s" by simp
  then obtain g where g: "length ?s = Suc (Suc (Suc (Suc (Suc g))))" and d: "depth n + 5 \<le> g + 5"
    using depth_length [of n] that [of "length ?s - 5"] by simp
  show ?thesis
  proof (cases "is_or n")
    case False
    then have "sql_and (Suc g) (cnd_text n @ order_text) = Some (cnd_sql n, order_text)"
      using parse_cnd [of n "Suc g" order_text] d ends_order by simp
    moreover have "root_sql root = with_base (cnd_sql n)" using False by (cases n) (simp_all add: Some root_sql_def is_or_def)
    ultimately have "sql_and (Suc (Suc (Suc (Suc g)))) ?s = Some (root_sql root, order_text)" using and_base by simp
    from sql_or_step [OF this ends_order] show ?thesis unfolding t by (intro parse_statement) (simp only: g)
  next
    case True
    then obtain l u where n: "n = Bool_or l u" by (cases n) (simp_all add: is_or_def)
    let ?u = "''('' @ cnd_text u @ '')'' @ order_text"
    have "3 \<le> depth l" by (cases l) simp_all
    then obtain h where h: "g = Suc (Suc h)" "depth l \<le> Suc h" "depth u \<le> Suc h" using d n that [of "g - 2"] by simp
    have "sql_or (Suc h) (cnd_text l @ '')'' @ '' or '' @ ?u) = Some (cnd_sql l, '')'' @ '' or '' @ ?u)"
      using parse_cnd [OF h(2) ends_close] by blast
    moreover have "strip_text '' and '' ('' or '' @ ?u) = None" by (simp add: strip_text_def)
    ultimately have "sql_and (Suc g) (''('' @ cnd_text l @ '')'' @ '' or '' @ ?u) = Some (cnd_sql l, '' or '' @ ?u)"
      unfolding h(1) by (rule paren_and)
    moreover have "cnd_text n @ order_text = ''('' @ cnd_text l @ '')'' @ '' or '' @ ?u" by (simp add: n)
    ultimately have a: "sql_and (Suc (Suc (Suc (Suc g)))) ?s = Some (with_base (cnd_sql l), '' or '' @ ?u)"
      using and_base by metis
    have "sql_or (Suc (Suc (Suc h))) (cnd_text u @ '')'' @ order_text) = Some (cnd_sql u, '')'' @ order_text)"
      using parse_cnd [of u "Suc (Suc h)" "'')'' @ order_text"] h(3) ends_close [of order_text] by simp
    then have "sql_or (Suc (Suc (Suc (Suc g)))) ?u = Some (cnd_sql u, order_text)"
      unfolding h(1) by (rule paren_or [OF _ ends_order])
    then have "sql_or (length ?s) ?s = Some (Sql_or (with_base (cnd_sql l)) (cnd_sql u), order_text)"
      using a by (simp only: g sql_or.simps(2) [of "Suc (Suc (Suc (Suc g)))"] option.case prod.case strip_text_self)
    moreover have "root_sql root = Sql_or (with_base (cnd_sql l)) (cnd_sql u)" by (simp add: Some n root_sql_def)
    ultimately show ?thesis unfolding t by (intro parse_statement) simp
  qed
qed

section \<open>The bound values\<close>

primrec cnd_values :: "evr_time \<Rightarrow> evr_attr_query_node \<Rightarrow> sql_value list" where
  "cnd_values t (Ref_cnd ref) = [Sql_blob (take evr_claim_ref_size ref)]"
| "cnd_values t (Eq_cnd key val) = [Sql_text key, Sql_text val, Sql_int (sint t), Sql_int (sint t)]"
| "cnd_values t (Contains_cnd key needle) = [Sql_text key, Sql_text needle, Sql_int (sint t), Sql_int (sint t)]"
| "cnd_values t (Bool_and l r) = cnd_values t l @ cnd_values t r"
| "cnd_values t (Bool_or l r) = cnd_values t l @ cnd_values t r"

definition root_values :: "evr_time \<Rightarrow> evr_attr_query_node option \<Rightarrow> sql_value list" where
  "root_values t root = [Sql_int (sint t), Sql_int (sint t)] @ (case root of None \<Rightarrow> [] | Some n \<Rightarrow> cnd_values t n)"

lemma bind_value_Some: "bind_value ok v vs = Some vs' \<Longrightarrow> vs' = vs @ [v]"
  by (simp add: bind_value_def split: if_splits)

lemma bind_cnd_values: "bind_cnd ok t n vs = Some vs' \<Longrightarrow> vs' = vs @ cnd_values t n"
  by (induction n arbitrary: vs vs')
    (auto simp: evr_bind_ref_cnd_def evr_bind_eq_cnd_def evr_bind_contains_cnd_def dest!: bind_value_Some split: Option.bind_splits,
      (metis append.assoc)+)

lemma bind_query_values:
  assumes "bind_query ok q = Some vs"
  shows "vs = root_values (aq_effective_time q) (aq_root q) @ [Sql_int (sint (aq_limit q)), Sql_int (sint (aq_offset q))]"
  using assms unfolding bind_query_def root_values_def
  by (cases "aq_root q") (auto dest!: bind_value_Some bind_cnd_values split: Option.bind_splits)

lemma length_cnd_values: "length (cnd_values t n) = sql_params (cnd_sql n)"
  by (induction n) simp_all

lemma length_root_values: "length (root_values t root) = sql_params (root_sql root)"
  by (auto simp: root_values_def root_sql_def with_base_def length_cnd_values split: option.split evr_attr_query_node.split)

section \<open>What is found\<close>

text \<open>\<open>at key\<close> are the values of the key for the seed at the time of the query.\<close>

primrec query_holds ::
  "(string \<Rightarrow> string set) \<Rightarrow> (string \<Rightarrow> string \<Rightarrow> bool) \<Rightarrow> bytes \<Rightarrow> evr_attr_query_node \<Rightarrow> bool" where
  "query_holds at contains seed (Ref_cnd ref) = (seed = take evr_claim_ref_size ref)"
| "query_holds at contains seed (Eq_cnd key val) = (val \<in> at key)"
| "query_holds at contains seed (Contains_cnd key needle) = (\<exists>v\<in>at key. contains needle v)"
| "query_holds at contains seed (Bool_and l r) = (query_holds at contains seed l \<and> query_holds at contains seed r)"
| "query_holds at contains seed (Bool_or l r) = (query_holds at contains seed l \<or> query_holds at contains seed r)"

text \<open>A seed is visible when a claim set that was created by then claims it and it is not archived yet.\<close>

definition visible :: "attr_tables \<Rightarrow> evr_time \<Rightarrow> bytes \<Rightarrow> bool" where
  "visible T t seed = ((\<exists>ref cs. t_claim T ref = Some seed \<and> t_claim_set T (take evr_blob_ref_size ref) = Some cs \<and>
      sint (cs_created cs) \<le> sint t) \<and>
    (case t_claim_archive T seed of None \<Rightarrow> True | Some u \<Rightarrow> sint t < sint u))"

definition claimed :: "attr_tables \<Rightarrow> bytes \<Rightarrow> bool" where
  "claimed T seed = (seed \<in> ran (t_claim T) \<and> t_claim_set T \<noteq> Map.empty)"

lemma hit_vals:
  "table_hit T seed (\<lambda>r. ar_key r = k \<and> P (ar_val_str r) \<and> row_between (sint t) (sint t) r) \<longleftrightarrow>
    (\<exists>x\<in>siblings T seed k. valid_at t (snd x) \<and> P (ar_val_str (snd x)))"
  by (auto simp: table_hit_def siblings_def valid_at_def row_between_def split: option.splits)

lemma eval_cnd:
  "sql_eval (table_hit T) arch contains ref seed csr cs (cnd_sql n) (cnd_values t n @ rest) =
    query_holds (\<lambda>k. vals T seed k t) contains seed n"
proof (induction n arbitrary: rest)
  case (Eq_cnd key val)
  then show ?case
    using hit_vals [of T seed key "\<lambda>x. x = Some val" t] by (simp add: vals_def numeral_eq_Suc)
next
  case (Contains_cnd key needle)
  have "(\<exists>v\<in>vals T seed key t. contains needle v) \<longleftrightarrow>
      (\<exists>x\<in>siblings T seed key. valid_at t (snd x) \<and> (case ar_val_str (snd x) of None \<Rightarrow> False | Some v \<Rightarrow> contains needle v))"
    by (auto simp: vals_def split: option.splits)
  then show ?case
    using hit_vals [of T seed key "\<lambda>x. case x of None \<Rightarrow> False | Some v \<Rightarrow> contains needle v" t] by (simp add: numeral_eq_Suc)
qed (simp_all flip: length_cnd_values [of t])

lemma eval_base:
  "sql_eval (table_hit T) (t_claim_archive T) contains ref seed csr cs (with_base (cnd_sql n)) (root_values t (Some n) @ rest) =
    (csr = take evr_blob_ref_size ref \<and> sint (cs_created cs) \<le> sint t \<and>
     (case t_claim_archive T seed of None \<Rightarrow> True | Some u \<Rightarrow> sint t < sint u) \<and>
     query_holds (\<lambda>k. vals T seed k t) contains seed n)"
  by (auto simp: with_base_def root_values_def eval_cnd split: option.split)

lemma selected_base:
  "{seed. \<exists>ref csr cs. t_claim T ref = Some seed \<and> t_claim_set T csr = Some cs \<and> csr = take evr_blob_ref_size ref \<and>
      sint (cs_created cs) \<le> sint t \<and> (case t_claim_archive T seed of None \<Rightarrow> True | Some u \<Rightarrow> sint t < sint u) \<and> P seed}
    = {seed. visible T t seed \<and> P seed}"
  unfolding visible_def by blast

lemma selected_all: "sql_selected T contains (root_sql None) (root_values t None) = {seed. visible T t seed}"
  unfolding sql_selected_def visible_def
  by (auto simp: root_sql_def root_values_def split: option.splits) blast+

lemma selected_cnd:
  "\<not> is_or n \<Longrightarrow> sql_selected T contains (root_sql (Some n)) (root_values t (Some n)) =
    {seed. visible T t seed \<and> query_holds (\<lambda>k. vals T seed k t) contains seed n}"
proof -
  assume "\<not> is_or n"
  then have "root_sql (Some n) = with_base (cnd_sql n)" by (cases n) (simp_all add: root_sql_def is_or_def)
  then show ?thesis
    using eval_base [where rest = "[]"] selected_base [of T t] by (simp only: sql_selected_def append_Nil2)
qed

lemma selected_or:
  "sql_selected T contains (root_sql (Some (Bool_or l r))) (root_values t (Some (Bool_or l r))) =
    {seed. visible T t seed \<and> query_holds (\<lambda>k. vals T seed k t) contains seed l} \<union>
    {seed. claimed T seed \<and> query_holds (\<lambda>k. vals T seed k t) contains seed r}"
proof -
  let ?E = "\<lambda>ref seed csr cs e vs. sql_eval (table_hit T) (t_claim_archive T) contains ref seed csr cs e vs"
  have v: "root_values t (Some (Bool_or l r)) = root_values t (Some l) @ cnd_values t r" by (simp add: root_values_def)
  have p: "sql_params (with_base (cnd_sql l)) = length (root_values t (Some l))"
    by (simp add: with_base_def root_values_def length_cnd_values)
  have "?E ref seed csr cs (root_sql (Some (Bool_or l r))) (root_values t (Some (Bool_or l r))) \<longleftrightarrow>
      ?E ref seed csr cs (with_base (cnd_sql l)) (root_values t (Some l) @ cnd_values t r) \<or>
      ?E ref seed csr cs (cnd_sql r) (cnd_values t r @ [])" for ref seed csr cs
    by (simp add: root_sql_def v p)
  then have "sql_selected T contains (root_sql (Some (Bool_or l r))) (root_values t (Some (Bool_or l r))) =
      {seed. \<exists>ref csr cs. t_claim T ref = Some seed \<and> t_claim_set T csr = Some cs \<and>
        ?E ref seed csr cs (with_base (cnd_sql l)) (root_values t (Some l) @ cnd_values t r)} \<union>
      {seed. \<exists>ref csr cs. t_claim T ref = Some seed \<and> t_claim_set T csr = Some cs \<and>
        query_holds (\<lambda>k. vals T seed k t) contains seed r}"
    unfolding sql_selected_def eval_cnd by blast
  moreover have "{seed. \<exists>ref csr cs. t_claim T ref = Some seed \<and> t_claim_set T csr = Some cs \<and> P seed} = {seed. claimed T seed \<and> P seed}" for P
    by (auto simp: claimed_def ran_def)
  ultimately show ?thesis unfolding eval_base selected_base by simp
qed

section \<open>The visits\<close>

definition collect_seed ::
  "(bytes \<times> (string \<times> string) list) list \<Rightarrow> evr_claim_ref \<Rightarrow> (string \<times> string) list \<Rightarrow> evr_code \<times> (bytes \<times> (string \<times> string) list) list" where
  "collect_seed c seed kvs = (Evr_ok, c @ [(seed, kvs)])"

definition selected_attrs :: "c_int option \<Rightarrow> attr_tables \<Rightarrow> evr_time \<Rightarrow> bytes \<Rightarrow> (string \<times> string) set" where
  "selected_attrs selector T t seed = (if selector = Some evr_attr_selector_all then {(k, v). v \<in> vals T seed k t} else {})"

lemma visit_selected:
  "evr_visit_attr_query (evr_collect_selected_attrs_visitor malloc) ended kvs (a, c) = (Evr_ok, failed, a', c') \<Longrightarrow>
    ended \<and> c' = c @ kvs"
proof (induction kvs arbitrary: a c)
  case (Cons kv kvs)
  obtain r a1 c1 where v: "evr_collect_selected_attrs_visitor malloc (a, c) (fst kv) (snd kv) = (r, a1, c1)"
    by (metis prod_cases3)
  have "r = Evr_ok" using Cons.prems v by (auto split: if_splits)
  then have "c1 = c @ [kv]" using v by (auto simp: evr_collect_selected_attrs_visitor_def split: if_splits)
  then have "evr_visit_attr_query (evr_collect_selected_attrs_visitor malloc) ended kvs (a1, c @ [kv]) = (Evr_ok, failed, a', c')"
    using Cons.prems v \<open>r = Evr_ok\<close> by simp
  from Cons.IH [OF this] show ?case by simp
qed (auto split: if_splits)

context sqlite_attr
begin

lemma collect_selected:
  assumes "evr_collect_selected_attrs S env d selector t seed forked allocated = (Ret Evr_ok, f', a', kvs)"
    and len: "length seed = evr_claim_ref_size"
  shows "set kvs = selected_attrs selector (tabs d) t seed"
proof (cases "selector = Some evr_attr_selector_all")
  case True
  then have "evr_get_seed_attrs S (evr_collect_selected_attrs_visitor (qe_attrs_malloc env)) d t seed (allocated, []) = (Ret Evr_ok, a', kvs)"
    using assms(1) by (auto simp: evr_collect_selected_attrs_def evr_attr_selector_none_def evr_attr_selector_all_def split: if_splits prod.splits)
  then obtain rows ended where r: "ai_find_seed_attrs S d seed t = Some (rows, ended)"
      "evr_visit_attr_query (evr_collect_selected_attrs_visitor (qe_attrs_malloc env)) ended rows (allocated, []) = (Evr_ok, False, a', kvs)"
    using len by (auto simp: evr_get_seed_attrs_def split: option.splits prod.splits if_splits)
  then have "ended" "kvs = rows" using visit_selected by fastforce+
  then have "set kvs = {(k, v). \<exists>i r. (i, r) \<in> siblings (tabs d) seed k \<and> valid_at t r \<and> ar_val_str r = Some v}"
    using r(1) seed_attrs_rows [of d seed t rows] by simp
  moreover have "v \<in> vals (tabs d) seed k t \<longleftrightarrow> (\<exists>i r. (i, r) \<in> siblings (tabs d) seed k \<and> valid_at t r \<and> ar_val_str r = Some v)" for k v
    unfolding vals_def by force
  ultimately show ?thesis using True by (simp add: selected_attrs_def)
next
  case False
  then show ?thesis using assms(1) by (auto simp: evr_collect_selected_attrs_def selected_attrs_def split: option.splits if_splits)
qed

lemma query_rows_visited:
  assumes "query_rows_loop S env collect_seed q d ended seeds forked allocated c = (Ret Evr_ok, f', c')"
  shows "\<exists>new. ended \<and> c' = c @ new \<and> map fst new = seeds \<and>
    (\<forall>(seed, kvs)\<in>set new. set kvs = selected_attrs (aq_selector q) (tabs d) (aq_effective_time q) seed)"
  using assms
proof (induction seeds arbitrary: forked allocated c)
  case (Cons seed seeds)
  obtain r f1 a1 kvs where k: "evr_collect_selected_attrs S env d (aq_selector q) (aq_effective_time q) seed forked allocated = (r, f1, a1, kvs)"
    by (metis prod_cases4)
  have "length seed = evr_claim_ref_size" "r = Ret Evr_ok"
    and rest: "query_rows_loop S env collect_seed q d ended seeds f1 a1 (c @ [(seed, kvs)]) = (Ret Evr_ok, f', c')"
    using Cons.prems k by (auto simp: collect_seed_def [of c] split: if_splits exec.splits)
  then have "set kvs = selected_attrs (aq_selector q) (tabs d) (aq_effective_time q) seed" using collect_selected k by blast
  then show ?case using Cons.IH [OF rest] by force
qed (auto split: if_splits)

end

text \<open>A query that succeeds: its rows, and what they are by the locale of the statement.\<close>

definition report_ok :: "'c \<Rightarrow> evr_code \<Rightarrow> string option \<Rightarrow> evr_code \<times> 'c" where
  "report_ok c parse_res parse_error = (Evr_ok, c)"

lemma query_runs:
  assumes lib: "sqlite_attr S tabs" "sqlite_query (qe_rows env) tabs contains"
    and parse: "qe_parse env query_str = (Some q, err)"
    and run: "evr_attr_query_claims S env report_ok collect_seed query_str d [] = (Ret Evr_ok, found)"
  shows "\<exists>xs. distinct xs \<and>
    set xs = sql_selected (tabs d) contains (root_sql (aq_root q)) (root_values (aq_effective_time q) (aq_root q)) \<and>
    map fst found = sql_window (sint (aq_limit q)) (sint (aq_offset q)) xs \<and>
    (\<forall>(seed, kvs)\<in>set found. set kvs = selected_attrs (aq_selector q) (tabs d) (aq_effective_time q) seed)"
proof -
  have run': "run_query S env collect_seed q d [] = (Ret Evr_ok, found)"
    using run parse by (simp add: evr_attr_query_claims_def report_ok_def)
  then obtain sql vs where sql: "evr_attr_build_sql_query (qe_page_size env) (qe_malloc env) (qe_realloc env) (aq_root q) = Some sql"
    and vs: "bind_query (qe_bind env) q = Some vs"
    by (auto simp: run_query_def split: option.splits if_splits)
  obtain seeds ended where rows: "qe_rows env d (c_text (da_data sql)) vs = (seeds, ended)" by fastforce
  obtain f where loop: "query_rows_loop S env collect_seed q d ended seeds False False [] = (Ret Evr_ok, f, found)"
    using run' sql vs rows by (auto simp: run_query_def split: option.splits if_splits prod.splits)
  have sql_is: "c_text (da_data sql) = sql_text (aq_root q)"
    using build_sql_text [OF sql] c_text_of_bytes [OF no_zero_sql_text] by simp
  obtain new where new: "ended" "found = new" "map fst new = seeds"
      "\<forall>(seed, kvs)\<in>set new. set kvs = selected_attrs (aq_selector q) (tabs d) (aq_effective_time q) seed"
    using sqlite_attr.query_rows_visited [OF lib(1) loop] by auto
  have "qe_rows env d (sql_text (aq_root q)) (root_values (aq_effective_time q) (aq_root q) @
      [Sql_int (sint (aq_limit q)), Sql_int (sint (aq_offset q))]) = (seeds, True)"
    using rows sql_is bind_query_values [OF vs] new(1) by simp
  from sqlite_query.rows_selected [OF lib(2) statement_of_query length_root_values this] show ?thesis
    using new by auto
qed

section \<open>An example\<close>

text \<open>When nothing fails, a query without a selector visits the rows of its statement.\<close>

definition calm_env :: "evr_attr_query \<Rightarrow> attr_table_db query_env" where
  "calm_env q = \<lparr>qe_parse = \<lambda>_. (Some q, None), qe_page_size = 4096, qe_malloc = True, qe_realloc = \<lambda>_. True, qe_prepare = True,
    qe_bind = \<lambda>_. True, qe_rows = list_rows (\<lambda>n v. n = v), qe_fork = True, qe_fork_prepare = True, qe_attrs_malloc = True, qe_close = True\<rparr>"

lemma append_calm: "\<exists>da'. evr_attr_build_sql_append (\<lambda>_. True) cnd da = Some da'"
  by (simp add: evr_attr_build_sql_append_def write_n_dynamic_array_def grow_dynamic_array_at_least_def Let_def)

lemma append_cnd_calm: "\<exists>da'. append_cnd (\<lambda>_. True) n da = Some da'"
proof (induction n arbitrary: da)
  case (Bool_and l r)
  then show ?case using append_calm unfolding append_cnd.simps evr_append_bool_def by (metis Option.bind_lunit)
next
  case (Bool_or l r)
  then show ?case using append_calm unfolding append_cnd.simps evr_append_bool_def by (metis Option.bind_lunit)
qed (simp_all add: append_calm)

lemma build_calm: "\<exists>da. evr_attr_build_sql_query page True (\<lambda>_. True) root = Some da"
proof -
  obtain a where a: "alloc_dynamic_array page True 4096 = Some a" by (simp add: alloc_dynamic_array_def Let_def)
  obtain b where b: "evr_attr_build_sql_append (\<lambda>_. True) sql_prefix a = Some b" using append_calm by blast
  obtain x where x: "evr_attr_build_sql_append (\<lambda>_. True) '' and '' b = Some x" using append_calm by blast
  obtain c where c: "(case root of None \<Rightarrow> Some b | Some n \<Rightarrow> append_cnd (\<lambda>_. True) n x) = Some c"
    using append_cnd_calm by (cases root) auto
  have "\<exists>da. write_n_dynamic_array True c y = Some da" for y
    by (simp add: write_n_dynamic_array_def grow_dynamic_array_at_least_def Let_def)
  then show ?thesis using a b x c by (cases root) (simp_all add: evr_attr_build_sql_query_def)
qed

lemma bind_calm: "bind_cnd (\<lambda>_. True) t n vs = Some (vs @ cnd_values t n)"
  by (induction n arbitrary: vs)
    (simp_all add: evr_bind_ref_cnd_def evr_bind_eq_cnd_def evr_bind_contains_cnd_def bind_value_def)

lemma loop_calm:
  "aq_selector q = None \<Longrightarrow> \<forall>s\<in>set seeds. length s = evr_claim_ref_size \<Longrightarrow>
    query_rows_loop S env collect_seed q d True seeds f a c = (Ret Evr_ok, f, c @ map (\<lambda>s. (s, [])) seeds)"
  by (induction seeds arbitrary: c) (simp_all add: evr_collect_selected_attrs_def collect_seed_def)

lemma calm_query:
  assumes "aq_selector q = None"
    and rows: "sql_window (sint (aq_limit q)) (sint (aq_offset q)) (list_selected d (\<lambda>n v. n = v) (root_sql (aq_root q))
      (root_values (aq_effective_time q) (aq_root q))) = seeds" "\<forall>s\<in>set seeds. length s = evr_claim_ref_size"
  shows "evr_attr_query_claims attr_table_ops (calm_env q) report_ok collect_seed query_str d [] = (Ret Evr_ok, map (\<lambda>s. (s, [])) seeds)"
proof -
  let ?vs = "root_values (aq_effective_time q) (aq_root q)"
  let ?ws = "?vs @ [Sql_int (sint (aq_limit q)), Sql_int (sint (aq_offset q))]"
  obtain da where da: "evr_attr_build_sql_query 4096 True (\<lambda>_. True) (aq_root q) = Some da" using build_calm by blast
  have t: "c_text (da_data da) = sql_text (aq_root q)"
    using build_sql_text [OF da] c_text_of_bytes [OF no_zero_sql_text] by simp
  have v: "bind_query (\<lambda>_. True) q = Some ?ws"
    by (cases "aq_root q") (simp_all add: bind_query_def bind_value_def bind_calm root_values_def)
  have r: "list_rows (\<lambda>n v. n = v) d (sql_text (aq_root q)) ?ws = (seeds, True)"
    using rows(1) by (simp add: list_rows_def statement_of_query flip: length_root_values [of "aq_effective_time q"])
  show ?thesis
    by (simp add: evr_attr_query_claims_def report_ok_def run_query_def calm_env_def da t v r loop_calm [OF assms(1) rows(2)])
qed

definition demo_query :: "evr_attr_query_node \<Rightarrow> evr_attr_query" where
  "demo_query n = \<lparr>aq_selector = None, aq_root = Some n, aq_effective_time = 20, aq_limit = 100, aq_offset = 0\<rparr>"

text \<open>A seed that is archived since the time 5.\<close>

definition archived_db :: attr_table_db where
  "archived_db = \<lparr>tb_attr_def = [], tb_attr = [], tb_claim = [(replicate 30 1, demo_seed)],
    tb_claim_archive = [(demo_seed, 5)], tb_state = [],
    tb_claim_set = [(replicate 28 1, \<lparr>cs_created = 3, cs_fail_counter = 0, cs_last_fail = None\<rparr>)]\<rparr>"

definition visible_db :: attr_table_db where
  "visible_db = archived_db\<lparr>tb_claim_archive := []\<rparr>"

lemma archived_db_inv: "db_inv (table_tabs archived_db) []" "db_inv (table_tabs visible_db) []"
  by (simp_all add: visible_db_def db_inv_def row_bound_def hist_inv_empty table_tabs_def archived_db_def attr_at_def fun_eq_iff dom_def)

lemma archived_db_selected:
  "list_selected visible_db (\<lambda>n v. n = v) (root_sql (Some (Ref_cnd demo_seed))) (root_values 20 (Some (Ref_cnd demo_seed))) = [demo_seed]"
  "list_selected archived_db (\<lambda>n v. n = v) (root_sql (Some (Bool_or (Ref_cnd demo_seed) (Ref_cnd demo_seed))))
    (root_values 20 (Some (Bool_or (Ref_cnd demo_seed) (Ref_cnd demo_seed)))) = [demo_seed]"
  by code_simp+

section \<open>Properties\<close>

text \<open>
  C11: a query finds what matches. On an index that is the history \<open>es\<close>, a query that is not an alternative and that succeeds
  visits the seeds that are visible at its time and match its condition, each once, in the window of its limit and
  offset: an equality holds for the values of the history at that time. With the selector for all attributes each
  seed comes with exactly its values in the history.
\<close>

theorem query_finds_matching:
  fixes q :: evr_attr_query
  defines "t \<equiv> aq_effective_time q"
  assumes lib: "sqlite_attr S tabs" "sqlite_query (qe_rows env) tabs contains" and inv: "db_inv (tabs d) es"
    and parse: "qe_parse env query_str = (Some q, err)" and no_or: "\<forall>n. aq_root q = Some n \<longrightarrow> \<not> is_or n"
    and run: "evr_attr_query_claims S env report_ok collect_seed query_str d [] = (Ret Evr_ok, found)"
  shows "\<exists>xs. distinct xs \<and>
    set xs = {seed. visible (tabs d) t seed \<and>
      (\<forall>n. aq_root q = Some n \<longrightarrow> query_holds (\<lambda>k. history es seed k t) contains seed n)} \<and>
    map fst found = sql_window (sint (aq_limit q)) (sint (aq_offset q)) xs \<and>
    (\<forall>(seed, kvs)\<in>set found. set kvs =
      (if aq_selector q = Some evr_attr_selector_all then {(k, v). v \<in> history es seed k t} else {}))"
proof -
  have h: "vals (tabs d) seed k t = history es seed k t" for seed k using inv by (simp add: db_inv_def hist_inv_def)
  have "sql_selected (tabs d) contains (root_sql (aq_root q)) (root_values t (aq_root q)) = {seed. visible (tabs d) t seed \<and>
      (\<forall>n. aq_root q = Some n \<longrightarrow> query_holds (\<lambda>k. history es seed k t) contains seed n)}"
    using no_or by (cases "aq_root q") (simp_all add: selected_all selected_cnd h)
  note sel = this
  have attrs: "selected_attrs (aq_selector q) (tabs d) t seed =
      (if aq_selector q = Some evr_attr_selector_all then {(k, v). v \<in> history es seed k t} else {})" for seed
    by (simp add: selected_attrs_def h)
  show ?thesis using query_runs [OF lib parse run] unfolding t_def [symmetric] sel attrs .
qed

theorem query_finds_matching_witness:
  "\<exists>xs. distinct xs \<and>
    set xs = {seed. visible (table_tabs visible_db) 20 seed \<and> query_holds (\<lambda>k. history [] seed k 20) (\<lambda>n v. n = v) seed (Ref_cnd demo_seed)} \<and>
    [demo_seed] = sql_window 100 0 xs"
proof -
  let ?q = "demo_query (Ref_cnd demo_seed)"
  have len: "length demo_seed = evr_claim_ref_size" by (simp add: demo_seed_def evr_layout)
  have "evr_attr_query_claims attr_table_ops (calm_env ?q) report_ok collect_seed [] visible_db [] = (Ret Evr_ok, [(demo_seed, [])])"
    using calm_query [of ?q visible_db "[demo_seed]"] archived_db_selected(1) len by (simp add: demo_query_def sql_window_def)
  moreover have "sqlite_query (qe_rows (calm_env ?q)) table_tabs (\<lambda>n v. n = v)"
    using list_query.sqlite_query_axioms by (simp add: calm_env_def)
  ultimately show ?thesis
    using query_finds_matching [OF atbl.sqlite_attr_axioms _ archived_db_inv(2), of "calm_env ?q" "\<lambda>n v. n = v" "[]" ?q None "[(demo_seed, [])]"]
    by (simp add: calm_env_def demo_query_def is_or_def)
qed

text \<open>
  C13: an alternative finds archived seeds. The text of an alternative has no parentheses around it, so that the
  conditions on the claim set and on archived seeds only belong to its left side: a query that is an alternative finds the
  visible seeds that match the left side, and every seed of a claim that matches the right side, archived, created
  later than the time of the query, or not.
\<close>

theorem alternative_finds_archived:
  fixes q :: evr_attr_query
  defines "t \<equiv> aq_effective_time q"
  assumes lib: "sqlite_attr S tabs" "sqlite_query (qe_rows env) tabs contains" and inv: "db_inv (tabs d) es"
    and parse: "qe_parse env query_str = (Some q, err)" and alt: "aq_root q = Some (Bool_or l r)"
    and run: "evr_attr_query_claims S env report_ok collect_seed query_str d [] = (Ret Evr_ok, found)"
  shows "\<exists>xs. distinct xs \<and>
    set xs = {seed. visible (tabs d) t seed \<and> query_holds (\<lambda>k. history es seed k t) contains seed l} \<union>
      {seed. claimed (tabs d) seed \<and> query_holds (\<lambda>k. history es seed k t) contains seed r} \<and>
    map fst found = sql_window (sint (aq_limit q)) (sint (aq_offset q)) xs"
proof -
  have h: "vals (tabs d) seed k t = history es seed k t" for seed k using inv by (simp add: db_inv_def hist_inv_def)
  show ?thesis using query_runs [OF lib parse run] unfolding t_def [symmetric] alt selected_or h by metis
qed

theorem alternative_finds_archived_witness:
  "evr_attr_query_claims attr_table_ops (calm_env (demo_query (Bool_or (Ref_cnd demo_seed) (Ref_cnd demo_seed))))
      report_ok collect_seed [] archived_db [] = (Ret Evr_ok, [(demo_seed, [])]) \<and>
    t_claim_archive (table_tabs archived_db) demo_seed = Some 5 \<and>
    (\<exists>xs. distinct xs \<and> [demo_seed] = sql_window 100 0 xs \<and> demo_seed \<in> {seed. visible (table_tabs archived_db) 20 seed} \<union>
      {seed. claimed (table_tabs archived_db) seed})"
proof -
  let ?q = "demo_query (Bool_or (Ref_cnd demo_seed) (Ref_cnd demo_seed))"
  have len: "length demo_seed = evr_claim_ref_size" by (simp add: demo_seed_def evr_layout)
  have run: "evr_attr_query_claims attr_table_ops (calm_env ?q) report_ok collect_seed [] archived_db [] = (Ret Evr_ok, [(demo_seed, [])])"
    using calm_query [of ?q archived_db "[demo_seed]"] archived_db_selected(2) len by (simp add: demo_query_def sql_window_def)
  have lib: "sqlite_query (qe_rows (calm_env ?q)) table_tabs (\<lambda>n v. n = v)"
    using list_query.sqlite_query_axioms by (simp add: calm_env_def)
  have "qe_parse (calm_env ?q) [] = (Some ?q, None)" "aq_root ?q = Some (Bool_or (Ref_cnd demo_seed) (Ref_cnd demo_seed))"
    by (simp_all add: calm_env_def demo_query_def)
  from alternative_finds_archived [OF atbl.sqlite_attr_axioms lib archived_db_inv(1) this run]
  obtain xs where xs: "distinct xs" "[demo_seed] = sql_window 100 0 xs"
      "set xs \<subseteq> {seed. visible (table_tabs archived_db) 20 seed} \<union> {seed. claimed (table_tabs archived_db) seed}"
    by (auto simp: demo_query_def)
  moreover have "take 100 xs = [demo_seed]" using xs(2) by (simp add: sql_window_def)
  then have "demo_seed \<in> set (take 100 xs)" by simp
  then have "demo_seed \<in> set xs" by (rule in_set_takeD)
  ultimately show ?thesis using run by (auto simp: table_tabs_def archived_db_def)
qed

end
