(* ===== verification/Index_Protocol.thy ===== *)
theory Index_Protocol
  imports Index_Server_Correct Index_Client Attr_Query_Correct
begin

text \<open>
  The two ends of the index protocol together: what the server writes for a search is what the client hands to its visitors.
\<close>

section \<open>Lines from the ring\<close>

context evr_reliable_reader
begin

text \<open>A line that fits into the ring is found.\<close>

lemma buf_read_read_gets:
  assumes "br_valid valid br" "Suc (length (buf_contents br)) < br_buf_size br" "stream (br_f br) \<noteq> []"
    "evr_buf_read_read rd br = (n, br1)"
  shows "0 < n"
proof -
  have inv: "buf_read_inv br" and v: "valid (br_f br)" using assms(1) by (auto simp: br_valid_def)
  have room: "0 < buf_read_room br"
    using assms(2) inv by (auto simp: buf_read_room_def ready_cases buf_read_inv_def split: if_splits)
  obtain bs f where r: "rd (br_f br) (buf_read_room br) = (Read_bytes bs, f)" using rd_ok [OF v] by blast
  have "bs \<noteq> []" using rd_end [OF v room] r assms(3) by auto
  with assms(4) r room show ?thesis by (auto simp: evr_buf_read_read_def Let_def)
qed

lemma read_until_finds:
  assumes "br_valid valid br" "i \<le> length (buf_contents br)" "\<forall>k<i. buf_contents br ! k \<noteq> c"
    "br_stream stream br = l @ c # rest" "c \<notin> set l" "Suc (length l) < br_buf_size br"
  shows "\<exists>br'. read_until_loop rd c True i br = Some (Evr_ok, length l, br') \<and> br_valid valid br' \<and>
    br_stream stream br' = l @ c # rest \<and> length l < length (buf_contents br') \<and> br_buf_size br' = br_buf_size br"
  using assms
proof (induction "br_buf_size br - length (buf_contents br)" arbitrary: br i rule: less_induct)
  case less
  note step = read_until_loop.simps [of rd c True i br]
  have at: "(buf_contents br @ stream (br_f br)) ! k = (l @ c # rest) ! k" for k using less.prems(4) by (simp add: br_stream_def)
  show ?case
  proof (cases "find_sentinel br c i")
    case (Some j)
    note fs = find_sentinel_result(1) [OF this]
    have "(l @ c # rest) ! k \<noteq> c" if "k < j" for k
      using at [of k] fs less.prems(3) that by (cases "k < i") (auto simp: nth_append split: if_splits)
    then have "\<not> length l < j" by force
    moreover have "\<not> j < length l" using at [of j] fs less.prems(5) by (auto simp: nth_append in_set_conv_nth split: if_splits)
    ultimately have "j = length l" by simp
    with Some fs less.prems(1,4) show ?thesis by (simp add: step)
  next
    case None
    obtain n br1 where r: "evr_buf_read_read rd br = (n, br1)" by fastforce
    note rr = buf_read_read_result [OF less.prems(1) r]
    have nc: "\<forall>k<length (buf_contents br). buf_contents br ! k \<noteq> c"
      using find_sentinel_result(2) [OF None] less.prems(3) by (metis not_le)
    have le: "length (buf_contents br) \<le> length l"
      using nc at [of "length l"] by (auto simp: nth_append not_le [symmetric] simp del: length_buf_contents split: if_splits)
    have "stream (br_f br) \<noteq> []" using less.prems(4) le by (auto simp: br_stream_def dest: arg_cong [of _ _ length] simp del: length_buf_contents)
    moreover have "Suc (length (buf_contents br)) < br_buf_size br" using le less.prems(6) by linarith
    ultimately have pos: "0 < n" using buf_read_read_gets [OF less.prems(1) _ _ r] by blast
    from rr pos obtain bs where bs: "buf_contents br1 = buf_contents br @ bs" "bs \<noteq> []" by blast
    have lt: "br_buf_size br1 - length (buf_contents br1) < br_buf_size br - length (buf_contents br)"
      using bs rr room_bounds(2) [of br] less.prems(1) by (cases bs) (auto simp: br_valid_def)
    have mx: "max i (evr_buf_read_bytes_ready br) = length (buf_contents br)" using less.prems(2) by simp
    have pre: "br_valid valid br1" "length (buf_contents br) \<le> length (buf_contents br1)"
      "\<forall>k<length (buf_contents br). buf_contents br1 ! k \<noteq> c" "br_stream stream br1 = l @ c # rest"
      "Suc (length l) < br_buf_size br1"
      using rr bs(1) nc less.prems(4,6) by (simp_all add: nth_append del: length_buf_contents)
    from less.hyps [OF lt pre(1-4) less.prems(5) pre(5)] pos None r mx rr show ?thesis by (simp add: step)
  qed
qed

text \<open>The next line of the stream, its newline included.\<close>

lemma read_line_finds:
  assumes "br_valid valid br" "br_stream stream br = l @ 10 # rest" "10 \<notin> set l" "Suc (length l) < br_buf_size br"
  obtains br' where "read_line rd br = Some (Evr_ok, l @ [10], br')" "br_valid valid br'" "br_stream stream br' = rest"
    "br_buf_size br' = br_buf_size br"
proof -
  from read_until_finds [OF assms(1) _ _ assms(2-4), of 0] obtain br1 where r:
    "evr_buf_read_read_until rd br 10 True = Some (Evr_ok, length l, br1)" "br_valid valid br1"
    "br_stream stream br1 = l @ 10 # rest" "length l < length (buf_contents br1)" "br_buf_size br1 = br_buf_size br"
    by (auto simp: evr_buf_read_read_until_def)
  obtain r2 line br2 where p: "evr_buf_read_pop br1 (length l + 1) = (r2, line, br2)" using prod_cases3 by blast
  have inv: "buf_read_inv br1" using r(2) by (simp add: br_valid_def)
  have "length l + 1 \<le> evr_buf_read_bytes_ready br1" using r(4) by simp
  note pop = buf_read_pop_result [OF inv this p]
  have s: "buf_contents br1 @ stream (br_f br1) = (l @ [10]) @ rest" using r(3) by (simp add: br_stream_def)
  have "take (length l + 1) (buf_contents br1) = take (length l + 1) (buf_contents br1 @ stream (br_f br1))" using r(4) by simp
  also have "\<dots> = l @ [10]" unfolding s by simp
  finally have line: "line = l @ [10]" using pop by simp
  have "drop (length l + 1) (buf_contents br1) @ stream (br_f br1) = drop (length l + 1) (buf_contents br1 @ stream (br_f br1))" using r(4) by simp
  also have "\<dots> = rest" unfolding s by simp
  finally have "br_stream stream br2 = rest" using pop by (simp add: br_stream_def)
  moreover have "br_buf_size br2 = br_buf_size br" using p r(5) by (auto simp: evr_buf_read_pop_def)
  moreover have "br_valid valid br2" using pop r(2) by (simp add: br_valid_def)
  ultimately show ?thesis using that [of br2] r(1) p pop line by (simp add: read_line_def)
qed

end

section \<open>Texts on the wire\<close>

text \<open>A text that is one line, and a result whose lines fit into a ring of \<open>n\<close> bytes.\<close>

definition wire_text :: "string \<Rightarrow> bool" where
  "wire_text s = list_all (\<lambda>c. c \<noteq> CHR 0x0A \<and> c \<noteq> CHR 0x00) s"

definition wire_attr :: "nat \<Rightarrow> string \<times> string \<Rightarrow> bool" where
  "wire_attr n kv = (wire_text (fst kv) \<and> wire_text (snd kv) \<and> CHR ''='' \<notin> set (fst kv) \<and> length (fst kv) + length (snd kv) + 3 < n)"

definition wire_result :: "nat \<Rightarrow> evr_claim_ref \<times> (string \<times> string) list \<Rightarrow> bool" where
  "wire_result n r = (length (fst r) = evr_claim_ref_size \<and> evr_claim_ref_str_size < n \<and> list_all (wire_attr n) (snd r))"

lemma byte_of_char_eq: "(word_of_nat (of_char c) :: byte) = word_of_nat (of_char d) \<longleftrightarrow> c = d"
  using char_byte(1) [of c] char_byte(1) [of d] by metis

lemma text_bytes_simps [simp]:
  "text_bytes [] = []" "text_bytes (s @ t) = text_bytes s @ text_bytes t" "length (text_bytes s) = length s"
  "text_bytes (c # s) = word_of_nat (of_char c) # text_bytes s"
  by (simp_all add: text_bytes_def)

lemma byte_in_text: "word_of_nat (of_char c) \<in> set (text_bytes s) \<longleftrightarrow> c \<in> set s"
  by (induction s) (auto simp: byte_of_char_eq)

lemma newline_in_text: "10 \<in> set (text_bytes s) \<longleftrightarrow> CHR 0x0A \<in> set s"
  using byte_in_text [of "CHR 0x0A" s] by simp

lemma wire_text_no_newline: "wire_text s \<Longrightarrow> 10 \<notin> set (text_bytes s)"
  unfolding newline_in_text by (auto simp: wire_text_def list_all_iff)

lemma wire_text_append [simp]:
  "wire_text (s @ t) = (wire_text s \<and> wire_text t)" "wire_text []"
  "wire_text (c # s) = (c \<noteq> CHR 0x0A \<and> c \<noteq> CHR 0x00 \<and> wire_text s)"
  by (simp_all add: wire_text_def)

lemma c_text_wire: "wire_text s \<Longrightarrow> c_text (text_bytes s) = s"
  by (induction s) (simp_all add: c_text_def char_byte)

lemma wire_text_hex: "wire_text (fmt_hex_loop t)"
proof -
  have "hex_digit c \<noteq> None" if "c \<in> set (fmt_hex_loop t)" for c using that by (induction t) (auto simp: fmt_02x_def)
  then show ?thesis by (force simp: wire_text_def list_all_iff hex_digit_def split: if_splits)
qed

lemma attr_of_attr_line:
  assumes "wire_text k" "wire_text v" "CHR ''='' \<notin> set k"
  shows "attr_of_line (text_bytes (attr_line (k, v))) = Some (k, v)"
proof -
  have eq: "(61 :: byte) \<notin> set (text_bytes k)" using byte_in_text [of "CHR ''=''" k] assms(3) by simp
  have w: "takeWhile (\<lambda>b. b \<noteq> 61) (text_bytes k @ 61 # x) = text_bytes k" "dropWhile (\<lambda>b. b \<noteq> 61) (text_bytes k @ 61 # x) = 61 # x" for x
    using eq by (auto simp: takeWhile_append dropWhile_append)
  have "butlast (tl (text_bytes (attr_line (k, v)))) = text_bytes k @ 61 # text_bytes v"
    by (simp add: attr_line_def butlast_append)
  then show ?thesis by (simp add: attr_of_line_def w c_text_wire assms)
qed

lemma wire_claim_ref: "wire_text (evr_fmt_claim_ref c)" "wire_text (evr_fmt_blob_ref c)"
proof -
  have hex: "hex_char n \<noteq> CHR 0x0A \<and> hex_char n \<noteq> CHR 0x00" for n
    using hex_digit_hex_char [of n] by (auto simp: hex_digit_def split: if_splits)
  show b: "wire_text (evr_fmt_blob_ref c)" for c
    by (simp add: evr_fmt_blob_ref_def evr_blob_ref_str_prefix_def wire_text_hex)
  then show "wire_text (evr_fmt_claim_ref c)" using hex by (simp add: evr_fmt_claim_ref_def fmt_04x_def)
qed

lemma claim_ref_text:
  assumes "length c = evr_claim_ref_size"
  shows "length (evr_fmt_claim_ref c) = evr_claim_ref_str_size - 1" "\<exists>t. evr_fmt_claim_ref c = CHR ''s'' # t"
  using assms by (simp_all add: evr_fmt_claim_ref_def evr_fmt_blob_ref_def evr_blob_ref_str_prefix_def fmt_04x_def evr_layout)

section \<open>Reading a response\<close>

text \<open>Visitors that collect the results.\<close>

type_synonym search_results = "(evr_claim_ref \<times> (string \<times> string) list) list"

definition note_seed :: "search_results seed_visitor" where
  "note_seed c seed = (Evr_ok, c @ [(seed, [])])"

definition note_attr :: "search_results attr_visitor" where
  "note_attr c seed key val = (Evr_ok, butlast c @ [(seed, snd (last c) @ [(key, val)])])"

context evr_reliable_reader
begin

lemma read_search_attrs:
  assumes "br_valid valid br" "br_stream stream br = text_bytes (concat (map attr_line kvs)) @ rest"
    "list_all (wire_attr (br_buf_size br)) kvs"
  shows "\<exists>br'. read_search_loop rd (Some note_seed) (Some note_attr) (Some s) ended br (c @ [(s, done)]) =
      read_search_loop rd (Some note_seed) (Some note_attr) (Some s) ended br' (c @ [(s, done @ kvs)]) \<and>
    br_valid valid br' \<and> br_stream stream br' = rest \<and> br_buf_size br' = br_buf_size br"
  using assms
proof (induction kvs arbitrary: br "done")
  case (Cons kv kvs)
  obtain k v where kv: "kv = (k, v)" by fastforce
  have w: "wire_text k" "wire_text v" "CHR ''='' \<notin> set k" "length k + length v + 3 < br_buf_size br"
    using Cons.prems(3) by (simp_all add: kv wire_attr_def)
  let ?l = "text_bytes ([CHR 0x09] @ k @ ''='' @ v)"
  have al: "text_bytes (attr_line (k, v)) = ?l @ [10]" by (simp add: attr_line_def)
  have "br_stream stream br = ?l @ 10 # (text_bytes (concat (map attr_line kvs)) @ rest)"
    using Cons.prems(2) al by (simp add: kv)
  moreover have "10 \<notin> set ?l" using w(1,2) by (intro wire_text_no_newline) simp
  moreover have "Suc (length ?l) < br_buf_size br" using w(4) by simp
  ultimately obtain br1 where r: "read_line rd br = Some (Evr_ok, ?l @ [10], br1)" "br_valid valid br1"
    "br_stream stream br1 = text_bytes (concat (map attr_line kvs)) @ rest" "br_buf_size br1 = br_buf_size br"
    using read_line_finds [OF Cons.prems(1)] by blast
  have a: "attr_of_line (?l @ [10]) = Some (k, v)" using attr_of_attr_line [OF w(1-3)] al by simp
  have tab: "(?l @ [10]) ! 0 = 9" by simp
  have "read_search_loop rd (Some note_seed) (Some note_attr) (Some s) ended br (c @ [(s, done)]) =
      read_search_loop rd (Some note_seed) (Some note_attr) (Some s) ended br1 (c @ [(s, done @ [(k, v)])])"
    by (subst read_search_loop.simps) (simp only: r(1) a tab option.case prod.case if_True simp_thms note_attr_def, simp)
  moreover have "list_all (wire_attr (br_buf_size br1)) kvs" using Cons.prems(3) r(4) by simp
  note Cons.IH [OF r(2,3) this, of "done @ [(k, v)]"]
  ultimately show ?case using r(4) kv by simp
qed auto

lemma read_search_seed:
  assumes "br_valid valid br" "br_stream stream br = text_bytes (evr_fmt_claim_ref s) @ 10 # rest" "length s = evr_claim_ref_size"
    "evr_claim_ref_str_size < br_buf_size br" "case prev of None \<Rightarrow> True | Some p \<Rightarrow> length p = evr_claim_ref_size"
  shows "\<exists>br'. read_search_loop rd (Some note_seed) (Some note_attr) prev False br c =
      read_search_loop rd (Some note_seed) (Some note_attr) (Some s) False br' (c @ [(s, [])]) \<and>
    br_valid valid br' \<and> br_stream stream br' = rest \<and> br_buf_size br' = br_buf_size br"
proof -
  let ?l = "text_bytes (evr_fmt_claim_ref s)"
  have "10 \<notin> set ?l" by (intro wire_text_no_newline wire_claim_ref)
  moreover have "Suc (length ?l) < br_buf_size br" using assms(4) claim_ref_text(1) [OF assms(3)] by (simp add: evr_layout)
  ultimately obtain br1 where r: "read_line rd br = Some (Evr_ok, ?l @ [10], br1)" "br_valid valid br1"
    "br_stream stream br1 = rest" "br_buf_size br1 = br_buf_size br"
    using read_line_finds [OF assms(1,2)] by blast
  from claim_ref_text(2) [OF assms(3)] have first: "(?l @ [10]) ! 0 \<noteq> 9" "(?l @ [10]) ! 0 \<noteq> 10" by auto
  have "length (case prev of None \<Rightarrow> replicate evr_claim_ref_size 0 | Some p \<Rightarrow> p) = evr_claim_ref_size"
    using assms(5) by (cases prev) simp_all
  note p = parse_fmt_claim_ref [OF assms(3) this]
  have t: "c_text (butlast (?l @ [10])) = evr_fmt_claim_ref s" using c_text_wire [OF wire_claim_ref(1)] by simp
  have "read_search_loop rd (Some note_seed) (Some note_attr) prev False br c =
      read_search_loop rd (Some note_seed) (Some note_attr) (Some s) False br1 (c @ [(s, [])])"
    by (subst read_search_loop.simps) (simp only: r(1) t p first option.case prod.case if_False simp_thms note_seed_def, simp)
  with r show ?thesis by blast
qed

lemma read_search_results:
  assumes "br_valid valid br" "br_stream stream br = text_bytes (concat (map (\<lambda>(s, kvs). result_text s kvs) rs)) @ 10 # rest"
    "list_all (wire_result (br_buf_size br)) rs" "case prev of None \<Rightarrow> True | Some p \<Rightarrow> length p = evr_claim_ref_size" "1 < br_buf_size br"
  shows "\<exists>br'. read_search_loop rd (Some note_seed) (Some note_attr) prev False br c = Some (Evr_ok, br', c @ rs) \<and>
    br_valid valid br' \<and> br_stream stream br' = rest \<and> br_buf_size br' = br_buf_size br"
  using assms
proof (induction rs arbitrary: br prev c)
  case Nil
  then have "br_stream stream br = [] @ 10 # rest" by simp
  then obtain br1 where r: "read_line rd br = Some (Evr_ok, [] @ [10], br1)" "br_valid valid br1" "br_stream stream br1 = rest"
    "br_buf_size br1 = br_buf_size br"
    by (rule read_line_finds [OF Nil.prems(1)]) (use Nil.prems(5) in simp_all)
  have ten: "([] @ [10] :: bytes) ! 0 = 10" "(10 :: byte) \<noteq> 9" by simp_all
  have "read_search_loop rd (Some note_seed) (Some note_attr) prev False br c = Some (Evr_ok, br1, c)"
    by (subst read_search_loop.simps) (simp only: r(1) ten option.case prod.case if_False if_True simp_thms)
  with r(2-4) show ?case by simp
next
  case (Cons x rs)
  obtain s kvs where x: "x = (s, kvs)" by fastforce
  let ?more = "text_bytes (concat (map (\<lambda>(s, kvs). result_text s kvs) rs)) @ 10 # rest"
  have st: "br_stream stream br = text_bytes (evr_fmt_claim_ref s) @ 10 # (text_bytes (concat (map attr_line kvs)) @ ?more)"
    using Cons.prems(2) by (simp add: x result_text_def)
  have w: "length s = evr_claim_ref_size" "evr_claim_ref_str_size < br_buf_size br" "list_all (wire_attr (br_buf_size br)) kvs"
    using Cons.prems(3) by (simp_all add: x wire_result_def)
  from read_search_seed [OF Cons.prems(1) st w(1,2) Cons.prems(4), of c] obtain br1 where b1:
    "read_search_loop rd (Some note_seed) (Some note_attr) prev False br c =
      read_search_loop rd (Some note_seed) (Some note_attr) (Some s) False br1 (c @ [(s, [])])"
    "br_valid valid br1" "br_stream stream br1 = text_bytes (concat (map attr_line kvs)) @ ?more" "br_buf_size br1 = br_buf_size br" by blast
  from read_search_attrs [OF b1(2,3), of s False c "[]"] w(3) b1(4) obtain br2 where b2:
    "read_search_loop rd (Some note_seed) (Some note_attr) (Some s) False br1 (c @ [(s, [])]) =
      read_search_loop rd (Some note_seed) (Some note_attr) (Some s) False br2 (c @ [(s, kvs)])"
    "br_valid valid br2" "br_stream stream br2 = ?more" "br_buf_size br2 = br_buf_size br" by auto
  have "list_all (wire_result (br_buf_size br2)) rs" "1 < br_buf_size br2" using Cons.prems(3,5) b2(4) by simp_all
  from Cons.IH [OF b2(2,3) this(1) _ this(2), of "Some s" "c @ [(s, kvs)]"] w(1) b1(1) b2 x show ?case by auto
qed

text \<open>A whole response; the status line may be any line.\<close>

lemma read_search_response:
  assumes "br_valid valid br" "wire_text status" "Suc (length status) < br_buf_size br" "list_all (wire_result (br_buf_size br)) rs"
    "br_stream stream br = text_bytes (status @ [CHR 0x0A] @ concat (map (\<lambda>(s, kvs). result_text s kvs) rs) @ [CHR 0x0A]) @ rest"
  shows "\<exists>br'. evr_attri_read_search rd (Some note_seed) (Some note_attr) br [] = Some (Evr_ok, br', rs) \<and>
    br_valid valid br' \<and> br_stream stream br' = rest"
proof -
  have s: "br_stream stream br = text_bytes status @ 10 # (text_bytes (concat (map (\<lambda>(s, kvs). result_text s kvs) rs)) @ 10 # rest)"
    using assms(5) by simp
  obtain br1 where r: "read_line rd br = Some (Evr_ok, text_bytes status @ [10], br1)" "br_valid valid br1"
    "br_stream stream br1 = text_bytes (concat (map (\<lambda>(s, kvs). result_text s kvs) rs)) @ 10 # rest" "br_buf_size br1 = br_buf_size br"
    using read_line_finds [OF assms(1) s wire_text_no_newline [OF assms(2)]] assms(3) by auto
  have "list_all (wire_result (br_buf_size br1)) rs" "1 < br_buf_size br1" using assms(3,4) r(4) by simp_all
  from read_search_results [OF r(2,3) this(1) _ this(2), of None "[]"] r(1) show ?thesis
    by (auto simp: evr_attri_read_search_def evr_attri_read_status_def)
qed

end

section \<open>Sending a response\<close>

context evr_writer
begin

lemma send_text_ok:
  assumes "wvalid (ic_socket ctx)" "send_text wr s ctx = (Evr_ok, ctx')"
  shows "wvalid (ic_socket ctx') \<and> sink (ic_socket ctx') = sink (ic_socket ctx) @ text_bytes s"
  using assms write_n_ok [OF assms(1), of "text_bytes s"] by (auto simp: send_text_def split: prod.splits)

text \<open>A query that visits with the socket succeeds only if it does so when it collects, and sends what is collected.\<close>

lemma query_rows_send:
  assumes "query_rows_loop S env (evr_respond_search_result wr) q d ended seeds forked allocated ctx = (Ret Evr_ok, fk, ctx')"
    "wvalid (ic_socket ctx)"
  shows "\<exists>rs. query_rows_loop S env collect_seed q d ended seeds forked allocated c = (Ret Evr_ok, fk, c @ rs) \<and>
    wvalid (ic_socket ctx') \<and> sink (ic_socket ctx') = sink (ic_socket ctx) @ text_bytes (concat (map (\<lambda>(s, kvs). result_text s kvs) rs))"
  using assms
proof (induction seeds arbitrary: forked allocated ctx c)
  case Nil
  then show ?case by (auto split: if_splits)
next
  case (Cons s seeds)
  obtain res fk1 al1 kvs where a: "evr_collect_selected_attrs S env d (aq_selector q) (aq_effective_time q) s forked allocated = (res, fk1, al1, kvs)"
    using prod_cases4 by blast
  obtain r c1 where t: "send_text wr (result_text s kvs) ctx = (r, c1)" by fastforce
  have v: "evr_respond_search_result wr ctx s kvs = (if r \<noteq> Evr_ok then Evr_error else Evr_ok, c1)"
    using t by (simp add: evr_respond_search_result_def)
  from Cons.prems(1) a v have ok: "length s = evr_claim_ref_size" "res = Ret Evr_ok" "r = Evr_ok"
    "query_rows_loop S env (evr_respond_search_result wr) q d ended seeds fk1 al1 c1 = (Ret Evr_ok, fk, ctx')"
    by (auto split: if_splits exec.splits)
  note k = send_text_ok [OF Cons.prems(2) t [unfolded ok(3)]]
  from Cons.IH [OF ok(4), of "c @ [(s, kvs)]"] k obtain rs where
    "query_rows_loop S env collect_seed q d ended seeds fk1 al1 (c @ [(s, kvs)]) = (Ret Evr_ok, fk, c @ (s, kvs) # rs)"
    "wvalid (ic_socket ctx')" "sink (ic_socket ctx') = sink (ic_socket c1) @ text_bytes (concat (map (\<lambda>(s, kvs). result_text s kvs) rs))" by auto
  with ok a k show ?case by (intro exI [of _ "(s, kvs) # rs"]) (simp add: collect_seed_def [of c s kvs])
qed

lemma run_query_send:
  assumes "run_query S env (evr_respond_search_result wr) q d ctx = (Ret Evr_ok, ctx')" "wvalid (ic_socket ctx)"
  shows "\<exists>rs. run_query S env collect_seed q d [] = (Ret Evr_ok, rs) \<and> wvalid (ic_socket ctx') \<and>
    sink (ic_socket ctx') = sink (ic_socket ctx) @ text_bytes (concat (map (\<lambda>(s, kvs). result_text s kvs) rs))"
proof -
  from assms(1) obtain sql vs where sql: "evr_attr_build_sql_query (qe_page_size env) (qe_malloc env) (qe_realloc env) (aq_root q) = Some sql"
    and pr: "qe_prepare env" and vs: "bind_query (qe_bind env) q = Some vs"
    by (auto simp: run_query_def split: option.splits if_splits)
  obtain seeds ended where rows: "qe_rows env d (c_text (da_data sql)) vs = (seeds, ended)" by fastforce
  obtain res fk c1 where l: "query_rows_loop S env (evr_respond_search_result wr) q d ended seeds False False ctx = (res, fk, c1)"
    using prod_cases3 by blast
  have ok: "res = Ret Evr_ok" "\<not> (fk \<and> \<not> qe_close env)" "c1 = ctx'"
    using assms(1) sql pr vs rows l by (auto simp: run_query_def split: if_splits)
  from query_rows_send [OF l [unfolded ok(1,3)] assms(2), of "[]"] obtain rs where
    "query_rows_loop S env collect_seed q d ended seeds False False [] = (Ret Evr_ok, fk, rs)"
    "wvalid (ic_socket ctx')"
    "sink (ic_socket ctx') = sink (ic_socket ctx) @ text_bytes (concat (map (\<lambda>(s, kvs). result_text s kvs) rs))" by auto
  with ok(2) sql pr vs rows show ?thesis by (auto simp: run_query_def)
qed

end

text \<open>The first line of the response to a search, without its newline.\<close>

definition search_status_line :: "'d query_env \<Rightarrow> string \<Rightarrow> string" where
  "search_status_line env q = (case qe_parse env q of
      (None, err) \<Rightarrow> ''ERROR'' @ (case err of None \<Rightarrow> [] | Some m \<Rightarrow> '' '' @ m)
    | (Some _, _) \<Rightarrow> ''OK'')"

context evr_writer
begin

lemma query_claims_send:
  assumes "evr_attr_query_claims S env (evr_respond_search_status wr) (evr_respond_search_result wr) q d ctx = (Ret Evr_ok, ctx')"
    "wvalid (ic_socket ctx)"
  shows "\<exists>rs. evr_attr_query_claims S env report_ok collect_seed q d [] = (Ret Evr_ok, rs) \<and> wvalid (ic_socket ctx') \<and>
    sink (ic_socket ctx') = sink (ic_socket ctx) @
      text_bytes (search_status_line env q @ [CHR 0x0A] @ concat (map (\<lambda>(s, kvs). result_text s kvs) rs))"
proof -
  obtain query err where pq: "qe_parse env q = (query, err)" by fastforce
  show ?thesis
  proof (cases query)
    case None
    obtain r c1 where s: "send_text wr (status_text False err) ctx = (r, c1)" by fastforce
    have ok: "r = Evr_ok" "c1 = ctx'" using assms(1) pq None s
      by (auto simp: evr_attr_query_claims_def evr_respond_search_status_def evr_respond_status_def split: if_splits)
    from send_text_ok [OF assms(2) s [unfolded ok]] pq None show ?thesis
      by (simp add: evr_attr_query_claims_def report_ok_def search_status_line_def status_text_def)
  next
    case (Some aq)
    obtain r c1 where s: "send_text wr (status_text True None) ctx = (r, c1)" by fastforce
    have ok: "r = Evr_ok" "run_query S env (evr_respond_search_result wr) aq d c1 = (Ret Evr_ok, ctx')" using assms(1) pq Some s
      by (auto simp: evr_attr_query_claims_def evr_respond_search_status_def evr_respond_status_def split: if_splits)
    note k = send_text_ok [OF assms(2) s [unfolded ok(1)]]
    from run_query_send [OF ok(2)] k obtain rs where
      "run_query S env collect_seed aq d [] = (Ret Evr_ok, rs)" "wvalid (ic_socket ctx')"
      "sink (ic_socket ctx') = sink (ic_socket c1) @ text_bytes (concat (map (\<lambda>(s, kvs). result_text s kvs) rs))" by blast
    with k pq Some show ?thesis
      by (simp add: evr_attr_query_claims_def report_ok_def search_status_line_def status_text_def)
  qed
qed

lemma search_cmd_sends:
  assumes "evr_work_search_cmd S wr e (Some q) ctx = (Ret Evr_ok, ctx')" "wvalid (ic_socket ctx)"
  shows "\<exists>d rs. ix_open e (evr_fmt_blob_ref (take evr_blob_ref_size (ix_ref e))) = Some d \<and> evr_attr_query_claims S (ix_query e) report_ok collect_seed q d [] = (Ret Evr_ok, rs) \<and>
    sink (ic_socket ctx') = sink (ic_socket ctx) @ text_bytes (search_status_line (ix_query e) q @ [CHR 0x0A] @
      concat (map (\<lambda>(s, kvs). result_text s kvs) rs) @ [CHR 0x0A])"
proof -
  let ?ref = "take evr_blob_ref_size (ix_ref e)"
  have cur: "evr_get_current_index_ref e = Ret (Evr_ok, ?ref)"
    using assms(1) by (auto simp: evr_work_search_cmd_def evr_get_current_index_ref_def split: if_splits)
  obtain d where d: "ix_open e (evr_fmt_blob_ref ?ref) = Some d"
    using assms(1) by (auto simp: evr_work_search_cmd_def cur split: option.splits)
  obtain res c1 where q: "evr_attr_query_claims S (ix_query e) (evr_respond_search_status wr) (evr_respond_search_result wr) q d ctx = (res, c1)"
    by fastforce
  obtain r c2 where m: "send_text wr [CHR 0x0A] c1 = (r, c2)" by fastforce
  have ok: "res = Ret Evr_ok" "r = Evr_ok" "c2 = ctx'"
    using assms(1) d q m by (auto simp: evr_work_search_cmd_def cur free_index_db_def evr_respond_message_end_def split: if_splits exec.splits)
  from query_claims_send [OF q [unfolded ok(1)] assms(2)] obtain rs where
    rs: "evr_attr_query_claims S (ix_query e) report_ok collect_seed q d [] = (Ret Evr_ok, rs)" "wvalid (ic_socket c1)"
    "sink (ic_socket c1) = sink (ic_socket ctx) @ text_bytes (search_status_line (ix_query e) q @ [CHR 0x0A] @
      concat (map (\<lambda>(s, kvs). result_text s kvs) rs))" by blast
  from send_text_ok [OF rs(2) m [unfolded ok(2,3)]] rs d show ?thesis by simp
qed

end

section \<open>Both ends\<close>

lemma search_read_back:
  assumes "evr_writer wr sink wvalid" "wvalid (ic_socket ctx)" "evr_work_search_cmd S wr e (Some q) ctx = (Ret Evr_ok, ctx')"
    "evr_reliable_reader rd stream valid" "buf_read_inv br" "valid (br_f br)"
    "buf_contents br @ stream (br_f br) = drop (length (sink (ic_socket ctx))) (sink (ic_socket ctx')) @ rest"
    "wire_text (search_status_line (ix_query e) q)" "length (search_status_line (ix_query e) q) + 1 < br_buf_size br"
  shows "\<exists>d rs. ix_open e (evr_fmt_blob_ref (take evr_blob_ref_size (ix_ref e))) = Some d \<and>
    evr_attr_query_claims S (ix_query e) report_ok collect_seed q d [] = (Ret Evr_ok, rs) \<and>
    (list_all (wire_result (br_buf_size br)) rs \<longrightarrow>
      (\<exists>br'. evr_attri_read_search rd (Some note_seed) (Some note_attr) br [] = Some (Evr_ok, br', rs) \<and>
         buf_contents br' @ stream (br_f br') = rest))"
proof -
  from evr_writer.search_cmd_sends [OF assms(1,3,2)] obtain d rs where d: "ix_open e (evr_fmt_blob_ref (take evr_blob_ref_size (ix_ref e))) = Some d"
    and q: "evr_attr_query_claims S (ix_query e) report_ok collect_seed q d [] = (Ret Evr_ok, rs)"
    and w: "sink (ic_socket ctx') = sink (ic_socket ctx) @ text_bytes (search_status_line (ix_query e) q @ [CHR 0x0A] @
      concat (map (\<lambda>(s, kvs). result_text s kvs) rs) @ [CHR 0x0A])" by blast
  have v: "br_valid valid br" using assms(5,6) by (simp add: br_valid_def)
  have "br_stream stream br = text_bytes (search_status_line (ix_query e) q @ [CHR 0x0A] @
      concat (map (\<lambda>(s, kvs). result_text s kvs) rs) @ [CHR 0x0A]) @ rest"
    unfolding br_stream_def assms(7) w append_eq_conv_conj by simp
  with evr_reliable_reader.read_search_response [OF assms(4) v assms(8)] assms(9) d q show ?thesis
    by (auto simp: br_stream_def)
qed

text \<open>A query that succeeds when its results are collected succeeds with every visitor that accepts them.\<close>

lemma query_claims_total:
  assumes st: "\<And>c r m. P c \<Longrightarrow> \<exists>c1. status c r m = (Evr_ok, c1) \<and> P c1" and vs: "\<And>c s kvs. P c \<Longrightarrow> \<exists>c1. visit c s kvs = (Evr_ok, c1) \<and> P c1"
    and "P c" "evr_attr_query_claims S env report_ok collect_seed q d [] = (Ret Evr_ok, rs)"
  shows "\<exists>c1. evr_attr_query_claims S env status visit q d c = (Ret Evr_ok, c1) \<and> P c1"
proof -
  have loop: "\<exists>c1. query_rows_loop S env visit aq d ended seeds f a c = (Ret Evr_ok, fk, c1) \<and> P c1"
    if "P c" "query_rows_loop S env collect_seed aq d ended seeds f a xs = (Ret Evr_ok, fk, ys)" for aq ended seeds f a c xs fk ys
    using that
  proof (induction seeds arbitrary: f a c xs)
    case (Cons s seeds)
    obtain res f1 a1 kvs where x: "evr_collect_selected_attrs S env d (aq_selector aq) (aq_effective_time aq) s f a = (res, f1, a1, kvs)"
      using prod_cases4 by blast
    obtain c1 where c1: "visit c s kvs = (Evr_ok, c1)" "P c1" using vs [OF Cons.prems(1)] by blast
    from Cons.prems(2) x have "length s = evr_claim_ref_size" "res = Ret Evr_ok"
      "query_rows_loop S env collect_seed aq d ended seeds f1 a1 (xs @ [(s, kvs)]) = (Ret Evr_ok, fk, ys)"
      by (auto simp: collect_seed_def [of xs s kvs] split: if_splits exec.splits)
    with Cons.IH [OF c1(2)] x c1 show ?case by simp
  qed (auto split: if_splits)
  obtain query err where pq: "qe_parse env q = (query, err)" by fastforce
  show ?thesis
  proof (cases query)
    case None
    with pq st [OF assms(3), of Evr_error err] show ?thesis by (auto simp: evr_attr_query_claims_def)
  next
    case (Some aq)
    obtain c0 where c0: "status c Evr_ok None = (Evr_ok, c0)" "P c0" using st [OF assms(3)] by blast
    have run: "run_query S env collect_seed aq d [] = (Ret Evr_ok, rs)"
      using assms(4) pq Some by (simp add: evr_attr_query_claims_def report_ok_def)
    then obtain sql vals where sql: "evr_attr_build_sql_query (qe_page_size env) (qe_malloc env) (qe_realloc env) (aq_root aq) = Some sql"
      and pr: "qe_prepare env" and b: "bind_query (qe_bind env) aq = Some vals"
      by (auto simp: run_query_def split: option.splits if_splits)
    obtain seeds ended where rows: "qe_rows env d (c_text (da_data sql)) vals = (seeds, ended)" by fastforce
    obtain res fk ys where l: "query_rows_loop S env collect_seed aq d ended seeds False False [] = (res, fk, ys)"
      using prod_cases3 by blast
    have ok: "res = Ret Evr_ok" "\<not> (fk \<and> \<not> qe_close env)"
      using run sql pr b rows l by (auto simp: run_query_def split: if_splits)
    from loop [OF c0(2) l [unfolded ok(1)]] ok(2) sql pr b rows pq Some c0(1) show ?thesis
      by (auto simp: evr_attr_query_claims_def run_query_def)
  qed
qed

text \<open>Over a descriptor whose calls succeed.\<close>

lemma fd_send: "fd_io (ic_socket ctx) = [] \<Longrightarrow> \<exists>ctx'. send_text evr_file_fd_write s ctx = (Evr_ok, ctx') \<and> fd_io (ic_socket ctx') = []"
  by (cases s)
    (simp_all add: send_text_def write_n.simps evr_file_fd_write_def next_io_def io_amount_def Let_def)

lemma fd_search_cmd:
  assumes "fd_io (ic_socket ctx) = []" "ix_wait e = Evr_ok" "ix_unlock e" "ix_free e"
    "ix_open e (evr_fmt_blob_ref (take evr_blob_ref_size (ix_ref e))) = Some d"
    "evr_attr_query_claims S (ix_query e) report_ok collect_seed q d [] = (Ret Evr_ok, rs)"
  shows "\<exists>ctx'. evr_work_search_cmd S evr_file_fd_write e (Some q) ctx = (Ret Evr_ok, ctx')"
proof -
  let ?P = "\<lambda>c :: fd_file index_connection. fd_io (ic_socket c) = []"
  have "\<exists>c1. evr_attr_query_claims S (ix_query e) (evr_respond_search_status evr_file_fd_write)
      (evr_respond_search_result evr_file_fd_write) q d ctx = (Ret Evr_ok, c1) \<and> ?P c1"
  proof (rule query_claims_total [where P = ?P, OF _ _ assms(1,6)])
    fix c :: "fd_file index_connection" and r m assume "?P c"
    then show "\<exists>c1. evr_respond_search_status evr_file_fd_write c r m = (Evr_ok, c1) \<and> ?P c1"
      using fd_send by (simp add: evr_respond_search_status_def evr_respond_status_def)
  next
    fix c :: "fd_file index_connection" and s kvs assume "?P c"
    from fd_send [OF this, of "result_text s kvs"]
    show "\<exists>c1. evr_respond_search_result evr_file_fd_write c s kvs = (Evr_ok, c1) \<and> ?P c1"
      by (auto simp: evr_respond_search_result_def)
  qed
  then obtain c1 where c1: "evr_attr_query_claims S (ix_query e) (evr_respond_search_status evr_file_fd_write)
      (evr_respond_search_result evr_file_fd_write) q d ctx = (Ret Evr_ok, c1)" "?P c1" by blast
  from fd_send [OF c1(2), of "[CHR 0x0A]"] assms(2-5) c1(1) show ?thesis
    by (auto simp: evr_work_search_cmd_def evr_get_current_index_ref_def free_index_db_def evr_respond_message_end_def)
qed

definition demo_search_env :: "attr_table_db query_env \<Rightarrow> attr_table_db index_env" where
  "demo_search_env qe = demo_index_env\<lparr>ix_open := (\<lambda>_. Some visible_db), ix_query := qe\<rparr>"

definition demo_connection :: "fd_file index_connection" where
  "demo_connection = \<lparr>ic_socket = \<lparr>fd_in = [], fd_out = [], fd_io = []\<rparr>, ic_authenticated = True\<rparr>"

definition demo_reader :: "bytes \<Rightarrow> fd_file evr_buf_read" where
  "demo_reader bs = \<lparr>br_f = \<lparr>fd_in = bs, fd_out = [], fd_io = [Io_short 5]\<rparr>, br_read_i = 0, br_write_i = 0,
     br_buf = replicate 128 0, br_buf_size = 128\<rparr>"

lemma demo_reader_ring:
  "buf_read_inv (demo_reader bs)" "buf_contents (demo_reader bs) @ fd_in (br_f (demo_reader bs)) = bs"
  "fd_never_fails (br_f (demo_reader bs))" "br_buf_size (demo_reader bs) = 128"
proof -
  show inv: "buf_read_inv (demo_reader bs)" by (auto simp: demo_reader_def buf_read_inv_def intro!: exI [of _ 7])
  have "evr_buf_read_bytes_ready (demo_reader bs) = 0" using ready_cases [OF inv] by (simp add: demo_reader_def)
  then show "buf_contents (demo_reader bs) @ fd_in (br_f (demo_reader bs)) = bs" by (simp add: buf_contents_def demo_reader_def)
qed (simp_all add: demo_reader_def fd_never_fails_def)

section \<open>Properties\<close>

text \<open>
  C12: What a search finds arrives. When the server has answered a search with success and the bytes it sent are what the file
  of a client delivers, in whatever pieces, then the query, run on the database of the current index, has results, and
  \<^verbatim>\<open>evr_attri_read_search\<close> returns \<^verbatim>\<open>evr_ok\<close> having visited exactly these seeds with exactly these attributes in
  this order, and leaves the rest of the stream for the next response. This holds if the lines fit into the ring of the
  client and the keys and values hold no newline and no zero and the keys no equals sign, which the server does not escape.
\<close>

theorem search_results_arrive:
  assumes "evr_writer wr sink wvalid" "wvalid (ic_socket ctx)" "evr_work_search_cmd S wr e (Some q) ctx = (Ret Evr_ok, ctx')"
    "evr_reliable_reader rd stream valid" "buf_read_inv br" "valid (br_f br)"
    "buf_contents br @ stream (br_f br) = drop (length (sink (ic_socket ctx))) (sink (ic_socket ctx')) @ rest"
    "fst (qe_parse (ix_query e) q) \<noteq> None" "3 < br_buf_size br"
  shows "\<exists>d rs. ix_open e (evr_fmt_blob_ref (take evr_blob_ref_size (ix_ref e))) = Some d \<and>
    evr_attr_query_claims S (ix_query e) report_ok collect_seed q d [] = (Ret Evr_ok, rs) \<and>
    (list_all (wire_result (br_buf_size br)) rs \<longrightarrow>
      (\<exists>br'. evr_attri_read_search rd (Some note_seed) (Some note_attr) br [] = Some (Evr_ok, br', rs) \<and>
         buf_contents br' @ stream (br_f br') = rest))"
proof -
  have "search_status_line (ix_query e) q = ''OK''" using assms(8) by (auto simp: search_status_line_def split: prod.splits)
  with assms(9) show ?thesis by (intro search_read_back [OF assms(1-7)]) simp_all
qed

theorem search_results_arrive_witness:
  "\<exists>ctx' br'. evr_work_search_cmd attr_table_ops evr_file_fd_write (demo_search_env (calm_env (demo_query (Ref_cnd demo_seed)))) (Some ''x'') demo_connection
      = (Ret Evr_ok, ctx') \<and>
    evr_attri_read_search evr_file_fd_read (Some note_seed) (Some note_attr) (demo_reader (fd_out (ic_socket ctx'))) [] =
      Some (Evr_ok, br', [(demo_seed, [])])"
proof -
  let ?q = "demo_query (Ref_cnd demo_seed)" and ?e = "demo_search_env (calm_env (demo_query (Ref_cnd demo_seed)))"
  have len: "length demo_seed = evr_claim_ref_size" by (simp add: demo_seed_def evr_layout)
  have run: "evr_attr_query_claims attr_table_ops (ix_query ?e) report_ok collect_seed ''x'' visible_db [] = (Ret Evr_ok, [(demo_seed, [])])"
    using calm_query [of ?q visible_db "[demo_seed]"] archived_db_selected(1) len by (simp add: demo_query_def sql_window_def demo_search_env_def)
  have "\<exists>ctx'. evr_work_search_cmd attr_table_ops evr_file_fd_write ?e (Some ''x'') demo_connection = (Ret Evr_ok, ctx')"
    by (rule fd_search_cmd [OF _ _ _ _ _ run]) (simp_all add: demo_connection_def demo_search_env_def demo_index_env_def)
  then obtain ctx' where s: "evr_work_search_cmd attr_table_ops evr_file_fd_write ?e (Some ''x'') demo_connection = (Ret Evr_ok, ctx')" ..
  let ?br = "demo_reader (fd_out (ic_socket ctx'))"
  have "fst (qe_parse (ix_query ?e) ''x'') \<noteq> None" "ix_open ?e = (\<lambda>_. Some visible_db)"
    by (simp_all add: demo_search_env_def calm_env_def)
  moreover have "list_all (wire_result 128) [(demo_seed, [])]" using len by (simp add: wire_result_def evr_layout)
  moreover have "buf_contents ?br @ fd_in (br_f ?br) = drop (length (fd_out (ic_socket demo_connection))) (fd_out (ic_socket ctx')) @ []"
    using demo_reader_ring(2) by (simp add: demo_connection_def)
  note search_results_arrive [OF fd_wr.evr_writer_axioms TrueI s fd_rel.evr_reliable_reader_axioms demo_reader_ring(1,3) this]
  ultimately show ?thesis using s run demo_reader_ring(4) by auto
qed

text \<open>
  C16: A refused search looks like an empty one. When the query can not be parsed, the server sends a status line that begins
  with \<^verbatim>\<open>ERROR\<close>; \<^verbatim>\<open>evr_attri_read_status\<close> logs it and returns \<^verbatim>\<open>evr_ok\<close>, so that \<^verbatim>\<open>evr_attri_read_search\<close> reports success
  and visits nothing, as for a query that finds nothing.
\<close>

theorem refused_search_looks_empty:
  assumes "evr_writer wr sink wvalid" "wvalid (ic_socket ctx)" "evr_work_search_cmd S wr e (Some q) ctx = (Ret Evr_ok, ctx')"
    "evr_reliable_reader rd stream valid" "buf_read_inv br" "valid (br_f br)"
    "buf_contents br @ stream (br_f br) = drop (length (sink (ic_socket ctx))) (sink (ic_socket ctx')) @ rest"
    "qe_parse (ix_query e) q = (None, Some msg)" "wire_text msg" "length msg + 7 < br_buf_size br"
  shows "\<exists>br'. evr_attri_read_search rd (Some note_seed) (Some note_attr) br [] = Some (Evr_ok, br', []) \<and>
    buf_contents br' @ stream (br_f br') = rest"
proof -
  have "search_status_line (ix_query e) q = ''ERROR '' @ msg" using assms(8) by (simp add: search_status_line_def)
  then have "wire_text (search_status_line (ix_query e) q)" "length (search_status_line (ix_query e) q) + 1 < br_buf_size br"
    using assms(9,10) by simp_all
  from search_read_back [OF assms(1-7) this] show ?thesis
    using assms(8) by (auto simp: evr_attr_query_claims_def report_ok_def)
qed

theorem refused_search_looks_empty_witness:
  "\<exists>ctx' br'. evr_work_search_cmd attr_table_ops evr_file_fd_write (demo_search_env (demo_query_env\<lparr>qe_parse := (\<lambda>_. (None, Some ''syntax error''))\<rparr>))
      (Some ''x'') demo_connection = (Ret Evr_ok, ctx') \<and>
    evr_attri_read_search evr_file_fd_read (Some note_seed) (Some note_attr) (demo_reader (fd_out (ic_socket ctx'))) [] = Some (Evr_ok, br', [])"
proof -
  let ?e = "demo_search_env (demo_query_env\<lparr>qe_parse := (\<lambda>_. (None, Some ''syntax error''))\<rparr>)"
  have p: "qe_parse (ix_query ?e) ''x'' = (None, Some ''syntax error'')" by (simp add: demo_search_env_def)
  then have run: "evr_attr_query_claims attr_table_ops (ix_query ?e) report_ok collect_seed ''x'' visible_db [] = (Ret Evr_ok, [])"
    by (simp add: evr_attr_query_claims_def report_ok_def)
  have "\<exists>ctx'. evr_work_search_cmd attr_table_ops evr_file_fd_write ?e (Some ''x'') demo_connection = (Ret Evr_ok, ctx')"
    by (rule fd_search_cmd [OF _ _ _ _ _ run]) (simp_all add: demo_connection_def demo_search_env_def demo_index_env_def)
  then obtain ctx' where s: "evr_work_search_cmd attr_table_ops evr_file_fd_write ?e (Some ''x'') demo_connection = (Ret Evr_ok, ctx')" ..
  let ?br = "demo_reader (fd_out (ic_socket ctx'))"
  have "buf_contents ?br @ fd_in (br_f ?br) = drop (length (fd_out (ic_socket demo_connection))) (fd_out (ic_socket ctx')) @ []"
    using demo_reader_ring(2) by (simp add: demo_connection_def)
  from refused_search_looks_empty [OF fd_wr.evr_writer_axioms TrueI s fd_rel.evr_reliable_reader_axioms demo_reader_ring(1,3) this p]
    demo_reader_ring(4) s show ?thesis by auto
qed

end
