(* ===== verification/Spec2Isabelle.thy ===== *)
theory Spec2Isabelle
  imports File_Mem Split Buf_Read Handover Virtual_Fs_Correct Glacier_Reindex Claim_Set_Correct Index_Protocol
begin

text \<open>
  A verification development for everarch, an archive that stores blobs under their digest, describes them by
  signed claims and shows them as a file system. All source paths below are relative to \<^verbatim>\<open>src/\<close> of the repository.

  \<^bold>\<open>The program.\<close> Clients split files into slices at positions a rolling checksum chooses (\<^verbatim>\<open>rollsum.c\<close>,
  \<^verbatim>\<open>files.c\<close>) and put every slice as a blob under its SHA3-224 reference (\<^verbatim>\<open>keys.c\<close>) to the storage server
  (\<^verbatim>\<open>evr-glacier-storage.c\<close>) over the binary protocol of \<^verbatim>\<open>glacier-cmd.c\<close>. The server queues received blobs to
  one persister thread (\<^verbatim>\<open>concurrent-glacier.c\<close>), which appends them to bucket files and to an index database, the
  glacier (\<^verbatim>\<open>glacier.c\<close>). Documents of claims (\<^verbatim>\<open>claims.c\<close>) are blobs as well; the index server
  (\<^verbatim>\<open>evr-attr-index.c\<close>, \<^verbatim>\<open>attr-index-db.c\<close>) watches the storage server for them and merges their attributes into
  tables that give the value of an attribute at any time. The virtual file system (\<^verbatim>\<open>evr-fs.c\<close>, \<^verbatim>\<open>fs-inode.c\<close>,
  \<^verbatim>\<open>open-files.c\<close>) turns seeds of the index into inodes and reads slices from the storage server. Threads
  exchange values through queues (\<^verbatim>\<open>queue.c\<close>), a table of observers (\<^verbatim>\<open>notify.c\<close>) and a slot (\<^verbatim>\<open>handover.c\<close>).

  \<^bold>\<open>Conventions.\<close> Bytes are \<open>8 word\<close>. Integers of C keep their width where the code can overflow, also the shifts and products that
  compute the size of a queue or of a ring buffer: what C leaves undefined is \<open>Undef\<close>, a \<^verbatim>\<open>size_t\<close> wraps. A function returns its
  \<^verbatim>\<open>evr_\<close> code as \<open>evr_code\<close>; \<open>exec\<close> adds \<open>Panic\<close> for \<^verbatim>\<open>evr_panic\<close> and \<open>Undef\<close> for behaviour C leaves undefined
  (a null pointer, an uninitialised value, an index behind an array), which theorems exclude or exhibit. The terminating zero that
  \<^verbatim>\<open>evr_time_from_iso8601\<close> writes one byte behind its array is \<open>Undef\<close> too, unless \<open>spare\<close>, an argument of all functions that
  parse a time, says that nothing else uses this byte. State is
  passed explicitly. Whether a lock, an allocation or a system call succeeds is an argument or part of a world
  that scripts the calls, so that a theorem without a premise on it holds for all failures. Code outside of the
  repository is a parameter: SQLite (\<open>index_db\<close>, \<open>attr_stmts\<close>), SHA3-224, the text writer of libxml (\<open>xml_text_writer\<close>) and its
  parser, libxslt, sockets, FUSE. The locales \<open>sqlite_index\<close>, \<open>sqlite_reliable\<close>, \<open>sqlite_attr\<close>, \<open>sqlite_attr_reliable\<close>,
  \<open>sqlite_query\<close>, \<open>text_writer\<close>, \<open>evr_reader\<close>, \<open>evr_socket\<close> state what the code relies on; they are interpreted on list databases,
  on a writer that keeps the tree of what it wrote and on a scripted descriptor, which
  the witnesses of the theorems use. The document that the parser of libxml returns is data of the model, a tree of
  elements; the accessors of its attributes (\<^verbatim>\<open>xmlGetProp\<close>, \<^verbatim>\<open>xmlGetNsProp\<close>, \<^verbatim>\<open>xmlSetProp\<close>) are functions on this tree.

  \<^bold>\<open>Foundations.\<close>
  \<^item> \<open>Prelude\<close>: words, bytes, big-endian numbers, hexadecimal digits, lists. \<open>C_Lib\<close>: \<^verbatim>\<open>strncmp\<close> and \<^verbatim>\<open>sscanf\<close>.
  \<^item> \<open>Basics\<close>, \<open>Iso_Time\<close> (\<^verbatim>\<open>basics.c\<close>): the cursor \<open>evr_buf_pos\<close> with its codecs, trimming and splitting, the back-off delay,
    times as ISO 8601 texts, which are parsed back when the byte behind the array is spare.
  \<^item> \<open>Dyn_Mem\<close> (\<^verbatim>\<open>dyn-mem.c\<close>), \<open>File_Mem\<close> (\<^verbatim>\<open>file-mem.c\<close>): byte arrays, chunk sets, linked buffers; files in memory.
  \<^item> \<open>Files\<close>, \<open>Split\<close>, \<open>Buf_Read\<close> (\<^verbatim>\<open>files.c\<close>): transfers over any \<open>evr_file\<close>, the rolling splitter, the ring buffer
    for line protocols. The slices of a file join to the file and keep their bounds; a sentinel is found at its first place.
  \<^item> \<open>Roll_Sum\<close> (\<^verbatim>\<open>rollsum.c\<close>): the unrolled update is the roll-in of each byte, at 64 bits.
  \<^item> \<open>Keys\<close> (\<^verbatim>\<open>keys.c\<close>), \<open>Auth\<close> (\<^verbatim>\<open>auth.c\<close>): references, their texts and the hash table of claim references; tokens.

  \<^bold>\<open>The glacier\<close> (\<^verbatim>\<open>glacier.c\<close>).
  \<^item> \<open>Index_Db\<close>: the statements on the index database. \<open>Bucket_Format\<close>, \<open>Bucket_Io\<close>: the records and the world of files.
  \<^item> \<open>Glacier\<close>, \<open>Glacier_Index\<close>: append, read, stat, list, walk, reindex, the check at startup, one definition per function.
  \<^item> \<open>Glacier_Append\<close>, \<open>Glacier_Inv\<close>, \<open>Glacier_Store\<close>, \<open>Glacier_Progress\<close>, \<open>Glacier_Read\<close>, \<open>Glacier_Walk\<close>, \<open>Glacier_Reindex\<close>:
    the abstraction of the glacier is a map from references to flags and data. A successful append to a bucket that is a file extends the
    map, a failed one loses nothing, a read is a lookup, the walk visits the records that were appended and rebuilding the
    index from the buckets gives the references whose data has their digest.

  \<^bold>\<open>Threads.\<close>
  \<^item> \<open>Queue\<close> (\<^verbatim>\<open>queue.c\<close>), \<open>Notify\<close> (\<^verbatim>\<open>notify.c\<close>), \<open>Persister\<close> (\<^verbatim>\<open>concurrent-glacier.c\<close>), \<open>Handover\<close> (\<^verbatim>\<open>handover.c\<close>):
    the operations inside their locks, and step relations that interleave the threads. What is accepted is delivered once
    and in order, a blob that is acknowledged in a run without failures of the disk is in the glacier, the exchange does not deadlock.

  \<^bold>\<open>Client and server.\<close>
  \<^item> \<open>Glacier_Cmd\<close> (\<^verbatim>\<open>glacier-cmd.c\<close>), \<open>Storage_Server\<close> (\<^verbatim>\<open>evr-glacier-storage.c\<close>), \<open>Glacier_Client\<close>
    (\<^verbatim>\<open>evr-glacier-client.c\<close>), \<open>Storage_Correct\<close>: the codecs and every handler over any socket. A put that is acknowledged is
    stored, a get sends what the glacier holds, a client that succeeds got the bytes with their digest, and without
    the token nothing is sent.

  \<^bold>\<open>The attribute index.\<close>
  \<^item> \<open>Claims\<close>, \<open>Claims_Correct\<close> (\<^verbatim>\<open>claims.c\<close>): a document is a tree of elements and attributes. The parsers of all
    claims, the annotation and the writing of claim sets over any text writer; what is written is parsed back.
  \<^item> \<open>Attr_Db\<close>, \<open>Attr_Index\<close>, \<open>Attr_Merge\<close>, \<open>Attr_Correct\<close> (\<^verbatim>\<open>attr-index-db.c\<close>): the merge of attributes. The
    specification is the history: the list of operations, applied in order up to a time with the meaning that
    \<^verbatim>\<open>doc/evr-attr-index/attr-merge-operations.org\<close> gives them. The tables
    represent the history when the operations on each attribute come in strictly increasing order of their times, additions have
    a value and removals none. A removal of a value keeps exactly this value, as a theorem shows, and an example shows that
    claims that are merged late or at the same time overlap.
  \<^item> \<open>Claim_Set\<close>, \<open>Claim_Set_Correct\<close> (\<^verbatim>\<open>attr-index-db.c\<close>, \<^verbatim>\<open>evr_index_claim_set\<close> of \<^verbatim>\<open>evr-attr-index.c\<close>): annotation,
    attribute factories, stylesheet and merge of a whole claim set, and indexing failed ones again. A successful merge
    extends the history; a failed one leaves the claim set marked as indexed.
  \<^item> \<open>Attr_Query\<close>, \<open>Sql_Cond\<close>, \<open>Attr_Query_Correct\<close> (\<^verbatim>\<open>attr-query-sql.c\<close>, \<^verbatim>\<open>attr-index-db.c\<close>): the text of SQL that is
    built for a query and the values that are bound, the part of the grammar of SQL the texts use, and what SQLite selects by it.
    A query finds what matches in the history; the text of an alternative lacks parentheses and finds more.

  \<^item> \<open>Index_Server\<close>, \<open>Index_Server_Correct\<close> (\<^verbatim>\<open>evr-attr-index.c\<close>), \<open>Index_Client\<close> (\<^verbatim>\<open>evr-attr-index-client.c\<close>),
    \<open>Index_Protocol\<close>: the connections of the index server, line by line, and the client that reads its responses. Without the
    token a connection shows nothing of the index; one command crashes the server. What a search finds is what
    the client visits; a search that is refused looks to it like one that finds nothing.

  \<^bold>\<open>The virtual file system.\<close>
  \<^item> \<open>Fs_Inode\<close>, \<open>Fs_Tree\<close> (\<^verbatim>\<open>fs-inode.c\<close>), \<open>Open_Files\<close> (\<^verbatim>\<open>open-files.c\<close>), \<open>Virtual_Fs\<close>, \<open>Virtual_Fs_Correct\<close>
    (\<^verbatim>\<open>evr-fs.c\<close>): the inodes are a tree, creating a file gives it its path and removing it prunes empty directories;
    lookups resolve paths, reads give the requested range of the joined slices, and a changed seed is rebuilt.

  \<^bold>\<open>Loops.\<close> Loops over data are structural recursion. Loops that end by a decreasing measure are \<open>function\<close>s
  with a termination proof. Loops that may run forever, such as the read loop of
  \<^verbatim>\<open>evr_glacier_read_blob\<close>, the transfers of descriptors and the loops of connections, are \<open>partial_function (option)\<close>, so that not
  returning is \<open>None\<close>; that they return is proved where the code is meant to, and for
  \<^verbatim>\<open>evr_glacier_read_blob\<close> a theorem says exactly when it does. No definition of the program uses fuel; the parser of SQL texts in \<open>Sql_Cond\<close> bounds its depth by the length of the text, which
  \<open>statement_of_query\<close> shows to be enough.

  \<^bold>\<open>Not modelled.\<close> The parts whose behaviour is that of libraries: main functions, option parsing (argp), listening and
  connecting (\<^verbatim>\<open>evr-tls.c\<close>, \<^verbatim>\<open>server.c\<close>), processes and logging (\<^verbatim>\<open>subprocess.c\<close>, \<^verbatim>\<open>daemon.c\<close>, \<^verbatim>\<open>logger.c\<close>),
  signatures (\<^verbatim>\<open>signatures.c\<close>), libmicrohttpd (\<^verbatim>\<open>evr-upload-httpd.c\<close>), the grammar of queries (flex and
  bison); the command line client (\<^verbatim>\<open>evr-cli.c\<close>), the file system over raw blobs (\<^verbatim>\<open>evr-glacier-fs.c\<close>), the threads of the
  index server that build an index, and seed descriptions (\<^verbatim>\<open>seed-desc.c\<close>), which sequence calls of modelled functions and of libraries.
\<close>

end
